(* ===== verification/MLVM_Prelude.thy ===== *)
theory MLVM_Prelude
  imports "HOL-Library.Word" "HOL-Library.While_Combinator"
begin

text \<open>
  Shared vocabulary of the development: the 32-bit words of the machine, the
  store they live in, C's loops as while_option, and the generic lemmas the
  components use.  A C int, unsigned int or pointer is a 32 word; a store maps
  byte addresses to the word found there, so int* arithmetic p + n is p + 4 * n.
\<close>

unbundle bit_operations_syntax

named_theorems tag_simps \<open>facts about the tag macros of opcode.h\<close>
named_theorems vm_defs \<open>the engine's control macros, unfolded when an instruction is executed\<close>
named_theorems queue_simps \<open>facts about the pointer queues\<close>

type_synonym word32 = "32 word"
type_synonym addr = "32 word"
type_synonym store = "32 word \<Rightarrow> 32 word"

text \<open>C's pointer arithmetic on int*: p + n, p - n and the difference p - q.\<close>

abbreviation padd :: "addr \<Rightarrow> word32 \<Rightarrow> addr" where
  "padd p n \<equiv> p + 4 * n"

abbreviation psub :: "addr \<Rightarrow> word32 \<Rightarrow> addr" where
  "psub p n \<equiv> p - 4 * n"

definition pdiff :: "addr \<Rightarrow> addr \<Rightarrow> word32" where
  "pdiff p q = signed_drop_bit 2 (p - q)"

text \<open>C's signed quotient and remainder truncate toward zero.\<close>

definition cdiv :: "word32 \<Rightarrow> word32 \<Rightarrow> word32" where
  "cdiv x y = word_of_int (if (sint x < 0) = (sint y < 0) then \<bar>sint x\<bar> div \<bar>sint y\<bar>
                           else - (\<bar>sint x\<bar> div \<bar>sint y\<bar>))"

definition cmod :: "word32 \<Rightarrow> word32 \<Rightarrow> word32" where
  "cmod x y = word_of_int (if sint x < 0 then - (\<bar>sint x\<bar> mod \<bar>sint y\<bar>)
                           else \<bar>sint x\<bar> mod \<bar>sint y\<bar>)"

text \<open>Facts on loops: the value of a terminating loop is reached by iterating
  its body, and a property its body preserves holds of the value.\<close>

lemma while_option_step:
  assumes "b s"
  shows "while_option b c s = while_option b c (c s)"
  using assms by (subst while_option_unfold) simp

lemma while_option_done:
  assumes "\<not> b s"
  shows "while_option b c s = Some s"
  using assms by (subst while_option_unfold) simp

lemma while_option_iterate:
  assumes "while_option b c s = Some t"
  shows "\<exists>k. t = (c ^^ k) s \<and> \<not> b t \<and> (\<forall>j<k. b ((c ^^ j) s))"
proof -
  let ?k = "LEAST k. \<not> b ((c ^^ k) s)"
  have t: "t = (c ^^ ?k) s" and ex: "\<exists>k. \<not> b ((c ^^ k) s)"
    using assms unfolding while_option_def by (auto split: if_splits)
  have "\<not> b ((c ^^ ?k) s)" using LeastI_ex [OF ex] .
  moreover have "b ((c ^^ j) s)" if "j < ?k" for j using not_less_Least [OF that] by simp
  ultimately show ?thesis using t by blast
qed

lemma while_option_ends:
  assumes "\<not> b ((c ^^ k) s)"
  shows "\<exists>t. while_option b c s = Some t"
  using assms unfolding while_option_def by auto

lemma while_option_invariant:
  assumes "while_option b c s = Some t"
    and "P s"
    and "\<And>s. P s \<Longrightarrow> b s \<Longrightarrow> P (c s)"
  shows "P t \<and> \<not> b t"
  using while_option_rule [where P = P, OF _ assms(1,2)] while_option_stop [OF assms(1)] assms(3)
  by blast

lemma while_option_diverges:
  assumes "P s" and "\<And>s. P s \<Longrightarrow> b s \<and> P (c s)"
  shows "while_option b c s = None"
proof (rule ccontr)
  assume "while_option b c s \<noteq> None"
  then obtain t where t: "while_option b c s = Some t" by auto
  have "P t \<and> \<not> b t"
    by (rule while_option_invariant [where P = P, OF t]) (use assms in blast)+
  with assms(2) show False by blast
qed

text \<open>Word arithmetic shared by the address computations.\<close>

lemma word_plus_neq [simp]:
  fixes p :: "32 word"
  shows "(p + d = p) = (d = 0)"
  by simp

lemma unat_add_lt:
  fixes p :: "32 word"
  assumes "unat p + n < 2 ^ 32"
  shows "unat (p + of_nat n) = unat p + n"
  using assms by (simp add: unat_word_ariths take_bit_nat_eq_self unat_of_nat)

text \<open>Two argument lists agree when their first elements and, from the last down, the others do.\<close>

lemma map_upt_eq_iff:
  assumes "1 \<le> a"
  shows "(map f [1..<Suc a] = map g [1..<Suc a]) = (f 1 = g 1 \<and> (\<forall>i<a - 1. f (a - i) = g (a - i)))"
proof
  assume "map f [1..<Suc a] = map g [1..<Suc a]"
  hence "\<forall>i\<in>{1..a}. f i = g i" by auto
  thus "f 1 = g 1 \<and> (\<forall>i<a - 1. f (a - i) = g (a - i))" using assms by auto
next
  assume B: "f 1 = g 1 \<and> (\<forall>i<a - 1. f (a - i) = g (a - i))"
  have "f i = g i" if "1 \<le> i" "i \<le> a" for i
  proof (cases "i = 1")
    case False
    hence "a - i < a - 1" "a - (a - i) = i" using that by auto
    thus ?thesis using B by metis
  qed (use B in simp)
  thus "map f [1..<Suc a] = map g [1..<Suc a]" by (intro map_cong [OF refl]) auto
qed

end
