(* ===== verification/MLVM_Tags.thy ===== *)
theory MLVM_Tags
  imports MLVM_Prelude
begin

text \<open>
  Tagged terms: the constants and macros of opcode/opcode.h (tags, masks,
  constructors and accessors) and the boxed doubles of opcode/opcode.c.  Every
  macro is a definition on 32-bit words; a macro that dereferences its argument
  also takes the store.
\<close>

section \<open>Constants\<close>

abbreviation ASCII_SIZE :: word32 where "ASCII_SIZE \<equiv> 128"
abbreviation MAX_ARITY :: nat where "MAX_ARITY \<equiv> 511"

definition MLVM_ZERO :: word32 where "MLVM_ZERO = 0x00000003"
definition MLVM_NONE :: word32 where "MLVM_NONE = 0xfffffffb"
definition MLVM_ONE :: word32 where "MLVM_ONE = 0x0000000b"
definition MLVM_NOTAG_ONE :: word32 where "MLVM_NOTAG_ONE = 0x00000008"

definition REF_TAG :: word32 where "REF_TAG = 0"
definition LIS_TAG :: word32 where "LIS_TAG = 1"
definition STR_TAG :: word32 where "STR_TAG = 2"
definition CST_TAG :: word32 where "CST_TAG = 3"
definition INT_TAG :: word32 where "INT_TAG = 3"
definition CON_TAG :: word32 where "CON_TAG = 7"
definition FVL_TAG :: word32 where "FVL_TAG = 0xffffffff"

definition TG2_MASK :: word32 where "TG2_MASK = 3"
definition TG3_MASK :: word32 where "TG3_MASK = 7"
definition ADR_MASK :: word32 where "ADR_MASK = 0xfffffffc"
definition FUN_MASK :: word32 where "FUN_MASK = 0x007fffff"

lemmas tag_consts =
  REF_TAG_def LIS_TAG_def STR_TAG_def CST_TAG_def INT_TAG_def CON_TAG_def FVL_TAG_def
  TG2_MASK_def TG3_MASK_def ADR_MASK_def FUN_MASK_def
  MLVM_ZERO_def MLVM_NONE_def MLVM_ONE_def MLVM_NOTAG_ONE_def

section \<open>Macros\<close>

definition addr :: "word32 \<Rightarrow> addr" where "addr t = t AND ADR_MASK"
definition tag :: "word32 \<Rightarrow> word32" where "tag t = t AND TG2_MASK"
definition tag3 :: "word32 \<Rightarrow> word32" where "tag3 t = t AND TG3_MASK"

definition is_cst :: "word32 \<Rightarrow> bool" where "is_cst t = (tag t = CST_TAG)"
definition is_con :: "word32 \<Rightarrow> bool" where "is_con t = (tag3 t = CON_TAG)"
definition is_int :: "word32 \<Rightarrow> bool" where "is_int t = (tag3 t = INT_TAG)"
definition is_list :: "word32 \<Rightarrow> bool" where "is_list t = (tag t = LIS_TAG)"
definition is_str :: "word32 \<Rightarrow> bool" where "is_str t = (tag t = STR_TAG)"
definition is_var :: "word32 \<Rightarrow> bool" where "is_var t = (tag t = REF_TAG)"
definition is_float :: "store \<Rightarrow> word32 \<Rightarrow> bool" where
  "is_float m t = (tag t = STR_TAG \<and> m (addr t) = FVL_TAG)"

definition is_self_ref :: "store \<Rightarrow> word32 \<Rightarrow> bool" where "is_self_ref m t = (m t = t)"
definition not_self_ref :: "store \<Rightarrow> word32 \<Rightarrow> bool" where "not_self_ref m t = (m t \<noteq> t)"

definition make_list :: "addr \<Rightarrow> word32" where "make_list p = p OR LIS_TAG"
definition make_str :: "addr \<Rightarrow> word32" where "make_str p = p OR STR_TAG"
definition make_flp :: "addr \<Rightarrow> word32" where "make_flp p = p OR STR_TAG"
definition make_ref :: "addr \<Rightarrow> word32" where "make_ref p = p"

definition make_int :: "word32 \<Rightarrow> word32" where "make_int x = push_bit 3 x OR INT_TAG"
definition make_con :: "word32 \<Rightarrow> word32" where "make_con x = push_bit 3 x OR CON_TAG"
definition make_fun :: "word32 \<Rightarrow> word32 \<Rightarrow> word32" where
  "make_fun f a = push_bit 23 a OR push_bit 3 f OR CON_TAG"

definition int_value :: "word32 \<Rightarrow> word32" where "int_value x = signed_drop_bit 3 x"
definition con_value :: "word32 \<Rightarrow> word32" where "con_value x = signed_drop_bit 3 x"
definition fun_value :: "word32 \<Rightarrow> word32" where "fun_value x = signed_drop_bit 3 (x AND FUN_MASK)"
definition lab_value :: "word32 \<Rightarrow> word32" where "lab_value x = signed_drop_bit 2 x"
definition arity :: "word32 \<Rightarrow> word32" where "arity x = drop_bit 23 x"

text \<open>con_nil is initialised to make_con(ASCII_SIZE) by every program that links the table.\<close>

definition con_nil :: word32 where "con_nil = make_con ASCII_SIZE"
definition is_nil :: "word32 \<Rightarrow> bool" where "is_nil t = (t = con_nil)"

lemmas kind_defs = is_cst_def is_con_def is_int_def is_list_def is_str_def is_var_def is_float_def
lemmas make_defs = make_list_def make_str_def make_flp_def make_ref_def make_int_def make_con_def make_fun_def

section \<open>Boxed doubles\<close>

text \<open>
  A double is the pair of words the union of float_value overlays, low word
  first.  make_float writes FVL_TAG and the two words above the stack top.
\<close>

definition float_value :: "store \<Rightarrow> word32 \<Rightarrow> word32 \<times> word32" where
  "float_value m t = (m (addr t + 4), m (addr t + 8))"

definition make_float :: "word32 \<times> word32 \<Rightarrow> addr \<Rightarrow> store \<Rightarrow> word32 \<times> store" where
  "make_float f p m =
     (let q = p + 4 in
      (make_str q, m(q := FVL_TAG, q + 4 := fst f, q + 8 := snd f)))"

section \<open>Facts\<close>

text \<open>The bits of the masks.\<close>

lemma masks_as_mask:
  "(3::word32) = mask 2" "(7::word32) = mask 3" "(0x007fffff::word32) = mask 23"
  by (simp_all add: mask_eq_exp_minus_1)

lemma bit_masks:
  "bit (3::word32) n = (n < 2)" "bit (7::word32) n = (n < 3)" "bit (0x007fffff::word32) n = (n < 23)"
  by (auto simp only: masks_as_mask bit_mask_iff) auto

lemma bit_masks_int:
  "bit (3::int) n = (n < 2)" "bit (7::int) n = (n < 3)" "bit (0x007fffff::int) n = (n < 23)"
proof -
  have "(3::int) = mask 2" "(7::int) = mask 3" "(0x007fffff::int) = mask 23"
    by (simp_all add: mask_eq_exp_minus_1)
  thus "bit (3::int) n = (n < 2)" "bit (7::int) n = (n < 3)" "bit (0x007fffff::int) n = (n < 23)"
    by (simp_all only: bit_mask_iff) auto
qed

lemma bit_four: "bit (4::word32) n = (n = 2)"
proof -
  have "(4::word32) = push_bit 2 1" by simp
  thus ?thesis by (simp only: bit_push_bit_iff bit_1_iff) auto
qed

lemma tag_take_bit: "tag t = take_bit 2 t"
  by (simp add: tag_def TG2_MASK_def take_bit_eq_mask mask_eq_exp_minus_1)

lemma tag3_take_bit: "tag3 t = take_bit 3 t"
  by (simp add: tag3_def TG3_MASK_def take_bit_eq_mask mask_eq_exp_minus_1)

lemma tag_cases:
  "tag t = REF_TAG \<or> tag t = LIS_TAG \<or> tag t = STR_TAG \<or> tag t = CST_TAG"
proof -
  have "unat (tag t) < 4"
    using take_bit_nat_less_exp [of 2 "unat t"] by (simp add: tag_take_bit unsigned_take_bit_eq)
  hence "unat (tag t) = unat (0::word32) \<or> unat (tag t) = unat (1::word32)
       \<or> unat (tag t) = unat (2::word32) \<or> unat (tag t) = unat (3::word32)" by auto
  hence "tag t \<in> {0, 1, 2, 3}" by (simp only: word_unat_eq_iff [symmetric]) auto
  thus ?thesis by (auto simp: tag_consts)
qed

lemma tag_of_tag3: "tag t = take_bit 2 (tag3 t)"
  by (simp add: tag_take_bit tag3_take_bit)

lemma ADR_MASK_not: "ADR_MASK = NOT TG2_MASK"
  by (simp add: tag_consts)

lemma addr_or_tag: "addr t OR tag t = t"
  by (rule bit_word_eqI) (auto simp: addr_def tag_def ADR_MASK_not bit_simps)

text \<open>The four two-bit tags exclude one another.\<close>

lemma kinds_exclusive:
  "is_var t \<Longrightarrow> \<not> is_list t" "is_var t \<Longrightarrow> \<not> is_str t" "is_var t \<Longrightarrow> \<not> is_cst t"
  "is_list t \<Longrightarrow> \<not> is_var t" "is_list t \<Longrightarrow> \<not> is_str t" "is_list t \<Longrightarrow> \<not> is_cst t"
  "is_str t \<Longrightarrow> \<not> is_var t" "is_str t \<Longrightarrow> \<not> is_list t" "is_str t \<Longrightarrow> \<not> is_cst t"
  "is_cst t \<Longrightarrow> \<not> is_var t" "is_cst t \<Longrightarrow> \<not> is_list t" "is_cst t \<Longrightarrow> \<not> is_str t"
  by (auto simp: kind_defs tag_consts)

text \<open>As rewrite rules only in one direction, so that the simplifier's conditions stay acyclic.\<close>

lemmas kind_simps [simp] = kinds_exclusive(4,7,8,10-12)

lemma float_is_str: "is_float m t \<Longrightarrow> is_str t"
  by (simp add: kind_defs)

lemma kind_exhaust:
  obtains "is_var t" | "is_list t" | "is_str t" | "is_cst t"
  using tag_cases [of t] by (auto simp: kind_defs)

lemma int_con_cst: "is_int t \<Longrightarrow> is_cst t" "is_con t \<Longrightarrow> is_cst t" "is_int t \<Longrightarrow> \<not> is_con t"
  by (auto simp: kind_defs tag_of_tag3 tag_consts take_bit_eq_mod)

lemma cst_int_or_con: "is_cst t \<Longrightarrow> is_int t \<or> is_con t"
proof -
  assume "is_cst t"
  hence "take_bit 2 t = 3" by (simp add: is_cst_def tag_take_bit tag_consts)
  moreover have "take_bit 3 t = take_bit 2 t OR (if bit t 2 then 4 else 0)"
    by (rule bit_word_eqI) (auto simp: bit_simps less_Suc_eq numeral_3_eq_3 numeral_2_eq_2 bit_four bit_masks split: if_splits)
  ultimately show ?thesis by (auto simp: is_int_def is_con_def tag3_take_bit tag_consts split: if_splits)
qed

lemma make_tagged:
  assumes "tag p = 0"
  shows "addr (make_list p) = p" "is_list (make_list p)"
        "addr (make_str p) = p" "is_str (make_str p)"
        "addr p = p" "is_var p"
proof -
  have d: "p AND 3 = 0" using assms by (simp add: tag_def tag_consts)
  have a: "p AND ADR_MASK = p"
    using addr_or_tag [of p] assms by (simp add: addr_def)
  show "addr p = p" "is_var p" using a assms by (simp_all add: addr_def is_var_def REF_TAG_def)
  show "addr (make_list p) = p" "addr (make_str p) = p"
    using a by (simp_all add: addr_def make_defs bit.conj_disj_distrib2)
       (simp_all add: tag_consts)
  show "is_list (make_list p)" "is_str (make_str p)"
    using d by (simp_all add: kind_defs tag_def make_defs tag_consts bit.conj_disj_distrib2)
qed

text \<open>The words make_int, make_con and make_fun build, bit by bit.\<close>

lemma bit_make_int: "bit (make_int x) n = (n < 32 \<and> (n < 2 \<or> 3 \<le> n \<and> bit x (n - 3)))"
  by (auto simp: make_int_def INT_TAG_def bit_or_iff bit_push_bit_iff bit_masks_int)

lemma bit_make_con: "bit (make_con x) n = (n < 32 \<and> (n < 3 \<or> bit x (n - 3)))"
  by (auto simp: make_con_def CON_TAG_def bit_or_iff bit_push_bit_iff bit_masks_int)

lemma bit_make_fun:
  "bit (make_fun f a) n = (n < 32 \<and> (n < 3 \<or> bit f (n - 3) \<or> 23 \<le> n \<and> bit a (n - 23)))"
  by (auto simp: make_fun_def CON_TAG_def bit_or_iff bit_push_bit_iff bit_masks_int)

lemma bit_value29:
  "bit (signed_drop_bit 3 x) n = bit (x :: word32) (if 29 \<le> n \<and> n < 32 then 31 else 3 + n)"
  by (simp add: bit_signed_drop_bit_iff)

lemma take_bit_below:
  fixes w :: word32
  shows "w < 2 ^ 20 \<Longrightarrow> take_bit 20 w = w" "w < 2 ^ 9 \<Longrightarrow> take_bit 9 w = w"
  by (simp_all add: word_less_nat_alt word_unat_eq_iff unsigned_take_bit_eq take_bit_nat_eq_self_iff)

lemma int_value_make_int: "int_value (make_int x) = signed_take_bit 28 x"
  by (rule bit_word_eqI)
     (auto simp: int_value_def bit_value29 bit_make_int bit_signed_take_bit_iff min_def
           dest: le_antisym split: if_splits)

lemma con_value_make_con: "con_value (make_con x) = signed_take_bit 28 x"
  by (rule bit_word_eqI)
     (auto simp: con_value_def bit_value29 bit_make_con bit_signed_take_bit_iff min_def
           dest: le_antisym split: if_splits)

lemma sint_range29:
  assumes "- (2 ^ 28) \<le> sint (x :: word32)" "sint x < 2 ^ 28"
  shows "signed_take_bit 28 x = x"
proof -
  have "sint (signed_take_bit 28 x) = signed_take_bit 28 (sint x)"
    by (rule bit_eqI) (auto simp: bit_sint_iff bit_simps min_def)
  also have "\<dots> = sint x"
    using assms by (simp add: signed_take_bit_int_eq_self_iff)
  finally show ?thesis by (simp add: signed_word_eqI)
qed

lemma is_int_make_int [simp]: "is_int (make_int x)"
  by (auto simp: is_int_def tag3_take_bit tag_consts bit_eq_iff bit_take_bit_iff bit_make_int bit_masks_int)

lemma is_con_make_con [simp]: "is_con (make_con x)"
  by (auto simp: is_con_def tag3_take_bit tag_consts bit_eq_iff bit_take_bit_iff bit_make_con bit_masks_int)

lemma make_int_int_value:
  assumes "is_int t" shows "make_int (int_value t) = t"
proof (rule bit_word_eqI)
  fix n assume n: "n < LENGTH(32)"
  have "bit (take_bit 3 t) n = bit (3::word32) n"
    using assms by (simp add: is_int_def tag3_take_bit tag_consts)
  hence low: "n < 3 \<Longrightarrow> bit t n = (n < 2)" by (simp add: bit_take_bit_iff bit_masks_int)
  show "bit (make_int (int_value t)) n = bit t n"
    using n low by (cases "n < 3") (simp_all add: bit_make_int int_value_def bit_value29, linarith?)
qed

lemma fun_value_make_fun:
  assumes "f < 2 ^ 20" shows "fun_value (make_fun f a) = f"
proof (rule bit_word_eqI)
  have "take_bit 20 f = f" using assms by (simp add: take_bit_below)
  hence hi: "bit f n \<longleftrightarrow> n < 20 \<and> bit f n" for n by (metis bit_take_bit_iff)
  fix n assume "n < LENGTH(32)"
  thus "bit (fun_value (make_fun f a)) n = bit f n"
    using hi [of n]
    by (auto simp: fun_value_def bit_value29 FUN_MASK_def bit_and_iff bit_masks_int bit_make_fun)
qed

lemma arity_make_fun:
  assumes "f < 2 ^ 20" "a < 2 ^ 9" shows "arity (make_fun f a) = a"
proof (rule bit_word_eqI)
  have "take_bit 20 f = f" "take_bit 9 a = a" using assms by (simp_all add: take_bit_below)
  hence hi: "bit f n \<longleftrightarrow> n < 20 \<and> bit f n" "bit a n \<longleftrightarrow> n < 9 \<and> bit a n" for n
    by (metis bit_take_bit_iff)+
  fix n assume "n < LENGTH(32)"
  thus "bit (arity (make_fun f a)) n = bit a n"
    using hi(1) [of "n + 20"] hi(2) [of n]
    by (auto simp: arity_def bit_drop_bit_eq bit_make_fun add.commute)
qed

text \<open>Comparing two tagged integers compares their values.\<close>

lemma sint_int_value: "sint (int_value x) = sint x div 8"
  by (simp add: int_value_def sint_signed_drop_bit_eq drop_bit_eq_div)

lemma sint_make_int_value: "is_int x \<Longrightarrow> sint x = 8 * sint (int_value x) + 3"
proof -
  assume "is_int x"
  hence "take_bit 3 x = 3" by (simp add: is_int_def tag3_take_bit tag_consts)
  hence "uint (take_bit 3 x) = uint (3 :: word32)" by simp
  hence "take_bit 3 (uint x) = 3" by (simp add: unsigned_take_bit_eq)
  moreover have "take_bit 3 (sint x) = take_bit 3 (uint x)"
    by (simp add: sint_uint take_bit_signed_take_bit)
  ultimately have "sint x mod 8 = 3" by (simp add: take_bit_eq_mod)
  thus ?thesis unfolding sint_int_value by presburger
qed

lemma tag_add4: "tag (p + 4) = tag p"
proof -
  have "(unat p + 4) mod 4294967296 mod 4 = unat p mod 4" by (simp add: mod_mod_cancel)
  hence "unat (tag (p + 4)) = unat (tag p)"
    by (simp add: tag_take_bit unsigned_take_bit_eq take_bit_eq_mod unat_word_ariths)
  thus ?thesis by (simp add: word_unat_eq_iff)
qed

section \<open>Properties\<close>

text \<open>
  Integers survive tagging: int_value gives back every integer of 29
  bits that make_int tagged, every word with the integer tag is the image of its
  value, and an integer outside the range is cut to its 29 low bits.
\<close>

lemma make_int_roundtrip:
  "is_int (make_int x) \<and> int_value (make_int x) = signed_take_bit 28 x
   \<and> (- (2 ^ 28) \<le> sint x \<and> sint x < 2 ^ 28 \<longrightarrow> int_value (make_int x) = x)
   \<and> (is_int t \<longrightarrow> make_int (int_value t) = t)"
  using int_value_make_int [of x] sint_range29 [of x] make_int_int_value [of t] by auto

lemma make_int_roundtrip_witness:
  "int_value (make_int 12345) = 12345 \<and> make_int (int_value 43) = 43"
  using make_int_roundtrip [of 12345 43] by (simp add: is_int_def tag3_def tag_consts)

text \<open>
  A functor word holds a name index of 20 bits and an arity of 9 bits,
  the bound MAX_ARITY: fun_value and arity give both back.
\<close>

lemma make_fun_roundtrip:
  assumes "f < 2 ^ 20" "unat a \<le> MAX_ARITY"
  shows "fun_value (make_fun f a) = f \<and> arity (make_fun f a) = a \<and> is_con (make_fun f a)"
proof -
  have "a < 2 ^ 9" using assms(2) by (simp add: word_less_nat_alt)
  moreover have "is_con (make_fun f a)"
    by (auto simp: is_con_def tag3_take_bit tag_consts bit_eq_iff bit_take_bit_iff bit_make_fun bit_masks_int)
  ultimately show ?thesis
    using assms(1) fun_value_make_fun arity_make_fun by simp
qed

lemma make_fun_roundtrip_witness:
  "fun_value (make_fun 300 511) = 300 \<and> arity (make_fun 300 511) = 511"
  using make_fun_roundtrip [of 300 511] by simp

text \<open>
  A boxed double reads back: make_float on an aligned stack top yields
  a term that is_float recognises and from which float_value takes the two words
  stored, and writes only the three words above the top.
\<close>

lemma make_float_roundtrip:
  assumes "tag p = 0" "make_float f p m = (t, m')"
  shows "is_float m' t \<and> float_value m' t = f \<and> addr t = p + 4
    \<and> (\<forall>a. a \<notin> {p + 4, p + 8, p + 12} \<longrightarrow> m' a = m a)"
proof -
  have "tag (p + 4) = 0" using assms(1) by (simp add: tag_add4)
  from make_tagged [OF this] show ?thesis
    using assms(2) by (auto simp: make_float_def Let_def float_value_def is_float_def is_str_def)
qed

lemma make_float_roundtrip_witness:
  "float_value (snd (make_float (7, 9) 1000 (\<lambda>_. 0))) (fst (make_float (7, 9) 1000 (\<lambda>_. 0))) = (7, 9)"
  using make_float_roundtrip [of 1000 "(7, 9)" "\<lambda>_. 0" "fst (make_float (7, 9) 1000 (\<lambda>_. 0))"
      "snd (make_float (7, 9) 1000 (\<lambda>_. 0))"]
  by (simp add: tag_def tag_consts)

end
