(* ===== verification/MLVM_Opcodes.thy ===== *)
theory MLVM_Opcodes
  imports MLVM_Tags
begin

text \<open>
  The instruction set: the opcode numbers of opcode/opcode.h, the operand
  formats and the table of opcode/opcode.c, and the operand walk adjust_code of
  include/system.h by which the loader, the cloner and the memory manager
  traverse an instruction.
\<close>

section \<open>Opcode numbers\<close>

definition LVM_NOOP :: word32 where "LVM_NOOP = 0"
definition LVM_ALLOA :: word32 where "LVM_ALLOA = 1"
definition LVM_ALLOD :: word32 where "LVM_ALLOD = 2"
definition LVM_CALL :: word32 where "LVM_CALL = 3"
definition LVM_LASTCALL :: word32 where "LVM_LASTCALL = 4"
definition LVM_CHAINCALL :: word32 where "LVM_CHAINCALL = 5"
definition LVM_PROCEED :: word32 where "LVM_PROCEED = 6"
definition LVM_RETURN :: word32 where "LVM_RETURN = 7"
definition LVM_SHALLOWTRY :: word32 where "LVM_SHALLOWTRY = 8"
definition LVM_TRY :: word32 where "LVM_TRY = 9"
definition LVM_RETRY :: word32 where "LVM_RETRY = 10"
definition LVM_TRUST :: word32 where "LVM_TRUST = 11"
definition LVM_NECKCUT :: word32 where "LVM_NECKCUT = 12"
definition LVM_DEEPLABEL :: word32 where "LVM_DEEPLABEL = 13"
definition LVM_DEEPCUT :: word32 where "LVM_DEEPCUT = 14"
definition LVM_BUILTIN :: word32 where "LVM_BUILTIN = 15"
definition LVM_FAIL :: word32 where "LVM_FAIL = 16"
definition LVM_FINISH :: word32 where "LVM_FINISH = 17"
definition LVM_PUTVOID :: word32 where "LVM_PUTVOID = 18"
definition LVM_PUT2VOID :: word32 where "LVM_PUT2VOID = 19"
definition LVM_PUTVAR :: word32 where "LVM_PUTVAR = 20"
definition LVM_PUT2VAR :: word32 where "LVM_PUT2VAR = 21"
definition LVM_PUT3VAR :: word32 where "LVM_PUT3VAR = 22"
definition LVM_PUT4VAR :: word32 where "LVM_PUT4VAR = 23"
definition LVM_PUTRVAL :: word32 where "LVM_PUTRVAL = 24"
definition LVM_PUTVAL :: word32 where "LVM_PUTVAL = 25"
definition LVM_PUT2VAL :: word32 where "LVM_PUT2VAL = 26"
definition LVM_PUT3VAL :: word32 where "LVM_PUT3VAL = 27"
definition LVM_PUT4VAL :: word32 where "LVM_PUT4VAL = 28"
definition LVM_PUT5VAL :: word32 where "LVM_PUT5VAL = 29"
definition LVM_PUT6VAL :: word32 where "LVM_PUT6VAL = 30"
definition LVM_PUT7VAL :: word32 where "LVM_PUT7VAL = 31"
definition LVM_PUT8VAL :: word32 where "LVM_PUT8VAL = 32"
definition LVM_PUTCON :: word32 where "LVM_PUTCON = 33"
definition LVM_PUTINT :: word32 where "LVM_PUTINT = 34"
definition LVM_PUTLIST :: word32 where "LVM_PUTLIST = 35"
definition LVM_PUTSTR :: word32 where "LVM_PUTSTR = 36"
definition LVM_RESV0 :: word32 where "LVM_RESV0 = 37"
definition LVM_RESV1 :: word32 where "LVM_RESV1 = 38"
definition LVM_SETVAR :: word32 where "LVM_SETVAR = 39"
definition LVM_CSETVAR :: word32 where "LVM_CSETVAR = 40"
definition LVM_SETCON :: word32 where "LVM_SETCON = 41"
definition LVM_CSETCON :: word32 where "LVM_CSETCON = 42"
definition LVM_SETINT :: word32 where "LVM_SETINT = 43"
definition LVM_CSETINT :: word32 where "LVM_CSETINT = 44"
definition LVM_SETVAL :: word32 where "LVM_SETVAL = 45"
definition LVM_CSETVAL :: word32 where "LVM_CSETVAL = 46"
definition LVM_SETFLOAT :: word32 where "LVM_SETFLOAT = 47"
definition LVM_CSETFLOAT :: word32 where "LVM_CSETFLOAT = 48"
definition LVM_SETLIST :: word32 where "LVM_SETLIST = 49"
definition LVM_CSETLIST :: word32 where "LVM_CSETLIST = 50"
definition LVM_SETFUN :: word32 where "LVM_SETFUN = 51"
definition LVM_CSETFUN :: word32 where "LVM_CSETFUN = 52"
definition LVM_SETSTR :: word32 where "LVM_SETSTR = 53"
definition LVM_CSETSTR :: word32 where "LVM_CSETSTR = 54"
definition LVM_RESV2 :: word32 where "LVM_RESV2 = 55"
definition LVM_RESV3 :: word32 where "LVM_RESV3 = 56"
definition LVM_JUMP :: word32 where "LVM_JUMP = 57"
definition LVM_BRANCH :: word32 where "LVM_BRANCH = 58"
definition LVM_GETCON :: word32 where "LVM_GETCON = 59"
definition LVM_CGETCON :: word32 where "LVM_CGETCON = 60"
definition LVM_GETINT :: word32 where "LVM_GETINT = 61"
definition LVM_CGETINT :: word32 where "LVM_CGETINT = 62"
definition LVM_GETVAL :: word32 where "LVM_GETVAL = 63"
definition LVM_CGETVAL :: word32 where "LVM_CGETVAL = 64"
definition LVM_GETFLOAT :: word32 where "LVM_GETFLOAT = 65"
definition LVM_CGETFLOAT :: word32 where "LVM_CGETFLOAT = 66"
definition LVM_GETLIST :: word32 where "LVM_GETLIST = 67"
definition LVM_CGETLIST :: word32 where "LVM_CGETLIST = 68"
definition LVM_GETVLIST :: word32 where "LVM_GETVLIST = 69"
definition LVM_CGETVLIST :: word32 where "LVM_CGETVLIST = 70"
definition LVM_GETSTR :: word32 where "LVM_GETSTR = 71"
definition LVM_CGETSTR :: word32 where "LVM_CGETSTR = 72"
definition LVM_ADD :: word32 where "LVM_ADD = 73"
definition LVM_SUB :: word32 where "LVM_SUB = 74"
definition LVM_MUL :: word32 where "LVM_MUL = 75"
definition LVM_DIV :: word32 where "LVM_DIV = 76"
definition LVM_MINUS :: word32 where "LVM_MINUS = 77"
definition LVM_MOD :: word32 where "LVM_MOD = 78"
definition LVM_INC :: word32 where "LVM_INC = 79"
definition LVM_DEC :: word32 where "LVM_DEC = 80"
definition LVM_IS :: word32 where "LVM_IS = 81"
definition LVM_AND :: word32 where "LVM_AND = 82"
definition LVM_OR :: word32 where "LVM_OR = 83"
definition LVM_EOR :: word32 where "LVM_EOR = 84"
definition LVM_RSHIFT :: word32 where "LVM_RSHIFT = 85"
definition LVM_LSHIFT :: word32 where "LVM_LSHIFT = 86"
definition LVM_ISATOM :: word32 where "LVM_ISATOM = 87"
definition LVM_ISATOMIC :: word32 where "LVM_ISATOMIC = 88"
definition LVM_ISFLOAT :: word32 where "LVM_ISFLOAT = 89"
definition LVM_ISINTEGER :: word32 where "LVM_ISINTEGER = 90"
definition LVM_ISNUMBER :: word32 where "LVM_ISNUMBER = 91"
definition LVM_ISNONVAR :: word32 where "LVM_ISNONVAR = 92"
definition LVM_ISVAR :: word32 where "LVM_ISVAR = 93"
definition LVM_ISLIST :: word32 where "LVM_ISLIST = 94"
definition LVM_ISSTR :: word32 where "LVM_ISSTR = 95"
definition LVM_ISCOMPOUND :: word32 where "LVM_ISCOMPOUND = 96"
definition LVM_ISGROUND :: word32 where "LVM_ISGROUND = 97"
definition LVM_ISNIL :: word32 where "LVM_ISNIL = 98"
definition LVM_LASTNIL :: word32 where "LVM_LASTNIL = 99"
definition LVM_ISZERO :: word32 where "LVM_ISZERO = 100"
definition LVM_LASTZERO :: word32 where "LVM_LASTZERO = 101"
definition LVM_SWITCH :: word32 where "LVM_SWITCH = 102"
definition LVM_LASTSWITCH :: word32 where "LVM_LASTSWITCH = 103"
definition LVM_HASHING :: word32 where "LVM_HASHING = 104"
definition LVM_LASTHASHING :: word32 where "LVM_LASTHASHING = 105"
definition LVM_IDENTICAL :: word32 where "LVM_IDENTICAL = 106"
definition LVM_NONIDENTICAL :: word32 where "LVM_NONIDENTICAL = 107"
definition LVM_PRECEDE :: word32 where "LVM_PRECEDE = 108"
definition LVM_PREIDENTICAL :: word32 where "LVM_PREIDENTICAL = 109"
definition LVM_FOLLOW :: word32 where "LVM_FOLLOW = 110"
definition LVM_FLOIDENTICAL :: word32 where "LVM_FLOIDENTICAL = 111"
definition LVM_TERMCOMPARE :: word32 where "LVM_TERMCOMPARE = 112"
definition LVM_IFEQ :: word32 where "LVM_IFEQ = 113"
definition LVM_IFNE :: word32 where "LVM_IFNE = 114"
definition LVM_IFLT :: word32 where "LVM_IFLT = 115"
definition LVM_IFLE :: word32 where "LVM_IFLE = 116"
definition LVM_IFGT :: word32 where "LVM_IFGT = 117"
definition LVM_IFGE :: word32 where "LVM_IFGE = 118"
definition LVM_ARICMP :: word32 where "LVM_ARICMP = 119"
definition LVM_IFEQ0 :: word32 where "LVM_IFEQ0 = 120"
definition LVM_IFNE0 :: word32 where "LVM_IFNE0 = 121"
definition LVM_IFLT0 :: word32 where "LVM_IFLT0 = 122"
definition LVM_IFLE0 :: word32 where "LVM_IFLE0 = 123"
definition LVM_IFGT0 :: word32 where "LVM_IFGT0 = 124"
definition LVM_IFGE0 :: word32 where "LVM_IFGE0 = 125"
definition LVM_UNIFIABLE :: word32 where "LVM_UNIFIABLE = 126"
definition LVM_NONUNIFIABLE :: word32 where "LVM_NONUNIFIABLE = 127"
definition LVM_TRYUNIFIABLE :: word32 where "LVM_TRYUNIFIABLE = 128"
definition LVM_INTEGER :: word32 where "LVM_INTEGER = 129"
definition LVM_CHAR :: word32 where "LVM_CHAR = 130"
definition LVM_FLOAT :: word32 where "LVM_FLOAT = 131"
definition LVM_STATIONARY :: word32 where "LVM_STATIONARY = 132"
definition LVM_WORKER :: word32 where "LVM_WORKER = 133"
definition LVM_MESSENGER :: word32 where "LVM_MESSENGER = 134"
definition LVM_PROCEDURE :: word32 where "LVM_PROCEDURE = 135"
definition LVM_HASHTABLE :: word32 where "LVM_HASHTABLE = 136"

lemmas lvm_ops =
  LVM_NOOP_def LVM_ALLOA_def LVM_ALLOD_def LVM_CALL_def LVM_LASTCALL_def LVM_CHAINCALL_def
  LVM_PROCEED_def LVM_RETURN_def LVM_SHALLOWTRY_def LVM_TRY_def LVM_RETRY_def LVM_TRUST_def
  LVM_NECKCUT_def LVM_DEEPLABEL_def LVM_DEEPCUT_def LVM_BUILTIN_def LVM_FAIL_def LVM_FINISH_def
  LVM_PUTVOID_def LVM_PUT2VOID_def LVM_PUTVAR_def LVM_PUT2VAR_def LVM_PUT3VAR_def
  LVM_PUT4VAR_def LVM_PUTRVAL_def LVM_PUTVAL_def LVM_PUT2VAL_def LVM_PUT3VAL_def
  LVM_PUT4VAL_def LVM_PUT5VAL_def LVM_PUT6VAL_def LVM_PUT7VAL_def LVM_PUT8VAL_def
  LVM_PUTCON_def LVM_PUTINT_def LVM_PUTLIST_def LVM_PUTSTR_def LVM_RESV0_def LVM_RESV1_def
  LVM_SETVAR_def LVM_CSETVAR_def LVM_SETCON_def LVM_CSETCON_def LVM_SETINT_def LVM_CSETINT_def
  LVM_SETVAL_def LVM_CSETVAL_def LVM_SETFLOAT_def LVM_CSETFLOAT_def LVM_SETLIST_def
  LVM_CSETLIST_def LVM_SETFUN_def LVM_CSETFUN_def LVM_SETSTR_def LVM_CSETSTR_def LVM_RESV2_def
  LVM_RESV3_def LVM_JUMP_def LVM_BRANCH_def LVM_GETCON_def LVM_CGETCON_def LVM_GETINT_def
  LVM_CGETINT_def LVM_GETVAL_def LVM_CGETVAL_def LVM_GETFLOAT_def LVM_CGETFLOAT_def
  LVM_GETLIST_def LVM_CGETLIST_def LVM_GETVLIST_def LVM_CGETVLIST_def LVM_GETSTR_def
  LVM_CGETSTR_def LVM_ADD_def LVM_SUB_def LVM_MUL_def LVM_DIV_def LVM_MINUS_def LVM_MOD_def
  LVM_INC_def LVM_DEC_def LVM_IS_def LVM_AND_def LVM_OR_def LVM_EOR_def LVM_RSHIFT_def
  LVM_LSHIFT_def LVM_ISATOM_def LVM_ISATOMIC_def LVM_ISFLOAT_def LVM_ISINTEGER_def
  LVM_ISNUMBER_def LVM_ISNONVAR_def LVM_ISVAR_def LVM_ISLIST_def LVM_ISSTR_def
  LVM_ISCOMPOUND_def LVM_ISGROUND_def LVM_ISNIL_def LVM_LASTNIL_def LVM_ISZERO_def
  LVM_LASTZERO_def LVM_SWITCH_def LVM_LASTSWITCH_def LVM_HASHING_def LVM_LASTHASHING_def
  LVM_IDENTICAL_def LVM_NONIDENTICAL_def LVM_PRECEDE_def LVM_PREIDENTICAL_def LVM_FOLLOW_def
  LVM_FLOIDENTICAL_def LVM_TERMCOMPARE_def LVM_IFEQ_def LVM_IFNE_def LVM_IFLT_def LVM_IFLE_def
  LVM_IFGT_def LVM_IFGE_def LVM_ARICMP_def LVM_IFEQ0_def LVM_IFNE0_def LVM_IFLT0_def
  LVM_IFLE0_def LVM_IFGT0_def LVM_IFGE0_def LVM_UNIFIABLE_def LVM_NONUNIFIABLE_def
  LVM_TRYUNIFIABLE_def LVM_INTEGER_def LVM_CHAR_def LVM_FLOAT_def LVM_STATIONARY_def
  LVM_WORKER_def LVM_MESSENGER_def LVM_PROCEDURE_def LVM_HASHTABLE_def

section \<open>Operand formats and the opcode table\<close>

datatype inst_type =
    I_STATIONARY | I_WORKER | I_MESSENGER | I_O | I_N | I_E | I_C | I_F
  | I_B | I_I | I_P | I_R | I_2N | I_3N | I_4N | I_5N
  | I_6N | I_7N | I_8N | I_NE | I_NC | I_NF | I_NI | I_NR
  | I_2NE | I_2NF | I_NFE | I_2NFE | I_3NE | I_3NFE | I_4E | I_N4E
  | I_HTAB

text \<open>
  opcode_tab of opcode.c, in its order, less the sentinel entry with the null
  name that ends the C array.
\<close>

definition opcode_tab :: "(string \<times> word32 \<times> inst_type) list" where
  "opcode_tab =
    [(''noop'', LVM_NOOP, I_O),
     (''alloa'', LVM_ALLOA, I_2N),
     (''allod'', LVM_ALLOD, I_2N),
     (''call'', LVM_CALL, I_E),
     (''lastcall'', LVM_LASTCALL, I_E),
     (''chaincall'', LVM_CHAINCALL, I_E),
     (''proceed'', LVM_PROCEED, I_O),
     (''return'', LVM_RETURN, I_O),
     (''shallowtry'', LVM_SHALLOWTRY, I_NE),
     (''try'', LVM_TRY, I_NE),
     (''retry'', LVM_RETRY, I_NE),
     (''trust'', LVM_TRUST, I_O),
     (''neckcut'', LVM_NECKCUT, I_O),
     (''deeplabel'', LVM_DEEPLABEL, I_N),
     (''deepcut'', LVM_DEEPCUT, I_N),
     (''builtin'', LVM_BUILTIN, I_B),
     (''fail'', LVM_FAIL, I_O),
     (''finish'', LVM_FINISH, I_O),
     (''putvoid'', LVM_PUTVOID, I_O),
     (''put2void'', LVM_PUT2VOID, I_O),
     (''putvar'', LVM_PUTVAR, I_N),
     (''put2var'', LVM_PUT2VAR, I_2N),
     (''put3var'', LVM_PUT3VAR, I_3N),
     (''put4var'', LVM_PUT4VAR, I_4N),
     (''putrval'', LVM_PUTRVAL, I_N),
     (''putval'', LVM_PUTVAL, I_N),
     (''put2val'', LVM_PUT2VAL, I_2N),
     (''put3val'', LVM_PUT3VAL, I_3N),
     (''put4val'', LVM_PUT4VAL, I_4N),
     (''put5val'', LVM_PUT5VAL, I_5N),
     (''put6val'', LVM_PUT6VAL, I_6N),
     (''put7val'', LVM_PUT7VAL, I_7N),
     (''put8val'', LVM_PUT8VAL, I_8N),
     (''putcon'', LVM_PUTCON, I_C),
     (''putint'', LVM_PUTINT, I_I),
     (''putlist'', LVM_PUTLIST, I_N),
     (''putstr'', LVM_PUTSTR, I_N),
     (''resv0'', LVM_RESV0, I_N),
     (''resv1'', LVM_RESV1, I_N),
     (''setvar'', LVM_SETVAR, I_N),
     (''csetvar'', LVM_CSETVAR, I_O),
     (''setcon'', LVM_SETCON, I_NC),
     (''csetcon'', LVM_CSETCON, I_C),
     (''setint'', LVM_SETINT, I_NI),
     (''csetint'', LVM_CSETINT, I_I),
     (''setval'', LVM_SETVAL, I_2N),
     (''csetval'', LVM_CSETVAL, I_N),
     (''setfloat'', LVM_SETFLOAT, I_NR),
     (''csetfloat'', LVM_CSETFLOAT, I_R),
     (''setlist'', LVM_SETLIST, I_2N),
     (''csetlist'', LVM_CSETLIST, I_N),
     (''setfun'', LVM_SETFUN, I_NF),
     (''csetfun'', LVM_CSETFUN, I_F),
     (''setstr'', LVM_SETSTR, I_2N),
     (''csetstr'', LVM_CSETSTR, I_N),
     (''resv2'', LVM_RESV2, I_N),
     (''resv3'', LVM_RESV3, I_N),
     (''jump'', LVM_JUMP, I_E),
     (''branch'', LVM_BRANCH, I_4E),
     (''getcon'', LVM_GETCON, I_NC),
     (''cgetcon'', LVM_CGETCON, I_C),
     (''getint'', LVM_GETINT, I_NI),
     (''cgetint'', LVM_CGETINT, I_I),
     (''getval'', LVM_GETVAL, I_2N),
     (''cgetval'', LVM_CGETVAL, I_N),
     (''getfloat'', LVM_GETFLOAT, I_NR),
     (''cgetfloat'', LVM_CGETFLOAT, I_R),
     (''getlist'', LVM_GETLIST, I_3NE),
     (''cgetlist'', LVM_CGETLIST, I_2NE),
     (''getvlist'', LVM_GETVLIST, I_2N),
     (''cgetvlist'', LVM_CGETVLIST, I_N),
     (''getstr'', LVM_GETSTR, I_3NFE),
     (''cgetstr'', LVM_CGETSTR, I_2NFE),
     (''add'', LVM_ADD, I_3N),
     (''sub'', LVM_SUB, I_3N),
     (''mul'', LVM_MUL, I_3N),
     (''div'', LVM_DIV, I_3N),
     (''minus'', LVM_MINUS, I_2N),
     (''mod'', LVM_MOD, I_3N),
     (''inc'', LVM_INC, I_2N),
     (''dec'', LVM_DEC, I_2N),
     (''is'', LVM_IS, I_2N),
     (''and'', LVM_AND, I_3N),
     (''or'', LVM_OR, I_3N),
     (''eor'', LVM_EOR, I_3N),
     (''rshift'', LVM_RSHIFT, I_3N),
     (''lshift'', LVM_LSHIFT, I_3N),
     (''isatom'', LVM_ISATOM, I_NE),
     (''isatomic'', LVM_ISATOMIC, I_NE),
     (''isfloat'', LVM_ISFLOAT, I_NE),
     (''isinteger'', LVM_ISINTEGER, I_NE),
     (''isnumber'', LVM_ISNUMBER, I_NE),
     (''isnonvar'', LVM_ISNONVAR, I_NE),
     (''isvar'', LVM_ISVAR, I_NE),
     (''islist'', LVM_ISLIST, I_NE),
     (''isstr'', LVM_ISSTR, I_NE),
     (''iscompound'', LVM_ISCOMPOUND, I_NE),
     (''isground'', LVM_ISGROUND, I_NE),
     (''isnil'', LVM_ISNIL, I_NE),
     (''lastnil'', LVM_LASTNIL, I_E),
     (''iszero'', LVM_ISZERO, I_NE),
     (''lastzero'', LVM_LASTZERO, I_E),
     (''switch'', LVM_SWITCH, I_N4E),
     (''lastswitch'', LVM_LASTSWITCH, I_4E),
     (''hashing'', LVM_HASHING, I_NE),
     (''lasthashing'', LVM_LASTHASHING, I_E),
     (''identical'', LVM_IDENTICAL, I_2NE),
     (''nonidentical'', LVM_NONIDENTICAL, I_2NE),
     (''precede'', LVM_PRECEDE, I_2NE),
     (''preidentical'', LVM_PREIDENTICAL, I_2NE),
     (''follow'', LVM_FOLLOW, I_2NE),
     (''floidentical'', LVM_FLOIDENTICAL, I_2NE),
     (''termcompare'', LVM_TERMCOMPARE, I_3N),
     (''ifeq'', LVM_IFEQ, I_2NE),
     (''ifne'', LVM_IFNE, I_2NE),
     (''iflt'', LVM_IFLT, I_2NE),
     (''ifle'', LVM_IFLE, I_2NE),
     (''ifgt'', LVM_IFGT, I_2NE),
     (''ifge'', LVM_IFGE, I_2NE),
     (''aricmp'', LVM_ARICMP, I_3N),
     (''ifeq0'', LVM_IFEQ0, I_NE),
     (''ifne0'', LVM_IFNE0, I_NE),
     (''iflt0'', LVM_IFLT0, I_NE),
     (''ifle0'', LVM_IFLE0, I_NE),
     (''ifgt0'', LVM_IFGT0, I_NE),
     (''ifge0'', LVM_IFGE0, I_NE),
     (''unifiable'', LVM_UNIFIABLE, I_2NE),
     (''nonunifiable'', LVM_NONUNIFIABLE, I_2NE),
     (''tryunifiable'', LVM_TRYUNIFIABLE, I_3N),
     (''integer'', LVM_INTEGER, I_N),
     (''char'', LVM_CHAR, I_N),
     (''float'', LVM_FLOAT, I_N),
     (''stationary'', LVM_STATIONARY, I_STATIONARY),
     (''worker'', LVM_WORKER, I_WORKER),
     (''messenger'', LVM_MESSENGER, I_MESSENGER),
     (''procedure'', LVM_PROCEDURE, I_P),
     (''hashtable'', LVM_HASHTABLE, I_HTAB)]"

text \<open>
  What adjust_code does with each word of an instruction: copy it, relocate it
  as a label, or hand the whole hash table over to the caller's macro.
\<close>

datatype operand_action = IDIRECT | IADJUST | IHASH

fun adjust_code :: "inst_type \<Rightarrow> operand_action list" where
  "adjust_code I_STATIONARY = [IDIRECT, IADJUST]"
| "adjust_code I_WORKER = [IDIRECT, IADJUST]"
| "adjust_code I_MESSENGER = [IDIRECT, IADJUST]"
| "adjust_code I_O = [IDIRECT]"
| "adjust_code I_N = [IDIRECT, IDIRECT]"
| "adjust_code I_E = [IDIRECT, IADJUST]"
| "adjust_code I_C = [IDIRECT, IDIRECT]"
| "adjust_code I_F = [IDIRECT, IDIRECT]"
| "adjust_code I_B = [IDIRECT, IDIRECT]"
| "adjust_code I_I = [IDIRECT, IDIRECT]"
| "adjust_code I_P = [IDIRECT, IDIRECT]"
| "adjust_code I_R = [IDIRECT, IDIRECT, IDIRECT]"
| "adjust_code I_2N = [IDIRECT, IDIRECT, IDIRECT]"
| "adjust_code I_3N = [IDIRECT, IDIRECT, IDIRECT, IDIRECT]"
| "adjust_code I_4N = [IDIRECT, IDIRECT, IDIRECT, IDIRECT, IDIRECT]"
| "adjust_code I_5N = [IDIRECT, IDIRECT, IDIRECT, IDIRECT, IDIRECT, IDIRECT]"
| "adjust_code I_6N = [IDIRECT, IDIRECT, IDIRECT, IDIRECT, IDIRECT, IDIRECT, IDIRECT]"
| "adjust_code I_7N = [IDIRECT, IDIRECT, IDIRECT, IDIRECT, IDIRECT, IDIRECT, IDIRECT, IDIRECT]"
| "adjust_code I_8N = [IDIRECT, IDIRECT, IDIRECT, IDIRECT, IDIRECT, IDIRECT, IDIRECT, IDIRECT, IDIRECT]"
| "adjust_code I_NE = [IDIRECT, IDIRECT, IADJUST]"
| "adjust_code I_NC = [IDIRECT, IDIRECT, IDIRECT]"
| "adjust_code I_NF = [IDIRECT, IDIRECT, IDIRECT]"
| "adjust_code I_NI = [IDIRECT, IDIRECT, IDIRECT]"
| "adjust_code I_NR = [IDIRECT, IDIRECT, IDIRECT, IDIRECT]"
| "adjust_code I_2NE = [IDIRECT, IDIRECT, IDIRECT, IADJUST]"
| "adjust_code I_2NF = [IDIRECT, IDIRECT, IDIRECT, IDIRECT]"
| "adjust_code I_NFE = [IDIRECT, IDIRECT, IDIRECT, IADJUST]"
| "adjust_code I_2NFE = [IDIRECT, IDIRECT, IDIRECT, IDIRECT, IADJUST]"
| "adjust_code I_3NE = [IDIRECT, IDIRECT, IDIRECT, IDIRECT, IADJUST]"
| "adjust_code I_3NFE = [IDIRECT, IDIRECT, IDIRECT, IDIRECT, IDIRECT, IADJUST]"
| "adjust_code I_4E = [IDIRECT, IADJUST, IADJUST, IADJUST, IADJUST]"
| "adjust_code I_N4E = [IDIRECT, IDIRECT, IADJUST, IADJUST, IADJUST, IADJUST]"
| "adjust_code I_HTAB = [IHASH]"

section \<open>Properties\<close>

text \<open>
  The opcode table is positional: entry i describes the instruction
  with opcode i, for all 137 opcodes, so that the loader, the cloner and the
  memory manager may index it with the opcode word.  But for the hash table,
  whose walk is the caller's, adjust_code copies the opcode word first and
  treats at most nine words.
\<close>

lemma opcode_tab_positional:
  "map (\<lambda>(name, code, ty). code) opcode_tab = map of_nat [0..<137]
   \<and> list_all (\<lambda>(name, code, ty). ty = I_HTAB
         \<or> (hd (adjust_code ty) = IDIRECT \<and> length (adjust_code ty) \<le> 9)) opcode_tab"
  by code_simp

end
