(* ===== verification/MLVM_Machine.thy ===== *)
theory MLVM_Machine
  imports MLVM_Opcodes
begin

text \<open>
  The machine of engine/engine.c: the part of the imago control block
  (include/imago_icb.h) the engine reads and writes, the registers the function
  engine keeps in local variables, and the macros of include/engine.h on them.
  A C local and a field of plt of the same name are kept apart: registers are
  the upper-case fields of vm, the saved copies the fields of its icb.
\<close>

section \<open>Imago control block\<close>

datatype imago_type = STATIONARY | WORKER | MESSENGER | SYS_MSGER

datatype imago_status =
    IMAGO_INVALID | IMAGO_ERROR | IMAGO_READY | IMAGO_EXPANSION | IMAGO_CONTRACTION
  | IMAGO_COLLECTION | IMAGO_SYS_CREATION | IMAGO_BACKTRACK | IMAGO_TIMER | IMAGO_CREATION
  | IMAGO_CLONING | IMAGO_MOVE_IN | IMAGO_MOVE_OUT | IMAGO_DISPATCHING | IMAGO_WAITING
  | IMAGO_ATTACHING | IMAGO_DISPOSE | IMAGO_TERMINATE

datatype error_code =
    E_SUCCEED | E_FILE_NOT_FOUND | E_ICB_OUT | E_ILLEGAL_ACCESS | E_ILLEGAL_ARGUMENT
  | E_ILLEGAL_BUILTIN | E_ILLEGAL_CLONE | E_ILLEGAL_CREATE | E_ILLEGAL_ENTRY | E_ILLEGAL_HOST
  | E_ILLEGAL_MESGER | E_ILLEGAL_MOVE | E_ILLEGAL_STATUS | E_ILLEGAL_THREAD | E_MEMORY_OUT
  | E_NO_SOLUTION | E_RESSOURCE_BUSY | E_UNKNOWN_IMAGO | E_UNKNOWN_OPCODE | E_UNKNOWN_TYPE

text \<open>The number C gives each enumerator; plt->nl holds it after a switch.\<close>

fun ecode :: "error_code \<Rightarrow> word32" where
  "ecode E_SUCCEED = 0"
| "ecode E_FILE_NOT_FOUND = 1"
| "ecode E_ICB_OUT = 2"
| "ecode E_ILLEGAL_ACCESS = 3"
| "ecode E_ILLEGAL_ARGUMENT = 4"
| "ecode E_ILLEGAL_BUILTIN = 5"
| "ecode E_ILLEGAL_CLONE = 6"
| "ecode E_ILLEGAL_CREATE = 7"
| "ecode E_ILLEGAL_ENTRY = 8"
| "ecode E_ILLEGAL_HOST = 9"
| "ecode E_ILLEGAL_MESGER = 10"
| "ecode E_ILLEGAL_MOVE = 11"
| "ecode E_ILLEGAL_STATUS = 12"
| "ecode E_ILLEGAL_THREAD = 13"
| "ecode E_MEMORY_OUT = 14"
| "ecode E_NO_SOLUTION = 15"
| "ecode E_RESSOURCE_BUSY = 16"
| "ecode E_UNKNOWN_IMAGO = 17"
| "ecode E_UNKNOWN_OPCODE = 18"
| "ecode E_UNKNOWN_TYPE = 19"

record icb =
  itype :: imago_type
  status :: imago_status
  expansions :: word32
  collections :: word32
  block_base :: addr
  block_ceiling :: addr
  name_base :: addr
  name_top :: addr
  proc_base :: addr
  code_base :: addr
  stack_base :: addr
  i_pp :: addr
  i_af :: addr
  i_cp :: addr
  i_cf :: addr
  i_st :: addr
  i_bb :: addr
  i_b0 :: addr
  i_gl :: addr
  i_tt :: addr
  i_nl :: word32

definition is_messenger :: "icb \<Rightarrow> bool" where
  "is_messenger ip = (itype ip = MESSENGER \<or> itype ip = SYS_MSGER)"
definition is_worker :: "icb \<Rightarrow> bool" where "is_worker ip = (itype ip = WORKER)"
definition is_stationary :: "icb \<Rightarrow> bool" where "is_stationary ip = (itype ip = STATIONARY)"
definition is_sysmsger :: "icb \<Rightarrow> bool" where "is_sysmsger ip = (itype ip = SYS_MSGER)"

section \<open>Registers and outcomes\<close>

record vm =
  mem :: store
  plt :: icb
  PP :: addr
  AF :: addr
  CP :: addr
  CF :: addr
  ST :: addr
  GP :: addr
  BB :: addr
  B0 :: addr
  GL :: addr
  TT :: addr
  NL :: word32
  BT :: word32

text \<open>
  One turn of the dispatch loop ends at the label CONTROL, in a return of engine
  to the scheduler, in behaviour C leaves undefined (division by zero, a shift
  count outside 0..31), or never (a loop of the instruction that does not end).
\<close>

datatype outcome = Control vm | Return vm | Undef | Diverge

abbreviation CHOICE_SIZE :: word32 where "CHOICE_SIZE \<equiv> 7"
abbreviation GC_LIMIT :: word32 where "GC_LIMIT \<equiv> 81920"
abbreviation GC_FACTOR :: word32 where "GC_FACTOR \<equiv> 3"
abbreviation BACKTRACK_LIMIT :: word32 where "BACKTRACK_LIMIT \<equiv> 50000"

text \<open>Reading a word, writing a word, and the operands of the instruction at pp.\<close>

abbreviation rd :: "vm \<Rightarrow> addr \<Rightarrow> word32" where "rd s a \<equiv> mem s a"

definition wr :: "addr \<Rightarrow> word32 \<Rightarrow> vm \<Rightarrow> vm" where
  "wr a v s = s\<lparr>mem := (mem s)(a := v)\<rparr>"

definition OD :: "word32 \<Rightarrow> vm \<Rightarrow> word32" where "OD n s = rd s (padd (PP s) n)"
definition cell :: "word32 \<Rightarrow> vm \<Rightarrow> addr" where "cell n s = psub (AF s) n"

definition push :: "word32 \<Rightarrow> vm \<Rightarrow> vm" where
  "push v s = (let q = ST s + 4 in wr q v (s\<lparr>ST := q\<rparr>))"

text \<open>The slots of an activation frame at af and of a choice frame at bb.\<close>

abbreviation ACF :: "vm \<Rightarrow> addr" where "ACF s \<equiv> rd s (AF s)"
abbreviation ACP :: "vm \<Rightarrow> addr" where "ACP s \<equiv> rd s (psub (AF s) 1)"
abbreviation ATT :: "vm \<Rightarrow> addr" where "ATT s \<equiv> rd s (psub (AF s) 2)"
abbreviation CCP :: "vm \<Rightarrow> addr" where "CCP s \<equiv> rd s (psub (CF s) 1)"
abbreviation CTT :: "vm \<Rightarrow> addr" where "CTT s \<equiv> rd s (psub (CF s) 2)"
abbreviation BCF :: "vm \<Rightarrow> addr" where "BCF s \<equiv> rd s (BB s)"
abbreviation BCP :: "vm \<Rightarrow> addr" where "BCP s \<equiv> rd s (psub (BB s) 1)"
abbreviation BTT :: "vm \<Rightarrow> addr" where "BTT s \<equiv> rd s (psub (BB s) 2)"
abbreviation BBB :: "vm \<Rightarrow> addr" where "BBB s \<equiv> rd s (psub (BB s) 3)"
abbreviation BB0 :: "vm \<Rightarrow> addr" where "BB0 s \<equiv> rd s (psub (BB s) 4)"
abbreviation BBP :: "vm \<Rightarrow> addr" where "BBP s \<equiv> rd s (psub (BB s) 5)"
abbreviation BGL :: "vm \<Rightarrow> addr" where "BGL s \<equiv> rd s (psub (BB s) 6)"

section \<open>Control macros\<close>

definition next_op :: "word32 \<Rightarrow> vm \<Rightarrow> outcome" where
  "next_op n s = Control (s\<lparr>PP := padd (PP s) n\<rparr>)"

definition jump :: "addr \<Rightarrow> vm \<Rightarrow> outcome" where
  "jump l s = Control (s\<lparr>PP := l\<rparr>)"

text \<open>The block after the label CONTEXIMAGO_SWITCH: every register but gp and nl is saved.\<close>

definition save_registers :: "vm \<Rightarrow> vm" where
  "save_registers s = s\<lparr>plt := (plt s)\<lparr>i_pp := PP s, i_af := AF s, i_cp := CP s, i_cf := CF s,
      i_st := ST s, i_bb := BB s, i_b0 := B0 s, i_gl := GL s, i_tt := TT s\<rparr>\<rparr>"

definition context_switch :: "imago_status \<Rightarrow> word32 \<Rightarrow> vm \<Rightarrow> outcome" where
  "context_switch st e s =
     Return (save_registers (s\<lparr>plt := (plt s)\<lparr>status := st, i_nl := e\<rparr>\<rparr>))"

definition backtrack :: "vm \<Rightarrow> outcome" where
  "backtrack s =
     (if BB s \<le> stack_base (plt s) then context_switch IMAGO_TERMINATE (ecode E_NO_SOLUTION) s
      else let s1 = s\<lparr>BT := BT s - 1, B0 := BB0 s, PP := BBP s\<rparr> in
           if BT s <s 0 then context_switch IMAGO_READY (ecode E_SUCCEED) s1
           else Control s1)"

section \<open>Trail and frames\<close>

definition push_trail :: "word32 \<Rightarrow> vm \<Rightarrow> vm" where
  "push_trail x s = (wr (TT s) x s)\<lparr>TT := TT s - 4\<rparr>"

definition trail :: "addr \<Rightarrow> vm \<Rightarrow> vm" where
  "trail x s = (if x \<le> GL s then push_trail x s else s)"

definition bbtrail :: "addr \<Rightarrow> vm \<Rightarrow> vm" where
  "bbtrail x s = (if x < BB s then push_trail x s else s)"

definition new_generation :: "vm \<Rightarrow> vm" where
  "new_generation s = push_trail (make_str (GL s)) s"

text \<open>detrail(BTT): unwind the trail to the mark the choice frame saved.\<close>

definition detrail_body :: "vm \<Rightarrow> vm" where
  "detrail_body s =
     (let t = TT s + 4; g = rd s t; s1 = s\<lparr>TT := t, GP := g\<rparr> in
      if is_var g \<and> g < BB s1 then wr g g s1 else s1)"

definition detrail :: "vm \<Rightarrow> vm option" where
  "detrail = while_option (\<lambda>s. TT s < BTT s) detrail_body"

definition make_aframe :: "vm \<Rightarrow> vm" where
  "make_aframe s =
     (let q = padd (ST s) (OD 2 s) in
      wr (psub q 2) (TT s) (wr q (CF s) (s\<lparr>ST := q, AF := q\<rparr>)))"

definition make_dframe :: "vm \<Rightarrow> vm" where
  "make_dframe s = (let q = padd (ST s) (OD 2 s) in s\<lparr>ST := q, AF := q\<rparr>)"

text \<open>while (ax--) *(++st) = *(++af): copies ax words, the count read as unsigned.\<close>

primrec mirror_args :: "nat \<Rightarrow> vm \<Rightarrow> vm" where
  "mirror_args 0 s = s"
| "mirror_args (Suc n) s =
     (let a = AF s + 4 in mirror_args n (push (rd s a) (s\<lparr>AF := a\<rparr>)))"

definition make_cframe :: "vm \<Rightarrow> vm" where
  "make_cframe s =
     (let ax = BB s;
          s1 = s\<lparr>BB := padd (ST s) CHOICE_SIZE\<rparr>;
          s2 = wr (BB s1) (CF s1) s1;
          s3 = wr (psub (BB s1) 1) (CCP s2) s2;
          s4 = wr (psub (BB s1) 2) (TT s3) s3;
          s5 = wr (psub (BB s1) 3) ax s4;
          s6 = wr (psub (BB s1) 4) (B0 s5) s5;
          s7 = wr (psub (BB s1) 5) (OD 2 s6) s6;
          s8 = wr (psub (BB s1) 6) (GL s7) s7;
          n = OD 1 s8;
          s9 = s8\<lparr>AF := psub (ST s8) n, ST := BB s8, GL := BB s8\<rparr>;
          s10 = mirror_args (unat n) (new_generation s9)
      in s10\<lparr>AF := ST s10\<rparr>)"

text \<open>The two trail clean-up loops of the unifiable instructions, as they are written.\<close>

definition filter_trail :: "vm \<Rightarrow> vm option" where
  "filter_trail = while_option (\<lambda>s. GP s < TT s)
     (\<lambda>s. if rd s (TT s) \<le> GL s then s\<lparr>TT := TT s - 4\<rparr>
          else wr (TT s) (rd s (GP s + 4)) (s\<lparr>GP := GP s + 4\<rparr>))"

definition clear_trail :: "vm \<Rightarrow> vm option" where
  "clear_trail = while_option (\<lambda>s. GP s < TT s)
     (\<lambda>s. let g = GP s + 4 in wr (rd s g) (rd s g) (s\<lparr>GP := g\<rparr>))"

text \<open>deref(X, Y) reads the word at Y and follows references to the end of the chain.\<close>

definition deref_word :: "store \<Rightarrow> word32 \<Rightarrow> word32 option" where
  "deref_word m = while_option (\<lambda>x. is_var x \<and> x \<noteq> m x) m"

definition deref :: "addr \<Rightarrow> vm \<Rightarrow> word32 option" where
  "deref y s = deref_word (mem s) (rd s y)"

text \<open>Sequencing with a loop that may not end.\<close>

definition with_opt :: "'a option \<Rightarrow> ('a \<Rightarrow> outcome) \<Rightarrow> outcome" where
  "with_opt r k = (case r of None \<Rightarrow> Diverge | Some x \<Rightarrow> k x)"

lemmas control_defs [vm_defs] =
  next_op_def jump_def context_switch_def save_registers_def wr_def push_def
  push_trail_def trail_def bbtrail_def new_generation_def OD_def cell_def

lemma with_opt_simps [simp]:
  "with_opt (Some x) k = k x" "with_opt None k = Diverge"
  by (simp_all add: with_opt_def)

end
