(* ===== verification/MLVM_Unify.thy ===== *)
theory MLVM_Unify
  imports MLVM_Machine
begin

text \<open>
  General unification: the loop at the label UNIFY of engine/engine.c, which
  getval, cgetval and the three unifiable instructions share.  The loop
  destructively binds variables in the store, records bindings on the trail and
  keeps the pairs still to be unified in a scratch stack that starts at cx = st.
  One step of the model is one pass through the head of the C loop or through
  the labels AXDEF or BXDEF.

  The specification reads the store as a system of equations over rational
  trees: a valuation of the term cells is a model of the store when every bound
  cell has the value of the word in it.
\<close>

section \<open>The loop\<close>

datatype urun = URun | USucc | UFail

record ustate =
  u_run :: urun
  u_mem :: store
  u_ax :: word32
  u_bx :: word32
  u_st :: addr
  u_tt :: addr

definition u_trail :: "addr \<Rightarrow> ustate \<Rightarrow> ustate" where
  "u_trail x u = u\<lparr>u_mem := (u_mem u)(u_tt u := x), u_tt := u_tt u - 4\<rparr>"

text \<open>if st == cx the terms are unified, otherwise the next pair is popped.\<close>

definition u_pop :: "addr \<Rightarrow> ustate \<Rightarrow> ustate" where
  "u_pop cx u =
     (if u_st u = cx then u\<lparr>u_run := USucc\<rparr>
      else u\<lparr>u_ax := u_mem u (u_st u), u_bx := u_mem u (u_st u - 4), u_st := u_st u - 8\<rparr>)"

text \<open>The unbound variable x becomes v; a constant needs the trail only below bb.\<close>

definition u_bind :: "addr \<Rightarrow> addr \<Rightarrow> addr \<Rightarrow> word32 \<Rightarrow> ustate \<Rightarrow> ustate" where
  "u_bind bb gl x v u =
     (let u1 = u\<lparr>u_mem := (u_mem u)(x := v)\<rparr> in
      if is_cst v then (if x < bb then u_trail x u1 else u1)
      else (if x \<le> gl then u_trail x u1 else u1))"

definition u_push :: "word32 \<Rightarrow> ustate \<Rightarrow> ustate" where
  "u_push v u = u\<lparr>u_st := u_st u + 4, u_mem := (u_mem u)(u_st u + 4 := v)\<rparr>"

text \<open>while (ax > 1): the arguments n, ..., 2 of the structures at x and y are pushed.\<close>

fun u_push_args :: "nat \<Rightarrow> addr \<Rightarrow> addr \<Rightarrow> ustate \<Rightarrow> ustate" where
  "u_push_args n x y u =
     (if 1 < n
      then let u1 = u_push (u_mem u (y + 4 * of_nat n)) u;
               u2 = u_push (u_mem u1 (x + 4 * of_nat n)) u1
           in u_push_args (n - 1) x y u2
      else u)"

declare u_push_args.simps [simp del]

definition unify_step :: "addr \<Rightarrow> addr \<Rightarrow> addr \<Rightarrow> ustate \<Rightarrow> ustate" where
  "unify_step bb gl cx u =
     (let ax = u_ax u; bx = u_bx u; m = u_mem u in
      if is_var ax then
        (if ax \<noteq> m ax then u\<lparr>u_ax := m ax\<rparr>
         else u_pop cx (u_bind bb gl ax bx u))
      else if is_var bx then
        (if bx \<noteq> m bx then u\<lparr>u_bx := m bx\<rparr>
         else u_pop cx (u_bind bb gl bx ax u))
      else if ax \<noteq> bx then
        (if is_list ax \<and> is_list bx then
           (let u1 = u_push (m (addr bx + 4)) u;
                u2 = u_push (u_mem u1 (addr ax + 4)) u1
            in u2\<lparr>u_bx := u_mem u2 (addr bx), u_ax := u_mem u2 (addr ax)\<rparr>)
         else if is_float m ax \<and> is_float m bx then
           (if m (addr ax + 4) \<noteq> m (addr bx + 4) \<or> m (addr ax + 8) \<noteq> m (addr bx + 8)
            then u\<lparr>u_run := UFail\<rparr>
            else u_pop cx u)
         else if is_str ax \<and> is_str bx then
           (let x = addr ax; y = addr bx in
            if m x \<noteq> m y then u\<lparr>u_run := UFail\<rparr>
            else (let u1 = u_push_args (unat (arity (m x))) x y u
                  in u1\<lparr>u_bx := u_mem u1 (y + 4), u_ax := u_mem u1 (x + 4)\<rparr>))
         else u\<lparr>u_run := UFail\<rparr>)
      else u_pop cx u)"

definition unify :: "addr \<Rightarrow> addr \<Rightarrow> addr \<Rightarrow> ustate \<Rightarrow> ustate option" where
  "unify bb gl cx = while_option (\<lambda>u. u_run u = URun) (unify_step bb gl cx)"

text \<open>The state in which engine enters the loop from its registers.\<close>

definition unify_start :: "word32 \<Rightarrow> word32 \<Rightarrow> vm \<Rightarrow> ustate" where
  "unify_start ax bx s =
     \<lparr>u_run = URun, u_mem = mem s, u_ax = ax, u_bx = bx, u_st = ST s, u_tt = TT s\<rparr>"

text \<open>The label UNIFY: goto CONTROL on success, backtrack on failure.\<close>

definition do_unify :: "word32 \<Rightarrow> word32 \<Rightarrow> vm \<Rightarrow> outcome" where
  "do_unify ax bx s =
     with_opt (unify (BB s) (GL s) (ST s) (unify_start ax bx s))
       (\<lambda>u. let s1 = s\<lparr>mem := u_mem u, ST := u_st u, TT := u_tt u\<rparr> in
            if u_run u = USucc then Control s1 else backtrack s1)"

section \<open>Specification: the store as equations over rational trees\<close>

codatatype rtree =
    RCst word32
  | RFlt word32 word32
  | RList rtree rtree
  | RStr word32 "rtree list"

definition tval :: "store \<Rightarrow> (addr \<Rightarrow> rtree) \<Rightarrow> word32 \<Rightarrow> rtree" where
  "tval m r x =
     (if is_var x then r x
      else if is_list x then RList (r (addr x)) (r (addr x + 4))
      else if is_str x then
        (if m (addr x) = FVL_TAG then RFlt (m (addr x + 4)) (m (addr x + 8))
         else RStr (m (addr x))
                (map (\<lambda>i. r (addr x + 4 * of_nat i)) [1..<Suc (unat (arity (m (addr x))))]))
      else RCst x)"

text \<open>L is the set of term cells.  A valuation is a model when it agrees with every bound cell.\<close>

definition models :: "addr set \<Rightarrow> store \<Rightarrow> (addr \<Rightarrow> rtree) set" where
  "models L m = {r. \<forall>a\<in>L. m a \<noteq> a \<longrightarrow> r a = tval m r (m a)}"

text \<open>
  Well-formed words: references and list and structure arguments are term
  cells, functors and the words of a boxed double are not.
\<close>

definition wf_word :: "addr set \<Rightarrow> addr \<Rightarrow> store \<Rightarrow> word32 \<Rightarrow> bool" where
  "wf_word L cx m x =
     ((is_var x \<longrightarrow> x \<in> L) \<and>
      (is_list x \<longrightarrow> addr x \<in> L \<and> addr x + 4 \<in> L) \<and>
      (is_str x \<longrightarrow> addr x \<notin> L \<and> addr x \<le> cx \<and>
         (if m (addr x) = FVL_TAG
          then addr x + 4 \<notin> L \<and> addr x + 4 \<le> cx \<and> addr x + 8 \<notin> L \<and> addr x + 8 \<le> cx
          else 1 \<le> unat (arity (m (addr x))) \<and>
               (\<forall>i\<in>{1..unat (arity (m (addr x)))}. addr x + 4 * of_nat i \<in> L))))"

definition wf_heap :: "addr set \<Rightarrow> addr \<Rightarrow> store \<Rightarrow> bool" where
  "wf_heap L cx m = (\<forall>a\<in>L. is_var a \<and> a \<le> cx \<and> wf_word L cx m (m a))"

text \<open>Every running state the loop passes through leaves 4096 bytes between stack and trail.\<close>

definition unify_room :: "addr \<Rightarrow> addr \<Rightarrow> addr \<Rightarrow> ustate \<Rightarrow> bool" where
  "unify_room bb gl cx u =
     (\<forall>k. (\<forall>j\<le>k. u_run ((unify_step bb gl cx ^^ j) u) = URun) \<longrightarrow>
          unat (u_st ((unify_step bb gl cx ^^ k) u)) + 4096
            \<le> unat (u_tt ((unify_step bb gl cx ^^ k) u)))"

section \<open>The scratch stack\<close>

text \<open>Word j above cx; the pair popped k-th from the bottom is in the slots 2 * k + 1 and 2 * k + 2.\<close>

definition slot :: "addr \<Rightarrow> nat \<Rightarrow> addr" where
  "slot cx j = cx + 4 * of_nat j"

lemma unat_slot:
  assumes "unat cx + 4 * j < 2 ^ 32"
  shows "unat (slot cx j) = unat cx + 4 * j"
proof -
  have "slot cx j = cx + of_nat (4 * j)" by (simp add: slot_def)
  thus ?thesis using unat_add_lt [OF assms] by simp
qed

lemma slot_simps [simp]:
  "slot cx 0 = cx" "slot cx j + 4 = slot cx (Suc j)" "slot cx j + 8 = slot cx (Suc (Suc j))"
  "slot cx (Suc j) - 4 = slot cx j" "slot cx (Suc (Suc j)) - 8 = slot cx j"
  by (simp_all add: slot_def algebra_simps)

lemma slot_above:
  assumes "unat cx + 4 * j < 2 ^ 32" "0 < j" "a \<le> cx"
  shows "slot cx j \<noteq> a"
  using unat_slot [OF assms(1)] assms(2,3) by (auto simp: word_le_nat_alt)

lemma slot_inj:
  assumes "unat cx + 4 * i < 2 ^ 32" "unat cx + 4 * j < 2 ^ 32"
  shows "(slot cx i = slot cx j) = (i = j)"
proof
  assume "slot cx i = slot cx j"
  hence "unat (slot cx i) = unat (slot cx j)" by (rule arg_cong)
  thus "i = j" unfolding unat_slot [OF assms(1)] unat_slot [OF assms(2)] by simp
qed simp

lemma unat_arity_le: "unat (arity x) \<le> 511"
proof -
  have "unat (arity x) = unat x div 2 ^ 23"
    by (simp add: arity_def drop_bit_eq_div unat_div)
  thus ?thesis using unsigned_less [of x, where ?'a = nat] by simp
qed

lemma u_push_args_1: "n \<le> 1 \<Longrightarrow> u_push_args n x y u = u"
  by (subst u_push_args.simps) simp

lemma u_push_args_Suc:
  "u_push_args (Suc (Suc n)) x y u =
     u_push_args (Suc n) x y
       (u_push (u_mem (u_push (u_mem u (y + 4 * of_nat (Suc (Suc n)))) u) (x + 4 * of_nat (Suc (Suc n))))
          (u_push (u_mem u (y + 4 * of_nat (Suc (Suc n)))) u))"
  by (subst u_push_args.simps) (simp add: Let_def)

text \<open>Pushing the arguments of two structures below cx: the stack grows by the
  pairs of arguments, last argument first, and nothing else changes.\<close>

lemma u_push_args_spec:
  assumes "u_st u = slot cx (2 * n)" "unat cx + 8 * n + 8 * (a - 1) < 2 ^ 32"
    and "\<And>i. 1 < i \<Longrightarrow> i \<le> a \<Longrightarrow> x + 4 * of_nat i \<le> cx \<and> y + 4 * of_nat i \<le> cx"
  shows "u_st (u_push_args a x y u) = slot cx (2 * (n + (a - 1)))
    \<and> u_run (u_push_args a x y u) = u_run u \<and> u_tt (u_push_args a x y u) = u_tt u
    \<and> (\<forall>b. unat b \<le> unat cx + 8 * n \<or> unat cx + 8 * (n + (a - 1)) < unat b \<longrightarrow>
           u_mem (u_push_args a x y u) b = u_mem u b)
    \<and> (\<forall>i<a - 1. u_mem (u_push_args a x y u) (slot cx (2 * (n + i) + 1)) = u_mem u (y + 4 * of_nat (a - i))
           \<and> u_mem (u_push_args a x y u) (slot cx (2 * (n + i) + 2)) = u_mem u (x + 4 * of_nat (a - i)))"
  using assms
proof (induction a arbitrary: n u)
  case 0
  thus ?case by (simp add: u_push_args_1)
next
  case (Suc a)
  show ?case
  proof (cases a)
    case 0
    thus ?thesis using Suc.prems by (simp add: u_push_args_1)
  next
    case (Suc b)
    define u1 where "u1 = u_push (u_mem u (y + 4 * of_nat (Suc a))) u"
    define u2 where "u2 = u_push (u_mem u1 (x + 4 * of_nat (Suc a))) u1"
    have room: "unat cx + 8 * n + 8 * Suc b < 2 ^ 32" using Suc.prems(2) Suc by simp
    have le: "x + 4 * of_nat (Suc a) \<le> cx" "y + 4 * of_nat (Suc a) \<le> cx"
      using Suc.prems(3) [of "Suc a"] Suc by auto
    have st: "u_st u + 4 = slot cx (2 * n + 1)" "u_st u + 8 = slot cx (2 * n + 2)"
      using Suc.prems(1) by simp_all
    have m1: "u_mem u1 = (u_mem u)(slot cx (2 * n + 1) := u_mem u (y + 4 * of_nat (Suc a)))"
      by (simp add: u1_def u_push_def st)
    have n1: "slot cx (2 * n + 1) \<noteq> x + 4 * of_nat (Suc a)"
      using slot_above [of cx "2 * n + 1", OF _ _ le(1)] room by auto
    have m2: "u_mem u2 = (u_mem u)(slot cx (2 * n + 1) := u_mem u (y + 4 * of_nat (Suc a)),
                                   slot cx (2 * n + 2) := u_mem u (x + 4 * of_nat (Suc a)))"
      using n1 Suc.prems(1) by (simp add: u2_def u_push_def u1_def m1)
    have s2: "u_st u2 = slot cx (2 * Suc n)" "u_run u2 = u_run u" "u_tt u2 = u_tt u"
      using Suc.prems(1) by (simp_all add: u2_def u1_def u_push_def)
    have eq: "u_push_args (Suc a) x y u = u_push_args a x y u2"
      using u_push_args_Suc [of b x y u] by (simp add: Suc u2_def u1_def)
    let ?u' = "u_push_args a x y u2"
    have top: "u_mem u2 (slot cx (2 * n + 1)) = u_mem u (y + 4 * of_nat (Suc a))"
      "u_mem u2 (slot cx (2 * n + 2)) = u_mem u (x + 4 * of_nat (Suc a))"
      using slot_inj [of cx "2 * n + 1" "2 * n + 2"] room by (simp_all add: m2)
    have args: "x + 4 * of_nat i \<le> cx \<and> y + 4 * of_nat i \<le> cx" if "1 < i" "i \<le> a" for i
      using Suc.prems(3) that by simp
    have keep: "u_mem u2 p = u_mem u p" if "unat p \<le> unat cx + 8 * n \<or> unat cx + 8 * Suc n < unat p" for p
    proof -
      have "p \<noteq> slot cx (2 * n + 1)" "p \<noteq> slot cx (2 * n + 2)"
        using that unat_slot [of cx "2 * n + 1"] unat_slot [of cx "2 * n + 2"] room by auto
      thus ?thesis by (simp add: m2)
    qed
    have IH: "u_st ?u' = slot cx (2 * (Suc n + b)) \<and> u_run ?u' = u_run u2 \<and> u_tt ?u' = u_tt u2
      \<and> (\<forall>p. unat p \<le> unat cx + 8 * Suc n \<or> unat cx + 8 * (Suc n + b) < unat p \<longrightarrow>
             u_mem ?u' p = u_mem u2 p)
      \<and> (\<forall>i<b. u_mem ?u' (slot cx (2 * (Suc n + i) + 1)) = u_mem u2 (y + 4 * of_nat (a - i))
             \<and> u_mem ?u' (slot cx (2 * (Suc n + i) + 2)) = u_mem u2 (x + 4 * of_nat (a - i)))"
      (is "?S \<and> ?R \<and> ?T \<and> ?K \<and> ?P")
      using Suc.IH [OF s2(1) _ args] room \<open>a = Suc b\<close> by simp
    have low: "u_mem ?u' p = u_mem u p" if "unat p \<le> unat cx + 8 * n \<or> unat cx + 8 * (n + Suc b) < unat p" for p
      using IH keep [of p] that by auto
    have pair: "u_mem ?u' (slot cx (2 * (n + i) + 1)) = u_mem u (y + 4 * of_nat (Suc a - i))
        \<and> u_mem ?u' (slot cx (2 * (n + i) + 2)) = u_mem u (x + 4 * of_nat (Suc a - i))"
      if i: "i < Suc b" for i
    proof (cases i)
      case 0
      have "u_mem ?u' (slot cx (2 * n + 1)) = u_mem u2 (slot cx (2 * n + 1))"
        "u_mem ?u' (slot cx (2 * n + 2)) = u_mem u2 (slot cx (2 * n + 2))"
        using IH unat_slot [of cx "2 * n + 1"] unat_slot [of cx "2 * n + 2"] room by auto
      thus ?thesis using top 0 by simp
    next
      case (Suc j)
      have j: "j < b" and d: "a - j = Suc a - i" "1 < a - j" "a - j \<le> a"
        using i Suc \<open>a = Suc b\<close> by auto
      have "x + 4 * of_nat (a - j) \<le> cx" "y + 4 * of_nat (a - j) \<le> cx" using args [OF d(2,3)] by auto
      hence "u_mem u2 (x + 4 * of_nat (a - j)) = u_mem u (x + 4 * of_nat (a - j))"
        "u_mem u2 (y + 4 * of_nat (a - j)) = u_mem u (y + 4 * of_nat (a - j))"
        by (auto intro!: keep simp: word_le_nat_alt)
      moreover have "u_mem ?u' (slot cx (2 * (Suc n + j) + 1)) = u_mem u2 (y + 4 * of_nat (a - j))"
        "u_mem ?u' (slot cx (2 * (Suc n + j) + 2)) = u_mem u2 (x + 4 * of_nat (a - j))"
        using IH j by auto
      moreover have "n + i = Suc n + j" using Suc by simp
      ultimately show ?thesis by (simp only: d(1))
    qed
    have "u_st ?u' = slot cx (2 * (n + (Suc a - 1)))"
      using IH \<open>a = Suc b\<close> by (metis add_Suc_shift diff_Suc_1)
    thus ?thesis unfolding eq using IH s2 low pair \<open>a = Suc b\<close> by simp
  qed
qed

section \<open>Every step keeps the solutions\<close>

definition agree :: "addr set \<Rightarrow> addr \<Rightarrow> store \<Rightarrow> store \<Rightarrow> bool" where
  "agree L cx m m' = (\<forall>a. a \<le> cx \<longrightarrow> a \<notin> L \<longrightarrow> m' a = m a)"

definition stack_inv :: "addr set \<Rightarrow> addr \<Rightarrow> nat \<Rightarrow> ustate \<Rightarrow> bool" where
  "stack_inv L cx n u =
     (u_st u = slot cx (2 * n) \<and> unat cx + 8 * n < 2 ^ 32 \<and> wf_heap L cx (u_mem u) \<and>
      (\<forall>k<n. wf_word L cx (u_mem u) (u_mem u (slot cx (2 * k + 1)))
            \<and> wf_word L cx (u_mem u) (u_mem u (slot cx (2 * k + 2)))))"

definition stack_sols :: "addr set \<Rightarrow> addr \<Rightarrow> nat \<Rightarrow> ustate \<Rightarrow> (addr \<Rightarrow> rtree) set" where
  "stack_sols L cx n u =
     {r \<in> models L (u_mem u). \<forall>k<n. tval (u_mem u) r (u_mem u (slot cx (2 * k + 2)))
                                   = tval (u_mem u) r (u_mem u (slot cx (2 * k + 1)))}"

definition sols :: "addr set \<Rightarrow> addr \<Rightarrow> nat \<Rightarrow> ustate \<Rightarrow> (addr \<Rightarrow> rtree) set" where
  "sols L cx n u = {r \<in> stack_sols L cx n u. tval (u_mem u) r (u_ax u) = tval (u_mem u) r (u_bx u)}"

text \<open>What a state of the loop says when S are the solutions of the initial equations.\<close>

definition u_post :: "addr set \<Rightarrow> addr \<Rightarrow> ustate \<Rightarrow> (addr \<Rightarrow> rtree) set \<Rightarrow> bool" where
  "u_post L cx u S =
     (case u_run u of
        URun \<Rightarrow> \<exists>n. stack_inv L cx n u \<and> wf_word L cx (u_mem u) (u_ax u)
                  \<and> wf_word L cx (u_mem u) (u_bx u) \<and> sols L cx n u = S
      | USucc \<Rightarrow> wf_heap L cx (u_mem u) \<and> u_st u = cx \<and> models L (u_mem u) = S
      | UFail \<Rightarrow> S = {})"

lemma wf_word_agree: "wf_word L cx m x \<Longrightarrow> agree L cx m m' \<Longrightarrow> wf_word L cx m' x"
  by (auto simp: wf_word_def agree_def)

lemma tval_agree: "wf_word L cx m x \<Longrightarrow> agree L cx m m' \<Longrightarrow> tval m' r x = tval m r x"
  by (auto simp: wf_word_def agree_def tval_def)

lemma tval_cell: "wf_heap L cx m \<Longrightarrow> r \<in> models L m \<Longrightarrow> a \<in> L \<Longrightarrow> tval m r (m a) = r a"
  by (cases "m a = a") (auto simp: models_def wf_heap_def tval_def)

lemma wf_cell: "wf_heap L cx m \<Longrightarrow> a \<in> L \<Longrightarrow> wf_word L cx m (m a)"
  by (simp add: wf_heap_def)

lemma same_below:
  assumes "\<And>a. a \<le> cx \<Longrightarrow> m' a = m a" "wf_heap L cx m"
  shows "agree L cx m m'" "wf_heap L cx m'" "models L m' = models L m"
proof -
  show ag: "agree L cx m m'" using assms(1) by (simp add: agree_def)
  have L: "m' a = m a" if "a \<in> L" for a using assms that by (simp add: wf_heap_def)
  show "wf_heap L cx m'" using assms(2) L wf_word_agree [OF _ ag] by (simp add: wf_heap_def)
  have "tval m' r (m a) = tval m r (m a)" if "a \<in> L" for a r
    using tval_agree [OF wf_cell [OF assms(2) that] ag] .
  thus "models L m' = models L m" using L by (simp add: models_def)
qed

lemma bind_models:
  assumes "wf_heap L cx m" "x \<in> L" "m x = x" "wf_word L cx m v"
  shows "agree L cx m (m(x := v))" "wf_heap L cx (m(x := v))"
    "models L (m(x := v)) = {r \<in> models L m. r x = tval m r v}"
proof -
  show ag: "agree L cx m (m(x := v))" using assms(2) by (auto simp: agree_def)
  show "wf_heap L cx (m(x := v))"
    using assms wf_word_agree [OF _ ag] by (simp add: wf_heap_def)
  show "models L (m(x := v)) = {r \<in> models L m. r x = tval m r v}"
  proof (cases "v = x")
    case True
    hence "m(x := v) = m" using assms(3) by auto
    moreover have "is_var x" using assms(1,2) by (simp add: wf_heap_def)
    ultimately show ?thesis using True by (simp add: tval_def)
  next
    case False
    have eqs: "tval (m(x := v)) r (m a) = tval m r (m a)" if "a \<in> L" for a r
      using tval_agree [OF wf_cell [OF assms(1) that] ag] .
    show ?thesis
      using False assms(2,3) eqs tval_agree [OF assms(4) ag] by (auto simp: models_def)
  qed
qed

text \<open>The scratch stack survives any change that keeps its slots and the non-term cells.\<close>

lemma stack_change:
  assumes inv: "stack_inv L cx n u"
    and ag: "agree L cx (u_mem u) (u_mem u')" and wf: "wf_heap L cx (u_mem u')"
    and slots: "\<And>j. 0 < j \<Longrightarrow> j \<le> 2 * n \<Longrightarrow> u_mem u' (slot cx j) = u_mem u (slot cx j)"
    and st: "u_st u' = u_st u"
  shows "stack_inv L cx n u'"
    and "stack_sols L cx n u' = {r \<in> models L (u_mem u'). \<forall>k<n.
           tval (u_mem u) r (u_mem u (slot cx (2 * k + 2))) = tval (u_mem u) r (u_mem u (slot cx (2 * k + 1)))}"
proof -
  have s: "u_mem u' (slot cx (2 * k + 1)) = u_mem u (slot cx (2 * k + 1))"
    "u_mem u' (slot cx (2 * k + 2)) = u_mem u (slot cx (2 * k + 2))" if "k < n" for k
    by (rule slots; use that in simp)+
  have w: "wf_word L cx (u_mem u) (u_mem u (slot cx (2 * k + 1)))"
    "wf_word L cx (u_mem u) (u_mem u (slot cx (2 * k + 2)))" if "k < n" for k
    using inv that by (simp_all add: stack_inv_def)
  show "stack_inv L cx n u'"
    using inv wf st s wf_word_agree [OF w(1) ag] wf_word_agree [OF w(2) ag]
    unfolding stack_inv_def by metis
  have t: "tval (u_mem u') r (u_mem u' (slot cx (2 * k + 2))) = tval (u_mem u) r (u_mem u (slot cx (2 * k + 2)))"
    "tval (u_mem u') r (u_mem u' (slot cx (2 * k + 1))) = tval (u_mem u) r (u_mem u (slot cx (2 * k + 1)))"
    if "k < n" for k r
    using tval_agree [OF w(2) [OF that] ag] tval_agree [OF w(1) [OF that] ag] s [OF that] by metis+
  show "stack_sols L cx n u' = {r \<in> models L (u_mem u'). \<forall>k<n.
           tval (u_mem u) r (u_mem u (slot cx (2 * k + 2))) = tval (u_mem u) r (u_mem u (slot cx (2 * k + 1)))}"
    unfolding stack_sols_def by (rule Collect_cong) (metis t)
qed

lemma stack_bind:
  assumes inv: "stack_inv L cx n u" and x: "x \<in> L" "u_mem u x = x"
    and v: "wf_word L cx (u_mem u) v"
    and m: "\<And>p. unat p \<le> unat cx + 8 * n \<Longrightarrow> u_mem u' p = ((u_mem u)(x := v)) p"
    and st: "u_st u' = u_st u"
  shows "stack_inv L cx n u'"
    and "stack_sols L cx n u' = {r \<in> stack_sols L cx n u. r x = tval (u_mem u) r v}"
proof -
  have wf: "wf_heap L cx (u_mem u)" and bnd: "unat cx + 8 * n < 2 ^ 32"
    using inv by (simp_all add: stack_inv_def)
  note b = bind_models [OF wf x v]
  have below: "u_mem u' a = ((u_mem u)(x := v)) a" if "a \<le> cx" for a
    using m that by (simp add: word_le_nat_alt)
  have sb: "wf_heap L cx (u_mem u')" "models L (u_mem u') = models L ((u_mem u)(x := v))"
    by (rule same_below(2,3) [OF _ b(2)]; use below in blast)+
  have ag: "agree L cx (u_mem u) (u_mem u')"
    using b(1) below by (simp add: agree_def)
  have xcx: "x \<le> cx" using wf x by (simp add: wf_heap_def)
  have slots: "u_mem u' (slot cx j) = u_mem u (slot cx j)" if "0 < j" "j \<le> 2 * n" for j
  proof -
    have "unat cx + 4 * j < 2 ^ 32" using bnd that by simp
    hence "slot cx j \<noteq> x" "unat (slot cx j) \<le> unat cx + 8 * n"
      using slot_above [OF _ that(1) xcx] unat_slot [of cx j] that by auto
    thus ?thesis using m by simp
  qed
  show "stack_inv L cx n u'" by (rule stack_change(1) [OF inv ag sb(1) _ st]) (use slots in blast)
  have "stack_sols L cx n u' = {r \<in> models L (u_mem u'). \<forall>k<n.
      tval (u_mem u) r (u_mem u (slot cx (2 * k + 2))) = tval (u_mem u) r (u_mem u (slot cx (2 * k + 1)))}"
    by (rule stack_change(2) [OF inv ag sb(1) _ st]) (use slots in blast)
  also have "\<dots> = {r \<in> stack_sols L cx n u. r x = tval (u_mem u) r v}"
    unfolding sb(2) b(3) stack_sols_def by blast
  finally show "stack_sols L cx n u' = {r \<in> stack_sols L cx n u. r x = tval (u_mem u) r v}" .
qed

lemma u_pop_post:
  assumes inv: "stack_inv L cx n u" and run: "u_run u = URun"
  shows "u_post L cx (u_pop cx u) (stack_sols L cx n u)"
proof (cases n)
  case 0
  thus ?thesis using inv by (simp add: u_pop_def u_post_def stack_inv_def stack_sols_def)
next
  case (Suc k)
  have st: "u_st u = slot cx (2 * k + 2)" and bnd: "unat cx + 8 * Suc k < 2 ^ 32"
    using inv Suc by (simp_all add: stack_inv_def)
  have ne: "u_st u \<noteq> cx"
    using slot_above [of cx "2 * k + 2" cx] bnd st by simp
  define u' where "u' = u_pop cx u"
  have u': "u_mem u' = u_mem u" "u_run u' = URun" "u_st u' = slot cx (2 * k)"
    "u_ax u' = u_mem u (slot cx (2 * k + 2))" "u_bx u' = u_mem u (slot cx (2 * k + 1))"
    using ne run by (simp_all add: u'_def u_pop_def st)
  have i': "stack_inv L cx k u'" using inv Suc u' by (simp add: stack_inv_def)
  have w': "wf_word L cx (u_mem u') (u_ax u')" "wf_word L cx (u_mem u') (u_bx u')"
    using inv Suc u' by (simp_all add: stack_inv_def)
  have "sols L cx k u' = stack_sols L cx n u"
    unfolding sols_def stack_sols_def u' Suc using less_Suc_eq by auto
  thus ?thesis using i' w' u'(2) unfolding u'_def [symmetric] u_post_def by auto
qed

lemma u_bind_post:
  assumes inv: "stack_inv L cx n u" and run: "u_run u = URun"
    and x: "x \<in> L" "u_mem u x = x" and v: "wf_word L cx (u_mem u) v"
    and room: "unat (u_st u) < unat (u_tt u)"
  shows "u_post L cx (u_pop cx (u_bind bb gl x v u)) {r \<in> stack_sols L cx n u. r x = tval (u_mem u) r v}"
proof -
  define u' where "u' = u_bind bb gl x v u"
  have st: "unat (u_st u) = unat cx + 8 * n"
    using inv unat_slot [of cx "2 * n"] by (simp add: stack_inv_def)
  have u': "u_st u' = u_st u" "u_run u' = URun"
    using run by (simp_all add: u'_def u_bind_def u_trail_def Let_def)
  have m: "u_mem u' p = ((u_mem u)(x := v)) p" if "unat p \<le> unat cx + 8 * n" for p
    using that room st by (auto simp: u'_def u_bind_def u_trail_def Let_def)
  have sb: "stack_inv L cx n u'"
    "stack_sols L cx n u' = {r \<in> stack_sols L cx n u. r x = tval (u_mem u) r v}"
    by (rule stack_bind [OF inv x v _ u'(1)]; use m in blast)+
  show ?thesis using u_pop_post [OF sb(1) u'(2)] unfolding sb(2) unfolding u'_def .
qed

lemma tval_eq_cases:
  assumes "\<not> is_var a" "\<not> is_var b" "wf_word L cx m a" "wf_word L cx m b"
    and "\<not> (is_list a \<and> is_list b)" "\<not> (is_str a \<and> is_str b)" "a \<noteq> b"
  shows "tval m r a \<noteq> tval m r b"
  using assms kind_exhaust [of a] kind_exhaust [of b] by (auto simp: tval_def)

text \<open>Pushing d pairs of words adds their d equations.\<close>

lemma stack_grow:
  assumes inv: "stack_inv L cx n u"
    and st: "u_st u' = slot cx (2 * (n + d))" and bnd: "unat cx + 8 * (n + d) < 2 ^ 32"
    and keep: "\<And>p. unat p \<le> unat cx + 8 * n \<Longrightarrow> u_mem u' p = u_mem u p"
    and wfs: "\<And>i. i < d \<Longrightarrow> wf_word L cx (u_mem u) (P i) \<and> wf_word L cx (u_mem u) (Q i)"
    and new: "\<And>i. i < d \<Longrightarrow> u_mem u' (slot cx (2 * (n + i) + 1)) = Q i
                         \<and> u_mem u' (slot cx (2 * (n + i) + 2)) = P i"
  shows "agree L cx (u_mem u) (u_mem u')" and "stack_inv L cx (n + d) u'"
    and "stack_sols L cx (n + d) u' =
           {r \<in> stack_sols L cx n u. \<forall>i<d. tval (u_mem u) r (P i) = tval (u_mem u) r (Q i)}"
proof -
  have h: "wf_heap L cx (u_mem u)" using inv by (simp add: stack_inv_def)
  have below: "u_mem u' p = u_mem u p" if "p \<le> cx" for p
    using keep that by (simp add: word_le_nat_alt)
  show ag: "agree L cx (u_mem u) (u_mem u')" using below by (simp add: agree_def)
  have h': "wf_heap L cx (u_mem u')" "models L (u_mem u') = models L (u_mem u)"
    by (rule same_below(2,3) [OF _ h]; use below in blast)+
  have old: "u_mem u' (slot cx (2 * k + 1)) = u_mem u (slot cx (2 * k + 1))"
    "u_mem u' (slot cx (2 * k + 2)) = u_mem u (slot cx (2 * k + 2))" if "k < n" for k
    by (rule keep; use that bnd unat_slot [of cx "2 * k + 1"] unat_slot [of cx "2 * k + 2"] in simp)+
  have w: "wf_word L cx (u_mem u) (u_mem u (slot cx (2 * k + 1)))"
    "wf_word L cx (u_mem u) (u_mem u (slot cx (2 * k + 2)))" if "k < n" for k
    using inv that by (simp_all add: stack_inv_def)
  have split: "(\<forall>k<n + d. R k) = ((\<forall>k<n. R k) \<and> (\<forall>i<d. R (n + i)))" for R
    by (metis add_diff_inverse_nat nat_add_left_cancel_less trans_less_add1)
  show "stack_inv L cx (n + d) u'"
    unfolding stack_inv_def split
    using st bnd h' wf_word_agree [OF _ ag] w wfs old new by simp
  have tv: "tval (u_mem u') r x = tval (u_mem u) r x" if "wf_word L cx (u_mem u) x" for r x
    using tval_agree [OF that ag] .
  show "stack_sols L cx (n + d) u' =
     {r \<in> stack_sols L cx n u. \<forall>i<d. tval (u_mem u) r (P i) = tval (u_mem u) r (Q i)}"
    unfolding stack_sols_def split h'(2)
    using old new tv [OF w(1)] tv [OF w(2)] wfs tv by (auto simp del: One_nat_def)
qed

text \<open>The state after a pass that decomposes two lists or two structures.\<close>

lemma list_step_state:
  assumes inv: "stack_inv L cx n u" and run: "u_run u = URun"
    and ab: "is_list (u_ax u)" "is_list (u_bx u)"
    and wf: "wf_word L cx (u_mem u) (u_ax u)" "wf_word L cx (u_mem u) (u_bx u)"
    and room: "unat (u_st u) + 4096 < 2 ^ 32" and nv: "u_ax u \<noteq> u_bx u"
    and u'_def: "u' = unify_step bb gl cx u"
  shows "u_run u' = URun \<and> u_st u' = slot cx (2 * (n + 1)) \<and> unat cx + 8 * (n + 1) < 2 ^ 32 \<and> u_tt u' = u_tt u
    \<and> u_ax u' = u_mem u (addr (u_ax u)) \<and> u_bx u' = u_mem u (addr (u_bx u))
    \<and> (\<forall>p. unat p \<le> unat cx + 8 * n \<or> unat cx + 8 * (n + 1) < unat p \<longrightarrow> u_mem u' p = u_mem u p)
    \<and> u_mem u' (slot cx (2 * n + 1)) = u_mem u (addr (u_bx u) + 4)
    \<and> u_mem u' (slot cx (2 * n + 2)) = u_mem u (addr (u_ax u) + 4)"
proof -
  let ?m = "u_mem u" let ?a = "addr (u_ax u)" let ?b = "addr (u_bx u)"
  have h: "wf_heap L cx ?m" using inv by (simp add: stack_inv_def)
  have in_L: "?a \<in> L" "?a + 4 \<in> L" "?b \<in> L" using wf ab by (simp_all add: wf_word_def)
  have le: "?a \<le> cx" "?a + 4 \<le> cx" "?b \<le> cx"
    using in_L h unfolding wf_heap_def by auto
  have stn: "u_st u = slot cx (2 * n)" and bnd: "unat cx + 8 * n + 4096 < 2 ^ 32"
    using inv room unat_slot [of cx "2 * n"] by (simp_all add: stack_inv_def)
  have us: "unat (slot cx (2 * n + 1)) = unat cx + 8 * n + 4" "unat (slot cx (2 * n + 2)) = unat cx + 8 * n + 8"
    using unat_slot [of cx "2 * n + 1"] unat_slot [of cx "2 * n + 2"] bnd by auto
  have ne: "p \<noteq> slot cx (2 * n + 1)" "p \<noteq> slot cx (2 * n + 2)"
    if "unat p \<le> unat cx + 8 * n \<or> unat cx + 8 * (n + 1) < unat p" for p
    using us that by auto
  have ule: "unat p \<le> unat cx + 8 * n \<or> unat cx + 8 * (n + 1) < unat p" if "p \<le> cx" for p
    using that by (simp add: word_le_nat_alt)
  have m': "u_mem u' = ?m(slot cx (2 * n + 1) := ?m (?b + 4), slot cx (2 * n + 2) := ?m (?a + 4))"
    and rest: "u_run u' = URun" "u_st u' = slot cx (2 * (n + 1))" "u_tt u' = u_tt u"
      "u_ax u' = ?m ?a" "u_bx u' = ?m ?b"
    using ab nv run ne [OF ule, OF le(1)] ne [OF ule, OF le(2)] ne [OF ule, OF le(3)]
    by (simp_all add: u'_def unify_step_def u_push_def Let_def stn)
  have "slot cx (2 * n + 1) \<noteq> slot cx (2 * n + 2)" using us by auto
  thus ?thesis using rest bnd ne by (simp add: m')
qed

lemma str_step_state:
  assumes inv: "stack_inv L cx n u" and run: "u_run u = URun"
    and ab: "is_str (u_ax u)" "is_str (u_bx u)"
    and wf: "wf_word L cx (u_mem u) (u_ax u)" "wf_word L cx (u_mem u) (u_bx u)"
    and room: "unat (u_st u) + 4096 < 2 ^ 32" and nv: "u_ax u \<noteq> u_bx u"
    and f: "u_mem u (addr (u_ax u)) = u_mem u (addr (u_bx u))" "u_mem u (addr (u_ax u)) \<noteq> FVL_TAG"
    and a_def: "a = unat (arity (u_mem u (addr (u_ax u))))"
    and u'_def: "u' = unify_step bb gl cx u"
  shows "1 \<le> a \<and> u_run u' = URun \<and> u_st u' = slot cx (2 * (n + (a - 1)))
    \<and> unat cx + 8 * (n + (a - 1)) < 2 ^ 32 \<and> u_tt u' = u_tt u
    \<and> u_ax u' = u_mem u (addr (u_ax u) + 4) \<and> u_bx u' = u_mem u (addr (u_bx u) + 4)
    \<and> (\<forall>p. unat p \<le> unat cx + 8 * n \<or> unat cx + 8 * (n + (a - 1)) < unat p \<longrightarrow> u_mem u' p = u_mem u p)
    \<and> (\<forall>i<a - 1. u_mem u' (slot cx (2 * (n + i) + 1)) = u_mem u (addr (u_bx u) + 4 * of_nat (a - i))
           \<and> u_mem u' (slot cx (2 * (n + i) + 2)) = u_mem u (addr (u_ax u) + 4 * of_nat (a - i)))
    \<and> (\<forall>i. 1 \<le> i \<longrightarrow> i \<le> a \<longrightarrow> addr (u_ax u) + 4 * of_nat i \<in> L \<and> addr (u_bx u) + 4 * of_nat i \<in> L)"
proof -
  let ?m = "u_mem u" let ?x = "addr (u_ax u)" let ?y = "addr (u_bx u)"
  define u1 where "u1 = u_push_args a ?x ?y u"
  have h: "wf_heap L cx ?m" using inv by (simp add: stack_inv_def)
  have a: "1 \<le> a" "a \<le> 511"
    using wf(1) ab f unat_arity_le by (simp_all add: wf_word_def a_def)
  have in_L: "?x + 4 * of_nat i \<in> L \<and> ?y + 4 * of_nat i \<in> L" if "1 \<le> i" "i \<le> a" for i
    using wf ab f that by (simp add: wf_word_def a_def)
  have le: "?x + 4 * of_nat i \<le> cx \<and> ?y + 4 * of_nat i \<le> cx" if "1 \<le> i" "i \<le> a" for i
    using in_L [OF that] h unfolding wf_heap_def by auto
  have stn: "u_st u = slot cx (2 * n)" and bnd: "unat cx + 8 * n + 4096 < 2 ^ 32"
    using inv room unat_slot [of cx "2 * n"] by (simp_all add: stack_inv_def)
  have P: "u_st u1 = slot cx (2 * (n + (a - 1))) \<and> u_run u1 = u_run u \<and> u_tt u1 = u_tt u
    \<and> (\<forall>b. unat b \<le> unat cx + 8 * n \<or> unat cx + 8 * (n + (a - 1)) < unat b \<longrightarrow> u_mem u1 b = u_mem u b)
    \<and> (\<forall>i<a - 1. u_mem u1 (slot cx (2 * (n + i) + 1)) = u_mem u (?y + 4 * of_nat (a - i))
           \<and> u_mem u1 (slot cx (2 * (n + i) + 2)) = u_mem u (?x + 4 * of_nat (a - i)))"
    unfolding u1_def by (rule u_push_args_spec [OF stn]) (use bnd a le in auto)
  have u'eq: "u' = u1\<lparr>u_bx := u_mem u1 (?y + 4), u_ax := u_mem u1 (?x + 4)\<rparr>"
    using ab nv f run by (simp add: u'_def unify_step_def Let_def u1_def a_def is_float_def)
  have one: "u_mem u1 (?x + 4) = ?m (?x + 4)" "u_mem u1 (?y + 4) = ?m (?y + 4)"
    using P le [of 1] a by (auto simp: word_le_nat_alt)
  show ?thesis using P run one a bnd in_L by (simp add: u'eq)
qed

lemma list_step_post:
  assumes inv: "stack_inv L cx n u" and run: "u_run u = URun"
    and ab: "is_list (u_ax u)" "is_list (u_bx u)"
    and wf: "wf_word L cx (u_mem u) (u_ax u)" "wf_word L cx (u_mem u) (u_bx u)"
    and room: "unat (u_st u) + 4096 < 2 ^ 32" and nv: "u_ax u \<noteq> u_bx u"
  shows "u_post L cx (unify_step bb gl cx u) (sols L cx n u)"
proof -
  let ?m = "u_mem u" let ?a = "addr (u_ax u)" let ?b = "addr (u_bx u)"
  define u' where "u' = unify_step bb gl cx u"
  have h: "wf_heap L cx ?m" using inv by (simp add: stack_inv_def)
  have in_L: "?a \<in> L" "?a + 4 \<in> L" "?b \<in> L" "?b + 4 \<in> L" using wf ab by (simp_all add: wf_word_def)
  note st = list_step_state [OF inv run ab wf room nv u'_def]
  have stn: "u_st u' = slot cx (2 * (n + 1))" using st by blast
  have g: "agree L cx ?m (u_mem u')" "stack_inv L cx (n + 1) u'"
    "stack_sols L cx (n + 1) u' =
       {r \<in> stack_sols L cx n u. \<forall>i<1::nat. tval ?m r (?m (?a + 4)) = tval ?m r (?m (?b + 4))}"
    by (rule stack_grow [OF inv stn, where P = "\<lambda>i. ?m (?a + 4)" and Q = "\<lambda>i. ?m (?b + 4)"];
        use st wf_cell [OF h] in_L in simp)+
  have w: "wf_word L cx ?m (?m ?a)" "wf_word L cx ?m (?m ?b)"
    using wf_cell [OF h] in_L by auto
  have ax': "u_ax u' = ?m ?a" "u_bx u' = ?m ?b" using st by auto
  have c: "tval ?m r (?m ?a) = r ?a" "tval ?m r (?m (?a + 4)) = r (?a + 4)"
    "tval ?m r (?m ?b) = r ?b" "tval ?m r (?m (?b + 4)) = r (?b + 4)"
    if "r \<in> stack_sols L cx n u" for r
    using that in_L by (simp_all add: stack_sols_def tval_cell [OF h])
  have t: "tval ?m r (u_ax u) = RList (r ?a) (r (?a + 4))" "tval ?m r (u_bx u) = RList (r ?b) (r (?b + 4))" for r
    using ab by (simp_all add: tval_def)
  have "(r \<in> sols L cx (n + 1) u') = (r \<in> sols L cx n u)" for r
    unfolding sols_def g(3) ax' mem_Collect_eq tval_agree [OF w(1) g(1)] tval_agree [OF w(2) g(1)] t
    using c [of r] by (cases "r \<in> stack_sols L cx n u") auto
  hence "sols L cx (n + 1) u' = sols L cx n u" by blast
  thus ?thesis
    using st g(2) wf_word_agree [OF w(1) g(1)] wf_word_agree [OF w(2) g(1)]
    unfolding u'_def [symmetric] u_post_def by auto
qed

lemma str_step_post:
  assumes inv: "stack_inv L cx n u" and run: "u_run u = URun"
    and ab: "is_str (u_ax u)" "is_str (u_bx u)"
    and wf: "wf_word L cx (u_mem u) (u_ax u)" "wf_word L cx (u_mem u) (u_bx u)"
    and room: "unat (u_st u) + 4096 < 2 ^ 32" and nv: "u_ax u \<noteq> u_bx u"
    and f: "u_mem u (addr (u_ax u)) = u_mem u (addr (u_bx u))" "u_mem u (addr (u_ax u)) \<noteq> FVL_TAG"
  shows "u_post L cx (unify_step bb gl cx u) (sols L cx n u)"
proof -
  let ?m = "u_mem u" let ?x = "addr (u_ax u)" let ?y = "addr (u_bx u)"
  define a where "a = unat (arity (?m ?x))"
  define d where "d = a - 1"
  define u' where "u' = unify_step bb gl cx u"
  have h: "wf_heap L cx ?m" using inv by (simp add: stack_inv_def)
  note st = str_step_state [OF inv run ab wf room nv f a_def u'_def, folded d_def]
  have stn: "u_st u' = slot cx (2 * (n + d))" and a: "1 \<le> a" using st by blast+
  have in_L: "?x + 4 * of_nat i \<in> L" "?y + 4 * of_nat i \<in> L" if "1 \<le> i" "i \<le> a" for i
    using st that by auto
  have idx: "1 \<le> a - i" "a - i \<le> a" if "i < d" for i using that a d_def by auto
  have wPQ: "wf_word L cx ?m (?m (?x + 4 * of_nat (a - i)))" "wf_word L cx ?m (?m (?y + 4 * of_nat (a - i)))"
    if "i < d" for i
    by (rule wf_cell [OF h in_L(1) [OF idx [OF that]]], rule wf_cell [OF h in_L(2) [OF idx [OF that]]])
  have g: "agree L cx ?m (u_mem u')" "stack_inv L cx (n + d) u'"
    "stack_sols L cx (n + d) u' = {r \<in> stack_sols L cx n u.
       \<forall>i<d. tval ?m r (?m (?x + 4 * of_nat (a - i))) = tval ?m r (?m (?y + 4 * of_nat (a - i)))}"
    by (rule stack_grow [OF inv stn, where P = "\<lambda>i. ?m (?x + 4 * of_nat (a - i))"
          and Q = "\<lambda>i. ?m (?y + 4 * of_nat (a - i))"];
        use st wPQ in simp)+
  have w: "wf_word L cx ?m (?m (?x + 4))" "wf_word L cx ?m (?m (?y + 4))"
    using wf_cell [OF h] in_L [of 1] a by auto
  have ax': "u_ax u' = ?m (?x + 4)" "u_bx u' = ?m (?y + 4)" using st by auto
  have "(r \<in> sols L cx (n + d) u') = (r \<in> sols L cx n u)" for r
  proof (cases "r \<in> stack_sols L cx n u")
    case True
    hence c: "tval ?m r (?m (?x + 4 * of_nat i)) = r (?x + 4 * of_nat i)"
      "tval ?m r (?m (?y + 4 * of_nat i)) = r (?y + 4 * of_nat i)" if "1 \<le> i" "i \<le> a" for i
      using in_L [OF that] by (simp_all add: stack_sols_def tval_cell [OF h])
    have t: "tval ?m r (u_ax u) = RStr (?m ?x) (map (\<lambda>i. r (?x + 4 * of_nat i)) [1..<Suc a])"
      "tval ?m r (u_bx u) = RStr (?m ?x) (map (\<lambda>i. r (?y + 4 * of_nat i)) [1..<Suc a])"
      using ab f by (simp_all add: tval_def a_def)
    have "(tval ?m r (u_ax u) = tval ?m r (u_bx u)) = (r (?x + 4) = r (?y + 4) \<and>
        (\<forall>i<d. r (?x + 4 * of_nat (a - i)) = r (?y + 4 * of_nat (a - i))))"
      using map_upt_eq_iff [OF a, of "\<lambda>i. r (?x + 4 * of_nat i)" "\<lambda>i. r (?y + 4 * of_nat i)"]
      unfolding t d_def by simp
    also have "\<dots> = (tval ?m r (?m (?x + 4)) = tval ?m r (?m (?y + 4)) \<and>
        (\<forall>i<d. tval ?m r (?m (?x + 4 * of_nat (a - i))) = tval ?m r (?m (?y + 4 * of_nat (a - i)))))"
      using c [OF idx] c [of 1] a by simp
    finally show ?thesis
      using True unfolding sols_def g(3) ax' mem_Collect_eq
        tval_agree [OF w(1) g(1)] tval_agree [OF w(2) g(1)] by blast
  next
    case False
    thus ?thesis unfolding sols_def g(3) by blast
  qed
  hence "sols L cx (n + d) u' = sols L cx n u" by blast
  thus ?thesis
    using st g(2) wf_word_agree [OF w(1) g(1)] wf_word_agree [OF w(2) g(1)]
    unfolding u'_def [symmetric] u_post_def by auto
qed

text \<open>One pass through the loop: the solutions of the equations in the state do not change.\<close>

lemma unify_step_post:
  assumes inv: "stack_inv L cx n u" and run: "u_run u = URun"
    and wf: "wf_word L cx (u_mem u) (u_ax u)" "wf_word L cx (u_mem u) (u_bx u)"
    and room: "unat (u_st u) + 4096 \<le> unat (u_tt u)"
  shows "u_post L cx (unify_step bb gl cx u) (sols L cx n u)"
proof -
  let ?m = "u_mem u" let ?a = "u_ax u" let ?b = "u_bx u"
  have h: "wf_heap L cx ?m" using inv by (simp add: stack_inv_def)
  have r1: "unat (u_st u) < unat (u_tt u)" using room by simp
  have r2: "unat (u_st u) + 4096 < 2 ^ 32"
    using room unsigned_less [of "u_tt u", where ?'a = nat] by simp
  have hop_a: "u_post L cx (u\<lparr>u_ax := ?m ?a\<rparr>) (sols L cx n u)" if "is_var ?a"
  proof -
    have "?a \<in> L" using wf(1) that by (simp add: wf_word_def)
    hence "wf_word L cx ?m (?m ?a)" "r \<in> models L ?m \<Longrightarrow> tval ?m r (?m ?a) = tval ?m r ?a" for r
      using wf_cell [OF h] tval_cell [OF h] that by (simp_all add: tval_def)
    thus ?thesis using inv wf run
      by (auto simp: u_post_def stack_inv_def sols_def stack_sols_def intro!: exI [of _ n])
  qed
  have hop_b: "u_post L cx (u\<lparr>u_bx := ?m ?b\<rparr>) (sols L cx n u)" if "is_var ?b"
  proof -
    have "?b \<in> L" using wf(2) that by (simp add: wf_word_def)
    hence "wf_word L cx ?m (?m ?b)" "r \<in> models L ?m \<Longrightarrow> tval ?m r (?m ?b) = tval ?m r ?b" for r
      using wf_cell [OF h] tval_cell [OF h] that by (simp_all add: tval_def)
    thus ?thesis using inv wf run
      by (auto simp: u_post_def stack_inv_def sols_def stack_sols_def intro!: exI [of _ n])
  qed
  have bind: "u_post L cx (u_pop cx (u_bind bb gl x v u)) (sols L cx n u)"
    if "is_var x" "?m x = x" "x = ?a \<and> v = ?b \<or> x = ?b \<and> v = ?a" for x v
  proof -
    have x: "x \<in> L" "wf_word L cx ?m v" using that wf by (auto simp: wf_word_def)
    have "tval ?m r x = r x" for r using that(1) by (simp add: tval_def)
    hence "{r \<in> stack_sols L cx n u. r x = tval ?m r v} = sols L cx n u"
      unfolding sols_def using that(3) by (intro Collect_cong) metis
    thus ?thesis using u_bind_post [OF inv run x(1) that(2) x(2) r1] by metis
  qed
  have fail: "u_post L cx (u\<lparr>u_run := UFail\<rparr>) (sols L cx n u)"
    if "\<And>r. tval ?m r ?a \<noteq> tval ?m r ?b"
    using that by (simp add: u_post_def sols_def)
  have pop: "u_post L cx (u_pop cx u) (sols L cx n u)"
    if "\<And>r. tval ?m r ?a = tval ?m r ?b"
    using u_pop_post [OF inv run] that by (simp add: sols_def)
  consider (va) "is_var ?a" | (vb) "\<not> is_var ?a" "is_var ?b"
    | (eq) "\<not> is_var ?a" "\<not> is_var ?b" "?a = ?b"
    | (ll) "\<not> is_var ?a" "\<not> is_var ?b" "?a \<noteq> ?b" "is_list ?a \<and> is_list ?b"
    | (ss) "\<not> is_var ?a" "\<not> is_var ?b" "?a \<noteq> ?b" "is_str ?a \<and> is_str ?b"
    | (cc) "\<not> is_var ?a" "\<not> is_var ?b" "?a \<noteq> ?b"
        "\<not> (is_list ?a \<and> is_list ?b)" "\<not> (is_str ?a \<and> is_str ?b)"
    by blast
  thus ?thesis
  proof cases
    case va
    thus ?thesis using hop_a bind [of ?a ?b] by (simp add: unify_step_def Let_def)
  next
    case vb
    thus ?thesis using hop_b bind [of ?b ?a] by (simp add: unify_step_def Let_def)
  next
    case eq
    thus ?thesis using pop by (simp add: unify_step_def Let_def)
  next
    case ll
    thus ?thesis using list_step_post [OF inv run _ _ wf r2] by blast
  next
    case ss
    show ?thesis
    proof (cases "?m (addr ?a) \<noteq> ?m (addr ?b)")
      case True
      hence "tval ?m r ?a \<noteq> tval ?m r ?b" for r using ss by (auto simp: tval_def)
      moreover have "\<not> (is_float ?m ?a \<and> is_float ?m ?b)" using True by (auto simp: is_float_def)
      hence "unify_step bb gl cx u = u\<lparr>u_run := UFail\<rparr>"
        using ss True by (auto simp: unify_step_def Let_def)
      ultimately show ?thesis using fail by simp
    next
      case hdr: False
      show ?thesis
      proof (cases "?m (addr ?a) = FVL_TAG")
        case True
        let ?ne = "?m (addr ?a + 4) \<noteq> ?m (addr ?b + 4) \<or> ?m (addr ?a + 8) \<noteq> ?m (addr ?b + 8)"
        have "is_float ?m ?a" "is_float ?m ?b"
          using ss True hdr by (simp_all add: is_float_def is_str_def)
        hence st: "unify_step bb gl cx u = (if ?ne then u\<lparr>u_run := UFail\<rparr> else u_pop cx u)"
          using ss by (simp add: unify_step_def Let_def)
        show ?thesis unfolding st
          using fail pop ss True hdr by (simp add: tval_def)
      next
        case False
        thus ?thesis using str_step_post [OF inv run _ _ wf r2] ss hdr by blast
      qed
    qed
  next
    case cc
    have "\<not> (is_float ?m ?a \<and> is_float ?m ?b)" using cc(5) float_is_str by blast
    hence "unify_step bb gl cx u = u\<lparr>u_run := UFail\<rparr>"
      using cc by (auto simp: unify_step_def Let_def)
    thus ?thesis using fail tval_eq_cases [OF cc(1,2) wf cc(4,5,3)] by simp
  qed
qed

end
