(* ===== verification/MLVM_Unify_Correct.thy ===== *)
theory MLVM_Unify_Correct
  imports MLVM_Unify
begin

text \<open>
  Correctness of unification: the final store is a most general unifier of the
  two terms, unification against a ground term returns, and unwinding the trail
  undoes every binding older than the choice frame.
\<close>

section \<open>The loop computes a most general unifier\<close>

text \<open>Loops whose every running state leaves room keep the solutions of the start.\<close>

lemma unify_iterate_post:
  assumes "u_post L cx u S" "unify_room bb gl cx u"
    and "\<And>i. i < j \<Longrightarrow> u_run ((unify_step bb gl cx ^^ i) u) = URun"
  shows "u_post L cx ((unify_step bb gl cx ^^ j) u) S"
  using assms(3)
proof (induction j)
  case 0
  thus ?case using assms(1) by simp
next
  case (Suc j)
  let ?v = "(unify_step bb gl cx ^^ j) u"
  have run: "u_run ?v = URun" and IH: "u_post L cx ?v S" using Suc by auto
  then obtain n where v: "stack_inv L cx n ?v" "wf_word L cx (u_mem ?v) (u_ax ?v)"
    "wf_word L cx (u_mem ?v) (u_bx ?v)" "sols L cx n ?v = S"
    by (auto simp: u_post_def)
  have "\<forall>i\<le>j. u_run ((unify_step bb gl cx ^^ i) u) = URun"
    using Suc.prems by (simp add: less_Suc_eq_le)
  hence "unat (u_st ?v) + 4096 \<le> unat (u_tt ?v)"
    using assms(2) unfolding unify_room_def by blast
  thus ?case using unify_step_post [OF v(1) run v(2,3)] v(4) by simp
qed

lemma unify_start_post:
  assumes "wf_heap L (ST s) (mem s)" "wf_word L (ST s) (mem s) ax" "wf_word L (ST s) (mem s) bx"
  shows "u_post L (ST s) (unify_start ax bx s)
           {r \<in> models L (mem s). tval (mem s) r ax = tval (mem s) r bx}"
  using assms unsigned_less [of "ST s", where ?'a = nat]
  by (auto simp: u_post_def unify_start_def stack_inv_def sols_def stack_sols_def intro!: exI [of _ 0])

lemma unify_result_post:
  assumes "wf_heap L (ST s) (mem s)" "wf_word L (ST s) (mem s) ax" "wf_word L (ST s) (mem s) bx"
    and "unify_room bb gl (ST s) (unify_start ax bx s)"
    and "unify bb gl (ST s) (unify_start ax bx s) = Some v"
  shows "u_run v \<noteq> URun \<and> u_post L (ST s) v {r \<in> models L (mem s). tval (mem s) r ax = tval (mem s) r bx}"
proof -
  obtain k where "v = (unify_step bb gl (ST s) ^^ k) (unify_start ax bx s)" "u_run v \<noteq> URun"
    "\<forall>j<k. u_run ((unify_step bb gl (ST s) ^^ j) (unify_start ax bx s)) = URun"
    using while_option_iterate [OF assms(5) [unfolded unify_def]] by auto
  thus ?thesis using unify_iterate_post [OF unify_start_post [OF assms(1-3)] assms(4)] by auto
qed

section \<open>Unification against a ground term returns\<close>

text \<open>ground m x n: following x through m meets no unbound variable, and n bounds its size.\<close>

inductive ground :: "store \<Rightarrow> word32 \<Rightarrow> nat \<Rightarrow> bool" for m where
  g_cst: "is_cst x \<Longrightarrow> ground m x 1"
| g_hop: "is_var x \<Longrightarrow> m x \<noteq> x \<Longrightarrow> ground m (m x) n \<Longrightarrow> ground m x (Suc n)"
| g_float: "is_float m x \<Longrightarrow> ground m x 1"
| g_list: "is_list x \<Longrightarrow> ground m (m (addr x)) n1 \<Longrightarrow> ground m (m (addr x + 4)) n2 \<Longrightarrow>
    ground m x (Suc (n1 + n2))"
| g_str: "is_str x \<Longrightarrow> \<not> is_float m x \<Longrightarrow>
    (\<And>i. 1 \<le> i \<Longrightarrow> i \<le> unat (arity (m (addr x))) \<Longrightarrow> ground m (m (addr x + 4 * of_nat i)) (f i)) \<Longrightarrow>
    ground m x (Suc (\<Sum>i\<in>{1..unat (arity (m (addr x)))}. f i))"

text \<open>hops m x h: the reference chain from x has h links.\<close>

inductive hops :: "store \<Rightarrow> word32 \<Rightarrow> nat \<Rightarrow> bool" for m where
  h_end: "\<not> (is_var x \<and> m x \<noteq> x) \<Longrightarrow> hops m x 0"
| h_link: "is_var x \<Longrightarrow> m x \<noteq> x \<Longrightarrow> hops m (m x) h \<Longrightarrow> hops m x (Suc h)"

lemma ground_not_var_self: "ground m x n \<Longrightarrow> is_var x \<Longrightarrow> m x \<noteq> x \<and> (\<exists>k<n. ground m (m x) k)"
  by (erule ground.cases) (auto dest: float_is_str)

lemma ground_pos: "ground m x n \<Longrightarrow> 0 < n"
  by (erule ground.cases) auto

lemma ground_list: "ground m x n \<Longrightarrow> is_list x \<Longrightarrow>
    \<exists>n1 n2. ground m (m (addr x)) n1 \<and> ground m (m (addr x + 4)) n2 \<and> n1 + n2 < n"
  by (erule ground.cases) (auto dest: float_is_str)

lemma ground_str: "ground m x n \<Longrightarrow> is_str x \<Longrightarrow> \<not> is_float m x \<Longrightarrow>
    \<exists>f. (\<forall>i. 1 \<le> i \<longrightarrow> i \<le> unat (arity (m (addr x))) \<longrightarrow> ground m (m (addr x + 4 * of_nat i)) (f i))
      \<and> (\<Sum>i\<in>{1..unat (arity (m (addr x)))}. f i) < n"
  by (erule ground.cases) auto

lemma ground_hops: "ground m x n \<Longrightarrow> \<exists>h. hops m x h"
proof (induction rule: ground.induct)
  case (g_hop x n)
  thus ?case using h_link by blast
qed (auto intro!: exI [of _ 0] h_end dest: float_is_str)

text \<open>The changes a step makes below cx: an unbound variable may be bound.\<close>

definition binds :: "addr set \<Rightarrow> addr \<Rightarrow> store \<Rightarrow> store \<Rightarrow> bool" where
  "binds L cx m m' = (\<forall>p. p \<le> cx \<longrightarrow> p \<notin> L \<or> m p \<noteq> p \<longrightarrow> m' p = m p)"

lemma binds_agree: "binds L cx m m' \<Longrightarrow> agree L cx m m'"
  by (simp add: binds_def agree_def)

lemma ground_binds:
  assumes "ground m x n" "wf_heap L cx m" "wf_word L cx m x" "binds L cx m m'"
  shows "ground m' x n"
  using assms(1,3)
proof (induction rule: ground.induct)
  case (g_cst x)
  thus ?case using ground.g_cst by blast
next
  case (g_hop x n)
  have x: "x \<in> L" using g_hop by (simp add: wf_word_def)
  have "x \<le> cx" using x assms(2) by (simp add: wf_heap_def)
  hence "m' x = m x" "wf_word L cx m (m x)"
    using g_hop(2) x assms(4) wf_cell [OF assms(2)] unfolding binds_def by blast+
  thus ?case using ground.g_hop [of x m' n] g_hop by simp
next
  case (g_float x)
  hence "is_float m' x" using assms(4) by (auto simp: wf_word_def binds_def is_float_def is_str_def)
  thus ?case by (rule ground.g_float)
next
  case (g_list x n1 n2)
  have c: "addr x \<in> L" "addr x + 4 \<in> L" using g_list by (auto simp: wf_word_def)
  have le: "addr x \<le> cx" "addr x + 4 \<le> cx" and v: "is_var (addr x)" "is_var (addr x + 4)"
    using assms(2) c unfolding wf_heap_def by auto
  have "m (addr x) \<noteq> addr x" "m (addr x + 4) \<noteq> addr x + 4"
    using ground_not_var_self [OF g_list(2)] ground_not_var_self [OF g_list(3)] v by metis+
  hence "m' (addr x) = m (addr x)" "m' (addr x + 4) = m (addr x + 4)"
    using assms(4) le by (auto simp: binds_def)
  thus ?case using g_list wf_cell [OF assms(2)] c by (auto intro!: ground.g_list)
next
  case (g_str x f)
  have hd: "m' (addr x) = m (addr x)" and nf: "m (addr x) \<noteq> FVL_TAG"
    using g_str assms(4) by (auto simp: wf_word_def binds_def is_float_def is_str_def)
  have "ground m' (m' (addr x + 4 * of_nat i)) (f i)" if i: "1 \<le> i" "i \<le> unat (arity (m (addr x)))" for i
  proof -
    have c: "addr x + 4 * of_nat i \<in> L" using g_str i nf by (auto simp: wf_word_def)
    have "addr x + 4 * of_nat i \<le> cx" "is_var (addr x + 4 * of_nat i)"
      using assms(2) c unfolding wf_heap_def by auto
    moreover have "m (addr x + 4 * of_nat i) \<noteq> addr x + 4 * of_nat i"
      using ground_not_var_self [OF g_str(3) [OF i]] calculation(2) by metis
    ultimately have "m' (addr x + 4 * of_nat i) = m (addr x + 4 * of_nat i)"
      using assms(4) by (auto simp: binds_def)
    thus ?thesis using g_str.IH [OF i] wf_cell [OF assms(2) c] by simp
  qed
  hence "ground m' x (Suc (\<Sum>i\<in>{1..unat (arity (m' (addr x)))}. f i))"
    using g_str(1,2) hd by (intro ground.g_str) (auto simp: is_float_def)
  thus ?case by (simp only: hd)
qed

lemma wf_var: "wf_word L cx m x \<Longrightarrow> is_var x \<Longrightarrow> x \<in> L"
  by (simp add: wf_word_def)

lemma hops_same:
  assumes "hops m x h" "wf_heap L cx m" "wf_word L cx m x" "\<And>p. p \<le> cx \<Longrightarrow> m' p = m p"
  shows "hops m' x h"
  using assms(1,3)
proof (induction rule: hops.induct)
  case (h_end x)
  thus ?case using assms(2,4) by (auto intro!: hops.h_end simp: wf_word_def wf_heap_def)
next
  case (h_link x h)
  have x: "x \<in> L" using h_link by (simp add: wf_word_def)
  hence "m' x = m x" "wf_word L cx m (m x)" using assms(2,4) wf_cell [OF assms(2)] by (auto simp: wf_heap_def)
  thus ?case using h_link hops.h_link [of x m' h] by simp
qed

lemma hops_bind:
  assumes "hops m x h" "wf_heap L cx m" "wf_word L cx m x"
    and "\<And>p. p \<le> cx \<Longrightarrow> p \<noteq> a \<Longrightarrow> m' p = m p" "m a = a" "m' a = v" "hops m' v k"
  shows "\<exists>h. hops m' x h"
  using assms(1,3)
proof (induction rule: hops.induct)
  case (h_end x)
  show ?case
  proof (cases "is_var x \<and> m' x \<noteq> x")
    case True
    hence "x \<le> cx" using h_end assms(2) by (simp add: wf_word_def wf_heap_def)
    hence "x = a" using True h_end(1) assms(4) by metis
    hence "hops m' x (Suc k)" using True assms(6,7) hops.h_link [of x m' k] by simp
    thus ?thesis by blast
  qed (blast intro: hops.h_end)
next
  case (h_link x h)
  have x: "x \<in> L" using h_link by (simp add: wf_word_def)
  hence "x \<le> cx" "x \<noteq> a" using assms(2,5) h_link(2) by (auto simp: wf_heap_def)
  hence "m' x = m x" "wf_word L cx m (m x)" using assms(4) wf_cell [OF assms(2) x] by auto
  then obtain k where "hops m' (m x) k" using h_link.IH by blast
  hence "hops m' x (Suc k)" using \<open>m' x = m x\<close> h_link(1,2) hops.h_link [of x m' k] by simp
  thus ?case by blast
qed

text \<open>
  The state of a run whose second terms are all ground: G bounds the size of
  what is left to visit, h the references still to follow from ax.
\<close>

definition ground_stack :: "addr set \<Rightarrow> addr \<Rightarrow> nat \<Rightarrow> (nat \<Rightarrow> nat) \<Rightarrow> ustate \<Rightarrow> bool" where
  "ground_stack L cx n gs u =
     (stack_inv L cx n u \<and> (\<forall>k<n. ground (u_mem u) (u_mem u (slot cx (2 * k + 1))) (gs k))
      \<and> (\<forall>x. wf_word L cx (u_mem u) x \<longrightarrow> (\<exists>h. hops (u_mem u) x h)))"

definition ground_run :: "addr set \<Rightarrow> addr \<Rightarrow> nat \<Rightarrow> nat \<Rightarrow> ustate \<Rightarrow> bool" where
  "ground_run L cx G h u =
     (\<exists>n gs g. ground_stack L cx n gs u \<and> u_run u = URun \<and> wf_word L cx (u_mem u) (u_ax u)
        \<and> wf_word L cx (u_mem u) (u_bx u) \<and> ground (u_mem u) (u_bx u) g \<and> hops (u_mem u) (u_ax u) h
        \<and> G = g + (\<Sum>k<n. gs k))"

lemma ground_runI:
  assumes "ground_stack L cx n gs u" "u_run u = URun" "wf_word L cx (u_mem u) (u_ax u)"
    "wf_word L cx (u_mem u) (u_bx u)" "ground (u_mem u) (u_bx u) g" "g + (\<Sum>k<n. gs k) < G"
  shows "\<exists>G' h'. ground_run L cx G' h' u \<and> G' < G"
proof -
  obtain h where "hops (u_mem u) (u_ax u) h" using assms(1,3) by (auto simp: ground_stack_def)
  hence "ground_run L cx (g + (\<Sum>k<n. gs k)) h u" unfolding ground_run_def using assms by blast
  thus ?thesis using assms(6) by blast
qed

lemma ground_pop:
  assumes gs: "ground_stack L cx n gs u" and run: "u_run u = URun" and G: "(\<Sum>k<n. gs k) < G"
  shows "u_run (u_pop cx u) \<noteq> URun \<or> (\<exists>G' h'. ground_run L cx G' h' (u_pop cx u) \<and> G' < G)"
proof (cases n)
  case 0
  thus ?thesis using gs by (simp add: ground_stack_def stack_inv_def u_pop_def)
next
  case (Suc k)
  have inv: "stack_inv L cx (Suc k) u" using gs Suc by (simp add: ground_stack_def)
  have st: "u_st u = slot cx (2 * k + 2)" and bnd: "unat cx + 8 * Suc k < 2 ^ 32"
    using inv by (simp_all add: stack_inv_def)
  have ne: "u_st u \<noteq> cx" using slot_above [of cx "2 * k + 2" cx] bnd st by simp
  define u' where "u' = u_pop cx u"
  have u': "u_mem u' = u_mem u" "u_run u' = URun" "u_st u' = slot cx (2 * k)"
    "u_ax u' = u_mem u (slot cx (2 * k + 2))" "u_bx u' = u_mem u (slot cx (2 * k + 1))"
    using ne run by (simp_all add: u'_def u_pop_def st)
  have "ground_stack L cx k gs u'"
    using gs Suc u' by (simp add: ground_stack_def stack_inv_def)
  moreover have "wf_word L cx (u_mem u') (u_ax u')" "wf_word L cx (u_mem u') (u_bx u')"
    "ground (u_mem u') (u_bx u') (gs k)"
    using gs Suc u' by (simp_all add: ground_stack_def stack_inv_def)
  ultimately show ?thesis
    using ground_runI [of L cx k gs u' "gs k" G] u'(2) G Suc unfolding u'_def by (simp add: add.commute)
qed

lemma same_binds: "(\<And>p. p \<le> cx \<Longrightarrow> m' p = m p) \<Longrightarrow> binds L cx m m'"
  by (simp add: binds_def)

lemma ground_grow:
  assumes gs: "ground_stack L cx n gs u" and inv': "stack_inv L cx (n + d) u'"
    and bnd: "unat cx + 8 * (n + d) < 2 ^ 32"
    and keep: "\<And>p. unat p \<le> unat cx + 8 * n \<Longrightarrow> u_mem u' p = u_mem u p"
    and new: "\<And>i. i < d \<Longrightarrow> u_mem u' (slot cx (2 * (n + i) + 1)) = Q i"
    and wf: "\<And>i. i < d \<Longrightarrow> wf_word L cx (u_mem u) (Q i) \<and> ground (u_mem u) (Q i) (f i)"
  shows "ground_stack L cx (n + d) (\<lambda>k. if k < n then gs k else f (k - n)) u'"
proof -
  have inv: "stack_inv L cx n u" and h: "wf_heap L cx (u_mem u)"
    using gs by (simp_all add: ground_stack_def stack_inv_def)
  have below: "u_mem u' p = u_mem u p" if "p \<le> cx" for p
    using keep that by (simp add: word_le_nat_alt)
  note b = same_binds [of cx "u_mem u'" "u_mem u" L, OF below]
  have "ground (u_mem u') (u_mem u' (slot cx (2 * k + 1))) (if k < n then gs k else f (k - n))"
    if k: "k < n + d" for k
  proof (cases "k < n")
    case True
    have "unat (slot cx (2 * k + 1)) \<le> unat cx + 8 * n"
      using True bnd unat_slot [of cx "2 * k + 1"] by simp
    hence "u_mem u' (slot cx (2 * k + 1)) = u_mem u (slot cx (2 * k + 1))" by (rule keep)
    moreover have "wf_word L cx (u_mem u) (u_mem u (slot cx (2 * k + 1)))"
      "ground (u_mem u) (u_mem u (slot cx (2 * k + 1))) (gs k)"
      using gs inv True by (simp_all add: ground_stack_def stack_inv_def)
    ultimately show ?thesis using ground_binds [OF _ h _ b] True by simp
  next
    case False
    hence "u_mem u' (slot cx (2 * k + 1)) = Q (k - n)" using new [of "k - n"] k by simp
    thus ?thesis using ground_binds [OF _ h _ b] wf [of "k - n"] False k by simp
  qed
  moreover have "\<exists>h. hops (u_mem u') x h" if "wf_word L cx (u_mem u') x" for x
  proof -
    have "wf_word L cx (u_mem u) x"
      by (rule wf_word_agree [OF that]) (simp add: agree_def below)
    thus ?thesis using gs hops_same [OF _ h _ below] unfolding ground_stack_def by blast
  qed
  ultimately show ?thesis using inv' unfolding ground_stack_def by blast
qed

lemma sum_append_fun:
  fixes f g :: "nat \<Rightarrow> nat"
  shows "(\<Sum>k<n + d. if k < n then f k else g (k - n)) = (\<Sum>k<n. f k) + (\<Sum>i<d. g i)"
proof -
  have "(\<Sum>k<n + d. if k < n then f k else g (k - n))
      = (\<Sum>k<n. if k < n then f k else g (k - n)) + (\<Sum>k\<in>{n..<n + d}. if k < n then f k else g (k - n))"
    by (metis (no_types, lifting) lessThan_atLeast0 le_add1 sum.atLeastLessThan_concat zero_le)
  also have "(\<Sum>k\<in>{n..<n + d}. if k < n then f k else g (k - n)) = (\<Sum>i<d. g i)"
    by (rule sum.reindex_bij_witness [of _ "\<lambda>i. i + n" "\<lambda>k. k - n"]) auto
  finally show ?thesis by simp
qed

lemma sum_rev_args:
  fixes f :: "nat \<Rightarrow> nat"
  assumes "1 \<le> a"
  shows "f 1 + (\<Sum>i<a - 1. f (a - i)) = (\<Sum>i\<in>{1..a}. f i)"
proof -
  have "(\<Sum>i<a - 1. f (a - i)) = (\<Sum>j\<in>{2..a}. f j)"
    by (rule sum.reindex_bij_witness [of _ "\<lambda>j. a - j" "\<lambda>i. a - i"]) auto
  moreover have "{1..a} = insert 1 {2..a}" using assms by auto
  ultimately show ?thesis by simp
qed

lemma ground_bind:
  assumes gs: "ground_stack L cx n gs u" and run: "u_run u = URun"
    and x: "x \<in> L" "u_mem u x = x" and v: "wf_word L cx (u_mem u) v" "ground (u_mem u) v g"
    and room: "unat (u_st u) < unat (u_tt u)"
  shows "ground_stack L cx n gs (u_bind bb gl x v u)" "u_run (u_bind bb gl x v u) = URun"
proof -
  define u' where "u' = u_bind bb gl x v u"
  have inv: "stack_inv L cx n u" and h: "wf_heap L cx (u_mem u)" and bnd: "unat cx + 8 * n < 2 ^ 32"
    using gs by (simp_all add: ground_stack_def stack_inv_def)
  have st: "unat (u_st u) = unat cx + 8 * n"
    using inv unat_slot [of cx "2 * n"] by (simp add: stack_inv_def)
  have u': "u_st u' = u_st u" "u_run u' = URun"
    using run by (simp_all add: u'_def u_bind_def u_trail_def Let_def)
  have m: "u_mem u' p = ((u_mem u)(x := v)) p" if "unat p \<le> unat cx + 8 * n" for p
    using that room st by (auto simp: u'_def u_bind_def u_trail_def Let_def)
  have below: "u_mem u' p = ((u_mem u)(x := v)) p" if "p \<le> cx" for p
    using m that by (simp add: word_le_nat_alt)
  have i': "stack_inv L cx n u'"
    by (rule stack_bind(1) [OF inv x v(1) _ u'(1)]) (use m in blast)
  have b: "binds L cx (u_mem u) (u_mem u')"
    unfolding binds_def using below x by auto
  have xcx: "x \<le> cx" using x h by (simp add: wf_heap_def)
  have "ground (u_mem u') (u_mem u' (slot cx (2 * k + 1))) (gs k)" if k: "k < n" for k
  proof -
    have s: "unat (slot cx (2 * k + 1)) = unat cx + 4 * (2 * k + 1)"
      using k bnd by (intro unat_slot) simp
    hence "slot cx (2 * k + 1) \<noteq> x" using xcx by (auto simp: word_le_nat_alt)
    hence "u_mem u' (slot cx (2 * k + 1)) = u_mem u (slot cx (2 * k + 1))" using m s k by simp
    thus ?thesis using ground_binds [OF _ h _ b] gs inv k by (simp add: ground_stack_def stack_inv_def)
  qed
  moreover obtain k where "hops (u_mem u') v k"
    using ground_hops [OF ground_binds [OF v(2) h v(1) b]] by blast
  hence "\<exists>h. hops (u_mem u') y h" if "wf_word L cx (u_mem u') y" for y
  proof -
    have "agree L cx (u_mem u') (u_mem u)" using binds_agree [OF b] by (simp add: agree_def)
    hence "wf_word L cx (u_mem u) y" using wf_word_agree [OF that] by blast
    then obtain j where "hops (u_mem u) y j" using gs by (auto simp: ground_stack_def)
    thus ?thesis
      using hops_bind [OF _ h \<open>wf_word L cx (u_mem u) y\<close> _ x(2) _ \<open>hops (u_mem u') v k\<close>] below xcx by simp
  qed
  ultimately show "ground_stack L cx n gs (u_bind bb gl x v u)"
    using i' unfolding ground_stack_def u'_def by blast
  show "u_run (u_bind bb gl x v u) = URun" using u'(2) by (simp add: u'_def)
qed

definition ground_next :: "addr set \<Rightarrow> addr \<Rightarrow> nat \<Rightarrow> nat \<Rightarrow> ustate \<Rightarrow> bool" where
  "ground_next L cx G h u =
     (u_run u \<noteq> URun \<or> (\<exists>G' h'. ground_run L cx G' h' u \<and> (G' < G \<or> G' = G \<and> h' < h)))"

lemma ground_nextI: "\<exists>G' h'. ground_run L cx G' h' u \<and> G' < G \<Longrightarrow> ground_next L cx G h u"
  unfolding ground_next_def by blast

lemma ground_list_step:
  assumes gs: "ground_stack L cx n gs u" and run: "u_run u = URun"
    and ab: "is_list (u_ax u)" "is_list (u_bx u)" "u_ax u \<noteq> u_bx u"
    and wf: "wf_word L cx (u_mem u) (u_ax u)" "wf_word L cx (u_mem u) (u_bx u)"
    and g: "ground (u_mem u) (u_bx u) g" and room: "unat (u_st u) + 4096 < 2 ^ 32"
  shows "ground_next L cx (g + (\<Sum>k<n. gs k)) h (unify_step bb gl cx u)"
proof -
  let ?m = "u_mem u" let ?a = "addr (u_ax u)" let ?b = "addr (u_bx u)"
  define u' where "u' = unify_step bb gl cx u"
  have inv: "stack_inv L cx n u" and hp: "wf_heap L cx ?m"
    using gs by (simp_all add: ground_stack_def stack_inv_def)
  have in_L: "?a \<in> L" "?a + 4 \<in> L" "?b \<in> L" "?b + 4 \<in> L" using wf ab by (simp_all add: wf_word_def)
  note st = list_step_state [OF inv run ab(1,2) wf room ab(3) u'_def]
  have stn: "u_st u' = slot cx (2 * (n + 1))" and bnd: "unat cx + 8 * (n + 1) < 2 ^ 32" using st by blast+
  have keep: "u_mem u' p = ?m p" if "unat p \<le> unat cx + 8 * n" for p using st that by blast
  have below: "u_mem u' p = ?m p" if "p \<le> cx" for p using keep that by (simp add: word_le_nat_alt)
  have w: "wf_word L cx ?m (?m ?a)" "wf_word L cx ?m (?m ?b)" "wf_word L cx ?m (?m (?a + 4))"
    "wf_word L cx ?m (?m (?b + 4))"
    using wf_cell [OF hp] in_L by auto
  obtain n1 n2 where n12: "ground ?m (?m ?b) n1" "ground ?m (?m (?b + 4)) n2" "n1 + n2 < g"
    using ground_list [OF g ab(2)] by blast
  have inv': "stack_inv L cx (n + 1) u'" and ag: "agree L cx ?m (u_mem u')"
    by (rule stack_grow [OF inv stn, where P = "\<lambda>i. ?m (?a + 4)" and Q = "\<lambda>i. ?m (?b + 4)"];
        use st w in simp)+
  have "ground_stack L cx (n + 1) (\<lambda>k. if k < n then gs k else (\<lambda>i. n2) (k - n)) u'"
    by (rule ground_grow [OF gs inv' bnd, where Q = "\<lambda>i. ?m (?b + 4)"]) (use st w n12 in auto)
  moreover have "u_run u' = URun" "u_ax u' = ?m ?a" "u_bx u' = ?m ?b" using st by blast+
  moreover have "ground (u_mem u') (?m ?b) n1"
    by (rule ground_binds [OF n12(1) hp w(2) same_binds]) (rule below)
  ultimately show ?thesis unfolding u'_def [symmetric]
    using n12(3) wf_word_agree [OF w(1) ag] wf_word_agree [OF w(2) ag]
      sum_append_fun [where n = n and d = 1 and f = gs and g = "\<lambda>i. n2"]
    by (intro ground_nextI ground_runI [where g = n1]) auto
qed

lemma ground_str_step:
  assumes gs: "ground_stack L cx n gs u" and run: "u_run u = URun"
    and ab: "is_str (u_ax u)" "is_str (u_bx u)" "u_ax u \<noteq> u_bx u"
    and f: "u_mem u (addr (u_ax u)) = u_mem u (addr (u_bx u))" "u_mem u (addr (u_ax u)) \<noteq> FVL_TAG"
    and wf: "wf_word L cx (u_mem u) (u_ax u)" "wf_word L cx (u_mem u) (u_bx u)"
    and g: "ground (u_mem u) (u_bx u) g" and room: "unat (u_st u) + 4096 < 2 ^ 32"
  shows "ground_next L cx (g + (\<Sum>k<n. gs k)) h (unify_step bb gl cx u)"
proof -
  let ?m = "u_mem u" let ?x = "addr (u_ax u)" let ?y = "addr (u_bx u)"
  define a where "a = unat (arity (?m ?x))"
  define d where "d = a - 1"
  define u' where "u' = unify_step bb gl cx u"
  have inv: "stack_inv L cx n u" and hp: "wf_heap L cx ?m"
    using gs by (simp_all add: ground_stack_def stack_inv_def)
  note st = str_step_state [OF inv run ab(1,2) wf room ab(3) f a_def u'_def, folded d_def]
  have stn: "u_st u' = slot cx (2 * (n + d))" and bnd: "unat cx + 8 * (n + d) < 2 ^ 32"
    and a: "1 \<le> a" using st by blast+
  have keep: "u_mem u' p = ?m p" if "unat p \<le> unat cx + 8 * n" for p using st that by blast
  have below: "u_mem u' p = ?m p" if "p \<le> cx" for p using keep that by (simp add: word_le_nat_alt)
  have in_L: "?x + 4 * of_nat i \<in> L" "?y + 4 * of_nat i \<in> L" if "1 \<le> i" "i \<le> a" for i
    using st that by auto
  have wi: "wf_word L cx ?m (?m (?x + 4 * of_nat i)) \<and> wf_word L cx ?m (?m (?y + 4 * of_nat i))"
    if "1 \<le> i" "i \<le> a" for i
    using wf_cell [OF hp] in_L [OF that] by blast
  have idx: "1 \<le> a - i" "a - i \<le> a" if "i < d" for i using that a d_def by auto
  have "\<not> is_float ?m (u_bx u)" using f by (simp add: is_float_def)
  then obtain k where k: "\<And>i. 1 \<le> i \<Longrightarrow> i \<le> a \<Longrightarrow> ground ?m (?m (?y + 4 * of_nat i)) (k i)"
    "(\<Sum>i\<in>{1..a}. k i) < g"
    using ground_str [OF g ab(2)] f(1) unfolding a_def by auto
  have inv': "stack_inv L cx (n + d) u'" and ag: "agree L cx ?m (u_mem u')"
    by (rule stack_grow [OF inv stn, where P = "\<lambda>i. ?m (?x + 4 * of_nat (a - i))"
          and Q = "\<lambda>i. ?m (?y + 4 * of_nat (a - i))"];
        use st wi [OF idx] in simp)+
  have "ground_stack L cx (n + d) (\<lambda>j. if j < n then gs j else (\<lambda>i. k (a - i)) (j - n)) u'"
    by (rule ground_grow [OF gs inv' bnd, where Q = "\<lambda>i. ?m (?y + 4 * of_nat (a - i))"])
       (use st wi [OF idx] k(1) [OF idx] in auto)
  moreover have "u_run u' = URun" "u_ax u' = ?m (?x + 4)" "u_bx u' = ?m (?y + 4)" using st by blast+
  moreover have "ground (u_mem u') (?m (?y + 4)) (k 1)"
    by (rule ground_binds [OF _ hp _ same_binds]) (use k(1) [of 1] wi [of 1] a below in auto)
  moreover have "k 1 + (\<Sum>j<n + d. if j < n then gs j else (\<lambda>i. k (a - i)) (j - n)) < g + (\<Sum>j<n. gs j)"
    using k(2) sum_rev_args [OF a, of k] sum_append_fun [where n = n and d = d and f = gs and g = "\<lambda>i. k (a - i)"] by (simp add: d_def)
  moreover have "wf_word L cx (u_mem u') (?m (?x + 4))" "wf_word L cx (u_mem u') (?m (?y + 4))"
    using wf_word_agree [OF _ ag] wi [of 1] a by auto
  ultimately show ?thesis unfolding u'_def [symmetric]
    by (intro ground_nextI ground_runI [where g = "k 1"]) auto
qed

lemma ground_step:
  assumes gr: "ground_run L cx G h u" and room: "unat (u_st u) + 4096 \<le> unat (u_tt u)"
  shows "ground_next L cx G h (unify_step bb gl cx u)"
proof -
  let ?m = "u_mem u" let ?a = "u_ax u" let ?b = "u_bx u"
  obtain n gs g where gs: "ground_stack L cx n gs u" and run: "u_run u = URun"
    and wf: "wf_word L cx ?m ?a" "wf_word L cx ?m ?b"
    and g: "ground ?m ?b g" and h: "hops ?m ?a h" and G: "G = g + (\<Sum>k<n. gs k)"
    using gr by (auto simp: ground_run_def)
  have r1: "unat (u_st u) < unat (u_tt u)" using room by simp
  have r2: "unat (u_st u) + 4096 < 2 ^ 32"
    using room unsigned_less [of "u_tt u", where ?'a = nat] by simp
  have hp: "wf_heap L cx ?m" using gs by (simp add: ground_stack_def stack_inv_def)
  have sG: "(\<Sum>k<n. gs k) < G" using ground_pos [OF g] G by simp
  have pop: "ground_next L cx G h (u_pop cx u)"
    using ground_pop [OF gs run sG] unfolding ground_next_def by blast
  have fail: "ground_next L cx G h (u\<lparr>u_run := UFail\<rparr>)" by (simp add: ground_next_def)
  consider (hop_a) "is_var ?a" "?a \<noteq> ?m ?a" | (bind_a) "is_var ?a" "?a = ?m ?a"
    | (vb) "\<not> is_var ?a" "is_var ?b" | (ll) "\<not> is_var ?a" "\<not> is_var ?b" "?a \<noteq> ?b" "is_list ?a" "is_list ?b"
    | (ss) "\<not> is_var ?a" "\<not> is_var ?b" "?a \<noteq> ?b" "is_str ?a" "is_str ?b"
        "?m (addr ?a) = ?m (addr ?b)" "?m (addr ?a) \<noteq> FVL_TAG"
    | (eq) "\<not> is_var ?a" "\<not> is_var ?b" "?a = ?b"
    | (cc) "\<not> is_var ?a" "\<not> is_var ?b" "?a \<noteq> ?b" "\<not> (is_list ?a \<and> is_list ?b)"
        "\<not> (is_str ?a \<and> is_str ?b) \<or> ?m (addr ?a) \<noteq> ?m (addr ?b) \<or> ?m (addr ?a) = FVL_TAG"
    by blast
  thus ?thesis
  proof cases
    case hop_a
    from h obtain k where k: "h = Suc k" "hops ?m (?m ?a) k" using hop_a by cases auto
    have "wf_word L cx ?m (?m ?a)" by (rule wf_cell [OF hp wf_var [OF wf(1) hop_a(1)]])
    hence "ground_run L cx G k (u\<lparr>u_ax := ?m ?a\<rparr>)"
      using gs run wf g G k(2) unfolding ground_run_def ground_stack_def stack_inv_def by auto
    thus ?thesis using hop_a k(1) by (auto simp: unify_step_def Let_def ground_next_def)
  next
    case bind_a
    have x: "?a \<in> L" "?m ?a = ?a" using wf(1) bind_a by (simp_all add: wf_word_def)
    note b = ground_bind [OF gs run x wf(2) g r1, where bb = bb and gl = gl]
    have "unify_step bb gl cx u = u_pop cx (u_bind bb gl ?a ?b u)"
      using bind_a by (simp add: unify_step_def Let_def)
    thus ?thesis using ground_pop [OF b sG] unfolding ground_next_def by metis
  next
    case vb
    obtain k where k: "k < g" "ground ?m (?m ?b) k" and ne: "?m ?b \<noteq> ?b"
      using ground_not_var_self [OF g vb(2)] by blast
    have "wf_word L cx ?m (?m ?b)" by (rule wf_cell [OF hp wf_var [OF wf(2) vb(2)]])
    hence "ground_run L cx (k + (\<Sum>k<n. gs k)) h (u\<lparr>u_bx := ?m ?b\<rparr>)"
      using gs run wf k(2) h unfolding ground_run_def ground_stack_def stack_inv_def by auto
    moreover have "unify_step bb gl cx u = u\<lparr>u_bx := ?m ?b\<rparr>"
      using vb ne by (simp add: unify_step_def Let_def)
    moreover have "k + (\<Sum>k<n. gs k) < G" using k(1) G by simp
    ultimately show ?thesis unfolding ground_next_def by metis
  next
    case ll
    show ?thesis unfolding G by (rule ground_list_step [OF gs run ll(4,5,3) wf g r2])
  next
    case ss
    show ?thesis unfolding G by (rule ground_str_step [OF gs run ss(4,5,3,6,7) wf g r2])
  next
    case eq
    thus ?thesis using pop by (simp add: unify_step_def Let_def)
  next
    case cc
    hence "unify_step bb gl cx u \<in> {u_pop cx u, u\<lparr>u_run := UFail\<rparr>}"
      using float_is_str [of ?m ?a] float_is_str [of ?m ?b]
      by (simp add: unify_step_def Let_def) (auto simp: is_float_def is_str_def)
    thus ?thesis using pop fail by auto
  qed
qed

lemma ground_run_ends:
  assumes "ground_run L cx G h u" "unify_room bb gl cx u"
  shows "\<exists>k. u_run ((unify_step bb gl cx ^^ k) u) \<noteq> URun"
  using assms
proof (induction "(G, h)" arbitrary: G h u rule: wf_induct_rule [OF wf_lex_prod [OF wf_less_than wf_less_than]])
  case (1 G h u)
  let ?u' = "unify_step bb gl cx u"
  have run: "u_run u = URun" using 1(2) by (auto simp: ground_run_def)
  have "unat (u_st u) + 4096 \<le> unat (u_tt u)"
    using 1(3) run unfolding unify_room_def by (metis funpow_0 le_zero_eq)
  from ground_step [OF 1(2) this, of bb gl] consider "u_run ?u' \<noteq> URun"
    | G' h' where "ground_run L cx G' h' ?u'" "((G', h'), (G, h)) \<in> less_than <*lex*> less_than"
    unfolding ground_next_def by auto
  thus ?case
  proof cases
    case 1
    thus ?thesis by (intro exI [of _ 1]) simp
  next
    case 2
    have "unify_room bb gl cx ?u'"
      unfolding unify_room_def
    proof (intro allI impI)
      fix k assume k: "\<forall>j\<le>k. u_run ((unify_step bb gl cx ^^ j) ?u') = URun"
      have s: "(unify_step bb gl cx ^^ j) ?u' = (unify_step bb gl cx ^^ Suc j) u" for j
        by (simp only: funpow_swap1 funpow.simps o_apply)
      have "\<forall>j\<le>Suc k. u_run ((unify_step bb gl cx ^^ j) u) = URun"
        using k run unfolding s by (metis Suc_le_mono funpow_0 nat.exhaust)
      thus "unat (u_st ((unify_step bb gl cx ^^ k) ?u')) + 4096
          \<le> unat (u_tt ((unify_step bb gl cx ^^ k) ?u'))"
        using 1(3) unfolding s unify_room_def by blast
    qed
    then obtain k where "u_run ((unify_step bb gl cx ^^ k) ?u') \<noteq> URun"
      using 1(1) [OF 2(2) 2(1)] by blast
    hence "u_run ((unify_step bb gl cx ^^ Suc k) u) \<noteq> URun"
      by (simp add: funpow_Suc_right del: funpow.simps)
    thus ?thesis by blast
  qed
qed

section \<open>Unwinding the trail undoes a unification\<close>

text \<open>Entry j of the trail written since the mark tt0; the trail grows downward.\<close>

definition entry :: "addr \<Rightarrow> nat \<Rightarrow> addr" where
  "entry tt0 j = tt0 - 4 * of_nat j"

definition trail_inv :: "addr set \<Rightarrow> addr \<Rightarrow> addr \<Rightarrow> addr \<Rightarrow> store \<Rightarrow> nat \<Rightarrow> store \<Rightarrow> addr \<Rightarrow> bool" where
  "trail_inv L cx bb tt0 m0 N m tt =
     (tt = entry tt0 N \<and> unat cx + 4 * N < unat tt0
      \<and> (\<forall>j<N. m (entry tt0 j) \<in> L \<and> m0 (m (entry tt0 j)) = m (entry tt0 j))
      \<and> (\<forall>a. a \<le> cx \<longrightarrow> m a \<noteq> m0 a \<longrightarrow>
            m0 a = a \<and> a \<in> L \<and> (a < bb \<longrightarrow> (\<exists>j<N. m (entry tt0 j) = a))))"

lemma entry_simps [simp]:
  "entry tt0 0 = tt0" "entry tt0 j - 4 = entry tt0 (Suc j)" "entry tt0 (Suc j) + 4 = entry tt0 j"
  by (simp_all add: entry_def algebra_simps)

lemma unat_entry:
  assumes "4 * j \<le> unat tt0" shows "unat (entry tt0 j) = unat tt0 - 4 * j"
proof -
  have "4 * j < 2 ^ 32" using assms unsigned_less [of tt0, where ?'a = nat] by simp
  hence u: "unat (of_nat (4 * j) :: word32) = 4 * j" by (simp only: unat_of_nat) simp
  have "entry tt0 j = tt0 - of_nat (4 * j)" by (simp add: entry_def)
  thus ?thesis using assms u by (simp only: unat_sub_if' if_True)
qed

lemma trail_inv_same:
  assumes "trail_inv L cx bb tt0 m0 N m tt"
    and "\<And>p. p \<le> cx \<or> unat tt < unat p \<Longrightarrow> m' p = m p"
  shows "trail_inv L cx bb tt0 m0 N m' tt"
proof -
  have "m' (entry tt0 j) = m (entry tt0 j)" if "j < N" for j
    using assms(1) that by (intro assms(2) disjI2) (auto simp: trail_inv_def unat_entry)
  moreover have "m' a = m a" if "a \<le> cx" for a using assms(2) that by blast
  ultimately show ?thesis using assms(1) unfolding trail_inv_def by metis
qed

lemma trail_inv_bind:
  assumes ti: "trail_inv L cx bb tt0 m0 N (u_mem u) (u_tt u)"
    and wf: "wf_heap L cx (u_mem u)" and x: "x \<in> L" "u_mem u x = x"
    and room: "unat cx + 4 < unat (u_tt u)" and bbgl: "bb \<le> gl"
  shows "\<exists>N'. trail_inv L cx bb tt0 m0 N' (u_mem (u_bind bb gl x v u)) (u_tt (u_bind bb gl x v u))"
proof -
  define m1 where "m1 = (u_mem u)(x := v)"
  define m2 where "m2 = m1(u_tt u := x)"
  have xcx: "x \<le> cx" using x wf by (simp add: wf_heap_def)
  have tt: "u_tt u = entry tt0 N" and bnd: "unat cx + 4 * N < unat tt0"
    using ti by (simp_all add: trail_inv_def)
  have utt: "unat (u_tt u) = unat tt0 - 4 * N" using tt bnd by (simp add: unat_entry)
  have m0x: "m0 x = x" using ti x xcx unfolding trail_inv_def by metis
  have ents: "m1 (entry tt0 j) = u_mem u (entry tt0 j)" "m2 (entry tt0 j) = u_mem u (entry tt0 j)"
    "entry tt0 j \<noteq> u_tt u" if "j < N" for j
  proof -
    have "unat (entry tt0 j) = unat tt0 - 4 * j" using that bnd by (intro unat_entry) simp
    moreover have "unat x \<le> unat cx" using xcx by (simp add: word_le_nat_alt)
    ultimately have "entry tt0 j \<noteq> x" "entry tt0 j \<noteq> u_tt u" using that bnd utt by auto
    thus "m1 (entry tt0 j) = u_mem u (entry tt0 j)" "m2 (entry tt0 j) = u_mem u (entry tt0 j)"
      "entry tt0 j \<noteq> u_tt u" by (simp_all add: m1_def m2_def)
  qed
  have keep: "m1 a = u_mem u a" if "a \<noteq> x" for a using that by (simp add: m1_def)
  have low: "m2 a = m1 a" if "a \<le> cx" for a
    using that room by (auto simp: m2_def word_le_nat_alt)
  have no_trail: "trail_inv L cx bb tt0 m0 N m1 (u_tt u)" if "\<not> x < bb"
    using ti ents that keep x m0x unfolding trail_inv_def by metis
  have with_trail: "trail_inv L cx bb tt0 m0 (Suc N) m2 (u_tt u - 4)"
  proof -
    have new: "m2 (entry tt0 N) = x" by (simp add: m2_def tt)
    have "m2 (entry tt0 j) \<in> L \<and> m0 (m2 (entry tt0 j)) = m2 (entry tt0 j)" if "j < Suc N" for j
      using ti ents(2) [of j] new x m0x that unfolding trail_inv_def less_Suc_eq by metis
    moreover have "m0 a = a \<and> a \<in> L \<and> (a < bb \<longrightarrow> (\<exists>j<Suc N. m2 (entry tt0 j) = a))"
      if "a \<le> cx" "m2 a \<noteq> m0 a" for a
    proof (cases "a = x")
      case True
      thus ?thesis using m0x x new by blast
    next
      case False
      hence "u_mem u a \<noteq> m0 a" using that low keep by metis
      thus ?thesis using ti that(1) ents(2) unfolding trail_inv_def less_Suc_eq by metis
    qed
    moreover have "unat cx + 4 * Suc N < unat tt0" using room utt by simp
    ultimately show ?thesis unfolding trail_inv_def using tt by simp
  qed
  show ?thesis
    using no_trail with_trail bbgl unfolding m1_def m2_def
    by (auto simp: u_bind_def u_trail_def Let_def)
qed

lemma trail_inv_step:
  assumes inv: "stack_inv L cx n u" and run: "u_run u = URun"
    and wf: "wf_word L cx (u_mem u) (u_ax u)" "wf_word L cx (u_mem u) (u_bx u)"
    and room: "unat (u_st u) + 4096 \<le> unat (u_tt u)" and bbgl: "bb \<le> gl"
    and ti: "trail_inv L cx bb tt0 m0 N (u_mem u) (u_tt u)"
  shows "\<exists>N'. trail_inv L cx bb tt0 m0 N' (u_mem (unify_step bb gl cx u)) (u_tt (unify_step bb gl cx u))"
proof -
  let ?m = "u_mem u" let ?a = "u_ax u" let ?b = "u_bx u" let ?u' = "unify_step bb gl cx u"
  have h: "wf_heap L cx ?m" using inv by (simp add: stack_inv_def)
  have st: "unat (u_st u) = unat cx + 8 * n" and r2: "unat (u_st u) + 4096 < 2 ^ 32"
    using inv unat_slot [of cx "2 * n"] room unsigned_less [of "u_tt u", where ?'a = nat]
    by (simp_all add: stack_inv_def)
  have pop: "u_mem (u_pop cx w) = u_mem w" "u_tt (u_pop cx w) = u_tt w" for w
    by (simp_all add: u_pop_def)
  have bind: "\<exists>N'. trail_inv L cx bb tt0 m0 N' (u_mem (u_pop cx (u_bind bb gl x v u)))
                (u_tt (u_pop cx (u_bind bb gl x v u)))" if "x \<in> L" "?m x = x" for x v
    unfolding pop by (rule trail_inv_bind [OF ti h that _ bbgl]) (use room st in simp)
  have same: "\<exists>N'. trail_inv L cx bb tt0 m0 N' (u_mem u') (u_tt u')"
    if "\<And>p. p \<le> cx \<or> unat (u_tt u) < unat p \<Longrightarrow> u_mem u' p = ?m p" "u_tt u' = u_tt u" for u'
    using trail_inv_same [OF ti] that by metis
  consider (va) "is_var ?a" | (vb) "\<not> is_var ?a" "is_var ?b"
    | (ll) "\<not> is_var ?a" "\<not> is_var ?b" "?a \<noteq> ?b" "is_list ?a" "is_list ?b"
    | (ss) "\<not> is_var ?a" "\<not> is_var ?b" "?a \<noteq> ?b" "is_str ?a" "is_str ?b"
        "?m (addr ?a) = ?m (addr ?b)" "?m (addr ?a) \<noteq> FVL_TAG"
    | (eq) "\<not> is_var ?a" "\<not> is_var ?b" "?a = ?b"
    | (cc) "\<not> is_var ?a" "\<not> is_var ?b" "?a \<noteq> ?b" "\<not> (is_list ?a \<and> is_list ?b)"
        "\<not> (is_str ?a \<and> is_str ?b) \<or> ?m (addr ?a) \<noteq> ?m (addr ?b) \<or> ?m (addr ?a) = FVL_TAG"
    by blast
  thus ?thesis
  proof cases
    case va
    thus ?thesis using bind [of ?a ?b] same [of "u\<lparr>u_ax := ?m ?a\<rparr>"] wf_var [OF wf(1)]
      by (simp add: unify_step_def Let_def)
  next
    case vb
    thus ?thesis using bind [of ?b ?a] same [of "u\<lparr>u_bx := ?m ?b\<rparr>"] wf_var [OF wf(2)]
      by (simp add: unify_step_def Let_def)
  next
    case ll
    note s = list_step_state [OF inv run ll(4,5) wf r2 ll(3) refl, of bb gl]
    show ?thesis by (rule same) (use s st room in \<open>auto simp: word_le_nat_alt\<close>)
  next
    case ss
    note s = str_step_state [OF inv run ss(4,5) wf r2 ss(3,6,7) refl refl, of bb gl]
    show ?thesis by (rule same)
      (use s st room unat_arity_le [of "?m (addr ?a)"] in \<open>auto simp: word_le_nat_alt\<close>)
  next
    case eq
    thus ?thesis using same [of "u_pop cx u"] pop by (simp add: unify_step_def Let_def)
  next
    case cc
    hence "?u' \<in> {u_pop cx u, u\<lparr>u_run := UFail\<rparr>}"
      using float_is_str [of ?m ?a] float_is_str [of ?m ?b]
      by (simp add: unify_step_def Let_def) (auto simp: is_float_def is_str_def)
    thus ?thesis using same [of ?u'] pop by auto
  qed
qed

lemma trail_inv_run:
  assumes post: "u_post L cx u S" and room: "unify_room bb gl cx u" and bbgl: "bb \<le> gl"
    and ti: "trail_inv L cx bb tt0 m0 N (u_mem u) (u_tt u)"
    and run: "\<And>i. i < j \<Longrightarrow> u_run ((unify_step bb gl cx ^^ i) u) = URun"
  shows "\<exists>N. trail_inv L cx bb tt0 m0 N (u_mem ((unify_step bb gl cx ^^ j) u)) (u_tt ((unify_step bb gl cx ^^ j) u))"
  using run
proof (induction j)
  case 0
  thus ?case using ti by auto
next
  case (Suc j)
  let ?v = "(unify_step bb gl cx ^^ j) u"
  obtain N where N: "trail_inv L cx bb tt0 m0 N (u_mem ?v) (u_tt ?v)" using Suc by auto
  have vrun: "u_run ?v = URun" using Suc.prems by simp
  have "u_post L cx ?v S" using unify_iterate_post [OF post room] Suc.prems by simp
  then obtain n where v: "stack_inv L cx n ?v" "wf_word L cx (u_mem ?v) (u_ax ?v)"
    "wf_word L cx (u_mem ?v) (u_bx ?v)" using vrun by (auto simp: u_post_def)
  have "unat (u_st ?v) + 4096 \<le> unat (u_tt ?v)"
    using room Suc.prems unfolding unify_room_def by (simp add: less_Suc_eq_le)
  from trail_inv_step [OF v(1) vrun v(2,3) this bbgl N] show ?case by simp
qed

text \<open>detrail pops one entry per pass and resets it if it is older than the choice frame.\<close>

lemma trail_inv_detrail_body:
  assumes ti: "trail_inv L cx (BB t) tt0 m0 (Suc M) (mem t) (TT t)"
    and L: "\<And>a. a \<in> L \<Longrightarrow> is_var a \<and> a \<le> cx"
  shows "trail_inv L cx (BB t) tt0 m0 M (mem (detrail_body t)) (TT (detrail_body t))"
proof -
  let ?g = "mem t (entry tt0 M)"
  have tt: "TT t + 4 = entry tt0 M" and bnd: "unat cx + 4 * Suc M < unat tt0"
    using ti by (simp_all add: trail_inv_def)
  have g: "?g \<in> L" "m0 ?g = ?g" using ti by (simp_all add: trail_inv_def)
  have mem': "mem (detrail_body t) = (if ?g < BB t then (mem t)(?g := ?g) else mem t)"
    and tt': "TT (detrail_body t) = entry tt0 M"
    using L [OF g(1)] by (simp_all add: detrail_body_def Let_def tt wr_def)
  have ents: "mem (detrail_body t) (entry tt0 j) = mem t (entry tt0 j)" if "j < M" for j
  proof -
    have "unat (entry tt0 j) = unat tt0 - 4 * j" using that bnd by (intro unat_entry) simp
    moreover have "unat ?g \<le> unat cx" using L [OF g(1)] by (simp add: word_le_nat_alt)
    ultimately have "entry tt0 j \<noteq> ?g" using that bnd by auto
    thus ?thesis by (simp add: mem')
  qed
  have "m0 a = a \<and> a \<in> L \<and> (a < BB t \<longrightarrow> (\<exists>j<M. mem (detrail_body t) (entry tt0 j) = a))"
    if "a \<le> cx" "mem (detrail_body t) a \<noteq> m0 a" for a
  proof -
    have ne: "a \<noteq> ?g \<or> \<not> a < BB t" and "mem t a \<noteq> m0 a"
      using that(2) g(2) by (auto simp: mem' split: if_splits)
    hence "m0 a = a \<and> a \<in> L \<and> (a < BB t \<longrightarrow> (\<exists>j<Suc M. mem t (entry tt0 j) = a))"
      using ti that(1) unfolding trail_inv_def by blast
    thus ?thesis using ne ents less_Suc_eq by metis
  qed
  moreover have "mem (detrail_body t) (entry tt0 j) \<in> L
      \<and> m0 (mem (detrail_body t) (entry tt0 j)) = mem (detrail_body t) (entry tt0 j)" if "j < M" for j
    using ti ents [OF that] that by (simp add: trail_inv_def)
  ultimately show ?thesis using tt' bnd unfolding trail_inv_def by auto
qed

lemma detrail_body_frame:
  "BB (detrail_body t) = BB t" "ST (detrail_body t) = ST t" "plt (detrail_body t) = plt t"
  "CF (detrail_body t) = CF t" "B0 (detrail_body t) = B0 t" "GL (detrail_body t) = GL t"
  "PP (detrail_body t) = PP t" "AF (detrail_body t) = AF t"
  by (simp_all add: detrail_body_def Let_def wr_def)

lemma detrail_restores:
  assumes "trail_inv L cx (BB t) tt0 m0 M (mem t) (TT t)"
    and L: "\<And>a. a \<in> L \<Longrightarrow> is_var a \<and> a \<le> cx"
    and mark: "psub (BB t) 2 \<notin> L" "psub (BB t) 2 \<le> cx" "m0 (psub (BB t) 2) = tt0"
  shows "\<exists>t'. detrail t = Some t' \<and> TT t' = tt0 \<and> BB t' = BB t \<and> ST t' = ST t
           \<and> (\<forall>a. a \<le> cx \<longrightarrow> a < BB t \<longrightarrow> mem t' a = m0 a)"
  using assms(1) mark
proof (induction M arbitrary: t)
  case 0
  have "mem t (psub (BB t) 2) = tt0" using 0 unfolding trail_inv_def by metis
  moreover have "TT t = tt0" using 0 by (simp add: trail_inv_def)
  ultimately have "detrail t = Some t" unfolding detrail_def by (intro while_option_done) simp
  thus ?case using 0 \<open>TT t = tt0\<close> unfolding trail_inv_def by auto
next
  case (Suc M)
  let ?t = "detrail_body t"
  have ti: "trail_inv L cx (BB ?t) tt0 m0 M (mem ?t) (TT ?t)"
    unfolding detrail_body_frame by (rule trail_inv_detrail_body [OF Suc.prems(1) L])
  have "mem t (psub (BB t) 2) = tt0" using Suc.prems unfolding trail_inv_def by metis
  moreover have "TT t < tt0"
    using Suc.prems(1) unat_entry [of "Suc M" tt0] by (simp add: trail_inv_def word_less_nat_alt)
  ultimately have "detrail t = detrail ?t" unfolding detrail_def by (intro while_option_step) simp
  thus ?case using Suc.IH [of ?t] ti Suc.prems(2-4) by (simp add: detrail_body_frame)
qed

section \<open>Properties\<close>

text \<open>
  Claim C1. Unification computes a most general unifier.  When the loop that
  getval, cgetval and the unifiable instructions share ends, it has either
  succeeded, the scratch stack is empty again and the valuations satisfying the
  store it leaves are exactly the valuations of the initial store that make the
  two terms equal, or it backtracks and no valuation makes them equal.
\<close>

theorem unify_most_general:
  assumes "wf_heap L (ST s) (mem s)" "wf_word L (ST s) (mem s) ax" "wf_word L (ST s) (mem s) bx"
    and "unify_room (BB s) (GL s) (ST s) (unify_start ax bx s)"
    and "unify (BB s) (GL s) (ST s) (unify_start ax bx s) = Some v"
  shows "(u_run v = USucc \<and> do_unify ax bx s = Control (s\<lparr>mem := u_mem v, TT := u_tt v\<rparr>)
            \<and> models L (u_mem v) = {r \<in> models L (mem s). tval (mem s) r ax = tval (mem s) r bx})
       \<or> (u_run v = UFail \<and> do_unify ax bx s = backtrack (s\<lparr>mem := u_mem v, ST := u_st v, TT := u_tt v\<rparr>)
            \<and> {r \<in> models L (mem s). tval (mem s) r ax = tval (mem s) r bx} = {})"
  using unify_result_post [OF assms] assms(5)
  by (cases "u_run v") (auto simp: u_post_def do_unify_def Let_def)

text \<open>The steps of a short run, for the concrete instances below.\<close>

lemma unify_room_by_steps:
  assumes "u_run ((unify_step bb gl cx ^^ n) u) \<noteq> URun"
    and "\<And>k. k < n \<Longrightarrow> unat (u_st ((unify_step bb gl cx ^^ k) u)) + 4096
                       \<le> unat (u_tt ((unify_step bb gl cx ^^ k) u))"
  shows "unify_room bb gl cx u"
  unfolding unify_room_def
proof (intro allI impI)
  fix k assume "\<forall>j\<le>k. u_run ((unify_step bb gl cx ^^ j) u) = URun"
  hence "k < n" using assms(1) by (meson not_le)
  thus "unat (u_st ((unify_step bb gl cx ^^ k) u)) + 4096 \<le> unat (u_tt ((unify_step bb gl cx ^^ k) u))"
    by (rule assms(2))
qed

text \<open>
  [X|b] against [a|b]: X is the unbound cell 8, a and b are the atoms 201 and
  200; the word at 92 is the trail mark of a choice frame at 100.
\<close>

definition demo_mem :: store where
  "demo_mem = (\<lambda>_. 0)(8 := 8, 12 := 1607, 16 := 1615, 20 := 1607, 92 := 100000)"

definition demo_icb :: icb where
  "demo_icb = \<lparr>itype = STATIONARY, status = IMAGO_READY, expansions = 0, collections = 0,
     block_base = 0, block_ceiling = 0, name_base = 0, name_top = 0, proc_base = 0, code_base = 0,
     stack_base = 0, i_pp = 0, i_af = 0, i_cp = 0, i_cf = 0, i_st = 0, i_bb = 0, i_b0 = 0,
     i_gl = 0, i_tt = 0, i_nl = 0\<rparr>"

definition demo_vm :: vm where
  "demo_vm = \<lparr>mem = demo_mem, plt = demo_icb, PP = 0, AF = 0, CP = 0, CF = 0, ST = 1000, GP = 0,
     BB = 100, B0 = 0, GL = 100, TT = 100000, NL = 0, BT = 50000\<rparr>"

definition demo_u1 :: ustate where
  "demo_u1 = \<lparr>u_run = URun, u_mem = demo_mem(1004 := 1607, 1008 := 1607), u_ax = 8, u_bx = 1615,
     u_st = 1008, u_tt = 100000\<rparr>"

definition demo_u2 :: ustate where
  "demo_u2 = \<lparr>u_run = URun, u_mem = demo_mem(1004 := 1607, 1008 := 1607, 8 := 1615, 100000 := 8),
     u_ax = 1607, u_bx = 1607, u_st = 1000, u_tt = 99996\<rparr>"

definition demo_u3 :: ustate where "demo_u3 = demo_u2\<lparr>u_run := USucc\<rparr>"

lemmas demo_simps = demo_vm_def demo_mem_def kind_defs tag_def addr_def tag_consts

lemma demo_run:
  "unify_step 100 100 1000 (unify_start 9 17 demo_vm) = demo_u1"
  "unify_step 100 100 1000 demo_u1 = demo_u2"
  "unify_step 100 100 1000 demo_u2 = demo_u3"
  by (simp_all add: unify_step_def unify_start_def demo_simps u_push_def u_pop_def
      u_bind_def u_trail_def Let_def demo_u1_def demo_u2_def demo_u3_def)

lemma demo_fields:
  "u_run (unify_start 9 17 demo_vm) = URun" "u_run demo_u1 = URun" "u_run demo_u2 = URun"
  "u_run demo_u3 = USucc" "u_st (unify_start 9 17 demo_vm) = 1000" "u_st demo_u1 = 1008"
  "u_st demo_u2 = 1000" "u_tt (unify_start 9 17 demo_vm) = 100000" "u_tt demo_u1 = 100000"
  "u_tt demo_u2 = 99996"
  by (simp_all add: unify_start_def demo_vm_def demo_u1_def demo_u2_def demo_u3_def)

lemma demo_iter:
  "(unify_step 100 100 1000 ^^ Suc 0) (unify_start 9 17 demo_vm) = demo_u1"
  "(unify_step 100 100 1000 ^^ 2) (unify_start 9 17 demo_vm) = demo_u2"
  "(unify_step 100 100 1000 ^^ 3) (unify_start 9 17 demo_vm) = demo_u3"
  by (simp_all add: eval_nat_numeral demo_run)

lemma demo_unify: "unify 100 100 1000 (unify_start 9 17 demo_vm) = Some demo_u3"
  unfolding unify_def by (simp add: while_option_step while_option_done demo_run demo_fields)

lemma demo_room: "unify_room 100 100 1000 (unify_start 9 17 demo_vm)"
proof (rule unify_room_by_steps [where n = 3])
  show "u_run ((unify_step 100 100 1000 ^^ 3) (unify_start 9 17 demo_vm)) \<noteq> URun"
    unfolding demo_iter demo_fields by simp
  fix k :: nat assume "k < 3"
  then consider "k = 0" | "k = Suc 0" | "k = 2" by linarith
  thus "unat (u_st ((unify_step 100 100 1000 ^^ k) (unify_start 9 17 demo_vm))) + 4096
      \<le> unat (u_tt ((unify_step 100 100 1000 ^^ k) (unify_start 9 17 demo_vm)))"
    by cases (simp_all only: demo_iter demo_fields funpow_0, simp_all)
qed

lemma demo_wf:
  "wf_heap {8, 12, 16, 20} 1000 demo_mem" "wf_word {8, 12, 16, 20} 1000 demo_mem 9"
  "wf_word {8, 12, 16, 20} 1000 demo_mem 17"
  by (simp_all add: wf_heap_def wf_word_def demo_simps)

theorem unify_most_general_witness:
  "u_run demo_u3 = USucc \<and> models {8, 12, 16, 20} (u_mem demo_u3) =
     {r \<in> models {8, 12, 16, 20} demo_mem. tval demo_mem r 9 = tval demo_mem r 17}"
proof -
  have v: "mem demo_vm = demo_mem" "ST demo_vm = 1000" "BB demo_vm = 100" "GL demo_vm = 100"
    by (simp_all add: demo_vm_def)
  show ?thesis
    using unify_most_general [of "{8, 12, 16, 20}" demo_vm 9 17, unfolded v, OF demo_wf demo_room demo_unify]
      demo_fields by simp
qed

text \<open>
  Claim C33. Unification against a ground term returns.  When every reference
  chain of the store ends and the second term contains no unbound variable, the
  loop ends after finitely many passes; its result is then the answer of the
  equations: success leaves exactly the common solutions, failure means there
  are none.
\<close>

theorem unify_ground_decides:
  assumes "wf_heap L (ST s) (mem s)" "wf_word L (ST s) (mem s) ax" "wf_word L (ST s) (mem s) bx"
    and "unify_room (BB s) (GL s) (ST s) (unify_start ax bx s)"
    and "ground (mem s) bx n" and "\<forall>a\<in>L. \<exists>h. hops (mem s) a h"
  shows "\<exists>v. unify (BB s) (GL s) (ST s) (unify_start ax bx s) = Some v
    \<and> ((u_run v = USucc \<and> models L (u_mem v) = {r \<in> models L (mem s). tval (mem s) r ax = tval (mem s) r bx})
      \<or> (u_run v = UFail \<and> {r \<in> models L (mem s). tval (mem s) r ax = tval (mem s) r bx} = {}))"
proof -
  let ?u = "unify_start ax bx s"
  have u: "u_mem ?u = mem s" "u_ax ?u = ax" "u_bx ?u = bx" "u_run ?u = URun" "u_st ?u = ST s"
    by (simp_all add: unify_start_def)
  have hops: "\<exists>h. hops (mem s) x h" if "wf_word L (ST s) (mem s) x" for x
    using assms(6) wf_var [OF that] by (cases "is_var x") (auto intro: hops.h_end)
  have "ground_stack L (ST s) 0 (\<lambda>_. 0) ?u"
    using assms(1) hops unsigned_less [of "ST s", where ?'a = nat]
    by (simp add: ground_stack_def stack_inv_def u)
  moreover obtain h where "hops (mem s) ax h" using hops [OF assms(2)] by blast
  ultimately have "ground_run L (ST s) n h ?u"
    using assms(2,3,5) u unfolding ground_run_def
    by (intro exI [of _ 0] exI [of _ "\<lambda>_. 0"] exI [of _ n]) simp
  from ground_run_ends [OF this assms(4)]
  obtain k where "\<not> u_run ((unify_step (BB s) (GL s) (ST s) ^^ k) ?u) = URun" by (elim exE)
  from while_option_ends [where b = "\<lambda>u. u_run u = URun", OF this]
  obtain v where v: "unify (BB s) (GL s) (ST s) ?u = Some v"
    unfolding unify_def by (elim exE)
  show ?thesis
  proof (intro exI conjI)
    show "unify (BB s) (GL s) (ST s) ?u = Some v" by (rule v)
    show "(u_run v = USucc \<and> models L (u_mem v) = {r \<in> models L (mem s). tval (mem s) r ax = tval (mem s) r bx})
      \<or> (u_run v = UFail \<and> {r \<in> models L (mem s). tval (mem s) r ax = tval (mem s) r bx} = {})"
      using unify_result_post [OF assms(1-4) v] by (cases "u_run v") (simp_all add: u_post_def)
  qed
qed

theorem unify_ground_decides_witness:
  "\<exists>v. unify 100 100 1000 (unify_start 9 17 demo_vm) = Some v \<and> u_run v = USucc"
proof -
  have v: "mem demo_vm = demo_mem" "ST demo_vm = 1000" "BB demo_vm = 100" "GL demo_vm = 100"
    by (simp_all add: demo_vm_def)
  have cells: "ground demo_mem 1615 1" "ground demo_mem 1607 1"
    using ground.g_cst [of 1615 demo_mem] ground.g_cst [of 1607 demo_mem] by (simp_all add: demo_simps)
  have g: "ground demo_mem 17 (Suc (1 + 1))"
    using ground.g_list [of 17 demo_mem 1 1] cells by (simp add: demo_simps)
  have self: "hops demo_mem 8 0" by (rule hops.h_end) (simp add: demo_simps)
  have link: "hops demo_mem a 1" if "a \<in> {12, 16, 20}" for a
    using that hops.h_link [of a demo_mem 0] hops.h_end [of "demo_mem a" demo_mem]
    by (auto simp: demo_simps)
  have ex: "\<forall>a\<in>{8, 12, 16, 20}. \<exists>h. hops demo_mem a h" using self link by blast
  show ?thesis
    using unify_ground_decides [of "{8, 12, 16, 20}" demo_vm 9 17 "Suc (1 + 1)", unfolded v, OF demo_wf demo_room g ex]
      demo_unify demo_fields by auto
qed

text \<open>
  Claim C26. Backtracking undoes a unification, whether it succeeded or failed
  half way: with the choice frame's mark at the trail top the unification
  started from, detrail ends, resets the trail to that mark and gives every
  word below the choice frame the value it had before.
\<close>

theorem unify_undone_by_detrail:
  assumes "wf_heap L (ST s) (mem s)" "wf_word L (ST s) (mem s) ax" "wf_word L (ST s) (mem s) bx"
    and room: "unify_room (BB s) (GL s) (ST s) (unify_start ax bx s)"
    and v: "unify (BB s) (GL s) (ST s) (unify_start ax bx s) = Some v"
    and lay: "BB s \<le> GL s" "BB s \<le> ST s" "psub (BB s) 2 < BB s"
    and mark: "psub (BB s) 2 \<notin> L" "mem s (psub (BB s) 2) = TT s"
  shows "\<exists>t. detrail (s\<lparr>mem := u_mem v, ST := u_st v, TT := u_tt v\<rparr>) = Some t \<and> TT t = TT s
           \<and> (\<forall>a. a < BB s \<longrightarrow> mem t a = mem s a)"
proof -
  let ?u = "unify_start ax bx s" let ?t = "s\<lparr>mem := u_mem v, ST := u_st v, TT := u_tt v\<rparr>"
  have u: "u_mem ?u = mem s" "u_run ?u = URun" "u_st ?u = ST s" "u_tt ?u = TT s"
    by (simp_all add: unify_start_def)
  obtain k where k: "v = (unify_step (BB s) (GL s) (ST s) ^^ k) ?u"
    "\<forall>j<k. u_run ((unify_step (BB s) (GL s) (ST s) ^^ j) ?u) = URun"
    using while_option_iterate [OF v [unfolded unify_def]] by auto
  have "unat (ST s) + 4096 \<le> unat (TT s)"
    using room u unfolding unify_room_def by (metis funpow_0 le_zero_eq)
  hence "trail_inv L (ST s) (BB s) (TT s) (mem s) 0 (u_mem ?u) (u_tt ?u)"
    by (simp add: trail_inv_def u)
  from trail_inv_run [OF unify_start_post [OF assms(1-3)] room lay(1) this] k
  obtain N where "trail_inv L (ST s) (BB s) (TT s) (mem s) N (u_mem v) (u_tt v)" by metis
  hence N: "trail_inv L (ST s) (BB ?t) (TT s) (mem s) N (mem ?t) (TT ?t)" by simp
  have L: "is_var a \<and> a \<le> ST s" if "a \<in> L" for a using assms(1) that by (simp add: wf_heap_def)
  have le: "psub (BB ?t) 2 \<le> ST s" using lay by simp
  have mk: "psub (BB ?t) 2 \<notin> L" "mem s (psub (BB ?t) 2) = TT s" using mark by simp_all
  obtain t where "detrail ?t = Some t" "TT t = TT s"
    and same: "\<forall>a. a \<le> ST s \<longrightarrow> a < BB s \<longrightarrow> mem t a = mem s a"
    using detrail_restores [OF N L mk(1) le mk(2)] by auto
  moreover have "a \<le> ST s" if "a < BB s" for a using that lay(2) by simp
  ultimately show ?thesis by blast
qed

theorem unify_undone_by_detrail_witness:
  "\<exists>t. detrail (demo_vm\<lparr>mem := u_mem demo_u3, ST := u_st demo_u3, TT := u_tt demo_u3\<rparr>) = Some t
     \<and> TT t = 100000 \<and> mem t 8 = 8 \<and> u_mem demo_u3 8 = 1615"
proof -
  have v: "mem demo_vm = demo_mem" "ST demo_vm = 1000" "BB demo_vm = 100" "GL demo_vm = 100"
    "TT demo_vm = 100000"
    by (simp_all add: demo_vm_def)
  have lay: "(100::word32) \<le> 100" "(100::word32) \<le> 1000" "psub 100 2 < (100::word32)"
    "psub 100 2 \<notin> ({8, 12, 16, 20} :: word32 set)" "demo_mem (psub 100 2) = 100000"
    by (simp_all add: demo_mem_def)
  have m8: "demo_mem 8 = 8" "u_mem demo_u3 8 = 1615" "(8::word32) < 100"
    by (simp_all add: demo_mem_def demo_u3_def demo_u2_def)
  show ?thesis
    using unify_undone_by_detrail [of "{8, 12, 16, 20}" demo_vm 9 17, unfolded v,
        OF demo_wf demo_room demo_unify lay] m8 by metis
qed

text \<open>
  Unification can tie a knot of references.  When the first term is
  the unbound variable z and the second is a reference y already bound to z, as
  in the last goal of X = Y, Y = Z, Z = X, the loop binds z to y without
  dereferencing y: z and y then point at each other and dereferencing either
  never ends.
\<close>

lemma unify_aliased_cycle:
  assumes "is_var z" "is_var y" "mem s z = z" "mem s y = z" "y \<noteq> z" "TT s \<noteq> z" "TT s \<noteq> y"
  shows "\<exists>t. do_unify z y s = Control t \<and> mem t z = y \<and> mem t y = z
           \<and> deref_word (mem t) z = None \<and> deref_word (mem t) y = None"
proof -
  let ?b = "u_bind (BB s) (GL s) z y (unify_start z y s)"
  have b: "u_mem ?b z = y" "u_mem ?b y = z" "u_st ?b = ST s" "u_run ?b = URun"
    using assms by (simp_all add: u_bind_def unify_start_def u_trail_def Let_def)
  have "unify_step (BB s) (GL s) (ST s) (unify_start z y s) = ?b\<lparr>u_run := USucc\<rparr>"
    using assms b(3) by (simp add: unify_step_def Let_def unify_start_def u_pop_def)
  hence un: "unify (BB s) (GL s) (ST s) (unify_start z y s) = Some (?b\<lparr>u_run := USucc\<rparr>)"
    unfolding unify_def by (subst while_option_unfold) (simp add: unify_start_def while_option_done)
  define t where "t = s\<lparr>mem := u_mem ?b, ST := ST s, TT := u_tt ?b\<rparr>"
  have t: "do_unify z y s = Control t" using b by (simp add: do_unify_def un t_def Let_def)
  have m: "mem t z = y" "mem t y = z" using b by (simp_all add: t_def)
  have "deref_word (mem t) x = None" if "x \<in> {z, y}" for x
    unfolding deref_word_def
    by (rule while_option_diverges [where P = "\<lambda>x. x \<in> {z, y}"]) (use that m assms in auto)
  thus ?thesis using t m by blast
qed

lemma unify_aliased_cycle_witness:
  "\<exists>t. do_unify 16 12 (demo_vm\<lparr>mem := (\<lambda>_. 0)(8 := 12, 12 := 16, 16 := 16)\<rparr>) = Control t
     \<and> deref_word (mem t) 16 = None"
  using unify_aliased_cycle [of 16 12 "demo_vm\<lparr>mem := (\<lambda>_. 0)(8 := 12, 12 := 16, 16 := 16)\<rparr>"]
  by (auto simp: demo_simps)

end
