(* ===== verification/MLVM_Control.thy ===== *)
theory MLVM_Control
  imports MLVM_Machine
begin

text \<open>
  The control instructions of engine/engine.c: frame allocation with its
  expansion and collection tests, calls and returns, choice points, cuts, the
  builtin call and the three entry instructions.  Each definition is the body of
  one case of the switch of engine.
\<close>

section \<open>Frame allocation\<close>

text \<open>The C comparison of the free words between stack and trail with a bound.\<close>

definition no_room :: "word32 \<Rightarrow> vm \<Rightarrow> bool" where
  "no_room n s = (pdiff (TT s) (ST s) <s n)"

definition i_noop :: "vm \<Rightarrow> outcome" where "i_noop s = next_op 1 s"

text \<open>Where the search for the generation line of cf starts, and the search itself.\<close>

definition gen_root :: "vm \<Rightarrow> vm" where
  "gen_root s = s\<lparr>AF := if CF s \<le> BB s then BTT s else CTT s\<rparr>"

definition search_gline :: "vm \<Rightarrow> vm option" where
  "search_gline = while_option (\<lambda>s. tag (rd s (AF s)) \<noteq> STR_TAG) (\<lambda>s. s\<lparr>AF := AF s - 4\<rparr>)"

text \<open>if ((st - gl) > GC_LIMIT) starts a generation at the frame just made.\<close>

definition new_gen_if_full :: "vm \<Rightarrow> vm" where
  "new_gen_if_full s =
     (if GC_LIMIT <s pdiff (ST s) (GL s) then new_generation (s\<lparr>GL := ST s\<rparr>) else s)"

definition i_alloa :: "vm \<Rightarrow> outcome" where
  "i_alloa s =
     (if no_room (OD 2 s * GC_FACTOR) s then context_switch IMAGO_EXPANSION (OD 1 s) s
      else if GL s < CF s then next_op 3 (new_gen_if_full (make_aframe s))
      else with_opt (search_gline (gen_root s))
        (\<lambda>s1. if pdiff (ST s1) (addr (rd s1 (AF s1))) <s GC_LIMIT then next_op 3 (make_aframe s1)
              else context_switch IMAGO_COLLECTION (OD 1 s1) s1))"

definition i_allod :: "vm \<Rightarrow> outcome" where
  "i_allod s =
     (if no_room (OD 2 s * GC_FACTOR) s then context_switch IMAGO_EXPANSION (OD 1 s) s
      else if GL s < CF s then next_op 3 (new_gen_if_full (make_dframe s))
      else with_opt (search_gline (gen_root s))
        (\<lambda>s1. if pdiff (ST s1) (addr (rd s1 (AF s1))) <s GC_LIMIT then next_op 3 (make_dframe s1)
              else context_switch IMAGO_COLLECTION (OD 1 s1) s1))"

section \<open>Calls and returns\<close>

definition i_call :: "vm \<Rightarrow> outcome" where
  "i_call s =
     (let s1 = s\<lparr>CF := AF s\<rparr>;
          s2 = wr (psub (CF s1) 1) (padd (PP s1) 2) s1;
          s3 = s2\<lparr>AF := ST s2\<rparr>
      in jump (OD 1 s3) s3)"

definition i_lastcall :: "vm \<Rightarrow> outcome" where
  "i_lastcall s =
     (let s1 = s\<lparr>CF := ACF s\<rparr>; s2 = s1\<lparr>AF := ST s1, B0 := BB s1\<rparr> in jump (OD 1 s2) s2)"

definition i_chaincall :: "vm \<Rightarrow> outcome" where
  "i_chaincall s = (let s1 = s\<lparr>AF := ST s, B0 := BB s\<rparr> in jump (OD 1 s1) s1)"

definition i_proceed :: "vm \<Rightarrow> outcome" where
  "i_proceed s = (let s1 = s\<lparr>AF := CF s\<rparr> in jump (ACP s1) s1)"

definition i_return :: "vm \<Rightarrow> outcome" where
  "i_return s = (let s1 = s\<lparr>AF := ACF s\<rparr> in jump (ACP s1) s1)"

section \<open>Choice points and cuts\<close>

text \<open>shallowtry falls through to try.\<close>

definition i_try :: "vm \<Rightarrow> outcome" where
  "i_try s =
     (if no_room (CHOICE_SIZE * GC_FACTOR) s then context_switch IMAGO_EXPANSION (OD 1 s) s
      else if GL s < CF s then next_op 3 (make_cframe s)
      else with_opt (search_gline (gen_root s))
        (\<lambda>s1. if pdiff (ST s1) (addr (rd s1 (AF s1))) <s GC_LIMIT then next_op 3 (make_cframe s1)
              else context_switch IMAGO_COLLECTION (OD 1 s1) s1))"

text \<open>cf = BCF; CCP = BCP: the continuation the choice frame saved.\<close>

definition restore_continuation :: "vm \<Rightarrow> vm" where
  "restore_continuation s =
     (let s1 = s\<lparr>CF := BCF s\<rparr> in wr (psub (CF s1) 1) (BCP s1) s1)"

definition i_retry :: "vm \<Rightarrow> outcome" where
  "i_retry s = with_opt (detrail s)
     (\<lambda>s0. let s1 = restore_continuation s0;
               s2 = wr (psub (BB s1) 5) (OD 2 s1) s1;
               s3 = s2\<lparr>ST := BB s2, GL := BB s2\<rparr>;
               s4 = new_generation s3;
               n = OD 1 s4;
               s5 = mirror_args (unat n) (s4\<lparr>AF := psub (ST s4) (CHOICE_SIZE + n)\<rparr>)
           in next_op 3 (s5\<lparr>AF := ST s5\<rparr>))"

definition i_trust :: "vm \<Rightarrow> outcome" where
  "i_trust s = with_opt (detrail s)
     (\<lambda>s0. let s1 = restore_continuation s0;
               s2 = s1\<lparr>GL := BGL s1\<rparr>;
               q = psub (BB s2) CHOICE_SIZE;
               s3 = s2\<lparr>AF := q, ST := q\<rparr>;
               s4 = s3\<lparr>BB := BBB s3\<rparr>
           in next_op 1 s4)"

definition i_neckcut :: "vm \<Rightarrow> outcome" where
  "i_neckcut s =
     (if B0 s < BB s
      then with_opt (filter_trail (s\<lparr>GL := BGL s, GP := TT s, TT := BTT s\<rparr>))
             (\<lambda>s1. next_op 1 (s1\<lparr>BB := B0 s1\<rparr>))
      else next_op 1 s)"

definition i_deeplabel :: "vm \<Rightarrow> outcome" where
  "i_deeplabel s = next_op 2 (wr (cell (OD 1 s) s) (B0 s) s)"

definition i_deepcut :: "vm \<Rightarrow> outcome" where
  "i_deepcut s = next_op 2 (s\<lparr>BB := rd s (cell (OD 1 s) s)\<rparr>)"

definition i_fail :: "vm \<Rightarrow> outcome" where "i_fail s = backtrack s"

definition i_finish :: "vm \<Rightarrow> outcome" where
  "i_finish s = context_switch IMAGO_TERMINATE (ecode E_SUCCEED) s"

definition i_jump :: "vm \<Rightarrow> outcome" where "i_jump s = jump (OD 1 s) s"

definition i_branch :: "vm \<Rightarrow> outcome" where
  "i_branch s = (if NL s <s 4 then jump (OD (1 + NL s) s) s else next_op 5 s)"

section \<open>Builtin predicates\<close>

text \<open>
  The functions of the table btin_tab are called through a pointer and see the
  machine only through the control block and the store.  LEGAL_ bits say which
  kinds of imago may call a builtin.
\<close>

record builtin_rec =
  legal :: word32
  bf :: "icb \<times> store \<Rightarrow> icb \<times> store"

definition authorized :: "icb \<Rightarrow> word32 \<Rightarrow> bool" where
  "authorized ip l =
     (if is_stationary ip \<and> l AND 1 \<noteq> 0 then True
      else if is_worker ip \<and> l AND 2 \<noteq> 0 then True
      else if is_messenger ip \<and> l AND 4 \<noteq> 0 then True
      else is_sysmsger ip \<and> l AND 8 \<noteq> 0)"

definition i_builtin :: "(word32 \<Rightarrow> builtin_rec option) \<Rightarrow> vm \<Rightarrow> outcome" where
  "i_builtin btin_tab s =
     (let s1 = s\<lparr>plt := (plt s)\<lparr>i_tt := TT s, i_st := ST s, i_bb := BB s, i_gl := GL s\<rparr>\<rparr> in
      case btin_tab (OD 1 s1) of
        None \<Rightarrow> Undef
      | Some b \<Rightarrow>
          (if \<not> authorized (plt s1) (legal b)
           then context_switch IMAGO_ERROR (ecode E_ILLEGAL_BUILTIN) s1
           else
             (let (p, m) = bf b (plt s1, mem s1); s2 = s1\<lparr>plt := p, mem := m\<rparr> in
              if status p = IMAGO_BACKTRACK
              then backtrack (s2\<lparr>plt := p\<lparr>status := IMAGO_READY\<rparr>, BT := 0\<rparr>)
              else if status p \<noteq> IMAGO_READY
              then Return (s2\<lparr>plt := p\<lparr>
                     i_pp := if status p = IMAGO_WAITING then PP s2
                             else if status p = IMAGO_EXPANSION then PP s2
                             else padd (PP s2) 2,
                     i_af := AF s2, i_cf := CF s2, i_cp := CP s2, i_b0 := B0 s2\<rparr>\<rparr>)
              else next_op 2 (s2\<lparr>TT := i_tt p, ST := i_st p\<rparr>))))"

section \<open>Entry instructions\<close>

text \<open>An activation frame is simulated, two parameters are pushed and the entry is called.\<close>

definition i_stationary :: "vm \<Rightarrow> outcome" where
  "i_stationary s =
     (let q = padd (ST s) 2;
          s1 = wr (psub q 2) (TT s) (wr q (CF s) (s\<lparr>AF := q, ST := q\<rparr>));
          s2 = push (make_ref (ST s1 + 4)) s1;
          s3 = push (make_ref (ST s2 + 4)) s2;
          s4 = s3\<lparr>CF := AF s3\<rparr>;
          s5 = wr (psub (CF s4) 1) (PP s4) s4
      in if OD 1 s5 = PP s5 then context_switch IMAGO_ERROR (ecode E_ILLEGAL_ENTRY) s5
         else jump (OD 1 s5) s5)"

definition i_worker :: "vm \<Rightarrow> outcome" where
  "i_worker s =
     (let q = padd (ST s) 3;
          s1 = wr (psub q 2) (TT s) (wr q (CF s) (s\<lparr>AF := q, ST := q\<rparr>));
          s2 = push (make_ref (ST s1 + 4)) s1;
          s3 = push (rd s2 (psub (AF s2) 3)) s2;
          s4 = s3\<lparr>CF := AF s3, AF := ST s3\<rparr>;
          s5 = wr (psub (CF s4) 1) (PP s4) s4
      in if OD 1 s5 = PP s5 then context_switch IMAGO_ERROR (ecode E_ILLEGAL_ENTRY) s5
         else jump (OD 1 s5) s5)"

end
