(* ===== verification/MLVM_PutSetGet.thy ===== *)
theory MLVM_PutSetGet
  imports MLVM_Unify
begin

text \<open>
  The put, set and get instructions of engine/engine.c: argument passing,
  construction of terms in the frame and head unification.  gp is the
  successive pointer the c-forms (cset, cget) inherit from the instruction
  before.
\<close>

section \<open>put\<close>

definition put_void :: "vm \<Rightarrow> vm" where "put_void s = push (make_ref (ST s + 4)) s"

text \<open>gp = cell(OD k); *(++st) = *gp = make_ref(gp)\<close>

definition put_var :: "word32 \<Rightarrow> vm \<Rightarrow> vm" where
  "put_var k s =
     (let g = cell (OD k s) s in push (make_ref g) (wr g (make_ref g) (s\<lparr>GP := g\<rparr>)))"

definition put_val :: "word32 \<Rightarrow> vm \<Rightarrow> vm" where
  "put_val k s = push (rd s (cell (OD k s) s)) s"

definition i_putvoid :: "vm \<Rightarrow> outcome" where "i_putvoid s = next_op 1 (put_void s)"
definition i_put2void :: "vm \<Rightarrow> outcome" where "i_put2void s = next_op 1 (put_void (put_void s))"

definition i_putvar :: "vm \<Rightarrow> outcome" where "i_putvar s = next_op 2 (put_var 1 s)"
definition i_put2var :: "vm \<Rightarrow> outcome" where "i_put2var s = next_op 3 (put_var 2 (put_var 1 s))"
definition i_put3var :: "vm \<Rightarrow> outcome" where
  "i_put3var s = next_op 4 (put_var 3 (put_var 2 (put_var 1 s)))"
definition i_put4var :: "vm \<Rightarrow> outcome" where
  "i_put4var s = next_op 5 (put_var 4 (put_var 3 (put_var 2 (put_var 1 s))))"

definition i_putrval :: "vm \<Rightarrow> outcome" where
  "i_putrval s =
     (let g = cell (OD 1 s) s; s1 = push (rd s g) (s\<lparr>GP := g\<rparr>) in next_op 2 (wr g (make_ref g) s1))"

text \<open>The putNval family pushes the values of its N cells in order.\<close>

primrec put_vals :: "nat \<Rightarrow> vm \<Rightarrow> vm" where
  "put_vals 0 s = s"
| "put_vals (Suc n) s = put_val (of_nat (Suc n)) (put_vals n s)"

definition i_putval :: "vm \<Rightarrow> outcome" where "i_putval s = next_op 2 (put_vals 1 s)"
definition i_put2val :: "vm \<Rightarrow> outcome" where "i_put2val s = next_op 3 (put_vals 2 s)"
definition i_put3val :: "vm \<Rightarrow> outcome" where "i_put3val s = next_op 4 (put_vals 3 s)"
definition i_put4val :: "vm \<Rightarrow> outcome" where "i_put4val s = next_op 5 (put_vals 4 s)"
definition i_put5val :: "vm \<Rightarrow> outcome" where "i_put5val s = next_op 6 (put_vals 5 s)"
definition i_put6val :: "vm \<Rightarrow> outcome" where "i_put6val s = next_op 7 (put_vals 6 s)"
definition i_put7val :: "vm \<Rightarrow> outcome" where "i_put7val s = next_op 8 (put_vals 7 s)"
definition i_put8val :: "vm \<Rightarrow> outcome" where "i_put8val s = next_op 9 (put_vals 8 s)"

definition i_putcon :: "vm \<Rightarrow> outcome" where "i_putcon s = next_op 2 (push (OD 1 s) s)"

definition i_putlist :: "vm \<Rightarrow> outcome" where
  "i_putlist s = next_op 2 (push (make_list (cell (OD 1 s) s)) s)"
definition i_putstr :: "vm \<Rightarrow> outcome" where
  "i_putstr s = next_op 2 (push (make_str (cell (OD 1 s) s)) s)"

section \<open>set\<close>

text \<open>Storing through gp: gp = cell(OD1) in the indexed forms, ++gp in the c-forms.\<close>

definition set_at :: "addr \<Rightarrow> word32 \<Rightarrow> vm \<Rightarrow> vm" where
  "set_at g v s = wr g v (s\<lparr>GP := g\<rparr>)"

definition i_setvar :: "vm \<Rightarrow> outcome" where
  "i_setvar s = (let g = cell (OD 1 s) s in next_op 2 (set_at g (make_ref g) s))"
definition i_csetvar :: "vm \<Rightarrow> outcome" where
  "i_csetvar s = (let g = GP s + 4 in next_op 1 (set_at g (make_ref g) s))"

definition i_setcon :: "vm \<Rightarrow> outcome" where
  "i_setcon s = next_op 3 (set_at (cell (OD 1 s) s) (OD 2 s) s)"
definition i_csetcon :: "vm \<Rightarrow> outcome" where
  "i_csetcon s = next_op 2 (set_at (GP s + 4) (OD 1 s) s)"

definition i_setval :: "vm \<Rightarrow> outcome" where
  "i_setval s = next_op 3 (set_at (cell (OD 1 s) s) (cell (OD 2 s) s) s)"
definition i_csetval :: "vm \<Rightarrow> outcome" where
  "i_csetval s = next_op 2 (set_at (GP s + 4) (cell (OD 1 s) s) s)"

text \<open>A float is boxed on the stack top: the tag, then the words OD k and OD (k + 1).\<close>

definition box_float :: "word32 \<Rightarrow> vm \<Rightarrow> vm" where
  "box_float k s =
     (let s1 = wr (ST s) FVL_TAG s; s2 = push (OD k s1) s1 in push (OD (k + 1) s2) s2)"

definition set_float :: "addr \<Rightarrow> word32 \<Rightarrow> vm \<Rightarrow> vm" where
  "set_float g k s =
     (let q = ST s + 4; s1 = wr g (make_str q) (s\<lparr>GP := g, ST := q\<rparr>) in trail g (box_float k s1))"

definition i_setfloat :: "vm \<Rightarrow> outcome" where
  "i_setfloat s = next_op 4 (set_float (cell (OD 1 s) s) 2 s)"
definition i_csetfloat :: "vm \<Rightarrow> outcome" where
  "i_csetfloat s = next_op 3 (set_float (GP s + 4) 1 s)"

definition i_setlist :: "vm \<Rightarrow> outcome" where
  "i_setlist s = next_op 3 (set_at (cell (OD 1 s) s) (make_list (cell (OD 2 s) s)) s)"
definition i_csetlist :: "vm \<Rightarrow> outcome" where
  "i_csetlist s = next_op 2 (set_at (GP s + 4) (make_list (cell (OD 1 s) s)) s)"

definition i_setfun :: "vm \<Rightarrow> outcome" where
  "i_setfun s = next_op 3 (set_at (cell (OD 1 s) s) (OD 2 s) s)"
definition i_csetfun :: "vm \<Rightarrow> outcome" where
  "i_csetfun s = next_op 2 (set_at (GP s + 4) (OD 1 s) s)"

definition i_setstr :: "vm \<Rightarrow> outcome" where
  "i_setstr s = next_op 3 (set_at (cell (OD 1 s) s) (make_str (cell (OD 2 s) s)) s)"
definition i_csetstr :: "vm \<Rightarrow> outcome" where
  "i_csetstr s = next_op 2 (set_at (GP s + 4) (make_str (cell (OD 1 s) s)) s)"

section \<open>get\<close>

text \<open>ax = *(gp = g), followed by the goto loop that dereferences ax in place.\<close>

definition get_arg :: "addr \<Rightarrow> vm \<Rightarrow> (word32 \<Rightarrow> vm \<Rightarrow> outcome) \<Rightarrow> outcome" where
  "get_arg g s k =
     (let s1 = s\<lparr>GP := g\<rparr> in with_opt (deref_word (mem s1) (rd s1 g)) (\<lambda>ax. k ax s1))"

text \<open>The constant is operand k, the last of the instruction.\<close>

definition get_con :: "word32 \<Rightarrow> word32 \<Rightarrow> vm \<Rightarrow> outcome" where
  "get_con k ax s =
     (if is_var ax then next_op (k + 1) (bbtrail ax (wr ax (OD k s) s))
      else if ax = OD k s then next_op (k + 1) s
      else backtrack s)"

definition i_getcon :: "vm \<Rightarrow> outcome" where
  "i_getcon s = get_arg (cell (OD 1 s) s) s (get_con 2)"
definition i_cgetcon :: "vm \<Rightarrow> outcome" where
  "i_cgetcon s = get_arg (GP s + 4) s (get_con 1)"

definition i_getval :: "vm \<Rightarrow> outcome" where
  "i_getval s =
     (let g = cell (OD 1 s) s; ax = rd s g; bx = rd s (cell (OD 2 s) s)
      in do_unify ax bx (s\<lparr>GP := g, PP := padd (PP s) 3\<rparr>))"
definition i_cgetval :: "vm \<Rightarrow> outcome" where
  "i_cgetval s =
     (let g = GP s + 4; ax = rd s g; bx = rd s (cell (OD 1 s) s)
      in do_unify ax bx (s\<lparr>GP := g, PP := padd (PP s) 2\<rparr>))"

text \<open>The words of the double are the operands k and k + 1, the last of the instruction.\<close>

definition get_float :: "word32 \<Rightarrow> word32 \<Rightarrow> vm \<Rightarrow> outcome" where
  "get_float k ax s =
     (if is_var ax then
        (let q = ST s + 4; s1 = wr ax (make_str q) (s\<lparr>ST := q\<rparr>)
         in next_op (k + 2) (bbtrail ax (box_float k s1)))
      else if is_float (mem s) ax then
        (if rd s (addr ax + 4) = OD k s \<and> rd s (addr ax + 8) = OD (k + 1) s then next_op (k + 2) s
         else backtrack s)
      else backtrack s)"

definition i_getfloat :: "vm \<Rightarrow> outcome" where
  "i_getfloat s = get_arg (cell (OD 1 s) s) s (get_float 2)"
definition i_cgetfloat :: "vm \<Rightarrow> outcome" where
  "i_cgetfloat s = get_arg (GP s + 4) s (get_float 1)"

text \<open>
  An unbound argument becomes the list at bx and the write stream at the label
  takes over; a list argument is copied to bx.  k is the position of the nesting
  level, the label follows it.
\<close>

definition copy_pair :: "addr \<Rightarrow> word32 \<Rightarrow> vm \<Rightarrow> vm" where
  "copy_pair bx ax s =
     (let s1 = wr bx (rd s (addr ax)) s in wr (bx + 4) (rd s1 (addr ax + 4)) s1)"

definition get_list :: "word32 \<Rightarrow> addr \<Rightarrow> word32 \<Rightarrow> vm \<Rightarrow> outcome" where
  "get_list k bx ax s =
     (if is_var ax then
        (let s1 = trail ax (wr ax (make_list bx) s); s2 = s1\<lparr>GP := bx - 4\<rparr>; s3 = s2\<lparr>NL := OD k s2\<rparr>
         in jump (OD (k + 1) s3) s3)
      else if is_list ax then next_op (k + 2) (copy_pair bx ax s)
      else backtrack s)"

definition i_getlist :: "vm \<Rightarrow> outcome" where
  "i_getlist s = get_arg (cell (OD 1 s) s) s (get_list 3 (cell (OD 2 s) s))"
definition i_cgetlist :: "vm \<Rightarrow> outcome" where
  "i_cgetlist s = get_arg (GP s + 4) s (get_list 2 (cell (OD 1 s) s))"

definition get_vlist :: "word32 \<Rightarrow> addr \<Rightarrow> word32 \<Rightarrow> vm \<Rightarrow> outcome" where
  "get_vlist n bx ax s =
     (if is_var ax then
        next_op n (wr (bx + 4) (bx + 4) (wr bx bx (trail ax (wr ax (make_list bx) s))))
      else if is_list ax then next_op n (copy_pair bx ax s)
      else backtrack s)"

definition i_getvlist :: "vm \<Rightarrow> outcome" where
  "i_getvlist s = get_arg (cell (OD 1 s) s) s (get_vlist 3 (cell (OD 2 s) s))"
definition i_cgetvlist :: "vm \<Rightarrow> outcome" where
  "i_cgetvlist s = get_arg (GP s + 4) s (get_vlist 2 (cell (OD 1 s) s))"

text \<open>for (cx = 0; cx <= arity(dx); cx++): functor and arguments, in ascending order.\<close>

primrec copy_words :: "nat \<Rightarrow> addr \<Rightarrow> addr \<Rightarrow> vm \<Rightarrow> vm" where
  "copy_words 0 d a s = s"
| "copy_words (Suc n) d a s = copy_words n (d + 4) (a + 4) (wr d (rd s a) s)"

text \<open>k is the position of the nesting level; the functor and the label follow it.\<close>

definition get_str :: "word32 \<Rightarrow> addr \<Rightarrow> word32 \<Rightarrow> word32 \<Rightarrow> vm \<Rightarrow> outcome" where
  "get_str k bx dx ax s =
     (if is_var ax then
        (let s1 = trail ax (wr ax (make_str bx) s); s2 = s1\<lparr>GP := bx - 4\<rparr>; s3 = s2\<lparr>NL := OD k s2\<rparr>
         in jump (OD (k + 2) s3) s3)
      else if is_str ax then
        (if rd s (addr ax) \<noteq> dx then backtrack s
         else next_op (k + 3) (copy_words (Suc (unat (arity dx))) bx (addr ax) s))
      else backtrack s)"

definition i_getstr :: "vm \<Rightarrow> outcome" where
  "i_getstr s = get_arg (cell (OD 1 s) s) s (get_str 3 (cell (OD 2 s) s) (OD 4 s))"
definition i_cgetstr :: "vm \<Rightarrow> outcome" where
  "i_cgetstr s = get_arg (GP s + 4) s (get_str 2 (cell (OD 1 s) s) (OD 3 s))"

end
