(* ===== verification/MLVM_Arith.thy ===== *)
theory MLVM_Arith
  imports MLVM_Machine
begin

text \<open>
  Arithmetic, term tests, dispatching and arithmetic comparison of
  engine/engine.c, with the macros ari_cpu, int_cpu, int_one and ari_cmp of
  include/engine.h.  Integers are 29-bit values in 32-bit words and wrap; a
  double is the pair of words float_value overlays, and the machine's double
  operations are the record double_ops.
\<close>

type_synonym double = "word32 \<times> word32"

record double_ops =
  d_add :: "double \<Rightarrow> double \<Rightarrow> double"
  d_sub :: "double \<Rightarrow> double \<Rightarrow> double"
  d_mul :: "double \<Rightarrow> double \<Rightarrow> double"
  d_div :: "double \<Rightarrow> double \<Rightarrow> double"
  d_neg :: "double \<Rightarrow> double"
  d_of_int :: "word32 \<Rightarrow> double"
  d_to_int :: "double \<Rightarrow> word32"
  d_lt :: "double \<Rightarrow> double \<Rightarrow> bool"
  d_le :: "double \<Rightarrow> double \<Rightarrow> bool"
  d_eq :: "double \<Rightarrow> double \<Rightarrow> bool"

section \<open>Arithmetic\<close>

definition type_error :: "vm \<Rightarrow> outcome" where
  "type_error s = context_switch IMAGO_ERROR (ecode E_UNKNOWN_TYPE) s"

text \<open>The dereferenced operands ax and bx.\<close>

definition with_deref :: "addr \<Rightarrow> vm \<Rightarrow> (word32 \<Rightarrow> outcome) \<Rightarrow> outcome" where
  "with_deref p s k = with_opt (deref p s) k"

text \<open>*cx = make_float(f, st); adjust_st(3), with the trail test of ari_cpu.\<close>

definition store_float :: "addr \<Rightarrow> double \<Rightarrow> vm \<Rightarrow> vm" where
  "store_float cx f s =
     (let (t, m) = make_float f (ST s) (mem s) in s\<lparr>mem := m(cx := t), ST := padd (ST s) 3\<rparr>)"

text \<open>An integer operation answers None where C leaves the result undefined.\<close>

definition store_int :: "addr \<Rightarrow> word32 option \<Rightarrow> vm \<Rightarrow> outcome" where
  "store_int cx r s = (case r of None \<Rightarrow> Undef | Some v \<Rightarrow> next_op 4 (wr cx (make_int v) s))"

definition ari_cpu ::
  "(word32 \<Rightarrow> word32 \<Rightarrow> word32 option) \<Rightarrow> (double \<Rightarrow> double \<Rightarrow> double) \<Rightarrow> double_ops \<Rightarrow> vm \<Rightarrow> outcome" where
  "ari_cpu iop fop D s =
     with_deref (cell (OD 1 s) s) s (\<lambda>ax. with_deref (cell (OD 2 s) s) s (\<lambda>bx.
       let cx = cell (OD 3 s) s;
           fl = (\<lambda>f. next_op 4 (trail cx (store_float cx f s))) in
       if is_int ax then
         (if is_int bx then store_int cx (iop (int_value ax) (int_value bx)) s
          else if is_float (mem s) bx then fl (fop (d_of_int D (int_value ax)) (float_value (mem s) bx))
          else type_error s)
       else if is_float (mem s) ax then
         (if is_int bx then fl (fop (float_value (mem s) ax) (d_of_int D (int_value bx)))
          else if is_float (mem s) bx then fl (fop (float_value (mem s) ax) (float_value (mem s) bx))
          else type_error s)
       else type_error s))"

definition int_cpu :: "(word32 \<Rightarrow> word32 \<Rightarrow> word32 option) \<Rightarrow> vm \<Rightarrow> outcome" where
  "int_cpu iop s =
     with_deref (cell (OD 1 s) s) s (\<lambda>ax. with_deref (cell (OD 2 s) s) s (\<lambda>bx.
       if is_int ax \<and> is_int bx
       then store_int (cell (OD 3 s) s) (iop (int_value ax) (int_value bx)) s
       else type_error s))"

definition int_one :: "(word32 \<Rightarrow> word32 \<Rightarrow> word32) \<Rightarrow> vm \<Rightarrow> outcome" where
  "int_one iop s =
     with_deref (cell (OD 1 s) s) s (\<lambda>ax.
       if is_int ax then next_op 3 (wr (cell (OD 2 s) s) (iop ax MLVM_NOTAG_ONE) s)
       else type_error s)"

definition c_add :: "word32 \<Rightarrow> word32 \<Rightarrow> word32 option" where "c_add x y = Some (x + y)"
definition c_sub :: "word32 \<Rightarrow> word32 \<Rightarrow> word32 option" where "c_sub x y = Some (x - y)"
definition c_mul :: "word32 \<Rightarrow> word32 \<Rightarrow> word32 option" where "c_mul x y = Some (x * y)"
definition c_div :: "word32 \<Rightarrow> word32 \<Rightarrow> word32 option" where
  "c_div x y = (if y = 0 then None else Some (cdiv x y))"
definition c_mod :: "word32 \<Rightarrow> word32 \<Rightarrow> word32 option" where
  "c_mod x y = (if y = 0 then None else Some (cmod x y))"
definition c_and :: "word32 \<Rightarrow> word32 \<Rightarrow> word32 option" where "c_and x y = Some (x AND y)"
definition c_or :: "word32 \<Rightarrow> word32 \<Rightarrow> word32 option" where "c_or x y = Some (x OR y)"
definition c_eor :: "word32 \<Rightarrow> word32 \<Rightarrow> word32 option" where "c_eor x y = Some (x XOR y)"
definition c_shr :: "word32 \<Rightarrow> word32 \<Rightarrow> word32 option" where
  "c_shr x y = (if y < 32 then Some (signed_drop_bit (unat y) x) else None)"
definition c_shl :: "word32 \<Rightarrow> word32 \<Rightarrow> word32 option" where
  "c_shl x y = (if y < 32 then Some (push_bit (unat y) x) else None)"

definition i_add :: "double_ops \<Rightarrow> vm \<Rightarrow> outcome" where "i_add D = ari_cpu c_add (d_add D) D"
definition i_sub :: "double_ops \<Rightarrow> vm \<Rightarrow> outcome" where "i_sub D = ari_cpu c_sub (d_sub D) D"
definition i_mul :: "double_ops \<Rightarrow> vm \<Rightarrow> outcome" where "i_mul D = ari_cpu c_mul (d_mul D) D"
definition i_div :: "double_ops \<Rightarrow> vm \<Rightarrow> outcome" where "i_div D = ari_cpu c_div (d_div D) D"

definition i_minus :: "double_ops \<Rightarrow> vm \<Rightarrow> outcome" where
  "i_minus D s =
     with_deref (cell (OD 1 s) s) s (\<lambda>ax.
       if is_int ax then next_op 3 (wr (cell (OD 2 s) s) (make_int (- int_value ax)) s)
       else if is_float (mem s) ax
       then next_op 3 (store_float (cell (OD 2 s) s) (d_neg D (float_value (mem s) ax)) s)
       else type_error s)"

definition i_mod :: "vm \<Rightarrow> outcome" where "i_mod = int_cpu c_mod"
definition i_inc :: "vm \<Rightarrow> outcome" where "i_inc = int_one (+)"
definition i_dec :: "vm \<Rightarrow> outcome" where "i_dec = int_one (-)"

definition i_is :: "vm \<Rightarrow> outcome" where
  "i_is s =
     with_deref (cell (OD 2 s) s) s (\<lambda>bx.
       if is_var bx then next_op 3 (bbtrail bx (wr bx (rd s (cell (OD 1 s) s)) s))
       else type_error s)"

definition i_and :: "vm \<Rightarrow> outcome" where "i_and = int_cpu c_and"
definition i_or :: "vm \<Rightarrow> outcome" where "i_or = int_cpu c_or"
definition i_eor :: "vm \<Rightarrow> outcome" where "i_eor = int_cpu c_eor"
definition i_rshift :: "vm \<Rightarrow> outcome" where "i_rshift = int_cpu c_shr"
definition i_lshift :: "vm \<Rightarrow> outcome" where "i_lshift = int_cpu c_shl"

section \<open>Term tests\<close>

text \<open>The test reads cell n and takes label e when it fails; the last-forms read *st.\<close>

definition i_test :: "(vm \<Rightarrow> word32 \<Rightarrow> bool) \<Rightarrow> vm \<Rightarrow> outcome" where
  "i_test p s =
     with_deref (cell (OD 1 s) s) s (\<lambda>ax. if p s ax then next_op 3 s else jump (OD 2 s) s)"

definition i_last_test :: "(word32 \<Rightarrow> bool) \<Rightarrow> vm \<Rightarrow> outcome" where
  "i_last_test p s = with_deref (ST s) s (\<lambda>ax. if p ax then next_op 2 s else jump (OD 1 s) s)"

definition i_isatom :: "vm \<Rightarrow> outcome" where "i_isatom = i_test (\<lambda>s ax. is_con ax)"
definition i_isatomic :: "vm \<Rightarrow> outcome" where
  "i_isatomic = i_test (\<lambda>s ax. is_cst ax \<or> is_float (mem s) ax)"
definition i_isfloat :: "vm \<Rightarrow> outcome" where "i_isfloat = i_test (\<lambda>s ax. is_float (mem s) ax)"
definition i_isinteger :: "vm \<Rightarrow> outcome" where "i_isinteger = i_test (\<lambda>s ax. is_int ax)"
definition i_isnumber :: "vm \<Rightarrow> outcome" where
  "i_isnumber = i_test (\<lambda>s ax. is_int ax \<or> is_float (mem s) ax)"
definition i_isnonvar :: "vm \<Rightarrow> outcome" where "i_isnonvar = i_test (\<lambda>s ax. \<not> is_var ax)"
definition i_isvar :: "vm \<Rightarrow> outcome" where "i_isvar = i_test (\<lambda>s ax. is_var ax)"
definition i_islist :: "vm \<Rightarrow> outcome" where "i_islist = i_test (\<lambda>s ax. is_list ax)"
definition i_isstr :: "vm \<Rightarrow> outcome" where
  "i_isstr = i_test (\<lambda>s ax. is_str ax \<and> \<not> is_float (mem s) ax)"
definition i_iscompound :: "vm \<Rightarrow> outcome" where
  "i_iscompound = i_test (\<lambda>s ax. (is_list ax \<or> is_str ax) \<and> \<not> is_float (mem s) ax)"

definition i_isground :: "vm \<Rightarrow> outcome" where
  "i_isground s =
     with_deref (cell (OD 1 s) s) s (\<lambda>ax. context_switch IMAGO_ERROR (ecode E_UNKNOWN_OPCODE) s)"

definition i_isnil :: "vm \<Rightarrow> outcome" where "i_isnil = i_test (\<lambda>s ax. is_nil ax)"
definition i_lastnil :: "vm \<Rightarrow> outcome" where "i_lastnil = i_last_test is_nil"
definition i_iszero :: "vm \<Rightarrow> outcome" where "i_iszero = i_test (\<lambda>s ax. ax = MLVM_ZERO)"
definition i_lastzero :: "vm \<Rightarrow> outcome" where "i_lastzero = i_last_test (\<lambda>ax. ax = MLVM_ZERO)"

section \<open>Dispatching\<close>

definition i_switch :: "vm \<Rightarrow> outcome" where
  "i_switch s = with_deref (cell (OD 1 s) s) s (\<lambda>ax. jump (OD (tag ax + 2) s) s)"
definition i_lastswitch :: "vm \<Rightarrow> outcome" where
  "i_lastswitch s = with_deref (ST s) s (\<lambda>ax. jump (OD (tag ax + 1) s) s)"

text \<open>Linear probing from entry dx of the table at gp; a zero key ends the search.\<close>

definition hash_probe :: "store \<Rightarrow> addr \<Rightarrow> word32 \<Rightarrow> word32 \<Rightarrow> word32 \<Rightarrow> word32 option" where
  "hash_probe m g cx ax =
     while_option (\<lambda>dx. \<not> (m (padd g (dx * 2)) = 0 \<or> ax = m (padd g (dx * 2)))) (\<lambda>dx. cmod (dx + 1) cx)"

definition hash_search :: "addr \<Rightarrow> word32 \<Rightarrow> word32 \<Rightarrow> vm \<Rightarrow> outcome" where
  "hash_search g cx ax s =
     (let g3 = padd g 3 in
      if cx = 0 then Undef
      else with_opt (hash_probe (mem s) g3 cx ax (cmod ax cx))
             (\<lambda>dx. let p = padd g3 (dx * 2) in jump (rd s (p + 4)) (s\<lparr>PP := p, GP := g3\<rparr>)))"

text \<open>The label DOHASH: ax is the key term, g the address of the hash table.\<close>

definition do_hash :: "word32 \<Rightarrow> addr \<Rightarrow> vm \<Rightarrow> outcome" where
  "do_hash ax g s =
     (let dx = tag ax; cx = rd s (padd g 1); s1 = s\<lparr>GP := g\<rparr> in
      if dx = REF_TAG then jump (rd s1 (padd g 2)) s1
      else if dx = CON_TAG then hash_search g cx (con_value ax) s1
      else if dx = STR_TAG then hash_search g cx (fun_value (rd s1 (addr ax))) s1
      else type_error s1)"

definition i_hashing :: "vm \<Rightarrow> outcome" where
  "i_hashing s = with_deref (cell (OD 1 s) s) s (\<lambda>ax. do_hash ax (OD 2 s) s)"
definition i_lasthashing :: "vm \<Rightarrow> outcome" where
  "i_lasthashing s = with_deref (ST s) s (\<lambda>ax. do_hash ax (OD 1 s) s)"

section \<open>Arithmetic comparison\<close>

text \<open>Integers are compared as tagged words, doubles by the machine's comparison.\<close>

definition ari_cmp ::
  "(word32 \<Rightarrow> word32 \<Rightarrow> bool) \<Rightarrow> (double \<Rightarrow> double \<Rightarrow> bool) \<Rightarrow> double_ops \<Rightarrow> vm \<Rightarrow> outcome" where
  "ari_cmp icmp fcmp D s =
     with_deref (cell (OD 1 s) s) s (\<lambda>ax. with_deref (cell (OD 2 s) s) s (\<lambda>bx.
       let br = (\<lambda>c. if c then next_op 4 s else jump (OD 3 s) s) in
       if is_int ax then
         (if is_int bx then br (icmp ax bx)
          else if is_float (mem s) bx then br (fcmp (d_of_int D (int_value ax)) (float_value (mem s) bx))
          else type_error s)
       else if is_float (mem s) ax then
         (if is_int bx then br (fcmp (float_value (mem s) ax) (d_of_int D (int_value bx)))
          else if is_float (mem s) bx then br (fcmp (float_value (mem s) ax) (float_value (mem s) bx))
          else type_error s)
       else type_error s))"

definition i_ifeq :: "double_ops \<Rightarrow> vm \<Rightarrow> outcome" where "i_ifeq D = ari_cmp (=) (d_eq D) D"
definition i_ifne :: "double_ops \<Rightarrow> vm \<Rightarrow> outcome" where
  "i_ifne D = ari_cmp (\<noteq>) (\<lambda>x y. \<not> d_eq D x y) D"
definition i_iflt :: "double_ops \<Rightarrow> vm \<Rightarrow> outcome" where "i_iflt D = ari_cmp word_sless (d_lt D) D"
definition i_ifle :: "double_ops \<Rightarrow> vm \<Rightarrow> outcome" where "i_ifle D = ari_cmp word_sle (d_le D) D"
definition i_ifgt :: "double_ops \<Rightarrow> vm \<Rightarrow> outcome" where
  "i_ifgt D = ari_cmp (\<lambda>x y. word_sless y x) (\<lambda>x y. d_lt D y x) D"
definition i_ifge :: "double_ops \<Rightarrow> vm \<Rightarrow> outcome" where
  "i_ifge D = ari_cmp (\<lambda>x y. word_sle y x) (\<lambda>x y. d_le D y x) D"

definition three_way :: "bool \<Rightarrow> bool \<Rightarrow> word32" where
  "three_way gt lt = (if gt then MLVM_ONE else if lt then MLVM_NONE else MLVM_ZERO)"

definition i_aricmp :: "double_ops \<Rightarrow> vm \<Rightarrow> outcome" where
  "i_aricmp D s =
     with_deref (cell (OD 1 s) s) s (\<lambda>ax. with_deref (cell (OD 2 s) s) s (\<lambda>bx.
       let st = (\<lambda>r. next_op 4 (wr (cell (OD 3 s) s) r s));
           fc = (\<lambda>x y. three_way (d_lt D y x) (d_lt D x y)) in
       if is_int ax then
         (if is_int bx then st (three_way (bx <s ax) (ax <s bx))
          else if is_float (mem s) bx then st (fc (d_of_int D (int_value ax)) (float_value (mem s) bx))
          else type_error s)
       else if is_float (mem s) ax then
         (if is_int bx then st (fc (float_value (mem s) ax) (d_of_int D (int_value bx)))
          else if is_float (mem s) bx then st (fc (float_value (mem s) ax) (float_value (mem s) bx))
          else type_error s)
       else type_error s))"

definition i_ifeq0 :: "vm \<Rightarrow> outcome" where "i_ifeq0 = i_test (\<lambda>s ax. ax = MLVM_ZERO)"
definition i_ifne0 :: "vm \<Rightarrow> outcome" where "i_ifne0 = i_test (\<lambda>s ax. ax \<noteq> MLVM_ZERO)"
definition i_iflt0 :: "vm \<Rightarrow> outcome" where "i_iflt0 = i_test (\<lambda>s ax. ax <s MLVM_ZERO)"
definition i_ifle0 :: "vm \<Rightarrow> outcome" where "i_ifle0 = i_test (\<lambda>s ax. word_sle ax MLVM_ZERO)"
definition i_ifgt0 :: "vm \<Rightarrow> outcome" where "i_ifgt0 = i_test (\<lambda>s ax. MLVM_ZERO <s ax)"
definition i_ifge0 :: "vm \<Rightarrow> outcome" where "i_ifge0 = i_test (\<lambda>s ax. word_sle MLVM_ZERO ax)"

end
