(* ===== verification/MLVM_Compare.thy ===== *)
theory MLVM_Compare
  imports MLVM_Arith
begin

text \<open>
  Term comparison: the loop of engine/engine.c shared by identical,
  nonidentical, precede, preidentical, follow, floidentical and termcompare.
  The loop keeps the pairs still to compare in a scratch stack above cx = st and
  ends with a verdict in dx.
\<close>

section \<open>strcmp on the name table\<close>

text \<open>The byte at an address of the little-endian store.\<close>

definition byte_at :: "store \<Rightarrow> addr \<Rightarrow> word32" where
  "byte_at m p = drop_bit (8 * unat (p AND 3)) (m (p AND ADR_MASK)) AND 255"

definition c_strcmp :: "store \<Rightarrow> addr \<Rightarrow> addr \<Rightarrow> int option" where
  "c_strcmp m p q =
     map_option (\<lambda>i. uint (byte_at m (p + i)) - uint (byte_at m (q + i)))
       (while_option (\<lambda>i. byte_at m (p + i) = byte_at m (q + i) \<and> byte_at m (p + i) \<noteq> 0) (\<lambda>i. i + 1) 0)"

section \<open>The loop\<close>

record cstate =
  c_verdict :: "word32 option"
  c_mem :: store
  c_ax :: word32
  c_bx :: word32
  c_st :: addr

definition c_push :: "word32 \<Rightarrow> cstate \<Rightarrow> cstate" where
  "c_push v c = c\<lparr>c_st := c_st c + 4, c_mem := (c_mem c)(c_st c + 4 := v)\<rparr>"

definition c_break :: "word32 \<Rightarrow> cstate \<Rightarrow> cstate option" where
  "c_break r c = Some (c\<lparr>c_verdict := Some r\<rparr>)"

text \<open>The end of the loop body: zero when the stack is empty, else the next pair.\<close>

definition c_pop :: "addr \<Rightarrow> cstate \<Rightarrow> cstate option" where
  "c_pop cx c =
     (if c_st c = cx then c_break MLVM_ZERO c
      else Some (c\<lparr>c_ax := c_mem c (c_st c), c_bx := c_mem c (c_st c - 4), c_st := c_st c - 8\<rparr>))"

text \<open>while (ax): the arguments n, ..., 1 of the structures at x and y.\<close>

primrec c_push_args :: "nat \<Rightarrow> addr \<Rightarrow> addr \<Rightarrow> cstate \<Rightarrow> cstate" where
  "c_push_args 0 x y c = c"
| "c_push_args (Suc n) x y c =
     (let c1 = c_push (c_mem c (y + 4 * of_nat (Suc n))) c;
          c2 = c_push (c_mem c1 (x + 4 * of_nat (Suc n))) c1
      in c_push_args n x y c2)"

text \<open>Two names of the name table; k is what follows when they are the same string.\<close>

definition c_names :: "addr \<Rightarrow> word32 \<Rightarrow> word32 \<Rightarrow> cstate \<Rightarrow> cstate option \<Rightarrow> cstate option" where
  "c_names nb a b c k =
     (if word_sle a ASCII_SIZE \<or> word_sle b ASCII_SIZE
      then c_break (if b <s a then MLVM_ONE else MLVM_NONE) c
      else (case c_strcmp (c_mem c) (nb + (a - ASCII_SIZE)) (nb + (b - ASCII_SIZE)) of
              None \<Rightarrow> None
            | Some d \<Rightarrow> if 0 < d then c_break MLVM_ONE c
                       else if d < 0 then c_break MLVM_NONE c
                       else k))"

text \<open>One pass, after both terms have been dereferenced; None when a strcmp runs away.\<close>

definition c_body :: "double_ops \<Rightarrow> addr \<Rightarrow> addr \<Rightarrow> cstate \<Rightarrow> cstate option" where
  "c_body D nb cx c =
     (let ax = c_ax c; bx = c_bx c; m = c_mem c in
      if is_var ax then
        (if is_var bx then
           (if ax <s bx then c_break MLVM_NONE c
            else if bx <s ax then c_break MLVM_ONE c
            else c_pop cx c)
         else c_break MLVM_NONE c)
      else if is_float m ax then
        (if is_var bx then c_break MLVM_ONE c
         else if is_float m bx then
           (let da = float_value m ax; db = float_value m bx in
            if d_lt D da db then c_break MLVM_NONE c
            else if d_lt D db da then c_break MLVM_ONE c
            else c_pop cx c)
         else c_break MLVM_NONE c)
      else if is_int ax then
        (if is_var bx \<or> is_float m bx then c_break MLVM_ONE c
         else if is_int bx then
           (if ax <s bx then c_break MLVM_NONE c
            else if bx <s ax then c_break MLVM_ONE c
            else c_pop cx c)
         else c_break MLVM_NONE c)
      else if is_con ax then
        (if is_var bx \<or> is_float m bx \<or> is_int bx then c_break MLVM_ONE c
         else if is_con bx then
           (if ax \<noteq> bx then c_names nb (con_value ax) (con_value bx) c (c_pop cx c)
            else c_pop cx c)
         else c_break MLVM_NONE c)
      else if is_list ax then
        (if is_float m bx \<or> tag bx < LIS_TAG then c_break MLVM_ONE c
         else if is_list bx then
           c_pop cx (c_push (addr ax) (c_push (addr bx) (c_push (addr ax + 4) (c_push (addr bx + 4) c))))
         else c_break MLVM_NONE c)
      else
        (if is_float m bx \<or> tag bx < STR_TAG then c_break MLVM_ONE c
         else
           (let x = addr ax; y = addr bx in
            c_names nb (fun_value (m x)) (fun_value (m y)) c
              (c_pop cx (c_push_args (unat (arity (m x))) x y c)))))"

definition c_step :: "double_ops \<Rightarrow> addr \<Rightarrow> addr \<Rightarrow> cstate option \<Rightarrow> cstate option" where
  "c_step D nb cx r =
     (case r of
        None \<Rightarrow> None
      | Some c \<Rightarrow>
          (case (deref_word (c_mem c) (c_ax c), deref_word (c_mem c) (c_bx c)) of
             (Some a, Some b) \<Rightarrow> c_body D nb cx (c\<lparr>c_ax := a, c_bx := b\<rparr>)
           | _ \<Rightarrow> None))"

text \<open>The loop; None when a dereference, a strcmp or the loop itself does not end.\<close>

definition compare_terms :: "double_ops \<Rightarrow> addr \<Rightarrow> addr \<Rightarrow> cstate \<Rightarrow> cstate option" where
  "compare_terms D nb cx c =
     (case while_option (\<lambda>r. case r of None \<Rightarrow> False | Some c \<Rightarrow> c_verdict c = None)
             (c_step D nb cx) (Some c) of
        None \<Rightarrow> None | Some r \<Rightarrow> r)"

section \<open>The instructions\<close>

text \<open>The verdict dx goes to k; the registers keep the scratch stack as the loop left it.\<close>

definition with_compare :: "double_ops \<Rightarrow> vm \<Rightarrow> (word32 \<Rightarrow> vm \<Rightarrow> outcome) \<Rightarrow> outcome" where
  "with_compare D s k =
     with_opt (compare_terms D (name_base (plt s)) (ST s)
         \<lparr>c_verdict = None, c_mem = mem s, c_ax = rd s (cell (OD 1 s) s),
          c_bx = rd s (cell (OD 2 s) s), c_st = ST s\<rparr>)
       (\<lambda>c. k (case c_verdict c of Some r \<Rightarrow> r | None \<Rightarrow> MLVM_ZERO)
              (s\<lparr>mem := c_mem c, ST := c_st c\<rparr>))"

definition cmp_branch :: "(word32 \<Rightarrow> bool) \<Rightarrow> double_ops \<Rightarrow> vm \<Rightarrow> outcome" where
  "cmp_branch p D s = with_compare D s (\<lambda>dx s1. if p dx then next_op 4 s1 else jump (OD 3 s1) s1)"

definition i_identical :: "double_ops \<Rightarrow> vm \<Rightarrow> outcome" where
  "i_identical = cmp_branch (\<lambda>dx. dx = MLVM_ZERO)"
definition i_nonidentical :: "double_ops \<Rightarrow> vm \<Rightarrow> outcome" where
  "i_nonidentical = cmp_branch (\<lambda>dx. dx \<noteq> MLVM_ZERO)"
definition i_precede :: "double_ops \<Rightarrow> vm \<Rightarrow> outcome" where
  "i_precede = cmp_branch (\<lambda>dx. dx = MLVM_NONE)"
definition i_preidentical :: "double_ops \<Rightarrow> vm \<Rightarrow> outcome" where
  "i_preidentical = cmp_branch (\<lambda>dx. word_sle dx MLVM_ZERO)"
definition i_follow :: "double_ops \<Rightarrow> vm \<Rightarrow> outcome" where
  "i_follow = cmp_branch (\<lambda>dx. dx = MLVM_ONE)"
definition i_floidentical :: "double_ops \<Rightarrow> vm \<Rightarrow> outcome" where
  "i_floidentical = cmp_branch (\<lambda>dx. word_sle MLVM_ZERO dx)"
definition i_termcompare :: "double_ops \<Rightarrow> vm \<Rightarrow> outcome" where
  "i_termcompare D s = with_compare D s (\<lambda>dx s1. next_op 4 (wr (cell (OD 3 s1) s1) dx s1))"

end
