(* ===== verification/MLVM_Engine.thy ===== *)
theory MLVM_Engine
  imports MLVM_Control MLVM_PutSetGet MLVM_Compare
begin

text \<open>
  The function engine of engine/engine.c: the three unifiable instructions, the
  dispatch switch on *pp, the loop at the label CONTROL and the entry of the
  function.
\<close>

section \<open>unifiable, nonunifiable, tryunifiable\<close>

text \<open>
  The trail top is remembered in gp before the unification.  After a failure st
  is reset to cx; after the loop the trail is filtered or cleared as *pp asks.
\<close>

definition i_unifiable :: "vm \<Rightarrow> outcome" where
  "i_unifiable s =
     (let ax = rd s (cell (OD 1 s) s); bx = rd s (cell (OD 2 s) s); s0 = s\<lparr>GP := TT s\<rparr> in
      with_opt (unify (BB s0) (GL s0) (ST s0) (unify_start ax bx s0))
        (\<lambda>u. let ok = (u_run u = USucc);
                 dx = (if ok then MLVM_ZERO else MLVM_NONE);
                 s1 = s0\<lparr>mem := u_mem u, ST := if ok then u_st u else ST s0, TT := u_tt u\<rparr>;
                 op = rd s1 (PP s1) in
             if op = LVM_UNIFIABLE then
               (if dx = MLVM_ZERO then with_opt (filter_trail s1) (next_op 4)
                else with_opt (clear_trail s1) (\<lambda>s2. jump (OD 3 s2) s2))
             else if op = LVM_NONUNIFIABLE then
               (if dx = MLVM_NONE then with_opt (clear_trail s1) (next_op 4)
                else with_opt (filter_trail s1) (\<lambda>s2. jump (OD 3 s2) s2))
             else with_opt (clear_trail s1)
                    (\<lambda>s2. next_op 4 (wr (cell (OD 3 s2) s2) dx s2))))"

section \<open>Dispatch\<close>

text \<open>The switch of engine; an opcode without a case is an error of the imago.\<close>

definition engine_step ::
  "(word32 \<Rightarrow> builtin_rec option) \<Rightarrow> double_ops \<Rightarrow> vm \<Rightarrow> outcome" where
  "engine_step btin_tab D s =
     (let op = rd s (PP s) in
      if op = LVM_NOOP then i_noop s
      else if op = LVM_ALLOA then i_alloa s
      else if op = LVM_ALLOD then i_allod s
      else if op = LVM_CALL then i_call s
      else if op = LVM_LASTCALL then i_lastcall s
      else if op = LVM_CHAINCALL then i_chaincall s
      else if op = LVM_PROCEED then i_proceed s
      else if op = LVM_RETURN then i_return s
      else if op = LVM_SHALLOWTRY then i_try s
      else if op = LVM_TRY then i_try s
      else if op = LVM_RETRY then i_retry s
      else if op = LVM_TRUST then i_trust s
      else if op = LVM_NECKCUT then i_neckcut s
      else if op = LVM_DEEPLABEL then i_deeplabel s
      else if op = LVM_DEEPCUT then i_deepcut s
      else if op = LVM_BUILTIN then i_builtin btin_tab s
      else if op = LVM_FAIL then i_fail s
      else if op = LVM_FINISH then i_finish s
      else if op = LVM_PUTVOID then i_putvoid s
      else if op = LVM_PUT2VOID then i_put2void s
      else if op = LVM_PUTVAR then i_putvar s
      else if op = LVM_PUT2VAR then i_put2var s
      else if op = LVM_PUT3VAR then i_put3var s
      else if op = LVM_PUT4VAR then i_put4var s
      else if op = LVM_PUTRVAL then i_putrval s
      else if op = LVM_PUTVAL then i_putval s
      else if op = LVM_PUT2VAL then i_put2val s
      else if op = LVM_PUT3VAL then i_put3val s
      else if op = LVM_PUT4VAL then i_put4val s
      else if op = LVM_PUT5VAL then i_put5val s
      else if op = LVM_PUT6VAL then i_put6val s
      else if op = LVM_PUT7VAL then i_put7val s
      else if op = LVM_PUT8VAL then i_put8val s
      else if op = LVM_PUTCON then i_putcon s
      else if op = LVM_PUTINT then i_putcon s
      else if op = LVM_PUTLIST then i_putlist s
      else if op = LVM_PUTSTR then i_putstr s
      else if op = LVM_SETVAR then i_setvar s
      else if op = LVM_CSETVAR then i_csetvar s
      else if op = LVM_SETCON then i_setcon s
      else if op = LVM_CSETCON then i_csetcon s
      else if op = LVM_SETINT then i_setcon s
      else if op = LVM_CSETINT then i_csetcon s
      else if op = LVM_SETVAL then i_setval s
      else if op = LVM_CSETVAL then i_csetval s
      else if op = LVM_SETFLOAT then i_setfloat s
      else if op = LVM_CSETFLOAT then i_csetfloat s
      else if op = LVM_SETLIST then i_setlist s
      else if op = LVM_CSETLIST then i_csetlist s
      else if op = LVM_SETFUN then i_setfun s
      else if op = LVM_CSETFUN then i_csetfun s
      else if op = LVM_SETSTR then i_setstr s
      else if op = LVM_CSETSTR then i_csetstr s
      else if op = LVM_JUMP then i_jump s
      else if op = LVM_BRANCH then i_branch s
      else if op = LVM_GETCON then i_getcon s
      else if op = LVM_CGETCON then i_cgetcon s
      else if op = LVM_GETINT then i_getcon s
      else if op = LVM_CGETINT then i_cgetcon s
      else if op = LVM_GETVAL then i_getval s
      else if op = LVM_CGETVAL then i_cgetval s
      else if op = LVM_GETFLOAT then i_getfloat s
      else if op = LVM_CGETFLOAT then i_cgetfloat s
      else if op = LVM_GETLIST then i_getlist s
      else if op = LVM_CGETLIST then i_cgetlist s
      else if op = LVM_GETVLIST then i_getvlist s
      else if op = LVM_CGETVLIST then i_cgetvlist s
      else if op = LVM_GETSTR then i_getstr s
      else if op = LVM_CGETSTR then i_cgetstr s
      else if op = LVM_ADD then i_add D s
      else if op = LVM_SUB then i_sub D s
      else if op = LVM_MUL then i_mul D s
      else if op = LVM_DIV then i_div D s
      else if op = LVM_MINUS then i_minus D s
      else if op = LVM_MOD then i_mod s
      else if op = LVM_INC then i_inc s
      else if op = LVM_DEC then i_dec s
      else if op = LVM_IS then i_is s
      else if op = LVM_AND then i_and s
      else if op = LVM_OR then i_or s
      else if op = LVM_EOR then i_eor s
      else if op = LVM_RSHIFT then i_rshift s
      else if op = LVM_LSHIFT then i_lshift s
      else if op = LVM_ISATOM then i_isatom s
      else if op = LVM_ISATOMIC then i_isatomic s
      else if op = LVM_ISFLOAT then i_isfloat s
      else if op = LVM_ISINTEGER then i_isinteger s
      else if op = LVM_ISNUMBER then i_isnumber s
      else if op = LVM_ISNONVAR then i_isnonvar s
      else if op = LVM_ISVAR then i_isvar s
      else if op = LVM_ISLIST then i_islist s
      else if op = LVM_ISSTR then i_isstr s
      else if op = LVM_ISCOMPOUND then i_iscompound s
      else if op = LVM_ISGROUND then i_isground s
      else if op = LVM_ISNIL then i_isnil s
      else if op = LVM_LASTNIL then i_lastnil s
      else if op = LVM_ISZERO then i_iszero s
      else if op = LVM_LASTZERO then i_lastzero s
      else if op = LVM_SWITCH then i_switch s
      else if op = LVM_LASTSWITCH then i_lastswitch s
      else if op = LVM_HASHING then i_hashing s
      else if op = LVM_LASTHASHING then i_lasthashing s
      else if op = LVM_IDENTICAL then i_identical D s
      else if op = LVM_NONIDENTICAL then i_nonidentical D s
      else if op = LVM_PRECEDE then i_precede D s
      else if op = LVM_PREIDENTICAL then i_preidentical D s
      else if op = LVM_FOLLOW then i_follow D s
      else if op = LVM_FLOIDENTICAL then i_floidentical D s
      else if op = LVM_TERMCOMPARE then i_termcompare D s
      else if op = LVM_IFEQ then i_ifeq D s
      else if op = LVM_IFNE then i_ifne D s
      else if op = LVM_IFLT then i_iflt D s
      else if op = LVM_IFLE then i_ifle D s
      else if op = LVM_IFGT then i_ifgt D s
      else if op = LVM_IFGE then i_ifge D s
      else if op = LVM_ARICMP then i_aricmp D s
      else if op = LVM_IFEQ0 then i_ifeq0 s
      else if op = LVM_IFNE0 then i_ifne0 s
      else if op = LVM_IFLT0 then i_iflt0 s
      else if op = LVM_IFLE0 then i_ifle0 s
      else if op = LVM_IFGT0 then i_ifgt0 s
      else if op = LVM_IFGE0 then i_ifge0 s
      else if op = LVM_UNIFIABLE then i_unifiable s
      else if op = LVM_NONUNIFIABLE then i_unifiable s
      else if op = LVM_TRYUNIFIABLE then i_unifiable s
      else if op = LVM_STATIONARY then i_stationary s
      else if op = LVM_WORKER then i_worker s
      else if op = LVM_MESSENGER then i_worker s
      else context_switch IMAGO_ERROR (ecode E_UNKNOWN_OPCODE) s)"

text \<open>The loop at CONTROL: None when the imago never yields.\<close>

fun running :: "outcome \<Rightarrow> bool" where
  "running (Control s) = True"
| "running _ = False"

fun step_outcome ::
  "(word32 \<Rightarrow> builtin_rec option) \<Rightarrow> double_ops \<Rightarrow> outcome \<Rightarrow> outcome" where
  "step_outcome btin_tab D (Control s) = engine_step btin_tab D s"
| "step_outcome btin_tab D r = r"

definition control_loop ::
  "(word32 \<Rightarrow> builtin_rec option) \<Rightarrow> double_ops \<Rightarrow> outcome \<Rightarrow> outcome option" where
  "control_loop btin_tab D = while_option running (step_outcome btin_tab D)"

section \<open>Entry\<close>

text \<open>The registers engine initialises from the control block it is given.\<close>

definition load_registers :: "icb \<Rightarrow> store \<Rightarrow> vm" where
  "load_registers ip m =
     \<lparr>mem = m, plt = ip, PP = i_pp ip, AF = i_af ip, CP = i_cp ip, CF = i_cf ip, ST = i_st ip,
      GP = 0, BB = i_bb ip, B0 = i_b0 ip, GL = i_gl ip, TT = i_tt ip, NL = i_nl ip,
      BT = BACKTRACK_LIMIT\<rparr>"

definition engine_entry :: "icb \<Rightarrow> store \<Rightarrow> outcome" where
  "engine_entry ip m =
     (let s = load_registers ip m in
      if status ip = IMAGO_BACKTRACK then backtrack (s\<lparr>plt := ip\<lparr>status := IMAGO_READY\<rparr>\<rparr>)
      else if status ip \<noteq> IMAGO_READY then context_switch IMAGO_ERROR (ecode E_ILLEGAL_THREAD) s
      else Control s)"

definition engine ::
  "(word32 \<Rightarrow> builtin_rec option) \<Rightarrow> double_ops \<Rightarrow> icb \<Rightarrow> store \<Rightarrow> outcome option" where
  "engine btin_tab D ip m = control_loop btin_tab D (engine_entry ip m)"

end
