(* ===== verification/MLVM_Engine_Correct.thy ===== *)
theory MLVM_Engine_Correct
  imports MLVM_Engine MLVM_Unify_Correct
begin

text \<open>
  What the instructions of the engine promise: entry and context switch, calls
  and returns, choice points, the length of instructions, dispatching, the
  unifiable instructions and arithmetic.
\<close>

section \<open>Shared facts\<close>

lemma vm_simps [simp]:
  "mem (wr a v s) = (mem s)(a := v)" "plt (wr a v s) = plt s" "PP (wr a v s) = PP s" "AF (wr a v s) = AF s"
  "CP (wr a v s) = CP s" "CF (wr a v s) = CF s" "ST (wr a v s) = ST s" "GP (wr a v s) = GP s"
  "BB (wr a v s) = BB s" "B0 (wr a v s) = B0 s" "GL (wr a v s) = GL s" "TT (wr a v s) = TT s"
  "NL (wr a v s) = NL s" "BT (wr a v s) = BT s"
  by (simp_all add: wr_def)

lemma push_simps [simp]:
  "mem (push v s) = (mem s)(ST s + 4 := v)" "ST (push v s) = ST s + 4" "plt (push v s) = plt s"
  "PP (push v s) = PP s" "AF (push v s) = AF s" "CP (push v s) = CP s" "CF (push v s) = CF s"
  "GP (push v s) = GP s" "BB (push v s) = BB s" "B0 (push v s) = B0 s" "GL (push v s) = GL s"
  "TT (push v s) = TT s" "NL (push v s) = NL s" "BT (push v s) = BT s"
  by (simp_all add: push_def Let_def)

text \<open>A double_ops record for the concrete instances: the operations act on the high words.\<close>

definition demo_ops :: double_ops where
  "demo_ops = \<lparr>d_add = (\<lambda>x y. (0, snd x + snd y)), d_sub = (\<lambda>x y. (0, snd x - snd y)),
     d_mul = (\<lambda>x y. (0, snd x * snd y)), d_div = (\<lambda>x y. (0, snd x div snd y)),
     d_neg = (\<lambda>x. (0, - snd x)), d_of_int = (\<lambda>x. (0, x)), d_to_int = snd,
     d_lt = (\<lambda>x y. snd x <s snd y), d_le = (\<lambda>x y. word_sle (snd x) (snd y)),
     d_eq = (\<lambda>x y. snd x = snd y)\<rparr>"

section \<open>Entry and context switch\<close>

lemma not_ready_run:
  assumes "status ip \<noteq> IMAGO_READY" "status ip \<noteq> IMAGO_BACKTRACK"
  shows "\<exists>s. engine B D ip m = Some (Return s) \<and> mem s = m
    \<and> plt s = ip\<lparr>status := IMAGO_ERROR, i_nl := ecode E_ILLEGAL_THREAD\<rparr>"
proof -
  have e: "engine_entry ip m = context_switch IMAGO_ERROR (ecode E_ILLEGAL_THREAD) (load_registers ip m)"
    using assms by (simp add: engine_entry_def Let_def)
  show ?thesis unfolding engine_def control_loop_def e context_switch_def
    by (subst while_option_unfold)
       (simp add: save_registers_def load_registers_def)
qed

text \<open>
  engine runs only ready imagoes.  Called with any status but READY or
  BACKTRACK it executes no instruction: it returns at once with status ERROR and
  code E_ILLEGAL_THREAD, the store and the saved registers as it found them.
\<close>

lemma engine_rejects_not_ready:
  assumes "status ip \<noteq> IMAGO_READY" "status ip \<noteq> IMAGO_BACKTRACK"
  shows "\<exists>s. engine B D ip m = Some (Return s) \<and> mem s = m
    \<and> plt s = ip\<lparr>status := IMAGO_ERROR, i_nl := ecode E_ILLEGAL_THREAD\<rparr>"
  by (rule not_ready_run [OF assms])

lemma engine_rejects_not_ready_witness:
  "\<exists>s. engine (\<lambda>_. None) demo_ops (demo_icb\<lparr>status := IMAGO_WAITING\<rparr>) demo_mem = Some (Return s)
     \<and> status (plt s) = IMAGO_ERROR"
  using engine_rejects_not_ready [of "demo_icb\<lparr>status := IMAGO_WAITING\<rparr>" "\<lambda>_. None" demo_ops demo_mem]
  by auto

text \<open>
  Claim C34. A context switch saves the machine.  When an imago is switched out
  as READY, entering engine again with the saved control block and the same
  store resumes at the same instruction with every register restored but gp and
  nl, and a fresh backtrack allowance.
\<close>

theorem context_switch_resumes:
  assumes "context_switch IMAGO_READY e s = Return s'"
  shows "engine_entry (plt s') (mem s') =
           Control (s\<lparr>plt := plt s', GP := 0, NL := e, BT := BACKTRACK_LIMIT\<rparr>)"
proof -
  have s': "s' = save_registers (s\<lparr>plt := (plt s)\<lparr>status := IMAGO_READY, i_nl := e\<rparr>\<rparr>)"
    using assms by (simp add: context_switch_def)
  show ?thesis unfolding s'
    by (simp add: engine_entry_def load_registers_def save_registers_def Let_def)
qed

theorem context_switch_resumes_witness:
  "engine_entry (plt (save_registers (demo_vm\<lparr>plt := demo_icb\<lparr>i_nl := 5\<rparr>\<rparr>))) demo_mem =
     Control (demo_vm\<lparr>plt := plt (save_registers (demo_vm\<lparr>plt := demo_icb\<lparr>i_nl := 5\<rparr>\<rparr>)), NL := 5\<rparr>)"
proof -
  have "context_switch IMAGO_READY 5 demo_vm = Return (save_registers (demo_vm\<lparr>plt := demo_icb\<lparr>i_nl := 5\<rparr>\<rparr>))"
    by (simp add: context_switch_def demo_vm_def demo_icb_def)
  from context_switch_resumes [OF this] show ?thesis
    by (simp add: save_registers_def demo_vm_def)
qed

section \<open>Calls and returns\<close>

text \<open>
  A call returns behind itself.  call jumps to its label with the
  caller's frame as continuation; a callee that keeps the continuation frame
  and its return slot leaves by proceed at the instruction after the call, with
  the caller's frame active again.
\<close>

lemma call_then_proceed:
  assumes "i_call s = Control s1" "CF s2 = CF s1"
    and "mem s2 (psub (CF s1) 1) = mem s1 (psub (CF s1) 1)"
  shows "CF s1 = AF s \<and> AF s1 = ST s
    \<and> i_proceed s2 = Control (s2\<lparr>AF := AF s, PP := padd (PP s) 2\<rparr>)"
  using assms by (auto simp: i_call_def i_proceed_def Let_def jump_def)

lemma call_then_proceed_witness:
  "i_proceed (demo_vm\<lparr>mem := demo_mem(2996 := 508), PP := 600, AF := 1000, CF := 3000, ST := 1000\<rparr>)
     = Control (demo_vm\<lparr>mem := demo_mem(2996 := 508), AF := 3000, CF := 3000, PP := 508\<rparr>)"
proof -
  let ?s = "demo_vm\<lparr>PP := 500, AF := 3000\<rparr>"
  let ?s1 = "?s\<lparr>mem := demo_mem(2996 := 508), CF := 3000, AF := 1000, PP := demo_mem 504\<rparr>"
  have c: "i_call ?s = Control ?s1"
    by (simp add: i_call_def Let_def jump_def OD_def wr_def demo_vm_def demo_mem_def)
  show ?thesis
    using call_then_proceed [OF c, of "demo_vm\<lparr>mem := demo_mem(2996 := 508), PP := 600, AF := 1000, CF := 3000, ST := 1000\<rparr>"]
    by (simp add: demo_vm_def)
qed

lemma search_gline_frame: "search_gline s = Some t \<Longrightarrow> \<exists>a. t = s\<lparr>AF := a\<rparr>"
  unfolding search_gline_def
  by (rule while_option_rule [where P = "\<lambda>t. \<exists>a. t = s\<lparr>AF := a\<rparr>"]) (auto intro: exI [of _ "AF s"])

text \<open>
  Claim C25. A callee with an activation frame returns too.  alloa saves the
  continuation frame in the new frame, so that return, executed with that frame
  active and its slots intact, resumes the caller behind the call.
\<close>

theorem call_alloa_return:
  assumes "i_call s = Control s1" "i_alloa s1 = Control s2"
    and "TT s1 \<noteq> padd (ST s1) (OD 2 s1)"
    and "AF s3 = AF s2" "mem s3 (AF s2) = mem s2 (AF s2)"
    and "mem s3 (psub (AF s) 1) = mem s1 (psub (AF s) 1)"
  shows "AF s2 = padd (ST s) (OD 2 s1)
    \<and> i_return s3 = Control (s3\<lparr>AF := AF s, PP := padd (PP s) 2\<rparr>)"
proof -
  have c: "CF s1 = AF s" "ST s1 = ST s" "mem s1 (psub (AF s) 1) = padd (PP s) 2"
    using assms(1) by (auto simp: i_call_def Let_def jump_def)
  have fr: "AF (make_aframe t) = padd (ST t) (OD 2 t)" "TT (make_aframe t) = TT t"
    "mem (make_aframe t) (padd (ST t) (OD 2 t)) = CF t"
    "ST (make_aframe t) = padd (ST t) (OD 2 t)" for t
    by (simp_all add: make_aframe_def Let_def)
  have ng: "AF (new_gen_if_full t) = AF t"
    "AF t \<noteq> TT t \<Longrightarrow> mem (new_gen_if_full t) (AF t) = mem t (AF t)" for t
    by (simp_all add: new_gen_if_full_def new_generation_def push_trail_def)
  have g: "\<exists>a. t = s1\<lparr>AF := a\<rparr>" if "search_gline (gen_root s1) = Some t" for t
    using search_gline_frame [OF that] by (auto simp: gen_root_def)
  consider "s2 = (new_gen_if_full (make_aframe s1))\<lparr>PP := padd (PP (new_gen_if_full (make_aframe s1))) 3\<rparr>"
    | a where "s2 = (make_aframe (s1\<lparr>AF := a\<rparr>))\<lparr>PP := padd (PP (make_aframe (s1\<lparr>AF := a\<rparr>))) 3\<rparr>"
    using assms(2) g
    by (fastforce simp: i_alloa_def with_opt_def next_op_def context_switch_def
        split: if_splits option.splits)
  hence "AF s2 = padd (ST s1) (OD 2 s1) \<and> mem s2 (AF s2) = CF s1"
  proof cases
    case 1
    thus ?thesis using fr ng [of "make_aframe s1"] assms(3) by simp
  next
    case 2
    thus ?thesis using fr [of "s1\<lparr>AF := a\<rparr>"] by (simp add: OD_def)
  qed
  hence "AF s2 = padd (ST s) (OD 2 s1)" "mem s3 (AF s3) = AF s"
    using assms(4,5) c(1,2) by (simp, metis)
  thus ?thesis using assms(6) c(3) by (simp add: i_return_def Let_def jump_def)
qed

theorem call_alloa_return_witness:
  "i_return (demo_vm\<lparr>mem := demo_mem(504 := 600, 600 := 1, 608 := 5, 2996 := 508, 1020 := 3000,
       1012 := 100000), CF := 3000, ST := 1020, AF := 1020, PP := 612\<rparr>)
   = Control (demo_vm\<lparr>mem := demo_mem(504 := 600, 600 := 1, 608 := 5, 2996 := 508, 1020 := 3000,
       1012 := 100000), CF := 3000, ST := 1020, AF := 3000, PP := 508\<rparr>)"
proof -
  let ?s = "demo_vm\<lparr>mem := demo_mem(504 := 600, 600 := 1, 608 := 5), PP := 500, AF := 3000\<rparr>"
  let ?s1 = "?s\<lparr>mem := (mem ?s)(2996 := 508), CF := 3000, AF := 1000, PP := 600\<rparr>"
  let ?s2 = "?s1\<lparr>mem := (mem ?s1)(1020 := 3000, 1012 := 100000), ST := 1020, AF := 1020, PP := 612\<rparr>"
  have c: "i_call ?s = Control ?s1"
    by (simp add: i_call_def Let_def jump_def OD_def wr_def demo_vm_def)
  have pd: "pdiff 100000 1000 = 24750" "pdiff 1020 100 = 230"
    by (simp_all add: pdiff_def)
  have a: "i_alloa ?s1 = Control ?s2"
    by (simp add: i_alloa_def no_room_def OD_def demo_vm_def make_aframe_def Let_def wr_def next_op_def
        new_gen_if_full_def pd word_sless_alt)
  show ?thesis
    using call_alloa_return [OF c a, of ?s2] by (simp add: OD_def demo_vm_def)
qed

section \<open>Choice points\<close>

text \<open>The copy loop of make_cframe and retry: n words from above af to above st.\<close>

lemma mirror_args_frame [simp]:
  "plt (mirror_args n s) = plt s" "PP (mirror_args n s) = PP s" "CP (mirror_args n s) = CP s"
  "CF (mirror_args n s) = CF s" "GP (mirror_args n s) = GP s" "BB (mirror_args n s) = BB s"
  "B0 (mirror_args n s) = B0 s" "GL (mirror_args n s) = GL s" "TT (mirror_args n s) = TT s"
  "NL (mirror_args n s) = NL s" "BT (mirror_args n s) = BT s"
  by (induction n arbitrary: s) (simp_all add: Let_def)

lemma mirror_args_spec:
  assumes "unat (ST s) + 4 * n < 2 ^ 32"
    and "\<And>j. 0 < j \<Longrightarrow> j \<le> n \<Longrightarrow> slot (AF s) j \<le> ST s"
  shows "ST (mirror_args n s) = slot (ST s) n
    \<and> (\<forall>j. 0 < j \<longrightarrow> j \<le> n \<longrightarrow> mem (mirror_args n s) (slot (ST s) j) = mem s (slot (AF s) j))
    \<and> (\<forall>p. unat p \<le> unat (ST s) \<or> unat (ST s) + 4 * n < unat p \<longrightarrow> mem (mirror_args n s) p = mem s p)"
  using assms
proof (induction n arbitrary: s)
  case 0
  thus ?case by simp
next
  case (Suc n)
  define s1 where "s1 = push (mem s (AF s + 4)) (s\<lparr>AF := AF s + 4\<rparr>)"
  have s1: "ST s1 = slot (ST s) 1" "AF s1 = slot (AF s) 1"
    "mem s1 = (mem s)(slot (ST s) 1 := mem s (slot (AF s) 1))"
    by (simp_all add: s1_def slot_def)
  have sl: "slot (slot p (Suc 0)) j = slot p (Suc j)" for p j by (simp add: slot_def algebra_simps)
  have us: "unat (slot (ST s) j) = unat (ST s) + 4 * j" if "j \<le> Suc n" for j
    using Suc.prems(1) that by (intro unat_slot) simp
  have slST: "slot (ST s1) j = slot (ST s) (Suc j)" and slAF: "slot (AF s1) j = slot (AF s) (Suc j)" for j
    using sl by (simp_all add: s1)
  have usST: "unat (ST s1) = unat (ST s) + 4" using us [of 1] by (simp add: s1)
  have pre1: "unat (ST s1) + 4 * n < 2 ^ 32" using Suc.prems(1) usST by simp
  have pre2: "slot (AF s1) j \<le> ST s1" if "0 < j" "j \<le> n" for j
    using Suc.prems(2) [of "Suc j"] that usST by (simp add: slAF word_le_nat_alt)
  have IH: "ST (mirror_args n s1) = slot (ST s) (Suc n)
    \<and> (\<forall>j. 0 < j \<longrightarrow> j \<le> n \<longrightarrow> mem (mirror_args n s1) (slot (ST s) (Suc j)) = mem s1 (slot (AF s) (Suc j)))
    \<and> (\<forall>p. unat p \<le> unat (ST s) + 4 \<or> unat (ST s) + 4 * Suc n < unat p \<longrightarrow> mem (mirror_args n s1) p = mem s1 p)"
    using Suc.IH [OF pre1] pre2 by (simp add: slST slAF usST add.assoc)
  have m1: "mem s1 p = mem s p" if "p \<noteq> slot (ST s) 1" for p using that by (simp add: s1)
  have src: "mem s1 (slot (AF s) j) = mem s (slot (AF s) j)" if "0 < j" "j \<le> Suc n" for j
    using Suc.prems(2) [OF that] us [of 1] by (intro m1) (auto simp: word_le_nat_alt)
  have eq: "mirror_args (Suc n) s = mirror_args n s1" by (simp add: s1_def Let_def)
  have "mem (mirror_args n s1) (slot (ST s) j) = mem s (slot (AF s) j)" if j: "0 < j" "j \<le> Suc n" for j
  proof (cases "j = 1")
    case True
    thus ?thesis using IH us [of 1] s1(3) by simp
  next
    case False
    then obtain i where "j = Suc i" "0 < i" "i \<le> n" using j by (cases j) auto
    thus ?thesis using IH src [OF j] by simp
  qed
  moreover have "mem (mirror_args n s1) p = mem s p"
    if "unat p \<le> unat (ST s) \<or> unat (ST s) + 4 * Suc n < unat p" for p
    using IH that us [of 1] m1 [of p] by fastforce
  ultimately show ?case unfolding eq using IH by blast
qed

lemma slot_entry: "j \<le> n \<Longrightarrow> slot (p - 4 * of_nat n) j = entry p (n - j)"
  by (simp add: slot_def entry_def of_nat_diff algebra_simps)

text \<open>The layout under which a choice frame is made: code and live stack at or below st, room above.\<close>

definition frame_layout :: "vm \<Rightarrow> bool" where
  "frame_layout s =
     (unat (ST s) + 28 + 4 * unat (OD 1 s) < unat (TT s) \<and> unat (PP s) + 8 \<le> unat (ST s)
      \<and> psub (CF s) 1 \<le> ST s \<and> 4 * unat (OD 1 s) \<le> unat (ST s))"

lemma make_cframe_spec:
  assumes lay: "frame_layout s"
  defines "n \<equiv> unat (OD 1 s)" and "B \<equiv> padd (ST s) 7" and "s' \<equiv> make_cframe s"
  shows "BB s' = B" "GL s' = B" "ST s' = slot B n" "AF s' = slot B n" "TT s' = TT s - 4"
    "CF s' = CF s" "B0 s' = B0 s" "PP s' = PP s" "plt s' = plt s"
    "mem s' B = CF s" "mem s' (psub B 1) = CCP s" "mem s' (psub B 2) = TT s" "mem s' (psub B 3) = BB s"
    "mem s' (psub B 4) = B0 s" "mem s' (psub B 5) = OD 2 s" "mem s' (psub B 6) = GL s"
    "mem s' (TT s) = make_str B"
    "\<And>p. p \<le> ST s \<Longrightarrow> mem s' p = mem s p"
    "\<And>j. 0 < j \<Longrightarrow> j \<le> n \<Longrightarrow> mem s' (slot B j) = mem s (slot (psub (ST s) (OD 1 s)) j)"
proof -
  let ?S = "ST s"
  have tt: "unat (TT s) < 2 ^ 32" using unsigned_less [of "TT s", where ?'a = nat] by simp
  have bnd: "unat ?S + 28 + 4 * n < unat (TT s)" "unat (PP s) + 8 \<le> unat ?S" "psub (CF s) 1 \<le> ?S"
    "4 * n \<le> unat ?S"
    using lay by (simp_all add: frame_layout_def n_def)
  have us: "unat (slot ?S k) = unat ?S + 4 * k" if "k \<le> 7 + n" for k
    using that bnd(1) tt by (intro unat_slot) simp
  have B: "B = slot ?S 7" "B - 4 = slot ?S 6" "B - 8 = slot ?S 5" "B - 12 = slot ?S 4"
    "B - 16 = slot ?S 3" "B - 20 = slot ?S 2" "B - 24 = slot ?S 1"
    by (simp_all add: B_def slot_def)
  have uB: "unat B = unat ?S + 28" using us [of 7] by (simp add: B)
  have sB: "slot B j = slot ?S (7 + j)" for j by (simp add: B_def slot_def algebra_simps)
  have ne: "slot ?S k \<noteq> p" if "p \<le> ?S" "0 < k" "k \<le> 7" for k p
    using us [of k] that by (auto simp: word_le_nat_alt)
  have neTT: "slot ?S k \<noteq> TT s" if "k \<le> 7 + n" for k using us [OF that] bnd(1) that by auto
  have dist: "(slot ?S i = slot ?S j) = (i = j)" if "i \<le> 7" "j \<le> 7" for i j
    by (rule slot_inj) (use that bnd(1) tt in simp_all)
  have pp: "PP s + 4 \<le> ?S" "PP s + 8 \<le> ?S"
    using bnd(2) unat_add_lt [of "PP s" 4] unat_add_lt [of "PP s" 8] tt bnd(1)
    by (simp_all add: word_le_nat_alt)
  define s9 where "s9 = s\<lparr>BB := B, AF := psub ?S (OD 1 s), ST := B, GL := B,
      mem := (mem s)(B := CF s, B - 4 := CCP s, B - 8 := TT s, B - 12 := BB s,
        B - 16 := B0 s, B - 20 := OD 2 s, B - 24 := GL s, TT s := make_str B),
      TT := TT s - 4\<rparr>"
  have cc: "CF s - 4 \<le> ?S" using bnd(3) by simp
  have ne7: "p \<noteq> ?S + 28 \<and> p \<noteq> ?S + 24 \<and> p \<noteq> ?S + 20 \<and> p \<noteq> ?S + 16 \<and> p \<noteq> ?S + 12
      \<and> p \<noteq> ?S + 8 \<and> p \<noteq> ?S + 4" if "p \<le> ?S" for p
    using ne [OF that, of 7] ne [OF that, of 6] ne [OF that, of 5] ne [OF that, of 4]
      ne [OF that, of 3] ne [OF that, of 2] ne [OF that, of 1] by (auto simp: slot_def)
  have od: "OD 2 s = mem s (PP s + 8)" "OD 1 s = mem s (PP s + 4)" by (simp_all add: OD_def)
  have eq: "s' = (mirror_args n s9)\<lparr>AF := ST (mirror_args n s9)\<rparr>"
    using ne7 [OF pp(1)] ne7 [OF pp(2)] ne7 [OF cc]
    by (simp add: s'_def make_cframe_def Let_def s9_def n_def new_generation_def push_trail_def OD_def
        wr_def B_def)
  have on: "of_nat n = OD 1 s" by (simp add: n_def)
  have src: "slot (AF s9) j \<le> ST s9" if "0 < j" "j \<le> n" for j
  proof -
    have "slot (AF s9) j = entry ?S (n - j)"
      using slot_entry [OF that(2), of ?S] on by (simp add: s9_def)
    hence "unat (slot (AF s9) j) \<le> unat ?S" using unat_entry [of "n - j" ?S] bnd(4) by simp
    thus ?thesis using uB by (simp add: s9_def word_le_nat_alt)
  qed
  have room: "unat (ST s9) + 4 * n < 2 ^ 32" using bnd(1) tt uB by (simp add: s9_def)
  note ms = mirror_args_spec [of s9 n, OF room src]
  show "BB s' = B" "GL s' = B" "TT s' = TT s - 4" "CF s' = CF s" "B0 s' = B0 s" "PP s' = PP s" "plt s' = plt s"
    by (simp_all add: eq s9_def)
  have st9: "ST s9 = B" "AF s9 = psub ?S (OD 1 s)" by (simp_all add: s9_def)
  have ms: "ST (mirror_args n s9) = slot B n"
    "\<And>j. 0 < j \<Longrightarrow> j \<le> n \<Longrightarrow> mem (mirror_args n s9) (slot B j) = mem s9 (slot (psub ?S (OD 1 s)) j)"
    "\<And>p. unat p \<le> unat B \<or> unat B + 4 * n < unat p \<Longrightarrow> mem (mirror_args n s9) p = mem s9 p"
    using mirror_args_spec [of s9 n, OF room src] unfolding st9 by blast+
  show "ST s' = slot B n" "AF s' = slot B n" by (simp_all add: eq ms(1))
  have low: "mem s' p = mem s9 p" if "unat p \<le> unat B" for p using ms(3) that by (simp add: eq)
  have fr: "mem s' (slot ?S k) = mem s9 (slot ?S k)" if "k \<le> 7" for k
    using low us [of k] uB that by simp
  have "mem s9 = (mem s)(B := CF s, slot ?S 6 := CCP s, slot ?S 5 := TT s, slot ?S 4 := BB s,
      slot ?S 3 := B0 s, slot ?S 2 := OD 2 s, slot ?S 1 := GL s, TT s := make_str B)"
    by (simp add: s9_def B(2-7))
  hence mem9: "mem s9 = (mem s)(slot ?S 7 := CF s, slot ?S 6 := CCP s, slot ?S 5 := TT s,
      slot ?S 4 := BB s, slot ?S 3 := B0 s, slot ?S 2 := OD 2 s, slot ?S 1 := GL s, TT s := make_str B)"
    unfolding B(1) [symmetric] .
  have m9: "mem s9 (slot ?S 7) = CF s" "mem s9 (slot ?S 6) = CCP s" "mem s9 (slot ?S 5) = TT s"
    "mem s9 (slot ?S 4) = BB s" "mem s9 (slot ?S 3) = B0 s" "mem s9 (slot ?S 2) = OD 2 s"
    "mem s9 (slot ?S 1) = GL s"
    unfolding mem9 using dist neTT by simp_all
  show "mem s' B = CF s" "mem s' (psub B 1) = CCP s" "mem s' (psub B 2) = TT s" "mem s' (psub B 3) = BB s"
    "mem s' (psub B 4) = B0 s" "mem s' (psub B 5) = OD 2 s" "mem s' (psub B 6) = GL s"
    using fr [of 7] fr [of 6] fr [of 5] fr [of 4] fr [of 3] fr [of 2] fr [of 1] m9
    by (simp_all add: B(2-7)) (simp add: B(1))
  have "mem s' (TT s) = mem s9 (TT s)" using ms(3) [of "TT s"] uB bnd(1) by (simp add: eq)
  thus "mem s' (TT s) = make_str B" by (simp add: s9_def)
  have live: "mem s9 p = mem s p" if "p \<le> ?S" for p
  proof -
    have "p \<noteq> TT s" using that bnd(1) by (auto simp: word_le_nat_alt)
    thus ?thesis using ne [OF that, THEN not_sym] unfolding mem9 by simp
  qed
  show "mem s' p = mem s p" if "p \<le> ?S" for p
    using low live that uB by (simp add: word_le_nat_alt)
  show "mem s' (slot B j) = mem s (slot (psub ?S (OD 1 s)) j)" if "0 < j" "j \<le> n" for j
  proof -
    have "slot (psub ?S (OD 1 s)) j = entry ?S (n - j)"
      using slot_entry [OF that(2), of ?S] on by simp
    hence "slot (psub ?S (OD 1 s)) j \<le> ?S"
      using unat_entry [of "n - j" ?S] bnd(4) by (simp add: word_le_nat_alt)
    thus ?thesis using ms(2) [OF that] live by (simp add: eq)
  qed
qed


lemma try_make_cframe:
  assumes "i_try s = Control s1"
  shows "\<exists>a. s1 = (make_cframe (s\<lparr>AF := a\<rparr>))\<lparr>PP := padd (PP s) 3\<rparr>"
proof -
  have af: "s\<lparr>AF := AF s\<rparr> = s" by simp
  have pp: "PP (make_cframe t) = PP t" for t
    by (simp add: make_cframe_def Let_def new_generation_def push_trail_def)
  have "\<exists>a. t = s\<lparr>AF := a\<rparr>" if "search_gline (gen_root s) = Some t" for t
    using search_gline_frame [OF that] by (auto simp: gen_root_def)
  hence "s1 = (make_cframe s)\<lparr>PP := padd (PP s) 3\<rparr>
    \<or> (\<exists>a. s1 = (make_cframe (s\<lparr>AF := a\<rparr>))\<lparr>PP := padd (PP s) 3\<rparr>)"
    using assms by (fastforce simp: i_try_def with_opt_def next_op_def context_switch_def pp
        split: if_splits option.splits)
  thus ?thesis using af by metis
qed


lemma detrail_frame:
  assumes "detrail t = Some t0"
  shows "BB t0 = BB t \<and> PP t0 = PP t \<and> B0 t0 = B0 t \<and> CF t0 = CF t \<and> ST t0 = ST t \<and> GL t0 = GL t"
  using assms unfolding detrail_def
  by (rule while_option_rule [where P = "\<lambda>x. BB x = BB t \<and> PP x = PP t \<and> B0 x = B0 t \<and> CF x = CF t
        \<and> ST x = ST t \<and> GL x = GL t", rotated]) (auto simp: detrail_body_frame)

lemma frame_cells_above:
  assumes "frame_layout s" "k \<le> 6" "p \<le> ST s"
  shows "psub (padd (ST s) 7) (of_nat k) \<noteq> p"
proof -
  have "unat (ST s) + 28 < 2 ^ 32"
    using assms(1) unsigned_less [of "TT s", where ?'a = nat] by (simp add: frame_layout_def)
  hence "slot (ST s) (7 - k) \<noteq> p" using assms(2,3) by (intro slot_above) auto
  moreover have "slot (ST s) (7 - k) = psub (padd (ST s) 7) (of_nat k)"
    using assms(2) by (simp add: slot_def of_nat_diff algebra_simps)
  ultimately show ?thesis by simp
qed

text \<open>
  trust undoes try.  Once the trail is unwound, with the choice frame
  intact, trust gives the machine the stack top, the generation line, the
  previous choice frame, the continuation frame and the continuation address it
  had when try made the frame, and makes the last argument the active frame.
\<close>

lemma try_then_trust:
  assumes "i_try s = Control s1" "frame_layout s"
    and "BB t = BB s1" "detrail t = Some t0"
    and "\<forall>k\<in>{0..6}. mem t0 (psub (BB s1) (of_nat k)) = mem s1 (psub (BB s1) (of_nat k))"
  shows "\<exists>t1. i_trust t = Control t1 \<and> ST t1 = ST s \<and> AF t1 = ST s \<and> BB t1 = BB s \<and> GL t1 = GL s
    \<and> CF t1 = CF s \<and> mem t1 (psub (CF s) 1) = mem s (psub (CF s) 1) \<and> PP t1 = padd (PP t) 1"
proof -
  obtain a where s1: "s1 = (make_cframe (s\<lparr>AF := a\<rparr>))\<lparr>PP := padd (PP s) 3\<rparr>"
    using try_make_cframe [OF assms(1)] by blast
  have lay: "frame_layout (s\<lparr>AF := a\<rparr>)" using assms(2) by (simp add: frame_layout_def OD_def)
  let ?B = "padd (ST s) 7"
  note mc = make_cframe_spec [OF lay]
  have B: "BB s1 = ?B" using mc(1) by (simp add: s1)
  have t0: "BB t0 = ?B" "PP t0 = PP t" using detrail_frame [OF assms(4)] assms(3) B by simp_all
  have sl: "mem t0 (psub ?B (of_nat k)) = mem s1 (psub ?B (of_nat k))" if "k \<le> 6" for k
    using assms(5) that unfolding B by auto
  have fr: "mem t0 ?B = CF s" "mem t0 (psub ?B 1) = CCP s" "mem t0 (psub ?B 3) = BB s"
    "mem t0 (psub ?B 6) = GL s"
    using sl [of 0] sl [of 1] sl [of 3] sl [of 6] mc(10,11,13,16) by (simp_all add: s1)
  have cc: "psub (CF s) 1 \<le> ST s" using assms(2) by (simp add: frame_layout_def)
  have ne: "psub ?B 3 \<noteq> psub (CF s) 1" "psub ?B 6 \<noteq> psub (CF s) 1" "psub ?B 1 \<noteq> psub (CF s) 1"
    using frame_cells_above [OF assms(2) _ cc, of 3] frame_cells_above [OF assms(2) _ cc, of 6]
      frame_cells_above [OF assms(2) _ cc, of 1] by simp_all
  define r where "r = restore_continuation t0"
  have r: "CF r = CF s" "BB r = ?B" "PP r = PP t" "mem r (psub (CF s) 1) = CCP s"
    "mem r (psub ?B 3) = BB s" "mem r (psub ?B 6) = GL s"
    using fr t0 ne by (simp_all add: r_def restore_continuation_def Let_def)
  show ?thesis
    using assms(4) r by (simp add: i_trust_def Let_def next_op_def r_def [symmetric])
qed

text \<open>A call with the one argument 77 at 1000, tried with the alternative at 700.\<close>

definition demo_try :: vm where
  "demo_try = demo_vm\<lparr>mem := (\<lambda>_. 0)(196 := 555, 504 := 1, 508 := 700, 1000 := 77), PP := 500, CF := 200\<rparr>"

definition demo_tried :: vm where
  "demo_tried = demo_vm\<lparr>mem := (\<lambda>_. 0)(196 := 555, 504 := 1, 508 := 700, 1000 := 77, 1028 := 200,
     1024 := 555, 1020 := 100000, 1016 := 100, 1012 := 0, 1008 := 700, 1004 := 100, 100000 := 1030,
     1032 := 77), PP := 512, CF := 200, AF := 1032, ST := 1032, BB := 1028, GL := 1028, TT := 99996\<rparr>"

lemma demo_try_step: "i_try demo_try = Control demo_tried"
proof -
  have pd: "pdiff 100000 1000 = 24750" by (simp add: pdiff_def)
  show ?thesis
    by (simp add: i_try_def demo_try_def demo_tried_def demo_vm_def no_room_def pd word_sless_alt next_op_def
        make_cframe_def Let_def OD_def wr_def new_generation_def push_trail_def make_str_def
        tag_consts push_def fun_upd_twist)
qed

lemma demo_try_layout: "frame_layout demo_try"
  by (simp add: frame_layout_def demo_try_def demo_vm_def OD_def)

lemma demo_detrail: "detrail demo_tried = Some (demo_tried\<lparr>TT := 100000, GP := 1030\<rparr>)"
  unfolding detrail_def
  by (simp add: while_option_unfold demo_tried_def demo_vm_def detrail_body_def Let_def
      is_var_def tag_def tag_consts)

lemma try_then_trust_witness:
  "\<exists>t1. i_trust demo_tried = Control t1 \<and> ST t1 = 1000 \<and> BB t1 = 100 \<and> GL t1 = 100 \<and> CF t1 = 200"
  using try_then_trust [OF demo_try_step demo_try_layout refl demo_detrail]
  by (auto simp: demo_try_def demo_vm_def)

text \<open>
  Claim C4. retry gives the next clause the arguments of the call.  With the
  choice frame and the words below it as try left them, retry makes the frame's
  top the stack top and generation line again, records the new alternative in
  the frame, restores the continuation frame and copies the call's arguments
  above the frame.
\<close>

theorem try_then_retry:
  assumes "i_try s = Control s1" "frame_layout s"
    and "BB t = BB s1" "detrail t = Some t0"
    and "\<forall>k\<in>{0..6}. mem t0 (psub (BB s1) (of_nat k)) = mem s1 (psub (BB s1) (of_nat k))"
    and "\<forall>p. p \<le> ST s \<longrightarrow> mem t0 p = mem s p"
    and "OD 1 t0 = OD 1 s" "unat (PP t) + 8 \<le> unat (ST s)"
    and "unat (ST s) + 28 + 4 * unat (OD 1 s) < unat (TT t0)"
  shows "\<exists>t1. i_retry t = Control t1 \<and> BB t1 = BB s1 \<and> GL t1 = BB s1 \<and> CF t1 = CF s
    \<and> ST t1 = slot (BB s1) (unat (OD 1 s)) \<and> AF t1 = ST t1 \<and> mem t1 (psub (BB s1) 5) = OD 2 t0
    \<and> (\<forall>j. 0 < j \<longrightarrow> j \<le> unat (OD 1 s) \<longrightarrow>
          mem t1 (slot (BB s1) j) = mem s (slot (psub (ST s) (OD 1 s)) j))"
proof -
  obtain a where s1: "s1 = (make_cframe (s\<lparr>AF := a\<rparr>))\<lparr>PP := padd (PP s) 3\<rparr>"
    using try_make_cframe [OF assms(1)] by blast
  have lay: "frame_layout (s\<lparr>AF := a\<rparr>)" using assms(2) by (simp add: frame_layout_def OD_def)
  define n where "n = unat (OD 1 s)"
  define B where "B = padd (ST s) 7"
  have on: "of_nat n = OD 1 s" by (simp add: n_def)
  note mc = make_cframe_spec [OF lay]
  have BB: "BB s1 = B" using mc(1) by (simp add: s1 B_def)
  have t0: "BB t0 = B" "PP t0 = PP t" using detrail_frame [OF assms(4)] assms(3) BB by simp_all
  have sl: "mem t0 (psub B (of_nat k)) = mem s1 (psub B (of_nat k))" if "k \<le> 6" for k
    using assms(5) that unfolding BB by auto
  have fr: "mem t0 B = CF s" "mem t0 (psub B 1) = CCP s"
    using sl [of 0] sl [of 1] mc(10,11) by (simp_all add: s1 B_def)
  have cc: "psub (CF s) 1 \<le> ST s" and n4: "4 * n \<le> unat (ST s)"
    using assms(2) by (simp_all add: frame_layout_def n_def)
  have bnd: "unat (ST s) + 28 + 4 * n < unat (TT t0)" using assms(9) by (simp add: n_def)
  have tt: "unat (TT t0) < 2 ^ 32" using unsigned_less [of "TT t0", where ?'a = nat] by simp
  have uB: "unat B = unat (ST s) + 28"
    using unat_add_lt [of "ST s" 28] bnd tt by (simp add: B_def)
  have "mem t0 (psub (CF s) 1) = CCP s" using assms(6) cc by blast
  hence r: "restore_continuation t0 = t0\<lparr>CF := CF s\<rparr>"
    using fr t0 by (simp add: restore_continuation_def Let_def wr_def fun_upd_idem)
  have pp: "PP t + 4 \<le> ST s"
    using assms(8) unat_add_lt [of "PP t" 4] bnd tt by (simp add: word_le_nat_alt)
  have ne: "PP t + 4 \<noteq> psub B 5" "PP t + 4 \<noteq> TT t0"
    using frame_cells_above [OF assms(2) _ pp, of 5] pp bnd by (auto simp: B_def word_le_nat_alt)
  define s4 where "s4 = (t0\<lparr>CF := CF s, ST := B, GL := B,
      mem := (mem t0)(psub B 5 := OD 2 t0, TT t0 := make_str B), TT := TT t0 - 4,
      AF := psub (ST s) (OD 1 s)\<rparr>)"
  have od: "OD 2 (t0\<lparr>CF := CF s\<rparr>) = OD 2 t0" by (simp add: OD_def)
  have od1: "mem t0 (PP t + 4) = OD 1 s" using assms(7) t0 by (simp add: OD_def)
  have eq: "i_retry t = next_op 3 ((mirror_args n s4)\<lparr>AF := ST (mirror_args n s4)\<rparr>)"
    using assms(4) ne t0 od od1
    by (simp add: i_retry_def r Let_def new_generation_def push_trail_def wr_def s4_def n_def
        OD_def [of 1] B_def algebra_simps)
  have src: "slot (AF s4) j = entry (ST s) (n - j)" "slot (AF s4) j \<le> ST s" if "j \<le> n" for j
  proof -
    show e: "slot (AF s4) j = entry (ST s) (n - j)"
      using slot_entry [OF that, of "ST s"] on by (simp add: s4_def)
    show "slot (AF s4) j \<le> ST s"
      using unat_entry [of "n - j" "ST s"] n4 unfolding e by (simp add: word_le_nat_alt)
  qed
  have st4: "ST s4 = B" "AF s4 = psub (ST s) (OD 1 s)" by (simp_all add: s4_def)
  have room: "unat (ST s4) + 4 * n < 2 ^ 32" using uB bnd tt st4 by simp
  have le: "slot (AF s4) j \<le> ST s4" if "0 < j" "j \<le> n" for j
    using src(2) [OF that(2)] uB st4 by (simp add: word_le_nat_alt)
  have ms: "ST (mirror_args n s4) = slot B n"
    "\<And>j. 0 < j \<Longrightarrow> j \<le> n \<Longrightarrow> mem (mirror_args n s4) (slot B j) = mem s4 (slot (psub (ST s) (OD 1 s)) j)"
    "\<And>p. unat p \<le> unat B \<or> unat B + 4 * n < unat p \<Longrightarrow> mem (mirror_args n s4) p = mem s4 p"
    using mirror_args_spec [of s4 n, OF room le] unfolding st4 by blast+
  have live: "mem s4 p = mem s p" if "p \<le> ST s" for p
    using frame_cells_above [OF assms(2) _ that, of 5] assms(6) that bnd
    by (auto simp: s4_def B_def word_le_nat_alt)
  have args: "mem (mirror_args n s4) (slot B j) = mem s (slot (psub (ST s) (OD 1 s)) j)" if "0 < j" "j \<le> n" for j
    using ms(2) [OF that] live src(2) [OF that(2)] st4(2) by simp
  have "unat (psub B 5) = unat (ST s) + 8"
    using unat_add_lt [of "ST s" 8] bnd tt by (simp add: B_def add.commute)
  hence "mem (mirror_args n s4) (psub B 5) = OD 2 t0"
    using ms(3) [of "psub B 5"] uB bnd by (auto simp: s4_def)
  thus ?thesis using args ms(1) t0 unfolding eq next_op_def BB n_def [symmetric] by (auto simp: s4_def)
qed

theorem try_then_retry_witness:
  "\<exists>t1. i_retry (demo_tried\<lparr>PP := 500\<rparr>) = Control t1 \<and> ST t1 = 1032 \<and> mem t1 1032 = 77 \<and> mem t1 1008 = 700"
proof -
  have d: "detrail (demo_tried\<lparr>PP := 500\<rparr>) = Some (demo_tried\<lparr>PP := 500, TT := 100000, GP := 1030\<rparr>)"
    unfolding detrail_def
    by (simp add: while_option_unfold demo_tried_def demo_vm_def detrail_body_def Let_def
        is_var_def tag_def tag_consts)
  have bb: "BB (demo_tried\<lparr>PP := 500\<rparr>) = BB demo_tried" by simp
  have low: "\<forall>p. p \<le> ST demo_try \<longrightarrow> mem (demo_tried\<lparr>PP := 500, TT := 100000, GP := 1030\<rparr>) p = mem demo_try p"
    by (auto simp: demo_try_def demo_tried_def demo_vm_def)
  show ?thesis
    using try_then_retry [OF demo_try_step demo_try_layout bb d _ low]
    by (auto simp: demo_try_def demo_tried_def demo_vm_def OD_def slot_def)
qed

end
