(* ===== verification/MLVM_Instr_Correct.thy ===== *)
theory MLVM_Instr_Correct
  imports MLVM_Engine_Correct "HOL-Library.Multiset"
begin

text \<open>
  Properties of single instructions: dereferencing, instruction lengths, cuts,
  builtins, dispatching, the unifiable family, arithmetic and term comparison.
\<close>

section \<open>Dereferencing\<close>

lemma deref_word_reaches:
  assumes "deref_word m x = Some y"
  shows "(x, y) \<in> {(a, m a) | a. is_var a \<and> m a \<noteq> a}\<^sup>* \<and> \<not> (is_var y \<and> m y \<noteq> y)"
proof -
  have "(x, y) \<in> {(a, m a) | a. is_var a \<and> m a \<noteq> a}\<^sup>* \<and> \<not> (is_var y \<and> y \<noteq> m y)"
    by (rule while_option_invariant [OF assms [unfolded deref_word_def]])
       (auto intro: rtrancl.rtrancl_into_rtrancl)
  thus ?thesis by auto
qed

text \<open>
  Dereferencing ends exactly on the finite reference chains, and then
  yields the end of the chain: a term that is not a reference, or an unbound
  variable, reached by following references only.
\<close>

lemma deref_end_of_chain:
  "(deref p s \<noteq> None) = (\<exists>h. hops (mem s) (rd s p) h)
   \<and> (\<forall>y. deref p s = Some y \<longrightarrow>
        (rd s p, y) \<in> {(a, rd s a) | a. is_var a \<and> rd s a \<noteq> a}\<^sup>* \<and> \<not> (is_var y \<and> rd s y \<noteq> y))"
proof -
  have fwd: "\<exists>y. deref_word (mem s) x = Some y" if "hops (mem s) x h" for x h
    using that
  proof (induction rule: hops.induct)
    case (h_end x)
    thus ?case unfolding deref_word_def by (subst while_option_unfold) auto
  next
    case (h_link x h)
    thus ?case unfolding deref_word_def by (subst while_option_unfold) auto
  qed
  have bwd: "\<exists>h. hops (mem s) x h" if "\<forall>i<k. is_var ((mem s ^^ i) x) \<and> (mem s ^^ i) x \<noteq> mem s ((mem s ^^ i) x)"
    "\<not> (is_var ((mem s ^^ k) x) \<and> (mem s ^^ k) x \<noteq> mem s ((mem s ^^ k) x))" for k x
    using that
  proof (induction k arbitrary: x)
    case 0
    thus ?case using h_end [of x "mem s"] by auto
  next
    case (Suc k)
    have sh: "(mem s ^^ i) (mem s x) = (mem s ^^ Suc i) x" for i
      by (simp only: funpow_Suc_right o_apply)
    have "\<exists>h. hops (mem s) (mem s x) h"
    proof (rule Suc.IH)
      show "\<forall>i<k. is_var ((mem s ^^ i) (mem s x)) \<and> (mem s ^^ i) (mem s x) \<noteq> mem s ((mem s ^^ i) (mem s x))"
        unfolding sh using Suc.prems(1) by (metis Suc_less_eq)
      show "\<not> (is_var ((mem s ^^ k) (mem s x)) \<and> (mem s ^^ k) (mem s x) \<noteq> mem s ((mem s ^^ k) (mem s x)))"
        unfolding sh using Suc.prems(2) .
    qed
    moreover have "is_var x" "mem s x \<noteq> x" using Suc.prems(1) by (auto dest: spec [of _ 0])
    ultimately show ?case using h_link by blast
  qed
  have "(deref p s \<noteq> None) = (\<exists>h. hops (mem s) (rd s p) h)"
  proof
    assume "deref p s \<noteq> None"
    then obtain y where "deref_word (mem s) (rd s p) = Some y" by (auto simp: deref_def)
    from while_option_iterate [OF this [unfolded deref_word_def]]
    show "\<exists>h. hops (mem s) (rd s p) h" using bwd by blast
  qed (use fwd in \<open>auto simp: deref_def\<close>)
  thus ?thesis using deref_word_reaches by (auto simp: deref_def)
qed

text \<open>The two-link chain 8, 12, 16 ends at the atom in 16.\<close>

lemma deref_end_of_chain_witness:
  "deref 8 (demo_vm\<lparr>mem := (\<lambda>_. 0)(8 := 12, 12 := 16, 16 := 1607)\<rparr>) \<noteq> None"
proof -
  let ?m = "(\<lambda>_. 0 :: word32)(8 := 12, 12 := 16, 16 := 1607) :: store"
  have "hops ?m 1607 0" by (rule h_end) (simp add: demo_simps)
  hence "hops ?m 16 (Suc 0)" using h_link [of 16 ?m 0] by (simp add: demo_simps)
  hence "hops ?m 12 (Suc (Suc 0))" using h_link [of 12 ?m "Suc 0"] by (simp add: demo_simps)
  hence "\<exists>h. hops (mem (demo_vm\<lparr>mem := ?m\<rparr>)) (rd (demo_vm\<lparr>mem := ?m\<rparr>) 8) h" by auto
  thus ?thesis using deref_end_of_chain [of 8 "demo_vm\<lparr>mem := ?m\<rparr>"] by blast
qed

section \<open>Straight-line instructions\<close>

text \<open>
  The opcodes of the put and set instructions and of noop, deeplabel and
  deepcut: no branch, no test, no loop.
\<close>

definition straight_line :: "word32 set" where
  "straight_line = {LVM_NOOP, LVM_DEEPLABEL, LVM_DEEPCUT, LVM_PUTVOID, LVM_PUT2VOID, LVM_PUTVAR, LVM_PUT2VAR,
     LVM_PUT3VAR, LVM_PUT4VAR, LVM_PUTRVAL, LVM_PUTVAL, LVM_PUT2VAL, LVM_PUT3VAL, LVM_PUT4VAL, LVM_PUT5VAL,
     LVM_PUT6VAL, LVM_PUT7VAL, LVM_PUT8VAL, LVM_PUTCON, LVM_PUTINT, LVM_PUTLIST, LVM_PUTSTR, LVM_SETVAR,
     LVM_CSETVAR, LVM_SETCON, LVM_CSETCON, LVM_SETINT, LVM_CSETINT, LVM_SETVAL, LVM_CSETVAL, LVM_SETFLOAT,
     LVM_CSETFLOAT, LVM_SETLIST, LVM_CSETLIST, LVM_SETFUN, LVM_CSETFUN, LVM_SETSTR, LVM_CSETSTR}"

definition instr_length :: "word32 \<Rightarrow> nat" where
  "instr_length op = length (adjust_code (snd (snd (opcode_tab ! unat op))))"

lemma put_simps [simp]:
  "PP (put_void s) = PP s" "PP (put_var k s) = PP s" "PP (put_val k s) = PP s" "PP (put_vals n s) = PP s"
  "PP (set_at g v s) = PP s" "PP (set_float g k s) = PP s"
  by (induction n) (simp_all add: put_void_def put_var_def put_val_def set_at_def set_float_def box_float_def
      trail_def push_trail_def Let_def)

lemma put_frame [simp]:
  "BB (put_void s) = BB s" "BB (put_var k s) = BB s" "BB (put_val k s) = BB s" "BB (put_vals n s) = BB s"
  "BB (set_at g v s) = BB s" "BB (set_float g k s) = BB s"
  "BT (put_void s) = BT s" "BT (put_var k s) = BT s" "BT (put_val k s) = BT s" "BT (put_vals n s) = BT s"
  "BT (set_at g v s) = BT s" "BT (set_float g k s) = BT s"
  by (induction n) (simp_all add: put_void_def put_var_def put_val_def set_at_def set_float_def box_float_def
      trail_def push_trail_def Let_def)

lemma instr_lengths:
  "instr_length LVM_NOOP = 1"
  "instr_length LVM_DEEPLABEL = 2"
  "instr_length LVM_DEEPCUT = 2"
  "instr_length LVM_PUTVOID = 1"
  "instr_length LVM_PUT2VOID = 1"
  "instr_length LVM_PUTVAR = 2"
  "instr_length LVM_PUT2VAR = 3"
  "instr_length LVM_PUT3VAR = 4"
  "instr_length LVM_PUT4VAR = 5"
  "instr_length LVM_PUTRVAL = 2"
  "instr_length LVM_PUTVAL = 2"
  "instr_length LVM_PUT2VAL = 3"
  "instr_length LVM_PUT3VAL = 4"
  "instr_length LVM_PUT4VAL = 5"
  "instr_length LVM_PUT5VAL = 6"
  "instr_length LVM_PUT6VAL = 7"
  "instr_length LVM_PUT7VAL = 8"
  "instr_length LVM_PUT8VAL = 9"
  "instr_length LVM_PUTCON = 2"
  "instr_length LVM_PUTINT = 2"
  "instr_length LVM_PUTLIST = 2"
  "instr_length LVM_PUTSTR = 2"
  "instr_length LVM_SETVAR = 2"
  "instr_length LVM_CSETVAR = 1"
  "instr_length LVM_SETCON = 3"
  "instr_length LVM_CSETCON = 2"
  "instr_length LVM_SETINT = 3"
  "instr_length LVM_CSETINT = 2"
  "instr_length LVM_SETVAL = 3"
  "instr_length LVM_CSETVAL = 2"
  "instr_length LVM_SETFLOAT = 4"
  "instr_length LVM_CSETFLOAT = 3"
  "instr_length LVM_SETLIST = 3"
  "instr_length LVM_CSETLIST = 2"
  "instr_length LVM_SETFUN = 3"
  "instr_length LVM_CSETFUN = 2"
  "instr_length LVM_SETSTR = 3"
  "instr_length LVM_CSETSTR = 2"
  by code_simp+

lemmas straight_defs =
  i_noop_def i_deeplabel_def i_deepcut_def i_putvoid_def i_put2void_def i_putvar_def
  i_put2var_def i_put3var_def i_put4var_def i_putrval_def i_putval_def i_put2val_def
  i_put3val_def i_put4val_def i_put5val_def i_put6val_def i_put7val_def i_put8val_def
  i_putcon_def i_putlist_def i_putstr_def i_setvar_def i_csetvar_def i_setcon_def i_csetcon_def
  i_setval_def i_csetval_def i_setfloat_def i_csetfloat_def i_setlist_def i_csetlist_def
  i_setfun_def i_csetfun_def i_setstr_def i_csetstr_def

text \<open>
  The engine and the code walkers agree on instruction lengths: each
  put, set, noop, deeplabel and deepcut instruction continues with the word that
  follows the operands adjust_code walks over for that opcode.
\<close>

lemma straight_line_length:
  assumes "rd s (PP s) \<in> straight_line"
  shows "\<exists>s'. engine_step B D s = Control s' \<and> PP s' = padd (PP s) (of_nat (instr_length (rd s (PP s))))"
proof -
  have "rd s (PP s) = op \<Longrightarrow> op \<in> straight_line \<Longrightarrow>
      (\<exists>s'. engine_step B D s = Control s' \<and> PP s' = padd (PP s) (of_nat (instr_length op)))" for op
    unfolding straight_line_def insert_iff empty_iff
    by (elim disjE; (simp only: instr_lengths; simp add: engine_step_def lvm_ops straight_defs next_op_def Let_def)?)
  thus ?thesis using assms by simp
qed

lemma straight_line_length_witness:
  "\<exists>s'. engine_step (\<lambda>_. None) demo_ops (demo_vm\<lparr>mem := demo_mem(500 := 51), PP := 500\<rparr>) = Control s'
     \<and> PP s' = 512"
proof -
  have op: "rd (demo_vm\<lparr>mem := demo_mem(500 := 51), PP := 500\<rparr>) 500 = LVM_SETFUN" by (simp add: lvm_ops)
  have "LVM_SETFUN \<in> straight_line" by (simp add: straight_line_def)
  thus ?thesis
    using straight_line_length [of "demo_vm\<lparr>mem := demo_mem(500 := 51), PP := 500\<rparr>" "\<lambda>_. None" demo_ops] op
    by (simp add: instr_lengths)
qed

section \<open>Backtracking and builtins\<close>

lemma authorized_saved:
  "authorized (ip\<lparr>i_tt := a, i_st := b, i_bb := c, i_gl := d\<rparr>) l = authorized ip l"
  by (simp add: authorized_def is_stationary_def is_worker_def is_messenger_def is_sysmsger_def)

text \<open>
  A builtin that fails does not yield.  The code sets the backtrack
  allowance to 0 before backtracking, to force a yield that releases the lock of
  the control block, but the test of the allowance is for a negative value: with
  a choice frame left the engine goes on in the same time slice and only the
  next failure yields.
\<close>

lemma failing_builtin_does_not_yield:
  assumes "B (OD 1 s) = Some b" "authorized (plt s) (legal b)"
    and "bf b ((plt s)\<lparr>i_tt := TT s, i_st := ST s, i_bb := BB s, i_gl := GL s\<rparr>, mem s) = (p, m)"
    and "status p = IMAGO_BACKTRACK" "stack_base p < BB s"
  shows "i_builtin B s = Control (s\<lparr>mem := m, plt := p\<lparr>status := IMAGO_READY\<rparr>, BT := - 1,
           B0 := m (psub (BB s) 4), PP := m (psub (BB s) 5)\<rparr>)"
proof -
  have "\<not> BB s \<le> stack_base p" using assms(5) by simp
  thus ?thesis using assms(1-4)
    by (simp add: i_builtin_def Let_def OD_def authorized_saved backtrack_def)
qed

lemma failing_builtin_does_not_yield_witness:
  "\<exists>s'. i_builtin (\<lambda>_. Some \<lparr>legal = 255, bf = \<lambda>(p, m). (p\<lparr>status := IMAGO_BACKTRACK\<rparr>, m)\<rparr>) demo_vm = Control s'
     \<and> BT s' = - 1"
proof -
  let ?b = "\<lparr>legal = 255, bf = \<lambda>(p, m). (p\<lparr>status := IMAGO_BACKTRACK\<rparr>, m)\<rparr>"
  show ?thesis
    using failing_builtin_does_not_yield [of "\<lambda>_. Some ?b" demo_vm ?b
        "(plt demo_vm)\<lparr>i_tt := TT demo_vm, i_st := ST demo_vm, i_bb := BB demo_vm, i_gl := GL demo_vm,
           status := IMAGO_BACKTRACK\<rparr>" "mem demo_vm"]
    by (simp add: demo_vm_def demo_icb_def authorized_def is_stationary_def)
qed

text \<open>The kinds of imago a builtin with given legal bits may be called by.\<close>

fun may_call :: "imago_type \<Rightarrow> word32 \<Rightarrow> bool" where
  "may_call STATIONARY l = bit l 0"
| "may_call WORKER l = bit l 1"
| "may_call MESSENGER l = bit l 2"
| "may_call SYS_MSGER l = (bit l 2 \<or> bit l 3)"

lemma authorized_may_call: "authorized ip l = may_call (itype ip) l"
proof -
  have "(l AND 1 \<noteq> 0) = bit l 0" "(l AND 2 \<noteq> 0) = bit l 1" "(l AND 4 \<noteq> 0) = bit l 2"
    "(l AND 8 \<noteq> 0) = bit l 3"
    using and_exp_eq_0_iff_not_bit [of l 0] and_exp_eq_0_iff_not_bit [of l 1]
      and_exp_eq_0_iff_not_bit [of l 2] and_exp_eq_0_iff_not_bit [of l 3] by simp_all
  thus ?thesis
    by (cases "itype ip")
       (auto simp: authorized_def is_stationary_def is_worker_def is_messenger_def is_sysmsger_def)
qed

text \<open>
  Claim C40. Authorization: an imago may call a builtin exactly when the bit of
  its kind is set (a system messenger may also use what a messenger may).  A
  builtin it may call runs as if every bit were set; one it may not call is not
  run, and the imago is switched out with E_ILLEGAL_BUILTIN, an unchanged store
  and the same pp.
\<close>

theorem builtin_authorization:
  assumes "B (OD 1 s) = Some b"
  shows "if may_call (itype (plt s)) (legal b)
         then i_builtin B s = i_builtin (\<lambda>_. Some (b\<lparr>legal := - 1\<rparr>)) s
         else (\<exists>s'. i_builtin B s = Return s' \<and> mem s' = mem s \<and> status (plt s') = IMAGO_ERROR
                 \<and> i_nl (plt s') = ecode E_ILLEGAL_BUILTIN \<and> i_pp (plt s') = PP s)"
proof -
  have all: "may_call k (- 1)" for k by (cases k) simp_all
  show ?thesis
    using assms all [of "itype (plt s)"]
    by (auto simp: i_builtin_def Let_def OD_def authorized_may_call context_switch_def save_registers_def)
qed

theorem builtin_authorization_witness:
  "\<exists>s'. i_builtin (\<lambda>_. Some \<lparr>legal = 6, bf = id\<rparr>) demo_vm = Return s' \<and> status (plt s') = IMAGO_ERROR"
  using builtin_authorization [of "\<lambda>_. Some \<lparr>legal = 6, bf = id\<rparr>" demo_vm "\<lparr>legal = 6, bf = id\<rparr>"]
  by (auto simp: demo_vm_def demo_icb_def)

section \<open>Hash dispatching\<close>

text \<open>
  Hash dispatching never selects on a constant.  The instruction
  compares the two-bit tag of the key with the three-bit tag of atoms, which no
  two-bit tag equals: for every atom and integer, also one that is a key of the
  table, hashing switches the imago out with E_UNKNOWN_TYPE.
\<close>

lemma hashing_rejects_constants:
  assumes "deref (cell (OD 1 s) s) s = Some t" "is_cst t"
  shows "\<exists>s'. i_hashing s = Return s' \<and> status (plt s') = IMAGO_ERROR
           \<and> i_nl (plt s') = ecode E_UNKNOWN_TYPE"
  using assms
  by (auto simp: i_hashing_def with_deref_def do_hash_def Let_def is_cst_def tag_consts type_error_def
      context_switch_def save_registers_def)

lemma hashing_rejects_constants_witness:
  "\<exists>s'. i_hashing (demo_vm\<lparr>mem := (\<lambda>_. 0)(504 := 0, 508 := 600, 2000 := 1607, 604 := 1, 612 := 1607, 616 := 700),
          PP := 500, AF := 2000\<rparr>) = Return s' \<and> i_nl (plt s') = 19"
proof -
  let ?s = "demo_vm\<lparr>mem := (\<lambda>_. 0)(504 := 0, 508 := 600, 2000 := 1607, 604 := 1, 612 := 1607, 616 := 700),
          PP := 500, AF := 2000\<rparr>"
  have "deref (cell (OD 1 ?s) ?s) ?s = Some 1607" "is_cst 1607"
    by (simp_all add: deref_def deref_word_def OD_def cell_def while_option_unfold demo_simps)
  from hashing_rejects_constants [OF this] show ?thesis by auto
qed

end
