(* ===== verification/MLVM_Timeslice.thy ===== *)
theory MLVM_Timeslice
  imports MLVM_Engine_Correct
begin

text \<open>
  The time slice of an imago: the dispatch loop as a step relation between the
  states at the label CONTROL, and the bound the backtrack allowance puts on the
  failures of one slice.
\<close>

section \<open>Reachable states of a slice\<close>

text \<open>slice B D s n t: t is reached from s in one slice, n of its steps using allowance up.\<close>

inductive slice ::
  "(word32 \<Rightarrow> builtin_rec option) \<Rightarrow> double_ops \<Rightarrow> vm \<Rightarrow> nat \<Rightarrow> vm \<Rightarrow> bool" for B D where
  slice_refl: "slice B D s 0 s"
| slice_step: "slice B D s n t \<Longrightarrow> engine_step B D t = Control u \<Longrightarrow>
    slice B D s (if BT u = BT t then n else Suc n) u"

inductive_cases slice_cases: "slice B D s n t"

text \<open>An instruction keeps the allowance, uses one failure up, or is a failing builtin.\<close>

definition bt_ok :: "vm \<Rightarrow> vm \<Rightarrow> bool" where
  "bt_ok s s' = (BT s' = BT s \<or> (\<not> BT s <s 0 \<and> BT s' = BT s - 1) \<or> BT s' = - 1)"

definition keeps :: "vm \<Rightarrow> outcome \<Rightarrow> bool" where
  "keeps s r = (\<forall>s'. r = Control s' \<longrightarrow> bt_ok s s')"

lemma keeps_simps [simp]:
  "BT t = BT s \<Longrightarrow> keeps s (next_op n t)"
  "BT t = BT s \<Longrightarrow> keeps s (jump l t)"
  "keeps s (context_switch st e t)"
  "keeps s (type_error t)"
  "BT t = BT s \<Longrightarrow> keeps s (backtrack t)"
  "BT t = 0 \<Longrightarrow> keeps s (backtrack t)"
  "keeps s Undef" "keeps s (Return t)" "keeps s Diverge"
  "BT t = BT s \<Longrightarrow> keeps s (Control t)"
  by (auto simp: keeps_def bt_ok_def next_op_def jump_def context_switch_def type_error_def backtrack_def
      Let_def split: if_splits)

lemma keeps_with_opt [simp]:
  "keeps s (with_opt r k) = (\<forall>x. r = Some x \<longrightarrow> keeps s (k x))"
  by (auto simp: keeps_def with_opt_def split: option.splits)

lemma keeps_branches [simp]:
  "keeps s (with_deref p t k) = (\<forall>x. deref p t = Some x \<longrightarrow> keeps s (k x))"
  "keeps s (if c then a else b) = ((c \<longrightarrow> keeps s a) \<and> (\<not> c \<longrightarrow> keeps s b))"
  "keeps s (let v = e in kk v) = keeps s (kk e)"
  by (auto simp: keeps_def with_deref_def with_opt_def split: option.splits)

lemma regs_bt [simp]:
  "BT (wr p x s) = BT s" "BT (push x s) = BT s"
  by (simp_all add: wr_def push_def Let_def)

text \<open>The loops and helpers that run on registers leave the allowance alone.\<close>

lemma helpers_bt [simp]:
  "BT (push_trail x s) = BT s" "BT (trail x s) = BT s" "BT (bbtrail x s) = BT s" "BT (new_generation s) = BT s"
  "BT (new_gen_if_full s) = BT s" "BT (make_aframe s) = BT s" "BT (make_dframe s) = BT s"
  "BT (make_cframe s) = BT s" "BT (gen_root s) = BT s" "BT (restore_continuation s) = BT s"
  "BT (box_float k s) = BT s" "BT (set_float g k s) = BT s" "BT (set_at g v s) = BT s"
  "BT (put_void s) = BT s" "BT (put_var k s) = BT s" "BT (put_val k s) = BT s" "BT (copy_pair b x s) = BT s"
  "BT (detrail_body s) = BT s"
  by (simp_all add: push_trail_def trail_def bbtrail_def new_generation_def new_gen_if_full_def
      make_aframe_def make_dframe_def make_cframe_def gen_root_def restore_continuation_def box_float_def
      set_float_def set_at_def put_void_def put_var_def put_val_def copy_pair_def detrail_body_def Let_def)

lemma store_float_bt [simp]: "BT (store_float c f s) = BT s"
  by (simp add: store_float_def split: prod.splits)

lemma put_vals_bt [simp]: "BT (put_vals n s) = BT s"
  by (induction n) simp_all

lemma copy_words_bt [simp]: "BT (copy_words n d a s) = BT s"
  by (induction n arbitrary: d a s) simp_all

lemma loops_bt:
  "search_gline s = Some t \<Longrightarrow> BT t = BT s" "detrail s = Some t \<Longrightarrow> BT t = BT s"
  "filter_trail s = Some t \<Longrightarrow> BT t = BT s" "clear_trail s = Some t \<Longrightarrow> BT t = BT s"
  unfolding search_gline_def detrail_def filter_trail_def clear_trail_def
  by (erule while_option_rule [where P = "\<lambda>t. BT t = BT s", rotated]; simp add: Let_def)+

lemma mirror_args_bt [simp]: "BT (mirror_args n s) = BT s"
  by (induction n arbitrary: s) (simp_all add: mirror_args_def Let_def)

lemma do_unify_keeps [simp]: "BT t = BT s \<Longrightarrow> keeps s (do_unify ax bx t)"
  unfolding do_unify_def by simp

lemma control_keeps [simp]:
  "keeps s (i_noop s)" "keeps s (i_alloa s)" "keeps s (i_allod s)" "keeps s (i_call s)" "keeps s (i_lastcall s)"
  "keeps s (i_chaincall s)" "keeps s (i_proceed s)" "keeps s (i_return s)" "keeps s (i_try s)"
  "keeps s (i_retry s)" "keeps s (i_trust s)" "keeps s (i_neckcut s)" "keeps s (i_deeplabel s)"
  "keeps s (i_deepcut s)" "keeps s (i_fail s)" "keeps s (i_finish s)" "keeps s (i_jump s)"
  "keeps s (i_branch s)" "keeps s (i_stationary s)" "keeps s (i_worker s)"
  by (simp_all add: i_noop_def i_alloa_def i_allod_def i_call_def i_lastcall_def i_chaincall_def i_proceed_def
      i_return_def i_try_def i_retry_def i_trust_def i_neckcut_def i_deeplabel_def i_deepcut_def i_fail_def
      i_finish_def i_jump_def i_branch_def i_stationary_def i_worker_def loops_bt Let_def)

lemma get_arg_keeps [simp]:
  "keeps s (get_arg g s k) = (\<forall>x. deref_word (mem s) (rd s g) = Some x \<longrightarrow> keeps s (k x (s\<lparr>GP := g\<rparr>)))"
  by (simp add: get_arg_def)

lemma put_set_get_keeps [simp]:
  "keeps s (i_putvoid s)" "keeps s (i_put2void s)" "keeps s (i_putvar s)" "keeps s (i_put2var s)"
  "keeps s (i_put3var s)" "keeps s (i_put4var s)" "keeps s (i_putrval s)" "keeps s (i_putval s)"
  "keeps s (i_put2val s)" "keeps s (i_put3val s)" "keeps s (i_put4val s)" "keeps s (i_put5val s)"
  "keeps s (i_put6val s)" "keeps s (i_put7val s)" "keeps s (i_put8val s)" "keeps s (i_putcon s)"
  "keeps s (i_putlist s)" "keeps s (i_putstr s)" "keeps s (i_setvar s)" "keeps s (i_csetvar s)"
  "keeps s (i_setcon s)" "keeps s (i_csetcon s)" "keeps s (i_setval s)" "keeps s (i_csetval s)"
  "keeps s (i_setfloat s)" "keeps s (i_csetfloat s)" "keeps s (i_setlist s)" "keeps s (i_csetlist s)"
  "keeps s (i_setfun s)" "keeps s (i_csetfun s)" "keeps s (i_setstr s)" "keeps s (i_csetstr s)"
  "keeps s (i_getcon s)" "keeps s (i_cgetcon s)" "keeps s (i_getval s)" "keeps s (i_cgetval s)"
  "keeps s (i_getfloat s)" "keeps s (i_cgetfloat s)" "keeps s (i_getlist s)" "keeps s (i_cgetlist s)"
  "keeps s (i_getvlist s)" "keeps s (i_cgetvlist s)" "keeps s (i_getstr s)" "keeps s (i_cgetstr s)"
  by (simp_all add: Let_def get_con_def get_float_def get_list_def get_vlist_def get_str_def
      i_putvoid_def i_put2void_def i_putvar_def i_put2var_def i_put3var_def i_put4var_def i_putrval_def
      i_putval_def i_put2val_def i_put3val_def i_put4val_def i_put5val_def i_put6val_def i_put7val_def
      i_put8val_def i_putcon_def i_putlist_def i_putstr_def i_setvar_def i_csetvar_def i_setcon_def
      i_csetcon_def i_setval_def i_csetval_def i_setfloat_def i_csetfloat_def i_setlist_def i_csetlist_def
      i_setfun_def i_csetfun_def i_setstr_def i_csetstr_def i_getcon_def i_cgetcon_def i_getval_def
      i_cgetval_def i_getfloat_def i_cgetfloat_def i_getlist_def i_cgetlist_def i_getvlist_def
      i_cgetvlist_def i_getstr_def i_cgetstr_def)

lemma store_int_keeps [simp]: "keeps s (store_int c r s)"
  by (simp add: store_int_def split: option.splits)

lemma arith_keeps [simp]:
  "keeps s (i_add D s)" "keeps s (i_sub D s)" "keeps s (i_mul D s)" "keeps s (i_div D s)"
  "keeps s (i_minus D s)" "keeps s (i_mod s)" "keeps s (i_inc s)" "keeps s (i_dec s)" "keeps s (i_is s)"
  "keeps s (i_and s)" "keeps s (i_or s)" "keeps s (i_eor s)" "keeps s (i_rshift s)"
  "keeps s (i_lshift s)" "keeps s (i_isatom s)" "keeps s (i_isatomic s)" "keeps s (i_isfloat s)"
  "keeps s (i_isinteger s)" "keeps s (i_isnumber s)" "keeps s (i_isnonvar s)" "keeps s (i_isvar s)"
  "keeps s (i_islist s)" "keeps s (i_isstr s)" "keeps s (i_iscompound s)" "keeps s (i_isground s)"
  "keeps s (i_isnil s)" "keeps s (i_lastnil s)" "keeps s (i_iszero s)" "keeps s (i_lastzero s)"
  "keeps s (i_switch s)" "keeps s (i_lastswitch s)" "keeps s (i_hashing s)" "keeps s (i_lasthashing s)"
  "keeps s (i_ifeq D s)" "keeps s (i_ifne D s)" "keeps s (i_iflt D s)" "keeps s (i_ifle D s)"
  "keeps s (i_ifgt D s)" "keeps s (i_ifge D s)" "keeps s (i_aricmp D s)" "keeps s (i_ifeq0 s)"
  "keeps s (i_ifne0 s)" "keeps s (i_iflt0 s)" "keeps s (i_ifle0 s)" "keeps s (i_ifgt0 s)"
  "keeps s (i_ifge0 s)"
  by (simp_all add: Let_def ari_cpu_def int_cpu_def int_one_def i_test_def i_last_test_def ari_cmp_def
      do_hash_def hash_search_def
      i_add_def i_sub_def i_mul_def i_div_def i_minus_def i_mod_def i_inc_def i_dec_def i_is_def i_and_def
      i_or_def i_eor_def i_rshift_def i_lshift_def i_isatom_def i_isatomic_def i_isfloat_def i_isinteger_def
      i_isnumber_def i_isnonvar_def i_isvar_def i_islist_def i_isstr_def i_iscompound_def i_isground_def
      i_isnil_def i_lastnil_def i_iszero_def i_lastzero_def i_switch_def i_lastswitch_def i_hashing_def
      i_lasthashing_def i_ifeq_def i_ifne_def i_iflt_def i_ifle_def i_ifgt_def i_ifge_def i_aricmp_def
      i_ifeq0_def i_ifne0_def i_iflt0_def i_ifle0_def i_ifgt0_def i_ifge0_def)

lemma compare_keeps [simp]:
  "keeps s (i_identical D s)" "keeps s (i_nonidentical D s)" "keeps s (i_precede D s)"
  "keeps s (i_preidentical D s)" "keeps s (i_follow D s)" "keeps s (i_floidentical D s)"
  "keeps s (i_termcompare D s)"
  by (simp_all add: cmp_branch_def with_compare_def
      i_identical_def i_nonidentical_def i_precede_def i_preidentical_def i_follow_def i_floidentical_def
      i_termcompare_def)

lemma builtin_keeps [simp]: "keeps s (i_builtin B s)"
  by (simp add: i_builtin_def Let_def split: option.splits prod.splits)

lemma unifiable_keeps [simp]: "keeps s (i_unifiable s)"
  by (simp add: i_unifiable_def Let_def loops_bt)

lemma engine_step_keeps: "keeps s (engine_step B D s)"
  by (simp add: engine_step_def Let_def)

section \<open>The budget\<close>

text \<open>Every step of a slice is such an instruction, and the bound is preserved by all of them.\<close>

lemma step_bt: "engine_step B D t = Control u \<Longrightarrow> bt_ok t u"
  using engine_step_keeps [of t B D] by (simp add: keeps_def)

lemma bt_ok_bounds:
  assumes "bt_ok t u" "- 1 \<le> sint (BT t)"
  shows "- 1 \<le> sint (BT u)" "sint (BT u) \<le> sint (BT t)" "BT u \<noteq> BT t \<Longrightarrow> sint (BT u) < sint (BT t)"
proof -
  have dec: "sint (BT t - 1) = sint (BT t) - 1" if "\<not> BT t <s 0"
  proof -
    have "0 \<le> sint (BT t)" using that by (simp add: word_sless_alt)
    moreover have "sint (BT t) < 2 ^ 31" using sint_lt [of "BT t"] by simp
    ultimately show ?thesis
      by (simp add: sint_word_ariths signed_take_bit_int_eq_self)
  qed
  have one: "sint (- 1 :: word32) = - 1" by simp
  have ne: "BT u = - 1 \<Longrightarrow> BT u \<noteq> BT t \<Longrightarrow> - 1 < sint (BT t)"
    using assms(2) one by (metis order_le_imp_less_or_eq signed_word_eqI)
  show "- 1 \<le> sint (BT u)" "sint (BT u) \<le> sint (BT t)"
    using assms dec one by (auto simp: bt_ok_def word_sless_alt)
  show "BT u \<noteq> BT t \<Longrightarrow> sint (BT u) < sint (BT t)"
    using assms dec one ne by (auto simp: bt_ok_def word_sless_alt)
qed

lemma slice_budget:
  "slice B D s n t \<Longrightarrow> - 1 \<le> sint (BT s) \<Longrightarrow>
     - 1 \<le> sint (BT t) \<and> int n + sint (BT t) \<le> sint (BT s)"
proof (induction rule: slice.induct)
  case (slice_step s n t u)
  then show ?case using bt_ok_bounds [OF step_bt [OF slice_step(2)]] by force
qed simp

lemma entry_allowance: "engine_entry ip m = Control s \<Longrightarrow> - 1 \<le> sint (BT s) \<and> sint (BT s) \<le> 50000"
  by (auto simp: engine_entry_def load_registers_def backtrack_def context_switch_def Let_def
      split: if_splits)

text \<open>
  Claim C32.  The backtrack allowance bounds a time slice.  In every state a
  slice reaches from the entry of engine, by any instructions, builtins and
  double operations, bt lies between -1 and BACKTRACK_LIMIT, and at most
  BACKTRACK_LIMIT + 1 of the steps taken used allowance up; the next failure
  after bt has reached -1 yields (backtrack of engine.c).
\<close>

theorem backtrack_budget:
  assumes "engine_entry ip m = Control s" "slice B D s n t"
  shows "- 1 \<le> sint (BT t) \<and> sint (BT t) \<le> 50000 \<and> n \<le> 50001
    \<and> (BT t = - 1 \<and> stack_base (plt t) < BB t \<longrightarrow>
         (\<exists>r. i_fail t = Return r \<and> status (plt r) = IMAGO_READY \<and> i_pp (plt r) = BBP t))"
proof -
  have "- 1 \<le> sint (BT t) \<and> int n + sint (BT t) \<le> 50000"
    using slice_budget [OF assms(2)] entry_allowance [OF assms(1)] by force
  moreover have "BT t = - 1 \<Longrightarrow> stack_base (plt t) < BB t \<Longrightarrow>
      \<exists>r. i_fail t = Return r \<and> status (plt r) = IMAGO_READY \<and> i_pp (plt r) = BBP t"
    by (auto simp: i_fail_def backtrack_def context_switch_def save_registers_def Let_def word_sless_alt)
  ultimately show ?thesis by auto
qed

text \<open>A slice that a failing builtin brings to its last failure.\<close>

definition budget_icb :: icb where "budget_icb = demo_icb\<lparr>i_pp := 500, i_bb := 100\<rparr>"

definition failing_table :: "word32 \<Rightarrow> builtin_rec option" where
  "failing_table = (\<lambda>_. Some \<lparr>legal = 255, bf = \<lambda>(p, m). (p\<lparr>status := IMAGO_BACKTRACK\<rparr>, m)\<rparr>)"

theorem backtrack_budget_witness:
  "\<exists>t r. slice failing_table demo_ops (load_registers budget_icb ((\<lambda>_. 0)(500 := LVM_BUILTIN))) 1 t
     \<and> BT t = - 1 \<and> sint (BT t) \<le> 50000
     \<and> i_fail t = Return r \<and> status (plt r) = IMAGO_READY"
proof -
  let ?m = "(\<lambda>_. 0)(500 := LVM_BUILTIN) :: store"
  let ?s = "load_registers budget_icb ?m"
  have e: "engine_entry budget_icb ?m = Control ?s"
    by (simp add: engine_entry_def budget_icb_def demo_icb_def)
  have op: "rd ?s (PP ?s) = LVM_BUILTIN" by (simp add: load_registers_def budget_icb_def)
  obtain u where u: "engine_step failing_table demo_ops ?s = Control u" "BT u = - 1" "BB u = 100"
      "stack_base (plt u) = 0" "BT ?s = 50000"
    unfolding engine_step_def op
    by (simp add: lvm_ops i_builtin_def failing_table_def authorized_def backtrack_def Let_def
        load_registers_def budget_icb_def demo_icb_def is_stationary_def OD_def)
  have "slice failing_table demo_ops ?s (if BT u = BT ?s then 0 else Suc 0) u"
    by (rule slice_step [OF slice_refl u(1)])
  hence sl: "slice failing_table demo_ops ?s 1 u" using u by simp
  show ?thesis using backtrack_budget [OF e sl] sl u by auto
qed

end
