(* ===== verification/MLVM_Queue.thy ===== *)
theory MLVM_Queue
  imports MLVM_Prelude
begin

text \<open>
  The intrusive pointer queues: the ICB and log queues of system/queue.c and the
  link queues of transport/queue.c.  A node's next field lives in a link heap
  shared by all queues; a queue is the pair of its head and tail.  The locale
  link_queue states what a client relies on, and both implementations provide it.
\<close>

section \<open>ICB queues (system/queue.c)\<close>

type_synonym links = "addr \<Rightarrow> addr"

abbreviation NULL :: addr where "NULL \<equiv> 0"

record icb_queue =
  q_head :: addr
  q_tail :: addr

definition que_empty :: "icb_queue \<Rightarrow> bool" where "que_empty q = (q_head q = NULL)"

definition icb_first :: "links \<times> icb_queue \<Rightarrow> addr \<times> links \<times> icb_queue" where
  "icb_first = (\<lambda>(nx, q).
     let temp = q_head q in
     (temp, nx,
      if temp \<noteq> NULL then
        (if nx temp \<noteq> NULL then q\<lparr>q_head := nx temp\<rparr> else q\<lparr>q_head := NULL, q_tail := NULL\<rparr>)
      else q))"

definition icb_insert :: "addr \<Rightarrow> links \<times> icb_queue \<Rightarrow> links \<times> icb_queue" where
  "icb_insert ip = (\<lambda>(nx, q).
     (nx(ip := q_head q),
      if q_head q = NULL then q\<lparr>q_tail := ip, q_head := ip\<rparr> else q\<lparr>q_head := ip\<rparr>))"

definition icb_append :: "addr \<Rightarrow> links \<times> icb_queue \<Rightarrow> links \<times> icb_queue" where
  "icb_append ip = (\<lambda>(nx, q).
     let nx1 = nx(ip := NULL) in
     if que_empty q then (nx1, q\<lparr>q_head := ip, q_tail := ip\<rparr>)
     else (nx1(q_tail q := ip), q\<lparr>q_tail := ip\<rparr>))"

definition icb_length :: "links \<times> icb_queue \<Rightarrow> nat option" where
  "icb_length = (\<lambda>(nx, q).
     map_option fst (while_option (\<lambda>(i, t). t \<noteq> NULL) (\<lambda>(i, t). (Suc i, nx t)) (0, q_head q)))"

text \<open>The scan for the predecessor of ip may not end on a cyclic chain.\<close>

definition icb_remove :: "addr \<Rightarrow> links \<times> icb_queue \<Rightarrow> (links \<times> icb_queue) option" where
  "icb_remove ip = (\<lambda>(nx, q).
     if ip = q_head q then
       (if ip = q_tail q then Some (nx(ip := NULL), q\<lparr>q_head := NULL, q_tail := NULL\<rparr>)
        else Some (nx(ip := NULL), q\<lparr>q_head := nx ip\<rparr>))
     else
       map_option
         (\<lambda>temp. if temp \<noteq> NULL
                 then ((nx(temp := nx ip))(ip := NULL), if ip = q_tail q then q\<lparr>q_tail := temp\<rparr> else q)
                 else (nx, q))
         (while_option (\<lambda>temp. temp \<noteq> NULL \<and> nx temp \<noteq> ip) nx (q_head q)))"

text \<open>The loop of icb_init and log_init: n records of sz bytes at base are chained.\<close>

primrec link_block :: "nat \<Rightarrow> word32 \<Rightarrow> addr \<Rightarrow> links \<Rightarrow> links" where
  "link_block 0 sz temp nx = nx(temp := NULL)"
| "link_block (Suc i) sz temp nx = link_block i sz (temp + sz) (nx(temp := temp + sz))"

definition pool_init :: "nat \<Rightarrow> word32 \<Rightarrow> addr \<Rightarrow> links \<Rightarrow> links \<times> icb_queue" where
  "pool_init n sz base nx =
     (link_block (n - 1) sz base nx, \<lparr>q_head = base, q_tail = base + of_nat (n - 1) * sz\<rparr>)"

section \<open>Transport queues (transport/queue.c)\<close>

record link_head =
  l_first :: addr
  l_last :: addr

definition link_next :: "addr \<Rightarrow> links \<times> link_head \<Rightarrow> addr" where
  "link_next p = (\<lambda>(nx, h). if p = l_last h then NULL else nx p)"

definition link_size :: "links \<times> link_head \<Rightarrow> nat option" where
  "link_size = (\<lambda>(nx, h).
     map_option fst (while_option (\<lambda>(s, n). n \<noteq> NULL) (\<lambda>(s, n). (Suc s, nx n)) (0, l_first h)))"

definition insert_last :: "addr \<Rightarrow> links \<times> link_head \<Rightarrow> links \<times> link_head" where
  "insert_last n = (\<lambda>(nx, h).
     if l_last h = NULL then (nx(n := NULL), h\<lparr>l_last := n, l_first := n\<rparr>)
     else ((nx(l_last h := n))(n := NULL), h\<lparr>l_last := n\<rparr>))"

definition insert_first :: "addr \<Rightarrow> links \<times> link_head \<Rightarrow> links \<times> link_head" where
  "insert_first n = (\<lambda>(nx, h).
     if l_first h = NULL then (nx(n := NULL), h\<lparr>l_last := n, l_first := n\<rparr>)
     else (nx(n := l_first h), h\<lparr>l_first := n\<rparr>))"

definition remove_first :: "links \<times> link_head \<Rightarrow> addr \<times> links \<times> link_head" where
  "remove_first = (\<lambda>(nx, h).
     let n = l_first h;
         h1 = (if n \<noteq> NULL then h\<lparr>l_first := nx n\<rparr> else h);
         h2 = (if l_first h1 = NULL then h1\<lparr>l_last := NULL\<rparr> else h1)
     in (n, nx, h2))"

definition queue_init :: link_head where "queue_init = \<lparr>l_first = NULL, l_last = NULL\<rparr>"

section \<open>The interface\<close>

text \<open>
  rep s xs: the queue state s holds the nodes xs, front first.  links reads the
  next fields; an operation writes only the fields of its own nodes, so other
  queues over the same heap are not disturbed.
\<close>

locale link_queue =
  fixes rep :: "'s \<Rightarrow> addr list \<Rightarrow> bool"
    and links :: "'s \<Rightarrow> links"
    and enq :: "addr \<Rightarrow> 's \<Rightarrow> 's"
    and ins :: "addr \<Rightarrow> 's \<Rightarrow> 's"
    and deq :: "'s \<Rightarrow> addr \<times> 's"
  assumes rep_nodes: "rep s xs \<Longrightarrow> distinct xs \<and> NULL \<notin> set xs"
    and rep_unique: "rep s xs \<Longrightarrow> rep s ys \<Longrightarrow> xs = ys"
    and enq_rep: "rep s xs \<Longrightarrow> x \<noteq> NULL \<Longrightarrow> x \<notin> set xs \<Longrightarrow> rep (enq x s) (xs @ [x])"
    and ins_rep: "rep s xs \<Longrightarrow> x \<noteq> NULL \<Longrightarrow> x \<notin> set xs \<Longrightarrow> rep (ins x s) (x # xs)"
    and deq_nil: "rep s [] \<Longrightarrow> deq s = (NULL, s)"
    and deq_rep: "rep s (x # xs) \<Longrightarrow> fst (deq s) = x \<and> rep (snd (deq s)) xs"
    and enq_frame: "rep s xs \<Longrightarrow> p \<notin> insert x (set xs) \<Longrightarrow> links (enq x s) p = links s p"
    and ins_frame: "rep s xs \<Longrightarrow> p \<notin> insert x (set xs) \<Longrightarrow> links (ins x s) p = links s p"
    and deq_frame: "links (snd (deq s)) = links s"
begin

primrec enq_all :: "addr list \<Rightarrow> 's \<Rightarrow> 's" where
  "enq_all [] s = s"
| "enq_all (x # xs) s = enq_all xs (enq x s)"

primrec ins_all :: "addr list \<Rightarrow> 's \<Rightarrow> 's" where
  "ins_all [] s = s"
| "ins_all (x # xs) s = ins_all xs (ins x s)"

primrec deq_n :: "nat \<Rightarrow> 's \<Rightarrow> addr list \<times> 's" where
  "deq_n 0 s = ([], s)"
| "deq_n (Suc n) s = (let (x, s1) = deq s; (xs, s2) = deq_n n s1 in (x # xs, s2))"

text \<open>One turn of a round-robin scheduler.\<close>

definition turn :: "'s \<Rightarrow> 's" where "turn s = (let (x, s1) = deq s in enq x s1)"

lemma enq_all_rep:
  "rep s xs \<Longrightarrow> distinct ys \<Longrightarrow> NULL \<notin> set ys \<Longrightarrow> set xs \<inter> set ys = {} \<Longrightarrow> rep (enq_all ys s) (xs @ ys)"
proof (induction ys arbitrary: s xs)
  case (Cons y ys)
  have "rep (enq y s) (xs @ [y])" using Cons.prems by (intro enq_rep) auto
  from Cons.IH [OF this] Cons.prems show ?case by auto
qed simp

lemma ins_all_rep:
  "rep s xs \<Longrightarrow> distinct ys \<Longrightarrow> NULL \<notin> set ys \<Longrightarrow> set xs \<inter> set ys = {} \<Longrightarrow> rep (ins_all ys s) (rev ys @ xs)"
proof (induction ys arbitrary: s xs)
  case (Cons y ys)
  have "rep (ins y s) (y # xs)" using Cons.prems by (intro ins_rep) auto
  from Cons.IH [OF this] Cons.prems show ?case by auto
qed simp

lemma deq_n_rep:
  "rep s (xs @ ys) \<Longrightarrow> fst (deq_n (length xs) s) = xs \<and> rep (snd (deq_n (length xs) s)) ys"
proof (induction xs arbitrary: s)
  case (Cons x xs)
  have d: "fst (deq s) = x" "rep (snd (deq s)) (xs @ ys)" using deq_rep Cons.prems by auto
  from Cons.IH [OF d(2)] d(1) show ?case by (simp add: split_beta Let_def)
qed simp

lemma fifo:
  assumes "rep s xs" "distinct ys" "NULL \<notin> set ys" "set xs \<inter> set ys = {}"
  shows "fst (deq_n (length xs + length ys) (enq_all ys s)) = xs @ ys"
    "rep (snd (deq_n (length xs + length ys) (enq_all ys s))) []"
  using deq_n_rep [of "enq_all ys s" "xs @ ys" "[]"] enq_all_rep [OF assms] by auto

lemma lifo:
  assumes "rep s xs" "distinct ys" "NULL \<notin> set ys" "set xs \<inter> set ys = {}"
  shows "fst (deq_n (length ys) (ins_all ys s)) = rev ys" "rep (snd (deq_n (length ys) (ins_all ys s))) xs"
  using deq_n_rep [of "ins_all ys s" "rev ys" xs] ins_all_rep [OF assms] by auto

lemma turn_rep: "rep s (x # xs) \<Longrightarrow> rep (turn s) (xs @ [x])"
proof -
  assume r: "rep s (x # xs)"
  hence "fst (deq s) = x" "rep (snd (deq s)) xs" "x \<noteq> NULL" "x \<notin> set xs"
    using deq_rep rep_nodes by fastforce+
  thus ?thesis using enq_rep by (auto simp: turn_def split_beta Let_def)
qed

lemma turns: "rep s (xs @ ys) \<Longrightarrow> rep ((turn ^^ length xs) s) (ys @ xs)"
proof (induction xs arbitrary: s ys)
  case (Cons x xs)
  have "rep (turn s) (xs @ ys @ [x])" using turn_rep [of s x "xs @ ys"] Cons.prems by simp
  from Cons.IH [OF this] show ?case by (simp add: funpow_swap1)
qed simp

end

section \<open>Chains of next pointers\<close>

fun chain :: "links \<Rightarrow> addr \<Rightarrow> addr list \<Rightarrow> bool" where
  "chain nx p [] = (p = NULL)"
| "chain nx p (x # xs) = (p = x \<and> x \<noteq> NULL \<and> chain nx (nx x) xs)"

lemma chain_unique: "chain nx p xs \<Longrightarrow> chain nx p ys \<Longrightarrow> xs = ys"
proof (induction xs arbitrary: p ys)
  case Nil then show ?case by (cases ys) auto
next
  case (Cons x xs) then show ?case by (cases ys) auto
qed

lemma chain_nonnull: "chain nx p xs \<Longrightarrow> NULL \<notin> set xs"
  by (induction xs arbitrary: p) auto

lemma chain_cong: "(\<And>x. x \<in> set xs \<Longrightarrow> nx x = ny x) \<Longrightarrow> chain nx p xs = chain ny p xs"
  by (induction xs arbitrary: p) auto

lemma chain_upd [simp]: "a \<notin> set xs \<Longrightarrow> chain (nx(a := v)) p xs = chain nx p xs"
  by (rule chain_cong) auto

lemma chain_append:
  "chain nx p (xs @ x # ys) \<Longrightarrow> distinct (xs @ x # ys) \<Longrightarrow> chain nx (nx x) ys \<and> (xs \<noteq> [] \<longrightarrow> nx (last xs) = x)"
  by (induction xs arbitrary: p) auto

lemma chain_snoc:
  "chain nx p xs \<Longrightarrow> xs \<noteq> [] \<Longrightarrow> distinct xs \<Longrightarrow> x \<noteq> NULL \<Longrightarrow> x \<notin> set xs \<Longrightarrow>
     chain (nx(x := NULL, last xs := x)) p (xs @ [x])"
proof (induction xs arbitrary: p)
  case (Cons y ys)
  show ?case
  proof (cases "ys = []")
    case False
    hence l: "last ys \<in> set ys" by simp
    hence "y \<noteq> last ys" "y \<noteq> x" using Cons.prems by auto
    thus ?thesis using Cons False by auto
  qed (use Cons.prems in auto)
qed simp

lemma chain_end: "chain nx p xs \<Longrightarrow> (p = NULL) = (xs = [])"
  by (cases xs) auto

lemma chain_next: "chain nx p (x # xs) \<Longrightarrow> (nx x = NULL) = (xs = [])"
  by (cases xs) auto

text \<open>Walking a chain to its end: the counting loops of icb_length and link_size.\<close>

lemma chain_count:
  "chain nx p xs \<Longrightarrow>
     while_option (\<lambda>(i, t). t \<noteq> NULL) (\<lambda>(i, t). (Suc i, nx t)) (n, p) = Some (n + length xs, NULL)"
proof (induction xs arbitrary: p n)
  case Nil then show ?case by (simp add: while_option_unfold)
next
  case (Cons x xs)
  hence "while_option (\<lambda>(i, t). t \<noteq> NULL) (\<lambda>(i, t). (Suc i, nx t)) (Suc n, nx x)
      = Some (Suc n + length xs, NULL)" by (intro Cons.IH) simp
  with Cons.prems show ?case by (subst while_option_unfold) simp
qed

section \<open>Both implementations are link queues\<close>

fun icb_rep :: "links \<times> icb_queue \<Rightarrow> addr list \<Rightarrow> bool" where
  "icb_rep (nx, q) xs = (chain nx (q_head q) xs \<and> distinct xs \<and>
     q_tail q = (if xs = [] then NULL else last xs))"

fun link_rep :: "links \<times> link_head \<Rightarrow> addr list \<Rightarrow> bool" where
  "link_rep (nx, h) xs = (chain nx (l_first h) xs \<and> distinct xs \<and>
     l_last h = (if xs = [] then NULL else last xs))"

lemma icb_append_rep:
  "icb_rep (nx, q) xs \<Longrightarrow> x \<noteq> NULL \<Longrightarrow> x \<notin> set xs \<Longrightarrow> icb_rep (icb_append x (nx, q)) (xs @ [x])"
  using chain_snoc [of nx "q_head q" xs x] chain_end [of nx "q_head q" xs]
  by (auto simp: icb_append_def Let_def que_empty_def)

lemma icb_insert_rep:
  "icb_rep (nx, q) xs \<Longrightarrow> x \<noteq> NULL \<Longrightarrow> x \<notin> set xs \<Longrightarrow> icb_rep (icb_insert x (nx, q)) (x # xs)"
  using chain_end [of nx "q_head q" xs] by (auto simp: icb_insert_def Let_def)

lemma icb_first_rep:
  "icb_rep (nx, q) (x # xs) \<Longrightarrow> fst (icb_first (nx, q)) = x \<and> icb_rep (snd (icb_first (nx, q))) xs"
  using chain_next [of nx "q_head q" x xs] by (auto simp: icb_first_def Let_def)

lemma insert_last_rep:
  "link_rep (nx, h) xs \<Longrightarrow> x \<noteq> NULL \<Longrightarrow> x \<notin> set xs \<Longrightarrow> link_rep (insert_last x (nx, h)) (xs @ [x])"
proof -
  assume r: "link_rep (nx, h) xs" and x: "x \<noteq> NULL" "x \<notin> set xs"
  show ?thesis
  proof (cases "xs = []")
    case False
    hence m: "last xs \<in> set xs" by simp
    moreover have "NULL \<notin> set xs" using r chain_nonnull [of nx "l_first h" xs] by simp
    ultimately have l: "last xs \<noteq> NULL" by metis
    hence "(nx(last xs := x))(x := NULL) = nx(x := NULL, last xs := x)" using x m by (metis fun_upd_twist)
    thus ?thesis using chain_snoc [of nx "l_first h" xs x] r x False l
      by (simp add: insert_last_def)
  qed (use r x in \<open>simp add: insert_last_def\<close>)
qed

lemma insert_first_rep:
  "link_rep (nx, h) xs \<Longrightarrow> x \<noteq> NULL \<Longrightarrow> x \<notin> set xs \<Longrightarrow> link_rep (insert_first x (nx, h)) (x # xs)"
  using chain_end [of nx "l_first h" xs] by (auto simp: insert_first_def Let_def)

lemma remove_first_rep:
  "link_rep (nx, h) (x # xs) \<Longrightarrow> fst (remove_first (nx, h)) = x \<and> link_rep (snd (remove_first (nx, h))) xs"
  using chain_next [of nx "l_first h" x xs] by (auto simp: remove_first_def Let_def)

interpretation icbq: link_queue icb_rep fst icb_append icb_insert icb_first
proof (unfold_locales, goal_cases)
  case (1 s xs) then show ?case by (cases s) (auto dest: chain_nonnull)
next
  case (2 s xs ys) then show ?case by (cases s) (auto dest: chain_unique)
next
  case (3 s xs x) then show ?case using icb_append_rep by (cases s) blast
next
  case (4 s xs x) then show ?case using icb_insert_rep by (cases s) blast
next
  case (5 s) then show ?case by (cases s) (auto simp: icb_first_def)
next
  case (6 s x xs) then show ?case using icb_first_rep by (cases s) blast
next
  case (7 s xs p x) then show ?case
    by (cases s) (auto simp: icb_append_def Let_def que_empty_def dest: chain_end)
next
  case (8 s xs p x) then show ?case by (cases s) (auto simp: icb_insert_def)
next
  case (9 s) then show ?case by (cases s) (auto simp: icb_first_def Let_def)
qed

interpretation linkq: link_queue link_rep fst insert_last insert_first remove_first
proof (unfold_locales, goal_cases)
  case (1 s xs) then show ?case by (cases s) (auto dest: chain_nonnull)
next
  case (2 s xs ys) then show ?case by (cases s) (auto dest: chain_unique)
next
  case (3 s xs x) then show ?case using insert_last_rep by (cases s) blast
next
  case (4 s xs x) then show ?case using insert_first_rep by (cases s) blast
next
  case (5 s) then show ?case by (cases s) (auto simp: remove_first_def)
next
  case (6 s x xs) then show ?case using remove_first_rep by (cases s) blast
next
  case (7 s xs p x) then show ?case
    by (cases s) (auto simp: insert_last_def)
next
  case (8 s xs p x) then show ?case by (cases s) (auto simp: insert_first_def)
next
  case (9 s) then show ?case by (cases s) (auto simp: remove_first_def Let_def)
qed

section \<open>Removal, length and the pools\<close>

text \<open>The scan of icb_remove stops at the predecessor of ip, or at the end of the queue.\<close>

lemma chain_scan:
  "chain nx p (xs @ ys) \<Longrightarrow> distinct (xs @ ys) \<Longrightarrow> xs \<noteq> [] \<Longrightarrow> ys \<noteq> [] \<Longrightarrow>
     while_option (\<lambda>t. t \<noteq> NULL \<and> nx t \<noteq> hd ys) nx p = Some (last xs)"
proof (induction xs arbitrary: p)
  case (Cons x xs)
  show ?case
  proof (cases "xs = []")
    case True
    then show ?thesis using Cons.prems by (cases ys) (auto simp: while_option_unfold)
  next
    case False
    hence "nx x = hd xs" "hd xs \<noteq> hd ys" using Cons.prems by (cases xs; cases ys; auto)+
    moreover have "while_option (\<lambda>t. t \<noteq> NULL \<and> nx t \<noteq> hd ys) nx (nx x) = Some (last xs)"
      by (rule Cons.IH) (use Cons.prems False in auto)
    ultimately show ?thesis using Cons.prems False by (subst while_option_unfold) auto
  qed
qed simp

lemma chain_scan_none:
  "chain nx p xs \<Longrightarrow> ip \<notin> set xs \<Longrightarrow> ip \<noteq> NULL \<Longrightarrow> p \<noteq> ip \<Longrightarrow>
     while_option (\<lambda>t. t \<noteq> NULL \<and> nx t \<noteq> ip) nx p = Some NULL"
proof (induction xs arbitrary: p)
  case (Cons x xs)
  have "nx x \<noteq> ip" using Cons.prems by (cases xs) auto
  moreover have "while_option (\<lambda>t. t \<noteq> NULL \<and> nx t \<noteq> ip) nx (nx x) = Some NULL"
    by (rule Cons.IH) (use Cons.prems \<open>nx x \<noteq> ip\<close> in auto)
  ultimately show ?case using Cons.prems by (subst while_option_unfold) auto
qed (simp add: while_option_unfold)

lemma chain_delete:
  "chain nx p (xs @ x # ys) \<Longrightarrow> distinct (xs @ x # ys) \<Longrightarrow> xs \<noteq> [] \<Longrightarrow>
     chain ((nx(last xs := nx x))(x := NULL)) p (xs @ ys)"
proof (induction xs arbitrary: p)
  case (Cons z xs)
  show ?case
  proof (cases "xs = []")
    case True
    have "z \<notin> set ys" "x \<notin> set ys" "z \<noteq> x" using Cons.prems True by auto
    hence "chain ((nx(z := nx x))(x := NULL)) (nx x) ys = chain nx (nx x) ys" by (simp only: chain_upd not_False_eq_True)
    moreover have "((nx(z := nx x))(x := NULL)) z = nx x" using \<open>z \<noteq> x\<close> by simp
    moreover have "p = z" "z \<noteq> NULL" "chain nx (nx x) ys" using Cons.prems True by auto
    ultimately have "chain ((nx(z := nx x))(x := NULL)) p (z # ys)" unfolding chain.simps by (simp only: simp_thms)
    then show ?thesis by (simp only: True append.simps last.simps if_True simp_thms)
  next
    case False
    hence "z \<noteq> last xs" using Cons.prems by (cases xs rule: rev_cases) auto
    thus ?thesis using Cons False by auto
  qed
qed simp

lemma icb_remove_rep:
  assumes "icb_rep (nx, q) xs" "ip \<noteq> NULL"
  shows "\<exists>s. icb_remove ip (nx, q) = Some s \<and> icb_rep s (remove1 ip xs)
    \<and> (\<forall>p. p \<notin> insert ip (set xs) \<longrightarrow> fst s p = nx p)"
proof (cases "ip \<in> set xs")
  case False
  hence "q_head q \<noteq> ip" using assms by (cases xs) auto
  thus ?thesis using assms False chain_scan_none [of nx "q_head q" xs ip]
    by (auto simp: icb_remove_def remove1_idem)
next
  case True
  then obtain as bs where xs: "xs = as @ ip # bs" by (meson split_list)
  have c: "chain nx (q_head q) (as @ ip # bs)" and d: "distinct (as @ ip # bs)"
    and t: "q_tail q = last (ip # bs)" using assms(1) xs by auto
  show ?thesis
  proof (cases as)
    case Nil
    hence h: "ip = q_head q" using c by simp
    show ?thesis
    proof (cases bs)
      case Nil
      then show ?thesis using h t xs \<open>as = []\<close> by (simp add: icb_remove_def)
    next
      case (Cons b bs')
      have "ip \<noteq> q_tail q" using t d Cons by (auto split: if_splits)
      moreover have "chain (nx(ip := NULL)) (nx ip) bs"
        using c d \<open>as = []\<close> chain_upd [of ip bs nx NULL "nx ip"] by simp
      moreover have "remove1 ip xs = bs" "distinct bs" "q_tail q = last bs" "bs \<noteq> []"
        using xs d t Cons \<open>as = []\<close> by auto
      ultimately show ?thesis using h xs by (simp add: icb_remove_def)
    qed
  next
    case (Cons a as')
    hence ne: "as \<noteq> []" by simp
    have h: "ip \<noteq> q_head q" using c d Cons by auto
    have la: "last as \<in> set as" using ne by simp
    moreover have "NULL \<notin> set as" using chain_nonnull [OF c] by auto
    ultimately have nn: "last as \<noteq> NULL" by metis
    have w: "while_option (\<lambda>t. t \<noteq> NULL \<and> nx t \<noteq> ip) nx (q_head q) = Some (last as)"
      using chain_scan [OF c d ne] by simp
    have r: "remove1 ip xs = as @ bs" using xs d by (simp add: remove1_append)
    have tail: "(ip = q_tail q) = (bs = [])" using t d by (cases bs) (auto split: if_splits)
    have "chain ((nx(last as := nx ip))(ip := NULL)) (q_head q) (as @ bs)" by (rule chain_delete [OF c d ne])
    thus ?thesis using h w nn r tail t d la
      by (auto simp: icb_remove_def xs)
  qed
qed

lemma icb_length_rep: "icb_rep s xs \<Longrightarrow> icb_length s = Some (length xs)"
  using chain_count [of "fst s" "q_head (snd s)" xs 0] by (cases s) (simp add: icb_length_def)

lemma link_size_rep: "link_rep s xs \<Longrightarrow> link_size s = Some (length xs)"
  using chain_count [of "fst s" "l_first (snd s)" xs 0] by (cases s) (simp add: link_size_def)

text \<open>The block of a pool: base, base + sz, ..., in order.\<close>

definition records :: "nat \<Rightarrow> word32 \<Rightarrow> addr \<Rightarrow> addr list" where
  "records n sz base = map (\<lambda>i. base + of_nat i * sz) [0..<n]"

lemma records_Suc: "records (Suc n) sz base = base # records n sz (base + sz)"
  by (auto simp: records_def map_upt_Suc algebra_simps simp del: upt_Suc)

lemma records_unat:
  fixes base sz :: addr
  shows "unat base + n * unat sz < 2 ^ 32 \<Longrightarrow> i < n \<Longrightarrow> unat (base + of_nat i * sz) = unat base + i * unat sz"
proof -
  assume a: "unat base + n * unat sz < 2 ^ 32" "i < n"
  have "i * unat sz \<le> n * unat sz" using a by simp
  hence "unat base + i * unat sz < 2 ^ 32" using a by linarith
  moreover have "of_nat i * sz = of_nat (i * unat sz)" by simp
  ultimately show ?thesis using unat_add_lt [of base "i * unat sz"] by (simp only:)
qed

lemma records_distinct:
  assumes "unat base + n * unat sz < 2 ^ 32" "0 < unat sz" "base \<noteq> NULL"
  shows "distinct (records n sz base)" "NULL \<notin> set (records n sz base)"
proof -
  have "inj_on (\<lambda>i. base + of_nat i * sz) {0..<n}"
  proof (rule inj_onI)
    fix i j assume "i \<in> {0..<n}" "j \<in> {0..<n}" "base + of_nat i * sz = base + of_nat j * sz"
    hence "unat base + i * unat sz = unat base + j * unat sz"
      using records_unat [OF assms(1)] by (metis atLeastLessThan_iff)
    thus "i = j" using assms(2) by simp
  qed
  thus "distinct (records n sz base)" by (simp add: records_def distinct_map)
  have "0 < unat base" using assms(3) by (simp add: unat_gt_0)
  thus "NULL \<notin> set (records n sz base)"
    using records_unat [OF assms(1)] by (auto simp: records_def) (metis add_is_0 less_numeral_extra(3) unat_0)
qed

lemma link_block_chain:
  "distinct (records (Suc n) sz base) \<Longrightarrow> NULL \<notin> set (records (Suc n) sz base) \<Longrightarrow>
     chain (link_block n sz base nx) base (records (Suc n) sz base)
     \<and> (\<forall>p. p \<notin> set (records (Suc n) sz base) \<longrightarrow> link_block n sz base nx p = nx p)"
proof (induction n arbitrary: base nx)
  case 0 then show ?case by (simp add: records_def)
next
  case (Suc n)
  let ?nx = "nx(base := base + sz)"
  have d: "distinct (records (Suc n) sz (base + sz))" "base \<notin> set (records (Suc n) sz (base + sz))"
    "NULL \<notin> set (records (Suc n) sz (base + sz))" "base \<noteq> NULL"
    using Suc.prems by (auto simp: records_Suc [of "Suc n"])
  have ih: "chain (link_block n sz (base + sz) ?nx) (base + sz) (records (Suc n) sz (base + sz))"
    "\<And>p. p \<notin> set (records (Suc n) sz (base + sz)) \<Longrightarrow> link_block n sz (base + sz) ?nx p = ?nx p"
    using Suc.IH [OF d(1,3), of ?nx] by blast+
  have "link_block n sz (base + sz) ?nx base = base + sz" using ih(2) [OF d(2)] by simp
  thus ?case using ih d(2,4)
    unfolding records_Suc [of "Suc n"] chain.simps link_block.simps list.set by (metis fun_upd_apply insert_iff)
qed

lemma pool_init_rep:
  assumes "0 < n" "unat base + n * unat sz < 2 ^ 32" "0 < unat sz" "base \<noteq> NULL"
  shows "icb_rep (pool_init n sz base nx) (records n sz base)"
proof -
  obtain k where n: "n = Suc k" using assms(1) gr0_conv_Suc by blast
  have "last (records n sz base) = base + of_nat k * sz" by (simp add: records_def n)
  moreover have "records n sz base \<noteq> []" by (simp add: records_def n)
  ultimately show ?thesis
    using link_block_chain [of k sz base nx] records_distinct [OF assms(2-4)] by (simp add: pool_init_def n)
qed

end
