(* ===== verification/MLVM_System.thy ===== *)
theory MLVM_System
  imports MLVM_Queue MLVM_Machine
begin

text \<open>
  The state the system threads share: the ICBs and their queues, the job counter,
  the log and the idle-thread bookkeeping, with the queue macros of
  include/system.h, the log functions and pools of system/queue.c, and
  dispose_of and system_flush of system/mlvm.c.
\<close>

section \<open>State\<close>

datatype log_status = LOG_ALIVE | LOG_MOVED | LOG_DISPOSED | LOG_BLOCKED | LOG_SLEEPING

record host =
  h_name :: string
  h_host_id :: word32

record timeval =
  tv_sec :: int
  tv_usec :: int

record log_entry =
  lg_application :: word32
  lg_name :: string
  lg_status :: log_status
  lg_server :: host
  lg_jumps :: word32
  lg_time :: int
  lg_ip :: addr

text \<open>core is the part of the control block the engine works on.\<close>

record ticb =
  core :: icb
  ip_application :: word32
  ip_name :: string
  ip_jumps :: word32
  ip_log :: addr
  ip_queen :: host
  ip_citizenship :: host
  ip_cin :: word32
  ip_cout :: word32
  ip_cerr :: word32
  ip_dday :: timeval

text \<open>The queues of system/mlvm.c, the timer's internal queue and the msq of an ICB.\<close>

datatype qname =
    FREE_Q | CREATOR_Q | MEMORY_Q | ENGINE_Q | OUT_Q | IN_Q | TIMER_Q | SECURITY_Q
  | WAITING_MEM_Q | WAITING_MSGER_Q | INTERNAL_Q | MSQ addr

record sys =
  s_next :: links
  s_icb :: "addr \<Rightarrow> ticb"
  s_queue :: "qname \<Rightarrow> icb_queue"
  s_locked :: "addr \<Rightarrow> bool"
  s_jobs :: nat
  s_twfj :: nat
  s_threads :: nat
  s_signals :: nat
  s_log_next :: links
  s_log :: "addr \<Rightarrow> log_entry"
  s_live_logs :: icb_queue
  s_free_logs :: icb_queue
  s_mem :: store
  s_stop :: bool
  s_clock :: "nat \<Rightarrow> timeval"
  s_ticks :: nat
  s_wakeup :: int
  s_alarm :: "timeval option"

text \<open>How a thread can fail to return: a lock it waits for, a bad pointer, a loop.\<close>

datatype fault = F_Blocked | F_Null | F_Uninit | F_Endless | F_Exit

type_synonym 'a res = "fault + 'a"

definition bind_res :: "'a res \<Rightarrow> ('a \<Rightarrow> 'b res) \<Rightarrow> 'b res" where
  "bind_res r k = (case r of Inl e \<Rightarrow> Inl e | Inr x \<Rightarrow> k x)"

definition of_opt :: "'a option \<Rightarrow> 'a res" where
  "of_opt r = (case r of None \<Rightarrow> Inl F_Endless | Some x \<Rightarrow> Inr x)"

lemma res_simps [simp]:
  "bind_res (Inr x) k = k x" "bind_res (Inl e) k = Inl e"
  "of_opt (Some y) = Inr y" "of_opt None = Inl F_Endless"
  by (simp_all add: bind_res_def of_opt_def)

text \<open>Reading and updating one ICB or log entry.\<close>

abbreviation ip_status :: "sys \<Rightarrow> addr \<Rightarrow> imago_status" where
  "ip_status s ip \<equiv> status (core (s_icb s ip))"

definition upd_icb :: "addr \<Rightarrow> (ticb \<Rightarrow> ticb) \<Rightarrow> sys \<Rightarrow> sys" where
  "upd_icb ip f s = s\<lparr>s_icb := (s_icb s)(ip := f (s_icb s ip))\<rparr>"

definition upd_core :: "addr \<Rightarrow> (icb \<Rightarrow> icb) \<Rightarrow> sys \<Rightarrow> sys" where
  "upd_core ip f = upd_icb ip (\<lambda>t. t\<lparr>core := f (core t)\<rparr>)"

definition set_status :: "imago_status \<Rightarrow> addr \<Rightarrow> sys \<Rightarrow> sys" where
  "set_status st ip = upd_core ip (\<lambda>c. c\<lparr>status := st\<rparr>)"

definition set_error :: "word32 \<Rightarrow> addr \<Rightarrow> sys \<Rightarrow> sys" where
  "set_error e ip = upd_core ip (\<lambda>c. c\<lparr>status := IMAGO_ERROR, i_nl := e\<rparr>)"

definition upd_log :: "addr \<Rightarrow> (log_entry \<Rightarrow> log_entry) \<Rightarrow> sys \<Rightarrow> sys" where
  "upd_log l f s = s\<lparr>s_log := (s_log s)(l := f (s_log s l))\<rparr>"

section \<open>Queue macros (include/system.h)\<close>

definition on_queue :: "qname \<Rightarrow> (links \<times> icb_queue \<Rightarrow> links \<times> icb_queue) \<Rightarrow> sys \<Rightarrow> sys" where
  "on_queue Q f s =
     (let (nx, q) = f (s_next s, s_queue s Q) in s\<lparr>s_next := nx, s_queue := (s_queue s)(Q := q)\<rparr>)"

definition que_first :: "qname \<Rightarrow> sys \<Rightarrow> addr \<times> sys" where
  "que_first Q s =
     (let (ip, nx, q) = icb_first (s_next s, s_queue s Q)
      in (ip, s\<lparr>s_next := nx, s_queue := (s_queue s)(Q := q)\<rparr>))"

definition icb_lock :: "addr \<Rightarrow> sys \<Rightarrow> sys res" where
  "icb_lock ip s =
     (if s_locked s ip then Inl F_Blocked else Inr (s\<lparr>s_locked := (s_locked s)(ip := True)\<rparr>))"

definition icb_unlock :: "addr \<Rightarrow> sys \<Rightarrow> sys" where
  "icb_unlock ip s = s\<lparr>s_locked := (s_locked s)(ip := False)\<rparr>"

definition dec_jobs :: "sys \<Rightarrow> sys" where
  "dec_jobs s = s\<lparr>s_jobs := (if s_jobs s \<noteq> 0 then s_jobs s - 1 else 0)\<rparr>"

definition inc_jobs :: "sys \<Rightarrow> sys" where "inc_jobs s = s\<lparr>s_jobs := s_jobs s + 1\<rparr>"

definition inc_jobs_s :: "sys \<Rightarrow> sys" where
  "inc_jobs_s s =
     (let s1 = inc_jobs s in
      if s_twfj s1 \<noteq> 0 \<and> s_threads s1 - s_twfj s1 < s_jobs s1
      then s1\<lparr>s_signals := s_signals s1 + 1\<rparr> else s1)"

text \<open>Some (NULL, s) when the queue is empty; the ICB is locked before it is handed out.\<close>

definition icb_get :: "qname \<Rightarrow> sys \<Rightarrow> (addr \<times> sys) res" where
  "icb_get Q s =
     (if que_empty (s_queue s Q) then Inr (NULL, s)
      else (let (ip, s1) = que_first Q s in
            bind_res (icb_lock ip (dec_jobs s1)) (\<lambda>s2. Inr (ip, s2))))"

definition icb_put_q :: "qname \<Rightarrow> addr \<Rightarrow> sys \<Rightarrow> sys" where
  "icb_put_q Q ip s = icb_unlock ip (on_queue Q (icb_append ip) s)"

definition icb_put :: "qname \<Rightarrow> addr \<Rightarrow> sys \<Rightarrow> sys" where
  "icb_put Q ip s = inc_jobs (icb_put_q Q ip s)"

definition icb_put_signal :: "qname \<Rightarrow> addr \<Rightarrow> sys \<Rightarrow> sys" where
  "icb_put_signal Q ip s = inc_jobs_s (icb_put_q Q ip s)"

text \<open>The loop empties the queue of waiting messengers; its status is left as it is.\<close>

definition release_waiting_msger :: "sys \<Rightarrow> sys option" where
  "release_waiting_msger =
     while_option (\<lambda>s. \<not> que_empty (s_queue s WAITING_MSGER_Q))
       (\<lambda>s. let (ip, s1) = que_first WAITING_MSGER_Q s in icb_put_signal ENGINE_Q ip s1)"

section \<open>ICB and log pools (system/queue.c)\<close>

abbreviation MAX_IMAGOES :: nat where "MAX_IMAGOES \<equiv> 1024"

text \<open>blk is the block malloc returned; NULL makes the server exit.\<close>

definition icb_init :: "word32 \<Rightarrow> addr \<Rightarrow> sys \<Rightarrow> sys res" where
  "icb_init sz blk s =
     (if blk = NULL then Inl F_Exit
      else (let (nx, q) = pool_init MAX_IMAGOES sz blk (s_next s)
            in Inr (s\<lparr>s_next := nx, s_queue := (s_queue s)(FREE_Q := q)\<rparr>)))"

text \<open>The fields of the new ICB are set without a test of temp: NULL is dereferenced.\<close>

definition icb_new :: "sys \<Rightarrow> (addr \<times> sys) res" where
  "icb_new s =
     (let (temp, s1) = que_first FREE_Q s in
      if temp = NULL then Inl F_Null
      else Inr (temp, upd_icb temp
        (\<lambda>t. t\<lparr>core := (core t)\<lparr>status := IMAGO_READY\<rparr>, ip_cin := 0, ip_cout := 1, ip_cerr := 2\<rparr>) s1))"

text \<open>memset clears every field but the lock.\<close>

definition blank_icb :: ticb where
  "blank_icb = \<lparr>core = \<lparr>itype = STATIONARY, status = IMAGO_INVALID, expansions = 0, collections = 0,
     block_base = 0, block_ceiling = 0, name_base = 0, name_top = 0, proc_base = 0, code_base = 0,
     stack_base = 0, i_pp = 0, i_af = 0, i_cp = 0, i_cf = 0, i_st = 0, i_bb = 0, i_b0 = 0,
     i_gl = 0, i_tt = 0, i_nl = 0\<rparr>, ip_application = 0, ip_name = [], ip_jumps = 0, ip_log = 0,
     ip_queen = \<lparr>h_name = [], h_host_id = 0\<rparr>, ip_citizenship = \<lparr>h_name = [], h_host_id = 0\<rparr>,
     ip_cin = 0, ip_cout = 0, ip_cerr = 0, ip_dday = \<lparr>tv_sec = 0, tv_usec = 0\<rparr>\<rparr>"

definition icb_free :: "addr \<Rightarrow> sys \<Rightarrow> sys" where
  "icb_free ip s =
     (let s1 = icb_unlock ip s;
          s2 = upd_icb ip (\<lambda>_. blank_icb) s1;
          s3 = s2\<lparr>s_queue := (s_queue s2)(MSQ ip := \<lparr>q_head = NULL, q_tail = NULL\<rparr>)\<rparr>
      in on_queue FREE_Q (icb_insert ip) s3)"

definition log_init :: "word32 \<Rightarrow> addr \<Rightarrow> sys \<Rightarrow> sys res" where
  "log_init sz blk s =
     (if blk = NULL then Inl F_Exit
      else (let (nx, q) = pool_init MAX_IMAGOES sz blk (s_log_next s)
            in Inr (s\<lparr>s_log_next := nx, s_free_logs := q\<rparr>)))"

definition log_new :: "word32 \<Rightarrow> addr \<Rightarrow> sys \<Rightarrow> (addr \<times> sys) res" where
  "log_new sz blk s =
     (let (temp, nx, q) = icb_first (s_log_next s, s_free_logs s) in
      if temp \<noteq> NULL then Inr (temp, s\<lparr>s_log_next := nx, s_free_logs := q\<rparr>)
      else bind_res (log_init sz blk s) (\<lambda>s1.
        let temp = q_head (s_free_logs s1) in
        Inr (temp, s1\<lparr>s_free_logs := (s_free_logs s1)\<lparr>q_head := s_log_next s1 temp\<rparr>\<rparr>)))"

definition log_free :: "addr \<Rightarrow> sys \<Rightarrow> sys" where
  "log_free l s =
     (let (nx, q) = icb_insert l (s_log_next s, s_free_logs s) in s\<lparr>s_log_next := nx, s_free_logs := q\<rparr>)"

definition log_append :: "addr \<Rightarrow> sys \<Rightarrow> sys" where
  "log_append l s =
     (let (nx, q) = icb_append l (s_log_next s, s_live_logs s) in s\<lparr>s_log_next := nx, s_live_logs := q\<rparr>)"

definition log_match :: "word32 \<Rightarrow> word32 \<Rightarrow> string option \<Rightarrow> log_entry \<Rightarrow> bool" where
  "log_match hid app name e =
     (h_host_id (lg_server e) = hid \<and> lg_application e = app \<and>
      (case name of None \<Rightarrow> True | Some n \<Rightarrow> lg_name e = n))"

definition log_find :: "word32 \<Rightarrow> word32 \<Rightarrow> string option \<Rightarrow> sys \<Rightarrow> addr option" where
  "log_find hid app name s =
     while_option (\<lambda>t. t \<noteq> NULL \<and> \<not> log_match hid app name (s_log s t)) (s_log_next s) (q_head (s_live_logs s))"

definition now :: "sys \<Rightarrow> timeval \<times> sys" where
  "now s = (s_clock s (s_ticks s), s\<lparr>s_ticks := s_ticks s + 1\<rparr>)"

definition log_moved :: "addr \<Rightarrow> word32 \<Rightarrow> string \<Rightarrow> sys \<Rightarrow> sys" where
  "log_moved l jumps to s =
     (let (t, s1) = now s in
      upd_log l (\<lambda>e. e\<lparr>lg_status := LOG_MOVED, lg_ip := NULL, lg_server := (lg_server e)\<lparr>h_name := to\<rparr>,
        lg_jumps := jumps, lg_time := tv_sec t\<rparr>) s1)"

definition log_alive :: "word32 \<Rightarrow> addr \<Rightarrow> addr \<Rightarrow> addr \<Rightarrow> sys \<Rightarrow> (addr \<times> sys) res" where
  "log_alive sz blk l ip s =
     bind_res (if l = NULL then log_new sz blk s else Inr (l, s)) (\<lambda>(llog, s1).
       let t = s_icb s1 ip;
           (tm, s2) = now (upd_icb ip (\<lambda>t. t\<lparr>ip_log := llog\<rparr>) s1);
           s3 = upd_log llog (\<lambda>e. \<lparr>lg_application = ip_application t, lg_name = ip_name t,
                  lg_status = LOG_ALIVE, lg_server = ip_queen t, lg_jumps = ip_jumps t,
                  lg_time = tv_sec tm, lg_ip = ip\<rparr>) s2
       in Inr (llog, if l = NULL then log_append llog s3 else s3))"

definition log_disposed :: "addr \<Rightarrow> sys \<Rightarrow> sys" where
  "log_disposed l = upd_log l (\<lambda>e. e\<lparr>lg_status := LOG_DISPOSED, lg_ip := NULL\<rparr>)"

definition log_blocked :: "addr \<Rightarrow> sys \<Rightarrow> sys" where
  "log_blocked l = upd_log l (\<lambda>e. e\<lparr>lg_status := LOG_BLOCKED\<rparr>)"

section \<open>Killing an imago and shutting down (system/mlvm.c)\<close>

text \<open>The caller holds the lock of kip; the result is the C return value.\<close>

definition dispose_of :: "addr \<Rightarrow> sys \<Rightarrow> int \<times> sys" where
  "dispose_of kip s =
     (case ip_status s kip of
        IMAGO_BACKTRACK \<Rightarrow> (- 1, s)
      | IMAGO_CONTRACTION \<Rightarrow> (- 1, s)
      | IMAGO_INVALID \<Rightarrow> (- 1, s)
      | IMAGO_ERROR \<Rightarrow> (1, s)
      | IMAGO_MOVE_OUT \<Rightarrow> (1, s)
      | IMAGO_DISPOSE \<Rightarrow> (1, s)
      | IMAGO_TERMINATE \<Rightarrow> (1, s)
      | IMAGO_ATTACHING \<Rightarrow> (1, s)
      | IMAGO_WAITING \<Rightarrow> (1, icb_put_signal ENGINE_Q kip (set_status IMAGO_TERMINATE kip s))
      | IMAGO_TIMER \<Rightarrow>
          (1, set_status IMAGO_TERMINATE kip
                (upd_icb kip (\<lambda>t. t\<lparr>ip_dday := \<lparr>tv_sec = 0, tv_usec = 0\<rparr>\<rparr>) s))
      | _ \<Rightarrow> (1, set_status IMAGO_TERMINATE kip s))"

text \<open>The first blocked imago of the log, and the loop that flushes them all.\<close>

definition find_blocked :: "sys \<Rightarrow> addr option" where
  "find_blocked s =
     while_option (\<lambda>t. t \<noteq> NULL \<and> \<not> (lg_status (s_log s t) = LOG_BLOCKED \<and> lg_ip (s_log s t) \<noteq> NULL))
       (s_log_next s) (q_head (s_live_logs s))"

definition flush_one :: "addr \<Rightarrow> sys \<Rightarrow> sys res" where
  "flush_one l s =
     (let lip = lg_ip (s_log s l); s1 = upd_log l (\<lambda>e. e\<lparr>lg_status := LOG_DISPOSED\<rparr>) s in
      bind_res (icb_lock lip s1) (\<lambda>s2.
        Inr (icb_unlock lip
          (if ip_status s2 lip \<noteq> IMAGO_INVALID
           then icb_put ENGINE_Q lip (set_status IMAGO_TERMINATE lip s2) else s2))))"

definition system_flush :: "sys \<Rightarrow> sys res" where
  "system_flush s =
     bind_res (of_opt (while_option
        (\<lambda>r. case r of Inl e \<Rightarrow> False | Inr s \<Rightarrow> (case find_blocked s of None \<Rightarrow> True | Some l \<Rightarrow> l \<noteq> NULL))
        (\<lambda>r. bind_res r (\<lambda>s. bind_res (of_opt (find_blocked s)) (\<lambda>l. flush_one l s)))
        (Inr s))) (\<lambda>r. r)"

end
