(* ===== verification/MLVM_Threads.thy ===== *)
theory MLVM_Threads
  imports MLVM_System MLVM_Engine
begin

text \<open>
  The bodies of the system threads: imago_scheduler, imago_memory, imago_creator,
  imago_out, imago_in and imago_timer (system/imago_*.c) with the timer's wake-up
  callback, and the life-cycle table of system/mlvm.c.  Each handler answers
  whether it found work.  Operations of other components a handler calls are the
  fields of env.
\<close>

section \<open>What the threads call\<close>

record env =
  e_engine :: "addr \<Rightarrow> sys \<Rightarrow> sys res"
  e_mmanager :: "addr \<Rightarrow> sys \<Rightarrow> (sys \<times> word32) res"
  e_loader :: "addr \<Rightarrow> sys \<Rightarrow> (sys \<times> word32) res"
  e_sys_loader :: "addr \<Rightarrow> sys \<Rightarrow> (sys \<times> word32) res"
  e_cloner :: "addr \<Rightarrow> sys \<Rightarrow> (sys \<times> word32) res"
  e_dispatcher :: "addr \<Rightarrow> sys \<Rightarrow> (sys \<times> word32) res"
  e_send :: "string \<Rightarrow> addr \<Rightarrow> sys \<Rightarrow> sys res"
  e_release_msger :: "addr \<Rightarrow> string option \<Rightarrow> sys \<Rightarrow> sys res"
  e_sys_dispatcher :: "addr \<Rightarrow> sys \<Rightarrow> sys res"
  e_localhost :: string
  e_hostid :: word32
  e_log_size :: word32
  e_malloc_log :: "sys \<Rightarrow> addr"
  e_timer_new :: "sys \<Rightarrow> int"
  e_seconds :: "word32 \<times> word32 \<Rightarrow> timeval"

text \<open>engine(ip) on the ICB and the store the threads share.\<close>

definition engine_thread :: "(word32 \<Rightarrow> builtin_rec option) \<Rightarrow> double_ops \<Rightarrow> addr \<Rightarrow> sys \<Rightarrow> sys res" where
  "engine_thread B D ip s =
     (case engine B D (core (s_icb s ip)) (s_mem s) of
        Some (Return t) \<Rightarrow> Inr (upd_core ip (\<lambda>_. plt t) (s\<lparr>s_mem := mem t\<rparr>))
      | Some Undef \<Rightarrow> Inl F_Uninit
      | _ \<Rightarrow> Inl F_Endless)"

text \<open>A handler's first lines: nothing to do, or a shutdown that ends every non-messenger.\<close>

definition idle :: "addr \<Rightarrow> sys \<Rightarrow> bool" where
  "idle ip s = (ip = NULL \<or> ip_status s ip = IMAGO_INVALID)"

definition stopping :: "addr \<Rightarrow> sys \<Rightarrow> bool" where
  "stopping ip s = (s_stop s \<and> \<not> is_messenger (core (s_icb s ip)))"

definition terminate :: "addr \<Rightarrow> sys \<Rightarrow> sys" where
  "terminate ip s = icb_put_signal OUT_Q ip (set_status IMAGO_TERMINATE ip s)"

section \<open>Scheduler\<close>

text \<open>The switch on the status engine left; None where the ICB is only unlocked.\<close>

fun route :: "imago_status \<Rightarrow> qname option" where
  "route IMAGO_READY = Some ENGINE_Q"
| "route IMAGO_EXPANSION = Some MEMORY_Q"
| "route IMAGO_CONTRACTION = Some MEMORY_Q"
| "route IMAGO_COLLECTION = Some MEMORY_Q"
| "route IMAGO_ERROR = Some OUT_Q"
| "route IMAGO_MOVE_OUT = Some OUT_Q"
| "route IMAGO_DISPOSE = Some OUT_Q"
| "route IMAGO_TERMINATE = Some OUT_Q"
| "route IMAGO_MOVE_IN = Some CREATOR_Q"
| "route IMAGO_CLONING = Some CREATOR_Q"
| "route IMAGO_DISPATCHING = Some CREATOR_Q"
| "route IMAGO_CREATION = Some CREATOR_Q"
| "route IMAGO_SYS_CREATION = Some CREATOR_Q"
| "route IMAGO_TIMER = Some TIMER_Q"
| "route IMAGO_ATTACHING = None"
| "route IMAGO_WAITING = None"
| "route IMAGO_BACKTRACK = None"
| "route IMAGO_INVALID = None"

definition imago_scheduler :: "env \<Rightarrow> sys \<Rightarrow> (bool \<times> sys) res" where
  "imago_scheduler E s =
     bind_res (icb_get ENGINE_Q s) (\<lambda>(ip, s1).
       if idle ip s1 then Inr (False, s1)
       else if stopping ip s1 then Inr (True, terminate ip s1)
       else bind_res (e_engine E ip s1) (\<lambda>s2.
         Inr (True, case route (ip_status s2 ip) of
                      Some Q \<Rightarrow> icb_put_signal Q ip s2
                    | None \<Rightarrow> icb_unlock ip s2)))"

section \<open>Memory thread and creator\<close>

definition imago_memory :: "env \<Rightarrow> sys \<Rightarrow> (bool \<times> sys) res" where
  "imago_memory E s =
     bind_res (icb_get MEMORY_Q s) (\<lambda>(ip, s1).
       if idle ip s1 then Inr (False, s1)
       else if stopping ip s1 then Inr (True, terminate ip s1)
       else bind_res (e_mmanager E ip s1) (\<lambda>(s2, r).
         if r = ecode E_SUCCEED
         then Inr (True, icb_put_signal ENGINE_Q ip (set_status IMAGO_READY ip s2))
         else if r = ecode E_MEMORY_OUT then
           (if s_stop s2 then Inr (True, terminate ip s2)
            else Inr (True, icb_put_q WAITING_MEM_Q ip s2))
         else if r = ecode E_RESSOURCE_BUSY then Inr (False, icb_put MEMORY_Q ip s2)
         else Inr (True, icb_put_signal OUT_Q ip (set_error r ip s2))))"

definition create :: "env \<Rightarrow> addr \<Rightarrow> sys \<Rightarrow> (sys \<times> word32) res" where
  "create E ip s =
     (case ip_status s ip of
        IMAGO_CREATION \<Rightarrow> e_loader E ip s
      | IMAGO_SYS_CREATION \<Rightarrow> e_sys_loader E ip s
      | IMAGO_CLONING \<Rightarrow> e_cloner E ip s
      | IMAGO_DISPATCHING \<Rightarrow> e_dispatcher E ip s
      | _ \<Rightarrow> Inr (s, ecode E_ILLEGAL_STATUS))"

definition imago_creator :: "env \<Rightarrow> sys \<Rightarrow> (bool \<times> sys) res" where
  "imago_creator E s =
     bind_res (icb_get CREATOR_Q s) (\<lambda>(ip, s1).
       if idle ip s1 then Inr (False, s1)
       else if stopping ip s1 then Inr (True, terminate ip s1)
       else bind_res (create E ip s1) (\<lambda>(s2, r).
         if r = ecode E_SUCCEED
         then Inr (True, icb_put_signal ENGINE_Q ip (set_status IMAGO_READY ip s2))
         else if r = ecode E_MEMORY_OUT then Inr (True, icb_put_q WAITING_MEM_Q ip s2)
         else Inr (True, icb_put_signal OUT_Q ip (set_error r ip s2))))"

section \<open>Out thread\<close>

text \<open>The C string at an address; None when no zero byte follows.\<close>

definition char_at :: "store \<Rightarrow> addr \<Rightarrow> char" where
  "char_at m p = char_of (unat (drop_bit (8 * unat (p AND 3)) (m (p AND ADR_MASK)) AND 255))"

definition c_string :: "store \<Rightarrow> addr \<Rightarrow> string option" where
  "c_string m p =
     map_option snd (while_option (\<lambda>(q, cs). char_at m q \<noteq> CHR 0x00)
       (\<lambda>(q, cs). (q + 1, cs @ [char_at m q])) (p, []))"

definition lower :: "char \<Rightarrow> char" where
  "lower c = (if 65 \<le> (of_char c :: nat) \<and> (of_char c :: nat) \<le> 90 then char_of ((of_char c :: nat) + 32) else c)"

definition strcasecmp_eq :: "string \<Rightarrow> string \<Rightarrow> bool" where
  "strcasecmp_eq a b = (map lower a = map lower b)"

definition name_ptr :: "icb \<Rightarrow> word32 \<Rightarrow> addr" where "name_ptr c v = name_base c + v - ASCII_SIZE"

definition LOOPBACK_INTERFACE :: string where "LOOPBACK_INTERFACE = ''loopback''"

text \<open>to is a buffer of MAX_DNS_NAME_SIZE = 80 bytes, strncpy copies at most 79 characters.\<close>

definition send_out :: "env \<Rightarrow> string \<Rightarrow> addr \<Rightarrow> sys \<Rightarrow> sys res" where
  "send_out E to ip s =
     (let wk = \<not> is_messenger (core (s_icb s ip)) in
      bind_res
        (if wk then
           (let l = ip_log (s_icb s ip) in
            if l = NULL then Inl F_Null
            else (let (tm, s1) = now s in
                  Inr (upd_log l (\<lambda>e. e\<lparr>lg_status := LOG_MOVED, lg_ip := NULL,
                        lg_server := (lg_server e)\<lparr>h_name := to\<rparr>, lg_time := tv_sec tm\<rparr>) s1)))
         else Inr s)
        (\<lambda>s1. bind_res (e_send E to ip s1) (\<lambda>s2.
           if \<not> is_messenger (core (s_icb s2 ip)) then e_release_msger E ip (Some to) s2 else Inr s2)))"

definition move_out :: "env \<Rightarrow> addr \<Rightarrow> sys \<Rightarrow> sys res" where
  "move_out E ip s =
     (let c = core (s_icb s ip) in
      bind_res (of_opt (deref_word (s_mem s) (s_mem s (i_st c)))) (\<lambda>v.
        if \<not> is_con v
        then Inr (icb_put_signal OUT_Q ip (set_error (ecode E_ILLEGAL_ARGUMENT) ip s))
        else if con_value v <s ASCII_SIZE then send_out E [char_of (unat (con_value v))] ip s
        else bind_res (of_opt (c_string (s_mem s) (name_ptr c (con_value v)))) (\<lambda>nm.
          if strcasecmp_eq (e_localhost E) nm
          then Inr (icb_put_signal IN_Q ip (set_status IMAGO_MOVE_IN ip s))
          else if \<not> strcasecmp_eq LOOPBACK_INTERFACE nm then send_out E (take 79 nm) ip s
          else send_out E (e_localhost E) ip s)))"

text \<open>What becomes of an ICB that waited for memory.\<close>

fun retry_route :: "imago_status \<Rightarrow> qname option" where
  "retry_route IMAGO_EXPANSION = Some MEMORY_Q"
| "retry_route IMAGO_COLLECTION = Some MEMORY_Q"
| "retry_route IMAGO_MOVE_IN = Some CREATOR_Q"
| "retry_route IMAGO_CLONING = Some CREATOR_Q"
| "retry_route IMAGO_DISPATCHING = Some CREATOR_Q"
| "retry_route IMAGO_CREATION = Some CREATOR_Q"
| "retry_route IMAGO_SYS_CREATION = Some CREATOR_Q"
| "retry_route _ = None"

definition release_waiting_mem :: "sys \<Rightarrow> sys option" where
  "release_waiting_mem =
     while_option (\<lambda>s. \<not> que_empty (s_queue s WAITING_MEM_Q))
       (\<lambda>s. let (ip, s1) = que_first WAITING_MEM_Q s in
            case retry_route (ip_status s1 ip) of Some Q \<Rightarrow> icb_put_signal Q ip s1 | None \<Rightarrow> s1)"

definition dispose :: "env \<Rightarrow> addr \<Rightarrow> sys \<Rightarrow> sys res" where
  "dispose E ip s =
     bind_res
       (if \<not> is_messenger (core (s_icb s ip)) then
          (let l = ip_log (s_icb s ip); s1 = (if l \<noteq> NULL then log_disposed l s else s) in
           bind_res (e_release_msger E ip None s1) (e_sys_dispatcher E ip))
        else Inr s)
       (\<lambda>s2. of_opt (release_waiting_mem (icb_free ip s2)))"

definition imago_out :: "env \<Rightarrow> sys \<Rightarrow> (bool \<times> sys) res" where
  "imago_out E s =
     bind_res (icb_get OUT_Q s) (\<lambda>(ip, s1).
       if idle ip s1 then Inr (False, s1)
       else bind_res
         (if ip_status s1 ip = IMAGO_MOVE_OUT then move_out E ip s1
          else if ip_status s1 ip \<in> {IMAGO_ERROR, IMAGO_DISPOSE, IMAGO_TERMINATE} then dispose E ip s1
          else Inr (icb_put_signal ENGINE_Q ip s1))
         (\<lambda>s2. Inr (True, s2)))"

section \<open>In thread\<close>

definition imago_in_cb :: "addr \<Rightarrow> sys \<Rightarrow> sys" where "imago_in_cb ip s = icb_put_signal IN_Q ip s"

text \<open>
  The queen's files are taken over when the imago is home.  q_ip is read although
  no log of the application may have been found.
\<close>

definition restore_streams :: "env \<Rightarrow> addr \<Rightarrow> sys \<Rightarrow> sys res" where
  "restore_streams E ip s =
     bind_res (of_opt (log_find (h_host_id (ip_queen (s_icb s ip))) (ip_application (s_icb s ip)) None s)) (\<lambda>l.
       if l = NULL then Inl F_Uninit
       else (let q = lg_ip (s_log s l) in
         if q = NULL then Inr s
         else bind_res (icb_lock q s) (\<lambda>s1.
           let t = s_icb s1 q in
           Inr (icb_unlock q
             (if status (core t) \<noteq> IMAGO_INVALID
              then upd_icb ip (\<lambda>u. u\<lparr>ip_cin := ip_cin t, ip_cout := ip_cout t, ip_cerr := ip_cerr t\<rparr>) s1
              else s1)))))"

definition arrive :: "env \<Rightarrow> addr \<Rightarrow> sys \<Rightarrow> sys res" where
  "arrive E ip s =
     bind_res
       (if \<not> is_messenger (core (s_icb s ip)) then
          (let s1 = (if ip_status s ip \<noteq> IMAGO_ERROR then upd_icb ip (\<lambda>t. t\<lparr>ip_jumps := ip_jumps t + 1\<rparr>) s else s);
               t = s_icb s1 ip in
           bind_res (of_opt (log_find (h_host_id (ip_queen t)) (ip_application t) (Some (ip_name t)) s1)) (\<lambda>l.
             bind_res (log_alive (e_log_size E) (e_malloc_log E s1) l ip s1) (\<lambda>(_, s2). Inr s2)))
        else Inr s)
       (\<lambda>s2.
          let s3 = set_status (if ip_status s2 ip = IMAGO_ERROR then IMAGO_BACKTRACK else IMAGO_READY) ip s2;
              s4 = (if s_stop s3 then set_status IMAGO_TERMINATE ip s3 else s3) in
          bind_res
            (if h_host_id (ip_queen (s_icb s4 ip)) = e_hostid E
             then bind_res (restore_streams E ip s4) (\<lambda>s5. of_opt (release_waiting_msger s5))
             else Inr s4)
            (\<lambda>s6. Inr (icb_put_signal ENGINE_Q ip s6)))"

definition imago_in :: "env \<Rightarrow> sys \<Rightarrow> (bool \<times> sys) res" where
  "imago_in E s =
     bind_res (icb_get IN_Q s) (\<lambda>(ip, s1).
       if idle ip s1 then Inr (False, s1)
       else bind_res
         (if ip_status s1 ip = IMAGO_MOVE_IN \<or> ip_status s1 ip = IMAGO_ERROR then arrive E ip s1
          else Inr (icb_put_signal OUT_Q ip s1))
         (\<lambda>s2. Inr (True, s2)))"

section \<open>Timer thread\<close>

text \<open>timercmp, timeradd and timersub of the C library.\<close>

definition timer_less :: "timeval \<Rightarrow> timeval \<Rightarrow> bool" where
  "timer_less a b = (if tv_sec a = tv_sec b then tv_usec a < tv_usec b else tv_sec a < tv_sec b)"

definition timer_add :: "timeval \<Rightarrow> timeval \<Rightarrow> timeval" where
  "timer_add a b =
     (let s = tv_sec a + tv_sec b; u = tv_usec a + tv_usec b in
      if 1000000 \<le> u then \<lparr>tv_sec = s + 1, tv_usec = u - 1000000\<rparr> else \<lparr>tv_sec = s, tv_usec = u\<rparr>)"

definition timer_sub :: "timeval \<Rightarrow> timeval \<Rightarrow> timeval" where
  "timer_sub a b =
     (let s = tv_sec a - tv_sec b; u = tv_usec a - tv_usec b in
      if u < 0 then \<lparr>tv_sec = s - 1, tv_usec = u + 1000000\<rparr> else \<lparr>tv_sec = s, tv_usec = u\<rparr>)"

definition timer_clear :: timeval where "timer_clear = \<lparr>tv_sec = 0, tv_usec = 0\<rparr>"

definition timer_isset :: "timeval \<Rightarrow> bool" where "timer_isset t = (tv_sec t \<noteq> 0 \<or> tv_usec t \<noteq> 0)"

abbreviation dday :: "sys \<Rightarrow> addr \<Rightarrow> timeval" where "dday s ip \<equiv> ip_dday (s_icb s ip)"

definition set_dday :: "timeval \<Rightarrow> addr \<Rightarrow> sys \<Rightarrow> sys" where
  "set_dday tv ip = upd_icb ip (\<lambda>t. t\<lparr>ip_dday := tv\<rparr>)"

text \<open>ip->log->status = st; a messenger has no log.\<close>

definition set_log_status :: "log_status \<Rightarrow> addr \<Rightarrow> sys \<Rightarrow> sys res" where
  "set_log_status st ip s =
     (let l = ip_log (s_icb s ip) in
      if l = NULL then Inl F_Null else Inr (upd_log l (\<lambda>e. e\<lparr>lg_status := st\<rparr>) s))"

text \<open>The for loop after restart: it stops at an expired ICB, or waits at a locked one.\<close>

definition first_expired :: "timeval \<Rightarrow> sys \<Rightarrow> addr option" where
  "first_expired tv s =
     while_option (\<lambda>p. p \<noteq> NULL \<and> \<not> s_locked s p \<and> \<not> timer_less (dday s p) tv) (s_next s)
       (q_head (s_queue s INTERNAL_Q))"

definition wake :: "addr \<Rightarrow> sys \<Rightarrow> sys res" where
  "wake p s =
     bind_res (of_opt (icb_remove p (s_next s, s_queue s INTERNAL_Q))) (\<lambda>(nx, q).
       let s1 = s\<lparr>s_next := nx, s_queue := (s_queue s)(INTERNAL_Q := q)\<rparr>;
           s2 = (if ip_status s1 p = IMAGO_TIMER then set_status IMAGO_READY p s1 else s1);
           s3 = set_dday timer_clear p s2 in
       bind_res (set_log_status LOG_ALIVE p s3) (\<lambda>s4. Inr (icb_put_signal ENGINE_Q p s4)))"

text \<open>One pass of restart; True when it woke an ICB and starts again.\<close>

definition wake_expired :: "sys \<Rightarrow> (bool \<times> sys) res" where
  "wake_expired s =
     (let (tv, s1) = now s in
      bind_res (of_opt (first_expired tv s1)) (\<lambda>p.
        if p = NULL then Inr (False, s1)
        else if s_locked s1 p then Inl F_Blocked
        else bind_res (wake p s1) (\<lambda>s2. Inr (True, s2))))"

definition wake_all :: "sys \<Rightarrow> sys res" where
  "wake_all s =
     bind_res (of_opt (while_option (\<lambda>r. case r of Inl e \<Rightarrow> False | Inr (again, t) \<Rightarrow> again)
         (\<lambda>r. bind_res r (\<lambda>(again, t). wake_expired t)) (Inr (True, s))))
       (\<lambda>r. bind_res r (\<lambda>(again, t). Inr t))"

definition earliest :: "sys \<Rightarrow> timeval option" where
  "earliest s =
     (let h = q_head (s_queue s INTERNAL_Q) in
      map_option snd (while_option (\<lambda>(p, tv). p \<noteq> NULL)
        (\<lambda>(p, tv). (s_next s p, if timer_less (dday s p) tv then dday s p else tv))
        (s_next s h, dday s h)))"

definition set_alarm :: "env \<Rightarrow> sys \<Rightarrow> sys res" where
  "set_alarm E s =
     (if que_empty (s_queue s INTERNAL_Q)
      then Inr (if 0 \<le> s_wakeup s then s\<lparr>s_wakeup := - 1, s_alarm := None\<rparr> else s)
      else bind_res (of_opt (earliest s)) (\<lambda>tv1.
        let s1 = (if s_wakeup s < 0 then s\<lparr>s_wakeup := e_timer_new E s\<rparr> else s) in
        if s_wakeup s1 < 0 then Inr s1
        else (let (tv, s2) = now s1;
                  tv2 = (if timer_less tv1 tv then \<lparr>tv_sec = 0, tv_usec = 1\<rparr> else timer_sub tv1 tv)
              in Inr (s2\<lparr>s_alarm := Some tv2\<rparr>))))"

definition timer_recall :: "env \<Rightarrow> sys \<Rightarrow> sys res" where
  "timer_recall E s = bind_res (wake_all s) (set_alarm E)"

definition flush_first :: "sys \<Rightarrow> sys res" where
  "flush_first s =
     (let (ip, s1) = que_first INTERNAL_Q s in
      bind_res (icb_lock ip s1) (\<lambda>s2.
        bind_res (set_log_status LOG_ALIVE ip (set_status IMAGO_READY ip s2)) (\<lambda>s3.
          Inr (icb_put_signal ENGINE_Q ip s3))))"

definition timer_flush :: "sys \<Rightarrow> sys res" where
  "timer_flush s =
     bind_res (of_opt (while_option
         (\<lambda>r. case r of Inl e \<Rightarrow> False | Inr t \<Rightarrow> \<not> que_empty (s_queue t INTERNAL_Q))
         (\<lambda>r. bind_res r flush_first) (Inr s))) (\<lambda>r. r)"

text \<open>The deadline from the argument of sleep on the stack top; None for an illegal one.\<close>

definition sleep_time :: "env \<Rightarrow> store \<Rightarrow> word32 \<Rightarrow> timeval option" where
  "sleep_time E m v =
     (if is_int v then Some \<lparr>tv_sec = sint (int_value v), tv_usec = 0\<rparr>
      else if is_float m v then Some (e_seconds E (float_value m v))
      else None)"

definition sleep_until :: "env \<Rightarrow> addr \<Rightarrow> sys \<Rightarrow> sys res" where
  "sleep_until E ip s =
     (let (tv, s1) = now s in
      bind_res
        (if \<not> timer_isset (dday s1 ip) then
           bind_res (of_opt (deref_word (s_mem s1) (s_mem s1 (i_st (core (s_icb s1 ip)))))) (\<lambda>v.
             Inr (case sleep_time E (s_mem s1) v of
                    None \<Rightarrow> None
                  | Some tv1 \<Rightarrow> Some (set_dday (timer_add tv tv1) ip s1)))
         else Inr (Some s1))
        (\<lambda>r. case r of
            None \<Rightarrow> Inr (icb_put_signal ENGINE_Q ip (set_error (ecode E_ILLEGAL_ARGUMENT) ip s1))
          | Some s2 \<Rightarrow>
              (if timer_less (dday s2 ip) tv
               then Inr (icb_put_signal ENGINE_Q ip (set_status IMAGO_READY ip (set_dday timer_clear ip s2)))
               else bind_res (set_log_status LOG_SLEEPING ip (icb_put_q INTERNAL_Q ip s2)) (timer_recall E))))"

definition imago_timer :: "env \<Rightarrow> sys \<Rightarrow> (bool \<times> sys) res" where
  "imago_timer E s =
     bind_res (icb_get TIMER_Q s) (\<lambda>(ip, s1).
       if idle ip s1 then bind_res (if s_stop s1 then timer_flush s1 else Inr s1) (\<lambda>s2. Inr (False, s2))
       else if s_stop s1 then Inr (True, icb_put_signal ENGINE_Q ip (set_status IMAGO_READY ip s1))
       else if ip_status s1 ip = IMAGO_TIMER
       then bind_res (sleep_until E ip s1) (\<lambda>s2. Inr (True, s2))
       else Inr (True, icb_put_signal ENGINE_Q ip s1))"

end
