(* ===== verification/MLVM_System_Correct.thy ===== *)
theory MLVM_System_Correct
  imports MLVM_Threads
begin

text \<open>
  Correctness of the system threads: the invariant of the shared queues, its
  preservation by the macros and the handlers, the routing of the scheduler, the
  job counter, and the two release loops.  The queue operations are used through
  the interface link_queue.
\<close>

section \<open>The queue invariant\<close>

text \<open>The queues whose ICBs the counter jobs counts.\<close>

definition job_queues :: "qname list" where
  "job_queues = [CREATOR_Q, MEMORY_Q, ENGINE_Q, OUT_Q, IN_Q, TIMER_Q]"

type_synonym contents = "qname \<Rightarrow> addr list"

definition njobs :: "contents \<Rightarrow> nat" where "njobs C = (\<Sum>Q\<leftarrow>job_queues. length (C Q))"

text \<open>
  Every queue is a well-formed chain, no ICB is in two queues, queued ICBs are
  unlocked and jobs counts the runnable ones.
\<close>

definition sys_rep :: "sys \<Rightarrow> contents \<Rightarrow> bool" where
  "sys_rep s C =
     ((\<forall>Q. icb_rep (s_next s, s_queue s Q) (C Q))
      \<and> (\<forall>Q R. Q \<noteq> R \<longrightarrow> set (C Q) \<inter> set (C R) = {})
      \<and> (\<forall>Q. \<forall>ip\<in>set (C Q). \<not> s_locked s ip)
      \<and> s_jobs s = njobs C)"

definition held :: "addr \<Rightarrow> contents \<Rightarrow> bool" where
  "held ip C = (ip \<noteq> NULL \<and> (\<forall>Q. ip \<notin> set (C Q)))"

lemma icb_rep_cong:
  "(\<And>p. p \<in> set xs \<Longrightarrow> nx p = ny p) \<Longrightarrow> icb_rep (nx, q) xs = icb_rep (ny, q) xs"
  using chain_cong [of xs nx ny] by simp

lemma sys_rep_cong:
  "s_next s = s_next t \<Longrightarrow> s_queue s = s_queue t \<Longrightarrow> s_locked s = s_locked t \<Longrightarrow> s_jobs s = s_jobs t \<Longrightarrow>
     sys_rep s C = sys_rep t C"
  by (simp add: sys_rep_def)

lemma upd_fields [simp]:
  "s_next (upd_icb ip f s) = s_next s" "s_queue (upd_icb ip f s) = s_queue s"
  "s_locked (upd_icb ip f s) = s_locked s" "s_jobs (upd_icb ip f s) = s_jobs s"
  "s_mem (upd_icb ip f s) = s_mem s" "s_stop (upd_icb ip f s) = s_stop s"
  "s_log (upd_icb ip f s) = s_log s" "s_icb (upd_icb ip f s) = (s_icb s)(ip := f (s_icb s ip))"
  "s_next (upd_log l g s) = s_next s" "s_queue (upd_log l g s) = s_queue s"
  "s_locked (upd_log l g s) = s_locked s" "s_jobs (upd_log l g s) = s_jobs s"
  "s_icb (upd_log l g s) = s_icb s" "s_mem (upd_log l g s) = s_mem s" "s_stop (upd_log l g s) = s_stop s"
  by (simp_all add: upd_icb_def upd_log_def)

lemma upd_rep [simp]:
  "sys_rep (upd_icb ip f s) C = sys_rep s C" "sys_rep (upd_log l g s) C = sys_rep s C"
  "sys_rep (set_status st ip s) C = sys_rep s C" "sys_rep (set_error e ip s) C = sys_rep s C"
  "sys_rep (s\<lparr>s_mem := m\<rparr>) C = sys_rep s C" "sys_rep (s\<lparr>s_ticks := n\<rparr>) C = sys_rep s C"
  "sys_rep (s\<lparr>s_log_next := nx\<rparr>) C = sys_rep s C" "sys_rep (s\<lparr>s_free_logs := q\<rparr>) C = sys_rep s C"
  "sys_rep (s\<lparr>s_log_next := nx, s_free_logs := q\<rparr>) C = sys_rep s C"
  "sys_rep (s\<lparr>s_log_next := nx, s_live_logs := q\<rparr>) C = sys_rep s C"
  "sys_rep (snd (now s)) C = sys_rep s C"
  by (rule sys_rep_cong; simp add: set_status_def set_error_def upd_core_def now_def)+

lemma njobs_upd:
  "njobs (C(Q := xs)) + (if Q \<in> set job_queues then length (C Q) else 0)
     = njobs C + (if Q \<in> set job_queues then length xs else 0)"
  by (simp add: njobs_def job_queues_def)

text \<open>Taking the first ICB off a queue and appending a held one.\<close>

lemma que_first_rep:
  assumes "sys_rep s C" "C Q = ip # xs"
  obtains q where "que_first Q s = (ip, s\<lparr>s_queue := (s_queue s)(Q := q)\<rparr>)"
    "\<And>R. icb_rep (s_next s, ((s_queue s)(Q := q)) R) ((C(Q := xs)) R)" "held ip (C(Q := xs))"
proof -
  have r: "icb_rep (s_next s, s_queue s Q) (ip # xs)" using assms by (metis sys_rep_def)
  obtain q where q: "icb_first (s_next s, s_queue s Q) = (ip, s_next s, q)" "icb_rep (s_next s, q) xs"
    using icb_first_rep [OF r] by (auto simp: icb_first_def Let_def)
  have "que_first Q s = (ip, s\<lparr>s_queue := (s_queue s)(Q := q)\<rparr>)"
    by (simp add: que_first_def q(1))
  moreover have "icb_rep (s_next s, ((s_queue s)(Q := q)) R) ((C(Q := xs)) R)" for R
    using q(2) assms(1) by (simp add: sys_rep_def)
  moreover have "held ip (C(Q := xs))"
  proof -
    have "ip \<noteq> NULL" "ip \<notin> set xs" using icbq.rep_nodes [OF r] by auto
    moreover have "ip \<notin> set (C R)" if "R \<noteq> Q" for R
      using assms that unfolding sys_rep_def by (metis disjoint_iff list.set_intros(1))
    ultimately show ?thesis by (simp add: held_def)
  qed
  ultimately show ?thesis using that by blast
qed

lemma icb_get_rep:
  assumes "sys_rep s C" "C Q = ip # xs" "Q \<in> set job_queues"
  obtains s1 where "icb_get Q s = Inr (ip, s1)" "sys_rep s1 (C(Q := xs))" "held ip (C(Q := xs))"
    "s_locked s1 ip" "s_icb s1 = s_icb s" "s_mem s1 = s_mem s" "s_stop s1 = s_stop s" "s_log s1 = s_log s"
proof -
  obtain q where q: "que_first Q s = (ip, s\<lparr>s_queue := (s_queue s)(Q := q)\<rparr>)"
    "\<And>R. icb_rep (s_next s, ((s_queue s)(Q := q)) R) ((C(Q := xs)) R)" "held ip (C(Q := xs))"
    using que_first_rep [OF assms(1,2)] by blast
  define s1 where "s1 = s\<lparr>s_queue := (s_queue s)(Q := q), s_jobs := s_jobs s - 1,
      s_locked := (s_locked s)(ip := True)\<rparr>"
  have ne: "\<not> que_empty (s_queue s Q)"
    using assms(1,2) by (auto simp: sys_rep_def que_empty_def dest!: spec [where x = Q])
  have unl: "\<not> s_locked s ip" using assms(1,2) by (auto simp: sys_rep_def dest!: spec [where x = Q])
  have nz: "s_jobs s = Suc (njobs (C(Q := xs)))"
    using njobs_upd [of C Q xs] assms by (simp add: sys_rep_def)
  have "icb_get Q s = Inr (ip, s1)"
    using ne unl nz q(1) by (simp add: icb_get_def dec_jobs_def icb_lock_def s1_def)
  moreover have "sys_rep s1 (C(Q := xs))"
    unfolding sys_rep_def
  proof (intro conjI allI impI ballI)
    fix R show "icb_rep (s_next s1, s_queue s1 R) ((C(Q := xs)) R)" using q(2) by (simp add: s1_def)
  next
    fix R T :: qname assume ne: "R \<noteq> T"
    have "set ((C(Q := xs)) U) \<subseteq> set (C U)" for U using assms(2) by auto
    moreover have "set (C R) \<inter> set (C T) = {}" using assms(1) ne by (simp add: sys_rep_def)
    ultimately show "set ((C(Q := xs)) R) \<inter> set ((C(Q := xs)) T) = {}" by blast
  next
    fix R p assume p: "p \<in> set ((C(Q := xs)) R)"
    hence "p \<in> set (C R)" "p \<noteq> ip" using assms(2) q(3) by (auto simp: held_def split: if_splits)
    thus "\<not> s_locked s1 p" using assms(1) by (auto simp: s1_def sys_rep_def)
  next
    show "s_jobs s1 = njobs (C(Q := xs))" using nz by (simp add: s1_def)
  qed
  ultimately show ?thesis using that q(3) by (simp add: s1_def)
qed

lemma que_first_waiting:
  assumes "sys_rep s C" "C Q = ip # xs" "Q \<notin> set job_queues"
  obtains s1 where "que_first Q s = (ip, s1)" "sys_rep s1 (C(Q := xs))" "held ip (C(Q := xs))"
    "s_icb s1 = s_icb s" "s_mem s1 = s_mem s" "s_stop s1 = s_stop s" "s_log s1 = s_log s"
    "s_locked s1 = s_locked s"
proof -
  obtain q where q: "que_first Q s = (ip, s\<lparr>s_queue := (s_queue s)(Q := q)\<rparr>)"
    "\<And>R. icb_rep (s_next s, ((s_queue s)(Q := q)) R) ((C(Q := xs)) R)" "held ip (C(Q := xs))"
    using que_first_rep [OF assms(1,2)] by blast
  define s1 where "s1 = s\<lparr>s_queue := (s_queue s)(Q := q)\<rparr>"
  have sub: "set ((C(Q := xs)) U) \<subseteq> set (C U)" for U using assms(2) by auto
  have "sys_rep s1 (C(Q := xs))"
    unfolding sys_rep_def
  proof (intro conjI allI impI ballI)
    fix R show "icb_rep (s_next s1, s_queue s1 R) ((C(Q := xs)) R)" using q(2) by (simp add: s1_def)
  next
    fix R T :: qname assume ne: "R \<noteq> T"
    hence "set (C R) \<inter> set (C T) = {}" using assms(1) by (simp add: sys_rep_def)
    thus "set ((C(Q := xs)) R) \<inter> set ((C(Q := xs)) T) = {}" using sub by blast
  next
    fix R p assume "p \<in> set ((C(Q := xs)) R)"
    hence "p \<in> set (C R)" using sub by blast
    thus "\<not> s_locked s1 p" using assms(1) by (auto simp: s1_def sys_rep_def)
  next
    show "s_jobs s1 = njobs (C(Q := xs))"
      using njobs_upd [of C Q xs] assms(1,3) by (simp add: s1_def sys_rep_def)
  qed
  thus ?thesis using that q(1,3) by (simp add: s1_def)
qed

lemma put_q_rep:
  assumes "\<And>R. icb_rep (s_next s, s_queue s R) (C R)" "held ip C"
    and "\<And>Q R. Q \<noteq> R \<Longrightarrow> set (C Q) \<inter> set (C R) = {}" "\<And>Q p. p \<in> set (C Q) \<Longrightarrow> \<not> s_locked s p"
  shows "(\<forall>R. icb_rep (s_next (icb_put_q Q ip s), s_queue (icb_put_q Q ip s) R) ((C(Q := C Q @ [ip])) R))
    \<and> (\<forall>P R. P \<noteq> R \<longrightarrow> set ((C(Q := C Q @ [ip])) P) \<inter> set ((C(Q := C Q @ [ip])) R) = {})
    \<and> (\<forall>R. \<forall>p\<in>set ((C(Q := C Q @ [ip])) R). \<not> s_locked (icb_put_q Q ip s) p)"
proof -
  have h: "ip \<noteq> NULL" "ip \<notin> set (C R)" for R using assms(2) by (auto simp: held_def)
  obtain nx q where a: "icb_append ip (s_next s, s_queue s Q) = (nx, q)" by fastforce
  have e: "icb_put_q Q ip s = s\<lparr>s_next := nx, s_queue := (s_queue s)(Q := q),
      s_locked := (s_locked s)(ip := False)\<rparr>"
    by (simp add: icb_put_q_def on_queue_def a icb_unlock_def)
  have rq: "icb_rep (nx, q) (C Q @ [ip])"
    using icbq.enq_rep [OF assms(1) h(1) h(2), of Q] a by simp
  have fr: "nx p = s_next s p" if "p \<notin> insert ip (set (C Q))" for p
    using icbq.enq_frame [OF assms(1) that] a by simp
  have "icb_rep (nx, s_queue s R) (C R)" if "R \<noteq> Q" for R
  proof -
    have "\<And>p. p \<in> set (C R) \<Longrightarrow> nx p = s_next s p"
      using fr h(2) assms(3) [OF that] by (metis disjoint_iff insert_iff)
    thus ?thesis using icb_rep_cong [of "C R" nx "s_next s"] assms(1) by blast
  qed
  thus ?thesis using rq assms(3,4) h by (auto simp: e)
qed

lemma put_rep:
  assumes "sys_rep s C" "held ip C"
  shows "Q \<in> set job_queues \<Longrightarrow> sys_rep (icb_put_signal Q ip s) (C(Q := C Q @ [ip]))"
    "Q \<in> set job_queues \<Longrightarrow> sys_rep (icb_put Q ip s) (C(Q := C Q @ [ip]))"
    "Q \<notin> set job_queues \<Longrightarrow> sys_rep (icb_put_q Q ip s) (C(Q := C Q @ [ip]))"
proof -
  have j: "s_jobs (icb_put_q Q ip s) = s_jobs s"
    by (simp add: icb_put_q_def icb_unlock_def on_queue_def split: prod.splits)
  have b: "s_next (icb_put_signal Q ip s) = s_next (icb_put_q Q ip s)"
    "s_queue (icb_put_signal Q ip s) = s_queue (icb_put_q Q ip s)"
    "s_locked (icb_put_signal Q ip s) = s_locked (icb_put_q Q ip s)"
    "s_jobs (icb_put_signal Q ip s) = Suc (s_jobs s)" "s_jobs (icb_put Q ip s) = Suc (s_jobs s)"
    "s_next (icb_put Q ip s) = s_next (icb_put_q Q ip s)"
    "s_queue (icb_put Q ip s) = s_queue (icb_put_q Q ip s)"
    "s_locked (icb_put Q ip s) = s_locked (icb_put_q Q ip s)"
    by (simp_all add: icb_put_signal_def icb_put_def inc_jobs_s_def inc_jobs_def Let_def j)
  have p: "(\<forall>R. icb_rep (s_next (icb_put_q Q ip s), s_queue (icb_put_q Q ip s) R) ((C(Q := C Q @ [ip])) R))
    \<and> (\<forall>P R. P \<noteq> R \<longrightarrow> set ((C(Q := C Q @ [ip])) P) \<inter> set ((C(Q := C Q @ [ip])) R) = {})
    \<and> (\<forall>R. \<forall>p\<in>set ((C(Q := C Q @ [ip])) R). \<not> s_locked (icb_put_q Q ip s) p)"
    by (rule put_q_rep) (use assms in \<open>auto simp: sys_rep_def\<close>)
  have n: "njobs (C(Q := C Q @ [ip])) = njobs C + (if Q \<in> set job_queues then 1 else 0)"
    using njobs_upd [of C Q "C Q @ [ip]"] by (simp split: if_splits)
  show "Q \<in> set job_queues \<Longrightarrow> sys_rep (icb_put_signal Q ip s) (C(Q := C Q @ [ip]))"
    "Q \<in> set job_queues \<Longrightarrow> sys_rep (icb_put Q ip s) (C(Q := C Q @ [ip]))"
    "Q \<notin> set job_queues \<Longrightarrow> sys_rep (icb_put_q Q ip s) (C(Q := C Q @ [ip]))"
    using p n assms(1) unfolding sys_rep_def b j by auto
qed

lemma put_fields [simp]:
  "s_icb (icb_put_q Q ip s) = s_icb s" "s_icb (icb_put_signal Q ip s) = s_icb s" "s_icb (icb_put Q ip s) = s_icb s"
  "s_mem (icb_put_q Q ip s) = s_mem s" "s_mem (icb_put_signal Q ip s) = s_mem s" "s_mem (icb_put Q ip s) = s_mem s"
  "s_log (icb_put_q Q ip s) = s_log s" "s_log (icb_put_signal Q ip s) = s_log s" "s_log (icb_put Q ip s) = s_log s"
  "s_stop (icb_put_signal Q ip s) = s_stop s" "s_stop (icb_put_q Q ip s) = s_stop s"
  "s_clock (icb_put_signal Q ip s) = s_clock s" "s_ticks (icb_put_signal Q ip s) = s_ticks s"
  by (simp_all add: icb_put_signal_def icb_put_def icb_put_q_def inc_jobs_s_def inc_jobs_def icb_unlock_def
      on_queue_def Let_def split: prod.splits)

lemma status_fields [simp]:
  "s_icb (set_status st ip s) = (s_icb s)(ip := (s_icb s ip)\<lparr>core := (core (s_icb s ip))\<lparr>status := st\<rparr>\<rparr>)"
  "s_icb (set_error e ip s) =
     (s_icb s)(ip := (s_icb s ip)\<lparr>core := (core (s_icb s ip))\<lparr>status := IMAGO_ERROR, i_nl := e\<rparr>\<rparr>)"
  by (simp_all add: set_status_def set_error_def upd_core_def)

lemma unlock_fields [simp]:
  "s_icb (icb_unlock p s) = s_icb s" "s_mem (icb_unlock p s) = s_mem s" "s_log (icb_unlock p s) = s_log s"
  "s_stop (icb_unlock p s) = s_stop s"
  by (simp_all add: icb_unlock_def)

lemma unlock_rep [simp]: "sys_rep s C \<Longrightarrow> sys_rep (icb_unlock p s) C"
  by (auto simp: sys_rep_def icb_unlock_def)

lemma lock_rep:
  "sys_rep s C \<Longrightarrow> held ip C \<Longrightarrow> sys_rep (s\<lparr>s_locked := (s_locked s)(ip := True)\<rparr>) C"
  by (auto simp: sys_rep_def held_def)

section \<open>Scheduler\<close>

lemma engine_thread_rep:
  "engine_thread B D ip s = Inr s' \<Longrightarrow> sys_rep s' C = sys_rep s C"
  by (auto simp: engine_thread_def upd_core_def split: option.splits outcome.splits)

text \<open>Where the contents go when ip, already off its queue, is routed to Q.\<close>

definition routed :: "qname option \<Rightarrow> addr \<Rightarrow> contents \<Rightarrow> contents" where
  "routed r ip C = (case r of Some Q \<Rightarrow> C(Q := C Q @ [ip]) | None \<Rightarrow> C)"

lemma route_jobs: "route st = Some Q \<Longrightarrow> Q \<in> set job_queues"
  by (cases st) (auto simp: job_queues_def)

lemma scheduler_run:
  assumes "sys_rep s C" "C ENGINE_Q = ip # xs" "\<not> idle ip s" "\<not> stopping ip s"
    and "e_engine E = engine_thread B D" "engine B D (core (s_icb s ip)) (s_mem s) = Some (Return t)"
  shows "\<exists>s'. imago_scheduler E s = Inr (True, s') \<and> core (s_icb s' ip) = plt t \<and> s_mem s' = mem t
    \<and> (\<forall>p. p \<noteq> ip \<longrightarrow> s_icb s' p = s_icb s p)
    \<and> sys_rep s' (routed (route (status (plt t))) ip (C(ENGINE_Q := xs))) \<and> \<not> s_locked s' ip"
proof -
  have eq: "ENGINE_Q \<in> set job_queues" by (simp add: job_queues_def)
  obtain s1 where g: "icb_get ENGINE_Q s = Inr (ip, s1)" "sys_rep s1 (C(ENGINE_Q := xs))"
    "held ip (C(ENGINE_Q := xs))" "s_icb s1 = s_icb s" "s_mem s1 = s_mem s" "s_stop s1 = s_stop s"
    using icb_get_rep [OF assms(1,2) eq] by blast
  have ni: "\<not> idle ip s1" "\<not> stopping ip s1" using assms(3,4) g(4,6) by (auto simp: idle_def stopping_def)
  define s2 where "s2 = upd_core ip (\<lambda>_. plt t) (s1\<lparr>s_mem := mem t\<rparr>)"
  have e: "e_engine E ip s1 = Inr s2" using assms(5,6) g(4,5) by (simp add: engine_thread_def s2_def)
  have r2: "sys_rep s2 (C(ENGINE_Q := xs))" using g(2) by (simp add: s2_def upd_core_def)
  have i2: "core (s_icb s2 ip) = plt t" "s_mem s2 = mem t" "\<forall>p. p \<noteq> ip \<longrightarrow> s_icb s2 p = s_icb s p"
    by (simp_all add: s2_def upd_core_def g(4))
  show ?thesis
  proof (cases "route (status (plt t))")
    case None
    hence "imago_scheduler E s = Inr (True, icb_unlock ip s2)"
      using g(1) ni e i2(1) by (simp add: imago_scheduler_def)
    thus ?thesis using None i2 unlock_rep [OF r2, of ip] by (simp add: routed_def icb_unlock_def)
  next
    case (Some Q)
    hence "imago_scheduler E s = Inr (True, icb_put_signal Q ip s2)"
      using g(1) ni e i2(1) by (simp add: imago_scheduler_def)
    moreover have p: "sys_rep (icb_put_signal Q ip s2) (routed (Some Q) ip (C(ENGINE_Q := xs)))"
      using put_rep(1) [OF r2 g(3) route_jobs [OF Some]] by (simp add: routed_def)
    moreover have "ip \<in> set ((routed (Some Q) ip (C(ENGINE_Q := xs))) Q)" by (simp add: routed_def)
    hence "\<not> s_locked (icb_put_signal Q ip s2) ip" using p unfolding sys_rep_def by blast
    ultimately show ?thesis using Some i2 by simp
  qed
qed

section \<open>The release loops\<close>

lemma rep_empty: "sys_rep s C \<Longrightarrow> que_empty (s_queue s Q) = (C Q = [])"
proof -
  assume "sys_rep s C"
  hence "icb_rep (s_next s, s_queue s Q) (C Q)" by (simp only: sys_rep_def)
  thus ?thesis using chain_end [of "s_next s" "q_head (s_queue s Q)" "C Q"] by (simp add: que_empty_def)
qed

text \<open>ICBs leaving a waiting queue one by one, each to the queue f gives it, or to none.\<close>

fun drain :: "(addr \<Rightarrow> qname option) \<Rightarrow> addr list \<Rightarrow> contents \<Rightarrow> contents" where
  "drain f [] C = C"
| "drain f (ip # ips) C = drain f ips (routed (f ip) ip C)"

definition release_body :: "qname \<Rightarrow> (sys \<Rightarrow> addr \<Rightarrow> qname option) \<Rightarrow> sys \<Rightarrow> sys" where
  "release_body W f s =
     (let (ip, s1) = que_first W s in case f s1 ip of Some Q \<Rightarrow> icb_put_signal Q ip s1 | None \<Rightarrow> s1)"

lemma release_loop:
  assumes "sys_rep s C" "W \<notin> set job_queues"
    and f: "\<And>s ip Q. f s ip = Some Q \<Longrightarrow> Q \<in> set job_queues"
    and dep: "\<And>s t ip. s_icb s = s_icb t \<Longrightarrow> f s ip = f t ip"
  shows "\<exists>s'. while_option (\<lambda>s. \<not> que_empty (s_queue s W)) (release_body W f) s = Some s'
     \<and> s_icb s' = s_icb s \<and> s_mem s' = s_mem s \<and> s_stop s' = s_stop s \<and> s_log s' = s_log s
     \<and> sys_rep s' (drain (f s) (C W) (C(W := [])))"
  using assms(1)
proof (induction "C W" arbitrary: s C)
  case Nil
  have "C(W := []) = C" using Nil(1) by auto
  thus ?case using Nil rep_empty [OF Nil(2)] by (subst while_option_unfold) (simp flip: Nil(1))
next
  case (Cons ip xs)
  obtain s1 where q: "que_first W s = (ip, s1)" "sys_rep s1 (C(W := xs))" "held ip (C(W := xs))"
    "s_icb s1 = s_icb s" "s_mem s1 = s_mem s" "s_stop s1 = s_stop s" "s_log s1 = s_log s"
    using que_first_waiting [OF Cons(3) Cons(2) [symmetric] assms(2)] by blast
  define s2 where "s2 = release_body W f s"
  have s2: "s2 = (case f s ip of Some Q \<Rightarrow> icb_put_signal Q ip s1 | None \<Rightarrow> s1)"
    using q(1) dep [OF q(4)] by (simp add: s2_def release_body_def)
  let ?C = "routed (f s ip) ip (C(W := xs))"
  have r: "sys_rep s2 ?C" using q(2) put_rep(1) [OF q(2,3)] f by (auto simp: s2 routed_def split: option.splits)
  have W: "?C W = xs" using f assms(2) by (auto simp: routed_def split: option.splits)
  have i: "s_icb s2 = s_icb s" "s_mem s2 = s_mem s" "s_stop s2 = s_stop s" "s_log s2 = s_log s"
    using q by (auto simp: s2 split: option.splits)
  have "?C(W := []) = routed (f s ip) ip (C(W := []))"
    using f assms(2) by (auto simp: routed_def split: option.splits)
  hence d: "drain (f s2) (?C W) (?C(W := [])) = drain (f s) (C W) (C(W := []))"
    using Cons(2) W dep [OF i(1)] by (metis drain.simps(2) ext)
  have "while_option (\<lambda>s. \<not> que_empty (s_queue s W)) (release_body W f) s
      = while_option (\<lambda>s. \<not> que_empty (s_queue s W)) (release_body W f) s2"
    using rep_empty [OF Cons(3), of W] Cons(2) [symmetric] by (subst while_option_unfold) (simp add: s2_def)
  thus ?case using Cons(1) [of ?C s2, OF W [symmetric] r] i d by simp
qed

lemma drain_all: "drain (\<lambda>_. Some Q) xs C = C(Q := C Q @ xs)"
  by (induction xs arbitrary: C) (auto simp: routed_def)

lemma release_msger_rep:
  assumes "sys_rep s C"
  shows "\<exists>s'. release_waiting_msger s = Some s' \<and> s_icb s' = s_icb s \<and> s_mem s' = s_mem s
     \<and> s_stop s' = s_stop s \<and> s_log s' = s_log s
     \<and> sys_rep s' (C(WAITING_MSGER_Q := [], ENGINE_Q := C ENGINE_Q @ C WAITING_MSGER_Q))"
proof -
  have b: "release_waiting_msger =
      while_option (\<lambda>s. \<not> que_empty (s_queue s WAITING_MSGER_Q))
        (release_body WAITING_MSGER_Q (\<lambda>_ _. Some ENGINE_Q))"
    unfolding release_waiting_msger_def release_body_def Let_def by simp
  have j: "WAITING_MSGER_Q \<notin> set job_queues" by (simp add: job_queues_def)
  show ?thesis
    using release_loop [OF assms j, of "\<lambda>_ _. Some ENGINE_Q"]
    unfolding b drain_all by (simp add: job_queues_def)
qed

lemma retry_route_jobs: "retry_route st = Some Q \<Longrightarrow> Q \<in> set job_queues"
  by (cases st) (auto simp: job_queues_def)

lemma release_mem_rep:
  assumes "sys_rep s C"
  shows "\<exists>s'. release_waiting_mem s = Some s' \<and> s_icb s' = s_icb s \<and> s_mem s' = s_mem s
     \<and> s_stop s' = s_stop s \<and> s_log s' = s_log s
     \<and> sys_rep s' (drain (\<lambda>ip. retry_route (ip_status s ip)) (C WAITING_MEM_Q) (C(WAITING_MEM_Q := [])))"
proof -
  have b: "release_waiting_mem =
      while_option (\<lambda>s. \<not> que_empty (s_queue s WAITING_MEM_Q))
        (release_body WAITING_MEM_Q (\<lambda>s ip. retry_route (ip_status s ip)))"
    unfolding release_waiting_mem_def release_body_def Let_def by simp
  have j: "WAITING_MEM_Q \<notin> set job_queues" by (simp add: job_queues_def)
  show ?thesis unfolding b
    by (rule release_loop [OF assms j, of "\<lambda>s ip. retry_route (ip_status s ip)"]) (simp_all add: retry_route_jobs)
qed

section \<open>Every handler keeps the invariant\<close>

text \<open>
  The contract of what a handler calls: queues stay well-formed and the ICB in
  hand stays in no queue.
\<close>

definition keeps_held :: "addr \<Rightarrow> (sys \<Rightarrow> 'a res) \<Rightarrow> ('a \<Rightarrow> sys) \<Rightarrow> bool" where
  "keeps_held ip f pr =
     (\<forall>s C x. sys_rep s C \<longrightarrow> held ip C \<longrightarrow> f s = Inr x \<longrightarrow> (\<exists>C'. sys_rep (pr x) C' \<and> held ip C'))"

definition env_ok :: "env \<Rightarrow> bool" where
  "env_ok E = (\<forall>ip. keeps_held ip (e_engine E ip) id \<and> keeps_held ip (e_mmanager E ip) fst
     \<and> keeps_held ip (e_loader E ip) fst \<and> keeps_held ip (e_sys_loader E ip) fst
     \<and> keeps_held ip (e_cloner E ip) fst \<and> keeps_held ip (e_dispatcher E ip) fst
     \<and> (\<forall>to. keeps_held ip (e_send E to ip) id) \<and> (\<forall>n. keeps_held ip (e_release_msger E ip n) id)
     \<and> keeps_held ip (e_sys_dispatcher E ip) id)"

definition ok_rep :: "sys res \<Rightarrow> bool" where
  "ok_rep r = (\<forall>s. r = Inr s \<longrightarrow> (\<exists>C. sys_rep s C))"

definition ok_rep2 :: "(bool \<times> sys) res \<Rightarrow> bool" where
  "ok_rep2 r = (\<forall>b s. r = Inr (b, s) \<longrightarrow> (\<exists>C. sys_rep s C))"

lemma ok_rep_bind:
  "(\<And>x. r = Inr x \<Longrightarrow> ok_rep (k x)) \<Longrightarrow> ok_rep (bind_res r k)"
  "(\<And>y. q = Inr y \<Longrightarrow> ok_rep2 (l y)) \<Longrightarrow> ok_rep2 (bind_res q l)"
  by (auto simp: bind_res_def ok_rep_def ok_rep2_def split: sum.splits)

lemma ok_rep_bind2: "ok_rep r \<Longrightarrow> ok_rep2 (bind_res r (\<lambda>s. Inr (b, s)))"
  by (auto simp: bind_res_def ok_rep_def ok_rep2_def split: sum.splits)

lemma ok_rep_intros:
  "sys_rep s C \<Longrightarrow> ok_rep (Inr s)" "sys_rep s C \<Longrightarrow> ok_rep2 (Inr (b, s))"
  "ok_rep (Inl e)" "ok_rep2 (Inl e)"
  by (auto simp: ok_rep_def ok_rep2_def)

lemma put_ok:
  assumes "sys_rep s C" "held ip C"
  shows "ok_rep (Inr (icb_put_signal CREATOR_Q ip s))" "ok_rep (Inr (icb_put_signal MEMORY_Q ip s))"
    "ok_rep (Inr (icb_put_signal ENGINE_Q ip s))" "ok_rep (Inr (icb_put_signal OUT_Q ip s))"
    "ok_rep (Inr (icb_put_signal IN_Q ip s))" "ok_rep (Inr (icb_put_signal TIMER_Q ip s))"
    "ok_rep (Inr (icb_put MEMORY_Q ip s))" "ok_rep (Inr (icb_put_q WAITING_MEM_Q ip s))"
    "ok_rep (Inr (icb_put_q INTERNAL_Q ip s))" "ok_rep (Inr (terminate ip s))"
proof -
  have "sys_rep (terminate ip s) (C(OUT_Q := C OUT_Q @ [ip]))"
    unfolding terminate_def by (rule put_rep(1)) (use assms in \<open>simp_all add: job_queues_def\<close>)
  thus "ok_rep (Inr (terminate ip s))" by (rule ok_rep_intros(1))
qed (rule ok_rep_intros(1), rule put_rep [OF assms], simp add: job_queues_def)+

lemma put_ok2: "ok_rep (Inr s) \<Longrightarrow> ok_rep2 (Inr (b, s))" by (simp add: ok_rep_def ok_rep2_def)

text \<open>A handler takes the first ICB of its queue, or finds nothing.\<close>

lemma get_cases:
  assumes "sys_rep s C" "Q \<in> set job_queues" "icb_get Q s = Inr (ip, s1)"
  obtains "ip = NULL" "s1 = s" | C' where "sys_rep s1 C'" "held ip C'"
proof (cases "C Q")
  case Nil
  hence "icb_get Q s = Inr (NULL, s)" using rep_empty [OF assms(1), of Q] by (simp add: icb_get_def)
  thus ?thesis using assms(3) that(1) by simp
next
  case (Cons p xs)
  show ?thesis
    by (rule icb_get_rep [OF assms(1) Cons assms(2)]) (use assms(3) that(2) in auto)
qed

lemma handler_ok:
  assumes "sys_rep s C" "Q \<in> set job_queues"
    and "\<And>ip s1 C'. sys_rep s1 C' \<Longrightarrow> held ip C' \<Longrightarrow> ok_rep2 (k (ip, s1))"
    and "\<And>s1 C'. sys_rep s1 C' \<Longrightarrow> ok_rep2 (k (NULL, s1))"
  shows "ok_rep2 (bind_res (icb_get Q s) k)"
proof (rule ok_rep_bind(2))
  fix y assume y: "icb_get Q s = Inr y"
  obtain ip s1 where "y = (ip, s1)" by fastforce
  thus "ok_rep2 (k y)"
    using get_cases [OF assms(1,2), of ip s1] y assms by metis
qed

lemma keeps_heldD:
  "keeps_held ip f pr \<Longrightarrow> sys_rep s C \<Longrightarrow> held ip C \<Longrightarrow> f s = Inr x \<Longrightarrow>
     \<exists>C'. sys_rep (pr x) C' \<and> held ip C'"
  unfolding keeps_held_def by blast

lemma scheduler_ok:
  assumes "env_ok E" "sys_rep s C"
  shows "ok_rep2 (imago_scheduler E s)"
  unfolding imago_scheduler_def
proof (rule handler_ok [OF assms(2)])
  fix ip s1 C' assume s1: "sys_rep s1 C'" "held ip C'"
  have "ok_rep2 (Inr (True, case route (ip_status s2 ip) of Some Q \<Rightarrow> icb_put_signal Q ip s2 | None \<Rightarrow> icb_unlock ip s2))"
    if e: "e_engine E ip s1 = Inr s2" for s2
  proof -
    have "keeps_held ip (e_engine E ip) id" using assms(1) by (simp add: env_ok_def)
    from keeps_heldD [OF this s1 e] obtain C2 where "sys_rep s2 C2" "held ip C2" by auto
    moreover have "\<exists>C. sys_rep (icb_unlock ip s2) C" using unlock_rep calculation(1) by blast
    ultimately show ?thesis using put_rep(1) [of s2 C2 ip] route_jobs [of "ip_status s2 ip"]
      unfolding ok_rep2_def by (cases "route (ip_status s2 ip)") auto
  qed
  thus "ok_rep2 ((\<lambda>(ip, s1). if idle ip s1 then Inr (False, s1)
      else if stopping ip s1 then Inr (True, terminate ip s1)
      else bind_res (e_engine E ip s1) (\<lambda>s2. Inr (True, case route (ip_status s2 ip) of
          Some Q \<Rightarrow> icb_put_signal Q ip s2 | None \<Rightarrow> icb_unlock ip s2))) (ip, s1))"
    using s1 by (auto intro: ok_rep_bind ok_rep_intros put_ok2 put_ok)
qed (auto simp: job_queues_def idle_def intro: ok_rep_intros)

lemma memory_ok:
  assumes "env_ok E" "sys_rep s C"
  shows "ok_rep2 (imago_memory E s)"
  unfolding imago_memory_def
proof (rule handler_ok [OF assms(2)])
  fix ip s1 C' assume s1: "sys_rep s1 C'" "held ip C'"
  have k: "\<exists>C2. sys_rep s2 C2 \<and> held ip C2" if "e_mmanager E ip s1 = Inr (s2, r)" for s2 r
    using keeps_heldD [of ip "e_mmanager E ip" fst s1 C' "(s2, r)"] assms(1) s1 that by (simp add: env_ok_def)
  show "ok_rep2 ((\<lambda>(ip, s1). if idle ip s1 then Inr (False, s1)
      else if stopping ip s1 then Inr (True, terminate ip s1)
      else bind_res (e_mmanager E ip s1) (\<lambda>(s2, r).
         if r = ecode E_SUCCEED
         then Inr (True, icb_put_signal ENGINE_Q ip (set_status IMAGO_READY ip s2))
         else if r = ecode E_MEMORY_OUT then
           (if s_stop s2 then Inr (True, terminate ip s2)
            else Inr (True, icb_put_q WAITING_MEM_Q ip s2))
         else if r = ecode E_RESSOURCE_BUSY then Inr (False, icb_put MEMORY_Q ip s2)
         else Inr (True, icb_put_signal OUT_Q ip (set_error r ip s2)))) (ip, s1))"
    using s1 by (auto intro!: ok_rep_bind put_ok2 put_ok dest!: k intro: ok_rep_intros)
qed (auto simp: job_queues_def idle_def intro: ok_rep_intros)

lemma create_rep:
  assumes "env_ok E" "sys_rep s C" "held ip C" "create E ip s = Inr (s2, r)"
  shows "\<exists>C2. sys_rep s2 C2 \<and> held ip C2"
proof -
  have k: "keeps_held ip (e_loader E ip) fst" "keeps_held ip (e_sys_loader E ip) fst"
    "keeps_held ip (e_cloner E ip) fst" "keeps_held ip (e_dispatcher E ip) fst"
    using assms(1) by (simp_all add: env_ok_def)
  note d = k [THEN keeps_heldD, OF assms(2,3), of "(s2, r)"]
  show ?thesis using assms d by (cases "ip_status s ip") (auto simp: create_def)
qed

lemma creator_ok:
  assumes "env_ok E" "sys_rep s C"
  shows "ok_rep2 (imago_creator E s)"
  unfolding imago_creator_def
proof (rule handler_ok [OF assms(2)])
  fix ip s1 C' assume s1: "sys_rep s1 C'" "held ip C'"
  have k: "\<exists>C2. sys_rep s2 C2 \<and> held ip C2" if "create E ip s1 = Inr (s2, r)" for s2 r
    using create_rep [OF assms(1) s1 that] .
  show "ok_rep2 ((\<lambda>(ip, s1). if idle ip s1 then Inr (False, s1)
      else if stopping ip s1 then Inr (True, terminate ip s1)
      else bind_res (create E ip s1) (\<lambda>(s2, r).
         if r = ecode E_SUCCEED
         then Inr (True, icb_put_signal ENGINE_Q ip (set_status IMAGO_READY ip s2))
         else if r = ecode E_MEMORY_OUT then Inr (True, icb_put_q WAITING_MEM_Q ip s2)
         else Inr (True, icb_put_signal OUT_Q ip (set_error r ip s2)))) (ip, s1))"
    using s1 by (auto intro!: ok_rep_bind put_ok2 put_ok dest!: k intro: ok_rep_intros)
qed (auto simp: job_queues_def idle_def intro: ok_rep_intros)

text \<open>icb_free clears the ICB's own messenger queue and puts the ICB in front of the pool.\<close>

lemma icb_free_rep:
  assumes "sys_rep s C" "held ip C"
  shows "sys_rep (icb_free ip s) (C(MSQ ip := [], FREE_Q := ip # C FREE_Q))"
proof -
  define s3 where "s3 = (let s2 = upd_icb ip (\<lambda>_. blank_icb) (icb_unlock ip s) in
      s2\<lparr>s_queue := (s_queue s2)(MSQ ip := \<lparr>q_head = NULL, q_tail = NULL\<rparr>)\<rparr>)"
  let ?C = "C(MSQ ip := [])"
  have h: "ip \<noteq> NULL" "ip \<notin> set (C R)" for R using assms(2) by (auto simp: held_def)
  have r: "icb_rep (s_next s3, s_queue s3 R) (?C R)" for R
    using assms(1) by (simp add: s3_def Let_def icb_unlock_def sys_rep_def)
  obtain nx q where a: "icb_insert ip (s_next s3, s_queue s3 FREE_Q) = (nx, q)" by fastforce
  have e: "icb_free ip s = s3\<lparr>s_next := nx, s_queue := (s_queue s3)(FREE_Q := q)\<rparr>"
    using a by (simp add: icb_free_def s3_def Let_def on_queue_def)
  have rq: "icb_rep (nx, q) (ip # C FREE_Q)"
    using icbq.ins_rep [OF r [of FREE_Q], of ip] h a by simp
  have fr: "nx p = s_next s3 p" if "p \<notin> insert ip (set (C FREE_Q))" for p
    using icbq.ins_frame [OF r [of FREE_Q], of p ip] that a by simp
  have dj: "set (C P) \<inter> set (C R) = {}" if "P \<noteq> R" for P R using assms(1) that by (simp add: sys_rep_def)
  have o: "icb_rep (nx, s_queue s3 R) (?C R)" if "R \<noteq> FREE_Q" for R
  proof -
    have "\<And>p. p \<in> set (?C R) \<Longrightarrow> nx p = s_next s3 p"
      using fr h(2) dj [OF that] by (metis disjoint_iff empty_iff empty_set fun_upd_apply insert_iff)
    thus ?thesis using icb_rep_cong [of "?C R" nx "s_next s3"] r by blast
  qed
  have j: "s_jobs s3 = s_jobs s" "s_locked s3 = (s_locked s)(ip := False)"
    by (simp_all add: s3_def Let_def icb_unlock_def)
  have n: "njobs (C(MSQ ip := [], FREE_Q := ip # C FREE_Q)) = njobs C"
    by (simp add: njobs_def job_queues_def)
  show ?thesis
    unfolding sys_rep_def e
  proof (intro conjI allI impI ballI)
    fix R show "icb_rep (s_next (s3\<lparr>s_next := nx, s_queue := (s_queue s3)(FREE_Q := q)\<rparr>),
        s_queue (s3\<lparr>s_next := nx, s_queue := (s_queue s3)(FREE_Q := q)\<rparr>) R)
        ((C(MSQ ip := [], FREE_Q := ip # C FREE_Q)) R)"
      using rq o [of R] by simp
  next
    fix P R :: qname assume "P \<noteq> R"
    thus "set ((C(MSQ ip := [], FREE_Q := ip # C FREE_Q)) P) \<inter> set ((C(MSQ ip := [], FREE_Q := ip # C FREE_Q)) R) = {}"
      using dj h(2) by auto
  next
    fix R p assume "p \<in> set ((C(MSQ ip := [], FREE_Q := ip # C FREE_Q)) R)"
    hence "p = ip \<or> (\<exists>R. p \<in> set (C R))" by (auto split: if_splits)
    thus "\<not> s_locked (s3\<lparr>s_next := nx, s_queue := (s_queue s3)(FREE_Q := q)\<rparr>) p"
      using assms(1) j(2) by (auto simp: sys_rep_def)
  next
    show "s_jobs (s3\<lparr>s_next := nx, s_queue := (s_queue s3)(FREE_Q := q)\<rparr>)
        = njobs (C(MSQ ip := [], FREE_Q := ip # C FREE_Q))"
      using assms(1) n j(1) by (simp add: sys_rep_def)
  qed
qed

lemma ok_rep_opt:
  "(\<And>s'. r = Some s' \<Longrightarrow> \<exists>C. sys_rep s' C) \<Longrightarrow> ok_rep (of_opt r)"
  by (auto simp: ok_rep_def of_opt_def split: option.splits)

lemma dispose_ok:
  assumes "env_ok E" "sys_rep s C" "held ip C"
  shows "ok_rep (dispose E ip s)"
proof -
  have k: "keeps_held ip (e_release_msger E ip None) id" "keeps_held ip (e_sys_dispatcher E ip) id"
    using assms(1) by (simp_all add: env_ok_def)
  have fin: "ok_rep (of_opt (release_waiting_mem (icb_free ip t)))" if "sys_rep t D" "held ip D" for t D
    using release_mem_rep [OF icb_free_rep [OF that]] by (auto intro!: ok_rep_opt)
  have "\<exists>D. sys_rep t D \<and> held ip D"
    if b: "bind_res (e_release_msger E ip None u) (e_sys_dispatcher E ip) = Inr t" and u: "sys_rep u C" for t u
  proof -
    obtain v where v: "e_release_msger E ip None u = Inr v" "e_sys_dispatcher E ip v = Inr t"
      using b by (cases "e_release_msger E ip None u") auto
    from keeps_heldD [OF k(1) u assms(3) v(1)] obtain D where "sys_rep v D" "held ip D" by auto
    from keeps_heldD [OF k(2) this v(2)] show ?thesis by auto
  qed
  hence w: "ok_rep (bind_res (bind_res (e_release_msger E ip None u) (e_sys_dispatcher E ip))
      (\<lambda>s2. of_opt (release_waiting_mem (icb_free ip s2))))" if "sys_rep u C" for u
    using fin that by (metis ok_rep_bind(1))
  show ?thesis
    using fin [OF assms(2,3)] w [of s] w [of "log_disposed (ip_log (s_icb s ip)) s"] assms(2)
    by (cases "ip_log (s_icb s ip) = NULL") (simp_all add: dispose_def log_disposed_def Let_def)
qed

lemma send_out_ok:
  assumes "env_ok E" "sys_rep s C" "held ip C"
  shows "ok_rep (send_out E to ip s)"
proof -
  have k: "keeps_held ip (e_send E to ip) id" "keeps_held ip (e_release_msger E ip (Some to)) id"
    using assms(1) by (simp_all add: env_ok_def)
  have fin: "ok_rep (bind_res (e_send E to ip t) (\<lambda>s2.
      if \<not> is_messenger (core (s_icb s2 ip)) then e_release_msger E ip (Some to) s2 else Inr s2))"
    if t: "sys_rep t C" for t
  proof (rule ok_rep_bind(1))
    fix s2 assume e: "e_send E to ip t = Inr s2"
    from keeps_heldD [OF k(1) t assms(3) e] obtain D where D: "sys_rep s2 D" "held ip D" by auto
    have "ok_rep (e_release_msger E ip (Some to) s2)"
      unfolding ok_rep_def using keeps_heldD [OF k(2) D] by auto
    thus "ok_rep (if \<not> is_messenger (core (s_icb s2 ip)) then e_release_msger E ip (Some to) s2 else Inr s2)"
      using D ok_rep_intros(1) by simp
  qed
  show ?thesis unfolding send_out_def Let_def
    by (rule ok_rep_bind(1)) (use assms(2) in \<open>auto simp: now_def split: if_splits intro!: fin\<close>)
qed

lemma move_out_ok:
  assumes "env_ok E" "sys_rep s C" "held ip C"
  shows "ok_rep (move_out E ip s)"
  unfolding move_out_def Let_def
  using assms put_ok [of "set_error (ecode E_ILLEGAL_ARGUMENT) ip s" C ip] put_ok [of "set_status IMAGO_MOVE_IN ip s" C ip]
    send_out_ok [OF assms]
  by (auto intro!: ok_rep_bind(1))

lemma out_ok:
  assumes "env_ok E" "sys_rep s C"
  shows "ok_rep2 (imago_out E s)"
  unfolding imago_out_def
proof (rule handler_ok [OF assms(2)])
  fix ip s1 C' assume s1: "sys_rep s1 C'" "held ip C'"
  show "ok_rep2 ((\<lambda>(ip, s1). if idle ip s1 then Inr (False, s1)
      else bind_res
         (if ip_status s1 ip = IMAGO_MOVE_OUT then move_out E ip s1
          else if ip_status s1 ip \<in> {IMAGO_ERROR, IMAGO_DISPOSE, IMAGO_TERMINATE} then dispose E ip s1
          else Inr (icb_put_signal ENGINE_Q ip s1))
         (\<lambda>s2. Inr (True, s2))) (ip, s1))"
    using s1 move_out_ok [OF assms(1) s1] dispose_ok [OF assms(1) s1] put_ok [OF s1]
    by (auto intro!: ok_rep_bind2 put_ok2 intro: ok_rep_intros)
qed (auto simp: job_queues_def idle_def intro: ok_rep_intros)

text \<open>The log operations leave the queues alone.\<close>

lemma log_new_rep: "log_new sz blk s = Inr (l, s') \<Longrightarrow> sys_rep s' C = sys_rep s C"
proof -
  assume a: "log_new sz blk s = Inr (l, s')"
  obtain t nx q where f: "icb_first (s_log_next s, s_free_logs s) = (t, nx, q)" by (metis prod_cases3)
  obtain ny r where p: "pool_init MAX_IMAGOES sz blk (s_log_next s) = (ny, r)" by fastforce
  show ?thesis using a f p
    by (cases "t = NULL"; cases "blk = NULL") (auto simp: log_new_def log_init_def Let_def)
qed

lemma log_append_rep [simp]: "sys_rep (log_append x t) C = sys_rep t C"
  by (simp add: log_append_def split: prod.splits)

lemma log_alive_rep: "log_alive sz blk l ip s = Inr (l', s') \<Longrightarrow> sys_rep s' C = sys_rep s C"
  using log_new_rep by (cases "l = NULL"; cases "log_new sz blk s") (auto simp: log_alive_def Let_def now_def)

lemma restore_streams_rep:
  "restore_streams E ip s = Inr s' \<Longrightarrow> sys_rep s C \<Longrightarrow> sys_rep s' C"
proof -
  assume r: "restore_streams E ip s = Inr s'" and c: "sys_rep s C"
  let ?f = "log_find (h_host_id (ip_queen (s_icb s ip))) (ip_application (s_icb s ip)) None s"
  obtain l where l: "?f = Some l" using r by (cases ?f) (auto simp: restore_streams_def)
  have nl: "l \<noteq> NULL" using r l by (auto simp: restore_streams_def)
  let ?q = "lg_ip (s_log s l)"
  have "sys_rep (icb_unlock ?q (s\<lparr>s_locked := (s_locked s)(?q := True)\<rparr>)) C"
    using unlock_rep [OF c, of ?q] by (simp add: icb_unlock_def)
  moreover have "icb_unlock ?q (upd_icb ip g t) = upd_icb ip g (icb_unlock ?q t)" for g t
    by (simp add: icb_unlock_def upd_icb_def)
  ultimately show ?thesis
    using r l nl c by (cases "?q = NULL") (auto simp: restore_streams_def Let_def icb_lock_def split: if_splits)
qed

lemma arrive_ok:
  assumes "sys_rep s C" "held ip C"
  shows "ok_rep (arrive E ip s)"
proof -
  define fin where "fin = (\<lambda>s2. let s3 = set_status (if ip_status s2 ip = IMAGO_ERROR then IMAGO_BACKTRACK else IMAGO_READY) ip s2;
              s4 = (if s_stop s3 then set_status IMAGO_TERMINATE ip s3 else s3) in
          bind_res
            (if h_host_id (ip_queen (s_icb s4 ip)) = e_hostid E
             then bind_res (restore_streams E ip s4) (\<lambda>s5. of_opt (release_waiting_msger s5))
             else Inr s4)
            (\<lambda>s6. Inr (icb_put_signal ENGINE_Q ip s6)))"
  have home: "\<exists>D. sys_rep s6 D \<and> held ip D"
    if b: "bind_res (restore_streams E ip s4) (\<lambda>s5. of_opt (release_waiting_msger s5)) = Inr s6"
      and r4: "sys_rep s4 C" for s4 s6
  proof -
    obtain s5 where s5: "restore_streams E ip s4 = Inr s5"
      using b by (cases "restore_streams E ip s4") auto
    have "sys_rep s5 C" using restore_streams_rep [OF s5 r4] .
    from release_msger_rep [OF this] have "sys_rep s6 (C(WAITING_MSGER_Q := [], ENGINE_Q := C ENGINE_Q @ C WAITING_MSGER_Q))"
      using b s5 by auto
    moreover have "held ip (C(WAITING_MSGER_Q := [], ENGINE_Q := C ENGINE_Q @ C WAITING_MSGER_Q))"
      using assms(2) by (auto simp: held_def)
    ultimately show ?thesis by blast
  qed
  have f: "ok_rep (fin s2)" if r: "sys_rep s2 C" for s2
  proof -
    define s4 where "s4 = (let s3 = set_status (if ip_status s2 ip = IMAGO_ERROR then IMAGO_BACKTRACK else IMAGO_READY) ip s2
        in if s_stop s3 then set_status IMAGO_TERMINATE ip s3 else s3)"
    have r4: "sys_rep s4 C" using r by (simp add: s4_def Let_def)
    have "fin s2 = bind_res
        (if h_host_id (ip_queen (s_icb s4 ip)) = e_hostid E
         then bind_res (restore_streams E ip s4) (\<lambda>s5. of_opt (release_waiting_msger s5)) else Inr s4)
        (\<lambda>s6. Inr (icb_put_signal ENGINE_Q ip s6))"
      by (simp only: fin_def s4_def Let_def)
    thus ?thesis using home [OF _ r4] r4 assms(2) put_ok(3)
      by (auto intro!: ok_rep_bind(1) split: if_splits)
  qed
  define A where "A = (if \<not> is_messenger (core (s_icb s ip)) then
          (let s1 = (if ip_status s ip \<noteq> IMAGO_ERROR then upd_icb ip (\<lambda>t. t\<lparr>ip_jumps := ip_jumps t + 1\<rparr>) s else s);
               t = s_icb s1 ip in
           bind_res (of_opt (log_find (h_host_id (ip_queen t)) (ip_application t) (Some (ip_name t)) s1)) (\<lambda>l.
             bind_res (log_alive (e_log_size E) (e_malloc_log E s1) l ip s1) (\<lambda>(_, s2). Inr s2)))
        else Inr s)"
  have A: "sys_rep s2 C" if a: "A = Inr s2" for s2
  proof (cases "is_messenger (core (s_icb s ip))")
    case True
    then show ?thesis using a assms(1) by (simp add: A_def)
  next
    case False
    define s1 where "s1 = (if ip_status s ip \<noteq> IMAGO_ERROR then upd_icb ip (\<lambda>t. t\<lparr>ip_jumps := ip_jumps t + 1\<rparr>) s else s)"
    let ?t = "s_icb s1 ip"
    let ?f = "log_find (h_host_id (ip_queen ?t)) (ip_application ?t) (Some (ip_name ?t)) s1"
    have r1: "sys_rep s1 C" using assms(1) by (simp add: s1_def)
    have e: "A = bind_res (of_opt ?f) (\<lambda>l. bind_res (log_alive (e_log_size E) (e_malloc_log E s1) l ip s1) (\<lambda>(_, s2). Inr s2))"
      using False by (simp only: A_def Let_def s1_def if_True simp_thms)
    then obtain l where "?f = Some l" using a by (cases ?f) auto
    then obtain l' where "log_alive (e_log_size E) (e_malloc_log E s1) l ip s1 = Inr (l', s2)"
      using a e by (cases "log_alive (e_log_size E) (e_malloc_log E s1) l ip s1") auto
    thus ?thesis using log_alive_rep r1 by blast
  qed
  have "arrive E ip s = bind_res A fin" unfolding arrive_def A_def fin_def ..
  thus ?thesis using ok_rep_bind(1) [of A fin] A f by simp
qed

lemma in_ok:
  assumes "sys_rep s C"
  shows "ok_rep2 (imago_in E s)"
  unfolding imago_in_def
proof (rule handler_ok [OF assms])
  fix ip s1 C' assume s1: "sys_rep s1 C'" "held ip C'"
  show "ok_rep2 ((\<lambda>(ip, s1). if idle ip s1 then Inr (False, s1)
      else bind_res
         (if ip_status s1 ip = IMAGO_MOVE_IN \<or> ip_status s1 ip = IMAGO_ERROR then arrive E ip s1
          else Inr (icb_put_signal OUT_Q ip s1))
         (\<lambda>s2. Inr (True, s2))) (ip, s1))"
    using s1 arrive_ok [OF s1] put_ok [OF s1]
    by (auto intro!: ok_rep_bind2 put_ok2 intro: ok_rep_intros)
qed (auto simp: job_queues_def idle_def intro: ok_rep_intros)

section \<open>The timer\<close>

lemma que_remove_rep:
  assumes "sys_rep s C" "p \<in> set (C Q)" "Q \<notin> set job_queues"
  obtains nx q where "icb_remove p (s_next s, s_queue s Q) = Some (nx, q)"
    "sys_rep (s\<lparr>s_next := nx, s_queue := (s_queue s)(Q := q)\<rparr>) (C(Q := remove1 p (C Q)))"
    "held p (C(Q := remove1 p (C Q)))"
proof -
  have r: "icb_rep (s_next s, s_queue s R) (C R)" for R using assms(1) by (simp only: sys_rep_def)
  have nn: "p \<noteq> NULL" "distinct (C Q)" using icbq.rep_nodes [OF r] assms(2) by auto
  have dj: "set (C P) \<inter> set (C R) = {}" if "P \<noteq> R" for P R using assms(1) that by (simp add: sys_rep_def)
  from icb_remove_rep [OF r nn(1)] obtain nx q where
    q: "icb_remove p (s_next s, s_queue s Q) = Some (nx, q)" "icb_rep (nx, q) (remove1 p (C Q))"
      "\<And>x. x \<notin> insert p (set (C Q)) \<Longrightarrow> nx x = s_next s x"
    by (metis eq_fst_iff prod.collapse)
  have ins: "insert p (set (C Q)) = set (C Q)" using assms(2) by blast
  have o: "icb_rep (nx, s_queue s R) (C R)" if "R \<noteq> Q" for R
  proof -
    have "\<And>x. x \<in> set (C R) \<Longrightarrow> nx x = s_next s x" using q(3) dj [OF that] unfolding ins by blast
    thus ?thesis using icb_rep_cong [of "C R" nx "s_next s"] r by blast
  qed
  have sub: "set ((C(Q := remove1 p (C Q))) U) \<subseteq> set (C U)" for U
    by (simp add: set_remove1_subset)
  let ?s = "s\<lparr>s_next := nx, s_queue := (s_queue s)(Q := q)\<rparr>"
  have "sys_rep ?s (C(Q := remove1 p (C Q)))"
    unfolding sys_rep_def
  proof (intro conjI allI impI ballI)
    fix R show "icb_rep (s_next ?s, s_queue ?s R) ((C(Q := remove1 p (C Q))) R)" using q(2) o [of R] by simp
  next
    fix P R :: qname assume "P \<noteq> R"
    thus "set ((C(Q := remove1 p (C Q))) P) \<inter> set ((C(Q := remove1 p (C Q))) R) = {}"
      using dj [of P R] sub by blast
  next
    fix R x assume "x \<in> set ((C(Q := remove1 p (C Q))) R)"
    hence "x \<in> set (C R)" using sub by blast
    thus "\<not> s_locked ?s x" using assms(1) by (simp add: sys_rep_def)
  next
    show "s_jobs ?s = njobs (C(Q := remove1 p (C Q)))"
      using njobs_upd [of C Q "remove1 p (C Q)"] assms(1,3) by (simp add: sys_rep_def)
  qed
  moreover have "held p (C(Q := remove1 p (C Q)))"
    using nn dj assms(2) by (auto simp: held_def)
  ultimately show ?thesis using that q(1) by blast
qed

definition woken :: "ticb \<Rightarrow> ticb" where
  "woken t = t\<lparr>core := (if status (core t) = IMAGO_TIMER then (core t)\<lparr>status := IMAGO_READY\<rparr> else core t),
     ip_dday := timer_clear\<rparr>"

lemma internal_no_job: "INTERNAL_Q \<notin> set job_queues" by (simp add: job_queues_def)
lemma engine_job: "ENGINE_Q \<in> set job_queues" by (simp add: job_queues_def)

lemma wake_rep:
  assumes "sys_rep s C" "p \<in> set (C INTERNAL_Q)" "ip_log (s_icb s p) \<noteq> NULL"
  obtains s' where "wake p s = Inr s'"
    "sys_rep s' (C(INTERNAL_Q := remove1 p (C INTERNAL_Q), ENGINE_Q := C ENGINE_Q @ [p]))"
    "s_icb s' = (s_icb s)(p := woken (s_icb s p))" "s_clock s' = s_clock s" "s_ticks s' = s_ticks s"
    "s_wakeup s' = s_wakeup s"
proof -
  let ?C = "C(INTERNAL_Q := remove1 p (C INTERNAL_Q))"
  obtain nx q where r: "icb_remove p (s_next s, s_queue s INTERNAL_Q) = Some (nx, q)"
    "sys_rep (s\<lparr>s_next := nx, s_queue := (s_queue s)(INTERNAL_Q := q)\<rparr>) ?C" "held p ?C"
    using que_remove_rep [OF assms(1,2) internal_no_job] by blast
  define s1 where "s1 = s\<lparr>s_next := nx, s_queue := (s_queue s)(INTERNAL_Q := q)\<rparr>"
  define s3 where "s3 = set_dday timer_clear p (if ip_status s1 p = IMAGO_TIMER then set_status IMAGO_READY p s1 else s1)"
  define s4 where "s4 = upd_log (ip_log (s_icb s p)) (\<lambda>e. e\<lparr>lg_status := LOG_ALIVE\<rparr>) s3"
  have i3: "s_icb s3 = (s_icb s)(p := woken (s_icb s p))"
    by (auto simp: s3_def s1_def set_dday_def woken_def)
  have l: "ip_log (s_icb s3 p) = ip_log (s_icb s p)" by (simp add: i3 woken_def)
  have "wake p s = Inr (icb_put_signal ENGINE_Q p s4)"
  proof -
    have "wake p s = bind_res (set_log_status LOG_ALIVE p s3) (\<lambda>s4. Inr (icb_put_signal ENGINE_Q p s4))"
      unfolding wake_def r(1) by (simp only: res_simps prod.case Let_def s1_def [symmetric] s3_def [symmetric])
    thus ?thesis using assms(3) l by (simp add: set_log_status_def s4_def Let_def)
  qed
  moreover have "sys_rep s4 ?C" using r(2) by (simp add: s4_def s3_def s1_def set_dday_def)
  hence "sys_rep (icb_put_signal ENGINE_Q p s4) (?C(ENGINE_Q := ?C ENGINE_Q @ [p]))"
    by (rule put_rep(1)) (use r(3) engine_job in auto)
  moreover have "s_wakeup (icb_put_signal ENGINE_Q p s4) = s_wakeup s4"
    by (simp add: icb_put_signal_def icb_put_q_def icb_unlock_def on_queue_def inc_jobs_s_def inc_jobs_def Let_def
        split: prod.splits)
  moreover have "s_clock s4 = s_clock s" "s_ticks s4 = s_ticks s" "s_wakeup s4 = s_wakeup s" "s_icb s4 = s_icb s3"
    by (simp_all add: s4_def s3_def s1_def set_dday_def upd_icb_def upd_log_def set_status_def upd_core_def)
  ultimately show ?thesis using that [of "icb_put_signal ENGINE_Q p s4"] i3 by simp
qed

text \<open>The scan stops at the first ICB of the chain that satisfies P.\<close>

lemma chain_find:
  "chain nx p xs \<Longrightarrow> \<forall>x\<in>set xs. \<not> L x \<Longrightarrow>
     while_option (\<lambda>t. t \<noteq> NULL \<and> \<not> L t \<and> \<not> P t) nx p
       = Some (case find P xs of None \<Rightarrow> NULL | Some x \<Rightarrow> x)"
proof (induction xs arbitrary: p)
  case Nil then show ?case by (simp add: while_option_unfold)
next
  case (Cons x xs)
  then show ?case by (subst while_option_unfold) simp
qed

lemma wake_expired_rep:
  assumes r: "sys_rep s C" and logs: "\<forall>p\<in>set (C INTERNAL_Q). ip_log (s_icb s p) \<noteq> NULL"
  shows "case find (\<lambda>p. timer_less (dday s p) (s_clock s (s_ticks s))) (C INTERNAL_Q) of
      None \<Rightarrow> wake_expired s = Inr (False, s\<lparr>s_ticks := s_ticks s + 1\<rparr>)
    | Some p \<Rightarrow> (\<exists>s'. wake_expired s = Inr (True, s') \<and> s_icb s' = (s_icb s)(p := woken (s_icb s p))
        \<and> sys_rep s' (C(INTERNAL_Q := remove1 p (C INTERNAL_Q), ENGINE_Q := C ENGINE_Q @ [p]))
        \<and> s_clock s' = s_clock s \<and> s_ticks s' = s_ticks s + 1 \<and> s_wakeup s' = s_wakeup s)"
proof -
  let ?tv = "s_clock s (s_ticks s)" and ?s1 = "s\<lparr>s_ticks := s_ticks s + 1\<rparr>"
  have q: "icb_rep (s_next s, s_queue s INTERNAL_Q) (C INTERNAL_Q)" using r by (simp only: sys_rep_def)
  have u: "\<forall>x\<in>set (C INTERNAL_Q). \<not> s_locked s x" using r by (simp add: sys_rep_def)
  have f: "first_expired ?tv ?s1 =
      Some (case find (\<lambda>p. timer_less (dday s p) ?tv) (C INTERNAL_Q) of None \<Rightarrow> NULL | Some x \<Rightarrow> x)"
    using chain_find [OF _ u, of "s_next s" "q_head (s_queue s INTERNAL_Q)" "\<lambda>p. timer_less (dday s p) ?tv"] q
    by (simp add: first_expired_def)
  show ?thesis
  proof (cases "find (\<lambda>p. timer_less (dday s p) ?tv) (C INTERNAL_Q)")
    case None
    then show ?thesis using f by (simp add: wake_expired_def now_def)
  next
    case (Some p)
    hence p: "p \<in> set (C INTERNAL_Q)" by (auto simp: find_Some_iff)
    hence nn: "p \<noteq> NULL" using icbq.rep_nodes [OF q] by auto
    have r1: "sys_rep ?s1 C" using r by simp
    obtain s' where s': "wake p ?s1 = Inr s'"
      "sys_rep s' (C(INTERNAL_Q := remove1 p (C INTERNAL_Q), ENGINE_Q := C ENGINE_Q @ [p]))"
      "s_icb s' = (s_icb s)(p := woken (s_icb s p))" "s_clock s' = s_clock s" "s_ticks s' = s_ticks s + 1"
      "s_wakeup s' = s_wakeup s"
      using wake_rep [OF r1 p] logs p by auto
    have "wake_expired s = Inr (True, s')"
      using f Some nn u p s'(1) by (simp add: wake_expired_def now_def)
    thus ?thesis using s' Some by auto
  qed
qed

lemma find_None_all: "find P xs = None \<Longrightarrow> x \<in> set xs \<Longrightarrow> \<not> P x"
  by (auto simp: find_None_iff)

text \<open>What wake_all leaves: W was woken, in this order, and R still sleeps.\<close>

definition woke :: "sys \<Rightarrow> contents \<Rightarrow> sys \<Rightarrow> addr list \<Rightarrow> addr list \<Rightarrow> bool" where
  "woke s C s' W R =
     (sys_rep s' (C(INTERNAL_Q := R, ENGINE_Q := C ENGINE_Q @ W))
      \<and> distinct W \<and> set W \<subseteq> set (C INTERNAL_Q) \<and> R = filter (\<lambda>p. p \<notin> set W) (C INTERNAL_Q)
      \<and> s_icb s' = (\<lambda>p. if p \<in> set W then woken (s_icb s p) else s_icb s p)
      \<and> (\<forall>p\<in>set W. \<exists>k. s_ticks s \<le> k \<and> k < s_ticks s' \<and> timer_less (dday s p) (s_clock s k))
      \<and> (\<forall>p\<in>set R. \<not> timer_less (dday s p) (s_clock s (s_ticks s' - 1)))
      \<and> s_ticks s' = s_ticks s + length W + 1 \<and> s_clock s' = s_clock s \<and> s_wakeup s' = s_wakeup s)"

abbreviation again_test :: "(bool \<times> sys) res \<Rightarrow> bool" where
  "again_test r \<equiv> (case r of Inl e \<Rightarrow> False | Inr (again, t) \<Rightarrow> again)"

abbreviation again_body :: "(bool \<times> sys) res \<Rightarrow> (bool \<times> sys) res" where
  "again_body r \<equiv> bind_res r (\<lambda>(again, t). wake_expired t)"

lemma wake_loop:
  assumes "sys_rep s C" "\<forall>p\<in>set (C INTERNAL_Q). ip_log (s_icb s p) \<noteq> NULL"
  shows "\<exists>s' W R. while_option again_test again_body (Inr (True, s)) = Some (Inr (False, s')) \<and> woke s C s' W R"
  using assms
proof (induction "length (C INTERNAL_Q)" arbitrary: s C rule: less_induct)
  case less
  let ?P = "\<lambda>p. timer_less (dday s p) (s_clock s (s_ticks s))"
  note step = wake_expired_rep [OF less(2,3)]
  have dist: "distinct (C INTERNAL_Q)" using less(2) icbq.rep_nodes unfolding sys_rep_def by blast
  show ?case
  proof (cases "find ?P (C INTERNAL_Q)")
    case None
    hence w: "wake_expired s = Inr (False, s\<lparr>s_ticks := s_ticks s + 1\<rparr>)" using step by simp
    have "woke s C (s\<lparr>s_ticks := s_ticks s + 1\<rparr>) [] (C INTERNAL_Q)"
      using less(2) find_None_all [OF None] by (simp add: woke_def)
    moreover have "while_option again_test again_body (Inr (True, s)) = Some (Inr (False, s\<lparr>s_ticks := s_ticks s + 1\<rparr>))"
      by (subst while_option_unfold, subst while_option_unfold) (simp add: w)
    ultimately show ?thesis by blast
  next
    case (Some p)
    have pin: "p \<in> set (C INTERNAL_Q)" "timer_less (dday s p) (s_clock s (s_ticks s))"
      using Some by (auto simp: find_Some_iff)
    obtain s1 where s1: "wake_expired s = Inr (True, s1)" "s_icb s1 = (s_icb s)(p := woken (s_icb s p))"
      "sys_rep s1 (C(INTERNAL_Q := remove1 p (C INTERNAL_Q), ENGINE_Q := C ENGINE_Q @ [p]))"
      "s_clock s1 = s_clock s" "s_ticks s1 = s_ticks s + 1" "s_wakeup s1 = s_wakeup s"
      using step Some by auto
    let ?C = "C(INTERNAL_Q := remove1 p (C INTERNAL_Q), ENGINE_Q := C ENGINE_Q @ [p])"
    have len: "length (?C INTERNAL_Q) < length (C INTERNAL_Q)" using pin(1) length_pos_if_in_set [OF pin(1)] by (simp add: length_remove1)
    have lg: "\<forall>x\<in>set (?C INTERNAL_Q). ip_log (s_icb s1 x) \<noteq> NULL"
      using less(3) dist by (auto simp: s1(2) set_remove1_eq)
    from less(1) [OF len s1(3) lg] obtain s' W R where
      w: "while_option again_test again_body (Inr (True, s1)) = Some (Inr (False, s'))" "woke s1 ?C s' W R" by blast
    have pW: "p \<notin> set W" using w(2) dist by (auto simp: woke_def set_remove1_eq)
    have dd: "dday s1 x = dday s x" if "x \<noteq> p" for x using that by (simp add: s1(2))
    have RW: "R = filter (\<lambda>x. x \<notin> set (p # W)) (C INTERNAL_Q)"
    proof -
      have "R = filter (\<lambda>x. x \<notin> set W) (filter (\<lambda>x. p \<noteq> x) (C INTERNAL_Q))"
        using w(2) dist by (simp add: woke_def distinct_remove1_removeAll removeAll_filter_not_eq)
      thus ?thesis unfolding filter_filter by (auto intro!: filter_cong)
    qed
    have pR: "p \<notin> set R" by (simp add: RW)
    have "woke s C s' (p # W) R"
      unfolding woke_def
    proof (intro conjI ballI)
      have eq: "?C(INTERNAL_Q := R, ENGINE_Q := ?C ENGINE_Q @ W) = C(INTERNAL_Q := R, ENGINE_Q := C ENGINE_Q @ p # W)" by auto
      from w(2) have "sys_rep s' (?C(INTERNAL_Q := R, ENGINE_Q := ?C ENGINE_Q @ W))" unfolding woke_def by (rule conjunct1)
      thus "sys_rep s' (C(INTERNAL_Q := R, ENGINE_Q := C ENGINE_Q @ p # W))" by (simp only: eq)
      show "distinct (p # W)" "set (p # W) \<subseteq> set (C INTERNAL_Q)"
        using w(2) pW pin(1) dist by (auto simp: woke_def set_remove1_eq)
      show "R = filter (\<lambda>x. x \<notin> set (p # W)) (C INTERNAL_Q)" by (rule RW)
      show "s_icb s' = (\<lambda>x. if x \<in> set (p # W) then woken (s_icb s x) else s_icb s x)"
        using w(2) pW by (auto simp: woke_def s1(2) fun_eq_iff)
      show "s_ticks s' = s_ticks s + length (p # W) + 1" "s_clock s' = s_clock s" "s_wakeup s' = s_wakeup s"
        using w(2) s1 by (simp_all add: woke_def)
      show "\<exists>k\<ge>s_ticks s. k < s_ticks s' \<and> timer_less (dday s x) (s_clock s k)" if x: "x \<in> set (p # W)" for x
      proof (cases "x = p")
        case True
        then show ?thesis using pin(2) w(2) s1(5) by (intro exI [of _ "s_ticks s"]) (simp add: woke_def)
      next
        case False
        then obtain k where "s_ticks s1 \<le> k" "k < s_ticks s'" "timer_less (dday s x) (s_clock s k)"
          using w(2) x dd [of x] s1(4) by (auto simp: woke_def)
        thus ?thesis using s1(5) by (intro exI [of _ k]) simp
      qed
      show "\<not> timer_less (dday s x) (s_clock s (s_ticks s' - 1))" if x: "x \<in> set R" for x
      proof -
        have "x \<noteq> p" using pR x by auto
        moreover have "\<not> timer_less (dday s1 x) (s_clock s1 (s_ticks s' - 1))" using w(2) x unfolding woke_def by blast
        ultimately show ?thesis using dd [of x] s1(4) by simp
      qed
    qed
    moreover have "while_option again_test again_body (Inr (True, s)) = Some (Inr (False, s'))"
      using w(1) by (subst while_option_unfold) (simp add: s1(1))
    ultimately show ?thesis by blast
  qed
qed

lemma wake_all_rep:
  assumes "sys_rep s C" "\<forall>p\<in>set (C INTERNAL_Q). ip_log (s_icb s p) \<noteq> NULL"
  shows "\<exists>s' W R. wake_all s = Inr s' \<and> woke s C s' W R"
proof -
  obtain s' W R where "while_option again_test again_body (Inr (True, s)) = Some (Inr (False, s'))" "woke s C s' W R"
    using wake_loop [OF assms] by blast
  thus ?thesis unfolding wake_all_def by auto
qed

lemma wake_expired_ok:
  assumes r: "sys_rep s C"
  shows "ok_rep2 (wake_expired s)"
proof -
  let ?P = "\<lambda>p. timer_less (dday s p) (s_clock s (s_ticks s))" and ?s1 = "s\<lparr>s_ticks := s_ticks s + 1\<rparr>"
  have q: "icb_rep (s_next s, s_queue s INTERNAL_Q) (C INTERNAL_Q)" using r by (simp only: sys_rep_def)
  have u: "\<forall>x\<in>set (C INTERNAL_Q). \<not> s_locked s x" using r by (simp add: sys_rep_def)
  have f: "first_expired (s_clock s (s_ticks s)) ?s1 =
      Some (case find ?P (C INTERNAL_Q) of None \<Rightarrow> NULL | Some x \<Rightarrow> x)"
    using chain_find [OF _ u, of "s_next s" "q_head (s_queue s INTERNAL_Q)" ?P] q by (simp add: first_expired_def)
  show ?thesis
  proof (cases "find ?P (C INTERNAL_Q)")
    case None
    then show ?thesis using f r by (auto simp: wake_expired_def now_def intro: ok_rep_intros)
  next
    case (Some p)
    hence p: "p \<in> set (C INTERNAL_Q)" by (auto simp: find_Some_iff)
    have nn: "p \<noteq> NULL" using p icbq.rep_nodes [OF q] by auto
    have r1: "sys_rep ?s1 C" using r by simp
    have w: "ok_rep (wake p ?s1)"
    proof (cases "ip_log (s_icb s p) = NULL")
      case True
      obtain nx q where "icb_remove p (s_next s, s_queue s INTERNAL_Q) = Some (nx, q)"
        using que_remove_rep [OF r p internal_no_job] by blast
      thus ?thesis using True
        by (simp add: wake_def set_log_status_def set_dday_def Let_def ok_rep_intros)
    next
      case False
      hence "ip_log (s_icb ?s1 p) \<noteq> NULL" by simp
      from wake_rep [OF r1 p this] obtain s' C' where "wake p ?s1 = Inr s'" "sys_rep s' C'" by blast
      thus ?thesis by (simp add: ok_rep_intros)
    qed
    have "ok_rep2 (bind_res (wake p ?s1) (\<lambda>s2. Inr (True, s2)))" by (rule ok_rep_bind2 [OF w])
    thus ?thesis using f Some nn by (simp add: wake_expired_def now_def ok_rep_intros)
  qed
qed

lemma wake_all_ok: "sys_rep s C \<Longrightarrow> ok_rep (wake_all s)"
proof -
  assume r: "sys_rep s C"
  have "ok_rep2 t" if "while_option again_test again_body (Inr (True, s)) = Some t" for t
  proof (rule while_option_rule [where P = ok_rep2, OF _ that])
    fix t assume "ok_rep2 t" "again_test t"
    thus "ok_rep2 (again_body t)"
      using wake_expired_ok by (cases t) (auto simp: ok_rep2_def)
  qed (use r in \<open>rule ok_rep_intros\<close>)
  thus ?thesis
    unfolding wake_all_def
    by (cases "while_option again_test again_body (Inr (True, s))")
       (auto simp: ok_rep_def ok_rep2_def bind_res_def split: sum.splits prod.splits)
qed

section \<open>Deadlines\<close>

lemma timer_less_trans: "timer_less a b \<Longrightarrow> timer_less b c \<Longrightarrow> timer_less a c"
  by (auto simp: timer_less_def split: if_splits)

lemma timer_not_less_trans: "\<not> timer_less a b \<Longrightarrow> timer_less c b \<Longrightarrow> \<not> timer_less a c"
  by (auto simp: timer_less_def split: if_splits)

lemma timer_less_irrefl [simp]: "\<not> timer_less a a" by (simp add: timer_less_def)

lemma earliest_walk:
  "chain nx p xs \<Longrightarrow>
     \<exists>tv'. while_option (\<lambda>(p, tv). p \<noteq> NULL) (\<lambda>(p, tv). (nx p, if timer_less (d p) tv then d p else tv)) (p, tv)
        = Some (NULL, tv')
      \<and> (tv' = tv \<or> (\<exists>x\<in>set xs. tv' = d x)) \<and> \<not> timer_less tv tv' \<and> (\<forall>x\<in>set xs. \<not> timer_less (d x) tv')"
proof (induction xs arbitrary: p tv)
  case Nil then show ?case by (subst while_option_unfold) simp
next
  case (Cons x xs)
  let ?tv = "if timer_less (d x) tv then d x else tv"
  have c: "chain nx (nx x) xs" and px: "p = x" "x \<noteq> NULL" using Cons.prems by auto
  from Cons.IH [OF c, of ?tv] obtain tv' where
    w: "while_option (\<lambda>(p, tv). p \<noteq> NULL) (\<lambda>(p, tv). (nx p, if timer_less (d p) tv then d p else tv)) (nx x, ?tv)
        = Some (NULL, tv')"
      "tv' = ?tv \<or> (\<exists>x\<in>set xs. tv' = d x)" "\<not> timer_less ?tv tv'" "\<forall>x\<in>set xs. \<not> timer_less (d x) tv'" by blast
  have "\<not> timer_less tv tv'" "\<not> timer_less (d x) tv'"
    using w(3) by (auto simp: timer_less_def split: if_splits)
  moreover have "while_option (\<lambda>(p, tv). p \<noteq> NULL) (\<lambda>(p, tv). (nx p, if timer_less (d p) tv then d p else tv)) (p, tv)
        = Some (NULL, tv')"
    using w(1) px by (subst while_option_unfold) simp
  ultimately show ?case using w(2,4) by (intro exI [of _ tv']) (auto split: if_splits)
qed

lemma earliest_rep:
  assumes "sys_rep s C" "C INTERNAL_Q \<noteq> []"
  obtains tv where "earliest s = Some tv" "\<exists>p\<in>set (C INTERNAL_Q). tv = dday s p"
    "\<forall>p\<in>set (C INTERNAL_Q). \<not> timer_less (dday s p) tv"
proof -
  have q: "icb_rep (s_next s, s_queue s INTERNAL_Q) (C INTERNAL_Q)" using assms(1) by (simp only: sys_rep_def)
  obtain h xs where hx: "C INTERNAL_Q = h # xs" using assms(2) by (cases "C INTERNAL_Q") auto
  hence c: "q_head (s_queue s INTERNAL_Q) = h" "chain (s_next s) (s_next s h) xs" using q by auto
  from earliest_walk [OF c(2), of "\<lambda>p. dday s p" "dday s h"] obtain tv where
    "while_option (\<lambda>(p, tv). p \<noteq> NULL) (\<lambda>(p, tv). (s_next s p, if timer_less (dday s p) tv then dday s p else tv))
       (s_next s h, dday s h) = Some (NULL, tv)"
    "tv = dday s h \<or> (\<exists>x\<in>set xs. tv = dday s x)" "\<not> timer_less (dday s h) tv" "\<forall>x\<in>set xs. \<not> timer_less (dday s x) tv"
    by blast
  thus ?thesis using that c(1) hx by (simp add: earliest_def Let_def)
qed

lemma set_alarm_ok: "sys_rep s C \<Longrightarrow> ok_rep (set_alarm E s)"
proof -
  assume r: "sys_rep s C"
  have e: "ok_rep (Inr s)" "ok_rep (Inr (s\<lparr>s_wakeup := w\<rparr>))" "ok_rep (Inr (s\<lparr>s_wakeup := w, s_alarm := a\<rparr>))"
    "ok_rep (Inr (s\<lparr>s_wakeup := w, s_ticks := n, s_alarm := a\<rparr>))" "ok_rep (Inr (s\<lparr>s_ticks := n, s_alarm := a\<rparr>))" for w a n
    by (rule ok_rep_intros(1) [where C = C]; use r in \<open>simp add: sys_rep_def\<close>)+
  show ?thesis unfolding set_alarm_def Let_def now_def
    using e by (cases "earliest s") (simp_all add: ok_rep_intros(3))
qed

lemma flush_first_ok: "ok_rep (Inr s) \<Longrightarrow> \<not> que_empty (s_queue s INTERNAL_Q) \<Longrightarrow> ok_rep (flush_first s)"
proof -
  assume "ok_rep (Inr s)" and ne: "\<not> que_empty (s_queue s INTERNAL_Q)"
  then obtain C where r: "sys_rep s C" by (auto simp: ok_rep_def)
  obtain ip xs where C: "C INTERNAL_Q = ip # xs" using ne rep_empty [OF r] by (cases "C INTERNAL_Q") auto
  obtain s1 where s1: "que_first INTERNAL_Q s = (ip, s1)" "sys_rep s1 (C(INTERNAL_Q := xs))"
    "held ip (C(INTERNAL_Q := xs))"
    using que_first_waiting [where Q = INTERNAL_Q, OF r C internal_no_job] by blast
  let ?C = "C(INTERNAL_Q := xs)"
  have l: "sys_rep (s1\<lparr>s_locked := (s_locked s1)(ip := True)\<rparr>) ?C"
    by (rule lock_rep [OF s1(2,3)])
  let ?s2 = "set_status IMAGO_READY ip (s1\<lparr>s_locked := (s_locked s1)(ip := True)\<rparr>)"
  have "ok_rep (bind_res (set_log_status LOG_ALIVE ip ?s2) (\<lambda>s3. Inr (icb_put_signal ENGINE_Q ip s3)))"
    using l put_ok(3) [OF _ s1(3)] by (auto simp: set_log_status_def Let_def ok_rep_intros)
  thus ?thesis using s1(1) by (simp add: flush_first_def icb_lock_def ok_rep_intros)
qed

lemma timer_flush_ok: "sys_rep s C \<Longrightarrow> ok_rep (timer_flush s)"
proof -
  assume r: "sys_rep s C"
  let ?b = "\<lambda>r. case r of Inl e \<Rightarrow> False | Inr t \<Rightarrow> \<not> que_empty (s_queue t INTERNAL_Q)"
  let ?c = "\<lambda>r. bind_res r flush_first"
  have "ok_rep t" if "while_option ?b ?c (Inr s) = Some t" for t
  proof (rule while_option_rule [where P = ok_rep, OF _ that])
    fix t assume "ok_rep t" "?b t"
    thus "ok_rep (?c t)" using flush_first_ok by (cases t) auto
  qed (use r in \<open>rule ok_rep_intros\<close>)
  thus ?thesis unfolding timer_flush_def
    by (cases "while_option ?b ?c (Inr s)") (auto simp: ok_rep_intros bind_res_def split: sum.splits)
qed

lemma sleep_ok:
  assumes "sys_rep s C" "held ip C"
  shows "ok_rep (sleep_until E ip s)"
proof -
  have fin: "ok_rep (if timer_less (dday s2 ip) tv
       then Inr (icb_put_signal ENGINE_Q ip (set_status IMAGO_READY ip (set_dday timer_clear ip s2)))
       else bind_res (set_log_status LOG_SLEEPING ip (icb_put_q INTERNAL_Q ip s2)) (timer_recall E))"
    if r: "sys_rep s2 C" for s2 tv
  proof -
    have a: "ok_rep (Inr (icb_put_signal ENGINE_Q ip (set_status IMAGO_READY ip (set_dday timer_clear ip s2))))"
      by (rule put_ok(3)) (use r assms(2) in \<open>simp_all add: set_dday_def\<close>)
    obtain D where D: "sys_rep (icb_put_q INTERNAL_Q ip s2) D"
      using put_ok(9) [OF r assms(2)] by (auto simp: ok_rep_def)
    have t: "ok_rep (timer_recall E t)" if "sys_rep t D" for t
      unfolding timer_recall_def
      by (rule ok_rep_bind(1)) (use wake_all_ok [OF that] set_alarm_ok in \<open>auto simp: ok_rep_def\<close>)
    have b: "ok_rep (bind_res (set_log_status LOG_SLEEPING ip (icb_put_q INTERNAL_Q ip s2)) (timer_recall E))"
      by (rule ok_rep_bind(1)) (use D t in \<open>auto simp: set_log_status_def Let_def split: if_splits\<close>)
    show ?thesis using a b by simp
  qed
  have n: "now s = (s_clock s (s_ticks s), s\<lparr>s_ticks := s_ticks s + 1\<rparr>)" by (simp add: now_def)
  show ?thesis
    unfolding sleep_until_def n Let_def prod.case
  proof (rule ok_rep_bind(1))
    fix r assume r: "(if \<not> timer_isset (dday (s\<lparr>s_ticks := s_ticks s + 1\<rparr>) ip) then
           bind_res (of_opt (deref_word (s_mem (s\<lparr>s_ticks := s_ticks s + 1\<rparr>)) (s_mem (s\<lparr>s_ticks := s_ticks s + 1\<rparr>)
             (i_st (core (s_icb (s\<lparr>s_ticks := s_ticks s + 1\<rparr>) ip)))))) (\<lambda>v.
             Inr (case sleep_time E (s_mem (s\<lparr>s_ticks := s_ticks s + 1\<rparr>)) v of
                    None \<Rightarrow> None
                  | Some tv1 \<Rightarrow> Some (set_dday (timer_add (s_clock s (s_ticks s)) tv1) ip (s\<lparr>s_ticks := s_ticks s + 1\<rparr>))))
         else Inr (Some (s\<lparr>s_ticks := s_ticks s + 1\<rparr>))) = Inr r"
    have "sys_rep s2 C" if "r = Some s2" for s2
      using r that assms(1)
      by (cases "deref_word (s_mem s) (s_mem s (i_st (core (s_icb s ip))))")
         (auto simp: set_dday_def split: if_splits option.splits)
    thus "ok_rep (case r of None \<Rightarrow> Inr (icb_put_signal ENGINE_Q ip (set_error (ecode E_ILLEGAL_ARGUMENT) ip
             (s\<lparr>s_ticks := s_ticks s + 1\<rparr>)))
          | Some s2 \<Rightarrow> (if timer_less (dday s2 ip) (s_clock s (s_ticks s))
               then Inr (icb_put_signal ENGINE_Q ip (set_status IMAGO_READY ip (set_dday timer_clear ip s2)))
               else bind_res (set_log_status LOG_SLEEPING ip (icb_put_q INTERNAL_Q ip s2)) (timer_recall E)))"
      using fin put_ok(3) [of "set_error (ecode E_ILLEGAL_ARGUMENT) ip (s\<lparr>s_ticks := s_ticks s + 1\<rparr>)" C ip] assms
      by (cases r) simp_all
  qed
qed

lemma timer_ok:
  assumes "sys_rep s C"
  shows "ok_rep2 (imago_timer E s)"
  unfolding imago_timer_def
proof (rule handler_ok [OF assms])
  have fl: "ok_rep2 (bind_res (if s_stop t then timer_flush t else Inr t) (\<lambda>s2. Inr (False, s2)))"
    if "sys_rep t D" for t D
    by (rule ok_rep_bind2) (use timer_flush_ok [OF that] that in \<open>simp add: ok_rep_intros\<close>)
  fix ip s1 C' assume s1: "sys_rep s1 C'" "held ip C'"
  show "ok_rep2 ((\<lambda>(ip, s1).
       if idle ip s1 then bind_res (if s_stop s1 then timer_flush s1 else Inr s1) (\<lambda>s2. Inr (False, s2))
       else if s_stop s1 then Inr (True, icb_put_signal ENGINE_Q ip (set_status IMAGO_READY ip s1))
       else if ip_status s1 ip = IMAGO_TIMER
       then bind_res (sleep_until E ip s1) (\<lambda>s2. Inr (True, s2))
       else Inr (True, icb_put_signal ENGINE_Q ip s1)) (ip, s1))"
    using fl [OF s1(1)] put_ok(3) [OF s1] put_ok(3) [of "set_status IMAGO_READY ip s1" C' ip] s1 sleep_ok [OF s1]
    by (auto intro!: ok_rep_bind2 put_ok2)
next
  fix s1 C' assume "sys_rep s1 C'"
  thus "ok_rep2 ((\<lambda>(ip, s1).
       if idle ip s1 then bind_res (if s_stop s1 then timer_flush s1 else Inr s1) (\<lambda>s2. Inr (False, s2))
       else if s_stop s1 then Inr (True, icb_put_signal ENGINE_Q ip (set_status IMAGO_READY ip s1))
       else if ip_status s1 ip = IMAGO_TIMER
       then bind_res (sleep_until E ip s1) (\<lambda>s2. Inr (True, s2))
       else Inr (True, icb_put_signal ENGINE_Q ip s1)) (NULL, s1))"
    using timer_flush_ok by (auto simp: idle_def intro!: ok_rep_bind2 intro: ok_rep_intros)
qed (simp add: job_queues_def)

end
