(* ===== verification/MLVM_System_Props.thy ===== *)
theory MLVM_System_Props
  imports MLVM_System_Correct MLVM_Engine_Correct
begin

text \<open>
  The properties of the queues, pools and system threads, each with a witness on
  a small system that is built with the model's own operations.
\<close>

section \<open>Queues and pools\<close>

text \<open>
  An ICB queue is first-in first-out: appending the ICBs ys to a
  queue that holds xs and then taking as many out with icb_first yields xs
  followed by ys, and leaves the queue empty.
\<close>

lemma icb_queue_fifo:
  assumes "icb_rep s xs" "distinct ys" "NULL \<notin> set ys" "set xs \<inter> set ys = {}"
  shows "fst (icbq.deq_n (length xs + length ys) (fold icb_append ys s)) = xs @ ys
    \<and> icb_rep (snd (icbq.deq_n (length xs + length ys) (fold icb_append ys s))) []"
proof -
  have "icbq.enq_all ys s = fold icb_append ys s" for ys s by (induction ys arbitrary: s) simp_all
  thus ?thesis using icbq.fifo [OF assms] by simp
qed

lemma empty_icb_rep: "icb_rep (nx, \<lparr>q_head = NULL, q_tail = NULL\<rparr>) []" by simp

lemma icb_queue_fifo_witness:
  "fst (icbq.deq_n (length [8 :: addr, 16])
     (fold icb_append [8, 16] ((\<lambda>_. 0), \<lparr>q_head = NULL, q_tail = NULL\<rparr>))) = [8, 16]"
  using icb_queue_fifo [OF empty_icb_rep, of "[8, 16]" "\<lambda>_. 0"] by (simp del: icbq.deq_n.simps fold.simps icb_rep.simps)

text \<open>
  The transport queues serve both disciplines: nodes enqueued come
  out in the order they went in, nodes pushed come out before them in reverse
  order (enqueue, push, dequeue and pop of transport/queue.c).
\<close>

lemma transport_queue_order:
  assumes "link_rep s xs" "distinct (ys @ zs)" "NULL \<notin> set (ys @ zs)" "set xs \<inter> set (ys @ zs) = {}"
  shows "fst (linkq.deq_n (length zs + (length xs + length ys)) (fold insert_first zs (fold insert_last ys s)))
    = rev zs @ xs @ ys"
proof -
  have f: "linkq.enq_all ys s = fold insert_last ys s" "linkq.ins_all ys s = fold insert_first ys s" for ys s
    by (induction ys arbitrary: s) simp_all
  have d: "set (xs @ ys) \<inter> set zs = {}" "set xs \<inter> set ys = {}" using assms by auto
  have "link_rep (fold insert_last ys s) (xs @ ys)" using linkq.enq_all_rep [of s xs ys] d assms f by auto
  hence "link_rep (fold insert_first zs (fold insert_last ys s)) ((rev zs @ xs @ ys) @ [])"
    using linkq.ins_all_rep [of "fold insert_last ys s" "xs @ ys" zs] d assms f by auto
  from linkq.deq_n_rep [OF this] show ?thesis by simp
qed

lemma empty_link_rep: "link_rep (nx, queue_init) []" by (simp add: queue_init_def)

lemma transport_queue_order_witness:
  "fst (linkq.deq_n (length [24 :: addr, 8, 16])
     (fold insert_first [24] (fold insert_last [8, 16] ((\<lambda>_. 0), queue_init)))) = [24, 8, 16]"
  using transport_queue_order [of "((\<lambda>_. 0), queue_init)" "[]" "[8, 16]" "[24]"] empty_link_rep
  by (simp del: linkq.deq_n.simps fold.simps)

text \<open>
  icb_remove takes exactly the given ICB out of a queue, wherever it
  stands, keeps the order of the others and touches no pointer outside the
  queue; removing an ICB that is not queued changes nothing the queue can see.
\<close>

lemma icb_remove_deletes:
  assumes "icb_rep (nx, q) xs" "ip \<noteq> NULL"
  shows "\<exists>s. icb_remove ip (nx, q) = Some s \<and> icb_rep s (remove1 ip xs)
    \<and> icb_length s = Some (length (remove1 ip xs))
    \<and> (\<forall>p. p \<notin> insert ip (set xs) \<longrightarrow> fst s p = nx p)"
  using icb_remove_rep [OF assms] icb_length_rep by blast

lemma icb_remove_deletes_witness:
  "\<exists>s. icb_remove 16 (fold icb_append [8, 16, 24] ((\<lambda>_. 0), \<lparr>q_head = NULL, q_tail = NULL\<rparr>)) = Some s
     \<and> icb_rep s [8, 24]"
proof -
  let ?s = "fold icb_append [8, 16, 24] ((\<lambda>_. 0), \<lparr>q_head = NULL, q_tail = NULL\<rparr>)"
  have "icbq.enq_all [8, 16, 24] ((\<lambda>_. 0), \<lparr>q_head = NULL, q_tail = NULL\<rparr>) = ?s" by simp
  hence r: "icb_rep (fst ?s, snd ?s) [8, 16, 24]"
    using icbq.enq_all_rep [OF empty_icb_rep, of "[8, 16, 24]"] by simp
  have "(16 :: addr) \<noteq> NULL" by simp
  from icb_remove_deletes [OF r this] show ?thesis by auto
qed

text \<open>
  The ICB pool.  icb_init makes a pool of MAX_IMAGOES distinct ICBs,
  so that icb_new succeeds MAX_IMAGOES times; on an exhausted pool icb_new does
  not return NULL, as its callers expect, but dereferences it.
\<close>

primrec take_icbs :: "nat \<Rightarrow> sys \<Rightarrow> (addr list \<times> sys) res" where
  "take_icbs 0 s = Inr ([], s)"
| "take_icbs (Suc n) s =
     bind_res (icb_new s) (\<lambda>(ip, s1). bind_res (take_icbs n s1) (\<lambda>(ips, s2). Inr (ip # ips, s2)))"

lemma take_icbs_pool:
  "icb_rep (s_next s, s_queue s FREE_Q) xs \<Longrightarrow>
     (\<exists>s'. take_icbs (length xs) s = Inr (xs, s') \<and> icb_new s' = Inl F_Null)"
proof (induction xs arbitrary: s)
  case Nil
  hence "icb_first (s_next s, s_queue s FREE_Q) = (NULL, s_next s, s_queue s FREE_Q)"
    using icbq.deq_nil by blast
  thus ?case by (simp add: icb_new_def que_first_def Let_def)
next
  case (Cons x xs)
  have nn: "x \<noteq> NULL" using icbq.rep_nodes [OF Cons.prems] by auto
  obtain q where q: "icb_first (s_next s, s_queue s FREE_Q) = (x, s_next s, q)" "icb_rep (s_next s, q) xs"
    using icb_first_rep [OF Cons.prems] by (auto simp: icb_first_def Let_def)
  obtain s1 where s1: "icb_new s = Inr (x, s1)" "s_next s1 = s_next s" "s_queue s1 FREE_Q = q"
    using nn by (simp add: icb_new_def que_first_def Let_def q(1))
  hence "icb_rep (s_next s1, s_queue s1 FREE_Q) xs" using q(2) by simp
  from Cons.IH [OF this] obtain s' where "take_icbs (length xs) s1 = Inr (xs, s')" "icb_new s' = Inl F_Null" by blast
  thus ?case using s1(1) by auto
qed

lemma icb_pool_exhausts:
  assumes "unat blk + MAX_IMAGOES * unat sz < 2 ^ 32" "0 < unat sz" "blk \<noteq> NULL" "icb_init sz blk s = Inr s1"
  shows "\<exists>ips s2. take_icbs MAX_IMAGOES s1 = Inr (ips, s2) \<and> distinct ips \<and> length ips = MAX_IMAGOES
    \<and> NULL \<notin> set ips \<and> icb_new s2 = Inl F_Null"
proof -
  let ?xs = "records MAX_IMAGOES sz blk"
  have p: "icb_rep (pool_init MAX_IMAGOES sz blk (s_next s)) ?xs"
    using pool_init_rep [OF _ assms(1-3)] by simp
  hence "icb_rep (s_next s1, s_queue s1 FREE_Q) ?xs"
    using assms(3,4) by (auto simp: icb_init_def split: prod.splits)
  from take_icbs_pool [OF this] show ?thesis
    using records_distinct [OF assms(1-3)] by (auto simp: records_def)
qed

text \<open>A system with empty queues, and systems made from it by the queue macros.\<close>

definition empty_sys :: sys where
  "empty_sys = \<lparr>s_next = (\<lambda>_. 0), s_icb = (\<lambda>_. blank_icb), s_queue = (\<lambda>_. \<lparr>q_head = NULL, q_tail = NULL\<rparr>),
     s_locked = (\<lambda>_. False), s_jobs = 0, s_twfj = 0, s_threads = 5, s_signals = 0,
     s_log_next = (\<lambda>_. 0), s_log = (\<lambda>_. \<lparr>lg_application = 0, lg_name = [], lg_status = LOG_ALIVE,
       lg_server = \<lparr>h_name = [], h_host_id = 0\<rparr>, lg_jumps = 0, lg_time = 0, lg_ip = 0\<rparr>),
     s_live_logs = \<lparr>q_head = NULL, q_tail = NULL\<rparr>, s_free_logs = \<lparr>q_head = NULL, q_tail = NULL\<rparr>,
     s_mem = (\<lambda>_. 0), s_stop = False, s_clock = (\<lambda>k. \<lparr>tv_sec = int k, tv_usec = 0\<rparr>), s_ticks = 10,
     s_wakeup = 3, s_alarm = None\<rparr>"

lemma empty_sys_rep: "sys_rep empty_sys (\<lambda>_. [])"
  by (simp add: sys_rep_def empty_sys_def njobs_def job_queues_def)

lemma icb_pool_exhausts_witness:
  "\<exists>s1 ips s2. icb_init 512 4096 empty_sys = Inr s1 \<and> take_icbs 1024 s1 = Inr (ips, s2) \<and> length ips = 1024
     \<and> icb_new s2 = Inl F_Null"
proof -
  obtain s1 where "icb_init 512 4096 empty_sys = Inr s1"
    by (cases "pool_init MAX_IMAGOES 512 4096 (s_next empty_sys)") (simp add: icb_init_def)
  with icb_pool_exhausts [of 4096 512 empty_sys s1] show ?thesis by auto
qed

section \<open>The threads together\<close>

text \<open>
  One step of the server: a pass of one of its threads, the timer's wake-up
  callback, or the arrival of an imago in a new ICB.
\<close>

inductive sys_step :: "env \<Rightarrow> sys \<Rightarrow> sys \<Rightarrow> bool" for E where
  step_scheduler: "imago_scheduler E s = Inr (b, t) \<Longrightarrow> sys_step E s t"
| step_memory: "imago_memory E s = Inr (b, t) \<Longrightarrow> sys_step E s t"
| step_creator: "imago_creator E s = Inr (b, t) \<Longrightarrow> sys_step E s t"
| step_out: "imago_out E s = Inr (b, t) \<Longrightarrow> sys_step E s t"
| step_in: "imago_in E s = Inr (b, t) \<Longrightarrow> sys_step E s t"
| step_timer: "imago_timer E s = Inr (b, t) \<Longrightarrow> sys_step E s t"
| step_recall: "timer_recall E s = Inr t \<Longrightarrow> sys_step E s t"
| step_arrival: "icb_new s = Inr (ip, t) \<Longrightarrow> sys_step E s (imago_in_cb ip t)"

inductive sys_run :: "env \<Rightarrow> sys \<Rightarrow> sys \<Rightarrow> bool" for E where
  run_refl: "sys_run E s s"
| run_step: "sys_run E s t \<Longrightarrow> sys_step E t u \<Longrightarrow> sys_run E s u"

lemma ok_repD: "ok_rep r \<Longrightarrow> r = Inr s \<Longrightarrow> \<exists>C. sys_rep s C" by (simp add: ok_rep_def)
lemma ok_rep2D: "ok_rep2 r \<Longrightarrow> r = Inr (b, s) \<Longrightarrow> \<exists>C. sys_rep s C" by (auto simp: ok_rep2_def)

lemma recall_ok: "sys_rep s C \<Longrightarrow> ok_rep (timer_recall E s)"
  unfolding timer_recall_def
  by (rule ok_rep_bind(1)) (metis ok_repD wake_all_ok set_alarm_ok)

lemma arrival_ok:
  assumes "sys_rep s C" "icb_new s = Inr (ip, t)"
  shows "\<exists>C'. sys_rep (imago_in_cb ip t) C'"
proof (cases "C FREE_Q")
  case Nil
  have "icb_rep (s_next s, s_queue s FREE_Q) []" using assms(1) Nil by (metis sys_rep_def)
  hence "icb_first (s_next s, s_queue s FREE_Q) = (NULL, s_next s, s_queue s FREE_Q)"
    using icbq.deq_nil by blast
  thus ?thesis using assms(2) by (simp add: icb_new_def que_first_def Let_def)
next
  case (Cons p xs)
  obtain q where q: "que_first FREE_Q s = (p, s\<lparr>s_queue := (s_queue s)(FREE_Q := q)\<rparr>)"
    "\<And>R. icb_rep (s_next s, ((s_queue s)(FREE_Q := q)) R) ((C(FREE_Q := xs)) R)"
    and h: "held p (C(FREE_Q := xs))"
    using que_first_rep [OF assms(1) Cons] by metis
  have n: "njobs (C(FREE_Q := xs)) = njobs C"
    using njobs_upd [of C FREE_Q xs] by (simp add: job_queues_def)
  let ?s = "s\<lparr>s_queue := (s_queue s)(FREE_Q := q)\<rparr>"
  have "sys_rep ?s (C(FREE_Q := xs))"
  proof -
    have "\<forall>P R. P \<noteq> R \<longrightarrow> set ((C(FREE_Q := xs)) P) \<inter> set ((C(FREE_Q := xs)) R) = {}"
      "\<forall>R. \<forall>ip\<in>set ((C(FREE_Q := xs)) R). \<not> s_locked s ip" "s_jobs s = njobs (C(FREE_Q := xs))"
    proof -
      have sub: "set ((C(FREE_Q := xs)) R) \<subseteq> set (C R)" for R using Cons by auto
      show "\<forall>P R. P \<noteq> R \<longrightarrow> set ((C(FREE_Q := xs)) P) \<inter> set ((C(FREE_Q := xs)) R) = {}"
        using assms(1) sub unfolding sys_rep_def by blast
      show "\<forall>R. \<forall>ip\<in>set ((C(FREE_Q := xs)) R). \<not> s_locked s ip"
        using assms(1) sub unfolding sys_rep_def by blast
      show "s_jobs s = njobs (C(FREE_Q := xs))" using assms(1) n by (simp add: sys_rep_def)
    qed
    thus ?thesis using q(2) by (simp add: sys_rep_def)
  qed
  moreover have "ip = p" "t = upd_icb p
      (\<lambda>t. t\<lparr>core := (core t)\<lparr>status := IMAGO_READY\<rparr>, ip_cin := 0, ip_cout := 1, ip_cerr := 2\<rparr>) ?s"
    using assms(2) q(1) by (auto simp: icb_new_def Let_def split: if_splits)
  ultimately have "sys_rep t (C(FREE_Q := xs))" "held ip (C(FREE_Q := xs))" using h by simp_all
  from put_rep(1) [OF this] show ?thesis by (auto simp: imago_in_cb_def job_queues_def)
qed

lemma step_keeps:
  assumes "sys_step E s t" "env_ok E" "sys_rep s C"
  shows "\<exists>C'. sys_rep t C'"
  using assms(1)
proof cases
  case (step_scheduler b) thus ?thesis using ok_rep2D scheduler_ok assms by blast
next
  case (step_memory b) thus ?thesis using ok_rep2D memory_ok assms by blast
next
  case (step_creator b) thus ?thesis using ok_rep2D creator_ok assms by blast
next
  case (step_out b) thus ?thesis using ok_rep2D out_ok assms by blast
next
  case (step_in b) thus ?thesis using ok_rep2D in_ok assms by blast
next
  case (step_timer b) thus ?thesis using ok_rep2D timer_ok assms by blast
next
  case step_recall thus ?thesis using ok_repD recall_ok assms by blast
next
  case (step_arrival ip t) thus ?thesis using arrival_ok assms by blast
qed


text \<open>Handlers that call the model's engine; everything else reports an illegal thread.\<close>

definition demo_env :: "(word32 \<Rightarrow> builtin_rec option) \<Rightarrow> double_ops \<Rightarrow> env" where
  "demo_env B D = \<lparr>e_engine = engine_thread B D,
     e_mmanager = (\<lambda>ip s. Inr (s, ecode E_MEMORY_OUT)), e_loader = (\<lambda>ip s. Inr (s, ecode E_SUCCEED)),
     e_sys_loader = (\<lambda>ip s. Inr (s, ecode E_SUCCEED)), e_cloner = (\<lambda>ip s. Inr (s, ecode E_MEMORY_OUT)),
     e_dispatcher = (\<lambda>ip s. Inr (s, ecode E_MEMORY_OUT)), e_send = (\<lambda>to ip. Inr),
     e_release_msger = (\<lambda>ip to. Inr), e_sys_dispatcher = (\<lambda>ip. Inr), e_localhost = ''here'',
     e_hostid = 1, e_log_size = 64, e_malloc_log = (\<lambda>s. 65536), e_timer_new = (\<lambda>s. 1),
     e_seconds = (\<lambda>w. \<lparr>tv_sec = 0, tv_usec = 0\<rparr>)\<rparr>"

lemma demo_env_ok: "env_ok (demo_env B D)"
proof -
  have "keeps_held ip (engine_thread B D ip) id" for ip
    unfolding keeps_held_def by (metis engine_thread_rep id_apply)
  thus ?thesis by (auto simp: env_ok_def demo_env_def keeps_held_def)
qed

text \<open>An ICB in the engine queue that waits, and one in the queue of waiting messengers.\<close>

definition waiting_sys :: sys where
  "waiting_sys =
     icb_put_q WAITING_MSGER_Q 24 (upd_core 24 (\<lambda>c. c\<lparr>status := IMAGO_WAITING, itype := MESSENGER\<rparr>) empty_sys)"

lemma waiting_sys_rep: "sys_rep waiting_sys ((\<lambda>_. [])(WAITING_MSGER_Q := [24]))"
  using put_rep(3) [of "upd_core 24 (\<lambda>c. c\<lparr>status := IMAGO_WAITING, itype := MESSENGER\<rparr>) empty_sys"
      "\<lambda>_. []" 24 WAITING_MSGER_Q] empty_sys_rep
  by (simp add: waiting_sys_def held_def job_queues_def upd_core_def)

text \<open>The scheduler's pass over an ICB the engine does not accept.\<close>

lemma scheduler_rejects:
  assumes "sys_rep s C" "C ENGINE_Q = ip # xs" "\<not> stopping ip s" "e_engine E = engine_thread B D"
    and "ip_status s ip \<notin> {IMAGO_READY, IMAGO_BACKTRACK, IMAGO_INVALID}"
  shows "\<exists>s' C'. imago_scheduler E s = Inr (True, s') \<and> sys_rep s' C' \<and> ip \<in> set (C' OUT_Q)
    \<and> core (s_icb s' ip) = (core (s_icb s ip))\<lparr>status := IMAGO_ERROR, i_nl := ecode E_ILLEGAL_THREAD\<rparr>"
proof -
  have ne: "\<not> idle ip s"
    using assms(1,2,5) icbq.rep_nodes [of "(s_next s, s_queue s ENGINE_Q)" "ip # xs"]
    by (metis idle_def insertCI list.set_intros(1) sys_rep_def)
  obtain t where t: "engine B D (core (s_icb s ip)) (s_mem s) = Some (Return t)"
    "plt t = (core (s_icb s ip))\<lparr>status := IMAGO_ERROR, i_nl := ecode E_ILLEGAL_THREAD\<rparr>"
    using not_ready_run [of "core (s_icb s ip)" B D "s_mem s"] assms(5) by auto
  from scheduler_run [OF assms(1,2) ne assms(3,4) t(1)] t(2)
  obtain s' where s': "imago_scheduler E s = Inr (True, s')"
    "core (s_icb s' ip) = (core (s_icb s ip))\<lparr>status := IMAGO_ERROR, i_nl := ecode E_ILLEGAL_THREAD\<rparr>"
    "sys_rep s' (routed (Some OUT_Q) ip (C(ENGINE_Q := xs)))" by auto
  have "ip \<in> set ((routed (Some OUT_Q) ip (C(ENGINE_Q := xs))) OUT_Q)" by (simp add: routed_def)
  with s' show ?thesis by blast
qed

definition engine_sys :: sys where
  "engine_sys =
     icb_put_signal ENGINE_Q 24 (upd_core 24 (\<lambda>c. c\<lparr>status := IMAGO_WAITING, itype := MESSENGER\<rparr>) empty_sys)"

lemma engine_sys_rep: "sys_rep engine_sys ((\<lambda>_. [])(ENGINE_Q := [24]))"
  using put_rep(1) [of "upd_core 24 (\<lambda>c. c\<lparr>status := IMAGO_WAITING, itype := MESSENGER\<rparr>) empty_sys"
      "\<lambda>_. []" 24 ENGINE_Q] empty_sys_rep
  by (simp add: engine_sys_def held_def job_queues_def upd_core_def)

lemma engine_sys_step:
  "\<exists>t. sys_run (demo_env B D) engine_sys t \<and> ip_status t 24 = IMAGO_ERROR"
proof -
  have m: "core (s_icb engine_sys 24) = (core blank_icb)\<lparr>status := IMAGO_WAITING, itype := MESSENGER\<rparr>"
    by (simp add: engine_sys_def upd_core_def upd_icb_def empty_sys_def)
  have "\<not> stopping 24 engine_sys" by (simp add: stopping_def is_messenger_def m)
  from scheduler_rejects [OF engine_sys_rep, of 24 "[]" "demo_env B D" B D] this m
  obtain t where t: "imago_scheduler (demo_env B D) engine_sys = Inr (True, t)" "ip_status t 24 = IMAGO_ERROR"
    by (auto simp: demo_env_def)
  thus ?thesis using run_step [OF run_refl step_scheduler [OF t(1)]] by blast
qed


text \<open>
  Claim C28.  The scheduler.  It takes the first ICB of the engine queue out of it
  and locks it, and runs the engine on it.  Whatever the engine did meanwhile, to
  this ICB and to others (the builtins may queue the caller or another imago), the
  ICB is then put at the end of the queue its new status calls for: READY back to
  the engine, EXPANSION, CONTRACTION and COLLECTION to the memory thread, the
  creation states to the creator, TIMER to the timer, MOVE_OUT, ERROR, DISPOSE and
  TERMINATE to the out thread; with any other status (ATTACHING and WAITING, where
  the engine has put it in a queue itself or it is suspended) it is unlocked and
  every queue is as the engine left it.  The scheduler itself changes no ICB and
  no other queue.
\<close>

theorem scheduler_routes:
  assumes "sys_rep s C" "C ENGINE_Q = ip # xs" "\<not> idle ip s" "\<not> stopping ip s"
    and "\<And>s1. icb_get ENGINE_Q s = Inr (ip, s1) \<Longrightarrow> e_engine E ip s1 = Inr s2"
    and "sys_rep (icb_unlock ip s2) D"
    and "ip_status s2 ip \<notin> {IMAGO_ATTACHING, IMAGO_WAITING, IMAGO_BACKTRACK, IMAGO_INVALID} \<Longrightarrow> held ip D"
  shows "\<exists>s1 s' D'. icb_get ENGINE_Q s = Inr (ip, s1)
    \<and> sys_rep s1 (C(ENGINE_Q := xs)) \<and> s_locked s1 ip \<and> s_icb s1 = s_icb s \<and> s_mem s1 = s_mem s
    \<and> imago_scheduler E s = Inr (True, s') \<and> s_icb s' = s_icb s2 \<and> s_mem s' = s_mem s2 \<and> \<not> s_locked s' ip
    \<and> sys_rep s' D'
    \<and> D' = (case ip_status s2 ip of
          IMAGO_READY \<Rightarrow> D(ENGINE_Q := D ENGINE_Q @ [ip])
        | IMAGO_EXPANSION \<Rightarrow> D(MEMORY_Q := D MEMORY_Q @ [ip])
        | IMAGO_CONTRACTION \<Rightarrow> D(MEMORY_Q := D MEMORY_Q @ [ip])
        | IMAGO_COLLECTION \<Rightarrow> D(MEMORY_Q := D MEMORY_Q @ [ip])
        | IMAGO_ERROR \<Rightarrow> D(OUT_Q := D OUT_Q @ [ip])
        | IMAGO_MOVE_OUT \<Rightarrow> D(OUT_Q := D OUT_Q @ [ip])
        | IMAGO_DISPOSE \<Rightarrow> D(OUT_Q := D OUT_Q @ [ip])
        | IMAGO_TERMINATE \<Rightarrow> D(OUT_Q := D OUT_Q @ [ip])
        | IMAGO_MOVE_IN \<Rightarrow> D(CREATOR_Q := D CREATOR_Q @ [ip])
        | IMAGO_CLONING \<Rightarrow> D(CREATOR_Q := D CREATOR_Q @ [ip])
        | IMAGO_DISPATCHING \<Rightarrow> D(CREATOR_Q := D CREATOR_Q @ [ip])
        | IMAGO_CREATION \<Rightarrow> D(CREATOR_Q := D CREATOR_Q @ [ip])
        | IMAGO_SYS_CREATION \<Rightarrow> D(CREATOR_Q := D CREATOR_Q @ [ip])
        | IMAGO_TIMER \<Rightarrow> D(TIMER_Q := D TIMER_Q @ [ip])
        | _ \<Rightarrow> D)"
proof -
  have eq: "ENGINE_Q \<in> set job_queues" by (simp add: job_queues_def)
  obtain s1 where g: "icb_get ENGINE_Q s = Inr (ip, s1)" "sys_rep s1 (C(ENGINE_Q := xs))"
    "s_locked s1 ip" "s_icb s1 = s_icb s" "s_mem s1 = s_mem s" "s_stop s1 = s_stop s"
    using icb_get_rep [OF assms(1,2) eq] by blast
  have ni: "\<not> idle ip s1" "\<not> stopping ip s1" using assms(3,4) g(4,6) by (auto simp: idle_def stopping_def)
  note e = assms(5) [OF g(1)]
  show ?thesis
  proof (cases "route (ip_status s2 ip)")
    case None
    hence "imago_scheduler E s = Inr (True, icb_unlock ip s2)"
      using g(1) ni e by (simp add: imago_scheduler_def)
    moreover have "\<not> s_locked (icb_unlock ip s2) ip" by (simp add: icb_unlock_def)
    ultimately show ?thesis using None g assms(6) by (cases "ip_status s2 ip") auto
  next
    case (Some Q)
    hence h: "held ip D" using assms(7) by (cases "ip_status s2 ip") auto
    have u: "icb_put_signal Q ip (icb_unlock ip s2) = icb_put_signal Q ip s2"
      by (simp add: icb_put_signal_def icb_put_q_def icb_unlock_def on_queue_def inc_jobs_s_def inc_jobs_def
          Let_def split: prod.splits)
    have p: "sys_rep (icb_put_signal Q ip s2) (D(Q := D Q @ [ip]))"
      using put_rep(1) [OF assms(6) h route_jobs [OF Some]] by (simp only: u)
    have "\<not> s_locked (icb_put_signal Q ip s2) ip"
      using p unfolding sys_rep_def by (metis fun_upd_same in_set_conv_decomp)
    moreover have "imago_scheduler E s = Inr (True, icb_put_signal Q ip s2)"
      using g(1) ni e Some by (simp add: imago_scheduler_def)
    ultimately show ?thesis using Some g p by (cases "ip_status s2 ip") auto
  qed
qed

theorem scheduler_routes_witness:
  "\<exists>s' D'. imago_scheduler (demo_env (\<lambda>_. None) demo_ops) engine_sys = Inr (True, s')
     \<and> sys_rep s' D' \<and> D' ENGINE_Q = [] \<and> D' OUT_Q = [24]"
proof -
  let ?E = "demo_env (\<lambda>_. None) demo_ops"
  have m: "core (s_icb engine_sys 24) = (core blank_icb)\<lparr>status := IMAGO_WAITING, itype := MESSENGER\<rparr>"
    by (simp add: engine_sys_def upd_core_def upd_icb_def empty_sys_def)
  obtain t where t: "engine (\<lambda>_. None) demo_ops (core (s_icb engine_sys 24)) (s_mem engine_sys) = Some (Return t)"
    "status (plt t) = IMAGO_ERROR"
    using not_ready_run [of "core (s_icb engine_sys 24)" "\<lambda>_. None" demo_ops "s_mem engine_sys"] m by auto
  have i: "\<not> idle 24 engine_sys" "\<not> stopping 24 engine_sys" by (simp_all add: idle_def stopping_def is_messenger_def m)
  have eq: "ENGINE_Q \<in> set job_queues" and c: "((\<lambda>_. [])(ENGINE_Q := [24])) ENGINE_Q = 24 # []"
    by (simp_all add: job_queues_def)
  obtain s1 where g: "icb_get ENGINE_Q engine_sys = Inr (24, s1)" "sys_rep s1 (\<lambda>_. [])"
    "s_icb s1 = s_icb engine_sys" "s_mem s1 = s_mem engine_sys"
    using icb_get_rep [OF engine_sys_rep c eq] by (metis fun_upd_triv fun_upd_upd)
  let ?s2 = "upd_core 24 (\<lambda>_. plt t) (s1\<lparr>s_mem := mem t\<rparr>)"
  have e: "e_engine ?E 24 u = Inr ?s2" if "icb_get ENGINE_Q engine_sys = Inr (24, u)" for u
    using that g t by (simp add: demo_env_def engine_thread_def)
  have r: "sys_rep (icb_unlock 24 ?s2) (\<lambda>_. [])"
    by (rule unlock_rep) (use g(2) in \<open>simp add: upd_core_def\<close>)
  have "ip_status ?s2 24 = IMAGO_ERROR" by (simp add: upd_core_def t(2))
  moreover have "held 24 (\<lambda>_. [])" by (simp add: held_def)
  ultimately obtain s' where "imago_scheduler ?E engine_sys = Inr (True, s')" "sys_rep s' ((\<lambda>_. [])(OUT_Q := [24]))"
    using scheduler_routes [OF engine_sys_rep c i e r] by auto
  thus ?thesis by (intro exI [of _ s'] exI [of _ "(\<lambda>_. [])(OUT_Q := [24])"]) simp
qed

text \<open>
  Claim C35.  A messenger that waits for an unknown receiver is requeued with
  status WAITING when release_waiting_msger lets it go.  The engine accepts only
  READY and BACKTRACK, so instead of trying its attach again the messenger is
  ended with E_ILLEGAL_THREAD and handed to the out thread, which disposes of it.
\<close>

theorem released_messenger_killed:
  assumes "sys_rep s C" "C ENGINE_Q = []" "C WAITING_MSGER_Q = ip # ips"
    and "is_messenger (core (s_icb s ip))" "ip_status s ip = IMAGO_WAITING"
    and "e_engine E = engine_thread B D"
  shows "\<exists>s1 s2 C2. release_waiting_msger s = Some s1 \<and> imago_scheduler E s1 = Inr (True, s2)
    \<and> ip_status s2 ip = IMAGO_ERROR \<and> i_nl (core (s_icb s2 ip)) = ecode E_ILLEGAL_THREAD
    \<and> sys_rep s2 C2 \<and> ip \<in> set (C2 OUT_Q)"
proof -
  obtain s1 where s1: "release_waiting_msger s = Some s1" "s_icb s1 = s_icb s" "s_stop s1 = s_stop s"
    "sys_rep s1 (C(WAITING_MSGER_Q := [], ENGINE_Q := C ENGINE_Q @ C WAITING_MSGER_Q))"
    using release_msger_rep [OF assms(1)] by blast
  have "\<not> stopping ip s1" using assms(4) s1(2) by (simp add: stopping_def)
  from scheduler_rejects [OF s1(4) _ this assms(6)] assms(2,3,5) s1(1,2)
  show ?thesis by auto
qed

theorem released_messenger_killed_witness:
  "\<exists>s1 s2. release_waiting_msger waiting_sys = Some s1
     \<and> imago_scheduler (demo_env (\<lambda>_. None) demo_ops) s1 = Inr (True, s2)
     \<and> ip_status s2 24 = IMAGO_ERROR"
proof -
  have m: "core (s_icb waiting_sys 24) = (core blank_icb)\<lparr>status := IMAGO_WAITING, itype := MESSENGER\<rparr>"
    by (simp add: waiting_sys_def upd_core_def upd_icb_def empty_sys_def)
  have "e_engine (demo_env (\<lambda>_. None) demo_ops) = engine_thread (\<lambda>_. None) demo_ops" by (simp add: demo_env_def)
  from released_messenger_killed [OF waiting_sys_rep _ _ _ _ this, of 24 "[]"] m show ?thesis
    by (auto simp: is_messenger_def)
qed

text \<open>Where the ICBs of a released queue end.\<close>

lemma drain_filter: "drain f xs D Q = D Q @ filter (\<lambda>ip. f ip = Some Q) xs"
  by (induction xs arbitrary: D) (auto simp: routed_def split: option.splits)

text \<open>
  Claim C36.  Disposing of an imago (imago_out.c).  A messenger is freed at once;
  for any other imago the log is closed, its messengers are released and its queen
  is told first.  The ICB then goes in front of the pool, blank and with no
  messenger, and the queue of those that wait for memory is emptied: the ICBs in
  EXPANSION and COLLECTION go to the memory thread, those in MOVE_IN, CLONING,
  DISPATCHING, CREATION and SYS_CREATION to the creator, in the order they waited.
  An ICB with any other status (one a shutdown has marked TERMINATE, for instance)
  leaves the waiting queue and is in no queue at all.  No other queue and no other
  ICB changes.
\<close>

theorem waiting_memory_released:
  assumes "if is_messenger (core (s_icb s ip)) then s2 = s
     else \<exists>s1. e_release_msger E ip None
            (if ip_log (s_icb s ip) = NULL then s
             else upd_log (ip_log (s_icb s ip)) (\<lambda>e. e\<lparr>lg_status := LOG_DISPOSED, lg_ip := NULL\<rparr>) s) = Inr s1
          \<and> e_sys_dispatcher E ip s1 = Inr s2"
    and "sys_rep s2 C" "held ip C"
  shows "\<exists>s' C'. dispose E ip s = Inr s' \<and> sys_rep s' C'
    \<and> s_icb s' = (s_icb s2)(ip := blank_icb) \<and> C' FREE_Q = ip # C FREE_Q \<and> C' (MSQ ip) = []
    \<and> C' WAITING_MEM_Q = []
    \<and> C' MEMORY_Q = C MEMORY_Q
        @ filter (\<lambda>p. ip_status s2 p \<in> {IMAGO_EXPANSION, IMAGO_COLLECTION}) (C WAITING_MEM_Q)
    \<and> C' CREATOR_Q = C CREATOR_Q
        @ filter (\<lambda>p. ip_status s2 p \<in> {IMAGO_MOVE_IN, IMAGO_CLONING, IMAGO_DISPATCHING, IMAGO_CREATION,
                        IMAGO_SYS_CREATION}) (C WAITING_MEM_Q)
    \<and> (\<forall>Q. Q \<notin> {FREE_Q, MSQ ip, WAITING_MEM_Q, MEMORY_Q, CREATOR_Q} \<longrightarrow> C' Q = C Q)"
proof -
  let ?f = "icb_free ip s2" and ?D = "C(MSQ ip := [], FREE_Q := ip # C FREE_Q)"
  have i: "s_icb ?f = (s_icb s2)(ip := blank_icb)"
    by (simp add: icb_free_def icb_unlock_def on_queue_def Let_def split: prod.splits)
  obtain s' where s': "release_waiting_mem ?f = Some s'" "s_icb s' = s_icb ?f"
    "sys_rep s' (drain (\<lambda>p. retry_route (ip_status ?f p)) (?D WAITING_MEM_Q) (?D(WAITING_MEM_Q := [])))"
    using release_mem_rep [OF icb_free_rep [OF assms(2,3)]] by blast
  define X where "X = drain (\<lambda>p. retry_route (ip_status ?f p)) (?D WAITING_MEM_Q) (?D(WAITING_MEM_Q := []))"
  have nw: "ip \<notin> set (C WAITING_MEM_Q)" using assms(3) by (simp add: held_def)
  have "filter (\<lambda>p. retry_route (ip_status ?f p) = Some Q) (C WAITING_MEM_Q)
      = filter (\<lambda>p. retry_route (ip_status s2 p) = Some Q) (C WAITING_MEM_Q)" for Q
    using nw by (auto simp: i intro: filter_cong)
  hence X: "X Q = (?D(WAITING_MEM_Q := [])) Q @ filter (\<lambda>p. retry_route (ip_status s2 p) = Some Q) (C WAITING_MEM_Q)" for Q
    by (simp add: X_def drain_filter)
  have r: "retry_route st = Some Q \<longleftrightarrow>
      Q = MEMORY_Q \<and> st \<in> {IMAGO_EXPANSION, IMAGO_COLLECTION} \<or>
      Q = CREATOR_Q \<and> st \<in> {IMAGO_MOVE_IN, IMAGO_CLONING, IMAGO_DISPATCHING, IMAGO_CREATION, IMAGO_SYS_CREATION}"
    for st Q by (cases st) auto
  have "dispose E ip s = Inr s'"
    using assms(1) s'(1) by (auto simp: dispose_def log_disposed_def split: if_splits)
  moreover have "sys_rep s' X" using s'(3) by (simp add: X_def)
  ultimately show ?thesis
    using s'(2) i by (intro exI [of _ s'] exI [of _ X]) (simp add: X r)
qed

text \<open>Two ICBs wait for memory, one of them marked TERMINATE; the messenger at 8 is done.\<close>

definition full_sys :: sys where
  "full_sys =
     icb_put_q WAITING_MEM_Q 24 (icb_put_q WAITING_MEM_Q 16
       (upd_core 24 (\<lambda>c. c\<lparr>status := IMAGO_TERMINATE\<rparr>) (upd_core 16 (\<lambda>c. c\<lparr>status := IMAGO_EXPANSION\<rparr>)
         (upd_core 8 (\<lambda>c. c\<lparr>itype := MESSENGER, status := IMAGO_DISPOSE\<rparr>) empty_sys))))"

lemma full_sys_rep: "sys_rep full_sys ((\<lambda>_. [])(WAITING_MEM_Q := [16, 24]))"
proof -
  let ?u = "upd_core 24 (\<lambda>c. c\<lparr>status := IMAGO_TERMINATE\<rparr>) (upd_core 16 (\<lambda>c. c\<lparr>status := IMAGO_EXPANSION\<rparr>)
      (upd_core 8 (\<lambda>c. c\<lparr>itype := MESSENGER, status := IMAGO_DISPOSE\<rparr>) empty_sys))"
  have "sys_rep (icb_put_q WAITING_MEM_Q 16 ?u) ((\<lambda>_. [])(WAITING_MEM_Q := [16]))"
    using put_rep(3) [of ?u "\<lambda>_. []" 16 WAITING_MEM_Q] empty_sys_rep
    by (simp add: held_def job_queues_def upd_core_def)
  from put_rep(3) [OF this, of 24 WAITING_MEM_Q] show ?thesis
    by (simp add: full_sys_def held_def job_queues_def)
qed

theorem waiting_memory_released_witness:
  "\<exists>s' C'. dispose (demo_env (\<lambda>_. None) demo_ops) 8 full_sys = Inr s' \<and> sys_rep s' C'
     \<and> C' FREE_Q = [8] \<and> C' WAITING_MEM_Q = [] \<and> C' MEMORY_Q = [16] \<and> C' CREATOR_Q = [] \<and> C' OUT_Q = []"
proof -
  let ?E = "demo_env (\<lambda>_. None) demo_ops"
  have st: "is_messenger (core (s_icb full_sys 8))" "ip_status full_sys 16 = IMAGO_EXPANSION"
    "ip_status full_sys 24 = IMAGO_TERMINATE"
    by (simp_all add: full_sys_def upd_core_def is_messenger_def)
  have m: "if is_messenger (core (s_icb full_sys 8)) then full_sys = full_sys
     else \<exists>s1. e_release_msger ?E 8 None (if ip_log (s_icb full_sys 8) = NULL then full_sys
            else upd_log (ip_log (s_icb full_sys 8)) (\<lambda>e. e\<lparr>lg_status := LOG_DISPOSED, lg_ip := NULL\<rparr>) full_sys) = Inr s1
          \<and> e_sys_dispatcher ?E 8 s1 = Inr full_sys"
    using st(1) by simp
  have "held 8 ((\<lambda>_. [])(WAITING_MEM_Q := [16, 24]))" by (simp add: held_def)
  from waiting_memory_released [OF m full_sys_rep this] show ?thesis by (auto simp: st)
qed

section \<open>The timer\<close>

text \<open>The delay the alarm is set to for deadline d at time t.\<close>

definition alarm_delay :: "timeval \<Rightarrow> timeval \<Rightarrow> timeval" where
  "alarm_delay d t = (if timer_less d t then \<lparr>tv_sec = 0, tv_usec = 1\<rparr> else timer_sub d t)"

lemma set_alarm_run:
  assumes "sys_rep s C" "0 \<le> s_wakeup s"
  shows "\<exists>s'. set_alarm E s = Inr s' \<and> sys_rep s' C \<and> s_icb s' = s_icb s
    \<and> (if C INTERNAL_Q = [] then s_alarm s' = None
       else \<exists>p\<in>set (C INTERNAL_Q). (\<forall>q\<in>set (C INTERNAL_Q). \<not> timer_less (dday s q) (dday s p))
              \<and> s_alarm s' = Some (alarm_delay (dday s p) (s_clock s (s_ticks s))))"
proof (cases "C INTERNAL_Q = []")
  case True
  thus ?thesis using assms rep_empty [OF assms(1), of INTERNAL_Q]
    by (simp add: set_alarm_def sys_rep_def)
next
  case False
  obtain tv where tv: "earliest s = Some tv" "\<exists>p\<in>set (C INTERNAL_Q). tv = dday s p"
    "\<forall>p\<in>set (C INTERNAL_Q). \<not> timer_less (dday s p) tv"
    using earliest_rep [OF assms(1) False] by blast
  have "set_alarm E s = Inr (s\<lparr>s_ticks := s_ticks s + 1,
      s_alarm := Some (alarm_delay tv (s_clock s (s_ticks s)))\<rparr>)"
    using False assms rep_empty [OF assms(1), of INTERNAL_Q] tv(1)
    by (simp add: set_alarm_def now_def alarm_delay_def Let_def)
  thus ?thesis using tv assms False by (auto simp: sys_rep_def)
qed

text \<open>
  Claim C30.  The timer's wake-up callback.  It returns; it moves to the engine
  queue, made READY and with the deadline cleared, exactly the sleeping imagoes
  whose deadline has passed when it looks; every imago it leaves asleep has a
  deadline not before its last look at the clock, and the alarm is then set for
  the earliest of them, or taken away when none is left.
\<close>

theorem timer_recall_wakes:
  assumes "sys_rep s C" "\<forall>p\<in>set (C INTERNAL_Q). ip_log (s_icb s p) \<noteq> NULL" "0 \<le> s_wakeup s"
  shows "\<exists>s' W R. timer_recall E s = Inr s'
    \<and> sys_rep s' (C(INTERNAL_Q := R, ENGINE_Q := C ENGINE_Q @ W))
    \<and> R = filter (\<lambda>p. p \<notin> set W) (C INTERNAL_Q) \<and> distinct W \<and> set W \<subseteq> set (C INTERNAL_Q)
    \<and> (\<forall>p. s_icb s' p = (if p \<in> set W then woken (s_icb s p) else s_icb s p))
    \<and> (\<forall>p\<in>set W. \<exists>k. s_ticks s \<le> k \<and> k \<le> s_ticks s + length W \<and> timer_less (dday s p) (s_clock s k))
    \<and> (\<forall>p\<in>set R. \<not> timer_less (dday s p) (s_clock s (s_ticks s + length W)))
    \<and> (if R = [] then s_alarm s' = None
       else \<exists>p\<in>set R. (\<forall>q\<in>set R. \<not> timer_less (dday s q) (dday s p))
              \<and> s_alarm s' = Some (alarm_delay (dday s p) (s_clock s (s_ticks s + length W + 1))))"
proof -
  obtain s1 W R where w: "wake_all s = Inr s1" "woke s C s1 W R" using wake_all_rep [OF assms(1,2)] by blast
  let ?C = "C(INTERNAL_Q := R, ENGINE_Q := C ENGINE_Q @ W)"
  have k: "sys_rep s1 ?C" "distinct W \<and> set W \<subseteq> set (C INTERNAL_Q)" "R = filter (\<lambda>p. p \<notin> set W) (C INTERNAL_Q)"
    "s_icb s1 = (\<lambda>p. if p \<in> set W then woken (s_icb s p) else s_icb s p)"
    "\<forall>p\<in>set W. \<exists>k. s_ticks s \<le> k \<and> k < s_ticks s1 \<and> timer_less (dday s p) (s_clock s k)"
    "\<forall>p\<in>set R. \<not> timer_less (dday s p) (s_clock s (s_ticks s1 - 1))"
    "s_ticks s1 = s_ticks s + length W + 1" "s_clock s1 = s_clock s" "s_wakeup s1 = s_wakeup s"
    using w(2) unfolding woke_def by blast+
  have d: "dday s1 p = dday s p" if "p \<in> set R" for p using k(3,4) that by auto
  have "0 \<le> s_wakeup s1" using k(9) assms(3) by simp
  moreover have ci: "?C INTERNAL_Q = R" by simp
  ultimately obtain s' where s': "set_alarm E s1 = Inr s'" "sys_rep s' ?C" "s_icb s' = s_icb s1"
    and al: "if R = [] then s_alarm s' = None
       else \<exists>p\<in>set R. (\<forall>q\<in>set R. \<not> timer_less (dday s1 q) (dday s1 p))
              \<and> s_alarm s' = Some (alarm_delay (dday s1 p) (s_clock s1 (s_ticks s1)))"
    using set_alarm_run [OF k(1), of E] unfolding ci by blast
  have a: "if R = [] then s_alarm s' = None
       else \<exists>p\<in>set R. (\<forall>q\<in>set R. \<not> timer_less (dday s q) (dday s p))
              \<and> s_alarm s' = Some (alarm_delay (dday s p) (s_clock s (s_ticks s + length W + 1)))"
  proof (cases "R = []")
    case False
    then obtain p where "p \<in> set R" "\<forall>q\<in>set R. \<not> timer_less (dday s1 q) (dday s1 p)"
      "s_alarm s' = Some (alarm_delay (dday s1 p) (s_clock s1 (s_ticks s1)))" using al by auto
    thus ?thesis using d False k(7,8) by auto
  qed (use al in simp)
  have "timer_recall E s = Inr s'" using w(1) s'(1) by (simp add: timer_recall_def)
  moreover have "\<forall>p\<in>set R. \<not> timer_less (dday s p) (s_clock s (s_ticks s + length W))" using k(6,7) by simp
  moreover have "\<forall>p. s_icb s' p = (if p \<in> set W then woken (s_icb s p) else s_icb s p)" using s'(3) k(4) by simp
  moreover have "\<forall>p\<in>set W. \<exists>k. s_ticks s \<le> k \<and> k \<le> s_ticks s + length W \<and> timer_less (dday s p) (s_clock s k)"
    using k(5,7) by (metis Suc_eq_plus1 less_Suc_eq_le)
  ultimately show ?thesis using s'(2) k(2,3) a by blast
qed

text \<open>At second 50 two imagoes sleep, one until second 5 and one until second 90.\<close>

definition sleeping_sys :: sys where
  "sleeping_sys = icb_put_q INTERNAL_Q 32 (icb_put_q INTERNAL_Q 24
     (upd_icb 32 (\<lambda>t. t\<lparr>ip_log := 64, ip_dday := \<lparr>tv_sec = 90, tv_usec = 0\<rparr>\<rparr>)
       (upd_icb 24 (\<lambda>t. t\<lparr>ip_log := 48, ip_dday := \<lparr>tv_sec = 5, tv_usec = 0\<rparr>\<rparr>)
         (empty_sys\<lparr>s_clock := (\<lambda>_. \<lparr>tv_sec = 50, tv_usec = 0\<rparr>)\<rparr>))))"

lemma sleeping_sys_rep: "sys_rep sleeping_sys ((\<lambda>_. [])(INTERNAL_Q := [24, 32]))"
proof -
  let ?e = "upd_icb 32 (\<lambda>t. t\<lparr>ip_log := 64, ip_dday := \<lparr>tv_sec = 90, tv_usec = 0\<rparr>\<rparr>)
       (upd_icb 24 (\<lambda>t. t\<lparr>ip_log := 48, ip_dday := \<lparr>tv_sec = 5, tv_usec = 0\<rparr>\<rparr>)
         (empty_sys\<lparr>s_clock := (\<lambda>_. \<lparr>tv_sec = 50, tv_usec = 0\<rparr>)\<rparr>))"
  have "sys_rep ?e (\<lambda>_. [])" using empty_sys_rep by (simp add: sys_rep_def)
  from put_rep(3) [OF this, of 24 INTERNAL_Q]
  have "sys_rep (icb_put_q INTERNAL_Q 24 ?e) ((\<lambda>_. [])(INTERNAL_Q := [24]))"
    by (simp add: held_def job_queues_def)
  from put_rep(3) [OF this, of 32 INTERNAL_Q] show ?thesis
    by (simp add: sleeping_sys_def held_def job_queues_def)
qed

theorem timer_recall_wakes_witness:
  "\<exists>s'. timer_recall (demo_env (\<lambda>_. None) demo_ops) sleeping_sys = Inr s'
     \<and> sys_rep s' ((\<lambda>_. [])(INTERNAL_Q := [32], ENGINE_Q := [24]))"
proof -
  let ?C = "(\<lambda>_. [])(INTERNAL_Q := [24, 32 :: addr])"
  have c: "?C INTERNAL_Q = [24, 32]" "?C ENGINE_Q = []" by simp_all
  have f: "dday sleeping_sys 24 = \<lparr>tv_sec = 5, tv_usec = 0\<rparr>" "dday sleeping_sys 32 = \<lparr>tv_sec = 90, tv_usec = 0\<rparr>"
    "ip_log (s_icb sleeping_sys 24) = 48" "ip_log (s_icb sleeping_sys 32) = 64"
    by (simp_all add: sleeping_sys_def upd_icb_def)
  have g: "s_clock sleeping_sys = (\<lambda>k. \<lparr>tv_sec = 50, tv_usec = 0\<rparr>)" "s_wakeup sleeping_sys = 3"
    by (simp_all add: sleeping_sys_def icb_put_q_def icb_unlock_def on_queue_def upd_icb_def empty_sys_def split: prod.splits)
  have l: "\<forall>p\<in>set (?C INTERNAL_Q). ip_log (s_icb sleeping_sys p) \<noteq> NULL" unfolding c using f by simp
  have z: "0 \<le> s_wakeup sleeping_sys" by (simp add: g)
  obtain s' W R where w: "timer_recall (demo_env (\<lambda>_. None) demo_ops) sleeping_sys = Inr s'"
    "sys_rep s' (?C(INTERNAL_Q := R, ENGINE_Q := [] @ W))"
    "R = filter (\<lambda>p. p \<notin> set W) [24, 32]" "distinct W" "set W \<subseteq> set [24, 32]"
    "\<forall>p\<in>set W. \<exists>k. timer_less (dday sleeping_sys p) (s_clock sleeping_sys k)"
    "\<forall>p\<in>set R. \<exists>k. \<not> timer_less (dday sleeping_sys p) (s_clock sleeping_sys k)"
    using timer_recall_wakes [OF sleeping_sys_rep l z, of "demo_env (\<lambda>_. None) demo_ops"] unfolding c by blast
  have a: "32 \<notin> set W" using w(6) f(2) by (auto simp: g timer_less_def)
  have b: "24 \<in> set W"
  proof (rule ccontr)
    assume "24 \<notin> set W"
    hence "24 \<in> set R" using w(3) by simp
    thus False using w(7) f(1) by (auto simp: g timer_less_def)
  qed
  have "set W = {24}" using a b w(5) by auto
  hence "W = [24]" using w(4) by (cases W) (auto simp: set_eq_iff, metis list.set_intros(1) neq_Nil_conv)
  moreover have "R = [32]" using w(3) a b by simp
  ultimately show ?thesis using w(1,2) by (metis append_Nil fun_upd_upd)
qed

end
