(* ===== verification/MLVM_Frame.thy ===== *)
theory MLVM_Frame
  imports MLVM_Prelude
begin

text \<open>
  The frames a PDU is stored in (transport/frame.c): a frame is a small stack of
  bytes that grows downwards, a PDU is a list of frames.  The list head of the C
  code is a list here (MLVM_Queue relates the two); the pool of free frames keeps
  only what the code uses of it, its length and the counters.
\<close>

section \<open>Frames and the pool\<close>

type_synonym byte = "8 word"

definition FRAME_SIZE :: nat where "FRAME_SIZE = 4096"

lemma frame_size_pos [simp]: "Suc 0 < FRAME_SIZE" "0 < FRAME_SIZE" by (simp_all add: FRAME_SIZE_def)

record frame =
  f_top :: nat
  f_fc :: "nat \<Rightarrow> byte"

text \<open>fp_malloc k: the k-th call of malloc returns a block.\<close>

record pool =
  fp_free :: nat
  fp_count :: word32
  fp_upper :: word32
  fp_lower :: word32
  fp_malloc :: "nat \<Rightarrow> bool"
  fp_calls :: nat

abbreviation FRAME_HALF_WINDOW :: word32 where "FRAME_HALF_WINDOW \<equiv> 512"

definition frame_new :: "pool \<Rightarrow> frame option \<times> pool" where
  "frame_new p =
     (let nf = \<lparr>f_top = FRAME_SIZE - 1, f_fc = (\<lambda>_. 0)\<rparr> in
      if fp_free p \<noteq> 0
      then (Some nf, p\<lparr>fp_free := fp_free p - 1, fp_count := fp_count p + 1\<rparr>)
      else (let p1 = p\<lparr>fp_calls := fp_calls p + 1\<rparr> in
            if fp_malloc p (fp_calls p)
            then (let p2 = p1\<lparr>fp_count := fp_count p1 + 1\<rparr> in
                  (Some nf,
                   if fp_upper p2 < fp_count p2
                   then p2\<lparr>fp_upper := fp_upper p2 + FRAME_HALF_WINDOW, fp_lower := fp_lower p2 + FRAME_HALF_WINDOW\<rparr>
                   else p2))
            else (None, p1)))"

definition frame_free :: "pool \<Rightarrow> pool" where
  "frame_free p =
     (let p1 = p\<lparr>fp_free := fp_free p + 1, fp_count := fp_count p - 1\<rparr> in
      if fp_count p1 < fp_lower p1
      then (let p2 = (if FRAME_HALF_WINDOW \<le> fp_lower p1
                      then p1\<lparr>fp_upper := fp_upper p1 - FRAME_HALF_WINDOW, fp_lower := fp_lower p1 - FRAME_HALF_WINDOW\<rparr>
                      else p1\<lparr>fp_upper := 2 * FRAME_HALF_WINDOW, fp_lower := 0\<rparr>);
                extra = sint (of_nat (fp_free p1) + fp_count p2 - fp_upper p2)
            in p2\<lparr>fp_free := fp_free p2 - nat extra\<rparr>)
      else p1)"

text \<open>Every frame left in the pool is freed and counted off.\<close>

definition frame_cleanup :: "pool \<Rightarrow> pool" where
  "frame_cleanup p = p\<lparr>fp_free := 0, fp_count := fp_count p - of_nat (fp_free p)\<rparr>"

definition frame_destroy :: "frame list \<Rightarrow> pool \<Rightarrow> frame list \<times> pool" where
  "frame_destroy fs p = ([], (frame_free ^^ length fs) p)"

definition frame_count :: "frame list \<Rightarrow> nat" where "frame_count fs = length fs"

definition used :: "frame \<Rightarrow> int" where "used f = int FRAME_SIZE - (int (f_top f) + 1)"

definition frame_size :: "frame list \<Rightarrow> int" where "frame_size fs = (\<Sum>f\<leftarrow>fs. used f)"

text \<open>top is an unsigned short.\<close>

definition add_top :: "int \<Rightarrow> frame \<Rightarrow> frame" where
  "add_top n f = f\<lparr>f_top := nat ((int (f_top f) + n) mod 65536)\<rparr>"

section \<open>Writing\<close>

text \<open>The inner loop puts the last bytes first, while top is not 0; rs is the rest, reversed.\<close>

fun put_bytes :: "byte list \<Rightarrow> frame \<Rightarrow> byte list \<times> frame" where
  "put_bytes (b # rs) f =
     (if f_top f \<noteq> 0
      then put_bytes rs (f\<lparr>f_fc := (f_fc f)(f_top f := b), f_top := f_top f - 1\<rparr>)
      else (b # rs, f))"
| "put_bytes [] f = ([], f)"

text \<open>The outer loop: None is the jump to undo.\<close>

definition room_for :: "frame list \<Rightarrow> pool \<Rightarrow> frame list option \<times> pool" where
  "room_for fs p =
     (if fs = [] \<or> f_top (hd fs) \<le> 0
      then (case frame_new p of (None, p1) \<Rightarrow> (None, p1) | (Some cf, p1) \<Rightarrow> (Some (cf # fs), p1))
      else (Some fs, p))"

lemma put_bytes_shorter:
  "length (fst (put_bytes rs f)) \<le> length rs"
  "rs \<noteq> [] \<Longrightarrow> f_top f \<noteq> 0 \<Longrightarrow> length (fst (put_bytes rs f)) < length rs"
proof -
  show l: "length (fst (put_bytes rs f)) \<le> length rs" for rs f
    by (induction rs f rule: put_bytes.induct) (auto intro: le_SucI)
  show "rs \<noteq> [] \<Longrightarrow> f_top f \<noteq> 0 \<Longrightarrow> length (fst (put_bytes rs f)) < length rs"
    using l by (cases rs) (auto simp: less_Suc_eq_le)
qed

lemma room_for_top:
  assumes "room_for fs p = (Some gs, p1)"
  obtains cf hs where "gs = cf # hs" "f_top cf \<noteq> 0"
  using assms by (cases fs) (auto simp: room_for_def frame_new_def Let_def FRAME_SIZE_def split: if_splits)

lemma write_shorter:
  assumes "room_for fs p = (Some gs, p1)" "put_bytes rs (hd gs) = (rs1, cf)" "rs1 \<noteq> []"
  shows "length rs1 < length rs"
proof -
  have "rs \<noteq> []" using assms(2,3) by (cases rs) auto
  thus ?thesis using put_bytes_shorter(2) [of rs "hd gs"] assms room_for_top [OF assms(1)]
    by (metis fst_conv list.sel(1))
qed

function write_loop :: "byte list \<Rightarrow> frame list \<Rightarrow> pool \<Rightarrow> byte list \<times> bool \<times> frame list \<times> pool" where
  "write_loop rs fs p =
     (case room_for fs p of
        (None, p1) \<Rightarrow> (rs, False, fs, p1)
      | (Some gs, p1) \<Rightarrow>
          (let (rs1, cf) = put_bytes rs (hd gs) in
           if rs1 = [] then ([], True, cf # tl gs, p1) else write_loop rs1 (cf # tl gs) p1))"
  by pat_completeness auto
termination
proof (relation "measure (\<lambda>(rs, fs, p). length rs)", goal_cases)
  case 2
  show ?case using 2 by (auto dest!: write_shorter [OF sym sym])
qed simp

declare write_loop.simps [simp del]

text \<open>The undo loop gives back n bytes.\<close>

fun undo_loop :: "int \<Rightarrow> frame list \<Rightarrow> pool \<Rightarrow> frame list \<times> pool" where
  "undo_loop n [] p = ([], p)"
| "undo_loop n (cf # fs) p =
     (if n < int FRAME_SIZE - int (f_top cf) then (add_top n cf # fs, p)
      else (let n1 = n - (int FRAME_SIZE - int (f_top cf)) in
            if n1 \<noteq> 0 then undo_loop n1 fs (frame_free p) else (fs, frame_free p)))"

definition frame_write_string :: "byte list \<Rightarrow> frame list \<Rightarrow> pool \<Rightarrow> int \<times> frame list \<times> pool" where
  "frame_write_string st fs p =
     (let (rs, ok, gs, p1) = write_loop (rev st) fs p in
      if ok then (int (length st), gs, p1)
      else (let (hs, p2) = undo_loop (int (length st - length rs)) gs p1 in (- 1, hs, p2)))"

definition frame_write_text :: "byte list \<Rightarrow> frame list \<Rightarrow> pool \<Rightarrow> int \<times> frame list \<times> pool" where
  "frame_write_text te = frame_write_string (takeWhile (\<lambda>b. b \<noteq> 0) te @ [0])"

text \<open>The bytes of htonl(v) and htons(v) in memory order, and back.\<close>

definition be32 :: "word32 \<Rightarrow> byte list" where
  "be32 v = [ucast (drop_bit 24 v), ucast (drop_bit 16 v), ucast (drop_bit 8 v), ucast v]"

definition be16 :: "16 word \<Rightarrow> byte list" where "be16 v = [ucast (drop_bit 8 v), ucast v]"

definition of_be32 :: "byte list \<Rightarrow> word32" where "of_be32 bs = foldl (\<lambda>a b. push_bit 8 a OR ucast b) 0 bs"

definition of_be16 :: "byte list \<Rightarrow> 16 word" where "of_be16 bs = foldl (\<lambda>a b. push_bit 8 a OR ucast b) 0 bs"

definition frame_write_int :: "word32 \<Rightarrow> frame list \<Rightarrow> pool \<Rightarrow> int \<times> frame list \<times> pool" where
  "frame_write_int v = frame_write_string (be32 v)"

definition frame_write_short :: "16 word \<Rightarrow> frame list \<Rightarrow> pool \<Rightarrow> int \<times> frame list \<times> pool" where
  "frame_write_short v = frame_write_string (be16 v)"

definition frame_write_byte :: "byte \<Rightarrow> frame list \<Rightarrow> pool \<Rightarrow> int \<times> frame list \<times> pool" where
  "frame_write_byte c = frame_write_string [c]"

section \<open>Reading\<close>

text \<open>The for loop over one frame: the bytes stored, the rest of the length, the stop flag.\<close>

function take_bytes :: "bool \<Rightarrow> int \<Rightarrow> frame \<Rightarrow> byte list \<times> int \<times> bool \<times> frame" where
  "take_bytes flag l f =
     (if f_top f + 1 < FRAME_SIZE \<and> 0 < l
      then (let g = f\<lparr>f_top := f_top f + 1\<rparr>; b = f_fc f (f_top f + 1) in
            if flag \<and> b = 0 then ([b], l, True, g)
            else (let (bs, l1, stop, h) = take_bytes flag (l - 1) g in (b # bs, l1, stop, h)))
      else ([], l, False, f))"
  by pat_completeness auto
termination by (relation "measure (\<lambda>(flag, l, f). FRAME_SIZE - f_top f)") auto

declare take_bytes.simps [simp del]

text \<open>A frame the inner loop did not empty is left by stop or with nothing more to read.\<close>

fun read_loop :: "bool \<Rightarrow> int \<Rightarrow> frame list \<Rightarrow> pool \<Rightarrow> byte list \<times> int \<times> frame list \<times> pool" where
  "read_loop flag l [] p = ([], l, [], p)"
| "read_loop flag l (cf # fs) p =
     (let (bs, l1, stop, f1) = take_bytes flag l cf in
      if FRAME_SIZE \<le> f_top f1 + 1
      then (if \<not> (flag \<and> stop) \<and> 0 < l1
            then (let (cs, l2, gs, p2) = read_loop flag l1 fs (frame_free p) in (bs @ cs, l2, gs, p2))
            else (bs, l1, fs, frame_free p))
      else (bs, l1, f1 # fs, p))"

text \<open>The bytes stored and the result; the result does not count the zero that ends a text.\<close>

definition frame_read_string_aux ::
  "bool \<Rightarrow> int \<Rightarrow> frame list \<Rightarrow> pool \<Rightarrow> byte list \<times> int \<times> frame list \<times> pool" where
  "frame_read_string_aux flag l fs p = (let (bs, l1, gs, p1) = read_loop flag l fs p in (bs, l - l1, gs, p1))"

definition frame_read_string :: "int \<Rightarrow> frame list \<Rightarrow> pool \<Rightarrow> byte list \<times> int \<times> frame list \<times> pool" where
  "frame_read_string = frame_read_string_aux False"

definition frame_read_text :: "int \<Rightarrow> frame list \<Rightarrow> pool \<Rightarrow> byte list \<times> int \<times> frame list \<times> pool" where
  "frame_read_text = frame_read_string_aux True"

definition frame_read_int :: "frame list \<Rightarrow> pool \<Rightarrow> word32 option \<times> frame list \<times> pool" where
  "frame_read_int fs p =
     (let (bs, n, gs, p1) = frame_read_string 4 fs p in (if n \<noteq> 4 then None else Some (of_be32 bs), gs, p1))"

definition frame_read_short :: "frame list \<Rightarrow> pool \<Rightarrow> 16 word option \<times> frame list \<times> pool" where
  "frame_read_short fs p =
     (let (bs, n, gs, p1) = frame_read_string 2 fs p in (if n \<noteq> 2 then None else Some (of_be16 bs), gs, p1))"

definition frame_read_byte :: "frame list \<Rightarrow> pool \<Rightarrow> byte option \<times> frame list \<times> pool" where
  "frame_read_byte fs p =
     (let (bs, n, gs, p1) = frame_read_string 1 fs p in (if n \<noteq> 1 then None else Some (hd bs), gs, p1))"

section \<open>Erasing, moving, copying, peeking\<close>

fun erase_loop :: "int \<Rightarrow> frame list \<Rightarrow> pool \<Rightarrow> int \<times> frame list \<times> pool" where
  "erase_loop s [] p = (s, [], p)"
| "erase_loop s (cf # fs) p =
     (let e = used cf in
      if e \<le> s then (if 0 < s - e then erase_loop (s - e) fs (frame_free p) else (s - e, fs, frame_free p))
      else (0, add_top s cf # fs, p))"

definition frame_erase :: "int \<Rightarrow> frame list \<Rightarrow> pool \<Rightarrow> int \<times> frame list \<times> pool" where
  "frame_erase l fs p = (let (s, gs, p1) = erase_loop l fs p in (l - s, gs, p1))"

definition frame_append_string :: "byte list \<Rightarrow> frame list \<Rightarrow> pool \<Rightarrow> int \<times> frame list \<times> pool" where
  "frame_append_string st fs p =
     (let (r, ext, p1) = frame_write_string st [] p in
      if r < 0 then (- 1, fs, p1) else (int (length st), fs @ ext, p1))"

text \<open>The bytes of a frame from index i on.\<close>

definition bytes_from :: "frame \<Rightarrow> nat \<Rightarrow> byte list" where "bytes_from f i = map (f_fc f) [i..<FRAME_SIZE]"

fun copy_loop :: "int \<Rightarrow> frame list \<Rightarrow> frame list \<Rightarrow> pool \<Rightarrow> int \<times> frame list \<times> pool" where
  "copy_loop l [] dlt p = (l, dlt, p)"
| "copy_loop l (cf # fs) dlt p =
     (if l \<le> 0 then (l, dlt, p)
      else (let l2 = (if l < used cf then l else used cf) in
            if l2 \<le> 0 then (l, dlt, p)
            else (let (r, d1, p1) = frame_append_string (take (nat l2) (bytes_from cf (f_top cf + 1))) dlt p in
                  if r < 0 then (l, d1, p1) else copy_loop (l - r) fs d1 p1)))"

definition frame_copy :: "frame list \<Rightarrow> frame list \<Rightarrow> int \<Rightarrow> pool \<Rightarrow> int \<times> frame list \<times> pool" where
  "frame_copy dlt slt l p = (let (l1, d, p1) = copy_loop l slt dlt p in (l - l1, d, p1))"

text \<open>while (l1): l1 bytes go from cf to exf, whose next index is i.\<close>

primrec move_bytes :: "nat \<Rightarrow> nat \<Rightarrow> frame \<Rightarrow> frame \<Rightarrow> frame \<times> frame" where
  "move_bytes 0 i exf cf = (exf, cf)"
| "move_bytes (Suc n) i exf cf =
     (let t = f_top cf + 1 in
      move_bytes n (i + 1) (exf\<lparr>f_fc := (f_fc exf)(i := f_fc cf t)\<rparr>) (cf\<lparr>f_top := t\<rparr>))"

text \<open>
  Moves frames while they fit, then the rest into exf; the last component says
  whether exf is still unused.  A negative length never comes to an end.
\<close>

fun move_loop :: "int \<Rightarrow> frame \<Rightarrow> frame list \<Rightarrow> frame list \<Rightarrow> (int \<times> frame list \<times> frame list \<times> bool) option" where
  "move_loop l exf [] dlt = Some (l, [], dlt, True)"
| "move_loop l exf (cf # fs) dlt =
     (if used cf \<le> l then
        (if l - used cf \<noteq> 0 then move_loop (l - used cf) exf fs (dlt @ [cf])
         else Some (0, fs, dlt @ [cf], True))
      else if 0 < l then
        (let exf1 = add_top (- l) exf; (exf2, cf2) = move_bytes (nat l) (f_top exf1 + 1) exf1 cf
         in Some (0, cf2 # fs, dlt @ [exf2], False))
      else if l = 0 then Some (0, cf # fs, dlt, True)
      else None)"

text \<open>The new destination, source and pool with the result; None when it does not return.\<close>

definition frame_move ::
  "frame list \<Rightarrow> frame list \<Rightarrow> int \<Rightarrow> pool \<Rightarrow> (int \<times> frame list \<times> frame list \<times> pool) option" where
  "frame_move dlt slt l p =
     (case frame_new p of
        (None, p1) \<Rightarrow> Some (- 1, dlt, slt, p1)
      | (Some exf, p1) \<Rightarrow>
          map_option (\<lambda>(l1, s, d, unused). (l - l1, d, s, if unused then frame_free p1 else p1))
            (move_loop l exf slt dlt))"

text \<open>None: the frame after the last is read through a null pointer, or fc past its end.\<close>

function peek_loop :: "nat \<Rightarrow> int \<Rightarrow> frame list \<Rightarrow> byte list option" where
  "peek_loop c l [] = Some []"
| "peek_loop c l (cf # fs) =
     (if l = 0 then Some []
      else if c = FRAME_SIZE then (case fs of [] \<Rightarrow> None | g # gs \<Rightarrow> peek_loop (f_top g + 1) l fs)
      else if FRAME_SIZE < c then None
      else map_option (\<lambda>bs. f_fc cf c # bs) (peek_loop (c + 1) (l - 1) (cf # fs)))"
  by pat_completeness auto
termination by (relation "measures [\<lambda>(c, l, fs). length fs, \<lambda>(c, l, fs). Suc FRAME_SIZE - c]") auto

definition frame_peek_string :: "int \<Rightarrow> frame list \<Rightarrow> byte list option" where
  "frame_peek_string l fs = peek_loop (case fs of [] \<Rightarrow> 0 | cf # gs \<Rightarrow> f_top cf + 1) l fs"

end
