(* ===== verification/MLVM_Frame_Correct.thy ===== *)
theory MLVM_Frame_Correct
  imports MLVM_Frame
begin

text \<open>
  What the frames of a PDU promise: the list of frames is a stack of bytes that
  the layers of the protocol write headers on and read them from.  The interface
  is a locale, interpreted on transport/frame.c.
\<close>

section \<open>A stack of bytes\<close>

text \<open>Fields are written last first, so that they are read first to last.\<close>

primrec write_all :: "(byte list \<Rightarrow> 's \<Rightarrow> 's option) \<Rightarrow> byte list list \<Rightarrow> 's \<Rightarrow> 's option" where
  "write_all emit [] s = Some s"
| "write_all emit (x # xs) s = Option.bind (write_all emit xs s) (emit x)"

primrec read_all :: "(nat \<Rightarrow> 's \<Rightarrow> byte list \<times> 's) \<Rightarrow> nat list \<Rightarrow> 's \<Rightarrow> byte list list \<times> 's" where
  "read_all fetch [] s = ([], s)"
| "read_all fetch (n # ns) s = (let (x, s1) = fetch n s; (xs, s2) = read_all fetch ns s1 in (x # xs, s2))"

locale byte_stack =
  fixes inv :: "'s \<Rightarrow> bool"
    and content :: "'s \<Rightarrow> byte list"
    and emit :: "byte list \<Rightarrow> 's \<Rightarrow> 's option"
    and fetch :: "nat \<Rightarrow> 's \<Rightarrow> byte list \<times> 's"
  assumes emit_law: "inv s \<Longrightarrow> emit bs s = Some t \<Longrightarrow> inv t \<and> content t = bs @ content s"
    and fetch_law: "inv s \<Longrightarrow> fetch n s = (bs, t) \<Longrightarrow> inv t \<and> bs = take n (content s) \<and> content t = drop n (content s)"
begin

lemma write_all_content:
  "inv s \<Longrightarrow> write_all emit xs s = Some t \<Longrightarrow> inv t \<and> content t = concat xs @ content s"
proof (induction xs arbitrary: t)
  case (Cons x xs)
  then obtain u where u: "write_all emit xs s = Some u" "emit x u = Some t" by (cases "write_all emit xs s") auto
  from Cons.IH [OF Cons.prems(1) u(1)] emit_law [OF _ u(2)] show ?case by auto
qed simp

lemma read_all_content:
  "inv s \<Longrightarrow> content s = concat xs @ ys \<Longrightarrow>
     \<exists>t. read_all fetch (map length xs) s = (xs, t) \<and> inv t \<and> content t = ys"
proof (induction xs arbitrary: s)
  case (Cons x xs)
  obtain y s1 where r: "fetch (length x) s = (y, s1)" by fastforce
  from fetch_law [OF Cons.prems(1) r] Cons.prems(2)
  have s1: "inv s1" "y = x" "content s1 = concat xs @ ys" by auto
  from Cons.IH [OF s1(1,3)] show ?case using r s1(2) by auto
qed simp

lemma fields_roundtrip:
  assumes "inv s" "write_all emit xs s = Some t"
  shows "\<exists>u. read_all fetch (map length xs) t = (xs, u) \<and> inv u \<and> content u = content s"
  using read_all_content write_all_content [OF assms] by blast

end

section \<open>The bytes of a frame list\<close>

definition fok :: "frame \<Rightarrow> bool" where "fok f = (f_top f < FRAME_SIZE)"

abbreviation fbytes :: "frame \<Rightarrow> byte list" where "fbytes f \<equiv> bytes_from f (Suc (f_top f))"

abbreviation content :: "frame list \<Rightarrow> byte list" where "content fs \<equiv> concat (map fbytes fs)"

lemma bytes_from_cons: "i < FRAME_SIZE \<Longrightarrow> bytes_from f i = f_fc f i # bytes_from f (Suc i)"
  by (simp add: bytes_from_def upt_conv_Cons)

lemma bytes_from_end [simp]: "FRAME_SIZE \<le> i \<Longrightarrow> bytes_from f i = []"
  by (simp add: bytes_from_def)

lemma length_bytes_from [simp]: "length (bytes_from f i) = FRAME_SIZE - i"
  by (simp add: bytes_from_def)

lemma bytes_from_upd: "j < i \<Longrightarrow> bytes_from (f\<lparr>f_fc := (f_fc f)(j := b), f_top := t\<rparr>) i = bytes_from f i"
  "j < i \<Longrightarrow> bytes_from (f\<lparr>f_fc := (f_fc f)(j := b)\<rparr>) i = bytes_from f i"
  "bytes_from (f\<lparr>f_top := t\<rparr>) i = bytes_from f i"
  by (auto simp: bytes_from_def)

lemma used_length: "fok f \<Longrightarrow> used f = int (length (fbytes f))"
  by (auto simp: used_def fok_def)

lemma frame_size_content: "list_all fok fs \<Longrightarrow> frame_size fs = int (length (content fs))"
  by (induction fs) (simp_all add: frame_size_def used_length del: length_bytes_from)

lemma put_bytes_bytes:
  "fok f \<Longrightarrow> put_bytes rs f = (rs1, g) \<Longrightarrow>
     fok g \<and> rs1 = drop (f_top f) rs \<and> f_top g = f_top f - length rs \<and> fbytes g = rev (take (f_top f) rs) @ fbytes f"
proof (induction rs f arbitrary: rs1 g rule: put_bytes.induct)
  case (1 b rs f)
  show ?case
  proof (cases "f_top f")
    case 0
    thus ?thesis using 1 by auto
  next
    case (Suc t)
    let ?f = "f\<lparr>f_fc := (f_fc f)(f_top f := b), f_top := f_top f - 1\<rparr>"
    have "fok ?f" using 1(2) Suc by (auto simp: fok_def)
    moreover have "put_bytes rs ?f = (rs1, g)" using 1(3) Suc by simp
    ultimately have IH: "fok g" "rs1 = drop t rs" "f_top g = t - length rs"
      "fbytes g = rev (take t rs) @ fbytes ?f" using 1(1) Suc by auto
    have "fbytes ?f = b # fbytes f"
      using 1(2) Suc by (subst bytes_from_cons) (auto simp: fok_def bytes_from_upd)
    thus ?thesis using IH Suc by simp
  qed
qed (auto simp: fok_def)

lemma frame_new_bytes: "frame_new p = (Some nf, p1) \<Longrightarrow> fok nf \<and> fbytes nf = [] \<and> f_top nf = FRAME_SIZE - 1"
  using frame_size_pos by (auto simp: frame_new_def fok_def Let_def split: if_splits)

lemma room_for_bytes:
  "list_all fok fs \<Longrightarrow> room_for fs p = (Some gs, p1) \<Longrightarrow> list_all fok gs \<and> gs \<noteq> [] \<and> content gs = content fs"
  using frame_new_bytes [of p _ p1]
  by (cases "frame_new p") (auto simp: room_for_def split: if_splits option.splits)

lemma write_loop_bytes:
  "list_all fok fs \<Longrightarrow> write_loop rs fs p = (rs1, ok, gs, p1) \<Longrightarrow>
     list_all fok gs \<and> (\<exists>us. rs = us @ rs1 \<and> content gs = rev us @ content fs) \<and> (ok \<longrightarrow> rs1 = [])"
proof (induction rs fs p arbitrary: rs1 ok gs p1 rule: write_loop.induct)
  case (1 rs fs p)
  show ?case
  proof (cases "room_for fs p")
    case (Pair r q)
    show ?thesis
    proof (cases r)
      case None
      hence "(rs1, ok, gs, p1) = (rs, False, fs, q)"
        using 1(3) Pair by (subst (asm) write_loop.simps) simp
      thus ?thesis using 1(2) by simp
    next
      case (Some hs)
      obtain ts cf where pb: "put_bytes rs (hd hs) = (ts, cf)" by fastforce
      have h: "list_all fok hs" "hs \<noteq> []" "content hs = content fs"
        using room_for_bytes [OF 1(2)] Pair Some by auto
      hence "fok (hd hs)" by (cases hs) auto
      from put_bytes_bytes [OF this pb]
      have c: "fok cf" "ts = drop (f_top (hd hs)) rs" "fbytes cf = rev (take (f_top (hd hs)) rs) @ fbytes (hd hs)" by auto
      have l: "list_all fok (cf # tl hs)" using c(1) h(1,2) by (cases hs) auto
      have e: "content (cf # tl hs) = rev (take (f_top (hd hs)) rs) @ content fs"
        using c(3) h(2,3) by (cases hs) auto
      have u: "rs = take (f_top (hd hs)) rs @ ts" using c(2) by simp
      have w: "write_loop rs fs p = (if ts = [] then ([], True, cf # tl hs, q) else write_loop ts (cf # tl hs) q)"
        by (subst write_loop.simps) (simp only: Pair Some pb prod.case option.case Let_def)
      show ?thesis
      proof (cases "ts = []")
        case True
        hence o: "rs1 = []" "gs = cf # tl hs" using 1(3) unfolding w by auto
        have "rs = take (f_top (hd hs)) rs @ rs1" using u True o(1) by simp
        thus ?thesis using l e o by blast
      next
        case False
        hence "write_loop ts (cf # tl hs) q = (rs1, ok, gs, p1)"
          using 1(3) unfolding w by simp
        from 1(1) [OF Pair [symmetric] Some refl pb [symmetric] False l this]
        have IH: "list_all fok gs" "ok \<longrightarrow> rs1 = []"
          "\<exists>us. ts = us @ rs1 \<and> content gs = rev us @ content (cf # tl hs)" by blast+
        then obtain us where us: "ts = us @ rs1" "content gs = rev us @ content (cf # tl hs)" by blast
        let ?us = "take (f_top (hd hs)) rs @ us"
        have "rs = ?us @ rs1" using u us(1) by simp
        moreover have "content gs = rev ?us @ content fs" unfolding us(2) e by simp
        ultimately show ?thesis using IH by blast
      qed
    qed
  qed
qed

text \<open>A successful write puts the bytes in front.\<close>

lemma write_string_bytes:
  assumes "list_all fok fs" "frame_write_string st fs p = (r, gs, p1)" "0 \<le> r"
  shows "list_all fok gs \<and> content gs = st @ content fs \<and> r = int (length st)"
proof -
  obtain rs ok hs q where w: "write_loop (rev st) fs p = (rs, ok, hs, q)" by (metis prod_cases4)
  show ?thesis
    using write_loop_bytes [OF assms(1) w] assms(2,3) w
    by (auto simp: frame_write_string_def Let_def split: if_splits prod.splits)
qed

lemma take_bytes_bytes:
  "fok f \<Longrightarrow> take_bytes False l f = (bs, l1, stop, g) \<Longrightarrow>
     fok g \<and> bs = take (nat l) (fbytes f) \<and> fbytes g = drop (nat l) (fbytes f) \<and> l1 = l - int (length bs)"
proof (induction False l f arbitrary: bs l1 stop g rule: take_bytes.induct)
  case (1 l f)
  show ?case
  proof (cases "f_top f + 1 < FRAME_SIZE \<and> 0 < l")
    case True
    let ?g = "f\<lparr>f_top := f_top f + 1\<rparr>"
    obtain cs l2 st h where r: "take_bytes False (l - 1) ?g = (cs, l2, st, h)" by (metis prod_cases4)
    have "fok ?g" using True by (simp add: fok_def)
    from 1(1) [OF True refl refl _ this r]
    have IH: "fok h" "cs = take (nat (l - 1)) (fbytes ?g)" "fbytes h = drop (nat (l - 1)) (fbytes ?g)"
      "l2 = l - 1 - int (length cs)" by auto
    have b: "fbytes f = f_fc f (f_top f + 1) # fbytes ?g"
      using True by (subst bytes_from_cons) (simp_all add: bytes_from_upd)
    have n: "nat l = Suc (nat (l - 1))" using True by arith
    have "(bs, l1, stop, g) = (f_fc f (f_top f + 1) # cs, l2, st, h)"
      using 1(3) True r by (simp add: take_bytes.simps [of False l f])
    thus ?thesis using IH by (simp add: b n)
  next
    case False
    hence "(bs, l1, stop, g) = ([], l, False, f)"
      using 1(3) unfolding take_bytes.simps [of False l f] if_not_P [OF False] by simp
    moreover have "take (nat l) (fbytes f) = []" "drop (nat l) (fbytes f) = fbytes f"
      using False 1(2) by (auto simp: not_less)
    ultimately show ?thesis using 1(2) by simp
  qed
qed

lemma read_loop_bytes:
  "list_all fok fs \<Longrightarrow> read_loop False l fs p = (bs, l1, gs, p1) \<Longrightarrow>
     list_all fok gs \<and> bs = take (nat l) (content fs) \<and> content gs = drop (nat l) (content fs) \<and> l1 = l - int (length bs)"
proof (induction fs arbitrary: l p bs l1 gs p1)
  case (Cons f fs)
  obtain cs l2 st g where t: "take_bytes False l f = (cs, l2, st, g)" by (metis prod_cases4)
  have f: "fok f" "list_all fok fs" using Cons.prems(1) by auto
  have c: "fok g" "cs = take (nat l) (fbytes f)" "fbytes g = drop (nat l) (fbytes f)" "l2 = l - int (length cs)"
    using take_bytes_bytes [OF f(1) t] by auto
  show ?case
  proof (cases "FRAME_SIZE \<le> f_top g + 1")
    case True
    hence "fbytes g = []" by simp
    hence le: "length (fbytes f) \<le> nat l" using c(3) by simp
    hence cs: "cs = fbytes f" "l2 = l - int (length (fbytes f))" using c(2,4) by simp_all
    have nl: "nat l2 = nat l - length (fbytes f)" using cs(2) by simp
    show ?thesis
    proof (cases "0 < l2")
      case pos: True
      obtain ds l3 hs p2 where r: "read_loop False l2 fs (frame_free p) = (ds, l3, hs, p2)" by (metis prod_cases4)
      have "(bs, l1, gs, p1) = (cs @ ds, l3, hs, p2)" using Cons.prems(2) t True pos r by simp
      thus ?thesis using Cons.IH [OF f(2) r] cs nl le by (simp add: take_append drop_append)
    next
      case neg: False
      hence "(bs, l1, gs, p1) = (cs, l2, fs, frame_free p)" using Cons.prems(2) t True by simp
      moreover have "nat l = length (fbytes f)" using neg le cs(2) by linarith
      ultimately show ?thesis using cs f by (simp del: length_bytes_from)
    qed
  next
    case False
    hence "(bs, l1, gs, p1) = (cs, l2, g # fs, p)" using Cons.prems(2) t by simp
    moreover have "nat l \<le> length (fbytes f)"
    proof -
      have "length (fbytes g) \<noteq> 0" using False by simp
      thus ?thesis unfolding c(3) by simp
    qed
    ultimately show ?thesis using c f by simp
  qed
qed simp

lemma read_string_bytes:
  assumes "list_all fok fs" "frame_read_string l fs p = (bs, n, gs, p1)"
  shows "list_all fok gs \<and> bs = take (nat l) (content fs) \<and> content gs = drop (nat l) (content fs) \<and> n = int (length bs)"
proof -
  obtain cs l1 hs q where r: "read_loop False l fs p = (cs, l1, hs, q)" by (metis prod_cases4)
  have "bs = cs" "n = l - l1" "gs = hs" using assms(2) r
    by (simp_all add: frame_read_string_def frame_read_string_aux_def)
  thus ?thesis using read_loop_bytes [OF assms(1) r] by (simp (no_asm_simp))
qed

section \<open>The interface on frame lists\<close>

definition write_frames :: "byte list \<Rightarrow> frame list \<times> pool \<Rightarrow> (frame list \<times> pool) option" where
  "write_frames bs = (\<lambda>(fs, p). let (r, gs, p1) = frame_write_string bs fs p in if r < 0 then None else Some (gs, p1))"

definition read_frames :: "nat \<Rightarrow> frame list \<times> pool \<Rightarrow> byte list \<times> frame list \<times> pool" where
  "read_frames n = (\<lambda>(fs, p). let (bs, r, gs, p1) = frame_read_string (int n) fs p in (bs, gs, p1))"

interpretation frames: byte_stack "\<lambda>(fs, p). list_all fok fs" "\<lambda>(fs, p). content fs" write_frames read_frames
proof (unfold_locales, goal_cases)
  case (1 s bs t)
  obtain fs p where s: "s = (fs, p)" by fastforce
  obtain r gs p1 where w: "frame_write_string bs fs p = (r, gs, p1)" by (metis prod_cases3)
  have "0 \<le> r" "t = (gs, p1)" using 1(2) by (auto simp: s write_frames_def w split: if_splits)
  thus ?case using write_string_bytes [OF _ w] 1(1) by (simp add: s)
next
  case (2 s n bs t)
  obtain fs p where s: "s = (fs, p)" by fastforce
  obtain cs r gs p1 where w: "frame_read_string (int n) fs p = (cs, r, gs, p1)" by (metis prod_cases4)
  have "bs = cs" "t = (gs, p1)" using 2(2) by (auto simp: s read_frames_def w)
  thus ?case using read_string_bytes [OF _ w] 2(1) by (simp add: s)
qed

section \<open>Numbers\<close>

lemma of_be32_be32: "of_be32 (be32 v) = v"
  unfolding be32_def of_be32_def foldl.simps
proof (rule bit_word_eqI, goal_cases)
  case (1 n)
  consider "n < 8" | "8 \<le> n" "n < 16" | "16 \<le> n" "n < 24" | "24 \<le> n" by linarith
  thus ?case using 1 by cases (simp_all add: bit_simps less_diff_conv2)
qed

lemma of_be16_be16: "of_be16 (be16 v) = v"
  unfolding be16_def of_be16_def foldl.simps by (rule bit_word_eqI) (auto simp: bit_simps)

lemma read_back:
  assumes "list_all fok fs" "frame_write_string bs fs p = (r, gs, p1)" "0 \<le> r"
  shows "\<exists>hs p2. frame_read_string (int (length bs)) gs p1 = (bs, int (length bs), hs, p2)
    \<and> list_all fok hs \<and> content hs = content fs"
proof -
  have c: "list_all fok gs" "content gs = bs @ content fs" using write_string_bytes [OF assms] by auto
  obtain cs n hs p2 where r: "frame_read_string (int (length bs)) gs p1 = (cs, n, hs, p2)" by (metis prod_cases4)
  from read_string_bytes [OF c(1) r] show ?thesis using c(2) r by simp
qed

section \<open>Moving\<close>

lemma move_bytes_bytes:
  "n \<le> length (fbytes cf) \<Longrightarrow> i + n \<le> FRAME_SIZE \<Longrightarrow> move_bytes n i exf cf = (e, c) \<Longrightarrow>
     f_top e = f_top exf \<and> (\<forall>j<i. f_fc e j = f_fc exf j) \<and> f_top c = f_top cf + n \<and> fbytes c = drop n (fbytes cf)
     \<and> bytes_from e i = take n (fbytes cf) @ bytes_from exf (i + n)"
proof (induction n arbitrary: i exf cf)
  case (Suc n)
  let ?t = "f_top cf + 1" let ?e = "exf\<lparr>f_fc := (f_fc exf)(i := f_fc cf ?t)\<rparr>" let ?c = "cf\<lparr>f_top := ?t\<rparr>"
  have t: "?t < FRAME_SIZE" using Suc.prems(1) by simp
  have b: "fbytes cf = f_fc cf ?t # fbytes ?c"
    using t by (subst bytes_from_cons) (simp_all add: bytes_from_upd)
  have "move_bytes n (i + 1) ?e ?c = (e, c)" using Suc.prems(3) by (simp add: Let_def)
  moreover have "n \<le> length (fbytes ?c)" using Suc.prems(1) unfolding b by simp
  moreover have "i + 1 + n \<le> FRAME_SIZE" using Suc.prems(2) by simp
  ultimately have IH: "f_top e = f_top ?e" "\<forall>j<i + 1. f_fc e j = f_fc ?e j" "f_top c = f_top ?c + n"
    "fbytes c = drop n (fbytes ?c)" "bytes_from e (i + 1) = take n (fbytes ?c) @ bytes_from ?e (i + 1 + n)"
    using Suc.IH by blast+
  have "bytes_from e i = f_fc e i # bytes_from e (i + 1)"
    using Suc.prems(2) by (subst bytes_from_cons) simp_all
  moreover have "f_fc e i = f_fc cf ?t" using IH(2) by simp
  moreover have "bytes_from ?e (i + 1 + n) = bytes_from exf (i + Suc n)" by (simp add: bytes_from_upd)
  ultimately show ?case using IH by (simp add: b)
qed simp

lemma move_part:
  assumes "fok cf" "f_top exf = FRAME_SIZE - 1" "0 < l" "l < used cf"
    and "move_bytes (nat l) (f_top (add_top (- l) exf) + 1) (add_top (- l) exf) cf = (e, c)"
  shows "fok e \<and> fok c \<and> fbytes e = take (nat l) (fbytes cf) \<and> fbytes c = drop (nat l) (fbytes cf)"
proof -
  have u: "l < int FRAME_SIZE - 1" using assms(4) by (simp add: used_def)
  have "(int (FRAME_SIZE - 1) - l) mod 65536 = int (FRAME_SIZE - 1) - l"
    using u assms(3) by (intro mod_pos_pos_trivial) (auto simp: FRAME_SIZE_def)
  hence tp: "f_top (add_top (- l) exf) = FRAME_SIZE - 1 - nat l" using u assms(2,3) by (simp add: add_top_def)
  have n: "nat l \<le> length (fbytes cf)" "nat l < FRAME_SIZE"
    using assms(1,4) u by (simp_all add: used_def fok_def del: length_bytes_from) (simp add: nat_le_iff)+
  have i: "f_top (add_top (- l) exf) + 1 + nat l = FRAME_SIZE" using n(2) tp by simp
  from move_bytes_bytes [OF n(1) _ assms(5)] i
  have m: "f_top e = f_top (add_top (- l) exf)" "f_top c = f_top cf + nat l" "fbytes c = drop (nat l) (fbytes cf)"
    "bytes_from e (f_top (add_top (- l) exf) + 1) = take (nat l) (fbytes cf)" by auto
  have "int (f_top cf + nat l) < int FRAME_SIZE" using assms(3,4) by (simp add: used_def)
  hence "f_top cf + nat l < FRAME_SIZE" by (simp only: of_nat_less_iff)
  thus ?thesis using m i assms(3) by (simp add: fok_def)
qed

lemma move_loop_bytes:
  "list_all fok fs \<Longrightarrow> list_all fok dlt \<Longrightarrow> f_top exf = FRAME_SIZE - 1 \<Longrightarrow> 0 \<le> l \<Longrightarrow>
     \<exists>s d u. move_loop l exf fs dlt = Some (l - min l (frame_size fs), s, d, u)
       \<and> list_all fok s \<and> list_all fok d
       \<and> content d = content dlt @ take (nat l) (content fs) \<and> content s = drop (nat l) (content fs)"
proof (induction fs arbitrary: l dlt)
  case (Cons f fs)
  have f: "fok f" "list_all fok fs" using Cons.prems by auto
  have u: "used f = int (length (fbytes f))" "0 \<le> used f" using used_length [OF f(1)] by auto
  have sz: "frame_size (f # fs) = used f + frame_size fs" "0 \<le> frame_size fs"
    using frame_size_content [OF f(2)] by (simp_all add: frame_size_def)
  consider (move) "used f \<le> l" "l - used f \<noteq> 0" | (whole) "used f \<le> l" "l - used f = 0"
    | (part) "l < used f" "0 < l" | (zero) "l < used f" "l = 0" using Cons.prems(4) by linarith
  thus ?case
  proof cases
    case move
    have d: "list_all fok (dlt @ [f])" "0 \<le> l - used f" using Cons.prems(2) f(1) move by auto
    from Cons.IH [OF f(2) d(1) Cons.prems(3) d(2)] obtain s d' v where
      IH: "move_loop (l - used f) exf fs (dlt @ [f]) = Some (l - used f - min (l - used f) (frame_size fs), s, d', v)"
      "list_all fok s" "list_all fok d'" "content d' = content (dlt @ [f]) @ take (nat (l - used f)) (content fs)"
      "content s = drop (nat (l - used f)) (content fs)" by blast
    have n: "nat (l - used f) = nat l - length (fbytes f)" "length (fbytes f) \<le> nat l" using move(1) u by linarith+
    have m: "l - used f - min (l - used f) (frame_size fs) = l - min l (frame_size (f # fs))" using sz by simp
    have "move_loop l exf (f # fs) dlt = Some (l - min l (frame_size (f # fs)), s, d', v)"
      using move IH(1) m by simp
    moreover have "content d' = content dlt @ take (nat l) (content (f # fs))" using IH(4) n by simp
    moreover have "content s = drop (nat l) (content (f # fs))" using IH(5) n by simp
    ultimately show ?thesis using IH(2,3) by blast
  next
    case whole
    have n: "nat l = length (fbytes f)" using whole u by linarith
    have "move_loop l exf (f # fs) dlt = Some (l - min l (frame_size (f # fs)), fs, dlt @ [f], True)"
      using whole sz by simp
    moreover have "content (dlt @ [f]) = content dlt @ take (nat l) (content (f # fs))"
      "content fs = drop (nat l) (content (f # fs))" unfolding n by (simp_all del: length_bytes_from)
    moreover have "list_all fok (dlt @ [f])" using f(1) Cons.prems(2) by simp
    ultimately show ?thesis using f(2) by blast
  next
    case part
    obtain e c where m: "move_bytes (nat l) (f_top (add_top (- l) exf) + 1) (add_top (- l) exf) f = (e, c)" by fastforce
    from move_part [OF f(1) Cons.prems(3) part(2,1) m]
    have r: "fok e" "fok c" "fbytes e = take (nat l) (fbytes f)" "fbytes c = drop (nat l) (fbytes f)" by auto
    have n: "nat l \<le> length (fbytes f)" using part u by linarith
    have "move_loop l exf (f # fs) dlt = Some (l - min l (frame_size (f # fs)), c # fs, dlt @ [e], False)"
      using part sz m by (simp add: Let_def)
    moreover have "content (dlt @ [e]) = content dlt @ take (nat l) (content (f # fs))"
      "content (c # fs) = drop (nat l) (content (f # fs))" using r(3,4) n by (simp_all del: length_bytes_from)
    moreover have "list_all fok (c # fs)" "list_all fok (dlt @ [e])" using r(1,2) f(2) Cons.prems(2) by simp_all
    ultimately show ?thesis by blast
  next
    case zero
    hence "move_loop l exf (f # fs) dlt = Some (l - min l (frame_size (f # fs)), f # fs, dlt, True)"
      using sz by simp
    moreover have "content dlt = content dlt @ take (nat l) (content (f # fs))"
      "content (f # fs) = drop (nat l) (content (f # fs))" using zero by simp_all
    ultimately show ?thesis using Cons.prems(1,2) by blast
  qed
qed (auto simp: frame_size_def)

section \<open>Erasing and peeking\<close>

lemma add_top_bytes:
  assumes "fok f" "0 \<le> n" "n < used f"
  shows "fok (add_top n f) \<and> fbytes (add_top n f) = drop (nat n) (fbytes f)"
proof -
  have "int (f_top f) + n < int FRAME_SIZE - 1" using assms(3) by (simp add: used_def)
  moreover have "int FRAME_SIZE - 1 < 65536" by (simp add: FRAME_SIZE_def)
  ultimately have "(int (f_top f) + n) mod 65536 = int (f_top f) + n"
    using assms(2) by (intro mod_pos_pos_trivial) linarith+
  hence t: "f_top (add_top n f) = f_top f + nat n" using assms(2) by (simp add: add_top_def)
  have "int (f_top f + nat n) < int FRAME_SIZE" using assms(2,3) by (simp add: used_def)
  hence "f_top f + nat n < FRAME_SIZE" by (simp only: of_nat_less_iff)
  thus ?thesis using t by (simp add: fok_def bytes_from_def drop_map) (simp add: add_top_def)
qed

lemma erase_loop_bytes:
  "list_all fok fs \<Longrightarrow> 0 \<le> s \<Longrightarrow> erase_loop s fs p = (s1, gs, p1) \<Longrightarrow>
     list_all fok gs \<and> content gs = drop (nat s) (content fs) \<and> s1 = s - min s (frame_size fs)"
proof (induction fs arbitrary: s p)
  case (Cons f fs)
  have f: "fok f" "list_all fok fs" using Cons.prems by auto
  have u: "used f = int (length (fbytes f))" "0 \<le> used f" using used_length [OF f(1)] by auto
  have sz: "frame_size (f # fs) = used f + frame_size fs" "0 \<le> frame_size fs"
    using frame_size_content [OF f(2)] by (simp_all add: frame_size_def)
  show ?case
  proof (cases "used f \<le> s")
    case True
    have n: "nat s = length (fbytes f) + nat (s - used f)" using True u by linarith
    show ?thesis
    proof (cases "0 < s - used f")
      case r: True
      hence "erase_loop (s - used f) fs (frame_free p) = (s1, gs, p1)" using Cons.prems(3) True by (simp add: Let_def)
      from Cons.IH [OF f(2) _ this] r show ?thesis using sz n by (simp del: length_bytes_from)
    next
      case False
      hence "(s1, gs, p1) = (s - used f, fs, frame_free p)" using Cons.prems(3) True by (simp add: Let_def)
      thus ?thesis using False True f n sz by (simp del: length_bytes_from)
    qed
  next
    case False
    hence e: "s1 = 0" "gs = add_top s f # fs" using Cons.prems(3) by (simp_all add: Let_def)
    have "nat s \<le> length (fbytes f)" using False u by linarith
    thus ?thesis using e False add_top_bytes [OF f(1) Cons.prems(2)] f(2) sz Cons.prems(2)
      by (simp del: length_bytes_from)
  qed
qed (auto simp: frame_size_def)

lemma peek_loop_bytes:
  "list_all fok (f # fs) \<Longrightarrow> c \<le> FRAME_SIZE \<Longrightarrow> 0 \<le> l \<Longrightarrow>
     peek_loop c l (f # fs) =
       (if l \<le> int (length (bytes_from f c @ content fs)) then Some (take (nat l) (bytes_from f c @ content fs)) else None)"
proof (induction c l "f # fs" arbitrary: f fs rule: peek_loop.induct)
  case (2 c l f fs)
  consider (z) "l = 0" | (last) "l \<noteq> 0" "c = FRAME_SIZE" "fs = []" | (more) g gs where "l \<noteq> 0" "c = FRAME_SIZE" "fs = g # gs"
    | (byte) "l \<noteq> 0" "c < FRAME_SIZE" using 2(4) by (cases fs) force+
  thus ?case
  proof cases
    case z
    thus ?thesis by simp
  next
    case last
    thus ?thesis using 2(5) by simp
  next
    case more
    have "peek_loop c l (f # fs) = peek_loop (f_top g + 1) l (g # gs)" using more by simp
    moreover have "f_top g + 1 \<le> FRAME_SIZE" using 2(3) more by (simp add: fok_def)
    moreover have "list_all fok (g # gs)" using 2(3) more by simp
    ultimately show ?thesis using 2(1) [OF more(1,2,3)] 2(5) more by simp
  next
    case byte
    have "0 \<le> l - 1" "nat l = Suc (nat (l - 1))" using byte(1) 2(5) by arith+
    thus ?thesis using 2(2) byte 2(3) by (simp add: bytes_from_cons [of c f])
  qed
qed

section \<open>Copying\<close>

lemma append_string_bytes:
  assumes "list_all fok dlt" "frame_append_string st dlt p = (r, d, p1)"
  shows "list_all fok d \<and> (if r < 0 then d = dlt else r = int (length st) \<and> content d = content dlt @ st)"
proof -
  obtain q ext p2 where w: "frame_write_string st [] p = (q, ext, p2)" by (metis prod_cases3)
  show ?thesis
  proof (cases "q < 0")
    case True
    thus ?thesis using assms w by (simp add: frame_append_string_def)
  next
    case False
    have "list_all fok []" by simp
    from write_string_bytes [OF this w] False assms w show ?thesis by (auto simp: frame_append_string_def)
  qed
qed

lemma copy_loop_bytes:
  "list_all fok fs \<Longrightarrow> list_all fok dlt \<Longrightarrow> 0 \<le> l \<Longrightarrow> copy_loop l fs dlt p = (l1, d, p1) \<Longrightarrow>
     0 \<le> l1 \<and> l1 \<le> l \<and> list_all fok d \<and> content d = content dlt @ take (nat (l - l1)) (content fs)"
proof (induction fs arbitrary: l dlt p)
  case (Cons f fs)
  have f: "fok f" "list_all fok fs" using Cons.prems by auto
  have u: "used f = int (length (fbytes f))" using used_length [OF f(1)] .
  define l2 where "l2 = (if l < used f then l else used f)"
  obtain r d1 q where a: "frame_append_string (take (nat l2) (fbytes f)) dlt p = (r, d1, q)" by (metis prod_cases3)
  have st: "copy_loop l (f # fs) dlt p =
      (if l \<le> 0 \<or> l2 \<le> 0 then (l, dlt, p) else if r < 0 then (l, d1, q) else copy_loop (l - r) fs d1 q)"
    using a by (simp add: l2_def Let_def)
  note ap = append_string_bytes [OF Cons.prems(2) a]
  consider (stop) "l \<le> 0 \<or> l2 \<le> 0" | (fail) "0 < l" "0 < l2" "r < 0" | (go) "0 < l" "0 < l2" "0 \<le> r" by linarith
  thus ?case
  proof cases
    case stop
    thus ?thesis using Cons.prems unfolding st by auto
  next
    case fail
    thus ?thesis using Cons.prems ap unfolding st by auto
  next
    case go
    have n: "nat l2 \<le> length (fbytes f)" "l2 \<le> l" unfolding l2_def u by (auto simp del: length_bytes_from)
    have r: "r = l2" "content d1 = content dlt @ take (nat l2) (fbytes f)" "list_all fok d1"
      using ap go n(1) by (simp_all del: length_bytes_from)
    have "copy_loop (l - l2) fs d1 q = (l1, d, p1)" using Cons.prems(4) go r(1) unfolding st by simp
    from Cons.IH [OF f(2) r(3) _ this] n(2)
    have IH: "0 \<le> l1" "l1 \<le> l - l2" "list_all fok d" "content d = content d1 @ take (nat (l - l2 - l1)) (content fs)" by auto
    show ?thesis
    proof (cases "l < used f")
      case True
      hence "l2 = l" by (simp add: l2_def)
      hence "l1 = 0" "nat (l - l2 - l1) = 0" using IH(1,2) by simp_all
      thus ?thesis using IH r(2) n(1) \<open>l2 = l\<close> go(1) by (simp del: length_bytes_from)
    next
      case False
      hence e: "nat l2 = length (fbytes f)" by (simp add: l2_def u del: length_bytes_from)
      have "nat (l - l1) = length (fbytes f) + nat (l - l2 - l1)" using e IH(1,2) go(2) by linarith
      thus ?thesis using IH r(2) e go(2) by (simp del: length_bytes_from)
    qed
  qed
qed simp

section \<open>A failing write\<close>

lemma frame_new_malloc:
  assumes "fp_free p = 0" "fp_malloc p (fp_calls p)"
  obtains nf q where "frame_new p = (Some nf, q)" "f_top nf = FRAME_SIZE - 1" "fok nf" "fp_free q = 0"
    "fp_malloc q = fp_malloc p" "fp_calls q = fp_calls p + 1"
  using assms frame_size_pos
  by (simp add: frame_new_def fok_def Let_def)

lemma write_loop_full:
  assumes "room_for fs p = (Some (nf # hs), q)" "fok nf" "f_top nf = FRAME_SIZE - 1" "fbytes nf = []" "FRAME_SIZE - 1 < length rs"
  obtains f where "write_loop rs fs p = write_loop (drop (FRAME_SIZE - 1) rs) (f # hs) q"
    "fok f" "f_top f = 0" "fbytes f = rev (take (FRAME_SIZE - 1) rs)"
proof -
  obtain ts f where pb: "put_bytes rs nf = (ts, f)" by fastforce
  from put_bytes_bytes [OF assms(2) pb] assms(3-5)
  have f: "ts = drop (FRAME_SIZE - 1) rs" "fok f" "f_top f = 0" "fbytes f = rev (take (FRAME_SIZE - 1) rs)" by auto
  have "ts \<noteq> []" using f(1) assms(5) by simp
  hence "write_loop rs fs p = write_loop ts (f # hs) q"
    by (subst write_loop.simps) (simp add: assms(1) pb)
  thus thesis using that f by metis
qed

section \<open>Properties\<close>

text \<open>
  Claim C8.  What the layers of the protocol write into a PDU they read back: a
  sequence of fields written last to first is read first to last, every field
  unchanged, and the bytes that were there before are left, across any number of
  frames.
\<close>

theorem frame_fields_roundtrip:
  assumes "list_all fok fs" "write_all write_frames xs (fs, p) = Some (gs, p1)"
  shows "\<exists>hs p2. read_all read_frames (map length xs) (gs, p1) = (xs, hs, p2) \<and> list_all fok hs \<and> content hs = content fs"
proof -
  have "case (fs, p) of (fs, p) \<Rightarrow> list_all fok fs" using assms(1) by simp
  from frames.fields_roundtrip [OF this assms(2)] show ?thesis by auto
qed

definition demo_pool :: pool where
  "demo_pool = \<lparr>fp_free = 0, fp_count = 0, fp_upper = 1024, fp_lower = 0, fp_malloc = (\<lambda>k. k < 2), fp_calls = 0\<rparr>"

lemma demo_write: "\<exists>gs p1. write_all write_frames [[1], [2, 3]] ([], demo_pool) = Some (gs, p1)"
  by (simp add: write_frames_def frame_write_string_def demo_pool_def frame_new_def room_for_def
      write_loop.simps Let_def FRAME_SIZE_def)

theorem frame_fields_roundtrip_witness:
  "\<exists>gs p1 hs p2. write_all write_frames [[1], [2, 3]] ([], demo_pool) = Some (gs, p1)
     \<and> read_all read_frames (map length [[1], [2, 3 :: byte]]) (gs, p1) = ([[1], [2, 3]], hs, p2)"
proof -
  obtain gs p1 where w: "write_all write_frames [[1], [2, 3]] ([], demo_pool) = Some (gs, p1)" using demo_write by blast
  from frame_fields_roundtrip [OF _ w] show ?thesis using w by auto
qed

text \<open>
  Numbers go through the frames in network byte order: an int, a short
  or a byte that could be written is what the corresponding read returns, and the
  rest of the frames is as before.
\<close>

lemma frame_numbers_roundtrip:
  assumes "list_all fok fs"
  shows "(\<forall>r gs p1. frame_write_int v fs p = (r, gs, p1) \<and> 0 \<le> r \<longrightarrow>
            (\<exists>hs p2. frame_read_int gs p1 = (Some v, hs, p2) \<and> content hs = content fs))
    \<and> (\<forall>r gs p1. frame_write_short w fs p = (r, gs, p1) \<and> 0 \<le> r \<longrightarrow>
            (\<exists>hs p2. frame_read_short gs p1 = (Some w, hs, p2) \<and> content hs = content fs))
    \<and> (\<forall>r gs p1. frame_write_byte c fs p = (r, gs, p1) \<and> 0 \<le> r \<longrightarrow>
            (\<exists>hs p2. frame_read_byte gs p1 = (Some c, hs, p2) \<and> content hs = content fs))"
proof -
  have l: "int (length (be32 v)) = 4" "int (length (be16 w)) = 2" by (simp_all add: be32_def be16_def)
  have "\<exists>hs p2. frame_read_int gs p1 = (Some v, hs, p2) \<and> content hs = content fs"
    if i: "frame_write_int v fs p = (r, gs, p1)" "0 \<le> r" for r gs p1
    using read_back [OF assms i(1) [unfolded frame_write_int_def] i(2)]
    unfolding l frame_read_int_def by (auto simp: of_be32_be32)
  moreover have "\<exists>hs p2. frame_read_short gs p1 = (Some w, hs, p2) \<and> content hs = content fs"
    if i: "frame_write_short w fs p = (r, gs, p1)" "0 \<le> r" for r gs p1
    using read_back [OF assms i(1) [unfolded frame_write_short_def] i(2)]
    unfolding l frame_read_short_def by (auto simp: of_be16_be16)
  moreover have "\<exists>hs p2. frame_read_byte gs p1 = (Some c, hs, p2) \<and> content hs = content fs"
    if i: "frame_write_byte c fs p = (r, gs, p1)" "0 \<le> r" for r gs p1
    using read_back [OF assms i(1) [unfolded frame_write_byte_def] i(2)]
    unfolding frame_read_byte_def by auto
  ultimately show ?thesis by blast
qed

lemma frame_numbers_roundtrip_witness:
  "\<exists>gs p1 hs p2. frame_write_short 4660 [] demo_pool = (2, gs, p1) \<and> frame_read_short gs p1 = (Some 4660, hs, p2)"
proof -
  obtain gs p1 where w: "frame_write_short 4660 [] demo_pool = (2, gs, p1)"
    by (simp add: frame_write_short_def be16_def frame_write_string_def demo_pool_def frame_new_def
      room_for_def write_loop.simps Let_def FRAME_SIZE_def)
  have "list_all fok []" by simp
  from frame_numbers_roundtrip [OF this, of 0 demo_pool 4660 0] w show ?thesis by fastforce
qed

text \<open>
  frame_move returns and splits a frame list: the first l bytes go to
  the end of the destination, the others stay, and the result is the number of
  bytes moved, when a spare frame could be had.
\<close>

lemma frame_move_splits:
  assumes "list_all fok slt" "list_all fok dlt" "0 \<le> l" "frame_new p = (Some exf, p1)"
  shows "\<exists>d s p2. frame_move dlt slt l p = Some (min l (frame_size slt), d, s, p2)
    \<and> content d = content dlt @ take (nat l) (content slt) \<and> content s = drop (nat l) (content slt)
    \<and> list_all fok d \<and> list_all fok s"
proof -
  have "f_top exf = FRAME_SIZE - 1" using frame_new_bytes [OF assms(4)] by blast
  from move_loop_bytes [OF assms(1,2) this assms(3)] obtain s d u where
    "move_loop l exf slt dlt = Some (l - min l (frame_size slt), s, d, u)" "list_all fok s" "list_all fok d"
    "content d = content dlt @ take (nat l) (content slt)" "content s = drop (nat l) (content slt)" by blast
  thus ?thesis by (simp add: frame_move_def assms(4))
qed

text \<open>
  Peeking reads without consuming, but only as far as the frames
  reach: asked for more bytes than there are, it goes on to the frame after the
  last through a null pointer.
\<close>

lemma frame_peek_limit:
  assumes "list_all fok fs" "fs \<noteq> []" "0 \<le> l"
  shows "frame_peek_string l fs = (if l \<le> frame_size fs then Some (take (nat l) (content fs)) else None)"
proof -
  obtain f gs where fs: "fs = f # gs" using assms(2) by (cases fs) auto
  have "f_top f + 1 \<le> FRAME_SIZE" using assms(1) fs by (simp add: fok_def)
  from peek_loop_bytes [OF _ this assms(3)] assms(1) show ?thesis
    by (simp add: frame_peek_string_def fs frame_size_content [of "f # gs"])
qed

text \<open>Erasing is reading without a buffer.\<close>

lemma frame_erase_reads:
  assumes "list_all fok fs" "0 \<le> l" "frame_erase l fs p = (n, gs, p1)" "frame_read_string l fs p = (bs, m, hs, p2)"
  shows "n = m \<and> content gs = content hs \<and> content fs = bs @ content gs"
proof -
  obtain s1 where e: "erase_loop l fs p = (s1, gs, p1)" "n = l - s1"
    using assms(3) by (auto simp: frame_erase_def split: prod.splits)
  have "m = int (length bs)" "bs = take (nat l) (content fs)" "content hs = drop (nat l) (content fs)"
    using read_string_bytes [OF assms(1,4)] by auto
  moreover have "content gs = drop (nat l) (content fs)" "s1 = l - min l (frame_size fs)"
    using erase_loop_bytes [OF assms(1,2) e(1)] by auto
  ultimately show ?thesis using e(2) assms(2) frame_size_content [OF assms(1)] by auto
qed

text \<open>
  frame_copy never reports a failure.  Whatever malloc does, the
  result is the length of the prefix that was copied and is not negative, so the
  test pdu_clone makes for a failed copy is never true and a clone may silently
  miss the end of the PDU.
\<close>

lemma frame_copy_hides_failure:
  assumes "list_all fok slt" "list_all fok dlt" "0 \<le> l" "frame_copy dlt slt l p = (r, d, p1)"
  shows "0 \<le> r \<and> r \<le> l \<and> content d = content dlt @ take (nat r) (content slt)"
proof -
  obtain l1 where c: "copy_loop l slt dlt p = (l1, d, p1)" "r = l - l1"
    using assms(4) by (auto simp: frame_copy_def split: prod.splits)
  from copy_loop_bytes [OF assms(1-3) c(1)] show ?thesis using c(2) by auto
qed

text \<open>
  A write that runs out of frames does not leave the frames as it
  found them.  The undo loop counts one byte too many for every frame it discards:
  when the third frame cannot be had, a byte of the aborted write stays behind.
\<close>

lemma frame_write_undo_leak:
  assumes "2 * (FRAME_SIZE - 1) < length st" "fp_free p = 0"
    and "fp_malloc p (fp_calls p)" "fp_malloc p (fp_calls p + 1)" "\<not> fp_malloc p (fp_calls p + 2)"
  shows "\<exists>f p1. frame_write_string st [] p = (- 1, [f], p1) \<and> fbytes f = [last st]"
proof -
  let ?n = "FRAME_SIZE - 1" let ?rs = "rev st"
  obtain g1 q1 where g1: "frame_new p = (Some g1, q1)" "f_top g1 = ?n" "fok g1" "fp_free q1 = 0"
    "fp_malloc q1 = fp_malloc p" "fp_calls q1 = fp_calls p + 1"
    using frame_new_malloc [OF assms(2,3)] by blast
  have b1: "fbytes g1 = []" using frame_new_bytes [OF g1(1)] by simp
  obtain f1 where f1: "write_loop ?rs [] p = write_loop (drop ?n ?rs) [f1] q1" "fok f1" "f_top f1 = 0"
    "fbytes f1 = rev (take ?n ?rs)"
    by (rule write_loop_full [of "[]" p g1 "[]" q1 ?rs]) (use g1 b1 assms(1) in \<open>simp_all add: room_for_def\<close>)
  have "fp_malloc q1 (fp_calls q1)" using g1(5,6) assms(4) by simp
  then obtain g2 q2 where g2: "frame_new q1 = (Some g2, q2)" "f_top g2 = ?n" "fok g2" "fp_free q2 = 0"
    "fp_malloc q2 = fp_malloc q1" "fp_calls q2 = fp_calls q1 + 1"
    using frame_new_malloc [OF g1(4)] by blast
  have b2: "fbytes g2 = []" using frame_new_bytes [OF g2(1)] by simp
  obtain f2 where f2: "write_loop (drop ?n ?rs) [f1] q1 = write_loop (drop ?n (drop ?n ?rs)) [f2, f1] q2" "f_top f2 = 0"
    by (rule write_loop_full [of "[f1]" q1 g2 "[f1]" q2 "drop ?n ?rs"])
       (use g2 b2 f1(3) assms(1) in \<open>simp_all add: room_for_def\<close>)
  have "\<not> fp_malloc q2 (fp_calls q2)" using g1(5,6) g2(5,6) assms(5) by simp
  hence "\<exists>q3. room_for [f2, f1] q2 = (None, q3)" using f2(2) g2(4) by (simp add: room_for_def frame_new_def)
  then obtain q3 where "room_for [f2, f1] q2 = (None, q3)" by blast
  hence w3: "write_loop (drop ?n (drop ?n ?rs)) [f2, f1] q2 = (drop ?n (drop ?n ?rs), False, [f2, f1], q3)"
    by (subst write_loop.simps) simp
  have "int (length st - length (drop ?n (drop ?n ?rs))) = 2 * int ?n" using assms(1) by simp
  moreover have "undo_loop (2 * int ?n) [f2, f1] q3 = ([add_top (int ?n - 1) f1], frame_free q3)"
    using f2(2) f1(3) by (simp add: FRAME_SIZE_def)
  moreover have "fbytes (add_top (int ?n - 1) f1) = drop (?n - 1) (fbytes f1)"
    using add_top_bytes [OF f1(2), of "int ?n - 1"] f1(3)
    by (simp add: used_def FRAME_SIZE_def)
  moreover have "drop (?n - 1) (fbytes f1) = [last st]"
  proof -
    have "fbytes f1 = drop (length st - ?n) st" using f1(4) by (simp add: take_rev)
    moreover have "length st - ?n + (?n - 1) = length st - 1" using assms(1) by (simp add: FRAME_SIZE_def)
    ultimately show ?thesis using assms(1) by (cases st rule: rev_cases) auto
  qed
  ultimately show ?thesis using f1(1) f2(1) w3 by (simp add: frame_write_string_def)
qed

lemma frame_write_undo_leak_witness:
  "\<exists>f p1. frame_write_string (replicate 9000 7) [] demo_pool = (- 1, [f], p1) \<and> fbytes f = [7]"
proof -
  have "last (replicate 9000 (7 :: byte)) = 7" by (rule last_replicate) simp
  thus ?thesis using frame_write_undo_leak [of "replicate 9000 7" demo_pool] 
    by (simp add: demo_pool_def FRAME_SIZE_def)
qed

text \<open>A frame with three bytes.\<close>

definition demo_frame :: frame where
  "demo_frame = \<lparr>f_top = FRAME_SIZE - 4, f_fc = (\<lambda>i. of_nat (i - (FRAME_SIZE - 4)))\<rparr>"

lemma demo_frame_bytes: "fok demo_frame" "fbytes demo_frame = [1, 2, 3]" "frame_size [demo_frame] = 3"
proof -
  have "[Suc (FRAME_SIZE - 4)..<FRAME_SIZE] = [4093, 4094, 4095]"
    by (simp add: FRAME_SIZE_def upt_conv_Cons)
  thus "fbytes demo_frame = [1, 2, 3]" by (simp add: bytes_from_def demo_frame_def FRAME_SIZE_def)
qed (simp_all add: fok_def demo_frame_def frame_size_def used_def FRAME_SIZE_def)

lemma frame_move_splits_witness:
  "\<exists>d s p2. frame_move [] [demo_frame] 2 demo_pool = Some (2, d, s, p2) \<and> content d = [1, 2] \<and> content s = [3]"
proof -
  obtain exf p1 where n: "frame_new demo_pool = (Some exf, p1)" by (simp add: frame_new_def demo_pool_def)
  have "list_all fok [demo_frame]" "list_all fok []" "(0 :: int) \<le> 2" using demo_frame_bytes by simp_all
  from frame_move_splits [OF this n] show ?thesis using demo_frame_bytes by auto
qed

lemma frame_peek_limit_witness:
  "frame_peek_string 3 [demo_frame] = Some [1, 2, 3] \<and> frame_peek_string 4 [demo_frame] = None"
  using frame_peek_limit [of "[demo_frame]" 3] frame_peek_limit [of "[demo_frame]" 4] demo_frame_bytes by simp

lemma frame_copy_hides_failure_witness:
  "\<exists>d p1. frame_copy [] [demo_frame] 3 (demo_pool\<lparr>fp_calls := 2\<rparr>) = (0, d, p1) \<and> content d = []"
proof -
  let ?p = "demo_pool\<lparr>fp_calls := 2\<rparr>"
  have f: "frame_append_string [1, 2, 3] [] ?p = (- 1, [], ?p\<lparr>fp_calls := 3\<rparr>)"
    by (simp add: frame_append_string_def frame_write_string_def write_loop.simps room_for_def frame_new_def
        demo_pool_def)
  have "used demo_frame = 3" using demo_frame_bytes(3) by (simp add: frame_size_def)
  hence "frame_copy [] [demo_frame] 3 ?p = (0, [], ?p\<lparr>fp_calls := 3\<rparr>)"
    using f demo_frame_bytes(2) by (simp add: frame_copy_def)
  moreover have "list_all fok [demo_frame]" "list_all fok []" "(0 :: int) \<le> 3" using demo_frame_bytes by simp_all
  ultimately show ?thesis using frame_copy_hides_failure [of "[demo_frame]" "[]" 3 ?p] by auto
qed

end
