(* ===== verification/MLVM_Collect.thy ===== *)
theory MLVM_Collect
  imports MLVM_Machine
begin

text \<open>
  The garbage collector, do_collection of memory/mmanager.c: the area of the
  stack above the collecting line is copied, breadth first, into a buffer and
  back, starting from the arguments and from the older cells on the trail.  A
  copy is written with the addresses it will have once it is moved back.
  None stands for a run that does not return.
\<close>

section \<open>The macros of mmanager.h\<close>

definition is_fvl :: "word32 \<Rightarrow> bool" where "is_fvl t = (t = FVL_TAG)"

definition GC_STATIC :: word32 where "GC_STATIC = GC_LIMIT * 2"

text \<open>What do_collection keeps in registers that never change: cline, st, stack_bottom, copy_bottom.\<close>

record gc =
  g_cline :: addr
  g_st :: addr
  g_bottom :: addr
  g_copy :: addr

definition dest :: "gc \<Rightarrow> addr \<Rightarrow> addr" where
  "dest g x = padd (g_cline g) (pdiff x (g_copy g))"

definition hit_old :: "gc \<Rightarrow> word32 \<Rightarrow> bool" where
  "hit_old g x = (x < g_cline g \<and> g_bottom g \<le> x)"

definition hit_mid :: "gc \<Rightarrow> word32 \<Rightarrow> bool" where
  "hit_mid g x = (x \<le> g_st g \<and> g_cline g \<le> x)"

definition hit_previous :: "gc \<Rightarrow> addr \<Rightarrow> word32 \<Rightarrow> bool" where
  "hit_previous g prevp x = (x < prevp \<and> g_bottom g \<le> x)"

definition hit_copied_var :: "gc \<Rightarrow> addr \<Rightarrow> word32 \<Rightarrow> bool" where
  "hit_copied_var g freep x = (x < freep \<and> g_copy g \<le> x)"

section \<open>The buffer\<close>

text \<open>The static buffer, whether its lock is free, and what malloc returns.\<close>

record gc_env =
  ge_static :: addr
  ge_free :: bool
  ge_malloc :: addr

text \<open>memset clears GC_STATIC words, whichever buffer it is.\<close>

definition do_gc_start :: "gc_env \<Rightarrow> icb \<Rightarrow> store \<Rightarrow> word32 + (addr \<times> store)" where
  "do_gc_start e p m =
     (let gc_size = pdiff (i_st p) (addr (m (i_af p)));
          cleared = (\<lambda>q a. if a - q < GC_STATIC * 4 then 0 else m a) in
      if GC_STATIC \<le>s gc_size
      then (if ge_malloc e = 0 then Inl (ecode E_MEMORY_OUT) else Inr (ge_malloc e, cleared (ge_malloc e)))
      else (if \<not> ge_free e then Inl (ecode E_RESSOURCE_BUSY) else Inr (ge_static e, cleared (ge_static e))))"

section \<open>Roots\<close>

text \<open>
  The search for the previous generation reads ints from prevp = *af - 1 on, where
  *af carries the tag of a structure: the address is not aligned, the two halves
  come from neighbouring words.
\<close>

definition get_int :: "store \<Rightarrow> addr \<Rightarrow> word32" where
  "get_int m p =
     (let k = 8 * unat (p AND 3); a = p AND ADR_MASK in
      if k = 0 then m p else drop_bit k (m a) OR push_bit (32 - k) (m (a + 4)))"

definition find_prevp :: "icb \<Rightarrow> store \<Rightarrow> addr option" where
  "find_prevp p m =
     map_option (\<lambda>q. if q = block_ceiling p then i_bb p else addr q)
       (while_option (\<lambda>q. q < block_ceiling p \<and> tag (get_int m q) \<noteq> STR_TAG) (\<lambda>q. q + 4) (m (i_af p) - 4))"

text \<open>while (n--) *freep++ = *scanp++\<close>

primrec copy_up :: "nat \<Rightarrow> addr \<times> addr \<times> store \<Rightarrow> addr \<times> addr \<times> store" where
  "copy_up 0 x = x"
| "copy_up (Suc n) x = (let (freep, scanp, m) = x in copy_up n (freep + 4, scanp + 4, m(freep := m scanp)))"

text \<open>gc_pop: the next root and the new top of the trail.\<close>

definition gc_pop :: "addr \<Rightarrow> addr \<Rightarrow> store \<Rightarrow> word32 \<times> addr" where
  "gc_pop tt scanp m = (if tt = scanp then (0, tt) else (m (tt + 4), tt + 4))"

text \<open>
  A root below the area: kept at the bottom of the trail when it belongs to the
  previous generation, its word goes to the buffer, and it will refer to the copy.
\<close>

definition take_root :: "gc \<Rightarrow> addr \<Rightarrow> word32 \<Rightarrow> addr \<times> addr \<times> addr \<times> store \<Rightarrow> addr \<times> addr \<times> addr \<times> store" where
  "take_root g prevp root x =
     (let (tt, scanp, freep, m) = x in
      if tag root = STR_TAG \<or> hit_mid g root then (tt, scanp, freep, m)
      else
        (let (tt1, scanp1, m1) =
               (if hit_previous g prevp root then (tt - 4, scanp - 4, (m(tt := m scanp))(scanp := root))
                else (tt, scanp, m));
             m2 = m1(freep := m1 root)
         in (tt1, scanp1, freep + 4, m2(root := dest g freep))))"

definition root_body ::
  "gc \<Rightarrow> addr \<Rightarrow> word32 \<times> addr \<times> addr \<times> addr \<times> store \<Rightarrow> word32 \<times> addr \<times> addr \<times> addr \<times> store" where
  "root_body g prevp = (\<lambda>(root, x).
     let (tt, scanp, freep, m) = take_root g prevp root x; (r, tt1) = gc_pop tt scanp m
     in (r, tt1, scanp, freep, m))"

definition trail_roots ::
  "gc \<Rightarrow> addr \<Rightarrow> addr \<Rightarrow> addr \<Rightarrow> addr \<Rightarrow> store \<Rightarrow> (addr \<times> addr \<times> store) option" where
  "trail_roots g prevp tt scanp freep m =
     (let (r, tt1) = gc_pop tt scanp m in
      map_option (\<lambda>(r, tt, scanp, freep, m). (tt, freep, m))
        (while_option (\<lambda>(r, x). r \<noteq> 0) (root_body g prevp) (r, tt1, scanp, freep, m)))"

section \<open>The scan\<close>

text \<open>Pointer shunting: references are followed until one is old, copied or unbound.\<close>

definition gc_shunt :: "gc \<Rightarrow> addr \<Rightarrow> store \<Rightarrow> word32 \<Rightarrow> word32 option" where
  "gc_shunt g freep m =
     while_option (\<lambda>x. is_var x \<and> \<not> hit_old g x \<and> \<not> hit_copied_var g freep x \<and> \<not> is_self_ref m x) m"

definition scan_var :: "gc \<Rightarrow> word32 \<Rightarrow> addr \<times> addr \<times> store \<Rightarrow> addr \<times> addr \<times> store" where
  "scan_var g root x =
     (let (scanp, freep, m) = x in
      if hit_old g root then (scanp + 4, freep, m(scanp := root))
      else if hit_copied_var g freep root then (scanp + 4, freep, m(scanp := dest g root))
      else (scanp + 4, freep, (m(scanp := dest g scanp))(root := scanp)))"

definition scan_list :: "gc \<Rightarrow> word32 \<Rightarrow> addr \<times> addr \<times> store \<Rightarrow> addr \<times> addr \<times> store" where
  "scan_list g root x =
     (let (scanp, freep, m) = x; rp = addr root; ax = m (rp + 4) in
      if is_var ax \<and> hit_copied_var g freep ax then
        (if scanp < ax then (scanp + 4, freep, m(scanp := make_list (dest g (ax - 4))))
         else (let m1 = m(scanp := make_list (dest g freep)); m2 = m1(freep := m1 rp)
               in (scanp + 4, freep + 8, m2(freep + 4 := ax))))
      else
        (let m1 = m(scanp := make_list (dest g freep)); m2 = m1(freep := m1 rp);
             m3 = m2(rp + 4 := freep + 4)
         in (scanp + 4, freep + 8, m3(freep + 4 := ax))))"

text \<open>An is_cst word has been dealt with before the functor is tested for FVL_TAG.\<close>

definition scan_str :: "gc \<Rightarrow> word32 \<Rightarrow> addr \<times> addr \<times> store \<Rightarrow> addr \<times> addr \<times> store" where
  "scan_str g root x =
     (let (scanp, freep, m) = x; rp = addr root; ax = m rp in
      if is_var ax \<and> hit_copied_var g freep ax then (scanp + 4, freep, m(scanp := make_str (dest g ax)))
      else
        (let m1 = m(rp := freep); m2 = m1(scanp := make_str (dest g freep)) in
         if is_fvl ax
         then (let m3 = m2(freep := ax); m4 = m3(freep + 4 := m3 (rp + 4))
               in (scanp + 4, freep + 12, m4(freep + 8 := m4 (rp + 8))))
         else (let (freep1, rp1, m3) = copy_up (unat (arity ax)) (freep + 4, rp + 4, m2(freep := ax))
               in (scanp + 4, freep1, m3))))"

text \<open>The tests in the order of the code: a marker of a double is a constant for is_cst.\<close>

definition scan_word :: "gc \<Rightarrow> word32 \<Rightarrow> addr \<times> addr \<times> store \<Rightarrow> addr \<times> addr \<times> store" where
  "scan_word g root x =
     (let (scanp, freep, m) = x in
      if is_var root then scan_var g root x
      else if is_cst root then (scanp + 4, freep, m(scanp := root))
      else if is_fvl root then (scanp + 12, freep, m)
      else if hit_old g (addr root) then (scanp + 4, freep, m(scanp := root))
      else if is_list root then scan_list g root x
      else scan_str g root x)"

definition scan_step :: "gc \<Rightarrow> addr \<times> addr \<times> store \<Rightarrow> (addr \<times> addr \<times> store) option" where
  "scan_step g x =
     (let (scanp, freep, m) = x in map_option (\<lambda>root. scan_word g root x) (gc_shunt g freep m (m scanp)))"

definition scan_more :: "(addr \<times> addr \<times> store) option \<Rightarrow> bool" where
  "scan_more r = (case r of None \<Rightarrow> False | Some (scanp, freep, m) \<Rightarrow> scanp < freep)"

definition gc_scan :: "gc \<Rightarrow> addr \<times> addr \<times> store \<Rightarrow> (addr \<times> addr \<times> store) option" where
  "gc_scan g x = Option.bind (while_option scan_more (\<lambda>r. Option.bind r (scan_step g)) (Some x)) (\<lambda>r. r)"

section \<open>do_collection\<close>

text \<open>while (scanp < freep) *rp++ = *scanp++\<close>

definition move_back :: "addr \<Rightarrow> addr \<Rightarrow> addr \<Rightarrow> store \<Rightarrow> (addr \<times> store) option" where
  "move_back freep rp scanp m =
     map_option (\<lambda>(rp, scanp, m). (rp, m))
       (while_option (\<lambda>(rp, scanp, m). scanp < freep) (copy_up 1) (rp, scanp, m))"

text \<open>Up to the label GC_SCAN: Inl is an early return.\<close>

definition gc_init :: "gc_env \<Rightarrow> icb \<Rightarrow> store \<Rightarrow> (word32 + gc \<times> addr \<times> addr \<times> store) option" where
  "gc_init e p m =
     (case do_gc_start e p m of Inl r \<Rightarrow> Some (Inl r)
      | Inr (copy_bottom, m0) \<Rightarrow>
          (let g = \<lparr>g_cline = addr (m (i_af p)) + 4, g_st = i_st p, g_bottom = stack_base p, g_copy = copy_bottom\<rparr> in
           Option.bind (find_prevp p m0) (\<lambda>prevp.
             let (freep, scanp, m1) = copy_up (unat (i_nl p)) (copy_bottom, psub (i_st p) (i_nl p) + 4, m0) in
             map_option (\<lambda>(tt, freep, m2). Inr (g, tt, freep, m2))
               (trail_roots g prevp (i_tt p) (i_af p) freep m1))))"

definition do_collection :: "gc_env \<Rightarrow> icb \<Rightarrow> store \<Rightarrow> (icb \<times> store \<times> word32) option" where
  "do_collection e p m =
     Option.bind (gc_init e p m) (\<lambda>r. case r of Inl err \<Rightarrow> Some (p, m, err)
      | Inr (g, tt, freep, m2) \<Rightarrow>
          Option.bind (gc_scan g (g_copy g, freep, m2)) (\<lambda>(scanp, freep, m3).
          Option.bind (move_back freep (g_cline g) (g_copy g) m3) (\<lambda>(rp, m4).
            let (rp1, scanp, m5) = copy_up (unat (i_nl p)) (rp, g_cline g, m4); new_st = rp1 - 4 in
            Some (p\<lparr>i_gl := new_st, i_st := new_st, i_tt := tt - 4, collections := collections p + 1\<rparr>,
                  m5(tt := make_str new_st), ecode E_SUCCEED))))"

end
