(* ===== verification/MLVM_Memory.thy ===== *)
theory MLVM_Memory
  imports MLVM_Collect MLVM_Opcodes
begin

text \<open>
  Moving an imago's block: do_expansion of memory/mmanager.c, which enlarges the
  block and relocates it when realloc moved it, and clone_block and the copying
  part of load_system_file of creator/creator.c, which build a relocated copy.
  None stands for a run that does not return or reads outside opcode_tab.
\<close>

section \<open>Shared pieces\<close>

definition inst_of :: "word32 \<Rightarrow> inst_type option" where
  "inst_of w = (if unat w < length opcode_tab then Some (snd (snd (opcode_tab ! unat w))) else None)"

definition MM_TURNING :: word32 where "MM_TURNING = 5"
definition MM_EXP_SIZE :: word32 where "MM_EXP_SIZE = 1048576"
definition INIT_MESSENGER_STACK :: word32 where "INIT_MESSENGER_STACK = 4"
definition STACK_UNIT :: word32 where "STACK_UNIT = 1024"

text \<open>realloc keeps the n bytes of the old block.\<close>

definition realloc_copy :: "addr \<Rightarrow> addr \<Rightarrow> word32 \<Rightarrow> store \<Rightarrow> store" where
  "realloc_copy old new n m = (\<lambda>a. if a - new < n then m (a - new + old) else m a)"

section \<open>Expansion (memory/mmanager.c)\<close>

text \<open>The entry slots of the procedure table; the words are ints, so distance is added as it is.\<close>

definition adjust_procs :: "word32 \<Rightarrow> addr \<Rightarrow> addr \<Rightarrow> store \<Rightarrow> store option" where
  "adjust_procs d tp1 tp2 m =
     map_option snd (while_option (\<lambda>(tp1, m). tp1 < tp2)
       (\<lambda>(tp1, m). (padd tp1 2, m(tp1 := m tp1 + d))) (tp1, m))"

text \<open>mhash's loop, and the three macros mdirect, madjust and mhash.\<close>

primrec m_hash_entries :: "word32 \<Rightarrow> nat \<Rightarrow> addr \<times> store \<Rightarrow> addr \<times> store" where
  "m_hash_entries d 0 x = x"
| "m_hash_entries d (Suc n) x =
     (let (tp2, m) = x in m_hash_entries d n (padd tp2 2, m(tp2 := m tp2 + d)))"

fun m_action :: "word32 \<Rightarrow> operand_action \<Rightarrow> addr \<times> store \<Rightarrow> addr \<times> store" where
  "m_action d IDIRECT (tp2, m) = (padd tp2 1, m)"
| "m_action d IADJUST (tp2, m) = (padd tp2 1, m(tp2 := m tp2 + d))"
| "m_action d IHASH (tp2, m) =
     (let t = padd tp2 1; ax = m t + 1; (u, m1) = m_hash_entries d (unat ax) (padd t 1, m) in (psub u 1, m1))"

definition adjust_instrs :: "word32 \<Rightarrow> addr \<Rightarrow> addr \<Rightarrow> store \<Rightarrow> store option" where
  "adjust_instrs d tp2 tp1 m =
     Option.bind (while_option (\<lambda>r. case r of None \<Rightarrow> False | Some (tp2, m) \<Rightarrow> tp2 < tp1)
         (\<lambda>r. Option.bind r (\<lambda>(tp2, m). Option.bind (inst_of (m tp2)) (\<lambda>ty.
            Some (fold (m_action d) (adjust_code ty) (tp2, m))))) (Some (tp2, m)))
       (map_option snd)"

definition adjust_stack :: "word32 \<Rightarrow> addr \<Rightarrow> addr \<Rightarrow> store \<Rightarrow> store option" where
  "adjust_stack d tp1 tp2 m =
     map_option snd (while_option (\<lambda>(tp1, m). tp1 \<le> tp2)
       (\<lambda>(tp1, m). let ax = m tp1; bx = tag ax in
          if bx = CST_TAG then (if is_fvl ax then (padd tp1 3, m) else (padd tp1 1, m))
          else (padd tp1 1, m(tp1 := padd (addr ax) d OR bx))) (tp1, m))"

text \<open>while (ax--): the trail moves up by adjustment words, adjusted in a moved block.\<close>

primrec move_trail :: "word32 \<Rightarrow> nat \<Rightarrow> addr \<Rightarrow> addr \<Rightarrow> store \<Rightarrow> store" where
  "move_trail d 0 tp1 tp2 m = m"
| "move_trail d (Suc n) tp1 tp2 m =
     (let t1 = tp1 + 4; t2 = tp2 + 4; bx = m t1 in
      move_trail d n t1 t2
        (if d = 0 then m(t2 := bx)
         else if is_var bx then m(t2 := padd bx d)
         else m(t2 := make_str (padd (addr bx) d))))"

text \<open>The TT slots in the chain of continuation frames and in the chain of choice frames.\<close>

definition adjust_cf :: "word32 \<Rightarrow> addr \<Rightarrow> addr \<Rightarrow> store \<Rightarrow> store option" where
  "adjust_cf n base cf m =
     map_option snd (while_option (\<lambda>(tp1, m). base < tp1)
       (\<lambda>(tp1, m). let m1 = m(psub tp1 2 := m (psub tp1 2) + n) in (m1 tp1, m1)) (cf, m))"

definition adjust_bb :: "word32 \<Rightarrow> addr \<Rightarrow> addr \<Rightarrow> store \<Rightarrow> store option" where
  "adjust_bb n base bb m =
     map_option snd (while_option (\<lambda>(tp1, m). base < tp1)
       (\<lambda>(tp1, m). let m1 = m(psub tp1 2 := m (psub tp1 2) + n) in (m1 (psub tp1 3), m1)) (bb, m))"

definition move_registers :: "word32 \<Rightarrow> icb \<Rightarrow> icb" where
  "move_registers d p = p\<lparr>i_pp := padd (i_pp p) d, i_af := padd (i_af p) d, i_cp := padd (i_cp p) d,
     i_cf := padd (i_cf p) d, i_st := padd (i_st p) d, i_bb := padd (i_bb p) d, i_b0 := padd (i_b0 p) d,
     i_gl := padd (i_gl p) d, i_tt := padd (i_tt p) d\<rparr>"

text \<open>Relocation of the moved block: procedure table, code, stack.\<close>

definition relocate_block :: "word32 \<Rightarrow> icb \<Rightarrow> store \<Rightarrow> store option" where
  "relocate_block d p m =
     Option.bind (adjust_procs d (padd (proc_base p) 1) (code_base p) m) (\<lambda>m1.
     Option.bind (adjust_instrs d (code_base p) (name_base p) m1) (\<lambda>m2.
       adjust_stack d (stack_base p) (i_st p) m2))"

text \<open>new_base is what realloc returned.\<close>

definition do_expansion :: "addr \<Rightarrow> icb \<Rightarrow> store \<Rightarrow> (icb \<times> store \<times> word32) option" where
  "do_expansion new_base p m =
     (let old_base = block_base p; old_size = pdiff (block_ceiling p) old_base;
          adjustment = (if expansions p <s MM_TURNING then old_size else MM_EXP_SIZE) in
      if new_base = 0 then Some (p, m, ecode E_MEMORY_OUT)
      else
        (let m0 = realloc_copy old_base new_base (4 * old_size) m;
             distance = pdiff new_base old_base;
             p1 = (if distance \<noteq> 0
                   then move_registers distance (p\<lparr>block_base := new_base,
                     block_ceiling := padd (block_ceiling p) (distance + adjustment),
                     stack_base := padd (stack_base p) distance, code_base := padd (code_base p) distance,
                     proc_base := padd (proc_base p) distance, name_base := name_base p + distance * 4,
                     name_top := name_top p + distance * 4\<rparr>)
                   else p\<lparr>block_ceiling := padd (block_ceiling p) adjustment\<rparr>);
             p2 = p1\<lparr>expansions := expansions p1 + 1\<rparr> in
         Option.bind (if distance \<noteq> 0 then relocate_block distance p2 m0 else Some m0) (\<lambda>m1.
           let tp1 = i_tt p2; tp2 = padd tp1 adjustment; p3 = p2\<lparr>i_tt := tp2\<rparr>;
               ax = old_size - pdiff tp1 new_base;
               m2 = move_trail distance (unat ax) tp1 tp2 m1 in
           Option.bind (adjust_cf adjustment (stack_base p3) (i_cf p3) m2) (\<lambda>m3.
           Option.bind (adjust_bb adjustment (stack_base p3) (i_bb p3) m3) (\<lambda>m4.
             Some (p3, m4, ecode E_SUCCEED))))))"

definition do_contraction :: "icb \<Rightarrow> store \<Rightarrow> (icb \<times> store \<times> word32) option" where
  "do_contraction p m = Some (p, m, ecode E_SUCCEED)"

definition mmanager :: "gc_env \<Rightarrow> addr \<Rightarrow> icb \<Rightarrow> store \<Rightarrow> (icb \<times> store \<times> word32) option" where
  "mmanager e new_base p m =
     (if status p = IMAGO_COLLECTION then do_collection e p m
      else if status p = IMAGO_EXPANSION then do_expansion new_base p m
      else if status p = IMAGO_CONTRACTION then do_contraction p m
      else Some (p, m, ecode E_ILLEGAL_STATUS))"

section \<open>Copies (creator/creator.c)\<close>

text \<open>The macros cdirect, cadjust and chash; here the words are cast to int* before distance is added.\<close>

primrec c_hash_entries :: "word32 \<Rightarrow> nat \<Rightarrow> addr \<times> addr \<times> store \<Rightarrow> addr \<times> addr \<times> store" where
  "c_hash_entries d 0 x = x"
| "c_hash_entries d (Suc n) x =
     (let (tp1, tp2, m) = x; m1 = m(tp1 := m tp2); m2 = m1(tp1 + 4 := padd (m1 (tp2 + 4)) d)
      in c_hash_entries d n (tp1 + 8, tp2 + 8, m2))"

fun c_action :: "word32 \<Rightarrow> operand_action \<Rightarrow> addr \<times> addr \<times> store \<Rightarrow> addr \<times> addr \<times> store" where
  "c_action d IDIRECT (tp1, tp2, m) = (tp1 + 4, tp2 + 4, m(tp1 := m tp2))"
| "c_action d IADJUST (tp1, tp2, m) = (tp1 + 4, tp2 + 4, m(tp1 := padd (m tp2) d))"
| "c_action d IHASH (tp1, tp2, m) =
     (let m1 = m(tp1 := m tp2); v = m1 (tp2 + 4); m2 = m1(tp1 + 4 := v);
          m3 = m2(tp1 + 8 := padd (m2 (tp2 + 8)) d)
      in c_hash_entries d (unat v) (tp1 + 12, tp2 + 12, m3))"

text \<open>
  The procedure table: the term word is read without advancing, so a pair of the
  copy is made from one word of the original.
\<close>

definition copy_procs :: "word32 \<Rightarrow> addr \<Rightarrow> addr \<Rightarrow> addr \<Rightarrow> store \<Rightarrow> store option" where
  "copy_procs d stop tp1 tp2 m =
     map_option (\<lambda>(tp1, tp2, m). m) (while_option (\<lambda>(tp1, tp2, m). tp1 < stop)
       (\<lambda>(tp1, tp2, m). let m1 = m(tp1 := m tp2); m2 = m1(tp1 + 4 := padd (m1 tp2) d)
                        in (tp1 + 8, tp2 + 4, m2)) (tp1, tp2, m))"

definition copy_instrs :: "word32 \<Rightarrow> addr \<Rightarrow> addr \<Rightarrow> addr \<Rightarrow> store \<Rightarrow> store option" where
  "copy_instrs d stop tp1 tp2 m =
     Option.bind (while_option (\<lambda>r. case r of None \<Rightarrow> False | Some (tp1, tp2, m) \<Rightarrow> tp1 < stop)
         (\<lambda>r. Option.bind r (\<lambda>(tp1, tp2, m). Option.bind (inst_of (m tp2)) (\<lambda>ty.
            Some (fold (c_action d) (adjust_code ty) (tp1, tp2, m))))) (Some (tp1, tp2, m)))
       (map_option (\<lambda>(tp1, tp2, m). m))"

text \<open>The bytes of the name table, as the words that hold them.\<close>

definition get_byte :: "store \<Rightarrow> addr \<Rightarrow> 8 word" where
  "get_byte m p = ucast (drop_bit (8 * unat (p AND 3)) (m (p AND ADR_MASK)))"

definition put_byte :: "addr \<Rightarrow> 8 word \<Rightarrow> store \<Rightarrow> store" where
  "put_byte p b m =
     (let a = p AND ADR_MASK; k = 8 * unat (p AND 3) in
      m(a := (m a AND NOT (push_bit k 255)) OR push_bit k (ucast b)))"

definition copy_names :: "addr \<Rightarrow> addr \<Rightarrow> addr \<Rightarrow> store \<Rightarrow> store option" where
  "copy_names stop cp1 cp2 m =
     map_option (\<lambda>(cp1, cp2, m). m) (while_option (\<lambda>(cp1, cp2, m). cp1 < stop)
       (\<lambda>(cp1, cp2, m). (cp1 + 1, cp2 + 1, put_byte cp1 (get_byte m cp2) m)) (cp1, cp2, m))"

definition copy_word :: "word32 \<Rightarrow> addr \<times> addr \<times> store \<Rightarrow> addr \<times> addr \<times> store" where
  "copy_word d x =
     (let (tp1, tp2, m) = x; v = m tp2 in
      if is_cst v then
        (if is_fvl v
         then (let m1 = m(tp1 := v); m2 = m1(tp1 + 4 := m1 (tp2 + 4)); m3 = m2(tp1 + 8 := m2 (tp2 + 8))
               in (tp1 + 12, tp2 + 12, m3))
         else (tp1 + 4, tp2 + 4, m(tp1 := v)))
      else (tp1 + 4, tp2 + 4, m(tp1 := padd (addr v) d OR tag v)))"

definition copy_stack :: "word32 \<Rightarrow> addr \<Rightarrow> addr \<Rightarrow> addr \<Rightarrow> store \<Rightarrow> store option" where
  "copy_stack d st tp1 tp2 m =
     map_option (\<lambda>(tp1, tp2, m). m) (while_option (\<lambda>(tp1, tp2, m). tp1 \<le> st) (copy_word d) (tp1, tp2, m))"

definition copy_trail :: "word32 \<Rightarrow> addr \<Rightarrow> addr \<Rightarrow> addr \<Rightarrow> store \<Rightarrow> store option" where
  "copy_trail d stop tp1 tp2 m =
     map_option (\<lambda>(tp1, tp2, m). m) (while_option (\<lambda>(tp1, tp2, m). tp1 < stop)
       (\<lambda>(tp1, tp2, m). let v = m (tp2 + 4) in
          (tp1 + 4, tp2 + 4, m(tp1 + 4 := (if is_var v then padd v d else make_str (padd (addr v) d)))))
       (tp1, tp2, m))"

text \<open>cip's block has been allocated; everything else of its layout follows ip's.\<close>

definition clone_layout :: "icb \<Rightarrow> icb \<Rightarrow> icb" where
  "clone_layout ip cip =
     (let d = pdiff (block_base cip) (block_base ip) in
      cip\<lparr>block_ceiling := padd (block_ceiling ip) d, stack_base := padd (stack_base ip) d,
        code_base := padd (code_base ip) d, proc_base := padd (proc_base ip) d,
        name_base := name_base ip + d * 4, name_top := name_top ip + d * 4,
        i_pp := padd (i_pp ip) d, i_af := padd (i_af ip) d, i_cp := padd (i_cp ip) d, i_cf := padd (i_cf ip) d,
        i_st := padd (i_st ip) d, i_bb := padd (i_bb ip) d, i_b0 := padd (i_b0 ip) d, i_gl := padd (i_gl ip) d,
        i_tt := padd (i_tt ip) d\<rparr>)"

definition clone_block :: "icb \<Rightarrow> icb \<Rightarrow> store \<Rightarrow> (icb \<times> store) option" where
  "clone_block ip cip m =
     (let d = pdiff (block_base cip) (block_base ip); c = clone_layout ip cip in
      Option.bind (copy_procs d (code_base c) (proc_base c) (proc_base ip) m) (\<lambda>m1.
      Option.bind (copy_instrs d (name_base c) (code_base c) (code_base ip) m1) (\<lambda>m2.
      Option.bind (copy_names (name_top c) (name_base c) (name_base ip) m2) (\<lambda>m3.
      Option.bind (copy_stack d (i_st c) (stack_base c) (stack_base ip) m3) (\<lambda>m4.
      Option.bind (copy_trail d (block_ceiling c - 4) (i_tt c) (i_tt ip) m4) (\<lambda>m5.
        Some (c, m5)))))))"

text \<open>
  load_system_file, once the prototype bip is found: ss words are added to the
  stack for the argument, tp1 is what malloc returned.
\<close>

definition load_system_file :: "icb \<Rightarrow> word32 \<Rightarrow> addr \<Rightarrow> icb \<Rightarrow> store \<Rightarrow> (icb \<times> store \<times> word32) option" where
  "load_system_file bip ss tp1 cip m =
     (let tp2 = block_base bip; v = INIT_MESSENGER_STACK * STACK_UNIT + pdiff (block_ceiling bip) tp2 + ss in
      if tp1 = 0 then Some (cip, m, ecode E_MEMORY_OUT)
      else
        (let c = cip\<lparr>block_base := tp1, block_ceiling := padd tp1 v, proc_base := tp1,
                   code_base := padd tp1 (pdiff (code_base bip) tp2), name_base := tp1 + (name_base bip - tp2),
                   name_top := tp1 + (name_top bip - tp2), stack_base := padd tp1 (pdiff (block_ceiling bip) tp2)\<rparr>;
             d = pdiff tp1 tp2 in
         Option.bind (copy_procs d (code_base c) (proc_base c) (proc_base bip) m) (\<lambda>m1.
         Option.bind (copy_instrs d (name_base c) (code_base c) (code_base bip) m1) (\<lambda>m2.
         Option.bind (copy_names (name_top c) (name_base c) (name_base bip) m2) (\<lambda>m3.
           let b = stack_base c in
           Some (c\<lparr>itype := MESSENGER, status := IMAGO_READY, expansions := 0, collections := 0,
                   i_pp := code_base c, i_cp := code_base c, i_bb := b, i_b0 := b, i_gl := b, i_cf := b, i_af := b,
                   i_st := b - 4, i_tt := block_ceiling c - 4\<rparr>, m3, ecode E_SUCCEED))))))"

end
