(* ===== verification/MLVM_Memory_Correct.thy ===== *)
theory MLVM_Memory_Correct
  imports MLVM_Memory
begin

text \<open>
  What moving a block does to the terms in it: the copy of a stack is a relocated
  image in which every reference chain ends where the original's ends, relocated.
\<close>

section \<open>Relocated words\<close>

definition reloc :: "word32 \<Rightarrow> word32 \<Rightarrow> word32" where
  "reloc d w = (if is_cst w then w else padd (addr w) d OR tag w)"

text \<open>A boxed double's marker is followed by two words that are not terms.\<close>

fun reloc_words :: "word32 \<Rightarrow> word32 list \<Rightarrow> word32 list" where
  "reloc_words d [] = []"
| "reloc_words d (w # ws) =
     (if is_fvl w then w # take 2 ws @ reloc_words d (drop 2 ws) else reloc d w # reloc_words d ws)"

fun boxed :: "word32 list \<Rightarrow> bool" where
  "boxed [] = True"
| "boxed (w # ws) = (if is_fvl w then 2 \<le> length ws \<and> boxed (drop 2 ws) else boxed ws)"

text \<open>The addresses of the words that are terms.\<close>

fun term_cells :: "addr \<Rightarrow> word32 list \<Rightarrow> addr set" where
  "term_cells a [] = {}"
| "term_cells a (w # ws) =
     insert a (if is_fvl w then term_cells (a + 12) (drop 2 ws) else term_cells (a + 4) ws)"

definition words :: "store \<Rightarrow> addr \<Rightarrow> nat \<Rightarrow> word32 list" where
  "words m a n = map (\<lambda>k. m (a + 4 * of_nat k)) [0..<n]"

definition slots :: "addr \<Rightarrow> nat \<Rightarrow> addr set" where
  "slots a n = (\<lambda>k. a + 4 * of_nat k) ` {..<n}"

lemma words_Suc: "words m a (Suc n) = m a # words m (a + 4) n"
  by (simp add: words_def upt_conv_Cons map_Suc_upt [symmetric] o_def algebra_simps del: upt_Suc)

lemma words_0 [simp]: "words m a 0 = []" by (simp add: words_def)
lemma length_words [simp]: "length (words m a n) = n" by (simp add: words_def)

lemma words_cong: "(\<And>b. b \<in> slots a n \<Longrightarrow> m b = m' b) \<Longrightarrow> words m a n = words m' a n"
  by (auto simp: words_def slots_def)

lemma slots_Suc: "slots a (Suc n) = insert a (slots (a + 4) n)"
proof -
  have "{..<Suc n} = insert 0 (Suc ` {..<n})" by (auto simp: image_iff less_Suc_eq_0_disj)
  thus ?thesis by (simp add: slots_def image_image algebra_simps)
qed

lemma slots_0 [simp]: "slots a 0 = {}" by (simp add: slots_def)

lemma slots_above:
  "unat a + 4 * n < 2 ^ 32 \<Longrightarrow> b \<in> slots a n \<Longrightarrow> unat a \<le> unat b \<and> unat b < unat a + 4 * n"
proof -
  assume a: "unat a + 4 * n < 2 ^ 32" and "b \<in> slots a n"
  then obtain k where k: "k < n" "b = a + 4 * of_nat k" by (auto simp: slots_def)
  have "4 * of_nat k = (of_nat (4 * k) :: word32)" by simp
  hence "unat b = unat a + 4 * k" using k a unat_add_lt [of a "4 * k"] by simp
  thus ?thesis using k(1) by simp
qed

section \<open>Tags of relocated words\<close>

lemma tag_padd: "tag (padd p d) = tag p"
proof -
  have "unat (p + 4 * d) mod 4 = unat p mod 4"
  proof -
    have "unat (p + 4 * d) = (unat p + 4 * unat d mod 2 ^ 32) mod 2 ^ 32"
      by (simp add: unat_word_ariths)
    also have "\<dots> mod 4 = (unat p + 4 * unat d mod 2 ^ 32) mod 4" by (rule mod_mod_cancel) simp
    also have "\<dots> = (unat p + 4 * unat d mod 2 ^ 32 mod 4) mod 4" by (rule mod_add_right_eq [symmetric])
    also have "4 * unat d mod 2 ^ 32 mod 4 = 4 * unat d mod (4 :: nat)" by (rule mod_mod_cancel) simp
    finally show ?thesis by simp
  qed
  hence "unat (tag (p + 4 * d)) = unat (tag p)"
    by (simp add: tag_take_bit unsigned_take_bit_eq take_bit_eq_mod unat_mod)
  thus ?thesis by (simp add: word_unat_eq_iff)
qed

lemma tag_addr: "tag (addr w) = 0"
  by (rule bit_word_eqI) (auto simp: tag_def addr_def bit_simps ADR_MASK_not)

lemma var_addr: "is_var w \<Longrightarrow> addr w = w"
  using addr_or_tag [of w] by (simp add: is_var_def REF_TAG_def)

lemma tag_reloc: "tag (reloc d w) = tag w"
proof (cases "is_cst w")
  case False
  have "tag (x OR y) = tag x OR tag y" for x y by (simp add: tag_def bit.conj_disj_distrib2)
  moreover have "tag (tag w) = tag w" by (simp add: tag_def and.assoc)
  ultimately have "tag (padd (addr w) d OR tag w) = tag w" by (simp add: tag_padd tag_addr)
  thus ?thesis using False by (simp add: reloc_def)
qed (simp add: reloc_def)

lemma reloc_var: "is_var w \<Longrightarrow> reloc d w = padd w d"
  by (auto simp: reloc_def is_cst_def is_var_def var_addr tag_consts)

lemma is_var_reloc [simp]: "is_var (reloc d w) = is_var w" by (simp add: is_var_def tag_reloc)

lemma reloc_fixed: "is_var x \<Longrightarrow> (reloc d x = reloc d y) = (x = y)"
proof (cases "is_var y")
  case True
  moreover assume "is_var x"
  ultimately show ?thesis by (simp add: reloc_var)
next
  case False
  moreover assume "is_var x"
  ultimately show ?thesis using is_var_reloc by metis
qed

section \<open>The scan of the stack\<close>

lemma slots_split: "slots a (j + n) = slots a j \<union> slots (a + 4 * of_nat j) n"
proof (induction j arbitrary: a)
  case (Suc j)
  show ?case using Suc.IH [of "a + 4"] by (simp add: slots_Suc algebra_simps)
qed simp

lemma words_append: "words m a (j + n) = words m a j @ words m (a + 4 * of_nat j) n"
proof (induction j arbitrary: a)
  case (Suc j)
  show ?case using Suc.IH [of "a + 4"] by (simp add: words_Suc algebra_simps)
qed simp

lemma slots_apart:
  assumes "unat a + 4 * (j + n) < 2 ^ 32"
  shows "slots a j \<inter> slots (a + 4 * of_nat j) n = {}"
proof -
  have u: "unat (a + 4 * of_nat j) = unat a + 4 * j"
    using unat_add_lt [of a "4 * j"] assms by simp
  show ?thesis using slots_above [of a j] slots_above [of "a + 4 * of_nat j" n] assms u by fastforce
qed

text \<open>One turn of the loop: j words are copied, relocated as rs.\<close>

lemma copy_stack_turn:
  assumes "copy_word d (tp1, tp2, m) = (tp1 + 4 * of_nat j, tp2 + 4 * of_nat j, m1)"
    and "words m1 tp1 j = rs" "\<forall>a. a \<notin> slots tp1 j \<longrightarrow> m1 a = m a" "tp1 \<le> st"
    and "unat tp1 + 4 * (j + n) < 2 ^ 32"
    and "while_option (\<lambda>(tp1, tp2, m). tp1 \<le> st) (copy_word d) (tp1 + 4 * of_nat j, tp2 + 4 * of_nat j, m1) = Some (e1, e2, m')"
    and "words m' (tp1 + 4 * of_nat j) n = qs" "\<forall>a. a \<notin> slots (tp1 + 4 * of_nat j) n \<longrightarrow> m' a = m1 a"
  shows "while_option (\<lambda>(tp1, tp2, m). tp1 \<le> st) (copy_word d) (tp1, tp2, m) = Some (e1, e2, m')
    \<and> words m' tp1 (j + n) = rs @ qs \<and> (\<forall>a. a \<notin> slots tp1 (j + n) \<longrightarrow> m' a = m a)"
proof -
  have "words m' tp1 j = words m1 tp1 j"
    using slots_apart [OF assms(5)] assms(8) by (intro words_cong) blast
  hence "words m' tp1 (j + n) = rs @ qs" using assms(2,7) by (simp add: words_append)
  moreover have "\<forall>a. a \<notin> slots tp1 (j + n) \<longrightarrow> m' a = m a" using assms(3,8) by (simp add: slots_split)
  moreover have "while_option (\<lambda>(tp1, tp2, m). tp1 \<le> st) (copy_word d) (tp1, tp2, m) = Some (e1, e2, m')"
    using assms(1,4,6) by (subst while_option_step) simp_all
  ultimately show ?thesis by blast
qed

lemma copy_stack_loop:
  assumes "ws = words m tp2 n" "boxed ws" "4 \<le> unat tp1"
    and "unat tp1 + 4 * n < 2 ^ 32" "slots tp1 n \<inter> slots tp2 n = {}" "st = tp1 + 4 * of_nat n - 4"
  shows "\<exists>m'. while_option (\<lambda>(tp1, tp2, m). tp1 \<le> st) (copy_word d) (tp1, tp2, m)
            = Some (tp1 + 4 * of_nat n, tp2 + 4 * of_nat n, m')
      \<and> words m' tp1 n = reloc_words d ws \<and> (\<forall>a. a \<notin> slots tp1 n \<longrightarrow> m' a = m a)"
  using assms
proof (induction ws arbitrary: n tp1 tp2 m rule: boxed.induct)
  case 1
  hence n: "n = 0" by (metis list.size(3) length_words)
  have "unat (tp1 - 4) = unat tp1 - 4" using 1(3) by (simp add: unat_sub word_le_nat_alt)
  hence "\<not> tp1 \<le> tp1 - 4" using 1(3) by (simp add: word_le_nat_alt)
  thus ?case using 1(6) n by (simp add: while_option_unfold)
next
  case (2 w ws)
  obtain k where n: "n = Suc k" using 2(3) by (cases n) auto
  have w: "w = m tp2" "ws = words m (tp2 + 4) k" using 2(3) by (simp_all add: n words_Suc)
  have e: "unat (tp1 + 4 * of_nat n - 4) = unat tp1 + 4 * k"
    using unat_add_lt [of tp1 "4 * k"] 2(6) by (simp add: n algebra_simps)
  have le: "tp1 \<le> st" using e 2(8) by (simp add: word_le_nat_alt)
  show ?case
  proof (cases "is_fvl w")
    case True
    have "2 \<le> k" using 2(4) True w(2) by simp
    then obtain q where k: "k = 2 + q" using le_Suc_ex by blast
    have n3: "n = 3 + q" using n k by simp
    have s3: "slots tp1 3 = {tp1, tp1 + 4, tp1 + 8}" "slots tp2 3 = {tp2, tp2 + 4, tp2 + 8}"
      by (simp_all add: numeral_3_eq_3 slots_Suc add.commute)
    have dj: "slots tp1 3 \<inter> slots tp2 (3 + q) = {}" "slots (tp1 + 4 * of_nat 3) q \<inter> slots (tp2 + 4 * of_nat 3) q = {}"
      "slots tp1 3 \<inter> slots (tp2 + 4 * of_nat 3) q = {}"
      using 2(7) unfolding n3 slots_split [of _ 3 q] by blast+
    let ?m = "m(tp1 := w, tp1 + 4 := m (tp2 + 4), tp1 + 8 := m (tp2 + 8))"
    have ne: "tp2 + 4 \<noteq> tp1" "tp2 + 8 \<noteq> tp1" "tp2 + 8 \<noteq> tp1 + 4"
      using dj(1) unfolding s3 slots_split [of tp2 3 q] by auto
    have c: "is_cst w" using True by (simp add: is_fvl_def is_cst_def tag_def tag_consts)
    have cw: "copy_word d (tp1, tp2, m) = (tp1 + 4 * of_nat 3, tp2 + 4 * of_nat 3, ?m)"
      using True c w(1) ne by (simp add: copy_word_def Let_def)
    have ws3: "drop 2 ws = words m (tp2 + 4 * of_nat 3) q" "take 2 ws = [m (tp2 + 4), m (tp2 + 8)]"
      unfolding w(2) k by (simp_all add: numeral_2_eq_2 words_Suc algebra_simps)
    have "words m (tp2 + 4 * of_nat 3) q = words ?m (tp2 + 4 * of_nat 3) q"
      using dj(3) unfolding s3 by (intro words_cong) auto
    hence d: "drop 2 ws = words ?m (tp2 + 4 * of_nat 3) q" using ws3 by simp
    have u: "unat (tp1 + 4 * of_nat 3) = unat tp1 + 12" using unat_add_lt [of tp1 12] 2(6) n3 by simp
    have st: "st = tp1 + 4 * of_nat 3 + 4 * of_nat q - 4" using 2(8) n3 by (simp add: algebra_simps)
    have b: "boxed (drop 2 ws)" using 2(4) True by simp
    have "4 \<le> unat (tp1 + 4 * of_nat 3)" "unat (tp1 + 4 * of_nat 3) + 4 * q < 2 ^ 32" using u 2(6) n3 by simp_all
    from 2(1) [OF True d b this dj(2) st] obtain m' where IH:
      "while_option (\<lambda>(tp1, tp2, m). tp1 \<le> st) (copy_word d) (tp1 + 4 * of_nat 3, tp2 + 4 * of_nat 3, ?m)
         = Some (tp1 + 4 * of_nat 3 + 4 * of_nat q, tp2 + 4 * of_nat 3 + 4 * of_nat q, m')"
      "words m' (tp1 + 4 * of_nat 3) q = reloc_words d (drop 2 ws)"
      "\<forall>a. a \<notin> slots (tp1 + 4 * of_nat 3) q \<longrightarrow> m' a = ?m a" by blast
    have w3: "words ?m tp1 3 = w # take 2 ws" unfolding ws3 by (simp add: numeral_3_eq_3 words_Suc)
    have o: "\<forall>a. a \<notin> slots tp1 3 \<longrightarrow> ?m a = m a" unfolding s3 by simp
    have E: "x + 4 * of_nat 3 + 4 * of_nat q = x + 4 * of_nat (3 + q)" for x :: addr by (simp add: algebra_simps)
    have R: "reloc_words d (w # ws) = (w # take 2 ws) @ reloc_words d (drop 2 ws)" using True by simp
    have "unat tp1 + 4 * (3 + q) < 2 ^ 32" using 2(6) n3 by simp
    from copy_stack_turn [OF cw w3 o le this IH] show ?thesis unfolding E R n3 by blast
  next
    case False
    let ?m = "m(tp1 := reloc d w)"
    have n1: "n = 1 + k" using n by simp
    have s1: "slots tp1 1 = {tp1}" by (simp add: slots_def lessThan_Suc)
    have dj: "slots (tp1 + 4 * of_nat 1) k \<inter> slots (tp2 + 4 * of_nat 1) k = {}" "tp1 \<notin> slots (tp2 + 4 * of_nat 1) k"
      using 2(7) s1 unfolding n1 slots_split [of _ 1 k] by blast+
    have cw: "copy_word d (tp1, tp2, m) = (tp1 + 4 * of_nat 1, tp2 + 4 * of_nat 1, ?m)"
      using False w(1) by (simp add: copy_word_def reloc_def Let_def)
    have d: "ws = words ?m (tp2 + 4 * of_nat 1) k"
      unfolding w(2) using dj(2) by (auto intro!: words_cong)
    have u: "unat (tp1 + 4 * of_nat 1) = unat tp1 + 4" using unat_add_lt [of tp1 4] 2(6) n1 by simp
    have st: "st = tp1 + 4 * of_nat 1 + 4 * of_nat k - 4" using 2(8) n1 by (simp add: algebra_simps)
    have b: "boxed ws" using 2(4) False by simp
    have "4 \<le> unat (tp1 + 4 * of_nat 1)" "unat (tp1 + 4 * of_nat 1) + 4 * k < 2 ^ 32" using u 2(6) n1 by simp_all
    from 2(2) [OF False d b this dj(1) st] obtain m' where IH:
      "while_option (\<lambda>(tp1, tp2, m). tp1 \<le> st) (copy_word d) (tp1 + 4 * of_nat 1, tp2 + 4 * of_nat 1, ?m)
         = Some (tp1 + 4 * of_nat 1 + 4 * of_nat k, tp2 + 4 * of_nat 1 + 4 * of_nat k, m')"
      "words m' (tp1 + 4 * of_nat 1) k = reloc_words d ws"
      "\<forall>a. a \<notin> slots (tp1 + 4 * of_nat 1) k \<longrightarrow> m' a = ?m a" by blast
    have w1: "words ?m tp1 1 = [reloc d w]" by (simp add: words_def)
    have o: "\<forall>a. a \<notin> slots tp1 1 \<longrightarrow> ?m a = m a" unfolding s1 by simp
    have E: "x + 4 * of_nat 1 + 4 * of_nat k = x + 4 * of_nat (1 + k)" for x :: addr by (simp add: algebra_simps)
    have R: "reloc_words d (w # ws) = [reloc d w] @ reloc_words d ws" using False by simp
    have "unat tp1 + 4 * (1 + k) < 2 ^ 32" using 2(6) n1 by simp
    from copy_stack_turn [OF cw w1 o le this IH] show ?thesis unfolding E R n1 by blast
  qed
qed

section \<open>The copy as a relocated image\<close>

text \<open>x leads to y through references that lie in T.\<close>

inductive ref_chain :: "store \<Rightarrow> addr set \<Rightarrow> word32 \<Rightarrow> word32 \<Rightarrow> bool" for m T where
  ends: "\<not> is_var x \<or> x \<in> T \<and> m x = x \<Longrightarrow> ref_chain m T x x"
| link: "is_var x \<Longrightarrow> x \<in> T \<Longrightarrow> m x \<noteq> x \<Longrightarrow> ref_chain m T (m x) y \<Longrightarrow> ref_chain m T x y"

text \<open>Stores that agree, relocated, on the cells of T.\<close>

lemma chain_reloc:
  assumes "\<And>a. a \<in> T \<Longrightarrow> m' (padd a d) = reloc d (m a)"
  shows "ref_chain m T x y \<Longrightarrow> deref_word m x = Some y \<and> deref_word m' (reloc d x) = Some (reloc d y)"
proof (induction rule: ref_chain.induct)
  case (ends x)
  have "m' (reloc d x) = reloc d x" if "is_var x" using ends that assms [of x] by (simp add: reloc_var)
  thus ?case using ends by (auto simp: deref_word_def while_option_done)
next
  case (link x y)
  have r: "m' (reloc d x) = reloc d (m x)" "reloc d x \<noteq> reloc d (m x)"
    using link assms [OF link(2)] reloc_fixed [OF link(1), of d "m x"] by (simp_all add: reloc_var)
  have "deref_word m x = deref_word m (m x)" "deref_word m' (reloc d x) = deref_word m' (m' (reloc d x))"
    unfolding deref_word_def using link(1,3) r by (subst while_option_step; auto)+
  thus ?case using link.IH r(1) by simp
qed

lemma term_cells_slots: "ws = words m a n \<Longrightarrow> boxed ws \<Longrightarrow> term_cells a ws \<subseteq> slots a n"
proof (induction ws arbitrary: a n rule: boxed.induct)
  case (2 w ws)
  obtain k where n: "n = Suc k" using 2(3) by (cases n) auto
  have w: "ws = words m (a + 4) k" using 2(3) by (simp add: n words_Suc)
  show ?case
  proof (cases "is_fvl w")
    case True
    have "2 \<le> k" using 2(4) True w by simp
    then obtain q where k: "k = 2 + q" using le_Suc_ex by blast
    have "drop 2 ws = words m (a + 12) q" unfolding w k
      by (simp add: numeral_2_eq_2 words_Suc algebra_simps)
    from 2(1) [OF True this] 2(4) True have "term_cells (a + 12) (drop 2 ws) \<subseteq> slots (a + 12) q" by simp
    moreover have "slots a n = insert a (insert (a + 4) (insert (a + 8) (slots (a + 12) q)))"
      unfolding n k by (simp add: numeral_2_eq_2 slots_Suc algebra_simps)
    ultimately show ?thesis using True by auto
  next
    case False
    from 2(2) [OF False w] 2(4) False show ?thesis by (auto simp: n slots_Suc)
  qed
qed simp

lemma reloc_words_cells:
  "ws = words m a n \<Longrightarrow> boxed ws \<Longrightarrow> words m' (padd a d) n = reloc_words d ws \<Longrightarrow> b \<in> term_cells a ws \<Longrightarrow>
     m' (padd b d) = reloc d (m b)"
proof (induction ws arbitrary: a n rule: boxed.induct)
  case (2 w ws)
  obtain k where n: "n = Suc k" using 2(3) by (cases n) auto
  have w: "w = m a" "ws = words m (a + 4) k" using 2(3) by (simp_all add: n words_Suc)
  show ?case
  proof (cases "is_fvl w")
    case True
    have "2 \<le> k" using 2(4) True w by simp
    then obtain q where k: "k = 2 + q" using le_Suc_ex by blast
    have n3: "n = 3 + q" using n k by simp
    have ws: "drop 2 ws = words m (a + 12) q" "length (take 2 ws) = 2" unfolding w k
      by (simp_all add: numeral_2_eq_2 words_Suc algebra_simps)
    have "words m' (padd a d) n = words m' (padd a d) 3 @ words m' (padd a d + 12) q"
      using words_append [of m' "padd a d" 3 q] n3 by simp
    hence "words m' (padd a d) 3 @ words m' (padd (a + 12) d) q = (w # take 2 ws) @ reloc_words d (drop 2 ws)"
      using 2(5) True by (simp add: algebra_simps)
    hence e: "words m' (padd a d) 3 = w # take 2 ws" "words m' (padd (a + 12) d) q = reloc_words d (drop 2 ws)"
      using ws(2) append_eq_append_conv [of "words m' (padd a d) 3" "w # take 2 ws"] by simp_all
    have "m' (padd a d) = w" using e(1) by (simp add: numeral_3_eq_3 words_Suc)
    moreover have "reloc d w = w" using True by (simp add: is_fvl_def reloc_def is_cst_def tag_def tag_consts)
    ultimately show ?thesis using 2(1) [OF True ws(1) _ e(2)] 2(4,6) True w(1) by auto
  next
    case False
    have e: "m' (padd a d) = reloc d w" "words m' (padd (a + 4) d) k = reloc_words d ws"
      using 2(5) False by (simp_all add: n words_Suc algebra_simps)
    show ?thesis using 2(2) [OF False w(2) _ e(2)] 2(4,6) False w(1) e(1) by auto
  qed
qed simp

section \<open>Properties\<close>

text \<open>
  Claim C5.  Cloning relocates the stack.  The scan of clone_block ends at the stack
  top, whatever mixture of terms, boxed doubles and control frames the stack holds, and
  writes the new stack only.  Every constant and every double is copied; every other
  word, the references, lists and structures and the pointers that control frames hold
  to code, frames and the trail, is moved by the distance of the blocks and keeps its
  tag.  In the copy each chain of references that stays in the words of the stack ends
  where the chain of the original ends, relocated.
\<close>

theorem clone_stack_isomorphic:
  assumes "ws = words m tp2 n" "boxed ws" "4 \<le> unat tp1" "unat tp1 + 4 * n < 2 ^ 32"
    and "tp1 = padd tp2 d" "slots tp1 n \<inter> slots tp2 n = {}"
  shows "\<exists>m'. copy_stack d (tp1 + 4 * of_nat n - 4) tp1 tp2 m = Some m'
    \<and> words m' tp1 n = reloc_words d ws \<and> (\<forall>a. a \<notin> slots tp1 n \<longrightarrow> m' a = m a)
    \<and> (\<forall>a\<in>term_cells tp2 ws. m' (padd a d) = (if is_cst (m a) then m a else padd (addr (m a)) d OR tag (m a)))
    \<and> (\<forall>x y. ref_chain m (term_cells tp2 ws) x y \<longrightarrow>
          deref_word m x = Some y \<and> deref_word m' (reloc d x) = Some (reloc d y))"
proof -
  obtain m' where m': "while_option (\<lambda>(tp1', tp2, m). tp1' \<le> tp1 + 4 * of_nat n - 4) (copy_word d) (tp1, tp2, m)
        = Some (tp1 + 4 * of_nat n, tp2 + 4 * of_nat n, m')"
    "words m' tp1 n = reloc_words d ws" "\<forall>a. a \<notin> slots tp1 n \<longrightarrow> m' a = m a"
    using copy_stack_loop [OF assms(1-4,6) refl, of d] by blast
  have "copy_stack d (tp1 + 4 * of_nat n - 4) tp1 tp2 m = Some m'" using m'(1) by (simp add: copy_stack_def)
  moreover have r: "m' (padd a d) = reloc d (m a)" if "a \<in> term_cells tp2 ws" for a
    by (rule reloc_words_cells [OF assms(1,2) _ that]) (use m'(2) assms(5) in simp)
  moreover note chain_reloc [of "term_cells tp2 ws" m' d m, OF r]
  ultimately show ?thesis using m'(2,3) unfolding reloc_def by blast
qed

text \<open>A stack with a reference to an integer, a boxed double, an atom and a continuation at code address 400.\<close>

definition demo_stack :: store where
  "demo_stack = (\<lambda>_. 0)(1000 := 1004, 1004 := make_int 5, 1008 := FVL_TAG, 1012 := 8, 1016 := 12, 1020 := 7, 1024 := 400)"

lemma demo_stack_words: "words demo_stack 1000 7 = [1004, make_int 5, FVL_TAG, 8, 12, 7, 400]"
  by (simp add: words_def demo_stack_def upt_rec)

theorem clone_stack_isomorphic_witness:
  "\<exists>m'. copy_stack 250 2024 2000 1000 demo_stack = Some m'
     \<and> words m' 2000 7 = [2004, make_int 5, FVL_TAG, 8, 12, 7, 1400]
     \<and> deref_word demo_stack 1000 = Some (make_int 5) \<and> deref_word m' 2000 = Some (make_int 5)"
proof -
  let ?ws = "words demo_stack 1000 7"
  have f: "\<not> is_fvl 1004" "\<not> is_fvl (make_int 5)" "is_fvl FVL_TAG" "\<not> is_fvl 7" "\<not> is_fvl 400"
    by (simp_all add: is_fvl_def make_int_def tag_consts)
  have b: "boxed ?ws" unfolding demo_stack_words using f by simp
  have t: "term_cells 1000 ?ws = {1000, 1004, 1008, 1020, 1024}" unfolding demo_stack_words using f by simp
  have "ref_chain demo_stack {1000, 1004, 1008, 1020, 1024} (make_int 5) (make_int 5)"
    by (rule ref_chain.ends) (simp add: is_var_def tag_def make_int_def tag_consts)
  hence "ref_chain demo_stack {1000, 1004, 1008, 1020, 1024} 1004 (make_int 5)"
    by (intro ref_chain.link [of 1004]) (simp_all add: demo_stack_def is_var_def tag_def make_int_def tag_consts)
  hence v: "ref_chain demo_stack (term_cells 1000 ?ws) 1000 (make_int 5)"
    unfolding t by (intro ref_chain.link [of 1000]) (simp_all add: demo_stack_def is_var_def tag_def tag_consts)
  have s: "slots 2000 7 \<inter> slots 1000 7 = {}"
  proof (rule ccontr)
    assume "slots 2000 7 \<inter> slots 1000 7 \<noteq> ({} :: addr set)"
    then obtain b :: addr where "b \<in> slots 2000 7" "b \<in> slots 1000 7" by blast
    hence "2000 \<le> unat b" "unat b < 1028" using slots_above [of 2000 7 b] slots_above [of 1000 7 b] by simp_all
    thus False by simp
  qed
  have r: "reloc_words 250 ?ws = [2004, make_int 5, FVL_TAG, 8, 12, 7, 1400]" "reloc 250 1000 = 2000"
    "reloc 250 (make_int 5) = make_int 5"
    unfolding demo_stack_words using f
    by (simp_all add: reloc_def is_cst_def tag_def addr_def make_int_def tag_consts)
  have e: "(2000 :: word32) + 4 * of_nat 7 - 4 = 2024" "4 \<le> unat (2000 :: word32)"
    "unat (2000 :: word32) + 4 * 7 < 2 ^ 32" "(2000 :: word32) = padd 1000 250" by simp_all
  from clone_stack_isomorphic [OF refl b e(2,3,4) s] obtain m' where m':
    "copy_stack 250 2024 2000 1000 demo_stack = Some m'" "words m' 2000 7 = reloc_words 250 ?ws"
    "\<forall>x y. ref_chain demo_stack (term_cells 1000 ?ws) x y \<longrightarrow>
        deref_word demo_stack x = Some y \<and> deref_word m' (reloc 250 x) = Some (reloc 250 y)"
    unfolding e(1) by blast
  have "deref_word demo_stack 1000 = Some (make_int 5) \<and> deref_word m' 2000 = Some (make_int 5)"
    using m'(3) [rule_format, OF v] unfolding r(2,3) .
  thus ?thesis using m'(1,2) unfolding r(1) by blast
qed

end
