(* ===== verification/MLVM_Collect_Scan.thy ===== *)
theory MLVM_Collect_Scan
  imports MLVM_Collect MLVM_Unify
begin

text \<open>
  The scan of the collector: an invariant that says for every word of the buffer
  which word of the collected area it stands for, kept by every step.
\<close>

section \<open>The buffer and the area\<close>

abbreviation copied :: "gc \<Rightarrow> nat \<Rightarrow> addr" where "copied g i \<equiv> slot (g_copy g) i"
abbreviation home :: "gc \<Rightarrow> nat \<Rightarrow> addr" where "home g i \<equiv> slot (g_cline g) i"

text \<open>lim words of the buffer may be used; they are apart from the stack.\<close>

definition gc_layout :: "gc \<Rightarrow> nat \<Rightarrow> bool" where
  "gc_layout g lim =
     (is_var (g_copy g) \<and> is_var (g_cline g) \<and> g_bottom g \<le> g_cline g \<and> g_cline g \<le> g_st g
      \<and> unat (g_copy g) + 4 * lim < 2 ^ 32 \<and> unat (g_cline g) + 4 * lim < 2 ^ 32
      \<and> (g_st g < g_copy g \<or> unat (g_copy g) + 4 * lim \<le> unat (g_bottom g)))"

lemma tag_slot [simp]: "tag (slot p j) = tag p"
proof (induction j)
  case (Suc j)
  have "slot p (Suc j) = slot p j + 4" by simp
  thus ?case using Suc tag_add4 by metis
qed simp

lemma is_var_slot [simp]: "is_var (slot p j) = is_var p" by (simp add: is_var_def)

lemma four_sdrop: "4 * signed_drop_bit 2 (x :: word32) = x AND ADR_MASK"
proof (rule bit_word_eqI, goal_cases)
  case (1 n)
  have e: "4 * signed_drop_bit 2 x = push_bit 2 (signed_drop_bit 2 x)" by (simp add: push_bit_eq_mult)
  have m: "ADR_MASK = NOT (mask 2)" by (simp add: ADR_MASK_not TG2_MASK_def masks_as_mask)
  show ?case
  proof (cases "2 \<le> n")
    case True
    then obtain k where "n = Suc (Suc k)" by (metis Suc_diff_le diff_diff_cancel le_add_diff_inverse2 add_2_eq_Suc')
    thus ?thesis using 1 unfolding e m by (auto simp: bit_simps)
  next
    case False
    thus ?thesis using 1 unfolding e m by (auto simp: bit_simps)
  qed
qed

lemma tagged: "is_var p \<Longrightarrow> tag p = 0" by (simp add: is_var_def REF_TAG_def)

lemmas addr_var = make_tagged(5) [OF tagged]
lemmas addr_make = make_tagged(1-4) [OF tagged]

lemma dest_copied: "is_var (g_copy g) \<Longrightarrow> dest g (copied g j) = home g j"
proof -
  have "is_var (4 * of_nat j :: word32)"
    using is_var_slot [of 0 j] by (simp add: slot_def is_var_def tag_def REF_TAG_def)
  hence "(4 * of_nat j :: word32) AND ADR_MASK = 4 * of_nat j" using addr_var by (simp add: addr_def)
  thus ?thesis by (simp add: dest_def pdiff_def slot_def four_sdrop)
qed

lemma copied_inj: "gc_layout g lim \<Longrightarrow> i \<le> lim \<Longrightarrow> j \<le> lim \<Longrightarrow> (copied g i = copied g j) = (i = j)"
  by (rule slot_inj) (auto simp: gc_layout_def)

lemma unat_copied: "gc_layout g lim \<Longrightarrow> i \<le> lim \<Longrightarrow> unat (copied g i) = unat (g_copy g) + 4 * i"
  by (rule unat_slot) (simp add: gc_layout_def)

lemma copied_apart:
  assumes "gc_layout g lim" "i < lim"
  shows "\<not> hit_old g (copied g i)" "\<not> hit_mid g (copied g i)"
  using assms unat_copied [OF assms(1), of i]
  by (auto simp: gc_layout_def hit_old_def hit_mid_def word_less_nat_alt word_le_nat_alt)

lemma hit_copied: "gc_layout g lim \<Longrightarrow> i < n \<Longrightarrow> n \<le> lim \<Longrightarrow> hit_copied_var g (copied g n) (copied g i)"
  using unat_copied [of g lim i] unat_copied [of g lim n]
  by (auto simp: hit_copied_var_def word_less_nat_alt word_le_nat_alt)

lemma not_hit_copied:
  assumes "gc_layout g lim" "n \<le> lim" "hit_old g x \<or> hit_mid g x"
  shows "\<not> hit_copied_var g (copied g n) x"
  using assms unat_copied [OF assms(1,2)]
  by (auto simp: gc_layout_def hit_old_def hit_mid_def hit_copied_var_def word_less_nat_alt word_le_nat_alt)

lemma old_not_mid: "hit_old g x \<Longrightarrow> \<not> hit_mid g x" by (auto simp: hit_old_def hit_mid_def)

section \<open>Reference chains\<close>

text \<open>Where a reference chain leaves the area: at a term, an old cell or an unbound cell.\<close>

definition stops :: "gc \<Rightarrow> store \<Rightarrow> word32 \<Rightarrow> bool" where
  "stops g u w = (\<not> is_var w \<or> hit_old g w \<or> u w = w)"

inductive trace :: "gc \<Rightarrow> store \<Rightarrow> nat \<Rightarrow> word32 \<Rightarrow> word32 \<Rightarrow> bool" for g u where
  none: "trace g u 0 w w"
| hop: "\<not> stops g u w \<Longrightarrow> trace g u k (u w) x \<Longrightarrow> trace g u (Suc k) w x"

inductive_cases traceE: "trace g u k w x"

lemma trace_Suc: "trace g u (Suc k) w x = (\<not> stops g u w \<and> trace g u k (u w) x)"
  by (auto elim: traceE intro: trace.intros)

lemma trace_0 [simp]: "trace g u 0 w x = (w = x)"
  by (auto elim: traceE intro: trace.intros)

lemma trace_snoc: "trace g u k w a \<Longrightarrow> \<not> stops g u a \<Longrightarrow> trace g u (Suc k) w (u a)"
  by (induction rule: trace.induct) (auto simp: trace_Suc)

lemma trace_det:
  "trace g u k w a \<Longrightarrow> trace g u l w x \<Longrightarrow> stops g u x \<Longrightarrow> k \<le> l \<and> trace g u (l - k) a x"
proof (induction arbitrary: l rule: trace.induct)
  case (hop w k a)
  obtain l' where l: "l = Suc l'" using hop.prems hop.hyps(1) by (cases l) auto
  thus ?case using hop.IH [of l'] hop.prems by (simp add: trace_Suc)
qed simp

definition trace_end :: "gc \<Rightarrow> store \<Rightarrow> nat \<Rightarrow> word32 \<Rightarrow> word32 \<Rightarrow> bool" where
  "trace_end g u k w x = (trace g u k w x \<and> stops g u x)"

section \<open>Words the collector can follow\<close>

text \<open>Lists and structures do not cross the line; no boxed double lies above it.\<close>

definition sided :: "gc \<Rightarrow> store \<Rightarrow> word32 \<Rightarrow> bool" where
  "sided g m w =
     ((is_list w \<longrightarrow> hit_old g (addr w) = hit_old g (addr w + 4))
      \<and> (is_str w \<longrightarrow> (hit_old g (addr w) \<or> hit_mid g (addr w))
          \<and> (if m (addr w) = FVL_TAG
             then hit_old g (addr w) \<and> hit_old g (addr w + 4) \<and> hit_old g (addr w + 8)
             else is_cst (m (addr w))
               \<and> (\<forall>k\<in>{1..unat (arity (m (addr w)))}. hit_old g (slot (addr w) k) = hit_old g (addr w)))))"

definition good_word :: "gc \<Rightarrow> addr set \<Rightarrow> store \<Rightarrow> word32 \<Rightarrow> bool" where
  "good_word g L m w = (wf_word L (g_st g) m w \<and> sided g m w)"

text \<open>What the scan uses of a well-formed word; L is the set of term cells, as in MLVM_Unify.\<close>

definition gc_word :: "gc \<Rightarrow> addr set \<Rightarrow> store \<Rightarrow> word32 \<Rightarrow> bool" where
  "gc_word g L u w =
     (good_word g L u w \<and> (is_var w \<longrightarrow> w \<in> L)
      \<and> (is_list w \<longrightarrow> addr w \<in> L \<and> addr w + 4 \<in> L \<and> hit_old g (addr w) = hit_old g (addr w + 4))
      \<and> (is_str w \<longrightarrow> addr w \<notin> L \<and> (hit_old g (addr w) \<or> hit_mid g (addr w) \<and>
            is_cst (u (addr w)) \<and> u (addr w) \<noteq> FVL_TAG \<and> 1 \<le> unat (arity (u (addr w))) \<and>
            (\<forall>k\<in>{1..unat (arity (u (addr w)))}. slot (addr w) k \<in> L \<and> hit_mid g (slot (addr w) k)))))"

definition gc_heap :: "gc \<Rightarrow> addr set \<Rightarrow> store \<Rightarrow> bool" where
  "gc_heap g L u =
     ((\<forall>a\<in>L. is_var a \<and> (hit_old g a \<or> hit_mid g a))
      \<and> (\<forall>a\<in>L. hit_mid g a \<longrightarrow> gc_word g L u (u a) \<and> (\<exists>k x. trace_end g u k a x)))"

section \<open>What the words of the buffer stand for\<close>

text \<open>
  A word of the buffer stands for a word of the area: taken from its cell (Prim),
  taken when the cell had been forwarded already (Alias), or a functor (Func).
\<close>

datatype origin = Prim | Alias | Func

type_synonym origins = "(origin \<times> word32) list"

abbreviation term_at :: "origins \<Rightarrow> nat \<Rightarrow> word32 \<Rightarrow> bool" where
  "term_at os i w \<equiv> i < length os \<and> fst (os ! i) \<noteq> Func \<and> snd (os ! i) = w"

definition str_at :: "store \<Rightarrow> origins \<Rightarrow> nat \<Rightarrow> addr \<Rightarrow> bool" where
  "str_at u os j a = (j < length os \<and> os ! j = (Func, u a)
     \<and> (\<forall>k\<in>{1..unat (arity (u a))}. term_at os (j + k) (u (slot a k))))"

text \<open>Cell a of the area is forwarded to word i: as an unbound cell, as the tail of a list, or as a functor.\<close>

definition fwd :: "gc \<Rightarrow> addr set \<Rightarrow> store \<Rightarrow> origins \<Rightarrow> nat \<Rightarrow> store \<Rightarrow> addr \<Rightarrow> nat \<Rightarrow> bool" where
  "fwd g L u os s m a i =
     (if a \<in> L
      then i < length os \<and> fst (os ! i) \<noteq> Func \<and> (u a = a \<and> i < s \<longrightarrow> m (copied g i) = home g i)
        \<and> (u a = a \<and> i < s \<and> (\<exists>k. trace g u k (snd (os ! i)) a) \<or> 0 < i \<and> os ! i = (Prim, u a) \<and> term_at os (i - 1) (u (a - 4)))
      else str_at u os i a)"

text \<open>The word c that stands for origin o once it is scanned, and before.\<close>

inductive final :: "gc \<Rightarrow> store \<Rightarrow> origins \<Rightarrow> store \<Rightarrow> origin \<Rightarrow> word32 \<Rightarrow> word32 \<Rightarrow> bool"
  for g u os m where
  func: "final g u os m Func w w"
| kept: "kd \<noteq> Func \<Longrightarrow> trace_end g u k w x \<Longrightarrow>
     is_cst x \<or> is_var x \<and> hit_old g x \<or> \<not> is_var x \<and> hit_old g (addr x) \<Longrightarrow> final g u os m kd w x"
| list: "kd \<noteq> Func \<Longrightarrow> trace_end g u k w x \<Longrightarrow> is_list x \<Longrightarrow> \<not> hit_old g (addr x) \<Longrightarrow>
     term_at os j (u (addr x)) \<Longrightarrow> term_at os (Suc j) (u (addr x + 4)) \<Longrightarrow>
     final g u os m kd w (make_list (home g j))"
| str: "kd \<noteq> Func \<Longrightarrow> trace_end g u k w x \<Longrightarrow> is_str x \<Longrightarrow> \<not> hit_old g (addr x) \<Longrightarrow>
     str_at u os j (addr x) \<Longrightarrow> final g u os m kd w (make_str (home g j))"
| shared: "kd \<noteq> Func \<Longrightarrow> trace g u k w x \<Longrightarrow> 0 < k \<or> kd = Alias \<Longrightarrow> j < length os \<Longrightarrow> os ! j = (Prim, x) \<Longrightarrow>
     final g u os m kd w (home g j)"
| unbound: "kd \<noteq> Func \<Longrightarrow> trace_end g u k w x \<Longrightarrow> is_var x \<Longrightarrow> hit_mid g x \<Longrightarrow>
     j < length os \<Longrightarrow> m x = copied g j \<Longrightarrow> final g u os m kd w (home g j)"

definition pending :: "gc \<Rightarrow> addr set \<Rightarrow> store \<Rightarrow> store \<Rightarrow> origin \<Rightarrow> word32 \<Rightarrow> word32 \<Rightarrow> bool" where
  "pending g L u m kd w c =
     (if kd = Alias then \<exists>a\<in>L. hit_mid g a \<and> w = u a \<and> c = m a \<and> m a \<noteq> u a else c = w)"

definition origin_ok :: "gc \<Rightarrow> addr set \<Rightarrow> store \<Rightarrow> origin \<times> word32 \<Rightarrow> bool" where
  "origin_ok g L u p =
     (if fst p = Func then is_cst (snd p) \<and> snd p \<noteq> FVL_TAG
      else gc_word g L u (snd p) \<and> (\<exists>k x. trace_end g u k (snd p) x))"

definition gc_inv :: "gc \<Rightarrow> addr set \<Rightarrow> store \<Rightarrow> nat \<Rightarrow> origins \<Rightarrow> nat \<Rightarrow> store \<Rightarrow> bool" where
  "gc_inv g L u lim os s m =
     (length os \<le> lim \<and> s \<le> length os \<and> list_all (origin_ok g L u) os
      \<and> (\<forall>a. \<not> hit_mid g a \<and> (\<forall>i<length os. a \<noteq> copied g i) \<longrightarrow> m a = u a)
      \<and> (\<forall>a. hit_mid g a \<and> is_var a \<longrightarrow> m a = u a \<or> (\<exists>i<length os. m a = copied g i \<and> fwd g L u os s m a i))
      \<and> (\<forall>i < s. final g u os m (fst (os ! i)) (snd (os ! i)) (m (copied g i)))
      \<and> (\<forall>i. s \<le> i \<and> i < length os \<longrightarrow> pending g L u m (fst (os ! i)) (snd (os ! i)) (m (copied g i))))"

section \<open>More words, more forwarded cells\<close>

lemma term_at_append: "term_at os i w \<Longrightarrow> term_at (os @ xs) i w" by (simp add: nth_append)

lemma str_at_append: "str_at u os j a \<Longrightarrow> str_at u (os @ xs) j a"
  by (auto simp: str_at_def nth_append)

lemma final_mono:
  assumes "final g u os m kd w c"
    and "\<And>x j. is_var x \<Longrightarrow> hit_mid g x \<Longrightarrow> u x = x \<Longrightarrow> j < length os \<Longrightarrow> m x = copied g j \<Longrightarrow> m' x = copied g j"
  shows "final g u (os @ xs) m' kd w c"
  using assms(1)
proof cases
  case (list k x j)
  show ?thesis unfolding list(1)
    by (rule final.list [OF list(2-5) term_at_append [OF list(6)] term_at_append [OF list(7)]])
next
  case (shared k x j)
  thus ?thesis by (auto intro!: final.shared simp: nth_append)
next
  case (unbound k x j)
  have "u x = x" using unbound(3-5) old_not_mid by (auto simp: trace_end_def stops_def)
  thus ?thesis unfolding unbound(1)
    using final.unbound [OF unbound(2-5), of j "os @ xs" m'] unbound(6) assms(2) [OF unbound(4,5) _ unbound(6,7)]
    by simp
qed (auto intro: final.intros str_at_append)

lemma fwd_mono:
  assumes "fwd g L u os s m a i" "i < length os"
    and "\<And>i. i < s \<Longrightarrow> m' (copied g i) = m (copied g i)" "a \<in> L \<Longrightarrow> u a = a \<Longrightarrow> i = s \<Longrightarrow> m' (copied g s) = home g s"
  shows "fwd g L u (os @ xs) (Suc s) m' a i"
proof (cases "a \<in> L")
  case True
  show ?thesis using assms True by (auto simp: fwd_def nth_append less_Suc_eq)
next
  case False
  thus ?thesis using assms(1) str_at_append by (simp add: fwd_def)
qed

text \<open>A word of the stack is no address in the buffer.\<close>

lemma mid_not_copied: "gc_layout g lim \<Longrightarrow> i < lim \<Longrightarrow> hit_mid g a \<Longrightarrow> a \<noteq> copied g i"
  using copied_apart(2) by blast

lemma gc_invD:
  assumes "gc_inv g L u lim os s m"
  shows "length os \<le> lim" "s \<le> length os" "list_all (origin_ok g L u) os"
    and "\<not> hit_mid g a \<Longrightarrow> (\<And>i. i < length os \<Longrightarrow> a \<noteq> copied g i) \<Longrightarrow> m a = u a"
    and "hit_mid g a \<Longrightarrow> is_var a \<Longrightarrow> m a \<noteq> u a \<Longrightarrow> \<exists>i<length os. m a = copied g i \<and> fwd g L u os s m a i"
    and "i < s \<Longrightarrow> final g u os m (fst (os ! i)) (snd (os ! i)) (m (copied g i))"
    and "s \<le> i \<Longrightarrow> i < length os \<Longrightarrow> pending g L u m (fst (os ! i)) (snd (os ! i)) (m (copied g i))"
  using assms unfolding gc_inv_def by blast+

lemma gc_inv_step:
  assumes inv: "gc_inv g L u lim os s m" and s: "s < length os" and lay: "gc_layout g lim"
    and os': "os' = os @ xs" "length os' \<le> lim" "list_all (origin_ok g L u) xs"
    and out: "\<And>a. \<not> hit_mid g a \<Longrightarrow> \<forall>i<length os'. a \<noteq> copied g i \<Longrightarrow> m' a = m a"
    and old: "\<And>i. i < length os \<Longrightarrow> i \<noteq> s \<Longrightarrow> m' (copied g i) = m (copied g i)"
    and fin: "final g u os' m' (fst (os ! s)) (snd (os ! s)) (m' (copied g s))"
    and new: "\<And>i. length os \<le> i \<Longrightarrow> i < length os' \<Longrightarrow> pending g L u m' (fst (os' ! i)) (snd (os' ! i)) (m' (copied g i))"
    and area: "\<And>a. hit_mid g a \<Longrightarrow> is_var a \<Longrightarrow> m' a = m a \<or> m a = u a \<and> (\<exists>i<length os'. m' a = copied g i \<and> fwd g L u os' (Suc s) m' a i)"
    and unb: "\<And>a. a \<in> L \<Longrightarrow> hit_mid g a \<Longrightarrow> u a = a \<Longrightarrow> m a = copied g s \<Longrightarrow> m' (copied g s) = home g s"
    and L: "\<And>a. a \<in> L \<Longrightarrow> is_var a"
  shows "gc_inv g L u lim os' (Suc s) m'"
proof -
  note I = gc_invD [OF inv]
  have keep: "m' x = m x" if "is_var x" "hit_mid g x" "m x \<noteq> u x" for x using area [OF that(2,1)] that(3) by blast
  have ub: "m' x = copied g j" if "is_var x" "hit_mid g x" "u x = x" "j < length os" "m x = copied g j" for x j
    using keep [OF that(1,2)] mid_not_copied [OF lay _ that(2), of j] that(3-5) I(1) by auto
  have pending_keep: "pending g L u m' kd w c" if p: "pending g L u m kd w c" for kd w c
  proof (cases "kd = Alias")
    case True
    then obtain a where a: "a \<in> L" "hit_mid g a" "w = u a" "c = m a" "m a \<noteq> u a"
      using p unfolding pending_def if_P [OF True] by blast
    hence "m' a = m a" using keep L by blast
    thus ?thesis unfolding pending_def if_P [OF True] using a by metis
  qed (use p in \<open>simp add: pending_def\<close>)
  have "m' a = u a" if "\<not> hit_mid g a" "\<forall>i<length os'. a \<noteq> copied g i" for a
    using out [OF that] I(4) [OF that(1)] that(2) by (simp add: os'(1))
  moreover have "m' a = u a \<or> (\<exists>i<length os'. m' a = copied g i \<and> fwd g L u os' (Suc s) m' a i)"
    if h: "hit_mid g a" "is_var a" for a
  proof (cases "m' a = m a \<and> m a \<noteq> u a")
    case True
    then obtain i where i: "i < length os" "m a = copied g i" "fwd g L u os s m a i" using I(5) [OF h] by blast
    have "fwd g L u os' (Suc s) m' a i" unfolding os'(1)
    proof (rule fwd_mono [OF i(3,1)])
      show "m' (copied g s) = home g s" if "a \<in> L" "u a = a" "i = s" using unb that h(1) i(2) by simp
    qed (use old s in simp)
    moreover have "i < length os'" using i(1) by (simp add: os'(1))
    ultimately show ?thesis using i(2) True by metis
  next
    case False
    thus ?thesis using area [OF h] by metis
  qed
  moreover have "final g u os' m' (fst (os' ! i)) (snd (os' ! i)) (m' (copied g i))" if h: "i < Suc s" for i
  proof (cases "i = s")
    case True
    thus ?thesis using fin s by (simp add: os'(1) nth_append)
  next
    case False
    hence i: "i < s" "i < length os" using h s by auto
    from final_mono [OF I(6) [OF i(1)] ub, where xs = xs] show ?thesis
      using i False old [of i] by (simp add: os'(1) nth_append)
  qed
  moreover have "pending g L u m' (fst (os' ! i)) (snd (os' ! i)) (m' (copied g i))"
    if h: "Suc s \<le> i" "i < length os'" for i
  proof (cases "i < length os")
    case True
    have "pending g L u m' (fst (os ! i)) (snd (os ! i)) (m (copied g i))"
      by (rule pending_keep [OF I(7)]) (use h True in simp_all)
    thus ?thesis using True h old [of i] by (simp add: os'(1) nth_append)
  next
    case False
    thus ?thesis using new h by simp
  qed
  moreover have "Suc s \<le> length os'" "list_all (origin_ok g L u) os'" using I(3) os' s by auto
  ultimately show ?thesis using os'(2) unfolding gc_inv_def by blast
qed

section \<open>Pointer shunting\<close>

text \<open>A forwarded cell on the way of a reference.\<close>

definition forwarded :: "gc \<Rightarrow> addr set \<Rightarrow> store \<Rightarrow> origins \<Rightarrow> nat \<Rightarrow> store \<Rightarrow> addr \<Rightarrow> nat \<Rightarrow> bool" where
  "forwarded g L u os s m a i =
     (a \<in> L \<and> hit_mid g a \<and> m a = copied g i \<and> m a \<noteq> u a \<and> i < length os \<and> fwd g L u os s m a i)"

lemma gc_shunt_stop:
  "\<not> is_var w \<or> hit_old g w \<or> hit_copied_var g f w \<or> is_self_ref m w \<Longrightarrow> gc_shunt g f m w = Some w"
  unfolding gc_shunt_def by (rule while_option_done) auto

lemma gc_shunt_next:
  "is_var w \<Longrightarrow> \<not> hit_old g w \<Longrightarrow> \<not> hit_copied_var g f w \<Longrightarrow> \<not> is_self_ref m w \<Longrightarrow>
     gc_shunt g f m w = gc_shunt g f m (m w)"
  unfolding gc_shunt_def by (rule while_option_step) simp

lemma gc_shunt_forwarded:
  assumes "gc_inv g L u lim os s m" "gc_layout g lim" "a \<in> L" "is_var a" "hit_mid g a" "m a \<noteq> u a"
  shows "\<exists>i. gc_shunt g (copied g (length os)) m a = Some (copied g i) \<and> forwarded g L u os s m a i"
proof -
  note I = gc_invD [OF assms(1)]
  obtain i where i: "i < length os" "m a = copied g i" "fwd g L u os s m a i" using I(5) assms(4-6) by blast
  have "m a \<noteq> a" using mid_not_copied [OF assms(2) _ assms(5), of i] i(1,2) I(1) by auto
  moreover have "\<not> hit_copied_var g (copied g (length os)) a" using not_hit_copied [OF assms(2) I(1)] assms(5) by blast
  moreover have "\<not> hit_old g a" using assms(5) old_not_mid by blast
  ultimately have "gc_shunt g (copied g (length os)) m a = gc_shunt g (copied g (length os)) m (copied g i)"
    using gc_shunt_next [of a] assms(4) i(2) by (simp add: is_self_ref_def)
  also have "\<dots> = Some (copied g i)" using hit_copied [OF assms(2) i(1) I(1)] by (simp add: gc_shunt_stop)
  finally show ?thesis using assms i by (auto simp: forwarded_def)
qed

lemma gc_shunt_end:
  assumes inv: "gc_inv g L u lim os s m" and lay: "gc_layout g lim" and heap: "gc_heap g L u"
  shows "trace g u k w x \<Longrightarrow> stops g u x \<Longrightarrow> gc_word g L u w \<Longrightarrow>
    \<exists>r. gc_shunt g (copied g (length os)) m w = Some r
      \<and> (r = x \<and> (is_var x \<and> \<not> hit_old g x \<longrightarrow> x \<in> L \<and> hit_mid g x \<and> m x = x)
         \<or> (\<exists>a i l. trace g u l w a \<and> forwarded g L u os s m a i \<and> r = copied g i))"
proof (induction rule: trace.induct)
  case (none x)
  show ?case
  proof (cases "is_var x \<and> \<not> hit_old g x")
    case True
    hence x: "x \<in> L" "hit_mid g x" "u x = x" using none heap by (auto simp: gc_word_def gc_heap_def stops_def)
    show ?thesis
    proof (cases "m x = x")
      case True
      thus ?thesis using x gc_shunt_stop [of x g _ m] by (auto simp: is_self_ref_def)
    next
      case False
      from gc_shunt_forwarded [OF inv lay x(1) _ x(2)] True False x(3) show ?thesis
        using trace_0 by (metis (no_types))
    qed
  next
    case False
    thus ?thesis using gc_shunt_stop [of x g _ m] by auto
  qed
next
  case (hop w k x)
  have w: "is_var w" "\<not> hit_old g w" "u w \<noteq> w" "w \<in> L" using hop by (auto simp: stops_def gc_word_def)
  have mid: "hit_mid g w" "gc_word g L u (u w)" using heap w by (auto simp: gc_heap_def)
  show ?case
  proof (cases "m w = u w")
    case True
    have "\<not> hit_copied_var g (copied g (length os)) w" using not_hit_copied [OF lay gc_invD(1) [OF inv]] mid by blast
    hence e: "gc_shunt g (copied g (length os)) m w = gc_shunt g (copied g (length os)) m (u w)"
      using gc_shunt_next [of w] w True by (simp add: is_self_ref_def)
    have "trace g u (Suc l) w a" if "trace g u l (u w) a" for l a using hop.hyps(1) that by (simp add: trace_Suc)
    with hop.IH [OF hop.prems(1) mid(2)] show ?thesis unfolding e by blast
  next
    case False
    from gc_shunt_forwarded [OF inv lay w(4,1) mid(1) False] show ?thesis
      using trace_0 by (metis (no_types))
  qed
qed

section \<open>What shunting finds\<close>

lemma heapD:
  assumes "gc_heap g L u"
  shows "a \<in> L \<Longrightarrow> is_var a" "a \<in> L \<Longrightarrow> \<not> hit_old g a \<Longrightarrow> hit_mid g a"
    and "a \<in> L \<Longrightarrow> hit_mid g a \<Longrightarrow> gc_word g L u (u a)"
  using assms by (auto simp: gc_heap_def)

lemma heap_origin:
  assumes "gc_heap g L u" "a \<in> L" "hit_mid g a" "kd \<noteq> Func"
  shows "origin_ok g L u (kd, u a)"
proof -
  obtain k x where kx: "trace g u k a x" "stops g u x" using assms by (auto simp: gc_heap_def trace_end_def)
  have "\<exists>k x. trace_end g u k (u a) x"
  proof (cases k)
    case 0
    hence "u a = a" using kx assms old_not_mid heapD(1) [OF assms(1,2)] by (auto simp: stops_def)
    hence "trace_end g u 0 (u a) x" using kx 0 by (simp add: trace_end_def)
    thus ?thesis by blast
  next
    case (Suc l)
    thus ?thesis using kx by (auto simp: trace_end_def trace_Suc)
  qed
  thus ?thesis using heapD(3) [OF assms(1-3)] assms(4) by (simp add: origin_ok_def)
qed

text \<open>Word s is about to be scanned: it stands for w, whose chain ends at x.\<close>

lemma scan_root:
  assumes inv: "gc_inv g L u lim os s m" and lay: "gc_layout g lim" and heap: "gc_heap g L u"
    and s: "s < length os" "os ! s = (kd, w)" "kd \<noteq> Func" and x: "trace_end g u k w x" "gc_word g L u w"
  shows "\<exists>r. gc_shunt g (copied g (length os)) m (m (copied g s)) = Some r
      \<and> (r = x \<and> (is_var x \<and> \<not> hit_old g x \<longrightarrow> x \<in> L \<and> hit_mid g x \<and> m x = x)
         \<or> (\<exists>a i. r = copied g i \<and> forwarded g L u os s m a i \<and> (kd = Alias \<and> w = u a \<or> (\<exists>l. trace g u l w a))))"
proof (cases "kd = Alias")
  case True
  note I = gc_invD [OF inv]
  from I(7) [of s] s True obtain a where a: "a \<in> L" "hit_mid g a" "w = u a" "m (copied g s) = m a" "m a \<noteq> u a"
    by (auto simp: pending_def)
  from I(5) [OF a(2) heapD(1) [OF heap a(1)] a(5)] obtain i
    where i: "i < length os" "m a = copied g i" "fwd g L u os s m a i" by blast
  have "gc_shunt g (copied g (length os)) m (m (copied g s)) = Some (copied g i)"
    unfolding a(4) i(2) by (rule gc_shunt_stop) (simp add: hit_copied [OF lay i(1) I(1)])
  moreover have "forwarded g L u os s m a i" using a i by (simp add: forwarded_def)
  ultimately show ?thesis using True a(3) by blast
next
  case False
  have "m (copied g s) = w" using gc_invD(7) [OF inv, of s] s False by (simp add: pending_def)
  moreover have "trace g u k w x" "stops g u x" using x(1) by (auto simp: trace_end_def)
  ultimately show ?thesis using gc_shunt_end [OF inv lay heap _ _ x(2), of k x] by metis
qed

text \<open>An unbound cell forwarded to word s itself makes s a copy of that cell.\<close>

lemma unbound_here:
  assumes inv: "gc_inv g L u lim os s m" and lay: "gc_layout g lim" and heap: "gc_heap g L u"
    and "s < length os" "a \<in> L" "hit_mid g a" "u a = a" "m a = copied g s"
  shows "os ! s = (Prim, a) \<and> stops g u a"
proof -
  note I = gc_invD [OF inv]
  have v: "is_var a" using heapD(1) [OF heap assms(5)] .
  have "m a \<noteq> u a" using mid_not_copied [OF lay _ assms(6), of s] assms(4,7,8) I(1) by auto
  then obtain i where i: "i < length os" "copied g s = copied g i" "fwd g L u os s m a i"
    using I(5) [OF assms(6) v] assms(8) by auto
  have "i = s" using copied_inj [OF lay, of s i] i(1,2) assms(4) I(1) by simp
  thus ?thesis using i(3) assms(5,7) by (auto simp: fwd_def stops_def)
qed

section \<open>Steps that only write the scanned word\<close>

lemma gc_inv_write:
  assumes inv: "gc_inv g L u lim os s m" and lay: "gc_layout g lim" and heap: "gc_heap g L u"
    and s: "s < length os" and fin: "final g u os m (fst (os ! s)) (snd (os ! s)) c"
    and unb: "\<And>a. a \<in> L \<Longrightarrow> hit_mid g a \<Longrightarrow> u a = a \<Longrightarrow> m a = copied g s \<Longrightarrow> c = home g s"
  shows "gc_inv g L u lim os (Suc s) (m(copied g s := c))"
proof (rule gc_inv_step [OF inv s lay, where xs = "[]"])
  note I = gc_invD [OF inv]
  let ?m = "m(copied g s := c)"
  have mid: "?m a = m a" if "hit_mid g a" for a using mid_not_copied [OF lay _ that, of s] s I(1) by simp
  show "final g u os ?m (fst (os ! s)) (snd (os ! s)) (?m (copied g s))"
    using final_mono [OF fin, of ?m "[]"] mid by simp
  show "?m (copied g i) = m (copied g i)" if "i < length os" "i \<noteq> s" for i
    using copied_inj [OF lay, of i s] that s I(1) by simp
  show "?m a = m a" if "\<forall>i<length os. a \<noteq> copied g i" for a using that s by auto
qed (use gc_invD(1) [OF inv] mid_not_copied [OF lay] s unb heapD(1) [OF heap] in auto)

definition steps_to ::
  "gc \<Rightarrow> addr set \<Rightarrow> store \<Rightarrow> nat \<Rightarrow> origins \<Rightarrow> nat \<Rightarrow> addr \<times> addr \<times> store \<Rightarrow> bool" where
  "steps_to g L u lim os s y =
     (\<exists>xs m'. y = (copied g (Suc s), copied g (length (os @ xs)), m') \<and> length xs \<le> 512
       \<and> gc_inv g L u lim (os @ xs) (Suc s) m')"

lemma steps_toI:
  "gc_inv g L u lim (os @ xs) (Suc s) m' \<Longrightarrow> length xs \<le> 512 \<Longrightarrow>
     y = (copied g s + 4, copied g (length os + length xs), m') \<Longrightarrow> steps_to g L u lim os s y"
  unfolding steps_to_def by (intro exI [of _ xs] exI [of _ m']) simp

lemma step_func:
  assumes inv: "gc_inv g L u lim os s m" and lay: "gc_layout g lim" and heap: "gc_heap g L u"
    and s: "s < length os" "os ! s = (Func, w)"
  shows "\<exists>y. scan_step g (copied g s, copied g (length os), m) = Some y \<and> steps_to g L u lim os s y"
proof -
  have "origin_ok g L u (os ! s)" using gc_invD(3) [OF inv] s(1) by (simp add: list_all_length)
  hence w: "is_cst w" by (simp add: s(2) origin_ok_def)
  have c: "m (copied g s) = w" using gc_invD(7) [OF inv, of s] s by (simp add: pending_def)
  have nv: "\<not> is_var w" using w by simp
  have "gc_inv g L u lim os (Suc s) (m(copied g s := w))"
  proof (rule gc_inv_write [OF inv lay heap s(1)])
    show "final g u os m (fst (os ! s)) (snd (os ! s)) w" using s(2) by (simp add: final.func)
  qed (use unbound_here [OF inv lay heap s(1)] s(2) in auto)
  hence "steps_to g L u lim os s (copied g s + 4, copied g (length os), m(copied g s := w))"
    by (intro steps_toI [where xs = "[]"]) simp_all
  moreover have "scan_step g (copied g s, copied g (length os), m) = Some (copied g s + 4, copied g (length os), m(copied g s := w))"
    using w nv by (simp add: scan_step_def c gc_shunt_stop scan_word_def)
  ultimately show ?thesis by blast
qed

lemma step_forwarded:
  assumes inv: "gc_inv g L u lim os s m" and lay: "gc_layout g lim" and heap: "gc_heap g L u"
    and s: "s < length os" "os ! s = (kd, w)" "kd \<noteq> Func" and x: "trace_end g u k w x"
    and r: "forwarded g L u os s m a i" "kd = Alias \<and> w = u a \<or> (\<exists>l. trace g u l w a)"
  shows "steps_to g L u lim os s (scan_word g (copied g i) (copied g s, copied g (length os), m))"
proof -
  have a: "a \<in> L" "hit_mid g a" "m a = copied g i" "i < length os" "fwd g L u os s m a i"
    using r(1) by (auto simp: forwarded_def)
  have av: "is_var a" "\<not> hit_old g a" using heapD(1) [OF heap a(1)] a(2) old_not_mid by blast+
  have il: "i < lim" using a(4) gc_invD(1) [OF inv] by simp
  have "final g u os m kd w (home g i)"
  proof (cases "u a = a")
    case True
    obtain l where "trace g u l w a" using r(2) True by (metis trace_0)
    hence "trace_end g u l w a" using True by (simp add: trace_end_def stops_def)
    show ?thesis by (rule final.unbound [OF s(3) \<open>trace_end g u l w a\<close> av(1) a(2,4)]) (rule a(3))
  next
    case False
    hence o: "os ! i = (Prim, u a)" using a(1,5) by (simp add: fwd_def)
    consider (late) "kd = Alias" "trace g u 0 w (u a)" | (prim) l where "trace g u (Suc l) w (u a)"
      using r(2) trace_snoc [of g u _ w a] False av by (auto simp: stops_def)
    thus ?thesis
    proof cases
      case late
      show ?thesis by (rule final.shared [OF s(3) late(2) _ a(4) o]) (simp add: late(1))
    next
      case prim
      show ?thesis by (rule final.shared [OF s(3) prim _ a(4) o]) simp
    qed
  qed
  hence "gc_inv g L u lim os (Suc s) (m(copied g s := home g i))"
  proof (intro gc_inv_write [OF inv lay heap s(1)])
    fix b
    assume b: "b \<in> L" "hit_mid g b" "u b = b" "m b = copied g s"
    from unbound_here [OF inv lay heap s(1) b] have w: "w = b" "kd = Prim" "stops g u b" using s(2) by auto
    obtain l where "trace g u l b a" using r(2) w by auto
    hence "b = a" using trace_det [of g u 0 b b l a] w(3) trace_Suc by (cases l) auto
    hence "copied g s = copied g i" using a(3) b(4) by simp
    hence "s = i" using copied_inj [OF lay, of s i] s(1) a(4) gc_invD(1) [OF inv] by simp
    thus "home g i = home g s" by simp
  qed (use s in simp)
  moreover have "scan_word g (copied g i) (copied g s, copied g (length os), m)
      = (copied g s + 4, copied g (length os), m(copied g s := home g i))"
    using copied_apart(1) [OF lay il] hit_copied [OF lay a(4) gc_invD(1) [OF inv]] lay
    by (simp add: scan_word_def scan_var_def gc_layout_def dest_copied)
  ultimately show ?thesis by (intro steps_toI [where xs = "[]"]) simp_all
qed

text \<open>The other steps: the chain ends at x and x is not forwarded, so no cell waits for word s.\<close>

lemma nothing_here:
  assumes "gc_inv g L u lim os s m" "gc_layout g lim" "gc_heap g L u"
    and "s < length os" "os ! s = (kd, w)" "trace_end g u k w x" "is_var x \<and> \<not> hit_old g x \<longrightarrow> m x = x"
    and a: "a \<in> L" "hit_mid g a" "u a = a" "m a = copied g s"
  shows False
proof -
  have "w = a" "stops g u a" using unbound_here [OF assms(1-4) a] assms(5) by auto
  hence "x = a" using assms(6) trace_Suc by (cases k) (auto simp: trace_end_def)
  hence "m a = a" using assms(7) heapD(1) [OF assms(3) a(1)] a(2) old_not_mid by blast
  thus False using mid_not_copied [OF assms(2) _ a(2), of s] a(4) assms(4) gc_invD(1) [OF assms(1)] by auto
qed

lemma step_kept:
  assumes inv: "gc_inv g L u lim os s m" and lay: "gc_layout g lim" and heap: "gc_heap g L u"
    and s: "s < length os" "os ! s = (kd, w)" "kd \<noteq> Func" and x: "trace_end g u k w x"
    and old: "is_cst x \<or> is_var x \<and> hit_old g x \<or> \<not> is_var x \<and> hit_old g (addr x)"
  shows "steps_to g L u lim os s (scan_word g x (copied g s, copied g (length os), m))"
proof -
  have "gc_inv g L u lim os (Suc s) (m(copied g s := x))"
  proof (rule gc_inv_write [OF inv lay heap s(1)])
    show "final g u os m (fst (os ! s)) (snd (os ! s)) x" using final.kept [OF s(3) x old] s(2) by simp
    show "x = home g s" if "a \<in> L" "hit_mid g a" "u a = a" "m a = copied g s" for a
      using nothing_here [OF inv lay heap s(1,2) x _ that] old by auto
  qed
  moreover have "scan_word g x (copied g s, copied g (length os), m) = (copied g s + 4, copied g (length os), m(copied g s := x))"
    using old by (auto simp: scan_word_def scan_var_def is_fvl_def is_cst_def tag_def tag_consts)
  ultimately show ?thesis by (intro steps_toI [where xs = "[]"]) simp_all
qed

lemma step_unbound:
  assumes inv: "gc_inv g L u lim os s m" and lay: "gc_layout g lim" and heap: "gc_heap g L u"
    and s: "s < length os" "os ! s = (kd, w)" "kd \<noteq> Func" and x: "trace_end g u k w x"
    and v: "is_var x" "\<not> hit_old g x" "x \<in> L" "hit_mid g x" "m x = x"
  shows "steps_to g L u lim os s (scan_word g x (copied g s, copied g (length os), m))"
proof -
  note I = gc_invD [OF inv]
  let ?m = "m(copied g s := home g s, x := copied g s)"
  have u: "u x = x" using x v by (auto simp: trace_end_def stops_def)
  have xs: "copied g i \<noteq> x" if "i < length os" for i using mid_not_copied [OF lay _ v(4), of i] that I(1) by auto
  have sl: "s < lim" using s(1) I(1) by simp
  have "gc_inv g L u lim (os @ []) (Suc s) ?m"
  proof (rule gc_inv_step [OF inv s(1) lay refl])
    show "final g u (os @ []) ?m (fst (os ! s)) (snd (os ! s)) (?m (copied g s))"
      using final.unbound [OF s(3) x v(1,4), of s os ?m] s xs [OF s(1)] by simp
    show "?m (copied g i) = m (copied g i)" if "i < length os" "i \<noteq> s" for i
      using copied_inj [OF lay, of i s] that s(1) I(1) xs by simp
    show "?m a = m a" if "\<not> hit_mid g a" "\<forall>i<length (os @ []). a \<noteq> copied g i" for a
      using that s(1) v(4) by auto
    show "?m a = m a \<or> m a = u a \<and> (\<exists>i<length (os @ []). ?m a = copied g i \<and> fwd g L u (os @ []) (Suc s) ?m a i)"
      if "hit_mid g a" for a
    proof (cases "a = x")
      case True
      have "\<exists>k. trace g u k (snd (os ! s)) x" using x s(2) by (auto simp: trace_end_def)
      hence "fwd g L u (os @ []) (Suc s) ?m x s" using v(3) u s xs [OF s(1)] by (simp add: fwd_def)
      thus ?thesis using True s(1) u v(5) by auto
    next
      case False
      thus ?thesis using mid_not_copied [OF lay sl that] by simp
    qed
    show "?m (copied g s) = home g s" using xs [OF s(1)] by simp
  qed (use I(1) heapD(1) [OF heap] in auto)
  moreover have "scan_word g x (copied g s, copied g (length os), m) = (copied g s + 4, copied g (length os), ?m)"
    using v not_hit_copied [OF lay I(1), of x] lay
    by (simp add: scan_word_def scan_var_def gc_layout_def dest_copied)
  ultimately show ?thesis by (intro steps_toI [where xs = "[]"]) simp_all
qed

section \<open>Lists\<close>

lemma fvl_cst: "is_fvl t \<Longrightarrow> is_cst t"
  by (simp add: is_fvl_def is_cst_def tag_def tag_consts)

text \<open>A cell of the area has been forwarded exactly when the code finds it so.\<close>

lemma forwarded_test:
  assumes inv: "gc_inv g L u lim os s m" and lay: "gc_layout g lim"
    and a: "is_var a" "hit_mid g a" and u: "is_var (u a) \<Longrightarrow> hit_old g (u a) \<or> hit_mid g (u a)" and g: "is_var (g_copy g)"
  shows "(is_var (m a) \<and> hit_copied_var g (copied g (length os)) (m a)) = (m a \<noteq> u a)"
proof (cases "m a = u a")
  case True
  thus ?thesis using not_hit_copied [OF lay gc_invD(1) [OF inv]] u by auto
next
  case False
  then obtain i where "i < length os" "m a = copied g i" using gc_invD(5) [OF inv a(2,1)] by blast
  thus ?thesis using False hit_copied [OF lay _ gc_invD(1) [OF inv]] g by simp
qed

definition taken :: "store \<Rightarrow> store \<Rightarrow> addr \<Rightarrow> origin \<times> word32" where
  "taken u m a = (if m a = u a then Prim else Alias, u a)"

lemma taken_kind [simp]: "fst (taken u m a) \<noteq> Func" "snd (taken u m a) = u a"
  by (simp_all add: taken_def)

lemma taken_pending:
  "a \<in> L \<Longrightarrow> hit_mid g a \<Longrightarrow> m' a = m a \<Longrightarrow> c = m a \<Longrightarrow> pending g L u m' (fst (taken u m a)) (snd (taken u m a)) c"
  by (auto simp: pending_def taken_def)

lemma list_cells:
  assumes "gc_heap g L u" "gc_word g L u x" "is_list x" "\<not> hit_old g (addr x)"
  shows "addr x \<in> L" "hit_mid g (addr x)" "addr x + 4 \<in> L" "hit_mid g (addr x + 4)"
  using assms heapD [OF assms(1)] by (auto simp: gc_word_def)

lemma step_list_shared:
  assumes inv: "gc_inv g L u lim os s m" and lay: "gc_layout g lim" and heap: "gc_heap g L u"
    and s: "s < length os" "os ! s = (kd, w)" "kd \<noteq> Func" and x: "trace_end g u k w x"
    and l: "is_list x" "\<not> hit_old g (addr x)" "gc_word g L u x"
    and f: "i < length os" "m (addr x + 4) = copied g i" "fwd g L u os s m (addr x + 4) i" "s < i"
  shows "gc_inv g L u lim os (Suc s) (m(copied g s := make_list (home g (i - 1))))"
proof -
  note c = list_cells [OF heap l(3,1,2)]
  have i: "0 < i" "os ! i = (Prim, u (addr x + 4))" "term_at os (i - 1) (u (addr x))"
    using f(3,4) c(3) by (auto simp: fwd_def)
  have "final g u os m kd w (make_list (home g (i - 1)))"
    by (rule final.list [OF s(3) x l(1,2)]) (use i f(1) in auto)
  thus ?thesis
    by (intro gc_inv_write [OF inv lay heap s(1)]) (use s(2) nothing_here [OF inv lay heap s(1,2) x] l(1) in auto)
qed

text \<open>A list is copied to the end; its tail is forwarded unless it is already.\<close>

lemma step_list_copy:
  assumes inv: "gc_inv g L u lim os s m" and lay: "gc_layout g lim" and heap: "gc_heap g L u"
    and s: "s < length os" "os ! s = (kd, w)" "kd \<noteq> Func" and x: "trace_end g u k w x"
    and l: "is_list x" "\<not> hit_old g (addr x)" "gc_word g L u x" and room: "length os + 2 \<le> lim"
    and m': "m' = m(copied g s := make_list (home g (length os)), copied g (length os) := m (addr x),
                    copied g (Suc (length os)) := m (addr x + 4))"
      "m'' = (if m (addr x + 4) = u (addr x + 4) then m'(addr x + 4 := copied g (Suc (length os))) else m')"
  shows "gc_inv g L u lim (os @ [taken u m (addr x), taken u m (addr x + 4)]) (Suc s) m''"
proof (rule gc_inv_step [OF inv s(1) lay refl])
  note I = gc_invD [OF inv]
  note c = list_cells [OF heap l(3,1,2)]
  let ?xs = "[taken u m (addr x), taken u m (addr x + 4)]" and ?n = "length os"
  have ne: "copied g i \<noteq> a" if "i \<le> Suc ?n" "hit_mid g a" for i a
    using mid_not_copied [OF lay _ that(2), of i] that(1) room by auto
  have inj: "(copied g i = copied g j) = (i = j)" if "i \<le> Suc ?n" "j \<le> Suc ?n" for i j
    using copied_inj [OF lay, of i j] that room by simp
  have copies: "m'' (copied g s) = make_list (home g ?n)" "m'' (copied g ?n) = m (addr x)"
    "m'' (copied g (Suc ?n)) = m (addr x + 4)"
    using s(1) inj c(4) ne by (auto simp: m')
  have nth: "(os @ ?xs) ! ?n = taken u m (addr x)" "(os @ ?xs) ! Suc ?n = taken u m (addr x + 4)" by (simp_all add: nth_append)
  have mid: "m'' a = m a" if "hit_mid g a" "a \<noteq> addr x + 4 \<or> m (addr x + 4) \<noteq> u (addr x + 4)" for a
    using that ne [of s a] ne [of ?n a] ne [of "Suc ?n" a] s(1) by (simp add: m' eq_commute [of a])
  show "length (os @ ?xs) \<le> lim" using room by simp
  show "list_all (origin_ok g L u) ?xs"
    using heap_origin [OF heap c(1,2)] heap_origin [OF heap c(3,4)] by (auto simp: taken_def)
  show "m'' a = m a" if "\<not> hit_mid g a" "\<forall>i<length (os @ ?xs). a \<noteq> copied g i" for a
    using that s(1) c(4) by (auto simp: m')
  show "m'' (copied g i) = m (copied g i)" if "i < ?n" "i \<noteq> s" for i
    using that s(1) inj ne c(4) by (auto simp: m')
  show "final g u (os @ ?xs) m'' (fst (os ! s)) (snd (os ! s)) (m'' (copied g s))"
    unfolding copies(1) s(2) fst_conv snd_conv
    by (rule final.list [OF s(3) x l(1,2)]) (simp_all add: nth)
  show "pending g L u m'' (fst ((os @ ?xs) ! i)) (snd ((os @ ?xs) ! i)) (m'' (copied g i))"
    if h: "?n \<le> i" "i < length (os @ ?xs)" for i
  proof -
    consider "i = ?n" | "i = Suc ?n" using h by fastforce
    thus ?thesis
    proof cases
      case 1
      have "m'' (addr x) = m (addr x)" by (rule mid [OF c(2)]) simp
      thus ?thesis unfolding 1 nth copies by (intro taken_pending [OF c(1,2)]) simp_all
    next
      case 2
      show ?thesis
      proof (cases "m (addr x + 4) = u (addr x + 4)")
        case True
        thus ?thesis unfolding 2 nth copies by (simp add: taken_def pending_def)
      next
        case False
        have "m'' (addr x + 4) = m (addr x + 4)" by (rule mid [OF c(4)]) (use False in simp)
        thus ?thesis unfolding 2 nth copies by (intro taken_pending [OF c(3,4)]) simp_all
      qed
    qed
  qed
  show "m'' a = m a \<or> m a = u a \<and> (\<exists>i<length (os @ ?xs). m'' a = copied g i \<and> fwd g L u (os @ ?xs) (Suc s) m'' a i)"
    if "hit_mid g a" for a
  proof (cases "a = addr x + 4 \<and> m a = u a")
    case True
    hence a: "a = addr x + 4" and e: "m (addr x + 4) = u (addr x + 4)" by auto
    have ta: "taken u m (addr x + 4) = (Prim, u (addr x + 4))" using e by (simp add: taken_def)
    have "fwd g L u (os @ ?xs) (Suc s) m'' a (Suc ?n)"
      using c(3) s(1) by (simp add: a fwd_def nth [unfolded ta] ta)
    moreover have "m'' a = copied g (Suc ?n)" using e by (simp add: a m')
    ultimately show ?thesis using e a by (intro disjI2 conjI exI [of _ "Suc ?n"]) simp_all
  next
    case False
    thus ?thesis using mid [OF that] by auto
  qed
  show "m'' (copied g s) = home g s" if "a \<in> L" "hit_mid g a" "u a = a" "m a = copied g s" for a
    using nothing_here [OF inv lay heap s(1,2) x _ that] l(1) by auto
qed (use heapD(1) [OF heap] in blast)

lemma step_list:
  assumes inv: "gc_inv g L u lim os s m" and lay: "gc_layout g lim" and heap: "gc_heap g L u"
    and s: "s < length os" "os ! s = (kd, w)" "kd \<noteq> Func" and x: "trace_end g u k w x"
    and l: "is_list x" "\<not> hit_old g (addr x)" "gc_word g L u x" and room: "length os + 2 \<le> lim"
  shows "steps_to g L u lim os s (scan_word g x (copied g s, copied g (length os), m))"
proof -
  note I = gc_invD [OF inv]
  note c = list_cells [OF heap l(3,1,2)]
  have cp: "is_var (g_copy g)" using lay by (simp add: gc_layout_def)
  have k: "\<not> is_var x" "\<not> is_cst x" "\<not> is_fvl x" using l(1) fvl_cst [of x] by auto
  let ?a = "addr x + 4" and ?n = "length os"
  have sc: "scan_word g x y = scan_list g x y" for y using k l by (simp add: scan_word_def)
  have av: "is_var ?a" "gc_word g L u (u ?a)" using heapD [OF heap] c by blast+
  have "is_var (u ?a) \<Longrightarrow> hit_old g (u ?a) \<or> hit_mid g (u ?a)" using av(2) heapD(2) [OF heap] by (auto simp: gc_word_def)
  note t = forwarded_test [OF inv lay av(1) c(4) this cp]
  have ne: "copied g i \<noteq> a" if "i \<le> Suc ?n" "hit_mid g a" for i a
    using mid_not_copied [OF lay _ that(2), of i] that(1) room by auto
  show ?thesis
  proof (cases "\<exists>i. i < ?n \<and> m ?a = copied g i \<and> fwd g L u os s m ?a i \<and> s < i")
    case True
    then obtain i where i: "i < ?n" "m ?a = copied g i" "fwd g L u os s m ?a i" "s < i" by blast
    have lt: "copied g s < copied g i"
      using i(1,4) unat_copied [OF lay] I(1) by (simp add: word_less_nat_alt)
    have "copied g i - 4 = copied g (i - 1)" using i(4) by (cases i) simp_all
    moreover have "m ?a \<noteq> u ?a" using t i hit_copied [OF lay i(1) I(1)] cp by simp
    ultimately have "scan_list g x (copied g s, copied g ?n, m)
        = (copied g s + 4, copied g ?n, m(copied g s := make_list (home g (i - 1))))"
      using t lt i(2) cp by (simp add: scan_list_def Let_def dest_copied)
    thus ?thesis unfolding sc using step_list_shared [OF inv lay heap s x l i]
      by (intro steps_toI [where xs = "[]"]) simp_all
  next
    case False
    have nlt: "\<not> copied g s < m ?a" if f: "m ?a \<noteq> u ?a"
    proof -
      obtain i where i: "i < ?n" "m ?a = copied g i" "fwd g L u os s m ?a i" using I(5) [OF c(4) av(1) f] by blast
      hence "i \<le> s" using False by auto
      thus ?thesis using unat_copied [OF lay] I(1) s(1) i(2) by (simp add: word_less_nat_alt)
    qed
    have "scan_list g x (copied g s, copied g ?n, m) = (copied g s + 4, copied g ?n + 8,
        let m' = m(copied g s := make_list (home g ?n), copied g ?n := m (addr x), copied g (Suc ?n) := m ?a) in
        if m ?a = u ?a then m'(?a := copied g (Suc ?n)) else m')"
      using t nlt ne [of s, OF _ c(2)] ne [of s, OF _ c(4)] ne [of ?n, OF _ c(4)] ne [of "Suc ?n", OF _ c(4)] s(1) cp
      by (auto simp: scan_list_def Let_def dest_copied fun_upd_twist)
    thus ?thesis unfolding sc using step_list_copy [OF inv lay heap s x l room refl refl]
      by (intro steps_toI [where xs = "[taken u m (addr x), taken u m ?a]"]) (simp_all add: Let_def)
  qed
qed

section \<open>Structures\<close>

lemma copy_up_spec:
  assumes "\<And>t t'. t < n \<Longrightarrow> t' < n \<Longrightarrow> slot p (i + t) \<noteq> slot q (j + t')"
    and "\<And>t t'. t < n \<Longrightarrow> t' < n \<Longrightarrow> t \<noteq> t' \<Longrightarrow> slot p (i + t) \<noteq> slot p (i + t')"
  shows "\<exists>m'. copy_up n (slot p i, slot q j, m) = (slot p (i + n), slot q (j + n), m')
    \<and> (\<forall>t<n. m' (slot p (i + t)) = m (slot q (j + t))) \<and> (\<forall>a. (\<forall>t<n. a \<noteq> slot p (i + t)) \<longrightarrow> m' a = m a)"
  using assms
proof (induction n arbitrary: i j m)
  case (Suc n)
  let ?m = "m(slot p i := m (slot q j))"
  have "slot p (Suc i + t) \<noteq> slot q (Suc j + t')" "t \<noteq> t' \<Longrightarrow> slot p (Suc i + t) \<noteq> slot p (Suc i + t')"
    if "t < n" "t' < n" for t t'
    using Suc.prems(1) [of "Suc t" "Suc t'"] Suc.prems(2) [of "Suc t" "Suc t'"] that by auto
  from Suc.IH [of "Suc i" "Suc j" ?m, OF this] obtain m' where
    m': "copy_up n (slot p (Suc i), slot q (Suc j), ?m) = (slot p (Suc i + n), slot q (Suc j + n), m')"
      "\<forall>t<n. m' (slot p (Suc i + t)) = ?m (slot q (Suc j + t))" "\<forall>a. (\<forall>t<n. a \<noteq> slot p (Suc i + t)) \<longrightarrow> m' a = ?m a"
    by blast
  have first: "m' (slot p i) = m (slot q j)" using m'(3) Suc.prems(2) [of 0 "Suc _"] by simp
  have "m' (slot p (i + t)) = m (slot q (j + t))" if "t < Suc n" for t
  proof (cases t)
    case 0
    thus ?thesis using first by simp
  next
    case (Suc r)
    hence "?m (slot q (Suc j + r)) = m (slot q (Suc j + r))" using Suc.prems(1) [of 0 "Suc r"] that by simp
    thus ?thesis using m'(2) that Suc by simp
  qed
  moreover have "m' a = m a" if h: "\<forall>t<Suc n. a \<noteq> slot p (i + t)" for a
  proof -
    have "a \<noteq> slot p i" using h by fastforce
    moreover have "\<forall>t<n. a \<noteq> slot p (Suc i + t)" using h by fastforce
    ultimately show ?thesis using m'(3) by simp
  qed
  moreover have "copy_up (Suc n) (slot p i, slot q j, m) = (slot p (i + Suc n), slot q (j + Suc n), m')"
    using m'(1) by simp
  ultimately show ?case by blast
qed simp

lemma str_cells:
  assumes "gc_word g L u x" "is_str x" "\<not> hit_old g (addr x)"
  shows "addr x \<notin> L" "hit_mid g (addr x)" "is_cst (u (addr x))" "u (addr x) \<noteq> FVL_TAG"
    "1 \<le> unat (arity (u (addr x)))"
    "\<And>k. k \<in> {1..unat (arity (u (addr x)))} \<Longrightarrow> slot (addr x) k \<in> L \<and> hit_mid g (slot (addr x) k)"
  using assms by (auto simp: gc_word_def)

lemma is_var_addr [simp]: "is_var (addr x)"
proof -
  have "addr x AND TG2_MASK = 0"
    by (rule bit_word_eqI) (auto simp: addr_def ADR_MASK_not bit_simps)
  thus ?thesis by (simp add: is_var_def tag_def REF_TAG_def)
qed

lemma step_str_shared:
  assumes inv: "gc_inv g L u lim os s m" and lay: "gc_layout g lim" and heap: "gc_heap g L u"
    and s: "s < length os" "os ! s = (kd, w)" "kd \<noteq> Func" and x: "trace_end g u k w x"
    and l: "is_str x" "\<not> hit_old g (addr x)" "gc_word g L u x"
    and f: "fwd g L u os s m (addr x) i"
  shows "gc_inv g L u lim os (Suc s) (m(copied g s := make_str (home g i)))"
proof -
  have "str_at u os i (addr x)" using f str_cells(1) [OF l(3,1,2)] by (simp add: fwd_def)
  from final.str [OF s(3) x l(1,2) this]
  show ?thesis
    by (intro gc_inv_write [OF inv lay heap s(1)]) (use s(2) nothing_here [OF inv lay heap s(1,2) x] l(1) in auto)
qed

lemma step_str_copy:
  assumes inv: "gc_inv g L u lim os s m" and lay: "gc_layout g lim" and heap: "gc_heap g L u"
    and s: "s < length os" "os ! s = (kd, w)" "kd \<noteq> Func" and x: "trace_end g u k w x"
    and l: "is_str x" "\<not> hit_old g (addr x)" "gc_word g L u x"
    and ar: "ar = unat (arity (u (addr x)))" and room: "length os + Suc ar \<le> lim" and un: "m (addr x) = u (addr x)"
    and c1: "m' (copied g s) = make_str (home g (length os))" "m' (copied g (length os)) = u (addr x)"
      "m' (addr x) = copied g (length os)"
    and c2: "\<And>t. t < ar \<Longrightarrow> m' (copied g (Suc (length os) + t)) = m (slot (addr x) (Suc t))"
    and c3: "\<And>a. a \<noteq> addr x \<Longrightarrow> a \<noteq> copied g s \<Longrightarrow> \<forall>t<Suc ar. a \<noteq> copied g (length os + t) \<Longrightarrow> m' a = m a"
  shows "gc_inv g L u lim (os @ (Func, u (addr x)) # map (\<lambda>t. taken u m (slot (addr x) (Suc t))) [0..<ar]) (Suc s) m'"
proof (rule gc_inv_step [OF inv s(1) lay refl])
  note I = gc_invD [OF inv]
  note c = str_cells [OF l(3,1,2)]
  let ?tk = "\<lambda>t. taken u m (slot (addr x) (Suc t))"
  let ?xs = "(Func, u (addr x)) # map ?tk [0..<ar]" and ?n = "length os"
  have cell: "slot (addr x) (Suc t) \<in> L" "hit_mid g (slot (addr x) (Suc t))" if "t < ar" for t
    using c(6) [of "Suc t"] that ar by auto
  have ne: "copied g i \<noteq> a" if "i \<le> ?n + ar" "hit_mid g a" for i a
    using mid_not_copied [OF lay _ that(2), of i] that(1) room by auto
  have inj: "(copied g i = copied g j) = (i = j)" if "i \<le> ?n + ar" "j \<le> ?n + ar" for i j
    using copied_inj [OF lay, of i j] that room by simp
  have nth: "(os @ ?xs) ! ?n = (Func, u (addr x))" "\<And>t. t < ar \<Longrightarrow> (os @ ?xs) ! (?n + Suc t) = ?tk t"
    by (simp_all add: nth_append)
  have mid: "m' a = m a" if "hit_mid g a" "a \<noteq> addr x" for a
    using c3 [OF that(2)] ne [OF _ that(1)] s(1) by (metis add_left_mono le_add1 less_Suc_eq_le less_imp_le order_trans)
  have str: "str_at u (os @ ?xs) ?n (addr x)"
    unfolding str_at_def
  proof (intro conjI ballI)
    fix t
    assume t: "t \<in> {1..unat (arity (u (addr x)))}"
    then obtain r where r: "t = Suc r" "r < ar" using ar by (cases t) auto
    show "?n + t < length (os @ ?xs)" using r by simp
    show "fst ((os @ ?xs) ! (?n + t)) \<noteq> Func" "snd ((os @ ?xs) ! (?n + t)) = u (slot (addr x) t)"
      unfolding r(1) nth(2) [OF r(2)] by simp_all
  qed (simp_all add: nth)
  show "length (os @ ?xs) \<le> lim" using room by simp
  show "list_all (origin_ok g L u) ?xs"
    using heap_origin [OF heap cell] c(3,4) by (auto simp: list_all_iff taken_def origin_ok_def [of _ _ _ "(Func, _)"])
  show "m' a = m a" if "\<not> hit_mid g a" "\<forall>i<length (os @ ?xs). a \<noteq> copied g i" for a
    by (rule c3) (use that s(1) c(2) in auto)
  show "m' (copied g i) = m (copied g i)" if "i < ?n" "i \<noteq> s" for i
    by (rule c3) (use that s(1) inj ne c(2) in auto)
  show "final g u (os @ ?xs) m' (fst (os ! s)) (snd (os ! s)) (m' (copied g s))"
    unfolding c1(1) s(2) fst_conv snd_conv by (rule final.str [OF s(3) x l(1,2) str])
  show "pending g L u m' (fst ((os @ ?xs) ! i)) (snd ((os @ ?xs) ! i)) (m' (copied g i))"
    if h: "?n \<le> i" "i < length (os @ ?xs)" for i
  proof (cases "i = ?n")
    case True
    thus ?thesis using c1(2) by (simp add: nth pending_def)
  next
    case False
    then obtain t where t: "i = ?n + Suc t" using h(1) by (metis le_neq_implies_less less_imp_Suc_add add_Suc_right)
    hence ta: "t < ar" using h(2) by simp
    have "slot (addr x) (Suc t) \<noteq> addr x" using cell(1) [OF ta] c(1) by auto
    hence "m' (slot (addr x) (Suc t)) = m (slot (addr x) (Suc t))" by (rule mid [OF cell(2) [OF ta]])
    moreover have "m' (copied g i) = m (slot (addr x) (Suc t))" using c2 [OF ta] t by simp
    ultimately show ?thesis unfolding t nth(2) [OF ta] by (intro taken_pending [OF cell [OF ta]]) simp_all
  qed
  show "m' a = m a \<or> m a = u a \<and> (\<exists>i<length (os @ ?xs). m' a = copied g i \<and> fwd g L u (os @ ?xs) (Suc s) m' a i)"
    if "hit_mid g a" for a
  proof (cases "a = addr x")
    case True
    have "fwd g L u (os @ ?xs) (Suc s) m' a ?n" unfolding True fwd_def if_not_P [OF c(1)] by (rule str)
    thus ?thesis using True c1(3) un by (intro disjI2 conjI exI [of _ ?n]) simp_all
  next
    case False
    thus ?thesis using mid [OF that] by auto
  qed
  show "m' (copied g s) = home g s" if "a \<in> L" "hit_mid g a" "u a = a" "m a = copied g s" for a
    using nothing_here [OF inv lay heap s(1,2) x _ that] l(1) by auto
qed (use heapD(1) [OF heap] in blast)

lemma step_str:
  assumes inv: "gc_inv g L u lim os s m" and lay: "gc_layout g lim" and heap: "gc_heap g L u"
    and s: "s < length os" "os ! s = (kd, w)" "kd \<noteq> Func" and x: "trace_end g u k w x"
    and l: "is_str x" "\<not> hit_old g (addr x)" "gc_word g L u x" and room: "length os + 512 \<le> lim"
  shows "steps_to g L u lim os s (scan_word g x (copied g s, copied g (length os), m))"
proof -
  note I = gc_invD [OF inv]
  note c = str_cells [OF l(3,1,2)]
  have cp: "is_var (g_copy g)" using lay by (simp add: gc_layout_def)
  have k: "\<not> is_var x" "\<not> is_cst x" "\<not> is_fvl x" "\<not> is_list x" using l(1) fvl_cst [of x] by auto
  let ?a = "addr x" and ?n = "length os" and ?ar = "unat (arity (u (addr x)))"
  have sc: "scan_word g x y = scan_str g x y" for y using k l by (simp add: scan_word_def)
  have ar: "?ar \<le> 511" by (rule unat_arity_le)
  have nv: "\<not> is_var (u ?a)" using c(3) by simp
  hence t: "(is_var (m ?a) \<and> hit_copied_var g (copied g ?n) (m ?a)) = (m ?a \<noteq> u ?a)"
    using forwarded_test [OF inv lay is_var_addr c(2) _ cp] by blast
  have ne: "copied g i \<noteq> a" if "i \<le> ?n + ?ar" "hit_mid g a" for i a
    using mid_not_copied [OF lay _ that(2), of i] that(1) room ar by auto
  have inj: "(copied g i = copied g j) = (i = j)" if "i \<le> ?n + ?ar" "j \<le> ?n + ?ar" for i j
    using copied_inj [OF lay, of i j] that room ar by simp
  show ?thesis
  proof (cases "m ?a = u ?a")
    case False
    obtain i where i: "i < ?n" "m ?a = copied g i" "fwd g L u os s m ?a i"
      using I(5) [OF c(2) is_var_addr False] by blast
    have "scan_str g x (copied g s, copied g ?n, m) = (copied g s + 4, copied g ?n, m(copied g s := make_str (home g i)))"
      using t False i(2) cp by (simp add: scan_str_def Let_def dest_copied)
    thus ?thesis unfolding sc using step_str_shared [OF inv lay heap s x l i(3)]
      by (intro steps_toI [where xs = "[]"]) simp_all
  next
    case True
    let ?m2 = "m(?a := copied g ?n, copied g s := make_str (home g ?n), copied g ?n := u ?a)"
    have "slot (g_copy g) (Suc ?n + t) \<noteq> slot ?a (1 + t')" if "t < ?ar" "t' < ?ar" for t t'
      using ne [of "Suc ?n + t" "slot ?a (1 + t')"] c(6) [of "1 + t'"] that by auto
    moreover have "slot (g_copy g) (Suc ?n + t) \<noteq> slot (g_copy g) (Suc ?n + t')" if "t < ?ar" "t' < ?ar" "t \<noteq> t'" for t t'
      using inj [of "Suc ?n + t" "Suc ?n + t'"] that by simp
    ultimately obtain m' where m':
      "copy_up ?ar (copied g (Suc ?n), slot ?a 1, ?m2) = (copied g (Suc ?n + ?ar), slot ?a (1 + ?ar), m')"
      "\<forall>t < ?ar. m' (copied g (Suc ?n + t)) = ?m2 (slot ?a (1 + t))"
      "\<forall>a. (\<forall>t < ?ar. a \<noteq> copied g (Suc ?n + t)) \<longrightarrow> m' a = ?m2 a"
      using copy_up_spec [of ?ar "g_copy g" "Suc ?n" ?a 1 ?m2] by blast
    have "scan_str g x (copied g s, copied g ?n, m) = (copied g s + 4, copied g (Suc ?n + ?ar), m')"
      using nv True c(4) cp m'(1) slot_simps(2) [of ?a 0]
      by (simp add: scan_str_def Let_def dest_copied is_fvl_def)
    moreover have "gc_inv g L u lim (os @ (Func, u ?a) # map (\<lambda>t. taken u m (slot ?a (Suc t))) [0..<?ar]) (Suc s) m'"
    proof (rule step_str_copy [OF inv lay heap s x l refl _ True])
      have sep: "\<forall>t < ?ar. copied g i \<noteq> copied g (Suc ?n + t)" if "i \<le> ?n" for i using inj that by simp
      show "m' (copied g s) = make_str (home g ?n)" "m' (copied g ?n) = u ?a"
        using m'(3) sep s(1) inj [of s ?n] by simp_all
      have "\<forall>t < ?ar. ?a \<noteq> copied g (Suc ?n + t)"
      proof (intro allI impI)
        show "?a \<noteq> copied g (Suc ?n + t)" if "t < ?ar" for t using ne [of "Suc ?n + t", OF _ c(2)] that by auto
      qed
      thus "m' ?a = copied g ?n" using m'(3) ne [OF _ c(2), of s] ne [OF _ c(2), of ?n] s(1) by simp
      show "m' (copied g (Suc ?n + t)) = m (slot ?a (Suc t))" if h: "t < ?ar" for t
      proof -
        have a: "slot ?a (Suc t) \<in> L" "hit_mid g (slot ?a (Suc t))" using c(6) [of "Suc t"] h by auto
        have "slot ?a (Suc t) \<noteq> ?a" using a(1) c(1) by auto
        thus ?thesis using m'(2) h ne [of s, OF _ a(2)] ne [of ?n, OF _ a(2)] s(1) by simp
      qed
      show "m' a = m a" if "a \<noteq> ?a" "a \<noteq> copied g s" "\<forall>t < Suc ?ar. a \<noteq> copied g (?n + t)" for a
      proof -
        have "a \<noteq> copied g ?n" "\<forall>t < ?ar. a \<noteq> copied g (Suc ?n + t)" using that(3) by fastforce+
        thus ?thesis using m'(3) that(1,2) by simp
      qed
    qed (use room ar in simp)
    ultimately show ?thesis unfolding sc using ar
      by (intro steps_toI [where xs = "(Func, u ?a) # map (\<lambda>t. taken u m (slot ?a (Suc t))) [0..<?ar]"]) simp_all
  qed
qed

section \<open>The whole scan\<close>

lemma chain_word:
  assumes heap: "gc_heap g L u"
  shows "trace g u k w x \<Longrightarrow> gc_word g L u w \<Longrightarrow> gc_word g L u x"
proof (induction rule: trace.induct)
  case (hop w k x)
  hence "w \<in> L" "hit_mid g w" using heapD(2) [OF heap] by (auto simp: stops_def gc_word_def)
  thus ?case using hop.IH heapD(3) [OF heap] by blast
qed

lemma scan_step_inv:
  assumes inv: "gc_inv g L u lim os s m" and lay: "gc_layout g lim" and heap: "gc_heap g L u"
    and s: "s < length os" and room: "length os + 512 \<le> lim"
  shows "\<exists>y. scan_step g (copied g s, copied g (length os), m) = Some y \<and> steps_to g L u lim os s y"
proof -
  obtain kd w where o: "os ! s = (kd, w)" by fastforce
  show ?thesis
  proof (cases "kd = Func")
    case True
    thus ?thesis using step_func [OF inv lay heap s] o by blast
  next
    case False
    have "origin_ok g L u (kd, w)" using gc_invD(3) [OF inv] s o by (metis list_all_length)
    then obtain k x where x: "gc_word g L u w" "trace_end g u k w x" using False by (auto simp: origin_ok_def)
    have xw: "gc_word g L u x" using chain_word [OF heap _ x(1)] x(2) by (auto simp: trace_end_def)
    from scan_root [OF inv lay heap s o False x(2,1)] obtain r where
      r: "gc_shunt g (copied g (length os)) m (m (copied g s)) = Some r"
      "r = x \<and> (is_var x \<and> \<not> hit_old g x \<longrightarrow> x \<in> L \<and> hit_mid g x \<and> m x = x)
         \<or> (\<exists>a i. r = copied g i \<and> forwarded g L u os s m a i \<and> (kd = Alias \<and> w = u a \<or> (\<exists>l. trace g u l w a)))"
      by blast
    have "steps_to g L u lim os s (scan_word g r (copied g s, copied g (length os), m))"
      using r(2)
    proof (elim disjE exE conjE)
      assume rx: "r = x" and v: "is_var x \<and> \<not> hit_old g x \<longrightarrow> x \<in> L \<and> hit_mid g x \<and> m x = x"
      consider (kept) "is_cst x \<or> is_var x \<and> hit_old g x \<or> \<not> is_var x \<and> hit_old g (addr x)"
        | (unbound) "is_var x" "\<not> hit_old g x" | (lst) "is_list x" "\<not> hit_old g (addr x)"
        | (str) "is_str x" "\<not> hit_old g (addr x)"
        using kind_exhaust [of x] by blast
      thus ?thesis
      proof cases
        case kept
        show ?thesis unfolding rx by (rule step_kept [OF inv lay heap s o False x(2) kept])
      next
        case unbound
        show ?thesis unfolding rx by (rule step_unbound [OF inv lay heap s o False x(2) unbound]) (use v unbound in auto)
      next
        case lst
        show ?thesis unfolding rx by (rule step_list [OF inv lay heap s o False x(2) lst xw]) (use room in simp)
      next
        case str
        show ?thesis unfolding rx by (rule step_str [OF inv lay heap s o False x(2) str xw room])
      qed
    next
      fix a i
      assume rc: "r = copied g i" and f: "forwarded g L u os s m a i"
      assume "kd = Alias" "w = u a"
      thus ?thesis unfolding rc by (intro step_forwarded [OF inv lay heap s o False x(2) f]) simp
    next
      fix a i l
      assume rc: "r = copied g i" and f: "forwarded g L u os s m a i"
      assume "trace g u l w a"
      thus ?thesis unfolding rc by (intro step_forwarded [OF inv lay heap s o False x(2) f]) blast
    qed
    thus ?thesis using r(1) by (simp add: scan_step_def)
  qed
qed

text \<open>Whenever another word is scanned, a structure of any arity still fits below lim.\<close>

definition scan_iter :: "gc \<Rightarrow> addr \<times> addr \<times> store \<Rightarrow> nat \<Rightarrow> (addr \<times> addr \<times> store) option" where
  "scan_iter g x k = ((\<lambda>r. Option.bind r (scan_step g)) ^^ k) (Some x)"

definition gc_room :: "gc \<Rightarrow> nat \<Rightarrow> addr \<times> addr \<times> store \<Rightarrow> bool" where
  "gc_room g lim x =
     (\<forall>k. (\<forall>j\<le>k. scan_more (scan_iter g x j)) \<longrightarrow>
          (case scan_iter g x k of None \<Rightarrow> True
           | Some (scanp, freep, m) \<Rightarrow> unat freep + 2048 \<le> unat (g_copy g) + 4 * lim))"

lemma scan_iterates:
  assumes inv: "gc_inv g L u lim os0 0 m0" and lay: "gc_layout g lim" and heap: "gc_heap g L u"
    and room: "gc_room g lim (g_copy g, copied g (length os0), m0)"
  shows "(\<forall>j<k. scan_more (scan_iter g (g_copy g, copied g (length os0), m0) j)) \<Longrightarrow>
    \<exists>xs m. scan_iter g (g_copy g, copied g (length os0), m0) k = Some (copied g k, copied g (length (os0 @ xs)), m)
      \<and> gc_inv g L u lim (os0 @ xs) k m"
proof (induction k)
  case 0
  thus ?case using inv by (intro exI [of _ "[]"]) (simp add: scan_iter_def)
next
  case (Suc k)
  let ?x = "(g_copy g, copied g (length os0), m0)"
  from Suc.IH Suc.prems obtain xs m where
    k: "scan_iter g ?x k = Some (copied g k, copied g (length (os0 @ xs)), m)" "gc_inv g L u lim (os0 @ xs) k m" by auto
  let ?os = "os0 @ xs"
  have "scan_more (scan_iter g ?x k)" using Suc.prems by simp
  hence lt: "k < length ?os"
    using k unat_copied [OF lay] gc_invD(1,2) [OF k(2)] by (simp add: scan_more_def word_less_nat_alt)
  have "unat (copied g (length ?os)) + 2048 \<le> unat (g_copy g) + 4 * lim"
  proof -
    have "\<forall>j\<le>k. scan_more (scan_iter g ?x j)" using Suc.prems by (simp add: less_Suc_eq_le)
    hence "case scan_iter g ?x k of None \<Rightarrow> True
       | Some (scanp, freep, m) \<Rightarrow> unat freep + 2048 \<le> unat (g_copy g) + 4 * lim"
      using room unfolding gc_room_def by blast
    thus ?thesis using k(1) by simp
  qed
  hence "length ?os + 512 \<le> lim" using unat_copied [OF lay gc_invD(1) [OF k(2)]] by simp
  from scan_step_inv [OF k(2) lay heap lt this] obtain ys m' where
    "scan_step g (copied g k, copied g (length ?os), m) = Some (copied g (Suc k), copied g (length (?os @ ys)), m')"
    "gc_inv g L u lim (?os @ ys) (Suc k) m'" unfolding steps_to_def by blast
  moreover have "scan_iter g ?x (Suc k) = Option.bind (scan_iter g ?x k) (scan_step g)" by (simp add: scan_iter_def)
  ultimately show ?case using k(1) by (intro exI [of _ "xs @ ys"] exI [of _ m']) simp
qed

lemma gc_scan_final:
  assumes inv: "gc_inv g L u lim os0 0 m0" and lay: "gc_layout g lim" and heap: "gc_heap g L u"
    and room: "gc_room g lim (g_copy g, copied g (length os0), m0)"
  shows "\<exists>xs m. gc_scan g (g_copy g, copied g (length os0), m0)
      = Some (copied g (length (os0 @ xs)), copied g (length (os0 @ xs)), m)
    \<and> gc_inv g L u lim (os0 @ xs) (length (os0 @ xs)) m"
proof -
  let ?x = "(g_copy g, copied g (length os0), m0)" and ?F = "\<lambda>r. Option.bind r (scan_step g)"
  note it = scan_iterates [OF inv lay heap room]
  have "\<exists>k. \<not> scan_more (scan_iter g ?x k)"
  proof (rule ccontr)
    assume "\<nexists>k. \<not> scan_more (scan_iter g ?x k)"
    with it [of "Suc lim"] obtain xs m where "gc_inv g L u lim (os0 @ xs) (Suc lim) m" by blast
    from gc_invD(1,2) [OF this] show False by simp
  qed
  then obtain t where t: "while_option scan_more ?F (Some ?x) = Some t"
    using while_option_ends [of scan_more _ ?F "Some ?x"] by (auto simp: scan_iter_def)
  from while_option_iterate [OF t] obtain k where
    k: "t = scan_iter g ?x k" "\<not> scan_more t" "\<forall>j<k. scan_more (scan_iter g ?x j)" by (auto simp: scan_iter_def)
  from it [OF k(3)] obtain xs m where
    e: "scan_iter g ?x k = Some (copied g k, copied g (length (os0 @ xs)), m)" "gc_inv g L u lim (os0 @ xs) k m" by blast
  have "k = length (os0 @ xs)"
    using k(1,2) e(1) unat_copied [OF lay] gc_invD(1,2) [OF e(2)] by (simp add: scan_more_def word_less_nat_alt)
  thus ?thesis using e k(1) t by (auto simp: gc_scan_def)
qed

end
