(* ===== verification/MLVM_Collect_Models.thy ===== *)
theory MLVM_Collect_Models
  imports MLVM_Collect_Scan
begin

text \<open>
  The meaning of a collection: once every word of the buffer is scanned and moved
  back, the solutions of the store, as valuations of its term cells, are those of
  the store before, seen from the older cells and from the copied roots.
\<close>

section \<open>Words on either side of the collecting line\<close>

definition old_word :: "gc \<Rightarrow> word32 \<Rightarrow> bool" where
  "old_word g w = (is_cst w \<or> is_var w \<and> hit_old g w \<or> \<not> is_var w \<and> hit_old g (addr w))"

text \<open>A store that differs in old term cells only keeps words well-formed.\<close>

lemma good_word_store:
  assumes "good_word g L m w" "\<And>a. a \<notin> L \<Longrightarrow> hit_old g a \<or> hit_mid g a \<Longrightarrow> u a = m a"
  shows "good_word g L u w"
proof (cases "is_str w")
  case True
  hence "u (addr w) = m (addr w)" using assms by (auto simp: good_word_def wf_word_def sided_def)
  thus ?thesis using assms(1) True by (simp add: good_word_def wf_word_def sided_def split: if_splits)
qed (use assms(1) in \<open>simp add: good_word_def wf_word_def sided_def\<close>)

lemma good_gc_word:
  assumes g: "good_word g L u w" and L: "\<And>a. a \<in> L \<Longrightarrow> hit_old g a \<or> hit_mid g a"
  shows "gc_word g L u w"
proof -
  have "hit_mid g (slot (addr w) k)"
    if "is_str w" "hit_mid g (addr w)" "u (addr w) \<noteq> FVL_TAG" "k \<in> {1..unat (arity (u (addr w)))}" for k
  proof -
    have "slot (addr w) k \<in> L" "hit_old g (slot (addr w) k) = hit_old g (addr w)"
      using g that by (auto simp: good_word_def wf_word_def sided_def slot_def)
    thus ?thesis using L that(2) old_not_mid by blast
  qed
  thus ?thesis using g old_not_mid
    by (auto simp: good_word_def wf_word_def sided_def gc_word_def slot_def split: if_splits)
qed

text \<open>An old word reads the same in a store that changed old term cells only.\<close>

lemma tval_old:
  assumes "good_word g L m w" "old_word g w"
    and "\<And>a. a \<in> L \<Longrightarrow> hit_old g a \<Longrightarrow> r' a = r a" "\<And>a. hit_old g a \<Longrightarrow> a \<notin> L \<Longrightarrow> m' a = m a"
  shows "tval m' r' w = tval m r w"
proof -
  consider "is_cst w" | "is_var w" "hit_old g w" | "is_list w" "hit_old g (addr w)" | "is_str w" "hit_old g (addr w)"
    using assms(2) kind_exhaust [of w] by (auto simp: old_word_def)
  thus ?thesis
  proof cases
    case 2
    thus ?thesis using assms(1,3) by (auto simp: tval_def good_word_def wf_word_def)
  next
    case 3
    thus ?thesis using assms(1,3) by (auto simp: tval_def good_word_def wf_word_def sided_def)
  next
    case 4
    have e: "m' (addr w) = m (addr w)" using 4 assms(1,4) by (simp add: good_word_def wf_word_def)
    show ?thesis
    proof (cases "m (addr w) = FVL_TAG")
      case True
      thus ?thesis using 4 e assms(1,4) by (auto simp: tval_def good_word_def wf_word_def sided_def)
    next
      case False
      have "r' (addr w + 4 * of_nat i) = r (addr w + 4 * of_nat i)" if "i \<in> {1..unat (arity (m (addr w)))}" for i
        using 4 False assms(1,3) that by (simp add: good_word_def wf_word_def sided_def slot_def)
      hence "map (\<lambda>i. r' (addr w + 4 * of_nat i)) [1..<Suc (unat (arity (m (addr w))))]
          = map (\<lambda>i. r (addr w + 4 * of_nat i)) [1..<Suc (unat (arity (m (addr w))))]"
        by (intro map_cong refl) (simp del: upt_Suc)
      thus ?thesis using 4 e False by (simp add: tval_def del: upt_Suc)
    qed
  qed (simp_all add: tval_def)
qed

section \<open>A finished collection\<close>

text \<open>
  m0 is the store before, u the one at the start of the scan, m the one at its
  end, M the one after the copies are moved back; rt gives the word of the buffer
  that took the value of an old root.
\<close>

definition collected ::
  "gc \<Rightarrow> addr set \<Rightarrow> store \<Rightarrow> store \<Rightarrow> nat \<Rightarrow> origins \<Rightarrow> store \<Rightarrow> store \<Rightarrow> (addr \<Rightarrow> nat option) \<Rightarrow> bool" where
  "collected g L m0 u lim os m M rt =
     (gc_layout g lim \<and> gc_heap g L u \<and> gc_inv g L u lim os (length os) m
      \<and> (\<forall>a. hit_mid g a \<longrightarrow> u a = m0 a)
      \<and> (\<forall>i<length os. M (home g i) = m (copied g i))
      \<and> (\<forall>a. hit_old g a \<longrightarrow> M a = (case rt a of None \<Rightarrow> m0 a | Some j \<Rightarrow> home g j))
      \<and> (\<forall>a j. rt a = Some j \<longrightarrow> a \<in> L \<and> term_at os j (m0 a))
      \<and> (\<forall>a\<in>L. hit_old g a \<and> rt a = None \<longrightarrow> old_word g (m0 a))
      \<and> (\<forall>a\<in>L. good_word g L m0 (m0 a))
      \<and> (\<forall>i<length os. fst (os ! i) \<noteq> Func \<longrightarrow> good_word g L m0 (snd (os ! i))))"

definition new_cells :: "gc \<Rightarrow> addr set \<Rightarrow> origins \<Rightarrow> addr set" where
  "new_cells g L os = {a \<in> L. hit_old g a} \<union> {home g i | i. i < length os \<and> fst (os ! i) \<noteq> Func}"

lemma collectedD:
  assumes "collected g L m0 u lim os m M rt"
  shows "gc_layout g lim" "gc_heap g L u" "gc_inv g L u lim os (length os) m"
    and "hit_mid g a \<Longrightarrow> u a = m0 a" "i < length os \<Longrightarrow> M (home g i) = m (copied g i)"
    and "hit_old g a \<Longrightarrow> M a = (case rt a of None \<Rightarrow> m0 a | Some j \<Rightarrow> home g j)"
    and "rt a = Some j \<Longrightarrow> a \<in> L \<and> term_at os j (m0 a)"
    and "a \<in> L \<Longrightarrow> hit_old g a \<Longrightarrow> rt a = None \<Longrightarrow> old_word g (m0 a)"
    and "a \<in> L \<Longrightarrow> good_word g L m0 (m0 a)"
    and "i < length os \<Longrightarrow> fst (os ! i) \<noteq> Func \<Longrightarrow> good_word g L m0 (snd (os ! i))"
  using assms unfolding collected_def by blast+

lemma home_not_old: "gc_layout g lim \<Longrightarrow> i < lim \<Longrightarrow> \<not> hit_old g (home g i)"
  using unat_slot [of "g_cline g" i]
  by (auto simp: gc_layout_def hit_old_def word_less_nat_alt)

lemma home_inj: "gc_layout g lim \<Longrightarrow> i \<le> lim \<Longrightarrow> j \<le> lim \<Longrightarrow> (home g i = home g j) = (i = j)"
  by (rule slot_inj) (auto simp: gc_layout_def)

text \<open>The end of a chain has the value of its start.\<close>

lemma tval_trace:
  assumes "collected g L m0 u lim os m M rt" "\<And>a. a \<in> L \<Longrightarrow> hit_mid g a \<Longrightarrow> m0 a \<noteq> a \<Longrightarrow> r a = tval m0 r (m0 a)"
  shows "trace g u k w x \<Longrightarrow> good_word g L m0 w \<Longrightarrow> tval m0 r w = tval m0 r x \<and> good_word g L m0 x"
proof (induction rule: trace.induct)
  case (hop w k x)
  note D = collectedD [OF assms(1)]
  have w: "is_var w" "w \<in> L" "hit_mid g w" "u w \<noteq> w" "u w = m0 w"
    using hop heapD(2) [OF D(2)] D(4) by (auto simp: stops_def good_word_def wf_word_def)
  have "tval m0 r w = tval m0 r (u w)" using assms(2) [OF w(2,3)] w by (simp add: tval_def)
  thus ?case using hop.IH D(9) [OF w(2)] w(5) by simp
qed simp

section \<open>Reading copied words\<close>

lemma final_func: "final g u os m Func w c \<Longrightarrow> c = w"
  by (auto elim: final.cases)

lemma tval_new_list:
  assumes "collected g L m0 u lim os m M rt"
  shows "tval M r (make_list (home g j)) = RList (r (home g j)) (r (home g (Suc j)))"
proof -
  have "is_var (home g j)" using collectedD(1) [OF assms] by (simp add: gc_layout_def)
  thus ?thesis by (simp add: tval_def addr_make)
qed

lemma good_str:
  assumes "collected g L m0 u lim os m M rt" "good_word g L m0 x" "is_str x" "\<not> hit_old g (addr x)"
  shows "hit_mid g (addr x)" "m0 (addr x) \<noteq> FVL_TAG" "is_cst (m0 (addr x))" "u (addr x) = m0 (addr x)"
    "1 \<le> unat (arity (m0 (addr x)))"
    "k \<in> {1..unat (arity (m0 (addr x)))} \<Longrightarrow> slot (addr x) k \<in> L \<and> hit_mid g (slot (addr x) k)"
proof -
  show *: "hit_mid g (addr x)" "m0 (addr x) \<noteq> FVL_TAG" "is_cst (m0 (addr x))" "u (addr x) = m0 (addr x)"
    using assms collectedD(4) [OF assms(1)] by (auto simp: good_word_def sided_def split: if_splits)
  show "1 \<le> unat (arity (m0 (addr x)))" using assms(2,3) * by (simp add: good_word_def wf_word_def)
  assume "k \<in> {1..unat (arity (m0 (addr x)))}"
  hence "slot (addr x) k \<in> L" "hit_old g (slot (addr x) k) = hit_old g (addr x)"
    using assms(2,3) * by (auto simp: good_word_def wf_word_def sided_def slot_def)
  thus "slot (addr x) k \<in> L \<and> hit_mid g (slot (addr x) k)"
    using assms(4) heapD(2) [OF collectedD(2) [OF assms(1)]] by blast
qed

lemma good_list:
  assumes "collected g L m0 u lim os m M rt" "good_word g L m0 x" "is_list x" "\<not> hit_old g (addr x)"
  shows "addr x \<in> L" "addr x + 4 \<in> L" "hit_mid g (addr x)" "hit_mid g (addr x + 4)"
  using assms heapD(2) [OF collectedD(2) [OF assms(1)]]
  by (auto simp: good_word_def wf_word_def sided_def)

lemma functor_copied:
  assumes "collected g L m0 u lim os m M rt" "str_at u os j a"
  shows "M (home g j) = u a"
proof -
  note D = collectedD [OF assms(1)]
  have j: "j < length os" "os ! j = (Func, u a)" using assms(2) by (auto simp: str_at_def)
  have "final g u os m (fst (os ! j)) (snd (os ! j)) (m (copied g j))" using gc_invD(6) [OF D(3) j(1)] .
  hence "m (copied g j) = u a" using j(2) final_func by auto
  thus ?thesis using D(5) [OF j(1)] by simp
qed

lemma slot_slot: "slot (slot p i) j = slot p (i + j)" by (simp add: slot_def algebra_simps)

lemma tval_new_str:
  assumes c: "collected g L m0 u lim os m M rt" and "good_word g L m0 x" "is_str x" "\<not> hit_old g (addr x)"
    and s: "str_at u os j (addr x)"
  shows "tval M r (make_str (home g j))
    = RStr (m0 (addr x)) (map (\<lambda>k. r (home g (j + k))) [1..<Suc (unat (arity (m0 (addr x))))])"
proof -
  note g = good_str [OF c assms(2-4)]
  have "is_var (home g j)" using collectedD(1) [OF c] by (simp add: gc_layout_def)
  moreover have "M (home g j) = m0 (addr x)" using functor_copied [OF c s] g(4) by simp
  moreover have "home g j + 4 * of_nat k = home g (j + k)" for k using slot_slot [of "g_cline g" j k] by (simp add: slot_def)
  ultimately show ?thesis using g(2) by (simp add: tval_def addr_make del: upt_Suc)
qed

lemma tval_mid_str:
  assumes c: "collected g L m0 u lim os m M rt" and "good_word g L m0 x" "is_str x" "\<not> hit_old g (addr x)"
  shows "tval m0 r x = RStr (m0 (addr x)) (map (\<lambda>k. r (slot (addr x) k)) [1..<Suc (unat (arity (m0 (addr x))))])"
  using assms(3) good_str(2) [OF assms] by (simp add: tval_def slot_def del: upt_Suc)

lemma tval_mid_list: "is_list x \<Longrightarrow> tval m0 r x = RList (r (addr x)) (r (addr x + 4))"
  by (simp add: tval_def)

section \<open>Every solution before is one after\<close>

definition image_valuation :: "gc \<Rightarrow> store \<Rightarrow> origins \<Rightarrow> (addr \<Rightarrow> rtree) \<Rightarrow> addr \<Rightarrow> rtree" where
  "image_valuation g m0 os r a =
     (if \<exists>i<length os. a = home g i then tval m0 r (snd (os ! (THE i. i < length os \<and> a = home g i))) else r a)"

lemma image_home:
  assumes "collected g L m0 u lim os m M rt" "i < length os"
  shows "image_valuation g m0 os r (home g i) = tval m0 r (snd (os ! i))"
proof -
  note D = collectedD [OF assms(1)]
  have "(THE j. j < length os \<and> home g i = home g j) = i"
    using assms(2) home_inj [OF D(1)] gc_invD(1) [OF D(3)] by (intro the_equality) auto
  thus ?thesis using assms(2) by (auto simp: image_valuation_def)
qed

lemma image_old:
  assumes "collected g L m0 u lim os m M rt" "hit_old g a"
  shows "image_valuation g m0 os r a = r a"
proof -
  note D = collectedD [OF assms(1)]
  have "a \<noteq> home g i" if "i < length os" for i
    using home_not_old [OF D(1), of i] assms(2) that gc_invD(1) [OF D(3)] by auto
  thus ?thesis by (auto simp: image_valuation_def)
qed

lemma models_cell: "r \<in> models L m0 \<Longrightarrow> good_word g L m0 (m0 a) \<Longrightarrow> is_var a \<Longrightarrow> a \<in> L \<Longrightarrow> tval m0 r (m0 a) = r a"
  by (cases "m0 a = a") (auto simp: models_def tval_def)

text \<open>The value of a copied word under the image of a solution.\<close>

lemma final_image:
  assumes c: "collected g L m0 u lim os m M rt" and r: "r \<in> models L m0"
    and i: "i < length os" "os ! i = (kd, w)" "kd \<noteq> Func"
  shows "tval M (image_valuation g m0 os r) (M (home g i)) = tval m0 r w"
proof -
  note D = collectedD [OF c]
  let ?r = "image_valuation g m0 os r"
  have cell: "tval m0 r (m0 a) = r a" if "a \<in> L" for a
    using models_cell [OF r D(9)] that heapD(1) [OF D(2)] by blast
  have gw: "good_word g L m0 w" using D(10) [OF i(1)] i(2,3) by simp
  have end_value: "tval m0 r w = tval m0 r x \<and> good_word g L m0 x" if "trace g u k w x" for k x
    using tval_trace [OF c _ that gw] cell by metis
  have "final g u os m kd w (M (home g i))" using gc_invD(6) [OF D(3) i(1)] D(5) [OF i(1)] i(2) by simp
  thus ?thesis
  proof cases
    case func
    thus ?thesis using i(3) by simp
  next
    case (kept k)
    let ?x = "M (home g i)"
    have x: "tval m0 r w = tval m0 r ?x" "good_word g L m0 ?x" "old_word g ?x"
      using end_value [of k ?x] kept by (auto simp: trace_end_def old_word_def)
    have "tval M ?r ?x = tval m0 r ?x"
    proof (rule tval_old [OF x(2,3)])
      show "M a = m0 a" if "hit_old g a" "a \<notin> L" for a
        using D(6) [OF that(1)] D(7) [of a] that(2) by (auto split: option.splits)
    qed (use image_old [OF c] in blast)
    thus ?thesis using x(1) by simp
  next
    case (list k x j)
    have x: "tval m0 r w = tval m0 r x" "good_word g L m0 x" using end_value [of k x] list(3) by (auto simp: trace_end_def)
    note gl = good_list [OF c x(2) list(4,5)]
    have "?r (home g j) = r (addr x)" "?r (home g (Suc j)) = r (addr x + 4)"
      using image_home [OF c, of j r] image_home [OF c, of "Suc j" r] list(6,7) D(4) [OF gl(3)] D(4) [OF gl(4)]
        cell gl(1,2) by auto
    thus ?thesis unfolding list(1) tval_new_list [OF c] x(1) tval_mid_list [OF list(4)] by simp
  next
    case (str k x j)
    have x: "tval m0 r w = tval m0 r x" "good_word g L m0 x" using end_value [of k x] str(3) by (auto simp: trace_end_def)
    note gs = good_str [OF c x(2) str(4,5)]
    have "?r (home g (j + t)) = r (slot (addr x) t)" if t: "t \<in> {1..unat (arity (m0 (addr x)))}" for t
    proof -
      have "term_at os (j + t) (u (slot (addr x) t))" using str(6) t gs(4) by (simp add: str_at_def)
      hence "?r (home g (j + t)) = tval m0 r (m0 (slot (addr x) t))"
        using image_home [OF c, of "j + t" r] D(4) gs(6) [OF t] by auto
      thus ?thesis using cell gs(6) [OF t] by simp
    qed
    hence "map (\<lambda>t. ?r (home g (j + t))) [1..<Suc (unat (arity (m0 (addr x))))]
        = map (\<lambda>t. r (slot (addr x) t)) [1..<Suc (unat (arity (m0 (addr x))))]"
      by (intro map_cong refl) (simp del: upt_Suc)
    thus ?thesis unfolding str(1) tval_new_str [OF c x(2) str(4-6)] x(1) tval_mid_str [OF c x(2) str(4,5)] by simp
  next
    case (shared k x j)
    have "is_var (home g j)" using D(1) by (simp add: gc_layout_def)
    hence "tval M ?r (home g j) = tval m0 r x" using image_home [OF c shared(5), of r] shared(6) by (simp add: tval_def)
    thus ?thesis using end_value [OF shared(3)] shared(1) by simp
  next
    case (unbound k x j)
    have x: "tval m0 r w = tval m0 r x" "good_word g L m0 x" using end_value [of k x] unbound(3) by (auto simp: trace_end_def)
    have ux: "u x = x" "x \<in> L" using unbound(3-5) old_not_mid x(2)
      by (auto simp: trace_end_def stops_def good_word_def wf_word_def)
    have "m x \<noteq> u x"
      using mid_not_copied [OF D(1) _ unbound(5), of j] unbound(6,7) gc_invD(1) [OF D(3)] ux by auto
    then obtain i' where i': "i' < length os" "m x = copied g i'" "fwd g L u os (length os) m x i'"
      using gc_invD(5) [OF D(3) unbound(5,4)] by blast
    have "i' = j" using copied_inj [OF D(1), of i' j] i'(1,2) unbound(6,7) gc_invD(1) [OF D(3)] by simp
    hence f: "fst (os ! j) \<noteq> Func" "(\<exists>l. trace g u l (snd (os ! j)) x) \<or> snd (os ! j) = x"
      using i'(3) ux by (auto simp: fwd_def)
    have "tval m0 r (snd (os ! j)) = tval m0 r x"
      using f(2) tval_trace [OF c _ _ D(10) [OF unbound(6) f(1)], of r _ x] cell by metis
    moreover have "is_var (home g j)" using D(1) by (simp add: gc_layout_def)
    ultimately show ?thesis unfolding unbound(1) x(1) using image_home [OF c unbound(6), of r] by (simp add: tval_def)
  qed
qed

lemma models_forward:
  assumes c: "collected g L m0 u lim os m M rt" and r: "r \<in> models L m0"
  shows "image_valuation g m0 os r \<in> models (new_cells g L os) M"
  unfolding models_def
proof (intro CollectI ballI impI)
  note D = collectedD [OF c]
  let ?r = "image_valuation g m0 os r"
  have cell: "tval m0 r (m0 a) = r a" if "a \<in> L" for a
    using models_cell [OF r D(9)] that heapD(1) [OF D(2)] by blast
  fix a
  assume a: "a \<in> new_cells g L os" "M a \<noteq> a"
  then consider (old) "a \<in> L" "hit_old g a" | (new) i where "i < length os" "fst (os ! i) \<noteq> Func" "a = home g i"
    by (auto simp: new_cells_def)
  thus "?r a = tval M ?r (M a)"
  proof cases
    case old
    show ?thesis
    proof (cases "rt a")
      case None
      have "tval M ?r (m0 a) = tval m0 r (m0 a)"
      proof (rule tval_old [OF D(9) [OF old(1)] D(8) [OF old None]])
        show "M a = m0 a" if "hit_old g a" "a \<notin> L" for a
          using D(6) [OF that(1)] D(7) [of a] that(2) by (auto split: option.splits)
      qed (use image_old [OF c] in blast)
      thus ?thesis using D(6) [OF old(2)] None cell [OF old(1)] image_old [OF c old(2)] by simp
    next
      case (Some j)
      have "is_var (home g j)" using D(1) by (simp add: gc_layout_def)
      thus ?thesis using D(6) [OF old(2)] D(7) [OF Some] Some cell [OF old(1)] image_old [OF c old(2)] image_home [OF c, of j r]
        by (simp add: tval_def)
    qed
  next
    case new
    obtain kd w where "os ! i = (kd, w)" by fastforce
    thus ?thesis using final_image [OF c r new(1), of kd w] image_home [OF c new(1), of r] new(2,3) by simp
  qed
qed

section \<open>Solutions of the area\<close>

text \<open>The end of the chain of w, and the tree below it when rho gives the old and the unbound cells.\<close>

definition last_word :: "gc \<Rightarrow> store \<Rightarrow> word32 \<Rightarrow> word32" where
  "last_word g u w = (THE x. \<exists>k. trace_end g u k w x)"

lemma last_word_fits: "trace_end g u k w x \<Longrightarrow> last_word g u w = x"
  unfolding last_word_def
proof (rule the_equality)
  fix y
  assume k: "trace_end g u k w x" and "\<exists>l. trace_end g u l w y"
  then obtain l where l: "trace g u l w y" "stops g u y" by (auto simp: trace_end_def)
  from k trace_det [OF l(1), of k x] obtain i where "trace g u i y x" by (auto simp: trace_end_def)
  thus "y = x" using l(2) by (cases i) (auto simp: trace_Suc)
qed blast

primcorec area_tree :: "gc \<Rightarrow> store \<Rightarrow> store \<Rightarrow> (addr \<Rightarrow> rtree) \<Rightarrow> word32 \<Rightarrow> rtree" where
  "area_tree g u m0 rho w =
     (let x = last_word g u w in
      if is_var x then rho x
      else if is_list x then RList (area_tree g u m0 rho (addr x)) (area_tree g u m0 rho (addr x + 4))
      else if is_str x then
        (if m0 (addr x) = FVL_TAG then RFlt (m0 (addr x + 4)) (m0 (addr x + 8))
         else RStr (m0 (addr x))
                (map (\<lambda>i. area_tree g u m0 rho (addr x + 4 * of_nat i)) [1..<Suc (unat (arity (m0 (addr x))))]))
      else RCst x)"

lemma area_tree_last: "last_word g u w = last_word g u v \<Longrightarrow> area_tree g u m0 rho w = area_tree g u m0 rho v"
  by (simp only: area_tree.code [of g u m0 rho w] area_tree.code [of g u m0 rho v])

lemma area_tree_stop:
  assumes "stops g u w"
  shows "area_tree g u m0 rho w = (if is_var w then rho w else tval m0 (area_tree g u m0 rho) w)"
proof -
  have "last_word g u w = w" by (rule last_word_fits [of _ _ 0]) (simp add: trace_end_def assms)
  thus ?thesis by (subst area_tree.code) (simp add: Let_def tval_def)
qed

lemma area_tree_cell:
  assumes "\<not> stops g u a" "trace_end g u k a x"
  shows "area_tree g u m0 rho a = tval m0 (area_tree g u m0 rho) (u a)"
proof -
  obtain l where "trace_end g u l (u a) x" using assms by (cases k) (auto simp: trace_end_def trace_Suc)
  hence e: "area_tree g u m0 rho a = area_tree g u m0 rho (u a)" using area_tree_last last_word_fits assms(2) by metis
  show ?thesis
  proof (cases "is_var (u a)")
    case True
    thus ?thesis using e by (simp add: tval_def)
  next
    case False
    thus ?thesis using e area_tree_stop [of g u "u a"] by (simp add: stops_def)
  qed
qed

section \<open>Every solution after is one before\<close>

definition boundary :: "gc \<Rightarrow> origins \<Rightarrow> store \<Rightarrow> (addr \<Rightarrow> rtree) \<Rightarrow> addr \<Rightarrow> rtree" where
  "boundary g os m r' a =
     (if hit_old g a then r' a
      else if \<exists>j<length os. m a = copied g j then r' (home g (THE j. j < length os \<and> m a = copied g j))
      else RCst 0)"

lemma boundary_copied:
  assumes "collected g L m0 u lim os m M rt" "j < length os" "m a = copied g j" "\<not> hit_old g a"
  shows "boundary g os m r' a = r' (home g j)"
proof -
  note D = collectedD [OF assms(1)]
  have "(THE i. i < length os \<and> m a = copied g i) = j"
    using assms(2,3) copied_inj [OF D(1)] gc_invD(1) [OF D(3)] by (intro the_equality) auto
  thus ?thesis using assms(2-4) by (auto simp: boundary_def)
qed

text \<open>
  A copied word has the value of a word that is not shared with another: an old
  word, a copied list or structure, or the reference to a copied unbound cell.
\<close>

inductive resolved :: "gc \<Rightarrow> store \<Rightarrow> origins \<Rightarrow> store \<Rightarrow> word32 \<Rightarrow> word32 \<Rightarrow> bool" for g u os m where
  "old_word g x \<Longrightarrow> resolved g u os m x x"
| "is_list x \<Longrightarrow> \<not> hit_old g (addr x) \<Longrightarrow> term_at os j (u (addr x)) \<Longrightarrow> term_at os (Suc j) (u (addr x + 4)) \<Longrightarrow>
     resolved g u os m x (make_list (home g j))"
| "is_str x \<Longrightarrow> \<not> hit_old g (addr x) \<Longrightarrow> str_at u os j (addr x) \<Longrightarrow> resolved g u os m x (make_str (home g j))"
| "is_var x \<Longrightarrow> hit_mid g x \<Longrightarrow> j < length os \<Longrightarrow> m x = copied g j \<Longrightarrow> resolved g u os m x (home g j)"

lemma resolve:
  assumes c: "collected g L m0 u lim os m M rt" and r': "r' \<in> models (new_cells g L os) M"
  shows "i < length os \<Longrightarrow> os ! i = (kd, w) \<Longrightarrow> kd \<noteq> Func \<Longrightarrow> trace g u d w x \<Longrightarrow> stops g u x \<Longrightarrow>
    \<exists>c. resolved g u os m x c \<and> r' (home g i) = tval M r' c"
proof (induction "2 * d + (if kd = Alias then 1 else 0)" arbitrary: i kd w d rule: less_induct)
  case less
  note D = collectedD [OF c]
  let ?c = "M (home g i)"
  have hv: "is_var (home g j)" for j using D(1) by (simp add: gc_layout_def)
  have cell: "r' (home g i) = tval M r' ?c"
  proof (cases "?c = home g i")
    case True
    thus ?thesis using hv by (simp add: tval_def)
  next
    case False
    have "home g i \<in> new_cells g L os" using less.prems(1-3) by (auto simp: new_cells_def)
    thus ?thesis using r' False by (simp add: models_def)
  qed
  have ends: "x = y" if "trace_end g u k w y" for k y
    using last_word_fits [OF that] last_word_fits [of g u d w x] less.prems(4,5) by (simp add: trace_end_def)
  have "final g u os m kd w ?c" using gc_invD(6) [OF D(3) less.prems(1)] D(5) [OF less.prems(1)] less.prems(2) by simp
  thus ?case
  proof cases
    case func
    thus ?thesis using less.prems(3) by simp
  next
    case (kept k)
    have "resolved g u os m ?c ?c" using kept(3) by (intro resolved.intros(1)) (auto simp: old_word_def)
    thus ?thesis using cell ends [OF kept(2)] by metis
  next
    case (list k y j)
    thus ?thesis using cell ends [OF list(3)] resolved.intros(2) [OF list(4-7)] by metis
  next
    case (str k y j)
    thus ?thesis using cell ends [OF str(3)] resolved.intros(3) [OF str(4-6)] by metis
  next
    case (shared k y j)
    from trace_det [OF shared(3) less.prems(4,5)] have h: "k \<le> d" "trace g u (d - k) y x" by auto
    have "2 * (d - k) + (if Prim = Alias then 1 else 0) < 2 * d + (if kd = Alias then 1 else 0)"
      using shared(4) h(1) by auto
    from less.hyps [OF this shared(5,6) _ h(2) less.prems(5)]
    obtain c' where c': "resolved g u os m x c'" "r' (home g j) = tval M r' c'" by auto
    have "tval M r' ?c = r' (home g j)" using hv shared(1) by (simp add: tval_def)
    thus ?thesis using c' cell by metis
  next
    case (unbound k y j)
    thus ?thesis using cell ends [OF unbound(3)] resolved.intros(4) [where g = g and os = os and m = m and u = u, OF unbound(4-7)] by metis
  qed
qed

lemma rtree_shapes:
  assumes "R t t'"
    and "\<And>t t'. R t t' \<Longrightarrow> t = t' \<or> (\<exists>a b a' b'. t = RList a b \<and> t' = RList a' b' \<and> R a a' \<and> R b b')
      \<or> (\<exists>f as bs. t = RStr f as \<and> t' = RStr f bs \<and> list_all2 R as bs)"
  shows "t = t'"
proof (rule rtree.coinduct_strong [of R, OF assms(1)], goal_cases)
  case (1 t t')
  from assms(2) [OF this] show ?case
  proof (elim disjE exE conjE)
    fix f as bs
    assume "t = RStr f as" "t' = RStr f bs" "list_all2 R as bs"
    thus ?thesis by (auto elim: list_all2_mono)
  qed (auto intro: list.rel_refl)
qed

lemma heap_chain: "gc_heap g L u \<Longrightarrow> a \<in> L \<Longrightarrow> hit_mid g a \<Longrightarrow> \<exists>k x. trace_end g u k a x"
  by (simp add: gc_heap_def)

lemma copies_agree:
  assumes c: "collected g L m0 u lim os m M rt" and r': "r' \<in> models (new_cells g L os) M"
    and r: "r = area_tree g u m0 (boundary g os m r')" and i: "i < length os" "fst (os ! i) \<noteq> Func"
  shows "r' (home g i) = tval m0 r (snd (os ! i))"
proof -
  note D = collectedD [OF c]
  have hv: "is_var (home g j)" for j using D(1) by (simp add: gc_layout_def)
  have old: "r a = r' a" if "a \<in> L" "hit_old g a" for a
    using area_tree_stop [of g u a] that heapD(1) [OF D(2)] by (simp add: r stops_def boundary_def)
  have cell: "tval m0 r (m0 a) = r a" if h: "a \<in> L" "hit_mid g a" for a
  proof (cases "m0 a = a")
    case True
    thus ?thesis using heapD(1) [OF D(2) h(1)] by (simp add: tval_def)
  next
    case False
    have "\<not> stops g u a" using False D(4) [OF h(2)] heapD(1) [OF D(2) h(1)] h(2) old_not_mid by (auto simp: stops_def)
    moreover obtain k x where "trace_end g u k a x" using heap_chain [OF D(2) h] by blast
    ultimately show ?thesis using area_tree_cell [of g u a k x m0 "boundary g os m r'"] D(4) [OF h(2)] by (simp add: r)
  qed
  let ?R = "\<lambda>t t'. \<exists>i<length os. fst (os ! i) \<noteq> Func \<and> t = r' (home g i) \<and> t' = tval m0 r (snd (os ! i))"
  show ?thesis
  proof (rule rtree_shapes [of ?R])
    show "?R (r' (home g i)) (tval m0 r (snd (os ! i)))" using i by blast
    fix t t'
    assume "?R t t'"
    then obtain i kd w where i: "i < length os" "os ! i = (kd, w)" "kd \<noteq> Func" and t: "t = r' (home g i)" "t' = tval m0 r w"
      by (metis fst_conv snd_conv surj_pair)
    have "origin_ok g L u (kd, w)" using gc_invD(3) [OF D(3)] i by (metis list_all_length)
    then obtain d x where x: "trace g u d w x" "stops g u x" using i(3) by (auto simp: origin_ok_def trace_end_def)
    have "good_word g L m0 w" using D(10) [OF i(1)] i(2,3) by simp
    from tval_trace [OF c _ x(1) this, of r] cell
    have w: "tval m0 r w = tval m0 r x" "good_word g L m0 x" by auto
    from resolve [OF c r' i x] obtain c' where "resolved g u os m x c'" and e: "t = tval M r' c'" using t(1) by blast
    have t': "t' = tval m0 r x" using t(2) w(1) by simp
    from \<open>resolved g u os m x c'\<close>
    show "t = t' \<or> (\<exists>a b a' b'. t = RList a b \<and> t' = RList a' b' \<and> ?R a a' \<and> ?R b b')
      \<or> (\<exists>f as bs. t = RStr f as \<and> t' = RStr f bs \<and> list_all2 ?R as bs)"
    proof cases
      case 1
      have "tval M r' x = tval m0 r x"
      proof (rule tval_old [OF w(2) 1(2)])
        show "M a = m0 a" if "hit_old g a" "a \<notin> L" for a
          using D(6) [OF that(1)] D(7) [of a] that(2) by (auto split: option.splits)
      qed (use old in simp)
      thus ?thesis using e t' 1(1) by simp
    next
      case (2 j)
      note gl = good_list [OF c w(2) 2(2,3)]
      have "t = RList (r' (home g j)) (r' (home g (Suc j)))" using e 2(1) tval_new_list [OF c] by simp
      moreover have "t' = RList (tval m0 r (snd (os ! j))) (tval m0 r (snd (os ! Suc j)))"
        using t' tval_mid_list [OF 2(2)] 2(4,5) cell gl D(4) [OF gl(3)] D(4) [OF gl(4)] by simp
      ultimately show ?thesis using 2(4,5) by blast
    next
      case (3 j)
      note gs = good_str [OF c w(2) 3(2,3)]
      let ?ks = "[1..<Suc (unat (arity (m0 (addr x))))]"
      have "t = RStr (m0 (addr x)) (map (\<lambda>k. r' (home g (j + k))) ?ks)"
        using e 3(1) tval_new_str [OF c w(2) 3(2-4)] by simp
      moreover have "t' = RStr (m0 (addr x)) (map (\<lambda>k. r (slot (addr x) k)) ?ks)"
        using t' tval_mid_str [OF c w(2) 3(2,3)] by simp
      moreover have "?R (r' (home g (j + k))) (r (slot (addr x) k))" if k: "k \<in> {1..unat (arity (m0 (addr x)))}" for k
      proof -
        have "term_at os (j + k) (u (slot (addr x) k))" using 3(4) k gs(4) by (simp add: str_at_def)
        thus ?thesis using cell gs(6) [OF k] D(4) by (intro exI [of _ "j + k"]) auto
      qed
      hence "list_all2 ?R (map (\<lambda>k. r' (home g (j + k))) ?ks) (map (\<lambda>k. r (slot (addr x) k)) ?ks)"
        unfolding list.rel_map by (intro list.rel_refl_strong) (simp del: upt_Suc)
      ultimately show ?thesis by blast
    next
      case (4 j)
      have "r x = r' (home g j)"
        using area_tree_stop [OF x(2), of m0] boundary_copied [OF c 4(4,5)] 4(2,3) old_not_mid by (auto simp: r)
      thus ?thesis using e t' 4(1,2) hv by (simp add: tval_def)
    qed
  qed
qed

lemma models_backward:
  assumes c: "collected g L m0 u lim os m M rt" and r': "r' \<in> models (new_cells g L os) M"
  shows "\<exists>r\<in>models L m0. (\<forall>a\<in>L. hit_old g a \<longrightarrow> r a = r' a)
    \<and> (\<forall>i<length os. fst (os ! i) \<noteq> Func \<longrightarrow> tval m0 r (snd (os ! i)) = r' (home g i))"
proof -
  note D = collectedD [OF c]
  let ?r = "area_tree g u m0 (boundary g os m r')"
  note agree = copies_agree [OF c r' refl]
  have hv: "is_var (home g j)" for j using D(1) by (simp add: gc_layout_def)
  have old: "?r a = r' a" if "a \<in> L" "hit_old g a" for a
    using area_tree_stop [of g u a] that heapD(1) [OF D(2)] by (simp add: stops_def boundary_def)
  have "?r a = tval m0 ?r (m0 a)" if a: "a \<in> L" "m0 a \<noteq> a" for a
  proof (cases "hit_old g a")
    case True
    show ?thesis
    proof (cases "rt a")
      case None
      have "tval M r' (m0 a) = tval m0 ?r (m0 a)"
      proof (rule tval_old [OF D(9) [OF a(1)] D(8) [OF a(1) True None]])
        show "M a = m0 a" if "hit_old g a" "a \<notin> L" for a
          using D(6) [OF that(1)] D(7) [of a] that(2) by (auto split: option.splits)
      qed (use old in simp)
      moreover have "r' a = tval M r' (M a)"
        using r' a True D(6) [OF True] None by (simp add: models_def new_cells_def)
      ultimately show ?thesis using old [OF a(1) True] D(6) [OF True] None by simp
    next
      case (Some j)
      have j: "j < length os" "fst (os ! j) \<noteq> Func" "snd (os ! j) = m0 a" using D(7) [OF Some] by auto
      have M: "M a = home g j" using D(6) [OF True] Some by simp
      have "M a \<noteq> a" using M home_not_old [OF D(1), of j] j(1) gc_invD(1) [OF D(3)] True by auto
      hence "r' a = tval M r' (home g j)" using r' a True M by (auto simp: models_def new_cells_def)
      thus ?thesis using old [OF a(1) True] agree [OF j(1,2)] j(3) hv by (simp add: tval_def)
    qed
  next
    case False
    hence mid: "hit_mid g a" using heapD(2) [OF D(2) a(1)] by blast
    have "\<not> stops g u a" using False a D(4) [OF mid] heapD(1) [OF D(2) a(1)] by (auto simp: stops_def)
    moreover obtain k x where "trace_end g u k a x" using heap_chain [OF D(2) a(1) mid] by blast
    ultimately show ?thesis using area_tree_cell D(4) [OF mid] by metis
  qed
  hence "?r \<in> models L m0" by (simp add: models_def)
  thus ?thesis using old agree by auto
qed

lemma collected_models:
  assumes c: "collected g L m0 u lim os m M rt" and ks: "\<And>k. k \<in> set ks \<Longrightarrow> k < length os \<and> fst (os ! k) \<noteq> Func"
  shows "(\<lambda>r. (map (\<lambda>k. tval m0 r (snd (os ! k))) ks, \<lambda>a. if a \<in> L \<and> hit_old g a then Some (r a) else None)) ` models L m0
    = (\<lambda>r. (map (\<lambda>k. r (home g k)) ks, \<lambda>a. if a \<in> L \<and> hit_old g a then Some (r a) else None)) ` models (new_cells g L os) M"
    (is "?f ` _ = ?h ` _")
proof (intro equalityI subsetI)
  fix y
  assume "y \<in> ?f ` models L m0"
  then obtain r where r: "r \<in> models L m0" "y = ?f r" by blast
  let ?r = "image_valuation g m0 os r"
  have "map (\<lambda>k. ?r (home g k)) ks = map (\<lambda>k. tval m0 r (snd (os ! k))) ks"
    using image_home [OF c] ks by (intro map_cong refl) blast
  moreover have "(\<lambda>a. if a \<in> L \<and> hit_old g a then Some (?r a) else None) = (\<lambda>a. if a \<in> L \<and> hit_old g a then Some (r a) else None)"
    using image_old [OF c] by (intro ext) simp
  ultimately have "?h ?r = ?f r" by simp
  hence "y = ?h ?r" using r(2) by (rule trans [OF _ sym, rotated])
  thus "y \<in> ?h ` models (new_cells g L os) M" by (rule image_eqI [where x = ?r, OF _ models_forward [OF c r(1)]])
next
  fix y
  assume "y \<in> ?h ` models (new_cells g L os) M"
  then obtain r' where r': "r' \<in> models (new_cells g L os) M" "y = ?h r'" by blast
  from models_backward [OF c r'(1)] obtain r where r: "r \<in> models L m0" "\<forall>a\<in>L. hit_old g a \<longrightarrow> r a = r' a"
    "\<forall>i<length os. fst (os ! i) \<noteq> Func \<longrightarrow> tval m0 r (snd (os ! i)) = r' (home g i)" by blast
  have "map (\<lambda>k. tval m0 r (snd (os ! k))) ks = map (\<lambda>k. r' (home g k)) ks"
    using r(3) ks by (intro map_cong refl) blast
  moreover have "(\<lambda>a. if a \<in> L \<and> hit_old g a then Some (r a) else None) = (\<lambda>a. if a \<in> L \<and> hit_old g a then Some (r' a) else None)"
    using r(2) by (intro ext) simp
  ultimately have "?f r = ?h r'" by simp
  hence "y = ?f r" using r'(2) by (rule trans [OF _ sym, rotated])
  thus "y \<in> ?f ` models L m0" by (rule image_eqI [where x = r, OF _ r(1)])
qed

end
