(* ===== verification/MLVM_Collect_Correct.thy ===== *)
theory MLVM_Collect_Correct
  imports MLVM_Collect_Models "HOL-Library.Multiset"
begin

text \<open>
  The whole of do_collection: the roots are gathered from the arguments and the
  trail, the scan copies what they reach, the copies are moved back, and the
  imago goes on with the same terms on a smaller stack.
\<close>

section \<open>The heap after a collection\<close>

lemma wf_ref:
  assumes "is_var w"
  shows "wf_word L cx m w = (w \<in> L)"
proof -
  have "\<not> is_list w" "\<not> is_str w" using assms kinds_exclusive(1,2) by blast+
  thus ?thesis using assms by (simp add: wf_word_def)
qed

lemma wf_make_list:
  assumes "is_var p"
  shows "wf_word L cx m (make_list p) = (p \<in> L \<and> p + 4 \<in> L)"
proof -
  have l: "is_list (make_list p)" "addr (make_list p) = p" using addr_make [OF assms] by blast+
  have "\<not> is_str (make_list p)" using l(1) kinds_exclusive(5) by blast
  thus ?thesis using l by (simp add: wf_word_def)
qed

lemma wf_old_word:
  assumes c: "collected g L m0 u lim os m M rt" and w: "good_word g L m0 w" "old_word g w"
    and cx: "\<And>a. hit_old g a \<Longrightarrow> is_var a \<Longrightarrow> a \<le> cx"
  shows "wf_word (new_cells g L os) cx M w"
proof -
  note D = collectedD [OF c]
  have iff: "a \<in> new_cells g L os \<longleftrightarrow> a \<in> L" if "hit_old g a" for a
    using that home_not_old [OF D(1)] gc_invD(1) [OF D(3)] by (fastforce simp: new_cells_def)
  have M: "M a = m0 a" if "hit_old g a" "a \<notin> L" for a
    using D(6) [OF that(1)] D(7) [of a] that(2) by (auto split: option.splits)
  consider "is_cst w" | "is_var w" "hit_old g w" | "is_list w" "hit_old g (addr w)" | "is_str w" "hit_old g (addr w)"
    using w(2) kind_exhaust [of w] by (auto simp: old_word_def)
  thus ?thesis
  proof cases
    case 4
    have a: "addr w \<notin> L" "M (addr w) = m0 (addr w)" using 4 w(1) M by (auto simp: good_word_def wf_word_def)
    have v: "is_var (addr w + 4)" "is_var (addr w + 8)"
      using is_var_slot [of "addr w" 1] is_var_slot [of "addr w" 2] by (simp_all add: slot_def)
    show ?thesis
    proof (cases "m0 (addr w) = FVL_TAG")
      case True
      thus ?thesis using 4 w(1) a iff cx v by (auto simp: good_word_def wf_word_def sided_def)
    next
      case False
      thus ?thesis using 4 w(1) a iff cx by (auto simp: good_word_def wf_word_def sided_def slot_def)
    qed
  qed (use w(1) iff in \<open>auto simp: wf_word_def good_word_def sided_def\<close>)
qed

lemma wf_new_word:
  assumes c: "collected g L m0 u lim os m M rt" and i: "i < length os" "fst (os ! i) \<noteq> Func"
    and cx: "\<And>a. hit_old g a \<Longrightarrow> is_var a \<Longrightarrow> a \<le> cx" "\<And>i. i < length os \<Longrightarrow> home g i \<le> cx"
  shows "wf_word (new_cells g L os) cx M (M (home g i))"
proof -
  note D = collectedD [OF c]
  have hv: "is_var (home g j)" for j using D(1) by (simp add: gc_layout_def)
  have hn: "home g j \<in> new_cells g L os \<longleftrightarrow> fst (os ! j) \<noteq> Func" if "j < length os" for j
  proof -
    have "\<not> hit_old g (home g j)" using home_not_old [OF D(1), of j] that gc_invD(1) [OF D(3)] by simp
    moreover have "(home g j = home g k) = (j = k)" if "k < length os" for k
      using home_inj [OF D(1), of j k] that \<open>j < length os\<close> gc_invD(1) [OF D(3)] by simp
    ultimately show ?thesis using that by (auto simp: new_cells_def)
  qed
  obtain kd w where o: "os ! i = (kd, w)" "kd \<noteq> Func" using i(2) by (cases "os ! i") auto
  have gw: "good_word g L m0 w" using D(10) [OF i] o by simp
  have end_good: "good_word g L m0 x" if "trace g u k w x" for k x
  proof -
    have "good_word g L m0 x" if "trace g u k w x" "good_word g L m0 w" for k w x
      using that
    proof (induction rule: trace.induct)
      case (hop w k x)
      have "w \<in> L" "hit_mid g w" using hop heapD(2) [OF D(2)] by (auto simp: stops_def good_word_def wf_word_def)
      thus ?case using hop.IH D(4,9) by simp
    qed
    thus ?thesis using that gw by blast
  qed
  have "final g u os m kd w (M (home g i))" using gc_invD(6) [OF D(3) i(1)] D(5) [OF i(1)] o(1) by simp
  thus ?thesis
  proof cases
    case func
    thus ?thesis using o(2) by simp
  next
    case (kept k)
    show ?thesis
      by (rule wf_old_word [OF c end_good _ cx(1)]) (use kept in \<open>auto simp: old_word_def trace_end_def\<close>)
  next
    case (list k x j)
    have "home g j + 4 = home g (Suc j)" by simp
    moreover have "home g j \<in> new_cells g L os" "home g (Suc j) \<in> new_cells g L os" using list(6,7) hn by auto
    ultimately show ?thesis unfolding list(1) wf_make_list [OF hv] by metis
  next
    case (str k x j)
    have x: "good_word g L m0 x" using end_good str(3) by (auto simp: trace_end_def)
    note gs = good_str [OF c x str(4,5)]
    have M: "M (home g j) = m0 (addr x)" using functor_copied [OF c str(6)] gs(4) by simp
    have "home g j + 4 * of_nat t = home g (j + t)" for t using slot_slot [of "g_cline g" j t] by (simp add: slot_def)
    moreover have "home g (j + t) \<in> new_cells g L os" if "t \<in> {1..unat (arity (m0 (addr x)))}" for t
      using str(6) that hn [of "j + t"] gs(4) by (simp add: str_at_def)
    moreover have "home g j \<notin> new_cells g L os" "home g j \<le> cx"
      using str(6) hn [of j] cx(2) [of j] by (auto simp: str_at_def)
    ultimately show ?thesis unfolding str(1) using gs(2,5) by (simp add: wf_word_def addr_make [OF hv] M)
  next
    case (shared k x j)
    thus ?thesis using hn [of j] by (simp add: wf_ref [OF hv])
  next
    case (unbound k x j)
    have x: "good_word g L m0 x" using end_good unbound(3) by (auto simp: trace_end_def)
    have ux: "u x = x" "x \<in> L" using unbound(3-5) old_not_mid x
      by (auto simp: trace_end_def stops_def good_word_def wf_word_def)
    have "m x \<noteq> u x"
      using mid_not_copied [OF D(1) _ unbound(5), of j] unbound(6,7) gc_invD(1) [OF D(3)] ux by auto
    then obtain i' where i': "i' < length os" "m x = copied g i'" "fwd g L u os (length os) m x i'"
      using gc_invD(5) [OF D(3) unbound(5,4)] by blast
    have "i' = j" using copied_inj [OF D(1), of i' j] i'(1,2) unbound(6,7) gc_invD(1) [OF D(3)] by simp
    hence "fst (os ! j) \<noteq> Func" using i'(3) ux by (simp add: fwd_def)
    thus ?thesis unfolding unbound(1) using hn [OF unbound(6)] by (simp add: wf_ref [OF hv])
  qed
qed

lemma new_heap_wf:
  assumes c: "collected g L m0 u lim os m M rt"
    and cx: "\<And>a. hit_old g a \<Longrightarrow> is_var a \<Longrightarrow> a \<le> cx" "\<And>i. i < length os \<Longrightarrow> home g i \<le> cx"
  shows "wf_heap (new_cells g L os) cx M"
  unfolding wf_heap_def
proof (intro ballI)
  note D = collectedD [OF c]
  have hv: "is_var (home g j)" for j using D(1) by (simp add: gc_layout_def)
  fix a
  assume "a \<in> new_cells g L os"
  then consider (old) "a \<in> L" "hit_old g a" | (new) i where "i < length os" "fst (os ! i) \<noteq> Func" "a = home g i"
    by (auto simp: new_cells_def)
  thus "is_var a \<and> a \<le> cx \<and> wf_word (new_cells g L os) cx M (M a)"
  proof cases
    case old
    have v: "is_var a" using heapD(1) [OF D(2) old(1)] .
    have "wf_word (new_cells g L os) cx M (M a)"
    proof (cases "rt a")
      case None
      thus ?thesis using wf_old_word [OF c D(9) [OF old(1)] D(8) [OF old None] cx(1)] D(6) [OF old(2)] by simp
    next
      case (Some j)
      have "home g j \<in> new_cells g L os" using D(7) [OF Some] by (auto simp: new_cells_def)
      thus ?thesis using D(6) [OF old(2)] Some wf_ref [OF hv] by simp
    qed
    thus ?thesis using v cx(1) [OF old(2) v] by simp
  next
    case new
    thus ?thesis using wf_new_word [OF c new(1,2) cx] cx(2) hv by simp
  qed
qed

section \<open>The loops around the scan\<close>

lemma find_prevp_ends:
  assumes "unat (block_ceiling p) + 4 \<le> 2 ^ 32"
  shows "\<exists>q. find_prevp p m = Some q"
proof -
  let ?b = "\<lambda>q. q < block_ceiling p \<and> tag (get_int m q) \<noteq> STR_TAG"
  have "\<exists>t. while_option ?b (\<lambda>q. q + 4) q = Some t" for q
  proof (induction "2 ^ 32 - unat q" arbitrary: q rule: less_induct)
    case less
    show ?case
    proof (cases "?b q")
      case True
      hence "unat q + 4 < 2 ^ 32" using assms by (simp add: word_less_nat_alt)
      hence "unat (q + 4) = unat q + 4" using unat_add_lt [of q 4] by simp
      hence "2 ^ 32 - unat (q + 4) < 2 ^ 32 - unat q" using unsigned_less [of q, where ?'a = nat] by simp
      from less [OF this] show ?thesis using while_option_step [of ?b q "\<lambda>q. q + 4", OF True] by simp
    next
      case False
      thus ?thesis using while_option_done [of ?b q "\<lambda>q. q + 4", OF False] by blast
    qed
  qed
  thus ?thesis unfolding find_prevp_def by (metis option.simps(9))
qed

lemma move_back_from:
  assumes "unat p + 4 * n < 2 ^ 32" "unat q + 4 * n < 2 ^ 32" "\<And>i j. i < n \<Longrightarrow> j < n \<Longrightarrow> slot p i \<noteq> slot q j"
  shows "k \<le> n \<Longrightarrow> \<exists>M. while_option (\<lambda>(rp, scanp, m). scanp < slot q n) (copy_up 1) (slot p (n - k), slot q (n - k), m)
      = Some (slot p n, slot q n, M)
    \<and> (\<forall>i. n - k \<le> i \<and> i < n \<longrightarrow> M (slot p i) = m (slot q i)) \<and> (\<forall>a. (\<forall>i. n - k \<le> i \<and> i < n \<longrightarrow> a \<noteq> slot p i) \<longrightarrow> M a = m a)"
proof (induction k arbitrary: m)
  case 0
  show ?case by (subst while_option_done) auto
next
  case (Suc k)
  let ?i = "n - Suc k"
  have i: "?i < n" "Suc ?i = n - k" using Suc.prems by auto
  have "unat (slot q ?i) < unat (slot q n)" using i(1) unat_slot [of q] assms(2) by simp
  hence lt: "slot q ?i < slot q n" by (simp add: word_less_nat_alt)
  let ?m = "m(slot p ?i := m (slot q ?i))"
  have "copy_up 1 (slot p ?i, slot q ?i, m) = (slot p (n - k), slot q (n - k), ?m)"
    by (simp add: i(2) [symmetric])
  hence st: "while_option (\<lambda>(rp, scanp, m). scanp < slot q n) (copy_up 1) (slot p ?i, slot q ?i, m)
      = while_option (\<lambda>(rp, scanp, m). scanp < slot q n) (copy_up 1) (slot p (n - k), slot q (n - k), ?m)"
    using lt by (subst while_option_step) simp_all
  have "k \<le> n" using Suc.prems by simp
  from Suc.IH [OF this, of ?m] obtain M where
    M: "while_option (\<lambda>(rp, scanp, m). scanp < slot q n) (copy_up 1) (slot p (n - k), slot q (n - k), ?m) = Some (slot p n, slot q n, M)"
      "\<And>i. n - k \<le> i \<Longrightarrow> i < n \<Longrightarrow> M (slot p i) = ?m (slot q i)"
      "\<And>a. (\<And>i. n - k \<le> i \<Longrightarrow> i < n \<Longrightarrow> a \<noteq> slot p i) \<Longrightarrow> M a = ?m a" by blast
  have inj: "slot p j \<noteq> slot p ?i" if "n - k \<le> j" "j < n" for j
    using slot_inj [of p j ?i] that i assms(1) by auto
  have "M (slot p j) = m (slot q j)" if j: "?i \<le> j" "j < n" for j
  proof (cases "j = ?i")
    case True
    have "slot p ?i \<noteq> slot p j" if "n - k \<le> j" "j < n" for j using inj [OF that] by metis
    hence "M (slot p ?i) = ?m (slot p ?i)" by (rule M(3))
    thus ?thesis using True by simp
  next
    case False
    hence "n - k \<le> j" using j i(2) by simp
    thus ?thesis using M(2) j(2) assms(3) [of ?i j] i(1) by simp
  qed
  moreover have "M a = m a" if a: "\<And>i. ?i \<le> i \<Longrightarrow> i < n \<Longrightarrow> a \<noteq> slot p i" for a
  proof -
    have "a \<noteq> slot p ?i" using a i by blast
    moreover have "M a = ?m a" by (rule M(3)) (use a i in simp)
    ultimately show ?thesis by simp
  qed
  ultimately show ?case unfolding st using M(1) by blast
qed

lemma move_back_spec:
  assumes "unat p + 4 * n < 2 ^ 32" "unat q + 4 * n < 2 ^ 32" "\<And>i j. i < n \<Longrightarrow> j < n \<Longrightarrow> slot p i \<noteq> slot q j"
  shows "\<exists>M. move_back (slot q n) p q m = Some (slot p n, M)
    \<and> (\<forall>i<n. M (slot p i) = m (slot q i)) \<and> (\<forall>a. (\<forall>i<n. a \<noteq> slot p i) \<longrightarrow> M a = m a)"
  using move_back_from [OF assms, of n m] by (auto simp: move_back_def)

section \<open>The roots on the trail\<close>

text \<open>ts are the words above tt; the last is the one scanp points at.\<close>

definition trail_is :: "store \<Rightarrow> addr \<Rightarrow> word32 list \<Rightarrow> bool" where
  "trail_is m tt ts = (\<forall>j<length ts. m (slot tt (Suc j)) = ts ! j)"

definition skipped :: "gc \<Rightarrow> word32 \<Rightarrow> bool" where
  "skipped g r = (tag r = STR_TAG \<or> hit_mid g r)"

lemma trail_roots_step:
  "trail_roots g prevp tt scanp freep m =
     (if tt = scanp then Some (tt, freep, m)
      else if m (tt + 4) = 0 then Some (tt + 4, freep, m)
      else (let (tt1, scanp1, freep1, m1) = take_root g prevp (m (tt + 4)) (tt + 4, scanp, freep, m)
            in trail_roots g prevp tt1 scanp1 freep1 m1))"
proof (cases "tt = scanp \<or> m (tt + 4) = 0")
  case True
  thus ?thesis by (auto simp: trail_roots_def gc_pop_def while_option_done)
next
  case False
  obtain t1 s1 f1 m1 where k: "take_root g prevp (m (tt + 4)) (tt + 4, scanp, freep, m) = (t1, s1, f1, m1)" by (metis prod_cases4)
  obtain r t2 where p: "gc_pop t1 s1 m1 = (r, t2)" by fastforce
  have "root_body g prevp (m (tt + 4), tt + 4, scanp, freep, m) = (r, t2, s1, f1, m1)"
    by (simp add: root_body_def k p)
  thus ?thesis using False k p
    by (simp add: trail_roots_def gc_pop_def [of tt] while_option_step)
qed

text \<open>Where the entries of a trail of n words may lie: above the stack and apart from the buffer.\<close>

definition trail_room :: "gc \<Rightarrow> nat \<Rightarrow> addr \<Rightarrow> nat \<Rightarrow> bool" where
  "trail_room g lim tt n =
     (unat (g_st g) \<le> unat tt \<and> unat tt + 4 * n < 2 ^ 32 \<and> (\<forall>i<lim. \<forall>j\<le>n. copied g i \<noteq> slot tt j))"

lemma trail_room_up: "trail_room g lim tt (Suc n) \<Longrightarrow> trail_room g lim (slot tt (Suc 0)) n"
  using unat_slot [of tt 1] by (auto simp: trail_room_def slot_slot)

lemma trail_room_less: "trail_room g lim tt (Suc n) \<Longrightarrow> trail_room g lim tt n"
  by (auto simp: trail_room_def)

lemma old_not_slot:
  assumes "gc_layout g lim" "trail_room g lim tt n" "j \<le> n" "hit_old g r"
  shows "r \<noteq> slot tt j"
  using assms unat_slot [of tt j] by (auto simp: gc_layout_def trail_room_def hit_old_def word_less_nat_alt word_le_nat_alt)

text \<open>One root is taken: the entries left are the others, moved at most.\<close>

lemma take_root_spec:
  assumes lay: "gc_layout g lim" and t: "trail_is m tt (r # ts)" "trail_room g lim tt (Suc (length ts))"
    and r: "hit_old g r" "\<not> skipped g r" and i: "i < lim"
  shows "\<exists>d ts' m'. take_root g prevp r (tt + 4, slot tt (Suc (length ts)), copied g i, m)
      = (slot tt d, slot tt (d + length ts), copied g (Suc i), m')
    \<and> d \<le> 1 \<and> mset ts' = mset ts \<and> trail_is m' (slot tt d) ts'
    \<and> m' (copied g i) = m r \<and> m' r = home g i
    \<and> (\<forall>a. (\<forall>j\<le>Suc (length ts). a \<noteq> slot tt j) \<and> a \<noteq> r \<and> a \<noteq> copied g i \<longrightarrow> m' a = m a)"
proof -
  let ?k = "length ts"
  have rs: "r \<noteq> slot tt j" "slot tt j \<noteq> r" if "j \<le> Suc ?k" for j using old_not_slot [OF lay t(2) that r(1)] by auto
  have cs: "slot tt j \<noteq> copied g i" "copied g i \<noteq> slot tt j" if "j \<le> Suc ?k" for j
    using t(2) i that by (auto simp: trail_room_def eq_commute)
  have rc: "copied g i \<noteq> r" using copied_apart(1) [OF lay i] r(1) by auto
  have inj: "(slot tt j = slot tt l) = (j = l)" if "j \<le> Suc ?k" "l \<le> Suc ?k" for j l
    by (rule slot_inj) (use t(2) that in \<open>auto simp: trail_room_def\<close>)
  have d: "dest g (copied g i) = home g i" using lay dest_copied by (simp add: gc_layout_def)
  have e: "m (slot tt (Suc j)) = (r # ts) ! j" if "j < Suc ?k" for j using t(1) that by (simp add: trail_is_def)
  have nt: "tag r \<noteq> STR_TAG" "\<not> hit_mid g r" using r(2) by (auto simp: skipped_def)
  show ?thesis
  proof (cases "hit_previous g prevp r")
    case False
    let ?m = "m(copied g i := m r, r := home g i)"
    have "take_root g prevp r (tt + 4, slot tt (Suc ?k), copied g i, m) = (slot tt 1, slot tt (1 + ?k), copied g (Suc i), ?m)"
      using False nt d slot_simps(2) [of tt 0] by (simp add: take_root_def)
    moreover have "trail_is ?m (slot tt 1) ts"
      using e rs cs by (auto simp: trail_is_def slot_slot)
    ultimately show ?thesis using rc by (intro exI [of _ 1] exI [of _ ts] exI [of _ ?m]) auto
  next
    case True
    let ?ts = "if ts = [] then [] else last ts # butlast ts"
    let ?m = "m(slot tt 1 := m (slot tt (Suc ?k)), slot tt (Suc ?k) := r, copied g i := m r, r := home g i)"
    have "take_root g prevp r (tt + 4, slot tt (Suc ?k), copied g i, m) = (slot tt 0, slot tt (0 + ?k), copied g (Suc i), ?m)"
      using True nt d rs [of 1] rs [of "Suc ?k"] slot_simps(2) [of tt 0] slot_simps(4) [of tt 0]
      by (simp add: take_root_def Let_def)
    moreover have "mset ?ts = mset ts" by (cases ts rule: rev_cases) auto
    moreover have "trail_is ?m (slot tt 0) ?ts"
      unfolding trail_is_def
    proof (intro allI impI)
      fix j
      assume j: "j < length ?ts"
      hence k: "j < ?k" "ts \<noteq> []" by (auto split: if_splits)
      have "?m (slot tt (Suc j)) = (if j = 0 then m (slot tt (Suc ?k)) else m (slot tt (Suc j)))"
        using k rs [of "Suc j"] cs [of "Suc j"] inj [of "Suc j" 1] inj [of "Suc j" "Suc ?k"] by auto
      also have "\<dots> = ?ts ! j"
      proof (cases j)
        case 0
        thus ?thesis using k e [of ?k] by (simp add: last_conv_nth nth_Cons')
      next
        case (Suc l)
        thus ?thesis using k e [of j] by (simp add: nth_butlast)
      qed
      finally show "?m (slot (slot tt 0) (Suc j)) = ?ts ! j" by simp
    qed
    ultimately show ?thesis using rc by (intro exI [of _ 0] exI [of _ ?ts] exI [of _ ?m]) auto
  qed
qed

lemma trail_roots_spec:
  assumes lay: "gc_layout g lim"
  shows "trail_is m tt ts \<Longrightarrow> trail_room g lim tt (length ts) \<Longrightarrow> i + length ts \<le> lim \<Longrightarrow>
    \<forall>r\<in>set ts. r \<noteq> 0 \<and> (skipped g r \<or> hit_old g r) \<Longrightarrow> distinct (filter (\<lambda>r. \<not> skipped g r) ts) \<Longrightarrow>
    \<exists>rs m' j. trail_roots g prevp tt (slot tt (length ts)) (copied g i) m = Some (slot tt j, copied g (i + length rs), m')
      \<and> j \<le> length ts \<and> mset rs = mset (filter (\<lambda>r. \<not> skipped g r) ts)
      \<and> (\<forall>k<length rs. m' (copied g (i + k)) = m (rs ! k) \<and> m' (rs ! k) = home g (i + k))
      \<and> (\<forall>a. (\<forall>k\<le>length ts. a \<noteq> slot tt k) \<and> a \<notin> set rs \<and> (\<forall>k<length rs. a \<noteq> copied g (i + k)) \<longrightarrow> m' a = m a)"
proof (induction "length ts" arbitrary: ts tt i m)
  case 0
  thus ?case by (intro exI [of _ "[]"] exI [of _ m] exI [of _ 0]) (simp add: trail_roots_step)
next
  case (Suc n)
  obtain r ts1 where ts: "ts = r # ts1" "length ts1 = n" using Suc.hyps(2) by (cases ts) auto
  have e: "m (tt + 4) = r" "r \<noteq> 0"
    using Suc.prems(1,4) slot_simps(2) [of tt 0] by (auto simp: trail_is_def ts(1))
  have room: "trail_room g lim tt (Suc n)" using Suc.prems(2) ts by simp
  have ne: "tt \<noteq> slot tt (Suc n)" using slot_inj [of tt 0 "Suc n"] room by (simp add: trail_room_def)
  show ?case
  proof (cases "skipped g r")
    case True
    have "trail_is m (slot tt 1) ts1" using Suc.prems(1) by (auto simp: trail_is_def ts(1) slot_slot)
    from Suc.hyps(1) [of ts1 m "slot tt 1" i] this trail_room_up [OF room] Suc.prems(3-5) True ts
    obtain rs m' j where IH:
      "trail_roots g prevp (slot tt 1) (slot (slot tt 1) n) (copied g i) m = Some (slot (slot tt 1) j, copied g (i + length rs), m')"
      "j \<le> n" "mset rs = mset (filter (\<lambda>r. \<not> skipped g r) ts1)"
      "\<forall>k<length rs. m' (copied g (i + k)) = m (rs ! k) \<and> m' (rs ! k) = home g (i + k)"
      "\<forall>a. (\<forall>k\<le>n. a \<noteq> slot (slot tt 1) k) \<and> a \<notin> set rs \<and> (\<forall>k<length rs. a \<noteq> copied g (i + k)) \<longrightarrow> m' a = m a"
      by auto
    have "take_root g prevp r (tt + 4, slot tt (Suc n), copied g i, m) = (slot tt 1, slot (slot tt 1) n, copied g i, m)"
      using True slot_simps(2) [of tt 0] by (auto simp: take_root_def skipped_def slot_slot)
    hence "trail_roots g prevp tt (slot tt (length ts)) (copied g i) m = Some (slot tt (1 + j), copied g (i + length rs), m')"
      using e ne ts IH(1) by (subst trail_roots_step) (simp add: slot_slot)
    moreover have "m' a = m a"
      if "\<forall>k\<le>length ts. a \<noteq> slot tt k" "a \<notin> set rs" "\<forall>k<length rs. a \<noteq> copied g (i + k)" for a
      using IH(5) that ts by (auto simp: slot_slot)
    ultimately show ?thesis using IH(2-4) True ts
      by (intro exI [of _ rs] exI [of _ m'] exI [of _ "1 + j"]) auto
  next
    case False
    have old: "hit_old g r" "i < lim" using Suc.prems(3,4) False ts by auto
    from take_root_spec [OF lay _ _ old(1) False old(2), of m tt ts1 prevp] Suc.prems(1) room ts
    obtain d ts' m1 where t: "take_root g prevp r (tt + 4, slot tt (Suc n), copied g i, m) = (slot tt d, slot tt (d + n), copied g (Suc i), m1)"
      "d \<le> 1" "mset ts' = mset ts1" "trail_is m1 (slot tt d) ts'" "m1 (copied g i) = m r" "m1 r = home g i"
      "\<forall>a. (\<forall>j\<le>Suc n. a \<noteq> slot tt j) \<and> a \<noteq> r \<and> a \<noteq> copied g i \<longrightarrow> m1 a = m a" by auto
    have len: "length ts' = n" using t(3) ts(2) by (metis size_mset)
    have set': "set ts' = set ts1" using t(3) by (metis set_mset_mset)
    have fil: "mset (filter (\<lambda>r. \<not> skipped g r) ts') = mset (filter (\<lambda>r. \<not> skipped g r) ts1)" using t(3) by simp
    have dist: "distinct (filter (\<lambda>r. \<not> skipped g r) ts')" using fil Suc.prems(5) ts False by (metis distinct.simps(2) filter.simps(2) mset_eq_imp_distinct_iff)
    have room': "trail_room g lim (slot tt d) n"
      using t(2) trail_room_up [OF room] trail_room_less [OF room] by (cases d) auto
    from Suc.hyps(1) [of ts' m1 "slot tt d" "Suc i"] t(4) room' dist len set' Suc.prems(3,4) ts
    obtain rs m' j where IH:
      "trail_roots g prevp (slot tt d) (slot (slot tt d) n) (copied g (Suc i)) m1 = Some (slot (slot tt d) j, copied g (Suc i + length rs), m')"
      "j \<le> n" "mset rs = mset (filter (\<lambda>r. \<not> skipped g r) ts')"
      "\<forall>k<length rs. m' (copied g (Suc i + k)) = m1 (rs ! k) \<and> m' (rs ! k) = home g (Suc i + k)"
      "\<forall>a. (\<forall>k\<le>n. a \<noteq> slot (slot tt d) k) \<and> a \<notin> set rs \<and> (\<forall>k<length rs. a \<noteq> copied g (Suc i + k)) \<longrightarrow> m' a = m1 a"
      by auto
    have rs: "set rs = {r \<in> set ts1. \<not> skipped g r}" using IH(3) set' by (metis set_mset_mset set_filter)
    have rlen: "length rs \<le> n" using IH(3) len by (metis size_mset length_filter_le)
    have nin: "r \<notin> set rs" using Suc.prems(5) ts(1) False rs by auto
    have oldrs: "hit_old g r'" if "r' \<in> set rs" for r' using that rs Suc.prems(4) ts by auto
    have nslot: "a \<noteq> slot (slot tt d) k" if "hit_old g a" "k \<le> n" for a k using old_not_slot [OF lay room' that(2,1)] .
    have lim: "Suc i + k < lim" if "k < length rs" for k using that rlen Suc.prems(3) ts by simp
    have inj: "(copied g a = copied g b) = (a = b)" if "a \<le> lim" "b \<le> lim" for a b using copied_inj [OF lay that] .
    have apart: "copied g a \<noteq> b" if "a < lim" "hit_old g b" for a b using copied_apart(1) [OF lay that(1)] that(2) by auto
    have "m' (copied g i) = m1 (copied g i)"
    proof -
      have "copied g i \<noteq> slot (slot tt d) k" if "k \<le> n" for k
        using room' that old(2) by (auto simp: trail_room_def)
      moreover have "copied g i \<notin> set rs" using apart [OF old(2)] oldrs by blast
      moreover have "copied g i \<noteq> copied g (Suc i + k)" if "k < length rs" for k using inj [of i "Suc i + k"] lim [OF that] old(2) by simp
      ultimately show ?thesis using IH(5) by blast
    qed
    moreover have "m' r = m1 r"
    proof -
      have "r \<noteq> copied g (Suc i + k)" if "k < length rs" for k using apart [OF lim [OF that] old(1)] by metis
      thus ?thesis using IH(5) nin nslot [OF old(1)] by blast
    qed
    moreover have "m1 (rs ! k) = m (rs ! k)" if "k < length rs" for k
    proof -
      have o: "hit_old g (rs ! k)" "rs ! k \<noteq> r" using oldrs nin nth_mem [OF that] by auto
      have "rs ! k \<noteq> slot tt l" if "l \<le> Suc n" for l by (rule old_not_slot [OF lay room that o(1)])
      moreover have "rs ! k \<noteq> copied g i" using apart [OF old(2) o(1)] by metis
      ultimately show ?thesis using t(7) o(2) by blast
    qed
    ultimately have vals: "m' (copied g (i + k)) = m ((r # rs) ! k) \<and> m' ((r # rs) ! k) = home g (i + k)"
      if "k < length (r # rs)" for k
      using IH(4) t(5,6) that by (cases k) auto
    have "m' a = m a" if "\<forall>k\<le>length ts. a \<noteq> slot tt k" "a \<notin> set (r # rs)" "\<forall>k<length (r # rs). a \<noteq> copied g (i + k)" for a
    proof -
      have "a \<noteq> slot (slot tt d) k" if "k \<le> n" for k
        using \<open>\<forall>k\<le>length ts. a \<noteq> slot tt k\<close> that t(2) ts by (simp add: slot_slot)
      moreover have "a \<noteq> copied g (Suc i + k)" if "k < length rs" for k
        using \<open>\<forall>k<length (r # rs). a \<noteq> copied g (i + k)\<close> that by fastforce
      moreover have "a \<noteq> copied g i" using that(3) by fastforce
      ultimately show ?thesis using IH(5) t(7) that ts by auto
    qed
    moreover have "trail_roots g prevp tt (slot tt (length ts)) (copied g i) m = Some (slot tt (d + j), copied g (i + length (r # rs)), m')"
      using e ne ts IH(1) t(1) by (subst trail_roots_step) (simp add: slot_slot)
    moreover have "d + j \<le> length ts" using t(2) IH(2) ts by simp
    moreover have "mset (r # rs) = mset (filter (\<lambda>r. \<not> skipped g r) ts)" using IH(3) fil ts False by simp
    ultimately show ?thesis using vals by (intro exI [of _ "r # rs"] exI [of _ m'] exI [of _ "d + j"]) blast
  qed
qed

end
