(* ===== verification/MLVM_Collect_Props.thy ===== *)
theory MLVM_Collect_Props
  imports MLVM_Collect_Correct
begin

text \<open>
  do_collection as a whole: from an imago ready to be collected it returns with
  the same terms, on a heap that is well-formed again.
\<close>

section \<open>An imago ready to be collected\<close>

definition gc_regs :: "icb \<Rightarrow> store \<Rightarrow> addr \<Rightarrow> gc" where
  "gc_regs p m cb = \<lparr>g_cline = addr (m (i_af p)) + 4, g_st = i_st p, g_bottom = stack_base p, g_copy = cb\<rparr>"

text \<open>The arguments are the topmost words of the stack.\<close>

definition gc_args :: "icb \<Rightarrow> store \<Rightarrow> word32 list" where
  "gc_args p m = map (\<lambda>k. m (slot (psub (i_st p) (i_nl p)) (Suc k))) [0..<unat (i_nl p)]"

text \<open>Stack, trail of n words and buffer; lim words may be copied.\<close>

definition gc_space :: "gc \<Rightarrow> icb \<Rightarrow> nat \<Rightarrow> nat \<Rightarrow> bool" where
  "gc_space g p n lim =
     (is_var (g_copy g) \<and> is_var (g_cline g) \<and> is_var (g_bottom g) \<and> g_bottom g \<le> g_cline g \<and> g_cline g \<le> g_st g
      \<and> g_st g = i_st p \<and> unat (g_bottom g) + 4 * unat (i_nl p) \<le> unat (i_st p) + 4
      \<and> unat (i_st p) < unat (i_tt p) \<and> unat (i_tt p) + 4 * n < 2 ^ 32
      \<and> unat (g_cline g) + 4 * (lim + unat (i_nl p)) \<le> unat (i_tt p)
      \<and> unat (g_copy g) + 4 * max lim (unat GC_STATIC) < 2 ^ 32
      \<and> (unat (i_tt p) + 4 * n < unat (g_copy g) \<or> unat (g_copy g) + 4 * max lim (unat GC_STATIC) \<le> unat (g_bottom g))
      \<and> unat (i_nl p) + n \<le> lim \<and> unat (block_ceiling p) + 4 \<le> 2 ^ 32)"

text \<open>
  L holds the term cells: words are well-formed, lists and structures do not cross
  the line, reference chains of the area end.
\<close>

definition gc_terms :: "gc \<Rightarrow> addr set \<Rightarrow> store \<Rightarrow> bool" where
  "gc_terms g L m =
     (\<forall>a\<in>L. is_var a \<and> (hit_old g a \<or> hit_mid g a) \<and> good_word g L m (m a)
        \<and> (hit_mid g a \<longrightarrow> deref_word m a \<noteq> None))"

text \<open>The trail: generation marks, cells of the area and old cells, which include all that refer to the area.\<close>

definition gc_trail :: "gc \<Rightarrow> addr set \<Rightarrow> icb \<Rightarrow> store \<Rightarrow> word32 list \<Rightarrow> bool" where
  "gc_trail g L p m ts =
     (trail_is m (i_tt p) ts \<and> i_af p = slot (i_tt p) (length ts)
      \<and> (\<forall>r\<in>set ts. r \<noteq> 0 \<and> (skipped g r \<or> r \<in> L \<and> hit_old g r)) \<and> distinct (filter (\<lambda>r. \<not> skipped g r) ts)
      \<and> (\<forall>a\<in>L. hit_old g a \<longrightarrow> a \<in> set ts \<or> old_word g (m a)))"

definition gc_fits :: "gc_env \<Rightarrow> icb \<Rightarrow> store \<Rightarrow> nat \<Rightarrow> bool" where
  "gc_fits e p m lim =
     (case gc_init e p m of Some (Inr (g, tt, freep, m2)) \<Rightarrow> gc_room g lim (g_copy g, freep, m2) | _ \<Rightarrow> True)"

section \<open>The roots\<close>

lemma length_gc_args [simp]: "length (gc_args p m) = unat (i_nl p)" by (simp add: gc_args_def)

lemma spaceD:
  assumes "gc_space g p n lim"
  shows "gc_layout g lim" "trail_room g lim (i_tt p) n" "unat (i_nl p) + n \<le> lim"
    and "hit_old g a \<or> hit_mid g a \<Longrightarrow> j \<le> n \<Longrightarrow> a \<noteq> slot (i_tt p) j"
    and "unat (g_bottom g) \<le> unat a \<Longrightarrow> unat a \<le> unat (i_tt p) + 4 * n \<Longrightarrow> \<not> a - g_copy g < GC_STATIC * 4"
    and "unat (g_bottom g) \<le> unat a \<Longrightarrow> unat a \<le> unat (i_tt p) + 4 * n \<Longrightarrow> i < lim \<Longrightarrow> a \<noteq> copied g i"
proof -
  note S = assms [unfolded gc_space_def]
  show lay: "gc_layout g lim" using S by (auto simp: gc_layout_def word_less_nat_alt)
  show "unat (i_nl p) + n \<le> lim" using S by simp
  have tt: "unat (slot (i_tt p) j) = unat (i_tt p) + 4 * j" if "j \<le> n" for j
    by (rule unat_slot) (use S that in linarith)
  have c: "unat (copied g i) = unat (g_copy g) + 4 * i" if "i \<le> lim" for i by (rule unat_copied [OF lay that])
  show cp: "a \<noteq> copied g i" if "unat (g_bottom g) \<le> unat a" "unat a \<le> unat (i_tt p) + 4 * n" "i < lim" for a i
    using S c [of i] that by auto
  have "copied g i \<noteq> slot (i_tt p) j" if "i < lim" "j \<le> n" for i j
  proof -
    have "slot (i_tt p) j \<noteq> copied g i"
      by (rule cp) (use S tt [OF that(2)] that word_le_nat_alt [of "g_bottom g" "g_cline g"] word_le_nat_alt [of "g_cline g" "g_st g"] in auto)
    thus ?thesis by metis
  qed
  thus "trail_room g lim (i_tt p) n" using S by (auto simp: trail_room_def)
  show "a \<noteq> slot (i_tt p) j" if "hit_old g a \<or> hit_mid g a" "j \<le> n"
    using S that tt [OF that(2)] by (auto simp: hit_old_def hit_mid_def word_le_nat_alt word_less_nat_alt)
  show "\<not> a - g_copy g < GC_STATIC * 4" if "unat (g_bottom g) \<le> unat a" "unat a \<le> unat (i_tt p) + 4 * n"
  proof
    assume l: "a - g_copy g < GC_STATIC * 4"
    have s: "unat (GC_STATIC * 4) = 4 * unat GC_STATIC" by (simp add: GC_STATIC_def)
    hence d: "unat (a - g_copy g) < 4 * unat GC_STATIC" using l by (simp add: word_less_nat_alt)
    have "unat (g_copy g + of_nat (unat (a - g_copy g))) = unat (g_copy g) + unat (a - g_copy g)"
      by (rule unat_add_lt) (use d S max.cobounded2 [of "unat GC_STATIC" lim] in linarith)
    hence "unat a = unat (g_copy g) + unat (a - g_copy g)" by simp
    thus False using d S that max.cobounded2 [of "unat GC_STATIC" lim] by linarith
  qed
qed

lemma gc_init_spec:
  assumes start: "do_gc_start e p m = Inr (cb, m0)" and g: "g = gc_regs p m cb"
    and sp: "gc_space g p (length ts) lim" and gt: "gc_trail g L p m ts"
  shows "\<exists>rs m2 j. gc_init e p m = Some (Inr (g, slot (i_tt p) j, copied g (unat (i_nl p) + length rs), m2))
    \<and> j \<le> length ts \<and> mset rs = mset (filter (\<lambda>r. \<not> skipped g r) ts)
    \<and> (\<forall>k<unat (i_nl p). m2 (copied g k) = gc_args p m ! k)
    \<and> (\<forall>k<length rs. m2 (copied g (unat (i_nl p) + k)) = m (rs ! k) \<and> m2 (rs ! k) = home g (unat (i_nl p) + k))
    \<and> (\<forall>a. (hit_old g a \<or> hit_mid g a) \<and> a \<notin> set rs \<longrightarrow> m2 a = m a)"
proof -
  let ?n = "unat (i_nl p)" and ?b = "psub (i_st p) (i_nl p)"
  note S = sp [unfolded gc_space_def] and D = spaceD [OF sp] and T = gt [unfolded gc_trail_def]
  have m0: "m0 a = m a" if "unat (g_bottom g) \<le> unat a" "unat a \<le> unat (i_tt p) + 4 * length ts" for a
  proof -
    have "m0 a = (if a - g_copy g < GC_STATIC * 4 then 0 else m a)"
      using start by (auto simp: do_gc_start_def Let_def g gc_regs_def split: if_splits)
    thus ?thesis using D(5) [OF that] by simp
  qed
  have base: "unat (slot ?b (Suc k)) = unat (i_st p) + 4 - 4 * ?n + 4 * k" if "k < ?n" for k
  proof -
    have "slot ?b (Suc k) = i_st p - of_nat (4 * (?n - Suc k))"
      using that by (simp add: slot_def of_nat_diff algebra_simps)
    moreover have "unat (i_st p - of_nat (4 * (?n - Suc k))) = unat (i_st p) - 4 * (?n - Suc k)"
    proof -
      have l: "4 * (?n - Suc k) \<le> unat (i_st p)" using S that by auto
      have "unat (of_nat (4 * (?n - Suc k)) :: word32) = 4 * (?n - Suc k)"
        using unat_add_lt [of 0 "4 * (?n - Suc k)"] l unsigned_less [of "i_st p", where ?'a = nat] by simp
      thus ?thesis using l by (metis unat_sub word_le_nat_alt)
    qed
    ultimately show ?thesis using that S by simp
  qed
  have args: "unat (g_bottom g) \<le> unat (slot ?b (Suc k)) \<and> unat (slot ?b (Suc k)) \<le> unat (i_st p)" if "k < ?n" for k
    using base [OF that] S that by linarith
  have "slot (g_copy g) (0 + t) \<noteq> slot ?b (1 + t')" if "t < ?n" "t' < ?n" for t t'
    using D(6) [of "slot ?b (Suc t')" t] args [OF that(2)] that(1) S D(3) by fastforce
  moreover have "slot (g_copy g) (0 + t) \<noteq> slot (g_copy g) (0 + t')" if "t < ?n" "t' < ?n" "t \<noteq> t'" for t t'
    using copied_inj [OF D(1), of t t'] that D(3) by simp
  ultimately obtain m1 where m1: "copy_up ?n (g_copy g, ?b + 4, m0) = (copied g ?n, slot ?b (1 + ?n), m1)"
    "\<forall>t<?n. m1 (copied g t) = m0 (slot ?b (Suc t))" "\<forall>a. (\<forall>t<?n. a \<noteq> copied g t) \<longrightarrow> m1 a = m0 a"
    using copy_up_spec [of ?n "g_copy g" 0 ?b 1 m0] slot_simps(2) [of ?b 0] by auto
  have stack: "unat (g_bottom g) \<le> unat (slot (i_tt p) j) \<and> unat (slot (i_tt p) j) \<le> unat (i_tt p) + 4 * length ts"
    if "j \<le> length ts" for j
  proof -
    have "unat (slot (i_tt p) j) = unat (i_tt p) + 4 * j" by (rule unat_slot) (use S that in linarith)
    thus ?thesis using S that by (auto simp: word_le_nat_alt)
  qed
  have keep: "m1 a = m a" if "unat (g_bottom g) \<le> unat a" "unat a \<le> unat (i_tt p) + 4 * length ts" for a
    using m1(3) m0 [OF that] D(6) [OF that] D(3) by simp
  have ti: "trail_is m1 (i_tt p) ts" using T keep stack by (simp add: trail_is_def)
  have roots: "\<forall>r\<in>set ts. r \<noteq> 0 \<and> (skipped g r \<or> hit_old g r)" "distinct (filter (\<lambda>r. \<not> skipped g r) ts)"
    and af: "slot (i_tt p) (length ts) = i_af p" using T by auto
  have tr: "\<And>prevp. \<exists>rs m' j. trail_roots g prevp (i_tt p) (i_af p) (copied g ?n) m1 = Some (slot (i_tt p) j, copied g (?n + length rs), m')
      \<and> j \<le> length ts \<and> mset rs = mset (filter (\<lambda>r. \<not> skipped g r) ts)
      \<and> (\<forall>k<length rs. m' (copied g (?n + k)) = m1 (rs ! k) \<and> m' (rs ! k) = home g (?n + k))
      \<and> (\<forall>a. (\<forall>k\<le>length ts. a \<noteq> slot (i_tt p) k) \<and> a \<notin> set rs \<and> (\<forall>k<length rs. a \<noteq> copied g (?n + k)) \<longrightarrow> m' a = m1 a)"
    using trail_roots_spec [OF D(1) ti D(2,3) roots] unfolding af .
  obtain prevp where p: "find_prevp p m0 = Some prevp" using find_prevp_ends [of p m0] S by auto
  from tr [of prevp] obtain rs m2 j where
    t: "trail_roots g prevp (i_tt p) (i_af p) (copied g ?n) m1 = Some (slot (i_tt p) j, copied g (?n + length rs), m2)"
      "j \<le> length ts" "mset rs = mset (filter (\<lambda>r. \<not> skipped g r) ts)"
      "\<forall>k<length rs. m2 (copied g (?n + k)) = m1 (rs ! k) \<and> m2 (rs ! k) = home g (?n + k)"
      "\<forall>a. (\<forall>k\<le>length ts. a \<noteq> slot (i_tt p) k) \<and> a \<notin> set rs \<and> (\<forall>k<length rs. a \<noteq> copied g (?n + k)) \<longrightarrow> m2 a = m1 a"
    by blast
  have rs: "set rs = {r \<in> set ts. \<not> skipped g r}" using t(3) by (metis set_mset_mset set_filter)
  have len: "length rs \<le> length ts" using t(3) by (metis size_mset length_filter_le)
  have in_stack: "unat (g_bottom g) \<le> unat a \<and> unat a \<le> unat (i_tt p) + 4 * length ts" if "hit_old g a \<or> hit_mid g a" for a
    using that S by (auto simp: hit_old_def hit_mid_def word_le_nat_alt word_less_nat_alt)
  have "gc_init e p m = Some (Inr (g, slot (i_tt p) j, copied g (?n + length rs), m2))"
    using start p t(1) m1(1) by (simp add: gc_init_def g gc_regs_def Let_def)
  moreover have "m2 (copied g k) = gc_args p m ! k" if "k < ?n" for k
  proof -
    have "copied g k \<noteq> slot (i_tt p) l" if "l \<le> length ts" for l
      using D(2,3) that \<open>k < ?n\<close> by (auto simp: trail_room_def)
    moreover have "copied g k \<notin> set rs"
      using rs T D(6) [of _ k] in_stack D(3) that by (metis (mono_tags, lifting) mem_Collect_eq le_add1 order_less_le_trans)
    moreover have "copied g k \<noteq> copied g (?n + l)" if "l < length rs" for l
      using copied_inj [OF D(1), of k "?n + l"] that \<open>k < ?n\<close> len D(3) by simp
    ultimately have "m2 (copied g k) = m1 (copied g k)" using t(5) by blast
    also have "\<dots> = m (slot ?b (Suc k))" using m1(2) m0 args [OF that] that S by simp
    finally show ?thesis using that by (simp add: gc_args_def)
  qed
  moreover have "m2 (copied g (?n + k)) = m (rs ! k) \<and> m2 (rs ! k) = home g (?n + k)" if "k < length rs" for k
    using t(4) that keep in_stack rs T nth_mem [OF that] by auto
  moreover have "m2 a = m a" if "hit_old g a \<or> hit_mid g a" "a \<notin> set rs" for a
  proof -
    have "a \<noteq> copied g (?n + k)" if "k < length rs" for k
      using D(6) in_stack [OF \<open>hit_old g a \<or> hit_mid g a\<close>] that len D(3) by simp
    hence "m2 a = m1 a" using t(5) that D(4) by blast
    thus ?thesis using keep in_stack [OF that(1)] by simp
  qed
  ultimately show ?thesis using t(2,3) by blast
qed

section \<open>The scan begins\<close>

lemma deref_trace:
  assumes terms: "gc_terms g L m" and u: "\<And>a. hit_mid g a \<Longrightarrow> u a = m a"
  shows "good_word g L m w \<Longrightarrow> \<not> is_var ((m ^^ k) w) \<or> (m ^^ k) w = m ((m ^^ k) w) \<Longrightarrow> \<exists>k x. trace_end g u k w x"
proof (induction k arbitrary: w)
  case 0
  have "stops g u w"
  proof (cases "is_var w \<and> \<not> hit_old g w")
    case True
    hence "w \<in> L" using 0(1) by (simp add: good_word_def wf_word_def)
    thus ?thesis using terms u True 0(2) by (auto simp: gc_terms_def stops_def)
  qed (auto simp: stops_def)
  thus ?case by (intro exI [of _ "0 :: nat"] exI [of _ w]) (simp add: trace_end_def)
next
  case (Suc k)
  show ?case
  proof (cases "stops g u w")
    case True
    thus ?thesis by (intro exI [of _ "0 :: nat"] exI [of _ w]) (simp add: trace_end_def)
  next
    case False
    hence w: "w \<in> L" "hit_mid g w" using Suc.prems(1) terms by (auto simp: stops_def good_word_def wf_word_def gc_terms_def)
    hence "good_word g L m (m w)" using terms by (simp add: gc_terms_def)
    from Suc.IH [OF this] Suc.prems(2) obtain k x where "trace_end g u k (m w) x" by (auto simp: funpow_swap1)
    hence "trace_end g u (Suc k) w x" using False u [OF w(2)] by (simp add: trace_end_def trace_Suc)
    thus ?thesis by blast
  qed
qed

lemma terms_trace:
  assumes terms: "gc_terms g L m" and u: "\<And>a. hit_mid g a \<Longrightarrow> u a = m a" and w: "good_word g L m w"
  shows "\<exists>k x. trace_end g u k w x"
proof (cases "is_var w \<and> hit_mid g w")
  case True
  hence "w \<in> L" using w by (simp add: good_word_def wf_word_def)
  then obtain y where "deref_word m w = Some y" using terms True by (auto simp: gc_terms_def)
  from while_option_iterate [OF this [unfolded deref_word_def]]
  obtain k where "\<not> is_var ((m ^^ k) w) \<or> (m ^^ k) w = m ((m ^^ k) w)" by auto
  thus ?thesis using deref_trace [OF terms u w] by blast
next
  case False
  hence "stops g u w" using w terms by (auto simp: stops_def good_word_def wf_word_def gc_terms_def)
  thus ?thesis by (intro exI [of _ "0 :: nat"] exI [of _ w]) (simp add: trace_end_def)
qed

lemma start_heap:
  assumes terms: "gc_terms g L m" and u: "\<And>a. hit_old g a \<or> hit_mid g a \<Longrightarrow> a \<notin> R \<Longrightarrow> u a = m a"
    and R: "\<And>a. a \<in> R \<Longrightarrow> a \<in> L \<and> hit_old g a"
  shows "gc_heap g L u" "good_word g L m w \<Longrightarrow> origin_ok g L u (Prim, w)"
proof -
  have mid: "u a = m a" if "hit_mid g a" for a using u R that old_not_mid by blast
  have gw: "gc_word g L u w" if "good_word g L m w" for w
  proof (rule good_gc_word)
    show "good_word g L u w" by (rule good_word_store [OF that]) (use u R in blast)
  qed (use terms in \<open>auto simp: gc_terms_def\<close>)
  show "origin_ok g L u (Prim, w)" if "good_word g L m w"
    using gw that terms_trace [OF terms mid that] by (simp add: origin_ok_def)
  have "gc_word g L u (u a) \<and> (\<exists>k x. trace_end g u k a x)" if "a \<in> L" "hit_mid g a" for a
  proof -
    have "good_word g L m (m a)" "is_var a" using terms that by (auto simp: gc_terms_def)
    moreover have "\<not> is_list a" "\<not> is_str a" using \<open>is_var a\<close> kinds_exclusive(1,2) by blast+
    hence "good_word g L m a" using that \<open>is_var a\<close> by (simp add: good_word_def wf_word_def sided_def)
    ultimately show ?thesis using gw mid [OF that(2)] terms_trace [OF terms mid] by metis
  qed
  thus "gc_heap g L u" using terms by (simp add: gc_heap_def gc_terms_def)
qed

lemma start_inv:
  assumes "list_all (origin_ok g L u) (map (Pair Prim) ws)" "length ws \<le> lim" "\<And>k. k < length ws \<Longrightarrow> u (copied g k) = ws ! k"
  shows "gc_inv g L u lim (map (Pair Prim) ws) 0 u"
  using assms by (simp add: gc_inv_def pending_def)

section \<open>The copies are moved back\<close>

lemma finish_spec:
  assumes sp: "gc_space g p n lim" and N: "N \<le> lim" "unat (i_nl p) \<le> N" and j: "j \<le> n"
  shows "\<exists>m4 m5. move_back (copied g N) (g_cline g) (g_copy g) m = Some (home g N, m4)
    \<and> copy_up (unat (i_nl p)) (home g N, g_cline g, m4) = (home g (N + unat (i_nl p)), home g (unat (i_nl p)), m5)
    \<and> (let M = m5(slot (i_tt p) j := v) in
        (\<forall>i<N. M (home g i) = m (copied g i)) \<and> (\<forall>k<unat (i_nl p). M (home g (N + k)) = m (copied g k))
        \<and> (\<forall>a. hit_old g a \<longrightarrow> M a = m a))"
proof -
  let ?n = "unat (i_nl p)"
  note S = sp [unfolded gc_space_def] and D = spaceD [OF sp]
  have bc: "unat (g_bottom g) \<le> unat (g_cline g)" using S by (simp add: word_le_nat_alt)
  have u: "unat (home g i) = unat (g_cline g) + 4 * i" if "i \<le> lim + ?n" for i
    by (rule unat_slot) (use S that in auto)
  have inj: "(home g i = home g k) = (i = k)" if "i \<le> lim + ?n" "k \<le> lim + ?n" for i k using u that by (metis add_left_cancel mult_left_cancel zero_neq_numeral)
  have sep: "home g i \<noteq> copied g k" if "i < lim" "k < lim" for i k
    by (rule D(6) [OF _ _ that(2)]) (use u [of i] S bc that(1) in auto)
  have old: "a \<noteq> home g i" if "hit_old g a" "i \<le> lim + ?n" for a i
    using u [OF that(2)] that(1) by (auto simp: hit_old_def word_less_nat_alt)
  have tt: "slot (i_tt p) j \<noteq> home g i" if "i < lim + ?n" for i
  proof -
    have "unat (slot (i_tt p) j) = unat (i_tt p) + 4 * j" by (rule unat_slot) (use S j in linarith)
    thus ?thesis using u [of i] that S by (auto simp: distrib_left)
  qed
  have "unat (g_cline g) + 4 * N < 2 ^ 32" "unat (g_copy g) + 4 * N < 2 ^ 32"
    using D(1) N(1) by (auto simp: gc_layout_def)
  from move_back_spec [OF this, of m] obtain m4 where m4: "move_back (copied g N) (g_cline g) (g_copy g) m = Some (home g N, m4)"
    "\<forall>i<N. m4 (home g i) = m (copied g i)" "\<forall>a. (\<forall>i<N. a \<noteq> home g i) \<longrightarrow> m4 a = m a"
    using sep N(1) by auto
  have ap: "home g (N + t) \<noteq> home g (0 + t')" if "t < ?n" "t' < ?n" for t t'
    using inj [of "N + t" t'] that N by auto
  have ds: "home g (N + t) \<noteq> home g (N + t')" if "t < ?n" "t' < ?n" "t \<noteq> t'" for t t'
    using inj [of "N + t" "N + t'"] that N by auto
  from copy_up_spec [where n = ?n and m = m4, OF ap ds] obtain m5 where
    m5: "copy_up ?n (home g N, g_cline g, m4) = (home g (N + ?n), home g ?n, m5)"
      "\<forall>t<?n. m5 (home g (N + t)) = m4 (home g t)" "\<forall>a. (\<forall>t<?n. a \<noteq> home g (N + t)) \<longrightarrow> m5 a = m4 a" by auto
  let ?M = "m5(slot (i_tt p) j := v)"
  have "?M (home g i) = m (copied g i)" if "i < N" for i
    using m5(3) m4(2) tt [of i] inj [of i "N + _"] that N(1) by auto
  moreover have "?M (home g (N + k)) = m (copied g k)" if "k < ?n" for k
    using m5(2) m4(2) tt [of "N + k"] that N by auto
  moreover have "?M a = m a" if "hit_old g a" for a
    using m5(3) m4(3) old [OF that] N D(4) [of a j] that j by simp
  ultimately show ?thesis using m4(1) m5(1) by (auto simp: Let_def)
qed

section \<open>The collection\<close>

text \<open>What a solution assigns to the older cells.\<close>

definition old_cells :: "gc \<Rightarrow> addr set \<Rightarrow> (addr \<Rightarrow> rtree) \<Rightarrow> addr \<Rightarrow> rtree option" where
  "old_cells g L r = (\<lambda>a. if a \<in> L \<and> hit_old g a then Some (r a) else None)"

lemma collection_spec:
  assumes start: "do_gc_start e p m = Inr (cb, m0)" and g: "g = gc_regs p m cb"
    and sp: "gc_space g p (length ts) lim" and terms: "gc_terms g L m" and tr: "gc_trail g L p m ts"
    and args: "list_all (good_word g L m) (gc_args p m)" and fits: "gc_fits e p m lim"
  shows "\<exists>p' M u m3 os rt. do_collection e p m = Some (p', M, ecode E_SUCCEED)
    \<and> collected g L m u lim os m3 M rt \<and> unat (i_nl p) \<le> length os
    \<and> (\<forall>k<unat (i_nl p). os ! k = (Prim, gc_args p m ! k) \<and> M (home g (length os + k)) = M (home g k))
    \<and> i_st p' = home g (length os + unat (i_nl p)) - 4 \<and> i_gl p' = i_st p' \<and> i_nl p' = i_nl p
    \<and> collections p' = collections p + 1"
proof -
  let ?n = "unat (i_nl p)"
  note T = tr [unfolded gc_trail_def] and D = spaceD [OF sp]
  from gc_init_spec [OF start g sp tr] obtain rs u j where
    init: "gc_init e p m = Some (Inr (g, slot (i_tt p) j, copied g (?n + length rs), u))" and
    j: "j \<le> length ts" and rs: "mset rs = mset (filter (\<lambda>r. \<not> skipped g r) ts)" and
    ua: "\<And>k. k < ?n \<Longrightarrow> u (copied g k) = gc_args p m ! k" and
    ur: "\<And>k. k < length rs \<Longrightarrow> u (copied g (?n + k)) = m (rs ! k) \<and> u (rs ! k) = home g (?n + k)" and
    uo: "\<And>a. hit_old g a \<or> hit_mid g a \<Longrightarrow> a \<notin> set rs \<Longrightarrow> u a = m a" by blast
  have rset: "set rs = {r \<in> set ts. \<not> skipped g r}" using rs by (metis set_mset_mset set_filter)
  have rdist: "distinct rs" using rs T by (metis mset_eq_imp_distinct_iff)
  have rold: "r \<in> L \<and> hit_old g r" if "r \<in> set rs" for r using that rset T by auto
  have len: "?n + length rs \<le> lim" using rs D(3) length_filter_le [of _ ts] by (metis add_left_mono order_trans size_mset)
  let ?ws = "gc_args p m @ map m rs"
  have good: "good_word g L m w" if "w \<in> set ?ws" for w
    using that args terms rold by (auto simp: gc_terms_def list_all_iff)
  note H = start_heap [OF terms uo rold]
  have inv: "gc_inv g L u lim (map (Pair Prim) ?ws) 0 u"
  proof (rule start_inv)
    show "list_all (origin_ok g L u) (map (Pair Prim) ?ws)" using H(2) good by (auto simp: list_all_iff)
    show "u (copied g k) = ?ws ! k" if "k < length ?ws" for k
    proof (cases "k < ?n")
      case False
      thus ?thesis using ur [of "k - ?n"] that by (simp add: nth_append)
    qed (use ua in \<open>simp add: nth_append\<close>)
  qed (use len in simp)
  have "gc_room g lim (g_copy g, copied g (length (map (Pair Prim) ?ws)), u)" using fits init by (simp add: gc_fits_def)
  from gc_scan_final [OF inv D(1) H(1) this] obtain xs m3 where
    scan: "gc_scan g (g_copy g, copied g (length (map (Pair Prim) ?ws)), u)
      = Some (copied g (length (map (Pair Prim) ?ws @ xs)), copied g (length (map (Pair Prim) ?ws @ xs)), m3)"
      "gc_inv g L u lim (map (Pair Prim) ?ws @ xs) (length (map (Pair Prim) ?ws @ xs)) m3" by blast
  let ?os = "map (Pair Prim) ?ws @ xs" and ?v = "make_str (home g (length (map (Pair Prim) ?ws @ xs) + ?n) - 4)"
  have N: "length ?os \<le> lim" "?n \<le> length ?os" using gc_invD(1) [OF scan(2)] by simp_all
  from finish_spec [OF sp N j, of m3 ?v] obtain m4 m5 where
    F: "move_back (copied g (length ?os)) (g_cline g) (g_copy g) m3 = Some (home g (length ?os), m4)"
      "copy_up ?n (home g (length ?os), g_cline g, m4) = (home g (length ?os + ?n), home g ?n, m5)"
    and M: "\<And>i. i < length ?os \<Longrightarrow> (m5(slot (i_tt p) j := ?v)) (home g i) = m3 (copied g i)"
    and MA: "\<And>k. k < ?n \<Longrightarrow> (m5(slot (i_tt p) j := ?v)) (home g (length ?os + k)) = m3 (copied g k)"
    and MO: "\<And>a. hit_old g a \<Longrightarrow> (m5(slot (i_tt p) j := ?v)) a = m3 a"
    unfolding Let_def by blast
  let ?M = "m5(slot (i_tt p) j := ?v)" and ?t = "home g (length ?os + ?n) - 4"
  let ?p = "p\<lparr>i_gl := ?t, i_st := ?t, i_tt := slot (i_tt p) j - 4, collections := collections p + 1\<rparr>"
  let ?rt = "map_of (zip rs [?n..<?n + length rs])"
  have run: "do_collection e p m = Some (?p, ?M, ecode E_SUCCEED)"
    using init scan(1) F by (simp add: do_collection_def Let_def)
  have rt: "?rt (rs ! k) = Some (?n + k)" if "k < length rs" for k
    using map_of_zip_nth [of rs "[?n..<?n + length rs]" k] rdist that by simp
  have rt_dom: "\<exists>k<length rs. a = rs ! k \<and> i = ?n + k" if "?rt a = Some i" for a i
    using that by (auto dest!: map_of_SomeD simp: in_set_zip)
  have rt_none: "?rt a = None \<longleftrightarrow> a \<notin> set rs" for a by (simp add: map_of_zip_is_None)
  have u3: "m3 a = u a" if "hit_old g a" for a
  proof (rule gc_invD(4) [OF scan(2)])
    show "a \<noteq> copied g i" if "i < length ?os" for i using copied_apart(1) [OF D(1), of i] that N(1) \<open>hit_old g a\<close> by auto
  qed (use that old_not_mid in blast)
  have "collected g L m u lim ?os m3 ?M ?rt"
    unfolding collected_def
  proof (intro conjI allI ballI impI)
    show "?M a = (case ?rt a of None \<Rightarrow> m a | Some j \<Rightarrow> home g j)" if "hit_old g a" for a
    proof (cases "a \<in> set rs")
      case True
      then obtain k where k: "k < length rs" "a = rs ! k" by (auto simp: in_set_conv_nth)
      thus ?thesis using MO [OF that] u3 [OF that] ur [OF k(1)] rt [OF k(1)] by simp
    next
      case False
      hence "?rt a = None" using rt_none by simp
      hence "(case ?rt a of None \<Rightarrow> m a | Some j \<Rightarrow> home g j) = m a" by (simp only: option.case)
      moreover have "?M a = m a" using MO [OF that] u3 [OF that] uo that False by simp
      ultimately show ?thesis by (rule trans [OF _ sym, rotated])
    qed
    show "a \<in> L" "i < length ?os" "fst (?os ! i) \<noteq> Func" "snd (?os ! i) = m a" if r: "?rt a = Some i" for a i
    proof -
      from rt_dom [OF r] obtain k where k: "k < length rs" "a = rs ! k" "i = ?n + k" by blast
      thus "a \<in> L" "i < length ?os" "fst (?os ! i) \<noteq> Func" "snd (?os ! i) = m a"
        using rold nth_mem [OF k(1)] by (simp_all add: nth_append)
    qed
    show "old_word g (m a)" if "a \<in> L" "hit_old g a \<and> ?rt a = None" for a
    proof -
      have "is_var a" using terms that(1) by (simp add: gc_terms_def)
      hence "\<not> skipped g a" using that(2) old_not_mid by (auto simp: skipped_def is_var_def tag_consts)
      thus ?thesis using that rt_none rset T by auto
    qed
    show "good_word g L m (m a)" if "a \<in> L" for a using terms that by (simp add: gc_terms_def)
    show "good_word g L m (snd (?os ! i))" if i: "i < length ?os" "fst (?os ! i) \<noteq> Func" for i
    proof (rule good_word_store)
      have "origin_ok g L u (?os ! i)" using gc_invD(3) [OF scan(2)] i(1) by (simp add: list_all_length)
      thus "good_word g L u (snd (?os ! i))" using i(2) by (simp add: origin_ok_def gc_word_def)
      show "m a = u a" if "a \<notin> L" "hit_old g a \<or> hit_mid g a" for a using uo that rold by metis
    qed
    show "u a = m a" if "hit_mid g a" for a using uo that rold old_not_mid by blast
  qed (use D(1) H(1) scan(2) M in auto)
  moreover have "?os ! k = (Prim, gc_args p m ! k)" "?M (home g (length ?os + k)) = ?M (home g k)" if "k < ?n" for k
    using that MA [OF that] M [of k] N by (simp_all add: nth_append)
  ultimately show ?thesis using run N(2) by (intro exI [of _ ?p] exI [of _ ?M] exI [of _ u] exI [of _ m3] exI [of _ ?os] exI [of _ ?rt]) simp
qed

section \<open>The theorem\<close>

lemma aligned_below:
  assumes "is_var a" "is_var x" "a < x"
  shows "a \<le> x - 4"
proof -
  have m: "unat w mod 4 = 0" if "is_var w" for w :: word32
  proof -
    have "unat (tag w) = unat w mod 4" by (simp add: tag_take_bit unsigned_take_bit_eq take_bit_eq_mod unat_mod)
    thus ?thesis using tagged [OF that] by simp
  qed
  have "unat a + 4 \<le> unat x" using m [OF assms(1)] m [OF assms(2)] assms(3) unfolding word_less_nat_alt by presburger
  moreover from this have "unat (x - 4) = unat x - 4" using unat_sub [of 4 x] by (simp add: word_le_nat_alt)
  ultimately show ?thesis by (simp add: word_le_nat_alt)
qed

text \<open>
  Claim C3. From an imago ready to be collected, do_collection returns E_SUCCEED:
  the heap of the new stack is well-formed, its older cells are those of before,
  and the solutions of the store, as trees of the arguments and of every older
  cell, are exactly those before the collection.
\<close>

theorem gc_preserves_terms:
  assumes "do_gc_start e p m = Inr (cb, m0)" "g = gc_regs p m cb" "gc_space g p (length ts) lim"
    and "gc_terms g L m" "gc_trail g L p m ts" "list_all (good_word g L m) (gc_args p m)" "gc_fits e p m lim"
  shows "\<exists>p' m' L'. do_collection e p m = Some (p', m', ecode E_SUCCEED)
    \<and> {a \<in> L'. hit_old g a} = {a \<in> L. hit_old g a} \<and> wf_heap L' (i_st p') m'
    \<and> list_all (wf_word L' (i_st p') m') (gc_args p' m')
    \<and> (\<lambda>r. (map (tval m r) (gc_args p m), old_cells g L r)) ` models L m
      = (\<lambda>r. (map (tval m' r) (gc_args p' m'), old_cells g L r)) ` models L' m'
    \<and> i_nl p' = i_nl p \<and> i_gl p' = i_st p' \<and> collections p' = collections p + 1"
proof -
  let ?n = "unat (i_nl p)"
  from collection_spec [OF assms] obtain p' M u m3 os rt where
    run: "do_collection e p m = Some (p', M, ecode E_SUCCEED)" and c: "collected g L m u lim os m3 M rt" and
    n: "?n \<le> length os" and os: "\<And>k. k < ?n \<Longrightarrow> os ! k = (Prim, gc_args p m ! k)" and
    arg: "\<And>k. k < ?n \<Longrightarrow> M (home g (length os + k)) = M (home g k)" and
    p': "i_st p' = home g (length os + ?n) - 4" "i_gl p' = i_st p'" "i_nl p' = i_nl p" "collections p' = collections p + 1"
    by blast
  note D = collectedD [OF c] and S = assms(3) [unfolded gc_space_def]
  let ?L = "new_cells g L os"
  have v: "is_var (home g j)" for j using D(1) by (simp add: gc_layout_def)
  have N: "length os \<le> lim" using gc_invD(1) [OF D(3)] .
  have below: "a \<le> i_st p'" if "is_var a" "unat a < unat (g_cline g) + 4 * (length os + ?n)" for a
  proof -
    have "unat (home g (length os + ?n)) = unat (g_cline g) + 4 * (length os + ?n)" by (rule unat_slot) (use S N in auto)
    thus ?thesis unfolding p'(1) using aligned_below [OF that(1) v] that(2) by (simp add: word_less_nat_alt)
  qed
  have "wf_heap ?L (i_st p') M"
  proof (rule new_heap_wf [OF c])
    show "home g i \<le> i_st p'" if "i < length os" for i
      by (rule below [OF v]) (use unat_slot [of "g_cline g" i] S N that in auto)
  qed (use below in \<open>auto simp: hit_old_def word_less_nat_alt\<close>)
  moreover have args: "gc_args p' M = map (\<lambda>k. M (home g k)) [0..<?n]"
  proof -
    have "slot (psub (home g (length os + ?n) - 4) (i_nl p)) (Suc k) = home g (length os + k)" for k
      by (simp add: slot_def algebra_simps)
    thus ?thesis using arg by (simp add: gc_args_def p')
  qed
  have hn: "home g k \<in> ?L" if "k < ?n" for k using os [OF that] that n by (auto simp: new_cells_def)
  hence "list_all (wf_word ?L (i_st p') M) (gc_args p' M)"
    using \<open>wf_heap ?L (i_st p') M\<close> by (auto simp: list_all_iff args wf_heap_def)
  moreover have "map (tval M r) (gc_args p' M) = map (\<lambda>k. r (home g k)) [0..<?n]" if "r \<in> models ?L M" for r
  proof -
    have "tval M r (M (home g k)) = r (home g k)" if "k < ?n" for k
      using \<open>r \<in> models ?L M\<close> hn [OF that] v [of k] by (cases "M (home g k) = home g k") (auto simp: models_def tval_def)
    thus ?thesis by (simp add: args)
  qed
  moreover have "map (tval m r) (gc_args p m) = map (\<lambda>k. tval m r (snd (os ! k))) [0..<?n]" for r
    by (rule nth_equalityI) (simp_all add: os)
  moreover have "(\<lambda>r. (map (\<lambda>k. tval m r (snd (os ! k))) [0..<?n], old_cells g L r)) ` models L m
      = (\<lambda>r. (map (\<lambda>k. r (home g k)) [0..<?n], old_cells g L r)) ` models ?L M"
    unfolding old_cells_def by (rule collected_models [OF c]) (use os n in auto)
  moreover have "{a \<in> ?L. hit_old g a} = {a \<in> L. hit_old g a}"
    using home_not_old [OF D(1)] N by (auto simp: new_cells_def)
  ultimately show ?thesis using run p' by (intro exI [of _ p'] exI [of _ M] exI [of _ ?L]) (simp cong: image_cong)
qed

text \<open>
  An imago with one argument, the list [X|5]: its cells, X among them, lie in the
  area; the older cell 1000 refers to X and is on the trail.
\<close>

definition demo_gc_stack :: store where
  "demo_gc_stack = (\<lambda>_. 0)(1000 := 1008, 1004 := make_int 7, 1008 := 1008, 1012 := 1008, 1016 := make_int 5,
     1020 := make_list 1012, 3204 := 1000, 3208 := make_str 1004)"

definition demo_gc_icb :: icb where
  "demo_gc_icb = \<lparr>itype = WORKER, status = IMAGO_READY, expansions = 0, collections = 0, block_base = 100, block_ceiling = 3212,
     name_base = 200, name_top = 300, proc_base = 100, code_base = 150, stack_base = 1000, i_pp = 150, i_af = 3208, i_cp = 0,
     i_cf = 0, i_st = 1020, i_bb = 1000, i_b0 = 1000, i_gl = 1020, i_tt = 3200, i_nl = 1\<rparr>"

definition demo_gc_env :: gc_env where "demo_gc_env = \<lparr>ge_static = 1048576, ge_free = True, ge_malloc = 0\<rparr>"

definition demo_gc_regs :: gc where
  "demo_gc_regs = \<lparr>g_cline = 1008, g_st = 1020, g_bottom = 1000, g_copy = 1048576\<rparr>"

definition demo_gc_cells :: "addr set" where "demo_gc_cells = {1000, 1004, 1008, 1012, 1016, 1020}"

lemma demo_gc_values:
  "demo_gc_stack 1000 = 1008" "demo_gc_stack 1004 = 59" "demo_gc_stack 1008 = 1008" "demo_gc_stack 1012 = 1008"
  "demo_gc_stack 1016 = 43" "demo_gc_stack 1020 = 1013" "demo_gc_stack 3204 = 1000" "demo_gc_stack 3208 = 1006"
  by (simp_all add: demo_gc_stack_def make_int_def make_list_def make_str_def tag_consts)

lemma demo_gc_regs: "demo_gc_regs = gc_regs demo_gc_icb demo_gc_stack 1048576"
  by (simp add: gc_regs_def demo_gc_icb_def demo_gc_regs_def demo_gc_values addr_def ADR_MASK_def)

lemmas demo_gc_eval = demo_gc_values demo_gc_regs_def demo_gc_cells_def is_var_def is_cst_def is_list_def is_str_def is_fvl_def tag_def addr_def tag_consts
  hit_old_def hit_mid_def demo_gc_icb_def slot_def

lemma demo_gc_good:
  "list_all (good_word demo_gc_regs demo_gc_cells demo_gc_stack) [1008, 59, 43, 1013]"
  by (simp add: good_word_def wf_word_def sided_def demo_gc_eval)

lemma demo_gc_terms: "gc_terms demo_gc_regs demo_gc_cells demo_gc_stack"
  using demo_gc_good by (simp add: gc_terms_def deref_word_def while_option_unfold demo_gc_eval)

lemma demo_gc_space: "gc_space demo_gc_regs demo_gc_icb (length [1000 :: word32, 1006]) 516"
  by (simp add: gc_space_def demo_gc_eval GC_STATIC_def)

lemma demo_gc_trail: "gc_trail demo_gc_regs demo_gc_cells demo_gc_icb demo_gc_stack [1000, 1006]"
  by (simp add: gc_trail_def trail_is_def less_Suc_eq skipped_def old_word_def demo_gc_eval)

lemma demo_gc_args: "gc_args demo_gc_icb demo_gc_stack = [1013]"
  by (simp add: gc_args_def demo_gc_eval)

lemma demo_gc_start: "\<exists>m0. do_gc_start demo_gc_env demo_gc_icb demo_gc_stack = Inr (1048576, m0)"
  by (simp add: do_gc_start_def Let_def demo_gc_env_def demo_gc_eval pdiff_def GC_STATIC_def)

text \<open>The four steps of the scan, for any store that holds the two roots.\<close>

lemma demo_gc_scan:
  assumes u: "u 1048576 = 1013" "u 1048580 = 1008" "u 1008 = 1008" "u 1012 = 1008" "u 1016 = 43"
  shows "scan_iter demo_gc_regs (1048576, 1048584, u) (Suc 0) = Some (1048580, 1048592,
      u(1048576 := 1017, 1048584 := 1008, 1016 := 1048588, 1048588 := 43))"
    and "scan_iter demo_gc_regs (1048576, 1048584, u) (Suc (Suc 0)) = Some (1048584, 1048592,
      u(1048576 := 1017, 1048584 := 1008, 1016 := 1048588, 1048588 := 43, 1048580 := 1012, 1008 := 1048580))"
    and "scan_iter demo_gc_regs (1048576, 1048584, u) (Suc (Suc (Suc 0))) = Some (1048588, 1048592,
      u(1048576 := 1017, 1048584 := 1012, 1016 := 1048588, 1048588 := 43, 1048580 := 1012, 1008 := 1048580))"
    and "scan_iter demo_gc_regs (1048576, 1048584, u) (Suc (Suc (Suc (Suc 0)))) = Some (1048592, 1048592,
      u(1048576 := 1017, 1048584 := 1012, 1016 := 1048588, 1048588 := 43, 1048580 := 1012, 1008 := 1048580))"
proof -
  note E = scan_step_def gc_shunt_def while_option_unfold [where s = "_ :: word32"] scan_word_def scan_list_def scan_var_def is_self_ref_def
    hit_copied_var_def dest_def pdiff_def make_list_def Let_def
  let ?F = "\<lambda>r. Option.bind r (scan_step demo_gc_regs)" and ?x = "(1048576, 1048584, u)"
  have it: "scan_iter demo_gc_regs ?x (Suc k) = ?F (scan_iter demo_gc_regs ?x k)" for k by (simp add: scan_iter_def)
  have z: "scan_iter demo_gc_regs ?x 0 = Some ?x" by (simp add: scan_iter_def)
  show 1: "scan_iter demo_gc_regs ?x (Suc 0) = Some (1048580, 1048592,
      u(1048576 := 1017, 1048584 := 1008, 1016 := 1048588, 1048588 := 43))"
    unfolding it z by (simp add: E u demo_gc_eval)
  show 2: "scan_iter demo_gc_regs ?x (Suc (Suc 0)) = Some (1048584, 1048592,
      u(1048576 := 1017, 1048584 := 1008, 1016 := 1048588, 1048588 := 43, 1048580 := 1012, 1008 := 1048580))"
    unfolding it [of "Suc 0"] 1 by (simp add: E u demo_gc_eval)
  show 3: "scan_iter demo_gc_regs ?x (Suc (Suc (Suc 0))) = Some (1048588, 1048592,
      u(1048576 := 1017, 1048584 := 1012, 1016 := 1048588, 1048588 := 43, 1048580 := 1012, 1008 := 1048580))"
    unfolding it [of "Suc (Suc 0)"] 2 by (simp add: E u demo_gc_eval fun_upd_twist)
  show "scan_iter demo_gc_regs ?x (Suc (Suc (Suc (Suc 0)))) = Some (1048592, 1048592,
      u(1048576 := 1017, 1048584 := 1012, 1016 := 1048588, 1048588 := 43, 1048580 := 1012, 1008 := 1048580))"
    unfolding it [of "Suc (Suc (Suc 0))"] 3 by (simp add: E u demo_gc_eval fun_upd_idem)
qed

lemma demo_gc_fits: "gc_fits demo_gc_env demo_gc_icb demo_gc_stack 516"
proof -
  obtain m0 where start: "do_gc_start demo_gc_env demo_gc_icb demo_gc_stack = Inr (1048576, m0)" using demo_gc_start by blast
  from gc_init_spec [OF start demo_gc_regs demo_gc_space demo_gc_trail] obtain rs u j where
    i: "gc_init demo_gc_env demo_gc_icb demo_gc_stack
      = Some (Inr (demo_gc_regs, slot (i_tt demo_gc_icb) j, copied demo_gc_regs (unat (i_nl demo_gc_icb) + length rs), u))"
    and rs: "mset rs = mset (filter (\<lambda>r. \<not> skipped demo_gc_regs r) [1000, 1006])"
    and a: "\<forall>k<unat (i_nl demo_gc_icb). u (copied demo_gc_regs k) = gc_args demo_gc_icb demo_gc_stack ! k"
    and r: "\<forall>k<length rs. u (copied demo_gc_regs (unat (i_nl demo_gc_icb) + k)) = demo_gc_stack (rs ! k)
      \<and> u (rs ! k) = home demo_gc_regs (unat (i_nl demo_gc_icb) + k)"
    and o: "\<forall>a. (hit_old demo_gc_regs a \<or> hit_mid demo_gc_regs a) \<and> a \<notin> set rs \<longrightarrow> u a = demo_gc_stack a" by blast
  have "filter (\<lambda>r. \<not> skipped demo_gc_regs r) [1000, 1006] = [1000 :: word32]" by (simp add: skipped_def demo_gc_eval)
  hence rs: "rs = [1000]" using rs by simp
  have u: "u 1048576 = 1013" "u 1048580 = 1008" "u 1008 = 1008" "u 1012 = 1008" "u 1016 = 43"
    using a [unfolded demo_gc_args] r o [rule_format, of 1008] o [rule_format, of 1012] o [rule_format, of 1016]
    by (simp_all add: rs demo_gc_eval)
  have i: "gc_init demo_gc_env demo_gc_icb demo_gc_stack = Some (Inr (demo_gc_regs, slot (i_tt demo_gc_icb) j, 1048584, u))"
    using i by (simp add: rs demo_gc_icb_def demo_gc_regs_def slot_def)
  note S = demo_gc_scan [OF u]
  have k: "k < 4" if "\<forall>j\<le>k. scan_more (scan_iter demo_gc_regs (1048576, 1048584, u) j)" for k
  proof (rule ccontr)
    assume "\<not> k < 4"
    hence "scan_more (scan_iter demo_gc_regs (1048576, 1048584, u) (Suc (Suc (Suc (Suc 0)))))" using that by simp
    thus False unfolding S(4) by (simp add: scan_more_def)
  qed
  have z: "scan_iter demo_gc_regs (1048576, 1048584, u) 0 = Some (1048576, 1048584, u)" by (simp add: scan_iter_def)
  have "gc_room demo_gc_regs 516 (1048576, 1048584, u)"
    unfolding gc_room_def
  proof (intro allI impI)
    fix k
    assume "\<forall>j\<le>k. scan_more (scan_iter demo_gc_regs (1048576, 1048584, u) j)"
    from k [OF this] consider "k = 0" | "k = Suc 0" | "k = Suc (Suc 0)" | "k = Suc (Suc (Suc 0))" by linarith
    thus "case scan_iter demo_gc_regs (1048576, 1048584, u) k of None \<Rightarrow> True
        | Some (scanp, freep, m) \<Rightarrow> unat freep + 2048 \<le> unat (g_copy demo_gc_regs) + 4 * 516"
      by cases (simp_all only: z S, simp_all add: demo_gc_regs_def)
  qed
  thus ?thesis using i by (simp add: gc_fits_def demo_gc_regs_def)
qed

text \<open>The witness: the collection of the demo imago.\<close>

theorem gc_preserves_terms_witness:
  "\<exists>p' m' L'. do_collection demo_gc_env demo_gc_icb demo_gc_stack = Some (p', m', ecode E_SUCCEED)
    \<and> {a \<in> L'. hit_old demo_gc_regs a} = {1000, 1004} \<and> wf_heap L' (i_st p') m'
    \<and> (\<lambda>r. ([tval demo_gc_stack r 1013], old_cells demo_gc_regs demo_gc_cells r)) ` models demo_gc_cells demo_gc_stack
      = (\<lambda>r. (map (tval m' r) (gc_args p' m'), old_cells demo_gc_regs demo_gc_cells r)) ` models L' m'"
proof -
  obtain m0 where start: "do_gc_start demo_gc_env demo_gc_icb demo_gc_stack = Inr (1048576, m0)" using demo_gc_start by blast
  have "list_all (good_word demo_gc_regs demo_gc_cells demo_gc_stack) (gc_args demo_gc_icb demo_gc_stack)"
    using demo_gc_good by (simp add: demo_gc_args)
  from gc_preserves_terms [OF start demo_gc_regs demo_gc_space demo_gc_terms demo_gc_trail this demo_gc_fits]
  show ?thesis unfolding demo_gc_args
  proof (elim exE conjE, intro exI conjI)
    fix p' m' L'
    assume "{a \<in> L'. hit_old demo_gc_regs a} = {a \<in> demo_gc_cells. hit_old demo_gc_regs a}"
    also have "\<dots> = {1000, 1004}" by (auto simp: demo_gc_cells_def demo_gc_regs_def hit_old_def)
    finally show "{a \<in> L'. hit_old demo_gc_regs a} = {1000, 1004}" .
  qed simp_all
qed

section \<open>Doubles in the buffer\<close>

text \<open>
  Claim C38. The scan does not bypass a boxed double: its marker passes for a
  constant, so the payload is scanned as terms.  When the first payload word is by
  chance the address of an unbound cell of the area, the double is overwritten by a
  reference and the cell is forwarded into the double.
\<close>

theorem gc_corrupts_double:
  assumes "m scanp = FVL_TAG" "m (scanp + 4) = x" "is_var x" "m x = x"
    and "\<not> hit_old g x" "\<not> hit_copied_var g freep x" "x \<noteq> scanp + 4"
  shows "Option.bind (scan_step g (scanp, freep, m)) (scan_step g)
    = Some (scanp + 8, freep, m(scanp := FVL_TAG, scanp + 4 := dest g (scanp + 4), x := scanp + 4))"
proof -
  have f: "\<not> is_var FVL_TAG" "is_cst FVL_TAG" by (simp_all add: is_var_def is_cst_def tag_def tag_consts)
  have sh1: "gc_shunt g freep m FVL_TAG = Some FVL_TAG" using f by (simp add: gc_shunt_def while_option_done)
  hence 1: "scan_step g (scanp, freep, m) = Some (scanp + 4, freep, m(scanp := FVL_TAG))"
    using assms(1) f by (simp add: scan_step_def scan_word_def)
  have e: "m(scanp := FVL_TAG) = m" using assms(1) by (simp add: fun_upd_idem)
  have sh2: "gc_shunt g freep m x = Some x"
    using assms(3-6) by (simp add: gc_shunt_def is_self_ref_def while_option_done)
  show ?thesis unfolding 1 e
    using assms sh2 by (simp add: scan_step_def scan_word_def scan_var_def add.assoc)
qed

theorem gc_corrupts_double_witness:
  "let m = (\<lambda>_. 0)(1048576 := FVL_TAG, 1048580 := 1016, 1016 := 1016) :: store in
   Option.bind (scan_step demo_gc_regs (1048576, 1048588, m)) (scan_step demo_gc_regs)
     = Some (1048584, 1048588, m(1048576 := FVL_TAG, 1048580 := 1012, 1016 := 1048580))"
  using gc_corrupts_double [of "(\<lambda>_. 0)(1048576 := FVL_TAG, 1048580 := 1016, 1016 := 1016)" 1048576 1016 demo_gc_regs 1048588]
  by (simp add: demo_gc_eval hit_copied_var_def dest_def pdiff_def)

end
