(* ===== verification/MLVM_Names.thy ===== *)
theory MLVM_Names
  imports MLVM_Threads MLVM_Memory
begin

text \<open>
  Name tables and arguments, creator/creator.c: search_index enters a string in the
  name table of an imago, name_table_expansion makes room for it, arg_size measures
  a term and copy_arg copies one into the block of another imago.  None stands for
  a run that does not return.  A char* is the string it points to, unless the code
  computes with the address.
\<close>

section \<open>Name tables\<close>

abbreviation NUL :: char where "NUL \<equiv> CHR 0x00"

definition put_char :: "addr \<Rightarrow> char \<Rightarrow> store \<Rightarrow> store" where
  "put_char p c m = put_byte p (of_char c) m"

text \<open>while (*pp && *pp == *cp): what is left of pp, and cp.\<close>

fun match_name :: "store \<Rightarrow> string \<Rightarrow> addr \<Rightarrow> string \<times> addr" where
  "match_name m [] cp = ([], cp)"
| "match_name m (c # pp) cp = (if char_at m cp = c then match_name m pp (cp + 1) else (c # pp, cp))"

text \<open>while (*cp++ && cp < child->name_top)\<close>

definition next_name :: "store \<Rightarrow> addr \<Rightarrow> addr \<Rightarrow> addr option" where
  "next_name m tp cp =
     map_option (\<lambda>cp. cp + 1) (while_option (\<lambda>cp. char_at m cp \<noteq> NUL \<and> cp + 1 < tp) (\<lambda>cp. cp + 1) cp)"

definition name_here :: "store \<Rightarrow> string \<Rightarrow> addr \<Rightarrow> bool" where
  "name_here m pp cp = (let (rest, q) = match_name m pp cp in rest = [] \<and> char_at m q = NUL)"

text \<open>The sequential search: the address of the string, or name_top.\<close>

definition find_name :: "store \<Rightarrow> addr \<Rightarrow> string \<Rightarrow> addr \<Rightarrow> addr option" where
  "find_name m tp pp cp =
     Option.bind (while_option (\<lambda>r. case r of None \<Rightarrow> False | Some cp \<Rightarrow> cp < tp \<and> \<not> name_here m pp cp)
       (\<lambda>r. Option.bind r (\<lambda>cp. next_name m tp (snd (match_name m pp cp)))) (Some cp)) (\<lambda>r. r)"

text \<open>while ((*cp++ = *pp++)): the string with its final zero.\<close>

fun put_name :: "addr \<Rightarrow> string \<Rightarrow> store \<Rightarrow> addr \<times> store" where
  "put_name cp [] m = (cp + 1, put_char cp NUL m)"
| "put_name cp (c # pp) m = put_name (cp + 1) pp (put_char cp c m)"

section \<open>Expansion of the name table\<close>

definition NAME_EXP_SIZE :: word32 where "NAME_EXP_SIZE = 256"

text \<open>One turn of the loop that moves the stack up, from its top down.\<close>

definition lift_word :: "word32 \<Rightarrow> addr \<Rightarrow> addr \<Rightarrow> addr \<times> addr \<times> store \<Rightarrow> addr \<times> addr \<times> store" where
  "lift_word d oldbase oldtop x =
     (let (oldp, newp, m) = x in
      if oldbase < oldp - 8 \<and> is_fvl (m (oldp - 8))
      then (let m1 = m(newp := m oldp); m2 = m1(newp - 4 := m1 (oldp - 4))
            in (oldp - 12, newp - 12, m2(newp - 8 := m2 (oldp - 8))))
      else
        (let temp = m oldp in
         if is_cst temp \<or> addr temp < oldbase \<or> oldtop < addr temp then (oldp - 4, newp - 4, m(newp := temp))
         else (oldp - 4, newp - 4, m(newp := padd (addr temp) d OR tag temp))))"

definition lift_stack :: "word32 \<Rightarrow> addr \<Rightarrow> addr \<Rightarrow> store \<Rightarrow> store option" where
  "lift_stack d oldbase tp m =
     map_option (\<lambda>(oldp, newp, m). m)
       (while_option (\<lambda>(oldp, newp, m). oldbase \<le> oldp) (lift_word d oldbase tp) (tp, padd tp d, m))"

text \<open>The loop over the trail starts at its top and walks down, away from block_ceiling.\<close>

definition lift_trail :: "word32 \<Rightarrow> addr \<Rightarrow> addr \<Rightarrow> store \<Rightarrow> store option" where
  "lift_trail d ceiling newp m =
     map_option snd (while_option (\<lambda>(newp, m). newp < ceiling)
       (\<lambda>(newp, m). let temp = m newp in
          (newp - 4, m(newp := (if is_var temp then padd temp d else make_str (padd (addr temp) d))))) (newp, m))"

definition name_table_expansion :: "icb \<Rightarrow> addr \<Rightarrow> store \<Rightarrow> (icb \<times> store \<times> word32) option" where
  "name_table_expansion p tp m =
     (let d = NAME_EXP_SIZE div 4;
          p1 = p\<lparr>stack_base := padd (stack_base p) d, i_st := padd (i_st p) d, i_bb := padd (i_bb p) d,
                 i_b0 := padd (i_b0 p) d, i_cf := padd (i_cf p) d, i_af := padd (i_af p) d, i_gl := padd (i_gl p) d\<rparr> in
      Option.bind (lift_stack d (stack_base p) tp m) (\<lambda>m1.
        map_option (\<lambda>m2. (p1, m2, d)) (lift_trail d (block_ceiling p) (i_tt p + 4) m1)))"

text \<open>The index of the string; i_nl is the distance the stack was moved by, or 0.\<close>

definition search_index :: "string \<Rightarrow> icb \<Rightarrow> addr \<Rightarrow> store \<Rightarrow> (word32 \<times> icb \<times> store) option" where
  "search_index pcon child tp m =
     (let c = child\<lparr>i_nl := 0\<rparr> in
      Option.bind (find_name m (name_top c) pcon (name_base c)) (\<lambda>cp.
        if cp < name_top c then Some (cp - name_base c, c, m)
        else
          map_option (\<lambda>(c1, m1). let (q, m2) = put_name cp pcon m1 in (cp - name_base c1, c1\<lparr>name_top := q\<rparr>, m2))
            (if stack_base c \<le> cp + of_nat (length pcon)
             then map_option (\<lambda>(c1, m1, d). (c1\<lparr>i_nl := d\<rparr>, m1)) (name_table_expansion c tp m)
             else Some (c, m))))"

section \<open>Arguments\<close>

text \<open>derefstr(X, Y): functors that refer on.\<close>

definition derefstr :: "store \<Rightarrow> word32 \<Rightarrow> word32 option" where
  "derefstr m = while_option (\<lambda>x. is_str (m (addr x)) \<and> x \<noteq> m (addr x)) (\<lambda>x. m (addr x))"

text \<open>The arguments of a structure are pushed from the first on.\<close>

primrec push_range :: "addr \<Rightarrow> nat \<Rightarrow> addr \<times> store \<Rightarrow> addr \<times> store" where
  "push_range a 0 x = x"
| "push_range a (Suc n) x = (let (stk, m) = x in push_range (a + 4) n (stk + 4, m(stk := m a)))"

definition size_step :: "word32 \<times> addr \<times> store \<Rightarrow> (word32 \<times> addr \<times> store) option" where
  "size_step x =
     (let (sz, stk0, m) = x; stk = stk0 - 4 in
      Option.bind (deref_word m (m stk)) (\<lambda>term.
        if is_var term \<or> is_int term then Some (sz + 1, stk, m)
        else if is_con term then Some (sz + 2, stk, m)
        else if is_list term then
          (let (stk1, m1) = push_range (addr term) 2 (stk, m) in Some (sz + 1, stk1, m1))
        else if is_float m term then Some (sz + 4, stk, m)
        else Option.bind (derefstr m term) (\<lambda>v.
          let (stk1, m1) = push_range (addr v + 4) (unat (arity (m (addr v)))) (stk, m) in Some (sz + 2, stk1, m1))))"

definition arg_size :: "word32 \<Rightarrow> icb \<Rightarrow> store \<Rightarrow> (word32 \<times> store) option" where
  "arg_size term ip m =
     (let btk = i_st ip + 4 in
      Option.bind (while_option (\<lambda>r. case r of None \<Rightarrow> False | Some (sz, stk, m) \<Rightarrow> btk < stk)
          (\<lambda>r. Option.bind r size_step) (Some (0, btk + 4, m(btk := term))))
        (map_option (\<lambda>(sz, stk, m). (sz, m))))"

text \<open>The state of copy_arg: skbot, sktop, the child and the store.\<close>

record copying =
  c_bot :: addr
  c_top :: addr
  c_icb :: icb
  c_store :: store

definition copy_word_out :: "word32 \<Rightarrow> copying \<Rightarrow> copying" where
  "copy_word_out w c = c\<lparr>c_store := (c_store c)(c_bot c := w), c_bot := c_bot c + 4\<rparr>"

definition copy_cells :: "addr \<Rightarrow> nat \<Rightarrow> copying \<Rightarrow> copying" where
  "copy_cells a n c =
     (let (tp, m) = push_range a n (c_top c, c_store c) in c\<lparr>c_top := tp, c_store := m\<rparr>)"

text \<open>A constant or functor whose name the child may not have yet.\<close>

definition copy_name :: "word32 \<Rightarrow> addr \<Rightarrow> copying \<Rightarrow> copying option" where
  "copy_name root nb c =
     Option.bind (c_string (c_store c) (nb + (fun_value root - ASCII_SIZE))) (\<lambda>s.
       map_option (\<lambda>(con, p, m).
           copy_word_out (make_fun (con + ASCII_SIZE) (arity root))
             (c\<lparr>c_icb := p, c_store := m, c_bot := padd (c_bot c) (i_nl p), c_top := padd (c_top c) (i_nl p)\<rparr>))
         (search_index s (c_icb c) (c_top c - 4) (c_store c)))"

definition copy_step :: "addr \<Rightarrow> copying \<Rightarrow> copying option" where
  "copy_step nb c =
     (let m = c_store c in
      Option.bind (deref_word m (m (c_bot c))) (\<lambda>root.
        if is_var root then Some (copy_word_out (c_bot c) c)
        else if is_int root \<or> is_nil root then Some (copy_word_out root c)
        else if is_fvl root then Some (c\<lparr>c_bot := c_bot c + 12\<rparr>)
        else if is_con root then
          (if fun_value root <s ASCII_SIZE then Some (copy_word_out root c) else copy_name root nb c)
        else if is_list root then
          (let tp = c_top c in Some (copy_cells (addr root) 2 (copy_word_out (make_list tp) c)))
        else
          (let c1 = copy_word_out (make_str (c_top c)) c; m1 = c_store c1 in
           Option.bind (derefstr m1 root) (\<lambda>root.
             if is_float m1 root
             then Some (copy_cells (addr root) 3 c1)
             else Some (copy_cells (addr root) (Suc (unat (arity (m1 (addr root))))) c1)))))"

text \<open>Some None: the copy comes within six words of the trail and the child is to be expanded.\<close>

definition copy_more :: "copying option \<Rightarrow> bool" where
  "copy_more r = (case r of None \<Rightarrow> False | Some c \<Rightarrow> c_bot c < c_top c \<and> c_top c < i_tt (c_icb c) - 24)"

definition copy_arg :: "word32 \<Rightarrow> addr \<Rightarrow> icb \<Rightarrow> store \<Rightarrow> (icb \<times> store \<times> addr option) option" where
  "copy_arg proot nb child m =
     (let bot = i_st child + 4 in
      Option.bind (while_option copy_more (\<lambda>r. Option.bind r (copy_step nb))
          (Some \<lparr>c_bot = bot, c_top = bot + 4, c_icb = child, c_store = m(bot := proot)\<rparr>))
        (map_option (\<lambda>c.
           if c_bot c < c_top c then ((c_icb c)\<lparr>i_nl := 3\<rparr>, c_store c, None)
           else (c_icb c, (c_store c)(c_top c := c_store c (i_st (c_icb c) + 4)), Some (c_top c)))))"

end
