(* ===== verification/MLVM_Builtins.thy ===== *)
theory MLVM_Builtins
  imports MLVM_Names
begin

text \<open>
  The builtin predicates of builtins/bp_impl.c that work on the caller alone: its
  control block and the store.  Arguments lie at the stack top and below.  None
  stands for a run that does not return; the other outcomes are in the status the
  builtin leaves (READY, BACKTRACK, ERROR, or the thread that is to go on with the
  imago).  btin_tab (builtins/builtins.c) is the table the loader indexes.
\<close>

section \<open>Helpers\<close>

text \<open>bt_trail and bt_bbtrail, the latter with <= where the engine has <.\<close>

definition bt_trail :: "addr \<Rightarrow> icb \<times> store \<Rightarrow> icb \<times> store" where
  "bt_trail x pm =
     (let (p, m) = pm in
      if x \<le> i_gl p then (p\<lparr>i_tt := i_tt p - 4\<rparr>, m(i_tt p := x)) else (p, m))"

definition bt_bbtrail :: "addr \<Rightarrow> icb \<times> store \<Rightarrow> icb \<times> store" where
  "bt_bbtrail x pm =
     (let (p, m) = pm in
      if x \<le> i_bb p then (p\<lparr>i_tt := i_tt p - 4\<rparr>, m(i_tt p := x)) else (p, m))"

text \<open>Argument n words below the stack top, dereferenced.\<close>

definition bt_arg :: "word32 \<Rightarrow> icb \<Rightarrow> store \<Rightarrow> word32 option" where
  "bt_arg n p m = deref_word m (m (psub (i_st p) n))"

definition bt_error :: "error_code \<Rightarrow> icb \<Rightarrow> icb" where
  "bt_error e p = p\<lparr>status := IMAGO_ERROR, i_nl := ecode e\<rparr>"

definition bt_fail :: "icb \<Rightarrow> icb" where "bt_fail p = p\<lparr>status := IMAGO_BACKTRACK\<rparr>"

text \<open>An unbound variable becomes a constant.\<close>

definition bind_cst :: "addr \<Rightarrow> word32 \<Rightarrow> icb \<Rightarrow> store \<Rightarrow> icb \<times> store" where
  "bind_cst x v p m = bt_bbtrail x (p, m(x := v))"

section \<open>Terms\<close>

definition bp_arg :: "icb \<Rightarrow> store \<Rightarrow> (icb \<times> store) option" where
  "bp_arg p m =
     Option.bind (bt_arg 2 p m) (\<lambda>r1. Option.bind (bt_arg 1 p m) (\<lambda>r2. Option.bind (bt_arg 0 p m) (\<lambda>r3.
       if \<not> is_int r1 \<or> \<not> (is_list r2 \<or> is_str r2) then Some (bt_error E_ILLEGAL_ARGUMENT p, m)
       else
         (let n = int_value r1;
              k = (if is_list r2 then 2 else arity (m (addr r2)));
              first = (if is_list r2 then addr r2 else addr r2 + 4);
              r4 = padd first (n - 1) in
          if n <s 1 \<or> k <s n then Some (bt_error E_ILLEGAL_ARGUMENT p, m)
          else if is_var r3 then
            Some (if is_con (m r4) then bt_bbtrail r3 (p, m(r3 := m r4)) else bt_trail r3 (p, m(r3 := m r4)))
          else Option.bind (deref_word m r4) (\<lambda>r4.
            Some (if is_var r4
                  then (if is_con r3 then bt_bbtrail r4 (p, m(r4 := r3)) else bt_trail r4 (p, m(r4 := r3)))
                  else (p, m))))))) "

text \<open>n unbound cells above st.\<close>

primrec push_vars :: "nat \<Rightarrow> addr \<times> store \<Rightarrow> addr \<times> store" where
  "push_vars 0 x = x"
| "push_vars (Suc n) x = (let (st, m) = x; st = st + 4 in push_vars n (st, m(st := st)))"

text \<open>The globals of opcode/opcode.c: nothing assigns con_list, C clears it.\<close>

definition con_list :: word32 where "con_list = 0"

text \<open>
  The term is built over the arguments, from the slot of r1 on; while (r3--) runs
  r3 times as an unsigned number.
\<close>

definition functor_build :: "word32 \<Rightarrow> word32 \<Rightarrow> word32 \<Rightarrow> icb \<Rightarrow> store \<Rightarrow> icb \<times> store" where
  "functor_build r1 r2 n p m =
     (let st = psub (i_st p) 2 in
      if r2 = con_list then
        (let (p1, m1) = bt_trail r1 (p, m(st := st, r1 := make_list st))
         in (p1\<lparr>i_st := st + 4\<rparr>, m1(st + 4 := st + 4)))
      else
        (let (p1, m1) = bt_trail r1 (p, m(st := make_fun (con_value r2) n, r1 := make_str st));
             (st1, m2) = push_vars (unat n) (st, m1)
         in (p1\<lparr>i_st := st1\<rparr>, m2)))"

definition functor_match :: "word32 \<Rightarrow> word32 \<Rightarrow> word32 \<Rightarrow> word32 \<Rightarrow> icb \<Rightarrow> store \<Rightarrow> icb \<times> store" where
  "functor_match r2 r3 f n p m =
     (if \<not> is_var r2 \<and> r2 \<noteq> f then (bt_fail p, m)
      else
        (let (p1, m1) = (if is_var r2 then bind_cst r2 f p m else (p, m)) in
         if is_var r3 then bind_cst r3 (make_int n) p1 m1
         else if int_value r3 \<noteq> n then (bt_fail p1, m1)
         else (p1, m1)))"

definition bp_functor3 :: "icb \<Rightarrow> store \<Rightarrow> (icb \<times> store) option" where
  "bp_functor3 p m =
     Option.bind (bt_arg 2 p m) (\<lambda>r1. Option.bind (bt_arg 1 p m) (\<lambda>r2. Option.bind (bt_arg 0 p m) (\<lambda>r3. Some (
       if is_var r1 then
         (if \<not> is_cst r2 \<or> \<not> is_int r3 \<or> of_nat MAX_ARITY <s int_value r3 then (bt_error E_ILLEGAL_ARGUMENT p, m)
          else if int_value r3 = 0 then bind_cst r1 r2 p m
          else functor_build r1 r2 (int_value r3) p m)
       else if is_list r1 then functor_match r2 r3 con_list 2 p m
       else if is_str r1
       then functor_match r2 r3 (make_con (fun_value (m (addr r1)))) (arity (m (addr r1))) p m
       else (bt_error E_ILLEGAL_ARGUMENT p, m)))))"

text \<open>The loop of length: the dereferenced tail and the cells counted so far.\<close>

definition list_tail :: "store \<Rightarrow> word32 \<Rightarrow> word32 option" where
  "list_tail m r = deref_word m (m (addr r + 4))"

definition list_length :: "store \<Rightarrow> word32 \<Rightarrow> (word32 \<times> word32) option" where
  "list_length m r =
     Option.bind (while_option (\<lambda>x. case x of None \<Rightarrow> False | Some (r, n) \<Rightarrow> is_list r)
         (\<lambda>x. Option.bind x (\<lambda>(r, n). map_option (\<lambda>t. (t, n + 1)) (list_tail m r))) (Some (r, 0)))
       (\<lambda>x. x)"

definition bp_length_2 :: "icb \<Rightarrow> store \<Rightarrow> (icb \<times> store) option" where
  "bp_length_2 p m =
     Option.bind (bt_arg 1 p m) (\<lambda>r1. Option.bind (bt_arg 0 p m) (\<lambda>r2.
       if is_nil r1 \<or> is_list r1 then
         map_option (\<lambda>(_, n).
           if is_var r2 then bind_cst r2 (make_int n) p m
           else if is_int r2 \<and> int_value r2 = n then (p, m)
           else (bt_fail p, m)) (list_length m r1)
       else Some (bt_error E_ILLEGAL_ARGUMENT p, m)))"

section \<open>Names\<close>

text \<open>current_host and stationary_host: the name is entered before the argument is looked at.\<close>

definition bind_name :: "string \<Rightarrow> icb \<Rightarrow> store \<Rightarrow> (icb \<times> store) option" where
  "bind_name s p m =
     Option.bind (search_index s p (i_st p) m) (\<lambda>(v, p1, m1).
       Option.bind (bt_arg 0 p1 m1) (\<lambda>t. Some (
         if is_var t then bind_cst t (make_con (v + ASCII_SIZE)) p1 m1
         else (bt_error E_ILLEGAL_ARGUMENT p1, m1))))"

definition bp_current_host :: "string \<Rightarrow> icb \<Rightarrow> store \<Rightarrow> (icb \<times> store) option" where
  "bp_current_host cname = bind_name cname"

definition bp_stationary_host :: "host \<Rightarrow> icb \<Rightarrow> store \<Rightarrow> (icb \<times> store) option" where
  "bp_stationary_host queen = bind_name (h_name queen)"

text \<open>sender dereferences first: an expansion of the name table leaves t behind.\<close>

definition bp_sender :: "string \<Rightarrow> icb \<Rightarrow> store \<Rightarrow> (icb \<times> store) option" where
  "bp_sender nm p m =
     (if \<not> is_messenger p then Some (bt_error E_ILLEGAL_BUILTIN p, m)
      else Option.bind (bt_arg 0 p m) (\<lambda>t.
        if is_var t
        then map_option (\<lambda>(v, p1, m1). bind_cst t (make_con (v + ASCII_SIZE)) p1 m1) (search_index nm p (i_st p) m)
        else Some (bt_error E_ILLEGAL_ARGUMENT p, m)))"

text \<open>The new name of the sender, or None where it stays; name_ptr is not tested for a one-character atom.\<close>

definition bp_reset_sender :: "icb \<Rightarrow> store \<Rightarrow> (icb \<times> string option) option" where
  "bp_reset_sender p m =
     (if \<not> is_messenger p then Some (bt_error E_ILLEGAL_BUILTIN p, None)
      else Option.bind (bt_arg 0 p m) (\<lambda>t.
        if is_con t then map_option (\<lambda>s. (p, Some s)) (c_string m (name_ptr p (con_value t)))
        else Some (bt_error E_ILLEGAL_ARGUMENT p, None)))"

text \<open>memcmp(a, b, n) == 0\<close>

definition same_bytes :: "store \<Rightarrow> addr \<Rightarrow> addr \<Rightarrow> nat \<Rightarrow> bool" where
  "same_bytes m a b n = list_all (\<lambda>i. char_at m (a + of_nat i) = char_at m (b + of_nat i)) [0..<n]"

text \<open>The atom pcon is entered and bound to the argument n below the stack top, which t points to.\<close>

definition bind_atom :: "string \<Rightarrow> word32 \<Rightarrow> addr \<Rightarrow> icb \<Rightarrow> store \<Rightarrow> (icb \<times> store) option" where
  "bind_atom pcon n t p m =
     Option.bind (search_index pcon p (i_st p) m) (\<lambda>(v, p1, m1).
       map_option (\<lambda>t. bind_cst t (make_con (v + ASCII_SIZE)) p1 m1)
         (if i_nl p1 \<noteq> 0 then bt_arg n p1 m1 else Some t))"

text \<open>A string longer than the whole makes the length of buf negative: None, as for a run that does not return.\<close>

definition bp_atom_concat :: "icb \<Rightarrow> store \<Rightarrow> (icb \<times> store) option" where
  "bp_atom_concat p m =
     Option.bind (bt_arg 2 p m) (\<lambda>r1. Option.bind (bt_arg 1 p m) (\<lambda>r2. Option.bind (bt_arg 0 p m) (\<lambda>r3.
       if is_var r1 \<and> is_var r2 \<or> (is_var r1 \<or> is_var r2) \<and> is_var r3
          \<or> \<not> is_var r1 \<and> \<not> is_con r1 \<or> \<not> is_var r2 \<and> \<not> is_con r2 \<or> \<not> is_var r3 \<and> \<not> is_con r3
       then Some (bt_error E_ILLEGAL_ARGUMENT p, m)
       else
         (let name_of = (\<lambda>r. if is_con r then c_string m (name_ptr p (con_value r)) else Some []);
              c1 = name_ptr p (con_value r1); c2 = name_ptr p (con_value r2); c3 = name_ptr p (con_value r3) in
          Option.bind (name_of r1) (\<lambda>s1. Option.bind (name_of r2) (\<lambda>s2. Option.bind (name_of r3) (\<lambda>s3.
            if is_con r1 \<and> is_con r2 then
              (if is_con r3 then
                 Some (if length s1 + length s2 \<noteq> length s3 \<or> \<not> same_bytes m c1 c3 (length s1)
                          \<or> \<not> same_bytes m c2 (c3 + of_nat (length s3 - length s2)) (length s2)
                       then bt_fail p else p, m)
               else bind_atom (s1 @ s2) 0 r3 p m)
            else if is_con r1 then
              (if \<not> same_bytes m c1 c3 (length s1) then Some (bt_fail p, m)
               else Option.bind (c_string m (c3 + of_nat (length s1))) (\<lambda>s. bind_atom s 1 r2 p m))
            else if length s3 < length s2 then None
            else if \<not> same_bytes m c2 (c3 + of_nat (length s3 - length s2)) (length s2) then Some (bt_fail p, m)
            else bind_atom (take (length s3 - length s2) s3) 2 r1 p m)))))))"

section \<open>Requests to the system threads\<close>

definition bp_clone :: "icb \<Rightarrow> store \<Rightarrow> (icb \<times> store) option" where
  "bp_clone p m =
     (if is_stationary p then Some (bt_error E_ILLEGAL_CLONE p, m)
      else Option.bind (bt_arg 0 p m) (\<lambda>t.
        if \<not> is_var t then Some (bt_error E_ILLEGAL_ARGUMENT p, m)
        else if is_worker p then
          map_option (\<lambda>t. if is_con t then (p\<lparr>status := IMAGO_CLONING\<rparr>, m) else (bt_error E_UNKNOWN_IMAGO p, m))
            (bt_arg 1 p m)
        else Some (p\<lparr>status := IMAGO_CLONING\<rparr>, m)))"

definition bp_create :: "icb \<Rightarrow> store \<Rightarrow> (icb \<times> store) option" where
  "bp_create p m =
     (if \<not> is_stationary p then Some (bt_error E_ILLEGAL_CREATE p, m)
      else Option.bind (bt_arg 2 p m) (\<lambda>t.
        if \<not> is_con t then Some (bt_error E_UNKNOWN_IMAGO p, m)
        else map_option (\<lambda>t. if is_con t then (p\<lparr>status := IMAGO_SYS_CREATION\<rparr>, m) else (bt_error E_UNKNOWN_IMAGO p, m))
               (bt_arg 1 p m)))"

text \<open>nl tells the creator a system-defined messenger from a user-defined one.\<close>

definition bp_dispatch :: "icb \<Rightarrow> store \<Rightarrow> (icb \<times> store) option" where
  "bp_dispatch p m =
     (if is_messenger p then Some (bt_error E_ILLEGAL_CREATE p, m)
      else map_option (\<lambda>t.
        if \<not> is_con t then (bt_error E_ILLEGAL_MESGER p, m)
        else
          (let user = con_value t <s ASCII_SIZE \<or> char_at m (name_ptr p (con_value t)) \<noteq> CHR ''$'' in
           if is_worker p \<and> user then (bt_error E_ILLEGAL_MESGER p, m)
           else (p\<lparr>i_nl := ecode (if user then E_ILLEGAL_MESGER else E_SUCCEED), status := IMAGO_DISPATCHING\<rparr>, m)))
        (bt_arg 2 p m))"

definition bp_move :: "icb \<Rightarrow> store \<Rightarrow> (icb \<times> store) option" where
  "bp_move p m =
     map_option (\<lambda>v. (if is_con v then p\<lparr>status := IMAGO_MOVE_OUT\<rparr> else bt_error E_ILLEGAL_ARGUMENT p, m))
       (bt_arg 0 p m)"

definition bp_dispose :: "icb \<Rightarrow> icb" where
  "bp_dispose p = p\<lparr>status := IMAGO_DISPOSE, i_nl := ecode E_SUCCEED\<rparr>"

definition bp_terminate :: "icb \<Rightarrow> icb" where
  "bp_terminate p = p\<lparr>status := IMAGO_TERMINATE, i_nl := ecode E_SUCCEED\<rparr>"

section \<open>Time\<close>

text \<open>td is the double computed from the clock.\<close>

definition bp_ctime :: "word32 \<times> word32 \<Rightarrow> icb \<Rightarrow> store \<Rightarrow> (icb \<times> store) option" where
  "bp_ctime td p m =
     map_option (\<lambda>r1.
       if \<not> is_var r1 then (bt_error E_ILLEGAL_ARGUMENT p, m)
       else (let (f, m1) = make_float td (i_st p) m
             in bt_bbtrail r1 (p\<lparr>i_st := padd (i_st p) 3\<rparr>, m1(r1 := f)))) (bt_arg 0 p m)"

text \<open>tv is the time of day; the deadline is stored in the control block, None where it stays.\<close>

definition bp_sleep :: "env \<Rightarrow> timeval \<Rightarrow> icb \<Rightarrow> store \<Rightarrow> (icb \<times> timeval option) option" where
  "bp_sleep E tv p m =
     map_option (\<lambda>v. case sleep_time E m v of
         None \<Rightarrow> (bt_error E_ILLEGAL_ARGUMENT p, None)
       | Some tv1 \<Rightarrow> (p\<lparr>status := IMAGO_TIMER\<rparr>, Some (timer_add tv tv1))) (bt_arg 0 p m)"

section \<open>The table\<close>

definition LEGAL_ALL :: word32 where "LEGAL_ALL = 0xff"
definition LEGAL_STATIONARY :: word32 where "LEGAL_STATIONARY = 1"
definition LEGAL_WORKER :: word32 where "LEGAL_WORKER = 2"
definition LEGAL_MESSENGER :: word32 where "LEGAL_MESSENGER = 4"
definition LEGAL_SYSMSGER :: word32 where "LEGAL_SYSMSGER = 8"
definition LEGAL_SANDW :: word32 where "LEGAL_SANDW = LEGAL_STATIONARY OR LEGAL_WORKER"
definition LEGAL_WANDM :: word32 where "LEGAL_WANDM = LEGAL_WORKER OR LEGAL_MESSENGER"

text \<open>Name, arity, function and the kinds of imago that may call it, up to the final empty entry.\<close>

definition btin_tab :: "(string \<times> nat \<times> string \<times> word32) list" where
  "btin_tab =
   [(''var'', 1, ''bp_var'', LEGAL_ALL),
    (''nonvar'', 1, ''bp_nonvar'', LEGAL_ALL),
    (''atom'', 1, ''bp_atom'', LEGAL_ALL),
    (''integer'', 1, ''bp_integer'', LEGAL_ALL),
    (''float'', 1, ''bp_float'', LEGAL_ALL),
    (''atomic'', 1, ''bp_atomic'', LEGAL_ALL),
    (''compound'', 1, ''bp_compound'', LEGAL_ALL),
    (''ground'', 1, ''bp_ground'', LEGAL_ALL),
    (''number'', 1, ''bp_number'', LEGAL_ALL),
    (''abs'', 2, ''bp_abs'', LEGAL_ALL),
    (''ceiling'', 2, ''bp_ceiling'', LEGAL_ALL),
    (''floor'', 2, ''bp_floor'', LEGAL_ALL),
    (''sqrt'', 2, ''bp_sqrt'', LEGAL_ALL),
    (''log'', 2, ''bp_log'', LEGAL_ALL),
    (''minus'', 2, ''bp_minus'', LEGAL_ALL),
    (''pow'', 2, ''bp_pow'', LEGAL_ALL),
    (''round'', 2, ''bp_round'', LEGAL_ALL),
    (''sin'', 2, ''bp_sin'', LEGAL_ALL),
    (''arcsin'', 2, ''bp_arcsin'', LEGAL_ALL),
    (''cos'', 2, ''bp_cos'', LEGAL_ALL),
    (''arccos'', 2, ''bp_arccos'', LEGAL_ALL),
    (''tan'', 2, ''bp_tan'', LEGAL_ALL),
    (''arctan'', 2, ''bp_arctan'', LEGAL_ALL),
    (''rand'', 1, ''bp_rand'', LEGAL_ALL),
    (''srand'', 2, ''bp_srand'', LEGAL_ALL),
    (''functor'', 3, ''bp_functor3'', LEGAL_ALL),
    (''arg'', 3, ''bp_arg'', LEGAL_ALL),
    (''length'', 2, ''bp_length_2'', LEGAL_ALL),
    (''univ'', 2, ''bp_univ'', LEGAL_ALL),
    (''atom_length'', 2, ''bp_atom_length'', LEGAL_ALL),
    (''atom_concat'', 3, ''bp_atom_concat'', LEGAL_ALL),
    (''sub_atom'', 4, ''bp_sub_atom'', LEGAL_ALL),
    (''atom_chars'', 2, ''bp_atom_chars'', LEGAL_ALL),
    (''char_code'', 2, ''bp_char_code'', LEGAL_ALL),
    (''number_chars'', 2, ''bp_number_chars'', LEGAL_ALL),
    (''integer_float'', 2, ''bp_integer_float'', LEGAL_ALL),
    (''current_input'', 1, ''bp_current_input'', LEGAL_STATIONARY),
    (''current_output'', 1, ''bp_current_output'', LEGAL_STATIONARY),
    (''set_input'', 1, ''bp_set_input'', LEGAL_STATIONARY),
    (''set_output'', 1, ''bp_set_output'', LEGAL_STATIONARY),
    (''open'', 4, ''bp_open4'', LEGAL_STATIONARY),
    (''open'', 3, ''bp_open3'', LEGAL_STATIONARY),
    (''close'', 2, ''bp_close2'', LEGAL_STATIONARY),
    (''close'', 1, ''bp_close1'', LEGAL_STATIONARY),
    (''flush_output'', 1, ''bp_flush_output1'', LEGAL_STATIONARY),
    (''flush_output'', 0, ''bp_flush_output'', LEGAL_STATIONARY),
    (''nl'', 0, ''bp_nl'', LEGAL_ALL),
    (''set_stream_position'', 2, ''bp_set_stream_position'', LEGAL_STATIONARY),
    (''get_char'', 1, ''bp_get_char'', LEGAL_STATIONARY),
    (''get_char'', 2, ''bp_get_char2'', LEGAL_STATIONARY),
    (''get_code'', 1, ''bp_get_code'', LEGAL_STATIONARY),
    (''get_code'', 2, ''bp_get_code2'', LEGAL_STATIONARY),
    (''peek_char'', 1, ''bp_peek_char'', LEGAL_STATIONARY),
    (''peek_char'', 2, ''bp_peek_char2'', LEGAL_STATIONARY),
    (''peek_code'', 1, ''bp_peek_code'', LEGAL_STATIONARY),
    (''peek_code'', 2, ''bp_peek_code2'', LEGAL_STATIONARY),
    (''put_char'', 1, ''bp_put_char'', LEGAL_STATIONARY),
    (''put_char'', 2, ''bp_put_char2'', LEGAL_STATIONARY),
    (''put_code'', 1, ''bp_put_code'', LEGAL_STATIONARY),
    (''put_code'', 2, ''bp_put_code2'', LEGAL_STATIONARY),
    (''get_byte'', 1, ''bp_get_byte'', LEGAL_STATIONARY),
    (''get_byte'', 2, ''bp_get_byte2'', LEGAL_STATIONARY),
    (''peek_byte'', 1, ''bp_peek_byte'', LEGAL_STATIONARY),
    (''peek_byte'', 2, ''bp_peek_byte2'', LEGAL_STATIONARY),
    (''put_byte'', 1, ''bp_put_byte'', LEGAL_STATIONARY),
    (''put_byte'', 2, ''bp_put_byte2'', LEGAL_STATIONARY),
    (''write'', 1, ''bp_write'', LEGAL_ALL),
    (''write'', 2, ''bp_write2'', LEGAL_STATIONARY),
    (''spy'', 0, ''bp_spy'', LEGAL_ALL),
    (''nospy'', 0, ''bp_nospy'', LEGAL_ALL),
    (''spy'', 2, ''bp_spy2'', LEGAL_ALL),
    (''nospy'', 2, ''bp_nospy2'', LEGAL_ALL),
    (''trace'', 0, ''bp_trace'', LEGAL_ALL),
    (''notrace'', 0, ''bp_notrace'', LEGAL_ALL),
    (''debugging'', 0, ''bp_debugging'', LEGAL_ALL),
    (''ctime'', 1, ''bp_ctime'', LEGAL_ALL),
    (''sleep'', 1, ''bp_sleep'', LEGAL_ALL),
    (''stats'', 1, ''bp_stats'', LEGAL_ALL),
    (''accept'', 2, ''bp_accept'', LEGAL_SANDW),
    (''attach'', 3, ''bp_attach'', LEGAL_MESSENGER),
    (''clone'', 2, ''bp_clone'', LEGAL_WANDM),
    (''create'', 3, ''bp_create'', LEGAL_STATIONARY),
    (''current_host'', 1, ''bp_current_host'', LEGAL_ALL),
    (''database_search'', 3, ''bp_database_search'', LEGAL_WORKER),
    (''dispatch'', 3, ''bp_dispatch'', LEGAL_SANDW),
    (''dispose'', 0, ''bp_dispose'', LEGAL_WANDM),
    (''move'', 1, ''bp_move'', LEGAL_WANDM),
    (''reset_sender'', 1, ''bp_reset_sender'', LEGAL_MESSENGER),
    (''sender'', 1, ''bp_sender'', LEGAL_MESSENGER),
    (''stationary_host'', 1, ''bp_stationary_host'', LEGAL_ALL),
    (''terminate'', 0, ''bp_terminate'', LEGAL_STATIONARY),
    (''wait_accept'', 2, ''bp_wait_accept'', LEGAL_SANDW),
    (''web_search'', 3, ''bp_web_search'', LEGAL_WORKER),
    (''workers'', 3, ''bp_workers'', LEGAL_ALL),
    (''syscall'', 3, ''bp_syscall'', LEGAL_SYSMSGER)]"

end
