(* ===== verification/MLVM_Messages.thy ===== *)
theory MLVM_Messages
  imports MLVM_Builtins MLVM_Unify
begin

text \<open>
  The builtin predicates of builtins/bp_impl.c that reach beyond the caller:
  accept, wait_accept, attach, syscall and workers, with their helpers
  match_messenger, msg_unify and messenger_accept.  A messenger attached to an
  imago stands in its queue MSQ; accept copies terms between the two blocks.  The
  lock of the log and the locks of the queues are not part of the state.
\<close>

section \<open>Unification of a message\<close>

text \<open>One turn of the loop; unlike the engine, structures are followed with derefstr.\<close>

definition msg_step :: "addr \<Rightarrow> addr \<Rightarrow> addr \<Rightarrow> ustate \<Rightarrow> ustate option" where
  "msg_step bb gl cx u =
     (let ax = u_ax u; bx = u_bx u; m = u_mem u in
      if is_str ax \<and> is_str bx \<and> ax \<noteq> bx \<and> \<not> (is_float m ax \<and> is_float m bx) then
        Option.bind (derefstr m ax) (\<lambda>x. map_option (\<lambda>y.
          (let x = addr x; y = addr y in
           if m x \<noteq> m y then u\<lparr>u_run := UFail\<rparr>
           else (let u1 = u_push_args (unat (arity (m x))) x y u
                 in u1\<lparr>u_bx := u_mem u1 (y + 4), u_ax := u_mem u1 (x + 4)\<rparr>))) (derefstr m bx))
      else Some (unify_step bb gl cx u))"

definition msg_loop :: "addr \<Rightarrow> addr \<Rightarrow> addr \<Rightarrow> ustate \<Rightarrow> ustate option" where
  "msg_loop bb gl cx u =
     Option.bind (while_option (\<lambda>r. case r of None \<Rightarrow> False | Some u \<Rightarrow> u_run u = URun)
       (\<lambda>r. Option.bind r (msg_step bb gl cx)) (Some u)) (\<lambda>r. r)"

text \<open>filter_trail and clear_trail of include/engine.h on the locals tt and gp.\<close>

definition filter_from :: "addr \<Rightarrow> addr \<times> addr \<times> store \<Rightarrow> (addr \<times> addr \<times> store) option" where
  "filter_from gl = while_option (\<lambda>(tt, gp, m). gp < tt)
     (\<lambda>(tt, gp, m). if m tt \<le> gl then (tt - 4, gp, m) else (tt, gp + 4, m(tt := m (gp + 4))))"

definition clear_from :: "addr \<Rightarrow> addr \<times> store \<Rightarrow> (addr \<times> store) option" where
  "clear_from tt = while_option (\<lambda>(gp, m). gp < tt) (\<lambda>(gp, m). (gp + 4, m(m (gp + 4) := m (gp + 4))))"

definition msg_start :: "addr \<Rightarrow> addr \<Rightarrow> icb \<Rightarrow> store \<Rightarrow> ustate" where
  "msg_start t1 t2 p m =
     \<lparr>u_run = URun, u_mem = m, u_ax = m t1, u_bx = m t2, u_st = t2, u_tt = i_tt p\<rparr>"

definition msg_unify :: "addr \<Rightarrow> addr \<Rightarrow> icb \<Rightarrow> store \<Rightarrow> (word32 \<times> icb \<times> store) option" where
  "msg_unify t1 t2 p m =
     Option.bind (msg_loop (i_bb p) (i_gl p) t2 (msg_start t1 t2 p m)) (\<lambda>u.
       if u_run u = USucc
       then map_option (\<lambda>(tt, gp, m). (ecode E_SUCCEED, p\<lparr>i_st := t2, i_tt := tt\<rparr>, m))
              (filter_from (i_gl p) (u_tt u, i_tt p, u_mem u))
       else map_option (\<lambda>(gp, m). (ecode E_NO_SOLUTION, p, m)) (clear_from (u_tt u) (i_tt p, u_mem u)))"

section \<open>Matching a messenger\<close>

text \<open>A symbolic name: a one-character atom is spelt by its value.\<close>

definition symbol :: "icb \<Rightarrow> store \<Rightarrow> word32 \<Rightarrow> string option" where
  "symbol p m t =
     (if con_value t <s ASCII_SIZE
      then Some (let c = char_of (unat (con_value t)) in if c = NUL then [] else [c])
      else c_string m (name_ptr p (con_value t)))"

text \<open>An operation on the control block at ip and the store.\<close>

definition on_block :: "addr \<Rightarrow> (icb \<Rightarrow> store \<Rightarrow> ('a \<times> icb \<times> store) option) \<Rightarrow> sys \<Rightarrow> ('a \<times> sys) res" where
  "on_block ip f s =
     bind_res (of_opt (f (core (s_icb s ip)) (s_mem s)))
       (\<lambda>(x, p, m). Inr (x, upd_core ip (\<lambda>_. p) (s\<lparr>s_mem := m\<rparr>)))"

definition with_block :: "addr \<Rightarrow> (icb \<Rightarrow> store \<Rightarrow> (icb \<times> store) option) \<Rightarrow> sys \<Rightarrow> sys res" where
  "with_block ip f s =
     bind_res (on_block ip (\<lambda>p m. map_option (\<lambda>pm. ((), pm)) (f p m)) s) (\<lambda>(_, s). Inr s)"

abbreviation blk :: "sys \<Rightarrow> addr \<Rightarrow> icb" where "blk s ip \<equiv> core (s_icb s ip)"

text \<open>The argument n of the imago at ip, dereferenced.\<close>

definition arg_of :: "word32 \<Rightarrow> addr \<Rightarrow> sys \<Rightarrow> word32 res" where
  "arg_of n ip s = of_opt (bt_arg n (blk s ip) (s_mem s))"

definition copy_term :: "word32 \<Rightarrow> addr \<Rightarrow> addr \<Rightarrow> sys \<Rightarrow> (addr option \<times> sys) res" where
  "copy_term t nb ip = on_block ip (\<lambda>p m. map_option (\<lambda>(p, m, r). (r, p, m)) (copy_arg t nb p m))"

text \<open>The argument n becomes the word at r, the new stack top.\<close>

definition take_copy :: "word32 \<Rightarrow> addr \<Rightarrow> icb \<Rightarrow> store \<Rightarrow> (icb \<times> store) option" where
  "take_copy n r p m =
     map_option (\<lambda>x. let (p, m) = bt_trail x (p, m(x := m r)) in (p\<lparr>i_st := r\<rparr>, m)) (bt_arg n p m)"

definition IMAGO_EXPANSION_NL :: word32 where "IMAGO_EXPANSION_NL = 3"

text \<open>The four cases on the message of the receiver and that of the messenger.\<close>

definition match_message :: "addr \<Rightarrow> addr \<Rightarrow> sys \<Rightarrow> (word32 \<times> sys) res" where
  "match_message ip mip s =
     bind_res (arg_of 0 ip s) (\<lambda>rs. bind_res (arg_of 1 mip s) (\<lambda>ms.
       if is_var rs then
         (if is_var ms then Inr (ecode E_SUCCEED, s)
          else bind_res (copy_term ms (name_base (blk s mip)) ip s) (\<lambda>(r, s1). case r of
              None \<Rightarrow> Inr (i_nl (blk s1 ip), s1)
            | Some rst \<Rightarrow> bind_res (with_block ip (take_copy 0 rst) s1) (\<lambda>s2. Inr (ecode E_SUCCEED, s2))))
       else if is_var ms then
         bind_res (copy_term rs (name_base (blk s ip)) mip s) (\<lambda>(r, s1). case r of
             None \<Rightarrow> Inr (i_nl (blk s1 mip), s1)
           | Some mst \<Rightarrow> bind_res (with_block mip (take_copy 1 mst) s1) (\<lambda>s2. Inr (ecode E_SUCCEED, s2)))
       else
         bind_res (copy_term ms (name_base (blk s mip)) ip s) (\<lambda>(r, s1). case r of
             None \<Rightarrow> Inr (i_nl (blk s1 ip), s1)
           | Some rst \<Rightarrow>
         bind_res (copy_term rs (name_base (blk s1 ip)) mip s1) (\<lambda>(r, s2). case r of
             None \<Rightarrow> Inr (i_nl (blk s2 mip), s2)
           | Some mst \<Rightarrow>
         bind_res (on_block ip (\<lambda>p. msg_unify (i_st p) rst p) s2) (\<lambda>(v, s3).
           if v \<noteq> ecode E_SUCCEED then Inr (ecode E_UNKNOWN_IMAGO, s3)
           else
             bind_res (on_block mip (\<lambda>p. msg_unify (psub (i_st p) 1) mst p)
                 (upd_core ip (\<lambda>p. p\<lparr>i_st := rst\<rparr>) s3)) (\<lambda>(_, s4).
               Inr (ecode E_SUCCEED, upd_core mip (\<lambda>p. p\<lparr>i_st := mst\<rparr>) s4)))))))"

text \<open>rt, the variable for the sender, is the word read before any expansion of the name table.\<close>

definition bind_sender :: "string \<Rightarrow> word32 \<Rightarrow> icb \<Rightarrow> store \<Rightarrow> (icb \<times> store) option" where
  "bind_sender nm rt p m =
     map_option (\<lambda>(v, p1, m1). bind_cst rt (make_con (v + ASCII_SIZE)) p1 m1) (search_index nm p (i_st p) m)"

definition match_messenger :: "addr \<Rightarrow> addr \<Rightarrow> sys \<Rightarrow> (word32 \<times> sys) res" where
  "match_messenger ip mip s =
     bind_res (arg_of 1 ip s) (\<lambda>rt.
       if \<not> is_var rt \<and> \<not> is_con rt then Inr (ecode E_ILLEGAL_ARGUMENT, s)
       else bind_res (if is_var rt then Inr None
                      else bind_res (of_opt (symbol (blk s ip) (s_mem s) rt)) (\<lambda>nm. Inr (Some nm))) (\<lambda>expected.
         if expected \<noteq> None \<and> expected \<noteq> Some (ip_name (s_icb s mip)) then Inr (ecode E_UNKNOWN_IMAGO, s)
         else bind_res (match_message ip mip s) (\<lambda>(v, s1).
           if v \<noteq> ecode E_SUCCEED \<or> expected \<noteq> None then Inr (v, s1)
           else bind_res (with_block ip (bind_sender (ip_name (s_icb s1 mip)) rt) s1) (\<lambda>s2. Inr (v, s2)))))"

section \<open>Accepting\<close>

text \<open>tmp is the stack top of the messenger before the match.\<close>

definition bind_at :: "string \<Rightarrow> addr \<Rightarrow> icb \<Rightarrow> store \<Rightarrow> (icb \<times> store) option" where
  "bind_at pcon tmp p m =
     Option.bind (search_index pcon p (i_st p) m) (\<lambda>(v, p1, m1).
       map_option (\<lambda>t. bind_cst t (make_con (v + ASCII_SIZE)) p1 m1) (deref_word m1 (m1 tmp)))"

definition msq_remove :: "addr \<Rightarrow> addr \<Rightarrow> sys \<Rightarrow> sys res" where
  "msq_remove ip mip s =
     bind_res (of_opt (icb_remove mip (s_next s, s_queue s (MSQ ip))))
       (\<lambda>(nx, q). Inr (s\<lparr>s_next := nx, s_queue := (s_queue s)(MSQ ip := q)\<rparr>))"

definition receive :: "addr \<Rightarrow> addr \<Rightarrow> addr \<Rightarrow> sys \<Rightarrow> sys res" where
  "receive ip mip tmp s =
     bind_res (msq_remove ip mip (set_status IMAGO_READY ip s)) (\<lambda>s1.
       bind_res (set_log_status LOG_ALIVE ip s1) (\<lambda>s2.
         bind_res (with_block mip (bind_at ''received'' tmp) s2) (\<lambda>s3.
           Inr (icb_put_signal ENGINE_Q mip (set_status IMAGO_READY mip s3)))))"

text \<open>One turn of the for loop: the messenger looked at, the state, and the result once it is known.\<close>

definition accept_step :: "addr \<Rightarrow> addr \<times> sys \<times> int option \<Rightarrow> (addr \<times> sys \<times> int option) res" where
  "accept_step ip x =
     (let (mip, s, _) = x; tmp = i_st (blk s mip) in
      bind_res (match_messenger ip mip s) (\<lambda>(v, s1).
        if v = ecode E_SUCCEED then bind_res (receive ip mip tmp s1) (\<lambda>s2. Inr (mip, s2, Some 1))
        else if v = ecode E_ILLEGAL_ARGUMENT then Inr (mip, set_error v ip s1, Some (- 1))
        else if v = IMAGO_EXPANSION_NL then
          (if i_nl (blk s1 ip) = IMAGO_EXPANSION_NL
           then Inr (mip, upd_core ip (\<lambda>p. p\<lparr>status := IMAGO_EXPANSION, i_nl := v\<rparr>) s1, Some (- 1))
           else bind_res (msq_remove ip mip s1) (\<lambda>s2.
             let s3 = icb_put_signal MEMORY_Q mip
                        (upd_core mip (\<lambda>p. p\<lparr>i_pp := psub (i_pp p) 2, status := IMAGO_EXPANSION\<rparr>) s2)
             in Inr (q_head (s_queue s3 (MSQ ip)), s3, None)))
        else Inr (s_next s1 mip, s1, None)))"

definition messenger_accept :: "addr \<Rightarrow> sys \<Rightarrow> (int \<times> sys) res" where
  "messenger_accept ip s =
     bind_res (bind_res (of_opt (while_option
         (\<lambda>r. case r of Inl e \<Rightarrow> False | Inr (mip, s, ret) \<Rightarrow> mip \<noteq> NULL \<and> ret = None)
         (\<lambda>r. bind_res r (accept_step ip)) (Inr (q_head (s_queue s (MSQ ip)), s, None)))) (\<lambda>r. r))
       (\<lambda>(mip, s, ret). Inr (case ret of None \<Rightarrow> 0 | Some v \<Rightarrow> v, s))"

definition accept_result :: "addr \<Rightarrow> (sys \<Rightarrow> sys res) \<Rightarrow> sys \<Rightarrow> sys res" where
  "accept_result ip none s =
     bind_res (messenger_accept ip s) (\<lambda>(ret, s1).
       if ret = 0 then none s1
       else if 0 < ret then Inr (set_status IMAGO_READY ip s1)
       else if ip_status s1 ip = IMAGO_EXPANSION then Inr s1
       else Inr (set_status IMAGO_ERROR ip s1))"

definition bp_accept :: "addr \<Rightarrow> sys \<Rightarrow> sys res" where
  "bp_accept ip = accept_result ip (\<lambda>s. Inr (set_status IMAGO_BACKTRACK ip s))"

definition bp_wait_accept :: "addr \<Rightarrow> sys \<Rightarrow> sys res" where
  "bp_wait_accept ip = accept_result ip (\<lambda>s. set_log_status LOG_BLOCKED ip (set_status IMAGO_WAITING ip s))"

section \<open>Attaching a messenger\<close>

text \<open>The structure moved(nm) on top of the stack, bound to the variable at the stack top.\<close>

definition bind_moved :: "string \<Rightarrow> icb \<Rightarrow> store \<Rightarrow> (icb \<times> store) option" where
  "bind_moved nm p m =
     Option.bind (search_index ''moved'' p (i_st p) m) (\<lambda>(v, p1, m1).
       let m1 = m1(i_st p1 + 4 := make_fun (v + ASCII_SIZE) 1) in
       Option.bind (search_index nm p1 (i_st p1 + 4) m1) (\<lambda>(v, p2, m2).
         let m2 = m2(i_st p2 + 8 := make_con (v + ASCII_SIZE)) in
         map_option (\<lambda>t. let (p3, m3) = bt_trail t (p2, m2(t := make_str (i_st p2 + 4)))
                         in (p3\<lparr>i_st := padd (i_st p3) 2\<rparr>, m3)) (bt_arg 0 p2 m2)))"

definition bind_word :: "string \<Rightarrow> icb \<Rightarrow> store \<Rightarrow> (icb \<times> store) option" where
  "bind_word nm p = bind_at nm (i_st p) p"

text \<open>Case 1: the receiver is unknown here.\<close>

definition attach_unknown :: "env \<Rightarrow> addr \<Rightarrow> sys \<Rightarrow> sys res" where
  "attach_unknown E ip s =
     (let t = s_icb s ip in
      if h_host_id (ip_queen t) \<noteq> e_hostid E then with_block ip (bind_moved (h_name (ip_queen t))) s
      else bind_res (of_opt (log_find (h_host_id (ip_queen t)) (ip_application t) None s)) (\<lambda>l.
        Inr (if l \<noteq> NULL then icb_put_q WAITING_MSGER_Q ip (set_status IMAGO_WAITING ip s)
             else set_error (ecode E_ILLEGAL_MESGER) ip s)))"

text \<open>Case 4: the messenger enters the queue of the receiver at rip and wakes it.\<close>

definition enter_msq :: "addr \<Rightarrow> addr \<Rightarrow> sys \<Rightarrow> sys" where
  "enter_msq ip rip s =
     (if ip_status s rip = IMAGO_WAITING
      then icb_put_signal ENGINE_Q rip (set_status IMAGO_READY rip (on_queue (MSQ rip) (icb_insert ip) s))
      else on_queue (MSQ rip) (icb_append ip) s)"

definition short_cut :: "env \<Rightarrow> addr \<Rightarrow> sys \<Rightarrow> sys res" where
  "short_cut E ip s =
     (let t = s_icb s ip in
      if h_host_id (ip_queen t) = h_host_id (ip_citizenship t) then Inr s
      else bind_res (of_opt (log_find (h_host_id (ip_queen t)) (ip_application t) (Some (ip_name t)) s)) (\<lambda>l.
        if l \<noteq> NULL then
          Inr (if lg_status (s_log s l) = LOG_MOVED \<and> lg_jumps (s_log s l) <s ip_jumps t
               then log_moved l (ip_jumps t) (h_name (ip_citizenship t)) s else s)
        else bind_res (log_alive (e_log_size E) (e_malloc_log E s) NULL ip s) (\<lambda>(l, s1).
          of_opt (release_waiting_msger (log_moved l (ip_jumps t) (h_name (ip_citizenship t)) s1)))))"

text \<open>An invalid receiver makes the code look it up again, in the same state.\<close>

definition attach_to :: "env \<Rightarrow> addr \<Rightarrow> addr \<Rightarrow> sys \<Rightarrow> sys res" where
  "attach_to E ip rip s =
     bind_res (icb_lock rip s) (\<lambda>s1.
       if ip_status s1 rip = IMAGO_INVALID then Inl F_Endless
       else
         (let s2 = set_status IMAGO_ATTACHING ip s1;
              s3 = (if is_sysmsger (blk s2 ip) then s2 else enter_msq ip rip s2)
          in short_cut E ip (icb_unlock rip s3)))"

definition bp_attach :: "env \<Rightarrow> addr \<Rightarrow> sys \<Rightarrow> sys res" where
  "bp_attach E ip s =
     (let t = s_icb s ip in
      if \<not> is_messenger (core t) then Inr (set_error (ecode E_ILLEGAL_BUILTIN) ip s)
      else bind_res (arg_of 2 ip s) (\<lambda>r.
        if \<not> is_con r then Inr (set_error (ecode E_ILLEGAL_ARGUMENT) ip s)
        else bind_res (of_opt (symbol (core t) (s_mem s) r)) (\<lambda>nm. bind_res (arg_of 0 ip s) (\<lambda>res.
          if \<not> is_var res then Inr (set_error (ecode E_ILLEGAL_ARGUMENT) ip s)
          else bind_res (of_opt (log_find (h_host_id (ip_queen t)) (ip_application t) (Some nm) s)) (\<lambda>l.
            let e = s_log s l in
            if l = NULL then attach_unknown E ip s
            else if lg_ip e \<noteq> NULL then attach_to E ip (lg_ip e) s
            else if lg_status e = LOG_MOVED then with_block ip (bind_moved (h_name (lg_server e))) s
            else if lg_status e = LOG_DISPOSED then with_block ip (bind_word ''deceased'') s
            else Inr s)))))"

section \<open>System messengers\<close>

definition sys_deceased :: "env \<Rightarrow> addr \<Rightarrow> sys \<Rightarrow> sys res" where
  "sys_deceased E ip s =
     (let t = s_icb s ip in
      bind_res (of_opt (log_find (h_host_id (ip_queen t)) (ip_application t) (Some (ip_name t)) s)) (\<lambda>l.
        if l \<noteq> NULL then Inr (log_disposed l s)
        else bind_res (of_opt (log_find (h_host_id (ip_queen t)) (ip_application t) None s)) (\<lambda>l.
          if l = NULL then Inr s
          else bind_res (log_alive (e_log_size E) (e_malloc_log E s) NULL ip s) (\<lambda>(l, s1). Inr (log_disposed l s1)))))"

definition sys_kill :: "string \<Rightarrow> addr \<Rightarrow> sys \<Rightarrow> sys res" where
  "sys_kill nm ip s =
     (let t = s_icb s ip in
      bind_res (of_opt (log_find (h_host_id (ip_queen t)) (ip_application t) (Some nm) s)) (\<lambda>l.
        let tip = (if l = NULL then NULL else lg_ip (s_log s l)) in
        if tip = NULL then Inr s
        else bind_res (icb_lock tip s) (\<lambda>s1.
          Inr (icb_unlock tip (if ip_status s1 tip = IMAGO_INVALID then s1 else snd (dispose_of tip s1))))))"

definition bp_syscall :: "env \<Rightarrow> addr \<Rightarrow> sys \<Rightarrow> sys res" where
  "bp_syscall E ip s =
     (if \<not> is_sysmsger (blk s ip) then Inr (set_error (ecode E_ILLEGAL_BUILTIN) ip s)
      else bind_res (bp_attach E ip s) (\<lambda>s1.
        if ip_status s1 ip \<noteq> IMAGO_ATTACHING then Inr s1
        else bind_res (arg_of 1 ip s1) (\<lambda>c.
          if \<not> is_con c then Inr (set_error (ecode E_ILLEGAL_ARGUMENT) ip s1)
          else bind_res (of_opt (symbol (blk s1 ip) (s_mem s1) c)) (\<lambda>cmd. bind_res (arg_of 2 ip s1) (\<lambda>r.
            if \<not> is_con r then Inr (set_error (ecode E_ILLEGAL_ARGUMENT) ip s1)
            else bind_res (of_opt (symbol (blk s1 ip) (s_mem s1) r)) (\<lambda>nm.
              if cmd \<notin> {''deceased'', ''kill'', ''clone''} then Inr (set_error (ecode E_ILLEGAL_ARGUMENT) ip s1)
              else
                bind_res
                  (if cmd = ''deceased'' then sys_deceased E ip s1
                   else if cmd = ''kill'' then sys_kill nm ip s1 else Inr s1) (\<lambda>s2.
                  bind_res (with_block ip (bind_word ''received'') s2) (\<lambda>s3.
                    Inr (set_status IMAGO_READY ip s3)))))))))"

section \<open>Listing the workers\<close>

definition log_status_of :: "string \<Rightarrow> log_status option" where
  "log_status_of s =
     (if s = ''alive'' then Some LOG_ALIVE else if s = ''moved'' then Some LOG_MOVED
      else if s = ''disposed'' then Some LOG_DISPOSED else if s = ''blocked'' then Some LOG_BLOCKED else None)"

text \<open>One name is added to the list that grows at st.\<close>

definition add_worker :: "string \<Rightarrow> addr \<times> icb \<times> store \<Rightarrow> (addr \<times> icb \<times> store) option" where
  "add_worker nm x =
     (let (st, p, m) = x; m = m(st := make_list (st + 4)); st = st + 4 in
      map_option (\<lambda>(v, p1, m1). let st = padd st (i_nl p1) in (st + 4, p1, m1(st := make_con (v + ASCII_SIZE))))
        (search_index nm p st m))"

text \<open>A log entry the caller asks for; rx is the compiled expression, None where there is no template.\<close>

definition wanted :: "host \<Rightarrow> word32 \<Rightarrow> log_status option \<Rightarrow> (string \<Rightarrow> bool) option \<Rightarrow> log_entry \<Rightarrow> bool" where
  "wanted queen app st rx e =
     (h_host_id (lg_server e) = h_host_id queen \<and> lg_application e = app
      \<and> (st = None \<or> st = Some (lg_status e)) \<and> (case rx of None \<Rightarrow> True | Some f \<Rightarrow> f (lg_name e)))"

definition first_wanted :: "(log_entry \<Rightarrow> bool) \<Rightarrow> sys \<Rightarrow> addr option" where
  "first_wanted want s = while_option (\<lambda>l. l \<noteq> NULL \<and> \<not> want (s_log s l)) (s_log_next s) (q_head (s_live_logs s))"

definition list_workers :: "(log_entry \<Rightarrow> bool) \<Rightarrow> sys \<Rightarrow> addr \<times> icb \<times> store \<Rightarrow> (addr \<times> icb \<times> store) option" where
  "list_workers want s x =
     Option.bind (while_option (\<lambda>(l, r). l \<noteq> NULL \<and> r \<noteq> None)
         (\<lambda>(l, r). (s_log_next s l, Option.bind r (if want (s_log s l) then add_worker (lg_name (s_log s l)) else Some)))
         (q_head (s_live_logs s), Some x)) snd"

text \<open>
  regcomp is the library's: None for an expression it rejects.  The code compiles
  it at the first entry of the caller's application with the right status.
\<close>

definition bp_workers :: "(string \<Rightarrow> (string \<Rightarrow> bool) option) \<Rightarrow> addr \<Rightarrow> sys \<Rightarrow> sys res" where
  "bp_workers regcomp ip s =
     (let t = s_icb s ip; p = core t; m = s_mem s; err = set_error (ecode E_ILLEGAL_ARGUMENT) ip s;
          text_of = (\<lambda>r. if is_con r then map_option Some (c_string m (name_ptr p (con_value r))) else Some None) in
      bind_res (arg_of 2 ip s) (\<lambda>r1. bind_res (arg_of 1 ip s) (\<lambda>r2. bind_res (arg_of 0 ip s) (\<lambda>r3.
        if \<not> is_con r1 \<and> \<not> is_var r1 \<or> \<not> is_con r2 \<and> \<not> is_var r2 \<or> \<not> is_var r3 then Inr err
        else bind_res (of_opt (text_of r2)) (\<lambda>w. bind_res (of_opt (text_of r1)) (\<lambda>pat.
          let st = Option.bind w log_status_of; rx = Option.bind pat regcomp in
          if w \<noteq> None \<and> st = None then Inr err
          else bind_res (of_opt (first_wanted (wanted (ip_queen t) (ip_application t) st None) s)) (\<lambda>l.
            if pat \<noteq> None \<and> rx = None \<and> l \<noteq> NULL then Inr err
            else
              with_block ip (\<lambda>p m.
                map_option (\<lambda>(st, p1, m1).
                    let (p2, m2) = bt_trail r3 (p1, m1(st := con_nil, r3 := make_ref (i_st p1 + 4)))
                    in (p2\<lparr>i_st := st\<rparr>, m2))
                  (list_workers (wanted (ip_queen t) (ip_application t) st rx) s (i_st p + 4, p, m))) s)))))))"

end
