(* ===== verification/MLVM_Names_Correct.thy ===== *)
theory MLVM_Names_Correct
  imports MLVM_Names MLVM_Collect_Models
begin

text \<open>
  Name tables are lists of strings: search_index interns a string, and leaves the
  others, the code and the stack as they are.  The expansion of a table rewrites
  everything below the trail.
\<close>

section \<open>Bytes\<close>

lemma byte_offset: "unat (p AND 3 :: word32) \<in> {0, 1, 2, 3}"
proof -
  have "unat (tag p) = unat p mod 4" by (simp add: tag_take_bit unsigned_take_bit_eq take_bit_eq_mod unat_mod)
  hence "unat (p AND 3) < 4" by (simp add: tag_def TG2_MASK_def)
  thus ?thesis by auto
qed

lemma addr_split: "(p :: word32) AND ADR_MASK = q AND ADR_MASK \<Longrightarrow> p AND 3 = q AND 3 \<Longrightarrow> p = q"
proof -
  assume a: "p AND ADR_MASK = q AND ADR_MASK" "p AND 3 = q AND 3"
  have "x = (x AND ADR_MASK) OR (x AND 3)" for x :: word32
    using addr_or_tag [of x] by (simp add: addr_def tag_def TG2_MASK_def)
  thus "p = q" using a by metis
qed

lemma byte_set:
  fixes w :: word32 and b :: "8 word"
  assumes "k \<in> {0, 1, 2, 3}" "j \<in> {0, 1, 2, 3}"
  shows "drop_bit (8 * j) ((w AND NOT (push_bit (8 * k) 255)) OR push_bit (8 * k) (ucast b)) AND 255
    = (if j = k then ucast b else drop_bit (8 * j) w AND 255)"
proof (rule bit_word_eqI)
  fix n
  assume "n < LENGTH(32)"
  have m: "(255 :: word32) = mask 8" by (simp add: mask_eq_exp_minus_1)
  have b: "bit b n \<Longrightarrow> n < 8" for n using bit_imp_le_length [of b n] by simp
  show "bit (drop_bit (8 * j) ((w AND NOT (push_bit (8 * k) 255)) OR push_bit (8 * k) (ucast b)) AND 255) n
    = bit (if j = k then ucast b else drop_bit (8 * j) w AND 255) n"
    using assms b [of n] b [of "n + 8 * j - 8 * k"] b [of "8 * j + n"] unfolding m by (auto simp: bit_simps)
qed

lemma char_at_put [simp]: "char_at (put_char p c m) q = (if q = p then c else char_at m q)"
proof (cases "q AND ADR_MASK = p AND ADR_MASK")
  case True
  let ?k = "unat (p AND 3)" and ?j = "unat (q AND 3)"
  have jk: "?j = ?k \<longleftrightarrow> q = p" using addr_split [OF True] by (metis word_unat_eq_iff)
  have "drop_bit (8 * ?j) (put_byte p (of_char c) m (q AND ADR_MASK)) AND 255
      = (if ?j = ?k then ucast (of_char c :: 8 word) else drop_bit (8 * ?j) (m (q AND ADR_MASK)) AND 255)"
    using byte_set [OF byte_offset [of p] byte_offset [of q], of "m (p AND ADR_MASK)" "of_char c"] True
    by (simp add: put_byte_def Let_def)
  moreover have "char_of (unat (ucast (of_char c :: 8 word) :: word32)) = c"
  proof -
    have "unat (of_nat (of_char c) :: 8 word) = of_char c" by (simp add: unat_of_nat take_bit_eq_mod)
    hence "unat (of_char c :: 8 word) = of_char c" by (simp add: of_nat_of_char)
    moreover have "(of_char c :: nat) < 2 ^ 32" by (rule less_trans [OF nat_of_char_less_256]) simp
    ultimately show ?thesis by (simp add: unsigned_ucast_eq take_bit_nat_eq_self)
  qed
  ultimately show ?thesis using jk by (simp add: char_at_def put_char_def)
next
  case False
  thus ?thesis by (auto simp: char_at_def put_char_def put_byte_def Let_def)
qed

lemma put_char_frame: "a \<noteq> p AND ADR_MASK \<Longrightarrow> put_char p c m a = m a"
  by (simp add: put_char_def put_byte_def Let_def)

section \<open>Strings\<close>

fun spells :: "store \<Rightarrow> addr \<Rightarrow> string \<Rightarrow> bool" where
  "spells m p [] = (char_at m p = NUL)"
| "spells m p (c # cs) = (c \<noteq> NUL \<and> char_at m p = c \<and> spells m (p + 1) cs)"

lemma spells_unique: "spells m p s \<Longrightarrow> spells m p t \<Longrightarrow> s = t"
proof (induction s arbitrary: p t)
  case Nil
  thus ?case by (cases t) auto
next
  case (Cons c s)
  thus ?case by (cases t) auto
qed

lemma spells_c_string: "spells m p s \<Longrightarrow> c_string m p = Some s"
proof -
  have "spells m p s \<Longrightarrow> while_option (\<lambda>(q, cs). char_at m q \<noteq> NUL) (\<lambda>(q, cs). (q + 1, cs @ [char_at m q])) (p, ds)
    = Some (p + of_nat (length s), ds @ s)" for ds
  proof (induction s arbitrary: p ds)
    case Nil
    thus ?case by (simp add: while_option_done)
  next
    case (Cons c s)
    have "while_option (\<lambda>(q, cs). char_at m q \<noteq> NUL) (\<lambda>(q, cs). (q + 1, cs @ [char_at m q])) (p, ds)
      = while_option (\<lambda>(q, cs). char_at m q \<noteq> NUL) (\<lambda>(q, cs). (q + 1, cs @ [char_at m q])) (p + 1, ds @ [c])"
      using Cons.prems by (subst while_option_step) auto
    thus ?case using Cons.IH [of "p + 1" "ds @ [c]"] Cons.prems by (simp add: add.assoc)
  qed
  thus "spells m p s \<Longrightarrow> c_string m p = Some s" by (simp add: c_string_def)
qed

lemma spells_cong:
  assumes "\<And>i. i \<le> length s \<Longrightarrow> char_at m' (p + of_nat i) = char_at m (p + of_nat i)"
  shows "spells m' p s = spells m p s"
  using assms
proof (induction s arbitrary: p)
  case Nil
  thus ?case using Nil [of 0] by simp
next
  case (Cons c s)
  have "char_at m' (p + 1 + of_nat i) = char_at m (p + 1 + of_nat i)" if "i \<le> length s" for i
    using Cons.prems [of "Suc i"] that by (simp add: ac_simps)
  from Cons.IH [OF this] show ?case using Cons.prems [of 0] by simp
qed

lemma spells_drop: "spells m p s \<Longrightarrow> j \<le> length s \<Longrightarrow> spells m (p + of_nat j) (drop j s)"
proof (induction s arbitrary: p j)
  case (Cons c s)
  show ?case
  proof (cases j)
    case (Suc i)
    thus ?thesis using Cons.IH [of "p + 1" i] Cons.prems by (simp add: algebra_simps)
  qed (use Cons.prems in simp)
qed simp

lemma match_name_stop: "NUL \<notin> set pp \<Longrightarrow> spells m p n \<Longrightarrow>
  \<exists>j\<le>length n. match_name m pp p = (drop j pp, p + of_nat j) \<and> (drop j pp = [] \<and> j = length n \<longleftrightarrow> pp = n)"
proof (induction m pp p arbitrary: n rule: match_name.induct)
  case (1 m cp)
  thus ?case by (intro exI [of _ 0]) auto
next
  case (2 m c pp cp)
  show ?case
  proof (cases "char_at m cp = c")
    case True
    then obtain n' where n: "n = c # n'" "spells m (cp + 1) n'" using 2(2,3) by (cases n) auto
    from "2.IH" [OF True _ n(2)] 2(2) obtain j where
      j: "j \<le> length n'" "match_name m pp (cp + 1) = (drop j pp, cp + 1 + of_nat j)" "(drop j pp = [] \<and> j = length n') = (pp = n')" by auto
    thus ?thesis using True n(1) by (intro exI [of _ "Suc j"]) (simp add: algebra_simps)
  next
    case False
    thus ?thesis using 2(3) by (intro exI [of _ 0]) auto
  qed
qed

lemma name_here_spells:
  assumes "NUL \<notin> set pp" "spells m p n"
  shows "name_here m pp p = (pp = n)"
proof -
  from match_name_stop [OF assms] obtain j where
    j: "j \<le> length n" "match_name m pp p = (drop j pp, p + of_nat j)" "(drop j pp = [] \<and> j = length n) = (pp = n)" by blast
  have sp: "spells m (p + of_nat j) (drop j n)" using spells_drop [OF assms(2) j(1)] .
  have "(char_at m (p + of_nat j) = NUL) = (j = length n)"
    using sp j(1) by (cases "drop j n") auto
  thus ?thesis using j by (auto simp: name_here_def)
qed

lemma next_name_end:
  assumes "spells m p n" "unat p + length n < unat lim"
  shows "next_name m lim p = Some (p + of_nat (length n) + 1)"
proof -
  have "spells m p n \<Longrightarrow> unat p + length n < unat lim \<Longrightarrow>
    while_option (\<lambda>cp. char_at m cp \<noteq> NUL \<and> cp + 1 < lim) (\<lambda>cp. cp + 1) p = Some (p + of_nat (length n))" for p
  proof (induction n arbitrary: p)
    case Nil
    thus ?case by (simp add: while_option_done)
  next
    case (Cons c n)
    have u: "unat (p + 1) = unat p + 1" using unat_add_lt [of p 1] Cons.prems(2) unsigned_less [of lim, where ?'a = nat] by simp
    have "while_option (\<lambda>cp. char_at m cp \<noteq> NUL \<and> cp + 1 < lim) (\<lambda>cp. cp + 1) p
      = while_option (\<lambda>cp. char_at m cp \<noteq> NUL \<and> cp + 1 < lim) (\<lambda>cp. cp + 1) (p + 1)"
      by (rule while_option_step) (use Cons.prems u in \<open>auto simp: word_less_nat_alt\<close>)
    thus ?case using Cons.IH [of "p + 1"] Cons.prems u by (simp add: add.assoc)
  qed
  thus ?thesis using assms by (simp add: next_name_def)
qed

lemma put_name_spec: "NUL \<notin> set s \<Longrightarrow> unat p + length s < 2 ^ 32 \<Longrightarrow>
  \<exists>m'. put_name p s m = (p + of_nat (length s) + 1, m') \<and> spells m' p s
    \<and> (\<forall>q. (\<forall>i\<le>length s. q \<noteq> p + of_nat i) \<longrightarrow> char_at m' q = char_at m q)
    \<and> (\<forall>a. (\<forall>i\<le>length s. a \<noteq> (p + of_nat i) AND ADR_MASK) \<longrightarrow> m' a = m a)"
proof (induction s arbitrary: p m)
  case Nil
  thus ?case by (simp add: put_char_frame)
next
  case (Cons c s)
  have u: "unat (p + 1) = unat p + 1" using unat_add_lt [of p 1] Cons.prems(2) by simp
  from Cons.IH [of "p + 1" "put_char p c m"] Cons.prems u obtain m' where
    m': "put_name (p + 1) s (put_char p c m) = (p + 1 + of_nat (length s) + 1, m')" "spells m' (p + 1) s"
      "\<forall>q. (\<forall>i\<le>length s. q \<noteq> p + 1 + of_nat i) \<longrightarrow> char_at m' q = char_at (put_char p c m) q"
      "\<forall>a. (\<forall>i\<le>length s. a \<noteq> (p + 1 + of_nat i) AND ADR_MASK) \<longrightarrow> m' a = put_char p c m a" by auto
  have s: "p + 1 + of_nat i = p + of_nat (Suc i)" for i by simp
  have "p \<noteq> p + of_nat (Suc i)" if "i \<le> length s" for i
  proof -
    have "unat (p + of_nat (Suc i)) = unat p + Suc i" by (rule unat_add_lt) (use Cons.prems(2) that in simp)
    thus ?thesis by (metis n_not_Suc_n add_Suc_right le_add1 not_less_eq_eq)
  qed
  hence "char_at m' p = c" using m'(3) unfolding s by simp
  moreover have "char_at m' q = char_at m q" if "\<forall>i\<le>length (c # s). q \<noteq> p + of_nat i" for q
    using m'(3) that [rule_format, of 0] that unfolding s by force
  moreover have "m' a = m a" if "\<forall>i\<le>length (c # s). a \<noteq> (p + of_nat i) AND ADR_MASK" for a
  proof -
    have "m' a = put_char p c m a" using m'(4) that unfolding s by force
    thus ?thesis using put_char_frame [of a p c m] that [rule_format, of 0] by simp
  qed
  ultimately show ?case using m'(1,2) Cons.prems(1) by (auto simp: add.assoc)
qed

section \<open>A name table is a list of strings\<close>

fun names :: "store \<Rightarrow> addr \<Rightarrow> string list \<Rightarrow> addr \<Rightarrow> bool" where
  "names m p [] q = (p = q)"
| "names m p (n # ns) q =
     (spells m p n \<and> unat p + length n + 1 < 2 ^ 32 \<and> names m (p + of_nat (length n) + 1) ns q)"

lemma after_name:
  fixes p :: addr
  assumes "unat p + k + 1 < 2 ^ 32"
  shows "unat (p + of_nat k + 1) = unat p + k + 1"
  using unat_add_lt [of p "k + 1"] assms by (simp add: ac_simps)

lemma names_le: "names m p ns q \<Longrightarrow> unat p \<le> unat q"
proof (induction ns arbitrary: p)
  case (Cons n ns)
  thus ?case using after_name [of p "length n"] by force
qed simp

lemma names_cong:
  assumes "names m p ns q" "\<And>r. unat p \<le> unat r \<Longrightarrow> unat r < unat q \<Longrightarrow> char_at m' r = char_at m r"
  shows "names m' p ns q"
  using assms
proof (induction ns arbitrary: p)
  case (Cons n ns)
  let ?p = "p + of_nat (length n) + 1"
  have u: "unat ?p = unat p + length n + 1" using after_name [of p "length n"] Cons.prems(1) by simp
  have q: "unat ?p \<le> unat q" using names_le Cons.prems(1) by auto
  have "char_at m' (p + of_nat i) = char_at m (p + of_nat i)" if "i \<le> length n" for i
    by (rule Cons.prems(2)) (use unat_add_lt [of p i] u q that Cons.prems(1) in auto)
  hence "spells m' p n" using spells_cong [of n m' p m] Cons.prems(1) by simp
  moreover have "names m' ?p ns q" using Cons.IH [of ?p] Cons.prems u by simp
  ultimately show ?case using Cons.prems(1) by simp
qed simp

lemma names_append:
  "names m p ns q \<Longrightarrow> spells m q n \<Longrightarrow> unat q + length n + 1 < 2 ^ 32 \<Longrightarrow> names m p (ns @ [n]) (q + of_nat (length n) + 1)"
  by (induction ns arbitrary: p) auto

text \<open>The search finds the first occurrence, or ends at name_top.\<close>

lemma find_name_step:
  "find_name m lim pp cp =
     (if cp < lim \<and> \<not> name_here m pp cp
      then Option.bind (next_name m lim (snd (match_name m pp cp))) (find_name m lim pp) else Some cp)"
proof (cases "cp < lim \<and> \<not> name_here m pp cp")
  case True
  thus ?thesis
    by (cases "next_name m lim (snd (match_name m pp cp))") (simp_all add: find_name_def while_option_step while_option_done)
next
  case False
  thus ?thesis by (simp only: if_False) (simp add: find_name_def while_option_done)
qed

lemma find_name_spec:
  assumes "NUL \<notin> set pp"
  shows "names m p ns q \<Longrightarrow>
    \<exists>r. find_name m q pp p = Some r \<and> unat p \<le> unat r \<and> (if pp \<in> set ns then unat r + length pp < unat q \<and> spells m r pp else r = q)"
proof (induction ns arbitrary: p)
  case Nil
  thus ?case by (intro exI [of _ q]) (simp add: find_name_step)
next
  case (Cons n ns)
  let ?p = "p + of_nat (length n) + 1"
  have n: "spells m p n" "names m ?p ns q" and u: "unat ?p = unat p + length n + 1"
    using Cons.prems after_name [of p "length n"] by auto
  have pq: "p < q" "unat p + length n < unat q" using names_le [OF n(2)] u by (auto simp: word_less_nat_alt)
  show ?case
  proof (cases "pp = n")
    case True
    have "find_name m q pp p = Some p" using name_here_spells [OF assms n(1)] True by (subst find_name_step) simp
    thus ?thesis using True pq n(1) by (simp add: word_less_nat_alt)
  next
    case False
    from match_name_stop [OF assms n(1)] obtain j where
      j: "j \<le> length n" "match_name m pp p = (drop j pp, p + of_nat j)" by blast
    have "unat (p + of_nat j) = unat p + j"
      by (rule unat_add_lt) (use pq(2) j(1) unsigned_less [of q, where ?'a = nat] in auto)
    hence "next_name m q (p + of_nat j) = Some (p + of_nat j + of_nat (length (drop j n)) + 1)"
      by (intro next_name_end spells_drop n(1) j(1)) (use pq(2) j(1) in simp)
    moreover have "p + of_nat j + of_nat (length (drop j n)) + 1 = ?p" using j(1) by (simp add: of_nat_diff)
    ultimately have "next_name m q (p + of_nat j) = Some ?p" by simp
    hence "find_name m q pp p = find_name m q pp ?p"
      using name_here_spells [OF assms n(1)] False pq(1) j(2) by (subst find_name_step) simp
    thus ?thesis using Cons.IH [OF n(2)] False u by auto
  qed
qed

section \<open>Interning a string\<close>

definition name_table :: "icb \<Rightarrow> store \<Rightarrow> string list \<Rightarrow> bool" where
  "name_table p m ns = names m (name_base p) ns (name_top p)"

lemma search_index_spec:
  assumes tab: "name_table p m ns" and s: "NUL \<notin> set s"
    and room: "unat (name_top p) + length s < unat (stack_base p)"
  shows "\<exists>v p' m'. search_index s p tp m = Some (v, p', m')
    \<and> name_table p' m' (if s \<in> set ns then ns else ns @ [s]) \<and> spells m' (name_base p + v) s
    \<and> unat (name_base p) \<le> unat (name_base p + v) \<and> unat (name_base p + v) + length s < unat (name_top p')
    \<and> p' = p\<lparr>i_nl := 0, name_top := name_top p'\<rparr> \<and> (s \<in> set ns \<longrightarrow> m' = m \<and> name_top p' = name_top p)
    \<and> (s \<notin> set ns \<longrightarrow> name_top p' = name_top p + of_nat (length s) + 1)
    \<and> (\<forall>q. unat q < unat (name_top p) \<or> unat (stack_base p) \<le> unat q \<longrightarrow> char_at m' q = char_at m q)
    \<and> (\<forall>a. (\<forall>i\<le>length s. a \<noteq> (name_top p + of_nat i) AND ADR_MASK) \<longrightarrow> m' a = m a)"
proof -
  note T = tab [unfolded name_table_def]
  let ?c = "p\<lparr>i_nl := 0\<rparr>" and ?q = "name_top p"
  from find_name_spec [OF s T] obtain r where
    r: "find_name m ?q s (name_base p) = Some r" "unat (name_base p) \<le> unat r"
      "if s \<in> set ns then unat r + length s < unat ?q \<and> spells m r s else r = ?q" by blast
  show ?thesis
  proof (cases "s \<in> set ns")
    case True
    hence "search_index s p tp m = Some (r - name_base p, ?c, m)" using r by (simp add: search_index_def word_less_nat_alt)
    thus ?thesis using True r T by (simp add: name_table_def)
  next
    case False
    have b: "unat (stack_base p) < 2 ^ 32" using unsigned_less [of "stack_base p", where ?'a = nat] by simp
    have u: "unat (?q + of_nat i) = unat ?q + i" if "i \<le> length s" for i
      by (rule unat_add_lt) (use room b that in simp)
    have lt: "unat ?q + length s < 2 ^ 32" using room b by linarith
    from put_name_spec [OF s lt, of m] obtain m' where
      m': "put_name ?q s m = (?q + of_nat (length s) + 1, m')" "spells m' ?q s"
        "\<forall>q. (\<forall>i\<le>length s. q \<noteq> ?q + of_nat i) \<longrightarrow> char_at m' q = char_at m q"
        "\<forall>a. (\<forall>i\<le>length s. a \<noteq> (?q + of_nat i) AND ADR_MASK) \<longrightarrow> m' a = m a" by blast
    have keep: "char_at m' q = char_at m q" if "unat q < unat ?q \<or> unat (stack_base p) \<le> unat q" for q
    proof -
      have "q \<noteq> ?q + of_nat i" if "i \<le> length s" for i using u [OF that] \<open>unat q < unat ?q \<or> unat (stack_base p) \<le> unat q\<close> room that by auto
      thus ?thesis using m'(3) by blast
    qed
    have "\<not> stack_base p \<le> ?q + of_nat (length s)" using u [of "length s"] room by (simp add: word_le_nat_alt)
    hence "search_index s p tp m = Some (?q - name_base p, ?c\<lparr>name_top := ?q + of_nat (length s) + 1\<rparr>, m')"
      using r False m'(1) by (simp add: search_index_def)
    moreover have "names m' (name_base p) (ns @ [s]) (?q + of_nat (length s) + 1)"
    proof (rule names_append [OF _ m'(2)])
      show "names m' (name_base p) ns ?q" by (rule names_cong [OF T]) (use keep in simp)
      show "unat ?q + length s + 1 < 2 ^ 32" using room b by linarith
    qed
    moreover have "unat (?q + of_nat (length s)) < unat (?q + of_nat (length s) + 1)"
      using after_name [of ?q "length s"] u [of "length s"] room b by simp
    ultimately show ?thesis using False m' keep r(2) names_le [OF T] u [of "length s"] by (simp add: name_table_def)
  qed
qed

text \<open>
  Claim C31. search_index interns a string: while the table has room the call returns,
  the table holds the same strings with the new one appended if it was not there,
  the index it returns is where the string stands, and no character of an older
  string and nothing of the stack changes.
\<close>

theorem search_index_interns:
  assumes "name_table p m ns" "NUL \<notin> set s" "unat (name_top p) + length s < unat (stack_base p)"
  shows "\<exists>v p' m'. search_index s p tp m = Some (v, p', m') \<and> i_nl p' = 0
    \<and> name_table p' m' (if s \<in> set ns then ns else ns @ [s]) \<and> c_string m' (name_base p + v) = Some s
    \<and> (\<forall>q. q < name_top p \<or> stack_base p \<le> q \<longrightarrow> char_at m' q = char_at m q)"
proof -
  from search_index_spec [OF assms, of tp] obtain v p' m' where
    r: "search_index s p tp m = Some (v, p', m')" "name_table p' m' (if s \<in> set ns then ns else ns @ [s])"
      "spells m' (name_base p + v) s" "p' = p\<lparr>i_nl := 0, name_top := name_top p'\<rparr>"
      "\<forall>q. unat q < unat (name_top p) \<or> unat (stack_base p) \<le> unat q \<longrightarrow> char_at m' q = char_at m q" by blast
  have "i_nl (p\<lparr>i_nl := 0, name_top := name_top p'\<rparr>) = 0" by simp
  hence "i_nl p' = 0" using r(4) by metis
  thus ?thesis using r spells_c_string [OF r(3)] by (auto simp: word_less_nat_alt word_le_nat_alt)
qed

text \<open>A table with the name ab, to which c is added.\<close>

definition demo_names :: "icb \<times> store" where
  "demo_names = ((core blank_icb)\<lparr>name_base := 1000, name_top := 1003, stack_base := 1100\<rparr>, (\<lambda>_. 0)(1000 := 0x6261))"

lemma demo_names_table: "name_table (fst demo_names) (snd demo_names) [''ab'']"
  by (simp add: name_table_def demo_names_def blank_icb_def char_at_def ADR_MASK_def char_of_def bit_0)

theorem search_index_interns_witness:
  "\<exists>v p' m'. search_index ''c'' (fst demo_names) 1200 (snd demo_names) = Some (v, p', m')
    \<and> name_table p' m' [''ab'', ''c''] \<and> c_string m' (1000 + v) = Some ''c''"
  using search_index_interns [OF demo_names_table, of "''c''" 1200] by (auto simp: demo_names_def blank_icb_def)

section \<open>Expansion\<close>

definition lifted :: "word32 \<Rightarrow> word32 \<Rightarrow> word32" where
  "lifted d w = (if is_var w then padd w d else make_str (padd (addr w) d))"

text \<open>
  Claim C39. Once a word is on the trail, the loop of name_table_expansion that
  should move the trail walks down from its first entry: every word of the block
  below the trail, code, names and stack, is rewritten as if it were an entry, and
  no entry but the first is.  (On a machine the run faults at the start of the
  address space; in the model the address wraps and the loop ends.)
\<close>

theorem lift_trail_tramples:
  assumes "is_var t" "t < ceiling" "unat ceiling + 4 \<le> 2 ^ 32"
  shows "\<exists>m'. lift_trail d ceiling t m = Some m' \<and> (\<forall>a. is_var a \<longrightarrow> m' a = (if a \<le> t then lifted d (m a) else m a))"
proof -
  let ?b = "\<lambda>(newp, m). newp < ceiling" and ?c = "\<lambda>(newp, m). (newp - 4, m(newp := lifted d (m newp)))"
  have loop: "\<exists>x m'. while_option ?b ?c (slot 0 k, m) = Some (x, m')
      \<and> (\<forall>a. m' a = (if \<exists>j\<le>k. a = slot 0 j then lifted d (m a) else m a))"
    if "slot 0 k < ceiling" "4 * k < 2 ^ 32" for k m
    using that
  proof (induction k arbitrary: m)
    case 0
    have z: "\<not> slot 0 0 - 4 < ceiling" using assms(3) by (simp add: word_less_nat_alt)
    have "while_option ?b ?c (slot 0 0, m) = Some (slot 0 0 - 4, m(slot 0 0 := lifted d (m (slot 0 0))))"
      using 0 z by (subst while_option_step) (simp_all add: while_option_done)
    moreover have "\<forall>a. (m(slot 0 0 := lifted d (m (slot 0 0)))) a = (if \<exists>j\<le>0. a = slot 0 j then lifted d (m a) else m a)" by simp
    ultimately show ?case by blast
  next
    case (Suc k)
    let ?m = "m(slot 0 (Suc k) := lifted d (m (slot 0 (Suc k))))"
    have u: "unat (slot 0 j) = 4 * j" if "j \<le> Suc k" for j using unat_slot [of 0 j] that Suc.prems(2) by simp
    have "slot 0 k < ceiling" using Suc.prems(1) u [of k] u [of "Suc k"] by (simp add: word_less_nat_alt)
    moreover have "4 * k < 2 ^ 32" using Suc.prems(2) by simp
    ultimately obtain x m' where
      IH: "while_option ?b ?c (slot 0 k, ?m) = Some (x, m')"
        "\<forall>a. m' a = (if \<exists>j\<le>k. a = slot 0 j then lifted d (?m a) else ?m a)" using Suc.IH [of ?m] by blast
    have ne: "slot 0 j \<noteq> slot 0 (Suc k)" if "j \<le> k" for j using u [of j] u [of "Suc k"] that by (metis Suc_n_not_le_n le_Suc_eq mult_left_cancel zero_neq_numeral)
    have "while_option ?b ?c (slot 0 (Suc k), m) = Some (x, m')"
      using Suc.prems(1) IH(1) by (subst while_option_step) simp_all
    moreover have "m' a = (if \<exists>j\<le>Suc k. a = slot 0 j then lifted d (m a) else m a)" for a
      using IH(2) ne ne [THEN not_sym] by (auto simp: le_Suc_eq)
    ultimately show ?case by blast
  qed
  have four: "\<exists>k. a = slot 0 k \<and> unat a = 4 * k" if "is_var a" for a
  proof -
    have "unat (tag a) = unat a mod 4" by (simp add: tag_take_bit unsigned_take_bit_eq take_bit_eq_mod unat_mod)
    hence "unat a mod 4 = 0" using tagged [OF that] by simp
    hence u: "unat a = 4 * (unat a div 4)" by presburger
    have "unat (slot 0 (unat a div 4)) = unat (0 :: addr) + 4 * (unat a div 4)"
      by (rule unat_slot) (use u unsigned_less [of a, where ?'a = nat] in simp)
    hence "a = slot 0 (unat a div 4)" using u by (simp add: word_unat_eq_iff)
    thus ?thesis using u by blast
  qed
  obtain k where k: "t = slot 0 k" "unat t = 4 * k" using four [OF assms(1)] by blast
  from loop [of k m] k assms(2) unsigned_less [of t, where ?'a = nat] obtain x m' where
    w: "while_option ?b ?c (t, m) = Some (x, m')" "\<forall>a. m' a = (if \<exists>j\<le>k. a = slot 0 j then lifted d (m a) else m a)" by auto
  have "(\<exists>j\<le>k. a = slot 0 j) = (a \<le> t)" if a: "is_var a" for a
  proof -
    obtain i where i: "a = slot 0 i" "unat a = 4 * i" using four [OF a] by blast
    have "unat (slot 0 j) = 4 * j" if "j \<le> k" for j
      using unat_slot [of 0 j] that k(2) unsigned_less [of t, where ?'a = nat] by simp
    thus ?thesis using i k(2) by (auto simp: word_le_nat_alt)
  qed
  moreover have "lift_trail d ceiling t m = Some m'" using w(1) by (simp add: lift_trail_def lifted_def Let_def)
  ultimately show ?thesis using w(2) by (intro exI [of _ m']) simp
qed

theorem lift_trail_tramples_witness:
  "\<exists>m'. lift_trail 64 3000 2992 (\<lambda>_. 7) = Some m' \<and> m' 2996 = 7 \<and> m' 1000 = 262"
proof -
  from lift_trail_tramples [of 2992 3000 64 "\<lambda>_. 7"] obtain m' where
    "lift_trail 64 3000 2992 (\<lambda>_. 7) = Some m'" "\<forall>a. is_var a \<longrightarrow> m' a = (if a \<le> 2992 then lifted 64 7 else 7)"
    by (auto simp: is_var_def tag_def tag_consts)
  thus ?thesis by (auto simp: is_var_def tag_def tag_consts lifted_def make_str_def addr_def)
qed

end
