(* ===== verification/MLVM_Copy_Correct.thy ===== *)
theory MLVM_Copy_Correct
  imports MLVM_Names_Correct
begin

text \<open>
  Arguments and messages: copy_arg rebuilds a finite term of one imago in the block
  of another, with its atoms and functors renamed to the other name table.
\<close>

section \<open>Finite terms\<close>

text \<open>
  Terms as a reader sees them: constants of the system, names with an arity, and
  unbound variables, each the cell it is.
\<close>

datatype pterm =
    PVar addr
  | PCst word32
  | PName string word32
  | PFlt word32 word32
  | PList pterm pterm
  | PStr pterm "pterm list"

text \<open>The cells a term takes besides its own word, and the bytes its names may need.\<close>

primrec psize :: "pterm \<Rightarrow> nat" where
  "psize (PVar x) = 0"
| "psize (PCst x) = 0"
| "psize (PName s a) = 0"
| "psize (PFlt v w) = 3"
| "psize (PList h t) = 2 + psize h + psize t"
| "psize (PStr f ts) = 1 + length ts + psize f + sum_list (map psize ts)"

primrec pchars :: "pterm \<Rightarrow> nat" where
  "pchars (PVar x) = 0"
| "pchars (PCst x) = 0"
| "pchars (PName s a) = length s + 1"
| "pchars (PFlt v w) = 0"
| "pchars (PList h t) = pchars h + pchars t"
| "pchars (PStr f ts) = pchars f + sum_list (map pchars ts)"

text \<open>The variables of a term as they occur from left to right, and the term without their identities.\<close>

primrec pvars :: "pterm \<Rightarrow> addr list" where
  "pvars (PVar x) = [x]"
| "pvars (PCst x) = []"
| "pvars (PName s a) = []"
| "pvars (PFlt v w) = []"
| "pvars (PList h t) = pvars h @ pvars t"
| "pvars (PStr f ts) = pvars f @ concat (map pvars ts)"

primrec pshape :: "pterm \<Rightarrow> pterm" where
  "pshape (PVar x) = PVar NULL"
| "pshape (PCst x) = PCst x"
| "pshape (PName s a) = PName s a"
| "pshape (PFlt v w) = PFlt v w"
| "pshape (PList h t) = PList (pshape h) (pshape t)"
| "pshape (PStr f ts) = PStr (pshape f) (map pshape ts)"

text \<open>A chain of references that does not touch the words of W.\<close>

inductive follows :: "store \<Rightarrow> addr set \<Rightarrow> word32 \<Rightarrow> word32 \<Rightarrow> bool" for m W where
  stop: "\<not> is_var w \<or> w \<notin> W \<and> m w = w \<Longrightarrow> follows m W w w"
| step: "is_var w \<Longrightarrow> w \<notin> W \<Longrightarrow> m w \<noteq> w \<Longrightarrow> follows m W (m w) x \<Longrightarrow> follows m W w x"

definition own_name :: "word32 \<Rightarrow> bool" where
  "own_name x = (is_con x \<and> \<not> is_nil x \<and> \<not> is_fvl x \<and> \<not> fun_value x <s ASCII_SIZE)"

definition spells_in :: "store \<Rightarrow> addr set \<Rightarrow> addr \<Rightarrow> string \<Rightarrow> bool" where
  "spells_in m W p s = (spells m p s \<and> (\<forall>i\<le>length s. (p + of_nat i) AND ADR_MASK \<notin> W))"

text \<open>The word w, read with the names at nb and without the words of W, is the term t.\<close>

inductive reads :: "store \<Rightarrow> addr \<Rightarrow> addr set \<Rightarrow> word32 \<Rightarrow> pterm \<Rightarrow> bool" for m nb W where
  rvar: "follows m W w x \<Longrightarrow> is_var x \<Longrightarrow> reads m nb W w (PVar x)"
| rcst: "follows m W w x \<Longrightarrow> is_int x \<or> is_nil x \<or> is_con x \<and> \<not> is_fvl x \<and> fun_value x <s ASCII_SIZE \<Longrightarrow> reads m nb W w (PCst x)"
| rname: "follows m W w x \<Longrightarrow> own_name x \<Longrightarrow> spells_in m W (nb + (fun_value x - ASCII_SIZE)) s \<Longrightarrow> reads m nb W w (PName s (arity x))"
| rlist: "follows m W w x \<Longrightarrow> is_list x \<Longrightarrow> addr x \<notin> W \<Longrightarrow> addr x + 4 \<notin> W \<Longrightarrow>
     reads m nb W (m (addr x)) h \<Longrightarrow> reads m nb W (m (addr x + 4)) t \<Longrightarrow> reads m nb W w (PList h t)"
| rflt: "follows m W w x \<Longrightarrow> is_str x \<Longrightarrow> addr x \<notin> W \<Longrightarrow> addr x + 4 \<notin> W \<Longrightarrow> addr x + 8 \<notin> W \<Longrightarrow>
     m (addr x) = FVL_TAG \<Longrightarrow> reads m nb W w (PFlt (m (addr x + 4)) (m (addr x + 8)))"
| rstr: "follows m W w x \<Longrightarrow> is_str x \<Longrightarrow> (\<And>i. i \<le> length ts \<Longrightarrow> slot (addr x) i \<notin> W) \<Longrightarrow>
     is_con (m (addr x)) \<Longrightarrow> m (addr x) \<noteq> FVL_TAG \<Longrightarrow> length ts = unat (arity (m (addr x))) \<Longrightarrow> reads m nb W (m (addr x)) f \<Longrightarrow>
     (\<And>i. i < length ts \<Longrightarrow> reads m nb W (m (slot (addr x) (Suc i))) (ts ! i)) \<Longrightarrow> reads m nb W w (PStr f ts)"

lemma follows_deref: "follows m W w x \<Longrightarrow> (\<And>a. a \<notin> W \<Longrightarrow> m' a = m a) \<Longrightarrow> deref_word m' w = Some x"
proof (induction rule: follows.induct)
  case (stop w)
  thus ?case by (auto simp: deref_word_def while_option_done)
next
  case (step w x)
  thus ?case unfolding deref_word_def by (subst while_option_step) auto
qed

lemma follows_keep: "follows m W w x \<Longrightarrow> (\<And>a. a \<notin> W \<Longrightarrow> m' a = m a) \<Longrightarrow> follows m' W w x"
  by (induction rule: follows.induct) (auto intro: follows.intros)

section \<open>The words of the copy\<close>

text \<open>What a word of the copy stands for: a term, the marker of a boxed double, or its payload.\<close>

datatype item = Term pterm | Box word32 word32 | Raw word32

fun isize :: "item \<Rightarrow> nat" where "isize (Term t) = psize t" | "isize _ = 0"
fun ichars :: "item \<Rightarrow> nat" where "ichars (Term t) = pchars t" | "ichars _ = 0"
fun raw :: "item \<Rightarrow> bool" where "raw (Raw w) = True" | "raw _ = False"

text \<open>A functor is a constant whose arity is the number of arguments.\<close>

fun functor_of :: "pterm \<Rightarrow> nat \<Rightarrow> bool" where
  "functor_of (PCst x) n = (is_con x \<and> x \<noteq> FVL_TAG \<and> unat (arity x) = n)"
| "functor_of (PName s a) n = (unat a = n)"
| "functor_of _ n = False"

text \<open>
  The copy is made breadth-first: the words under item i come to lie behind those
  under the items before it.
\<close>

fun width :: "item \<Rightarrow> nat" where
  "width (Term (PFlt v w)) = 3"
| "width (Term (PList h t)) = 2"
| "width (Term (PStr f ts)) = Suc (length ts)"
| "width _ = 0"

definition child :: "item list \<Rightarrow> nat \<Rightarrow> nat" where
  "child items i = Suc (sum_list (map width (take i items)))"

lemma child_append [simp]: "i \<le> length items \<Longrightarrow> child (items @ xs) i = child items i"
  by (simp add: child_def)

lemma child_0 [simp]: "child items 0 = Suc 0" by (simp add: child_def)

lemma child_Suc: "i < length items \<Longrightarrow> child items (Suc i) = child items i + width (items ! i)"
  by (simp add: child_def take_Suc_conv_app_nth)

text \<open>A scanned word c at index i, once its names are interned at nb below top.\<close>

definition built :: "addr \<Rightarrow> addr \<Rightarrow> addr \<Rightarrow> item list \<Rightarrow> store \<Rightarrow> nat \<Rightarrow> word32 \<Rightarrow> bool" where
  "built base nb lim items m i c =
     (case items ! i of
        Raw w \<Rightarrow> c = w
      | Box v w \<Rightarrow> c = FVL_TAG
      | Term (PVar x) \<Rightarrow> c = slot base i
      | Term (PCst x) \<Rightarrow> c = x \<and> (is_int x \<or> is_nil x \<or> is_con x \<and> \<not> is_fvl x \<and> fun_value x <s ASCII_SIZE)
      | Term (PName s a) \<Rightarrow> \<exists>v. c = make_fun (v + ASCII_SIZE) a \<and> spells m (nb + v) s \<and> unat v + 129 < 2 ^ 20 \<and> v \<noteq> 0 \<and> unat a < 2 ^ 9
          \<and> unat (nb + v) + length s < unat lim
      | Term (PFlt v w) \<Rightarrow> \<exists>j. j = child items i \<and> c = make_str (slot base j) \<and> j + 2 < length items \<and> items ! j = Box v w
          \<and> items ! Suc j = Raw v \<and> items ! Suc (Suc j) = Raw w
      | Term (PList h t) \<Rightarrow> \<exists>j. j = child items i \<and> c = make_list (slot base j) \<and> Suc j < length items \<and> items ! j = Term h \<and> items ! Suc j = Term t
      | Term (PStr f ts) \<Rightarrow> \<exists>j. j = child items i \<and> c = make_str (slot base j) \<and> j + length ts < length items \<and> items ! j = Term f \<and> functor_of f (length ts)
          \<and> (\<forall>i<length ts. items ! (j + Suc i) = Term (ts ! i)))"

text \<open>The names of a term, which must differ from the first name of the table, the empty list's.\<close>

primrec pnames :: "pterm \<Rightarrow> string set" where
  "pnames (PVar x) = {}"
| "pnames (PCst x) = {}"
| "pnames (PName s a) = {s}"
| "pnames (PFlt v w) = {}"
| "pnames (PList h t) = pnames h \<union> pnames t"
| "pnames (PStr f ts) = pnames f \<union> \<Union> (set (map pnames ts))"

definition pending_item :: "store \<Rightarrow> addr \<Rightarrow> addr set \<Rightarrow> string \<Rightarrow> item \<Rightarrow> word32 \<Rightarrow> bool" where
  "pending_item m nb W n0 x c =
     (case x of Term t \<Rightarrow> reads m nb W c t \<and> n0 \<notin> pnames t | Box v w \<Rightarrow> c = FVL_TAG | Raw w \<Rightarrow> c = w)"

fun box :: "item \<Rightarrow> bool" where "box (Box v w) = True" | "box _ = False"

text \<open>The payload follows its marker.\<close>

fun box_form :: "item list \<Rightarrow> bool" where
  "box_form [] = True"
| "box_form (Term t # xs) = box_form xs"
| "box_form (Box v w # x # y # xs) = (raw x \<and> raw y \<and> box_form xs)"
| "box_form _ = False"

text \<open>The child has room for N words, for the names, and nothing of the term lies in either.\<close>

definition copy_space :: "icb \<Rightarrow> addr set \<Rightarrow> nat \<Rightarrow> bool" where
  "copy_space p W N =
     (is_var (i_st p) \<and> unat (i_st p) + 4 + 4 * N + 24 < unat (i_tt p) \<and> unat (stack_base p) \<le> unat (i_st p) + 4
      \<and> unat (stack_base p) + 129 < unat (name_base p) + 2 ^ 20
      \<and> (\<forall>i\<le>N. slot (i_st p + 4) i \<in> W)
      \<and> (\<forall>q. unat (name_top p) \<le> unat q \<and> unat q < unat (stack_base p) \<longrightarrow> q AND ADR_MASK \<in> W))"

definition copy_inv :: "icb \<Rightarrow> store \<Rightarrow> addr \<Rightarrow> addr set \<Rightarrow> nat \<Rightarrow> string \<Rightarrow> item list \<Rightarrow> nat \<Rightarrow> copying \<Rightarrow> bool" where
  "copy_inv p m nb W N n0 items k c =
     (k \<le> length items \<and> (k < length items \<longrightarrow> \<not> raw (items ! k)) \<and> box_form items
      \<and> length items = child items k \<and> (\<forall>i<k. i < child items i)
      \<and> c_bot c = slot (i_st p + 4) k \<and> c_top c = slot (i_st p + 4) (length items)
      \<and> length items + sum_list (map isize (drop k items)) = N
      \<and> c_icb c = p\<lparr>i_nl := i_nl (c_icb c), name_top := name_top (c_icb c)\<rparr>
      \<and> (\<exists>ns. name_table (c_icb c) (c_store c) (n0 # ns))
      \<and> unat (name_top (c_icb c)) + sum_list (map ichars (drop k items)) < unat (stack_base p)
      \<and> unat (name_top p) \<le> unat (name_top (c_icb c))
      \<and> (\<forall>a. a \<notin> W \<longrightarrow> c_store c a = m a)
      \<and> (\<forall>i<k. built (i_st p + 4) (name_base p) (name_top (c_icb c)) items (c_store c) i (c_store c (slot (i_st p + 4) i)))
      \<and> (\<forall>i. k \<le> i \<and> i < length items \<longrightarrow> pending_item m nb W n0 (items ! i) (c_store c (slot (i_st p + 4) i))))"

lemma copy_invD:
  assumes "copy_inv p m nb W N n0 items k c"
  shows "k \<le> length items" "k < length items \<Longrightarrow> \<not> raw (items ! k)" "box_form items"
    and "c_bot c = slot (i_st p + 4) k" "c_top c = slot (i_st p + 4) (length items)"
    and "length items + sum_list (map isize (drop k items)) = N"
    and "c_icb c = p\<lparr>i_nl := i_nl (c_icb c), name_top := name_top (c_icb c)\<rparr>"
    and "\<exists>ns. name_table (c_icb c) (c_store c) (n0 # ns)"
    and "unat (name_top (c_icb c)) + sum_list (map ichars (drop k items)) < unat (stack_base p)"
    and "unat (name_top p) \<le> unat (name_top (c_icb c))"
    and "a \<notin> W \<Longrightarrow> c_store c a = m a"
    and "i < k \<Longrightarrow> built (i_st p + 4) (name_base p) (name_top (c_icb c)) items (c_store c) i (c_store c (slot (i_st p + 4) i))"
    and "k \<le> i \<Longrightarrow> i < length items \<Longrightarrow> pending_item m nb W n0 (items ! i) (c_store c (slot (i_st p + 4) i))"
    and "length items = child items k" "i < k \<Longrightarrow> i < child items i"
  using assms unfolding copy_inv_def by blast+

lemma char_at_upd: "unat q < unat a \<Longrightarrow> char_at (m(a := v)) q = char_at m q"
proof -
  assume "unat q < unat a"
  moreover have "unat (q AND ADR_MASK) \<le> unat q" by (simp add: word_and_le2 word_le_nat_alt [symmetric])
  ultimately have "q AND ADR_MASK \<noteq> a" by auto
  thus ?thesis by (simp add: char_at_def)
qed

lemma built_mono:
  assumes "built base nb lim items m i c" "i < length items" "unat lim \<le> unat lim'"
    and ch: "\<And>q. unat q < unat lim \<Longrightarrow> char_at m' q = char_at m q"
  shows "built base nb lim' (items @ xs) m' i c"
proof (cases "items ! i")
  case (Term t)
  show ?thesis
  proof (cases t)
    case (PName s a)
    then obtain v where v: "c = make_fun (v + ASCII_SIZE) a" "spells m (nb + v) s" "unat v + 129 < 2 ^ 20" "v \<noteq> 0" "unat a < 2 ^ 9"
      "unat (nb + v) + length s < unat lim" using assms(1) Term by (auto simp: built_def)
    have "spells m' (nb + v) s"
    proof (rule iffD2 [OF spells_cong v(2)])
      fix i
      assume "i \<le> length s"
      moreover have "unat (nb + v) + length s < 2 ^ 32" using v(6) unsigned_less [of lim, where ?'a = nat] by simp
      ultimately show "char_at m' (nb + v + of_nat i) = char_at m (nb + v + of_nat i)"
        using ch unat_add_lt [of "nb + v" i] v(6) by simp
    qed
    thus ?thesis using v assms(2,3) Term PName by (auto simp: built_def nth_append)
  next
    case (PList h t)
    then obtain j where "j = child items i" "c = make_list (slot base j)" "Suc j < length items" "items ! j = Term h" "items ! Suc j = Term t"
      using assms(1) Term by (auto simp: built_def)
    thus ?thesis using assms(2) Term PList by (auto simp: built_def nth_append)
  next
    case (PFlt v w)
    then obtain j where "j = child items i" "c = make_str (slot base j)" "j + 2 < length items" "items ! j = Box v w" "items ! Suc j = Raw v" "items ! Suc (Suc j) = Raw w"
      using assms(1) Term by (auto simp: built_def)
    thus ?thesis using assms(2) Term PFlt by (auto simp: built_def nth_append)
  next
    case (PStr f ts)
    then obtain j where "j = child items i" "c = make_str (slot base j)" "j + length ts < length items" "items ! j = Term f" "functor_of f (length ts)"
      "\<forall>i<length ts. items ! (j + Suc i) = Term (ts ! i)" using assms(1) Term by (auto simp: built_def)
    thus ?thesis using assms(2) Term PStr by (auto simp: built_def nth_append)
  qed (use assms(1,2) Term in \<open>auto simp: built_def nth_append\<close>)
qed (use assms(1,2) in \<open>auto simp: built_def nth_append\<close>)

section \<open>One turn of the loop\<close>

lemma spaceD_slots:
  assumes "copy_space p W N"
  shows "i \<le> N \<Longrightarrow> unat (slot (i_st p + 4) i) = unat (i_st p) + 4 + 4 * i"
    and "i \<le> N \<Longrightarrow> j \<le> N \<Longrightarrow> (slot (i_st p + 4) i = slot (i_st p + 4) j) = (i = j)"
    and "is_var (slot (i_st p + 4) i)"
    and "i \<le> N \<Longrightarrow> a \<notin> W \<Longrightarrow> a \<noteq> slot (i_st p + 4) i"
    and "i \<le> N \<Longrightarrow> slot (i_st p + 4) i < i_tt p - 24"
    and "i \<le> N \<Longrightarrow> unat q < unat (stack_base p) \<Longrightarrow> unat q < unat (slot (i_st p + 4) i)"
proof -
  note S = assms [unfolded copy_space_def]
  have r: "unat (i_st p) + 4 + 4 * N + 24 < unat (i_tt p)" "unat (stack_base p) \<le> unat (i_st p) + 4" "is_var (i_st p)"
    "\<forall>i\<le>N. slot (i_st p + 4) i \<in> W" using S by blast+
  have t: "unat (i_tt p) < 2 ^ 32" using unsigned_less [of "i_tt p", where ?'a = nat] by simp
  have b: "unat (i_st p + 4) = unat (i_st p) + 4" using unat_add_lt [of "i_st p" 4] r(1) t by simp
  show u: "unat (slot (i_st p + 4) i) = unat (i_st p) + 4 + 4 * i" if "i \<le> N" for i
    using unat_slot [of "i_st p + 4" i] that r(1) t b by simp
  show "(slot (i_st p + 4) i = slot (i_st p + 4) j) = (i = j)" if "i \<le> N" "j \<le> N"
    using u [OF that(1)] u [OF that(2)] by (metis add_left_cancel mult_left_cancel zero_neq_numeral)
  have "is_var (i_st p + 4)" using r(3) is_var_slot [of "i_st p" 1] by (simp add: slot_def)
  thus "is_var (slot (i_st p + 4) i)" by simp
  show "a \<noteq> slot (i_st p + 4) i" if "i \<le> N" "a \<notin> W" using r(4) that by blast
  show "slot (i_st p + 4) i < i_tt p - 24" if "i \<le> N"
  proof -
    have "unat (i_tt p - 24) = unat (i_tt p) - 24" using unat_sub [of 24 "i_tt p"] r(1) by (simp add: word_le_nat_alt)
    thus ?thesis using u [OF that] r(1) that by (simp add: word_less_nat_alt)
  qed
  show "unat q < unat (slot (i_st p + 4) i)" if "i \<le> N" "unat q < unat (stack_base p)"
    using u [OF that(1)] r(2) that(2) by simp
qed

lemma box_form_next:
  "box_form xs \<Longrightarrow> k < length xs \<Longrightarrow> \<not> raw (xs ! k) \<Longrightarrow>
    (if box (xs ! k) then k + 3 \<le> length xs \<and> raw (xs ! Suc k) \<and> raw (xs ! Suc (Suc k)) \<and> (k + 3 < length xs \<longrightarrow> \<not> raw (xs ! (k + 3)))
     else Suc k < length xs \<longrightarrow> \<not> raw (xs ! Suc k))"
proof (induction xs arbitrary: k rule: box_form.induct)
  case (2 t xs)
  show ?case
  proof (cases k)
    case 0
    thus ?thesis using 2 by (cases xs rule: box_form.cases) auto
  next
    case (Suc n)
    thus ?thesis using "2.IH" [of n] 2(2-4) by (auto split: if_splits simp: add.commute)
  qed
next
  case (3 v w x y xs)
  show ?case
  proof (cases "k < 3")
    case True
    hence "k = 0 \<or> k = 1 \<or> k = 2" by auto
    moreover have "0 < length xs \<Longrightarrow> \<not> raw (xs ! 0)" using 3 by (cases xs rule: box_form.cases) auto
    ultimately show ?thesis using 3 by (auto simp: numeral_3_eq_3)
  next
    case False
    then obtain j where "k = Suc (Suc (Suc j))" by (metis add_diff_inverse_nat add_Suc plus_nat.add_0 numeral_3_eq_3)
    thus ?thesis using "3.IH" [of j] 3(2-4) by (auto split: if_splits simp: numeral_3_eq_3 add.commute)
  qed
qed auto

lemma box_form_append: "box_form xs \<Longrightarrow> box_form ys \<Longrightarrow> box_form (xs @ ys)"
  by (induction xs rule: box_form.induct) auto

lemma box_form_terms: "box_form (map Term ts)" "box_form [Box v w, Raw v, Raw w]"
  by (induction ts) auto

lemma copy_inv_step:
  assumes inv: "copy_inv p m nb W N n0 items k c" and sp: "copy_space p W N" and k: "k < length items" and t: "items ! k = Term t"
    and c': "c_bot c' = slot (i_st p + 4) (Suc k)" "c_top c' = slot (i_st p + 4) (length items + length xs)"
      "c_icb c' = p\<lparr>i_nl := i_nl (c_icb c'), name_top := name_top (c_icb c')\<rparr>" "\<exists>ns. name_table (c_icb c') (c_store c') (n0 # ns)"
      "unat (name_top (c_icb c)) \<le> unat (name_top (c_icb c'))"
      "unat (name_top (c_icb c')) + sum_list (map ichars xs) \<le> unat (name_top (c_icb c)) + pchars t"
    and size: "length xs + sum_list (map isize xs) = psize t" "length xs = width (Term t)" and box: "box_form xs"
    and out: "\<And>a. a \<notin> W \<Longrightarrow> c_store c' a = c_store c a"
    and old: "\<And>i. i < length items \<Longrightarrow> i \<noteq> k \<Longrightarrow> c_store c' (slot (i_st p + 4) i) = c_store c (slot (i_st p + 4) i)"
    and chars: "\<And>q. unat q < unat (name_top (c_icb c)) \<Longrightarrow> char_at (c_store c') q = char_at (c_store c) q"
    and new: "\<And>i. i < length xs \<Longrightarrow> pending_item m nb W n0 (xs ! i) (c_store c' (slot (i_st p + 4) (length items + i)))"
    and fin: "built (i_st p + 4) (name_base p) (name_top (c_icb c')) (items @ xs) (c_store c') k (c_store c' (slot (i_st p + 4) k))"
  shows "copy_inv p m nb W N n0 (items @ xs) (Suc k) c'"
proof -
  note I = copy_invD [OF inv]
  have nb: "\<not> box (items ! k)" "\<not> raw (items ! k)" using t by simp_all
  have bf: "box_form (items @ xs)" by (rule box_form_append [OF I(3) box])
  have dk: "drop k items = Term t # drop (Suc k) items" using Cons_nth_drop_Suc [OF k] t by simp
  have "length (items @ xs) + sum_list (map isize (drop (Suc k) (items @ xs))) = N"
    using I(6) size(1) k by (simp add: dk)
  moreover have "unat (name_top (c_icb c')) + sum_list (map ichars (drop (Suc k) (items @ xs))) < unat (stack_base p)"
    using I(9) c'(6) k by (simp add: dk)
  moreover have "\<not> raw ((items @ xs) ! Suc k)" if "Suc k < length (items @ xs)"
    using box_form_next [OF bf, of k] that k nb by (simp add: nth_append)
  moreover have "unat (name_top p) \<le> unat (name_top (c_icb c'))" using I(10) c'(5) by simp
  moreover have "c_store c' a = m a" if "a \<notin> W" for a using out [OF that] I(11) [OF that] by simp
  moreover have "built (i_st p + 4) (name_base p) (name_top (c_icb c')) (items @ xs) (c_store c') i (c_store c' (slot (i_st p + 4) i))"
    if "i < Suc k" for i
  proof (cases "i = k")
    case False
    hence i: "i < k" "i < length items" using that k by auto
    from built_mono [OF I(12) [OF i(1)] i(2) c'(5) chars] show ?thesis using old [OF i(2) False] by simp
  qed (use fin in simp)
  moreover have "pending_item m nb W n0 ((items @ xs) ! i) (c_store c' (slot (i_st p + 4) i))"
    if "Suc k \<le> i" "i < length (items @ xs)" for i
  proof (cases "i < length items")
    case True
    thus ?thesis using I(13) [of i] old [of i] that by (simp add: nth_append)
  next
    case False
    thus ?thesis using new [of "i - length items"] that by (simp add: nth_append)
  qed
  moreover have "length (items @ xs) = child (items @ xs) (Suc k)" using child_Suc [OF k] I(14) size(2) t k by simp
  moreover have "i < child (items @ xs) i" if "i < Suc k" for i using I(14) I(15) [of i] that k by (cases "i = k") simp_all
  ultimately show ?thesis using bf c'(1-4) k unfolding copy_inv_def by simp
qed

lemma push_range_spec:
  assumes "\<And>i j. i < n \<Longrightarrow> j < n \<Longrightarrow> slot a i \<noteq> slot stk j" "\<And>i j. i < n \<Longrightarrow> j < n \<Longrightarrow> i \<noteq> j \<Longrightarrow> slot stk i \<noteq> slot stk j"
  shows "\<exists>m'. push_range a n (stk, m) = (slot stk n, m') \<and> (\<forall>i<n. m' (slot stk i) = m (slot a i))
    \<and> (\<forall>b. (\<forall>i<n. b \<noteq> slot stk i) \<longrightarrow> m' b = m b)"
  using assms
proof (induction n arbitrary: a stk m)
  case (Suc n)
  let ?m = "m(stk := m a)"
  have s: "slot (p + 4) i = slot p (Suc i)" for p i by (simp add: slot_def algebra_simps)
  have "slot (a + 4) i \<noteq> slot (stk + 4) j" "i \<noteq> j \<Longrightarrow> slot (stk + 4) i \<noteq> slot (stk + 4) j" if "i < n" "j < n" for i j
    unfolding s using Suc.prems that by auto
  from Suc.IH [OF this, of ?m] obtain m' where m': "push_range (a + 4) n (stk + 4, ?m) = (slot (stk + 4) n, m')"
    "\<forall>i<n. m' (slot (stk + 4) i) = ?m (slot (a + 4) i)" "\<forall>b. (\<forall>i<n. b \<noteq> slot (stk + 4) i) \<longrightarrow> m' b = ?m b" by blast
  have "m' (slot stk i) = m (slot a i)" if "i < Suc n" for i
  proof (cases i)
    case 0
    have "stk \<noteq> slot (stk + 4) j" if "j < n" for j using Suc.prems(2) [of 0 "Suc j"] that by (simp add: s)
    thus ?thesis using m'(3) 0 by simp
  next
    case (Suc j)
    hence "m' (slot stk i) = ?m (slot a i)" using m'(2) that by (simp add: s)
    thus ?thesis using Suc.prems(1) [of i 0] that by simp
  qed
  moreover have "m' b = m b" if "\<forall>i<Suc n. b \<noteq> slot stk i" for b
    using m'(3) that [rule_format, of 0] that by (auto simp: s)
  ultimately show ?case using m'(1) by (simp add: s)
qed simp

text \<open>The words of a compound term are copied to the top, as pending items.\<close>

lemma copy_cells_inv:
  assumes inv: "copy_inv p m nb W N n0 items k c" and sp: "copy_space p W N" and k: "k < length items" and t: "items ! k = Term t"
    and size: "length xs + sum_list (map isize xs) = psize t" "length xs = width (Term t)" and ch: "sum_list (map ichars xs) \<le> pchars t" and box: "box_form xs"
    and a: "\<And>i. i < length xs \<Longrightarrow> slot a i \<notin> W"
    and new: "\<And>i. i < length xs \<Longrightarrow> pending_item m nb W n0 (xs ! i) (m (slot a i))"
    and fin: "\<And>M. built (i_st p + 4) (name_base p) (name_top (c_icb c)) (items @ xs) M k w"
  shows "copy_inv p m nb W N n0 (items @ xs) (Suc k) (copy_cells a (length xs) (copy_word_out w c))"
proof -
  note I = copy_invD [OF inv] and S = spaceD_slots [OF sp]
  let ?s = "slot (i_st p + 4)" and ?n = "length items" and ?l = "length xs"
  have "sum_list (map isize (drop k items)) = psize t + sum_list (map isize (drop (Suc k) items))"
    using Cons_nth_drop_Suc [OF k] t by (metis isize.simps(1) list.simps(9) sum_list.Cons)
  hence N: "?n + ?l \<le> N" using I(6) size(1) by simp
  let ?m = "(c_store c)(?s k := w)"
  have sep: "slot a i \<noteq> ?s j" if "i < ?l" "j \<le> N" for i j using S(4) [OF that(2) a [OF that(1)]] .
  have "slot a i \<noteq> slot (?s ?n) j" "i \<noteq> j \<Longrightarrow> slot (?s ?n) i \<noteq> slot (?s ?n) j" if "i < ?l" "j < ?l" for i j
    using sep [of i "?n + j"] S(2) [of "?n + i" "?n + j"] that N by (simp_all add: slot_slot)
  from push_range_spec [of ?l a "?s ?n" ?m, OF this] obtain m' where
    m': "push_range a ?l (?s ?n, ?m) = (slot (?s ?n) ?l, m')" "\<forall>i<?l. m' (slot (?s ?n) i) = ?m (slot a i)"
      "\<forall>b. (\<forall>i<?l. b \<noteq> slot (?s ?n) i) \<longrightarrow> m' b = ?m b" by blast
  have keep: "m' b = c_store c b" if "b \<noteq> ?s k" "\<And>i. i < ?l \<Longrightarrow> b \<noteq> ?s (?n + i)" for b
    using m'(3) that by (simp add: slot_slot)
  have mk: "m' (?s k) = w" using m'(3) S(2) [of k "?n + _"] k N by (simp add: slot_slot)
  let ?c = "copy_cells a ?l (copy_word_out w c)"
  have c': "?c = c\<lparr>c_bot := ?s (Suc k), c_top := ?s (?n + ?l), c_store := m'\<rparr>"
    using m'(1) by (simp add: copy_cells_def copy_word_out_def I(4,5) slot_slot)
  have ch': "char_at m' q = char_at (c_store c) q" if q: "unat q < unat (stack_base p)" for q
  proof -
    have "unat (q AND ADR_MASK) \<le> unat q" by (simp add: word_and_le2 word_le_nat_alt [symmetric])
    hence "q AND ADR_MASK \<noteq> ?s i" if "i \<le> N" for i using S(6) [OF that q] by auto
    thus ?thesis using keep k N by (simp add: char_at_def)
  qed
  obtain ns where ns: "name_table (c_icb c) (c_store c) (n0 # ns)" using I(8) by blast
  have nt: "name_table (c_icb c) m' (n0 # ns)"
    unfolding name_table_def by (rule names_cong [OF ns [unfolded name_table_def]]) (use ch' I(9) in simp)
  show ?thesis
  proof (rule copy_inv_step [OF inv sp k t, of ?c xs])
    show "pending_item m nb W n0 (xs ! i) (c_store ?c (?s (?n + i)))" if "i < ?l" for i
      using new [OF that] m'(2) that sep [OF that, of k] k N I(11) [OF a [OF that]] by (simp add: c' slot_slot)
    show "c_store ?c b = c_store c b" if "b \<notin> W" for b
      using keep S(4) [OF _ that] k N by (simp add: c')
    show "c_store ?c (?s i) = c_store c (?s i)" if "i < ?n" "i \<noteq> k" for i
      using keep [of "?s i"] S(2) that k N by (simp add: c')
    show "built (i_st p + 4) (name_base p) (name_top (c_icb ?c)) (items @ xs) (c_store ?c) k (c_store ?c (?s k))"
      using fin mk by (simp add: c')
    show "c_icb ?c = p\<lparr>i_nl := i_nl (c_icb ?c), name_top := name_top (c_icb ?c)\<rparr>" using I(7) by (simp add: c')
    show "char_at (c_store ?c) q = char_at (c_store c) q" if "unat q < unat (name_top (c_icb c))" for q
      using ch' [of q] I(9) that by (simp add: c')
  qed (use c' size ch box nt in auto)
qed

lemma word_only: "copy_cells a 0 c = c" by (simp add: copy_cells_def)

lemma name_spells:
  assumes "spells_in m W q s" "\<And>a. a \<notin> W \<Longrightarrow> m' a = m a"
  shows "spells m' q s" "NUL \<notin> set s"
proof -
  have "char_at m' (q + of_nat i) = char_at m (q + of_nat i)" if "i \<le> length s" for i
    using assms that by (simp add: char_at_def spells_in_def)
  thus "spells m' q s" using spells_cong [of s m' q m] assms(1) by (simp add: spells_in_def)
  have "spells m q s \<Longrightarrow> NUL \<notin> set s" for q by (induction s arbitrary: q) auto
  thus "NUL \<notin> set s" using assms(1) unfolding spells_in_def by blast
qed

text \<open>A name: found or entered in the table of the child.\<close>

lemma copy_name_inv:
  assumes inv: "copy_inv p m nb W N n0 items k c" and sp: "copy_space p W N" and k: "k < length items"
    and t: "items ! k = Term (PName s (arity x))" and x: "spells_in m W (nb + (fun_value x - ASCII_SIZE)) s" and n0: "s \<noteq> n0"
  shows "\<exists>c'. copy_name x nb c = Some c' \<and> copy_inv p m nb W N n0 items (Suc k) c'"
proof -
  note I = copy_invD [OF inv] and S = spaceD_slots [OF sp] and P = sp [unfolded copy_space_def]
  let ?s = "slot (i_st p + 4)" and ?n = "length items" and ?q = "name_top (c_icb c)"
  note sx = name_spells [OF x, of "c_store c", OF I(11)]
  have fields: "stack_base (c_icb c) = stack_base p" "name_base (c_icb c) = name_base p"
    using arg_cong [OF I(7), of stack_base] arg_cong [OF I(7), of name_base] by simp_all
  have dk: "drop k items = Term (PName s (arity x)) # drop (Suc k) items" using Cons_nth_drop_Suc [OF k] t by simp
  have N: "?n \<le> N" using I(6) by simp
  obtain ns where ns: "name_table (c_icb c) (c_store c) (n0 # ns)" using I(8) by blast
  have room: "unat ?q + length s < unat (stack_base (c_icb c))" using I(9) by (simp add: dk fields)
  from search_index_spec [OF ns sx(2) room, of "c_top c - 4"] fields obtain v p' m' where
    r: "search_index s (c_icb c) (c_top c - 4) (c_store c) = Some (v, p', m')"
      "name_table p' m' (if s \<in> set (n0 # ns) then n0 # ns else (n0 # ns) @ [s])" "spells m' (name_base p + v) s"
      "unat (name_base p) \<le> unat (name_base p + v)" "unat (name_base p + v) + length s < unat (name_top p')"
      "p' = (c_icb c)\<lparr>i_nl := 0, name_top := name_top p'\<rparr>" "s \<in> set (n0 # ns) \<longrightarrow> m' = c_store c \<and> name_top p' = ?q"
      "s \<notin> set (n0 # ns) \<longrightarrow> name_top p' = ?q + of_nat (length s) + 1"
      "\<forall>q. unat q < unat ?q \<or> unat (stack_base p) \<le> unat q \<longrightarrow> char_at m' q = char_at (c_store c) q"
      "\<forall>a. (\<forall>i\<le>length s. a \<noteq> (?q + of_nat i) AND ADR_MASK) \<longrightarrow> m' a = c_store c a" by auto
  have "(c_icb c)\<lparr>i_nl := 0, name_top := t\<rparr> = p\<lparr>i_nl := 0, name_top := t\<rparr>" for t by (subst I(7)) simp
  hence p': "p' = p\<lparr>i_nl := 0, name_top := name_top p'\<rparr>" using r(6) by simp
  have b: "unat (stack_base p) < 2 ^ 32" using unsigned_less [of "stack_base p", where ?'a = nat] by simp
  have qi: "unat (?q + of_nat i) = unat ?q + i" if "i \<le> length s" for i
    by (rule unat_add_lt) (use room b that fields in simp)
  have lim: "unat ?q \<le> unat (name_top p')" "unat (name_top p') \<le> unat ?q + length s + 1"
    using r(7,8) after_name [of ?q "length s"] room b fields by (cases "s \<in> set (n0 # ns)"; simp)+
  have mask: "unat (y AND ADR_MASK) \<le> unat y" for y by (simp add: word_and_le2 word_le_nat_alt [symmetric])
  have slots: "m' (?s i) = c_store c (?s i)" if "i \<le> N" for i
  proof -
    have "?s i \<noteq> (?q + of_nat l) AND ADR_MASK" if "l \<le> length s" for l
      using S(6) [OF \<open>i \<le> N\<close>, of "?q + of_nat l"] qi [OF that] mask [of "?q + of_nat l"] room fields that by auto
    thus ?thesis using r(10) by blast
  qed
  have out: "m' a = c_store c a" if "a \<notin> W" for a
  proof -
    have "(?q + of_nat l) AND ADR_MASK \<in> W" if "l \<le> length s" for l
      using P qi [OF that] I(10) room fields that by auto
    thus ?thesis using r(10) that by metis
  qed
  have vu: "unat v = unat (name_base p + v) - unat (name_base p)"
  proof -
    have "v = (name_base p + v) - name_base p" by simp
    thus ?thesis using unat_sub [of "name_base p" "name_base p + v"] r(4) by (metis word_le_nat_alt)
  qed
  have P2: "unat (stack_base p) + 129 < unat (name_base p) + 2 ^ 20" using P by blast
  have room2: "unat ?q + length s < unat (stack_base p)" using room fields by simp
  have vlt: "unat v + 129 < 2 ^ 20" using vu r(4,5) lim(2) room2 P2 by linarith
  have v0: "v \<noteq> 0"
  proof
    assume "v = 0"
    moreover have "spells m' (name_base p') n0" using r(2) by (simp add: name_table_def split: if_splits)
    moreover have "name_base p' = name_base p" using arg_cong [OF r(6), of name_base] fields by simp
    ultimately show False using spells_unique r(3) n0 by (metis add.right_neutral)
  qed
  let ?w = "make_fun (v + ASCII_SIZE) (arity x)"
  let ?c = "c\<lparr>c_icb := p', c_store := m'(?s k := ?w), c_bot := ?s (Suc k)\<rparr>"
  have nl: "i_nl p' = 0" using arg_cong [OF r(6), of i_nl] by simp
  have "copy_name x nb c = Some ?c"
    using spells_c_string [OF sx(1)] r(1) nl by (simp add: copy_name_def copy_word_out_def I(4))
  moreover have "copy_inv p m nb W N n0 (items @ []) (Suc k) ?c"
  proof (rule copy_inv_step [OF inv sp k t])
    have keep: "char_at (m'(?s k := ?w)) y = char_at m' y" if "unat y < unat (stack_base p)" for y
      by (rule char_at_upd) (use S(6) [of k y] k N that in simp)
    have lim2: "unat (name_top p') \<le> unat (stack_base p)" using lim(2) room fields by simp
    show "\<exists>ns. name_table (c_icb ?c) (c_store ?c) (n0 # ns)"
    proof -
      obtain ns' where "name_table p' m' (n0 # ns')" using r(2) by (cases "s \<in> set (n0 # ns)") auto
      hence "name_table p' (m'(?s k := ?w)) (n0 # ns')"
        unfolding name_table_def by (rule names_cong) (use keep lim2 in simp)
      thus ?thesis by auto
    qed
    show "c_icb ?c = p\<lparr>i_nl := i_nl (c_icb ?c), name_top := name_top (c_icb ?c)\<rparr>" using p' nl by simp
    show "char_at (c_store ?c) y = char_at (c_store c) y" if "unat y < unat ?q" for y
      using r(9) that keep [of y] room fields by simp
    show "c_store ?c a = c_store c a" if "a \<notin> W" for a using out [OF that] S(4) [OF _ that, of k] k N by simp
    show "c_store ?c (?s i) = c_store c (?s i)" if "i < ?n" "i \<noteq> k" for i
      using slots [of i] S(2) [of i k] that k N by simp
    have "spells (m'(?s k := ?w)) (name_base p + v) s"
    proof (rule iffD2 [OF spells_cong r(3)])
      fix i
      assume i: "i \<le> length s"
      have "unat (name_base p + v + of_nat i) = unat (name_base p + v) + i"
        by (rule unat_add_lt) (use r(5) lim2 b i in linarith)
      thus "char_at (m'(?s k := ?w)) (name_base p + v + of_nat i) = char_at m' (name_base p + v + of_nat i)"
        using keep r(5) lim2 i by simp
    qed
    thus "built (i_st p + 4) (name_base p) (name_top (c_icb ?c)) (items @ []) (c_store ?c) k (c_store ?c (?s k))"
      using t vlt v0 r(5) unat_arity_le [of x] by (auto simp: built_def intro!: exI [of _ v])
  qed (use lim I(5) in auto)
  ultimately show ?thesis by auto
qed

section \<open>Every kind of word\<close>

lemmas not_kinds = kinds_exclusive int_con_cst

lemma nil_con: "is_nil x \<Longrightarrow> is_con x" by (simp add: is_nil_def con_nil_def)

lemma fvl_kinds: "\<not> is_var FVL_TAG" "\<not> is_int FVL_TAG" "\<not> is_nil FVL_TAG" "\<not> is_list FVL_TAG" "\<not> is_str FVL_TAG"
  by (simp_all add: is_var_def is_int_def is_nil_def con_nil_def make_con_def is_list_def is_str_def tag_def tag3_def tag_consts)

lemma compound_kinds:
  assumes "is_list x \<or> is_str x"
  shows "\<not> is_var x" "\<not> is_int x" "\<not> is_nil x" "\<not> is_fvl x" "\<not> is_con x"
proof -
  have c: "\<not> is_cst x" using assms kinds_exclusive by blast
  show "\<not> is_var x" using assms kinds_exclusive by blast
  show "\<not> is_int x" "\<not> is_con x" using c int_con_cst by blast+
  thus "\<not> is_nil x" using nil_con by blast
  show "\<not> is_fvl x" using assms fvl_kinds by (auto simp: is_fvl_def)
qed

lemma next_word:
  assumes "copy_inv p m nb W N n0 items k c" "follows m W (c_store c (slot (i_st p + 4) k)) x"
  shows "deref_word (c_store c) (c_store c (c_bot c)) = Some x"
  using follows_deref [OF assms(2) copy_invD(11) [OF assms(1)]] copy_invD(4) [OF assms(1)] by simp

lemma copy_step_box:
  assumes inv: "copy_inv p m nb W N n0 items k c" and k: "k < length items" and b: "items ! k = Box v w"
  shows "\<exists>c'. copy_step nb c = Some c' \<and> copy_inv p m nb W N n0 items (k + 3) c'"
proof -
  note I = copy_invD [OF inv]
  let ?s = "slot (i_st p + 4)" and ?M = "c_store c" and ?c = "c\<lparr>c_bot := slot (i_st p + 4) (k + 3)\<rparr>"
  have bx: "k + 3 \<le> length items" "raw (items ! Suc k)" "raw (items ! Suc (Suc k))" "k + 3 < length items \<Longrightarrow> \<not> raw (items ! (k + 3))"
    using box_form_next [OF I(3) k] I(2) k b by auto
  have w: "?M (?s k) = FVL_TAG" using I(13) [of k] k b by (simp add: pending_item_def)
  have "deref_word ?M FVL_TAG = Some FVL_TAG" using fvl_kinds by (simp add: deref_word_def while_option_done)
  hence step: "copy_step nb c = Some ?c"
    using w fvl_kinds by (simp add: copy_step_def I(4) is_fvl_def slot_def)
  have dk: "drop k items = Box v w # items ! Suc k # items ! Suc (Suc k) # drop (k + 3) items"
    using Cons_nth_drop_Suc [of k items] Cons_nth_drop_Suc [of "Suc k" items] Cons_nth_drop_Suc [of "Suc (Suc k)" items] bx(1) b
    by (simp add: numeral_3_eq_3)
  have z: "isize x = 0 \<and> ichars x = 0" if "raw x" for x using that by (cases x) auto
  have rw: "\<exists>u. items ! i = Raw u" if "raw (items ! i)" for i using that by (cases "items ! i") auto
  have bd: "built (i_st p + 4) (name_base p) (name_top (c_icb c)) items ?M i (?M (?s i))" if i: "i < k + 3" for i
  proof (cases "i < k")
    case False
    hence "pending_item m nb W n0 (items ! i) (?M (?s i))" using I(13) [of i] i bx(1) by simp
    moreover have "i = k \<or> i = Suc k \<or> i = Suc (Suc k)" using False i by auto
    hence "i = k \<or> raw (items ! i)" using bx(2,3) by auto
    ultimately show ?thesis using b rw [of i] by (auto simp: built_def pending_item_def)
  qed (use I(12) in simp)
  have zw: "width x = 0" if "raw x" for x using that by (cases x) auto
  have "child items (Suc k) = child items k" "child items (Suc (Suc k)) = child items k" "child items (k + 3) = child items k"
    using child_Suc [of k items] child_Suc [of "Suc k" items] child_Suc [of "Suc (Suc k)" items] zw [OF bx(2)] zw [OF bx(3)] bx(1) b
    by (simp_all add: numeral_3_eq_3)
  hence ch: "length items = child items (k + 3)" "\<forall>i<k + 3. i < child items i"
    using I(14,15) bx(1) by (simp, auto simp: numeral_3_eq_3 less_Suc_eq)
  have "copy_inv p m nb W N n0 items (k + 3) ?c"
    unfolding copy_inv_def using I(3,5-11,13) bx bd z [OF bx(2)] z [OF bx(3)] ch by (simp add: dk)
  thus ?thesis using step by blast
qed

lemma copy_step_word:
  assumes inv: "copy_inv p m nb W N n0 items k c" and sp: "copy_space p W N" and k: "k < length items" and t: "items ! k = Term t"
    and rd: "reads m nb W (c_store c (slot (i_st p + 4) k)) t" and s: "(\<exists>x. t = PVar x) \<or> (\<exists>x. t = PCst x)"
  shows "\<exists>c'. copy_step nb c = Some c' \<and> copy_inv p m nb W N n0 items (Suc k) c'"
proof -
  note I = copy_invD [OF inv] and words = copy_cells_inv [OF inv sp k t, where xs = "[]", simplified word_only list.size]
  from rd show ?thesis
  proof cases
    case (rvar x)
    have "copy_step nb c = Some (copy_word_out (slot (i_st p + 4) k) c)"
      using next_word [OF inv rvar(2)] rvar(3) by (simp add: copy_step_def I(4))
    moreover have "copy_inv p m nb W N n0 items (Suc k) (copy_word_out (slot (i_st p + 4) k) c)"
      using words [where w = "slot (i_st p + 4) k"] rvar(1) k t by (simp add: built_def)
    ultimately show ?thesis by blast
  next
    case (rcst x)
    have "\<not> is_var x" using rcst(3) nil_con not_kinds by blast
    moreover have "is_int x \<or> is_nil x \<or> \<not> is_int x \<and> \<not> is_nil x \<and> \<not> is_fvl x \<and> is_con x \<and> fun_value x <s ASCII_SIZE"
      using rcst(3) by blast
    ultimately have "copy_step nb c = Some (copy_word_out x c)"
      using next_word [OF inv rcst(2)] unfolding copy_step_def Let_def by (elim disjE) simp_all
    moreover have "copy_inv p m nb W N n0 items (Suc k) (copy_word_out x c)"
      using words [where w = x] rcst(1,3) k t by (simp add: built_def)
    ultimately show ?thesis by blast
  qed (use s in auto)
qed

lemma copy_step_list:
  assumes inv: "copy_inv p m nb W N n0 items k c" and sp: "copy_space p W N" and k: "k < length items" and t: "items ! k = Term (PList h e)"
    and rd: "reads m nb W (c_store c (slot (i_st p + 4) k)) (PList h e)" and n0: "n0 \<notin> pnames (PList h e)"
  shows "\<exists>c'. copy_step nb c = Some c' \<and> copy_inv p m nb W N n0 (items @ [Term h, Term e]) (Suc k) c'"
proof -
  note I = copy_invD [OF inv]
  let ?c = "copy_word_out (make_list (slot (i_st p + 4) (length items))) c"
  from rd obtain x where x: "follows m W (c_store c (slot (i_st p + 4) k)) x" "is_list x" "addr x \<notin> W" "addr x + 4 \<notin> W"
    "reads m nb W (m (addr x)) h" "reads m nb W (m (addr x + 4)) e" by cases auto
  have "copy_step nb c = Some (copy_cells (addr x) (length [Term h, Term e]) ?c)"
    using next_word [OF inv x(1)] x(2) compound_kinds [of x] by (simp add: copy_step_def I(5) numeral_2_eq_2)
  moreover have "copy_inv p m nb W N n0 (items @ [Term h, Term e]) (Suc k) (copy_cells (addr x) (length [Term h, Term e]) ?c)"
  proof (rule copy_cells_inv [OF inv sp k t])
    show "slot (addr x) i \<notin> W" if "i < length [Term h, Term e]" for i
      using that x(3,4) by (auto simp: less_Suc_eq slot_def)
    show "pending_item m nb W n0 ([Term h, Term e] ! i) (m (slot (addr x) i))" if "i < length [Term h, Term e]" for i
      using that x(5,6) n0 by (auto simp: less_Suc_eq slot_def pending_item_def)
  qed (use t k in \<open>auto simp: built_def nth_append simp: copy_invD(14) [OF inv, symmetric]\<close>)
  ultimately show ?thesis by blast
qed

lemma copy_step_double:
  assumes inv: "copy_inv p m nb W N n0 items k c" and sp: "copy_space p W N" and k: "k < length items" and t: "items ! k = Term (PFlt v w)"
    and rd: "reads m nb W (c_store c (slot (i_st p + 4) k)) (PFlt v w)"
  shows "\<exists>c'. copy_step nb c = Some c' \<and> copy_inv p m nb W N n0 (items @ [Box v w, Raw v, Raw w]) (Suc k) c'"
proof -
  note I = copy_invD [OF inv]
  let ?c = "copy_word_out (make_str (slot (i_st p + 4) (length items))) c"
  from rd obtain x where x: "follows m W (c_store c (slot (i_st p + 4) k)) x" "is_str x" "addr x \<notin> W" "addr x + 4 \<notin> W" "addr x + 8 \<notin> W"
    "m (addr x) = FVL_TAG" "v = m (addr x + 4)" "w = m (addr x + 8)" by cases auto
  have l: "\<not> is_list x" using x(2) kinds_exclusive by blast
  have f: "c_store ?c (addr x) = FVL_TAG"
    using spaceD_slots(4) [OF sp _ x(3), of k] k I(6) I(11) [OF x(3)] x(6) by (simp add: copy_word_out_def I(4))
  hence "derefstr (c_store ?c) x = Some x" using fvl_kinds by (simp add: derefstr_def while_option_done)
  hence "copy_step nb c = Some (copy_cells (addr x) (length [Box v w, Raw v, Raw w]) ?c)"
    using next_word [OF inv x(1)] x(2) f l compound_kinds [of x] by (simp add: copy_step_def I(5) is_float_def Let_def is_str_def numeral_3_eq_3)
  moreover have "copy_inv p m nb W N n0 (items @ [Box v w, Raw v, Raw w]) (Suc k) (copy_cells (addr x) (length [Box v w, Raw v, Raw w]) ?c)"
  proof (rule copy_cells_inv [OF inv sp k t])
    show "slot (addr x) i \<notin> W" if "i < length [Box v w, Raw v, Raw w]" for i
      using that x(3-5) by (auto simp: less_Suc_eq slot_def numeral_3_eq_3)
    show "pending_item m nb W n0 ([Box v w, Raw v, Raw w] ! i) (m (slot (addr x) i))" if "i < length [Box v w, Raw v, Raw w]" for i
      using that x(6-8) by (auto simp: less_Suc_eq slot_def pending_item_def numeral_3_eq_3)
  qed (use t k in \<open>auto simp: built_def nth_append simp: copy_invD(14) [OF inv, symmetric]\<close>)
  ultimately show ?thesis by blast
qed

lemma reads_functor:
  assumes "reads m nb W y f" "is_con y" "y \<noteq> FVL_TAG" "n = unat (arity y)"
  shows "functor_of f n"
proof -
  have y: "\<not> is_var y" "\<not> is_list y" "\<not> is_str y" using assms(2) not_kinds by blast+
  have e: "x = y" if "follows m W y x" for x using that y(1) by (cases rule: follows.cases) auto
  from assms(1) show ?thesis
    by cases (use assms(2-4) y e in auto)
qed

lemma copy_step_struct:
  assumes inv: "copy_inv p m nb W N n0 items k c" and sp: "copy_space p W N" and k: "k < length items" and t: "items ! k = Term (PStr f ts)"
    and rd: "reads m nb W (c_store c (slot (i_st p + 4) k)) (PStr f ts)" and n0: "n0 \<notin> pnames (PStr f ts)"
  shows "\<exists>c'. copy_step nb c = Some c' \<and> copy_inv p m nb W N n0 (items @ map Term (f # ts)) (Suc k) c'"
proof -
  note I = copy_invD [OF inv]
  let ?c = "copy_word_out (make_str (slot (i_st p + 4) (length items))) c" and ?xs = "map Term (f # ts)"
  from rd obtain x where x: "follows m W (c_store c (slot (i_st p + 4) k)) x" "is_str x" "\<And>i. i \<le> length ts \<Longrightarrow> slot (addr x) i \<notin> W"
    "is_con (m (addr x))" "m (addr x) \<noteq> FVL_TAG" "length ts = unat (arity (m (addr x)))" "reads m nb W (m (addr x)) f"
    "\<And>i. i < length ts \<Longrightarrow> reads m nb W (m (slot (addr x) (Suc i))) (ts ! i)" by cases auto
  have l: "\<not> is_list x" using x(2) kinds_exclusive by blast
  have a: "addr x \<notin> W" using x(3) [of 0] by simp
  have f: "c_store ?c (addr x) = m (addr x)"
    using spaceD_slots(4) [OF sp _ a, of k] k I(6) I(11) [OF a] by (simp add: copy_word_out_def I(4))
  have "\<not> is_str (m (addr x))" using x(4) not_kinds by blast
  hence "derefstr (c_store ?c) x = Some x" using f by (simp add: derefstr_def while_option_done)
  hence "copy_step nb c = Some (copy_cells (addr x) (length ?xs) ?c)"
    using next_word [OF inv x(1)] x(2,5,6) f l compound_kinds [of x] by (simp add: copy_step_def I(5) is_float_def Let_def)
  moreover have "copy_inv p m nb W N n0 (items @ ?xs) (Suc k) (copy_cells (addr x) (length ?xs) ?c)"
  proof (rule copy_cells_inv [OF inv sp k t])
    show "slot (addr x) i \<notin> W" if "i < length ?xs" for i using that x(3) by simp
    show "pending_item m nb W n0 (?xs ! i) (m (slot (addr x) i))" if "i < length ?xs" for i
      using that x(7,8) n0 by (cases i) (auto simp: pending_item_def)
    have i: "i < length ts \<Longrightarrow> (items @ ?xs) ! (length items + Suc i) = Term (ts ! i)" for i by (simp add: nth_append)
    show "built (i_st p + 4) (name_base p) (name_top (c_icb c)) (items @ ?xs) M k (make_str (slot (i_st p + 4) (length items)))" for M
      using t k i reads_functor [OF x(7,4,5,6)] by (auto simp: built_def nth_append simp: copy_invD(14) [OF inv, symmetric])
  qed (simp_all only: length_map list.size psize.simps pchars.simps map_map o_def isize.simps ichars.simps box_form_terms, simp_all)
  ultimately show ?thesis by blast
qed

text \<open>One turn always has a next word, and makes progress.\<close>

lemma copy_step_inv:
  assumes inv: "copy_inv p m nb W N n0 items k c" and sp: "copy_space p W N" and k: "k < length items"
  shows "\<exists>xs k' c'. copy_step nb c = Some c' \<and> copy_inv p m nb W N n0 (items @ xs) k' c' \<and> k < k'"
proof (cases "items ! k")
  case (Raw w)
  thus ?thesis using copy_invD(2) [OF inv] k by simp
next
  case (Box v w)
  from copy_step_box [OF inv k Box] show ?thesis by (intro exI [of _ "[]"] exI [of _ "k + 3"]) simp
next
  case (Term t)
  have p: "reads m nb W (c_store c (slot (i_st p + 4) k)) t" "n0 \<notin> pnames t"
    using copy_invD(13) [OF inv, of k] k Term by (auto simp: pending_item_def)
  have go: ?thesis if "\<exists>c'. copy_step nb c = Some c' \<and> copy_inv p m nb W N n0 (items @ xs) (Suc k) c'" for xs
    using that lessI by blast
  show ?thesis
  proof (cases t)
    case (PVar x)
    show ?thesis using go [of "[]"] copy_step_word [OF inv sp k Term p(1)] PVar by simp
  next
    case (PCst x)
    show ?thesis using go [of "[]"] copy_step_word [OF inv sp k Term p(1)] PCst by simp
  next
    case (PName s a)
    from p(1) [unfolded PName] obtain x where x: "follows m W (c_store c (slot (i_st p + 4) k)) x" "own_name x"
      "spells_in m W (nb + (fun_value x - ASCII_SIZE)) s" "a = arity x" by cases auto
    have c: "is_con x" "\<not> is_nil x" "\<not> is_fvl x" "\<not> fun_value x <s ASCII_SIZE" using x(2) by (auto simp: own_name_def)
    have "\<not> is_var x" "\<not> is_int x" using c(1) not_kinds by blast+
    hence "copy_step nb c = copy_name x nb c" using next_word [OF inv x(1)] c by (simp add: copy_step_def)
    thus ?thesis using go [of "[]"] copy_name_inv [OF inv sp k _ x(3)] Term PName x(4) p(2) by auto
  next
    case (PFlt v w)
    show ?thesis using go copy_step_double [OF inv sp k] Term p(1) PFlt by blast
  next
    case (PList h e)
    show ?thesis using go copy_step_list [OF inv sp k] Term p PList by blast
  next
    case (PStr f ts)
    show ?thesis using go copy_step_struct [OF inv sp k] Term p PStr by blast
  qed
qed

section \<open>The loop\<close>

lemma copy_loop:
  assumes sp: "copy_space p W N"
  shows "copy_inv p m nb W N n0 items k c \<Longrightarrow>
    \<exists>xs c'. while_option copy_more (\<lambda>r. Option.bind r (copy_step nb)) (Some c) = Some (Some c')
      \<and> copy_inv p m nb W N n0 (items @ xs) N c' \<and> length (items @ xs) = N"
proof (induction "N - k" arbitrary: items k c rule: less_induct)
  case less
  note I = copy_invD [OF less.prems] and S = spaceD_slots [OF sp]
  have l: "length items \<le> N" using I(6) by simp
  have tt: "i_tt (c_icb c) = i_tt p" using arg_cong [OF I(7), of i_tt] by simp
  have more: "copy_more (Some c) = (k < length items)"
    using S(1) [of k] S(1) [of "length items"] S(5) [OF l] I(1) l by (auto simp: copy_more_def I(4,5) tt word_less_nat_alt)
  show ?case
  proof (cases "k < length items")
    case True
    from copy_step_inv [OF less.prems sp True] obtain xs k' c' where
      st: "copy_step nb c = Some c'" "copy_inv p m nb W N n0 (items @ xs) k' c'" "k < k'" by blast
    have "N - k' < N - k" using st(3) True l by simp
    from less.hyps [OF this st(2)] obtain ys c2 where
      IH: "while_option copy_more (\<lambda>r. Option.bind r (copy_step nb)) (Some c') = Some (Some c2)"
        "copy_inv p m nb W N n0 ((items @ xs) @ ys) N c2" "length ((items @ xs) @ ys) = N" by blast
    have "while_option copy_more (\<lambda>r. Option.bind r (copy_step nb)) (Some c) = Some (Some c2)"
      using more True IH(1) st(1) by (subst while_option_step) simp_all
    thus ?thesis using IH(2,3) by (intro exI [of _ "xs @ ys"] exI [of _ c2]) simp
  next
    case False
    hence k: "k = length items" "length items = N" using I(1,6) by simp_all
    have "while_option copy_more (\<lambda>r. Option.bind r (copy_step nb)) (Some c) = Some (Some c)"
      using more False by (simp add: while_option_done)
    thus ?thesis using less.prems k by (intro exI [of _ "[]"] exI [of _ c]) simp
  qed
qed

section \<open>Occurrences do not meet\<close>

text \<open>
  Words under word i are those from st i on, w i of them, and theirs.  Where the
  blocks lie one behind the other, two words of one block have nothing in common.
\<close>

inductive under :: "(nat \<Rightarrow> nat) \<Rightarrow> (nat \<Rightarrow> nat) \<Rightarrow> nat \<Rightarrow> nat \<Rightarrow> bool" for st w where
  here: "under st w i i"
| below: "st i \<le> c \<Longrightarrow> c < st i + w i \<Longrightarrow> under st w c x \<Longrightarrow> under st w i x"

definition layered :: "(nat \<Rightarrow> nat) \<Rightarrow> (nat \<Rightarrow> nat) \<Rightarrow> bool" where
  "layered st w = ((\<forall>i. st (Suc i) = st i + w i) \<and> (\<forall>i. w i \<noteq> 0 \<longrightarrow> i < st i))"

lemma layered_mono: "layered st w \<Longrightarrow> i < j \<Longrightarrow> st i + w i \<le> st j"
proof (induction j)
  case (Suc j)
  hence "st (Suc j) = st j + w j" by (simp add: layered_def)
  thus ?case using Suc by (cases "i = j") auto
qed simp

lemma under_le: "under st w i x \<Longrightarrow> layered st w \<Longrightarrow> i \<le> x"
proof (induction rule: under.induct)
  case (below i c x)
  have "w i \<noteq> 0" using below(1,2) by linarith
  hence "i < st i" using below(5) by (simp add: layered_def)
  thus ?case using below by linarith
qed simp

lemma under_parent:
  "under st w b c \<Longrightarrow> layered st w \<Longrightarrow> b \<noteq> c \<Longrightarrow> \<exists>d. under st w b d \<and> st d \<le> c \<and> c < st d + w d"
proof (induction rule: under.induct)
  case (below i c x)
  show ?case
  proof (cases "c = x")
    case True
    thus ?thesis using below(1,2) under.here by blast
  next
    case False
    thus ?thesis using below under.below by blast
  qed
qed simp

lemma block_unique:
  assumes "layered st w" "st i \<le> c" "c < st i + w i" "st j \<le> c" "c < st j + w j"
  shows "i = j"
  using assms layered_mono [of st w i j] layered_mono [of st w j i] by (cases i j rule: linorder_cases) auto

lemma under_chain: "layered st w \<Longrightarrow> under st w a x \<Longrightarrow> under st w b x \<Longrightarrow> a < b \<Longrightarrow> under st w a b"
proof (induction "x - a" arbitrary: a b rule: less_induct)
  case less
  note L = less.prems(1)
  have bx: "b \<le> x" using under_le less.prems by blast
  from less.prems(2) show ?case
  proof cases
    case here
    thus ?thesis using bx less.prems(4) by simp
  next
    case (below c)
    have "w a \<noteq> 0" using below(1,2) by linarith
    hence "a < st a" using L by (simp add: layered_def)
    hence ac: "a < c" using below(1) by simp
    have cx: "c \<le> x" using under_le below(3) L by blast
    show ?thesis
    proof (cases b c rule: linorder_cases)
      case less
      have "x - b < x - a" using less.prems(4) bx by simp
      from less.hyps [OF this L less.prems(3) below(3) less] have u: "under st w b c" .
      obtain d where d: "under st w b d" "st d \<le> c" "c < st d + w d" using under_parent [OF u L] less by auto
      have "d = a" using block_unique [OF L d(2,3) below(1,2)] .
      thus ?thesis using under_le [OF d(1) L] less.prems(4) by simp
    next
      case equal
      thus ?thesis using below under.intros by blast
    next
      case greater
      have "x - c < x - a" using ac cx by simp
      from less.hyps [OF this L below(3) less.prems(3) greater] show ?thesis using below(1,2) under.below by blast
    qed
  qed
qed

lemma siblings_apart:
  assumes "layered st w" "st i \<le> a" "a < b" "b < st i + w i"
  shows "\<not> (under st w a x \<and> under st w b x)"
proof
  assume x: "under st w a x \<and> under st w b x"
  have "under st w a b" using under_chain [OF assms(1)] x assms(3) by blast
  then obtain c where c: "st a \<le> c" "c < st a + w a" "under st w c b" using assms(3) by cases auto
  have "w i \<noteq> 0" using assms(2-4) by linarith
  hence "i < st i" using assms(1) by (simp add: layered_def)
  hence "i < a" using assms(2) by simp
  hence "st i + w i \<le> st a" using layered_mono assms(1) by blast
  thus False using under_le [OF c(3) assms(1)] c(1) assms(4) by simp
qed

lemma distinct_rows:
  "(\<And>i. i < n \<Longrightarrow> distinct (f i)) \<Longrightarrow> (\<And>i j. i < j \<Longrightarrow> j < n \<Longrightarrow> set (f i) \<inter> set (f j) = {}) \<Longrightarrow>
     distinct (concat (map f [0..<n]))"
proof (induction n)
  case (Suc n)
  have "distinct (concat (map f [0..<n]))" by (rule Suc.IH) (use Suc.prems in auto)
  moreover have "set (f i) \<inter> set (f n) = {}" if "i < n" for i using Suc.prems(2) [of i n] that by simp
  hence "set (concat (map f [0..<n])) \<inter> set (f n) = {}" by fastforce
  ultimately show ?case using Suc.prems(1) [of n] by (simp only: upt_Suc map_append concat_append) simp
qed simp

section \<open>Reading the copy\<close>

lemma new_name:
  assumes "unat v + 129 < 2 ^ 20" "v \<noteq> 0" "unat a < 2 ^ 9"
  shows "own_name (make_fun (v + ASCII_SIZE) a)" "fun_value (make_fun (v + ASCII_SIZE) a) = v + ASCII_SIZE"
    "arity (make_fun (v + ASCII_SIZE) a) = a" "is_con (make_fun (v + ASCII_SIZE) a)" "make_fun (v + ASCII_SIZE) a \<noteq> FVL_TAG"
proof -
  let ?x = "make_fun (v + ASCII_SIZE) a"
  have u: "unat (v + 128) = unat v + 128" using unat_add_lt [of v 128] assms(1) by simp
  have lt: "v + ASCII_SIZE < 2 ^ 20" using u assms(1) by (simp add: word_less_nat_alt)
  have al: "a < 2 ^ 9" using assms(3) by (simp add: word_less_nat_alt)
  show f: "fun_value ?x = v + ASCII_SIZE" by (rule fun_value_make_fun [OF lt])
  show "arity ?x = a" by (rule arity_make_fun [OF lt al])
  show con: "is_con ?x" 
    by (auto simp: is_con_def tag3_take_bit tag_consts bit_eq_iff bit_take_bit_iff bit_make_fun bit_masks_int)
  have "fun_value FVL_TAG = 2 ^ 20 - 1" by (simp add: fun_value_def FVL_TAG_def FUN_MASK_def)
  hence "v + ASCII_SIZE = 2 ^ 20 - 1" if "?x = FVL_TAG" using f that by simp
  thus fv: "?x \<noteq> FVL_TAG" using u assms(1) by (auto simp: word_unat_eq_iff)
  have "fun_value con_nil = ASCII_SIZE" by (simp add: fun_value_def con_nil_def make_con_def FUN_MASK_def CON_TAG_def)
  hence nil: "\<not> is_nil ?x" using f assms(2) by (auto simp: is_nil_def)
  have i: "uint (v + 128) = int (unat v + 128)" using u by (metis of_nat_unat)
  have "unat v < 1048447" "int (unat v) = uint v" using assms(1) by simp_all
  hence "uint v < 1048447" by linarith
  hence "sint (v + 128) = int (unat v + 128)"
    unfolding sint_uint i by (intro signed_take_bit_int_eq_self) simp_all
  hence "\<not> v + 128 <s 128" by (simp add: word_sless_alt)
  thus "own_name ?x" using con nil fv f by (simp add: own_name_def is_fvl_def)
qed

text \<open>The words of the stack besides those of a copy of N + 1 words.\<close>

definition elsewhere :: "icb \<Rightarrow> nat \<Rightarrow> addr set" where
  "elsewhere p N = {a. stack_base p \<le> a \<and> (\<forall>i\<le>N. a \<noteq> slot (i_st p + 4) i)}"

text \<open>The words from word i of the copy on, as pvars finds their variables.\<close>

definition item_width :: "item list \<Rightarrow> nat \<Rightarrow> nat" where
  "item_width items i = (if i < length items then width (items ! i) else 0)"

definition cells_under :: "addr \<Rightarrow> item list \<Rightarrow> nat \<Rightarrow> addr set" where
  "cells_under base items i = slot base ` {x. x < length items \<and> under (child items) (item_width items) i x}"

definition fresh_copy :: "addr set \<Rightarrow> pterm \<Rightarrow> pterm \<Rightarrow> bool" where
  "fresh_copy A t t' = (pshape t' = pshape t \<and> distinct (pvars t') \<and> set (pvars t') \<subseteq> A)"

lemma copy_layered:
  assumes "copy_inv p m nb W N n0 items N c" "length items = N"
  shows "layered (child items) (item_width items)"
proof -
  have "child items (Suc i) = child items i + item_width items i" for i
    using child_Suc [of i items] by (cases "i < length items") (simp_all add: item_width_def child_def)
  thus ?thesis using copy_invD(15) [OF assms(1)] assms(2) by (simp add: layered_def item_width_def)
qed

lemma built_reads:
  assumes inv: "copy_inv p m nb W N n0 items N c" and sp: "copy_space p W N" and len: "length items = N"
    and M: "M = (c_store c)(slot (i_st p + 4) N := w)"
  shows "i < N \<Longrightarrow> items ! i = Term t \<Longrightarrow>
    \<exists>t'. reads M (name_base p) (elsewhere p N) (M (slot (i_st p + 4) i)) t' \<and> fresh_copy (cells_under (i_st p + 4) items i) t t'"
proof (induction t arbitrary: i)
  note I = copy_invD [OF inv] and S = spaceD_slots [OF sp]
  let ?s = "slot (i_st p + 4)" and ?A = "cells_under (i_st p + 4) items"
  have Mi: "M (?s i) = c_store c (?s i)" if "i < N" for i using S(2) [of i N] that by (simp add: M)
  have bl: "built (i_st p + 4) (name_base p) (name_top (c_icb c)) items (c_store c) i (M (?s i))" if "i < N" for i
    using I(12) [OF that] Mi [OF that] by simp
  have stop: "\<not> is_var x \<Longrightarrow> follows M (elsewhere p N) x x" for x by (rule follows.stop) simp
  note ptr = addr_make [OF S(3)]
  have in_copy: "?s i \<notin> elsewhere p N" if "i \<le> N" for i using that by (auto simp: elsewhere_def)
  have fc: "fresh_copy A t t" if "pvars t = []" for A t using that by (simp add: fresh_copy_def)
  have sub: "?A j \<subseteq> ?A i" if "i < N" "child items i \<le> j" "j < child items i + width (items ! i)" for i j
    using that len under.below [of "child items" i j "item_width items"] by (auto simp: cells_under_def item_width_def)
  have apart: "?A a \<inter> ?A b = {}" if "i < N" "child items i \<le> a" "a < b" "b < child items i + width (items ! i)" for i a b
  proof -
    have "b < child items i + item_width items i" using that len by (simp add: item_width_def)
    from siblings_apart [OF copy_layered [OF inv len] that(2,3) this]
    show ?thesis using S(2) len by (fastforce simp: cells_under_def)
  qed
  {
    case (PVar y)
    hence "M (?s i) = ?s i" "?s i \<in> ?A i" using bl [of i] len under.here by (auto simp: built_def cells_under_def)
    thus ?case using PVar S(3) in_copy [of i]
      by (intro exI [of _ "PVar (?s i)"]) (auto simp: fresh_copy_def intro!: rvar follows.stop)
  next
    case (PCst x)
    hence e: "M (?s i) = x" "is_int x \<or> is_nil x \<or> is_con x \<and> \<not> is_fvl x \<and> fun_value x <s ASCII_SIZE"
      using bl [of i] by (auto simp: built_def)
    hence "\<not> is_var x" using nil_con not_kinds by blast
    thus ?case using e fc [of "PCst x"] by (intro exI [of _ "PCst x"]) (auto intro: rcst stop)
  next
    case (PName s a)
    then obtain v where v: "M (?s i) = make_fun (v + ASCII_SIZE) a" "spells (c_store c) (name_base p + v) s" "unat v + 129 < 2 ^ 20" "v \<noteq> 0"
      "unat a < 2 ^ 9" "unat (name_base p + v) + length s < unat (name_top (c_icb c))" using bl [of i] by (auto simp: built_def)
    note n = new_name [OF v(3-5)]
    have lt: "unat (name_base p + v) + length s < unat (stack_base p)" using v(6) I(9) by simp
    hence "unat (name_base p + v) + length s < 2 ^ 32" using unsigned_less [of "stack_base p", where ?'a = nat] by simp
    hence at: "unat (name_base p + v + of_nat l) = unat (name_base p + v) + l" if "l \<le> length s" for l
      using that by (intro unat_add_lt) simp
    have apart: "(name_base p + v + of_nat l) AND ADR_MASK \<notin> elsewhere p N" if "l \<le> length s" for l
    proof -
      let ?q = "name_base p + v + of_nat l"
      have "unat (?q AND ADR_MASK) \<le> unat ?q" by (simp add: word_and_le2 word_le_nat_alt [symmetric])
      thus ?thesis using at [OF that] lt that by (auto simp: elsewhere_def word_le_nat_alt)
    qed
    have "spells M (name_base p + v) s"
    proof (rule iffD2 [OF spells_cong v(2)])
      fix l
      assume l: "l \<le> length s"
      from at [OF l] show "char_at M (name_base p + v + of_nat l) = char_at (c_store c) (name_base p + v + of_nat l)"
        unfolding M by (intro char_at_upd S(6)) (use lt l in simp_all)
    qed
    hence "spells_in M (elsewhere p N) (name_base p + (fun_value (M (?s i)) - ASCII_SIZE)) s" using v(1) n(2) apart by (simp add: spells_in_def)
    moreover have "\<not> is_var (M (?s i))" using n(4) v(1) not_kinds by metis
    ultimately have "reads M (name_base p) (elsewhere p N) (M (?s i)) (PName s (arity (M (?s i))))" using n(1) v(1) by (intro rname [OF stop]) simp_all
    thus ?case using n(3) v(1) fc [of "PName s a"] by auto
  next
    case (PFlt v w)
    then obtain j where j: "M (?s i) = make_str (?s j)" "j + 2 < length items" "items ! j = Box v w" "items ! Suc j = Raw v" "items ! Suc (Suc j) = Raw w"
      using bl [of i] by (auto simp: built_def)
    have x: "is_str (M (?s i))" "addr (M (?s i)) = ?s j" using j(1) ptr by auto
    have "M (?s j) = FVL_TAG" "M (?s j + 4) = v" "M (?s j + 8) = w"
      using bl [of j] bl [of "Suc j"] bl [of "Suc (Suc j)"] j len by (auto simp: built_def)
    hence "reads M (name_base p) (elsewhere p N) (M (?s i)) (PFlt v w)"
      using rflt [OF stop x(1)] compound_kinds(1) [of "M (?s i)"] x in_copy [of j] in_copy [of "Suc j"] in_copy [of "Suc (Suc j)"] j(2) len by simp
    thus ?case using fc [of "PFlt v w"] by auto
  next
    case (PList h u)
    then obtain j where j: "j = child items i" "M (?s i) = make_list (?s j)" "Suc j < length items" "items ! j = Term h" "items ! Suc j = Term u"
      using bl [of i] by (auto simp: built_def)
    have x: "is_list (M (?s i))" "addr (M (?s i)) = ?s j" using j(2) ptr by auto
    obtain h' u' where t: "reads M (name_base p) (elsewhere p N) (M (?s j)) h'" "fresh_copy (?A j) h h'"
      "reads M (name_base p) (elsewhere p N) (M (?s j + 4)) u'" "fresh_copy (?A (Suc j)) u u'"
      using PList.IH(1) [of j] PList.IH(2) [of "Suc j"] j len by auto
    have "fresh_copy (?A i) (PList h u) (PList h' u')"
      using t(2,4) sub [of i j] sub [of i "Suc j"] apart [of i j "Suc j"] PList.prems j(1) by (auto simp: fresh_copy_def)
    moreover have "reads M (name_base p) (elsewhere p N) (M (?s i)) (PList h' u')"
      using rlist [OF stop x(1)] compound_kinds(1) [of "M (?s i)"] x in_copy [of j] in_copy [of "Suc j"] j(3) len t by simp
    ultimately show ?case by blast
  next
    case (PStr f ts)
    then obtain j where j: "j = child items i" "M (?s i) = make_str (?s j)" "j + length ts < length items" "items ! j = Term f" "functor_of f (length ts)"
      "\<forall>i<length ts. items ! (j + Suc i) = Term (ts ! i)" using bl [of i] by (auto simp: built_def)
    have x: "is_str (M (?s i))" "addr (M (?s i)) = ?s j" using j(2) ptr by auto
    have fn: "is_con (M (?s j)) \<and> M (?s j) \<noteq> FVL_TAG \<and> length ts = unat (arity (M (?s j)))"
    proof (cases f)
      case (PName s a)
      then obtain v where "M (?s j) = make_fun (v + ASCII_SIZE) a" "unat v + 129 < 2 ^ 20" "v \<noteq> 0" "unat a < 2 ^ 9"
        using bl [of j] j(3,4) len by (auto simp: built_def)
      thus ?thesis using new_name [of v a] j(5) PName by simp
    qed (use bl [of j] j len in \<open>auto simp: built_def\<close>)
    obtain f' where f': "reads M (name_base p) (elsewhere p N) (M (?s j)) f'" "fresh_copy (?A j) f f'"
      using PStr.IH(1) [of j] j len by auto
    have fv: "pvars f' = []"
    proof (cases f)
      case (PName s a)
      thus ?thesis using f'(2) by (cases f') (simp_all add: fresh_copy_def)
    next
      case (PCst y)
      thus ?thesis using f'(2) by (cases f') (simp_all add: fresh_copy_def)
    qed (use j(5) in simp_all)
    have "\<exists>t'. reads M (name_base p) (elsewhere p N) (M (slot (?s j) (Suc l))) t' \<and> fresh_copy (?A (j + Suc l)) (ts ! l) t'"
      if "l < length ts" for l
      using PStr.IH(2) [of "ts ! l" "j + Suc l"] j that len by (simp add: slot_slot)
    then obtain g where g: "\<And>l. l < length ts \<Longrightarrow> reads M (name_base p) (elsewhere p N) (M (slot (?s j) (Suc l))) (g l)"
      "\<And>l. l < length ts \<Longrightarrow> fresh_copy (?A (j + Suc l)) (ts ! l) (g l)" by metis
    let ?ts = "map g [0..<length ts]"
    have w: "width (items ! i) = Suc (length ts)" using PStr.prems by simp
    have "distinct (concat (map (\<lambda>l. pvars (g l)) [0..<length ts]))"
    proof (rule distinct_rows)
      show "distinct (pvars (g l))" if "l < length ts" for l using g(2) [OF that] by (simp add: fresh_copy_def)
      show "set (pvars (g k)) \<inter> set (pvars (g l)) = {}" if "k < l" "l < length ts" for k l
      proof -
        have "?A (j + Suc k) \<inter> ?A (j + Suc l) = {}"
          by (rule apart [of i]) (use PStr.prems(1) j(1) w that in simp_all)
        moreover have "set (pvars (g k)) \<subseteq> ?A (j + Suc k)" "set (pvars (g l)) \<subseteq> ?A (j + Suc l)"
          using g(2) [of k] g(2) [of l] that by (simp_all add: fresh_copy_def)
        ultimately show ?thesis by blast
      qed
    qed
    moreover have "set (pvars (g l)) \<subseteq> ?A i" if "l < length ts" for l
      using g(2) [OF that] sub [of i "j + Suc l"] PStr.prems(1) j(1) w that by (auto simp: fresh_copy_def)
    hence "(\<Union>l\<in>{0..<length ts}. set (pvars (g l))) \<subseteq> ?A i" by (intro UN_least) simp
    moreover have "map (pshape \<circ> g) [0..<length ts] = map pshape ts"
      by (rule nth_equalityI) (use g(2) in \<open>simp_all add: fresh_copy_def\<close>)
    ultimately have "fresh_copy (?A i) (PStr f ts) (PStr f' ?ts)"
      using fv f'(2) by (simp add: fresh_copy_def o_def)
    moreover have "slot (?s j) l \<notin> elsewhere p N" if "l \<le> length ts" for l using in_copy [of "j + l"] j(3) len that by (simp add: slot_slot)
    hence "reads M (name_base p) (elsewhere p N) (M (?s i)) (PStr f' ?ts)"
      using rstr [OF stop x(1), where ts = ?ts] compound_kinds(1) [of "M (?s i)"] x fn f'(1) g(1) by simp
    ultimately show ?case by blast
  }
qed

lemma copy_arg_spec:
  assumes "reads m nb W proot t" "copy_space p W (1 + psize t)" "name_table p m (n0 # ns)" "n0 \<notin> pnames t"
    and "unat (name_top p) + pchars t < unat (stack_base p)"
  shows "\<exists>p' m' t'. copy_arg proot nb p m = Some (p', m', Some (slot (i_st p + 4) (1 + psize t)))
    \<and> reads m' (name_base p) (elsewhere p (1 + psize t)) (m' (slot (i_st p + 4) (1 + psize t))) t'
    \<and> pshape t' = pshape t \<and> distinct (pvars t') \<and> set (pvars t') \<subseteq> slot (i_st p + 4) ` {..psize t}
    \<and> (\<forall>a. a \<notin> W \<longrightarrow> m' a = m a) \<and> p' = p\<lparr>i_nl := i_nl p', name_top := name_top p'\<rparr>"
proof -
  let ?s = "slot (i_st p + 4)" and ?N = "1 + psize t"
  note S = spaceD_slots [OF assms(2)]
  let ?c = "\<lparr>c_bot = i_st p + 4, c_top = i_st p + 4 + 4, c_icb = p, c_store = m(i_st p + 4 := proot)\<rparr>"
  have "copy_inv p m nb W ?N n0 [Term t] 0 ?c"
  proof -
    have "unat (stack_base p) < 2 ^ 32" using unsigned_less [of "stack_base p", where ?'a = nat] by simp
    have "char_at (m(i_st p + 4 := proot)) q = char_at m q" if "unat q < unat (name_top p)" for q
      by (rule char_at_upd) (use S(6) [of 0 q] assms(5) that in simp)
    hence "name_table p (m(i_st p + 4 := proot)) (n0 # ns)"
      using names_cong [OF assms(3) [unfolded name_table_def]] by (simp add: name_table_def)
    moreover have "i_st p + 4 \<in> W" using assms(2) by (auto simp: copy_space_def dest: spec [of _ 0])
    moreover have "slot (i_st p + 4) 1 = i_st p + 4 + 4" by (simp add: slot_def)
    ultimately show ?thesis using assms(1,4,5) by (auto simp: copy_inv_def pending_item_def)
  qed
  from copy_loop [OF assms(2) this] obtain xs c' where
    w: "while_option copy_more (\<lambda>r. Option.bind r (copy_step nb)) (Some ?c) = Some (Some c')"
      "copy_inv p m nb W ?N n0 ([Term t] @ xs) ?N c'" "length ([Term t] @ xs) = ?N" by blast
  note I = copy_invD [OF w(2)]
  let ?M = "(c_store c')(?s ?N := c_store c' (?s 0))"
  have ic: "i_st (c_icb c') = i_st p" using arg_cong [OF I(7), of i_st] by simp
  have "copy_arg proot nb p m = Some (c_icb c', ?M, Some (?s ?N))"
    using w(1,3) I(4,5) by (simp add: copy_arg_def Let_def ic)
  moreover obtain t' where "reads ?M (name_base p) (elsewhere p ?N) (?M (?s ?N)) t'"
    "fresh_copy (cells_under (i_st p + 4) ([Term t] @ xs) 0) t t'"
    using built_reads [OF w(2) assms(2) w(3) refl, of 0 t "c_store c' (?s 0)"] S(2) [of 0 ?N] by auto
  moreover have "cells_under (i_st p + 4) ([Term t] @ xs) 0 \<subseteq> ?s ` {..psize t}"
    using w(3) by (auto simp: cells_under_def)
  moreover have "?M a = m a" if "a \<notin> W" for a using I(11) [OF that] S(4) [OF _ that, of ?N] by simp
  ultimately show ?thesis using I(7) unfolding fresh_copy_def by blast
qed


text \<open>The list [X,X|c], with its name c at 4002, sent to an imago whose table knows ab.\<close>

definition demo_child :: icb where
  "demo_child = (fst demo_names)\<lparr>i_st := 1100, i_tt := 2000\<rparr>"

definition demo_copy_store :: store where
  "demo_copy_store = (snd demo_names)(3000 := 3000, 3004 := make_list 3008, 3008 := 3000, 3012 := make_con 130, 4000 := 0x630000)"

definition demo_area :: "addr set" where "demo_area = {a. 1000 \<le> a \<and> a \<le> 1124}"

definition demo_term :: pterm where
  "demo_term = PList (PVar 3000) (PList (PVar 3000) (PName ''c'' 0))"

lemma demo_term_simps [simp]:
  "psize demo_term = 4" "pchars demo_term = 2" "pnames demo_term = {''c''}"
  by (simp_all add: demo_term_def)

lemma demo_copies:
  assumes "pshape t' = pshape demo_term" "distinct (pvars t')"
  obtains x y where "t' = PList (PVar x) (PList (PVar y) (PName ''c'' 0))" "x \<noteq> y"
proof -
  have v: "\<exists>x. t = PVar x" if "pshape t = PVar NULL" for t using that by (cases t) simp_all
  have l: "\<exists>h u. t = PList h u \<and> pshape h = a \<and> pshape u = b" if "pshape t = PList a b" for t a b using that by (cases t) simp_all
  have n: "t = PName s a" if "pshape t = PName s a" for t s a using that by (cases t) simp_all
  have "pshape t' = PList (PVar NULL) (PList (PVar NULL) (PName ''c'' 0))" using assms(1) by (simp add: demo_term_def)
  from l [OF this] obtain h u where 1: "t' = PList h u" "pshape h = PVar NULL" "pshape u = PList (PVar NULL) (PName ''c'' 0)"
    by blast
  from l [OF 1(3)] obtain h2 u2 where 2: "u = PList h2 u2" "pshape h2 = PVar NULL" "pshape u2 = PName ''c'' 0" by blast
  from v [OF 1(2)] v [OF 2(2)] n [OF 2(3)] that assms(2) show thesis unfolding 1 2 by auto
qed

lemma demo_reads:
  assumes v: "m 3000 = 3000" "m 3004 = 3009" "m 3008 = 3000" "m 3012 = 1047" "m 4000 = 0x630000"
    and W: "\<And>x. x \<in> W \<Longrightarrow> x \<le> 1200"
  shows "reads m 4000 W (make_list 3000) demo_term"
proof -
  have a: "x \<notin> W" if "1200 < x" for x using W [of x] that by auto
  have l: "make_list 3000 = 3001" by (simp add: make_list_def tag_consts)
  note E = is_var_def is_list_def tag_def tag_consts addr_def ADR_MASK_def
  have f: "follows m W 3001 3001" "follows m W 3009 3009" "follows m W 3000 3000" "follows m W 1047 1047"
    by (rule follows.stop, simp add: E v a)+
  have n: "arity (1047 :: word32) = 0" "fun_value (1047 :: word32) = 130" by (simp_all add: arity_def fun_value_def FUN_MASK_def)
  have "own_name 1047" by (simp add: own_name_def is_con_def is_nil_def con_nil_def make_con_def is_fvl_def tag3_def tag_consts n)
  moreover have "spells_in m W 4002 ''c''"
    by (simp add: spells_in_def char_at_def E v a char_of_def bit_0 le_Suc_eq all_conj_distrib)
  ultimately have "reads m 4000 W 1047 (PName ''c'' (arity 1047))"
    by (intro rname [OF f(4)]) (simp_all add: n)
  hence c: "reads m 4000 W 1047 (PName ''c'' 0)" by (simp add: n)
  have x: "reads m 4000 W 3000 (PVar 3000)" by (rule rvar [OF f(3)]) (simp add: E)
  have t: "reads m 4000 W 3009 (PList (PVar 3000) (PName ''c'' 0))"
    by (rule rlist [OF f(2)]) (use c x v a in \<open>simp_all add: E\<close>)
  show ?thesis unfolding l demo_term_def by (rule rlist [OF f(1)]) (use t x v a in \<open>simp_all add: E\<close>)
qed

lemma demo_space: "copy_space demo_child demo_area 5"
proof -
  have all: "\<forall>n \<in> set [1003..<1100]. 1000 \<le> (word_of_nat n :: word32) AND ADR_MASK \<and> (word_of_nat n :: word32) AND ADR_MASK \<le> 1124"
    by (simp add: upt_rec_numeral ADR_MASK_def)
  have "q AND ADR_MASK \<in> demo_area" if "1003 \<le> unat q" "unat q < 1100" for q
  proof -
    have "unat q \<in> set [1003..<1100]" by (simp only: set_upt atLeastLessThan_iff that)
    from bspec [OF all this] show ?thesis by (simp add: demo_area_def)
  qed
  moreover have "slot 1104 i \<in> demo_area" if "i \<le> 5" for i
  proof -
    have "\<forall>i\<in>{0, 1, 2, 3, 4, 5}. slot 1104 i \<in> demo_area" by (simp add: slot_def demo_area_def)
    moreover have "i \<in> {0, 1, 2, 3, 4, 5}" using that by (simp, presburger)
    ultimately show ?thesis by blast
  qed
  ultimately show ?thesis
    by (simp add: copy_space_def demo_child_def demo_names_def blank_icb_def is_var_def tag_def tag_consts)
qed


end
