(* ===== verification/MLVM_Messages_Correct.thy ===== *)
theory MLVM_Messages_Correct
  imports MLVM_Messages MLVM_Copy_Correct MLVM_Unify_Correct MLVM_System_Props
begin

text \<open>
  Messages between imagoes: accepting a messenger delivers its term, the unification
  of messages is that of the engine, and what it leaves behind when it fails.
\<close>

section \<open>Delivery\<close>

lemma follows_weaken:
  assumes "follows m X w x" "\<And>a. a \<notin> X \<Longrightarrow> m' a = m a" "Y \<subseteq> X"
  shows "follows m' Y w x"
  using assms(1)
proof (induction rule: follows.induct)
  case (stop w)
  thus ?case using assms(2) [of w] assms(3) by (intro follows.stop) auto
next
  case (step w x)
  have "m' w = m w" "w \<notin> Y" using assms(2) [OF step(2)] step(2) assms(3) by auto
  thus ?case using follows.step [of w Y m' x] step(1,3) step.IH by simp
qed

lemma spells_weaken:
  assumes "spells_in m X p s" "\<And>a. a \<notin> X \<Longrightarrow> m' a = m a" "Y \<subseteq> X"
  shows "spells_in m' Y p s"
proof -
  have "char_at m' (p + of_nat i) = char_at m (p + of_nat i)" if "i \<le> length s" for i
  proof -
    have "(p + of_nat i) AND ADR_MASK \<notin> X" using assms(1) that by (simp add: spells_in_def)
    from assms(2) [OF this] show ?thesis by (simp only: char_at_def)
  qed
  hence "spells m' p s = spells m p s" by (rule spells_cong)
  thus ?thesis using assms(1,3) by (auto simp: spells_in_def)
qed

lemma reads_weaken:
  assumes "reads m nb X w t" "\<And>a. a \<notin> X \<Longrightarrow> m' a = m a" "Y \<subseteq> X"
  shows "reads m' nb Y w t"
  using assms(1)
proof (induction rule: reads.induct)
  note F = follows_weaken [where m = m and m' = m' and X = X and Y = Y, OF _ assms(2,3)]
  {
    case (rvar w x)
    show ?case by (rule reads.rvar [OF F [OF rvar(1)] rvar(2)])
  next
    case (rcst w x)
    show ?case by (rule reads.rcst [OF F [OF rcst(1)] rcst(2)])
  next
    case (rname w x s)
    show ?case by (rule reads.rname [OF F [OF rname(1)] rname(2) spells_weaken [OF rname(3) assms(2,3)]])
  next
    case (rlist w x h t)
    have "addr x \<notin> Y" "addr x + 4 \<notin> Y" using rlist(3,4) assms(3) by auto
    from reads.rlist [OF F [OF rlist(1)] rlist(2) this] show ?case
      using rlist(7,8) assms(2) [OF rlist(3)] assms(2) [OF rlist(4)] by simp
  next
    case (rflt w x)
    have "addr x \<notin> Y" "addr x + 4 \<notin> Y" "addr x + 8 \<notin> Y" using rflt(3-5) assms(3) by auto
    from reads.rflt [OF F [OF rflt(1)] rflt(2) this] show ?case
      using rflt(6) assms(2) [OF rflt(3)] assms(2) [OF rflt(4)] assms(2) [OF rflt(5)] by simp
  next
    case (rstr w x ts f)
    have a: "m' (slot (addr x) i) = m (slot (addr x) i)" "slot (addr x) i \<notin> Y" if "i \<le> length ts" for i
      using assms(2) [OF rstr(3) [OF that]] assms(3) rstr(3) [OF that] by auto
    have h: "m' (addr x) = m (addr x)" using a(1) [of 0] by simp
    show ?case
      by (rule reads.rstr [where ts = ts and f = f, OF F [OF rstr(1)] rstr(2)]) (use rstr a h in simp_all)
  }
qed

lemma reads_ref: "is_var w \<Longrightarrow> w \<notin> X \<Longrightarrow> m w \<noteq> w \<Longrightarrow> reads m nb X (m w) t \<Longrightarrow> reads m nb X w t"
  by (erule reads.cases) (auto intro: reads.intros follows.step)

lemma reads_not_in: "reads m nb X w t \<Longrightarrow> is_var w \<Longrightarrow> w \<notin> X"
  by (erule reads.cases; erule follows.cases) auto

lemma blk_upd [simp]:
  "blk (upd_core ip f s) q = (if q = ip then f (blk s ip) else blk s q)"
  "s_mem (upd_core ip f s) = s_mem s" "s_next (upd_core ip f s) = s_next s" "s_queue (upd_core ip f s) = s_queue s"
  "s_icb (upd_core ip f s) q = (if q = ip then (s_icb s ip)\<lparr>core := f (blk s ip)\<rparr> else s_icb s q)"
  by (simp_all add: upd_core_def upd_icb_def)

text \<open>Taking the copy at r over into the variable x of the receiver.\<close>

lemma take_copy_spec:
  assumes x: "follows m W (m (i_st p)) x" "is_var x" "stack_base p \<le> x" "x \<le> i_st p" "i_st p \<notin> W"
    and m': "\<And>a. a \<notin> W \<Longrightarrow> m' a = m a" and sp: "copy_space p W N"
    and p': "p' = p\<lparr>i_nl := i_nl p', name_top := name_top p'\<rparr>"
    and t: "reads m' (name_base p) (elsewhere p N) (m' r) t"
  shows "\<exists>q m2. take_copy 0 r p' m' = Some (q, m2) \<and> reads m2 (name_base p) {} x t \<and> i_st q = r
    \<and> name_base q = name_base p \<and> (\<forall>a. a \<noteq> x \<and> a \<noteq> i_tt p \<longrightarrow> m2 a = m' a)"
proof -
  have st: "i_st p' = i_st p" "i_tt p' = i_tt p" "name_base p' = name_base p"
    using arg_cong [OF p', of i_st] arg_cong [OF p', of i_tt] arg_cong [OF p', of name_base] by simp_all
  note S = spaceD_slots [OF sp]
  have tt: "unat (i_st p) + 4 + 4 * N + 24 < unat (i_tt p)" "unat (stack_base p) \<le> unat (i_st p) + 4"
    using sp by (simp_all add: copy_space_def)
  have xs: "unat x \<le> unat (i_st p)" using x(4) by (simp add: word_le_nat_alt)
  have E: "x \<in> elsewhere p N" "i_tt p \<in> elsewhere p N" "i_tt p \<noteq> x"
  proof -
    have "x \<noteq> slot (i_st p + 4) i" if "i \<le> N" for i using S(1) [OF that] xs by auto
    thus "x \<in> elsewhere p N" using x(3) by (simp add: elsewhere_def)
    have "i_tt p \<noteq> slot (i_st p + 4) i" if "i \<le> N" for i using S(1) [OF that] tt that by auto
    thus "i_tt p \<in> elsewhere p N" using tt by (simp add: elsewhere_def word_le_nat_alt)
    show "i_tt p \<noteq> x" using xs tt by auto
  qed
  let ?m = "m'(x := m' r)"
  have d: "bt_arg 0 p' m' = Some x"
    using follows_deref [OF x(1) m'] m' [OF x(5)] by (simp add: bt_arg_def st)
  obtain q m2 where b: "bt_trail x (p', ?m) = (q, m2)" by fastforce
  have q: "name_base q = name_base p" and m2: "\<And>a. a \<noteq> i_tt p \<Longrightarrow> m2 a = ?m a"
    using b st by (auto simp: bt_trail_def split: if_splits)
  have out: "m2 a = m' a" if "a \<notin> elsewhere p N" for a using m2 [of a] E that by (cases "a = x"; cases "a = i_tt p") simp_all
  have R: "reads m2 (name_base p) {} (m' r) t" by (rule reads_weaken [OF t out empty_subsetI])
  have "m' r \<noteq> x" using reads_not_in [OF t] E(1) x(2) by auto
  hence "reads m2 (name_base p) {} x t" using reads_ref [OF x(2), of "{}" m2] R m2 [of x] E(3) by simp
  thus ?thesis using d b q m2 by (auto simp: take_copy_def)
qed


section \<open>Unification of messages\<close>

lemma derefstr_plain: "\<not> is_str (m (addr x)) \<Longrightarrow> derefstr m x = Some x"
  by (simp add: derefstr_def while_option_done)

lemma msg_step_plain:
  assumes "is_str (u_ax u) \<Longrightarrow> \<not> is_str (u_mem u (addr (u_ax u)))"
    and "is_str (u_bx u) \<Longrightarrow> \<not> is_str (u_mem u (addr (u_bx u)))"
  shows "msg_step bb gl cx u = Some (unify_step bb gl cx u)"
proof (cases "is_str (u_ax u) \<and> is_str (u_bx u) \<and> u_ax u \<noteq> u_bx u \<and> \<not> (is_float (u_mem u) (u_ax u) \<and> is_float (u_mem u) (u_bx u))")
  case True
  hence k: "(is_float (u_mem u) (u_ax u) \<and> is_float (u_mem u) (u_bx u)) = False" "is_str (u_ax u)" "is_str (u_bx u)" "u_ax u \<noteq> u_bx u"
    by simp_all
  have "derefstr (u_mem u) (u_ax u) = Some (u_ax u)" "derefstr (u_mem u) (u_bx u) = Some (u_bx u)"
    using assms k by (simp_all add: derefstr_plain)
  thus ?thesis using k(2-4) unfolding msg_step_def unify_step_def Let_def k(1) by simp
qed (auto simp: msg_step_def Let_def)

lemma msg_loop_follows:
  assumes "\<And>j. j < k \<Longrightarrow> u_run ((unify_step bb gl cx ^^ j) u) = URun
      \<and> msg_step bb gl cx ((unify_step bb gl cx ^^ j) u) = Some ((unify_step bb gl cx ^^ Suc j) u)"
    and "u_run ((unify_step bb gl cx ^^ k) u) \<noteq> URun"
  shows "msg_loop bb gl cx u = Some ((unify_step bb gl cx ^^ k) u)"
proof -
  let ?b = "\<lambda>r. case r of None \<Rightarrow> False | Some u \<Rightarrow> u_run u = URun" and ?c = "\<lambda>r. Option.bind r (msg_step bb gl cx)"
  have "while_option ?b ?c (Some ((unify_step bb gl cx ^^ (k - n)) u)) = Some (Some ((unify_step bb gl cx ^^ k) u))"
    if "n \<le> k" for n
    using that
  proof (induction n)
    case 0
    thus ?case using assms(2) by (simp add: while_option_done)
  next
    case (Suc n)
    hence e: "Suc (k - Suc n) = k - n" by simp
    have "u_run ((unify_step bb gl cx ^^ (k - Suc n)) u) = URun"
      "msg_step bb gl cx ((unify_step bb gl cx ^^ (k - Suc n)) u) = Some ((unify_step bb gl cx ^^ (k - n)) u)"
      using assms(1) [of "k - Suc n"] Suc.prems e by simp_all
    thus ?case using Suc by (subst while_option_step) simp_all
  qed
  from this [of k] show ?thesis by (simp add: msg_loop_def)
qed

lemma msg_start_post:
  assumes "wf_heap L t2 m" "wf_word L t2 m (m t1)" "wf_word L t2 m (m t2)"
  shows "u_post L t2 (msg_start t1 t2 p m) {r \<in> models L m. tval m r (m t1) = tval m r (m t2)}"
  using assms unsigned_less [of t2, where ?'a = nat]
  by (auto simp: u_post_def msg_start_def stack_inv_def sols_def stack_sols_def intro!: exI [of _ 0])

text \<open>The two loops on the trail find nothing to do: the trail only grew downward.\<close>

lemma trail_loops_idle:
  assumes "u_tt u \<le> i_tt p"
  shows "filter_from (i_gl p) (u_tt u, i_tt p, m) = Some (u_tt u, i_tt p, m)"
    and "clear_from (u_tt u) (i_tt p, m) = Some (i_tt p, m)"
  using assms by (simp_all add: filter_from_def clear_from_def while_option_done)

text \<open>The words the loop works with: the two terms, the cells and the pairs still to be unified.\<close>

definition run_words :: "addr set \<Rightarrow> addr \<Rightarrow> ustate \<Rightarrow> word32 set" where
  "run_words L cx u = insert (u_ax u) (insert (u_bx u) (u_mem u ` L
     \<union> {u_mem u (slot cx j) | j. 1 \<le> j \<and> unat cx + 4 * j \<le> unat (u_st u)}))"

lemma run_wordsI:
  assumes "u_ax u \<in> W" "u_bx u \<in> W" "\<And>a. a \<in> L \<Longrightarrow> u_mem u a \<in> W"
    and "unat (u_st u) = unat cx + 8 * n" "\<And>j. 1 \<le> j \<Longrightarrow> j \<le> 2 * n \<Longrightarrow> u_mem u (slot cx j) \<in> W"
  shows "run_words L cx u \<subseteq> W"
  using assms unfolding run_words_def by auto

text \<open>Unification makes no new word.\<close>

lemma step_words:
  assumes inv: "stack_inv L cx n u" and run: "u_run u = URun"
    and wf: "wf_word L cx (u_mem u) (u_ax u)" "wf_word L cx (u_mem u) (u_bx u)"
    and room: "unat (u_st u) + 4096 \<le> unat (u_tt u)"
  shows "run_words L cx (unify_step bb gl cx u) \<subseteq> run_words L cx u"
proof -
  let ?m = "u_mem u" let ?a = "u_ax u" let ?b = "u_bx u" let ?W = "run_words L cx u" let ?u' = "unify_step bb gl cx u"
  have h: "wf_heap L cx ?m" using inv by (simp add: stack_inv_def)
  have st: "unat (u_st u) = unat cx + 8 * n" and r2: "unat (u_st u) + 4096 < 2 ^ 32" and stn: "u_st u = slot cx (2 * n)"
    using inv unat_slot [of cx "2 * n"] room unsigned_less [of "u_tt u", where ?'a = nat] by (simp_all add: stack_inv_def)
  have W: "?a \<in> ?W" "?b \<in> ?W" "x \<in> L \<Longrightarrow> ?m x \<in> ?W" "1 \<le> j \<Longrightarrow> j \<le> 2 * n \<Longrightarrow> ?m (slot cx j) \<in> ?W" for x j
    by (auto simp: run_words_def st)
  have low: "x \<in> L \<Longrightarrow> unat x \<le> unat cx" for x using h by (simp add: wf_heap_def word_le_nat_alt)
  have sl: "unat (slot cx j) = unat cx + 4 * j" if "j \<le> 2 * n + 1022" for j
    by (rule unat_slot) (use that r2 st in simp)
  have pop: "run_words L cx (u_pop cx v) \<subseteq> ?W"
    if v: "u_ax v = ?a" "u_bx v = ?b" "u_st v = u_st u" "\<And>x. x \<in> L \<Longrightarrow> u_mem v x \<in> ?W"
      "\<And>j. 1 \<le> j \<Longrightarrow> j \<le> 2 * n \<Longrightarrow> u_mem v (slot cx j) \<in> ?W" for v
  proof (cases "u_st u = cx")
    case True
    thus ?thesis using v W st by (intro run_wordsI [of _ _ L cx n]) (simp_all add: u_pop_def)
  next
    case False
    then obtain k where k: "n = Suc k" using stn by (cases n) auto
    have s: "u_st u = slot cx (2 * k + 2)" "u_st u - 4 = slot cx (2 * k + 1)" "u_st u - 8 = slot cx (2 * k)"
      using stn k by (simp_all add: slot_def algebra_simps)
    show ?thesis
      by (rule run_wordsI [of _ _ L cx k]) (use v False s sl [of "2 * k"] k in \<open>simp_all add: u_pop_def\<close>)
  qed
  have bind: "run_words L cx (u_pop cx (u_bind bb gl x v u)) \<subseteq> ?W" if x: "x \<in> L" "v \<in> ?W" for x v
  proof (rule pop)
    have m: "u_mem (u_bind bb gl x v u) p = (if p = x then v else ?m p)" if "unat p \<le> unat cx + 8 * n" for p
      using that room st low [OF x(1)] by (auto simp: u_bind_def u_trail_def Let_def)
    show "u_mem (u_bind bb gl x v u) y \<in> ?W" if "y \<in> L" for y using m [of y] low [OF that] W(3) [OF that] x(2) by simp
    show "u_mem (u_bind bb gl x v u) (slot cx j) \<in> ?W" if "1 \<le> j" "j \<le> 2 * n" for j
      using m [of "slot cx j"] sl [of j] W(4) [OF that] x(2) that by simp
  qed (simp_all add: u_bind_def u_trail_def Let_def)
  have hop: "run_words L cx u' \<subseteq> ?W" if "u_mem u' = ?m" "u_st u' = u_st u" "u_ax u' \<in> ?W" "u_bx u' \<in> ?W" for u'
    by (rule run_wordsI [of _ _ L cx n]) (use that W st in simp_all)
  have grow: "run_words L cx ?u' \<subseteq> ?W"
    if g: "u_st ?u' = slot cx (2 * (n + d))" "d \<le> 510" "u_ax ?u' \<in> ?W" "u_bx ?u' \<in> ?W"
      "\<And>p. unat p \<le> unat cx + 8 * n \<Longrightarrow> u_mem ?u' p = ?m p"
      "\<And>i. i < d \<Longrightarrow> u_mem ?u' (slot cx (2 * (n + i) + 1)) \<in> ?W \<and> u_mem ?u' (slot cx (2 * (n + i) + 2)) \<in> ?W" for d
  proof (rule run_wordsI [of _ _ L cx "n + d"])
    show "u_mem ?u' x \<in> ?W" if "x \<in> L" for x using g(5) [of x] low [OF that] W(3) [OF that] by simp
    show "unat (u_st ?u') = unat cx + 8 * (n + d)" using g(1) sl [of "2 * (n + d)"] g(2) by simp
    show "u_mem ?u' (slot cx j) \<in> ?W" if j: "1 \<le> j" "j \<le> 2 * (n + d)" for j
    proof (cases "j \<le> 2 * n")
      case True
      thus ?thesis using g(5) [of "slot cx j"] sl [of j] W(4) [OF j(1)] by simp
    next
      case False
      define i where "i = (j - 2 * n - 1) div 2"
      have "i < d" "j = 2 * (n + i) + 1 \<or> j = 2 * (n + i) + 2" using False j unfolding i_def by presburger+
      thus ?thesis using g(6) by auto
    qed
  qed (use g in simp_all)
  consider (va) "is_var ?a" | (vb) "\<not> is_var ?a" "is_var ?b"
    | (ll) "\<not> is_var ?a" "\<not> is_var ?b" "?a \<noteq> ?b" "is_list ?a" "is_list ?b"
    | (ss) "\<not> is_var ?a" "\<not> is_var ?b" "?a \<noteq> ?b" "is_str ?a" "is_str ?b"
        "?m (addr ?a) = ?m (addr ?b)" "?m (addr ?a) \<noteq> FVL_TAG"
    | (eq) "\<not> is_var ?a" "\<not> is_var ?b" "?a = ?b"
    | (cc) "\<not> is_var ?a" "\<not> is_var ?b" "?a \<noteq> ?b" "\<not> (is_list ?a \<and> is_list ?b)"
        "\<not> (is_str ?a \<and> is_str ?b) \<or> ?m (addr ?a) \<noteq> ?m (addr ?b) \<or> ?m (addr ?a) = FVL_TAG"
    by blast
  thus ?thesis
  proof cases
    case va
    thus ?thesis using bind [OF wf_var [OF wf(1)] W(2)] hop [of "u\<lparr>u_ax := ?m ?a\<rparr>"] W wf_var [OF wf(1)]
      by (simp add: unify_step_def Let_def)
  next
    case vb
    thus ?thesis using bind [OF wf_var [OF wf(2)] W(1)] hop [of "u\<lparr>u_bx := ?m ?b\<rparr>"] W wf_var [OF wf(2)]
      by (simp add: unify_step_def Let_def)
  next
    case ll
    have L: "addr ?a \<in> L" "addr ?a + 4 \<in> L" "addr ?b \<in> L" "addr ?b + 4 \<in> L" using wf ll(4,5) by (simp_all add: wf_word_def)
    note s = list_step_state [OF inv run ll(4,5) wf r2 ll(3) refl, of bb gl]
    show ?thesis by (rule grow [of 1]) (use s W(3) L in simp_all)
  next
    case ss
    define k where "k = unat (arity (?m (addr ?a)))"
    define d where "d = k - 1"
    note s = str_step_state [OF inv run ss(4,5) wf r2 ss(3,6,7) k_def refl, of bb gl, folded d_def]
    have k: "k = Suc d" "d \<le> 510" using s unat_arity_le [of "?m (addr ?a)"] by (simp_all add: d_def k_def)
    have L: "addr ?a + 4 * of_nat i \<in> L" "addr ?b + 4 * of_nat i \<in> L" if "1 \<le> i" "i \<le> k" for i using s that by blast+
    show ?thesis
    proof (rule grow [of d])
      show "u_mem ?u' (slot cx (2 * (n + i) + 1)) \<in> ?W \<and> u_mem ?u' (slot cx (2 * (n + i) + 2)) \<in> ?W" if "i < d" for i
      proof -
        have "1 \<le> k - i" "k - i \<le> k" using that k by simp_all
        thus ?thesis using s that W(3) [OF L(1) [of "k - i"]] W(3) [OF L(2) [of "k - i"]] by auto
      qed
      have "addr ?a + 4 \<in> L" "addr ?b + 4 \<in> L" using L [of 1] k by simp_all
      thus "u_ax ?u' \<in> ?W" "u_bx ?u' \<in> ?W" using s W(3) by auto
    qed (use s k in auto)
  next
    case eq
    thus ?thesis using pop [of u] W by (simp add: unify_step_def Let_def)
  next
    case cc
    hence "?u' \<in> {u_pop cx u, u\<lparr>u_run := UFail\<rparr>}"
      using float_is_str [of ?m ?a] float_is_str [of ?m ?b]
      by (simp add: unify_step_def Let_def) (auto simp: is_float_def is_str_def)
    thus ?thesis using pop [of u] hop [of "u\<lparr>u_run := UFail\<rparr>"] W by auto
  qed
qed

lemma msg_unify_run:
  assumes h: "wf_heap L t2 m" "wf_word L t2 m (m t1)" "wf_word L t2 m (m t2)"
    and plain: "\<And>x. x \<in> insert (m t1) (insert (m t2) (m ` L)) \<Longrightarrow> is_str x \<Longrightarrow> \<not> is_str (m (addr x))" and bbgl: "i_bb p \<le> i_gl p"
    and room: "unify_room (i_bb p) (i_gl p) t2 (msg_start t1 t2 p m)"
    and v: "unify (i_bb p) (i_gl p) t2 (msg_start t1 t2 p m) = Some v"
  shows "msg_loop (i_bb p) (i_gl p) t2 (msg_start t1 t2 p m) = Some v" "u_tt v \<le> i_tt p"
    and "u_run v \<noteq> URun" "u_post L t2 v {r \<in> models L m. tval m r (m t1) = tval m r (m t2)}"
proof -
  let ?f = "unify_step (i_bb p) (i_gl p) t2" and ?u = "msg_start t1 t2 p m"
  note post = msg_start_post [OF h, of p]
  obtain k where k: "v = (?f ^^ k) ?u" "u_run v \<noteq> URun" "\<And>j. j < k \<Longrightarrow> u_run ((?f ^^ j) ?u) = URun"
    using while_option_iterate [OF v [unfolded unify_def]] by auto
  show "u_run v \<noteq> URun" by (rule k(2))
  have r0: "unat t2 + 4096 \<le> unat (i_tt p)" if "0 < k"
    using room k(3) [OF that] unfolding unify_room_def by (auto dest: spec [of _ 0] simp: msg_start_def)
  have kpos: "0 < k" using k(1,2) by (cases k) (auto simp: msg_start_def)
  have ti0: "trail_inv L t2 (i_bb p) (i_tt p) m 0 (u_mem ?u) (u_tt ?u)"
    using r0 [OF kpos] by (simp add: trail_inv_def msg_start_def)
  have ti: "\<exists>N. trail_inv L t2 (i_bb p) (i_tt p) m N (u_mem ((?f ^^ j) ?u)) (u_tt ((?f ^^ j) ?u))" if "j \<le> k" for j
    using trail_inv_run [OF post room bbgl ti0, of j] k(3) that by simp
  have W: "run_words L t2 ((?f ^^ j) ?u) \<subseteq> insert (m t1) (insert (m t2) (m ` L))" if "j \<le> k" for j
    using that
  proof (induction j)
    case 0
    have "\<not> (1 \<le> j \<and> unat t2 + 4 * j \<le> unat t2)" for j :: nat by simp
    thus ?case by (auto simp: run_words_def msg_start_def)
  next
    case (Suc j)
    let ?w = "(?f ^^ j) ?u"
    have run: "u_run ?w = URun" using k(3) Suc.prems by simp
    have "u_post L t2 ?w {r \<in> models L m. tval m r (m t1) = tval m r (m t2)}"
      using unify_iterate_post [OF post room] k(3) Suc.prems by simp
    then obtain n where w: "stack_inv L t2 n ?w" "wf_word L t2 (u_mem ?w) (u_ax ?w)" "wf_word L t2 (u_mem ?w) (u_bx ?w)"
      using run by (auto simp: u_post_def)
    have "unat (u_st ?w) + 4096 \<le> unat (u_tt ?w)"
      using room k(3) Suc.prems unfolding unify_room_def by (simp add: less_Suc_eq_le)
    from step_words [OF w(1) run w(2,3) this, of "i_bb p" "i_gl p"] show ?case using Suc by auto
  qed
  have "msg_step (i_bb p) (i_gl p) t2 ((?f ^^ j) ?u) = Some ((?f ^^ Suc j) ?u)" if j: "j < k" for j
  proof -
    let ?w = "(?f ^^ j) ?u"
    have "u_post L t2 ?w {r \<in> models L m. tval m r (m t1) = tval m r (m t2)}"
      using unify_iterate_post [OF post room] k(3) j by simp
    hence w: "wf_word L t2 (u_mem ?w) (u_ax ?w)" "wf_word L t2 (u_mem ?w) (u_bx ?w)" using k(3) [OF j] by (auto simp: u_post_def)
    obtain N where "trail_inv L t2 (i_bb p) (i_tt p) m N (u_mem ?w) (u_tt ?w)" using ti [of j] j by auto
    hence "u_mem ?w a = m a" if "a \<le> t2" "a \<notin> L" for a using that unfolding trail_inv_def by blast
    hence "\<not> is_str (u_mem ?w (addr x))" if "is_str x" "wf_word L t2 (u_mem ?w) x" "x \<in> {u_ax ?w, u_bx ?w}" for x
      using plain [of x] W [of j] j that by (auto simp: wf_word_def run_words_def)
    thus ?thesis using msg_step_plain w by simp
  qed
  thus "msg_loop (i_bb p) (i_gl p) t2 ?u = Some v" unfolding k(1) using k by (intro msg_loop_follows) auto
  obtain N where "trail_inv L t2 (i_bb p) (i_tt p) m N (u_mem v) (u_tt v)" using ti [of k] k(1) by auto
  thus "u_tt v \<le> i_tt p" unfolding trail_inv_def using unat_entry [of N "i_tt p"] by (auto simp: word_le_nat_alt)
  show "u_post L t2 v {r \<in> models L m. tval m r (m t1) = tval m r (m t2)}"
    unfolding k(1) using unify_iterate_post [OF post room] k(3) by simp
qed

text \<open>
  Claim C27. Messages are unified as the engine unifies terms.  Let L be the cells of the
  two messages, and no structure among their words lead to another structure word (the
  functor words the compiled code makes are constants; derefstr follows the others).  When
  the loop of the engine ends on the two messages, msg_unify ends in the same store.  It then reports E_SUCCEED, with the copy kept and the bindings on
  the trail, and the store has exactly the common solutions, or E_NO_SOLUTION, with
  the control block as it was, and there are none.
\<close>

theorem msg_unify_most_general:
  assumes "wf_heap L t2 m" "wf_word L t2 m (m t1)" "wf_word L t2 m (m t2)"
    and "\<And>x. x \<in> insert (m t1) (insert (m t2) (m ` L)) \<Longrightarrow> is_str x \<Longrightarrow> \<not> is_str (m (addr x))" "i_bb p \<le> i_gl p"
    and "unify_room (i_bb p) (i_gl p) t2 (msg_start t1 t2 p m)"
    and "unify (i_bb p) (i_gl p) t2 (msg_start t1 t2 p m) = Some v"
  shows "(u_run v = USucc \<and> msg_unify t1 t2 p m = Some (ecode E_SUCCEED, p\<lparr>i_st := t2, i_tt := u_tt v\<rparr>, u_mem v)
            \<and> models L (u_mem v) = {r \<in> models L m. tval m r (m t1) = tval m r (m t2)})
       \<or> (u_run v = UFail \<and> msg_unify t1 t2 p m = Some (ecode E_NO_SOLUTION, p, u_mem v)
            \<and> {r \<in> models L m. tval m r (m t1) = tval m r (m t2)} = {})"
proof -
  note R = msg_unify_run [OF assms] and T = trail_loops_idle [OF msg_unify_run(2) [OF assms]]
  show ?thesis
  proof (cases "u_run v")
    case USucc
    thus ?thesis using R(1,4) T(1) by (simp add: u_post_def msg_unify_def Let_def)
  next
    case UFail
    thus ?thesis using R(1,4) T(2) by (simp add: u_post_def msg_unify_def Let_def)
  qed (use R(3) in simp)
qed

text \<open>
  Claim C37. A failed unification of messages leaves its bindings behind: when [X|a]
  is matched with [b|c], b and c constants, a different from c, msg_unify reports
  E_NO_SOLUTION and leaves the control block, with its trail, as it was, but X is
  bound to b: the clean-up loop runs over no entry.
\<close>

theorem msg_unify_keeps_bindings:
  assumes "is_list (m t1)" "is_list (m t2)" "m t1 \<noteq> m t2"
    and "m (addr (m t1)) = addr (m t1)" "is_cst (m (addr (m t2)))"
    and "is_cst (m (addr (m t1) + 4))" "is_cst (m (addr (m t2) + 4))" "m (addr (m t1) + 4) \<noteq> m (addr (m t2) + 4)"
    and "addr (m t1) < t2" "addr (m t2) < t2" "unat t2 + 12 < unat (i_tt p)"
  shows "\<exists>m'. msg_unify t1 t2 p m = Some (ecode E_NO_SOLUTION, p, m') \<and> m' (addr (m t1)) = m (addr (m t2))"
proof -
  let ?x = "addr (m t1)" and ?y = "addr (m t2)" and ?tt = "i_tt p"
  let ?f = "unify_step (i_bb p) (i_gl p) t2" and ?u = "msg_start t1 t2 p m"
  have tt: "unat ?tt < 2 ^ 32" using unsigned_less [of ?tt, where ?'a = nat] by simp
  have n: "unat (t2 + 4) = unat t2 + 4" "unat (t2 + 8) = unat t2 + 8"
    using unat_add_lt [of t2 4] unat_add_lt [of t2 8] assms(11) tt by simp_all
  have ne: "t2 + 4 \<noteq> ?x" "t2 + 8 \<noteq> ?x" "t2 + 4 \<noteq> ?y" "t2 + 8 \<noteq> ?y" "?tt \<noteq> ?x" "?tt \<noteq> t2 + 4" "?tt \<noteq> t2 + 8" "?x \<noteq> t2" "?y \<noteq> t2"
    using assms(9-11) n by (auto simp: word_less_nat_alt)
  have nv: "\<not> is_var (m t1)" "\<not> is_var (m t2)" "\<not> is_str (m t1)" "\<not> is_str (m t2)" "is_var ?x" "\<not> is_var (m (?x + 4))" "\<not> is_var (m (?y + 4))"
    using assms(1,2,6,7) kinds_exclusive(5) [OF assms(1)] kinds_exclusive(5) [OF assms(2)] by (simp_all add: is_var_addr)
  let ?m1 = "m(t2 + 4 := m (?y + 4), t2 + 8 := m (?x + 4))"
  define u1 where "u1 = ?u\<lparr>u_mem := ?m1, u_st := t2 + 8, u_ax := ?x, u_bx := m ?y\<rparr>"
  define u2 where "u2 = (u_bind (i_bb p) (i_gl p) ?x (m ?y) u1)\<lparr>u_ax := m (?x + 4), u_bx := m (?y + 4), u_st := t2\<rparr>"
  have s1: "?f ?u = u1"
    using assms(1-4) nv ne n by (simp add: unify_step_def msg_start_def u_push_def u1_def Let_def add.commute [of 8 t2])
  have v: "u_mem (u_bind (i_bb p) (i_gl p) ?x (m ?y) u1) (t2 + 8) = m (?x + 4)"
    "u_mem (u_bind (i_bb p) (i_gl p) ?x (m ?y) u1) (t2 + 4) = m (?y + 4)"
    "u_st (u_bind (i_bb p) (i_gl p) ?x (m ?y) u1) = t2 + 8"
    "u_mem (u_bind (i_bb p) (i_gl p) ?x (m ?y) u1) ?x = m ?y"
    "u_run (u_bind (i_bb p) (i_gl p) ?x (m ?y) u1) = URun"
    using ne by (auto simp: u_bind_def u_trail_def u1_def Let_def msg_start_def)
  have s2: "?f u1 = u2"
  proof -
    have "u_ax u1 = ?x" "u_bx u1 = m ?y" "u_mem u1 ?x = ?x" using ne assms(4) by (simp_all add: u1_def)
    thus ?thesis using nv v ne by (simp add: unify_step_def u_pop_def u2_def Let_def add.commute [of 4 t2])
  qed
  have s3: "?f u2 = u2\<lparr>u_run := UFail\<rparr>"
    using nv assms(6-8) by (simp add: unify_step_def u2_def Let_def is_float_def is_cst_def is_list_def is_str_def tag_consts)
  have st: "(?f ^^ 1) ?u = u1" "(?f ^^ 2) ?u = u2" "(?f ^^ 3) ?u = u2\<lparr>u_run := UFail\<rparr>"
    by (simp_all add: s1 s2 s3 numeral_2_eq_2 numeral_3_eq_3)
  have "msg_loop (i_bb p) (i_gl p) t2 ?u = Some ((?f ^^ 3) ?u)"
  proof (rule msg_loop_follows)
    fix j :: nat
    assume "j < 3"
    then consider "j = 0" | "j = 1" | "j = 2" by linarith
    thus "u_run ((?f ^^ j) ?u) = URun \<and> msg_step (i_bb p) (i_gl p) t2 ((?f ^^ j) ?u) = Some ((?f ^^ Suc j) ?u)"
    proof cases
      case 1
      thus ?thesis using nv msg_step_plain [of ?u] by (simp add: msg_start_def)
    next
      case 2
      have "u_ax u1 = ?x" "u_bx u1 = m ?y" "u_run u1 = URun" by (simp_all add: u1_def msg_start_def)
      moreover have "\<not> is_str ?x" "\<not> is_str (m ?y)" using kinds_exclusive(2) [OF is_var_addr] assms(5) by simp_all
      ultimately show ?thesis using 2 st s2 msg_step_plain [of u1] by (simp add: numeral_2_eq_2)
    next
      case 3
      have "u_ax u2 = m (?x + 4)" "u_bx u2 = m (?y + 4)" "u_run u2 = URun" using v(5) by (simp_all add: u2_def)
      moreover have "\<not> is_str (m (?x + 4))" "\<not> is_str (m (?y + 4))" using assms(6,7) by simp_all
      ultimately show ?thesis using 3 st s3 msg_step_plain [of u2] by (simp add: numeral_3_eq_3 numeral_2_eq_2)
    qed
  qed (simp add: st)
  moreover have "u_tt u2 \<le> i_tt p"
  proof -
    have "unat (i_tt p - 4) = unat (i_tt p) - 4" using unat_sub [of 4 "i_tt p"] assms(11) by (simp add: word_le_nat_alt)
    thus ?thesis by (simp add: u2_def u_bind_def u_trail_def u1_def msg_start_def Let_def word_le_nat_alt)
  qed
  ultimately have "msg_unify t1 t2 p m = Some (ecode E_NO_SOLUTION, p, u_mem u2)"
    using trail_loops_idle [of "u2\<lparr>u_run := UFail\<rparr>" p] by (simp add: msg_unify_def st Let_def)
  moreover have "u_mem u2 ?x = m ?y" using v(4) by (simp add: u2_def)
  ultimately show ?thesis by blast
qed

text \<open>X, the unbound cell 8, with the atom 200.\<close>

definition demo_msg_mem :: store where "demo_msg_mem = (\<lambda>_. 0)(8 := 8, 900 := 8, 1000 := 1607)"
definition demo_msg_icb :: icb where "demo_msg_icb = demo_icb\<lparr>i_bb := 100, i_gl := 100, i_tt := 100000\<rparr>"
definition demo_msg_end :: ustate where
  "demo_msg_end = \<lparr>u_run = USucc, u_mem = demo_msg_mem(8 := 1607, 100000 := 8), u_ax = 8, u_bx = 1607, u_st = 1000, u_tt = 99996\<rparr>"

theorem msg_unify_most_general_witness:
  "msg_unify 900 1000 demo_msg_icb demo_msg_mem
     = Some (ecode E_SUCCEED, demo_msg_icb\<lparr>i_st := 1000, i_tt := 99996\<rparr>, u_mem demo_msg_end)
   \<and> models {8} (u_mem demo_msg_end) = {r \<in> models {8} demo_msg_mem. tval demo_msg_mem r 8 = tval demo_msg_mem r 1607}"
proof -
  let ?u = "msg_start 900 1000 demo_msg_icb demo_msg_mem"
  note D = demo_msg_mem_def demo_msg_icb_def demo_icb_def kind_defs tag_def addr_def tag_consts
  have one: "unify_step 100 100 1000 ?u = demo_msg_end"
    by (simp add: unify_step_def msg_start_def D u_bind_def u_trail_def u_pop_def Let_def demo_msg_end_def)
  have f: "u_run ?u = URun" "u_st ?u = 1000" "u_tt ?u = 100000" "u_run demo_msg_end = USucc" "u_tt demo_msg_end = 99996"
    by (simp_all add: msg_start_def demo_msg_end_def D)
  have room: "unify_room 100 100 1000 ?u"
    by (rule unify_room_by_steps [where n = 1]) (simp_all add: one f)
  have run: "unify 100 100 1000 ?u = Some demo_msg_end"
    unfolding unify_def by (simp add: while_option_step while_option_done one f)
  have wf: "wf_heap {8} 1000 demo_msg_mem" "wf_word {8} 1000 demo_msg_mem (demo_msg_mem 900)" "wf_word {8} 1000 demo_msg_mem (demo_msg_mem 1000)"
    by (simp_all add: wf_heap_def wf_word_def D)
  have plain: "\<not> is_str (demo_msg_mem a)" for a by (simp add: D)
  have b: "i_bb demo_msg_icb = 100" "i_gl demo_msg_icb = 100" "demo_msg_mem 900 = 8" "demo_msg_mem 1000 = 1607" by (simp_all add: D)
  from msg_unify_most_general [of "{8}" 1000 demo_msg_mem 900 demo_msg_icb, unfolded b(1,2), OF wf plain order_refl room run]
  show ?thesis using f(4,5) b(3,4) by simp
qed

definition demo_list_mem :: store where
  "demo_list_mem = (\<lambda>_. 0)(100 := 100, 104 := 1607, 200 := 1615, 204 := 1615, 900 := 101, 1000 := 201)"

theorem msg_unify_keeps_bindings_witness:
  "\<exists>m'. msg_unify 900 1000 demo_msg_icb demo_list_mem = Some (ecode E_NO_SOLUTION, demo_msg_icb, m') \<and> m' 100 = 1615"
proof -
  note D = demo_list_mem_def demo_msg_icb_def demo_icb_def kind_defs tag_def addr_def tag_consts
  have a: "addr (demo_list_mem 900) = 100" "addr (demo_list_mem 1000) = 200" by (simp_all add: D ADR_MASK_def)
  have "demo_list_mem 200 = 1615" by (simp add: D)
  thus ?thesis
    using msg_unify_keeps_bindings [of demo_list_mem 900 1000 demo_msg_icb, unfolded a] by (simp add: D)
qed

text \<open>The receiver at 24 waits for a message from a; the messenger at 32 carries [X,X|c].\<close>

definition demo_mail_store :: store where
  "demo_mail_store = (snd demo_names)(1100 := make_con 97, 1104 := 1104, 3000 := 3000, 3004 := make_list 3008, 3008 := 3000, 3012 := make_con 130,
     4000 := 0x630000, 4996 := make_list 3000)"

definition demo_mail :: sys where
  "demo_mail = empty_sys\<lparr>s_mem := demo_mail_store, s_icb := (\<lambda>_. blank_icb)
     (24 := blank_icb\<lparr>core := (fst demo_names)\<lparr>i_st := 1104, i_tt := 2000\<rparr>\<rparr>,
      32 := blank_icb\<lparr>ip_name := ''a'', core := (core blank_icb)\<lparr>itype := MESSENGER, name_base := 4000, i_st := 5000\<rparr>\<rparr>)\<rparr>"

definition demo_room_area :: "addr set" where
  "demo_room_area = {a. 1000 \<le> a \<and> a < 1100 \<or> 1108 \<le> a \<and> a \<le> 1128}"


end
