(* ===== verification/MLVM_Builtins_Correct.thy ===== *)
theory MLVM_Builtins_Correct
  imports MLVM_Builtins MLVM_Names_Correct MLVM_Copy_Correct
begin

text \<open>
  The builtins on terms and names: functor builds what it takes apart, length counts
  cells, atom_concat enters the joined name, and where the code departs from them.
\<close>

section \<open>Terms\<close>

lemma make_con_con_value:
  assumes "is_con t" shows "make_con (con_value t) = t"
proof (rule bit_word_eqI)
  fix n assume n: "n < LENGTH(32)"
  have "bit (take_bit 3 t) n = bit (7::word32) n"
    using assms by (simp add: is_con_def tag3_take_bit tag_consts)
  hence low: "n < 3 \<Longrightarrow> bit t n" by (simp add: bit_take_bit_iff bit_masks_int)
  show "bit (make_con (con_value t)) n = bit t n"
    using n low by (cases "n < 3") (simp_all add: bit_make_con con_value_def bit_value29, linarith?)
qed

lemma small_sint: "n \<le> (511 :: word32) \<Longrightarrow> sint n = uint n" "n \<le> (511 :: word32) \<Longrightarrow> uint n \<le> 511"
proof -
  assume "n \<le> 511"
  thus i: "uint n \<le> 511" by (simp add: word_le_def)
  have "- 2147483648 \<le> uint n" "uint n < 2147483648" using i uint_nonnegative [of n] by linarith+
  thus "sint n = uint n" unfolding sint_uint by (simp add: signed_take_bit_int_eq_self)
qed

lemma small_sless:
  assumes "n \<le> (511 :: word32)" "k \<le> 511"
  shows "k <s n \<longleftrightarrow> k < n"
  using small_sint(1) [OF assms(1)] small_sint(1) [OF assms(2)] by (simp add: word_sless_alt word_less_def)

lemma small_int:
  assumes "n \<le> 511" shows "int_value (make_int n) = n" "\<not> of_nat MAX_ARITY <s n" "n \<noteq> 0 \<Longrightarrow> 0 < unat n" "unat n \<le> 511"
proof -
  show u: "unat n \<le> 511" using assms by (simp add: word_le_nat_alt)
  note s = small_sint [OF assms]
  have "- 268435456 \<le> uint n" "uint n < 268435456" using s(2) uint_nonnegative [of n] by linarith+
  hence "signed_take_bit 28 n = n" by (intro sint_range29) (simp_all add: s(1))
  thus "int_value (make_int n) = n" by (simp add: int_value_make_int)
  show "\<not> of_nat MAX_ARITY <s n" using small_sless [OF assms, of 511] assms by simp
  show "n \<noteq> 0 \<Longrightarrow> 0 < unat n" by (simp add: unat_gt_0)
qed

lemma push_vars_spec:
  assumes "unat st + 4 * n < 2 ^ 32"
  shows "fst (push_vars n (st, m)) = slot st n"
    and "1 \<le> i \<Longrightarrow> i \<le> n \<Longrightarrow> snd (push_vars n (st, m)) (slot st i) = slot st i"
    and "(\<And>i. 1 \<le> i \<Longrightarrow> i \<le> n \<Longrightarrow> a \<noteq> slot st i) \<Longrightarrow> snd (push_vars n (st, m)) a = m a"
proof -
  have "fst (push_vars n (st, m)) = slot st n
      \<and> (\<forall>i. 1 \<le> i \<and> i \<le> n \<longrightarrow> snd (push_vars n (st, m)) (slot st i) = slot st i)
      \<and> (\<forall>a. (\<forall>i. 1 \<le> i \<and> i \<le> n \<longrightarrow> a \<noteq> slot st i) \<longrightarrow> snd (push_vars n (st, m)) a = m a)"
    using assms
  proof (induction n arbitrary: st m)
    case (Suc n)
    have u: "unat (st + 4) = unat st + 4" using unat_add_lt [of st 4] Suc.prems by simp
    let ?m = "m(st + 4 := st + 4)"
    have e: "push_vars (Suc n) (st, m) = push_vars n (st + 4, ?m)" by (simp add: Let_def)
    have sl: "slot (st + 4) i = slot st (Suc i)" for i by (simp add: slot_def algebra_simps)
    have pre: "unat (st + 4) + 4 * n < 2 ^ 32" using u Suc.prems by simp
    have IH: "fst (push_vars n (st + 4, ?m)) = slot (st + 4) n"
      "\<And>i. 1 \<le> i \<Longrightarrow> i \<le> n \<Longrightarrow> snd (push_vars n (st + 4, ?m)) (slot (st + 4) i) = slot (st + 4) i"
      "\<And>a. (\<forall>i. 1 \<le> i \<and> i \<le> n \<longrightarrow> a \<noteq> slot (st + 4) i) \<Longrightarrow> snd (push_vars n (st + 4, ?m)) a = ?m a"
      using Suc.IH [OF pre, of ?m] by blast+
    have one: "slot st 1 = st + 4" by (simp add: slot_def)
    have "snd (push_vars n (st + 4, ?m)) (st + 4) = st + 4"
    proof -
      have "st + 4 \<noteq> slot (st + 4) i" if "1 \<le> i" "i \<le> n" for i
        using slot_inj [of "st + 4" 0 i] u Suc.prems that by simp
      thus ?thesis using IH(3) [of "st + 4"] by simp
    qed
    hence "snd (push_vars n (st + 4, ?m)) (slot st i) = slot st i" if "1 \<le> i" "i \<le> Suc n" for i
      using IH(2) [of "i - 1"] that one by (cases "i = 1") (auto simp: sl)
    moreover have "snd (push_vars n (st + 4, ?m)) a = m a" if "\<forall>i. 1 \<le> i \<and> i \<le> Suc n \<longrightarrow> a \<noteq> slot st i" for a
    proof -
      have "a \<noteq> st + 4" using that [rule_format, of 1] one by simp
      moreover have "\<forall>i. 1 \<le> i \<and> i \<le> n \<longrightarrow> a \<noteq> slot (st + 4) i" using that by (simp add: sl)
      ultimately show ?thesis using IH(3) [of a] by simp
    qed
    ultimately show ?case unfolding e using IH(1) by (simp add: sl)
  qed simp
  thus "fst (push_vars n (st, m)) = slot st n"
    and "1 \<le> i \<Longrightarrow> i \<le> n \<Longrightarrow> snd (push_vars n (st, m)) (slot st i) = slot st i"
    and "(\<And>i. 1 \<le> i \<Longrightarrow> i \<le> n \<Longrightarrow> a \<noteq> slot st i) \<Longrightarrow> snd (push_vars n (st, m)) a = m a"
    by blast+
qed

lemma bind_cst_spec:
  assumes "x \<noteq> i_tt p"
  shows "snd (bind_cst x v p m) x = v" "a \<noteq> x \<Longrightarrow> a \<noteq> i_tt p \<Longrightarrow> snd (bind_cst x v p m) a = m a"
    "i_tt (fst (bind_cst x v p m)) = i_tt p \<or> i_tt (fst (bind_cst x v p m)) = i_tt p - 4"
    "name_base (fst (bind_cst x v p m)) = name_base p" "status (fst (bind_cst x v p m)) = status p"
  using assms by (auto simp: bind_cst_def bt_bbtrail_def)

text \<open>Taking a structure apart: functor and arity go into two variables.\<close>

lemma functor_match_vars:
  assumes "is_var F" "is_var N" "F \<noteq> N" "unat F + 8 < unat (i_tt p)" "unat N + 8 < unat (i_tt p)"
  shows "\<exists>p' m'. functor_match F N f n p m = (p', m') \<and> m' F = f \<and> m' N = make_int n"
proof -
  let ?q = "bind_cst F f p m"
  have tt: "unat (i_tt p - 4) = unat (i_tt p) - 4" using unat_sub [of 4 "i_tt p"] assms(4) by (simp add: word_le_nat_alt)
  have F: "F \<noteq> i_tt p" "F \<noteq> i_tt p - 4" "N \<noteq> i_tt p" "N \<noteq> i_tt p - 4" using assms(4,5) tt by auto
  note B = bind_cst_spec [OF F(1), where v = f and m = m]
  have t: "N \<noteq> i_tt (fst ?q)" "F \<noteq> i_tt (fst ?q)" using B(3) F by auto
  note C = bind_cst_spec [OF t(1), where v = "make_int n" and m = "snd ?q"]
  have "functor_match F N f n p m = bind_cst N (make_int n) (fst ?q) (snd ?q)"
    using assms(1,2) by (simp add: functor_match_def split_def Let_def)
  moreover have "snd (bind_cst N (make_int n) (fst ?q) (snd ?q)) F = f" using C(2) [where a = F] B(1) assms(3) t by simp
  ultimately show ?thesis using C(1) by (metis prod.collapse)
qed

text \<open>
  Claim C29. functor builds what it takes apart.  functor(X, f, n), X an unbound
  variable below the arguments, f an atom and 0 < n <= 511, binds X to a structure of
  n fresh variables, which ends the stack; and whenever functor is later called with
  that structure and two unbound variables, they become f and n.
\<close>

theorem functor_roundtrip:
  assumes "bt_arg 2 p m = Some x" "is_var x" "bt_arg 1 p m = Some f" "is_con f" "con_value f < 2 ^ 20"
    and "bt_arg 0 p m = Some (make_int n)" "n \<noteq> 0" "n \<le> 511"
    and "is_var (i_st p)" "unat x + 8 < unat (i_st p)" "unat (i_st p) + 4 * unat n < unat (i_tt p)"
  shows "\<exists>p1 m1. bp_functor3 p m = Some (p1, m1) \<and> i_st p1 = slot (i_st p - 8) (unat n)
    \<and> (\<forall>i. 1 \<le> i \<and> i \<le> unat n \<longrightarrow> m1 (slot (i_st p - 8) i) = slot (i_st p - 8) i)
    \<and> (\<forall>p2 m2 F N. bt_arg 2 p2 m2 = Some (m1 x) \<and> m2 (i_st p - 8) = m1 (i_st p - 8)
          \<and> bt_arg 1 p2 m2 = Some F \<and> is_var F \<and> bt_arg 0 p2 m2 = Some N \<and> is_var N \<and> F \<noteq> N
          \<and> unat F + 8 < unat (i_tt p2) \<and> unat N + 8 < unat (i_tt p2) \<longrightarrow>
          (\<exists>p3 m3. bp_functor3 p2 m2 = Some (p3, m3) \<and> m3 F = f \<and> m3 N = make_int n))"
proof -
  let ?st = "i_st p - 8" and ?g = "make_fun (con_value f) n"
  note S = small_int [OF assms(8)]
  have st: "unat ?st = unat (i_st p) - 8" using unat_sub [of 8 "i_st p"] assms(10) by (simp add: word_le_nat_alt)
  have lt: "unat ?st + 4 * unat n < 2 ^ 32" "unat ?st + 4 * unat n < unat (i_tt p)"
    using st assms(11) unsigned_less [of "i_tt p", where ?'a = nat] by simp_all
  have sl: "unat (slot ?st i) = unat ?st + 4 * i" if "i \<le> unat n" for i using unat_slot [of ?st i] lt(1) that by simp
  have x: "x \<noteq> slot ?st i" if "i \<le> unat n" for i using sl [OF that] st assms(10) by auto
  have tt: "i_tt p \<noteq> slot ?st i" if "i \<le> unat n" for i using sl [OF that] lt(2) that by auto
  have xtt: "x \<noteq> i_tt p" using assms(10,11) by auto
  obtain q m' where t: "bt_trail x (p, m(?st := ?g, x := make_str ?st)) = (q, m')" by fastforce
  have m': "m' ?st = ?g" "m' x = make_str ?st"
    using t x [of 0] tt [of 0] xtt by (auto simp: bt_trail_def split: if_splits)
  define m1 where "m1 = snd (push_vars (unat n) (?st, m'))"
  note P = push_vars_spec [OF lt(1), where m = m', folded m1_def]
  have m1: "m1 ?st = ?g" "m1 x = make_str ?st"
    using P(3) [where a = ?st] P(3) [where a = x] m' x slot_inj [of ?st 0] lt(1) by auto
  have "is_cst f" by (rule int_con_cst(2) [OF assms(4)])
  moreover have "f \<noteq> con_list" using assms(4) by (auto simp: con_list_def is_con_def tag3_def tag_consts)
  ultimately have "bp_functor3 p m = Some (q\<lparr>i_st := slot ?st (unat n)\<rparr>, m1)"
    using assms(1-3,6,7) S P(1) t
    by (simp add: bp_functor3_def functor_build_def Let_def split_def m1_def)
  moreover have "\<exists>p3 m3. bp_functor3 p2 m2 = Some (p3, m3) \<and> m3 F = f \<and> m3 N = make_int n"
    if A: "bt_arg 2 p2 m2 = Some (m1 x)" "m2 ?st = m1 ?st" "bt_arg 1 p2 m2 = Some F" "bt_arg 0 p2 m2 = Some N"
      and B: "is_var F" "is_var N" "F \<noteq> N" "unat F + 8 < unat (i_tt p2)" "unat N + 8 < unat (i_tt p2)" for p2 m2 F N
  proof -
    have v: "is_var ?st" using assms(9) is_var_slot [of "i_st p - 8" 2] by (simp add: slot_def)
    have n9: "n < 2 ^ 9" using S(4) by (simp add: word_less_nat_alt)
    have "is_str (m1 x)" "addr (m1 x) = ?st" using m1(2) addr_make [OF v] by auto
    hence "bp_functor3 p2 m2 = Some (functor_match F N f n p2 m2)"
      using A m1(1) fun_value_make_fun [OF assms(5)] arity_make_fun [OF assms(5) n9] make_con_con_value [OF assms(4)]
      by (simp add: bp_functor3_def)
    thus ?thesis using functor_match_vars [OF B] by simp
  qed
  ultimately show ?thesis using P(2) by (intro exI [of _ "q\<lparr>i_st := slot ?st (unat n)\<rparr>"] exI [of _ m1]) auto
qed

text \<open>
  functor hands out a null reference: called with a list and an unbound
  variable for the name, it binds the variable to 0, because nothing ever sets
  con_list, which stands for the functor of lists; and from then on dereferencing the
  variable reads address 0.
\<close>

lemma functor_of_list_null:
  assumes "bt_arg 2 p m = Some r" "is_list r" "bt_arg 1 p m = Some F" "is_var F" "bt_arg 0 p m = Some N" "is_var N" "F \<noteq> N"
    and "unat F + 8 < unat (i_tt p)" "unat N + 8 < unat (i_tt p)" "F \<noteq> 0"
  shows "\<exists>p' m'. bp_functor3 p m = Some (p', m') \<and> m' F = NULL \<and> m' N = make_int 2 \<and> deref_word m' F = deref_word m' NULL"
proof -
  obtain p' m' where f: "functor_match F N con_list 2 p m = (p', m')" "m' F = con_list" "m' N = make_int 2"
    using functor_match_vars [OF assms(4,6,7,8,9), of con_list 2 m] by blast
  have "bp_functor3 p m = Some (p', m')" using f(1) assms(1-3,5) by (simp add: bp_functor3_def)
  moreover have "deref_word m' F = deref_word m' NULL"
    using f(2) assms(4,10) unfolding deref_word_def con_list_def by (subst while_option_step) auto
  ultimately show ?thesis using f(2,3) by (auto simp: con_list_def)
qed

text \<open>
  arg accepts any bound third argument: when the selected argument and the
  third argument are both bound, arg succeeds without comparing them and without
  binding anything.
\<close>

lemma arg_ignores_mismatch:
  assumes "bt_arg 2 p m = Some (make_int n)" "n \<noteq> 0" "n \<le> 511" "bt_arg 1 p m = Some r" "is_str r" "n \<le> arity (m (addr r))"
    and "bt_arg 0 p m = Some b" "\<not> is_var b" "deref_word m (slot (addr r) (unat n)) = Some a" "\<not> is_var a"
  shows "bp_arg p m = Some (p, m)"
proof -
  note S = small_int [OF assms(3)]
  have k: "padd (addr r + 4) (n - 1) = slot (addr r) (unat n)" by (simp add: slot_def algebra_simps)
  have ar: "arity (m (addr r)) \<le> 511" using unat_arity_le by (simp add: word_le_nat_alt)
  have "\<not> n <s 1" using small_sless [of 1 n] assms(2,3) by (simp add: unsigned_eq_0_iff word_less_1)
  moreover have "\<not> arity (m (addr r)) <s n" using small_sless [OF assms(3) ar] assms(6) by simp
  ultimately show ?thesis using assms S(1) k by (simp add: bp_arg_def Let_def)
qed

text \<open>n list cells from the word r on; t is the word the last tail dereferences to.\<close>

inductive cells :: "store \<Rightarrow> word32 \<Rightarrow> nat \<Rightarrow> word32 \<Rightarrow> bool" for m where
  last: "\<not> is_list t \<Longrightarrow> cells m t 0 t"
| cell: "is_list r \<Longrightarrow> list_tail m r = Some u \<Longrightarrow> cells m u n t \<Longrightarrow> cells m r (Suc n) t"

lemma list_length_cells:
  assumes "cells m r n t" shows "list_length m r = Some (t, of_nat n)"
proof -
  let ?b = "\<lambda>x. case x of None \<Rightarrow> False | Some (r, n) \<Rightarrow> is_list r"
  let ?c = "\<lambda>x. Option.bind x (\<lambda>(r, n). map_option (\<lambda>t. (t, n + 1 :: word32)) (list_tail m r))"
  have "while_option ?b ?c (Some (r, k)) = Some (Some (t, k + of_nat n))" for k
    using assms
  proof (induction arbitrary: k rule: cells.induct)
    case (cell r u n t)
    have "while_option ?b ?c (Some (r, k)) = while_option ?b ?c (Some (u, k + 1))"
      using cell(1,2) by (subst while_option_step) simp_all
    thus ?case using cell.IH [of "k + 1"] by (simp add: add.assoc)
  qed (simp add: while_option_done)
  from this [of 0] show ?thesis by (simp add: list_length_def)
qed

lemma make_int_small:
  assumes "n < 2 ^ 28" shows "int_value (make_int (of_nat n)) = of_nat n"
proof -
  have u: "uint (of_nat n :: word32) = int n" using assms by (simp add: uint_nat unat_of_nat take_bit_nat_eq_self)
  have "sint (of_nat n :: word32) = int n" unfolding sint_uint u using assms by (intro signed_take_bit_int_eq_self) simp_all
  hence "signed_take_bit 28 (of_nat n :: word32) = of_nat n" using assms by (intro sint_range29) simp_all
  thus ?thesis by (simp add: int_value_make_int)
qed

text \<open>
  length returns and counts cells: on a chain of n list cells it binds an
  unbound second argument to n, and otherwise succeeds exactly when that is the
  integer n.  What the last tail is does not matter: a partial list [a|X] has length
  1, as has [a|b].
\<close>

lemma length_counts_cells:
  assumes "bt_arg 1 p m = Some r" "is_nil r \<or> is_list r" "cells m r n t" "n < 2 ^ 28" "bt_arg 0 p m = Some v"
  shows "bp_length_2 p m = Some
    (if is_var v then bind_cst v (make_int (of_nat n)) p m
     else if v = make_int (of_nat n) then (p, m) else (bt_fail p, m))"
proof -
  have "(is_int v \<and> int_value v = of_nat n) = (v = make_int (of_nat n))"
    using make_int_int_value [of v] make_int_small [OF assms(4)] by auto
  moreover have "is_int (make_int (of_nat n))" by simp
  ultimately show ?thesis
    using assms(1,2,5) list_length_cells [OF assms(3)] by (simp add: bp_length_2_def)
qed

section \<open>Names\<close>

lemma con_value_name:
  assumes "unat v + 128 < 2 ^ 28" shows "con_value (make_con (v + ASCII_SIZE)) = v + ASCII_SIZE"
proof -
  have u: "unat (v + 128) = unat v + 128" using unat_add_lt [of v 128] assms by simp
  have "v + 128 < 2 ^ 28" using u assms by (simp add: word_less_nat_alt)
  hence "uint (v + 128) < 268435456" by (simp add: word_less_def)
  hence i: "0 \<le> uint (v + 128)" "uint (v + 128) < 268435456" "- 2147483648 \<le> uint (v + 128)" "- 268435456 \<le> uint (v + 128)"
    using uint_nonnegative [of "v + 128"] by linarith+
  have "sint (v + 128) = uint (v + 128)" unfolding sint_uint using i by (intro signed_take_bit_int_eq_self) simp_all
  thus ?thesis using i(2,4) by (simp add: con_value_make_con sint_range29)
qed

text \<open>
  atom_concat joins two atoms: given two atoms of the name table and an
  unbound variable, and room in the table, it returns, the table holds the same names
  with the joined one added if it was new, and the variable is the atom spelt so.
\<close>

lemma atom_concat_joins:
  assumes "bt_arg 2 p m = Some a" "is_con a" "spells m (name_ptr p (con_value a)) s1"
    and "bt_arg 1 p m = Some b" "is_con b" "spells m (name_ptr p (con_value b)) s2"
    and "bt_arg 0 p m = Some x" "is_var x" "stack_base p \<le> x" "stack_base p \<le> i_tt p" "x \<noteq> i_tt p"
    and "name_table p m ns" "unat (name_top p) + length (s1 @ s2) < unat (stack_base p)"
    and "unat (stack_base p) + 128 < unat (name_base p) + 2 ^ 28"
  shows "\<exists>p' m'. bp_atom_concat p m = Some (p', m') \<and> status p' = status p
    \<and> name_table p' m' (if s1 @ s2 \<in> set ns then ns else ns @ [s1 @ s2])
    \<and> is_con (m' x) \<and> c_string m' (name_ptr p' (con_value (m' x))) = Some (s1 @ s2)"
proof -
  let ?s = "s1 @ s2"
  have nz: "spells m q s \<Longrightarrow> NUL \<notin> set s" for q s by (induction s arbitrary: q) auto
  have "NUL \<notin> set ?s" using nz [OF assms(3)] nz [OF assms(6)] by simp
  from search_index_spec [OF assms(12) this assms(13), of "i_st p"] obtain v p1 m1 where
    S: "search_index ?s p (i_st p) m = Some (v, p1, m1)" "name_table p1 m1 (if ?s \<in> set ns then ns else ns @ [?s])"
      "spells m1 (name_base p + v) ?s" "unat (name_base p) \<le> unat (name_base p + v)"
      "unat (name_base p + v) + length ?s < unat (name_top p1)" "p1 = p\<lparr>i_nl := 0, name_top := name_top p1\<rparr>"
      "?s \<in> set ns \<longrightarrow> name_top p1 = name_top p" "?s \<notin> set ns \<longrightarrow> name_top p1 = name_top p + of_nat (length ?s) + 1" by blast
  have f: "i_nl p1 = 0" "i_tt p1 = i_tt p" "i_bb p1 = i_bb p" "name_base p1 = name_base p" "status p1 = status p"
    using arg_cong [OF S(6), of i_nl] arg_cong [OF S(6), of i_tt] arg_cong [OF S(6), of i_bb]
      arg_cong [OF S(6), of name_base] arg_cong [OF S(6), of status] by simp_all
  have top: "unat (name_top p1) \<le> unat (stack_base p)"
  proof (cases "?s \<in> set ns")
    case False
    have "unat (name_top p + of_nat (length ?s + 1)) = unat (name_top p) + (length ?s + 1)"
      using unat_add_lt [of "name_top p" "length ?s + 1"] assms(13) unsigned_less [of "stack_base p", where ?'a = nat] by simp
    thus ?thesis using S(8) False assms(13) by (simp add: ac_simps)
  qed (use S(7) assms(13) in simp)
  let ?w = "make_con (v + ASCII_SIZE)" let ?r = "bind_cst x ?w p1 m1"
  note B = bind_cst_spec [where x = x and p = p1 and m = m1 and v = ?w, unfolded f, OF assms(11)]
  have ch: "char_at (snd ?r) q = char_at m1 q" if "unat q < unat (stack_base p)" for q
  proof -
    have "unat (q AND ADR_MASK) \<le> unat q" by (simp add: word_and_le2 word_le_nat_alt [symmetric])
    hence "q AND ADR_MASK \<noteq> x" "q AND ADR_MASK \<noteq> i_tt p" using that assms(9,10) by (auto simp: word_le_nat_alt)
    thus ?thesis using B(2) by (simp add: char_at_def)
  qed
  have tab: "name_table (fst ?r) (snd ?r) (if ?s \<in> set ns then ns else ns @ [?s])"
  proof -
    have "name_top (fst ?r) = name_top p1" by (simp add: bind_cst_def bt_bbtrail_def Let_def)
    thus ?thesis using names_cong [OF S(2) [unfolded name_table_def], of "snd ?r"] ch top B(4) f(4) by (simp add: name_table_def)
  qed
  have sp: "spells (snd ?r) (name_base p + v) ?s"
  proof (rule iffD2 [OF spells_cong S(3)])
    fix i
    assume "i \<le> length ?s"
    moreover have "unat (name_base p + v) + length ?s < 2 ^ 32" using S(5) unsigned_less [of "name_top p1", where ?'a = nat] by simp
    ultimately show "char_at (snd ?r) (name_base p + v + of_nat i) = char_at m1 (name_base p + v + of_nat i)"
      using unat_add_lt [of "name_base p + v" i] S(5) top by (intro ch) simp
  qed
  have "unat v = unat (name_base p + v) - unat (name_base p)" 
    using S(4) by (metis add_diff_cancel_left' unat_plus_simple word_le_nat_alt)
  hence vb: "unat v + 128 < 2 ^ 28" using S(4,5) top assms(14) by simp
  have w: "name_ptr (fst ?r) (con_value ?w) = name_base p + v" using con_value_name [OF vb] B(4) by (simp add: name_ptr_def f)
  have nv: "\<not> is_var a" "\<not> is_var b" "\<not> is_con x" using assms(2,5,8) not_kinds by blast+
  have "bp_atom_concat p m = Some ?r"
    using assms(1,2,4,5,7,8) nv spells_c_string [OF assms(3)] spells_c_string [OF assms(6)] S(1) f(1)
    by (simp add: bp_atom_concat_def bind_atom_def Let_def)
  thus ?thesis using tab B(1,5) w spells_c_string [OF sp] f(5)
    by (intro exI [of _ "fst ?r"] exI [of _ "snd ?r"]) simp
qed

section \<open>Concrete calls\<close>

text \<open>An imago with its three arguments at 1992, 1996 and 2000.\<close>

definition demo_caller :: icb where
  "demo_caller = (fst demo_names)\<lparr>i_st := 2000, i_tt := 3000\<rparr>"

definition demo_args :: "word32 \<Rightarrow> word32 \<Rightarrow> word32 \<Rightarrow> store \<Rightarrow> store" where
  "demo_args r1 r2 r3 m = m(1992 := r1, 1996 := r2, 2000 := r3)"

lemmas demo_call = demo_caller_def demo_args_def demo_names_def blank_icb_def bt_arg_def deref_word_def while_option_done
  kind_defs tag_def tag3_def tag_consts

lemma demo_caller_fields:
  "i_st demo_caller = 2000" "i_tt demo_caller = 3000" "name_base demo_caller = 1000" "name_top demo_caller = 1003"
  "stack_base demo_caller = 1100"
  by (simp_all add: demo_caller_def demo_names_def blank_icb_def)

theorem functor_roundtrip_witness:
  "\<exists>p1 m1. bp_functor3 demo_caller (demo_args 100 1607 19 ((\<lambda>_. 0)(100 := 100))) = Some (p1, m1)
     \<and> i_st p1 = 2000 \<and> m1 1996 = 1996 \<and> m1 2000 = 2000"
proof -
  let ?m = "demo_args 100 1607 19 ((\<lambda>_. 0)(100 := 100))"
  have a: "bt_arg 2 demo_caller ?m = Some 100" "bt_arg 1 demo_caller ?m = Some 1607" "bt_arg 0 demo_caller ?m = Some (make_int 2)"
    by (simp_all add: demo_call make_int_def)
  have b: "is_var (100 :: word32)" "is_con 1607" "con_value 1607 < 2 ^ 20" "(2 :: word32) \<noteq> 0" "(2 :: word32) \<le> 511"
    "is_var (i_st demo_caller)" "unat (100 :: word32) + 8 < unat (i_st demo_caller)"
    "unat (i_st demo_caller) + 4 * unat (2 :: word32) < unat (i_tt demo_caller)"
    by (simp_all add: demo_call con_value_def)
  have sl: "slot (i_st demo_caller - 8) (unat (2 :: word32)) = 2000" "slot (i_st demo_caller - 8) 1 = 1996" "slot (i_st demo_caller - 8) 2 = 2000"
    by (simp_all add: demo_caller_fields slot_def)
  from functor_roundtrip [OF a(1) b(1) a(2) b(2,3) a(3) b(4-8)] obtain p1 m1 where
    "bp_functor3 demo_caller ?m = Some (p1, m1)" "i_st p1 = slot (i_st demo_caller - 8) (unat (2 :: word32))"
    "\<forall>i. 1 \<le> i \<and> i \<le> unat (2 :: word32) \<longrightarrow> m1 (slot (i_st demo_caller - 8) i) = slot (i_st demo_caller - 8) i" by blast
  thus ?thesis using sl spec [of "\<lambda>i. 1 \<le> i \<and> i \<le> unat (2 :: word32) \<longrightarrow> m1 (slot (i_st demo_caller - 8) i) = slot (i_st demo_caller - 8) i" 1]
      spec [of "\<lambda>i. 1 \<le> i \<and> i \<le> unat (2 :: word32) \<longrightarrow> m1 (slot (i_st demo_caller - 8) i) = slot (i_st demo_caller - 8) i" 2] by auto
qed

lemma functor_of_list_null_witness:
  "\<exists>p' m'. bp_functor3 demo_caller (demo_args 201 1996 2000 (\<lambda>_. 0)) = Some (p', m') \<and> m' 1996 = NULL"
proof -
  let ?m = "demo_args 201 1996 2000 (\<lambda>_. 0)"
  have a: "bt_arg 2 demo_caller ?m = Some 201" "bt_arg 1 demo_caller ?m = Some 1996" "bt_arg 0 demo_caller ?m = Some 2000"
    by (simp_all add: demo_call)
  have b: "is_list 201" "is_var 1996" "is_var 2000" by (simp_all add: demo_call)
  show ?thesis using functor_of_list_null [OF a(1) b(1) a(2) b(2) a(3) b(3)] by (auto simp: demo_caller_fields)
qed

lemma arg_ignores_mismatch_witness:
  "bp_arg demo_caller (demo_args 11 202 1615 ((\<lambda>_. 0)(200 := 0x800647, 204 := 1607)))
     = Some (demo_caller, demo_args 11 202 1615 ((\<lambda>_. 0)(200 := 0x800647, 204 := 1607)))"
proof -
  let ?m = "demo_args 11 202 1615 ((\<lambda>_. 0)(200 := 0x800647, 204 := 1607))"
  have a: "bt_arg 2 demo_caller ?m = Some (make_int 1)" "bt_arg 1 demo_caller ?m = Some 202" "bt_arg 0 demo_caller ?m = Some 1615"
    by (simp_all add: demo_call make_int_def)
  have "addr 202 = 200" by (simp add: addr_def ADR_MASK_def)
  hence b: "(1 :: word32) \<noteq> 0" "(1 :: word32) \<le> 511" "is_str 202" "1 \<le> arity (?m (addr 202))" "\<not> is_var 1615"
    "deref_word ?m (slot (addr 202) (unat (1 :: word32))) = Some 1607" "\<not> is_var 1607"
    by (simp_all add: demo_call arity_def slot_def while_option_step)
  show ?thesis by (rule arg_ignores_mismatch [OF a(1) b(1,2) a(2) b(3,4) a(3) b(5-7)])
qed

lemma length_counts_cells_witness:
  "bp_length_2 demo_caller (demo_args 0 201 2000 ((\<lambda>_. 0)(200 := 1607, 204 := con_nil)))
     = Some (bind_cst 2000 (make_int 1) demo_caller (demo_args 0 201 2000 ((\<lambda>_. 0)(200 := 1607, 204 := con_nil))))"
proof -
  let ?m = "demo_args 0 201 2000 ((\<lambda>_. 0)(200 := 1607, 204 := con_nil))"
  have a: "bt_arg 1 demo_caller ?m = Some 201" "bt_arg 0 demo_caller ?m = Some 2000" by (simp_all add: demo_call)
  have "addr 201 = 200" by (simp add: addr_def ADR_MASK_def)
  hence "list_tail ?m 201 = Some con_nil" by (simp add: list_tail_def demo_call con_nil_def make_con_def)
  hence c: "cells ?m 201 (Suc 0) con_nil" by (rule cells.cell [rotated]) (simp_all add: demo_call cells.last con_nil_def make_con_def)
  have "is_nil 201 \<or> is_list 201" "Suc 0 < 2 ^ 28" "is_var 2000" by (simp_all add: demo_call)
  with length_counts_cells [OF a(1) _ c _ a(2)] show ?thesis by simp
qed

text \<open>ab with itself.\<close>

lemma atom_concat_joins_witness:
  "\<exists>p' m'. bp_atom_concat demo_caller (demo_args 1031 1031 2000 (snd demo_names)) = Some (p', m')
     \<and> name_table p' m' [''ab'', ''abab'']"
proof -
  let ?m = "demo_args 1031 1031 2000 (snd demo_names)"
  have a: "bt_arg 2 demo_caller ?m = Some 1031" "bt_arg 1 demo_caller ?m = Some 1031" "bt_arg 0 demo_caller ?m = Some 2000" "is_con 1031" "is_var 2000"
    by (simp_all add: demo_call)
  have n: "name_ptr demo_caller (con_value 1031) = 1000" by (simp add: name_ptr_def demo_caller_fields con_value_def)
  have s: "spells ?m 1000 ''ab''" by (simp add: demo_args_def demo_names_def char_at_def ADR_MASK_def char_of_def bit_0)
  have t: "name_table demo_caller ?m [''ab'']"
    by (simp add: name_table_def demo_caller_fields demo_args_def demo_names_def char_at_def ADR_MASK_def char_of_def bit_0)
  have f: "stack_base demo_caller \<le> 2000" "stack_base demo_caller \<le> i_tt demo_caller" "2000 \<noteq> i_tt demo_caller"
    "unat (name_top demo_caller) + length (''ab'' @ ''ab'') < unat (stack_base demo_caller)"
    "unat (stack_base demo_caller) + 128 < unat (name_base demo_caller) + 2 ^ 28" by (simp_all add: demo_caller_fields)
  show ?thesis using atom_concat_joins [OF a(1,4) s [folded n] a(2,4) s [folded n] a(3,5) f(1-3) t f(4,5)] by auto
qed

end
