(* ===== verification/MLVM_Creator.thy ===== *)
theory MLVM_Creator
  imports MLVM_Messages
begin

text \<open>
  The creator's loaders, creator/creator.c: load_code and load_user_file read a code
  file into a block, msg_init preloads the builtin messengers, and imago_loader,
  imago_sys_loader, imago_cloner, imago_dispatcher and imago_sys_dispatcher build
  the control block of a new imago; release_msger answers the messengers attached
  to one.  A file is the string that is left to read.  Reading a variable fscanf
  left unset, or the opcode table out of its bounds, is the fault F_Uninit.
\<close>

section \<open>Reading a code file\<close>

definition isspace :: "char \<Rightarrow> bool" where
  "isspace c = (let n = (of_char c :: nat) in n = 32 \<or> (9 \<le> n \<and> n \<le> 13))"

definition isdigit :: "char \<Rightarrow> bool" where
  "isdigit c = (let n = (of_char c :: nat) in 48 \<le> n \<and> n \<le> 57)"

definition digits_value :: "string \<Rightarrow> nat" where
  "digits_value = foldl (\<lambda>n c. 10 * n + (of_char c - 48)) 0"

text \<open>A sign that no digit follows is consumed; a number out of range saturates, as in glibc.\<close>

definition scan_sign :: "string \<Rightarrow> bool \<times> string" where
  "scan_sign fp =
     (case fp of [] \<Rightarrow> (False, [])
      | c # r \<Rightarrow> if c = CHR ''-'' then (True, r) else if c = CHR ''+'' then (False, r) else (False, fp))"

definition scan_d :: "string \<Rightarrow> word32 option \<times> string" where
  "scan_d fp =
     (let (neg, r) = scan_sign (dropWhile isspace fp); ds = takeWhile isdigit r; n = int (digits_value ds) in
      if ds = [] then (None, r)
      else (Some (word_of_int (max (- (2 ^ 31)) (min (2 ^ 31 - 1) (if neg then - n else n)))), dropWhile isdigit r))"

text \<open>fscanf with n conversions: into variables, or into consecutive words of the store.\<close>

primrec scan_vals :: "nat \<Rightarrow> string \<Rightarrow> word32 list \<times> string" where
  "scan_vals 0 fp = ([], fp)"
| "scan_vals (Suc n) fp =
     (case scan_d fp of
        (None, r) \<Rightarrow> ([], r)
      | (Some v, r) \<Rightarrow> (let (vs, r) = scan_vals n r in (v # vs, r)))"

primrec scan_cells :: "nat \<Rightarrow> addr \<Rightarrow> string \<times> store \<Rightarrow> string \<times> store" where
  "scan_cells 0 tp x = x"
| "scan_cells (Suc n) tp x =
     (let (fp, m) = x in
      case scan_d fp of
        (None, r) \<Rightarrow> (r, m)
      | (Some v, r) \<Rightarrow> scan_cells n (tp + 4) (r, m(tp := v)))"

text \<open>The type, name table size, procedures and code size that the header gives.\<close>

definition scan_header :: "string \<Rightarrow> (word32 \<times> word32 \<times> word32 \<times> word32 \<times> string) res" where
  "scan_header fp =
     (case scan_vals 6 fp of
        ([magic, ty, security, ssize, psize, csize], r) \<Rightarrow> Inr (ty, ssize, psize, csize, r)
      | _ \<Rightarrow> Inl F_Uninit)"

section \<open>load_code\<close>

text \<open>The newlines before the names; a byte 0xFF is what a char makes of EOF, and is not pushed back.\<close>

fun skip_newlines :: "string \<Rightarrow> string" where
  "skip_newlines [] = []"
| "skip_newlines (c # fp) = (if c = CHR 0x0A then skip_newlines fp else if c = CHR 0xFF then fp else c # fp)"

definition fgetc :: "string \<Rightarrow> char \<times> string" where
  "fgetc fp = (case fp of [] \<Rightarrow> (CHR 0xFF, []) | c # r \<Rightarrow> (c, r))"

definition load_names :: "addr \<Rightarrow> addr \<Rightarrow> string \<times> store \<Rightarrow> (string \<times> store) option" where
  "load_names cp stop x =
     map_option snd (while_option (\<lambda>(cp, x). cp < stop)
       (\<lambda>(cp, fp, m). let (c, r) = fgetc fp in
          (cp + 1, r, put_char cp (if c = CHR 0x0A then NUL else c) m)) (cp, x))"

text \<open>A word and an offset, which is relocated: a procedure, or a pair of a hash table.\<close>

definition load_pair :: "addr \<Rightarrow> addr \<times> string \<times> store \<Rightarrow> addr \<times> string \<times> store" where
  "load_pair base x =
     (let (tp, fp, m) = x; (r, m1) = scan_cells 2 tp (fp, m)
      in (tp + 8, r, m1(tp + 4 := padd base (m1 (tp + 4)))))"

definition load_procs :: "addr \<Rightarrow> addr \<Rightarrow> string \<times> store \<Rightarrow> (string \<times> store) option" where
  "load_procs base stop x =
     map_option snd (while_option (\<lambda>(tp, x). tp < stop) (load_pair base) (base, x))"

text \<open>The operands of a format, and which of them are offsets to relocate.\<close>

fun load_format :: "inst_type \<Rightarrow> bool list" where
  "load_format I_STATIONARY = [True]"
| "load_format I_WORKER = [True]"
| "load_format I_MESSENGER = [True]"
| "load_format I_E = [True]"
| "load_format I_O = []"
| "load_format I_N = [False]"
| "load_format I_C = [False]"
| "load_format I_F = [False]"
| "load_format I_B = [False]"
| "load_format I_I = [False]"
| "load_format I_P = [False]"
| "load_format I_R = [False, False]"
| "load_format I_2N = [False, False]"
| "load_format I_NC = [False, False]"
| "load_format I_NF = [False, False]"
| "load_format I_NI = [False, False]"
| "load_format I_3N = [False, False, False]"
| "load_format I_NR = [False, False, False]"
| "load_format I_2NF = [False, False, False]"
| "load_format I_4N = [False, False, False, False]"
| "load_format I_5N = [False, False, False, False, False]"
| "load_format I_6N = [False, False, False, False, False, False]"
| "load_format I_7N = [False, False, False, False, False, False, False]"
| "load_format I_8N = [False, False, False, False, False, False, False, False]"
| "load_format I_NE = [False, True]"
| "load_format I_2NE = [False, False, True]"
| "load_format I_NFE = [False, False, True]"
| "load_format I_2NFE = [False, False, False, True]"
| "load_format I_3NE = [False, False, False, True]"
| "load_format I_3NFE = [False, False, False, False, True]"
| "load_format I_4E = [True, True, True, True]"
| "load_format I_N4E = [False, True, True, True, True]"
| "load_format I_HTAB = [False, True]"

primrec relocate_cells :: "addr \<Rightarrow> bool list \<Rightarrow> addr \<Rightarrow> store \<Rightarrow> store" where
  "relocate_cells base [] tp m = m"
| "relocate_cells base (b # bs) tp m =
     relocate_cells base bs (tp + 4) (if b then m(tp := padd base (m tp)) else m)"

text \<open>A hash table has its number of pairs and the variable branch, then the pairs.\<close>

definition load_operands :: "addr \<Rightarrow> inst_type \<Rightarrow> addr \<times> string \<times> store \<Rightarrow> addr \<times> string \<times> store" where
  "load_operands base ty x =
     (let (tp, fp, m) = x; bs = load_format ty; n = length bs;
          (r, m1) = scan_cells n tp (fp, m); y = (padd tp (of_nat n), r, relocate_cells base bs tp m1)
      in if ty = I_HTAB then (load_pair base ^^ unat (m1 tp)) y else y)"

text \<open>The variable code keeps the last opcode where nothing more can be read.\<close>

definition load_instr ::
    "addr \<Rightarrow> addr \<times> word32 option \<times> string \<times> store \<Rightarrow> (addr \<times> word32 option \<times> string \<times> store) res" where
  "load_instr base x =
     (let (tp, code, fp, m) = x; (v, r) = scan_d fp; code = (if v = None then code else v) in
      case code of None \<Rightarrow> Inl F_Uninit
      | Some w \<Rightarrow> (case inst_of w of None \<Rightarrow> Inl F_Uninit
        | Some ty \<Rightarrow> (let (tp, y) = load_operands base ty (tp + 4, r, m(tp := w)) in Inr (tp, code, y))))"

definition load_instrs :: "addr \<Rightarrow> addr \<Rightarrow> string \<times> store \<Rightarrow> (string \<times> store) res" where
  "load_instrs base stop x =
     bind_res (bind_res (of_opt (while_option
         (\<lambda>r. case r of Inl e \<Rightarrow> False | Inr (tp, y) \<Rightarrow> tp < stop)
         (\<lambda>r. bind_res r (load_instr base)) (Inr (base, None, x)))) (\<lambda>r. r))
       (\<lambda>(tp, code, y). Inr y)"

text \<open>Every format of the table has its case: the default that answers E_UNKNOWN_OPCODE is dead.\<close>

definition load_code :: "string \<Rightarrow> icb \<Rightarrow> store \<Rightarrow> (word32 \<times> store) res" where
  "load_code fp cip m =
     bind_res (of_opt (load_names (name_base cip) (name_top cip) (skip_newlines fp, m))) (\<lambda>x.
     bind_res (of_opt (load_procs (proc_base cip) (code_base cip) x)) (\<lambda>x.
     bind_res (load_instrs (code_base cip) (name_base cip) x) (\<lambda>(r, m). Inr (ecode E_SUCCEED, m))))"

section \<open>Laying out a block\<close>

definition INIT_WORKER_STACK :: word32 where "INIT_WORKER_STACK = 128"
definition INIT_STATIONARY_STACK :: word32 where "INIT_STATIONARY_STACK = 2048"
definition FILE_SEP :: char where "FILE_SEP = CHR ''/''"
definition MSGER_HOME :: string where "MSGER_HOME = ''../msger/''"

text \<open>FILENAME_MAX is 4096; snprintf into FILENAME_MAX - 1 bytes keeps 4094 characters.\<close>

definition file_name :: "string \<Rightarrow> string" where "file_name = take 4094"

text \<open>
  What the loaders take from outside: the files, malloc, the id get_unique_appid
  gives, and the ip column of builtin_msger.
\<close>

record loading =
  k_files :: "string \<Rightarrow> string option"
  k_malloc :: "word32 \<Rightarrow> sys \<Rightarrow> addr"
  k_appid :: word32
  k_msgers :: "addr list"

text \<open>Words of the names with room for more: the division is that of an unsigned sizeof.\<close>

definition name_words :: "word32 \<Rightarrow> word32" where "name_words ssize = (ssize + NAME_EXP_SIZE) div 4"

definition place_block :: "addr \<Rightarrow> word32 \<Rightarrow> word32 \<Rightarrow> word32 \<Rightarrow> word32 \<Rightarrow> icb \<Rightarrow> icb" where
  "place_block bp tot ssize psize csize c =
     c\<lparr>block_base := bp, block_ceiling := padd bp tot, proc_base := bp, code_base := padd bp (psize * 2),
       name_base := padd bp (psize * 2 + csize), name_top := padd bp (psize * 2 + csize) + ssize\<rparr>"

text \<open>The registers of a fresh block, st given, with the first generation line on the trail.\<close>

definition start_block :: "imago_type \<Rightarrow> addr \<Rightarrow> icb \<Rightarrow> store \<Rightarrow> icb \<times> store" where
  "start_block ty st c m =
     (let b = stack_base c; tt = block_ceiling c - 4 in
      (c\<lparr>itype := ty, status := IMAGO_READY, expansions := 0, collections := 0,
         i_pp := code_base c, i_cp := code_base c, i_bb := b, i_b0 := b, i_gl := b, i_cf := b,
         i_st := st, i_af := tt, i_tt := tt - 4\<rparr>, m(tt := make_str b)))"

definition get_unique_appid :: "16 word \<Rightarrow> 16 word \<Rightarrow> word32 \<times> 16 word" where
  "get_unique_appid gen app = (push_bit 16 (scast gen) + scast app, app + 1)"

section \<open>The builtin messengers\<close>

definition builtin_msger :: "(string \<times> string) list" where
  "builtin_msger =
     [(''broadcast_messenger.lo'', ''$broadcastor''), (''cod_messenger.lo'', ''$cod_messenger''),
      (''multicast_messenger.lo'', ''$multicast_messenger''), (''oneway_messenger.lo'', ''$oneway_messenger''),
      (''paperboy_messenger.lo'', ''$paperboy''), (''postman_messenger.lo'', ''$postman''),
      (''sys_messenger.lo'', ''$sys_messenger'')]"

definition MESSENGER_CODE :: word32 where "MESSENGER_CODE = 2"

text \<open>One entry: NULL where the file does not exist; a file that cannot be loaded ends the server.\<close>

definition msg_load :: "loading \<Rightarrow> string \<Rightarrow> sys \<Rightarrow> (addr \<times> sys) res" where
  "msg_load K fname s =
     (case k_files K (MSGER_HOME @ fname) of
        None \<Rightarrow> Inr (NULL, s)
      | Some fp \<Rightarrow> bind_res (scan_header fp) (\<lambda>(ty, ssize, psize, csize, r).
          let tot = name_words ssize + psize * 2 + csize; bp = k_malloc K (tot * 4) s in
          if ty \<noteq> MESSENGER_CODE \<or> bp = NULL then Inl F_Exit
          else bind_res (icb_new s) (\<lambda>(ip, s1).
            let c = place_block bp tot ssize psize csize (blk s1 ip) in
            bind_res (load_code r c (s_mem s1)) (\<lambda>(v, m).
              if v \<noteq> ecode E_SUCCEED then Inl F_Exit
              else Inr (ip, upd_core ip (\<lambda>_. c) (s1\<lparr>s_mem := m\<rparr>))))))"

primrec msg_init_from :: "loading \<Rightarrow> (string \<times> string) list \<Rightarrow> sys \<Rightarrow> (addr list \<times> sys) res" where
  "msg_init_from K [] s = Inr ([], s)"
| "msg_init_from K (e # es) s =
     bind_res (msg_load K (fst e) s) (\<lambda>(ip, s1).
       bind_res (msg_init_from K es s1) (\<lambda>(ips, s2). Inr (ip # ips, s2)))"

definition msg_init :: "loading \<Rightarrow> sys \<Rightarrow> (addr list \<times> sys) res" where
  "msg_init K = msg_init_from K builtin_msger"

definition msg_cleanup :: "addr list \<Rightarrow> sys \<Rightarrow> addr list \<times> sys" where
  "msg_cleanup ips s =
     (map (\<lambda>_. NULL) ips, fold (\<lambda>ip s. if ip \<noteq> NULL then icb_free ip s else s) ips s)"

text \<open>The prototype of that name, NULL where there is none; its code is copied for cip.\<close>

definition find_msger :: "string \<Rightarrow> addr list \<Rightarrow> addr" where
  "find_msger mname ips =
     (case find (\<lambda>(e, ip). mname = snd e) (zip builtin_msger ips) of None \<Rightarrow> NULL | Some (e, ip) \<Rightarrow> ip)"

definition load_messenger :: "loading \<Rightarrow> string \<Rightarrow> word32 \<Rightarrow> addr \<Rightarrow> sys \<Rightarrow> (word32 \<times> sys) res" where
  "load_messenger K mname ss cip s =
     (let bip = find_msger mname (k_msgers K); b = blk s bip;
          v = INIT_MESSENGER_STACK * STACK_UNIT + pdiff (block_ceiling b) (block_base b) + ss in
      if bip = NULL then Inr (ecode E_UNKNOWN_IMAGO, s)
      else on_block cip (\<lambda>p m. map_option (\<lambda>(p, m, r). (r, p, m))
             (load_system_file b ss (k_malloc K (v * 4) s) p m)) s)"

section \<open>Loading a stationary imago\<close>

text \<open>The name becomes queen, and the host of the queen this one.\<close>

definition crown :: "env \<Rightarrow> loading \<Rightarrow> ticb \<Rightarrow> ticb" where
  "crown E K t =
     t\<lparr>ip_application := (if ip_application t = 0 then k_appid K else ip_application t), ip_name := ''queen'',
       ip_queen := \<lparr>h_name = e_localhost E, h_host_id = e_hostid E\<rparr>\<rparr>"

definition log_new_imago :: "env \<Rightarrow> addr \<Rightarrow> sys \<Rightarrow> sys res" where
  "log_new_imago E ip s =
     bind_res (log_alive (e_log_size E) (e_malloc_log E s) NULL ip s) (\<lambda>(l, s1). Inr s1)"

definition imago_loader :: "env \<Rightarrow> loading \<Rightarrow> addr \<Rightarrow> sys \<Rightarrow> (sys \<times> word32) res" where
  "imago_loader E K ip s =
     (case k_files K (file_name (h_name (ip_citizenship (s_icb s ip)) @ ip_name (s_icb s ip))) of
        None \<Rightarrow> Inr (s, ecode E_UNKNOWN_IMAGO)
      | Some fp \<Rightarrow> bind_res (scan_header fp) (\<lambda>(ty, ssize, psize, csize, r).
          let snum = name_words ssize;
              tot = snum + psize * 2 + csize + INIT_STATIONARY_STACK * STACK_UNIT;
              bp = k_malloc K (tot * 4) s in
          if ty \<noteq> 0 then Inr (s, ecode E_UNKNOWN_IMAGO)
          else if bp = NULL then Inr (s, ecode E_MEMORY_OUT)
          else
            (let c = (place_block bp tot ssize psize csize (blk s ip))
                       \<lparr>stack_base := padd bp (snum + psize * 2 + csize)\<rparr> in
             bind_res (load_code r c (s_mem s)) (\<lambda>(v, m).
               if v \<noteq> ecode E_SUCCEED then Inr (upd_core ip (\<lambda>_. c) (s\<lparr>s_mem := m\<rparr>), ecode E_UNKNOWN_OPCODE)
               else
                 (let (c2, m2) = start_block STATIONARY (stack_base c) c m in
                  bind_res (log_new_imago E ip (upd_icb ip (\<lambda>t. (crown E K t)\<lparr>core := c2\<rparr>) (s\<lparr>s_mem := m2\<rparr>)))
                    (\<lambda>s2. Inr (s2, ecode E_SUCCEED)))))))"

section \<open>Loading a worker or messenger\<close>

definition imago_type_of :: "word32 \<Rightarrow> imago_type res" where
  "imago_type_of w =
     (if w = 0 then Inr STATIONARY else if w = 1 then Inr WORKER else if w = 2 then Inr MESSENGER
      else if w = 3 then Inr SYS_MSGER else Inl F_Uninit)"

text \<open>ss words are added for the argument; a number that is no imago type is not followed.\<close>

definition load_user_file :: "loading \<Rightarrow> string \<Rightarrow> word32 \<Rightarrow> addr \<Rightarrow> sys \<Rightarrow> (word32 \<times> sys) res" where
  "load_user_file K fname ss cip s =
     (case k_files K fname of
        None \<Rightarrow> Inr (ecode E_FILE_NOT_FOUND, s)
      | Some fp \<Rightarrow> bind_res (scan_header fp) (\<lambda>(ty, ssize, psize, csize, r).
          let snum = name_words ssize;
              tot = snum + psize * 2 + csize + ss
                        + (if ty = 1 then INIT_WORKER_STACK else INIT_MESSENGER_STACK) * STACK_UNIT;
              bp = k_malloc K (tot * 4) s in
          if ty = 0 then Inr (ecode E_ILLEGAL_CREATE, s)
          else if bp = NULL then Inr (ecode E_MEMORY_OUT, s)
          else
            (let c = (place_block bp tot ssize psize csize (blk s cip))
                       \<lparr>stack_base := padd bp (snum + psize * 2 + csize)\<rparr> in
             bind_res (load_code r c (s_mem s)) (\<lambda>(v, m).
               if v \<noteq> ecode E_SUCCEED
               then Inr (ecode E_UNKNOWN_OPCODE, upd_core cip (\<lambda>_. c) (s\<lparr>s_mem := m\<rparr>))
               else bind_res (imago_type_of ty) (\<lambda>it.
                 let (c2, m2) = start_block it (stack_base c - 4) c m
                 in Inr (ecode E_SUCCEED, upd_core cip (\<lambda>_. c2) (s\<lparr>s_mem := m2\<rparr>)))))))"

text \<open>The argument at the stack top of the parent is copied; NULL where it did not fit.\<close>

definition pass_argument :: "addr \<Rightarrow> addr \<Rightarrow> sys \<Rightarrow> sys res" where
  "pass_argument ip cip s =
     bind_res (copy_term (s_mem s (i_st (blk s ip))) (name_base (blk s ip)) cip s) (\<lambda>(r, s1).
       Inr (upd_core cip (\<lambda>c. c\<lparr>i_st := (case r of None \<Rightarrow> NULL | Some a \<Rightarrow> a)\<rparr>) s1))"

definition measure_argument :: "addr \<Rightarrow> sys \<Rightarrow> (word32 \<times> sys) res" where
  "measure_argument ip s =
     bind_res (of_opt (arg_size (s_mem s (i_st (blk s ip))) (blk s ip) (s_mem s)))
       (\<lambda>(ss, m). Inr (ss, s\<lparr>s_mem := m\<rparr>))"

text \<open>What a child inherits whoever made it.\<close>

definition inherit :: "ticb \<Rightarrow> ticb \<Rightarrow> ticb" where
  "inherit t c =
     c\<lparr>ip_application := ip_application t, ip_queen := ip_queen t, ip_cin := ip_cin t, ip_cout := ip_cout t,
       ip_cerr := ip_cerr t\<rparr>"

definition at_home :: "ticb \<Rightarrow> string \<Rightarrow> string" where
  "at_home t fn = file_name (h_name (ip_citizenship t) @ fn)"

text \<open>A file name of one character is refused without freeing cip.\<close>

definition imago_sys_loader :: "env \<Rightarrow> loading \<Rightarrow> addr \<Rightarrow> sys \<Rightarrow> (sys \<times> word32) res" where
  "imago_sys_loader E K ip s =
     bind_res (icb_new s) (\<lambda>(cip, s1).
     bind_res (arg_of 1 ip s1) (\<lambda>t. bind_res (of_opt (symbol (blk s1 ip) (s_mem s1) t)) (\<lambda>nm.
     let s2 = upd_icb cip (\<lambda>c. (inherit (s_icb s1 ip) c)\<lparr>ip_name := nm\<rparr>) s1 in
     bind_res (arg_of 2 ip s2) (\<lambda>f.
     if con_value f <s ASCII_SIZE then Inr (s2, ecode E_UNKNOWN_IMAGO)
     else bind_res (of_opt (c_string (s_mem s2) (name_ptr (blk s2 ip) (con_value f)))) (\<lambda>fn.
     bind_res (measure_argument ip s2) (\<lambda>(ss, s3).
     bind_res (load_user_file K (if take 1 fn = [FILE_SEP] then file_name fn else at_home (s_icb s2 ip) fn) ss cip s3)
       (\<lambda>(r, s4).
     if r \<noteq> ecode E_SUCCEED then Inr (icb_free cip s4, r)
     else bind_res (pass_argument ip cip s4) (\<lambda>s5. bind_res (log_new_imago E cip s5) (\<lambda>s6.
     bind_res (of_opt (release_waiting_msger (icb_put_signal ENGINE_Q cip s6))) (\<lambda>s7.
     Inr (set_status IMAGO_READY ip s7, ecode E_SUCCEED)))))))))))"

section \<open>Answering attached messengers\<close>

text \<open>The answer is bound to the variable at the stack top: an atom, or a structure over it.\<close>

definition answer_atom :: "string \<Rightarrow> icb \<Rightarrow> store \<Rightarrow> (icb \<times> store) option" where
  "answer_atom nm p m =
     Option.bind (search_index nm p (i_st p) m) (\<lambda>(v, p1, m1).
       map_option (\<lambda>t. bind_cst t (make_con (v + ASCII_SIZE)) p1 m1) (bt_arg 0 p1 m1))"

definition answer_struct :: "string \<Rightarrow> string \<Rightarrow> icb \<Rightarrow> store \<Rightarrow> (icb \<times> store) option" where
  "answer_struct f nm p m =
     Option.bind (search_index f p (i_st p) m) (\<lambda>(v, p1, m1).
       let m1 = m1(i_st p1 + 4 := make_fun (v + ASCII_SIZE) 1) in
       Option.bind (search_index nm p1 (i_st p1 + 4) m1) (\<lambda>(v, p2, m2).
         let m2 = m2(i_st p2 + 8 := make_con (v + ASCII_SIZE)) in
         map_option (\<lambda>t. let (p3, m3) = bind_cst t (make_str (i_st p2 + 4)) p2 m2
                         in (p3\<lparr>i_st := padd (i_st p3) 2\<rparr>, m3)) (bt_arg 0 p2 m2)))"

definition answer :: "imago_status \<Rightarrow> string option \<Rightarrow> icb \<Rightarrow> store \<Rightarrow> (icb \<times> store) option" where
  "answer st nm =
     (if st \<in> {IMAGO_ERROR, IMAGO_DISPOSE, IMAGO_TERMINATE} then answer_atom ''deceased''
      else if st = IMAGO_MOVE_OUT then answer_struct ''moved'' (the nm)
      else if st = IMAGO_CLONING then answer_struct ''cloned'' (the nm)
      else answer_atom ''retry'')"

text \<open>The name is looked at for moved and cloned only.\<close>

definition release_one :: "addr \<Rightarrow> string option \<Rightarrow> sys \<Rightarrow> sys res" where
  "release_one ip nm s =
     (let (mip, s1) = que_first (MSQ ip) s; st = ip_status s1 ip in
      if nm = None \<and> st \<in> {IMAGO_MOVE_OUT, IMAGO_CLONING} then Inl F_Null
      else bind_res (with_block mip (answer st nm) s1) (\<lambda>s2.
        Inr (icb_put_signal ENGINE_Q mip (set_status IMAGO_READY mip s2))))"

definition release_msger :: "addr \<Rightarrow> string option \<Rightarrow> sys \<Rightarrow> sys res" where
  "release_msger ip nm s =
     bind_res (of_opt (while_option
         (\<lambda>r. case r of Inl e \<Rightarrow> False | Inr s \<Rightarrow> \<not> que_empty (s_queue s (MSQ ip)))
         (\<lambda>r. bind_res r (release_one ip nm)) (Inr s))) (\<lambda>r. r)"

section \<open>System messengers\<close>

text \<open>Whether ip has something to tell: the destination, None for everybody, and the command.\<close>

definition sys_message :: "env \<Rightarrow> addr \<Rightarrow> sys \<Rightarrow> word32 + string option \<times> string" where
  "sys_message E ip s =
     (if is_stationary (blk s ip) then Inr (None, ''kill'')
      else if \<not> is_worker (blk s ip) then Inl (ecode E_SUCCEED)
      else if h_host_id (ip_queen (s_icb s ip)) = e_hostid E then Inl (ecode E_SUCCEED)
      else if ip_status s ip \<in> {IMAGO_ERROR, IMAGO_DISPOSE, IMAGO_TERMINATE} then Inr (Some ''queen'', ''deceased'')
      else if ip_status s ip \<in> {IMAGO_CLONING, IMAGO_READY} then Inr (Some ''queen'', ''clone'')
      else Inl (ecode E_ILLEGAL_STATUS))"

text \<open>The argument [to, cmd] is built at the stack top, a reference to it above.\<close>

definition sys_argument :: "string option \<Rightarrow> string \<Rightarrow> icb \<Rightarrow> store \<Rightarrow> (icb \<times> store) option" where
  "sys_argument to cmd p m =
     (let m = m(i_st p := make_list (i_st p + 4)) in
      Option.bind
        (case to of
           None \<Rightarrow> Some (p, m(i_st p + 4 := make_ref (i_st p + 4)))
         | Some nm \<Rightarrow> map_option (\<lambda>(v, p, m). (p, m(i_st p + 4 := make_con (v + ASCII_SIZE))))
                         (search_index nm p (i_st p + 4) m)) (\<lambda>(p, m).
      let m = m(i_st p + 8 := make_list (i_st p + 12)) in
      Option.bind (search_index cmd p (i_st p + 12) m) (\<lambda>(v, p, m).
      let m = m(i_st p + 12 := make_con (v + ASCII_SIZE), i_st p + 16 := con_nil, i_st p + 20 := make_ref (i_st p)) in
      map_option (\<lambda>t. let (p, m) = bt_bbtrail t (p, m) in (p\<lparr>i_st := padd (i_st p) 5\<rparr>, m)) (bt_arg 0 p m))))"

text \<open>The fields a messenger takes over from its sender.\<close>

definition send_as :: "env \<Rightarrow> ticb \<Rightarrow> ticb \<Rightarrow> ticb" where
  "send_as E t c =
     c\<lparr>ip_name := ip_name t, ip_application := ip_application t, ip_queen := ip_queen t, ip_jumps := ip_jumps t,
       ip_citizenship := (ip_citizenship c)\<lparr>h_name := e_localhost E\<rparr>\<rparr>"

definition imago_sys_dispatcher :: "env \<Rightarrow> loading \<Rightarrow> addr \<Rightarrow> sys \<Rightarrow> (sys \<times> word32) res" where
  "imago_sys_dispatcher E K ip s =
     (case sys_message E ip s of
        Inl r \<Rightarrow> Inr (s, r)
      | Inr (to, cmd) \<Rightarrow> bind_res (icb_new s) (\<lambda>(cip, s1).
          bind_res (load_messenger K ''$sys_messenger'' 0 cip (upd_icb cip (send_as E (s_icb s1 ip)) s1)) (\<lambda>(r, s2).
            if r \<noteq> ecode E_SUCCEED then Inr (icb_free cip s2, r)
            else bind_res (with_block cip (sys_argument to cmd) (upd_core cip (\<lambda>c. c\<lparr>itype := SYS_MSGER\<rparr>) s2)) (\<lambda>s3.
              Inr (icb_put_signal ENGINE_Q cip s3, ecode E_SUCCEED)))))"

section \<open>Cloning\<close>

text \<open>Only a worker has a name of its own; a messenger keeps its place and a worker is here.\<close>

definition clone_fields :: "env \<Rightarrow> ticb \<Rightarrow> ticb \<Rightarrow> ticb" where
  "clone_fields E t c =
     (inherit t c)\<lparr>core := (core c)\<lparr>itype := itype (core t), status := IMAGO_READY,
                       expansions := expansions (core t), collections := collections (core t)\<rparr>,
       ip_jumps := ip_jumps t,
       ip_citizenship := (if is_worker (core t) then (ip_citizenship c)\<lparr>h_name := e_localhost E\<rparr> else ip_citizenship t)\<rparr>"

definition clone_name :: "addr \<Rightarrow> sys \<Rightarrow> string res" where
  "clone_name ip s =
     (if is_worker (blk s ip)
      then bind_res (arg_of 1 ip s) (\<lambda>t. of_opt (symbol (blk s ip) (s_mem s) t))
      else Inr (ip_name (s_icb s ip)))"

text \<open>A worker's clone is logged, the messengers of the parent are told and the queen is.\<close>

definition announce_clone :: "env \<Rightarrow> loading \<Rightarrow> addr \<Rightarrow> addr \<Rightarrow> sys \<Rightarrow> sys res" where
  "announce_clone E K ip cip s =
     (if is_worker (blk s cip)
      then bind_res (log_new_imago E cip s) (\<lambda>s1.
        bind_res (release_msger ip (Some (ip_name (s_icb s1 cip))) s1) (\<lambda>s2.
        bind_res (imago_sys_dispatcher E K cip s2) (\<lambda>(s3, r). of_opt (release_waiting_msger s3))))
      else Inr s)"

definition imago_cloner :: "env \<Rightarrow> loading \<Rightarrow> addr \<Rightarrow> sys \<Rightarrow> (sys \<times> word32) res" where
  "imago_cloner E K ip s =
     bind_res (icb_new s) (\<lambda>(cip, s1).
     let bp = k_malloc K (pdiff (block_ceiling (blk s1 ip)) (block_base (blk s1 ip)) * 4) s1;
         s2 = upd_core cip (\<lambda>c. c\<lparr>block_base := bp\<rparr>) s1 in
     if bp = NULL then Inr (icb_free cip s2, ecode E_MEMORY_OUT)
     else bind_res (clone_name ip s2) (\<lambda>nm.
     bind_res (with_block cip (clone_block (blk s2 ip)) (upd_icb cip (\<lambda>c. c\<lparr>ip_name := nm\<rparr>) s2)) (\<lambda>s3.
     bind_res (with_block ip (answer_atom ''parent'') (upd_icb cip (clone_fields E (s_icb s3 ip)) s3)) (\<lambda>s4.
     bind_res (with_block cip (answer_atom ''clone'') s4) (\<lambda>s5.
     bind_res (announce_clone E K ip cip s5) (\<lambda>s6.
     Inr (set_status IMAGO_READY ip (icb_put_signal ENGINE_Q cip s6), ecode E_SUCCEED)))))))"

section \<open>Dispatching a messenger\<close>

text \<open>The two arguments, one below the other, become a list at the stack top of the parent.\<close>

definition pair_arguments :: "icb \<Rightarrow> store \<Rightarrow> (icb \<times> store) option" where
  "pair_arguments p m =
     (let st = i_st p; m1 = m(st + 4 := m st) in
      Some (p\<lparr>i_st := padd st 3\<rparr>,
        m1(st := make_list (st + 4), st + 8 := con_nil, st + 12 := make_list (st - 4))))"

definition messenger_file :: "ticb \<Rightarrow> string \<Rightarrow> string" where
  "messenger_file t fn =
     (if is_stationary (core t) \<and> take 1 fn \<noteq> [FILE_SEP] \<and> take 1 fn \<noteq> ''$'' then at_home t fn else file_name fn)"

text \<open>i_nl of the parent says whether dispatch/3 found a system messenger.\<close>

definition imago_dispatcher :: "env \<Rightarrow> loading \<Rightarrow> addr \<Rightarrow> sys \<Rightarrow> (sys \<times> word32) res" where
  "imago_dispatcher E K ip s =
     bind_res (icb_new s) (\<lambda>(cip, s1).
     let t = s_icb s1 ip; s2 = upd_icb cip (\<lambda>c. send_as E t (inherit t c)) s1 in
     bind_res (arg_of 2 ip s2) (\<lambda>f.
     if con_value f <s ASCII_SIZE then Inr (s2, ecode E_UNKNOWN_IMAGO)
     else bind_res (of_opt (c_string (s_mem s2) (name_ptr (blk s2 ip) (con_value f)))) (\<lambda>fn.
     bind_res (arg_of 1 ip s2) (\<lambda>_. bind_res (measure_argument ip s2) (\<lambda>(ss, s3).
     let fname = messenger_file (s_icb s3 ip) fn in
     bind_res (if i_nl (blk s3 ip) = ecode E_SUCCEED
               then load_messenger K fname ss cip s3 else load_user_file K fname ss cip s3) (\<lambda>(r, s4).
     if r \<noteq> ecode E_SUCCEED then Inr (icb_free cip s4, r)
     else bind_res (with_block ip pair_arguments s4) (\<lambda>s5. bind_res (pass_argument ip cip s5) (\<lambda>s6.
     Inr (set_status IMAGO_READY ip (icb_put_signal ENGINE_Q cip s6), ecode E_SUCCEED)))))))))"

text \<open>The environment of the threads with these loaders.\<close>

definition with_creator :: "loading \<Rightarrow> env \<Rightarrow> env" where
  "with_creator K E =
     E\<lparr>e_loader := imago_loader E K, e_sys_loader := imago_sys_loader E K, e_cloner := imago_cloner E K,
       e_dispatcher := imago_dispatcher E K, e_release_msger := release_msger,
       e_sys_dispatcher := (\<lambda>ip s. bind_res (imago_sys_dispatcher E K ip s) (\<lambda>(s1, r). Inr s1))\<rparr>"

end
