(* ===== verification/MLVM_Code_Correct.thy ===== *)
theory MLVM_Code_Correct
  imports MLVM_Creator MLVM_Memory_Correct
begin

text \<open>
  Loading and cloning agree: the byte code load_code reads at one address, copied by
  clone_block to another, is the byte code load_code would have read there.
\<close>

section \<open>Runs of words\<close>

primrec put_words :: "addr \<Rightarrow> word32 list \<Rightarrow> store \<Rightarrow> store" where
  "put_words a [] m = m"
| "put_words a (w # ws) m = put_words (a + 4) ws (m(a := w))"

lemma put_words_append: "put_words a (us @ ws) m = put_words (padd a (of_nat (length us))) ws (put_words a us m)"
  by (induction us arbitrary: a m) (simp_all add: algebra_simps)

lemma put_words_other: "b \<notin> slots a (length ws) \<Longrightarrow> put_words a ws m b = m b"
  by (induction ws arbitrary: a m) (auto simp: slots_Suc)

lemma put_words_upd: "b \<notin> slots a (length ws) \<Longrightarrow> (put_words a ws m)(b := x) = put_words a ws (m(b := x))"
  by (induction ws arbitrary: a m) (auto simp: slots_Suc fun_upd_twist)

lemma slots_later:
  assumes "unat a + 4 * Suc n < 2 ^ 32"
  shows "a \<notin> slots (a + 4) n" "unat (a + 4) + 4 * n < 2 ^ 32" "unat (a + 4) = unat a + 4"
proof -
  have "(4 :: word32) = of_nat 4" by simp
  hence u: "unat (a + 4) = unat a + 4" using assms unat_add_lt [of a 4] by simp
  thus "unat (a + 4) + 4 * n < 2 ^ 32" "unat (a + 4) = unat a + 4" using assms by simp_all
  with u slots_above [of "a + 4" n a] show "a \<notin> slots (a + 4) n" by auto
qed

lemma put_words_first: "unat a + 4 * Suc (length ws) < 2 ^ 32 \<Longrightarrow> put_words a (w # ws) m a = w"
  by (simp add: put_words_other slots_later del: One_nat_def)

lemma words_put_words: "unat a + 4 * length ws < 2 ^ 32 \<Longrightarrow> words (put_words a ws m) a (length ws) = ws"
proof (induction ws arbitrary: a m)
  case (Cons w ws)
  have l: "unat (a + 4) + 4 * length ws < 2 ^ 32" using slots_later(2) [of a "length ws"] Cons(2) by simp
  have "put_words a (w # ws) m a = w" by (rule put_words_first) (use Cons(2) in simp)
  thus ?case using Cons(1) [OF l] by (simp add: words_Suc)
qed simp

lemma words_put_other:
  "slots b n \<inter> slots a (length ws) = {} \<Longrightarrow> words (put_words a ws m) b n = words m b n"
  by (rule words_cong) (blast intro: put_words_other)

section \<open>Programs\<close>

text \<open>An instruction as the file has it: the opcode and its operands, offsets not relocated.\<close>

type_synonym instr = "word32 \<times> word32 list"

fun wf_instr :: "instr \<Rightarrow> bool" where
  "wf_instr (w, ops) =
     (case inst_of w of None \<Rightarrow> False
      | Some ty \<Rightarrow> length ops = length (load_format ty) + (if ty = I_HTAB then 2 * unat (ops ! 0) else 0))"

fun reloc_pairs :: "addr \<Rightarrow> word32 list \<Rightarrow> word32 list" where
  "reloc_pairs base (v # off # ws) = v # padd base off # reloc_pairs base ws"
| "reloc_pairs base ws = ws"

definition reloc_format :: "addr \<Rightarrow> bool list \<Rightarrow> word32 list \<Rightarrow> word32 list" where
  "reloc_format base bs ops = map2 (\<lambda>b v. if b then padd base v else v) bs ops"

fun instr_words :: "addr \<Rightarrow> instr \<Rightarrow> word32 list" where
  "instr_words base (w, ops) =
     (case inst_of w of None \<Rightarrow> []
      | Some ty \<Rightarrow> (let n = length (load_format ty) in
          w # reloc_format base (load_format ty) (take n ops) @ reloc_pairs base (drop n ops)))"

definition code_words :: "addr \<Rightarrow> instr list \<Rightarrow> word32 list" where
  "code_words base prog = concat (map (instr_words base) prog)"

text \<open>The numbers of the file, and what is left after reading them.\<close>

primrec reads_numbers :: "string \<Rightarrow> word32 list \<Rightarrow> string \<Rightarrow> bool" where
  "reads_numbers fp [] r = (r = fp)"
| "reads_numbers fp (v # vs) r = (case scan_d fp of (x, fp1) \<Rightarrow> x = Some v \<and> reads_numbers fp1 vs r)"

definition code_numbers :: "instr list \<Rightarrow> word32 list" where
  "code_numbers prog = concat (map (\<lambda>(w, ops). w # ops) prog)"

lemma reads_append: "reads_numbers fp (us @ vs) r = (\<exists>q. reads_numbers fp us q \<and> reads_numbers q vs r)"
  by (induction us arbitrary: fp) (auto split: prod.splits)

lemma length_reloc_pairs [simp]: "length (reloc_pairs base ws) = length ws"
  by (induction base ws rule: reloc_pairs.induct) simp_all

lemma length_reloc_format [simp]: "length bs = length ops \<Longrightarrow> length (reloc_format base bs ops) = length ops"
  by (simp add: reloc_format_def)

lemma length_instr_words: "wf_instr (w, ops) \<Longrightarrow> length (instr_words base (w, ops)) = Suc (length ops)"
  by (auto simp: Let_def reloc_format_def split: option.splits if_splits)

lemma length_code_words: "list_all wf_instr prog \<Longrightarrow> length (code_words b prog) = length (code_numbers prog)"
proof (induction prog)
  case (Cons i prog)
  thus ?case using length_instr_words [of "fst i" "snd i" b] by (cases i) (simp add: code_words_def code_numbers_def)
qed (simp add: code_words_def code_numbers_def)

section \<open>Loading\<close>

lemma scan_cells_words: "reads_numbers fp vs r \<Longrightarrow> scan_cells (length vs) tp (fp, m) = (r, put_words tp vs m)"
  by (induction vs arbitrary: fp tp m) (auto split: prod.splits option.splits)

lemma relocate_words:
  assumes "unat tp + 4 * length vs < 2 ^ 32" "length bs = length vs"
  shows "relocate_cells base bs tp (put_words tp vs m) = put_words tp (reloc_format base bs vs) m"
  using assms
proof (induction vs arbitrary: bs tp m)
  case (Cons v vs)
  obtain b cs where b: "bs = b # cs" "length cs = length vs" using Cons(3) by (cases bs) auto
  have l: "tp \<notin> slots (tp + 4) (length vs)" "unat (tp + 4) + 4 * length vs < 2 ^ 32"
    using slots_later [of tp "length vs"] Cons(2) by auto
  have "put_words tp (v # vs) m tp = v" by (rule put_words_first) (use Cons(2) in simp)
  hence "(if b then (put_words tp (v # vs) m)(tp := padd base (put_words tp (v # vs) m tp)) else put_words tp (v # vs) m)
      = put_words (tp + 4) vs (m(tp := if b then padd base v else v))"
    using put_words_upd [OF l(1)] by simp
  hence "relocate_cells base bs tp (put_words tp (v # vs) m)
      = relocate_cells base cs (tp + 4) (put_words (tp + 4) vs (m(tp := if b then padd base v else v)))"
    by (simp only: b(1) relocate_cells.simps)
  also have "\<dots> = put_words (tp + 4) (reloc_format base cs vs) (m(tp := if b then padd base v else v))"
    by (rule Cons(1) [OF l(2) b(2)])
  finally show ?case by (simp only: b(1) reloc_format_def zip_Cons_Cons list.map prod.case put_words.simps)
qed (simp add: reloc_format_def)

lemma load_pairs_words:
  assumes "reads_numbers fp vs r" "length vs = 2 * k"
  shows "(load_pair base ^^ k) (tp, fp, m) = (padd tp (of_nat (2 * k)), r, put_words tp (reloc_pairs base vs) m)"
  using assms
proof (induction k arbitrary: fp vs tp m)
  case (Suc k)
  obtain v off ws where vs: "vs = v # off # ws" "length ws = 2 * k"
    using Suc(3) by (cases vs; cases "tl vs") auto
  obtain q where q: "reads_numbers fp [v, off] q" "reads_numbers q ws r"
    using Suc(2) reads_append [of fp "[v, off]" ws r] vs by auto
  have "load_pair base (tp, fp, m) = (tp + 8, q, m(tp := v, tp + 4 := padd base off))"
    using scan_cells_words [OF q(1), of tp m] by (simp add: load_pair_def numeral_2_eq_2)
  thus ?case using Suc(1) [OF q(2) vs(2)]
    by (simp add: funpow_Suc_right vs(1) algebra_simps fun_upd_def del: funpow.simps)
qed simp

lemma load_operands_words:
  assumes "inst_of w = Some ty" "wf_instr (w, ops)" "reads_numbers fp ops r" "unat tp + 4 * length ops < 2 ^ 32"
  shows "load_operands base ty (tp, fp, m)
    = (padd tp (of_nat (length ops)), r, put_words tp (tl (instr_words base (w, ops))) m)"
proof -
  define n where "n = length (load_format ty)"
  define us where "us = take n ops"
  define vs where "vs = drop n ops"
  have le: "n \<le> length ops" and len: "length us = n" "ops = us @ vs"
    using assms(1,2) by (auto simp: n_def us_def vs_def)
  obtain q where q: "reads_numbers fp us q" "reads_numbers q vs r" using assms(3) reads_append len(2) by metis
  have s: "scan_cells n tp (fp, m) = (q, put_words tp us m)" using scan_cells_words [OF q(1)] len(1) by simp
  have rel: "relocate_cells base (load_format ty) tp (put_words tp us m)
      = put_words tp (reloc_format base (load_format ty) us) m"
    by (rule relocate_words) (use assms(4) le len(1) in \<open>simp_all add: n_def\<close>)
  have tl: "tl (instr_words base (w, ops)) = reloc_format base (load_format ty) us @ reloc_pairs base vs"
    using assms(1) by (simp add: Let_def n_def us_def vs_def)
  have ln: "length (reloc_format base (load_format ty) us) = n" using len(1) by (simp add: n_def)
  have run: "load_operands base ty (tp, fp, m)
      = (let y = (padd tp (of_nat n), q, put_words tp (reloc_format base (load_format ty) us) m)
         in if ty = I_HTAB then (load_pair base ^^ unat (put_words tp us m tp)) y else y)"
    by (simp only: load_operands_def Let_def prod.case n_def [symmetric] s rel)
  show ?thesis
  proof (cases "ty = I_HTAB")
    case True
    have n: "n = 2" by (simp add: n_def True)
    have k: "length vs = 2 * unat (ops ! 0)" using assms(1,2) n le by (simp add: vs_def True)
    obtain c us' where us: "us = c # us'" using len(1) n by (cases us) auto
    have "put_words tp us m tp = c" unfolding us by (rule put_words_first) (use assms(4) len us in auto)
    hence c: "put_words tp us m tp = ops ! 0" using len(2) us by simp
    have "load_operands base ty (tp, fp, m) = (load_pair base ^^ unat (ops ! 0))
        (padd tp (of_nat n), q, put_words tp (reloc_format base (load_format ty) us) m)"
      unfolding run Let_def c if_P [OF True] ..
    also have "\<dots> = (padd (padd tp (of_nat n)) (of_nat (2 * unat (ops ! 0))), r,
        put_words (padd tp (of_nat n)) (reloc_pairs base vs) (put_words tp (reloc_format base (load_format ty) us) m))"
      by (rule load_pairs_words [OF q(2) k])
    finally show ?thesis
      using k len unfolding tl put_words_append ln by (simp add: algebra_simps)
  next
    case False
    hence "vs = []" "length ops = n" using assms(1,2) by (simp_all add: vs_def n_def)
    thus ?thesis using q len unfolding run Let_def tl if_not_P [OF False] by simp
  qed
qed

lemma load_instr_words:
  assumes "wf_instr (w, ops)" "reads_numbers fp (w # ops) r" "unat tp + 4 * Suc (length ops) < 2 ^ 32"
  shows "load_instr base (tp, code, fp, m)
    = Inr (padd tp (of_nat (Suc (length ops))), Some w, r, put_words tp (instr_words base (w, ops)) m)"
proof -
  obtain ty where ty: "inst_of w = Some ty" using assms(1) by (cases "inst_of w") auto
  obtain q where q: "scan_d fp = (Some w, q)" "reads_numbers q ops r" using assms(2) by (auto split: prod.splits)
  have l: "unat (tp + 4) + 4 * length ops < 2 ^ 32" using slots_later(2) [OF assms(3)] .
  have "instr_words base (w, ops) = w # tl (instr_words base (w, ops))" using ty by (simp add: Let_def)
  hence "put_words tp (instr_words base (w, ops)) m = put_words (tp + 4) (tl (instr_words base (w, ops))) (m(tp := w))"
    by (metis put_words.simps(2))
  thus ?thesis
    using load_operands_words [OF ty assms(1) q(2) l, of base "m(tp := w)"] ty q(1)
    by (simp add: load_instr_def Let_def algebra_simps)
qed

definition load_while :: "addr \<Rightarrow> addr \<Rightarrow> (addr \<times> word32 option \<times> string \<times> store) res
    \<Rightarrow> (addr \<times> word32 option \<times> string \<times> store) res option" where
  "load_while base stop = while_option (\<lambda>r. case r of Inl e \<Rightarrow> False | Inr (tp, y) \<Rightarrow> tp < stop)
     (\<lambda>r. bind_res r (load_instr base))"

lemma load_while_step:
  "tp < stop \<Longrightarrow> load_while base stop (Inr (tp, y)) = load_while base stop (load_instr base (tp, y))"
  unfolding load_while_def by (subst while_option_unfold) simp

lemma load_while_end: "\<not> tp < stop \<Longrightarrow> load_while base stop (Inr (tp, y)) = Some (Inr (tp, y))"
  unfolding load_while_def by (subst while_option_unfold) simp

text \<open>The loop gets past a program the file holds, short of the end of the block or up to it.\<close>

lemma load_prefix:
  assumes "list_all wf_instr prog" "reads_numbers fp (code_numbers prog) r"
    and "unat tp + 4 * (length (code_words base prog) + k) < 2 ^ 32"
    and "stop = padd tp (of_nat (length (code_words base prog) + k))"
  shows "load_while base stop (Inr (tp, code, fp, m))
    = load_while base stop (Inr (padd tp (of_nat (length (code_words base prog))),
        (if prog = [] then code else Some (fst (last prog))), r, put_words tp (code_words base prog) m))"
  using assms
proof (induction prog arbitrary: fp tp code m)
  case Nil
  thus ?case by (simp add: code_words_def code_numbers_def)
next
  case (Cons i prog)
  obtain w ops where i: "i = (w, ops)" by fastforce
  have wf: "wf_instr (w, ops)" "list_all wf_instr prog" using Cons(2) i by simp_all
  obtain q where q: "reads_numbers fp (w # ops) q" "reads_numbers q (code_numbers prog) r"
    using Cons(3) reads_append [of fp "w # ops" "code_numbers prog" r] by (auto simp: code_numbers_def i)
  let ?n = "Suc (length ops)" and ?k = "length (code_words base prog)"
  have n: "length (instr_words base i) = ?n" using length_instr_words [OF wf(1)] i by simp
  have cw: "code_words base (i # prog) = instr_words base i @ code_words base prog" by (simp add: code_words_def)
  have b: "unat tp + 4 * (?n + ?k + k) < 2 ^ 32" using Cons(4) by (simp add: cw n)
  let ?tp = "padd tp (of_nat ?n)"
  have step: "load_instr base (tp, code, fp, m) = Inr (?tp, Some w, q, put_words tp (instr_words base i) m)"
    using load_instr_words [OF wf(1) q(1), of tp base code m] b i by simp
  have u: "unat ?tp = unat tp + 4 * ?n"
    using unat_add_lt [of tp "4 * ?n"] b by simp
  have lt: "tp < stop" "stop = padd ?tp (of_nat (?k + k))"
    using unat_add_lt [of tp "4 * (?n + ?k + k)"] b Cons(5)
    by (simp_all add: word_less_nat_alt cw n algebra_simps)
  have pw: "put_words ?tp (code_words base prog) (put_words tp (instr_words base i) m)
      = put_words tp (code_words base (i # prog)) m"
    by (simp only: cw put_words_append n)
  have e: "padd ?tp (of_nat ?k) = padd tp (of_nat (length (code_words base (i # prog))))"
    by (simp add: cw n algebra_simps)
  have l: "(if prog = [] then Some w else Some (fst (last prog)))
      = (if i # prog = [] then code else Some (fst (last (i # prog))))" by (simp add: i)
  have "load_while base stop (Inr (?tp, Some w, q, put_words tp (instr_words base i) m))
      = load_while base stop (Inr (padd ?tp (of_nat ?k), (if prog = [] then Some w else Some (fst (last prog))), r,
          put_words ?tp (code_words base prog) (put_words tp (instr_words base i) m)))"
    by (rule Cons(1) [OF wf(2) q(2)]) (use u b lt(2) in simp_all)
  thus ?case unfolding load_while_step [OF lt(1)] step pw e l .
qed

lemma load_instrs_while:
  "load_instrs base stop (fp, m)
    = bind_res (bind_res (of_opt (load_while base stop (Inr (base, None, fp, m)))) (\<lambda>r. r)) (\<lambda>(tp, code, y). Inr y)"
  by (simp add: load_instrs_def load_while_def)

lemma code_loads:
  assumes "list_all wf_instr prog" "reads_numbers fp (code_numbers prog) r"
    and "unat base + 4 * length (code_words base prog) < 2 ^ 32"
  shows "load_instrs base (padd base (of_nat (length (code_words base prog)))) (fp, m)
    = Inr (r, put_words base (code_words base prog) m)"
  using load_prefix [OF assms(1,2), of base base 0 _ None m] assms(3)
  by (simp add: load_instrs_while load_while_end split: prod.splits)

text \<open>Where no number is left, an opcode without operands is stored again and again.\<close>

lemma load_repeat:
  assumes "inst_of w = Some I_O" "dropWhile isspace r = []" "unat tp + 4 * k < 2 ^ 32" "stop = padd tp (of_nat k)"
  shows "\<exists>q. load_while base stop (Inr (tp, Some w, r, m)) = Some (Inr (stop, Some w, q, put_words tp (replicate k w) m))"
  using assms(2-4)
proof (induction k arbitrary: tp r m)
  case 0
  thus ?case by (simp add: load_while_end)
next
  case (Suc k)
  have u: "unat (tp + 4) = unat tp + 4" "unat (tp + 4) + 4 * k < 2 ^ 32"
    using slots_later(2,3) [of tp k] Suc(3) by simp_all
  have lt: "tp < stop" using unat_add_lt [of tp "4 * Suc k"] Suc(3,4) by (simp add: word_less_nat_alt)
  have "scan_d r = (None, [])" unfolding scan_d_def Suc(2) by (simp add: scan_sign_def)
  hence "load_instr base (tp, Some w, r, m) = Inr (tp + 4, Some w, [], m(tp := w))"
    using assms(1) by (simp add: load_instr_def load_operands_def)
  moreover have "stop = padd (tp + 4) (of_nat k)" using Suc(4) by (simp add: algebra_simps)
  from Suc(1) [OF dropWhile.simps(1) u(2) this, of "m(tp := w)"]
  obtain q where "load_while base stop (Inr (tp + 4, Some w, [], m(tp := w)))
      = Some (Inr (stop, Some w, q, put_words (tp + 4) (replicate k w) (m(tp := w))))" by blast
  ultimately show ?case unfolding load_while_step [OF lt] replicate_Suc put_words.simps by metis
qed

text \<open>
  Claim C22.  A truncated code file is loaded.  When the file ends before the code
  size its header announces, fscanf fails but load_code goes on with the opcode it
  read last: if that instruction has no operands, the rest of the code is filled
  with copies of it, and the result is still E_SUCCEED.
\<close>

theorem truncated_code_loads:
  assumes "list_all wf_instr prog" "prog \<noteq> []" "last prog = (w, [])" "inst_of w = Some I_O"
    and "reads_numbers fp (code_numbers prog) r" "dropWhile isspace r = []"
    and "unat base + 4 * (length (code_numbers prog) + k) < 2 ^ 32"
  shows "\<exists>q. load_instrs base (padd base (of_nat (length (code_numbers prog) + k))) (fp, m)
    = Inr (q, put_words base (code_words base prog @ replicate k w) m)"
proof -
  let ?n = "length (code_words base prog)" and ?m = "put_words base (code_words base prog) m"
  let ?stop = "padd base (of_nat (?n + k))" and ?tp = "padd base (of_nat ?n)"
  have n: "length (code_numbers prog) = ?n" using length_code_words [OF assms(1)] by simp
  have "load_while base ?stop (Inr (base, None, fp, m)) = load_while base ?stop (Inr (?tp, Some w, r, ?m))"
    using load_prefix [OF assms(1,5) _ refl, of base base k None m] assms(2,3,7) n by simp
  moreover have "unat ?tp + 4 * k < 2 ^ 32" using unat_add_lt [of base "4 * ?n"] assms(7) n by simp
  then obtain q where "load_while base ?stop (Inr (?tp, Some w, r, ?m))
      = Some (Inr (?stop, Some w, q, put_words ?tp (replicate k w) ?m))"
    using load_repeat [OF assms(4,6), of ?tp k ?stop base ?m] by (auto simp: algebra_simps)
  ultimately show ?thesis unfolding n by (auto simp: load_instrs_while put_words_append)
qed

section \<open>Copying\<close>

text \<open>The operands adjust_code walks over are those load_code reads.\<close>

lemma adjust_format:
  "ty \<noteq> I_HTAB \<Longrightarrow> adjust_code ty = map (\<lambda>b. if b then IADJUST else IDIRECT) (False # load_format ty)"
  by (cases ty) simp_all

definition reloc_by :: "word32 \<Rightarrow> bool list \<Rightarrow> word32 list \<Rightarrow> word32 list" where
  "reloc_by d bs ws = map2 (\<lambda>b v. if b then padd v d else v) bs ws"

lemma reloc_by_format: "reloc_by d bs (reloc_format base bs ops) = reloc_format (padd base d) bs ops"
  by (induction bs ops rule: list_induct2') (simp_all add: reloc_by_def reloc_format_def algebra_simps)

lemma copy_actions:
  assumes "slots tp1 (length bs) \<inter> slots tp2 (length bs) = {}"
    and "unat tp1 + 4 * length bs < 2 ^ 32" "unat tp2 + 4 * length bs < 2 ^ 32"
  shows "fold (c_action d) (map (\<lambda>b. if b then IADJUST else IDIRECT) bs) (tp1, tp2, m)
    = (padd tp1 (of_nat (length bs)), padd tp2 (of_nat (length bs)),
       put_words tp1 (reloc_by d bs (words m tp2 (length bs))) m)"
  using assms
proof (induction bs arbitrary: tp1 tp2 m)
  case (Cons b bs)
  let ?w = "if b then padd (m tp2) d else m tp2"
  have l: "slots (tp1 + 4) (length bs) \<inter> slots (tp2 + 4) (length bs) = {}"
    "tp1 \<notin> slots (tp2 + 4) (length bs)"
    using Cons(2) by (auto simp: slots_Suc)
  have "words (m(tp1 := ?w)) (tp2 + 4) (length bs) = words m (tp2 + 4) (length bs)"
    by (rule words_cong) (use l(2) in auto)
  moreover have "c_action d (if b then IADJUST else IDIRECT) (tp1, tp2, m) = (tp1 + 4, tp2 + 4, m(tp1 := ?w))" by simp
  ultimately show ?case
    using Cons(1) [of "tp1 + 4" "tp2 + 4" "m(tp1 := ?w)"] l(1) slots_later(2) [of tp1 "length bs"]
      slots_later(2) [of tp2 "length bs"] Cons(3,4)
    by (simp add: words_Suc reloc_by_def algebra_simps fun_upd_def)
qed (simp add: reloc_by_def)

text \<open>A hash table is walked as words of which every second is an offset.\<close>

definition pairs_format :: "nat \<Rightarrow> bool list" where
  "pairs_format k = concat (replicate k [False, True])"

abbreviation action :: "bool \<Rightarrow> operand_action" where "action b \<equiv> (if b then IADJUST else IDIRECT)"

lemma length_pairs_format [simp]: "length (pairs_format k) = 2 * k"
  by (induction k) (simp_all add: pairs_format_def)

lemma hash_entries_fold: "c_hash_entries d k x = fold (c_action d) (map action (pairs_format k)) x"
proof (induction k arbitrary: x)
  case (Suc k)
  obtain tp1 tp2 m where "x = (tp1, tp2, m)" by (metis prod_cases3)
  thus ?case using Suc by (simp add: pairs_format_def Let_def algebra_simps)
qed (simp add: pairs_format_def)

lemma pairs_words: "length ws = 2 * k \<Longrightarrow> reloc_pairs base ws = reloc_format base (pairs_format k) ws"
proof (induction k arbitrary: ws)
  case (Suc k)
  then obtain v off us where "ws = v # off # us" "length us = 2 * k" by (cases ws; cases "tl ws") auto
  thus ?case using Suc(1) [of us] by (simp add: pairs_format_def reloc_format_def)
qed (simp add: pairs_format_def reloc_format_def)

fun instr_format :: "instr \<Rightarrow> bool list" where
  "instr_format (w, ops) =
     (case inst_of w of None \<Rightarrow> []
      | Some ty \<Rightarrow> False # load_format ty @ (if ty = I_HTAB then pairs_format (unat (ops ! 0)) else []))"

lemma instr_words_format:
  assumes "wf_instr (w, ops)"
  shows "instr_words base (w, ops) = reloc_format base (instr_format (w, ops)) (w # ops)"
    "length (instr_format (w, ops)) = Suc (length ops)"
proof -
  obtain ty where ty: "inst_of w = Some ty" using assms by (cases "inst_of w") auto
  let ?n = "length (load_format ty)"
  have le: "?n \<le> length ops" using assms ty by simp
  have "reloc_format base (load_format ty @ fs) (take ?n ops @ drop ?n ops)
      = reloc_format base (load_format ty) (take ?n ops) @ reloc_format base fs (drop ?n ops)" for fs
    unfolding reloc_format_def using le by (subst zip_append) simp_all
  hence a: "reloc_format base (load_format ty @ fs) ops
      = reloc_format base (load_format ty) (take ?n ops) @ reloc_format base fs (drop ?n ops)" for fs by simp
  have "reloc_pairs base (drop ?n ops) = reloc_format base (if ty = I_HTAB then pairs_format (unat (ops ! 0)) else []) (drop ?n ops)"
    using assms ty pairs_words [of "drop ?n ops" "unat (ops ! 0)" base] by (auto simp: reloc_format_def)
  thus "instr_words base (w, ops) = reloc_format base (instr_format (w, ops)) (w # ops)"
    using ty a by (simp add: Let_def reloc_format_def)
  show "length (instr_format (w, ops)) = Suc (length ops)" using assms ty by simp
qed

lemma copy_instr:
  assumes "wf_instr (w, ops)" "words m tp2 (Suc (length ops)) = instr_words base (w, ops)"
    and "slots tp1 (Suc (length ops)) \<inter> slots tp2 (Suc (length ops)) = {}"
    and "unat tp1 + 4 * Suc (length ops) < 2 ^ 32" "unat tp2 + 4 * Suc (length ops) < 2 ^ 32"
  shows "inst_of (m tp2) = inst_of w \<and> (\<forall>ty. inst_of w = Some ty \<longrightarrow>
    fold (c_action d) (adjust_code ty) (tp1, tp2, m)
      = (padd tp1 (of_nat (Suc (length ops))), padd tp2 (of_nat (Suc (length ops))),
         put_words tp1 (instr_words (padd base d) (w, ops)) m))"
proof -
  obtain ty where ty: "inst_of w = Some ty" using assms(1) by (cases "inst_of w") auto
  let ?bs = "instr_format (w, ops)"
  have len: "length ?bs = Suc (length ops)" by (rule instr_words_format(2) [OF assms(1)])
  have w: "m tp2 = w" "ops \<noteq> [] \<Longrightarrow> words m (tp2 + 4) (length ops) = tl (instr_words base (w, ops))"
    using assms(2) ty by (auto simp: words_Suc Let_def)
  have f: "fold (c_action d) (map action ?bs) (tp1, tp2, m)
      = (padd tp1 (of_nat (Suc (length ops))), padd tp2 (of_nat (Suc (length ops))),
         put_words tp1 (instr_words (padd base d) (w, ops)) m)"
    using copy_actions [of tp1 ?bs tp2 d m] assms(3-5)
    by (simp only: len assms(2) instr_words_format(1) [OF assms(1)] reloc_by_format)
  have "fold (c_action d) (adjust_code ty) (tp1, tp2, m) = fold (c_action d) (map action ?bs) (tp1, tp2, m)"
  proof (cases "ty = I_HTAB")
    case False
    thus ?thesis using ty by (simp add: adjust_format)
  next
    case True
    have "2 \<le> length ops" using assms(1) ty True by simp
    then obtain c v us where ops: "ops = c # v # us" by (cases ops; cases "tl ops") auto
    have c: "m (tp2 + 4) = c" using assms(2) ty True
      by (simp add: words_Suc Let_def ops reloc_format_def)
    have "tp1 \<noteq> tp2 + 4" using assms(3) by (auto simp: slots_Suc ops)
    hence "c_action d IHASH (tp1, tp2, m) = fold (c_action d) (map action (False # False # True # pairs_format (unat c))) (tp1, tp2, m)"
      using c by (simp add: Let_def hash_entries_fold algebra_simps)
    thus ?thesis using ty True ops by simp
  qed
  thus ?thesis using f ty w(1) by simp
qed

lemma copy_code_loop:
  assumes "list_all wf_instr prog" "words m tp2 n = code_words base prog" "n = length (code_words base prog)"
    and "slots tp1 n \<inter> slots tp2 n = {}" "unat tp1 + 4 * n < 2 ^ 32" "unat tp2 + 4 * n < 2 ^ 32"
    and "stop = padd tp1 (of_nat n)"
  shows "copy_instrs d stop tp1 tp2 m = Some (put_words tp1 (code_words (padd base d) prog) m)"
  using assms
proof (induction prog arbitrary: tp1 tp2 m n)
  case Nil
  thus ?case by (subst copy_instrs_def, subst while_option_unfold) (simp add: code_words_def)
next
  case (Cons i prog)
  obtain w ops where i: "i = (w, ops)" by fastforce
  have wf: "wf_instr (w, ops)" "list_all wf_instr prog" using Cons(2) i by simp_all
  let ?n = "Suc (length ops)" and ?k = "length (code_words base prog)"
  have l: "length (instr_words base i) = ?n" "length (instr_words (padd base d) i) = ?n"
    using length_instr_words [OF wf(1)] i by simp_all
  have cw: "code_words b (i # prog) = instr_words b i @ code_words b prog" for b by (simp add: code_words_def)
  have n: "n = ?n + ?k" using Cons(4) by (simp add: cw l)
  let ?a = "padd tp1 (of_nat ?n)" and ?b = "padd tp2 (of_nat ?n)"
  let ?m = "put_words tp1 (instr_words (padd base d) i) m"
  have ws: "words m tp2 ?n = instr_words base i" "words m ?b ?k = code_words base prog"
    using Cons(3) l(1) unfolding n words_append cw by (simp_all add: append_eq_append_conv)
  have dj: "slots tp1 ?n \<inter> slots tp2 ?n = {}" "slots ?a ?k \<inter> slots ?b ?k = {}" "slots ?b ?k \<inter> slots tp1 ?n = {}"
    using Cons(5) unfolding n slots_split by blast+
  have u: "unat ?a = unat tp1 + 4 * ?n" "unat ?b = unat tp2 + 4 * ?n" "unat stop = unat tp1 + 4 * n"
    using unat_add_lt [of tp1 "4 * ?n"] unat_add_lt [of tp2 "4 * ?n"] unat_add_lt [of tp1 "4 * n"] Cons(6-8) n
    by simp_all
  obtain ty where ty: "inst_of w = Some ty" using wf(1) by (cases "inst_of w") auto
  have step: "inst_of (m tp2) = Some ty" "fold (c_action d) (adjust_code ty) (tp1, tp2, m) = (?a, ?b, ?m)"
    using copy_instr [OF wf(1), of m tp2 base tp1 d] ws(1) dj(1) Cons(6,7) ty n by (simp_all add: i)
  have lt: "tp1 < stop" using u(3) n by (simp add: word_less_nat_alt)
  have "copy_instrs d stop tp1 tp2 m = copy_instrs d stop ?a ?b ?m"
    using lt step unfolding copy_instrs_def by (subst while_option_unfold) simp
  also have "\<dots> = Some (put_words ?a (code_words (padd base d) prog) ?m)"
  proof (rule Cons(1) [OF wf(2) _ refl])
    show "words ?m ?b ?k = code_words base prog"
      using words_put_other [of ?b ?k tp1 "instr_words (padd base d) i" m] dj(3) ws(2) by (simp add: l)
    show "stop = padd ?a (of_nat ?k)" using Cons(8) n by (simp add: algebra_simps)
  qed (use dj(2) u Cons(6,7) n in simp_all)
  finally show ?case by (simp only: cw put_words_append l)
qed

text \<open>
  Claim C11.  Loading and cloning agree.  A file that holds the numbers of a program,
  read by load_code's loop into a block and then copied by clone_block's loop to a
  block a distance d away, leaves there exactly the words that reading the file at
  that place would have left: the two walks over the 33 instruction formats and
  the hash tables, written twice in the code, relocate the same words by the same
  amount.
\<close>

theorem load_then_clone:
  assumes "list_all wf_instr prog" "reads_numbers fp (code_numbers prog) r" "n = length (code_numbers prog)"
    and "slots old n \<inter> slots (padd old d) n = {}" "unat old + 4 * n < 2 ^ 32" "unat (padd old d) + 4 * n < 2 ^ 32"
  shows "\<exists>m1 m2 m3. load_instrs old (padd old (of_nat n)) (fp, m) = Inr (r, m1)
    \<and> copy_instrs d (padd (padd old d) (of_nat n)) (padd old d) old m1 = Some m2
    \<and> load_instrs (padd old d) (padd (padd old d) (of_nat n)) (fp, m) = Inr (r, m3)
    \<and> words m2 (padd old d) n = words m3 (padd old d) n"
proof -
  let ?new = "padd old d"
  let ?m1 = "put_words old (code_words old prog) m"
  have l: "length (code_words b prog) = n" for b using length_code_words [OF assms(1)] assms(3) by simp
  have load: "load_instrs b (padd b (of_nat n)) (fp, m) = Inr (r, put_words b (code_words b prog) m)"
    if "unat b + 4 * n < 2 ^ 32" for b
    using code_loads [OF assms(1,2), of b m] that unfolding l .
  have here: "words (put_words b (code_words b prog) x) b n = code_words b prog" if "unat b + 4 * n < 2 ^ 32" for b x
    using words_put_words [of b "code_words b prog" x] that unfolding l .
  have "copy_instrs d (padd ?new (of_nat n)) ?new old ?m1 = Some (put_words ?new (code_words ?new prog) ?m1)"
    by (rule copy_code_loop [OF assms(1) here [OF assms(5)] l [symmetric] _ assms(6,5) refl]) (use assms(4) in blast)
  with load [OF assms(5)] load [OF assms(6)] show ?thesis
    using here [OF assms(6)] by (intro exI conjI) (assumption | simp only:)+
qed

text \<open>noop, a call of label 2, a hash table with one pair, fail.\<close>

definition demo_prog :: "instr list" where
  "demo_prog = [(0, []), (3, [2]), (136, [1, 4, 7, 9]), (16, [])]"

definition demo_file :: string where "demo_file = ''0 3 2 136 1 4 7 9 16 ''"

lemma demo_file_reads: "reads_numbers demo_file (code_numbers demo_prog) '' ''" by code_simp

lemma demo_prog_wf: "list_all wf_instr demo_prog" by code_simp

theorem load_then_clone_witness:
  "\<exists>m1 m2 m3. load_instrs 400 (padd 400 9) (demo_file, \<lambda>_. 0) = Inr ('' '', m1)
    \<and> copy_instrs 100 (padd 800 9) 800 400 m1 = Some m2
    \<and> load_instrs 800 (padd 800 9) (demo_file, \<lambda>_. 0) = Inr ('' '', m3) \<and> words m2 800 9 = words m3 800 9"
proof -
  have n: "9 = length (code_numbers demo_prog)" by (simp add: code_numbers_def demo_prog_def)
  have dj: "slots 400 9 \<inter> slots (padd 400 100) 9 = {}"
    using slots_above [of 400 9] slots_above [of 800 9] by fastforce
  show ?thesis
    using load_then_clone [OF demo_prog_wf demo_file_reads n dj] by simp
qed

theorem truncated_code_loads_witness:
  "\<exists>q. load_instrs 400 (padd 400 (of_nat (9 + 3))) (demo_file, \<lambda>_. 0)
    = Inr (q, put_words 400 ([0, 3, 408, 136, 1, 416, 7, 436, 16] @ [16, 16, 16]) (\<lambda>_. 0))"
proof -
  have n: "length (code_numbers demo_prog) = 9" by (simp add: code_numbers_def demo_prog_def)
  have w: "inst_of 16 = Some I_O" by code_simp
  have cw: "code_words 400 demo_prog = [0, 3, 408, 136, 1, 416, 7, 436, 16]" by code_simp
  have "dropWhile isspace '' '' = []" by code_simp
  thus ?thesis
    using truncated_code_loads [OF demo_prog_wf _ _ w demo_file_reads, of 400 3 "\<lambda>_. 0"]
    by (simp add: demo_prog_def [symmetric] n cw numeral_3_eq_3) (simp add: demo_prog_def)
qed

end
