(* ===== verification/MLVM_Creator_Correct.thy ===== *)
theory MLVM_Creator_Correct
  imports MLVM_Code_Correct MLVM_System_Props
begin

text \<open>
  The creator's loaders keep the queues: with the code of creator/creator.c in place
  of the loaders the threads were given, the invariant of the system needs only the
  engine, the memory manager and the transport to keep it.
\<close>

section \<open>Operations that leave the queues alone\<close>

lemma bind_InrE:
  assumes "bind_res r k = Inr y"
  obtains x where "r = Inr x" "k x = Inr y"
  using assms by (cases r) auto

lemma of_optE:
  assumes "of_opt r = Inr x"
  obtains "r = Some x"
  using assms by (cases r) auto

lemma let_InrE:
  assumes "(let x = a in f x) = Inr y"
  obtains x where "f x = Inr y"
  using assms by (simp add: Let_def)

lemma case_prod_InrE:
  assumes "case_prod f p = Inr y"
  obtains a b where "p = (a, b)" "f a b = Inr y"
  using assms by (cases p) auto

lemma bind_prod_InrE:
  assumes "bind_res r (case_prod f) = Inr y"
  obtains a b where "r = Inr (a, b)" "f a b = Inr y"
  using assms by (cases r) auto

lemma if_InrE:
  assumes "(if c then u else v) = Inr y"
  obtains "c" "u = Inr y" | "\<not> c" "v = Inr y"
  using assms by (simp split: if_splits)

lemmas runE = bind_prod_InrE bind_InrE let_InrE case_prod_InrE if_InrE

lemma on_block_rep: "on_block ip f s = Inr (x, s') \<Longrightarrow> sys_rep s' C = sys_rep s C"
  by (auto simp: on_block_def upd_core_def elim!: bind_InrE)

lemma with_block_rep: "with_block ip f s = Inr s' \<Longrightarrow> sys_rep s' C = sys_rep s C"
  by (auto simp: with_block_def dest!: on_block_rep [where C = C] elim!: bind_InrE)

lemma log_new_imago_rep: "log_new_imago E ip s = Inr s' \<Longrightarrow> sys_rep s' C = sys_rep s C"
  by (auto simp: log_new_imago_def dest!: log_alive_rep [where C = C] elim!: bind_InrE)

lemma load_messenger_rep: "load_messenger K nm ss cip s = Inr (r, s') \<Longrightarrow> sys_rep s' C = sys_rep s C"
  by (auto simp: load_messenger_def Let_def dest!: on_block_rep [where C = C] split: if_splits)

lemma load_user_file_rep: "load_user_file K fn ss cip s = Inr (r, s') \<Longrightarrow> sys_rep s' C = sys_rep s C"
proof -
  assume a: "load_user_file K fn ss cip s = Inr (r, s')"
  have "s' = s \<or> (\<exists>c m. s' = upd_core cip (\<lambda>_. c) (s\<lparr>s_mem := m\<rparr>))"
  proof (cases "k_files K fn")
    case None
    thus ?thesis using a by (simp add: load_user_file_def)
  next
    case (Some fp)
    show ?thesis
      using a [unfolded load_user_file_def Some option.case] by (elim runE) auto
  qed
  thus ?thesis by (auto simp: upd_core_def)
qed

lemma measure_argument_rep: "measure_argument ip s = Inr (ss, s') \<Longrightarrow> sys_rep s' C = sys_rep s C"
  by (auto simp: measure_argument_def elim!: bind_InrE)

lemma pass_argument_rep: "pass_argument ip cip s = Inr s' \<Longrightarrow> sys_rep s' C = sys_rep s C"
  by (auto simp: pass_argument_def copy_term_def upd_core_def dest!: on_block_rep [where C = C] elim!: bind_InrE)

lemmas quiet_rep = on_block_rep with_block_rep log_new_imago_rep load_messenger_rep load_user_file_rep
  measure_argument_rep pass_argument_rep

lemma imago_loader_rep: "imago_loader E K ip s = Inr (s', r) \<Longrightarrow> sys_rep s' C = sys_rep s C"
proof -
  assume a: "imago_loader E K ip s = Inr (s', r)"
  show ?thesis
  proof (cases "k_files K (file_name (h_name (ip_citizenship (s_icb s ip)) @ ip_name (s_icb s ip)))")
    case None
    thus ?thesis using a by (simp add: imago_loader_def)
  next
    case (Some fp)
    show ?thesis
      using a [unfolded imago_loader_def Some option.case] by (elim runE) (auto simp: upd_core_def dest!: log_new_imago_rep [where C = C])
  qed
qed

section \<open>Operations that move ICBs\<close>

text \<open>The ICBs of H are in no queue.\<close>

definition kept :: "addr set \<Rightarrow> sys \<Rightarrow> bool" where
  "kept H s = (\<exists>C. sys_rep s C \<and> (\<forall>p\<in>H. held p C))"

lemma keptI: "sys_rep s C \<Longrightarrow> (\<And>p. p \<in> H \<Longrightarrow> held p C) \<Longrightarrow> kept H s"
  by (auto simp: kept_def)

lemma kept_cong: "(\<And>C. sys_rep s' C = sys_rep s C) \<Longrightarrow> kept H s' = kept H s" by (simp add: kept_def)

lemma kept_quiet [simp]:
  "kept H (upd_icb ip f s) = kept H s" "kept H (upd_core ip g s) = kept H s"
  "kept H (set_status st ip s) = kept H s" "kept H (s\<lparr>s_mem := m\<rparr>) = kept H s"
  by (rule kept_cong; simp add: upd_core_def)+

lemma kept_mono: "kept H s \<Longrightarrow> G \<subseteq> H \<Longrightarrow> kept G s" unfolding kept_def by blast

lemma icb_new_kept:
  assumes "icb_new s = Inr (cip, s')" "kept H s"
  shows "kept (insert cip H) s' \<and> cip \<notin> H"
proof -
  obtain C where C: "sys_rep s C" "\<forall>p\<in>H. held p C" using assms(2) by (auto simp: kept_def)
  obtain s1 where f: "que_first FREE_Q s = (cip, s1)" and nn: "cip \<noteq> NULL"
    and s': "sys_rep s' D = sys_rep s1 D" for D
    using assms(1) by (auto simp: icb_new_def split: prod.splits if_splits)
  have "\<not> que_empty (s_queue s FREE_Q)"
    using f nn by (auto simp: que_first_def icb_first_def que_empty_def Let_def split: prod.splits if_splits)
  then obtain p xs where c: "C FREE_Q = p # xs" using rep_empty [OF C(1)] by (cases "C FREE_Q") auto
  have j: "FREE_Q \<notin> set job_queues" by (simp add: job_queues_def)
  have q: "p = cip" "sys_rep s1 (C(FREE_Q := xs))" "held cip (C(FREE_Q := xs))"
    by (rule que_first_waiting [OF C(1) c j]; use f in simp)+
  have "set ((C(FREE_Q := xs)) R) \<subseteq> set (C R)" for R using c by auto
  hence "held r (C(FREE_Q := xs))" if "r \<in> H" for r using C(2) that unfolding held_def by blast
  moreover have "cip \<notin> H" using C(2) c q(1) by (auto simp: held_def dest!: bspec spec [where x = FREE_Q])
  ultimately show ?thesis using q s' by (auto intro!: keptI [where C = "C(FREE_Q := xs)"])
qed

lemma put_kept:
  assumes "kept H s" "p \<in> H" "Q \<in> set job_queues"
  shows "kept (H - {p}) (icb_put_signal Q p s)"
proof -
  obtain C where C: "sys_rep s C" "\<forall>p\<in>H. held p C" using assms(1) by (auto simp: kept_def)
  have "sys_rep (icb_put_signal Q p s) (C(Q := C Q @ [p]))" using put_rep(1) C assms(2,3) by blast
  thus ?thesis using C(2) by (auto intro!: keptI simp: held_def split: if_splits)
qed

lemma free_kept:
  assumes "kept H s" "p \<in> H"
  shows "kept (H - {p}) (icb_free p s)"
proof -
  obtain C where C: "sys_rep s C" "\<forall>p\<in>H. held p C" using assms(1) by (auto simp: kept_def)
  have "sys_rep (icb_free p s) (C(MSQ p := [], FREE_Q := p # C FREE_Q))"
    using icb_free_rep C assms(2) by blast
  thus ?thesis using C(2) by (auto intro!: keptI simp: held_def split: if_splits)
qed

lemma release_waiting_kept:
  assumes "kept H s" "release_waiting_msger s = Some s'"
  shows "kept H s'"
proof -
  obtain C where C: "sys_rep s C" "\<forall>p\<in>H. held p C" using assms(1) by (auto simp: kept_def)
  have "sys_rep s' (C(WAITING_MSGER_Q := [], ENGINE_Q := C ENGINE_Q @ C WAITING_MSGER_Q))"
    using release_msger_rep [OF C(1)] assms(2) by auto
  thus ?thesis using C(2) by (auto intro!: keptI simp: held_def)
qed

lemma release_one_kept:
  assumes "kept H s" "\<not> que_empty (s_queue s (MSQ ip))" "release_one ip nm s = Inr s'"
  shows "kept H s'"
proof -
  obtain C where C: "sys_rep s C" "\<forall>p\<in>H. held p C" using assms(1) by (auto simp: kept_def)
  obtain mip xs where c: "C (MSQ ip) = mip # xs" using rep_empty [OF C(1)] assms(2) by (cases "C (MSQ ip)") auto
  have j: "MSQ ip \<notin> set job_queues" by (simp add: job_queues_def)
  obtain s1 where q: "que_first (MSQ ip) s = (mip, s1)" "sys_rep s1 (C(MSQ ip := xs))" "held mip (C(MSQ ip := xs))"
    by (rule que_first_waiting [OF C(1) c j])
  have "held r (C(MSQ ip := xs))" "r \<noteq> mip" if "r \<in> H" for r
    using C(2) that c by (auto simp: held_def dest!: bspec spec [where x = "MSQ ip"])
  hence k: "kept (insert mip H) s1" "H = insert mip H - {mip}" using q(2,3) by (auto intro!: keptI)
  obtain s2 where s2: "with_block mip (answer (ip_status s1 ip) nm) s1 = Inr s2"
    and s': "s' = icb_put_signal ENGINE_Q mip (set_status IMAGO_READY mip s2)"
    using assms(3) by (auto simp: release_one_def q(1) Let_def elim!: bind_InrE split: if_splits)
  have "kept (insert mip H) s2" using kept_cong [OF with_block_rep [OF s2]] k(1) by simp
  from put_kept [of "insert mip H" "set_status IMAGO_READY mip s2" mip, OF _ _ engine_job] this
  show ?thesis using k(2) by (simp add: s')
qed

lemma release_msger_kept:
  assumes "kept H s" "release_msger ip nm s = Inr s'"
  shows "kept H s'"
proof -
  let ?b = "\<lambda>r. case r of Inl e \<Rightarrow> False | Inr s \<Rightarrow> \<not> que_empty (s_queue s (MSQ ip))"
  have w: "while_option ?b (\<lambda>r. bind_res r (release_one ip nm)) (Inr s) = Some (Inr s')"
    using assms(2) by (auto simp: release_msger_def elim!: bind_InrE of_optE)
  have "(case (Inr s' :: sys res) of Inl e \<Rightarrow> True | Inr s \<Rightarrow> kept H s)"
  proof (rule while_option_rule [OF _ w, where P = "\<lambda>r. case r of Inl e \<Rightarrow> True | Inr s \<Rightarrow> kept H s"])
    fix r :: "sys res" assume "case r of Inl e \<Rightarrow> True | Inr s \<Rightarrow> kept H s" "?b r"
    thus "case bind_res r (release_one ip nm) of Inl e \<Rightarrow> True | Inr s \<Rightarrow> kept H s"
      by (cases r) (auto dest: release_one_kept split: sum.splits)
  qed (simp add: assms(1))
  thus ?thesis by simp
qed

text \<open>An operation that leaves the queues alone keeps what is held.\<close>

lemma kept_after:
  "kept H s \<Longrightarrow> on_block ip f s = Inr (x, s') \<Longrightarrow> kept H s'"
  "kept H s \<Longrightarrow> with_block ip g s = Inr s' \<Longrightarrow> kept H s'"
  "kept H s \<Longrightarrow> log_new_imago E ip s = Inr s' \<Longrightarrow> kept H s'"
  "kept H s \<Longrightarrow> load_messenger K nm ss cip s = Inr (r, s') \<Longrightarrow> kept H s'"
  "kept H s \<Longrightarrow> load_user_file K nm ss cip s = Inr (r, s') \<Longrightarrow> kept H s'"
  "kept H s \<Longrightarrow> measure_argument ip s = Inr (ss, s') \<Longrightarrow> kept H s'"
  "kept H s \<Longrightarrow> pass_argument ip cip s = Inr s' \<Longrightarrow> kept H s'"
  "kept H s \<Longrightarrow> imago_loader E K ip s = Inr (s', r) \<Longrightarrow> kept H s'"
  by (subst kept_cong, erule quiet_rep imago_loader_rep, assumption)+

lemma end_held:
  assumes "kept (insert p H) s" "p \<notin> H"
  shows "kept H (icb_put_signal ENGINE_Q p s)" "kept H (icb_free p s)" "kept H s"
proof -
  have "insert p H - {p} = H" using assms(2) by blast
  thus "kept H (icb_put_signal ENGINE_Q p s)" "kept H (icb_free p s)" "kept H s"
    using put_kept [OF assms(1) _ engine_job, of p] free_kept [OF assms(1), of p] kept_mono [OF assms(1), of H] by auto
qed

lemma sys_dispatcher_kept:
  assumes "imago_sys_dispatcher E K ip s = Inr (s', r)" "kept H s"
  shows "kept H s'"
proof (cases "sys_message E ip s")
  case (Inl e)
  thus ?thesis using assms by (simp add: imago_sys_dispatcher_def)
next
  case (Inr tc)
  obtain to cmd where tc: "tc = (to, cmd)" by fastforce
  from assms(1) [unfolded imago_sys_dispatcher_def Inr tc sum.case prod.case] show ?thesis
  proof (elim runE, goal_cases)
    case (1 cip s1 v s2)
    have k: "kept (insert cip H) s1" "cip \<notin> H" using icb_new_kept [OF 1(1) assms(2)] by blast+
    have "kept (insert cip H) s2" using kept_after(4) [OF _ 1(2)] k(1) by simp
    thus ?case using end_held(2) [OF _ k(2)] 1(4) by auto
  next
    case (2 cip s1 v s2 s3)
    have k: "kept (insert cip H) s1" "cip \<notin> H" using icb_new_kept [OF 2(1) assms(2)] by blast+
    have "kept (insert cip H) s2" using kept_after(4) [OF _ 2(2)] k(1) by simp
    hence "kept (insert cip H) s3" using kept_after(2) [OF _ 2(4)] by simp
    thus ?case using end_held(1) [OF _ k(2)] 2(5) by auto
  qed
qed

lemma sys_loader_kept:
  assumes "imago_sys_loader E K ip s = Inr (s', r)" "kept H s"
  shows "kept H s'"
  using assms(1) unfolding imago_sys_loader_def Let_def
proof (elim runE, goal_cases)
  case (1 cip s1)
  have k: "kept (insert cip H) s1" "cip \<notin> H" using icb_new_kept [OF 1(1) assms(2)] by blast+
  have "kept (insert cip H) s'" using 1 k(1) by auto
  thus ?case using end_held(3) k(2) by blast
next
  case (2 cip s1 t nm f fn ss s3 v s4)
  have k: "kept (insert cip H) s1" "cip \<notin> H" using icb_new_kept [OF 2(1) assms(2)] by blast+
  have "kept (insert cip H) s3" using kept_after(6) [OF _ 2(7)] k(1) by simp
  hence "kept (insert cip H) s4" using kept_after(5) [OF _ 2(8)] by blast
  thus ?case using end_held(2) [OF _ k(2)] 2(10) by auto
next
  case (3 cip s1 t nm f fn ss s3 v s4 s5 s6 s7)
  have k: "kept (insert cip H) s1" "cip \<notin> H" using icb_new_kept [OF 3(1) assms(2)] by blast+
  have "kept (insert cip H) s3" using kept_after(6) [OF _ 3(7)] k(1) by simp
  hence "kept (insert cip H) s4" using kept_after(5) [OF _ 3(8)] by blast
  hence "kept (insert cip H) s6" using kept_after(7) [OF _ 3(10)] kept_after(3) [OF _ 3(11)] by blast
  hence "kept H (icb_put_signal ENGINE_Q cip s6)" using end_held(1) [OF _ k(2)] by blast
  hence "kept H s7" using release_waiting_kept 3(12) by (blast elim: of_optE)
  thus ?case using 3(13) by auto
qed

lemma announce_kept:
  assumes "announce_clone E K ip cip s = Inr s'" "kept H s"
  shows "kept H s'"
  using assms(1) unfolding announce_clone_def
proof (elim runE, goal_cases)
  case (1 s1 s2 s3 r)
  have "kept H s2" using release_msger_kept [OF kept_after(3) [OF assms(2) 1(2)] 1(3)] .
  hence "kept H s3" using sys_dispatcher_kept [OF 1(4)] by blast
  thus ?case using release_waiting_kept 1(5) by (blast elim: of_optE)
qed (use assms(2) in simp)

lemma cloner_kept:
  assumes "imago_cloner E K ip s = Inr (s', r)" "kept H s"
  shows "kept H s'"
  using assms(1) unfolding imago_cloner_def Let_def
proof (elim runE, goal_cases)
  case (1 cip s1)
  have "kept (insert cip H) s1" "cip \<notin> H" using icb_new_kept [OF 1(1) assms(2)] by blast+
  thus ?case using end_held(2) 1(3) by auto
next
  case (2 cip s1 nm s3 s4 s5 s6)
  have k: "kept (insert cip H) s1" "cip \<notin> H" using icb_new_kept [OF 2(1) assms(2)] by blast+
  have "kept (insert cip H) s3" using kept_after(2) [OF _ 2(4)] k(1) by simp
  hence "kept (insert cip H) s5" using kept_after(2) [OF kept_after(2) [OF _ 2(5)] 2(6)] by simp
  hence "kept (insert cip H) s6" using announce_kept [OF 2(7)] by blast
  thus ?case using end_held(1) [OF _ k(2)] 2(8) by auto
qed

lemma dispatcher_kept:
  assumes "imago_dispatcher E K ip s = Inr (s', r)" "kept H s"
  shows "kept H s'"
  using assms(1) unfolding imago_dispatcher_def Let_def
proof (elim runE, goal_cases)
  case (1 cip s1)
  have k: "kept (insert cip H) s1" "cip \<notin> H" using icb_new_kept [OF 1(1) assms(2)] by blast+
  have "kept (insert cip H) s'" using 1 k(1) by auto
  thus ?case using end_held(3) k(2) by blast
next
  case (2 cip s1 f fn d ss s3 v s4)
  have k: "kept (insert cip H) s1" "cip \<notin> H" using icb_new_kept [OF 2(1) assms(2)] by blast+
  have "kept (insert cip H) s3" using kept_after(6) [OF _ 2(6)] k(1) by simp
  hence "kept (insert cip H) s4" using kept_after(4) [OF _ 2(8)] by blast
  thus ?case using end_held(2) [OF _ k(2)] 2(10) by auto
next
  case (3 cip s1 f fn d ss s3 v s4 s5 s6)
  have k: "kept (insert cip H) s1" "cip \<notin> H" using icb_new_kept [OF 3(1) assms(2)] by blast+
  have "kept (insert cip H) s3" using kept_after(6) [OF _ 3(6)] k(1) by simp
  hence "kept (insert cip H) s4" using kept_after(4) [OF _ 3(8)] by blast
  hence "kept (insert cip H) s6" using kept_after(7) [OF kept_after(2) [OF _ 3(10)] 3(11)] by blast
  thus ?case using end_held(1) [OF _ k(2)] 3(12) by auto
next
  case (4 cip s1 f fn d ss s3 v s4)
  have k: "kept (insert cip H) s1" "cip \<notin> H" using icb_new_kept [OF 4(1) assms(2)] by blast+
  have "kept (insert cip H) s3" using kept_after(6) [OF _ 4(6)] k(1) by simp
  hence "kept (insert cip H) s4" using kept_after(5) [OF _ 4(8)] by blast
  thus ?case using end_held(2) [OF _ k(2)] 4(10) by auto
next
  case (5 cip s1 f fn d ss s3 v s4 s5 s6)
  have k: "kept (insert cip H) s1" "cip \<notin> H" using icb_new_kept [OF 5(1) assms(2)] by blast+
  have "kept (insert cip H) s3" using kept_after(6) [OF _ 5(6)] k(1) by simp
  hence "kept (insert cip H) s4" using kept_after(5) [OF _ 5(8)] by blast
  hence "kept (insert cip H) s6" using kept_after(7) [OF kept_after(2) [OF _ 5(10)] 5(11)] by blast
  thus ?case using end_held(1) [OF _ k(2)] 5(12) by auto
qed

lemma kept_keeps_held:
  assumes "\<And>s x H. f s = Inr x \<Longrightarrow> kept H s \<Longrightarrow> kept H (pr x)"
  shows "keeps_held ip f pr"
  unfolding keeps_held_def
proof (intro allI impI)
  fix s C x assume "sys_rep s C" "held ip C" "f s = Inr x"
  hence "f s = Inr x" "kept {ip} s" by (auto simp: kept_def)
  hence "kept {ip} (pr x)" using assms by blast
  thus "\<exists>C'. sys_rep (pr x) C' \<and> held ip C'" by (auto simp: kept_def)
qed

lemma creator_keeps_held:
  "keeps_held ip (imago_loader E K ip) fst" "keeps_held ip (imago_sys_loader E K ip) fst"
  "keeps_held ip (imago_cloner E K ip) fst" "keeps_held ip (imago_dispatcher E K ip) fst"
  "keeps_held ip (release_msger ip nm) id"
  "keeps_held ip (\<lambda>s. bind_res (imago_sys_dispatcher E K ip s) (\<lambda>(s1, r). Inr s1)) id"
proof -
  show "keeps_held ip (imago_loader E K ip) fst"
    by (rule kept_keeps_held) (metis kept_after(8) prod.collapse)
  show "keeps_held ip (imago_sys_loader E K ip) fst"
    by (rule kept_keeps_held) (metis sys_loader_kept prod.collapse)
  show "keeps_held ip (imago_cloner E K ip) fst"
    by (rule kept_keeps_held) (metis cloner_kept prod.collapse)
  show "keeps_held ip (imago_dispatcher E K ip) fst"
    by (rule kept_keeps_held) (metis dispatcher_kept prod.collapse)
  show "keeps_held ip (release_msger ip nm) id"
    by (rule kept_keeps_held) (simp add: release_msger_kept)
  show "keeps_held ip (\<lambda>s. bind_res (imago_sys_dispatcher E K ip s) (\<lambda>(s1, r). Inr s1)) id"
    by (rule kept_keeps_held) (auto elim!: bind_prod_InrE dest: sys_dispatcher_kept)
qed

text \<open>What is left to assume of the threads' environment.\<close>

lemma with_creator_ok:
  assumes "\<And>ip. keeps_held ip (e_engine E ip) id" "\<And>ip. keeps_held ip (e_mmanager E ip) fst"
    "\<And>ip to. keeps_held ip (e_send E to ip) id"
  shows "env_ok (with_creator K E)"
  using assms creator_keeps_held by (simp add: env_ok_def with_creator_def)

section \<open>The threads with the engine, the memory manager and the creator\<close>

text \<open>G and A give the collector's environment and what realloc returned.\<close>

definition memory_thread :: "(sys \<Rightarrow> gc_env) \<Rightarrow> (sys \<Rightarrow> addr) \<Rightarrow> addr \<Rightarrow> sys \<Rightarrow> (sys \<times> word32) res" where
  "memory_thread G A ip s =
     bind_res (on_block ip (\<lambda>p m. map_option (\<lambda>(p, m, r). (r, p, m)) (mmanager (G s) (A s) p m)) s)
       (\<lambda>(r, s1). Inr (s1, r))"

definition server_env ::
    "(word32 \<Rightarrow> builtin_rec option) \<Rightarrow> double_ops \<Rightarrow> (sys \<Rightarrow> gc_env) \<Rightarrow> (sys \<Rightarrow> addr) \<Rightarrow> loading \<Rightarrow> env \<Rightarrow> env" where
  "server_env B D G A K E =
     with_creator K (E\<lparr>e_engine := engine_thread B D, e_mmanager := memory_thread G A\<rparr>)"

lemma server_env_ok:
  assumes "\<And>ip to. keeps_held ip (e_send E to ip) id"
  shows "env_ok (server_env B D G A K E)"
  unfolding server_env_def
proof (rule with_creator_ok)
  fix ip
  show "keeps_held ip (e_engine (E\<lparr>e_engine := engine_thread B D, e_mmanager := memory_thread G A\<rparr>) ip) id"
    unfolding keeps_held_def by (auto simp: engine_thread_rep)
  have "keeps_held ip (memory_thread G A ip) fst"
    by (rule kept_keeps_held) (auto simp: memory_thread_def elim!: bind_prod_InrE intro: kept_after(1))
  thus "keeps_held ip (e_mmanager (E\<lparr>e_engine := engine_thread B D, e_mmanager := memory_thread G A\<rparr>) ip) fst" by simp
qed (simp add: assms)


section \<open>The block of a loaded imago\<close>

lemma let_eqE:
  assumes "(let x = a in f x) = Inr y"
  obtains x where "x = a" "f x = Inr y"
  using assms by (simp add: Let_def)

lemma load_user_file_block:
  assumes "load_user_file K fn ss cip s = Inr (ecode E_SUCCEED, s')"
    and "k_files K fn = Some fp" "scan_header fp = Inr (ty, ssize, psize, csize, r)"
  obtains n words m it c where "words = name_words ssize + psize * 2 + csize" "imago_type_of ty = Inr it"
    "c = (place_block (k_malloc K n s)
            (words + ss + (if ty = 1 then INIT_WORKER_STACK else INIT_MESSENGER_STACK) * STACK_UNIT) ssize psize csize (blk s cip))
            \<lparr>stack_base := padd (k_malloc K n s) words\<rparr>"
    "s' = upd_core cip (\<lambda>_. fst (start_block it (stack_base c - 4) c m))
            (s\<lparr>s_mem := snd (start_block it (stack_base c - 4) c m)\<rparr>)"
proof -
  have ne: "ecode E_SUCCEED \<noteq> ecode E_ILLEGAL_CREATE" "ecode E_SUCCEED \<noteq> ecode E_MEMORY_OUT"
    "ecode E_SUCCEED \<noteq> ecode E_UNKNOWN_OPCODE" by simp_all
  from assms(1) [unfolded load_user_file_def assms(2,3) option.case res_simps prod.case] show ?thesis
  proof (elim let_eqE bind_prod_InrE bind_InrE case_prod_InrE if_InrE, goal_cases)
    case 1
    thus ?case using ne by (simp only: sum.inject prod.inject)
  next
    case (2 snum tot bp)
    show ?case using 2(6) ne by (simp only: sum.inject prod.inject)
  next
    case (3 snum tot bp c v m)
    show ?case using 3(9) ne by (simp only: sum.inject prod.inject)
  next
    case (4 snum tot bp c v m it x c2 m2)
    have e: "s' = upd_core cip (\<lambda>_. c2) (s\<lparr>s_mem := m2\<rparr>)" using 4(12) by (simp only: sum.inject prod.inject simp_thms)
    show ?case
    proof (rule that [of "snum + psize * 2 + csize" it c "tot * 4" m])
      show "snum + psize * 2 + csize = name_words ssize + psize * 2 + csize" by (simp only: 4(1))
      show "imago_type_of ty = Inr it" by (rule 4(9))
      show "c = (place_block (k_malloc K (tot * 4) s)
            (snum + psize * 2 + csize + ss + (if ty = 1 then INIT_WORKER_STACK else INIT_MESSENGER_STACK) * STACK_UNIT)
            ssize psize csize (blk s cip))\<lparr>stack_base := padd (k_malloc K (tot * 4) s) (snum + psize * 2 + csize)\<rparr>"
        by (simp only: 4(6) 4(3) flip: 4(2))
      show "s' = upd_core cip (\<lambda>_. fst (start_block it (stack_base c - 4) c m))
            (s\<lparr>s_mem := snd (start_block it (stack_base c - 4) c m)\<rparr>)"
        using e by (simp only: 4(11) fst_conv snd_conv flip: 4(10))
    qed
  qed
qed

text \<open>The segments of a placed block, as offsets from its base; k words are the stack.\<close>

lemma placed_block:
  assumes "w = name_words ssize + psize * 2 + csize"
    and "c = (place_block bp (w + ss + of_nat k) ssize psize csize c0)\<lparr>stack_base := padd bp w\<rparr>"
    and "unat bp + unat ssize + 8 * unat psize + 4 * unat csize + 4 * unat ss + 4 * k + 256 < 2 ^ 32"
  shows "block_base c = bp" "proc_base c = bp" "unat (code_base c) = unat bp + 8 * unat psize"
    "unat (name_base c) = unat bp + (8 * unat psize + 4 * unat csize)"
    "unat (name_top c) = unat bp + (8 * unat psize + 4 * unat csize + unat ssize)"
    "unat (stack_base c) = unat bp + (4 * ((unat ssize + 256) div 4) + 8 * unat psize + 4 * unat csize)"
    "unat (block_ceiling c)
      = unat bp + (4 * ((unat ssize + 256) div 4) + 8 * unat psize + 4 * unat csize + 4 * unat ss + 4 * k)"
proof -
  have nw: "unat (name_words ssize) = (unat ssize + 256) div 4"
    using unat_add_lt [of ssize 256] assms(3) by (simp add: name_words_def NAME_EXP_SIZE_def unat_div)
  have q: "4 * ((unat ssize + 256) div 4) \<le> unat ssize + 256" by linarith
  have n: "unat (bp + of_nat N) = unat bp + N"
    if "N \<le> unat ssize + 8 * unat psize + 4 * unat csize + 4 * unat ss + 4 * k + 256" for N
    using unat_add_lt [of bp N] that assms(3) by simp
  have e: "padd bp (psize * 2) = bp + of_nat (8 * unat psize)"
    "padd bp (psize * 2 + csize) = bp + of_nat (8 * unat psize + 4 * unat csize)"
    "padd bp (psize * 2 + csize) + ssize = bp + of_nat (8 * unat psize + 4 * unat csize + unat ssize)"
    "padd bp w = bp + of_nat (4 * ((unat ssize + 256) div 4) + 8 * unat psize + 4 * unat csize)"
    "padd bp (w + ss + of_nat k)
      = bp + of_nat (4 * ((unat ssize + 256) div 4) + 8 * unat psize + 4 * unat csize + 4 * unat ss + 4 * k)"
    unfolding assms(1) by (simp_all add: algebra_simps flip: nw)
  have c: "code_base c = padd bp (psize * 2)" "name_base c = padd bp (psize * 2 + csize)"
    "name_top c = padd bp (psize * 2 + csize) + ssize" "stack_base c = padd bp w"
    "block_ceiling c = padd bp (w + ss + of_nat k)"
    unfolding assms(2) place_block_def by simp_all
  show "block_base c = bp" "proc_base c = bp" unfolding assms(2) place_block_def by simp_all
  show "unat (code_base c) = unat bp + 8 * unat psize" unfolding c(1) e(1) by (rule n) simp
  show "unat (name_base c) = unat bp + (8 * unat psize + 4 * unat csize)" unfolding c(2) e(2) by (rule n) simp
  show "unat (name_top c) = unat bp + (8 * unat psize + 4 * unat csize + unat ssize)"
    unfolding c(3) e(3) by (rule n) simp
  show "unat (stack_base c) = unat bp + (4 * ((unat ssize + 256) div 4) + 8 * unat psize + 4 * unat csize)"
    unfolding c(4) e(4) by (rule n) (use q in simp)
  show "unat (block_ceiling c)
      = unat bp + (4 * ((unat ssize + 256) div 4) + 8 * unat psize + 4 * unat csize + 4 * unat ss + 4 * k)"
    unfolding c(5) e(5) by (rule n) (use q in simp)
qed

text \<open>
  Claim C12.  A block that load_user_file fills is well-formed.  If the sizes in the
  header do not wrap around, the procedure table, the code, the names, the stack and
  the trail lie in this order in the block malloc gave; at least 253 bytes are left
  for new names, and the stack and trail have 4 K words and the words asked for the
  argument.  The control block has the type of the header and is READY, its stack
  top is one word below the stack, and the first generation line is on the trail.
\<close>

theorem loaded_block_ordered:
  assumes "load_user_file K fn ss cip s = Inr (ecode E_SUCCEED, s')"
    and "k_files K fn = Some fp" "scan_header fp = Inr (ty, ssize, psize, csize, r)"
    and "\<And>n. unat (k_malloc K n s) + unat ssize + 8 * unat psize + 4 * unat csize + 4 * unat ss + 524560 < 2 ^ 32"
  shows "unat (block_base (blk s' cip)) = unat (proc_base (blk s' cip))
    \<and> unat (proc_base (blk s' cip)) \<le> unat (code_base (blk s' cip))
    \<and> unat (code_base (blk s' cip)) \<le> unat (name_base (blk s' cip))
    \<and> unat (name_top (blk s' cip)) = unat (name_base (blk s' cip)) + unat ssize
    \<and> unat (name_top (blk s' cip)) + 253 \<le> unat (stack_base (blk s' cip))
    \<and> unat (stack_base (blk s' cip)) + 4 * unat ss + 16384 \<le> unat (block_ceiling (blk s' cip))
    \<and> imago_type_of ty = Inr (itype (blk s' cip)) \<and> ip_status s' cip = IMAGO_READY
    \<and> i_pp (blk s' cip) = code_base (blk s' cip) \<and> i_st (blk s' cip) = stack_base (blk s' cip) - 4
    \<and> i_tt (blk s' cip) = block_ceiling (blk s' cip) - 8
    \<and> s_mem s' (block_ceiling (blk s' cip) - 4) = make_str (stack_base (blk s' cip))"
proof -
  obtain n w m it c where w: "w = name_words ssize + psize * 2 + csize" and it: "imago_type_of ty = Inr it"
    and c: "c = (place_block (k_malloc K n s)
            (w + ss + (if ty = 1 then INIT_WORKER_STACK else INIT_MESSENGER_STACK) * STACK_UNIT) ssize psize csize (blk s cip))
            \<lparr>stack_base := padd (k_malloc K n s) w\<rparr>"
    and s': "s' = upd_core cip (\<lambda>_. fst (start_block it (stack_base c - 4) c m))
            (s\<lparr>s_mem := snd (start_block it (stack_base c - 4) c m)\<rparr>)"
    by (rule load_user_file_block [OF assms(1-3)])
  define k where "k = (if ty = 1 then 131072 else (4096 :: nat))"
  have k: "(if ty = 1 then INIT_WORKER_STACK else INIT_MESSENGER_STACK) * STACK_UNIT = of_nat k" "4096 \<le> k" "k \<le> 131072"
    by (simp_all add: k_def INIT_WORKER_STACK_def INIT_MESSENGER_STACK_def STACK_UNIT_def)
  have b: "unat (k_malloc K n s) + unat ssize + 8 * unat psize + 4 * unat csize + 4 * unat ss + 4 * k + 256 < 2 ^ 32"
    using assms(4) [of n] k(3) by linarith
  note u = placed_block [OF w c [unfolded k(1)] b]
  have c1: "blk s' cip = fst (start_block it (stack_base c - 4) c m)" "s_mem s' = snd (start_block it (stack_base c - 4) c m)"
    using s' by (simp_all add: upd_core_def)
  have f: "block_base (blk s' cip) = block_base c" "proc_base (blk s' cip) = proc_base c" "code_base (blk s' cip) = code_base c"
    "name_base (blk s' cip) = name_base c" "name_top (blk s' cip) = name_top c" "stack_base (blk s' cip) = stack_base c"
    "block_ceiling (blk s' cip) = block_ceiling c" "itype (blk s' cip) = it" "ip_status s' cip = IMAGO_READY"
    "i_pp (blk s' cip) = code_base c" "i_st (blk s' cip) = stack_base c - 4" "i_tt (blk s' cip) = block_ceiling c - 8"
    "s_mem s' (block_ceiling c - 4) = make_str (stack_base c)"
    unfolding c1 by (simp_all add: start_block_def Let_def)
  have q: "unat ssize + 253 \<le> 4 * ((unat ssize + 256) div 4)" by linarith
  show ?thesis unfolding f u using q k(2) it by simp
qed

text \<open>A worker file of one instruction and no names; malloc answers with a fixed block.\<close>

definition demo_loading :: loading where
  "demo_loading = \<lparr>k_files = (\<lambda>_. Some ''7 1 0 0 0 1 16 ''), k_malloc = (\<lambda>_ _. 65536), k_appid = 65537,
     k_msgers = replicate 7 NULL\<rparr>"

lemma demo_load:
  "\<exists>s'. load_user_file demo_loading ''w'' 2 24 empty_sys = Inr (ecode E_SUCCEED, s')"
proof -
  have h: "scan_header ''7 1 0 0 0 1 16 '' = Inr (1, 0, 0, 1, '' 16 '')" by code_simp
  have r: "reads_numbers '' 16 '' (code_numbers [(16, [])]) '' ''" by code_simp
  have f: "list_all wf_instr [(16, [])]" "length (code_words 65536 [(16, [])]) = 1" by code_simp+
  have l: "load_instrs 65536 65540 ('' 16 '', m) = Inr ('' '', put_words 65536 (code_words 65536 [(16, [])]) m)" for m
    using code_loads [OF f(1) r, of 65536 m] f(2) by simp
  have k: "skip_newlines '' 16 '' = '' 16 ''" by code_simp
  have w: "while_option (\<lambda>(cp, x). cp < stop) g (stop, y) = Some (stop, y)" for stop :: addr and g and y :: "string \<times> store"
    by (subst while_option_unfold) simp
  have c: "load_code '' 16 '' c m = Inr (ecode E_SUCCEED, put_words 65536 (code_words 65536 [(16, [])]) m)"
    if "name_base c = 65540" "name_top c = 65540" "proc_base c = 65536" "code_base c = 65536" for c m
    unfolding load_code_def load_names_def load_procs_def that k w by (simp add: l)
  show ?thesis
    unfolding load_user_file_def Let_def
    by (simp add: demo_loading_def h imago_type_of_def c place_block_def start_block_def Let_def)
qed

theorem loaded_block_ordered_witness:
  "\<exists>s'. load_user_file demo_loading ''w'' 2 24 empty_sys = Inr (ecode E_SUCCEED, s')
     \<and> unat (name_top (blk s' 24)) + 253 \<le> unat (stack_base (blk s' 24)) \<and> ip_status s' 24 = IMAGO_READY"
proof -
  have h: "scan_header ''7 1 0 0 0 1 16 '' = Inr (1, 0, 0, 1, '' 16 '')" by code_simp
  obtain s' where s': "load_user_file demo_loading ''w'' 2 24 empty_sys = Inr (ecode E_SUCCEED, s')"
    using demo_load by blast
  have "k_files demo_loading ''w'' = Some ''7 1 0 0 0 1 16 ''" by (simp add: demo_loading_def)
  from loaded_block_ordered [OF s' this h] s' show ?thesis by (auto simp: demo_loading_def)
qed


end
