(* ===== verification/MLVM_Timer.thy ===== *)
theory MLVM_Timer
  imports MLVM_Threads
begin

text \<open>
  The timer table of transport/timer.c.  One alarm of the process serves all
  timers: it is set for the earliest deadline, its handler fires the timers that
  have expired and sets it again.  The record timers is the state of this module;
  the records of the layers above extend it, so that a callback changes all of it.
\<close>

section \<open>State\<close>

datatype timer_status = TIMER_FREE | TIMER_ACTIVE | TIMER_FIRED | TIMER_STOPPED

text \<open>The functions the program passes to timer_set.\<close>

datatype callback = Timeout_callback | SIGALRM_cleanup | Timer_recall

record timer_str =
  t_status :: timer_status
  t_dday :: timeval
  t_callback :: "callback option"
  t_arg :: int

text \<open>tm_clock k is what the k-th call of gettimeofday returns; tm_alarm is the value of setitimer.\<close>

record timers =
  timer_tlb :: "nat \<Rightarrow> timer_str"
  tm_alarm :: timeval
  tm_clock :: "nat \<Rightarrow> timeval"
  tm_reads :: nat

definition MAX_TIMER :: nat where "MAX_TIMER = 255"
abbreviation TIMER_INVALID :: int where "TIMER_INVALID \<equiv> - 1"

definition cleared_timer :: timer_str where
  "cleared_timer = \<lparr>t_status = TIMER_FREE, t_dday = timer_clear, t_callback = None, t_arg = 0\<rparr>"

definition gettimeofday :: "'a timers_scheme \<Rightarrow> timeval \<times> 'a timers_scheme" where
  "gettimeofday s = (tm_clock s (tm_reads s), s\<lparr>tm_reads := tm_reads s + 1\<rparr>)"

definition set_timer :: "nat \<Rightarrow> timer_str \<Rightarrow> 'a timers_scheme \<Rightarrow> 'a timers_scheme" where
  "set_timer i t s = s\<lparr>timer_tlb := (timer_tlb s)(i := t)\<rparr>"

section \<open>Operations\<close>

definition timer_init :: "'a timers_scheme \<Rightarrow> 'a timers_scheme" where
  "timer_init s = s\<lparr>timer_tlb := (\<lambda>_. cleared_timer)\<rparr>"

text \<open>The loop of timer_activate: the earliest deadline, or the cleared time.\<close>

definition earlier :: "(nat \<Rightarrow> timer_str) \<Rightarrow> timeval \<Rightarrow> nat \<Rightarrow> timeval" where
  "earlier tlb tv1 i =
     (if t_status (tlb i) \<noteq> TIMER_ACTIVE then tv1
      else if \<not> timer_isset tv1 \<or> timer_less (t_dday (tlb i)) tv1 then t_dday (tlb i)
      else tv1)"

definition earliest_dday :: "(nat \<Rightarrow> timer_str) \<Rightarrow> timeval" where
  "earliest_dday tlb = foldl (earlier tlb) timer_clear [0..<MAX_TIMER]"

definition timer_activate :: "'a timers_scheme \<Rightarrow> 'a timers_scheme" where
  "timer_activate s =
     (let tv1 = earliest_dday (timer_tlb s) in
      if \<not> timer_isset tv1 then s\<lparr>tm_alarm := timer_clear\<rparr>
      else (let (tv, s1) = gettimeofday s in
            s1\<lparr>tm_alarm := (if timer_less tv tv1 then timer_sub tv1 tv else \<lparr>tv_sec = 0, tv_usec = 1\<rparr>)\<rparr>))"

text \<open>run c id arg is the call of a callback; the lock is released around it.\<close>

definition fire ::
  "(callback \<Rightarrow> int \<Rightarrow> int \<Rightarrow> 'a timers_scheme \<Rightarrow> 'a timers_scheme res) \<Rightarrow> timeval \<Rightarrow> nat \<Rightarrow>
     'a timers_scheme \<Rightarrow> 'a timers_scheme res" where
  "fire run tv i s =
     (let t = timer_tlb s i in
      if t_status t = TIMER_ACTIVE \<and> timer_less (t_dday t) tv
      then (let s1 = set_timer i (t\<lparr>t_status := TIMER_FIRED\<rparr>) s in
            case t_callback t of None \<Rightarrow> Inr s1 | Some c \<Rightarrow> run c (int i + 1) (t_arg t) s1)
      else Inr s)"

definition SIGALRM_handler ::
  "(callback \<Rightarrow> int \<Rightarrow> int \<Rightarrow> 'a timers_scheme \<Rightarrow> 'a timers_scheme res) \<Rightarrow> 'a timers_scheme \<Rightarrow>
     'a timers_scheme res"
where
  "SIGALRM_handler run s =
     (let (tv, s1) = gettimeofday s in
      bind_res (foldl (\<lambda>r i. bind_res r (fire run tv i)) (Inr s1) [0..<MAX_TIMER]) (\<lambda>s2. Inr (timer_activate s2)))"

definition timer_new :: "'a timers_scheme \<Rightarrow> int \<times> 'a timers_scheme" where
  "timer_new s =
     (case List.find (\<lambda>i. t_status (timer_tlb s i) = TIMER_FREE) [0..<MAX_TIMER] of
        None \<Rightarrow> (TIMER_INVALID, s)
      | Some i \<Rightarrow> (int i + 1, set_timer i ((timer_tlb s i)\<lparr>t_status := TIMER_STOPPED\<rparr>) s))"

definition timer_index :: "int \<Rightarrow> nat option" where
  "timer_index i = (if i - 1 < 0 \<or> int MAX_TIMER \<le> i - 1 then None else Some (nat (i - 1)))"

definition timer_free :: "int \<Rightarrow> 'a timers_scheme \<Rightarrow> 'a timers_scheme" where
  "timer_free i s = (case timer_index i of None \<Rightarrow> s | Some k \<Rightarrow> timer_activate (set_timer k cleared_timer s))"

text \<open>tv is None for a null pointer.\<close>

definition timer_set ::
  "int \<Rightarrow> timeval option \<Rightarrow> callback option \<Rightarrow> int \<Rightarrow> 'a timers_scheme \<Rightarrow> int \<times> 'a timers_scheme" where
  "timer_set i tv cb arg s =
     (case (timer_index i, tv) of
        (Some k, Some d) \<Rightarrow>
          if t_status (timer_tlb s k) = TIMER_FREE then (- 1, s)
          else (let (ntv, s1) = gettimeofday s;
                    t = (timer_tlb s1 k)\<lparr>t_dday := timer_add ntv d\<rparr>;
                    t1 = (if cb \<noteq> None then t\<lparr>t_callback := cb, t_arg := arg\<rparr> else t)
                in (0, timer_activate (set_timer k (t1\<lparr>t_status := TIMER_ACTIVE\<rparr>) s1)))
      | _ \<Rightarrow> (TIMER_INVALID, s))"

text \<open>None is the answer TIMER_INVALID.\<close>

definition timer_status_of :: "int \<Rightarrow> 'a timers_scheme \<Rightarrow> timer_status option" where
  "timer_status_of i s = map_option (\<lambda>k. t_status (timer_tlb s k)) (timer_index i)"

definition timer_stop :: "int \<Rightarrow> 'a timers_scheme \<Rightarrow> 'a timers_scheme" where
  "timer_stop i s =
     (case timer_index i of
        None \<Rightarrow> s
      | Some k \<Rightarrow> timer_activate (set_timer k ((timer_tlb s k)\<lparr>t_status := TIMER_STOPPED\<rparr>) s))"

end
