(* ===== verification/MLVM_State_Machine.thy ===== *)
theory MLVM_State_Machine
  imports MLVM_System
begin

text \<open>
  The table of transport/state_machine.c: the layers register their handlers at
  start-up, a PDU carries the number of the handler that processes it next.  The
  type 'h stands for the function pointers, None among them for NULL.
\<close>

section \<open>The table\<close>

abbreviation STATE_MACHINE_INCR :: int where "STATE_MACHINE_INCR \<equiv> 20"
abbreviation STATE_MACHINE_ID_INVALID :: int where "STATE_MACHINE_ID_INVALID \<equiv> - 1"

text \<open>
  sm_table has a slot for every index below sm_max; malloc leaves the slots of a
  new block undefined, so the entries are a map and no entry is what was not
  stored.  sm_malloc k: the k-th call of malloc returns a block.
\<close>

record 'h state_table =
  sm_table :: "(int \<Rightarrow> 'h option option) option"
  sm_max :: int
  sm_count :: int
  sm_malloc :: "nat \<Rightarrow> bool"
  sm_calls :: nat

text \<open>None: exit(-1).\<close>

definition state_machine_init :: "'h state_table \<Rightarrow> 'h state_table option" where
  "state_machine_init s =
     (let s1 = s\<lparr>sm_calls := sm_calls s + 1\<rparr> in
      if sm_malloc s (sm_calls s)
      then Some (s1\<lparr>sm_table := Some (\<lambda>_. None), sm_max := STATE_MACHINE_INCR, sm_count := 0\<rparr>)
      else None)"

definition state_machine_cleanup :: "'h state_table \<Rightarrow> 'h state_table" where
  "state_machine_cleanup s = s\<lparr>sm_table := None\<rparr>"

text \<open>memcpy of the first max slots.\<close>

definition copied_slots :: "'h state_table \<Rightarrow> int \<Rightarrow> 'h option option" where
  "copied_slots s = (case sm_table s of None \<Rightarrow> (\<lambda>_. None) | Some t \<Rightarrow> (\<lambda>i. if 0 \<le> i \<and> i < sm_max s then t i else None))"

definition state_machine_register :: "'h option \<Rightarrow> 'h state_table \<Rightarrow> int \<times> 'h state_table" where
  "state_machine_register f s =
     (let s1 = (if sm_count s \<le> sm_max s
                then (let s0 = s\<lparr>sm_calls := sm_calls s + 1\<rparr> in
                      if sm_malloc s (sm_calls s)
                      then Some (s0\<lparr>sm_table := Some (copied_slots s), sm_max := sm_max s + STATE_MACHINE_INCR\<rparr>)
                      else None)
                else Some s)
      in case s1 of
           None \<Rightarrow> (- 1, s\<lparr>sm_calls := sm_calls s + 1\<rparr>)
         | Some s2 \<Rightarrow>
             (sm_count s2,
              s2\<lparr>sm_table := map_option (\<lambda>t. t(sm_count s2 := Some f)) (sm_table s2), sm_count := sm_count s2 + 1\<rparr>))"

definition state_machine_deregister :: "int \<Rightarrow> 'h state_table \<Rightarrow> 'h state_table" where
  "state_machine_deregister i s =
     (if 0 \<le> i \<and> i < sm_count s then s\<lparr>sm_table := map_option (\<lambda>t. t(i := Some None)) (sm_table s)\<rparr> else s)"

section \<open>One step of a PDU\<close>

record pdu_state =
  oldstate :: int
  sstate :: int

text \<open>
  call f is the call of a handler; its state is threaded.  A handler called
  through a null pointer, or a slot never written, is a fault.
\<close>

definition handler_of :: "'h state_table \<Rightarrow> int \<Rightarrow> 'h res" where
  "handler_of m i =
     (case sm_table m of
        None \<Rightarrow> Inl F_Null
      | Some t \<Rightarrow> (case t i of None \<Rightarrow> Inl F_Uninit | Some None \<Rightarrow> Inl F_Null | Some (Some h) \<Rightarrow> Inr h))"

definition state_machine ::
  "('h \<Rightarrow> 's \<Rightarrow> (int \<times> 's) res) \<Rightarrow> 'h state_table \<Rightarrow> ('s \<Rightarrow> pdu_state) \<Rightarrow> (pdu_state \<Rightarrow> 's \<Rightarrow> 's) \<Rightarrow>
     's \<Rightarrow> (int \<times> 's) res"
where
  "state_machine call m get put s =
     (let st = get s in
      if sstate st < 0 \<or> sm_count m \<le> sstate st then Inr (- 1, s)
      else bind_res (handler_of m (sstate st)) (\<lambda>h. bind_res (call h s) (\<lambda>(newstate, s1).
        Inr (newstate,
          if 0 < newstate
          then (let st1 = get s1 in put (st1\<lparr>oldstate := sstate st1, sstate := newstate\<rparr>) s1)
          else s1))))"

end
