(* ===== verification/MLVM_Pdu.thy ===== *)
theory MLVM_Pdu
  imports MLVM_Frame MLVM_Timer MLVM_State_Machine
begin

text \<open>
  The PDUs of transport/imago_pdu.c: a fixed table of records, a pool of frames
  and the queue of the PDUs waiting for a transport thread.  A pointer to a PDU is
  its index in the table; the links of the queue are a list of indices
  (MLVM_Queue relates the two).  The state extends the timer table.
\<close>

section \<open>State\<close>

datatype pdu_error =
    EPDU_SUCCESS | EPDU_MFRAME | EPDU_MCONN | EPDU_NFILE | EPDU_CONNREFUSED | EPDU_HOST_NOT_FOUND
  | EPDU_NBACK | EPDU_FOPEN | EPDU_FWRITE | EPDU_SEC_RSA | EPDU_CIPHER_NOT_SUPPORTED | EPDU_RSA_E
  | EPDU_RSA_D | EPDU_ENCRYPT | EPDU_NADA

abbreviation PDU_TYPE_SITP :: "16 word" where "PDU_TYPE_SITP \<equiv> 0x8000"
abbreviation PDU_FLAG_RESERVED :: "16 word" where "PDU_FLAG_RESERVED \<equiv> 0x00ff"
abbreviation PDU_ERROR :: "16 word" where "PDU_ERROR \<equiv> 0x0010"
abbreviation PDU_FLAG_FORWARDING :: "16 word" where "PDU_FLAG_FORWARDING \<equiv> 0x0002"
abbreviation PDU_FLAG_INCOMING :: "16 word" where "PDU_FLAG_INCOMING \<equiv> 0x0001"

definition IMAGO_MAX_PDU :: nat where "IMAGO_MAX_PDU = 1024"
definition MAX_DNS_NAME_SIZE :: nat where "MAX_DNS_NAME_SIZE = 80"

text \<open>
  p_self: the field self points to the record itself.  A server name is the array
  of its MAX_DNS_NAME_SIZE bytes; p_icb is the address of the ICB, 0 for NULL.
\<close>

record pdu =
  p_state :: pdu_state
  p_self :: bool
  p_flags :: "16 word"
  p_errno :: pdu_error
  p_layer :: int
  p_icb :: addr
  p_genid :: "16 word"
  p_seqid :: word32
  p_ADAtype :: "16 word"
  p_timer :: int
  p_retry :: byte
  p_dest :: "byte list"
  p_source :: "byte list"
  p_ttl :: byte
  p_addr :: word32
  p_cid :: "nat option"
  p_total :: int
  p_frames :: "frame list"

text \<open>n_kills: the signals imago_signal_kill sent, the latest first; SIGIO is one of them.\<close>

datatype signal_sent = Sent_SIGIO | Sent_SIGrestart

record net = timers +
  n_pdu :: "nat \<Rightarrow> pdu"
  n_count :: word32
  n_max_count :: word32
  n_list :: "nat list"
  n_pool :: pool
  n_kills :: "signal_sent list"

definition upd_pdu :: "nat \<Rightarrow> (pdu \<Rightarrow> pdu) \<Rightarrow> 'a net_scheme \<Rightarrow> 'a net_scheme" where
  "upd_pdu i f n = n\<lparr>n_pdu := (n_pdu n)(i := f (n_pdu n i))\<rparr>"

definition imago_signal_kill :: "signal_sent \<Rightarrow> 'a net_scheme \<Rightarrow> 'a net_scheme" where
  "imago_signal_kill sig n = n\<lparr>n_kills := sig # n_kills n\<rparr>"

section \<open>The table\<close>

definition zero_name :: "byte list" where "zero_name = replicate MAX_DNS_NAME_SIZE 0"

definition pdu_init :: pdu where
  "pdu_init = \<lparr>p_state = \<lparr>oldstate = 0, sstate = 0\<rparr>, p_self = True, p_flags = 0 OR PDU_TYPE_SITP,
     p_errno = EPDU_SUCCESS, p_layer = 0, p_icb = 0, p_genid = 0, p_seqid = 0, p_ADAtype = 0, p_timer = 0,
     p_retry = 0, p_dest = zero_name, p_source = zero_name, p_ttl = 0, p_addr = 0, p_cid = None, p_total = 0,
     p_frames = []\<rparr>"

definition pdu_new :: "'a net_scheme \<Rightarrow> nat option \<times> 'a net_scheme" where
  "pdu_new n =
     (case List.find (\<lambda>i. \<not> p_self (n_pdu n i)) [0..<IMAGO_MAX_PDU] of
        None \<Rightarrow> (None, n)
      | Some i \<Rightarrow>
          (let n1 = upd_pdu i (\<lambda>_. pdu_init) n; n2 = n1\<lparr>n_count := n_count n1 + 1\<rparr> in
           (Some i, if n_max_count n2 < n_count n2 then n2\<lparr>n_max_count := n_count n2\<rparr> else n2)))"

definition pdu_free :: "nat \<Rightarrow> 'a net_scheme \<Rightarrow> 'a net_scheme" where
  "pdu_free i n =
     (if p_self (n_pdu n i)
      then (let n1 = upd_pdu i (\<lambda>p. p\<lparr>p_self := False\<rparr>) n; n2 = n1\<lparr>n_count := n_count n1 - 1\<rparr>;
                (fs, pl) = frame_destroy (p_frames (n_pdu n2 i)) (n_pool n2);
                n3 = upd_pdu i (\<lambda>p. p\<lparr>p_frames := fs\<rparr>) (n2\<lparr>n_pool := pl\<rparr>)
            in if n_count n3 = of_nat IMAGO_MAX_PDU - 1 then imago_signal_kill Sent_SIGIO n3 else n3)
      else n)"

definition pdu_enqueue :: "nat \<Rightarrow> 'a net_scheme \<Rightarrow> 'a net_scheme" where
  "pdu_enqueue i n = n\<lparr>n_list := n_list n @ [i]\<rparr>"

definition pdu_dequeue :: "'a net_scheme \<Rightarrow> nat option \<times> 'a net_scheme" where
  "pdu_dequeue n = (case n_list n of [] \<Rightarrow> (None, n) | i # is \<Rightarrow> (Some i, n\<lparr>n_list := is\<rparr>))"

definition pdu_set_state :: "nat \<Rightarrow> int \<Rightarrow> 'a net_scheme \<Rightarrow> 'a net_scheme" where
  "pdu_set_state i st = upd_pdu i (\<lambda>p. p\<lparr>p_state := (p_state p)\<lparr>sstate := st\<rparr>\<rparr>)"

definition pdu_size :: "nat \<Rightarrow> 'a net_scheme \<Rightarrow> int" where "pdu_size i n = frame_size (p_frames (n_pdu n i))"

section \<open>Reading and writing the frames of a PDU\<close>

definition on_frames ::
  "(frame list \<Rightarrow> pool \<Rightarrow> 'b \<times> frame list \<times> pool) \<Rightarrow> nat \<Rightarrow> 'a net_scheme \<Rightarrow> 'b \<times> 'a net_scheme" where
  "on_frames f i n =
     (let (r, fs, pl) = f (p_frames (n_pdu n i)) (n_pool n) in
      (r, upd_pdu i (\<lambda>p. p\<lparr>p_frames := fs\<rparr>) (n\<lparr>n_pool := pl\<rparr>)))"

definition pdu_write_text :: "byte list \<Rightarrow> nat \<Rightarrow> 'a net_scheme \<Rightarrow> int \<times> 'a net_scheme" where
  "pdu_write_text te = on_frames (frame_write_text te)"

definition pdu_write_string :: "byte list \<Rightarrow> nat \<Rightarrow> 'a net_scheme \<Rightarrow> int \<times> 'a net_scheme" where
  "pdu_write_string st = on_frames (frame_write_string st)"

definition pdu_write_int :: "word32 \<Rightarrow> nat \<Rightarrow> 'a net_scheme \<Rightarrow> int \<times> 'a net_scheme" where
  "pdu_write_int v = on_frames (frame_write_int v)"

definition pdu_write_short :: "16 word \<Rightarrow> nat \<Rightarrow> 'a net_scheme \<Rightarrow> int \<times> 'a net_scheme" where
  "pdu_write_short v = on_frames (frame_write_short v)"

definition pdu_write_byte :: "byte \<Rightarrow> nat \<Rightarrow> 'a net_scheme \<Rightarrow> int \<times> 'a net_scheme" where
  "pdu_write_byte c = on_frames (frame_write_byte c)"

text \<open>The bytes stored in the buffer and the result of the call.\<close>

definition pdu_read_text :: "int \<Rightarrow> nat \<Rightarrow> 'a net_scheme \<Rightarrow> (byte list \<times> int) \<times> 'a net_scheme" where
  "pdu_read_text k = on_frames (\<lambda>fs pl. let (bs, r, gs, p1) = frame_read_text k fs pl in ((bs, r), gs, p1))"

definition pdu_read_string :: "int \<Rightarrow> nat \<Rightarrow> 'a net_scheme \<Rightarrow> (byte list \<times> int) \<times> 'a net_scheme" where
  "pdu_read_string k = on_frames (\<lambda>fs pl. let (bs, r, gs, p1) = frame_read_string k fs pl in ((bs, r), gs, p1))"

text \<open>None: the result is -1 and the variable keeps its value.\<close>

definition pdu_read_int :: "nat \<Rightarrow> 'a net_scheme \<Rightarrow> word32 option \<times> 'a net_scheme" where
  "pdu_read_int = on_frames frame_read_int"

definition pdu_read_short :: "nat \<Rightarrow> 'a net_scheme \<Rightarrow> 16 word option \<times> 'a net_scheme" where
  "pdu_read_short = on_frames frame_read_short"

definition pdu_read_byte :: "nat \<Rightarrow> 'a net_scheme \<Rightarrow> byte option \<times> 'a net_scheme" where
  "pdu_read_byte = on_frames frame_read_byte"

definition pdu_erase_frame :: "int \<Rightarrow> nat \<Rightarrow> 'a net_scheme \<Rightarrow> int \<times> 'a net_scheme" where
  "pdu_erase_frame l = on_frames (frame_erase l)"

text \<open>
  frame_send: the do loop writes the rest of one frame until nothing is left;
  w k m is what the k-th call of write answers when asked to write m bytes, None
  for an error.  The bytes written, the next call and whether an error ended it;
  None if write accepts nothing for ever.
\<close>

definition send_step :: "(nat \<Rightarrow> nat \<Rightarrow> nat option) \<Rightarrow> nat \<times> byte list \<times> byte list \<times> bool option \<Rightarrow>
    nat \<times> byte list \<times> byte list \<times> bool option" where
  "send_step w = (\<lambda>(k, ax, out, r).
     case w k (length ax) of
       None \<Rightarrow> (k + 1, ax, out, Some False)
     | Some s1 \<Rightarrow> (k + 1, drop s1 ax, out @ take s1 ax, if s1 < length ax then None else Some True))"

definition send_frame :: "(nat \<Rightarrow> nat \<Rightarrow> nat option) \<Rightarrow> nat \<Rightarrow> frame \<Rightarrow> (nat \<times> byte list \<times> bool) option" where
  "send_frame w k f =
     map_option (\<lambda>(k, ax, out, r). (k, out, r = Some True))
       (while_option (\<lambda>(k, ax, out, r). r = None) (send_step w) (k, bytes_from f (f_top f + 1), [], None))"

fun frame_send :: "(nat \<Rightarrow> nat \<Rightarrow> nat option) \<Rightarrow> nat \<Rightarrow> frame list \<Rightarrow> (nat \<times> byte list) option" where
  "frame_send w k [] = Some (k, [])"
| "frame_send w k (f # fs) =
     Option.bind (send_frame w k f) (\<lambda>(k1, out, ok).
       if \<not> ok then Some (k1, out)
       else map_option (\<lambda>(k2, rest). (k2, out @ rest)) (frame_send w k1 fs))"

definition pdu_send_frame :: "(nat \<Rightarrow> nat \<Rightarrow> nat option) \<Rightarrow> nat \<Rightarrow> nat \<Rightarrow> 'a net_scheme \<Rightarrow> (nat \<times> byte list) option" where
  "pdu_send_frame w k i n = frame_send w k (p_frames (n_pdu n i))"

section \<open>Cloning\<close>

definition destroy_frames :: "nat \<Rightarrow> 'a net_scheme \<Rightarrow> 'a net_scheme" where
  "destroy_frames i n =
     (let (fs, pl) = frame_destroy (p_frames (n_pdu n i)) (n_pool n) in
      upd_pdu i (\<lambda>p. p\<lparr>p_frames := fs\<rparr>) (n\<lparr>n_pool := pl\<rparr>))"

text \<open>o: the original; c: the record to copy to, None to take a new one.\<close>

definition pdu_clone :: "nat \<Rightarrow> nat option \<Rightarrow> 'a net_scheme \<Rightarrow> nat option \<times> 'a net_scheme" where
  "pdu_clone o_pdu c n =
     (let (t, n1) = (case c of None \<Rightarrow> pdu_new n | Some i \<Rightarrow> (Some i, destroy_frames i n)) in
      case t of
        None \<Rightarrow> (None, n1)
      | Some t_pdu \<Rightarrow>
          (let orig = n_pdu n1 o_pdu;
               n2 = upd_pdu t_pdu (\<lambda>_. orig\<lparr>p_self := True, p_frames := []\<rparr>) n1;
               (r, fs, pl) = frame_copy [] (p_frames orig) (frame_size (p_frames orig)) (n_pool n2);
               n3 = upd_pdu t_pdu (\<lambda>p. p\<lparr>p_frames := fs\<rparr>) (n2\<lparr>n_pool := pl\<rparr>)
           in if r < 0
              then (let n4 = destroy_frames t_pdu n3 in (None, if c = None then pdu_free t_pdu n4 else n4))
              else (Some t_pdu, n3)))"

end
