(* ===== verification/MLVM_Backup.thy ===== *)
theory MLVM_Backup
  imports MLVM_Pdu
begin

text \<open>
  The backups of transport/pdu_backup.c, in the variant pdu_backup.h selects
  (_PDU_BACKUP_USE_CACHE is not defined): a file per backup, named after its key,
  and the file backup_list with an entry per backup number.
\<close>

section \<open>The spool directory\<close>

text \<open>
  A backup file holds the backup number, the image of the PDU record and the
  bytes of its frames; None for a part never written.
\<close>

record backup_file =
  bf_id :: "int option"
  bf_pdu :: "pdu option"
  bf_data :: "byte list"

text \<open>
  b_list is backup_list, None if there is no such file.  b_open k and b_ok k: the
  k-th operation, an open for writing or a write of the number or the record,
  succeeds; b_write answers the writes of frames.
\<close>

record spool = net +
  b_id :: int
  b_list :: "(int \<times> byte list) list option"
  b_files :: "byte list \<Rightarrow> backup_file option"
  b_ok :: "nat \<Rightarrow> bool"
  b_calls :: nat
  b_write :: "nat \<Rightarrow> nat \<Rightarrow> nat option"
  b_writes :: nat

definition set_file :: "byte list \<Rightarrow> backup_file option \<Rightarrow> 'a spool_scheme \<Rightarrow> 'a spool_scheme" where
  "set_file key f s = s\<lparr>b_files := (b_files s)(key := f)\<rparr>"

definition try_io :: "'a spool_scheme \<Rightarrow> bool \<times> 'a spool_scheme" where
  "try_io s = (b_ok s (b_calls s), s\<lparr>b_calls := b_calls s + 1\<rparr>)"

section \<open>The list of entries\<close>

definition create_entry :: "byte list \<Rightarrow> 'a spool_scheme \<Rightarrow> int \<times> 'a spool_scheme" where
  "create_entry str s =
     (b_id s, s\<lparr>b_id := b_id s + 1, b_list := Some ((case b_list s of None \<Rightarrow> [] | Some es \<Rightarrow> es) @ [(b_id s, str)])\<rparr>)"

definition NAME_MAX :: nat where "NAME_MAX = 255"

text \<open>Without a list fread is called on a null pointer.\<close>

definition find_entry :: "int \<Rightarrow> 'a spool_scheme \<Rightarrow> byte list res" where
  "find_entry i s =
     (case b_list s of
        None \<Rightarrow> Inl F_Null
      | Some es \<Rightarrow>
          Inr (case List.find (\<lambda>e. fst e = i) es of None \<Rightarrow> [] | Some e \<Rightarrow> take (NAME_MAX + 1) (snd e)))"

fun kept_entries :: "bool \<Rightarrow> int \<Rightarrow> (int \<times> byte list) list \<Rightarrow> (int \<times> byte list) list" where
  "kept_entries trigger i [] = []"
| "kept_entries trigger i (e # es) =
     (if trigger \<and> fst e \<noteq> i then e # kept_entries trigger i es
      else if fst e \<noteq> i then kept_entries True i es
      else kept_entries trigger i es)"

definition remove_entry :: "int \<Rightarrow> 'a spool_scheme \<Rightarrow> 'a spool_scheme" where
  "remove_entry i s = s\<lparr>b_list := map_option (kept_entries False i) (b_list s)\<rparr>"

section \<open>Saving\<close>

definition set_errno :: "pdu_error \<Rightarrow> nat \<Rightarrow> 'a net_scheme \<Rightarrow> 'a net_scheme" where
  "set_errno e i = upd_pdu i (\<lambda>p. p\<lparr>p_errno := e\<rparr>)"

text \<open>pdu_send_frame never answers less than 0, so a short write goes unnoticed.\<close>

definition pdu_backup_create :: "nat \<Rightarrow> byte list \<Rightarrow> 'a spool_scheme \<Rightarrow> (int \<times> 'a spool_scheme) res" where
  "pdu_backup_create i key s =
     (let (bid, s1) = create_entry key s; (opened, s2) = try_io s1 in
      if \<not> opened then Inr (- 1, set_errno EPDU_FOPEN i s2)
      else
        (let f = \<lparr>bf_id = None, bf_pdu = None, bf_data = []\<rparr>; s3 = set_file key (Some f) s2; (ok1, s4) = try_io s3 in
         if \<not> ok1 then Inr (- 1, remove_entry bid (set_errno EPDU_FWRITE i s4))
         else
           (let f1 = f\<lparr>bf_id := Some bid\<rparr>; s5 = set_file key (Some f1) s4; (ok2, s6) = try_io s5 in
            if \<not> ok2 then Inr (- 1, remove_entry bid (set_errno EPDU_FWRITE i s6))
            else
              (let f2 = f1\<lparr>bf_pdu := Some (n_pdu s6 i)\<rparr> in
               bind_res (of_opt (pdu_send_frame (b_write s6) (b_writes s6) i s6)) (\<lambda>(k, out).
                 Inr (bid, set_file key (Some (f2\<lparr>bf_data := out\<rparr>)) (s6\<lparr>b_writes := k\<rparr>)))))))"

section \<open>Restoring\<close>

text \<open>while ((amount = read(fd, buf, sizeof(buf))) > 0); the flag is False when the frames run out.\<close>

function append_chunks :: "byte list \<Rightarrow> frame list \<Rightarrow> pool \<Rightarrow> bool \<times> frame list \<times> pool" where
  "append_chunks bs fs pl =
     (if bs = [] then (True, fs, pl)
      else (let (r, gs, pl1) = frame_append_string (take FRAME_SIZE bs) fs pl in
            if r < 0 then (False, gs, pl1) else append_chunks (drop FRAME_SIZE bs) gs pl1))"
  by pat_completeness auto
termination by (relation "measure (\<lambda>(bs, fs, pl). length bs)") auto

declare append_chunks.simps [simp del]

text \<open>A missing file leaves the new PDU allocated.\<close>

definition pdu_backup_restore :: "byte list \<Rightarrow> 'a spool_scheme \<Rightarrow> nat option \<times> 'a spool_scheme" where
  "pdu_backup_restore key s =
     (case pdu_new s of
        (None, s1) \<Rightarrow> (None, s1)
      | (Some i, s1) \<Rightarrow>
          (case b_files s1 key of
             None \<Rightarrow> (None, s1)
           | Some f \<Rightarrow>
               (case bf_pdu f of
                  None \<Rightarrow> (None, pdu_free i (upd_pdu i (\<lambda>p. p\<lparr>p_self := True, p_frames := []\<rparr>) s1))
                | Some img \<Rightarrow>
                    (let (ok, fs, pl) = append_chunks (bf_data f) [] (n_pool s1);
                         s2 = upd_pdu i (\<lambda>_. img\<lparr>p_self := True, p_frames := fs\<rparr>) (s1\<lparr>n_pool := pl\<rparr>)
                     in if ok then (Some i, s2) else (None, pdu_free i s2)))))"

definition pdu_backup_restore_from_id :: "int \<Rightarrow> 'a spool_scheme \<Rightarrow> (nat option \<times> 'a spool_scheme) res" where
  "pdu_backup_restore_from_id i s =
     bind_res (find_entry i s) (\<lambda>key. Inr (if length key \<le> 0 then (None, s) else pdu_backup_restore key s))"

section \<open>Deleting\<close>

text \<open>If the number was never written to the file, id is used uninitialised.\<close>

definition pdu_backup_destroy :: "byte list \<Rightarrow> 'a spool_scheme \<Rightarrow> 'a spool_scheme res" where
  "pdu_backup_destroy key s =
     (case b_files s key of
        None \<Rightarrow> Inr s
      | Some f \<Rightarrow> (case bf_id f of None \<Rightarrow> Inl F_Uninit | Some i \<Rightarrow> Inr (set_file key None (remove_entry i s))))"

definition pdu_backup_destroy_from_id :: "int \<Rightarrow> 'a spool_scheme \<Rightarrow> 'a spool_scheme res" where
  "pdu_backup_destroy_from_id i s =
     bind_res (find_entry i s) (\<lambda>key. if 0 < length key then pdu_backup_destroy key s else Inr s)"

section \<open>The interface of the layers\<close>

definition backup_save :: "byte list \<Rightarrow> nat \<Rightarrow> 'a spool_scheme \<Rightarrow> (int \<times> 'a spool_scheme) res" where
  "backup_save key i = pdu_backup_create i key"

text \<open>The record to load to is not used.\<close>

definition backup_load :: "byte list \<Rightarrow> 'a spool_scheme \<Rightarrow> nat option \<times> 'a spool_scheme" where
  "backup_load key = pdu_backup_restore key"

definition backup_idload :: "int \<Rightarrow> 'a spool_scheme \<Rightarrow> (nat option \<times> 'a spool_scheme) res" where
  "backup_idload i = pdu_backup_restore_from_id i"

definition backup_cancel :: "byte list \<Rightarrow> 'a spool_scheme \<Rightarrow> 'a spool_scheme res" where
  "backup_cancel key = pdu_backup_destroy key"

definition backup_idcancel :: "int \<Rightarrow> 'a spool_scheme \<Rightarrow> 'a spool_scheme res" where
  "backup_idcancel i = pdu_backup_destroy_from_id i"

end
