(* ===== verification/MLVM_Layers.thy ===== *)
theory MLVM_Layers
  imports MLVM_Backup "HOL-Library.Char_ord"
begin

text \<open>
  What the layers of the transport protocol share: the handlers the state machine
  knows, the global variables of each layer, C strings in char arrays, and the
  start-up of transport/imago_protocol.c that registers the handlers.  The build
  modelled is the default one of transport/Makefile.in: threads, no security.
\<close>

section \<open>Handlers and global variables\<close>

datatype layer =
    Connection_up | Connection_down | Connection_async_send | Routing_up | Routing_down
  | Security_up | Security_down | ADA_up | ADA_down | Marshaling_up | Marshaling_down
  | Protocol_up | Protocol_down

text \<open>An entry of the routing cache; hostname is a char array.\<close>

record cache_entry =
  c_flags :: byte
  c_hostname :: "byte list"
  c_addr :: word32

text \<open>
  k_ids holds the variables imago_layer_..._stateid; k_hostname and k_aliases are
  texts, k_aliases is None for NULL; k_recv says whether a receive handler is
  registered; k_sys is the state of the system threads.
\<close>

record stack = spool +
  k_sm :: "layer state_table"
  k_ids :: "layer \<Rightarrow> int"
  k_generation :: "16 word"
  k_sequence :: word32
  k_shutdown :: bool
  k_hostname :: "byte list"
  k_aliases :: "byte list list option"
  k_cache :: "nat \<Rightarrow> cache_entry"
  k_recv :: bool
  k_sys :: sys

section \<open>C strings\<close>

text \<open>The text in an array; without a terminating zero the C code reads past the array.\<close>

definition c_array_string :: "byte list \<Rightarrow> byte list res" where
  "c_array_string a = (if 0 \<in> set a then Inr (takeWhile (\<lambda>b. b \<noteq> 0) a) else Inl F_Uninit)"

definition strcpy :: "byte list \<Rightarrow> byte list \<Rightarrow> byte list" where
  "strcpy dst src = src @ [0] @ drop (length src + 1) dst"

definition strncpy :: "byte list \<Rightarrow> byte list \<Rightarrow> nat \<Rightarrow> byte list" where
  "strncpy dst src n = take n src @ replicate (n - length src) 0 @ drop n dst"

text \<open>What a read of bs leaves in an array.\<close>

definition stored :: "byte list \<Rightarrow> byte list \<Rightarrow> byte list" where
  "stored bs dst = bs @ drop (length bs) dst"

definition ascii :: "string \<Rightarrow> byte list" where "ascii s = map of_char s"

definition text_of :: "byte list \<Rightarrow> string" where "text_of bs = map (\<lambda>b. char_of (unat b)) bs"

text \<open>printf's %d.\<close>

fun dec_nat :: "nat \<Rightarrow> byte list" where
  "dec_nat n = (if n < 10 then [48 + of_nat n] else dec_nat (n div 10) @ [48 + of_nat (n mod 10)])"

declare dec_nat.simps [simp del]

definition dec_int :: "int \<Rightarrow> byte list" where
  "dec_int i = (if i < 0 then 45 # dec_nat (nat (- i)) else dec_nat (nat i))"

section \<open>Start-up\<close>

definition register :: "layer \<Rightarrow> 'a stack_scheme \<Rightarrow> 'a stack_scheme" where
  "register l s =
     (let (i, m) = state_machine_register (Some l) (k_sm s) in s\<lparr>k_sm := m, k_ids := (k_ids s)(l := i)\<rparr>)"

text \<open>The registrations of imago_layer_init_table, in its order, and those of transport_init.\<close>

definition registration_order :: "layer list" where
  "registration_order =
     [Connection_up, Connection_down, Connection_async_send, Routing_up, Routing_down, Security_up,
      Security_down, ADA_up, ADA_down, Marshaling_up, Marshaling_down, Protocol_up, Protocol_down]"

definition register_layers :: "'a stack_scheme \<Rightarrow> 'a stack_scheme" where
  "register_layers s = fold register registration_order s"

section \<open>The queue of PDUs\<close>

text \<open>One turn of a transport thread; call l i is the handler l on the PDU i.\<close>

definition transport_run ::
  "(layer \<Rightarrow> nat \<Rightarrow> 'a stack_scheme \<Rightarrow> (int \<times> 'a stack_scheme) res) \<Rightarrow> 'a stack_scheme \<Rightarrow> (bool \<times> 'a stack_scheme) res"
where
  "transport_run call s =
     (case pdu_dequeue s of
        (None, s1) \<Rightarrow> Inr (False, s1)
      | (Some i, s1) \<Rightarrow>
          bind_res (state_machine (\<lambda>l. call l i) (k_sm s1) (\<lambda>s. p_state (n_pdu s i))
                     (\<lambda>st. upd_pdu i (\<lambda>p. p\<lparr>p_state := st\<rparr>)) s1)
            (\<lambda>(newstate, s2). Inr (True, if 0 < newstate then pdu_enqueue i s2 else s2)))"

end
