(* ===== verification/MLVM_Rendezvous.thy ===== *)
theory MLVM_Rendezvous
  imports MLVM_Layers
begin

text \<open>
  The ADA rendez-vous layer (transport/imago_layer_ADArendezvous.c): a transport
  PDU is backed up and sent as a REQUEST, the peer backs it up and answers with
  ACCEPT, the sender drops its backup and answers with ACK, or with NACK when it
  has no backup any more.  Timers resend what was not answered.
\<close>

section \<open>Packet types and keys\<close>

abbreviation ADA_TYPE_REQUEST :: "16 word" where "ADA_TYPE_REQUEST \<equiv> 0x0100"
abbreviation ADA_TYPE_ACCEPT :: "16 word" where "ADA_TYPE_ACCEPT \<equiv> 0x0200"
abbreviation ADA_TYPE_ACK :: "16 word" where "ADA_TYPE_ACK \<equiv> 0x0400"
abbreviation ADA_TYPE_NACK :: "16 word" where "ADA_TYPE_NACK \<equiv> 0x0800"
abbreviation ADA_TYPE_RETRY :: "16 word" where "ADA_TYPE_RETRY \<equiv> 0x0001"
abbreviation ADA_MAX_RETRY :: byte where "ADA_MAX_RETRY \<equiv> 3"

definition tv_rcv :: timeval where "tv_rcv = \<lparr>tv_sec = 60, tv_usec = 0\<rparr>"
definition tv_snd :: timeval where "tv_snd = \<lparr>tv_sec = 180, tv_usec = 0\<rparr>"

text \<open>The names of the backups of sent and of received PDUs; %d prints seqid as an int.\<close>

definition sent_key :: "16 word \<Rightarrow> word32 \<Rightarrow> byte list" where
  "sent_key gen seq = ascii ''ada'' @ dec_int (uint gen) @ ascii ''.'' @ dec_int (sint seq)"

definition received_key :: "byte list \<Rightarrow> 16 word \<Rightarrow> word32 \<Rightarrow> byte list" where
  "received_key source gen seq =
     ascii ''ada'' @ source @ ascii '':'' @ dec_int (uint gen) @ ascii ''.'' @ dec_int (sint seq)"

section \<open>Generation and sequence\<close>

text \<open>time(NULL) & 0xffff.\<close>

definition time_stamp :: "'a timers_scheme \<Rightarrow> 16 word \<times> 'a timers_scheme" where
  "time_stamp s = (let (tv, s1) = gettimeofday s in (word_of_int (tv_sec tv), s1))"

definition ada_init :: "'a stack_scheme \<Rightarrow> 'a stack_scheme" where
  "ada_init s =
     (let (g, s1) = time_stamp s in register ADA_down (register ADA_up (s1\<lparr>k_generation := g\<rparr>)))"

definition ada_shutdown :: "'a stack_scheme \<Rightarrow> 'a stack_scheme" where "ada_shutdown s = s\<lparr>k_shutdown := True\<rparr>"

definition get_gen_id :: "'a stack_scheme \<Rightarrow> 16 word" where "get_gen_id s = k_generation s"

definition get_seq_id :: "'a stack_scheme \<Rightarrow> word32 \<times> 'a stack_scheme" where
  "get_seq_id s =
     (let seq = k_sequence s; s1 = s\<lparr>k_sequence := seq + 1\<rparr> in
      (seq, if k_sequence s1 = 0 then (let (g, s2) = time_stamp s1 in s2\<lparr>k_generation := g\<rparr>) else s1))"

section \<open>Header\<close>

definition write_header :: "nat \<Rightarrow> 'a net_scheme \<Rightarrow> int \<times> 'a net_scheme" where
  "write_header i s =
     (let (r1, s1) = pdu_write_int (p_seqid (n_pdu s i)) i s in
      if r1 < 0 then (- 1, set_errno EPDU_MFRAME i s1)
      else (let (r2, s2) = pdu_write_short (p_ADAtype (n_pdu s1 i)) i s1 in
            if r2 < 0 then (- 1, set_errno EPDU_MFRAME i s2)
            else (let (r3, s3) = pdu_write_short (p_genid (n_pdu s2 i)) i s2 in
                  if r3 < 0 then (- 1, set_errno EPDU_MFRAME i s3) else (0, s3))))"

text \<open>A field that cannot be read keeps its value; the function returns 0.\<close>

definition read_header :: "nat \<Rightarrow> 'a net_scheme \<Rightarrow> 'a net_scheme" where
  "read_header i s =
     (let (g, s1) = pdu_read_short i s;
          s2 = (case g of None \<Rightarrow> s1 | Some v \<Rightarrow> upd_pdu i (\<lambda>p. p\<lparr>p_genid := v\<rparr>) s1);
          (t, s3) = pdu_read_short i s2;
          s4 = (case t of None \<Rightarrow> s3 | Some v \<Rightarrow> upd_pdu i (\<lambda>p. p\<lparr>p_ADAtype := v\<rparr>) s3);
          (q, s5) = pdu_read_int i s4
      in case q of None \<Rightarrow> s5 | Some v \<Rightarrow> upd_pdu i (\<lambda>p. p\<lparr>p_seqid := v\<rparr>) s5)"

section \<open>Control PDUs\<close>

definition dispatch_control_pdu :: "16 word \<Rightarrow> nat \<Rightarrow> 'a stack_scheme \<Rightarrow> (int \<times> 'a stack_scheme) res" where
  "dispatch_control_pdu ty i s =
     (case pdu_new s of
        (None, s1) \<Rightarrow> Inr (- 1, s1)
      | (Some c, s1) \<Rightarrow>
          bind_res (c_array_string (p_source (n_pdu s1 i))) (\<lambda>src.
            let this = n_pdu s1 i;
                s2 = upd_pdu c (\<lambda>p. p\<lparr>p_flags := p_flags p AND NOT PDU_TYPE_SITP, p_genid := p_genid this,
                       p_seqid := p_seqid this, p_ADAtype := ty, p_dest := strcpy (p_dest p) src\<rparr>) s1;
                (r, s3) = write_header c (pdu_set_state c (k_ids s2 Security_down) s2)
            in if r < 0 then Inr (- 1, pdu_free c s3) else Inr (0, pdu_enqueue c s3)))"

section \<open>Time-outs\<close>

definition timeout_callback :: "int \<Rightarrow> int \<Rightarrow> 'a stack_scheme \<Rightarrow> 'a stack_scheme res" where
  "timeout_callback i arg s =
     bind_res (backup_idload arg s) (\<lambda>(r, s1).
       case r of
         None \<Rightarrow> Inr s1
       | Some inc \<Rightarrow>
           if p_ADAtype (n_pdu s1 inc) AND ADA_TYPE_REQUEST \<noteq> 0 then
             (let s2 = (if \<not> p_retry (n_pdu s1 inc) <s ADA_MAX_RETRY
                        then timer_free i (pdu_set_state inc (k_ids s1 Marshaling_up)
                               (upd_pdu inc (\<lambda>p. p\<lparr>p_flags := p_flags p OR PDU_ERROR, p_errno := EPDU_NADA,
                                                    p_layer := k_ids s1 ADA_down\<rparr>) s1))
                        else upd_pdu inc (\<lambda>p. p\<lparr>p_ADAtype := p_ADAtype p OR ADA_TYPE_RETRY\<rparr>) s1)
              in bind_res (backup_idcancel arg s2) (\<lambda>s3. Inr (pdu_enqueue inc s3)))
           else if p_ADAtype (n_pdu s1 inc) AND ADA_TYPE_ACCEPT \<noteq> 0 then
             bind_res (dispatch_control_pdu ADA_TYPE_ACCEPT inc s1) (\<lambda>(_, s2).
               Inr (pdu_free inc (snd (timer_set i (Some tv_rcv) (Some Timeout_callback) arg s2))))
           else
             bind_res (backup_idcancel arg s1) (\<lambda>s2. Inr (pdu_free inc (timer_free i s2))))"

section \<open>Outgoing transport PDUs\<close>

definition ada_error :: "nat \<Rightarrow> 'a stack_scheme \<Rightarrow> int \<times> 'a stack_scheme" where
  "ada_error i s =
     (let s1 = upd_pdu i (\<lambda>p. p\<lparr>p_flags := p_flags p OR PDU_ERROR, p_layer := k_ids s ADA_down\<rparr>) s in
      (k_ids s Marshaling_up, timer_free (p_timer (n_pdu s1 i)) s1))"

text \<open>A first transmission takes a number and a timer.\<close>

definition ada_start :: "nat \<Rightarrow> 'a stack_scheme \<Rightarrow> 'a stack_scheme" where
  "ada_start i s =
     (let g = get_gen_id s; (q, s1) = get_seq_id s; (t, s2) = timer_new s1 in
      upd_pdu i (\<lambda>p. p\<lparr>p_genid := g, p_seqid := q, p_ADAtype := ADA_TYPE_REQUEST, p_timer := t, p_retry := 0\<rparr>) s2)"

definition ADArendezvous_down :: "nat \<Rightarrow> 'a stack_scheme \<Rightarrow> (int \<times> 'a stack_scheme) res" where
  "ADArendezvous_down i s =
     (let s1 = (if p_ADAtype (n_pdu s i) AND ADA_TYPE_RETRY = 0 then ada_start i s else s);
          s2 = upd_pdu i (\<lambda>p. p\<lparr>p_retry := p_retry p + 1\<rparr>) s1;
          key = sent_key (p_genid (n_pdu s2 i)) (p_seqid (n_pdu s2 i)) in
      bind_res (backup_save key i s2) (\<lambda>(b, s3).
        if b < 0 then Inr (ada_error i (set_errno EPDU_NBACK i s3))
        else (let (r, s4) = write_header i s3 in
              if r < 0 then Inr (ada_error i s4)
              else Inr (k_ids s4 Security_down,
                        snd (timer_set (p_timer (n_pdu s4 i)) (Some tv_snd) (Some Timeout_callback) b s4)))))"

section \<open>Incoming control PDUs\<close>

definition ada_accept :: "nat \<Rightarrow> 'a stack_scheme \<Rightarrow> 'a stack_scheme res" where
  "ada_accept i s =
     (if p_genid (n_pdu s i) \<noteq> get_gen_id s
      then bind_res (dispatch_control_pdu ADA_TYPE_NACK i s) (\<lambda>(_, s1). Inr s1)
      else (let key = sent_key (p_genid (n_pdu s i)) (p_seqid (n_pdu s i)) in
            case backup_load key s of
              (None, s1) \<Rightarrow> bind_res (dispatch_control_pdu ADA_TYPE_NACK i s1) (\<lambda>(_, s2). Inr s2)
            | (Some inc, s1) \<Rightarrow>
                bind_res (dispatch_control_pdu ADA_TYPE_ACK i (timer_free (p_timer (n_pdu s1 inc)) s1)) (\<lambda>(_, s2).
                bind_res (backup_cancel key s2) (\<lambda>s3. Inr (pdu_free inc s3)))))"

definition ada_ack :: "nat \<Rightarrow> 'a stack_scheme \<Rightarrow> 'a stack_scheme res" where
  "ada_ack i s =
     bind_res (c_array_string (p_source (n_pdu s i))) (\<lambda>src.
       let key = received_key src (p_genid (n_pdu s i)) (p_seqid (n_pdu s i)) in
       case backup_load key s of
         (None, s1) \<Rightarrow> Inr s1
       | (Some inc, s1) \<Rightarrow>
           bind_res (backup_cancel key (timer_free (p_timer (n_pdu s1 inc)) s1)) (\<lambda>s2.
             Inr (pdu_enqueue inc (pdu_set_state inc (k_ids s2 Marshaling_up) s2))))"

definition ada_nack :: "nat \<Rightarrow> 'a stack_scheme \<Rightarrow> 'a stack_scheme res" where
  "ada_nack i s =
     bind_res (c_array_string (p_source (n_pdu s i))) (\<lambda>src.
       let key = received_key src (p_genid (n_pdu s i)) (p_seqid (n_pdu s i)) in
       case backup_load key s of
         (None, s1) \<Rightarrow> backup_cancel key s1
       | (Some inc, s1) \<Rightarrow>
           bind_res (backup_cancel key (timer_free (p_timer (n_pdu s1 inc)) s1)) (\<lambda>s2. Inr (pdu_free inc s2)))"

definition ADArendezvous_control_up :: "nat \<Rightarrow> 'a stack_scheme \<Rightarrow> (int \<times> 'a stack_scheme) res" where
  "ADArendezvous_control_up i s =
     (let s1 = read_header i s; ty = p_ADAtype (n_pdu s1 i); drop_pdu = (\<lambda>s2. Inr (STATE_MACHINE_ID_INVALID, pdu_free i s2)) in
      if ty = ADA_TYPE_ACCEPT then bind_res (ada_accept i s1) drop_pdu
      else if ty = ADA_TYPE_ACK then bind_res (ada_ack i s1) drop_pdu
      else if ty = ADA_TYPE_NACK then bind_res (ada_nack i s1) drop_pdu
      else Inr (k_ids s1 Marshaling_up, s1))"

section \<open>Incoming transport PDUs\<close>

text \<open>A PDU that could not be sent is replaced by its backup.\<close>

definition ada_recover :: "nat \<Rightarrow> 'a stack_scheme \<Rightarrow> int \<times> 'a stack_scheme" where
  "ada_recover i s =
     (let this = n_pdu s i in
      case backup_load (sent_key (p_genid this) (p_seqid this)) (pdu_free i s) of
        (None, s1) \<Rightarrow> (STATE_MACHINE_ID_INVALID, s1)
      | (Some b, s1) \<Rightarrow>
          (let s2 = upd_pdu b (\<lambda>p. p\<lparr>p_errno := p_errno this, p_layer := p_layer this,
                      p_flags := p_flags p OR PDU_ERROR\<rparr>) s1
           in (STATE_MACHINE_ID_INVALID, pdu_enqueue b (pdu_set_state b (k_ids s2 Marshaling_up) s2))))"

definition ADArendezvous_transport_up :: "nat \<Rightarrow> 'a stack_scheme \<Rightarrow> (int \<times> 'a stack_scheme) res" where
  "ADArendezvous_transport_up i s =
     (if p_flags (n_pdu s i) AND PDU_ERROR \<noteq> 0 then Inr (ada_recover i s)
      else if k_shutdown s then Inr (STATE_MACHINE_ID_INVALID, pdu_free i s)
      else
        (let s1 = read_header i s in
         bind_res (c_array_string (p_source (n_pdu s1 i))) (\<lambda>src.
           let key = received_key src (p_genid (n_pdu s1 i)) (p_seqid (n_pdu s1 i));
               (t, s2) = timer_new s1; s3 = upd_pdu i (\<lambda>p. p\<lparr>p_timer := t\<rparr>) s2 in
           bind_res (backup_save key i s3) (\<lambda>(b, s4).
             if b < 0 then Inr (STATE_MACHINE_ID_INVALID, pdu_free i s4)
             else bind_res (dispatch_control_pdu ADA_TYPE_ACCEPT i s4) (\<lambda>(_, s5).
               Inr (STATE_MACHINE_ID_INVALID,
                    pdu_free i (snd (timer_set (p_timer (n_pdu s5 i)) (Some tv_rcv) (Some Timeout_callback) b s5))))))))"

definition ADArendezvous_up :: "nat \<Rightarrow> 'a stack_scheme \<Rightarrow> (int \<times> 'a stack_scheme) res" where
  "ADArendezvous_up i s =
     (if p_flags (n_pdu s i) AND PDU_TYPE_SITP \<noteq> 0 then ADArendezvous_transport_up i s
      else ADArendezvous_control_up i s)"

end
