(* ===== verification/MLVM_Routing.thy ===== *)
theory MLVM_Routing
  imports MLVM_Layers
begin

text \<open>
  The routing layer (transport/imago_layer_routing.c): the destination of a PDU is
  resolved to an address, directly or through the gateways igw.<domain>, with a
  direct-mapped cache; an incoming PDU is for this host or forwarded.  dns is
  gethostbyname, the first address it finds.
\<close>

section \<open>Comparing strings\<close>

text \<open>strncmp(a, b, n) == 0 and strncasecmp(a, b, n) == 0 on arrays.\<close>

fun strn_eq :: "(byte \<Rightarrow> byte) \<Rightarrow> nat \<Rightarrow> byte list \<Rightarrow> byte list \<Rightarrow> bool" where
  "strn_eq f 0 as bs = True"
| "strn_eq f (Suc n) (a # as) (b # bs) = (f a = f b \<and> (a = 0 \<or> strn_eq f n as bs))"
| "strn_eq f (Suc n) as bs = (as = bs)"

definition strncmp_eq :: "nat \<Rightarrow> byte list \<Rightarrow> byte list \<Rightarrow> bool" where
  "strncmp_eq = strn_eq (\<lambda>b. b)"

definition tolower :: "byte \<Rightarrow> byte" where "tolower b = (if 65 \<le> b \<and> b \<le> 90 then b + 32 else b)"

definition strncasecmp_eq :: "nat \<Rightarrow> byte list \<Rightarrow> byte list \<Rightarrow> bool" where
  "strncasecmp_eq = strn_eq tolower"

text \<open>strchr(a, c): the rest of the array from the first c on; an array without a zero is overrun.\<close>

fun strchr :: "byte \<Rightarrow> byte list \<Rightarrow> byte list option res" where
  "strchr c [] = Inl F_Uninit"
| "strchr c (b # bs) = (if b = c then Inr (Some (b # bs)) else if b = 0 then Inr None else strchr c bs)"

section \<open>Hashing (transport/imago_protocol.c)\<close>

text \<open>char is signed; the loop over the text, with the counter i, and the final step.\<close>

fun hash_loop :: "byte list \<Rightarrow> nat \<Rightarrow> word32 \<Rightarrow> word32 \<Rightarrow> nat \<times> word32 \<times> word32" where
  "hash_loop [] i h v = (i, h, v)"
| "hash_loop (k # ks) i h v =
     (let v1 = push_bit 8 v OR scast k in
      hash_loop ks (i + 1) (if i mod 4 = 0 then h + v1 * of_nat i else h) v1)"

definition strhash_np :: "byte list \<Rightarrow> nat \<Rightarrow> nat" where
  "strhash_np key n =
     (let (i, h, v) = hash_loop key 1 0 0; h1 = h + v * of_nat i in
      if \<not> h1 <s 0 then unat h1 mod n else unat (- h1) mod n)"

section \<open>The cache\<close>

definition MAX_ROUTING_CACHE_ENTRY :: nat where "MAX_ROUTING_CACHE_ENTRY = 256"
abbreviation CACHE_VALID :: byte where "CACHE_VALID \<equiv> 1"
definition CACHE_STATIC :: byte where "CACHE_STATIC = 2 AND CACHE_VALID"

text \<open>name is a text.\<close>

definition find_in_cache :: "byte list \<Rightarrow> 'a stack_scheme \<Rightarrow> word32 option" where
  "find_in_cache name s =
     (let e = k_cache s (strhash_np name MAX_ROUTING_CACHE_ENTRY) in
      if c_flags e AND CACHE_VALID \<noteq> 0 \<and> strncmp_eq MAX_DNS_NAME_SIZE (name @ [0]) (c_hostname e)
      then Some (c_addr e) else None)"

definition update_the_cache :: "byte list \<Rightarrow> word32 \<Rightarrow> 'a stack_scheme \<Rightarrow> 'a stack_scheme" where
  "update_the_cache name inet s =
     (let hv = strhash_np name MAX_ROUTING_CACHE_ENTRY; e = k_cache s hv in
      if c_flags e AND CACHE_STATIC = 0
      then s\<lparr>k_cache := (k_cache s)(hv := e\<lparr>c_hostname := strncpy (c_hostname e) name (MAX_DNS_NAME_SIZE - 1),
                                          c_addr := inet, c_flags := CACHE_VALID\<rparr>)\<rparr>
      else s)"

definition lookup :: "(byte list \<Rightarrow> word32 option) \<Rightarrow> byte list \<Rightarrow> 'a stack_scheme \<Rightarrow> word32 option \<times> 'a stack_scheme" where
  "lookup dns name s =
     (case find_in_cache name s of
        Some a \<Rightarrow> (Some a, s)
      | None \<Rightarrow> (case dns name of None \<Rightarrow> (None, s) | Some a \<Rightarrow> (Some a, update_the_cache name a s)))"

section \<open>Routes\<close>

definition IMAGO_ROUTER_SYMB_NAME :: "byte list" where "IMAGO_ROUTER_SYMB_NAME = ascii ''igw''"

text \<open>
  while (1): name is what hostname points to, direct says that it is the
  destination itself, domain the part of the destination's array domain points to.
\<close>

lemma strchr_shorter: "strchr c bs = Inr (Some ds) \<Longrightarrow> length ds \<le> length bs"
  by (induction c bs rule: strchr.induct) (auto split: if_splits)

function resolve_loop ::
  "(byte list \<Rightarrow> word32 option) \<Rightarrow> byte list \<Rightarrow> byte list \<Rightarrow> bool \<Rightarrow> byte list \<Rightarrow> 'a stack_scheme \<Rightarrow>
     (word32 option \<times> 'a stack_scheme) res"
where
  "resolve_loop dns dest name direct domain s =
     (case lookup dns name s of
        (Some a, s1) \<Rightarrow> Inr (Some a, if direct then s1 else update_the_cache dest a s1)
      | (None, s1) \<Rightarrow>
          (case strchr 46 (tl domain) of
             Inl e \<Rightarrow> Inl e
           | Inr None \<Rightarrow> Inr (None, s1)
           | Inr (Some d) \<Rightarrow>
               (case c_array_string d of
                  Inl e \<Rightarrow> Inl e
                | Inr t \<Rightarrow>
                    resolve_loop dns dest (take (MAX_DNS_NAME_SIZE - 2) (IMAGO_ROUTER_SYMB_NAME @ t)) False d s1)))"
  by pat_completeness auto
termination
proof (relation "measure (\<lambda>(dns, dest, name, direct, domain, s). length domain)", goal_cases)
  case (2 dns dest name direct domain s p s1 r d t)
  have "strchr 46 (tl domain) = Inr (Some d)" using 2 by simp
  hence "length d \<le> length (tl domain)" "tl domain \<noteq> []" using strchr_shorter by (fastforce, auto)
  thus ?case by (cases domain) auto
qed simp

declare resolve_loop.simps [simp del]

text \<open>The address goes into the PDU.\<close>

definition resolve_route :: "(byte list \<Rightarrow> word32 option) \<Rightarrow> nat \<Rightarrow> 'a stack_scheme \<Rightarrow> (bool \<times> 'a stack_scheme) res" where
  "resolve_route dns i s =
     bind_res (c_array_string (p_dest (n_pdu s i))) (\<lambda>dest.
       case find_in_cache dest s of
         Some a \<Rightarrow> Inr (True, upd_pdu i (\<lambda>p. p\<lparr>p_addr := a\<rparr>) s)
       | None \<Rightarrow>
           bind_res (resolve_loop dns dest dest True (p_dest (n_pdu s i)) s) (\<lambda>(r, s1).
             Inr (case r of None \<Rightarrow> (False, s1) | Some a \<Rightarrow> (True, upd_pdu i (\<lambda>p. p\<lparr>p_addr := a\<rparr>) s1))))"

section \<open>Outgoing PDUs\<close>

definition routing_error :: "nat \<Rightarrow> 'a stack_scheme \<Rightarrow> int \<times> 'a stack_scheme" where
  "routing_error i s =
     (if p_flags (n_pdu s i) AND PDU_FLAG_FORWARDING \<noteq> 0 \<or> p_flags (n_pdu s i) AND PDU_TYPE_SITP = 0
      then (STATE_MACHINE_ID_INVALID, pdu_free i s)
      else (k_ids s Security_up, upd_pdu i (\<lambda>p. p\<lparr>p_flags := p_flags p OR PDU_ERROR, p_layer := k_ids s Routing_down\<rparr>) s))"

definition routing_header :: "nat \<Rightarrow> 'a stack_scheme \<Rightarrow> (int \<times> 'a stack_scheme) res" where
  "routing_header i s =
     (let fail = (\<lambda>s1. Inr (routing_error i (set_errno EPDU_MFRAME i s1)));
          (r1, s1) = pdu_write_byte (p_ttl (n_pdu s i)) i s in
      if r1 < 0 then fail s1
      else bind_res (c_array_string (p_source (n_pdu s1 i))) (\<lambda>src.
        let (r2, s2) = pdu_write_text src i s1 in
        if r2 < 0 then fail s2
        else bind_res (c_array_string (p_dest (n_pdu s2 i))) (\<lambda>dest.
          let (r3, s3) = pdu_write_text dest i s2 in
          if r3 < 0 then fail s3 else Inr (k_ids s3 Connection_down, s3))))"

definition routing_down :: "(byte list \<Rightarrow> word32 option) \<Rightarrow> nat \<Rightarrow> 'a stack_scheme \<Rightarrow> (int \<times> 'a stack_scheme) res" where
  "routing_down dns i s =
     (let s1 = (if p_flags (n_pdu s i) AND PDU_FLAG_FORWARDING = 0
                then upd_pdu i (\<lambda>p. p\<lparr>p_source := strcpy (p_source p) (k_hostname s), p_ttl := 0xff\<rparr>) s else s) in
      bind_res (resolve_route dns i s1) (\<lambda>(ok, s2).
        if \<not> ok then Inr (routing_error i (set_errno EPDU_HOST_NOT_FOUND i s2)) else routing_header i s2))"

section \<open>Incoming PDUs\<close>

text \<open>strncasecmp(name, destination, strlen(name)) == 0; the destination is an array.\<close>

definition known_as :: "byte list \<Rightarrow> byte list \<Rightarrow> bool" where
  "known_as dest name = strncasecmp_eq (length name) (name @ [0]) dest"

text \<open>Without aliases hostname_aliases[0] is read through a null pointer.\<close>

definition is_local :: "nat \<Rightarrow> 'a stack_scheme \<Rightarrow> bool res" where
  "is_local i s =
     (let dest = p_dest (n_pdu s i) in
      if known_as dest (k_hostname s) then Inr True
      else (case k_aliases s of None \<Rightarrow> Inl F_Null | Some al \<Rightarrow> Inr (list_ex (known_as dest) al)))"

text \<open>The two texts and the byte; pdu_read_text never answers less than 0.\<close>

definition read_names :: "nat \<Rightarrow> 'a stack_scheme \<Rightarrow> int \<times> 'a stack_scheme" where
  "read_names i s =
     (let ((bs, r1), s1) = pdu_read_text (int MAX_DNS_NAME_SIZE) i s;
          s2 = upd_pdu i (\<lambda>p. p\<lparr>p_dest := stored bs (p_dest p)\<rparr>) s1 in
      if r1 < 0 then (- 1, s2)
      else (let ((cs, r2), s3) = pdu_read_text (int MAX_DNS_NAME_SIZE) i s2;
                s4 = upd_pdu i (\<lambda>p. p\<lparr>p_source := stored cs (p_source p)\<rparr>) s3 in
            if r2 < 0 then (- 1, s4)
            else (case pdu_read_byte i s4 of
                    (None, s5) \<Rightarrow> (- 1, s5)
                  | (Some t, s5) \<Rightarrow> (0, upd_pdu i (\<lambda>p. p\<lparr>p_ttl := t\<rparr>) s5))))"

definition routing_up :: "nat \<Rightarrow> 'a stack_scheme \<Rightarrow> (int \<times> 'a stack_scheme) res" where
  "routing_up i s =
     (if p_flags (n_pdu s i) AND PDU_ERROR \<noteq> 0 then Inr (k_ids s Security_up, s)
      else
        (let (r, s1) = read_names i s in
         if r < 0 then Inr (STATE_MACHINE_ID_INVALID, pdu_free i s1)
         else bind_res (is_local i s1) (\<lambda>here.
           if here then Inr (k_ids s1 Security_up, s1)
           else
             (let ttl = p_ttl (n_pdu s1 i); s2 = upd_pdu i (\<lambda>p. p\<lparr>p_ttl := ttl - 1\<rparr>) s1 in
              if ttl = 0 then Inr (STATE_MACHINE_ID_INVALID, pdu_free i s2)
              else Inr (k_ids s2 Routing_down,
                        upd_pdu i (\<lambda>p. p\<lparr>p_flags := p_flags p OR PDU_FLAG_FORWARDING\<rparr>) s2)))))"

section \<open>Names of this host\<close>

definition get_imago_localhost :: "byte list \<Rightarrow> nat \<Rightarrow> 'a stack_scheme \<Rightarrow> byte list" where
  "get_imago_localhost outbuf olen s = strncpy (replicate olen 0 @ drop olen outbuf) (k_hostname s) (olen - 1)"

text \<open>
  gethost is what gethostname stores; hostent what gethostbyname answers for the
  name: the official name and the aliases, each kept to MAX_DNS_NAME_SIZE - 1 bytes.
\<close>

definition routing_init ::
  "byte list \<Rightarrow> (byte list \<Rightarrow> (byte list \<times> byte list list) option) \<Rightarrow> 'a stack_scheme \<Rightarrow> 'a stack_scheme" where
  "routing_init gethost hostent s =
     (let s1 = register Routing_down (register Routing_up s);
          s2 = (if k_hostname s1 = [] then s1\<lparr>k_hostname := gethost\<rparr> else s1) in
      case hostent (k_hostname s2) of
        None \<Rightarrow> s2
      | Some (h, al) \<Rightarrow>
          s2\<lparr>k_hostname := take (MAX_DNS_NAME_SIZE - 1) h, k_aliases := Some (map (take (MAX_DNS_NAME_SIZE - 1)) al),
             k_cache := (\<lambda>_. \<lparr>c_flags = 0, c_hostname = zero_name, c_addr = 0\<rparr>)\<rparr>)"

definition routing_cleanup :: "'a stack_scheme \<Rightarrow> 'a stack_scheme" where "routing_cleanup s = s\<lparr>k_aliases := None\<rparr>"

text \<open>arg is a text, None for NULL; only the option R_SERVER_NAME exists.\<close>

definition routing_setopt :: "bool \<Rightarrow> byte list option \<Rightarrow> 'a stack_scheme \<Rightarrow> int \<times> 'a stack_scheme" where
  "routing_setopt server_name arg s =
     (if server_name
      then (0, s\<lparr>k_hostname := (case arg of None \<Rightarrow> [] | Some t \<Rightarrow> take (MAX_DNS_NAME_SIZE - 1) t)\<rparr>)
      else (- 1, s))"

end
