(* ===== verification/MLVM_Marshal.thy ===== *)
theory MLVM_Marshal
  imports MLVM_Layers MLVM_Memory
begin

text \<open>
  The marshaling layer (transport/imago_layer_marshaling.c), which turns the ICB
  and the block of a moving imago into the bytes of a PDU and back, and the two
  handlers of transport/imago_protocol.c above it with transport_send.  The ICBs
  and the store are those of the system threads (k_sys).
\<close>

section \<open>Memory as bytes\<close>

text \<open>The bytes from a up to b; C's length is the signed difference of the two pointers.\<close>

definition span :: "addr \<Rightarrow> addr \<Rightarrow> nat" where "span a b = nat (sint (b - a))"

definition mem_bytes :: "store \<Rightarrow> addr \<Rightarrow> addr \<Rightarrow> byte list" where
  "mem_bytes m a b = map (\<lambda>k. get_byte m (a + of_nat k)) [0..<span a b]"

fun put_bytes_at :: "addr \<Rightarrow> byte list \<Rightarrow> store \<Rightarrow> store" where
  "put_bytes_at a [] m = m"
| "put_bytes_at a (b # bs) m = put_bytes_at (a + 1) bs (put_byte a b m)"

fun type_code :: "imago_type \<Rightarrow> byte" where
  "type_code STATIONARY = 0"
| "type_code WORKER = 1"
| "type_code MESSENGER = 2"
| "type_code SYS_MSGER = 3"

text \<open>A byte that is no enumerator is a fault of the model; C stores it all the same.\<close>

definition type_of_code :: "byte \<Rightarrow> imago_type res" where
  "type_of_code b =
     (if b = 0 then Inr STATIONARY else if b = 1 then Inr WORKER else if b = 2 then Inr MESSENGER
      else if b = 3 then Inr SYS_MSGER else Inl F_Uninit)"

section \<open>The outgoing direction\<close>

text \<open>if (pdu_write_...(...) < 0) goto error, for each of a list of writes.\<close>

fun write_seq :: "('s \<Rightarrow> int \<times> 's) list \<Rightarrow> 's \<Rightarrow> bool \<times> 's" where
  "write_seq [] s = (True, s)"
| "write_seq (w # ws) s = (let (r, s1) = w s in if r < 0 then (False, s1) else write_seq ws s1)"

definition marshal_ints :: "icb \<Rightarrow> word32 list" where
  "marshal_ints c =
     [block_ceiling c, stack_base c, name_top c, name_base c, code_base c, block_base c,
      i_pp c, i_af c, i_cp c, i_cf c, i_st c, i_bb c, i_b0 c, i_gl c, i_tt c]"

definition marshal_writes :: "ticb \<Rightarrow> store \<Rightarrow> nat \<Rightarrow> ('a net_scheme \<Rightarrow> int \<times> 'a net_scheme) list" where
  "marshal_writes t m i =
     (let c = core t in
      [pdu_write_string (mem_bytes m (i_tt c) (block_ceiling c)) i,
       pdu_write_string (mem_bytes m (stack_base c) (i_st c)) i,
       pdu_write_string (mem_bytes m (block_base c) (name_top c)) i] @
      map (\<lambda>v. pdu_write_int v i) (marshal_ints c) @
      [pdu_write_int (ip_jumps t) i,
       pdu_write_int (h_host_id (ip_citizenship t)) i,
       pdu_write_text (ascii (h_name (ip_citizenship t))) i,
       pdu_write_int (h_host_id (ip_queen t)) i,
       pdu_write_text (ascii (h_name (ip_queen t))) i,
       pdu_write_text (ascii (ip_name t)) i,
       pdu_write_byte (type_code (itype c)) i,
       pdu_write_int (ip_application t) i])"

definition marshaling_down :: "nat \<Rightarrow> 'a stack_scheme \<Rightarrow> int \<times> 'a stack_scheme" where
  "marshaling_down i s =
     (let ip = p_icb (n_pdu s i); (ok, s1) = write_seq (marshal_writes (s_icb (k_sys s) ip) (s_mem (k_sys s)) i) s in
      if ok
      then (k_ids s1 ADA_down, upd_pdu i (\<lambda>p. p\<lparr>p_icb := 0\<rparr>) (s1\<lparr>k_sys := icb_free ip (k_sys s1)\<rparr>))
      else (k_ids s1 Marshaling_up,
            upd_pdu i (\<lambda>p. p\<lparr>p_flags := p_flags p OR PDU_ERROR, p_errno := EPDU_MFRAME,
                             p_layer := k_ids s1 Marshaling_down\<rparr>) s1))"

section \<open>The incoming direction\<close>

definition upd_ip :: "addr \<Rightarrow> (ticb \<Rightarrow> ticb) \<Rightarrow> 'a stack_scheme \<Rightarrow> 'a stack_scheme" where
  "upd_ip ip f s = s\<lparr>k_sys := upd_icb ip f (k_sys s)\<rparr>"

text \<open>A field that cannot be read keeps its value.\<close>

definition read_field :: "nat \<Rightarrow> addr \<Rightarrow> (word32 \<Rightarrow> ticb \<Rightarrow> ticb) \<Rightarrow> 'a stack_scheme \<Rightarrow> 'a stack_scheme" where
  "read_field i ip f s = (case pdu_read_int i s of (None, s1) \<Rightarrow> s1 | (Some v, s1) \<Rightarrow> upd_ip ip (f v) s1)"

text \<open>
  A name is read into an array of MAX_DNS_NAME_SIZE zeros (a free ICB is cleared);
  80 bytes without a zero leave it unterminated.
\<close>

definition read_name :: "nat \<Rightarrow> addr \<Rightarrow> (string \<Rightarrow> ticb \<Rightarrow> ticb) \<Rightarrow> 'a stack_scheme \<Rightarrow> 'a stack_scheme res" where
  "read_name i ip f s =
     (let ((bs, r), s1) = pdu_read_text (int MAX_DNS_NAME_SIZE) i s in
      bind_res (c_array_string (stored bs zero_name)) (\<lambda>t. Inr (upd_ip ip (f (text_of t)) s1)))"

definition read_identity :: "nat \<Rightarrow> addr \<Rightarrow> 'a stack_scheme \<Rightarrow> 'a stack_scheme res" where
  "read_identity i ip s =
     (let s1 = read_field i ip (\<lambda>v t. t\<lparr>ip_application := v\<rparr>) s in
      case pdu_read_byte i s1 of
        (None, s2) \<Rightarrow> Inl F_Uninit
      | (Some b, s2) \<Rightarrow>
          bind_res (type_of_code b) (\<lambda>ty.
          bind_res (read_name i ip (\<lambda>v t. t\<lparr>ip_name := v\<rparr>) (upd_ip ip (\<lambda>t. t\<lparr>core := (core t)\<lparr>itype := ty\<rparr>\<rparr>) s2)) (\<lambda>s3.
          bind_res (read_name i ip (\<lambda>v t. t\<lparr>ip_queen := (ip_queen t)\<lparr>h_name := v\<rparr>\<rparr>) s3) (\<lambda>s4.
          bind_res (read_name i ip (\<lambda>v t. t\<lparr>ip_citizenship := (ip_citizenship t)\<lparr>h_name := v\<rparr>\<rparr>)
              (read_field i ip (\<lambda>v t. t\<lparr>ip_queen := (ip_queen t)\<lparr>h_host_id := v\<rparr>\<rparr>) s4)) (\<lambda>s5.
            Inr (read_field i ip (\<lambda>v t. t\<lparr>ip_jumps := v\<rparr>)
                  (read_field i ip (\<lambda>v t. t\<lparr>ip_citizenship := (ip_citizenship t)\<lparr>h_host_id := v\<rparr>\<rparr>) s5)))))))"

definition set_core :: "(word32 \<Rightarrow> icb \<Rightarrow> icb) \<Rightarrow> word32 \<Rightarrow> ticb \<Rightarrow> ticb" where
  "set_core f v t = t\<lparr>core := f v (core t)\<rparr>"

text \<open>The registers and the base pointers, in the order they are read.\<close>

definition core_fields :: "(word32 \<Rightarrow> icb \<Rightarrow> icb) list" where
  "core_fields =
     [\<lambda>v c. c\<lparr>i_tt := v\<rparr>, \<lambda>v c. c\<lparr>i_gl := v\<rparr>, \<lambda>v c. c\<lparr>i_b0 := v\<rparr>, \<lambda>v c. c\<lparr>i_bb := v\<rparr>, \<lambda>v c. c\<lparr>i_st := v\<rparr>,
      \<lambda>v c. c\<lparr>i_cf := v\<rparr>, \<lambda>v c. c\<lparr>i_cp := v\<rparr>, \<lambda>v c. c\<lparr>i_af := v\<rparr>, \<lambda>v c. c\<lparr>i_pp := v\<rparr>,
      \<lambda>v c. c\<lparr>block_base := v\<rparr>, \<lambda>v c. c\<lparr>code_base := v\<rparr>, \<lambda>v c. c\<lparr>name_base := v\<rparr>, \<lambda>v c. c\<lparr>name_top := v\<rparr>,
      \<lambda>v c. c\<lparr>stack_base := v\<rparr>, \<lambda>v c. c\<lparr>block_ceiling := v\<rparr>]"

definition read_core :: "nat \<Rightarrow> addr \<Rightarrow> 'a stack_scheme \<Rightarrow> 'a stack_scheme" where
  "read_core i ip s = fold (\<lambda>f. read_field i ip (set_core f)) core_fields s"

text \<open>distance is in bytes and is added to int pointers, which scales it, and to the two char pointers, which does not.\<close>

definition shift_pointers :: "word32 \<Rightarrow> icb \<Rightarrow> icb" where
  "shift_pointers distance c =
     move_registers distance
       (c\<lparr>block_base := padd (block_base c) distance, proc_base := padd (proc_base c) distance,
          code_base := padd (code_base c) distance, name_base := name_base c + distance,
          name_top := name_top c + distance, stack_base := padd (stack_base c) distance,
          block_ceiling := padd (block_ceiling c) distance\<rparr>)"

definition read_block :: "nat \<Rightarrow> addr \<Rightarrow> addr \<Rightarrow> 'a stack_scheme \<Rightarrow> 'a stack_scheme" where
  "read_block i a b s =
     (let ((bs, r), s1) = pdu_read_string (sint (b - a)) i s; sy = k_sys s1 in
      s1\<lparr>k_sys := sy\<lparr>s_mem := put_bytes_at a bs (s_mem sy)\<rparr>\<rparr>)"

text \<open>The trail is adjusted in place.\<close>

primrec adjust_trail :: "word32 \<Rightarrow> nat \<Rightarrow> addr \<Rightarrow> store \<Rightarrow> store" where
  "adjust_trail d 0 tp1 m = m"
| "adjust_trail d (Suc n) tp1 m =
     (let t = tp1 + 4; bx = m t in
      adjust_trail d n t (m(t := (if is_var bx then padd bx d else make_str (padd (addr bx) d)))))"

text \<open>distance /= sizeof(int) divides as unsigned.\<close>

definition block_adjust :: "icb \<Rightarrow> word32 \<Rightarrow> store \<Rightarrow> store option" where
  "block_adjust c distance m =
     (let d = distance div 4 in
      Option.bind (relocate_block d c m) (\<lambda>m1.
        Some (adjust_trail d (unat (pdiff (block_ceiling c) (i_tt c))) (i_tt c - 4) m1)))"

definition give_up :: "nat \<Rightarrow> addr \<Rightarrow> 'a stack_scheme \<Rightarrow> int \<times> 'a stack_scheme" where
  "give_up i ip s =
     (let s1 = upd_ip ip (\<lambda>t. t\<lparr>core := (core t)\<lparr>block_base := 0\<rparr>\<rparr>) s in
      (STATE_MACHINE_ID_INVALID, pdu_free i (s1\<lparr>k_sys := icb_free ip (k_sys s1)\<rparr>)))"

text \<open>The part after icb_new; new_base is what malloc returns.  Inr (Inl r) is an early return.\<close>

definition unmarshal :: "addr \<Rightarrow> nat \<Rightarrow> addr \<Rightarrow> 'a stack_scheme \<Rightarrow> ((int \<times> 'a stack_scheme) + 'a stack_scheme) res" where
  "unmarshal new_base i ip s =
     bind_res (read_identity i ip s) (\<lambda>s1.
       let s2 = read_core i ip s1; old_base = block_base (core (s_icb (k_sys s2) ip));
           s3 = upd_ip ip (\<lambda>t. t\<lparr>core := (core t)\<lparr>proc_base := old_base\<rparr>\<rparr>) s2;
           c = core (s_icb (k_sys s3) ip) in
       if block_ceiling c - block_base c \<le>s 0 \<or> new_base = 0 then Inr (Inl (give_up i ip s3))
       else
         (let distance = new_base - old_base;
              s4 = upd_ip ip (\<lambda>t. t\<lparr>core := shift_pointers distance (core t)\<rparr>) s3;
              c4 = core (s_icb (k_sys s4) ip);
              s5 = read_block i (block_base c4) (name_top c4) s4;
              s6 = read_block i (stack_base c4) (i_st c4) s5;
              s7 = read_block i (i_tt c4) (block_ceiling c4) s6 in
          bind_res (of_opt (block_adjust c4 distance (s_mem (k_sys s7)))) (\<lambda>m.
            Inr (Inr (s7\<lparr>k_sys := (k_sys s7)\<lparr>s_mem := m\<rparr>\<rparr>)))))"

definition marshaling_up :: "addr \<Rightarrow> nat \<Rightarrow> 'a stack_scheme \<Rightarrow> (int \<times> 'a stack_scheme) res" where
  "marshaling_up new_base i s =
     (let finish = (\<lambda>s1. let ip = p_icb (n_pdu s1 i);
                             st = (if p_flags (n_pdu s1 i) AND PDU_ERROR \<noteq> 0 then IMAGO_ERROR else IMAGO_MOVE_IN)
                         in (k_ids s1 Protocol_up, upd_ip ip (\<lambda>t. t\<lparr>core := (core t)\<lparr>status := st\<rparr>\<rparr>) s1)) in
      if p_icb (n_pdu s i) = 0
      then bind_res (icb_new (k_sys s)) (\<lambda>(ip, sy).
             bind_res (unmarshal new_base i ip (upd_pdu i (\<lambda>p. p\<lparr>p_icb := ip\<rparr>) (s\<lparr>k_sys := sy\<rparr>))) (\<lambda>r.
               Inr (case r of Inl e \<Rightarrow> e | Inr s1 \<Rightarrow> finish s1)))
      else Inr (finish s))"

section \<open>Top of the stack (transport/imago_protocol.c)\<close>

definition protocol_down :: "nat \<Rightarrow> 'a stack_scheme \<Rightarrow> int \<times> 'a stack_scheme" where
  "protocol_down i s =
     (if p_icb (n_pdu s i) = 0 then (STATE_MACHINE_ID_INVALID, pdu_free i s) else (k_ids s Marshaling_down, s))"

text \<open>The handler mlvm.c registers, imago_in_cb of system/imago_in.c, enters the ICB in the in-queue.\<close>

definition protocol_up :: "nat \<Rightarrow> 'a stack_scheme \<Rightarrow> int \<times> 'a stack_scheme" where
  "protocol_up i s =
     (let s1 = (if k_recv s then s\<lparr>k_sys := icb_put_signal IN_Q (p_icb (n_pdu s i)) (k_sys s)\<rparr> else s) in
      (STATE_MACHINE_ID_INVALID, pdu_free i s1))"

definition transport_send :: "byte list \<Rightarrow> addr \<Rightarrow> 'a stack_scheme \<Rightarrow> int \<times> 'a stack_scheme" where
  "transport_send to_host ip s =
     (if ip = 0 then (- 1, s)
      else (case pdu_new s of
              (None, s1) \<Rightarrow> (- 1, s1)
            | (Some i, s1) \<Rightarrow>
                (0, pdu_enqueue i (upd_pdu i (\<lambda>p. p\<lparr>p_icb := ip,
                      p_dest := strncpy (p_dest p) to_host (MAX_DNS_NAME_SIZE - 1)\<rparr>)
                      (pdu_set_state i (k_ids s1 Protocol_down) s1)))))"

end
