(* ===== verification/MLVM_Connection.thy ===== *)
theory MLVM_Connection
  imports MLVM_Rendezvous MLVM_Routing MLVM_Marshal
begin

text \<open>
  The connection table of transport/connection.c and the connection layer above it
  (transport/imago_layer_connection.c): PDUs leave through a TCP connection per
  peer, small control PDUs through UDP, and are cut out of the received bytes by
  the length in their header.  The calls of the socket interface are answered by
  the oracle fields of the state; what is sent is logged.
\<close>

section \<open>State\<close>

datatype con_status = C_FREE | C_ACTIVE | C_LOCKED

text \<open>Addresses of peers only; a connection is its index in the table.\<close>

record con =
  cn_status :: con_status
  cn_fd :: int
  cn_peer :: word32
  cn_frames :: "frame list"
  cn_time :: int

text \<open>
  w_recv k is the k-th answer of con_rcv's ioctl and recv: the bytes received, or
  the amount (not positive) when there are none.  w_test k: the peer is there.
  w_accept and w_dgrams hold what waits at the two server sockets.
\<close>

record wires = stack +
  w_con :: "nat \<Rightarrow> con"
  w_timer :: int
  w_timeout :: int
  w_waiting :: "nat list"
  w_stream :: int
  w_dgram :: int
  w_threads :: nat
  w_socket :: "nat \<Rightarrow> int"
  w_connect :: "nat \<Rightarrow> bool"
  w_send :: "nat \<Rightarrow> bool"
  w_write :: "int \<Rightarrow> nat \<Rightarrow> nat \<Rightarrow> nat option"
  w_recv :: "nat \<Rightarrow> int + byte list"
  w_test :: "nat \<Rightarrow> bool"
  w_calls :: nat
  w_accept :: "(int \<times> word32) list"
  w_dgrams :: "(byte list \<times> word32) list"
  w_sent :: "(int \<times> byte list) list"

definition IMAGO_MAX_CONNECTION :: nat where "IMAGO_MAX_CONNECTION = 255"
definition tv_c :: timeval where "tv_c = \<lparr>tv_sec = 120, tv_usec = 0\<rparr>"

definition upd_con :: "nat \<Rightarrow> (con \<Rightarrow> con) \<Rightarrow> 'a wires_scheme \<Rightarrow> 'a wires_scheme" where
  "upd_con c f s = s\<lparr>w_con := (w_con s)(c := f (w_con s c))\<rparr>"

text \<open>The next answer of an oracle field.\<close>

definition next_answer :: "('a wires_scheme \<Rightarrow> nat \<Rightarrow> 'b) \<Rightarrow> 'a wires_scheme \<Rightarrow> 'b \<times> 'a wires_scheme" where
  "next_answer f s = (f s (w_calls s), s\<lparr>w_calls := w_calls s + 1\<rparr>)"

definition free_con :: con where
  "free_con = \<lparr>cn_status = C_FREE, cn_fd = 0, cn_peer = 0, cn_frames = [], cn_time = 0\<rparr>"

section \<open>Connections (transport/connection.c)\<close>

definition con_init :: "'a wires_scheme \<Rightarrow> 'a wires_scheme" where
  "con_init s =
     (let (t, s1) = timer_new (s\<lparr>w_con := (\<lambda>_. free_con)\<rparr>) in
      snd (timer_set t (Some tv_c) (Some SIGALRM_cleanup) 0 (s1\<lparr>w_timer := t\<rparr>)))"

definition con_trylock :: "nat \<Rightarrow> 'a wires_scheme \<Rightarrow> int \<times> 'a wires_scheme" where
  "con_trylock c s =
     (if cn_status (w_con s c) = C_ACTIVE then (0, upd_con c (\<lambda>t. t\<lparr>cn_status := C_LOCKED\<rparr>) s) else (- 1, s))"

text \<open>A locked connection is waited for.\<close>

definition con_lock :: "nat \<Rightarrow> 'a wires_scheme \<Rightarrow> (int \<times> 'a wires_scheme) res" where
  "con_lock c s =
     (case cn_status (w_con s c) of
        C_ACTIVE \<Rightarrow> Inr (0, upd_con c (\<lambda>t. t\<lparr>cn_status := C_LOCKED\<rparr>) s)
      | C_LOCKED \<Rightarrow> Inl F_Blocked
      | C_FREE \<Rightarrow> Inr (- 1, s))"

definition con_unlock :: "nat \<Rightarrow> 'a wires_scheme \<Rightarrow> int \<times> 'a wires_scheme" where
  "con_unlock c s =
     (if cn_status (w_con s c) = C_LOCKED then (0, upd_con c (\<lambda>t. t\<lparr>cn_status := C_ACTIVE\<rparr>) s) else (- 1, s))"

text \<open>The ring walk of hash and hash_new from the slot of the key.\<close>

definition ring :: "word32 \<Rightarrow> nat list" where
  "ring key = (let slot = unat key mod IMAGO_MAX_CONNECTION in [slot..<IMAGO_MAX_CONNECTION] @ [0..<slot])"

fun probe :: "(nat \<Rightarrow> con) \<Rightarrow> word32 \<Rightarrow> con_status \<Rightarrow> nat list \<Rightarrow> nat option" where
  "probe t key st [] = None"
| "probe t key st (c # cs) =
     (if cn_status (t c) = C_FREE then (if st \<noteq> C_FREE then None else Some c)
      else if cn_status (t c) = st \<and> cn_peer (t c) = key then Some c
      else probe t key st cs)"

definition con_hash :: "word32 \<Rightarrow> con_status \<Rightarrow> 'a wires_scheme \<Rightarrow> nat option" where
  "con_hash key st s = probe (w_con s) key st (ring key)"

definition hash_new :: "word32 \<Rightarrow> 'a wires_scheme \<Rightarrow> nat option" where
  "hash_new key s = List.find (\<lambda>c. cn_status (w_con s c) = C_FREE) (ring key)"

definition con_new :: "word32 \<Rightarrow> 'a wires_scheme \<Rightarrow> nat option \<times> 'a wires_scheme" where
  "con_new raddr s =
     (case con_hash raddr C_FREE s of
        None \<Rightarrow> (None, s)
      | Some c \<Rightarrow> (Some c, upd_con c (\<lambda>t. t\<lparr>cn_peer := raddr, cn_status := C_LOCKED\<rparr>) s))"

definition con_free :: "nat \<Rightarrow> 'a wires_scheme \<Rightarrow> 'a wires_scheme" where
  "con_free c s =
     (let (r, s1) = con_trylock c s in
      if 0 \<le> r then snd (con_unlock c s1)
      else (let (fs, pl) = frame_destroy (cn_frames (w_con s1 c)) (n_pool s1) in
            upd_con c (\<lambda>t. t\<lparr>cn_frames := fs, cn_status := C_FREE\<rparr>) (s1\<lparr>n_pool := pl\<rparr>)))"

definition lookup_con :: "word32 \<Rightarrow> 'a wires_scheme \<Rightarrow> nat option \<times> 'a wires_scheme" where
  "lookup_con raddr s =
     (case con_hash raddr C_ACTIVE s of
        None \<Rightarrow> (None, s)
      | Some c \<Rightarrow> (let (r, s1) = con_trylock c s in (if r < 0 then None else Some c, s1)))"

text \<open>c_h is NULL in every call.\<close>

definition make_connection :: "word32 \<Rightarrow> 'a wires_scheme \<Rightarrow> nat option \<times> 'a wires_scheme" where
  "make_connection raddr s =
     (case con_new raddr s of
        (None, s1) \<Rightarrow> (None, s1)
      | (Some c, s1) \<Rightarrow>
          (let (fd, s2) = next_answer w_socket s1; s3 = upd_con c (\<lambda>t. t\<lparr>cn_fd := fd\<rparr>) s2 in
           if fd < 0 then (None, con_free c s3)
           else (let (ok, s4) = next_answer w_connect s3 in if ok then (Some c, s4) else (None, con_free c s4))))"

definition con_update :: "nat \<Rightarrow> 'a wires_scheme \<Rightarrow> 'a wires_scheme" where
  "con_update c s = (let (tv, s1) = gettimeofday s in upd_con c (\<lambda>t. t\<lparr>cn_time := tv_sec tv\<rparr>) s1)"

definition con_rcv :: "nat \<Rightarrow> 'a wires_scheme \<Rightarrow> int \<times> 'a wires_scheme" where
  "con_rcv c s =
     (let (r, s1) = next_answer w_recv s in
      case r of
        Inl amount \<Rightarrow> (amount, s1)
      | Inr buf \<Rightarrow>
          (let (a, fs, pl) = frame_append_string buf (cn_frames (w_con s1 c)) (n_pool s1) in
           (a, upd_con c (\<lambda>t. t\<lparr>cn_frames := fs\<rparr>) (s1\<lparr>n_pool := pl\<rparr>))))"

text \<open>con_next from index c on.\<close>

definition con_next :: "nat \<Rightarrow> 'a wires_scheme \<Rightarrow> nat option" where
  "con_next c s = List.find (\<lambda>k. cn_status (w_con s k) \<noteq> C_FREE) [c..<IMAGO_MAX_CONNECTION]"

text \<open>
  for (cid = con_next(NULL); cid; cid = con_next(cid)): the body gets every index
  that is in use when the walk reaches it.
\<close>

definition for_cons :: "(nat \<Rightarrow> 'a wires_scheme \<Rightarrow> 'a wires_scheme res) \<Rightarrow> 'a wires_scheme \<Rightarrow> 'a wires_scheme res" where
  "for_cons body s =
     foldl (\<lambda>r c. bind_res r (\<lambda>s. if cn_status (w_con s c) \<noteq> C_FREE then body c s else Inr s)) (Inr s) [0..<IMAGO_MAX_CONNECTION]"

definition cleanup_con :: "int \<Rightarrow> nat \<Rightarrow> 'a wires_scheme \<Rightarrow> 'a wires_scheme res" where
  "cleanup_con stamp c s =
     (let (r, s1) = con_trylock c s in
      if r = 0
      then (if cn_time (w_con s1 c) < stamp then Inr (con_free c s1)
            else (let (ok, s2) = next_answer w_test s1 in Inr (if \<not> ok then con_free c s2 else snd (con_unlock c s2))))
      else Inr s1)"

definition con_cleanup :: "int \<Rightarrow> 'a wires_scheme \<Rightarrow> 'a wires_scheme res" where
  "con_cleanup i s =
     (let (tv, s1) = gettimeofday s in
      bind_res (for_cons (cleanup_con (tv_sec tv - w_timeout s1)) s1) (\<lambda>s2.
        Inr (snd (timer_set i (Some tv_c) (Some SIGALRM_cleanup) 0 s2))))"

definition con_end :: "'a wires_scheme \<Rightarrow> 'a wires_scheme res" where
  "con_end s =
     bind_res (for_cons (\<lambda>c s. bind_res (con_lock c s) (\<lambda>(r, s1). Inr (if r = 0 then con_free c s1 else s1))) s)
       (\<lambda>s1. Inr (timer_free (w_timer s1) s1))"

section \<open>Header\<close>

abbreviation MAGIC_NUMBER :: word32 where "MAGIC_NUMBER \<equiv> 0x01234567"
abbreviation IMAGO_TRANSPORT_SICP_VERSION :: "16 word" where "IMAGO_TRANSPORT_SICP_VERSION \<equiv> 0x0102"
abbreviation IMAGO_TRANSPORT_SITP_VERSION :: "16 word" where "IMAGO_TRANSPORT_SITP_VERSION \<equiv> 0x0102"
definition UDP_MTU :: int where "UDP_MTU = 1024"
abbreviation HEADER_SIZE :: nat where "HEADER_SIZE \<equiv> 12"

text \<open>struct connection_header in network byte order.\<close>

definition header_bytes :: "16 word \<Rightarrow> 16 word \<Rightarrow> word32 \<Rightarrow> byte list" where
  "header_bytes version fl len = be32 MAGIC_NUMBER @ be16 version @ be16 fl @ be32 len"

definition hdr_magic :: "byte list \<Rightarrow> word32" where "hdr_magic h = of_be32 (take 4 h)"
definition hdr_version :: "byte list \<Rightarrow> 16 word" where "hdr_version h = of_be16 (take 2 (drop 4 h))"
definition hdr_flags :: "byte list \<Rightarrow> 16 word" where "hdr_flags h = of_be16 (take 2 (drop 6 h))"
definition hdr_length :: "byte list \<Rightarrow> word32" where "hdr_length h = of_be32 (take 4 (drop 8 h))"

section \<open>Sending\<close>

definition log_sent :: "int \<Rightarrow> byte list \<Rightarrow> 'a wires_scheme \<Rightarrow> 'a wires_scheme" where
  "log_sent fd bs s = s\<lparr>w_sent := (fd, bs) # w_sent s\<rparr>"

text \<open>A control PDU goes out in one piece, through the connection if there is one, or a UDP socket.\<close>

definition connection_down_control :: "nat \<Rightarrow> 'a wires_scheme \<Rightarrow> int \<times> 'a wires_scheme" where
  "connection_down_control i s =
     (let (cid, s1) = lookup_con (p_addr (n_pdu s i)) s;
          size = pdu_size i s1;
          hdr = header_bytes IMAGO_TRANSPORT_SICP_VERSION (p_flags (n_pdu s1 i) AND NOT PDU_FLAG_RESERVED) (word_of_int size);
          (fd, s2) = (case cid of
                        None \<Rightarrow> (let (f, sa) = next_answer w_socket s1 in
                                 if f < 0 then (None, sa)
                                 else (let (ok, sb) = next_answer w_connect sa in (if ok then Some f else None, sb)))
                      | Some c \<Rightarrow> (Some (cn_fd (w_con s1 c)), con_update c s1));
          s3 = (case fd of
                  None \<Rightarrow> s2
                | Some f \<Rightarrow> (let ((bs, r), sc) = pdu_read_string size i s2; sd = log_sent f (hdr @ bs) sc in
                             case cid of None \<Rightarrow> sd | Some c \<Rightarrow> snd (con_unlock c sd)))
      in (STATE_MACHINE_ID_INVALID, pdu_free i s3))"

definition connection_error :: "nat \<Rightarrow> 'a wires_scheme \<Rightarrow> int \<times> 'a wires_scheme" where
  "connection_error i s =
     (if p_flags (n_pdu s i) AND PDU_FLAG_FORWARDING \<noteq> 0 then (STATE_MACHINE_ID_INVALID, pdu_free i s)
      else (k_ids s Routing_up,
            upd_pdu i (\<lambda>p. p\<lparr>p_flags := p_flags p OR PDU_ERROR, p_layer := k_ids s Connection_down\<rparr>) s))"

text \<open>If the header cannot be sent the PDU comes back to this handler.\<close>

definition connection_down_transport :: "nat \<Rightarrow> 'a wires_scheme \<Rightarrow> int \<times> 'a wires_scheme" where
  "connection_down_transport i s =
     (let (found, s1) = lookup_con (p_addr (n_pdu s i)) s;
          (cid, s2) = (case found of None \<Rightarrow> make_connection (p_addr (n_pdu s1 i)) s1 | Some c \<Rightarrow> (Some c, s1)) in
      case cid of
        None \<Rightarrow> connection_error i (set_errno EPDU_CONNREFUSED i s2)
      | Some c \<Rightarrow>
          (let s3 = upd_pdu i (\<lambda>p. p\<lparr>p_cid := Some c, p_total := pdu_size i s2\<rparr>) s2; p = n_pdu s3 i;
               version = (if p_flags p AND PDU_TYPE_SITP \<noteq> 0 then IMAGO_TRANSPORT_SITP_VERSION else IMAGO_TRANSPORT_SICP_VERSION);
               hdr = header_bytes version (p_flags p AND NOT PDU_FLAG_RESERVED) (word_of_int (p_total p));
               (ok, s4) = next_answer w_send s3 in
           if \<not> ok then (k_ids s4 Connection_down, snd (con_unlock c s4))
           else (k_ids s4 Connection_async_send, log_sent (cn_fd (w_con s4 c)) hdr s4)))"

definition connection_async_send :: "nat \<Rightarrow> 'a wires_scheme \<Rightarrow> (int \<times> 'a wires_scheme) res" where
  "connection_async_send i s =
     (let cid = p_cid (n_pdu s i); fd = (case cid of None \<Rightarrow> - 1 | Some c \<Rightarrow> cn_fd (w_con s c)) in
      bind_res (of_opt (pdu_send_frame (w_write s fd) (w_calls s) i s)) (\<lambda>(k, out).
        let count = int (length out);
            s1 = log_sent fd out (s\<lparr>w_calls := k\<rparr>);
            (_, s2) = pdu_erase_frame count i s1;
            s3 = upd_pdu i (\<lambda>p. p\<lparr>p_total := p_total p - count\<rparr>) s2 in
        if 0 < p_total (n_pdu s3 i)
        then (if count = 0 then Inr (STATE_MACHINE_ID_INVALID, s3\<lparr>w_waiting := w_waiting s3 @ [i]\<rparr>)
              else Inr (k_ids s3 Connection_async_send, s3))
        else (case cid of
                None \<Rightarrow> Inl F_Null
              | Some c \<Rightarrow> Inr (STATE_MACHINE_ID_INVALID, pdu_free i (snd (con_unlock c (con_update c s3)))))))"

definition connection_down :: "nat \<Rightarrow> 'a wires_scheme \<Rightarrow> int \<times> 'a wires_scheme" where
  "connection_down i s =
     (if p_flags (n_pdu s i) AND PDU_TYPE_SITP = 0 \<and> pdu_size i s < UDP_MTU
      then connection_down_control i s else connection_down_transport i s)"

section \<open>Receiving\<close>

text \<open>pthread_waiting counts the threads in transport_signal_wait.\<close>

definition transport_signal :: "'a wires_scheme \<Rightarrow> 'a wires_scheme" where
  "transport_signal s = (if w_threads s \<noteq> 0 then imago_signal_kill Sent_SIGrestart s else s)"

definition connection_put_signal :: "nat \<Rightarrow> 'a wires_scheme \<Rightarrow> 'a wires_scheme" where
  "connection_put_signal i s = transport_signal (pdu_enqueue i s)"

definition incoming :: "nat \<Rightarrow> 'a wires_scheme \<Rightarrow> 'a wires_scheme" where
  "incoming i s = pdu_set_state i (k_ids s Connection_up) (upd_pdu i (\<lambda>p. p\<lparr>p_flags := PDU_FLAG_INCOMING\<rparr>) s)"

text \<open>The datagrams waiting; without a free PDU they stay where they are.\<close>

fun read_dgrams :: "(byte list \<times> word32) list \<Rightarrow> 'a wires_scheme \<Rightarrow> 'a wires_scheme" where
  "read_dgrams [] s = s\<lparr>w_dgrams := []\<rparr>"
| "read_dgrams ((buf, a) # ds) s =
     (case pdu_new s of
        (None, s1) \<Rightarrow> s1\<lparr>w_dgrams := (buf, a) # ds\<rparr>
      | (Some i, s1) \<Rightarrow>
          (let (r, s2) = pdu_write_string buf i (upd_pdu i (\<lambda>p. p\<lparr>p_addr := a\<rparr>) s1) in
           if r < 0 then (pdu_free i s2)\<lparr>w_dgrams := ds\<rparr>
           else read_dgrams ds (connection_put_signal i (incoming i s2))))"

definition read_udp_server_socket :: "'a wires_scheme \<Rightarrow> 'a wires_scheme" where
  "read_udp_server_socket s = (if 0 \<le> w_dgram s then read_dgrams (w_dgrams s) s else s)"

fun accept_all :: "(int \<times> word32) list \<Rightarrow> 'a wires_scheme \<Rightarrow> 'a wires_scheme" where
  "accept_all [] s = s\<lparr>w_accept := []\<rparr>"
| "accept_all ((nfd, a) # cs) s =
     (case con_new a s of
        (None, s1) \<Rightarrow> accept_all cs s1
      | (Some c, s1) \<Rightarrow>
          accept_all cs (snd (con_unlock c (con_update c (upd_con c (\<lambda>t. t\<lparr>cn_fd := nfd\<rparr>) s1)))))"

definition read_tcp_server_socket :: "'a wires_scheme \<Rightarrow> 'a wires_scheme" where
  "read_tcp_server_socket s = (if 0 \<le> w_stream s then accept_all (w_accept s) s else s)"

text \<open>
  The code after the label repeat, with amount; the answer says whether it goes
  back to the label.  A peek past the frames and a move of a negative length are
  the faults of MLVM_Frame.  amount and the length are C's int and unsigned.
\<close>

definition con_read :: "nat \<Rightarrow> nat \<Rightarrow> int \<Rightarrow> 'a wires_scheme \<Rightarrow> (int \<times> 'a wires_scheme) res" where
  "con_read c i l s =
     bind_res (of_opt (frame_move (p_frames (n_pdu s i)) (cn_frames (w_con s c)) l (n_pool s))) (\<lambda>(r, d, fs, pl).
       Inr (r, upd_con c (\<lambda>t. t\<lparr>cn_frames := fs\<rparr>) (upd_pdu i (\<lambda>p. p\<lparr>p_frames := d\<rparr>) (s\<lparr>n_pool := pl\<rparr>))))"

definition cut_pdu :: "nat \<Rightarrow> word32 \<Rightarrow> 'a wires_scheme \<Rightarrow> (bool \<times> word32 \<times> 'a wires_scheme) res" where
  "cut_pdu c amount s =
     (if amount < of_nat HEADER_SIZE then Inr (False, amount, snd (con_unlock c s))
      else
        (case frame_peek_string (int HEADER_SIZE) (cn_frames (w_con s c)) of
           None \<Rightarrow> Inl F_Uninit
         | Some hdr \<Rightarrow>
             if hdr_magic hdr \<noteq> MAGIC_NUMBER then Inr (False, amount, con_free c s)
             else
               (let need = hdr_length hdr + of_nat HEADER_SIZE; rest = amount - need in
                if rest <s 0 then Inr (False, rest, snd (con_unlock c s))
                else
                  (case pdu_new s of
                     (None, s1) \<Rightarrow> Inr (False, rest, snd (con_unlock c s1))
                   | (Some i, s1) \<Rightarrow>
                       (let s2 = incoming i (upd_pdu i (\<lambda>p. p\<lparr>p_addr := cn_peer (w_con s1 c)\<rparr>) s1) in
                        bind_res (con_read c i (sint need) s2) (\<lambda>(r, s3).
                          Inr (if r < 0 then (False, rest, snd (con_unlock c (pdu_free i s3)))
                               else (True, rest, connection_put_signal i s3))))))))"

definition cut_pdus :: "nat \<Rightarrow> word32 \<Rightarrow> 'a wires_scheme \<Rightarrow> 'a wires_scheme res" where
  "cut_pdus c amount s =
     bind_res (of_opt (while_option (\<lambda>r. case r of Inl _ \<Rightarrow> False | Inr (go, _, _) \<Rightarrow> go)
                (\<lambda>r. bind_res r (\<lambda>(_, amount, s). cut_pdu c amount s)) (Inr (True, amount, s))))
       (\<lambda>r. bind_res r (\<lambda>(_, _, s1). Inr s1))"

definition receive_con :: "nat \<Rightarrow> 'a wires_scheme \<Rightarrow> 'a wires_scheme res" where
  "receive_con c s =
     (let (r, s1) = con_trylock c s in
      if r \<noteq> 0 then Inr s1
      else (let (err, s2) = con_rcv c s1 in
            if err = 0 then Inr (snd (con_unlock c s2))
            else if err < 0 then Inr (con_free c s2)
            else (let s3 = con_update c s2 in cut_pdus c (word_of_int (frame_size (cn_frames (w_con s3 c)))) s3)))"

definition SIGIO_handler :: "'a wires_scheme \<Rightarrow> 'a wires_scheme res" where
  "SIGIO_handler s =
     bind_res (for_cons receive_con (read_tcp_server_socket (read_udp_server_socket s))) (\<lambda>s1.
       Inr (fold connection_put_signal (w_waiting s1) (s1\<lparr>w_waiting := []\<rparr>)))"

definition SIGPIPE_handler :: "'a wires_scheme \<Rightarrow> 'a wires_scheme res" where
  "SIGPIPE_handler =
     for_cons (\<lambda>c s. let (r, s1) = con_trylock c s in
       if r = 0 then (let (ok, s2) = next_answer w_test s1 in Inr (if ok then snd (con_unlock c s2) else con_free c s2))
       else Inr s1)"

text \<open>A header the PDU does not hold is read uninitialised.\<close>

definition connection_up :: "nat \<Rightarrow> 'a wires_scheme \<Rightarrow> (int \<times> 'a wires_scheme) res" where
  "connection_up i s =
     (let ((hdr, r), s1) = pdu_read_string (int HEADER_SIZE) i s; fail = Inr (STATE_MACHINE_ID_INVALID, pdu_free i s1) in
      if length hdr < HEADER_SIZE then Inl F_Uninit
      else if hdr_magic hdr \<noteq> MAGIC_NUMBER then fail
      else (let s2 = upd_pdu i (\<lambda>p. p\<lparr>p_flags := hdr_flags hdr\<rparr>) s1;
                version = (if hdr_flags hdr AND PDU_TYPE_SITP \<noteq> 0 then IMAGO_TRANSPORT_SITP_VERSION else IMAGO_TRANSPORT_SICP_VERSION) in
            if hdr_version hdr \<noteq> version then Inr (STATE_MACHINE_ID_INVALID, pdu_free i s2)
            else Inr (k_ids s2 Routing_up, s2)))"

end
