(* ===== verification/MLVM_Transport.thy ===== *)
theory MLVM_Transport
  imports MLVM_Connection
begin

text \<open>
  The transport protocol as a whole: the security layer of the default build
  (transport/imago_layer_security.c without IMAGO_SECURITY_ENABLED, a byte of
  header that must be zero), the call of a handler through the state machine, the
  callbacks of the timers and the loop of a transport thread
  (transport/imago_protocol.c).
\<close>

section \<open>The security layer\<close>

abbreviation SEC_TYPE_ENABLED :: byte where "SEC_TYPE_ENABLED \<equiv> 0x80"

definition security_down :: "nat \<Rightarrow> 'a stack_scheme \<Rightarrow> int \<times> 'a stack_scheme" where
  "security_down i s =
     (let (r, s1) = pdu_write_byte 0 i s in
      if r < 0 then (STATE_MACHINE_ID_INVALID, set_errno EPDU_MFRAME i s1) else (k_ids s1 Routing_down, s1))"

text \<open>The rest of the two handlers for incoming PDUs is the same: the flags decide.\<close>

definition security_flags :: "nat \<Rightarrow> 'a stack_scheme \<Rightarrow> int \<times> 'a stack_scheme" where
  "security_flags i s =
     (case pdu_read_byte i s of
        (None, s1) \<Rightarrow> (STATE_MACHINE_ID_INVALID, pdu_free i s1)
      | (Some fl, s1) \<Rightarrow>
          if fl AND SEC_TYPE_ENABLED = 0 then (k_ids s1 ADA_up, s1) else (STATE_MACHINE_ID_INVALID, pdu_free i s1))"

definition security_control_up :: "nat \<Rightarrow> 'a stack_scheme \<Rightarrow> int \<times> 'a stack_scheme" where
  "security_control_up i s = security_flags i s"

definition security_transport_up :: "nat \<Rightarrow> 'a stack_scheme \<Rightarrow> int \<times> 'a stack_scheme" where
  "security_transport_up i s =
     (if p_flags (n_pdu s i) AND PDU_ERROR \<noteq> 0 then (k_ids s ADA_up, s) else security_flags i s)"

definition security_up :: "nat \<Rightarrow> 'a stack_scheme \<Rightarrow> int \<times> 'a stack_scheme" where
  "security_up i s =
     (if p_flags (n_pdu s i) AND PDU_TYPE_SITP \<noteq> 0 then security_transport_up i s else security_control_up i s)"

section \<open>Running\<close>

text \<open>
  e_dns is gethostbyname, e_malloc what malloc answers to the marshaling layer,
  e_threads the environment of the system threads.
\<close>

record transport_env =
  e_dns :: "byte list \<Rightarrow> word32 option"
  e_malloc :: addr
  e_threads :: env

fun call_layer :: "transport_env \<Rightarrow> layer \<Rightarrow> nat \<Rightarrow> wires \<Rightarrow> (int \<times> wires) res" where
  "call_layer E Connection_up i s = connection_up i s"
| "call_layer E Connection_down i s = Inr (connection_down i s)"
| "call_layer E Connection_async_send i s = connection_async_send i s"
| "call_layer E Routing_up i s = routing_up i s"
| "call_layer E Routing_down i s = routing_down (e_dns E) i s"
| "call_layer E Security_up i s = Inr (security_up i s)"
| "call_layer E Security_down i s = Inr (security_down i s)"
| "call_layer E ADA_up i s = ADArendezvous_up i s"
| "call_layer E ADA_down i s = ADArendezvous_down i s"
| "call_layer E Marshaling_up i s = marshaling_up (e_malloc E) i s"
| "call_layer E Marshaling_down i s = Inr (marshaling_down i s)"
| "call_layer E Protocol_up i s = Inr (protocol_up i s)"
| "call_layer E Protocol_down i s = Inr (protocol_down i s)"

text \<open>One turn of a transport thread on a PDU, and the callbacks of SIGALRM.\<close>

definition transport_turn :: "transport_env \<Rightarrow> wires \<Rightarrow> (bool \<times> wires) res" where
  "transport_turn E = transport_run (call_layer E)"

fun call_timer :: "transport_env \<Rightarrow> callback \<Rightarrow> int \<Rightarrow> int \<Rightarrow> wires \<Rightarrow> wires res" where
  "call_timer E Timeout_callback i arg s = timeout_callback i arg s"
| "call_timer E SIGALRM_cleanup i arg s = con_cleanup i s"
| "call_timer E Timer_recall i arg s = bind_res (timer_recall (e_threads E) (k_sys s)) (\<lambda>sy. Inr (s\<lparr>k_sys := sy\<rparr>))"

definition transport_alarm :: "transport_env \<Rightarrow> wires \<Rightarrow> wires res" where
  "transport_alarm E = SIGALRM_handler (call_timer E)"

text \<open>transport_shutdown: the threads are signalled, both server sockets closed, no request is accepted.\<close>

definition connection_shutdown :: "'a wires_scheme \<Rightarrow> 'a wires_scheme" where
  "connection_shutdown s =
     (let s1 = (if 0 < w_stream s then s\<lparr>w_stream := - 1\<rparr> else s) in
      if 0 < w_dgram s1 then s1\<lparr>w_dgram := - 1\<rparr> else s1)"

definition transport_shutdown :: "'a wires_scheme \<Rightarrow> 'a wires_scheme" where
  "transport_shutdown s = ada_shutdown (connection_shutdown (transport_signal s))"

end
