(* ===== verification/MLVM_Pdu_Correct.thy ===== *)
theory MLVM_Pdu_Correct
  imports MLVM_Frame_Correct MLVM_Transport
begin

text \<open>
  Writing to and reading from the frames of a PDU, seen on its bytes, and what the
  operations of the PDU table and of the state machine promise.
\<close>

section \<open>Reading a text\<close>

lemma take_text_bytes:
  "fok f \<Longrightarrow> take_bytes True l f = (bs, l1, stop, g) \<Longrightarrow>
     fok g \<and> fbytes f = bs @ fbytes g
     \<and> (stop \<longrightarrow> (\<exists>us. bs = us @ [0] \<and> 0 \<notin> set us))
     \<and> (\<not> stop \<longrightarrow> 0 \<notin> set bs \<and> l1 = l - int (length bs) \<and> (fbytes g = [] \<or> l1 \<le> 0))"
proof (induction True l f arbitrary: bs l1 stop g rule: take_bytes.induct)
  case (1 l f)
  show ?case
  proof (cases "f_top f + 1 < FRAME_SIZE \<and> 0 < l")
    case True
    let ?g = "f\<lparr>f_top := f_top f + 1\<rparr>"
    have g: "fok ?g" using True by (simp add: fok_def)
    have b: "fbytes f = f_fc f (f_top f + 1) # fbytes ?g"
      using True by (subst bytes_from_cons) (simp_all add: bytes_from_upd)
    show ?thesis
    proof (cases "f_fc f (f_top f + 1) = 0")
      case zero: True
      hence "(bs, l1, stop, g) = ([0], l, True, ?g)" using 1(3) True by (simp add: take_bytes.simps [of True l f])
      thus ?thesis using g b zero by simp
    next
      case nz: False
      obtain cs l2 st h where r: "take_bytes True (l - 1) ?g = (cs, l2, st, h)" by (metis prod_cases4)
      have nf: "\<not> (True \<and> f_fc f (f_top f + 1) = 0)" using nz by simp
      note IH = 1(1) [OF True refl refl nf g r]
      have e: "(bs, l1, stop, g) = (f_fc f (f_top f + 1) # cs, l2, st, h)"
        using 1(3) True nz r by (simp add: take_bytes.simps [of True l f])
      show ?thesis
      proof (cases st)
        case True
        then obtain us where "cs = us @ [0]" "0 \<notin> set us" using IH by auto
        hence "bs = (f_fc f (f_top f + 1) # us) @ [0] \<and> 0 \<notin> set (f_fc f (f_top f + 1) # us)" using e nz by simp
        hence ex: "\<exists>us. bs = us @ [0] \<and> 0 \<notin> set us" by blast
        show ?thesis using ex IH e b True by simp
      next
        case False thus ?thesis using IH e b nz by auto
      qed
    qed
  next
    case False
    hence "(bs, l1, stop, g) = ([], l, False, f)"
      using 1(3) unfolding take_bytes.simps [of True l f] if_not_P [OF False] by simp
    thus ?thesis using False 1(2) by auto
  qed
qed

lemma read_text_loop:
  "list_all fok fs \<Longrightarrow> read_loop True l fs p = (bs, l1, gs, p1) \<Longrightarrow>
     list_all fok gs \<and> content fs = bs @ content gs
     \<and> ((\<exists>us. bs = us @ [0] \<and> 0 \<notin> set us) \<or> 0 \<notin> set bs \<and> (content gs = [] \<or> nat l \<le> length bs))"
proof (induction fs arbitrary: l p bs l1 gs p1)
  case (Cons f fs)
  obtain cs l2 st g where t: "take_bytes True l f = (cs, l2, st, g)" by (metis prod_cases4)
  have f: "fok f" "list_all fok fs" using Cons.prems(1) by auto
  note c = take_text_bytes [OF f(1) t]
  show ?case
  proof (cases "FRAME_SIZE \<le> f_top g + 1")
    case True
    hence g: "fbytes g = []" by simp
    show ?thesis
    proof (cases "\<not> st \<and> 0 < l2")
      case go: True
      obtain ds l3 hs p2 where r: "read_loop True l2 fs (frame_free p) = (ds, l3, hs, p2)" by (metis prod_cases4)
      have e: "(bs, l1, gs, p1) = (cs @ ds, l3, hs, p2)" using Cons.prems(2) t True go r by simp
      note IH = Cons.IH [OF f(2) r]
      have nz: "0 \<notin> set cs" "l2 = l - int (length cs)" using c go by auto
      show ?thesis
      proof (cases "\<exists>us. ds = us @ [0] \<and> 0 \<notin> set us")
        case True
        then obtain us where "ds = us @ [0]" "0 \<notin> set us" by blast
        hence "bs = (cs @ us) @ [0] \<and> 0 \<notin> set (cs @ us)" using e nz by simp
        thus ?thesis using IH e c g by auto
      next
        case False
        hence "0 \<notin> set ds" "content hs = [] \<or> nat l2 \<le> length ds" using IH by auto
        thus ?thesis using IH e c g nz by auto
      qed
    next
      case False
      hence e: "(bs, l1, gs, p1) = (cs, l2, fs, frame_free p)" using Cons.prems(2) t True by auto
      show ?thesis
      proof (cases st)
        case True thus ?thesis using c e g f by auto
      next
        case nst: False
        hence "l2 \<le> 0" "l2 = l - int (length cs)" "0 \<notin> set cs" using False c by auto
        thus ?thesis using c e g f by auto
      qed
    qed
  next
    case False
    hence e: "(bs, l1, gs, p1) = (cs, l2, g # fs, p)" using Cons.prems(2) t by simp
    have "length (fbytes g) \<noteq> 0" using False by simp
    hence ne: "fbytes g \<noteq> []" by (metis list.size(3))
    show ?thesis
    proof (cases st)
      case True thus ?thesis using c e f by auto
    next
      case nst: False
      hence "0 \<notin> set cs" "nat l \<le> length cs" using c ne by auto
      thus ?thesis using c e f by auto
    qed
  qed
qed simp

lemma read_text_bytes:
  assumes "list_all fok fs" "content fs = t @ 0 # ys" "0 \<notin> set t" "length t < n"
    and "frame_read_text (int n) fs p = (bs, r, gs, p1)"
  shows "list_all fok gs \<and> bs = t @ [0] \<and> content gs = ys"
proof -
  obtain cs l1 hs q where r: "read_loop True (int n) fs p = (cs, l1, hs, q)" by (metis prod_cases4)
  have e: "bs = cs" "gs = hs" using assms(5) r by (simp_all add: frame_read_text_def frame_read_string_aux_def)
  have h: "list_all fok hs" "t @ 0 # ys = cs @ content hs"
    and d: "(\<exists>us. cs = us @ [0] \<and> 0 \<notin> set us) \<or> 0 \<notin> set cs \<and> (content hs = [] \<or> n \<le> length cs)"
    using read_text_loop [OF assms(1) r] assms(2) by auto
  have "\<exists>us. cs = us @ [0] \<and> 0 \<notin> set us"
  proof (rule ccontr)
    assume n: "\<nexists>us. cs = us @ [0] \<and> 0 \<notin> set us"
    hence nz: "0 \<notin> set cs" and l: "content hs = [] \<or> n \<le> length cs" using d by auto
    have "length cs \<le> length t"
    proof (rule ccontr)
      assume "\<not> length cs \<le> length t"
      hence "(cs @ content hs) ! length t \<in> set cs" by (simp add: nth_append)
      moreover have "(cs @ content hs) ! length t = 0" unfolding h(2) [symmetric] by (simp add: nth_append)
      ultimately show False using nz by simp
    qed
    moreover have "content hs \<noteq> []"
    proof
      assume e: "content hs = []"
      have "length (t @ 0 # ys) = length cs" unfolding h(2) e by simp
      thus False using \<open>length cs \<le> length t\<close> by simp
    qed
    ultimately show False using l assms(4) by simp
  qed
  then obtain us where us: "cs = us @ [0]" "0 \<notin> set us" by blast
  have "t @ 0 # ys = us @ 0 # content hs" using h(2) us(1) by simp
  hence "t = us \<and> ys = content hs" using assms(3) us(2) by (auto simp: append_eq_append_conv2 Cons_eq_append_conv append_eq_Cons_conv)
  thus ?thesis using e us h by simp
qed

section \<open>Memory for frames\<close>

text \<open>malloc gives a frame whenever it is asked for one.\<close>

definition roomy :: "pool \<Rightarrow> bool" where "roomy p = (\<forall>k. fp_malloc p k)"

lemma roomy_cong: "fp_malloc p = fp_malloc q \<Longrightarrow> roomy p = roomy q" by (simp add: roomy_def)

lemma frame_new_malloc_kept: "fp_malloc (snd (frame_new p)) = fp_malloc p"
  by (simp add: frame_new_def Let_def)

lemma frame_new_roomy: "roomy p \<Longrightarrow> \<exists>cf. fst (frame_new p) = Some cf"
  by (simp add: frame_new_def Let_def roomy_def)

lemma frame_free_malloc [simp]: "fp_malloc (frame_free p) = fp_malloc p"
  by (simp add: frame_free_def Let_def)

lemma frame_free_pow_malloc [simp]: "fp_malloc ((frame_free ^^ n) p) = fp_malloc p"
  by (induction n) simp_all

lemma room_for_malloc: "fp_malloc (snd (room_for fs p)) = fp_malloc p"
proof -
  obtain c p1 where n: "frame_new p = (c, p1)" by fastforce
  have "fp_malloc p1 = fp_malloc p" using frame_new_malloc_kept [of p] n by simp
  thus ?thesis by (simp add: room_for_def n split: option.split)
qed

lemma room_for_roomy: "roomy p \<Longrightarrow> \<exists>gs. fst (room_for fs p) = Some gs"
  using frame_new_roomy [of p] by (cases "frame_new p") (auto simp: room_for_def)

lemma write_loop_roomy:
  "roomy p \<Longrightarrow> write_loop rs fs p = (rs1, ok, gs, p1) \<Longrightarrow> ok \<and> fp_malloc p1 = fp_malloc p"
proof (induction rs fs p arbitrary: rs1 ok gs p1 rule: write_loop.induct)
  case (1 rs fs p)
  obtain hs where h: "fst (room_for fs p) = Some hs" using room_for_roomy [OF 1(2)] by blast
  then obtain q where q: "room_for fs p = (Some hs, q)" by (cases "room_for fs p") auto
  have m: "fp_malloc q = fp_malloc p" using room_for_malloc [of fs p] q by simp
  obtain rs2 cf where b: "put_bytes rs (hd hs) = (rs2, cf)" by fastforce
  show ?case
  proof (cases "rs2 = []")
    case True
    thus ?thesis using 1(3) q b m by (simp add: write_loop.simps [of rs fs p])
  next
    case False
    have "write_loop rs2 (cf # tl hs) q = (rs1, ok, gs, p1)"
      using 1(3) q b False by (simp add: write_loop.simps [of rs fs p])
    from 1(1) [OF q [symmetric] refl b [symmetric] refl False _ this] show ?thesis
      using m 1(2) by (simp add: roomy_def)
  qed
qed

lemma write_string_roomy:
  assumes "roomy p" "list_all fok fs"
  shows "\<exists>gs p1. frame_write_string st fs p = (int (length st), gs, p1) \<and> list_all fok gs \<and> content gs = st @ content fs
    \<and> fp_malloc p1 = fp_malloc p"
proof -
  obtain rs ok gs p1 where w: "write_loop (rev st) fs p = (rs, ok, gs, p1)" by (metis prod_cases4)
  hence ok: "ok" "fp_malloc p1 = fp_malloc p" using write_loop_roomy [OF assms(1)] by blast+
  hence "frame_write_string st fs p = (int (length st), gs, p1)" by (simp add: frame_write_string_def w)
  thus ?thesis using write_string_bytes [OF assms(2)] ok by fastforce
qed

lemma read_loop_malloc:
  "read_loop fl l fs p = (bs, l1, gs, p1) \<Longrightarrow> fp_malloc p1 = fp_malloc p"
proof (induction fl l fs p arbitrary: bs l1 gs p1 rule: read_loop.induct)
  case (2 fl l cf fs p)
  obtain cs l2 st g where t: "take_bytes fl l cf = (cs, l2, st, g)" by (metis prod_cases4)
  obtain ds l3 hs p2 where r: "read_loop fl l2 fs (frame_free p) = (ds, l3, hs, p2)" by (metis prod_cases4)
  show ?case using 2(2) t r 2(1) [OF t [symmetric] refl refl refl _ _ r] by (auto split: if_splits)
qed simp

lemma take_bytes_le: "take_bytes fl l f = (bs, l1, st, g) \<Longrightarrow> l1 \<le> l"
proof (induction fl l f arbitrary: bs l1 st g rule: take_bytes.induct)
  case (1 fl l f)
  obtain cs l2 st2 h where r: "take_bytes fl (l - 1) (f\<lparr>f_top := f_top f + 1\<rparr>) = (cs, l2, st2, h)"
    by (metis prod_cases4)
  show ?case using 1(2) r 1(1) [OF _ refl refl _ r]
    unfolding take_bytes.simps [of fl l f] by (auto simp: Let_def split: if_splits)
qed

lemma read_loop_le: "read_loop fl l fs p = (bs, l1, gs, p1) \<Longrightarrow> l1 \<le> l"
proof (induction fl l fs p arbitrary: bs l1 gs p1 rule: read_loop.induct)
  case (2 fl l cf fs p)
  obtain cs l2 st g where t: "take_bytes fl l cf = (cs, l2, st, g)" by (metis prod_cases4)
  obtain ds l3 hs p2 where r: "read_loop fl l2 fs (frame_free p) = (ds, l3, hs, p2)" by (metis prod_cases4)
  show ?case using 2(2) t r take_bytes_le [OF t] 2(1) [OF t [symmetric] refl refl refl _ _ r]
    by (auto split: if_splits)
qed simp

section \<open>PDUs\<close>

text \<open>s1 is s but for the frames of PDU i, which now hold bs, and for the pool.\<close>

abbreviation pok :: "nat \<Rightarrow> 'a net_scheme \<Rightarrow> bool" where "pok i s \<equiv> list_all fok (p_frames (n_pdu s i))"
abbreviation pbody :: "nat \<Rightarrow> 'a net_scheme \<Rightarrow> byte list" where "pbody i s \<equiv> content (p_frames (n_pdu s i))"

definition frames_now :: "nat \<Rightarrow> byte list \<Rightarrow> 'a net_scheme \<Rightarrow> 'a net_scheme \<Rightarrow> bool" where
  "frames_now i bs s s1 =
     (\<exists>fs pl. s1 = upd_pdu i (\<lambda>p. p\<lparr>p_frames := fs\<rparr>) (s\<lparr>n_pool := pl\<rparr>) \<and> list_all fok fs \<and> content fs = bs
            \<and> fp_malloc pl = fp_malloc (n_pool s))"

lemma frames_nowI:
  "list_all fok fs \<Longrightarrow> content fs = bs \<Longrightarrow> fp_malloc pl = fp_malloc (n_pool s) \<Longrightarrow>
     frames_now i bs s (upd_pdu i (\<lambda>p. p\<lparr>p_frames := fs\<rparr>) (s\<lparr>n_pool := pl\<rparr>))"
  by (auto simp: frames_now_def)

lemma frames_nowE:
  assumes "frames_now i bs s s1"
  obtains fs pl where "s1 = upd_pdu i (\<lambda>p. p\<lparr>p_frames := fs\<rparr>) (s\<lparr>n_pool := pl\<rparr>)" "list_all fok fs"
    "content fs = bs" "fp_malloc pl = fp_malloc (n_pool s)"
  using assms by (auto simp: frames_now_def)

lemma upd_pdu_simps [simp]:
  "n_pdu (upd_pdu i f s) = (n_pdu s)(i := f (n_pdu s i))"
  "n_pool (upd_pdu i f s) = n_pool s" "n_list (upd_pdu i f s) = n_list s" "n_count (upd_pdu i f s) = n_count s"
  "timer_tlb (upd_pdu i f s) = timer_tlb s" "tm_clock (upd_pdu i f s) = tm_clock s" "tm_reads (upd_pdu i f s) = tm_reads s"
  by (simp_all add: upd_pdu_def)

lemma upd_pdu_stack [simp]:
  "k_ids (upd_pdu i f u) = k_ids u" "k_hostname (upd_pdu i f u) = k_hostname u" "k_aliases (upd_pdu i f u) = k_aliases u"
  "k_sys (upd_pdu i f u) = k_sys u" "k_sm (upd_pdu i f u) = k_sm u" "k_shutdown (upd_pdu i f u) = k_shutdown u"
  "k_cache (upd_pdu i f u) = k_cache u" "k_generation (upd_pdu i f u) = k_generation u"
  "k_sequence (upd_pdu i f u) = k_sequence u"
  by (simp_all add: upd_pdu_def)

lemma upd_pdu_spool [simp]:
  "b_files (upd_pdu i f v) = b_files v" "b_list (upd_pdu i f v) = b_list v" "b_id (upd_pdu i f v) = b_id v"
  "b_ok (upd_pdu i f v) = b_ok v" "b_calls (upd_pdu i f v) = b_calls v" "b_write (upd_pdu i f v) = b_write v"
  by (simp_all add: upd_pdu_def)

lemma frames_now_simps:
  assumes "frames_now i bs s s1"
  shows "pok i s1" "pbody i s1 = bs" "\<exists>fs. n_pdu s1 = (n_pdu s)(i := (n_pdu s i)\<lparr>p_frames := fs\<rparr>)"
    "roomy (n_pool s1) = roomy (n_pool s)" "n_list s1 = n_list s" "timer_tlb s1 = timer_tlb s"
    "tm_clock s1 = tm_clock s" "tm_reads s1 = tm_reads s"
  using assms by (auto elim!: frames_nowE simp: roomy_def)

lemma frames_now_stack:
  assumes "frames_now i bs s s1"
  shows "k_ids s1 = k_ids s" "k_hostname s1 = k_hostname s" "k_aliases s1 = k_aliases s" "k_sys s1 = k_sys s"
    "k_generation s1 = k_generation s" "k_shutdown s1 = k_shutdown s" "b_files s1 = b_files s"
  using assms by (auto elim!: frames_nowE)

lemma frames_now_fields:
  assumes "frames_now i bs s s1"
  shows "p_flags (n_pdu s1 k) = p_flags (n_pdu s k)" "p_seqid (n_pdu s1 k) = p_seqid (n_pdu s k)"
    "p_genid (n_pdu s1 k) = p_genid (n_pdu s k)" "p_ADAtype (n_pdu s1 k) = p_ADAtype (n_pdu s k)"
    "p_dest (n_pdu s1 k) = p_dest (n_pdu s k)" "p_source (n_pdu s1 k) = p_source (n_pdu s k)"
    "p_ttl (n_pdu s1 k) = p_ttl (n_pdu s k)" "p_icb (n_pdu s1 k) = p_icb (n_pdu s k)"
    "p_timer (n_pdu s1 k) = p_timer (n_pdu s k)" "p_self (n_pdu s1 k) = p_self (n_pdu s k)"
    "p_retry (n_pdu s1 k) = p_retry (n_pdu s k)" "p_state (n_pdu s1 k) = p_state (n_pdu s k)"
  using assms by (auto elim!: frames_nowE split: if_splits)

lemma frames_now_trans: "frames_now i bs s s1 \<Longrightarrow> frames_now i cs s1 s2 \<Longrightarrow> frames_now i cs s s2"
proof (elim frames_nowE, goal_cases)
  case (1 fs pl gs ql)
  have "s2 = upd_pdu i (\<lambda>p. p\<lparr>p_frames := gs\<rparr>) (s\<lparr>n_pool := ql\<rparr>)"
    unfolding 1(1,5) by (simp add: upd_pdu_def)
  thus ?case using 1 by (auto simp: frames_now_def)
qed

lemma on_write:
  assumes "roomy (n_pool s)" "pok i s"
  shows "\<exists>s1. on_frames (frame_write_string st) i s = (int (length st), s1) \<and> frames_now i (st @ pbody i s) s s1"
proof -
  obtain gs p1 where "frame_write_string st (p_frames (n_pdu s i)) (n_pool s) = (int (length st), gs, p1)"
    "list_all fok gs" "content gs = st @ pbody i s" "fp_malloc p1 = fp_malloc (n_pool s)"
    using write_string_roomy [OF assms, of st] by blast
  thus ?thesis by (auto simp: on_frames_def intro: frames_nowI)
qed

lemmas pdu_writes = pdu_write_string_def pdu_write_int_def pdu_write_short_def pdu_write_byte_def pdu_write_text_def
  frame_write_int_def frame_write_short_def frame_write_byte_def frame_write_text_def

lemma read_string_malloc: "frame_read_string l fs p = (bs, n, gs, p1) \<Longrightarrow> fp_malloc p1 = fp_malloc p"
  using read_loop_malloc by (cases "read_loop False l fs p")
    (auto simp: frame_read_string_def frame_read_string_aux_def)

lemma on_read:
  assumes "pok i s"
  shows "\<exists>s1. pdu_read_string l i s = ((take (nat l) (pbody i s), int (length (take (nat l) (pbody i s)))), s1)
    \<and> frames_now i (drop (nat l) (pbody i s)) s s1"
proof -
  obtain bs n gs p1 where r: "frame_read_string l (p_frames (n_pdu s i)) (n_pool s) = (bs, n, gs, p1)"
    by (metis prod_cases4)
  note c = read_string_bytes [OF assms r] read_string_malloc [OF r]
  have "pdu_read_string l i s = ((bs, n), upd_pdu i (\<lambda>p. p\<lparr>p_frames := gs\<rparr>) (s\<lparr>n_pool := p1\<rparr>))"
    by (simp add: pdu_read_string_def on_frames_def r)
  thus ?thesis using c by (auto intro!: frames_nowI)
qed

lemma length_be [simp]: "length (be32 v) = 4" "length (be16 w) = 2" by (simp_all add: be32_def be16_def)

lemma on_read_number:
  assumes "pok i s"
  shows "pbody i s = be32 v @ ys \<Longrightarrow> \<exists>s1. pdu_read_int i s = (Some v, s1) \<and> frames_now i ys s s1"
    and "pbody i s = be16 w @ ys \<Longrightarrow> \<exists>s1. pdu_read_short i s = (Some w, s1) \<and> frames_now i ys s s1"
    and "pbody i s = b # ys \<Longrightarrow> \<exists>s1. pdu_read_byte i s = (Some b, s1) \<and> frames_now i ys s s1"
proof -
  have r: "\<exists>gs p1. frame_read_string (int k) (p_frames (n_pdu s i)) (n_pool s) = (xs, int k, gs, p1)
      \<and> list_all fok gs \<and> content gs = ys \<and> fp_malloc p1 = fp_malloc (n_pool s)"
    if "pbody i s = xs @ ys" "length xs = k" for xs k
  proof -
    obtain bs n gs p1 where f: "frame_read_string (int k) (p_frames (n_pdu s i)) (n_pool s) = (bs, n, gs, p1)"
      by (metis prod_cases4)
    show ?thesis using read_string_bytes [OF assms f] read_string_malloc [OF f] f that by auto
  qed
  show "\<exists>s1. pdu_read_int i s = (Some v, s1) \<and> frames_now i ys s s1" if "pbody i s = be32 v @ ys"
    using r [OF that length_be(1)]
    by (auto simp: pdu_read_int_def on_frames_def frame_read_int_def of_be32_be32 intro: frames_nowI)
  show "\<exists>s1. pdu_read_short i s = (Some w, s1) \<and> frames_now i ys s s1" if "pbody i s = be16 w @ ys"
    using r [OF that length_be(2)]
    by (auto simp: pdu_read_short_def on_frames_def frame_read_short_def of_be16_be16 intro: frames_nowI)
  show "\<exists>s1. pdu_read_byte i s = (Some b, s1) \<and> frames_now i ys s s1" if "pbody i s = b # ys"
    using r [of "[b]" 1] that
    by (auto simp: pdu_read_byte_def on_frames_def frame_read_byte_def intro: frames_nowI)
qed

lemma on_read_text:
  assumes "pok i s" "pbody i s = t @ 0 # ys" "0 \<notin> set t" "length t < n"
  shows "\<exists>r s1. pdu_read_text (int n) i s = ((t @ [0], r), s1) \<and> frames_now i ys s s1 \<and> 0 \<le> r"
proof -
  obtain bs r gs p1 where f: "frame_read_text (int n) (p_frames (n_pdu s i)) (n_pool s) = (bs, r, gs, p1)"
    by (metis prod_cases4)
  obtain cs l1 hs q where lp: "read_loop True (int n) (p_frames (n_pdu s i)) (n_pool s) = (cs, l1, hs, q)"
    by (metis prod_cases4)
  have m: "fp_malloc p1 = fp_malloc (n_pool s)" "r = int n - l1"
    using f lp read_loop_malloc [OF lp] by (simp_all add: frame_read_text_def frame_read_string_aux_def)
  have "0 \<le> r" unfolding m(2) using read_loop_le [OF lp] by simp
  thus ?thesis using read_text_bytes [OF assms(1-4) f] f m
    by (auto simp: pdu_read_text_def on_frames_def intro: frames_nowI)
qed

end
