(* ===== verification/MLVM_Backup_Correct.thy ===== *)
theory MLVM_Backup_Correct
  imports MLVM_Pdu_Correct
begin

text \<open>
  What the backups promise: a PDU saved is the PDU loaded.  And what they do not
  keep: removing an entry of backup_list removes another one with it.
\<close>

section \<open>Writing a whole file\<close>

text \<open>The disk takes everything it is given.\<close>

definition disk_ok :: "'a spool_scheme \<Rightarrow> bool" where
  "disk_ok s = ((\<forall>k. b_ok s k) \<and> (\<forall>k n. b_write s k n = Some n))"

lemma send_frame_whole:
  assumes "\<And>k n. w k n = Some n"
  shows "send_frame w k f = Some (k + 1, fbytes f, True)"
proof -
  have "while_option (\<lambda>(k, ax, out, r). r = None) (send_step w) (k, fbytes f, [], None)
      = Some (k + 1, [], fbytes f, Some True)"
    by (subst while_option_step) (simp_all add: send_step_def assms while_option_done)
  thus ?thesis by (simp add: send_frame_def)
qed

lemma frame_send_whole:
  assumes "\<And>k n. w k n = Some n"
  shows "frame_send w k fs = Some (k + length fs, content fs)"
  by (induction fs arbitrary: k) (simp_all add: send_frame_whole [OF assms])

section \<open>Reading it back\<close>

lemma append_string_roomy:
  assumes "roomy p" "list_all fok fs"
  shows "\<exists>gs p1. frame_append_string st fs p = (int (length st), gs, p1) \<and> list_all fok gs \<and> content gs = content fs @ st
    \<and> fp_malloc p1 = fp_malloc p"
  using write_string_roomy [OF assms(1), of "[]" st] assms(2) by (auto simp: frame_append_string_def)

lemma append_chunks_roomy:
  "roomy pl \<Longrightarrow> list_all fok fs \<Longrightarrow>
     \<exists>gs p1. append_chunks bs fs pl = (True, gs, p1) \<and> list_all fok gs \<and> content gs = content fs @ bs \<and> fp_malloc p1 = fp_malloc pl"
proof (induction bs fs pl rule: append_chunks.induct)
  case (1 bs fs pl)
  show ?case
  proof (cases "bs = []")
    case False
    obtain hs q where h: "frame_append_string (take FRAME_SIZE bs) fs pl = (int (length (take FRAME_SIZE bs)), hs, q)"
      "list_all fok hs" "content hs = content fs @ take FRAME_SIZE bs" "fp_malloc q = fp_malloc pl"
      using append_string_roomy [OF 1(2,3)] by blast
    have "roomy q" using 1(2) h(4) by (simp add: roomy_def)
    moreover have "\<not> int (length (take FRAME_SIZE bs)) < 0" by simp
    ultimately show ?thesis using 1(1) [OF False h(1) [symmetric] refl refl _ _ h(2)]
      h False by (subst append_chunks.simps) auto
  qed (use 1 in \<open>simp add: append_chunks.simps\<close>)
qed

section \<open>The table of PDUs\<close>

lemma find_upt:
  assumes "i < n" "P i"
  shows "\<exists>j<n. P j \<and> List.find P [0..<n] = Some j"
proof -
  have "List.find P [0..<n] \<noteq> None" using assms by (auto simp: find_None_iff)
  then obtain j where j: "List.find P [0..<n] = Some j" by blast
  then obtain k where "k < n" "P k" "j = k" by (auto simp: find_Some_iff)
  thus ?thesis using j by blast
qed

text \<open>s1 is s but for the record of PDU j, the counters and the pool.\<close>

definition pdu_now :: "nat \<Rightarrow> pdu \<Rightarrow> 'a net_scheme \<Rightarrow> 'a net_scheme \<Rightarrow> bool" where
  "pdu_now j p s s1 =
     (\<exists>c m pl. s1 = s\<lparr>n_pdu := (n_pdu s)(j := p), n_count := c, n_max_count := m, n_pool := pl\<rparr>
        \<and> fp_malloc pl = fp_malloc (n_pool s))"

lemma pdu_nowE:
  assumes "pdu_now j p s s1"
  obtains c m pl where "s1 = s\<lparr>n_pdu := (n_pdu s)(j := p), n_count := c, n_max_count := m, n_pool := pl\<rparr>"
    "fp_malloc pl = fp_malloc (n_pool s)"
  using assms by (auto simp: pdu_now_def)

lemma pdu_nowI:
  "fp_malloc pl = fp_malloc (n_pool s) \<Longrightarrow>
     pdu_now j p s (s\<lparr>n_pdu := (n_pdu s)(j := p), n_count := c, n_max_count := m, n_pool := pl\<rparr>)"
  by (auto simp: pdu_now_def)

lemma pdu_new_free:
  assumes "i < IMAGO_MAX_PDU" "\<not> p_self (n_pdu s i)"
  shows "\<exists>j s1. j < IMAGO_MAX_PDU \<and> \<not> p_self (n_pdu s j) \<and> pdu_new s = (Some j, s1) \<and> pdu_now j pdu_init s s1"
proof -
  obtain j where j: "j < IMAGO_MAX_PDU" "\<not> p_self (n_pdu s j)"
      "List.find (\<lambda>i. \<not> p_self (n_pdu s i)) [0..<IMAGO_MAX_PDU] = Some j"
    using find_upt [of i IMAGO_MAX_PDU "\<lambda>i. \<not> p_self (n_pdu s i)"] assms by blast
  let ?c = "n_count s + 1" let ?m = "if n_max_count s < n_count s + 1 then n_count s + 1 else n_max_count s"
  have "pdu_new s = (Some j, s\<lparr>n_pdu := (n_pdu s)(j := pdu_init), n_count := ?c, n_max_count := ?m, n_pool := n_pool s\<rparr>)"
    using j(3) by (simp add: pdu_new_def Let_def upd_pdu_def)
  moreover have "pdu_now j pdu_init s
      (s\<lparr>n_pdu := (n_pdu s)(j := pdu_init), n_count := ?c, n_max_count := ?m, n_pool := n_pool s\<rparr>)"
    by (rule pdu_nowI) simp
  ultimately show ?thesis using j(1,2) by blast
qed

lemma pdu_now_simps:
  assumes "pdu_now j p s s1"
  shows "n_pdu s1 = (n_pdu s)(j := p)" "roomy (n_pool s1) = roomy (n_pool s)" "n_list s1 = n_list s"
    "timer_tlb s1 = timer_tlb s" "tm_clock s1 = tm_clock s" "tm_reads s1 = tm_reads s"
  using assms by (auto elim!: pdu_nowE simp: roomy_def)

lemma pdu_now_spool:
  assumes "pdu_now j p s s1"
  shows "b_files s1 = b_files s" "b_list s1 = b_list s" "b_id s1 = b_id s" "disk_ok s1 = disk_ok s"
  using assms by (auto elim!: pdu_nowE simp: disk_ok_def)

lemma pdu_now_stack:
  assumes "pdu_now j p s s1"
  shows "k_ids s1 = k_ids s" "k_generation s1 = k_generation s" "k_sequence s1 = k_sequence s"
    "k_shutdown s1 = k_shutdown s" "k_sys s1 = k_sys s" "k_hostname s1 = k_hostname s"
  using assms by (auto elim!: pdu_nowE)

section \<open>Saving and loading\<close>

lemma backup_save_ok:
  assumes "disk_ok s"
  shows "\<exists>c k. backup_save key i s = Inr (b_id s,
     s\<lparr>b_id := b_id s + 1, b_list := Some ((case b_list s of None \<Rightarrow> [] | Some es \<Rightarrow> es) @ [(b_id s, key)]),
       b_files := (b_files s)(key \<mapsto> \<lparr>bf_id = Some (b_id s), bf_pdu = Some (n_pdu s i), bf_data = pbody i s\<rparr>),
       b_calls := c, b_writes := k\<rparr>)"
proof -
  have d: "b_ok s k" "b_write s k n = Some n" for k n using assms by (auto simp: disk_ok_def)
  have "frame_send (b_write s) k (p_frames (n_pdu s i)) = Some (k + length (p_frames (n_pdu s i)), pbody i s)" for k
    by (rule frame_send_whole) (rule d(2))
  thus ?thesis
    by (intro exI [of _ "b_calls s + 3"] exI [of _ "b_writes s + length (p_frames (n_pdu s i))"])
      (simp add: backup_save_def pdu_backup_create_def create_entry_def try_io_def Let_def d(1) set_file_def pdu_send_frame_def)
qed

lemma backup_load_ok:
  assumes "b_files s key = Some f" "bf_pdu f = Some img" "roomy (n_pool s)" "i < IMAGO_MAX_PDU" "\<not> p_self (n_pdu s i)"
  shows "\<exists>j s1 fs. backup_load key s = (Some j, s1) \<and> j < IMAGO_MAX_PDU \<and> \<not> p_self (n_pdu s j)
    \<and> pdu_now j (img\<lparr>p_self := True, p_frames := fs\<rparr>) s s1 \<and> list_all fok fs \<and> content fs = bf_data f"
proof -
  obtain j s1 where j: "j < IMAGO_MAX_PDU" "\<not> p_self (n_pdu s j)" "pdu_new s = (Some j, s1)" "pdu_now j pdu_init s s1"
    using pdu_new_free [OF assms(4,5)] by blast
  obtain fs pl where a: "append_chunks (bf_data f) [] (n_pool s1) = (True, fs, pl)" "list_all fok fs" "content fs = bf_data f"
    "fp_malloc pl = fp_malloc (n_pool s1)"
    using append_chunks_roomy [of "n_pool s1" "[]" "bf_data f"] pdu_now_simps(2) [OF j(4)] assms(3) by auto
  have "backup_load key s = (Some j, upd_pdu j (\<lambda>_. img\<lparr>p_self := True, p_frames := fs\<rparr>) (s1\<lparr>n_pool := pl\<rparr>))"
    using j(3) assms(1,2) pdu_now_spool(1) [OF j(4)] a(1) by (simp add: backup_load_def pdu_backup_restore_def Let_def)
  moreover have "pdu_now j (img\<lparr>p_self := True, p_frames := fs\<rparr>) s
      (upd_pdu j (\<lambda>_. img\<lparr>p_self := True, p_frames := fs\<rparr>) (s1\<lparr>n_pool := pl\<rparr>))"
    using j(4)
  proof (rule pdu_nowE)
    fix c m ql
    assume e: "s1 = s\<lparr>n_pdu := (n_pdu s)(j := pdu_init), n_count := c, n_max_count := m, n_pool := ql\<rparr>"
      "fp_malloc ql = fp_malloc (n_pool s)"
    have "upd_pdu j (\<lambda>_. img\<lparr>p_self := True, p_frames := fs\<rparr>) (s1\<lparr>n_pool := pl\<rparr>)
        = s\<lparr>n_pdu := (n_pdu s)(j := img\<lparr>p_self := True, p_frames := fs\<rparr>), n_count := c, n_max_count := m, n_pool := pl\<rparr>"
      unfolding e(1) upd_pdu_def by simp
    moreover have "fp_malloc pl = fp_malloc (n_pool s)" using a(4) e by simp
    ultimately show ?thesis unfolding pdu_now_def by blast
  qed
  ultimately show ?thesis using j(1,2) a(2,3) by blast
qed

lemma kept_entries_subset: "set (kept_entries t i es) \<subseteq> set es"
  by (induction t i es rule: kept_entries.induct) auto

lemma find_entry_absent: "i \<notin> fst ` set es \<Longrightarrow> b_list s = Some es \<Longrightarrow> find_entry i s = Inr []"
proof -
  assume a: "i \<notin> fst ` set es" "b_list s = Some es"
  have "List.find (\<lambda>e. fst e = i) es = None" using a(1) by (force simp: find_None_iff)
  thus ?thesis using a(2) by (simp add: find_entry_def)
qed

lemma remove_entry_drops_first:
  assumes "b_list s = Some (e # es)" "distinct (map fst (e # es))" "fst e \<noteq> i"
  shows "find_entry (fst e) (remove_entry i s) = Inr []"
proof (rule find_entry_absent)
  show "b_list (remove_entry i s) = Some (kept_entries True i es)" using assms(1,3) by (simp add: remove_entry_def)
  show "fst e \<notin> fst ` set (kept_entries True i es)"
    using assms(2) kept_entries_subset [of True i es] by auto
qed

section \<open>Properties\<close>

text \<open>
  Claim C16. On a disk that takes what it is given, and with memory for frames and a
  free PDU, a PDU saved under a key is loaded again by the key: the record loaded is
  the record saved but for the frames, which hold the same bytes, and no other
  record is touched.
\<close>

theorem backup_roundtrip:
  assumes "disk_ok s" "roomy (n_pool s)" "k < IMAGO_MAX_PDU" "\<not> p_self (n_pdu s k)" "backup_save key i s = Inr (b, s1)"
  shows "\<exists>j s2 fs. backup_load key s1 = (Some j, s2) \<and> \<not> p_self (n_pdu s j)
    \<and> n_pdu s2 = (n_pdu s)(j := (n_pdu s i)\<lparr>p_self := True, p_frames := fs\<rparr>) \<and> list_all fok fs \<and> content fs = pbody i s"
proof -
  obtain c w where s1: "s1 = s\<lparr>b_id := b_id s + 1,
       b_list := Some ((case b_list s of None \<Rightarrow> [] | Some es \<Rightarrow> es) @ [(b_id s, key)]),
       b_files := (b_files s)(key \<mapsto> \<lparr>bf_id = Some (b_id s), bf_pdu = Some (n_pdu s i), bf_data = pbody i s\<rparr>),
       b_calls := c, b_writes := w\<rparr>"
    using backup_save_ok [OF assms(1), of key i] assms(5) by auto
  have "\<exists>j s2 fs. backup_load key s1 = (Some j, s2) \<and> j < IMAGO_MAX_PDU \<and> \<not> p_self (n_pdu s1 j)
    \<and> pdu_now j ((n_pdu s i)\<lparr>p_self := True, p_frames := fs\<rparr>) s1 s2 \<and> list_all fok fs \<and> content fs = pbody i s"
    using backup_load_ok [of s1 key "\<lparr>bf_id = Some (b_id s), bf_pdu = Some (n_pdu s i), bf_data = pbody i s\<rparr>" "n_pdu s i" k]
      assms(2-4) by (simp add: s1)
  then obtain j s2 fs where j: "backup_load key s1 = (Some j, s2)" "\<not> p_self (n_pdu s1 j)"
      "pdu_now j ((n_pdu s i)\<lparr>p_self := True, p_frames := fs\<rparr>) s1 s2" "list_all fok fs" "content fs = pbody i s" by blast
  thus ?thesis using pdu_now_simps(1) [OF j(3)] by (auto simp: s1)
qed

text \<open>A process with one PDU, memory, an empty backup directory and a working disk.\<close>

definition demo_spool :: spool where
  "demo_spool =
    \<lparr>timer_tlb = \<lambda>_. cleared_timer, tm_alarm = timer_clear, tm_clock = \<lambda>_. \<lparr>tv_sec = 1000, tv_usec = 0\<rparr>, tm_reads = 0,
     n_pdu = (\<lambda>_. pdu_init\<lparr>p_self := False\<rparr>)(0 := pdu_init\<lparr>p_genid := 7, p_seqid := 9\<rparr>),
     n_count = 1, n_max_count = 1, n_list = [], n_pool = demo_pool\<lparr>fp_malloc := \<lambda>_. True\<rparr>, n_kills = [],
     b_id = 0, b_list = None, b_files = \<lambda>_. None, b_ok = \<lambda>_. True, b_calls = 0, b_write = \<lambda>_ n. Some n, b_writes = 0\<rparr>"

theorem backup_roundtrip_witness:
  "\<exists>s1 j s2. backup_save [107] 0 demo_spool = Inr (0, s1) \<and> backup_load [107] s1 = (Some j, s2) \<and> p_seqid (n_pdu s2 j) = 9"
proof -
  have d: "disk_ok demo_spool" "roomy (n_pool demo_spool)" "1 < IMAGO_MAX_PDU" "\<not> p_self (n_pdu demo_spool 1)" "b_id demo_spool = 0"
    "p_seqid (n_pdu demo_spool 0) = 9"
    by (simp_all add: disk_ok_def roomy_def demo_spool_def pdu_init_def IMAGO_MAX_PDU_def)
  obtain s1 where s: "backup_save [107] 0 demo_spool = Inr (0, s1)" using backup_save_ok [OF d(1), of "[107]" 0] d(5) by auto
  from backup_roundtrip [OF d(1-4) s] obtain j s2 fs where "backup_load [107] s1 = (Some j, s2)"
    "n_pdu s2 = (n_pdu demo_spool)(j := (n_pdu demo_spool 0)\<lparr>p_self := True, p_frames := fs\<rparr>)" by blast
  thus ?thesis using s d(6) by auto
qed

end
