(* ===== verification/MLVM_Header_Correct.thy ===== *)
theory MLVM_Header_Correct
  imports MLVM_Pdu_Correct MLVM_System_Props
begin

text \<open>
  The headers of the transport protocol: what the layers write on a PDU on its way
  down the layers of the peer read on its way up.  Routing takes a destination for
  its own as soon as one of its names is a prefix of it.
\<close>

section \<open>Strings\<close>

lemma c_string_text:
  assumes "c_array_string a = Inr t"
  shows "0 \<notin> set t" "length t < length a" "takeWhile (\<lambda>b. b \<noteq> 0) t = t"
proof -
  have a: "0 \<in> set a" and t: "t = takeWhile (\<lambda>b. b \<noteq> 0) a"
    using assms by (auto simp: c_array_string_def split: if_splits)
  show "0 \<notin> set t" unfolding t by (auto dest: set_takeWhileD)
  have "takeWhile (\<lambda>b. b \<noteq> 0) a \<noteq> a" using a set_takeWhileD by fastforce
  thus "length t < length a" unfolding t by (metis length_takeWhile_le le_neq_implies_less takeWhile_eq_take take_all_iff)
  show "takeWhile (\<lambda>b. b \<noteq> 0) t = t" unfolding t by (simp add: takeWhile_idem)
qed

lemma strn_eq_prefix:
  assumes "length xs \<le> length bs" "0 \<notin> set xs"
  shows "strn_eq f (length xs) (xs @ ys) bs \<longleftrightarrow> map f xs = map f (take (length xs) bs)"
  using assms
proof (induction xs arbitrary: bs)
  case (Cons x xs)
  then obtain b cs where "bs = b # cs" by (cases bs) auto
  thus ?case using Cons by auto
qed simp

text \<open>The test of routing_up: the name is a prefix, letters of both cases being equal.\<close>

lemma known_as_prefix:
  assumes "0 \<notin> set name" "length name \<le> length host"
  shows "known_as host name \<longleftrightarrow> map tolower name = map tolower (take (length name) host)"
  unfolding known_as_def strncasecmp_eq_def using strn_eq_prefix [OF assms(2,1)] by blast

section \<open>Down\<close>

lemma write_header_bytes:
  assumes "roomy (n_pool s)" "pok i s" "write_header i s = (r, t)"
  shows "r = 0 \<and> frames_now i (be16 (p_genid (n_pdu s i)) @ be16 (p_ADAtype (n_pdu s i)) @ be32 (p_seqid (n_pdu s i))
           @ pbody i s) s t"
proof -
  let ?p = "n_pdu s i"
  obtain s1 where 1: "pdu_write_int (p_seqid ?p) i s = (4, s1)" "frames_now i (be32 (p_seqid ?p) @ pbody i s) s s1"
    using on_write [OF assms(1,2), of "be32 (p_seqid ?p)"] by (auto simp: pdu_writes)
  note f1 = frames_now_simps [OF 1(2)] and e1 = frames_now_fields [OF 1(2)]
  obtain s2 where 2: "pdu_write_short (p_ADAtype ?p) i s1 = (2, s2)"
      "frames_now i (be16 (p_ADAtype ?p) @ be32 (p_seqid ?p) @ pbody i s) s1 s2"
    using on_write [of s1 i "be16 (p_ADAtype ?p)"] f1 assms(1) by (auto simp: pdu_writes)
  note f2 = frames_now_simps [OF 2(2)] and e2 = frames_now_fields [OF 2(2)]
  obtain s3 where 3: "pdu_write_short (p_genid ?p) i s2 = (2, s3)"
      "frames_now i (be16 (p_genid ?p) @ be16 (p_ADAtype ?p) @ be32 (p_seqid ?p) @ pbody i s) s2 s3"
    using on_write [of s2 i "be16 (p_genid ?p)"] f1 f2 assms(1) by (auto simp: pdu_writes)
  have "write_header i s = (0, s3)"
    using 1(1) 2(1) 3(1) e1 e2 by (simp add: write_header_def)
  thus ?thesis using frames_now_trans [OF frames_now_trans [OF 1(2) 2(2)] 3(2)] assms(3) by simp
qed

lemma security_down_bytes:
  assumes "roomy (n_pool s)" "pok i s" "security_down i s = (r, t)"
  shows "r = k_ids s Routing_down \<and> frames_now i (0 # pbody i s) s t"
proof -
  obtain s1 where 1: "pdu_write_byte 0 i s = (1, s1)" "frames_now i (0 # pbody i s) s s1"
    using on_write [OF assms(1,2), of "[0]"] by (auto simp: pdu_writes)
  thus ?thesis using assms(3) frames_now_stack(1) [OF 1(2)] by (auto simp: security_down_def)
qed

lemma routing_header_bytes:
  assumes "roomy (n_pool s)" "pok i s" "c_array_string (p_source (n_pdu s i)) = Inr src" "c_array_string (p_dest (n_pdu s i)) = Inr dst"
  shows "\<exists>t. routing_header i s = Inr (k_ids s Connection_down, t)
    \<and> frames_now i (dst @ 0 # src @ 0 # p_ttl (n_pdu s i) # pbody i s) s t"
proof -
  note ts = c_string_text(3) [OF assms(3)] c_string_text(3) [OF assms(4)]
  let ?p = "n_pdu s i"
  obtain s1 where 1: "pdu_write_byte (p_ttl ?p) i s = (1, s1)" "frames_now i (p_ttl ?p # pbody i s) s s1"
    using on_write [OF assms(1,2), of "[p_ttl ?p]"] by (auto simp: pdu_writes)
  note f1 = frames_now_simps [OF 1(2)] and e1 = frames_now_fields [OF 1(2)]
  obtain s2 where 2: "pdu_write_text src i s1 = (int (length src) + 1, s2)"
      "frames_now i (src @ 0 # p_ttl ?p # pbody i s) s1 s2"
    using on_write [of s1 i "src @ [0]"] f1 assms(1) ts by (auto simp: pdu_writes)
  note f2 = frames_now_simps [OF 2(2)] and e2 = frames_now_fields [OF 2(2)]
  obtain s3 where 3: "pdu_write_text dst i s2 = (int (length dst) + 1, s3)"
      "frames_now i (dst @ 0 # src @ 0 # p_ttl ?p # pbody i s) s2 s3"
    using on_write [of s2 i "dst @ [0]"] f1 f2 assms(1) ts by (auto simp: pdu_writes)
  note t = frames_now_trans [OF frames_now_trans [OF 1(2) 2(2)] 3(2)]
  have "routing_header i s = Inr (k_ids s3 Connection_down, s3)"
    using 1(1) 2(1) 3(1) e1 e2 assms(3,4) by (simp add: routing_header_def)
  thus ?thesis using t frames_now_stack(1) [OF t] by auto
qed

section \<open>Up\<close>

lemma frames_now_upd:
  assumes "frames_now j ys r t" "\<And>p fs. g (p\<lparr>p_frames := fs\<rparr>) = (g p)\<lparr>p_frames := fs\<rparr>"
  shows "frames_now j ys (upd_pdu j g r) (upd_pdu j g t)"
proof -
  obtain fs pl where t: "t = upd_pdu j (\<lambda>p. p\<lparr>p_frames := fs\<rparr>) (r\<lparr>n_pool := pl\<rparr>)" "list_all fok fs" "content fs = ys"
    "fp_malloc pl = fp_malloc (n_pool r)" using assms(1) by (rule frames_nowE)
  have "upd_pdu j g t = upd_pdu j (\<lambda>p. p\<lparr>p_frames := fs\<rparr>) ((upd_pdu j g r)\<lparr>n_pool := pl\<rparr>)"
    unfolding t(1) by (simp add: upd_pdu_def assms(2))
  thus ?thesis using t by (auto simp: frames_now_def)
qed

lemma header_parts [simp]:
  "length (header_bytes v fl n) = 12" "hdr_magic (header_bytes v fl n) = MAGIC_NUMBER"
  "hdr_version (header_bytes v fl n) = v" "hdr_flags (header_bytes v fl n) = fl" "hdr_length (header_bytes v fl n) = n"
  by (simp_all add: header_bytes_def hdr_magic_def hdr_version_def hdr_flags_def hdr_length_def of_be32_be32 of_be16_be16)

lemma connection_up_bytes:
  assumes "pok j r" "pbody j r = header_bytes IMAGO_TRANSPORT_SITP_VERSION fl len @ ys"
  shows "\<exists>t. connection_up j r = Inr (k_ids r Routing_up, t)
    \<and> frames_now j ys (upd_pdu j (\<lambda>p. p\<lparr>p_flags := fl\<rparr>) r) t"
proof -
  obtain r1 where 1: "pdu_read_string 12 j r = ((header_bytes IMAGO_TRANSPORT_SITP_VERSION fl len, 12), r1)"
      "frames_now j ys r r1"
    using on_read [OF assms(1), of 12] assms(2) by (auto simp del: header_parts(2-))
  let ?t = "upd_pdu j (\<lambda>p. p\<lparr>p_flags := fl\<rparr>) r1"
  have "connection_up j r = Inr (k_ids r Routing_up, ?t)"
    using 1(1) frames_now_stack(1) [OF 1(2)] by (simp add: connection_up_def)
  moreover have "frames_now j ys (upd_pdu j (\<lambda>p. p\<lparr>p_flags := fl\<rparr>) r) ?t"
    by (rule frames_now_upd [OF 1(2)]) simp
  ultimately show ?thesis by blast
qed

text \<open>The names of a PDU after they have been read.\<close>

definition named :: "byte list \<Rightarrow> byte list \<Rightarrow> byte \<Rightarrow> pdu \<Rightarrow> pdu" where
  "named dst src t p = p\<lparr>p_dest := stored (dst @ [0]) (p_dest p), p_source := stored (src @ [0]) (p_source p), p_ttl := t\<rparr>"

lemma read_names_bytes:
  assumes "pok j r" "pbody j r = dst @ 0 # src @ 0 # ttl # ys" "0 \<notin> set dst" "0 \<notin> set src"
    and "length dst < MAX_DNS_NAME_SIZE" "length src < MAX_DNS_NAME_SIZE"
  shows "\<exists>t. read_names j r = (0, t) \<and> frames_now j ys (upd_pdu j (named dst src ttl) r) t"
proof -
  let ?d = "\<lambda>p. p\<lparr>p_dest := stored (dst @ [0]) (p_dest p)\<rparr>"
  let ?c = "\<lambda>p. p\<lparr>p_source := stored (src @ [0]) (p_source p)\<rparr>"
  let ?t = "\<lambda>p. p\<lparr>p_ttl := ttl\<rparr>"
  obtain n1 r1 where 1: "pdu_read_text (int MAX_DNS_NAME_SIZE) j r = ((dst @ [0], n1), r1)" "0 \<le> n1"
      "frames_now j (src @ 0 # ttl # ys) r r1"
    using on_read_text [OF assms(1,2,3,5)] by blast
  have d: "frames_now j (src @ 0 # ttl # ys) (upd_pdu j ?d r) (upd_pdu j ?d r1)" (is "frames_now _ _ ?r1 ?s1")
    by (rule frames_now_upd [OF 1(3)]) simp
  obtain n2 r2 where 2: "pdu_read_text (int MAX_DNS_NAME_SIZE) j ?s1 = ((src @ [0], n2), r2)" "0 \<le> n2"
      "frames_now j (ttl # ys) ?s1 r2"
    using on_read_text [OF frames_now_simps(1) [OF d] frames_now_simps(2) [OF d] assms(4,6)] by blast
  have c: "frames_now j (ttl # ys) (upd_pdu j ?c ?r1) (upd_pdu j ?c r2)" (is "frames_now _ _ ?r2 ?s2")
    by (rule frames_now_upd [OF frames_now_trans [OF d 2(3)]]) simp
  obtain r3 where 3: "pdu_read_byte j ?s2 = (Some ttl, r3)" "frames_now j ys ?s2 r3"
    using on_read_number(3) [OF frames_now_simps(1) [OF c] frames_now_simps(2) [OF c]] by blast
  have "frames_now j ys (upd_pdu j ?t ?r2) (upd_pdu j ?t r3)"
    by (rule frames_now_upd [OF frames_now_trans [OF c 3(2)]]) simp
  moreover have "upd_pdu j ?t ?r2 = upd_pdu j (named dst src ttl) r"
    by (simp add: upd_pdu_def named_def)
  ultimately show ?thesis using 1(1,2) 2(1,2) 3(1) by (simp add: read_names_def Let_def)
qed

text \<open>The fields read_header sets.\<close>

definition numbered :: "16 word \<Rightarrow> 16 word \<Rightarrow> word32 \<Rightarrow> pdu \<Rightarrow> pdu" where
  "numbered g ty q p = p\<lparr>p_genid := g, p_ADAtype := ty, p_seqid := q\<rparr>"

lemma read_header_bytes:
  assumes "pok j r" "pbody j r = be16 g @ be16 ty @ be32 q @ ys"
  shows "frames_now j ys (upd_pdu j (numbered g ty q) r) (read_header j r)"
proof -
  let ?g = "\<lambda>p. p\<lparr>p_genid := g\<rparr>" let ?t = "\<lambda>p. p\<lparr>p_ADAtype := ty\<rparr>" let ?q = "\<lambda>p. p\<lparr>p_seqid := q\<rparr>"
  obtain r1 where 1: "pdu_read_short j r = (Some g, r1)" "frames_now j (be16 ty @ be32 q @ ys) r r1"
    using on_read_number(2) [OF assms] by blast
  have a: "frames_now j (be16 ty @ be32 q @ ys) (upd_pdu j ?g r) (upd_pdu j ?g r1)" (is "frames_now _ _ ?r1 ?s1")
    by (rule frames_now_upd [OF 1(2)]) simp
  obtain r2 where 2: "pdu_read_short j ?s1 = (Some ty, r2)" "frames_now j (be32 q @ ys) ?s1 r2"
    using on_read_number(2) [OF frames_now_simps(1) [OF a] frames_now_simps(2) [OF a]] by blast
  have b: "frames_now j (be32 q @ ys) (upd_pdu j ?t ?r1) (upd_pdu j ?t r2)" (is "frames_now _ _ ?r2 ?s2")
    by (rule frames_now_upd [OF frames_now_trans [OF a 2(2)]]) simp
  obtain r3 where 3: "pdu_read_int j ?s2 = (Some q, r3)" "frames_now j ys ?s2 r3"
    using on_read_number(1) [OF frames_now_simps(1) [OF b] frames_now_simps(2) [OF b]] by blast
  have "frames_now j ys (upd_pdu j ?q ?r2) (upd_pdu j ?q r3)"
    by (rule frames_now_upd [OF frames_now_trans [OF b 3(2)]]) simp
  moreover have "upd_pdu j ?q ?r2 = upd_pdu j (numbered g ty q) r" by (simp add: upd_pdu_def numbered_def)
  moreover have "read_header j r = upd_pdu j ?q r3" using 1(1) 2(1) 3(1) by (simp add: read_header_def)
  ultimately show ?thesis by simp
qed

lemma security_up_bytes:
  assumes "pok j r" "pbody j r = 0 # ys" "p_flags (n_pdu r j) AND PDU_ERROR = 0"
  shows "\<exists>t. security_up j r = (k_ids r ADA_up, t) \<and> frames_now j ys r t"
proof -
  obtain t where t: "pdu_read_byte j r = (Some 0, t)" "frames_now j ys r t"
    using on_read_number(3) [OF assms(1,2)] by blast
  hence "security_flags j r = (k_ids r ADA_up, t)" using frames_now_stack(1) [OF t(2)] by (simp add: security_flags_def)
  thus ?thesis using t assms(3) by (auto simp: security_up_def security_control_up_def security_transport_up_def)
qed

lemma routing_up_bytes:
  assumes "pok j r" "pbody j r = dst @ 0 # src @ 0 # ttl # ys" "0 \<notin> set dst" "0 \<notin> set src"
    and "length dst < MAX_DNS_NAME_SIZE" "length src < MAX_DNS_NAME_SIZE"
    and "p_flags (n_pdu r j) AND PDU_ERROR = 0"
    and "known_as (stored (dst @ [0]) (p_dest (n_pdu r j))) (k_hostname r)"
  shows "\<exists>t. routing_up j r = Inr (k_ids r Security_up, t) \<and> frames_now j ys (upd_pdu j (named dst src ttl) r) t"
proof -
  obtain t where t: "read_names j r = (0, t)" "frames_now j ys (upd_pdu j (named dst src ttl) r) t"
    using read_names_bytes [OF assms(1-6)] by blast
  note f = frames_now_stack [OF t(2)] frames_now_fields [OF t(2)]
  have "is_local j t = Inr True" using assms(8) f by (simp add: is_local_def named_def)
  thus ?thesis using t f(1) assms(7) by (simp add: routing_up_def)
qed

lemma known_as_self: "0 \<notin> set name \<Longrightarrow> known_as (stored (name @ [0]) a) name"
  by (subst known_as_prefix) (simp_all add: stored_def)

section \<open>Properties\<close>

text \<open>
  Claim C9. A PDU crosses the wire: with memory for frames, the ADA header, the
  security byte and the routing header are written, and a peer that is the
  destination and receives the connection header followed by these bytes moves the
  PDU up through connection, routing and security to the ADA layer, which then reads
  the generation, type and sequence that were sent, has the sender's name and the
  time to live in the record, and finds the sender's data in the frames.
\<close>

theorem pdu_crosses_the_wire:
  fixes s r :: wires
  assumes "roomy (n_pool s)" "pok i s" "n_pdu s i = p" "c_array_string (p_source p) = Inr src" "c_array_string (p_dest p) = Inr dst"
    and "length (p_source p) = MAX_DNS_NAME_SIZE" "length (p_dest p) = MAX_DNS_NAME_SIZE"
    and "write_header i s = (x1, s1)" "security_down i s1 = (x2, s2)" "routing_header i s2 = Inr (x3, s3)"
    and "pok j r" "k_hostname r = dst" "fl = p_flags p AND NOT PDU_FLAG_RESERVED"
    and "pbody j r = header_bytes IMAGO_TRANSPORT_SITP_VERSION fl len @ pbody i s3"
  shows "x1 = 0 \<and> x2 = k_ids s Routing_down \<and> x3 = k_ids s Connection_down \<and>
    (\<exists>r1 r2 r3. connection_up j r = Inr (k_ids r Routing_up, r1)
      \<and> routing_up j r1 = Inr (k_ids r Security_up, r2)
      \<and> security_up j r2 = (k_ids r ADA_up, r3)
      \<and> frames_now j (pbody i s)
          (upd_pdu j (\<lambda>q. numbered (p_genid p) (p_ADAtype p) (p_seqid p) (named dst src (p_ttl p) (q\<lparr>p_flags := fl\<rparr>))) r)
          (read_header j r3))"
proof -
  note src = c_string_text [OF assms(4)] and dst = c_string_text [OF assms(5)]
  note h = write_header_bytes [OF assms(1,2,8)]
  hence 1: "frames_now i (be16 (p_genid p) @ be16 (p_ADAtype p) @ be32 (p_seqid p) @ pbody i s) s s1" "x1 = 0"
    using assms(3) by auto
  note f1 = frames_now_simps [OF 1(1)] and g1 = frames_now_fields [OF 1(1)] frames_now_stack [OF 1(1)]
  have 2: "frames_now i (0 # pbody i s1) s1 s2" "x2 = k_ids s Routing_down"
    using security_down_bytes [OF _ f1(1) assms(9)] assms(1) f1(4) g1 by auto
  note f2 = frames_now_simps [OF 2(1)] and g2 = frames_now_fields [OF 2(1)] frames_now_stack [OF 2(1)]
  have 3: "x3 = k_ids s Connection_down"
      "frames_now i (dst @ 0 # src @ 0 # p_ttl p # pbody i s2) s2 s3"
    using routing_header_bytes [OF _ f2(1), of src dst] assms(1,3,4,5,10) f1(4) f2(4) g1 g2 by auto
  let ?ada = "be16 (p_genid p) @ be16 (p_ADAtype p) @ be32 (p_seqid p) @ pbody i s"
  have w: "pbody j r = header_bytes IMAGO_TRANSPORT_SITP_VERSION fl len @ dst @ 0 # src @ 0 # p_ttl p # 0 # ?ada"
    using assms(14) frames_now_simps(2) [OF 3(2)] f1(2) f2(2) by simp
  let ?f = "\<lambda>q. q\<lparr>p_flags := fl\<rparr>"
  obtain r1 where 4: "connection_up j r = Inr (k_ids r Routing_up, r1)"
      "frames_now j (dst @ 0 # src @ 0 # p_ttl p # 0 # ?ada) (upd_pdu j ?f r) r1"
    using connection_up_bytes [OF assms(11) w] by blast
  note f4 = frames_now_simps [OF 4(2)] and g4 = frames_now_fields [OF 4(2)] frames_now_stack [OF 4(2)]
  have noerr: "fl AND PDU_ERROR = 0" unfolding assms(13) by (simp add: ac_simps)
  have e4: "p_flags (n_pdu r1 j) AND PDU_ERROR = 0" using noerr g4(1) by simp
  have k4: "known_as (stored (dst @ [0]) (p_dest (n_pdu r1 j))) (k_hostname r1)"
    using known_as_self [OF dst(1)] g4 assms(12) by simp
  have l: "length dst < MAX_DNS_NAME_SIZE" "length src < MAX_DNS_NAME_SIZE" using dst(2) src(2) assms(6,7) by simp_all
  obtain r2 where 5: "routing_up j r1 = Inr (k_ids r1 Security_up, r2)"
      "frames_now j (0 # ?ada) (upd_pdu j (named dst src (p_ttl p)) r1) r2"
    using routing_up_bytes [OF f4(1,2) dst(1) src(1) l e4 k4] by blast
  note f5 = frames_now_simps [OF 5(2)] and g5 = frames_now_fields [OF 5(2)] frames_now_stack [OF 5(2)]
  obtain r3 where 6: "security_up j r2 = (k_ids r2 ADA_up, r3)" "frames_now j ?ada r2 r3"
    using security_up_bytes [OF f5(1,2)] e4 g5(1) by (auto simp: named_def)
  have 7: "frames_now j (pbody i s) (upd_pdu j (numbered (p_genid p) (p_ADAtype p) (p_seqid p)) r3) (read_header j r3)"
    using read_header_bytes frames_now_simps(1,2) [OF 6(2)] by blast
  have a: "frames_now j ?ada (upd_pdu j (named dst src (p_ttl p)) (upd_pdu j ?f r)) r3"
    by (rule frames_now_trans [OF frames_now_trans [OF frames_now_upd [OF 4(2)] 5(2)] 6(2)]) (simp add: named_def)
  have b: "frames_now j (pbody i s)
      (upd_pdu j (numbered (p_genid p) (p_ADAtype p) (p_seqid p)) (upd_pdu j (named dst src (p_ttl p)) (upd_pdu j ?f r)))
      (read_header j r3)"
    by (rule frames_now_trans [OF frames_now_upd [OF a] 7]) (simp add: numbered_def)
  have "upd_pdu j (numbered (p_genid p) (p_ADAtype p) (p_seqid p)) (upd_pdu j (named dst src (p_ttl p)) (upd_pdu j ?f r))
      = upd_pdu j (\<lambda>q. numbered (p_genid p) (p_ADAtype p) (p_seqid p) (named dst src (p_ttl p) (?f q))) r"
    by (simp add: upd_pdu_def)
  thus ?thesis using 1(2) 2(2) 3(1) 4(1) 5(1) 6(1) b g4 g5 by simp
qed

text \<open>A host with one PDU, addressed to itself, and memory.\<close>

definition demo_host :: wires where
  "demo_host =
    \<lparr>timer_tlb = \<lambda>_. cleared_timer, tm_alarm = timer_clear, tm_clock = \<lambda>_. \<lparr>tv_sec = 1000, tv_usec = 0\<rparr>, tm_reads = 0,
     n_pdu = (\<lambda>_. pdu_init\<lparr>p_self := False\<rparr>)
       (0 := pdu_init\<lparr>p_genid := 7, p_ADAtype := ADA_TYPE_REQUEST, p_seqid := 9, p_ttl := 255,
                      p_dest := strcpy zero_name [97], p_source := strcpy zero_name [98]\<rparr>),
     n_count = 1, n_max_count = 1, n_list = [], n_pool = demo_pool\<lparr>fp_malloc := \<lambda>_. True\<rparr>, n_kills = [],
     b_id = 0, b_list = None, b_files = \<lambda>_. None, b_ok = \<lambda>_. True, b_calls = 0, b_write = \<lambda>_ n. Some n, b_writes = 0,
     k_sm = \<lparr>sm_table = None, sm_max = 0, sm_count = 0, sm_malloc = \<lambda>_. True, sm_calls = 0\<rparr>, k_ids = \<lambda>_. - 1,
     k_generation = 7, k_sequence = 10, k_shutdown = False, k_hostname = [97], k_aliases = Some [],
     k_cache = \<lambda>_. \<lparr>c_flags = 0, c_hostname = zero_name, c_addr = 0\<rparr>, k_recv = True, k_sys = empty_sys,
     w_con = \<lambda>_. free_con, w_timer = 0, w_timeout = 900, w_waiting = [], w_stream = 3, w_dgram = 4, w_threads = 0,
     w_socket = \<lambda>_. 5, w_connect = \<lambda>_. True, w_send = \<lambda>_. True, w_write = \<lambda>_ _ n. Some n, w_recv = \<lambda>_. Inl 0,
     w_test = \<lambda>_. True, w_calls = 0, w_accept = [], w_dgrams = [], w_sent = []\<rparr>"

lemma demo_roomy: "roomy (n_pool demo_host)" by (simp add: roomy_def demo_host_def)

lemma demo_strings:
  "c_array_string (strcpy zero_name [97]) = Inr [97]" "length (strcpy zero_name [97]) = MAX_DNS_NAME_SIZE"
  "c_array_string (strcpy zero_name [98]) = Inr [98]" "length (strcpy zero_name [98]) = MAX_DNS_NAME_SIZE"
  by (simp_all add: c_array_string_def strcpy_def zero_name_def MAX_DNS_NAME_SIZE_def)

theorem pdu_crosses_the_wire_witness:
  "\<exists>s1 s2 s3 (r :: wires) r1 r2 r3. write_header 0 demo_host = (0, s1)
     \<and> security_down 0 s1 = (k_ids demo_host Routing_down, s2)
     \<and> routing_header 0 s2 = Inr (k_ids demo_host Connection_down, s3)
     \<and> connection_up 0 r = Inr (k_ids r Routing_up, r1) \<and> routing_up 0 r1 = Inr (k_ids r Security_up, r2)
     \<and> security_up 0 r2 = (k_ids r ADA_up, r3) \<and> p_seqid (n_pdu (read_header 0 r3) 0) = 9"
proof -
  let ?p = "n_pdu demo_host 0" and ?fl = "PDU_TYPE_SITP AND NOT PDU_FLAG_RESERVED :: 16 word"
  have p: "roomy (n_pool demo_host)" "pok 0 demo_host" "c_array_string (p_source ?p) = Inr [98]" "c_array_string (p_dest ?p) = Inr [97]"
    "length (p_source ?p) = MAX_DNS_NAME_SIZE" "length (p_dest ?p) = MAX_DNS_NAME_SIZE"
    "k_hostname demo_host = [97]" "p_flags ?p = PDU_TYPE_SITP" "p_seqid ?p = 9"
    using demo_roomy demo_strings by (simp_all add: demo_host_def pdu_init_def)
  obtain x1 s1 where 1: "write_header 0 demo_host = (x1, s1)" by fastforce
  note f1 = conjunct2 [OF write_header_bytes [OF p(1,2) 1]]
  obtain x2 s2 where 2: "security_down 0 s1 = (x2, s2)" by fastforce
  have f2: "frames_now 0 (0 # pbody 0 s1) s1 s2"
    using security_down_bytes [OF _ frames_now_simps(1) [OF f1] 2] frames_now_simps(4) [OF f1] p(1) by blast
  have s2: "roomy (n_pool s2)" "p_source (n_pdu s2 0) = p_source ?p" "p_dest (n_pdu s2 0) = p_dest ?p"
    using frames_now_simps(4) [OF f1] frames_now_simps(4) [OF f2] frames_now_fields [OF f1] frames_now_fields [OF f2] p(1)
    by simp_all
  obtain s3 where 3: "routing_header 0 s2 = Inr (k_ids s2 Connection_down, s3)"
    "frames_now 0 ([97] @ 0 # [98] @ 0 # p_ttl (n_pdu s2 0) # pbody 0 s2) s2 s3"
    using routing_header_bytes [OF s2(1) frames_now_simps(1) [OF f2], of "[98]" "[97]"] s2 p(3,4) by auto
  obtain r where r: "frames_now 0 (header_bytes IMAGO_TRANSPORT_SITP_VERSION ?fl 0 @ pbody 0 s3) s3 r"
    using on_write [OF _ frames_now_simps(1) [OF 3(2)]] frames_now_simps(4) [OF 3(2)] s2(1) by blast
  have h: "k_hostname r = [97]"
    using frames_now_stack(2) [OF f1] frames_now_stack(2) [OF f2] frames_now_stack(2) [OF 3(2)] frames_now_stack(2) [OF r] p(7)
    by simp
  have fl: "?fl = p_flags ?p AND NOT PDU_FLAG_RESERVED" by (simp only: p(8))
  from pdu_crosses_the_wire [OF p(1,2) refl p(3-6) 1 2 3(1) frames_now_simps(1) [OF r] h fl frames_now_simps(2) [OF r]]
  obtain r1 r2 r3 where "x1 = 0" "x2 = k_ids demo_host Routing_down" "k_ids s2 Connection_down = k_ids demo_host Connection_down"
    "connection_up 0 r = Inr (k_ids r Routing_up, r1)" "routing_up 0 r1 = Inr (k_ids r Security_up, r2)"
    "security_up 0 r2 = (k_ids r ADA_up, r3)"
    and q: "frames_now 0 (pbody 0 demo_host) (upd_pdu 0 (\<lambda>q. numbered (p_genid ?p) (p_ADAtype ?p) (p_seqid ?p)
       (named [97] [98] (p_ttl ?p) (q\<lparr>p_flags := ?fl\<rparr>))) r) (read_header 0 r3)" by blast
  moreover have "p_seqid (n_pdu (read_header 0 r3) 0) = 9"
    using frames_now_fields(2) [OF q] p(9) by (simp add: numbered_def)
  ultimately have "write_header 0 demo_host = (0, s1) \<and> security_down 0 s1 = (k_ids demo_host Routing_down, s2)
     \<and> routing_header 0 s2 = Inr (k_ids demo_host Connection_down, s3)
     \<and> connection_up 0 r = Inr (k_ids r Routing_up, r1) \<and> routing_up 0 r1 = Inr (k_ids r Security_up, r2)
     \<and> security_up 0 r2 = (k_ids r ADA_up, r3) \<and> p_seqid (n_pdu (read_header 0 r3) 0) = 9"
    using 1 2 3(1) by simp
  thus ?thesis by blast
qed

end
