(* ===== verification/MLVM_Rendezvous_Correct.thy ===== *)
theory MLVM_Rendezvous_Correct
  imports MLVM_Backup_Correct MLVM_Header_Correct
begin

text \<open>
  The ADA rendez-vous: what a host does with the answers of its peer and with the
  timers, on a host with memory, a free PDU and a working disk.
\<close>

section \<open>Control PDUs\<close>

text \<open>The record of a control PDU that answers p.\<close>

definition control_pdu :: "16 word \<Rightarrow> int \<Rightarrow> byte list \<Rightarrow> pdu \<Rightarrow> frame list \<Rightarrow> pdu" where
  "control_pdu ty st src p fs =
     pdu_init\<lparr>p_state := \<lparr>oldstate = 0, sstate = st\<rparr>, p_flags := 0, p_genid := p_genid p, p_seqid := p_seqid p,
       p_ADAtype := ty, p_dest := strcpy zero_name src, p_frames := fs\<rparr>"

lemma pdu_now_upd:
  assumes "pdu_now j p s s1"
  shows "pdu_now j (f p) s (upd_pdu j f s1)"
  using assms
proof (rule pdu_nowE)
  fix c m pl
  assume e: "s1 = s\<lparr>n_pdu := (n_pdu s)(j := p), n_count := c, n_max_count := m, n_pool := pl\<rparr>" "fp_malloc pl = fp_malloc (n_pool s)"
  have "upd_pdu j f s1 = s\<lparr>n_pdu := (n_pdu s)(j := f p), n_count := c, n_max_count := m, n_pool := pl\<rparr>"
    unfolding e(1) upd_pdu_def by simp
  thus ?thesis using e(2) by (simp add: pdu_nowI)
qed

lemma pdu_now_frames:
  assumes "pdu_now j p s s1" "frames_now j bs s1 s2"
  shows "\<exists>fs. pdu_now j (p\<lparr>p_frames := fs\<rparr>) s s2 \<and> list_all fok fs \<and> content fs = bs"
proof -
  obtain fs pl where f: "s2 = upd_pdu j (\<lambda>p. p\<lparr>p_frames := fs\<rparr>) (s1\<lparr>n_pool := pl\<rparr>)" "list_all fok fs" "content fs = bs"
    "fp_malloc pl = fp_malloc (n_pool s1)" using assms(2) by (rule frames_nowE)
  have "pdu_now j p s (s1\<lparr>n_pool := pl\<rparr>)"
    using assms(1)
  proof (rule pdu_nowE)
    fix c m ql
    assume e: "s1 = s\<lparr>n_pdu := (n_pdu s)(j := p), n_count := c, n_max_count := m, n_pool := ql\<rparr>" "fp_malloc ql = fp_malloc (n_pool s)"
    have "s1\<lparr>n_pool := pl\<rparr> = s\<lparr>n_pdu := (n_pdu s)(j := p), n_count := c, n_max_count := m, n_pool := pl\<rparr>" unfolding e(1) by simp
    thus ?thesis using e f(4) by (simp add: pdu_nowI)
  qed
  from pdu_now_upd [OF this, of "\<lambda>p. p\<lparr>p_frames := fs\<rparr>"] show ?thesis using f by auto
qed

lemma dispatch_control_pdu_ok:
  assumes "roomy (n_pool s)" "k < IMAGO_MAX_PDU" "\<not> p_self (n_pdu s k)" "p_self (n_pdu s i)"
    and "c_array_string (p_source (n_pdu s i)) = Inr src"
  shows "\<exists>c s1 fs. dispatch_control_pdu ty i s = Inr (0, pdu_enqueue c s1) \<and> \<not> p_self (n_pdu s c)
    \<and> pdu_now c (control_pdu ty (k_ids s Security_down) src (n_pdu s i) fs) s s1
    \<and> list_all fok fs \<and> content fs = be16 (p_genid (n_pdu s i)) @ be16 ty @ be32 (p_seqid (n_pdu s i))"
proof -
  let ?i = "n_pdu s i"
  obtain c s1 where c: "c < IMAGO_MAX_PDU" "\<not> p_self (n_pdu s c)" "pdu_new s = (Some c, s1)" "pdu_now c pdu_init s s1"
    using pdu_new_free [OF assms(2,3)] by blast
  have ci: "c \<noteq> i" using c(2) assms(4) by blast
  let ?f = "\<lambda>p. p\<lparr>p_flags := p_flags p AND NOT PDU_TYPE_SITP, p_genid := p_genid ?i,
                  p_seqid := p_seqid ?i, p_ADAtype := ty, p_dest := strcpy (p_dest p) src\<rparr>"
  let ?s2 = "upd_pdu c ?f s1"
  let ?s3 = "pdu_set_state c (k_ids ?s2 Security_down) ?s2"
  have i1: "n_pdu s1 i = ?i" using pdu_now_simps(1) [OF c(4)] ci by simp
  have ids: "k_ids ?s2 Security_down = k_ids s Security_down" using pdu_now_stack(1) [OF c(4)] by simp
  let ?p = "control_pdu ty (k_ids s Security_down) src ?i []"
  have p: "pdu_now c ?p s ?s3"
    using pdu_now_upd [OF pdu_now_upd [OF c(4), of ?f], of "\<lambda>p. p\<lparr>p_state := (p_state p)\<lparr>sstate := k_ids s Security_down\<rparr>\<rparr>"]
    by (simp add: pdu_set_state_def pdu_now_stack(1) [OF c(4)] control_pdu_def pdu_init_def)
  note q = pdu_now_simps [OF p]
  obtain r s4 where w: "write_header c ?s3 = (r, s4)" by fastforce
  have "r = 0 \<and> frames_now c (be16 (p_genid ?i) @ be16 ty @ be32 (p_seqid ?i)) ?s3 s4"
    using write_header_bytes [OF _ _ w] q assms(1) by (simp add: control_pdu_def pdu_init_def)
  moreover from this obtain fs where "pdu_now c (?p\<lparr>p_frames := fs\<rparr>) s s4" "list_all fok fs"
      "content fs = be16 (p_genid ?i) @ be16 ty @ be32 (p_seqid ?i)"
    using pdu_now_frames [OF p] by blast
  moreover have "?p\<lparr>p_frames := fs\<rparr> = control_pdu ty (k_ids s Security_down) src ?i fs" for fs by (simp add: control_pdu_def)
  moreover have "dispatch_control_pdu ty i s = Inr (r, pdu_enqueue c s4)"
    using calculation(1) c(3) assms(5) i1 w by (simp add: dispatch_control_pdu_def Let_def)
  ultimately show ?thesis using c(2) by auto
qed

section \<open>What the operations leave alone\<close>

lemma timer_activate_keeps [simp]:
  "timer_tlb (timer_activate t) = timer_tlb t" "n_pdu (timer_activate s) = n_pdu s" "n_pool (timer_activate s) = n_pool s"
  "n_list (timer_activate s) = n_list s" "b_files (timer_activate u) = b_files u" "b_list (timer_activate u) = b_list u"
  "b_id (timer_activate u) = b_id u" "b_ok (timer_activate u) = b_ok u" "b_write (timer_activate u) = b_write u"
  "k_ids (timer_activate v) = k_ids v" "k_generation (timer_activate v) = k_generation v"
  by (simp_all add: timer_activate_def gettimeofday_def Let_def)

lemma set_timer_keeps [simp]:
  "timer_tlb (set_timer k x t) = (timer_tlb t)(k := x)" "n_pdu (set_timer k x s) = n_pdu s" "n_pool (set_timer k x s) = n_pool s"
  "n_list (set_timer k x s) = n_list s" "b_files (set_timer k x u) = b_files u" "b_list (set_timer k x u) = b_list u"
  "b_id (set_timer k x u) = b_id u" "b_ok (set_timer k x u) = b_ok u" "b_write (set_timer k x u) = b_write u"
  "k_ids (set_timer k x v) = k_ids v" "k_generation (set_timer k x v) = k_generation v"
  by (simp_all add: set_timer_def)

lemma timer_free_keeps [simp]:
  "n_pdu (timer_free i s) = n_pdu s" "n_pool (timer_free i s) = n_pool s" "n_list (timer_free i s) = n_list s"
  "b_files (timer_free i u) = b_files u" "b_list (timer_free i u) = b_list u" "b_id (timer_free i u) = b_id u"
  "b_ok (timer_free i u) = b_ok u" "b_write (timer_free i u) = b_write u"
  "k_ids (timer_free i v) = k_ids v" "k_generation (timer_free i v) = k_generation v"
  by (simp_all add: timer_free_def split: option.split)

lemma timer_free_tlb: "timer_index i = Some k \<Longrightarrow> timer_tlb (timer_free i t) = (timer_tlb t)(k := cleared_timer)"
  by (simp add: timer_free_def)

lemma timer_new_keeps:
  assumes "timer_new s = (r, t)"
  shows "n_pdu t = n_pdu s" "n_pool t = n_pool s" "n_list t = n_list s"
  using assms by (auto simp: timer_new_def split: option.splits)

lemma timer_new_keeps_stack:
  assumes "timer_new v = (r, t)"
  shows "b_files t = b_files v" "b_list t = b_list v" "b_id t = b_id v" "b_ok t = b_ok v" "b_write t = b_write v"
    "k_ids t = k_ids v" "k_generation t = k_generation v"
  using assms by (auto simp: timer_new_def split: option.splits)

lemma gettimeofday_keeps:
  "gettimeofday s = (tm_clock s (tm_reads s), s\<lparr>tm_reads := tm_reads s + 1\<rparr>)" by (simp add: gettimeofday_def)

lemma timer_set_keeps [simp]:
  "n_pdu (snd (timer_set i tv cb a s)) = n_pdu s" "n_pool (snd (timer_set i tv cb a s)) = n_pool s"
  "n_list (snd (timer_set i tv cb a s)) = n_list s" "b_files (snd (timer_set i tv cb a u)) = b_files u"
  "b_list (snd (timer_set i tv cb a u)) = b_list u" "b_id (snd (timer_set i tv cb a u)) = b_id u"
  "k_ids (snd (timer_set i tv cb a v)) = k_ids v" "k_generation (snd (timer_set i tv cb a v)) = k_generation v"
  by (simp_all add: timer_set_def gettimeofday_keeps Let_def split: option.split)

lemma frame_destroy_simps: "frame_destroy fs p = ([], (frame_free ^^ length fs) p)" by (simp add: frame_destroy_def)

lemma pdu_free_keeps [simp]:
  "n_list (pdu_free i s) = n_list s" "timer_tlb (pdu_free i s) = timer_tlb s" "roomy (n_pool (pdu_free i s)) = roomy (n_pool s)"
  "b_files (pdu_free i u) = b_files u" "b_list (pdu_free i u) = b_list u" "b_id (pdu_free i u) = b_id u"
  "k_ids (pdu_free i v) = k_ids v" "k_generation (pdu_free i v) = k_generation v"
  by (simp_all add: pdu_free_def Let_def frame_destroy_simps imago_signal_kill_def roomy_def)

lemma pdu_free_pdu: "j \<noteq> i \<Longrightarrow> n_pdu (pdu_free i s) j = n_pdu s j" "\<not> p_self (n_pdu (pdu_free i s) i)"
  by (simp_all add: pdu_free_def Let_def frame_destroy_simps imago_signal_kill_def)

lemma pdu_enqueue_keeps [simp]:
  "n_list (pdu_enqueue i s) = n_list s @ [i]" "n_pdu (pdu_enqueue i s) = n_pdu s" "n_pool (pdu_enqueue i s) = n_pool s"
  "timer_tlb (pdu_enqueue i s) = timer_tlb s" "b_files (pdu_enqueue i u) = b_files u" "b_list (pdu_enqueue i u) = b_list u"
  "b_id (pdu_enqueue i u) = b_id u" "k_ids (pdu_enqueue i v) = k_ids v" "k_generation (pdu_enqueue i v) = k_generation v"
  by (simp_all add: pdu_enqueue_def)

lemma backup_cancel_ok:
  assumes "b_files s key = Some f" "bf_id f = Some b"
  shows "backup_cancel key s = Inr (set_file key None (remove_entry b s))"
  using assms by (simp add: backup_cancel_def pdu_backup_destroy_def)

lemma cancelled_keeps [simp]:
  "n_list (set_file key x (remove_entry b s)) = n_list s" "n_pdu (set_file key x (remove_entry b s)) = n_pdu s"
  "n_pool (set_file key x (remove_entry b s)) = n_pool s" "timer_tlb (set_file key x (remove_entry b s)) = timer_tlb s"
  "b_files (set_file key x (remove_entry b s)) = (b_files s)(key := x)" "k_ids (set_file key x (remove_entry b v)) = k_ids v"
  by (simp_all add: set_file_def remove_entry_def)

section \<open>Time-outs\<close>

lemma request_timed_out:
  assumes "roomy (n_pool s)" "k < IMAGO_MAX_PDU" "\<not> p_self (n_pdu s k)"
    and "find_entry arg s = Inr key" "key \<noteq> []"
    and "b_files s key = Some \<lparr>bf_id = Some arg, bf_pdu = Some img, bf_data = bs\<rparr>"
    and "p_ADAtype img AND ADA_TYPE_REQUEST \<noteq> 0" "timer_index i = Some t"
  shows "\<exists>inc s1 fs. timeout_callback i arg s = Inr s1 \<and> n_list s1 = n_list s @ [inc] \<and> content fs = bs
    \<and> b_files s1 = (b_files s)(key := None)
    \<and> (if p_retry img <s ADA_MAX_RETRY
       then n_pdu s1 = (n_pdu s)(inc := img\<lparr>p_self := True, p_frames := fs, p_ADAtype := p_ADAtype img OR ADA_TYPE_RETRY\<rparr>)
          \<and> timer_tlb s1 = timer_tlb s
       else n_pdu s1 = (n_pdu s)(inc := img\<lparr>p_self := True, p_frames := fs, p_flags := p_flags img OR PDU_ERROR,
              p_errno := EPDU_NADA, p_layer := k_ids s ADA_down,
              p_state := (p_state img)\<lparr>sstate := k_ids s Marshaling_up\<rparr>\<rparr>)
          \<and> timer_tlb s1 t = cleared_timer)"
proof -
  obtain inc s1 fs where l: "backup_load key s = (Some inc, s1)" "\<not> p_self (n_pdu s inc)"
      "pdu_now inc (img\<lparr>p_self := True, p_frames := fs\<rparr>) s s1" "content fs = bs"
    using backup_load_ok [OF assms(6), of img k] assms(1-3) by auto
  note q = pdu_now_simps [OF l(3)] pdu_now_spool [OF l(3)] pdu_now_stack [OF l(3)]
  have ld: "backup_idload arg s = Inr (Some inc, s1)"
    using assms(4,5) l(1) by (simp add: backup_idload_def pdu_backup_restore_from_id_def backup_load_def)
  have cancel: "backup_idcancel arg u = Inr (set_file key None (remove_entry arg u))"
    if "b_list u = b_list s" "b_files u = b_files s" for u :: "'a stack_scheme"
  proof -
    have "find_entry arg u = Inr key" using assms(4) that(1) by (simp add: find_entry_def)
    moreover have "backup_cancel key u = Inr (set_file key None (remove_entry arg u))"
      by (rule backup_cancel_ok [where f = "\<lparr>bf_id = Some arg, bf_pdu = Some img, bf_data = bs\<rparr>"])
        (use that assms(6) in simp_all)
    ultimately show ?thesis
      using assms(5) by (simp add: backup_idcancel_def pdu_backup_destroy_from_id_def backup_cancel_def)
  qed
  show ?thesis
  proof (cases "p_retry img <s ADA_MAX_RETRY")
    case True
    let ?s2 = "upd_pdu inc (\<lambda>p. p\<lparr>p_ADAtype := p_ADAtype p OR ADA_TYPE_RETRY\<rparr>) s1"
    let ?s3 = "pdu_enqueue inc (set_file key None (remove_entry arg ?s2))"
    have "timeout_callback i arg s = Inr ?s3"
      using True assms(7) ld cancel [of ?s2] q by (simp add: timeout_callback_def)
    moreover have "n_pdu ?s3 = (n_pdu s)(inc := img\<lparr>p_self := True, p_frames := fs, p_ADAtype := p_ADAtype img OR ADA_TYPE_RETRY\<rparr>)"
      using q by simp
    ultimately show ?thesis using True q l(4)
      by (intro exI [of _ inc] exI [of _ ?s3] exI [of _ fs]) simp
  next
    case False
    let ?f = "\<lambda>p. p\<lparr>p_flags := p_flags p OR PDU_ERROR, p_errno := EPDU_NADA, p_layer := k_ids s1 ADA_down\<rparr>"
    let ?s2 = "timer_free i (pdu_set_state inc (k_ids s1 Marshaling_up) (upd_pdu inc ?f s1))"
    let ?s3 = "pdu_enqueue inc (set_file key None (remove_entry arg ?s2))"
    have "timeout_callback i arg s = Inr ?s3"
      using False assms(7) ld cancel [of ?s2] q by (simp add: timeout_callback_def pdu_set_state_def)
    moreover have "n_pdu ?s3 = (n_pdu s)(inc := img\<lparr>p_self := True, p_frames := fs, p_flags := p_flags img OR PDU_ERROR,
        p_errno := EPDU_NADA, p_layer := k_ids s ADA_down, p_state := (p_state img)\<lparr>sstate := k_ids s Marshaling_up\<rparr>\<rparr>)"
      using q by (simp add: pdu_set_state_def)
    moreover have "timer_tlb ?s3 t = cleared_timer"
      by (simp add: timer_free_tlb [OF assms(8)])
    ultimately show ?thesis using False q l(4)
      by (intro exI [of _ inc] exI [of _ ?s3] exI [of _ fs]) (simp add: pdu_set_state_def)
  qed
qed

text \<open>A host whose request 9 is backed up under number 1, beside an older one of another generation.\<close>

definition demo_img :: pdu where
  "demo_img = pdu_init\<lparr>p_genid := 7, p_seqid := 9, p_ADAtype := ADA_TYPE_REQUEST, p_timer := 1, p_retry := 1\<rparr>"

definition demo_waiting :: wires where
  "demo_waiting = demo_host\<lparr>b_list := Some [(0, [1]), (1, sent_key 7 9)],
     b_files := (\<lambda>_. None)(sent_key 7 9 \<mapsto> \<lparr>bf_id = Some 1, bf_pdu = Some demo_img, bf_data = [42]\<rparr>)\<rparr>"

lemma demo_waiting_simps:
  "roomy (n_pool demo_waiting)" "\<not> p_self (n_pdu demo_waiting 1)" "\<not> p_self (n_pdu demo_waiting 2)"
  "p_self (n_pdu demo_waiting 0)" "p_genid (n_pdu demo_waiting 0) = k_generation demo_waiting"
  "c_array_string (p_source (n_pdu demo_waiting 0)) = Inr [98]"
  "sent_key 7 9 = sent_key (p_genid (n_pdu demo_waiting 0)) (p_seqid (n_pdu demo_waiting 0))"
  "b_files demo_waiting (sent_key 7 9) = Some \<lparr>bf_id = Some 1, bf_pdu = Some demo_img, bf_data = [42]\<rparr>"
  "b_list demo_waiting = Some [(0, [1]), (1, sent_key 7 9)]" "n_list demo_waiting = []"
  "find_entry 1 demo_waiting = Inr (sent_key 7 9)" "sent_key 7 9 \<noteq> []"
  using demo_roomy demo_strings
  by (simp_all add: demo_waiting_def demo_host_def pdu_init_def find_entry_def sent_key_def ascii_def
      dec_int_def dec_nat.simps NAME_MAX_def)

lemma demo_timer: "timer_index (p_timer demo_img) = Some 0" "timer_index 1 = Some 0" "IMAGO_MAX_PDU > 2"
  by (simp_all add: demo_img_def timer_index_def IMAGO_MAX_PDU_def MAX_TIMER_def)

section \<open>Properties\<close>

text \<open>
  Claim C14. When a peer accepts a request of this generation whose backup is still
  there, the host answers with ACK under the same numbers, addressed to the peer and
  queued for the security layer, deletes the backup, frees the timer of the request
  and releases the record it loaded.
\<close>

theorem accept_acknowledged:
  assumes "roomy (n_pool s)" "k < IMAGO_MAX_PDU" "l < IMAGO_MAX_PDU" "k \<noteq> l" "\<not> p_self (n_pdu s k)" "\<not> p_self (n_pdu s l)"
    and "p_self (n_pdu s i)" "p_genid (n_pdu s i) = k_generation s" "c_array_string (p_source (n_pdu s i)) = Inr src"
    and "key = sent_key (p_genid (n_pdu s i)) (p_seqid (n_pdu s i))"
    and "b_files s key = Some \<lparr>bf_id = Some b, bf_pdu = Some img, bf_data = bs\<rparr>" "timer_index (p_timer img) = Some t"
  shows "\<exists>s1 c fs. ada_accept i s = Inr s1 \<and> n_list s1 = n_list s @ [c]
    \<and> n_pdu s1 c = control_pdu ADA_TYPE_ACK (k_ids s Security_down) src (n_pdu s i) fs
    \<and> content fs = be16 (p_genid (n_pdu s i)) @ be16 ADA_TYPE_ACK @ be32 (p_seqid (n_pdu s i))
    \<and> b_files s1 = (b_files s)(key := None) \<and> timer_tlb s1 t = cleared_timer
    \<and> (\<forall>j. j \<noteq> c \<longrightarrow> p_self (n_pdu s1 j) = p_self (n_pdu s j))"
proof -
  obtain inc s1 fs where l: "backup_load key s = (Some inc, s1)" "inc < IMAGO_MAX_PDU" "\<not> p_self (n_pdu s inc)"
      "pdu_now inc (img\<lparr>p_self := True, p_frames := fs\<rparr>) s s1"
    using backup_load_ok [OF assms(11), of img k] assms(1,2,5) by auto
  note q = pdu_now_simps [OF l(4)] pdu_now_spool [OF l(4)] pdu_now_stack [OF l(4)]
  let ?s2 = "timer_free (p_timer img) s1"
  have inc: "inc \<noteq> i" using l(3) assms(7) by blast
  obtain m where m: "m < IMAGO_MAX_PDU" "\<not> p_self (n_pdu s m)" "m \<noteq> inc" using assms(2-6) by metis
  obtain c s3 gs where d: "dispatch_control_pdu ADA_TYPE_ACK i ?s2 = Inr (0, pdu_enqueue c s3)" "\<not> p_self (n_pdu ?s2 c)"
      "pdu_now c (control_pdu ADA_TYPE_ACK (k_ids ?s2 Security_down) src (n_pdu ?s2 i) gs) ?s2 s3"
      "content gs = be16 (p_genid (n_pdu ?s2 i)) @ be16 ADA_TYPE_ACK @ be32 (p_seqid (n_pdu ?s2 i))"
    using dispatch_control_pdu_ok [of ?s2 m i src ADA_TYPE_ACK] q assms(1,7,9) m inc by auto
  note q3 = pdu_now_simps [OF d(3)] pdu_now_spool [OF d(3)] pdu_now_stack [OF d(3)]
  have c: "c \<noteq> inc" using d(2) q(1) by auto
  let ?s4 = "set_file key None (remove_entry b (pdu_enqueue c s3))"
  have "backup_cancel key (pdu_enqueue c s3) = Inr ?s4"
    by (rule backup_cancel_ok [where f = "\<lparr>bf_id = Some b, bf_pdu = Some img, bf_data = bs\<rparr>"])
      (use q q3 assms(11) in simp_all)
  hence "ada_accept i s = Inr (pdu_free inc ?s4)"
    using assms(8,10) l(1) d(1) q by (simp add: ada_accept_def get_gen_id_def Let_def)
  moreover have "n_pdu (pdu_free inc ?s4) c = control_pdu ADA_TYPE_ACK (k_ids s Security_down) src (n_pdu s i) gs"
    using q q3 inc by (simp add: pdu_free_pdu(1) [OF c])
  moreover have "content gs = be16 (p_genid (n_pdu s i)) @ be16 ADA_TYPE_ACK @ be32 (p_seqid (n_pdu s i))"
    using d(4) q inc by simp
  moreover have "timer_tlb (pdu_free inc ?s4) t = cleared_timer"
    using q3 by (simp add: timer_free_tlb [OF assms(12)])
  moreover have "p_self (n_pdu (pdu_free inc ?s4) j) = p_self (n_pdu s j)" if "j \<noteq> c" for j
    using that q q3 l(3) by (cases "j = inc") (simp_all add: pdu_free_pdu)
  ultimately show ?thesis using q q3 by (intro exI [of _ "pdu_free inc ?s4"] exI [of _ c] exI [of _ gs]) simp
qed

theorem accept_acknowledged_witness:
  "\<exists>s1 c. ada_accept 0 demo_waiting = Inr s1 \<and> n_list s1 = [c] \<and> p_ADAtype (n_pdu s1 c) = ADA_TYPE_ACK
     \<and> b_files s1 (sent_key 7 9) = None"
proof -
  note w = demo_waiting_simps
  obtain s1 c fs where "ada_accept 0 demo_waiting = Inr s1" "n_list s1 = n_list demo_waiting @ [c]"
    "n_pdu s1 c = control_pdu ADA_TYPE_ACK (k_ids demo_waiting Security_down) [98] (n_pdu demo_waiting 0) fs"
    "b_files s1 = (b_files demo_waiting)(sent_key 7 9 := None)"
    using accept_acknowledged [OF w(1) _ _ _ w(2-8) demo_timer(1)] demo_timer(3) by auto
  thus ?thesis using w(10) by (intro exI [of _ s1] exI [of _ c]) (simp add: control_pdu_def)
qed

text \<open>
  Claim C15. When the timer of a request fires and its backup is there, the backup is
  deleted and the PDU restored from it is queued with the bytes that were saved: to
  be sent again, marked as a retry, if it was sent less than ADA_MAX_RETRY times;
  otherwise to be returned to the marshaling layer with the error EPDU_NADA, its
  timer freed.
\<close>

theorem request_timeout:
  assumes "roomy (n_pool s)" "k < IMAGO_MAX_PDU" "\<not> p_self (n_pdu s k)"
    and "find_entry arg s = Inr key" "key \<noteq> []"
    and "b_files s key = Some \<lparr>bf_id = Some arg, bf_pdu = Some img, bf_data = bs\<rparr>"
    and "p_ADAtype img AND ADA_TYPE_REQUEST \<noteq> 0" "timer_index i = Some t"
  shows "\<exists>inc s1 fs. timeout_callback i arg s = Inr s1 \<and> n_list s1 = n_list s @ [inc] \<and> content fs = bs
    \<and> b_files s1 = (b_files s)(key := None)
    \<and> (if p_retry img <s ADA_MAX_RETRY
       then n_pdu s1 = (n_pdu s)(inc := img\<lparr>p_self := True, p_frames := fs, p_ADAtype := p_ADAtype img OR ADA_TYPE_RETRY\<rparr>)
          \<and> timer_tlb s1 = timer_tlb s
       else n_pdu s1 = (n_pdu s)(inc := img\<lparr>p_self := True, p_frames := fs, p_flags := p_flags img OR PDU_ERROR,
              p_errno := EPDU_NADA, p_layer := k_ids s ADA_down,
              p_state := (p_state img)\<lparr>sstate := k_ids s Marshaling_up\<rparr>\<rparr>)
          \<and> timer_tlb s1 t = cleared_timer)"
  by (rule request_timed_out [OF assms])

theorem request_timeout_witness:
  "\<exists>inc s1. timeout_callback 1 1 demo_waiting = Inr s1 \<and> n_list s1 = [inc]
     \<and> p_ADAtype (n_pdu s1 inc) = ADA_TYPE_REQUEST OR ADA_TYPE_RETRY"
proof -
  note w = demo_waiting_simps
  have "p_ADAtype demo_img AND ADA_TYPE_REQUEST \<noteq> 0" "p_retry demo_img <s ADA_MAX_RETRY" by (simp_all add: demo_img_def word_sless_alt)
  with request_timeout [OF w(1) _ w(2,11,12,8) this(1) demo_timer(2)] demo_timer(3)
  obtain inc s1 fs where "timeout_callback 1 1 demo_waiting = Inr s1" "n_list s1 = n_list demo_waiting @ [inc]"
    "n_pdu s1 = (n_pdu demo_waiting)(inc := demo_img\<lparr>p_self := True, p_frames := fs, p_ADAtype := p_ADAtype demo_img OR ADA_TYPE_RETRY\<rparr>)"
    by auto
  thus ?thesis using w(10) by (intro exI [of _ inc] exI [of _ s1]) (simp add: demo_img_def)
qed

text \<open>
  Claim C24. Cancelling a backup loses another one: once the backup of a later entry
  of the list is cancelled, the oldest entry is gone too, its backup can neither be
  loaded nor cancelled by its number, and the timer of that request does nothing
  when it fires: the request is neither sent again nor reported as failed.
\<close>

theorem cancel_loses_oldest_backup:
  assumes "b_list s = Some (e # es)" "distinct (map fst (e # es))"
    and "b_files s key = Some \<lparr>bf_id = Some b, bf_pdu = Some img, bf_data = bs\<rparr>" "b \<noteq> fst e"
  shows "\<exists>s1. backup_cancel key s = Inr s1 \<and> backup_idload (fst e) s1 = Inr (None, s1)
    \<and> backup_idcancel (fst e) s1 = Inr s1 \<and> timeout_callback i (fst e) s1 = Inr s1"
proof -
  let ?s1 = "set_file key None (remove_entry b s)"
  have c: "backup_cancel key s = Inr ?s1"
    by (rule backup_cancel_ok [where f = "\<lparr>bf_id = Some b, bf_pdu = Some img, bf_data = bs\<rparr>"]) (use assms(3) in simp_all)
  have "find_entry (fst e) (remove_entry b s) = Inr []"
    by (rule remove_entry_drops_first [OF assms(1,2)]) (use assms(4) in simp)
  hence f: "find_entry (fst e) ?s1 = Inr []" by (simp add: find_entry_def set_file_def)
  hence l: "backup_idload (fst e) ?s1 = Inr (None, ?s1)"
    by (simp add: backup_idload_def pdu_backup_restore_from_id_def)
  moreover have "backup_idcancel (fst e) ?s1 = Inr ?s1"
    using f by (simp add: backup_idcancel_def pdu_backup_destroy_from_id_def)
  moreover have "timeout_callback i (fst e) ?s1 = Inr ?s1" using l by (simp add: timeout_callback_def)
  ultimately show ?thesis using c by blast
qed

theorem cancel_loses_oldest_backup_witness:
  "\<exists>s1. backup_cancel (sent_key 7 9) demo_waiting = Inr s1 \<and> timeout_callback 2 0 s1 = Inr s1"
  using cancel_loses_oldest_backup [of demo_waiting "(0, [1])" "[(1, sent_key 7 9)]" "sent_key 7 9" 1 demo_img "[42]" 2]
    demo_waiting_simps(8,9) by auto

end
