(* ===== verification/MLVM_Delivery_Correct.thy ===== *)
theory MLVM_Delivery_Correct
  imports MLVM_Rendezvous_Correct
begin

text \<open>
  The receiving side of the ADA rendez-vous: a REQUEST is backed up and accepted, an
  ACK delivers what was backed up, once; and what the timer of an accepted request
  does when no ACK comes.
\<close>

section \<open>A request\<close>

lemma pok_pdu_now: "pdu_now c p s s1 \<Longrightarrow> i \<noteq> c \<Longrightarrow> n_pdu s1 i = n_pdu s i"
  by (simp add: pdu_now_simps(1))

lemma disk_ok_frames [simp]: "frames_now i bs s s1 \<Longrightarrow> disk_ok s1 = disk_ok s"
  by (auto elim!: frames_nowE simp: disk_ok_def)

lemma frames_now_backups: "frames_now i bs s s1 \<Longrightarrow> b_files s1 = b_files s \<and> b_list s1 = b_list s \<and> b_id s1 = b_id s"
  by (auto elim!: frames_nowE)

text \<open>The record that a request leaves in its backup.\<close>

definition request_img :: "16 word \<Rightarrow> 16 word \<Rightarrow> word32 \<Rightarrow> int \<Rightarrow> frame list \<Rightarrow> pdu \<Rightarrow> pdu" where
  "request_img g ty q t fs p = p\<lparr>p_genid := g, p_ADAtype := ty, p_seqid := q, p_timer := t, p_frames := fs\<rparr>"

definition entries :: "'a spool_scheme \<Rightarrow> (int \<times> byte list) list" where
  "entries s = (case b_list s of None \<Rightarrow> [] | Some es \<Rightarrow> es)"

lemma backup_saved:
  assumes "disk_ok s"
  obtains s1 where "backup_save key i s = Inr (b_id s, s1)" "n_pdu s1 = n_pdu s" "n_pool s1 = n_pool s" "n_list s1 = n_list s"
    "k_ids s1 = k_ids s" "b_list s1 = Some (entries s @ [(b_id s, key)])"
    "b_files s1 = (b_files s)(key \<mapsto> \<lparr>bf_id = Some (b_id s), bf_pdu = Some (n_pdu s i), bf_data = pbody i s\<rparr>)"
proof -
  obtain c w where "backup_save key i s = Inr (b_id s,
     s\<lparr>b_id := b_id s + 1, b_list := Some (entries s @ [(b_id s, key)]),
       b_files := (b_files s)(key \<mapsto> \<lparr>bf_id = Some (b_id s), bf_pdu = Some (n_pdu s i), bf_data = pbody i s\<rparr>),
       b_calls := c, b_writes := w\<rparr>)"
    using backup_save_ok [OF assms, of key i] unfolding entries_def by blast
  thus ?thesis by (rule that) simp_all
qed

text \<open>What a host writes when it accepts a request.\<close>

lemma accept_request:
  assumes "disk_ok s" "roomy (n_pool s)" "k < IMAGO_MAX_PDU" "\<not> p_self (n_pdu s k)" "p_self (n_pdu s i)"
    and "c_array_string (p_source (n_pdu s i)) = Inr src"
  obtains s1 c s3 fs where "backup_save key i s = Inr (b_id s, s1)"
    "dispatch_control_pdu ADA_TYPE_ACCEPT i s1 = Inr (0, s3)" "\<not> p_self (n_pdu s c)" "n_list s3 = n_list s @ [c]"
    "n_pdu s3 = (n_pdu s)(c := control_pdu ADA_TYPE_ACCEPT (k_ids s Security_down) src (n_pdu s i) fs)"
    "content fs = be16 (p_genid (n_pdu s i)) @ be16 ADA_TYPE_ACCEPT @ be32 (p_seqid (n_pdu s i))"
    "b_files s3 = (b_files s)(key \<mapsto> \<lparr>bf_id = Some (b_id s), bf_pdu = Some (n_pdu s i), bf_data = pbody i s\<rparr>)"
    "b_list s3 = Some (entries s @ [(b_id s, key)])" "k_ids s3 = k_ids s" "roomy (n_pool s3)"
proof -
  obtain s1 where 1: "backup_save key i s = Inr (b_id s, s1)" "n_pdu s1 = n_pdu s" "n_pool s1 = n_pool s" "n_list s1 = n_list s"
    "k_ids s1 = k_ids s" "b_list s1 = Some (entries s @ [(b_id s, key)])"
    "b_files s1 = (b_files s)(key \<mapsto> \<lparr>bf_id = Some (b_id s), bf_pdu = Some (n_pdu s i), bf_data = pbody i s\<rparr>)"
    by (rule backup_saved [OF assms(1)])
  obtain c s2 fs where 2: "dispatch_control_pdu ADA_TYPE_ACCEPT i s1 = Inr (0, pdu_enqueue c s2)" "\<not> p_self (n_pdu s1 c)"
      "pdu_now c (control_pdu ADA_TYPE_ACCEPT (k_ids s1 Security_down) src (n_pdu s1 i) fs) s1 s2"
      "content fs = be16 (p_genid (n_pdu s1 i)) @ be16 ADA_TYPE_ACCEPT @ be32 (p_seqid (n_pdu s1 i))"
    using dispatch_control_pdu_ok [of s1 k i src ADA_TYPE_ACCEPT] 1(2,3) assms(2-6) by auto
  note q = pdu_now_simps [OF 2(3)] pdu_now_spool [OF 2(3)] pdu_now_stack [OF 2(3)]
  show ?thesis
    by (rule that [OF 1(1) 2(1)]) (use 1 2(2,4) q assms(2) in \<open>simp_all\<close>)
qed

lemma transport_up_ok:
  assumes "roomy (n_pool s)" "disk_ok s" "k < IMAGO_MAX_PDU" "\<not> p_self (n_pdu s k)" "p_self (n_pdu s i)" "pok i s"
    and "pbody i s = be16 g @ be16 ty @ be32 q @ bs" "p_flags (n_pdu s i) AND PDU_ERROR = 0" "\<not> k_shutdown s" "0 \<le> b_id s"
    and "c_array_string (p_source (n_pdu s i)) = Inr src"
  shows "\<exists>s1 t c fs gs. ADArendezvous_transport_up i s = Inr (STATE_MACHINE_ID_INVALID, s1)
    \<and> n_list s1 = n_list s @ [c] \<and> \<not> p_self (n_pdu s c)
    \<and> n_pdu s1 c = control_pdu ADA_TYPE_ACCEPT (k_ids s Security_down) src (request_img g ty q t gs (n_pdu s i)) fs
    \<and> content fs = be16 g @ be16 ADA_TYPE_ACCEPT @ be32 q
    \<and> b_files s1 = (b_files s)(received_key src g q \<mapsto>
        \<lparr>bf_id = Some (b_id s), bf_pdu = Some (request_img g ty q t gs (n_pdu s i)), bf_data = bs\<rparr>)
    \<and> b_list s1 = Some (entries s @ [(b_id s, received_key src g q)])
    \<and> \<not> p_self (n_pdu s1 i) \<and> k_ids s1 = k_ids s \<and> roomy (n_pool s1)"
proof -
  have h: "frames_now i bs (upd_pdu i (numbered g ty q) s) (read_header i s)" (is "frames_now _ _ ?u ?h")
    by (rule read_header_bytes [OF assms(6,7)])
  note f = frames_now_simps [OF h] frames_now_stack [OF h] frames_now_backups [OF h]
  obtain gs where gs: "n_pdu ?h = (n_pdu s)(i := (numbered g ty q (n_pdu s i))\<lparr>p_frames := gs\<rparr>)" using f(3) by auto
  obtain t s2 where t: "timer_new ?h = (t, s2)" by fastforce
  note tk = timer_new_keeps [OF t] timer_new_keeps_stack [OF t]
  define s3 where "s3 = upd_pdu i (\<lambda>p. p\<lparr>p_timer := t\<rparr>) s2"
  let ?img = "request_img g ty q t gs (n_pdu s i)"
  let ?key = "received_key src g q"
  have i3: "n_pdu s3 = (n_pdu s)(i := ?img)" using tk(1) gs by (auto simp: s3_def request_img_def numbered_def)
  have e3: "n_pool s3 = n_pool ?h" "n_list s3 = n_list s" "b_files s3 = b_files s" "b_list s3 = b_list s" "b_id s3 = b_id s"
    "k_ids s3 = k_ids s" using tk f by (simp_all add: s3_def)
  have b3: "pbody i s3 = bs" using f(2) tk(1) by (simp add: s3_def)
  have d3: "disk_ok s3" using assms(2) tk disk_ok_frames [OF h] by (simp add: s3_def disk_ok_def)
  have k: "k \<noteq> i" using assms(4,5) by blast
  have a3: "roomy (n_pool s3)" "\<not> p_self (n_pdu s3 k)" "p_self (n_pdu s3 i)" "c_array_string (p_source (n_pdu s3 i)) = Inr src"
    using e3(1) f(4) assms(1,4,5,10,11) k by (simp_all add: i3 request_img_def)
  obtain s4 c s6 fs where a: "backup_save ?key i s3 = Inr (b_id s3, s4)"
    "dispatch_control_pdu ADA_TYPE_ACCEPT i s4 = Inr (0, s6)" "\<not> p_self (n_pdu s3 c)" "n_list s6 = n_list s3 @ [c]"
    "n_pdu s6 = (n_pdu s3)(c := control_pdu ADA_TYPE_ACCEPT (k_ids s3 Security_down) src (n_pdu s3 i) fs)"
    "content fs = be16 (p_genid (n_pdu s3 i)) @ be16 ADA_TYPE_ACCEPT @ be32 (p_seqid (n_pdu s3 i))"
    "b_files s6 = (b_files s3)(?key \<mapsto> \<lparr>bf_id = Some (b_id s3), bf_pdu = Some (n_pdu s3 i), bf_data = pbody i s3\<rparr>)"
    "b_list s6 = Some (entries s3 @ [(b_id s3, ?key)])" "k_ids s6 = k_ids s3" "roomy (n_pool s6)"
    by (rule accept_request [OF d3 a3(1) assms(3) a3(2-4)])
  have ci: "c \<noteq> i" using a(3) a3(3) by blast
  let ?s7 = "pdu_free i (snd (timer_set (p_timer (n_pdu s6 i)) (Some tv_rcv) (Some Timeout_callback) (b_id s) s6))"
  have n: "c_array_string (p_source (n_pdu ?h i)) = Inr src" "p_genid (n_pdu ?h i) = g" "p_seqid (n_pdu ?h i) = q"
    using gs assms(11) by (simp_all add: numbered_def)
  have up: "ADArendezvous_transport_up i s = Inr (STATE_MACHINE_ID_INVALID, ?s7)"
    using assms(8-10) n t a(1,2) e3(5) unfolding ADArendezvous_transport_up_def s3_def Let_def
    by (simp split del: if_split)
  have r7: "roomy (n_pool (snd (timer_set x tv cb y s6))) = roomy (n_pool s6)" for x tv cb y by simp
  have img: "p_genid ?img = g" "p_seqid ?img = q" by (simp_all add: request_img_def)
  have "entries s3 = entries s" using e3(4) by (simp add: entries_def)
  moreover have "n_pdu ?s7 c = control_pdu ADA_TYPE_ACCEPT (k_ids s Security_down) src ?img fs"
    using a(5) e3(6) i3 by (simp add: pdu_free_pdu(1) [OF ci])
  moreover have "\<not> p_self (n_pdu s c)" using a(3) i3 ci by simp
  ultimately show ?thesis
    by (intro exI [of _ ?s7] exI [of _ t] exI [of _ c] exI [of _ fs] exI [of _ gs])
      (use up a(4,6-10) e3 i3 b3 img in \<open>simp add: pdu_free_pdu(2)\<close>)
qed

section \<open>An acknowledgement\<close>

lemma ada_ack_found:
  assumes "roomy (n_pool s)" "k < IMAGO_MAX_PDU" "\<not> p_self (n_pdu s k)" "p_self (n_pdu s a)"
    and "c_array_string (p_source (n_pdu s a)) = Inr src"
    and "key = received_key src (p_genid (n_pdu s a)) (p_seqid (n_pdu s a))"
    and "b_files s key = Some \<lparr>bf_id = Some b, bf_pdu = Some img, bf_data = bs\<rparr>"
  shows "\<exists>s1 inc fs. ada_ack a s = Inr s1 \<and> n_list s1 = n_list s @ [inc] \<and> \<not> p_self (n_pdu s inc)
    \<and> n_pdu s1 = (n_pdu s)(inc := img\<lparr>p_self := True, p_frames := fs,
        p_state := (p_state img)\<lparr>sstate := k_ids s Marshaling_up\<rparr>\<rparr>)
    \<and> content fs = bs \<and> b_files s1 = (b_files s)(key := None)"
proof -
  obtain inc s1 fs where l: "backup_load key s = (Some inc, s1)" "\<not> p_self (n_pdu s inc)"
      "pdu_now inc (img\<lparr>p_self := True, p_frames := fs\<rparr>) s s1" "content fs = bs"
    using backup_load_ok [OF assms(7), of img k] assms(1-3) by auto
  note q = pdu_now_simps [OF l(3)] pdu_now_spool [OF l(3)] pdu_now_stack [OF l(3)]
  let ?s2 = "set_file key None (remove_entry b (timer_free (p_timer (n_pdu s1 inc)) s1))"
  have "backup_cancel key (timer_free (p_timer (n_pdu s1 inc)) s1) = Inr ?s2"
    by (rule backup_cancel_ok [where f = "\<lparr>bf_id = Some b, bf_pdu = Some img, bf_data = bs\<rparr>"]) (use q assms(7) in simp_all)
  hence "ada_ack a s = Inr (pdu_enqueue inc (pdu_set_state inc (k_ids ?s2 Marshaling_up) ?s2))"
    using assms(5,6) l(1) by (simp add: ada_ack_def)
  thus ?thesis using l(2,4) q
    by (intro exI [of _ "pdu_enqueue inc (pdu_set_state inc (k_ids ?s2 Marshaling_up) ?s2)"] exI [of _ inc] exI [of _ fs])
      (simp add: pdu_set_state_def)
qed

lemma ada_ack_missing:
  assumes "c_array_string (p_source (n_pdu s a)) = Inr src"
    and "b_files s (received_key src (p_genid (n_pdu s a)) (p_seqid (n_pdu s a))) = None"
  shows "\<exists>s1. ada_ack a s = Inr s1 \<and> n_list s1 = n_list s \<and> b_files s1 = b_files s"
proof -
  obtain r s1 where n: "pdu_new s = (r, s1)" by fastforce
  have s1: "n_list s1 = n_list s" "b_files s1 = b_files s"
    using n by (auto simp: pdu_new_def Let_def upd_pdu_def split: option.splits)
  have "\<exists>s2. backup_load (received_key src (p_genid (n_pdu s a)) (p_seqid (n_pdu s a))) s = (None, s2)
      \<and> n_list s2 = n_list s \<and> b_files s2 = b_files s"
    using n s1 assms(2) by (cases r) (auto simp: backup_load_def pdu_backup_restore_def set_errno_def upd_pdu_def)
  thus ?thesis using assms(1) by (auto simp: ada_ack_def)
qed

section \<open>Properties\<close>

text \<open>
  Claim C13. A request is delivered by its acknowledgement, once: a host with memory,
  a free PDU and a working disk answers a request with ACCEPT under the same numbers
  and drops the PDU; an ACK with these numbers from the same peer, at any later time
  at which the backup is still there, queues a PDU with the data of the request for
  the marshaling layer; and a further ACK queues nothing.
\<close>

theorem request_delivered_once:
  fixes s r v :: "'a stack_scheme"
  assumes "roomy (n_pool s)" "disk_ok s" "k < IMAGO_MAX_PDU" "\<not> p_self (n_pdu s k)" "p_self (n_pdu s i)" "pok i s"
    and "pbody i s = be16 g @ be16 ty @ be32 q @ bs" "p_flags (n_pdu s i) AND PDU_ERROR = 0" "\<not> k_shutdown s" "0 \<le> b_id s"
    and "c_array_string (p_source (n_pdu s i)) = Inr src" "key = received_key src g q"
    and "ADArendezvous_up i s = Inr (x, s1)" "p_flags (n_pdu s i) AND PDU_TYPE_SITP \<noteq> 0"
    and "roomy (n_pool r)" "l < IMAGO_MAX_PDU" "\<not> p_self (n_pdu r l)" "p_self (n_pdu r a)" "b_files r key = b_files s1 key"
    and "c_array_string (p_source (n_pdu r a)) = Inr src" "p_genid (n_pdu r a) = g" "p_seqid (n_pdu r a) = q"
    and "ada_ack a r = Inr r1"
    and "c_array_string (p_source (n_pdu v c)) = Inr src" "p_genid (n_pdu v c) = g" "p_seqid (n_pdu v c) = q"
    and "b_files v key = b_files r1 key" "ada_ack c v = Inr v1"
  shows "x = STATE_MACHINE_ID_INVALID \<and> \<not> p_self (n_pdu s1 i)
    \<and> (\<exists>j. n_list s1 = n_list s @ [j] \<and> p_ADAtype (n_pdu s1 j) = ADA_TYPE_ACCEPT \<and> p_genid (n_pdu s1 j) = g
         \<and> p_seqid (n_pdu s1 j) = q \<and> sstate (p_state (n_pdu s1 j)) = k_ids s Security_down)
    \<and> (\<exists>j. n_list r1 = n_list r @ [j] \<and> pbody j r1 = bs \<and> sstate (p_state (n_pdu r1 j)) = k_ids r Marshaling_up)
    \<and> n_list v1 = n_list v"
proof -
  obtain s2 t j fs gs where up: "ADArendezvous_transport_up i s = Inr (STATE_MACHINE_ID_INVALID, s2)"
      "n_list s2 = n_list s @ [j]"
      "n_pdu s2 j = control_pdu ADA_TYPE_ACCEPT (k_ids s Security_down) src (request_img g ty q t gs (n_pdu s i)) fs"
      "b_files s2 = (b_files s)(key \<mapsto> \<lparr>bf_id = Some (b_id s), bf_pdu = Some (request_img g ty q t gs (n_pdu s i)), bf_data = bs\<rparr>)"
      "\<not> p_self (n_pdu s2 i)"
    using transport_up_ok [OF assms(1-11)] assms(12) by auto
  have 1: "x = STATE_MACHINE_ID_INVALID" "s2 = s1"
    using up(1) assms(13,14) by (simp_all add: ADArendezvous_up_def)
  have f: "b_files r (received_key src (p_genid (n_pdu r a)) (p_seqid (n_pdu r a))) =
      Some \<lparr>bf_id = Some (b_id s), bf_pdu = Some (request_img g ty q t gs (n_pdu s i)), bf_data = bs\<rparr>"
    using assms(12,19,21,22) up(4) 1 by simp
  obtain inc hs where ack: "n_list r1 = n_list r @ [inc]" "b_files r1 = (b_files r)(key := None)" "content hs = bs"
      "n_pdu r1 = (n_pdu r)(inc := (request_img g ty q t gs (n_pdu s i))\<lparr>p_self := True, p_frames := hs,
        p_state := (p_state (request_img g ty q t gs (n_pdu s i)))\<lparr>sstate := k_ids r Marshaling_up\<rparr>\<rparr>)"
    using ada_ack_found [OF assms(15-18,20) refl f] assms(12,21-23) by auto
  have "b_files v (received_key src (p_genid (n_pdu v c)) (p_seqid (n_pdu v c))) = None"
    using assms(12,25-27) ack(2) by simp
  from ada_ack_missing [OF assms(24) this] have "n_list v1 = n_list v" using assms(28) by auto
  moreover have "p_ADAtype (n_pdu s1 j) = ADA_TYPE_ACCEPT \<and> p_genid (n_pdu s1 j) = g \<and> p_seqid (n_pdu s1 j) = q
      \<and> sstate (p_state (n_pdu s1 j)) = k_ids s Security_down"
    using up(3) 1 by (simp add: control_pdu_def request_img_def pdu_init_def)
  moreover have "pbody inc r1 = bs \<and> sstate (p_state (n_pdu r1 inc)) = k_ids r Marshaling_up" using ack(3,4) by simp
  ultimately show ?thesis using up(2,5) ack(1) 1 by blast
qed

lemma find_app: "List.find P (xs @ ys) = (case List.find P xs of None \<Rightarrow> List.find P ys | Some x \<Rightarrow> Some x)"
  by (induction xs) auto

text \<open>A host that has received request 9 with one byte of data from the peer b.\<close>

lemma demo_received:
  obtains s :: wires where "roomy (n_pool s)" "disk_ok s" "\<not> p_self (n_pdu s 1)" "\<not> p_self (n_pdu s 2)" "p_self (n_pdu s 0)"
    "pok 0 s" "pbody 0 s = be16 7 @ be16 ADA_TYPE_REQUEST @ be32 9 @ [42]" "p_flags (n_pdu s 0) AND PDU_ERROR = 0"
    "\<not> k_shutdown s" "b_id s = 0" "c_array_string (p_source (n_pdu s 0)) = Inr [98]" "p_flags (n_pdu s 0) AND PDU_TYPE_SITP \<noteq> 0"
    "p_genid (n_pdu s 0) = 7" "p_seqid (n_pdu s 0) = 9" "n_list s = []" "p_retry (n_pdu s 0) = 0" "b_list s = None"
proof -
  have p: "roomy (n_pool demo_host)" "pok 0 demo_host" "pbody 0 demo_host = []"
    using demo_roomy by (simp_all add: demo_host_def pdu_init_def)
  obtain s where s: "frames_now 0 (be16 7 @ be16 ADA_TYPE_REQUEST @ be32 9 @ [42]) demo_host s"
    using on_write [OF p(1,2), of "be16 7 @ be16 ADA_TYPE_REQUEST @ be32 9 @ [42]"] p(3) by auto
  note f = frames_now_simps [OF s] frames_now_stack [OF s] frames_now_fields [OF s] frames_now_backups [OF s]
  have n: "n_list demo_host = []" "b_id demo_host = 0" "b_list demo_host = None" "\<not> k_shutdown demo_host" "disk_ok demo_host"
    "\<not> p_self (n_pdu demo_host 1)" "\<not> p_self (n_pdu demo_host 2)" "p_self (n_pdu demo_host 0)"
    "p_flags (n_pdu demo_host 0) AND PDU_ERROR = 0" "p_flags (n_pdu demo_host 0) AND PDU_TYPE_SITP \<noteq> 0"
    "c_array_string (p_source (n_pdu demo_host 0)) = Inr [98]" "p_genid (n_pdu demo_host 0) = 7" "p_seqid (n_pdu demo_host 0) = 9"
    "p_retry (n_pdu demo_host 0) = 0"
    using demo_strings by (simp_all add: demo_host_def disk_ok_def pdu_init_def)
  show ?thesis by (rule that [of s]) (use p f n disk_ok_frames [OF s] in simp_all)
qed

theorem request_delivered_once_witness:
  "\<exists>(s :: wires) s1 r1 v1 j. ADArendezvous_up 0 s = Inr (STATE_MACHINE_ID_INVALID, s1) \<and> ada_ack 0 (s1\<lparr>n_pdu := n_pdu s\<rparr>) = Inr r1
     \<and> n_list r1 = n_list s1 @ [j] \<and> pbody j r1 = [42] \<and> ada_ack 0 (r1\<lparr>n_pdu := n_pdu s\<rparr>) = Inr v1 \<and> n_list v1 = n_list r1"
proof -
  obtain s :: wires where s: "roomy (n_pool s)" "disk_ok s" "\<not> p_self (n_pdu s 1)" "\<not> p_self (n_pdu s 2)" "p_self (n_pdu s 0)"
    "pok 0 s" "pbody 0 s = be16 7 @ be16 ADA_TYPE_REQUEST @ be32 9 @ [42]" "p_flags (n_pdu s 0) AND PDU_ERROR = 0"
    "\<not> k_shutdown s" "b_id s = 0" "c_array_string (p_source (n_pdu s 0)) = Inr [98]" "p_flags (n_pdu s 0) AND PDU_TYPE_SITP \<noteq> 0"
    "p_genid (n_pdu s 0) = 7" "p_seqid (n_pdu s 0) = 9" "n_list s = []" "p_retry (n_pdu s 0) = 0" "b_list s = None"
    by (rule demo_received)
  have one: "1 < IMAGO_MAX_PDU" "0 \<le> b_id s" using s(10) by (simp_all add: IMAGO_MAX_PDU_def)
  obtain s1 t c fs gs where up: "ADArendezvous_transport_up 0 s = Inr (STATE_MACHINE_ID_INVALID, s1)" "roomy (n_pool s1)"
    "b_files s1 = (b_files s)(received_key [98] 7 9 \<mapsto>
        \<lparr>bf_id = Some (b_id s), bf_pdu = Some (request_img 7 ADA_TYPE_REQUEST 9 t gs (n_pdu s 0)), bf_data = [42]\<rparr>)"
    using transport_up_ok [OF s(1,2) one(1) s(3,5-9) one(2) s(11)] by blast
  have u: "ADArendezvous_up 0 s = Inr (STATE_MACHINE_ID_INVALID, s1)" using up(1) s(12) by (simp add: ADArendezvous_up_def)
  let ?r = "s1\<lparr>n_pdu := n_pdu s\<rparr>"
  have r: "roomy (n_pool ?r)" "\<not> p_self (n_pdu ?r 1)" "p_self (n_pdu ?r 0)" "b_files ?r (received_key [98] 7 9) = b_files s1 (received_key [98] 7 9)"
    "c_array_string (p_source (n_pdu ?r 0)) = Inr [98]" "p_genid (n_pdu ?r 0) = 7" "p_seqid (n_pdu ?r 0) = 9" using up(2) s by simp_all
  obtain r1 where a1: "ada_ack 0 ?r = Inr r1" "b_files r1 = (b_files ?r)(received_key [98] 7 9 := None)"
    using ada_ack_found [OF r(1) one(1) r(2,3,5), of "received_key [98] 7 9"] r(6,7) up(3) by auto
  let ?v = "r1\<lparr>n_pdu := n_pdu s\<rparr>"
  have v: "c_array_string (p_source (n_pdu ?v 0)) = Inr [98]" "p_genid (n_pdu ?v 0) = 7" "p_seqid (n_pdu ?v 0) = 9"
    "b_files ?v (received_key [98] 7 9) = b_files r1 (received_key [98] 7 9)" using s by simp_all
  obtain v1 where a2: "ada_ack 0 ?v = Inr v1"
    using ada_ack_missing [OF v(1)] v(2,3) a1(2) by auto
  have "n_list v1 = n_list ?v \<and> (\<exists>j. n_list r1 = n_list ?r @ [j] \<and> pbody j r1 = [42])"
    using request_delivered_once [OF s(1,2) one(1) s(3,5-9) one(2) s(11) refl u s(12) r(1) one(1) r(2-7) a1(1) v a2] by blast
  then obtain j where "n_list v1 = n_list r1" "n_list r1 = n_list s1 @ [j]" "pbody j r1 = [42]" by auto
  thus ?thesis using u a1(1) a2
    by (intro exI [of _ s] exI [of _ s1] exI [of _ r1] exI [of _ v1] exI [of _ j]) simp
qed

text \<open>
  Claim C21. The timer of an accepted request loses it: the backup keeps the type
  REQUEST it was sent with, so when no ACK has come in time the host does not repeat
  its ACCEPT.  It deletes the backup, and queues the PDU for the layer that had just
  consumed its header, with the data of the imago at the front of the frames; an ACK
  that comes later finds nothing to deliver.
\<close>

theorem accepted_request_misfires:
  fixes s s2 v :: "'a stack_scheme"
  assumes "roomy (n_pool s)" "disk_ok s" "k < IMAGO_MAX_PDU" "\<not> p_self (n_pdu s k)" "p_self (n_pdu s i)" "pok i s"
    and "pbody i s = be16 g @ be16 ADA_TYPE_REQUEST @ be32 q @ bs" "p_flags (n_pdu s i) AND PDU_ERROR = 0" "\<not> k_shutdown s"
    and "0 \<le> b_id s" "c_array_string (p_source (n_pdu s i)) = Inr src" "key = received_key src g q"
    and "i < IMAGO_MAX_PDU" "b_id s \<notin> fst ` set (entries s)" "length key \<le> NAME_MAX" "p_retry (n_pdu s i) <s ADA_MAX_RETRY"
    and "timer_index ti = Some tx"
    and "ADArendezvous_transport_up i s = Inr (x, s1)" "timeout_callback ti (b_id s) s1 = Inr s2"
    and "c_array_string (p_source (n_pdu v c)) = Inr src" "p_genid (n_pdu v c) = g" "p_seqid (n_pdu v c) = q"
    and "b_files v key = b_files s2 key" "ada_ack c v = Inr v1"
  shows "(\<exists>j. n_list s2 = n_list s1 @ [j] \<and> pbody j s2 = bs \<and> p_ADAtype (n_pdu s2 j) = ADA_TYPE_REQUEST OR ADA_TYPE_RETRY
      \<and> p_state (n_pdu s2 j) = p_state (n_pdu s i)) \<and> n_list v1 = n_list v"
proof -
  obtain t gs where up: "roomy (n_pool s1)" "\<not> p_self (n_pdu s1 i)"
      "b_files s1 = (b_files s)(key \<mapsto> \<lparr>bf_id = Some (b_id s), bf_pdu = Some (request_img g ADA_TYPE_REQUEST q t gs (n_pdu s i)), bf_data = bs\<rparr>)"
      "b_list s1 = Some (entries s @ [(b_id s, key)])"
    using transport_up_ok [OF assms(1-11)] assms(12,18) by auto
  let ?img = "request_img g ADA_TYPE_REQUEST q t gs (n_pdu s i)"
  have key: "key \<noteq> []" unfolding assms(12) by (simp add: received_key_def ascii_def)
  have "List.find (\<lambda>e. fst e = b_id s) (entries s) = None" using assms(14) by (force simp: find_None_iff)
  hence "find_entry (b_id s) s1 = Inr key"
    using up(4) assms(15) by (simp add: find_entry_def find_app)
  moreover have "p_ADAtype ?img AND ADA_TYPE_REQUEST \<noteq> 0" by (simp add: request_img_def)
  moreover have "b_files s1 key = Some \<lparr>bf_id = Some (b_id s), bf_pdu = Some ?img, bf_data = bs\<rparr>" using up(3) by simp
  moreover have "p_retry ?img <s ADA_MAX_RETRY" using assms(16) by (simp add: request_img_def)
  ultimately obtain j fs where t: "n_list s2 = n_list s1 @ [j]" "content fs = bs" "b_files s2 = (b_files s1)(key := None)"
      "n_pdu s2 = (n_pdu s1)(j := ?img\<lparr>p_self := True, p_frames := fs, p_ADAtype := p_ADAtype ?img OR ADA_TYPE_RETRY\<rparr>)"
    using request_timed_out [OF up(1) assms(13) up(2), of "b_id s" key ?img bs ti tx] key assms(17,19) by auto
  have "b_files v (received_key src (p_genid (n_pdu v c)) (p_seqid (n_pdu v c))) = None"
    using assms(12,21-23) t(3) by simp
  from ada_ack_missing [OF assms(20) this] have "n_list v1 = n_list v" using assms(24) by auto
  moreover have "pbody j s2 = bs \<and> p_ADAtype (n_pdu s2 j) = ADA_TYPE_REQUEST OR ADA_TYPE_RETRY \<and> p_state (n_pdu s2 j) = p_state (n_pdu s i)"
    using t(2,4) by (simp add: request_img_def)
  ultimately show ?thesis using t(1) by blast
qed

theorem accepted_request_misfires_witness:
  "\<exists>(s :: wires) s1 s2 v1 j. ADArendezvous_transport_up 0 s = Inr (STATE_MACHINE_ID_INVALID, s1) \<and> timeout_callback 1 0 s1 = Inr s2
     \<and> n_list s2 = n_list s1 @ [j] \<and> pbody j s2 = [42] \<and> ada_ack 0 (s2\<lparr>n_pdu := n_pdu s\<rparr>) = Inr v1 \<and> n_list v1 = n_list s2"
proof -
  obtain s :: wires where s: "roomy (n_pool s)" "disk_ok s" "\<not> p_self (n_pdu s 1)" "\<not> p_self (n_pdu s 2)" "p_self (n_pdu s 0)"
    "pok 0 s" "pbody 0 s = be16 7 @ be16 ADA_TYPE_REQUEST @ be32 9 @ [42]" "p_flags (n_pdu s 0) AND PDU_ERROR = 0"
    "\<not> k_shutdown s" "b_id s = 0" "c_array_string (p_source (n_pdu s 0)) = Inr [98]" "p_flags (n_pdu s 0) AND PDU_TYPE_SITP \<noteq> 0"
    "p_genid (n_pdu s 0) = 7" "p_seqid (n_pdu s 0) = 9" "n_list s = []" "p_retry (n_pdu s 0) = 0" "b_list s = None"
    by (rule demo_received)
  let ?key = "received_key [98] 7 9"
  have c: "1 < IMAGO_MAX_PDU" "0 \<le> b_id s" "0 < IMAGO_MAX_PDU" "b_id s \<notin> fst ` set (entries s)"
    "length ?key \<le> NAME_MAX" "p_retry (n_pdu s 0) <s ADA_MAX_RETRY" "timer_index 1 = Some 0"
    using s(10,16,17) by (simp_all add: IMAGO_MAX_PDU_def entries_def received_key_def ascii_def dec_int_def dec_nat.simps
      NAME_MAX_def word_sless_alt timer_index_def MAX_TIMER_def)
  obtain s1 t cc fs gs where up: "ADArendezvous_transport_up 0 s = Inr (STATE_MACHINE_ID_INVALID, s1)" "roomy (n_pool s1)"
    "\<not> p_self (n_pdu s1 0)"
    "b_files s1 = (b_files s)(?key \<mapsto>
        \<lparr>bf_id = Some (b_id s), bf_pdu = Some (request_img 7 ADA_TYPE_REQUEST 9 t gs (n_pdu s 0)), bf_data = [42]\<rparr>)"
    "b_list s1 = Some (entries s @ [(b_id s, ?key)])"
    using transport_up_ok [OF s(1,2) c(1) s(3,5-9) c(2) s(11)] by blast
  have fe: "find_entry (b_id s) s1 = Inr ?key" using up(5) s(17) c(5) by (simp add: find_entry_def entries_def)
  have "?key \<noteq> []" by (simp add: received_key_def ascii_def)
  then obtain s2 where s2: "timeout_callback 1 (b_id s) s1 = Inr s2" "b_files s2 = (b_files s1)(?key := None)"
    using request_timed_out [OF up(2) c(3) up(3) fe _ _ _ c(7)] up(4) by (auto simp: request_img_def)
  let ?v = "s2\<lparr>n_pdu := n_pdu s\<rparr>"
  have v: "c_array_string (p_source (n_pdu ?v 0)) = Inr [98]" "p_genid (n_pdu ?v 0) = 7" "p_seqid (n_pdu ?v 0) = 9"
    "b_files ?v ?key = b_files s2 ?key" using s by simp_all
  obtain v1 where a: "ada_ack 0 ?v = Inr v1" using ada_ack_missing [OF v(1)] v(2,3) s2(2) by auto
  from accepted_request_misfires [OF s(1,2) c(1) s(3,5-9) c(2) s(11) refl c(3-7) up(1) s2(1) v a]
  obtain j where "n_list s2 = n_list s1 @ [j]" "pbody j s2 = [42]" "n_list v1 = n_list ?v" by blast
  thus ?thesis using up(1) s2(1) s(10) a
    by (intro exI [of _ s] exI [of _ s1] exI [of _ s2] exI [of _ v1] exI [of _ j]) simp
qed

end
