(* ===== verification/MLVM_Symtab.thy ===== *)
theory MLVM_Symtab
  imports MLVM_Prelude
begin

text \<open>
  The symbol tables of the compiler, imagoc/parser.c: one array of hash nodes,
  hash_space, in which the chains of hash_name_tab and hash_var_tab run; the values
  that name a functor of an arity; the operators; and the numbering of a clause's
  variables.  A parse term is a tree, since every token makes a node of its own.
  A string in the string table is the string itself.  The compiler can stop in
  fatalerror, or go wrong by an index out of bounds or a NULL pointer.
\<close>

datatype cexit = C_Fatal | C_Bounds | C_Null

definition sbind :: "'e + 'a \<Rightarrow> ('a \<Rightarrow> 'e + 'b) \<Rightarrow> 'e + 'b" where
  "sbind r k = (case r of Inl e \<Rightarrow> Inl e | Inr x \<Rightarrow> k x)"

lemma sbind_simps [simp]: "sbind (Inr x) k = k x" "sbind (Inl e) k = Inl e"
  by (simp_all add: sbind_def)

lemma sbind_cong [fundef_cong]: "r = r' \<Longrightarrow> (\<And>x. r' = Inr x \<Longrightarrow> k x = k' x) \<Longrightarrow> sbind r k = sbind r' k'"
  by (cases r') simp_all

lemma sbind_InrE [elim!]:
  assumes "sbind r k = Inr y"
  obtains x where "r = Inr x" "k x = Inr y"
  using assms by (cases r) auto

section \<open>The data\<close>

text \<open>A real constant: the digits before the point, after it, the sign and the digits of the
  exponent, and whether a minus sign was folded in; the double is what these give.\<close>

datatype real_const = R_LIT string string bool string | R_NEG real_const

datatype var_mark = FIRST_VAR | SEEN_VAR | ANONYMOUS_VAR

datatype iterm =
    T_FUNC string int int "iterm list"
  | T_VAR string int var_mark
  | T_REAL real_const
  | T_STR string

fun term_val :: "iterm \<Rightarrow> int" where
  "term_val (T_FUNC s v n ts) = v"
| "term_val (T_VAR s v k) = v"
| "term_val (T_REAL r) = 0"
| "term_val (T_STR s) = 0"

datatype opkind = BINARY | POSTFIX | PREFIX | NONE

record op_row =
  o_pri :: int
  o_left :: int
  o_right :: int

record hash_node =
  hn_s :: string
  hn_val :: int
  hn_quick :: word32
  hn_terms :: "(int \<times> int) list"
  hn_op :: "(opkind \<Rightarrow> op_row) option"
  hn_var_index :: int
  hn_special :: int

record namerec =
  fn_arity :: "8 word"
  fn_pname :: string
  fn_special :: opkind

record symtab =
  hash_name_tab :: "nat \<Rightarrow> nat list"
  hash_var_tab :: "nat \<Rightarrow> nat list"
  hash_space :: "hash_node list"
  cur_func_id :: int
  functors :: "nat \<Rightarrow> namerec"
  no_var_imagoterm :: int
  var_cnt :: int
  used_vars :: "nat list"
  var_hash_id :: int

definition HASH_FUNC_NUM :: word32 where "HASH_FUNC_NUM = 2003"
definition HASH_VAR_NUM :: word32 where "HASH_VAR_NUM = 2003"
definition INIT_HASH_SPACE :: nat where "INIT_HASH_SPACE = 2000"
definition MAXFUNCTORS :: int where "MAXFUNCTORS = 8000"
definition MAXVAR :: nat where "MAXVAR = 200"
definition UNSER_DEF_PREDICATE :: int where "UNSER_DEF_PREDICATE = 250"

definition U_MINUSVAL :: int where "U_MINUSVAL = 21"
definition QUOTEVAL :: int where "QUOTEVAL = 33"
definition DOTVAL :: int where "DOTVAL = 2"
definition COMMAVAL :: int where "COMMAVAL = 3"
definition RULEIFVAL :: int where "RULEIFVAL = 4"
definition NILLISTVAL :: int where "NILLISTVAL = 5"
definition CUTVAL :: int where "CUTVAL = 113"

section \<open>Hash nodes\<close>

definition schar :: "char \<Rightarrow> word32" where "schar c = scast (of_char c :: 8 word)"

text \<open>The remainder of the smallest int is negative, so the index is out of bounds.\<close>

definition hash :: "string \<Rightarrow> word32 \<Rightarrow> word32" where
  "hash s siz =
     (let h = foldl (\<lambda>h c. push_bit 2 (h * h) + schar c) 0 s
      in cmod (if 0 <=s h then h else - h) siz)"

definition stringsum :: "string \<Rightarrow> word32" where
  "stringsum s = foldl (\<lambda>n c. n + schar c) 0 s"

definition blank_node :: hash_node where
  "blank_node = \<lparr>hn_s = '''', hn_val = 0, hn_quick = 0, hn_terms = [], hn_op = None,
                 hn_var_index = 0, hn_special = 0\<rparr>"

abbreviation node_of :: "symtab \<Rightarrow> nat \<Rightarrow> hash_node" where
  "node_of st i \<equiv> hash_space st ! i"

definition upd_node :: "nat \<Rightarrow> (hash_node \<Rightarrow> hash_node) \<Rightarrow> symtab \<Rightarrow> symtab" where
  "upd_node i f st = st\<lparr>hash_space := (hash_space st)[i := f (node_of st i)]\<rparr>"

definition create_hashtabnode :: "symtab \<Rightarrow> cexit + nat \<times> symtab" where
  "create_hashtabnode st =
     (if length (hash_space st) < INIT_HASH_SPACE
      then Inr (length (hash_space st), st\<lparr>hash_space := hash_space st @ [blank_node]\<rparr>)
      else Inl C_Fatal)"

definition find_node :: "symtab \<Rightarrow> nat list \<Rightarrow> string \<Rightarrow> word32 \<Rightarrow> nat option" where
  "find_node st chain nm q = find (\<lambda>i. hn_quick (node_of st i) = q \<and> hn_s (node_of st i) = nm) chain"

definition insert_name :: "string \<Rightarrow> word32 \<Rightarrow> symtab \<Rightarrow> cexit + nat \<times> symtab" where
  "insert_name nm q st =
     (let h = unat (hash nm HASH_FUNC_NUM) in
      if unat HASH_FUNC_NUM \<le> h then Inl C_Bounds
      else case find_node st (hash_name_tab st h) nm q of
        Some i \<Rightarrow> Inr (i, st)
      | None \<Rightarrow> sbind (create_hashtabnode st) (\<lambda>(i, st).
          Inr (i, upd_node i (\<lambda>n. n\<lparr>hn_quick := q, hn_s := nm, hn_val := cur_func_id st\<rparr>)
                 (st\<lparr>cur_func_id := cur_func_id st + 1,
                     hash_name_tab := (hash_name_tab st)(h := i # hash_name_tab st h)\<rparr>))))"

section \<open>The values of functors\<close>

definition numfunc :: "int \<Rightarrow> int \<Rightarrow> string \<Rightarrow> opkind \<Rightarrow> symtab \<Rightarrow> cexit + symtab" where
  "numfunc val arity s special st =
     (if 0 \<le> val \<and> val < MAXFUNCTORS
      then Inr (st\<lparr>functors := (functors st)(nat val := \<lparr>fn_arity = of_int arity, fn_pname = s, fn_special = special\<rparr>)\<rparr>)
      else Inl C_Bounds)"

text \<open>The operator kind under which a functor is numbered, by its arity.\<close>

definition special_of :: "hash_node \<Rightarrow> int \<Rightarrow> opkind option" where
  "special_of n argunum =
     (case hn_op n of
        None \<Rightarrow> Some NONE
      | Some ops \<Rightarrow>
          if argunum = 2 then (if 0 \<le> o_pri (ops BINARY) then Some BINARY else None)
          else if argunum = 1 then (if 0 \<le> o_pri (ops PREFIX) then Some PREFIX
                                    else if 0 \<le> o_pri (ops POSTFIX) then Some POSTFIX else None)
          else None)"

definition addhashnametab :: "string \<Rightarrow> int \<Rightarrow> int \<Rightarrow> symtab \<Rightarrow> cexit + symtab" where
  "addhashnametab name argunum val st =
     (let q = stringsum name; h = unat (hash name HASH_FUNC_NUM) in
      if unat HASH_FUNC_NUM \<le> h then Inl C_Bounds
      else sbind (case find_node st (hash_name_tab st h) name q of
             Some i \<Rightarrow> Inr (i, st)
           | None \<Rightarrow> sbind (create_hashtabnode st) (\<lambda>(i, st).
               Inr (i, upd_node i (\<lambda>n. n\<lparr>hn_quick := q, hn_s := name, hn_val := val\<rparr>)
                      (st\<lparr>hash_name_tab := (hash_name_tab st)(h := i # hash_name_tab st h)\<rparr>)))) (\<lambda>(i, st).
        if argunum \<in> fst ` set (hn_terms (node_of st i)) then Inl C_Fatal
        else (let st = upd_node i (hn_terms_update ((#) (argunum, val))) st; n = node_of st i in
              case special_of n argunum of
                Some k \<Rightarrow> numfunc val argunum name k st
              | None \<Rightarrow> if argunum = 1 \<or> argunum = 2 then Inl C_Fatal else Inr st)))"

text \<open>
  argunum_imagoterm gives a term its arity and value.  A new arity of a known name
  always takes a new value: the node that is tested has just been put in the list.
\<close>

definition argunum_imagoterm :: "nat \<Rightarrow> iterm \<Rightarrow> int \<Rightarrow> symtab \<Rightarrow> cexit + iterm \<times> symtab" where
  "argunum_imagoterm i t argunum st =
     (case t of
        T_FUNC s v n ts \<Rightarrow>
          (let (val, st) =
             (case map_of (hn_terms (node_of st i)) argunum of
                Some val \<Rightarrow> (val, st)
              | None \<Rightarrow> (cur_func_id st, upd_node i (hn_terms_update ((#) (argunum, cur_func_id st)))
                           (st\<lparr>cur_func_id := cur_func_id st + 1\<rparr>)))
           in sbind (numfunc val argunum s (case special_of (node_of st i) argunum of Some k \<Rightarrow> k | None \<Rightarrow> NONE) st)
                (\<lambda>st. Inr (T_FUNC s val argunum ts, st)))
      | _ \<Rightarrow> Inl C_Fatal)"

fun func_argunum_imagoterm :: "iterm \<Rightarrow> int \<Rightarrow> symtab \<Rightarrow> cexit + iterm \<times> symtab" where
  "func_argunum_imagoterm (T_FUNC s v n ts) argunum st =
     sbind (insert_name s (stringsum s) st) (\<lambda>(i, st). argunum_imagoterm i (T_FUNC s v n ts) argunum st)"
| "func_argunum_imagoterm t argunum st = Inl C_Null"

text \<open>The token of a name: its node, and a term whose arity is not yet known.\<close>

definition lookuphashtab :: "string \<Rightarrow> word32 \<Rightarrow> symtab \<Rightarrow> cexit + (iterm \<times> nat) \<times> symtab" where
  "lookuphashtab nm q st =
     sbind (insert_name nm q st) (\<lambda>(i, st).
       Inr ((T_FUNC (hn_s (node_of st i)) (hn_val (node_of st i)) (-1) [], i), st))"

definition hashbuiltina :: "string \<Rightarrow> int \<Rightarrow> symtab \<Rightarrow> cexit + int \<times> symtab" where
  "hashbuiltina s n st =
     sbind (insert_name s (stringsum s) st) (\<lambda>(i, st).
       sbind (argunum_imagoterm i (T_FUNC s 0 0 []) n st) (\<lambda>(t, st). Inr (term_val t, st)))"

section \<open>Operators\<close>

text \<open>The first loop of addop clears the right column of PREFIX three times; the other
  rows keep the zero of the static array.\<close>

definition new_ops :: "opkind \<Rightarrow> op_row" where
  "new_ops k = \<lparr>o_pri = -1, o_left = -1, o_right = (if k = PREFIX then -1 else 0)\<rparr>"

definition addop_row :: "string \<Rightarrow> opkind \<Rightarrow> int \<Rightarrow> int \<Rightarrow> int \<Rightarrow> nat \<Rightarrow> symtab \<Rightarrow> cexit + symtab" where
  "addop_row nm ty pri left right i st =
     sbind (hashbuiltina nm (if ty = BINARY then 2 else 1) st) (\<lambda>(v, st).
       sbind (if pri = 0
              then (if 0 \<le> v \<and> v < MAXFUNCTORS
                    then Inr (st\<lparr>functors := (functors st)(nat v := (functors st (nat v))\<lparr>fn_special := NONE\<rparr>)\<rparr>)
                    else Inl C_Bounds)
              else numfunc v (if ty = BINARY then 2 else 1) nm ty st) (\<lambda>st.
         let row = (if pri = 0 then \<lparr>o_pri = -1, o_left = -1, o_right = -1\<rparr>
                    else \<lparr>o_pri = pri, o_left = left, o_right = right\<rparr>)
         in Inr (upd_node i (hn_op_update (map_option (\<lambda>ops. ops(ty := row)))) st)))"

definition addop :: "string \<Rightarrow> opkind \<Rightarrow> int \<Rightarrow> int \<Rightarrow> int \<Rightarrow> bool \<Rightarrow> symtab \<Rightarrow> cexit + symtab" where
  "addop nm ty pri left right readonly st =
     (if ty = NONE then Inl C_Fatal
      else if pri < 0 then Inr st
      else sbind (insert_name nm (stringsum nm) st) (\<lambda>(i, st).
        case hn_op (node_of st i) of
          Some ops \<Rightarrow>
            if readonly \<and> 0 \<le> o_pri (ops ty) then Inr st else addop_row nm ty pri left right i st
        | None \<Rightarrow> addop_row nm ty pri left right i (upd_node i (hn_op_update (\<lambda>_. Some new_ops)) st)))"

text \<open>The eight styles; any other is refused with FALSE.\<close>

definition operator_add :: "string \<Rightarrow> string \<Rightarrow> int \<Rightarrow> symtab \<Rightarrow> cexit + bool \<times> symtab" where
  "operator_add nm style pri st =
     (let add = (\<lambda>ty left right. sbind (addop nm ty pri left right False st) (\<lambda>st. Inr (True, st))) in
      if style = ''xfx'' then add BINARY (pri - 1) (pri - 1)
      else if style = ''xfy'' then add BINARY (pri - 1) pri
      else if style = ''yfx'' then add BINARY pri (pri - 1)
      else if style = ''yfy'' then add BINARY pri pri
      else if style = ''fx'' then add PREFIX 0 (pri - 1)
      else if style = ''fy'' then add PREFIX 0 pri
      else if style = ''xf'' then add POSTFIX (pri - 1) 0
      else if style = ''yf'' then add POSTFIX pri 0
      else Inr (False, st))"

definition is_operator_node :: "symtab \<Rightarrow> nat \<Rightarrow> opkind \<Rightarrow> op_row option" where
  "is_operator_node st i ty =
     (case hn_op (node_of st i) of
        None \<Rightarrow> None
      | Some ops \<Rightarrow> if 0 \<le> o_pri (ops ty) then Some (ops ty) else None)"

definition is_nfix_node :: "nat \<Rightarrow> bool" where "is_nfix_node i = False"

section \<open>Variables\<close>

definition zero_vars :: "symtab \<Rightarrow> symtab" where
  "zero_vars st =
     (foldl (\<lambda>st i. upd_node i (hn_special_update (\<lambda>_. -1)) st) (st\<lparr>no_var_imagoterm := 0, var_cnt := 0\<rparr>) (used_vars st))
       \<lparr>used_vars := []\<rparr>"

definition insert_var :: "string \<Rightarrow> word32 \<Rightarrow> symtab \<Rightarrow> cexit + nat \<times> symtab" where
  "insert_var nm q st =
     (let h = unat (hash nm HASH_VAR_NUM) in
      if unat HASH_VAR_NUM \<le> h then Inl C_Bounds
      else case find_node st (hash_var_tab st h) nm q of
        Some i \<Rightarrow> Inr (i, st)
      | None \<Rightarrow> sbind (create_hashtabnode st) (\<lambda>(i, st).
          Inr (i, upd_node i (\<lambda>n. n\<lparr>hn_quick := q, hn_s := nm, hn_val := var_hash_id st, hn_special := -1\<rparr>)
                 (st\<lparr>var_hash_id := var_hash_id st + 1,
                     hash_var_tab := (hash_var_tab st)(h := i # hash_var_tab st h)\<rparr>))))"

definition lookuimago_var :: "string \<Rightarrow> word32 \<Rightarrow> symtab \<Rightarrow> cexit + iterm \<times> symtab" where
  "lookuimago_var var q st =
     sbind (insert_var var q st) (\<lambda>(i, st).
       let s = hn_s (node_of st i) in
       if var \<noteq> ''_'' then
         (if hn_special (node_of st i) < 0 then
            if MAXVAR \<le> length (used_vars st) then Inl C_Bounds
            else Inr (T_VAR s (var_cnt st) FIRST_VAR,
                      (upd_node i (\<lambda>n. n\<lparr>hn_var_index := var_cnt st, hn_special := 1\<rparr>) st)
                        \<lparr>no_var_imagoterm := no_var_imagoterm st + 1, var_cnt := var_cnt st + 1,
                         used_vars := used_vars st @ [i]\<rparr>)
          else Inr (T_VAR s (hn_var_index (node_of st i)) SEEN_VAR, st))
       else Inr (T_VAR s (var_cnt st) ANONYMOUS_VAR, st\<lparr>var_cnt := var_cnt st + 1\<rparr>))"

definition create_real :: "real_const \<Rightarrow> iterm" where "create_real r = T_REAL r"

definition create_str :: "string \<Rightarrow> iterm" where "create_str s = T_STR s"

text \<open>The string of [] and the value that init_name gives it.\<close>

definition create_pt_emptylist :: iterm where "create_pt_emptylist = T_FUNC ''[]'' NILLISTVAL 0 []"

text \<open>The tables before init_name; static storage is clear.\<close>

definition empty_symtab :: symtab where
  "empty_symtab = \<lparr>hash_name_tab = \<lambda>_. [], hash_var_tab = \<lambda>_. [], hash_space = [],
     cur_func_id = UNSER_DEF_PREDICATE, functors = \<lambda>_. \<lparr>fn_arity = 0, fn_pname = '''', fn_special = BINARY\<rparr>,
     no_var_imagoterm = 0, var_cnt = 0, used_vars = [], var_hash_id = 1\<rparr>"

end
