(* ===== verification/MLVM_Scan.thy ===== *)
theory MLVM_Scan
  imports MLVM_Symtab
begin

text \<open>
  The scanner of the compiler, imagoc/scan.c.  ch is the current character and x_rest
  what readchar would deliver next: the pushed-back characters and the rest of
  the stream.  A NUL byte is read as the end of the file, and a peekchar that finds
  one does not push it back.  A byte above 127 indexes chtype out of its bounds.  The
  line counters and the printing of messages are left out: no token depends on them.
\<close>

section \<open>Character classes\<close>

datatype cclass = A_UC | A_UL | A_LC | A_N | A_QT | A_DC | A_SY | A_SL | A_BK | A_BS | A_ENDF

definition ascii_classes :: "cclass list" where
  "ascii_classes =
    [A_ENDF, A_BS, A_BS, A_BS, A_BS, A_BS, A_BS, A_BS, A_BS, A_BS, A_BS, A_BS, A_BS, A_BS, A_BS, A_BS,
     A_BS, A_BS, A_BS, A_BS, A_BS, A_BS, A_BS, A_BS, A_BS, A_BS, A_BS, A_BS, A_BS, A_BS, A_BS, A_BS,
     A_BS, A_SL, A_DC, A_SL, A_LC, A_SL, A_SY, A_QT, A_BK, A_BK, A_SY, A_SY, A_SL, A_SY, A_SY, A_SY,
     A_N, A_N, A_N, A_N, A_N, A_N, A_N, A_N, A_N, A_N, A_SY, A_SL, A_SY, A_SY, A_SY, A_SY,
     A_SY, A_UC, A_UC, A_UC, A_UC, A_UC, A_UC, A_UC, A_UC, A_UC, A_UC, A_UC, A_UC, A_UC, A_UC, A_UC,
     A_UC, A_UC, A_UC, A_UC, A_UC, A_UC, A_UC, A_UC, A_UC, A_UC, A_UC, A_BK, A_SY, A_BK, A_SY, A_UL,
     A_SY, A_LC, A_LC, A_LC, A_LC, A_LC, A_LC, A_LC, A_LC, A_LC, A_LC, A_LC, A_LC, A_LC, A_LC, A_LC,
     A_LC, A_LC, A_LC, A_LC, A_LC, A_LC, A_LC, A_LC, A_LC, A_LC, A_LC, A_SY, A_SL, A_SY, A_SY, A_BS]"

definition chtype :: "char \<Rightarrow> cclass option" where
  "chtype c = (let n = of_char c :: nat in if n < 128 then Some (ascii_classes ! n) else None)"

definition LINE_BUF :: nat where "LINE_BUF = 511"

abbreviation EOFC :: char where "EOFC \<equiv> CHR 0x00"

section \<open>Characters\<close>

fun readchar :: "string \<Rightarrow> char \<times> string" where
  "readchar [] = (EOFC, [])"
| "readchar (c # r) = (c, r)"

fun peekchar :: "string \<Rightarrow> char \<times> string" where
  "peekchar [] = (EOFC, [])"
| "peekchar (c # r) = (if c = EOFC then (EOFC, r) else (c, c # r))"

lemma peekchar_shorter: "peekchar r = (p, r1) \<Longrightarrow> length r1 \<le> length r"
  by (cases r) (auto split: if_splits)

lemma readchar_shorter: "readchar r = (p, r1) \<Longrightarrow> length r1 \<le> length r"
  by (cases r) auto

text \<open>The characters read while their class is accepted, the first that is not, the rest.\<close>

fun span_class :: "(cclass \<Rightarrow> bool) \<Rightarrow> string \<Rightarrow> (string \<times> char \<times> string) option" where
  "span_class A [] = Some ([], EOFC, [])"
| "span_class A (c # r) =
     (case chtype c of
        None \<Rightarrow> None
      | Some k \<Rightarrow> if A k then map_option (\<lambda>(s, y). (c # s, y)) (span_class A r) else Some ([], c, r))"

definition name_class :: "cclass \<Rightarrow> bool" where
  "name_class k = (k = A_UC \<or> k = A_UL \<or> k = A_LC \<or> k = A_N)"

definition get_name :: "char \<Rightarrow> string \<Rightarrow> (string \<times> char \<times> string) option" where
  "get_name c r = map_option (\<lambda>(s, y). (c # s, y)) (span_class name_class r)"

text \<open>A symbol runs to the first character of another class, or to a comment.\<close>

function symbol_chars :: "char \<Rightarrow> string \<Rightarrow> (string \<times> char \<times> string) option" where
  "symbol_chars c r =
     (let (p, r1) = (if c = CHR ''/'' then peekchar r else (c, r)) in
      if c = CHR ''/'' \<and> p = CHR ''*'' then Some ([], c, r1)
      else case r1 of
        [] \<Rightarrow> Some ([c], EOFC, [])
      | d # r2 \<Rightarrow> (case chtype d of
          None \<Rightarrow> None
        | Some k \<Rightarrow> if k = A_SY then map_option (\<lambda>(s, y). (c # s, y)) (symbol_chars d r2) else Some ([c], d, r2)))"
  by pat_completeness auto
termination
  by (relation "measure (\<lambda>(c, r). length r)") (auto dest!: peekchar_shorter [OF sym] split: if_splits)

declare symbol_chars.simps [simp del]

text \<open>A quoted name, up to the closing quote or the end of the file.\<close>

fun quoted :: "char \<Rightarrow> string \<Rightarrow> (string \<times> char \<times> string) option" where
  "quoted q [] = Some ([], EOFC, [])"
| "quoted q (c # r) =
     (if c = q then Some ([], c, r)
      else case chtype c of
        None \<Rightarrow> None
      | Some k \<Rightarrow> if k = A_ENDF then Some ([], c, r) else map_option (\<lambda>(s, y). (c # s, y)) (quoted q r))"

section \<open>Numbers\<close>

text \<open>The digits after the point, if the point is followed by one.\<close>

definition fraction :: "char \<Rightarrow> string \<Rightarrow> (string \<times> char \<times> string) option" where
  "fraction c r =
     (if c = CHR ''.'' then
        (let (p, r1) = peekchar r in
         case chtype p of
           None \<Rightarrow> None
         | Some k \<Rightarrow> if k = A_N then span_class ((=) A_N) r1 else Some ([], c, r1))
      else Some ([], c, r))"

text \<open>The sign and the digits of the exponent: the e is consumed even if none follow.\<close>

definition exponent :: "char \<Rightarrow> string \<Rightarrow> (bool \<times> string \<times> char \<times> string) option" where
  "exponent c r =
     (if c = CHR ''e'' then
        (let (d, r1) = readchar r; neg = (d = CHR ''-'');
             (d, r2) = (if neg \<or> d = CHR ''+'' then readchar r1 else (d, r1)) in
         case chtype d of
           None \<Rightarrow> None
         | Some k \<Rightarrow> if k = A_N then map_option (\<lambda>(s, y). (neg, d # s, y)) (span_class ((=) A_N) r2)
                     else Some (neg, [], d, r2))
      else Some (False, [], c, r))"

definition scan_number :: "char \<Rightarrow> string \<Rightarrow> (real_const \<times> char \<times> string) option" where
  "scan_number c r =
     Option.bind (span_class ((=) A_N) r) (\<lambda>(ds, c1, r1).
       Option.bind (fraction c1 r1) (\<lambda>(fs, c2, r2).
         map_option (\<lambda>(neg, es, y). (R_LIT (c # ds) fs neg es, y)) (exponent c2 r2)))"

section \<open>Blanks and comments\<close>

text \<open>
  Inside a comment of the given nesting, about to read.  After an inner comment is
  closed the loop reads on, so that the character behind it is skipped.
\<close>

function comment :: "nat \<Rightarrow> string \<Rightarrow> cexit + char \<times> string" where
  "comment l [] = Inl C_Fatal"
| "comment l (d # r) =
     (let (p, r1) = peekchar r in
      if d = CHR ''*'' then
        (if p = CHR ''/'' then
           (let (e, r2) = readchar (tl r1) in if l = 1 then Inr (e, r2) else comment (l - 1) r2)
         else comment l r1)
      else if d = CHR ''/'' then (if p = CHR ''*'' then comment (l + 1) (tl r1) else comment l r1)
      else case chtype d of
        None \<Rightarrow> Inl C_Bounds
      | Some k \<Rightarrow> if k = A_ENDF then Inl C_Fatal else comment l r)"
  by pat_completeness auto
termination
proof (relation "measure (\<lambda>(l, r). length r)", goal_cases)
  case (2 l d r x p r1 y e r2)
  from readchar_shorter [of "tl r1" e r2] peekchar_shorter [of r p r1] 2 show ?case by force
qed (auto dest!: peekchar_shorter [OF sym] simp: le_imp_less_Suc less_Suc_eq_le)

declare comment.simps(2) [simp del]

fun line_comment :: "string \<Rightarrow> cexit + char \<times> string" where
  "line_comment [] = Inr (EOFC, [])"
| "line_comment (c # r) =
     (if c = CHR 0x0A then Inr (c, r)
      else case chtype c of
        None \<Rightarrow> Inl C_Bounds
      | Some k \<Rightarrow> if k = A_ENDF then Inr (c, r) else line_comment r)"


lemma comment_shorter: "comment l r = Inr (e, r2) \<Longrightarrow> length r2 < length r"
proof (induction l r rule: comment.induct)
  case (2 l d r)
  obtain p r1 where p: "peekchar r = (p, r1)" by fastforce
  obtain x r3 where x: "readchar (tl r1) = (x, r3)" by fastforce
  have l: "length r1 \<le> length r" "length r3 \<le> length (tl r1)"
    using peekchar_shorter [OF p] readchar_shorter [OF x] by auto
  have r: "comment l (d # r) =
     (if d = CHR ''*'' then
        (if p = CHR ''/'' then (if l = 1 then Inr (x, r3) else comment (l - 1) r3) else comment l r1)
      else if d = CHR ''/'' then (if p = CHR ''*'' then comment (l + 1) (tl r1) else comment l r1)
      else case chtype d of None \<Rightarrow> Inl C_Bounds
           | Some k \<Rightarrow> if k = A_ENDF then Inl C_Fatal else comment l r)"
    by (simp add: comment.simps(2) p x)
  consider "d = CHR ''*''" "p = CHR ''/''" "l = 1" | "d = CHR ''*''" "p = CHR ''/''" "l \<noteq> 1"
    | "d = CHR ''*''" "p \<noteq> CHR ''/''" | "d = CHR ''/''" "p = CHR ''*''" | "d = CHR ''/''" "p \<noteq> CHR ''*''"
    | "d \<noteq> CHR ''*''" "d \<noteq> CHR ''/''" by blast
  thus ?case
  proof cases
    case 1 thus ?thesis using "2.prems" [unfolded r] l by simp
  next
    case 2
    with "2.prems" [unfolded r] have "comment (l - 1) r3 = Inr (e, r2)" by simp
    thus ?thesis using "2.IH"(1) [OF p [symmetric] refl] 2 x l by fastforce
  next
    case 3 thus ?thesis using "2.IH"(2) [OF p [symmetric] refl] "2.prems" [unfolded r] l by simp
  next
    case 4 thus ?thesis using "2.IH"(3) [OF p [symmetric] refl] "2.prems" [unfolded r] l by simp
  next
    case 5 thus ?thesis using "2.IH"(4) [OF p [symmetric] refl] "2.prems" [unfolded r] l by simp
  next
    case 6 thus ?thesis using "2.IH"(5) [OF p [symmetric] refl] "2.prems" [unfolded r] l by (simp split: option.splits if_splits)
  qed
qed simp

lemma line_comment_shorter: "line_comment r = Inr (d, r1) \<Longrightarrow> length r1 \<le> length r"
  by (induction r) (auto split: if_splits option.splits)

text \<open>
  What lies before a token: True if a comment to the end of the line met the end of
  the file, in which case imagoscan returns without setting the token.
\<close>

function skip_layout :: "char \<Rightarrow> string \<Rightarrow> cexit + bool \<times> char \<times> string" where
  "skip_layout c r =
     (case chtype c of
        None \<Rightarrow> Inl C_Bounds
      | Some k \<Rightarrow>
          if k = A_BS then (case r of [] \<Rightarrow> Inr (False, EOFC, []) | d # r1 \<Rightarrow> skip_layout d r1)
          else if c = CHR ''/'' then
            (let (p, r1) = peekchar r in
             if p = CHR ''*'' then
               (case comment 1 (tl r1) of Inl e \<Rightarrow> Inl e | Inr (d, r2) \<Rightarrow> skip_layout d r2)
             else Inr (False, c, r1))
          else if c = CHR ''%'' then
            (case line_comment r of
               Inl e \<Rightarrow> Inl e
             | Inr (d, r1) \<Rightarrow>
                 if d = CHR 0x0A then (case r1 of [] \<Rightarrow> Inr (False, EOFC, []) | d # r2 \<Rightarrow> skip_layout d r2)
                 else Inr (True, d, r1))
          else Inr (False, c, r))"
  by pat_completeness auto
termination
proof (relation "measure (\<lambda>(c, r). length r)", goal_cases)
  case (3 c r k x p r1 y d r2)
  from peekchar_shorter [of r p r1] comment_shorter [of 1 "tl r1" d r2] 3 show ?case by (cases r1) auto
next
  case (4 c r k y d r1 e r2)
  from line_comment_shorter [of r d r1] 4 show ?case by auto
qed auto

declare skip_layout.simps [simp del]

section \<open>Tokens\<close>

text \<open>NO_TOKEN is the 0 that tokentype holds before the first token.\<close>

datatype token = VAR | NAME | REAL | STRING | PAREN | PUNC | ENDFILE | NO_TOKEN

record scanner =
  sc_ch :: char
  sc_rest :: string
  tokentype :: token
  tokenchar :: char
  tokenpointer :: "iterm option"
  tok_node :: nat
  hnode_emptylist :: nat
  comma_flg :: bool
  bar_flg :: bool
  sc_tab :: symtab

text \<open>A run can end the compiler, or raise a syntax error in the state it has reached.\<close>

datatype 's halt = H_Exit cexit | H_Syntax 's | H_Fuel

definition of_exit :: "cexit + 'a \<Rightarrow> 's halt + 'a" where
  "of_exit r = (case r of Inl e \<Rightarrow> Inl (H_Exit e) | Inr x \<Rightarrow> Inr x)"

definition of_bounds :: "'a option \<Rightarrow> 's halt + 'a" where
  "of_bounds r = (case r of None \<Rightarrow> Inl (H_Exit C_Bounds) | Some x \<Rightarrow> Inr x)"

lemma of_exit_simps [simp]:
  "of_exit (Inr x) = Inr x" "of_exit (Inl e) = Inl (H_Exit e)"
  "of_bounds (Some x) = Inr x" "of_bounds None = Inl (H_Exit C_Bounds)"
  by (simp_all add: of_exit_def of_bounds_def)

type_synonym 'a scan = "scanner halt + 'a"

definition at_text :: "char \<Rightarrow> string \<Rightarrow> scanner \<Rightarrow> scanner" where
  "at_text c r st = st\<lparr>sc_ch := c, sc_rest := r\<rparr>"

text \<open>buffer has room for 510 characters and the terminating 0.\<close>

definition name_token :: "string \<Rightarrow> scanner \<Rightarrow> scanner scan" where
  "name_token s st =
     (if LINE_BUF \<le> length s then Inl (H_Exit C_Bounds)
      else sbind (of_exit (lookuphashtab s (stringsum s) (sc_tab st))) (\<lambda>((t, i), tab).
        Inr (st\<lparr>sc_tab := tab, tokenpointer := Some t, tok_node := i, tokentype := NAME\<rparr>)))"

definition var_token :: "string \<Rightarrow> scanner \<Rightarrow> scanner scan" where
  "var_token s st =
     (if LINE_BUF \<le> length s then Inl (H_Exit C_Bounds)
      else sbind (of_exit (lookuimago_var s (stringsum s) (sc_tab st))) (\<lambda>(t, tab).
        Inr (st\<lparr>sc_tab := tab, tokenpointer := Some t, tokentype := VAR\<rparr>)))"

text \<open>The full stop is followed by a blank or the end of the file.\<close>

definition symbol_token :: "char \<Rightarrow> string \<Rightarrow> scanner \<Rightarrow> scanner scan" where
  "symbol_token c r st =
     sbind (if c = CHR ''.'' then
              (let (p, r1) = peekchar r in
               sbind (of_bounds (chtype p)) (\<lambda>k.
                 if k = A_BS then Inr (True, r1)
                 else (let (p, r2) = peekchar r1 in
                       sbind (of_bounds (chtype p)) (\<lambda>k. Inr (k = A_ENDF, r2)))))
            else Inr (False, r)) (\<lambda>(stop, r).
       if stop then
         (let (d, r) = readchar r in Inr ((at_text d r st)\<lparr>tokenchar := CHR ''.'', tokentype := PUNC\<rparr>))
       else sbind (of_bounds (symbol_chars c r)) (\<lambda>(s, d, r). name_token s (at_text d r st)))"

definition quoted_token :: "char \<Rightarrow> string \<Rightarrow> scanner \<Rightarrow> scanner scan" where
  "quoted_token q r st =
     sbind (of_bounds (quoted q r)) (\<lambda>(s, c, r).
       if LINE_BUF \<le> length s then Inl (H_Exit C_Bounds)
       else (let (d, r) = readchar r; st = at_text d r st in
             if c \<noteq> q then Inl (H_Syntax st) else name_token s st))"

definition solo_token :: "char \<Rightarrow> string \<Rightarrow> scanner \<Rightarrow> scanner scan" where
  "solo_token c r st =
     (let (d, r) = readchar r; st = (at_text d r st)\<lparr>tokenchar := c\<rparr> in
      if c = CHR '','' \<and> comma_flg st \<or> c = CHR ''|'' \<and> bar_flg st then Inr (st\<lparr>tokentype := PUNC\<rparr>)
      else name_token [c] st)"

definition bracket_token :: "char \<Rightarrow> string \<Rightarrow> scanner \<Rightarrow> scanner scan" where
  "bracket_token c r st =
     (let (d, r) = readchar r; st = st\<lparr>tokenchar := c\<rparr> in
      if c = CHR ''['' \<and> d = CHR '']'' then
        (let (e, r) = readchar r in
         Inr ((at_text e r st)\<lparr>tokenpointer := Some create_pt_emptylist, tok_node := hnode_emptylist st, tokentype := NAME\<rparr>))
      else Inr ((at_text d r st)\<lparr>tokentype := PAREN\<rparr>))"

text \<open>imagoscan up to a call of error_syntax, which is left to the caller.\<close>

definition scan_token :: "scanner \<Rightarrow> scanner scan" where
  "scan_token st =
     sbind (of_exit (skip_layout (sc_ch st) (sc_rest st))) (\<lambda>(eof, c, r).
       if eof then Inr (at_text c r st)
       else sbind (of_bounds (chtype c)) (\<lambda>k.
         case k of
           A_UC \<Rightarrow> sbind (of_bounds (get_name c r)) (\<lambda>(s, d, r). var_token s (at_text d r st))
         | A_UL \<Rightarrow> sbind (of_bounds (get_name c r)) (\<lambda>(s, d, r). var_token s (at_text d r st))
         | A_LC \<Rightarrow> sbind (of_bounds (get_name c r)) (\<lambda>(s, d, r). name_token s (at_text d r st))
         | A_SY \<Rightarrow> symbol_token c r st
         | A_N \<Rightarrow> sbind (of_bounds (scan_number c r)) (\<lambda>(x, d, r).
                    Inr ((at_text d r st)\<lparr>tokenpointer := Some (create_real x), tokentype := REAL\<rparr>))
         | A_QT \<Rightarrow> quoted_token c r st
         | A_DC \<Rightarrow> quoted_token c r st
         | A_SL \<Rightarrow> solo_token c r st
         | A_BK \<Rightarrow> bracket_token c r st
         | A_ENDF \<Rightarrow> Inr ((at_text c r st)\<lparr>tokentype := ENDFILE\<rparr>)
         | A_BS \<Rightarrow> Inl (H_Syntax (at_text c r st))))"

definition is_punc :: "char \<Rightarrow> scanner \<Rightarrow> bool" where
  "is_punc c st = (tokentype st = PUNC \<and> tokenchar st = c)"


section \<open>Progress\<close>

text \<open>What is left to read, the current character included unless it is the end.\<close>

definition text_left :: "char \<Rightarrow> string \<Rightarrow> nat" where
  "text_left c r = length r + (if c = EOFC then 0 else 1)"

lemma chtype_EOFC: "chtype EOFC = Some A_ENDF" by code_simp

lemma chtype_ENDF: "(chtype c = Some A_ENDF) = (c = EOFC)"
proof -
  have "\<forall>c. (chtype c = Some A_ENDF) = (c = EOFC)" by code_simp
  thus ?thesis by blast
qed

lemma readchar_left: "readchar r = (c, r1) \<Longrightarrow> text_left c r1 \<le> length r"
  by (cases r) (auto simp: text_left_def)

lemma span_class_left: "span_class A r = Some (s, c, r1) \<Longrightarrow> text_left c r1 \<le> length r"
  by (induction r arbitrary: s) (fastforce simp: text_left_def split: option.splits if_splits)+


lemma symbol_chars_left:
  "symbol_chars c r = Some (s, d, r1) \<Longrightarrow>
     (if c = CHR ''/'' \<and> fst (peekchar r) = CHR ''*'' then d = c \<and> r1 = r else text_left d r1 \<le> length r)"
proof (induction c r arbitrary: s rule: symbol_chars.induct)
  case (1 c r)
  obtain p r2 where p: "(if c = CHR ''/'' then peekchar r else (c, r)) = (p, r2)" by fastforce
  have l: "length r2 \<le> length r" using p peekchar_shorter [of r p r2] by (auto split: if_splits)
  show ?case
  proof (cases "c = CHR ''/'' \<and> p = CHR ''*''")
    case True
    hence "symbol_chars c r = Some ([], c, r2)" using p by (subst symbol_chars.simps) simp
    moreover have "r2 = r" using True p by (cases r) (auto split: if_splits)
    ultimately show ?thesis using True p 1(2) by simp
  next
    case False
    hence n: "\<not> (c = CHR ''/'' \<and> fst (peekchar r) = CHR ''*'')" using p by auto
    have e: "symbol_chars c r = (case r2 of [] \<Rightarrow> Some ([c], EOFC, [])
      | d # r3 \<Rightarrow> (case chtype d of None \<Rightarrow> None
          | Some k \<Rightarrow> if k = A_SY then map_option (\<lambda>(s, y). (c # s, y)) (symbol_chars d r3) else Some ([c], d, r3)))"
      by (simp only: symbol_chars.simps [of c r] p Let_def prod.case if_not_P [OF False])
    show ?thesis
    proof (cases r2)
      case Nil
      hence "text_left d r1 \<le> length r" using 1(2) by (auto simp: e text_left_def)
      thus ?thesis by (simp only: if_not_P [OF n])
    next
      case (Cons d' r3)
      have ih: "text_left d r1 \<le> Suc (length r3)" if "chtype d' = Some A_SY" "symbol_chars d' r3 = Some (s', d, r1)" for s'
        using 1(1) [OF p [symmetric] refl False Cons that(1) refl that(2)] by (auto simp: text_left_def split: if_splits)
      have "text_left d r1 \<le> Suc (length r3)"
        using 1(2) ih unfolding e Cons by (fastforce simp: text_left_def split: option.splits if_splits)
      thus ?thesis using l Cons by (simp only: if_not_P [OF n]) simp
    qed
  qed
qed

lemma quoted_left: "quoted q r = Some (s, c, r1) \<Longrightarrow> length r1 \<le> length r"
  by (induction r arbitrary: s) (fastforce split: option.splits if_splits)+

lemma comment_left: "comment l r = Inr (e, r2) \<Longrightarrow> text_left e r2 \<le> length r"
  using comment_shorter [of l r e r2] by (simp add: text_left_def)

lemma line_comment_left: "line_comment r = Inr (d, r1) \<Longrightarrow> text_left d r1 \<le> length r \<and> (d = EOFC \<or> d = CHR 0x0A)"
  by (induction r) (auto simp: text_left_def chtype_ENDF split: option.splits if_splits)

lemma fraction_left: "fraction c r = Some (s, d, r1) \<Longrightarrow> text_left d r1 \<le> text_left c r"
  using span_class_left [of "(=) A_N"] peekchar_shorter [of r]
  by (fastforce simp: fraction_def text_left_def split: option.splits if_splits prod.splits)

lemma exponent_left: "exponent c r = Some (neg, s, d, r1) \<Longrightarrow> text_left d r1 \<le> text_left c r"
proof (cases "c = CHR ''e''")
  case True
  assume e: "exponent c r = Some (neg, s, d, r1)"
  obtain x r2 where x: "readchar r = (x, r2)" by fastforce
  obtain y r3 where y: "(if x = CHR ''-'' \<or> x = CHR ''+'' then readchar r2 else (x, r2)) = (y, r3)" by fastforce
  have "text_left y r3 \<le> length r" "length r3 \<le> length r"
    using x y readchar_left [OF x] readchar_left [of r2 y r3] by (auto simp: text_left_def split: if_splits)
  moreover have "text_left d r1 \<le> length r3 \<or> (d = y \<and> r1 = r3)"
    using e x y span_class_left [of "(=) A_N" r3]
    by (auto simp: exponent_def True split: option.splits if_splits)
  ultimately show ?thesis by (auto simp: True text_left_def)
qed (simp add: exponent_def)

lemma scan_number_left: "scan_number c r = Some (x, d, r1) \<Longrightarrow> text_left d r1 \<le> length r"
proof -
  assume "scan_number c r = Some (x, d, r1)"
  then obtain ds c1 r2 fs c2 r3 neg es where
    "span_class ((=) A_N) r = Some (ds, c1, r2)" "fraction c1 r2 = Some (fs, c2, r3)"
    "exponent c2 r3 = Some (neg, es, d, r1)"
    by (auto simp: scan_number_def bind_eq_Some_conv)
  from span_class_left [OF this(1)] fraction_left [OF this(2)] exponent_left [OF this(3)] show ?thesis by simp
qed

lemma skip_layout_left:
  assumes "skip_layout c r = Inr (eof, d, r1)"
  shows "text_left d r1 \<le> text_left c r
    \<and> (eof \<or> d = CHR ''/'' \<and> fst (peekchar r1) = CHR ''*'' \<longrightarrow> text_left d r1 < text_left c r)"
  using assms
proof (induction c r rule: skip_layout.induct)
  case (1 c r)
  obtain k where k: "chtype c = Some k"
    using 1(4) by (cases "chtype c") (simp_all add: skip_layout.simps [of c r])
  have c: "text_left c r = Suc (length r)" if "k \<noteq> A_ENDF"
    using that k chtype_EOFC by (auto simp: text_left_def)
  consider "k = A_BS" | "k \<noteq> A_BS" "c = CHR ''/''" | "k \<noteq> A_BS" "c = CHR ''%''"
    | "k \<noteq> A_BS" "c \<noteq> CHR ''/''" "c \<noteq> CHR ''%''" by blast
  thus ?case
  proof cases
    case 1
    show ?thesis
    proof (cases r)
      case Nil
      hence "d = EOFC" "r1 = []" using "1.prems" 1 k by (subst (asm) skip_layout.simps, simp)+
      thus ?thesis using 1 c by (simp add: text_left_def)
    next
      case (Cons d' r')
      hence "skip_layout d' r' = Inr (eof, d, r1)" using "1.prems" 1 k
        by (subst (asm) skip_layout.simps) simp
      from "1.IH"(1) [OF k 1 Cons this] show ?thesis using c 1 Cons by (auto simp: text_left_def split: if_splits)
    qed
  next
    case 2
    obtain p r2 where p: "peekchar r = (p, r2)" by fastforce
    have kn: "k \<noteq> A_ENDF" using 2 k chtype_ENDF [of c] by auto
    show ?thesis
    proof (cases "p = CHR ''*''")
      case True
      then obtain e r3 where e: "comment 1 (tl r2) = Inr (e, r3)" "skip_layout e r3 = Inr (eof, d, r1)"
        using "1.prems" 2 k p by (subst (asm) skip_layout.simps) (auto split: sum.splits)
      have "length (tl r2) \<le> length r" using peekchar_shorter [OF p] by simp
      with comment_left [OF e(1)] "1.IH"(2) [OF k 2 p [symmetric] refl True e(1) refl e(2)] c [OF kn]
      show ?thesis by linarith
    next
      case False
      hence r: "eof = False" "d = c" "r1 = r2"
        using "1.prems" 2 k p by (subst (asm) skip_layout.simps, simp)+
      show ?thesis
      proof (cases "r2 = r")
        case True
        thus ?thesis using r False p by simp
      next
        case F: False
        hence "length r2 < length r" using p by (cases r) (auto split: if_splits)
        thus ?thesis using r by (simp add: text_left_def)
      qed
    qed
  next
    case 3
    have kn: "k \<noteq> A_ENDF" using 3 k chtype_ENDF [of c] by auto
    have n: "c \<noteq> CHR ''/''" using 3 by simp
    obtain e r2 where e: "line_comment r = Inr (e, r2)"
      using "1.prems" 3 k by (subst (asm) skip_layout.simps) (auto split: sum.splits)
    note l = line_comment_left [OF e]
    show ?thesis
    proof (cases "e = CHR 0x0A")
      case True
      show ?thesis
      proof (cases r2)
        case Nil
        thus ?thesis using "1.prems" 3 k e True c [OF kn] l
          by (subst (asm) skip_layout.simps) (auto simp: text_left_def)
      next
        case (Cons d' r')
        hence s: "skip_layout d' r' = Inr (eof, d, r1)" using "1.prems" 3 k e True
          by (subst (asm) skip_layout.simps) simp
        from "1.IH"(3) [OF k 3(1) n 3(2) e refl True Cons s] l c [OF kn] True Cons
        show ?thesis by (auto simp: text_left_def split: if_splits)
      qed
    next
      case False
      hence "d = e" "r1 = r2" using "1.prems" 3 k e by (subst (asm) skip_layout.simps, simp)+
      thus ?thesis using l c [OF kn] by simp
    qed
  next
    case 4
    thus ?thesis using "1.prems" k by (simp add: skip_layout.simps [of c r])
  qed
qed


lemma skip_layout_stops:
  assumes "skip_layout c r = Inr (False, d, r1)"
  shows "chtype d \<noteq> Some A_BS \<and> d \<noteq> CHR ''%''"
  using assms
proof (induction c r rule: skip_layout.induct)
  case (1 c r)
  obtain k where k: "chtype c = Some k"
    using "1.prems" by (cases "chtype c") (simp_all add: skip_layout.simps [of c r])
  have z: "chtype EOFC \<noteq> Some A_BS" by (simp add: chtype_EOFC)
  consider "k = A_BS" | "k \<noteq> A_BS" "c = CHR ''/''" | "k \<noteq> A_BS" "c = CHR ''%''"
    | "k \<noteq> A_BS" "c \<noteq> CHR ''/''" "c \<noteq> CHR ''%''" by blast
  thus ?case
  proof cases
    case 1
    thus ?thesis using "1.prems" "1.IH"(1) [OF k 1] k z
      by (subst (asm) skip_layout.simps) (auto split: list.splits)
  next
    case 2
    obtain p r2 where p: "peekchar r = (p, r2)" by fastforce
    show ?thesis
    proof (cases "p = CHR ''*''")
      case True
      thus ?thesis using "1.prems" "1.IH"(2) [OF k 2 p [symmetric] refl True] 2 k p
        by (subst (asm) skip_layout.simps) (auto split: sum.splits)
    next
      case False
      hence "d = c" using "1.prems" 2 k p by (subst (asm) skip_layout.simps) simp
      thus ?thesis using 2 k by simp
    qed
  next
    case 3
    have n: "c \<noteq> CHR ''/''" using 3 by simp
    obtain e r2 where e: "line_comment r = Inr (e, r2)"
      using "1.prems" 3 k by (subst (asm) skip_layout.simps) (auto split: sum.splits)
    show ?thesis using "1.prems" "1.IH"(3) [OF k 3(1) n 3(2) e refl] 3 k z e
      by (subst (asm) skip_layout.simps) (auto split: list.splits if_splits)
  next
    case 4
    thus ?thesis using "1.prems" k by (subst (asm) skip_layout.simps) simp
  qed
qed

definition state_left :: "scanner \<Rightarrow> nat" where
  "state_left st = text_left (sc_ch st) (sc_rest st)"

lemma state_left_at [simp]: "state_left (at_text c r st) = text_left c r"
  by (simp add: state_left_def at_text_def)

lemma name_token_left [simp]: "name_token s st = Inr st' \<Longrightarrow> state_left st' = state_left st"
  "name_token s st = Inl h \<Longrightarrow> \<exists>e. h = H_Exit e"
  by (auto simp: name_token_def state_left_def of_exit_def sbind_def split: if_splits sum.splits)

lemma var_token_left [simp]: "var_token s st = Inr st' \<Longrightarrow> state_left st' = state_left st"
  "var_token s st = Inl h \<Longrightarrow> \<exists>e. h = H_Exit e"
  by (auto simp: var_token_def state_left_def of_exit_def sbind_def split: if_splits sum.splits)

text \<open>A run of the scanner from a text of length n: what it leaves is shorter, or it is at the end.\<close>

definition progress :: "nat \<Rightarrow> scanner scan \<Rightarrow> bool" where
  "progress n x = (case x of
     Inr st \<Rightarrow> state_left st < n \<or> tokentype st = ENDFILE \<and> state_left st \<le> n
   | Inl (H_Syntax st) \<Rightarrow> state_left st < n
   | Inl h \<Rightarrow> h \<noteq> H_Fuel)"

lemma progress_simps [simp]:
  "progress n (Inl (H_Exit e))" "progress n (Inl (H_Syntax st)) = (state_left st < n)"
  "progress n (Inr st) = (state_left st < n \<or> tokentype st = ENDFILE \<and> state_left st \<le> n)"
  by (simp_all add: progress_def)


lemma name_token_progress: "state_left st < n \<Longrightarrow> progress n (name_token s st)"
  using name_token_left [of s st] by (cases "name_token s st") (auto dest!: name_token_left)

lemma var_token_progress: "state_left st < n \<Longrightarrow> progress n (var_token s st)"
  using var_token_left [of s st] by (cases "var_token s st") (auto dest!: var_token_left)

lemma symbol_token_progress:
  assumes "c \<noteq> EOFC" "Suc (length r) \<le> n"
    "c = CHR ''/'' \<Longrightarrow> fst (peekchar r) = CHR ''*'' \<Longrightarrow> Suc (length r) < n"
  shows "progress n (symbol_token c r st)"
proof -
  have sy: "progress n (sbind (of_bounds (symbol_chars c r')) (\<lambda>(s, d, r). name_token s (at_text d r st)))"
    if "length r' \<le> length r" "c = CHR ''/'' \<Longrightarrow> r' = r" for r'
  proof (cases "symbol_chars c r'")
    case (Some a)
    obtain s d r2 where a: "a = (s, d, r2)" by (cases a)
    have "text_left d r2 < n"
      using symbol_chars_left [OF Some [unfolded a]] that assms
      by (auto simp: text_left_def split: if_splits)
    thus ?thesis using Some a name_token_progress by simp
  qed simp
  show ?thesis
  proof (cases "c = CHR ''.''")
    case True
    obtain p r1 where p: "peekchar r = (p, r1)" by fastforce
    obtain q r2 where q: "peekchar r1 = (q, r2)" by fastforce
    obtain d r3 where d: "readchar r1 = (d, r3)" by fastforce
    obtain e r4 where e: "readchar r2 = (e, r4)" by fastforce
    have l: "length r1 \<le> length r" "length r2 \<le> length r"
      using peekchar_shorter [OF p] peekchar_shorter [OF q] by auto
    have t: "text_left d r3 < n" "text_left e r4 < n"
      using readchar_left [OF d] readchar_left [OF e] l assms(2) by auto
    have u: "state_left (st'\<lparr>tokenchar := x, tokentype := y\<rparr>) = state_left st'" for st' x y
      by (simp add: state_left_def)
    show ?thesis
      using sy [OF l(2)] True t
      by (cases "chtype p"; cases "chtype q") (auto simp: symbol_token_def p q d e u)
  qed (use sy [of r] in \<open>simp add: symbol_token_def\<close>)
qed

lemma state_left_upd [simp]:
  "state_left (st\<lparr>tokenpointer := x\<rparr>) = state_left st" "state_left (st\<lparr>tokentype := y\<rparr>) = state_left st"
  "state_left (st\<lparr>tokenchar := z\<rparr>) = state_left st" "state_left (st\<lparr>tok_node := i\<rparr>) = state_left st"
  by (simp_all add: state_left_def)

lemma get_name_progress:
  assumes "Suc (length r) \<le> n" "\<And>s st'. state_left st' < n \<Longrightarrow> progress n (f s st')"
  shows "progress n (sbind (of_bounds (get_name c r)) (\<lambda>(s, d, r). f s (at_text d r st)))"
proof (cases "span_class name_class r")
  case (Some y)
  obtain s d r1 where y: "y = (s, d, r1)" by (cases y)
  have "text_left d r1 < n" using span_class_left [OF Some [unfolded y]] assms(1) by simp
  thus ?thesis using Some y assms(2) by (simp add: get_name_def)
qed (simp add: get_name_def)

lemma number_progress:
  assumes "Suc (length r) \<le> n"
  shows "progress n (sbind (of_bounds (scan_number c r)) (\<lambda>(x, d, r).
           Inr ((at_text d r st)\<lparr>tokenpointer := Some (create_real x), tokentype := REAL\<rparr>)))"
proof (cases "scan_number c r")
  case (Some y)
  obtain x d r1 where y: "y = (x, d, r1)" by (cases y)
  have "text_left d r1 < n" using scan_number_left [OF Some [unfolded y]] assms by simp
  thus ?thesis using Some y by simp
qed simp

lemma solo_token_progress:
  assumes "Suc (length r) \<le> n"
  shows "progress n (solo_token c r st)"
proof -
  obtain d r1 where d: "readchar r = (d, r1)" by fastforce
  have "text_left d r1 < n" using readchar_left [OF d] assms by simp
  thus ?thesis using d name_token_progress by (simp add: solo_token_def Let_def)
qed

lemma bracket_token_progress:
  assumes "Suc (length r) \<le> n"
  shows "progress n (bracket_token c r st)"
proof -
  obtain d r1 where d: "readchar r = (d, r1)" by fastforce
  obtain e r2 where e: "readchar r1 = (e, r2)" by fastforce
  have "text_left d r1 < n" "text_left e r2 < n"
    using readchar_left [OF d] readchar_left [OF e] readchar_shorter [OF d] assms by auto
  thus ?thesis using d e by (simp add: bracket_token_def Let_def)
qed

lemma quoted_token_progress:
  assumes "Suc (length r) \<le> n"
  shows "progress n (quoted_token c r st)"
proof (cases "quoted c r")
  case (Some y)
  obtain s d r1 where y: "y = (s, d, r1)" by (cases y)
  obtain e r2 where e: "readchar r1 = (e, r2)" by fastforce
  have "text_left e r2 < n"
    using quoted_left [OF Some [unfolded y]] readchar_left [OF e] assms by simp
  thus ?thesis using Some y e name_token_progress by (simp add: quoted_token_def Let_def)
qed (simp add: quoted_token_def)

lemma scan_token_progress: "progress (state_left st) (scan_token st)"
proof (cases "skip_layout (sc_ch st) (sc_rest st)")
  case (Inl e)
  thus ?thesis by (simp add: scan_token_def)
next
  case (Inr a)
  obtain eof c r where a: "a = (eof, c, r)" by (cases a)
  note l = skip_layout_left [OF Inr [unfolded a], folded state_left_def]
  note b = skip_layout_stops [of "sc_ch st" "sc_rest st" c r]
  show ?thesis
  proof (cases "eof \<or> c = EOFC")
    case True
    thus ?thesis using l Inr a by (auto simp: scan_token_def chtype_EOFC)
  next
    case False
    hence n: "Suc (length r) \<le> state_left st" using l by (simp add: text_left_def)
    have sy: "progress (state_left st) (symbol_token c r st)"
      by (rule symbol_token_progress) (use False n l in \<open>auto simp: text_left_def\<close>)
    show ?thesis
    proof (cases "chtype c")
      case (Some k)
      have k: "k \<noteq> A_BS" "k \<noteq> A_ENDF" using b False Inr a Some chtype_ENDF [of c] by auto
      have nm: "progress (state_left st) (sbind (of_bounds (get_name c r)) (\<lambda>(s, d, r). name_token s (at_text d r st)))"
        "progress (state_left st) (sbind (of_bounds (get_name c r)) (\<lambda>(s, d, r). var_token s (at_text d r st)))"
        by (rule get_name_progress [OF n], erule name_token_progress var_token_progress)+
      note ps = nm number_progress [OF n] solo_token_progress [OF n] bracket_token_progress [OF n] quoted_token_progress [OF n] sy
      show ?thesis
        using Inr a False Some k by (cases k) (simp_all add: scan_token_def ps)
    qed (use Inr a False in \<open>simp add: scan_token_def\<close>)
  qed
qed

lemma scan_token_shorter:
  "scan_token st = Inr st' \<Longrightarrow> state_left st' < state_left st \<or> tokentype st' = ENDFILE \<and> state_left st' \<le> state_left st"
  "scan_token st = Inl (H_Syntax st') \<Longrightarrow> state_left st' < state_left st"
  "scan_token st \<noteq> Inl H_Fuel"
  using scan_token_progress [of st] by (auto simp: progress_def)

section \<open>Error recovery\<close>

text \<open>
  error_syntax skips to the end of the clause or of the file and jumps to getimagoterm:
  its value is the state at the longjmp.  A second error on the way skips on from there.
\<close>

function error_syntax :: "scanner \<Rightarrow> scanner halt" where
  "error_syntax st =
     (if is_punc (CHR ''.'') st \<or> tokentype st = ENDFILE then H_Syntax st
      else case scan_token st of
        Inr st' \<Rightarrow> error_syntax st'
      | Inl h \<Rightarrow> (case h of H_Syntax st' \<Rightarrow> error_syntax st' | _ \<Rightarrow> h))"
  by pat_completeness auto
termination
  by (relation "measure (\<lambda>st. 2 * state_left st + (if tokentype st = ENDFILE then 0 else 1))")
    (auto dest!: scan_token_shorter(1,2))

declare error_syntax.simps [simp del]

definition imagoscan :: "scanner \<Rightarrow> scanner scan" where
  "imagoscan st = (case scan_token st of Inl (H_Syntax st') \<Rightarrow> Inl (error_syntax st') | x \<Rightarrow> x)"

end
