(* ===== verification/MLVM_Parser.thy ===== *)
theory MLVM_Parser
  imports MLVM_Scan
begin

text \<open>
  The operator-precedence reader of the compiler, imagoc/parser.c: get_imagoterm and
  the functions it calls recursively, and getimagoterm, which reads a clause and
  catches the longjmp of error_syntax.  A NULL term is None.  The recursion is on
  fuel, of which getimagoterm gives as much as the text left to read can use up.
\<close>

definition MAXPRI :: int where "MAXPRI = 1200"

section \<open>Terms\<close>

definition argunum_term :: "nat \<Rightarrow> iterm \<Rightarrow> int \<Rightarrow> scanner \<Rightarrow> (iterm \<times> scanner) scan" where
  "argunum_term i t n st =
     sbind (of_exit (argunum_imagoterm i t n (sc_tab st))) (\<lambda>(t, tab). Inr (t, st\<lparr>sc_tab := tab\<rparr>))"

fun set_args :: "iterm \<Rightarrow> iterm list \<Rightarrow> iterm" where
  "set_args (T_FUNC s v n _) ts = T_FUNC s v n ts"
| "set_args t ts = t"

text \<open>The second operand is linked behind the first, which an empty pair of parentheses leaves NULL.\<close>

definition make_oimago_func :: "nat \<Rightarrow> iterm \<Rightarrow> iterm option list \<Rightarrow> scanner \<Rightarrow> (iterm \<times> scanner) scan" where
  "make_oimago_func i t exps st =
     (case t of
        T_FUNC s v n ts \<Rightarrow>
          (case exps of
             [Some a, Some b] \<Rightarrow> argunum_term i (set_args t [a, b]) 2 st
           | [None, b] \<Rightarrow> Inl (H_Exit C_Null)
           | [Some a] \<Rightarrow> argunum_term i (set_args t [a]) 1 st
           | _ \<Rightarrow> argunum_term i (set_args t []) (int (length exps)) st)
      | _ \<Rightarrow> Inl (H_Exit C_Fatal))"

definition cur_token :: "scanner \<Rightarrow> iterm scan" where
  "cur_token st = (case tokenpointer st of None \<Rightarrow> Inl (H_Exit C_Null) | Some t \<Rightarrow> Inr t)"

fun negate_real :: "iterm \<Rightarrow> iterm" where
  "negate_real (T_REAL r) = T_REAL (R_NEG r)"
| "negate_real t = t"

definition is_paren :: "char \<Rightarrow> scanner \<Rightarrow> bool" where
  "is_paren c st = (tokentype st = PAREN \<and> tokenchar st = c)"

text \<open>get_nfix is never called; it ends in fatalerror.\<close>

definition get_nfix :: "iterm \<Rightarrow> scanner \<Rightarrow> (iterm \<times> scanner) scan" where
  "get_nfix t st = Inl (H_Exit C_Fatal)"

section \<open>The reader\<close>

text \<open>The operator the loop of get_imagoterm goes on with: an infix one, else a postfix one.\<close>

definition loop_operator :: "scanner \<Rightarrow> (bool \<times> op_row) option" where
  "loop_operator st =
     (if tokentype st \<noteq> NAME then None
      else case is_operator_node (sc_tab st) (tok_node st) BINARY of
        Some row \<Rightarrow> Some (True, row)
      | None \<Rightarrow> map_option (Pair False) (is_operator_node (sc_tab st) (tok_node st) POSTFIX))"

function (sequential) get_imagoterm :: "nat \<Rightarrow> int \<Rightarrow> scanner \<Rightarrow> (iterm option \<times> scanner) scan"
  and op_loop :: "nat \<Rightarrow> int \<Rightarrow> int \<Rightarrow> iterm option \<Rightarrow> scanner \<Rightarrow> (iterm option \<times> scanner) scan"
  and get_args :: "nat \<Rightarrow> nat \<Rightarrow> iterm \<Rightarrow> scanner \<Rightarrow> (iterm \<times> scanner) scan"
  and arg_loop :: "nat \<Rightarrow> iterm list \<Rightarrow> scanner \<Rightarrow> (iterm list \<times> scanner) scan"
  and get_list_term :: "nat \<Rightarrow> scanner \<Rightarrow> (iterm \<times> scanner) scan"
where
  "get_imagoterm 0 n st = Inl H_Fuel"
| "get_imagoterm (Suc f) n st =
     (case tokentype st of
        NAME \<Rightarrow>
          sbind (cur_token st) (\<lambda>t. let i = tok_node st in
          sbind (imagoscan st) (\<lambda>st.
            case is_operator_node (sc_tab st) i PREFIX of
              Some row \<Rightarrow>
                if tokentype st = REAL \<and> term_val t = U_MINUSVAL then
                  sbind (cur_token st) (\<lambda>x. sbind (imagoscan st) (op_loop f n 0 (Some (negate_real x))))
                else if o_pri row \<le> n then
                  sbind (get_imagoterm f (o_right row) st) (\<lambda>(x, st).
                    case x of
                      None \<Rightarrow> sbind (argunum_term i t 0 st) (\<lambda>(t, st). Inr (Some t, st))
                    | Some x \<Rightarrow> sbind (make_oimago_func i t [Some x] st) (\<lambda>(t, st). op_loop f n 0 (Some t) st))
                else sbind (argunum_term i t 0 st) (\<lambda>(t, st). Inr (Some t, st))
            | None \<Rightarrow>
                sbind (if is_paren (CHR ''('') st then get_args f i t st
                       else if is_nfix_node i then get_nfix t st
                       else argunum_term i t 0 st) (\<lambda>(t, st). op_loop f n 0 (Some t) st)))
      | STRING \<Rightarrow> sbind (cur_token st) (\<lambda>t. sbind (imagoscan st) (op_loop f n 0 (Some t)))
      | VAR \<Rightarrow> sbind (cur_token st) (\<lambda>t. sbind (imagoscan st) (op_loop f n 0 (Some t)))
      | REAL \<Rightarrow> sbind (cur_token st) (\<lambda>t. sbind (imagoscan st) (op_loop f n 0 (Some t)))
      | PAREN \<Rightarrow>
          if tokenchar st = CHR ''('' then
            (let old_comma = comma_flg st in
             sbind (imagoscan (st\<lparr>comma_flg := False\<rparr>)) (\<lambda>st.
             sbind (get_imagoterm f MAXPRI st) (\<lambda>(x, st).
               let st = st\<lparr>comma_flg := old_comma\<rparr> in
               if is_paren (CHR '')'') st then sbind (imagoscan st) (op_loop f n 0 x)
               else Inl (error_syntax st))))
          else if tokenchar st = CHR ''['' then
            (let old_comma = comma_flg st; old_bar = bar_flg st in
             sbind (get_list_term f (st\<lparr>comma_flg := True, bar_flg := True\<rparr>)) (\<lambda>(t, st).
               let st = st\<lparr>comma_flg := old_comma, bar_flg := old_bar\<rparr> in
               if is_paren (CHR '']'') st then sbind (imagoscan st) (op_loop f n 0 (Some t))
               else Inl (error_syntax st)))
          else Inr (None, st)
      | _ \<Rightarrow> Inr (None, st))"
| "op_loop 0 n oldpri e st = Inl H_Fuel"
| "op_loop (Suc f) n oldpri e st =
     (case loop_operator st of
        None \<Rightarrow> Inr (e, st)
      | Some (binflg, row) \<Rightarrow>
          if n < o_pri row \<or> o_left row < oldpri then Inr (e, st)
          else
            sbind (cur_token st) (\<lambda>t. let i = tok_node st in
            sbind (imagoscan st) (\<lambda>st.
              if binflg then
                sbind (get_imagoterm f (o_right row) st) (\<lambda>(x, st).
                  case x of
                    None \<Rightarrow> Inl (error_syntax st)
                  | Some x \<Rightarrow> sbind (make_oimago_func i t [e, Some x] st) (\<lambda>(t, st). op_loop f n (o_pri row) (Some t) st))
              else sbind (make_oimago_func i t [e] st) (\<lambda>(t, st). op_loop f n (o_pri row) (Some t) st))))"
| "get_args 0 i t st = Inl H_Fuel"
| "get_args (Suc f) i t st =
     (let oldcomma = comma_flg st in
      sbind (imagoscan (st\<lparr>comma_flg := True\<rparr>)) (\<lambda>st.
      sbind (get_imagoterm f MAXPRI st) (\<lambda>(x, st).
        case x of
          None \<Rightarrow> Inl (error_syntax st)
        | Some x \<Rightarrow>
            sbind (arg_loop f [x] st) (\<lambda>(ts, st).
              if is_paren (CHR '')'') st then
                sbind (imagoscan (st\<lparr>comma_flg := oldcomma\<rparr>)) (\<lambda>st. argunum_term i (set_args t ts) (int (length ts)) st)
              else Inl (error_syntax st)))))"
| "arg_loop 0 ts st = Inl H_Fuel"
| "arg_loop (Suc f) ts st =
     (if is_punc (CHR '','') st then
        sbind (imagoscan st) (\<lambda>st.
        sbind (get_imagoterm f MAXPRI st) (\<lambda>(x, st).
          case x of None \<Rightarrow> Inl (error_syntax st) | Some x \<Rightarrow> arg_loop f (ts @ [x]) st))
      else Inr (ts, st))"
| "get_list_term 0 st = Inl H_Fuel"
| "get_list_term (Suc f) st =
     sbind (imagoscan st) (\<lambda>st.
     sbind (get_imagoterm f MAXPRI st) (\<lambda>(x, st).
       case x of
         None \<Rightarrow> Inl (error_syntax st)
       | Some t1 \<Rightarrow>
           sbind (if is_punc (CHR ''|'') st then
                    sbind (imagoscan st) (\<lambda>st.
                    sbind (get_imagoterm f MAXPRI st) (\<lambda>(x, st).
                      case x of None \<Rightarrow> Inl (error_syntax st) | Some t2 \<Rightarrow> Inr (t2, st)))
                  else if is_punc (CHR '','') st then get_list_term f st
                  else if is_paren (CHR '']'') st then Inr (create_pt_emptylist, st)
                  else Inl (error_syntax st)) (\<lambda>(t2, st).
             Inr (T_FUNC ''.'' DOTVAL 2 [t1, t2], st))))"

  by pat_completeness auto

termination
  by (relation "measure (\<lambda>x. case x of
        Inl (Inl (f, _)) \<Rightarrow> f | Inl (Inr (f, _)) \<Rightarrow> f | Inr (Inl (f, _)) \<Rightarrow> f
      | Inr (Inr (Inl (f, _))) \<Rightarrow> f | Inr (Inr (Inr (f, _))) \<Rightarrow> f)") auto

text \<open>Fuel for what is left to read; the current token counts like a character.\<close>

definition fuel_for :: "scanner \<Rightarrow> nat" where "fuel_for st = 8 * state_left st + 9"

text \<open>The value None stands for the end of the file and for a syntax error.\<close>

definition getimagoterm :: "scanner \<Rightarrow> (iterm option \<times> scanner) scan" where
  "getimagoterm st =
     (let st = st\<lparr>comma_flg := False, bar_flg := False, sc_tab := zero_vars (sc_tab st)\<rparr> in
      case sbind (imagoscan st) (\<lambda>st.
             if tokentype st = ENDFILE then Inr (None, st)
             else sbind (get_imagoterm (fuel_for st) MAXPRI st) (\<lambda>(t, st).
               if is_punc (CHR ''.'') st \<and> t \<noteq> None then Inr (t, st) else Inl (error_syntax st)))
      of Inl (H_Syntax st) \<Rightarrow> Inr (None, st) | r \<Rightarrow> r)"

end
