(* ===== verification/MLVM_Clauses.thy ===== *)
theory MLVM_Clauses
  imports MLVM_Parser
begin

text \<open>
  The clause table of the compiler and the reading of a source file,
  imagoc/parser.c: a clause is stored under the value of its head's functor, in a
  chained table of procedures whose clauses are a linked list; readsourcefile
  checks and stores clause after clause.  init_name fills the symbol table.  The
  nodes that calloc and emalloc deliver are indices into the lists of all of them.
\<close>

section \<open>Procedures and their clauses\<close>

record clause =
  cl_t :: iterm
  cl_wt :: iterm
  cl_next :: "nat option"
  cl_id :: int
  cl_endcode :: int

record clause_node =
  hc_name :: int
  hc_n_clauses :: int
  hc_first :: "nat option"
  hc_last :: "nat option"
  hc_flags :: word32

record clause_table =
  hash_imago_table :: "nat \<Rightarrow> nat list"
  ct_nodes :: "clause_node list"
  ct_clauses :: "clause list"
  last_name :: int
  last_imago_node :: "nat option"

definition HASH_TAB_NUM :: int where "HASH_TAB_NUM = 3073"
definition H_COMPILED :: word32 where "H_COMPILED = 0x1"
definition H_PROTECTED :: word32 where "H_PROTECTED = 0x4"
definition H_CUT :: word32 where "H_CUT = 0x10"
definition H_ADDED :: word32 where "H_ADDED = 0x20"

abbreviation proc_of :: "clause_table \<Rightarrow> nat \<Rightarrow> clause_node" where
  "proc_of ct i \<equiv> ct_nodes ct ! i"

definition upd_proc :: "nat \<Rightarrow> (clause_node \<Rightarrow> clause_node) \<Rightarrow> clause_table \<Rightarrow> clause_table" where
  "upd_proc i f ct = ct\<lparr>ct_nodes := (ct_nodes ct)[i := f (proc_of ct i)]\<rparr>"

text \<open>C's remainder; an index below 0 is out of the table.\<close>

definition hash_p :: "int \<Rightarrow> int" where
  "hash_p name = (if name < 0 then - ((- name) mod HASH_TAB_NUM) else name mod HASH_TAB_NUM) + 1"

definition empty_clause_table :: clause_table where
  "empty_clause_table = \<lparr>hash_imago_table = \<lambda>_. [], ct_nodes = [], ct_clauses = [],
     last_name = -1, last_imago_node = None\<rparr>"

definition init_hash_imago_table :: "clause_table \<Rightarrow> clause_table" where
  "init_hash_imago_table ct = ct\<lparr>hash_imago_table := \<lambda>_. []\<rparr>"

text \<open>The last node found is remembered, here and below.\<close>

definition find_proc :: "clause_table \<Rightarrow> int \<Rightarrow> nat option" where
  "find_proc ct name = find (\<lambda>i. hc_name (proc_of ct i) = name) (hash_imago_table ct (nat (hash_p name)))"

definition find_hash_clause_node :: "int \<Rightarrow> clause_table \<Rightarrow> cexit + nat option \<times> clause_table" where
  "find_hash_clause_node name ct =
     (if name = last_name ct then Inr (last_imago_node ct, ct)
      else if hash_p name < 0 then Inl C_Bounds
      else case find_proc ct name of
        Some i \<Rightarrow> Inr (Some i, ct\<lparr>last_name := name, last_imago_node := Some i\<rparr>)
      | None \<Rightarrow> Inr (None, ct))"

definition malloc_null_HASH_CLAUSE_NODE :: clause_node where
  "malloc_null_HASH_CLAUSE_NODE = \<lparr>hc_name = 0, hc_n_clauses = 0, hc_first = None, hc_last = None, hc_flags = 0\<rparr>"

definition create_hash_clause_node :: "int \<Rightarrow> clause_table \<Rightarrow> cexit + nat option \<times> clause_table" where
  "create_hash_clause_node name ct =
     (if name = last_name ct then Inr (last_imago_node ct, ct)
      else if hash_p name < 0 then Inl C_Bounds
      else case find_proc ct name of
        Some i \<Rightarrow> Inr (Some i, ct\<lparr>last_name := name, last_imago_node := Some i\<rparr>)
      | None \<Rightarrow>
          (let i = length (ct_nodes ct); h = nat (hash_p name) in
           Inr (Some i, ct\<lparr>ct_nodes := ct_nodes ct @ [malloc_null_HASH_CLAUSE_NODE\<lparr>hc_name := name\<rparr>],
                          hash_imago_table := (hash_imago_table ct)(h := i # hash_imago_table ct h)\<rparr>)))"

definition assign_proc :: "(clause_node \<Rightarrow> clause_node) \<Rightarrow> int \<Rightarrow> clause_table \<Rightarrow> cexit + clause_table" where
  "assign_proc f name ct =
     sbind (create_hash_clause_node name ct) (\<lambda>(p, ct).
       case p of None \<Rightarrow> Inl C_Null | Some i \<Rightarrow> Inr (upd_proc i f ct))"

definition assign_imago_first_clause :: "int \<Rightarrow> nat \<Rightarrow> clause_table \<Rightarrow> cexit + clause_table" where
  "assign_imago_first_clause name r = assign_proc (hc_first_update (\<lambda>_. Some r)) name"

definition assign_imago_last_clause :: "int \<Rightarrow> nat \<Rightarrow> clause_table \<Rightarrow> cexit + clause_table" where
  "assign_imago_last_clause name r = assign_proc (hc_last_update (\<lambda>_. Some r)) name"

definition assign_imago_n_clauses :: "int \<Rightarrow> int \<Rightarrow> clause_table \<Rightarrow> cexit + clause_table" where
  "assign_imago_n_clauses name n = assign_proc (hc_n_clauses_update (\<lambda>_. n)) name"

definition assign_flag :: "word32 \<Rightarrow> int \<Rightarrow> bool \<Rightarrow> clause_table \<Rightarrow> cexit + clause_table" where
  "assign_flag b name flag = assign_proc (hc_flags_update (\<lambda>x. if flag then x OR b else x AND NOT b)) name"

definition assign_imago_protected :: "int \<Rightarrow> bool \<Rightarrow> clause_table \<Rightarrow> cexit + clause_table" where
  "assign_imago_protected = assign_flag H_PROTECTED"

definition assign_imago_cut :: "int \<Rightarrow> bool \<Rightarrow> clause_table \<Rightarrow> cexit + clause_table" where
  "assign_imago_cut = assign_flag H_CUT"

definition assign_imago_added :: "int \<Rightarrow> bool \<Rightarrow> clause_table \<Rightarrow> cexit + clause_table" where
  "assign_imago_added = assign_flag H_ADDED"

definition query_proc :: "(clause_node \<Rightarrow> 'a) \<Rightarrow> 'a \<Rightarrow> int \<Rightarrow> clause_table \<Rightarrow> cexit + 'a \<times> clause_table" where
  "query_proc f d name ct =
     sbind (find_hash_clause_node name ct) (\<lambda>(p, ct).
       Inr (case p of None \<Rightarrow> d | Some i \<Rightarrow> f (proc_of ct i), ct))"

definition imago_first_clause :: "int \<Rightarrow> clause_table \<Rightarrow> cexit + nat option \<times> clause_table" where
  "imago_first_clause = query_proc hc_first None"

definition imago_last_clause :: "int \<Rightarrow> clause_table \<Rightarrow> cexit + nat option \<times> clause_table" where
  "imago_last_clause = query_proc hc_last None"

definition imago_n_clauses :: "int \<Rightarrow> clause_table \<Rightarrow> cexit + int \<times> clause_table" where
  "imago_n_clauses = query_proc hc_n_clauses 0"

definition imago_compiled :: "int \<Rightarrow> clause_table \<Rightarrow> cexit + bool \<times> clause_table" where
  "imago_compiled = query_proc (\<lambda>h. hc_flags h AND H_COMPILED \<noteq> 0) False"

section \<open>Storing a clause\<close>

text \<open>The value of the head; a rule has two arguments, whatever the functor with RULEIFVAL is.\<close>

fun head_val :: "iterm \<Rightarrow> cexit + int" where
  "head_val (T_FUNC s v n ts) =
     (if v = RULEIFVAL then (case ts of [] \<Rightarrow> Inl C_Null | h # _ \<Rightarrow> Inr (term_val h)) else Inr v)"
| "head_val t = Inr (term_val t)"

definition create_clause :: "iterm \<Rightarrow> iterm \<Rightarrow> clause" where
  "create_clause t wt = \<lparr>cl_t = t, cl_wt = wt, cl_next = None, cl_id = 0, cl_endcode = -1\<rparr>"

definition store_clause :: "iterm \<Rightarrow> iterm \<Rightarrow> clause_table \<Rightarrow> cexit + clause_table" where
  "store_clause to t ct =
     sbind (head_val t) (\<lambda>val. let r = length (ct_clauses ct); c = create_clause to t in
     sbind (imago_first_clause val ct) (\<lambda>(first, ct).
       case first of
         None \<Rightarrow>
           sbind (assign_imago_first_clause val r ct) (\<lambda>ct.
           sbind (assign_imago_last_clause val r ct) (\<lambda>ct.
           sbind (assign_imago_n_clauses val 1 ct) (\<lambda>ct.
             Inr (ct\<lparr>ct_clauses := ct_clauses ct @ [c\<lparr>cl_id := 1\<rparr>]\<rparr>))))
       | Some _ \<Rightarrow>
           sbind (imago_last_clause val ct) (\<lambda>(last, ct).
             case last of
               None \<Rightarrow> Inl C_Null
             | Some tr \<Rightarrow>
                 (let cs = ct_clauses ct; k = cl_id (cs ! tr) in
                  sbind (imago_n_clauses val ct) (\<lambda>(n, ct).
                  sbind (assign_imago_n_clauses val (n + 1) ct) (\<lambda>ct.
                  sbind (assign_imago_last_clause val r ct) (\<lambda>ct.
                    Inr (ct\<lparr>ct_clauses := cs[tr := (cs ! tr)\<lparr>cl_next := Some r\<rparr>]
                                         @ [c\<lparr>cl_id := (if k = -1 then 1 else k + 1)\<rparr>]\<rparr>))))))))"

section \<open>Checking a clause\<close>

fun check_quote :: "iterm \<Rightarrow> bool" where
  "check_quote (T_FUNC s v n ts) = (n \<noteq> 0 \<and> (v = QUOTEVAL \<or> list_ex check_quote ts))"
| "check_quote t = False"

text \<open>Whether a goal can stand there, and the two flags found_cut and found_quote.\<close>

fun check_pred :: "iterm \<Rightarrow> bool \<Rightarrow> bool \<Rightarrow> bool \<times> bool \<times> bool" where
  "check_pred (T_FUNC s v n ts) fcut fquote =
     (if v = CUTVAL \<and> \<not> fcut then (True, True, fquote)
      else (True, fcut, if fquote then fquote else check_quote (T_FUNC s v n ts)))"
| "check_pred t fcut fquote = (False, fcut, fquote)"

fun check_body :: "iterm \<Rightarrow> bool \<Rightarrow> bool \<Rightarrow> cexit + bool \<times> bool \<times> bool" where
  "check_body (T_FUNC s v n ts) fcut fquote =
     (if v = COMMAVAL then
        (case ts of
           [] \<Rightarrow> Inl C_Null
         | a # us \<Rightarrow>
             (let (ok, fcut, fquote) = check_pred a fcut fquote in
              if \<not> ok then Inr (False, fcut, fquote)
              else case us of [] \<Rightarrow> Inl C_Null | b # _ \<Rightarrow> check_body b fcut fquote))
      else Inr (check_pred (T_FUNC s v n ts) fcut fquote))"
| "check_body t fcut fquote = Inr (check_pred t fcut fquote)"

text \<open>A cut in the place of the head sets a variable of check_clause that nothing reads again.\<close>

fun check_clause :: "iterm \<Rightarrow> cexit + bool \<times> bool \<times> bool" where
  "check_clause (T_FUNC s v n ts) =
     (if v = RULEIFVAL then
        (case ts of
           h # b # _ \<Rightarrow>
             (let (ok, dummy, fquote) = check_pred h False False in
              if \<not> ok then Inr (False, False, fquote) else check_body b False fquote)
         | _ \<Rightarrow> Inl C_Null)
      else Inr (check_pred (T_FUNC s v n ts) False False))"
| "check_clause t = Inr (check_pred t False False)"

text \<open>quote(T) is replaced by T; inside it, a quote stays.\<close>

fun quote_expand :: "bool \<Rightarrow> iterm \<Rightarrow> cexit + iterm"
  and quote_expand_args :: "bool \<Rightarrow> iterm list \<Rightarrow> cexit + iterm list" where
  "quote_expand inq (T_FUNC s v n ts) =
     (if v = QUOTEVAL \<and> \<not> inq then (case ts of [] \<Rightarrow> Inl C_Null | a # _ \<Rightarrow> quote_expand True a)
      else if n = 0 then Inr (T_FUNC s v n ts)
      else sbind (quote_expand_args inq ts) (\<lambda>ts. Inr (T_FUNC s v n ts)))"
| "quote_expand inq t = Inr t"
| "quote_expand_args inq [] = Inr []"
| "quote_expand_args inq (t # ts) =
     sbind (quote_expand inq t) (\<lambda>t. sbind (quote_expand_args inq ts) (\<lambda>ts. Inr (t # ts)))"

section \<open>Reading a source file\<close>

record compiler =
  cp_scan :: scanner
  cp_ct :: clause_table

text \<open>The body of the loop for a term that was read: False if the loop breaks.\<close>

definition add_clause :: "iterm \<Rightarrow> clause_table \<Rightarrow> cexit + bool \<times> clause_table" where
  "add_clause tt ct =
     sbind (check_clause tt) (\<lambda>(ok, fcut, fquote).
       if \<not> ok then Inr (False, ct)
       else
         sbind (if fquote then quote_expand False tt else Inr tt) (\<lambda>ttex.
         sbind (head_val tt) (\<lambda>v.
         sbind (if fcut then assign_imago_cut v True ct else Inr ct) (\<lambda>ct.
         sbind (store_clause tt ttex ct) (\<lambda>ct.
         sbind (assign_imago_added (term_val tt) True ct) (\<lambda>ct. Inr (True, ct)))))))"

primrec read_clauses :: "nat \<Rightarrow> compiler \<Rightarrow> compiler scan" where
  "read_clauses 0 cp = Inl H_Fuel"
| "read_clauses (Suc f) cp =
     sbind (getimagoterm (cp_scan cp)) (\<lambda>(tt, st).
       case tt of
         None \<Rightarrow> Inr (cp\<lparr>cp_scan := st\<rparr>)
       | Some t \<Rightarrow>
           sbind (of_exit (add_clause t (cp_ct cp))) (\<lambda>(ok, ct).
             let cp = \<lparr>cp_scan = st, cp_ct = ct\<rparr> in
             if ok then read_clauses f cp else Inr cp))"

text \<open>Every term that is read takes a character at least.\<close>

definition readsourcefile :: "compiler \<Rightarrow> compiler scan" where
  "readsourcefile cp = read_clauses (state_left (cp_scan cp) + 2) cp"

text \<open>mlvminternal_consult up to compile_mlvm: a blank is pushed back before the file is read.\<close>

definition consult_file :: "string \<Rightarrow> compiler \<Rightarrow> compiler scan" where
  "consult_file text cp = readsourcefile (cp\<lparr>cp_scan := (cp_scan cp)\<lparr>sc_ch := CHR '' '', sc_rest := text\<rparr>\<rparr>)"

section \<open>The initial tables\<close>

definition builtin_operator :: "(string \<times> int \<times> int) list" where
  "builtin_operator =
    [(''.'', 2, 2), (''|'', 2, 4), ('','', 2, 3), ('':-'', 2, 4), (''[]'', 0, 5), ('':-'', 1, 7),
     ('';'', 2, 6), (''+'', 2, 20), (''-'', 1, 21), (''-'', 2, 22), (''*'', 2, 23), (''mod'', 2, 25),
     (''/'', 2, 24), (''sin'', 1, 26), (''cos'', 1, 27), (''abs'', 1, 28), (''min'', 2, 29),
     (''max'', 2, 30), (''eval'', 1, 32), (''quote'', 1, 33), (''arcsin'', 1, 34), (''arccos'', 1, 35),
     (''=:='', 2, 40), (''=/='', 2, 45), (''<'', 2, 41), (''>'', 2, 42), (''<='', 2, 43),
     (''>='', 2, 44), (''=='', 2, 71), (''='', 2, 72), (''/='', 2, 73), (''/=='', 2, 66),
     (''@<'', 2, 67), (''@=<'', 2, 68), (''@>'', 2, 69), (''@>='', 2, 70), (''clause'', 2, 103),
     (''fail'', 0, 111), (''!'', 0, 113), (''true'', 0, 115)]"

definition operators :: "(string \<times> string \<times> int) list" where
  "operators =
    [(''is'', ''xfx'', 40), (''.'', ''xfy'', 51), ('','', ''xfy'', 252), ('':-'', ''xfx'', 255),
     (''-'', ''fy'', 21), ('':-'', ''fx'', 255), (''-'', ''yfx'', 31), (''='', ''xfx'', 40),
     (''->'', ''xfy'', 254), ('';'', ''xfy'', 253), ([CHR 0x27], ''fx'', 50), (''+'', ''yfx'', 31),
     (''/'', ''yfx'', 21), (''*'', ''yfx'', 21), (''>'', ''xfx'', 37), (''>='', ''xfx'', 37),
     (''<'', ''xfx'', 37), (''<='', ''xfx'', 37), (''=='', ''xfx'', 37), (''mod'', ''yfx'', 21),
     (''=/='', ''yfx'', 37), (''=:='', ''xfx'', 37), (''/='', ''xfx'', 40), (''/==.'', ''xfx'', 40),
     (''@<'', ''xfx'', 40), (''@=<'', ''xfx'', 40), (''@>'', ''xfx'', 40), (''@>='', ''xfx'', 40)]"

text \<open>The names and arities of btin_tab, builtins/builtins.c.\<close>

definition btin_names :: "(string \<times> int) list" where
  "btin_names =
    [(''var'', 1), (''nonvar'', 1), (''atom'', 1), (''integer'', 1), (''float'', 1), (''atomic'', 1),
     (''compound'', 1), (''ground'', 1), (''number'', 1), (''abs'', 2), (''ceiling'', 2),
     (''floor'', 2), (''sqrt'', 2), (''log'', 2), (''minus'', 2), (''pow'', 2), (''round'', 2),
     (''sin'', 2), (''arcsin'', 2), (''cos'', 2), (''arccos'', 2), (''tan'', 2), (''arctan'', 2),
     (''rand'', 1), (''srand'', 2), (''functor'', 3), (''arg'', 3), (''length'', 2), (''univ'', 2),
     (''atom_length'', 2), (''atom_concat'', 3), (''sub_atom'', 4), (''atom_chars'', 2),
     (''char_code'', 2), (''number_chars'', 2), (''integer_float'', 2), (''current_input'', 1),
     (''current_output'', 1), (''set_input'', 1), (''set_output'', 1), (''open'', 4), (''open'', 3),
     (''close'', 2), (''close'', 1), (''flush_output'', 1), (''flush_output'', 0), (''nl'', 0),
     (''set_stream_position'', 2), (''get_char'', 1), (''get_char'', 2), (''get_code'', 1),
     (''get_code'', 2), (''peek_char'', 1), (''peek_char'', 2), (''peek_code'', 1), (''peek_code'', 2),
     (''put_char'', 1), (''put_char'', 2), (''put_code'', 1), (''put_code'', 2), (''get_byte'', 1),
     (''get_byte'', 2), (''peek_byte'', 1), (''peek_byte'', 2), (''put_byte'', 1), (''put_byte'', 2),
     (''write'', 1), (''write'', 2), (''spy'', 0), (''nospy'', 0), (''spy'', 2), (''nospy'', 2),
     (''trace'', 0), (''notrace'', 0), (''debugging'', 0), (''ctime'', 1), (''sleep'', 1),
     (''stats'', 1), (''accept'', 2), (''attach'', 3), (''clone'', 2), (''create'', 3),
     (''current_host'', 1), (''database_search'', 3), (''dispatch'', 3), (''dispose'', 0),
     (''move'', 1), (''reset_sender'', 1), (''sender'', 1), (''stationary_host'', 1),
     (''terminate'', 0), (''wait_accept'', 2), (''web_search'', 3), (''workers'', 3), (''syscall'', 3)]"

definition IMAGO_LIB_START :: int where "IMAGO_LIB_START = 120"

definition addbuiltin :: "string \<Rightarrow> int \<Rightarrow> int \<Rightarrow> symtab \<times> clause_table \<Rightarrow> cexit + symtab \<times> clause_table" where
  "addbuiltin s n val x =
     (let (st, ct) = x in
      sbind (addhashnametab s n val st) (\<lambda>st.
      sbind (hashbuiltina s n st) (\<lambda>(i, st).
        if i \<noteq> val then Inl C_Fatal
        else sbind (assign_imago_protected i True ct) (\<lambda>ct.
          if 0 \<le> i \<and> i < UNSER_DEF_PREDICATE then Inr (st, ct) else Inl C_Bounds))))"

fun sfold :: "('a \<Rightarrow> 'b \<Rightarrow> 'e + 'b) \<Rightarrow> 'a list \<Rightarrow> 'b \<Rightarrow> 'e + 'b" where
  "sfold f [] y = Inr y"
| "sfold f (x # xs) y = sbind (f x y) (sfold f xs)"

text \<open>The tables, the node of the empty list, and its term null_list.\<close>

definition init_name :: "symtab \<times> clause_table \<Rightarrow> cexit + (nat \<times> iterm) \<times> symtab \<times> clause_table" where
  "init_name x =
     (let (st, ct) = x in
      sbind (sfold (\<lambda>(s, n, v). addhashnametab s n v) builtin_operator st) (\<lambda>st.
      sbind (lookuphashtab ''[]'' (stringsum ''[]'') st) (\<lambda>((null_list, i), st).
      sbind (func_argunum_imagoterm null_list 0 st) (\<lambda>(null_list, st).
      sbind (lookuphashtab ''.'' (stringsum ''.'') st) (\<lambda>(_, st).
      sbind (sfold (\<lambda>(s, style, pri) st. sbind (operator_add s style pri st) (\<lambda>(_, st). Inr st)) operators st) (\<lambda>st.
      sbind (sfold (\<lambda>(s, n) (v, y). sbind (addbuiltin s n v y) (\<lambda>y. Inr (v + 1, y))) btin_names (IMAGO_LIB_START, st, ct)) (\<lambda>(lib_val, y).
        if UNSER_DEF_PREDICATE \<le> lib_val then Inl C_Fatal else Inr ((i, null_list), y))))))))"

definition init_all :: "cexit + compiler" where
  "init_all =
     sbind (init_name (empty_symtab, empty_clause_table)) (\<lambda>((i, null_list), st, ct).
     sbind (hashbuiltina ''real'' 1 st) (\<lambda>(real_val, st).
       Inr \<lparr>cp_scan = \<lparr>sc_ch = EOFC, sc_rest = [], tokentype = NO_TOKEN, tokenchar = EOFC, tokenpointer = None,
                       tok_node = 0, hnode_emptylist = i, comma_flg = False, bar_flg = False, sc_tab = st\<rparr>,
            cp_ct = init_hash_imago_table ct\<rparr>))"

end
