(* ===== verification/MLVM_Symtab_Correct.thy ===== *)
theory MLVM_Symtab_Correct
  imports MLVM_Clauses
begin

text \<open>
  The hash tables of the compiler are maps from names to nodes, and a functor of an
  arity keeps the value it was given.  The two tables satisfy one interface, symbols;
  what the reader does to the tables is covered by the interface table_invariant.
\<close>

section \<open>The interface of a table of names\<close>

locale symbols =
  fixes ins :: "string \<Rightarrow> 't \<Rightarrow> 'e + nat \<times> 't"
    and look :: "'t \<Rightarrow> string \<Rightarrow> nat option"
    and ok :: "'t \<Rightarrow> bool"
  assumes ins_old: "ok t \<Longrightarrow> look t s = Some i \<Longrightarrow> ins s t = Inr (i, t)"
    and ins_new: "ok t \<Longrightarrow> look t s = None \<Longrightarrow> ins s t = Inr (i, t') \<Longrightarrow>
      ok t' \<and> look t' = (look t)(s \<mapsto> i) \<and> i \<notin> ran (look t)"
begin

lemma ins_look:
  assumes "ok t" "ins s t = Inr (i, t')"
  shows "ok t' \<and> look t' = (look t)(s \<mapsto> i)"
proof (cases "look t s")
  case (Some j)
  hence "i = j" "t' = t" using ins_old [OF assms(1) Some] assms(2) by auto
  thus ?thesis using Some assms(1) by (simp add: fun_upd_idem)
qed (use ins_new assms in blast)

lemma ins_again:
  assumes "ok t" "ins s t = Inr (i, t')"
  shows "ins s t' = Inr (i, t')"
  using ins_look [OF assms] ins_old [of t' s i] by simp

lemma ins_inj:
  assumes "ok t" "ins s t = Inr (i, t')" "inj_on (look t) (dom (look t))"
  shows "inj_on (look t') (dom (look t'))"
proof (cases "look t s")
  case None
  with ins_new [OF assms(1) None assms(2)] assms(3) show ?thesis
    by (auto simp: inj_on_def ran_def dom_def)
next
  case (Some j)
  thus ?thesis using ins_old [OF assms(1) Some] assms(2,3) by auto
qed

end

section \<open>The two tables\<close>

definition bucket :: "string \<Rightarrow> nat" where "bucket s = unat (hash s HASH_FUNC_NUM)"

definition name_node :: "symtab \<Rightarrow> string \<Rightarrow> nat option" where
  "name_node st s = find_node st (hash_name_tab st (bucket s)) s (stringsum s)"

definition var_node :: "symtab \<Rightarrow> string \<Rightarrow> nat option" where
  "var_node st s = find_node st (hash_var_tab st (bucket s)) s (stringsum s)"

text \<open>The chains lie in the array of nodes, and those of the buckets that do not exist are empty.\<close>

definition chains_ok :: "symtab \<Rightarrow> bool" where
  "chains_ok st \<longleftrightarrow> length (hash_space st) \<le> INIT_HASH_SPACE
     \<and> (\<forall>h. \<forall>i\<in>set (hash_name_tab st h) \<union> set (hash_var_tab st h). i < length (hash_space st))
     \<and> (\<forall>h\<ge>unat HASH_FUNC_NUM. hash_name_tab st h = [] \<and> hash_var_tab st h = [])"

text \<open>The new node a table gets for a name.\<close>

definition fresh_node :: "symtab \<Rightarrow> string \<Rightarrow> hash_node" where
  "fresh_node st s = blank_node\<lparr>hn_quick := stringsum s, hn_s := s, hn_val := cur_func_id st\<rparr>"

definition fresh_var :: "symtab \<Rightarrow> string \<Rightarrow> hash_node" where
  "fresh_var st s = blank_node\<lparr>hn_quick := stringsum s, hn_s := s, hn_val := var_hash_id st, hn_special := -1\<rparr>"

definition add_name :: "string \<Rightarrow> symtab \<Rightarrow> symtab" where
  "add_name s st = st\<lparr>hash_space := hash_space st @ [fresh_node st s], cur_func_id := cur_func_id st + 1,
     hash_name_tab := (hash_name_tab st)(bucket s := length (hash_space st) # hash_name_tab st (bucket s))\<rparr>"

definition add_var :: "string \<Rightarrow> symtab \<Rightarrow> symtab" where
  "add_var s st = st\<lparr>hash_space := hash_space st @ [fresh_var st s], var_hash_id := var_hash_id st + 1,
     hash_var_tab := (hash_var_tab st)(bucket s := length (hash_space st) # hash_var_tab st (bucket s))\<rparr>"

definition hash_ok :: "string \<Rightarrow> bool" where "hash_ok s = (bucket s < unat HASH_FUNC_NUM)"

text \<open>The two insertions, case by case.\<close>

lemma insert_name_eq:
  "insert_name s (stringsum s) st =
     (if \<not> hash_ok s then Inl C_Bounds
      else case name_node st s of
        Some i \<Rightarrow> Inr (i, st)
      | None \<Rightarrow> if length (hash_space st) < INIT_HASH_SPACE then Inr (length (hash_space st), add_name s st)
                else Inl C_Fatal)"
  by (auto simp: insert_name_def Let_def bucket_def [symmetric] hash_ok_def name_node_def create_hashtabnode_def
      add_name_def fresh_node_def upd_node_def nth_append split: option.split)

lemma HASH_VAR_FUNC: "HASH_VAR_NUM = HASH_FUNC_NUM" by (simp add: HASH_VAR_NUM_def HASH_FUNC_NUM_def)

lemma insert_var_eq:
  "insert_var s (stringsum s) st =
     (if \<not> hash_ok s then Inl C_Bounds
      else case var_node st s of
        Some i \<Rightarrow> Inr (i, st)
      | None \<Rightarrow> if length (hash_space st) < INIT_HASH_SPACE then Inr (length (hash_space st), add_var s st)
                else Inl C_Fatal)"
  by (auto simp: insert_var_def Let_def HASH_VAR_FUNC bucket_def [symmetric] hash_ok_def var_node_def create_hashtabnode_def
      add_var_def fresh_var_def upd_node_def nth_append split: option.split)

lemma find_append:
  assumes "\<forall>i\<in>set chain. i < length (hash_space st)" "hash_space st' = hash_space st @ ns"
  shows "find_node st' chain s q = find_node st chain s q"
proof -
  have "find P chain = find Q chain" if "\<forall>i\<in>set chain. P i = Q i" for P Q :: "nat \<Rightarrow> bool"
    using that by (induction chain) auto
  thus ?thesis unfolding find_node_def by this (use assms in \<open>auto simp: nth_append\<close>)
qed

lemma find_node_Some:
  assumes "find_node st chain s q = Some i"
  shows "i \<in> set chain \<and> hn_s (node_of st i) = s \<and> hn_quick (node_of st i) = q"
  using assms unfolding find_node_def by (auto simp: find_Some_iff)

lemma chains_bound:
  assumes "chains_ok st"
  shows "\<forall>i\<in>set (hash_name_tab st h). i < length (hash_space st)" "\<forall>i\<in>set (hash_var_tab st h). i < length (hash_space st)"
  using assms by (auto simp: chains_ok_def)

lemma add_name_ok: "chains_ok st \<Longrightarrow> hash_ok s \<Longrightarrow> length (hash_space st) < INIT_HASH_SPACE \<Longrightarrow> chains_ok (add_name s st)"
  by (force simp: chains_ok_def add_name_def hash_ok_def less_Suc_eq)

lemma add_var_ok: "chains_ok st \<Longrightarrow> hash_ok s \<Longrightarrow> length (hash_space st) < INIT_HASH_SPACE \<Longrightarrow> chains_ok (add_var s st)"
  by (force simp: chains_ok_def add_var_def hash_ok_def less_Suc_eq)

lemma add_name_space: "hash_space (add_name s st) = hash_space st @ [fresh_node st s]" by (simp add: add_name_def)

lemma add_var_space: "hash_space (add_var s st) = hash_space st @ [fresh_var st s]" by (simp add: add_var_def)

lemma find_node_Cons:
  "find_node st (i # chain) s q =
     (if hn_quick (node_of st i) = q \<and> hn_s (node_of st i) = s then Some i else find_node st chain s q)"
  by (simp add: find_node_def)

lemma name_node_add_name:
  assumes "chains_ok st"
  shows "name_node (add_name s st) = (name_node st)(s \<mapsto> length (hash_space st))"
proof
  fix x
  have f: "find_node (add_name s st) (hash_name_tab st h) x q = find_node st (hash_name_tab st h) x q" for h x q
    by (rule find_append [OF chains_bound(1) [OF assms] add_name_space])
  have n: "node_of (add_name s st) (length (hash_space st)) = fresh_node st s" by (simp add: add_name_space)
  show "name_node (add_name s st) x = ((name_node st)(s \<mapsto> length (hash_space st))) x"
    using f n by (auto simp: name_node_def add_name_def [THEN arg_cong [of _ _ hash_name_tab]] find_node_Cons fresh_node_def)
qed

lemma var_node_add_var:
  assumes "chains_ok st"
  shows "var_node (add_var s st) = (var_node st)(s \<mapsto> length (hash_space st))"
proof
  fix x
  have f: "find_node (add_var s st) (hash_var_tab st h) x q = find_node st (hash_var_tab st h) x q" for h x q
    by (rule find_append [OF chains_bound(2) [OF assms] add_var_space])
  have n: "node_of (add_var s st) (length (hash_space st)) = fresh_var st s" by (simp add: add_var_space)
  show "var_node (add_var s st) x = ((var_node st)(s \<mapsto> length (hash_space st))) x"
    using f n by (auto simp: var_node_def add_var_def [THEN arg_cong [of _ _ hash_var_tab]] find_node_Cons fresh_var_def)
qed

text \<open>The other table does not see the insertion.\<close>

lemma var_node_add_name [simp]: "chains_ok st \<Longrightarrow> var_node (add_name s st) = var_node st"
  using find_append [OF chains_bound(2) add_name_space, of st] by (auto simp: var_node_def add_name_def)

lemma name_node_add_var [simp]: "chains_ok st \<Longrightarrow> name_node (add_var s st) = name_node st"
  using find_append [OF chains_bound(1) add_var_space, of st] by (auto simp: name_node_def add_var_def)

lemma name_node_bound:
  assumes "chains_ok st" "name_node st s = Some i"
  shows "i < length (hash_space st) \<and> hn_s (node_of st i) = s \<and> hash_ok s"
  using find_node_Some [OF assms(2) [unfolded name_node_def]] assms(1)
  by (fastforce simp: chains_ok_def hash_ok_def)

lemma var_node_bound:
  assumes "chains_ok st" "var_node st s = Some i"
  shows "i < length (hash_space st) \<and> hn_s (node_of st i) = s \<and> hash_ok s"
  using find_node_Some [OF assms(2) [unfolded var_node_def]] assms(1)
  by (fastforce simp: chains_ok_def hash_ok_def)

interpretation names: symbols "\<lambda>s. insert_name s (stringsum s)" name_node chains_ok
proof
  fix t s i
  assume "chains_ok t" "name_node t s = Some i"
  thus "insert_name s (stringsum s) t = Inr (i, t)" by (simp add: insert_name_eq name_node_bound)
next
  fix t s i t'
  assume a: "chains_ok t" "name_node t s = None" "insert_name s (stringsum s) t = Inr (i, t')"
  hence h: "hash_ok s" "length (hash_space t) < INIT_HASH_SPACE" "i = length (hash_space t)" "t' = add_name s t"
    by (auto simp: insert_name_eq split: if_splits)
  have "i \<notin> ran (name_node t)" using name_node_bound [OF a(1)] h(3) by (fastforce simp: ran_def)
  thus "chains_ok t' \<and> name_node t' = (name_node t)(s \<mapsto> i) \<and> i \<notin> ran (name_node t)"
    using add_name_ok [OF a(1) h(1,2)] name_node_add_name [OF a(1)] h by simp
qed

interpretation vars: symbols "\<lambda>s. insert_var s (stringsum s)" var_node chains_ok
proof
  fix t s i
  assume "chains_ok t" "var_node t s = Some i"
  thus "insert_var s (stringsum s) t = Inr (i, t)" by (simp add: insert_var_eq var_node_bound)
next
  fix t s i t'
  assume a: "chains_ok t" "var_node t s = None" "insert_var s (stringsum s) t = Inr (i, t')"
  hence h: "hash_ok s" "length (hash_space t) < INIT_HASH_SPACE" "i = length (hash_space t)" "t' = add_var s t"
    by (auto simp: insert_var_eq split: if_splits)
  have "i \<notin> ran (var_node t)" using var_node_bound [OF a(1)] h(3) by (fastforce simp: ran_def)
  thus "chains_ok t' \<and> var_node t' = (var_node t)(s \<mapsto> i) \<and> i \<notin> ran (var_node t)"
    using add_var_ok [OF a(1) h(1,2)] var_node_add_var [OF a(1)] h by simp
qed


section \<open>Values and operators of a name\<close>

definition fun_val :: "symtab \<Rightarrow> string \<Rightarrow> int \<Rightarrow> int option" where
  "fun_val st s n = (case name_node st s of None \<Rightarrow> None | Some i \<Rightarrow> map_of (hn_terms (node_of st i)) n)"

definition op_of :: "symtab \<Rightarrow> string \<Rightarrow> opkind \<Rightarrow> op_row option" where
  "op_of st s k = (case name_node st s of None \<Rightarrow> None | Some i \<Rightarrow> is_operator_node st i k)"

text \<open>An update that leaves the name of a node.\<close>

lemma node_of_upd: "node_of (upd_node i f st) j = (if j = i \<and> i < length (hash_space st) then f (node_of st i) else node_of st j)"
  by (cases "i < length (hash_space st)") (auto simp: upd_node_def nth_list_update list_update_beyond)

lemma upd_node_simps [simp]:
  "hash_name_tab (upd_node i f st) = hash_name_tab st" "hash_var_tab (upd_node i f st) = hash_var_tab st"
  "cur_func_id (upd_node i f st) = cur_func_id st" "length (hash_space (upd_node i f st)) = length (hash_space st)"
  "chains_ok (upd_node i f st) = chains_ok st" "used_vars (upd_node i f st) = used_vars st"
  "functors (upd_node i f st) = functors st" "var_cnt (upd_node i f st) = var_cnt st"
  by (simp_all add: upd_node_def chains_ok_def)

lemma find_node_upd:
  assumes "\<And>n. hn_s (f n) = hn_s n \<and> hn_quick (f n) = hn_quick n"
  shows "find_node (upd_node i f st) chain s q = find_node st chain s q"
proof -
  have "hn_s (node_of (upd_node i f st) j) = hn_s (node_of st j)"
    "hn_quick (node_of (upd_node i f st) j) = hn_quick (node_of st j)" for j
    using assms by (simp_all add: node_of_upd)
  thus ?thesis by (simp add: find_node_def)
qed

lemma name_node_upd:
  assumes "\<And>n. hn_s (f n) = hn_s n \<and> hn_quick (f n) = hn_quick n"
  shows "name_node (upd_node i f st) = name_node st" "var_node (upd_node i f st) = var_node st"
  by (rule ext, simp add: name_node_def var_node_def find_node_upd [OF assms])+

text \<open>An update of the other fields.\<close>

lemma name_node_cong:
  "hash_name_tab st' = hash_name_tab st \<Longrightarrow> hash_space st' = hash_space st \<Longrightarrow> name_node st' = name_node st"
  "hash_var_tab st' = hash_var_tab st \<Longrightarrow> hash_space st' = hash_space st \<Longrightarrow> var_node st' = var_node st"
  by (rule ext, simp add: name_node_def var_node_def find_node_def)+

lemma chains_ok_cong:
  "hash_name_tab st' = hash_name_tab st \<Longrightarrow> hash_var_tab st' = hash_var_tab st \<Longrightarrow> hash_space st' = hash_space st
    \<Longrightarrow> chains_ok st' = chains_ok st"
  by (simp add: chains_ok_def)

lemma fun_val_cong:
  assumes "hash_name_tab st' = hash_name_tab st" "hash_space st' = hash_space st"
  shows "fun_val st' = fun_val st" "op_of st' = op_of st"
  by (simp_all add: fun_eq_iff fun_val_def op_of_def is_operator_node_def name_node_cong(1) [OF assms] assms(2)
      split: option.split)

text \<open>What every operation of the reader keeps of the tables: a name its node, a functor its value.\<close>

definition grows :: "symtab \<Rightarrow> symtab \<Rightarrow> bool" where
  "grows st st' \<longleftrightarrow> chains_ok st' \<and> cur_func_id st \<le> cur_func_id st'
     \<and> (\<forall>s i. name_node st s = Some i \<longrightarrow> name_node st' s = Some i)
     \<and> (\<forall>i<length (hash_space st). hn_val (node_of st' i) = hn_val (node_of st i) \<and> hn_op (node_of st' i) = hn_op (node_of st i))
     \<and> (\<forall>s n v. fun_val st s n = Some v \<longrightarrow> fun_val st' s n = Some v) \<and> op_of st' = op_of st
     \<and> length (hash_space st) \<le> length (hash_space st')"

lemma grows_refl: "chains_ok st \<Longrightarrow> grows st st" by (simp add: grows_def)

lemma grows_trans: "grows st st1 \<Longrightarrow> grows st1 st2 \<Longrightarrow> grows st st2"
  by (auto simp: grows_def)

lemma grows_cong:
  assumes "chains_ok st" "hash_name_tab st' = hash_name_tab st" "hash_var_tab st' = hash_var_tab st"
    "hash_space st' = hash_space st" "cur_func_id st' = cur_func_id st"
  shows "grows st st'"
  using chains_ok_cong [OF assms(2-4)] assms
  by (simp add: grows_def name_node_cong(1) [OF assms(2,4)] fun_val_cong [OF assms(2,4)])

text \<open>An update of a node that keeps its name, terms, value and operator.\<close>

lemma grows_upd:
  assumes "chains_ok st" "\<And>n. hn_s (f n) = hn_s n \<and> hn_quick (f n) = hn_quick n \<and> hn_terms (f n) = hn_terms n
    \<and> hn_op (f n) = hn_op n \<and> hn_val (f n) = hn_val n"
  shows "grows st (upd_node i f st)"
proof -
  have n: "name_node (upd_node i f st) = name_node st" by (rule name_node_upd) (use assms(2) in blast)
  have t: "hn_terms (node_of (upd_node i f st) j) = hn_terms (node_of st j)"
    "hn_op (node_of (upd_node i f st) j) = hn_op (node_of st j)"
    "hn_val (node_of (upd_node i f st) j) = hn_val (node_of st j)" for j
    using assms(2) by (simp_all add: node_of_upd)
  have "fun_val (upd_node i f st) = fun_val st" "op_of (upd_node i f st) = op_of st"
    by (simp_all add: fun_eq_iff fun_val_def op_of_def is_operator_node_def n t split: option.split)
  thus ?thesis using assms(1) by (simp add: grows_def n t)
qed

lemma add_name_grows:
  assumes "chains_ok st" "hash_ok s" "length (hash_space st) < INIT_HASH_SPACE" "name_node st s = None"
  shows "grows st (add_name s st)" "fun_val (add_name s st) = fun_val st"
proof -
  have old: "node_of (add_name s st) i = node_of st i" if "i < length (hash_space st)" for i
    using that by (simp add: add_name_space nth_append)
  have new: "node_of (add_name s st) (length (hash_space st)) = fresh_node st s" by (simp add: add_name_space)
  have v: "fun_val (add_name s st) x n = fun_val st x n" and o: "op_of (add_name s st) x k = op_of st x k" for x n k
    using name_node_bound [OF assms(1), of x] assms(4) old new
    by (auto simp: fun_val_def op_of_def name_node_add_name [OF assms(1)] fresh_node_def blank_node_def
        is_operator_node_def split: option.split)
  show "grows st (add_name s st)"
    using add_name_ok [OF assms(1-3)] assms(4) v o old name_node_bound [OF assms(1)]
    by (auto simp: grows_def name_node_add_name [OF assms(1)] fun_eq_iff add_name_space) (simp add: add_name_def)
  show "fun_val (add_name s st) = fun_val st" using v by (simp add: fun_eq_iff)
qed

lemma add_var_grows:
  assumes "chains_ok st" "hash_ok s" "length (hash_space st) < INIT_HASH_SPACE"
  shows "grows st (add_var s st)" "fun_val (add_var s st) = fun_val st"
proof -
  have old: "node_of (add_var s st) i = node_of st i" if "i < length (hash_space st)" for i
    using that by (simp add: add_var_space nth_append)
  have v: "fun_val (add_var s st) x n = fun_val st x n" and o: "op_of (add_var s st) x k = op_of st x k" for x n k
    using name_node_bound [OF assms(1), of x] old assms(1)
    by (auto simp: fun_val_def op_of_def is_operator_node_def split: option.split)
  show "grows st (add_var s st)"
    using add_var_ok [OF assms] v o old assms(1)
    by (auto simp: grows_def fun_eq_iff add_var_space) (simp add: add_var_def)
  show "fun_val (add_var s st) = fun_val st" using v by (simp add: fun_eq_iff)
qed


section \<open>Giving a functor its value\<close>

definition add_term :: "nat \<Rightarrow> int \<Rightarrow> symtab \<Rightarrow> symtab" where
  "add_term i n st = upd_node i (hn_terms_update ((#) (n, cur_func_id st))) (st\<lparr>cur_func_id := cur_func_id st + 1\<rparr>)"

lemma numfunc_Inr:
  assumes "numfunc v n s k st = Inr st'"
  shows "hash_name_tab st' = hash_name_tab st" "hash_var_tab st' = hash_var_tab st" "hash_space st' = hash_space st"
    "cur_func_id st' = cur_func_id st" "used_vars st' = used_vars st" "var_cnt st' = var_cnt st"
  using assms by (auto simp: numfunc_def split: if_splits)

lemma argunum_eq:
  "argunum_imagoterm i (T_FUNC s w m ts) n st =
     (let (v, st) = (case map_of (hn_terms (node_of st i)) n of
                       Some v \<Rightarrow> (v, st) | None \<Rightarrow> (cur_func_id st, add_term i n st))
      in sbind (numfunc v n s (case special_of (node_of st i) n of Some k \<Rightarrow> k | None \<Rightarrow> NONE) st)
           (\<lambda>st. Inr (T_FUNC s v n ts, st)))"
  by (simp add: argunum_imagoterm_def add_term_def split: option.split)

lemma add_term_fields [simp]:
  "chains_ok (add_term i n st) = chains_ok st" "cur_func_id (add_term i n st) = cur_func_id st + 1"
  "name_node (add_term i n st) = name_node st" "length (hash_space (add_term i n st)) = length (hash_space st)"
  "used_vars (add_term i n st) = used_vars st" "var_cnt (add_term i n st) = var_cnt st"
proof -
  let ?st = "st\<lparr>cur_func_id := cur_func_id st + 1\<rparr>"
  have "name_node (add_term i n st) = name_node ?st"
    unfolding add_term_def by (rule name_node_upd) simp
  also have "\<dots> = name_node st" by (rule name_node_cong) simp_all
  finally show "name_node (add_term i n st) = name_node st" .
  have "chains_ok (add_term i n st) = chains_ok ?st" by (simp only: add_term_def upd_node_simps)
  also have "\<dots> = chains_ok st" by (rule chains_ok_cong) simp_all
  finally show "chains_ok (add_term i n st) = chains_ok st" .
qed (simp_all add: add_term_def)

lemma node_of_add_term:
  "hn_terms (node_of (add_term i n st) j) =
     (if j = i \<and> i < length (hash_space st) then (n, cur_func_id st) # hn_terms (node_of st i) else hn_terms (node_of st j))"
  "hn_op (node_of (add_term i n st) j) = hn_op (node_of st j)"
  "hn_val (node_of (add_term i n st) j) = hn_val (node_of st j)"
  by (auto simp: add_term_def node_of_upd)

lemma fun_val_add_term:
  assumes "chains_ok st"
  shows "fun_val (add_term i n st) x m = (if name_node st x = Some i \<and> m = n then Some (cur_func_id st) else fun_val st x m)"
  using name_node_bound [OF assms, of x]
  by (auto simp: fun_val_def node_of_add_term split: option.split)

lemma add_term_grows:
  assumes "chains_ok st" "map_of (hn_terms (node_of st i)) n = None"
  shows "grows st (add_term i n st)"
proof -
  have "op_of (add_term i n st) = op_of st"
    by (simp add: fun_eq_iff op_of_def is_operator_node_def node_of_add_term split: option.split)
  moreover have "fun_val (add_term i n st) x m = Some v" if "fun_val st x m = Some v" for x m v
    using that assms by (auto simp: fun_val_add_term [OF assms(1)]) (simp add: fun_val_def)
  ultimately show ?thesis using assms(1) by (simp add: grows_def node_of_add_term)
qed

text \<open>Values lie below the counter, and those beyond the reserved range name one functor each.\<close>

definition values_ok :: "symtab \<Rightarrow> bool" where
  "values_ok st \<longleftrightarrow> chains_ok st \<and> UNSER_DEF_PREDICATE \<le> cur_func_id st
     \<and> (\<forall>s n v. fun_val st s n = Some v \<longrightarrow> 0 \<le> v \<and> v < cur_func_id st)
     \<and> (\<forall>s n s' n' v. fun_val st s n = Some v \<longrightarrow> fun_val st s' n' = Some v \<longrightarrow> UNSER_DEF_PREDICATE \<le> v
          \<longrightarrow> s' = s \<and> n' = n)"

lemma values_ok_cong: "values_ok st \<Longrightarrow> chains_ok st' \<Longrightarrow> fun_val st' = fun_val st \<Longrightarrow> cur_func_id st \<le> cur_func_id st' \<Longrightarrow> values_ok st'"
  by (fastforce simp: values_ok_def)

lemma values_ok_add_term:
  assumes "values_ok st" "map_of (hn_terms (node_of st i)) n = None"
  shows "values_ok (add_term i n st)"
proof -
  have c: "chains_ok st" using assms(1) by (simp add: values_ok_def)
  note f = fun_val_add_term [OF c, of i n]
  have u: "s' = s" if "name_node st s = Some i" "name_node st s' = Some i" for s s'
    using name_node_bound [OF c] that by metis
  have b: "0 \<le> v \<and> v < cur_func_id st" if "fun_val st s m = Some v" for s m v
    using assms(1) that unfolding values_ok_def by blast
  have p: "0 \<le> cur_func_id st" using assms(1) by (simp add: values_ok_def UNSER_DEF_PREDICATE_def)
  have "0 \<le> v \<and> v < cur_func_id (add_term i n st)" if "fun_val (add_term i n st) s m = Some v" for s m v
  proof (cases "name_node st s = Some i \<and> m = n")
    case True
    thus ?thesis using that p by (simp add: f)
  next
    case False
    hence "fun_val st s m = Some v" using that by (simp add: f split: if_splits)
    thus ?thesis using b by fastforce
  qed
  moreover have "s' = s \<and> m' = m"
    if "fun_val (add_term i n st) s m = Some v" "fun_val (add_term i n st) s' m' = Some v" "UNSER_DEF_PREDICATE \<le> v" for s m s' m' v
  proof -
    let ?N = "\<lambda>s m. name_node st s = Some i \<and> m = n"
    have o: "fun_val st s m = Some v" if "fun_val (add_term i n st) s m = Some v" "\<not> ?N s m" for s m
      using that(1) unfolding f if_not_P [OF that(2)] .
    have new: "v = cur_func_id st" if "fun_val (add_term i n st) s m = Some v" "?N s m" for s m
      using that by (simp add: f)
    consider "?N s m" "?N s' m'" | "?N s m" "\<not> ?N s' m'" | "\<not> ?N s m" "?N s' m'" | "\<not> ?N s m" "\<not> ?N s' m'" by blast
    thus ?thesis
    proof cases
      case 1 thus ?thesis using u by blast
    next
      case 2 thus ?thesis using new [OF that(1)] b [OF o [OF that(2)]] by simp
    next
      case 3 thus ?thesis using new [OF that(2)] b [OF o [OF that(1)]] by simp
    next
      case 4
      from o [OF that(1) 4(1)] o [OF that(2) 4(2)] that(3) show ?thesis
        using assms(1) unfolding values_ok_def by blast
    qed
  qed
  moreover have "chains_ok (add_term i n st)" "UNSER_DEF_PREDICATE \<le> cur_func_id (add_term i n st)"
    using assms(1) by (simp_all add: values_ok_def)
  ultimately show ?thesis unfolding values_ok_def by blast
qed

lemma argunum_Inr:
  assumes "argunum_imagoterm i t n st = Inr (t', st')" "chains_ok st"
  shows "grows st st'" "values_ok st \<Longrightarrow> values_ok st'" "used_vars st' = used_vars st"
proof -
  obtain s w m ts where t: "t = T_FUNC s w m ts" using assms(1) by (auto simp: argunum_imagoterm_def split: iterm.splits)
  define st1 where "st1 = (case map_of (hn_terms (node_of st i)) n of Some v \<Rightarrow> st | None \<Rightarrow> add_term i n st)"
  obtain v k where "numfunc v n s k st1 = Inr st'"
    using assms(1) by (auto simp: t argunum_eq st1_def split: option.splits)
  note nf = numfunc_Inr [OF this]
  have 1: "grows st st1" "values_ok st \<Longrightarrow> values_ok st1" "used_vars st1 = used_vars st"
    using add_term_grows [OF assms(2), of i n] values_ok_add_term [of st i n] grows_refl [OF assms(2)]
    by (auto simp: st1_def split: option.split)
  have c: "chains_ok st1" using 1(1) by (simp add: grows_def)
  have g: "grows st1 st'" by (rule grows_cong [OF c nf(1-4)])
  show "grows st st'" by (rule grows_trans [OF 1(1) g])
  show "used_vars st' = used_vars st" using nf(5) 1(3) by simp
  have "fun_val st' = fun_val st1" by (rule fun_val_cong [OF nf(1,3)])
  thus "values_ok st'" if "values_ok st"
    using values_ok_cong [OF 1(2) [OF that]] g nf(4) by (simp add: grows_def)
qed


text \<open>With room for another value, a known name gets one; room is counted in nodes and in values.\<close>

definition room :: "nat \<Rightarrow> symtab \<Rightarrow> bool" where
  "room k st \<longleftrightarrow> length (hash_space st) + k \<le> INIT_HASH_SPACE \<and> cur_func_id st + int k \<le> MAXFUNCTORS"

lemma argunum_ok:
  assumes "values_ok st" "room (Suc k) st" "name_node st s = Some i"
  obtains v st' where "argunum_imagoterm i (T_FUNC s w m ts) n st = Inr (T_FUNC s v n ts, st')"
    "fun_val st' s n = Some v" "room k st'"
proof -
  have c: "chains_ok st" using assms(1) by (simp add: values_ok_def)
  have val: "0 \<le> v \<and> v < cur_func_id st" if "fun_val st s n = Some v" for v
    using assms(1) that unfolding values_ok_def by blast
  define r where "r = (case map_of (hn_terms (node_of st i)) n of Some v \<Rightarrow> (v, st) | None \<Rightarrow> (cur_func_id st, add_term i n st))"
  obtain v st1 where r1: "r = (v, st1)" by fastforce
  have a: "chains_ok st1" "name_node st1 = name_node st" "fun_val st1 s n = Some v" "0 \<le> v" "v < MAXFUNCTORS" "room k st1"
    using r1 c assms val fun_val_add_term [OF c, of i n s n]
    by (auto simp: r_def room_def fun_val_def values_ok_def UNSER_DEF_PREDICATE_def split: option.splits)
  obtain st' where st': "numfunc v n s (case special_of (node_of st1 i) n of Some k \<Rightarrow> k | None \<Rightarrow> NONE) st1 = Inr st'"
    using a by (simp add: numfunc_def)
  note nf = numfunc_Inr [OF st']
  have "fun_val st' s n = Some v"
    using a(3) by (simp add: fun_val_cong [OF nf(1,3)])
  moreover have "room k st'" using a(6) nf by (simp add: room_def)
  ultimately show thesis using that [of v st'] st' r1 by (simp add: argunum_eq r_def [symmetric])
qed

section \<open>The variables of a clause\<close>

definition var_idx :: "symtab \<Rightarrow> string \<Rightarrow> int option" where
  "var_idx st s = (case var_node st s of
     None \<Rightarrow> None
   | Some i \<Rightarrow> if 0 \<le> hn_special (node_of st i) then Some (hn_var_index (node_of st i)) else None)"

text \<open>The marked nodes are those in used_vars; they are numbered apart, below the counter.\<close>

definition vars_ok :: "symtab \<Rightarrow> bool" where
  "vars_ok st \<longleftrightarrow> chains_ok st \<and> 0 \<le> var_cnt st
     \<and> (\<forall>s i. var_node st s = Some i \<longrightarrow> 0 \<le> hn_special (node_of st i) \<longrightarrow> i \<in> set (used_vars st))
     \<and> (\<forall>s k. var_idx st s = Some k \<longrightarrow> 0 \<le> k \<and> k < var_cnt st)
     \<and> (\<forall>s s' k. var_idx st s = Some k \<longrightarrow> var_idx st s' = Some k \<longrightarrow> s' = s)"

lemma vars_okD:
  assumes "vars_ok st"
  shows "chains_ok st" "0 \<le> var_cnt st"
    "var_node st s = Some i \<Longrightarrow> 0 \<le> hn_special (node_of st i) \<Longrightarrow> i \<in> set (used_vars st)"
    "var_idx st s = Some k \<Longrightarrow> 0 \<le> k \<and> k < var_cnt st"
    "var_idx st s = Some k \<Longrightarrow> var_idx st s' = Some k \<Longrightarrow> s' = s"
  using assms unfolding vars_ok_def by blast+

lemma fold_upd_special_all:
  "st' = foldl (\<lambda>st i. upd_node i (hn_special_update (\<lambda>_. -1)) st) st is \<Longrightarrow>
    (grows st st' \<or> \<not> chains_ok st) \<and> var_node st' = var_node st \<and> fun_val st' = fun_val st
    \<and> length (hash_space st') = length (hash_space st) \<and> cur_func_id st' = cur_func_id st \<and> var_cnt st' = var_cnt st
    \<and> (\<forall>j. hn_special (node_of st' j) = (if j \<in> set is \<and> j < length (hash_space st) then -1 else hn_special (node_of st j)))"
proof (induction "is" arbitrary: st)
  case (Cons i us)
  let ?s = "upd_node i (hn_special_update (\<lambda>_. -1)) st"
  have n: "var_node ?s = var_node st" "name_node ?s = name_node st" by (simp_all add: name_node_upd)
  have f: "fun_val ?s = fun_val st" by (simp add: fun_eq_iff fun_val_def n node_of_upd split: option.split)
  have g: "chains_ok st \<Longrightarrow> grows st ?s" by (rule grows_upd) simp_all
  have "st' = foldl (\<lambda>st i. upd_node i (hn_special_update (\<lambda>_. -1)) st) ?s us" using Cons.prems by simp
  note ih = Cons.IH [OF this]
  have "grows st st' \<or> \<not> chains_ok st" using ih g grows_trans [of st ?s st'] by auto
  thus ?case using ih n f by (auto simp: node_of_upd)
qed (auto simp: grows_refl)

lemma fold_upd_special:
  assumes "st' = foldl (\<lambda>st i. upd_node i (hn_special_update (\<lambda>_. -1)) st) st is"
  shows "grows st st' \<or> \<not> chains_ok st" "var_node st' = var_node st" "fun_val st' = fun_val st"
    "length (hash_space st') = length (hash_space st)" "cur_func_id st' = cur_func_id st" "var_cnt st' = var_cnt st"
    "hn_special (node_of st' j) = (if j \<in> set is \<and> j < length (hash_space st) then -1 else hn_special (node_of st j))"
  using fold_upd_special_all [OF assms] by blast+

lemma zero_vars_ok:
  assumes "chains_ok st" "\<And>s i. var_node st s = Some i \<Longrightarrow> 0 \<le> hn_special (node_of st i) \<Longrightarrow> i \<in> set (used_vars st)"
  shows "grows st (zero_vars st)" "vars_ok (zero_vars st)" "used_vars (zero_vars st) = []"
    "fun_val (zero_vars st) = fun_val st" "length (hash_space (zero_vars st)) = length (hash_space st)"
    "cur_func_id (zero_vars st) = cur_func_id st" "var_idx (zero_vars st) s = None" "var_cnt (zero_vars st) = 0"
proof -
  let ?s0 = "st\<lparr>no_var_imagoterm := 0, var_cnt := 0\<rparr>"
  define s1 where "s1 = foldl (\<lambda>st i. upd_node i (hn_special_update (\<lambda>_. -1)) st) ?s0 (used_vars st)"
  note f = fold_upd_special [OF s1_def]
  have z: "zero_vars st = s1\<lparr>used_vars := []\<rparr>" by (simp add: zero_vars_def s1_def)
  have c0: "chains_ok ?s0" "var_node ?s0 = var_node st" "fun_val ?s0 = fun_val st" "grows st ?s0"
    using assms(1) chains_ok_cong [of ?s0 st] name_node_cong(2) [of ?s0 st] fun_val_cong(1) [of ?s0 st] grows_cong [of st ?s0]
    by simp_all
  have c1: "chains_ok s1" "grows ?s0 s1" using f(1) c0(1) by (auto simp: grows_def)
  have z1: "grows s1 (zero_vars st)" "var_node (zero_vars st) = var_node s1" "fun_val (zero_vars st) = fun_val s1"
    using grows_cong [OF c1(1), of "zero_vars st"] name_node_cong(2) [of "zero_vars st" s1]
      fun_val_cong(1) [of "zero_vars st" s1] by (simp_all add: z)
  show "grows st (zero_vars st)" using grows_trans [OF c0(4) grows_trans [OF c1(2) z1(1)]] .
  show i: "var_idx (zero_vars st) s = None" for s
  proof (cases "var_node st s")
    case (Some i)
    have "i < length (hash_space st)" using var_node_bound [OF assms(1) Some] by simp
    hence "hn_special (node_of s1 i) < 0" using f(7) [of i] assms(2) [OF Some]
      by (cases "0 \<le> hn_special (node_of st i)") auto
    thus ?thesis using Some z1(2) f(2) c0(2) by (simp add: var_idx_def z)
  qed (use z1(2) f(2) c0(2) in \<open>simp add: var_idx_def\<close>)
  show "var_cnt (zero_vars st) = 0" using f(6) by (simp add: z)
  show "used_vars (zero_vars st) = []" by (simp add: z)
  show "fun_val (zero_vars st) = fun_val st"
    using f(3) c0(3) z1(3) by simp
  show "length (hash_space (zero_vars st)) = length (hash_space st)" "cur_func_id (zero_vars st) = cur_func_id st"
    using f(4,5) by (simp_all add: z)
  have n: "hn_special (node_of (zero_vars st) i) < 0" if "var_node (zero_vars st) s = Some i" for s i
    using \<open>\<And>s. var_idx (zero_vars st) s = None\<close> [of s] that by (auto simp: var_idx_def split: if_splits)
  show "vars_ok (zero_vars st)"
    using i n z1(1) \<open>var_cnt (zero_vars st) = 0\<close> unfolding vars_ok_def by (fastforce simp: grows_def)
qed


lemma add_var_idx:
  assumes "chains_ok st" "var_node st s = None"
  shows "var_idx (add_var s st) = var_idx st"
proof
  fix x
  have old: "node_of (add_var s st) i = node_of st i" if "i < length (hash_space st)" for i
    using that by (simp add: add_var_space nth_append)
  have new: "node_of (add_var s st) (length (hash_space st)) = fresh_var st s" by (simp add: add_var_space)
  show "var_idx (add_var s st) x = var_idx st x"
    using var_node_bound [OF assms(1), of x] assms(2) old new
    by (auto simp: var_idx_def var_node_add_var [OF assms(1)] fresh_var_def split: option.split)
qed

text \<open>Marks and numbers survive whatever keeps the chains and adds no mark.\<close>

lemma vars_ok_cong:
  assumes "vars_ok st" "chains_ok st'" "var_idx st' = var_idx st" "var_cnt st \<le> var_cnt st'" "used_vars st' = used_vars st"
    "\<And>x j. var_node st' x = Some j \<Longrightarrow> 0 \<le> hn_special (node_of st' j) \<Longrightarrow> var_node st x = Some j"
  shows "vars_ok st'"
proof -
  have "j \<in> set (used_vars st')" if "var_node st' x = Some j" "0 \<le> hn_special (node_of st' j)" for x j
  proof -
    note old = assms(6) [OF that]
    have "var_idx st' x \<noteq> None" using that by (simp add: var_idx_def)
    hence "var_idx st x \<noteq> None" using assms(3) by simp
    hence "0 \<le> hn_special (node_of st j)" using old by (auto simp: var_idx_def split: if_splits)
    thus ?thesis using old assms(5) vars_okD(3) [OF assms(1)] by simp
  qed
  moreover have "0 \<le> var_cnt st'" using assms(4) vars_okD(2) [OF assms(1)] by simp
  moreover have "0 \<le> k \<and> k < var_cnt st'" if "var_idx st' x = Some k" for x k
    using assms(4) that vars_okD(4) [OF assms(1)] unfolding assms(3) by fastforce
  moreover have "x' = x" if "var_idx st' x = Some k" "var_idx st' x' = Some k" for x x' k
    using assms(1) that unfolding assms(3) vars_ok_def by blast
  ultimately show ?thesis using assms(2) unfolding vars_ok_def by blast
qed

lemma add_var_vars:
  assumes "vars_ok st" "var_node st s = None" "hash_ok s" "length (hash_space st) < INIT_HASH_SPACE"
  shows "vars_ok (add_var s st)"
proof -
  have c: "chains_ok st" by (rule vars_okD(1) [OF assms(1)])
  have new: "node_of (add_var s st) (length (hash_space st)) = fresh_var st s" by (simp add: add_var_space)
  show ?thesis
  proof (rule vars_ok_cong [OF assms(1) add_var_ok [OF c assms(3,4)] add_var_idx [OF c assms(2)]])
    fix x j
    assume "var_node (add_var s st) x = Some j" "0 \<le> hn_special (node_of (add_var s st) j)"
    thus "var_node st x = Some j"
      using new by (auto simp: var_node_add_var [OF c] fresh_var_def split: if_splits)
  qed (simp_all add: add_var_def)
qed

lemma insert_var_vars:
  assumes "vars_ok st" "insert_var s (stringsum s) st = Inr (i, st1)"
  shows "vars_ok st1" "var_idx st1 = var_idx st" "var_node st1 s = Some i" "grows st st1" "fun_val st1 = fun_val st"
    "var_cnt st1 = var_cnt st" "used_vars st1 = used_vars st" "cur_func_id st1 = cur_func_id st"
    "length (hash_space st1) \<le> Suc (length (hash_space st))"
proof -
  have c: "chains_ok st" by (rule vars_okD(1) [OF assms(1)])
  have n: "var_node st1 s = Some i" using vars.ins_look [OF c assms(2)] by simp
  have "vars_ok st1 \<and> var_idx st1 = var_idx st \<and> grows st st1 \<and> fun_val st1 = fun_val st
    \<and> var_cnt st1 = var_cnt st \<and> used_vars st1 = used_vars st \<and> cur_func_id st1 = cur_func_id st
    \<and> length (hash_space st1) \<le> Suc (length (hash_space st))"
  proof (cases "var_node st s")
    case None
    hence h: "hash_ok s" "length (hash_space st) < INIT_HASH_SPACE" "st1 = add_var s st"
      using assms(2) by (auto simp: insert_var_eq split: if_splits)
    show ?thesis
      using add_var_vars [OF assms(1) None h(1,2)] add_var_idx [OF c None] add_var_grows [OF c h(1,2)]
      by (simp add: h(3)) (simp add: add_var_def)
  next
    case (Some j)
    hence "st1 = st" using assms(2) by (auto simp: insert_var_eq split: if_splits)
    thus ?thesis using assms(1) grows_refl [OF c] by simp
  qed
  thus "vars_ok st1" "var_idx st1 = var_idx st" "grows st st1" "fun_val st1 = fun_val st"
    "var_cnt st1 = var_cnt st" "used_vars st1 = used_vars st" "cur_func_id st1 = cur_func_id st"
    "length (hash_space st1) \<le> Suc (length (hash_space st))" by simp_all
  show "var_node st1 s = Some i" by (rule n)
qed

text \<open>The first occurrence of a variable marks its node and gives it the next number.\<close>

definition mark_var :: "nat \<Rightarrow> symtab \<Rightarrow> symtab" where
  "mark_var i st = (upd_node i (\<lambda>n. n\<lparr>hn_var_index := var_cnt st, hn_special := 1\<rparr>) st)
     \<lparr>no_var_imagoterm := no_var_imagoterm st + 1, var_cnt := var_cnt st + 1, used_vars := used_vars st @ [i]\<rparr>"

lemma mark_var_props:
  assumes "vars_ok st" "var_node st s = Some i" "\<not> 0 \<le> hn_special (node_of st i)"
  shows "grows st (mark_var i st)" "var_idx (mark_var i st) = (var_idx st)(s \<mapsto> var_cnt st)"
    "fun_val (mark_var i st) = fun_val st" "vars_ok (mark_var i st)"
proof -
  let ?f = "\<lambda>n. n\<lparr>hn_var_index := var_cnt st, hn_special := 1\<rparr>" and ?s = "mark_var i st"
  let ?u = "upd_node i ?f st"
  have c: "chains_ok st" by (rule vars_okD(1) [OF assms(1)])
  note b = var_node_bound [OF c]
  have gu: "grows st ?u" by (rule grows_upd [OF c]) simp
  have cu: "chains_ok ?u" using gu by (simp add: grows_def)
  have g: "grows ?u ?s" by (rule grows_cong [OF cu]) (simp_all add: mark_var_def)
  show gs: "grows st ?s" by (rule grows_trans [OF gu g])
  have "var_node ?s = var_node ?u" by (rule name_node_cong) (simp_all add: mark_var_def)
  hence n: "var_node ?s = var_node st" using name_node_upd(2) [of ?f i st] by simp
  have nd: "node_of ?s j = (if j = i then ?f (node_of st i) else node_of st j)" for j
    using b [OF assms(2)] by (simp add: mark_var_def node_of_upd)
  have u: "x = s" if "var_node st x = Some i" for x using b [OF that] b [OF assms(2)] by simp
  have ixa: "var_idx ?s x = (if x = s then Some (var_cnt st) else var_idx st x)" for x
  proof (cases "var_node st x")
    case None
    thus ?thesis using assms(2) by (auto simp: var_idx_def n)
  next
    case (Some j)
    have "(x = s) = (j = i)" using u [of x] Some assms(2) by auto
    thus ?thesis using Some by (simp add: var_idx_def n nd)
  qed
  thus ix: "var_idx ?s = (var_idx st)(s \<mapsto> var_cnt st)" by (simp add: fun_eq_iff)
  have "fun_val ?s = fun_val ?u" by (rule fun_val_cong) (simp_all add: mark_var_def)
  also have "\<dots> = fun_val st"
    using name_node_upd(1) [of ?f i st] by (simp add: fun_eq_iff fun_val_def node_of_upd split: option.split)
  finally show "fun_val ?s = fun_val st" .
  have o: "0 \<le> k \<and> k < var_cnt st" if "var_idx st x = Some k" for x k
    using assms(1) that unfolding vars_ok_def by blast
  have oi: "x' = x" if "var_idx st x = Some k" "var_idx st x' = Some k" for x x' k
    using assms(1) that unfolding vars_ok_def by blast
  have cnt: "var_cnt ?s = var_cnt st + 1" "used_vars ?s = used_vars st @ [i]" "0 \<le> var_cnt st"
    using vars_okD(2) [OF assms(1)] by (simp_all add: mark_var_def)
  have "j \<in> set (used_vars ?s)" if "var_node ?s x = Some j" "0 \<le> hn_special (node_of ?s j)" for x j
    using that vars_okD(3) [OF assms(1)] by (cases "j = i") (simp_all add: n nd cnt)
  moreover have "0 \<le> k \<and> k < var_cnt ?s" if "var_idx ?s x = Some k" for x k
    using that o [of x k] cnt by (cases "x = s") (simp_all add: ixa)
  moreover have "x' = x" if "var_idx ?s x = Some k" "var_idx ?s x' = Some k" for x x' k
    using that o [of x k] o [of x' k] oi [of x k x'] by (cases "x = s"; cases "x' = s") (simp_all add: ixa)
  moreover have "chains_ok ?s" using gs by (simp add: grows_def)
  moreover have "0 \<le> var_cnt ?s" using cnt by simp
  ultimately show "vars_ok ?s" unfolding vars_ok_def by blast
qed

text \<open>The number a lookup gives, and what it does to the numbering.\<close>

definition numbers :: "symtab \<Rightarrow> string \<Rightarrow> iterm \<Rightarrow> symtab \<Rightarrow> bool" where
  "numbers st s t st' \<longleftrightarrow>
     (if s = ''_'' then t = T_VAR s (var_cnt st) ANONYMOUS_VAR \<and> var_idx st' = var_idx st
      else case var_idx st s of
        Some k \<Rightarrow> t = T_VAR s k SEEN_VAR \<and> var_idx st' = var_idx st
      | None \<Rightarrow> t = T_VAR s (var_cnt st) FIRST_VAR \<and> var_idx st' = (var_idx st)(s \<mapsto> var_cnt st))"

lemma lookup_var:
  assumes "vars_ok st" "lookuimago_var s (stringsum s) st = Inr (t, st')"
  shows "vars_ok st' \<and> grows st st' \<and> fun_val st' = fun_val st \<and> numbers st s t st'
    \<and> cur_func_id st' = cur_func_id st \<and> length (hash_space st') \<le> Suc (length (hash_space st))
    \<and> length (used_vars st') \<le> Suc (length (used_vars st))"
proof -
  obtain i st1 where 1: "insert_var s (stringsum s) st = Inr (i, st1)"
    using assms(2) by (auto simp: lookuimago_var_def)
  note v = insert_var_vars [OF assms(1) 1]
  have c1: "chains_ok st1" using v(4) by (simp add: grows_def)
  have nm: "hn_s (node_of st1 i) = s" using var_node_bound [OF c1 v(3)] by auto
  have idx: "var_idx st s = (if 0 \<le> hn_special (node_of st1 i) then Some (hn_var_index (node_of st1 i)) else None)"
    unfolding v(2) [symmetric] by (simp add: var_idx_def v(3))
  consider "s = ''_''" | "s \<noteq> ''_''" "0 \<le> hn_special (node_of st1 i)" | "s \<noteq> ''_''" "\<not> 0 \<le> hn_special (node_of st1 i)"
    by blast
  thus ?thesis
  proof cases
    case 1
    hence st': "st' = st1\<lparr>var_cnt := var_cnt st1 + 1\<rparr>" "t = T_VAR s (var_cnt st) ANONYMOUS_VAR"
      using assms(2) v(6) nm \<open>insert_var s (stringsum s) st = Inr (i, st1)\<close> by (auto simp: lookuimago_var_def Let_def)
    have g: "grows st1 st'" by (rule grows_cong [OF c1]) (simp_all add: st')
    have n: "var_node st' = var_node st1" by (rule name_node_cong) (simp_all add: st')
    have sp: "hash_space st' = hash_space st1" by (simp add: st')
    have ix: "var_idx st' = var_idx st1" by (simp add: fun_eq_iff var_idx_def n sp split: option.split)
    have "vars_ok st'"
      by (rule vars_ok_cong [OF v(1)]) (use g ix n in \<open>simp_all add: st' grows_def\<close>)
    moreover have "fun_val st' = fun_val st1" by (rule fun_val_cong) (simp_all add: st')
    ultimately show ?thesis
      using 1 st' ix v grows_trans [OF v(4) g] by (simp add: numbers_def)
  next
    case 2
    hence "st' = st1" "t = T_VAR s (hn_var_index (node_of st1 i)) SEEN_VAR"
      using assms(2) nm \<open>insert_var s (stringsum s) st = Inr (i, st1)\<close> by (auto simp: lookuimago_var_def Let_def)
    thus ?thesis using v idx 2 by (simp add: numbers_def)
  next
    case 3
    hence st': "t = T_VAR s (var_cnt st) FIRST_VAR" "st' = mark_var i st1"
      using assms(2) v(6) nm \<open>insert_var s (stringsum s) st = Inr (i, st1)\<close>
      by (auto simp: lookuimago_var_def Let_def mark_var_def split: if_splits)
    note m = mark_var_props [OF v(1,3) 3(2)]
    have "used_vars st' = used_vars st1 @ [i]" "cur_func_id st' = cur_func_id st1"
      "length (hash_space st') = length (hash_space st1)" by (simp_all add: st'(2) mark_var_def)
    thus ?thesis using 3 m st' v idx grows_trans [OF v(4) m(1)] by (simp add: numbers_def)
  qed
qed


section \<open>The invariant of the tables\<close>

definition tables_ok :: "symtab \<Rightarrow> bool" where
  "tables_ok st \<longleftrightarrow> values_ok st \<and> vars_ok st"

lemma tables_okD:
  "tables_ok st \<Longrightarrow> values_ok st" "tables_ok st \<Longrightarrow> vars_ok st" "tables_ok st \<Longrightarrow> chains_ok st"
  by (simp_all add: tables_ok_def vars_okD(1))

lemma var_idx_keep:
  assumes "var_node st' = var_node st" "chains_ok st"
    "\<And>j. j < length (hash_space st) \<Longrightarrow> hn_special (node_of st' j) = hn_special (node_of st j)
          \<and> hn_var_index (node_of st' j) = hn_var_index (node_of st j)"
  shows "var_idx st' = var_idx st"
  using assms(3) var_node_bound [OF assms(2)]
  by (auto simp: fun_eq_iff var_idx_def assms(1) split: option.split)

lemma insert_name_tables:
  assumes "tables_ok st" "insert_name s (stringsum s) st = Inr (i, st')"
  shows "tables_ok st'" "grows st st'" "var_idx st' = var_idx st" "fun_val st' = fun_val st" "name_node st' s = Some i"
    "used_vars st' = used_vars st" "room (Suc k) st \<Longrightarrow> room k st'" "hash_ok s"
proof -
  note ok = tables_okD [OF assms(1)]
  have n: "name_node st' s = Some i" using names.ins_look [OF ok(3) assms(2)] by simp
  have "tables_ok st' \<and> grows st st' \<and> var_idx st' = var_idx st \<and> fun_val st' = fun_val st
    \<and> used_vars st' = used_vars st \<and> (room (Suc k) st \<longrightarrow> room k st') \<and> hash_ok s"
  proof (cases "name_node st s")
    case None
    hence h: "hash_ok s" "length (hash_space st) < INIT_HASH_SPACE" "st' = add_name s st"
      using assms(2) by (auto simp: insert_name_eq split: if_splits)
    note g = add_name_grows [OF ok(3) h(1,2) None]
    have nd: "node_of st' j = node_of st j" if "j < length (hash_space st)" for j
      using that h(3) by (simp add: add_name_space nth_append)
    have vn: "var_node st' = var_node st" by (simp add: h(3) ok(3))
    have ix: "var_idx st' = var_idx st" by (rule var_idx_keep [OF vn ok(3)]) (simp add: nd)
    have "vars_ok st'"
      by (rule vars_ok_cong [OF ok(2) _ ix]) (use g(1) vn in \<open>simp_all add: h(3) grows_def add_name_def\<close>)
    moreover have "values_ok st'"
      by (rule values_ok_cong [OF ok(1)]) (use g in \<open>simp_all add: h(3) grows_def\<close>)
    ultimately show ?thesis using g h ix by (simp add: tables_ok_def) (simp add: add_name_def room_def)
  next
    case (Some j)
    hence "st' = st" using assms(2) by (auto simp: insert_name_eq split: if_splits)
    thus ?thesis using assms(1) grows_refl [OF ok(3)] name_node_bound [OF ok(3) Some] by (auto simp: room_def)
  qed
  thus "tables_ok st'" "grows st st'" "var_idx st' = var_idx st" "fun_val st' = fun_val st"
    "used_vars st' = used_vars st" "room (Suc k) st \<Longrightarrow> room k st'" "hash_ok s" by simp_all
  show "name_node st' s = Some i" by (rule n)
qed

lemma insert_name_room:
  assumes "chains_ok st" "hash_ok s" "room (Suc k) st"
  shows "\<exists>i st'. insert_name s (stringsum s) st = Inr (i, st')"
  using assms by (auto simp: insert_name_eq room_def split: option.split)

lemma argunum_tables:
  assumes "tables_ok st" "argunum_imagoterm i t n st = Inr (t', st')"
  shows "tables_ok st'" "grows st st'" "var_idx st' = var_idx st" "used_vars st' = used_vars st"
proof -
  note ok = tables_okD [OF assms(1)]
  note a = argunum_Inr [OF assms(2) ok(3)]
  obtain s w m ts where t: "t = T_FUNC s w m ts" using assms(2) by (auto simp: argunum_imagoterm_def split: iterm.splits)
  define st1 where "st1 = (case map_of (hn_terms (node_of st i)) n of Some v \<Rightarrow> st | None \<Rightarrow> add_term i n st)"
  obtain v k where "numfunc v n s k st1 = Inr st'"
    using assms(2) by (auto simp: t argunum_eq st1_def split: option.splits)
  note nf = numfunc_Inr [OF this]
  have v1: "var_node (add_term i n st) = var_node st"
  proof -
    have "var_node (add_term i n st) = var_node (st\<lparr>cur_func_id := cur_func_id st + 1\<rparr>)"
      unfolding add_term_def by (rule name_node_upd) simp
    also have "\<dots> = var_node st" by (rule name_node_cong) simp_all
    finally show ?thesis .
  qed
  have vn: "var_node st' = var_node st"
    using name_node_cong(2) [OF nf(2,3)] v1 by (auto simp: st1_def split: option.splits)
  have nd: "hn_special (node_of st' j) = hn_special (node_of st j) \<and> hn_var_index (node_of st' j) = hn_var_index (node_of st j)" for j
    using nf(3) by (auto simp: st1_def add_term_def node_of_upd split: option.splits)
  have ix: "var_idx st' = var_idx st" by (rule var_idx_keep [OF vn ok(3) nd])
  have vc: "var_cnt st' = var_cnt st" using nf(6) by (simp add: st1_def split: option.split)
  have "vars_ok st'"
    by (rule vars_ok_cong [OF ok(2) _ ix]) (use a(1,3) vn vc in \<open>simp_all add: grows_def\<close>)
  thus "tables_ok st'" using a(2) ok(1) by (simp add: tables_ok_def)
  show "grows st st'" "var_idx st' = var_idx st" "used_vars st' = used_vars st" using a ix by simp_all
qed

lemma lookup_var_tables:
  assumes "tables_ok st" "lookuimago_var s (stringsum s) st = Inr (t, st')"
  shows "tables_ok st'" "grows st st'" "fun_val st' = fun_val st" "numbers st s t st'"
    "room (Suc k) st \<Longrightarrow> room k st'" "length (used_vars st') \<le> Suc (length (used_vars st))"
proof -
  note ok = tables_okD [OF assms(1)]
  note l = lookup_var [OF ok(2) assms(2)]
  have "values_ok st'" by (rule values_ok_cong [OF ok(1)]) (use l in \<open>simp_all add: grows_def\<close>)
  thus "tables_ok st'" "grows st st'" "fun_val st' = fun_val st" "numbers st s t st'"
    "room (Suc k) st \<Longrightarrow> room k st'" "length (used_vars st') \<le> Suc (length (used_vars st))"
    using l by (auto simp: tables_ok_def room_def)
qed

lemma lookup_var_room:
  assumes "chains_ok st" "hash_ok s" "room (Suc k) st" "length (used_vars st) < MAXVAR"
  shows "\<exists>t st'. lookuimago_var s (stringsum s) st = Inr (t, st')"
proof -
  obtain i st1 where "insert_var s (stringsum s) st = Inr (i, st1)" "used_vars st1 = used_vars st"
    using assms by (cases "var_node st s") (auto simp: insert_var_eq room_def add_var_def)
  thus ?thesis using assms(4) by (auto simp: lookuimago_var_def Let_def)
qed

lemma zero_vars_tables:
  assumes "tables_ok st"
  shows "tables_ok (zero_vars st)" "grows st (zero_vars st)" "fun_val (zero_vars st) = fun_val st"
    "used_vars (zero_vars st) = []" "var_idx (zero_vars st) s = None" "room k st \<Longrightarrow> room k (zero_vars st)"
proof -
  note ok = tables_okD [OF assms]
  note z = zero_vars_ok [OF ok(3) vars_okD(3) [OF ok(2)]]
  have "values_ok (zero_vars st)" by (rule values_ok_cong [OF ok(1)]) (use z in \<open>simp_all add: grows_def\<close>)
  thus "tables_ok (zero_vars st)" "grows st (zero_vars st)" "fun_val (zero_vars st) = fun_val st"
    "used_vars (zero_vars st) = []" "var_idx (zero_vars st) s = None" "room k st \<Longrightarrow> room k (zero_vars st)"
    using z by (simp_all add: tables_ok_def room_def)
qed

end
