(* ===== verification/MLVM_Reader_Correct.thy ===== *)
theory MLVM_Reader_Correct
  imports MLVM_Symtab_Correct
begin

text \<open>
  The reader ends: the fuel that getimagoterm and readsourcefile give is never used
  up, since every recursive call is behind a call of imagoscan, which leaves less text
  or is at the end of the file.
\<close>

section \<open>What is left to read\<close>

definition tokens_left :: "scanner \<Rightarrow> nat" where
  "tokens_left st = 2 * state_left st + (if tokentype st = ENDFILE then 0 else 1)"

lemma tokens_left_upd [simp]:
  "tokens_left (st\<lparr>comma_flg := a\<rparr>) = tokens_left st" "tokens_left (st\<lparr>bar_flg := a\<rparr>) = tokens_left st"
  "tokens_left (st\<lparr>sc_tab := t\<rparr>) = tokens_left st"
  "tokentype (st\<lparr>comma_flg := a\<rparr>) = tokentype st"
  by (simp_all add: tokens_left_def state_left_def)

lemma error_syntax_no_fuel [simp]: "error_syntax st \<noteq> H_Fuel"
proof (induction st rule: error_syntax.induct)
  case (1 st)
  thus ?case
    using scan_token_shorter(3) [of st] by (subst error_syntax.simps) (auto split: sum.splits halt.splits)
qed

lemma imagoscan_no_fuel [simp]: "imagoscan st \<noteq> Inl H_Fuel"
  using scan_token_shorter(3) [of st] by (auto simp: imagoscan_def split: sum.splits halt.splits)

lemma imagoscan_scan_token: "imagoscan st = Inr st' \<Longrightarrow> scan_token st = Inr st'"
  by (auto simp: imagoscan_def split: sum.splits halt.splits)

lemma imagoscan_less: "imagoscan st = Inr st' \<Longrightarrow> tokentype st \<noteq> ENDFILE \<Longrightarrow> tokens_left st' < tokens_left st"
  using scan_token_shorter(1) [OF imagoscan_scan_token, of st st'] by (auto simp: tokens_left_def)

text \<open>A run that does not run out of fuel, and leaves no more than m.\<close>

definition ends :: "nat \<Rightarrow> ('a \<times> scanner) scan \<Rightarrow> bool" where
  "ends m r = (case r of Inr (x, st) \<Rightarrow> tokens_left st \<le> m | Inl h \<Rightarrow> h \<noteq> H_Fuel)"

lemma ends_simps [simp]:
  "ends m (Inr (x, st)) = (tokens_left st \<le> m)" "ends m (Inl h) = (h \<noteq> H_Fuel)"
  by (simp_all add: ends_def)

lemma ends_mono: "ends m r \<Longrightarrow> m \<le> m' \<Longrightarrow> ends m' r"
  by (auto simp: ends_def split: sum.splits)

lemma ends_bind:
  assumes "ends m r" "\<And>x st. tokens_left st \<le> m \<Longrightarrow> ends m' (k (x, st))"
  shows "ends m' (sbind r k)"
  using assms by (cases r) auto

lemma ends_scan:
  assumes "tokentype st \<noteq> ENDFILE" "\<And>st'. tokens_left st' < tokens_left st \<Longrightarrow> ends m (k st')"
  shows "ends m (sbind (imagoscan st) k)"
proof (cases "imagoscan st")
  case (Inr st')
  thus ?thesis using assms imagoscan_less [OF Inr] by simp
qed (use imagoscan_no_fuel [of st] in simp)

lemma ends_token: "(\<And>t. ends m (k t)) \<Longrightarrow> ends m (sbind (cur_token st) k)"
  by (auto simp: cur_token_def split: option.splits)

lemma ends_argunum [simp]: "ends (tokens_left st) (argunum_term i t n st)"
  by (auto simp: argunum_term_def of_exit_def sbind_def split: sum.splits)

lemma ends_make [simp]: "ends (tokens_left st) (make_oimago_func i t es st)"
  by (auto simp: make_oimago_func_def split: iterm.splits list.splits option.splits)

lemma ends_argunum_le: "tokens_left st \<le> m \<Longrightarrow> ends m (argunum_term i t n st)"
  by (rule ends_mono [OF ends_argunum])

lemma ends_make_le: "tokens_left st \<le> m \<Longrightarrow> ends m (make_oimago_func i t es st)"
  by (rule ends_mono [OF ends_make])

lemma loop_operator_name: "loop_operator st = Some x \<Longrightarrow> tokentype st \<noteq> ENDFILE"
  by (auto simp: loop_operator_def split: if_splits)

lemma ends_argunum_bind:
  "(\<And>x st'. tokens_left st' \<le> tokens_left st \<Longrightarrow> ends m (k (x, st'))) \<Longrightarrow> ends m (sbind (argunum_term i t n st) k)"
  by (rule ends_bind [OF ends_argunum])

lemma ends_make_bind:
  "(\<And>x st'. tokens_left st' \<le> tokens_left st \<Longrightarrow> ends m (k (x, st'))) \<Longrightarrow> ends m (sbind (make_oimago_func i t es st) k)"
  by (rule ends_bind [OF ends_make])

lemma sbind_assoc: "sbind (sbind r k) k' = sbind r (\<lambda>x. sbind (k x) k')"
  by (cases r) auto

lemma ends_if: "(b \<Longrightarrow> ends m x) \<Longrightarrow> (\<not> b \<Longrightarrow> ends m y) \<Longrightarrow> ends m (if b then x else y)"
  by simp

lemma ends_case_option:
  "(x = None \<Longrightarrow> ends m a) \<Longrightarrow> (\<And>y. x = Some y \<Longrightarrow> ends m (b y)) \<Longrightarrow> ends m (case x of None \<Rightarrow> a | Some y \<Rightarrow> b y)"
  by (cases x) auto

lemmas ends_intros = ends_token ends_scan ends_argunum_bind ends_make_bind ends_if ends_case_option

lemma reader_ends:
  "(\<forall>n st. 4 * tokens_left st + 4 \<le> f \<longrightarrow> ends (tokens_left st) (get_imagoterm f n st))
   \<and> (\<forall>n p e st. 4 * tokens_left st + 2 \<le> f \<longrightarrow> ends (tokens_left st) (op_loop f n p e st))
   \<and> (\<forall>i t st. tokentype st \<noteq> ENDFILE \<longrightarrow> 4 * tokens_left st + 3 \<le> f \<longrightarrow> ends (tokens_left st) (get_args f i t st))
   \<and> (\<forall>ts st. 4 * tokens_left st + 2 \<le> f \<longrightarrow> ends (tokens_left st) (arg_loop f ts st))
   \<and> (\<forall>st. tokentype st \<noteq> ENDFILE \<longrightarrow> 4 * tokens_left st + 3 \<le> f \<longrightarrow> ends (tokens_left st) (get_list_term f st))"
proof (induction f)
  case (Suc f)
  have G: "ends m (sbind (get_imagoterm f n st) k)"
    if "4 * tokens_left st + 4 \<le> f" "\<And>x st'. tokens_left st' \<le> tokens_left st \<Longrightarrow> ends m (k (x, st'))" for n st m k
    by (rule ends_bind [of "tokens_left st"]) (use Suc that in blast)+
  have Ar: "ends m (sbind (get_args f i t st) k)"
    if "tokentype st \<noteq> ENDFILE" "4 * tokens_left st + 3 \<le> f"
      "\<And>x st'. tokens_left st' \<le> tokens_left st \<Longrightarrow> ends m (k (x, st'))" for i t st m k
    by (rule ends_bind [of "tokens_left st"]) (use Suc that in blast)+
  have A: "ends m (sbind (arg_loop f ts st) k)"
    if "4 * tokens_left st + 2 \<le> f" "\<And>x st'. tokens_left st' \<le> tokens_left st \<Longrightarrow> ends m (k (x, st'))" for ts st m k
    by (rule ends_bind [of "tokens_left st"]) (use Suc that in blast)+
  have L: "ends m (sbind (get_list_term f st) k)"
    if "tokentype st \<noteq> ENDFILE" "4 * tokens_left st + 3 \<le> f"
      "\<And>x st'. tokens_left st' \<le> tokens_left st \<Longrightarrow> ends m (k (x, st'))" for st m k
    by (rule ends_bind [of "tokens_left st"]) (use Suc that in blast)+
  have O: "ends m (op_loop f n p e st)" if "4 * tokens_left st + 2 \<le> f" "tokens_left st \<le> m" for n p e st m
    using Suc that ends_mono by blast
  have A': "ends m (arg_loop f ts st)" if "4 * tokens_left st + 2 \<le> f" "tokens_left st \<le> m" for ts st m
    using Suc that ends_mono by blast
  have L': "ends m (get_list_term f st)"
    if "tokentype st \<noteq> ENDFILE" "4 * tokens_left st + 3 \<le> f" "tokens_left st \<le> m" for st m
    using Suc that ends_mono by blast
  have Ag: "ends m (argunum_term i t n st)" if "tokens_left st \<le> m" for i t n st m
    by (rule ends_mono [OF ends_argunum that])
  note rs = ends_intros G Ar A L O A' L' Ag
  have 1: "ends (tokens_left st) (op_loop (Suc f) n p e st)" if "4 * tokens_left st + 2 \<le> Suc f" for n p e st
  proof (cases "loop_operator st")
    case (Some x)
    obtain b row where x: "x = (b, row)" by (cases x)
    show ?thesis
      using that Some x loop_operator_name [OF Some] by (auto simp: Let_def intro!: rs)
  qed simp
  have 2: "ends (tokens_left st) (arg_loop (Suc f) ts st)" if "4 * tokens_left st + 2 \<le> Suc f" for ts st
    using that by (auto simp: is_punc_def intro!: rs)
  have 3: "ends (tokens_left st) (get_args (Suc f) i t st)"
    if "tokentype st \<noteq> ENDFILE" "4 * tokens_left st + 3 \<le> Suc f" for i t st
    using that by (auto simp: Let_def is_paren_def intro!: rs)
  have 4: "ends (tokens_left st) (get_list_term (Suc f) st)"
    if "tokentype st \<noteq> ENDFILE" "4 * tokens_left st + 3 \<le> Suc f" for st
    using that by (auto simp: is_paren_def is_punc_def sbind_assoc split_def intro!: rs split: option.split)
  have 5: "ends (tokens_left st) (get_imagoterm (Suc f) n st)" if "4 * tokens_left st + 4 \<le> Suc f" for n st
    using that
    by (cases "tokentype st") (auto simp: Let_def is_paren_def is_nfix_node_def intro!: rs)
  show ?case using 1 2 3 4 5 by blast
qed simp


lemma fuel_enough: "ends (tokens_left st) (get_imagoterm (fuel_for st) n st)"
  using reader_ends [of "fuel_for st"] by (simp add: fuel_for_def tokens_left_def)

section \<open>getimagoterm and readsourcefile\<close>

lemma getimagoterm_ends:
  "getimagoterm st \<noteq> Inl H_Fuel" "getimagoterm st \<noteq> Inl (H_Syntax st')"
  "getimagoterm st = Inr (Some t, st') \<Longrightarrow> state_left st' < state_left st"
proof -
  let ?s = "st\<lparr>comma_flg := False, bar_flg := False, sc_tab := zero_vars (sc_tab st)\<rparr>"
  have l: "state_left ?s = state_left st" by (simp add: state_left_def)
  let ?k = "\<lambda>st. if tokentype st = ENDFILE then Inr (None, st)
             else sbind (get_imagoterm (fuel_for st) MAXPRI st) (\<lambda>(t, st).
               if is_punc (CHR ''.'') st \<and> t \<noteq> None then Inr (t, st) else Inl (error_syntax st))"
  have k: "?k s \<noteq> Inl H_Fuel \<and> (\<forall>t s'. ?k s = Inr (Some t, s') \<longrightarrow> state_left s' \<le> state_left s)" for s
  proof (cases "tokentype s = ENDFILE")
    case False
    show ?thesis using fuel_enough [of s MAXPRI] False
      by (cases "get_imagoterm (fuel_for s) MAXPRI s") (auto simp: tokens_left_def is_punc_def split: if_splits)
  qed simp
  define r where "r = sbind (imagoscan ?s) ?k"
  have r: "r \<noteq> Inl H_Fuel \<and> (\<forall>t s'. r = Inr (Some t, s') \<longrightarrow> state_left s' < state_left st)"
  proof (cases "imagoscan ?s")
    case (Inl h)
    thus ?thesis using imagoscan_no_fuel [of ?s] by (simp add: r_def)
  next
    case (Inr s)
    have "r = ?k s" by (simp only: r_def Inr sbind_simps)
    moreover have "state_left s < state_left st \<or> tokentype s = ENDFILE"
      using scan_token_shorter(1) [OF imagoscan_scan_token [OF Inr]] l by auto
    ultimately show ?thesis using k [of s] by (cases "tokentype s = ENDFILE") auto
  qed
  have e: "getimagoterm st = (case r of Inl (H_Syntax st) \<Rightarrow> Inr (None, st) | x \<Rightarrow> x)"
    by (simp only: getimagoterm_def Let_def r_def)
  show "getimagoterm st \<noteq> Inl H_Fuel" "getimagoterm st \<noteq> Inl (H_Syntax st')"
    "getimagoterm st = Inr (Some t, st') \<Longrightarrow> state_left st' < state_left st"
    using r unfolding e by (auto split: sum.splits halt.splits)
qed

lemma read_loop_ends: "state_left (cp_scan cp) < f \<Longrightarrow> read_clauses f cp \<noteq> Inl H_Fuel \<and> (\<forall>s. read_clauses f cp \<noteq> Inl (H_Syntax s))"
proof (induction f arbitrary: cp)
  case (Suc f)
  show ?case
  proof (cases "getimagoterm (cp_scan cp)")
    case (Inl h)
    thus ?thesis using getimagoterm_ends(1,2) [of "cp_scan cp"] by auto
  next
    case (Inr x)
    obtain tt st where x: "x = (tt, st)" by (cases x)
    show ?thesis
    proof (cases tt)
      case (Some t)
      have "state_left st < f" using getimagoterm_ends(3) [of "cp_scan cp" t st] Inr x Some Suc.prems by simp
      hence "read_clauses f \<lparr>cp_scan = st, cp_ct = ct\<rparr> \<noteq> Inl H_Fuel"
        "read_clauses f \<lparr>cp_scan = st, cp_ct = ct\<rparr> \<noteq> Inl (H_Syntax s)" for ct s
        using Suc.IH by auto
      thus ?thesis using Inr x Some by (cases "add_clause t (cp_ct cp)") (auto simp: Let_def split: if_splits)
    qed (use Inr x in simp)
  qed
qed simp

section \<open>What reading keeps of the tables\<close>

text \<open>A property of the tables that the three lookups of a token and the valuation of a functor keep.\<close>

locale table_invariant =
  fixes P :: "symtab \<Rightarrow> bool"
  assumes P_name: "P tab \<Longrightarrow> insert_name s (stringsum s) tab = Inr (i, tab') \<Longrightarrow> P tab'"
    and P_var: "P tab \<Longrightarrow> lookuimago_var s (stringsum s) tab = Inr (v, tab') \<Longrightarrow> P tab'"
    and P_argunum: "P tab \<Longrightarrow> argunum_imagoterm i t n tab = Inr (t', tab') \<Longrightarrow> P tab'"
    and P_zero: "P tab \<Longrightarrow> P (zero_vars tab)"
begin

definition tab_keeps :: "('a \<times> scanner) scan \<Rightarrow> bool" where
  "tab_keeps r = (case r of Inr (x, st) \<Rightarrow> P (sc_tab st) | Inl (H_Syntax st) \<Rightarrow> P (sc_tab st) | Inl _ \<Rightarrow> True)"

definition keeps_st :: "scanner scan \<Rightarrow> bool" where
  "keeps_st r = (case r of Inr st \<Rightarrow> P (sc_tab st) | Inl (H_Syntax st) \<Rightarrow> P (sc_tab st) | Inl _ \<Rightarrow> True)"

lemma tab_keeps_simps [simp]:
  "tab_keeps (Inr (x, st)) = P (sc_tab st)" "tab_keeps (Inl (H_Syntax st)) = P (sc_tab st)" "tab_keeps (Inl (H_Exit e))" "tab_keeps (Inl H_Fuel)"
  "keeps_st (Inr st) = P (sc_tab st)" "keeps_st (Inl (H_Syntax st)) = P (sc_tab st)" "keeps_st (Inl (H_Exit e))" "keeps_st (Inl H_Fuel)"
  by (simp_all add: tab_keeps_def keeps_st_def)

lemma keeps_bind: "tab_keeps r \<Longrightarrow> (\<And>x st. P (sc_tab st) \<Longrightarrow> tab_keeps (k (x, st))) \<Longrightarrow> tab_keeps (sbind r k)"
proof (cases r)
  case (Inl h)
  assume "tab_keeps r"
  thus ?thesis using Inl by (cases h) auto
qed auto

lemma keeps_bind_st: "keeps_st r \<Longrightarrow> (\<And>st. P (sc_tab st) \<Longrightarrow> tab_keeps (k st)) \<Longrightarrow> tab_keeps (sbind r k)"
proof (cases r)
  case (Inl h)
  assume "keeps_st r"
  thus ?thesis using Inl by (cases h) auto
qed auto

lemma keeps_bounds: "(\<And>x. keeps_st (k x)) \<Longrightarrow> keeps_st (sbind (of_bounds r) k)"
  by (cases r) simp_all

lemma name_token_keeps: "P (sc_tab st) \<Longrightarrow> keeps_st (name_token s st)"
  using P_name [of "sc_tab st" s]
  by (auto simp: name_token_def lookuphashtab_def of_exit_def split: sum.splits prod.splits)

lemma var_token_keeps: "P (sc_tab st) \<Longrightarrow> keeps_st (var_token s st)"
  using P_var [of "sc_tab st" s] by (auto simp: var_token_def of_exit_def split: sum.splits prod.splits)

lemma at_text_tab [simp]: "sc_tab (at_text c r st) = sc_tab st" by (simp add: at_text_def)

lemma symbol_token_keeps: "P (sc_tab st) \<Longrightarrow> keeps_st (symbol_token c r st)"
  by (auto simp: symbol_token_def Let_def of_bounds_def sbind_def name_token_keeps split: sum.splits prod.splits option.splits)

lemma scan_token_keeps: "P (sc_tab st) \<Longrightarrow> keeps_st (scan_token st)"
proof -
  assume P: "P (sc_tab st)"
  have q: "keeps_st (quoted_token c r st)" for c r
    unfolding quoted_token_def by (rule keeps_bounds) (auto simp: Let_def P name_token_keeps split: prod.splits)
  have s: "keeps_st (solo_token c r st)" "keeps_st (bracket_token c r st)" for c r
    using P by (auto simp: solo_token_def bracket_token_def Let_def name_token_keeps split: prod.splits)
  have k: "keeps_st (case k of
           A_UC \<Rightarrow> sbind (of_bounds (get_name c r)) (\<lambda>(s, d, r). var_token s (at_text d r st))
         | A_UL \<Rightarrow> sbind (of_bounds (get_name c r)) (\<lambda>(s, d, r). var_token s (at_text d r st))
         | A_LC \<Rightarrow> sbind (of_bounds (get_name c r)) (\<lambda>(s, d, r). name_token s (at_text d r st))
         | A_SY \<Rightarrow> symbol_token c r st
         | A_N \<Rightarrow> sbind (of_bounds (scan_number c r)) (\<lambda>(x, d, r).
                    Inr ((at_text d r st)\<lparr>tokenpointer := Some (create_real x), tokentype := REAL\<rparr>))
         | A_QT \<Rightarrow> quoted_token c r st
         | A_DC \<Rightarrow> quoted_token c r st
         | A_SL \<Rightarrow> solo_token c r st
         | A_BK \<Rightarrow> bracket_token c r st
         | A_ENDF \<Rightarrow> Inr ((at_text c r st)\<lparr>tokentype := ENDFILE\<rparr>)
         | A_BS \<Rightarrow> Inl (H_Syntax (at_text c r st)))" for k c r
    using P q s by (cases k) (auto intro!: keeps_bounds simp: name_token_keeps var_token_keeps symbol_token_keeps)
  show ?thesis
    by (auto simp: scan_token_def of_exit_def P intro!: keeps_bounds k split: sum.splits prod.splits)
qed

lemma error_syntax_keeps: "P (sc_tab st) \<Longrightarrow> tab_keeps (Inl (error_syntax st))"
proof (induction st rule: error_syntax.induct)
  case (1 st)
  thus ?case
    using scan_token_keeps [OF 1(3)] by (subst error_syntax.simps) (auto simp: keeps_st_def split: sum.splits halt.splits)
qed

lemma imagoscan_keeps: "P (sc_tab st) \<Longrightarrow> keeps_st (imagoscan st)"
proof (cases "scan_token st")
  case (Inl h)
  assume P: "P (sc_tab st)"
  show ?thesis
  proof (cases h)
    case (H_Syntax x)
    hence "tab_keeps (Inl (error_syntax x))" using scan_token_keeps [OF P] Inl by (intro error_syntax_keeps) simp
    thus ?thesis using Inl H_Syntax by (cases "error_syntax x") (simp_all add: imagoscan_def)
  qed (simp_all add: imagoscan_def Inl)
qed (use scan_token_keeps [of st] in \<open>simp add: imagoscan_def\<close>)

lemma argunum_keeps: "P (sc_tab st) \<Longrightarrow> tab_keeps (argunum_term i t n st)"
  using P_argunum [of "sc_tab st" i t n] by (auto simp: argunum_term_def of_exit_def sbind_def split: sum.splits)

lemma make_keeps: "P (sc_tab st) \<Longrightarrow> tab_keeps (make_oimago_func i t es st)"
  by (auto simp: make_oimago_func_def argunum_keeps split: iterm.splits list.splits option.splits)

lemma keeps_token: "(\<And>t. tab_keeps (k t)) \<Longrightarrow> tab_keeps (sbind (cur_token st) k)"
  by (auto simp: cur_token_def split: option.splits)

lemma keeps_scan:
  "P (sc_tab st) \<Longrightarrow> (\<And>st'. P (sc_tab st') \<Longrightarrow> tab_keeps (k st')) \<Longrightarrow> tab_keeps (sbind (imagoscan st) k)"
  by (rule keeps_bind_st [OF imagoscan_keeps])

lemma keeps_split:
  "(b \<Longrightarrow> tab_keeps x) \<Longrightarrow> (\<not> b \<Longrightarrow> tab_keeps y) \<Longrightarrow> tab_keeps (if b then x else y)"
  "(z = None \<Longrightarrow> tab_keeps a) \<Longrightarrow> (\<And>y. z = Some y \<Longrightarrow> tab_keeps (c y)) \<Longrightarrow> tab_keeps (case z of None \<Rightarrow> a | Some y \<Rightarrow> c y)"
  by (simp, cases z, auto)

lemma reader_keeps:
  "(\<forall>n st. P (sc_tab st) \<longrightarrow> tab_keeps (get_imagoterm f n st)) \<and> (\<forall>n p e st. P (sc_tab st) \<longrightarrow> tab_keeps (op_loop f n p e st))
   \<and> (\<forall>i t st. P (sc_tab st) \<longrightarrow> tab_keeps (get_args f i t st)) \<and> (\<forall>ts st. P (sc_tab st) \<longrightarrow> tab_keeps (arg_loop f ts st))
   \<and> (\<forall>st. P (sc_tab st) \<longrightarrow> tab_keeps (get_list_term f st))"
proof (induction f)
  case (Suc f)
  have ih: "P (sc_tab st) \<Longrightarrow> tab_keeps (get_imagoterm f n st)" "P (sc_tab st) \<Longrightarrow> tab_keeps (op_loop f n p e st)"
    "P (sc_tab st) \<Longrightarrow> tab_keeps (get_args f i t st)" "P (sc_tab st) \<Longrightarrow> tab_keeps (arg_loop f ts st)"
    "P (sc_tab st) \<Longrightarrow> tab_keeps (get_list_term f st)" for n p e i t ts st
    using Suc by blast+
  note rs = keeps_token keeps_scan keeps_split keeps_bind [OF ih(1)] keeps_bind [OF ih(3)] keeps_bind [OF ih(4)]
    keeps_bind [OF ih(5)] keeps_bind [OF make_keeps] keeps_bind [OF argunum_keeps] argunum_keeps make_keeps
    error_syntax_keeps ih
  have 1: "tab_keeps (get_imagoterm (Suc f) n st)" if "P (sc_tab st)" for n st
    using that by (cases "tokentype st") (auto simp: Let_def is_nfix_node_def intro!: rs)
  have 2: "tab_keeps (op_loop (Suc f) n p e st)" if "P (sc_tab st)" for n p e st
    using that by (cases "loop_operator st") (auto simp: Let_def intro!: rs)
  have 3: "tab_keeps (get_args (Suc f) i t st)" if "P (sc_tab st)" for i t st
    using that by (auto simp: Let_def intro!: rs)
  have 4: "tab_keeps (arg_loop (Suc f) ts st)" if "P (sc_tab st)" for ts st
    using that by (auto intro!: rs)
  have 5: "tab_keeps (get_list_term (Suc f) st)" if "P (sc_tab st)" for st
    using that by (auto simp: sbind_assoc split_def intro!: rs split: option.split)
  show ?case using 1 2 3 4 5 by blast
qed simp

lemma getimagoterm_keeps:
  assumes "P (sc_tab st)" "getimagoterm st = Inr (x, st')"
  shows "P (sc_tab st')"
proof -
  let ?s = "st\<lparr>comma_flg := False, bar_flg := False, sc_tab := zero_vars (sc_tab st)\<rparr>"
  let ?k = "\<lambda>st. if tokentype st = ENDFILE then Inr (None, st)
             else sbind (get_imagoterm (fuel_for st) MAXPRI st) (\<lambda>(t, st).
               if is_punc (CHR ''.'') st \<and> t \<noteq> None then Inr (t, st) else Inl (error_syntax st))"
  define r where "r = sbind (imagoscan ?s) ?k"
  have e: "getimagoterm st = (case r of Inl (H_Syntax st) \<Rightarrow> Inr (None, st) | x \<Rightarrow> x)"
    by (simp only: getimagoterm_def Let_def r_def)
  have g: "P (sc_tab s) \<Longrightarrow> tab_keeps (get_imagoterm f n s)" for f n s using reader_keeps [of f] by blast
  have "P (sc_tab ?s)" using P_zero [OF assms(1)] by simp
  hence "tab_keeps r"
    unfolding r_def by (rule keeps_scan) (auto intro!: keeps_bind [OF g] error_syntax_keeps)
  thus ?thesis using assms(2) unfolding e by (auto split: sum.splits halt.splits)
qed

lemma read_loop_keeps:
  "P (sc_tab (cp_scan cp)) \<Longrightarrow> read_clauses f cp = Inr cp' \<Longrightarrow> P (sc_tab (cp_scan cp'))"
proof (induction f arbitrary: cp)
  case (Suc f)
  then obtain tt st where g: "getimagoterm (cp_scan cp) = Inr (tt, st)"
    by (cases "getimagoterm (cp_scan cp)") auto
  have P: "P (sc_tab st)" using getimagoterm_keeps [OF Suc.prems(1) g] .
  show ?case
  proof (cases tt)
    case None
    thus ?thesis using Suc.prems(2) g P by auto
  next
    case (Some t)
    then obtain ok ct where a: "add_clause t (cp_ct cp) = Inr (ok, ct)"
      using Suc.prems(2) g by (cases "add_clause t (cp_ct cp)") auto
    show ?thesis
    proof (cases ok)
      case True
      have "read_clauses f \<lparr>cp_scan = st, cp_ct = ct\<rparr> = Inr cp'" using Suc.prems(2) g a Some True by simp
      thus ?thesis using Suc.IH [of "\<lparr>cp_scan = st, cp_ct = ct\<rparr>"] P by simp
    next
      case False
      thus ?thesis using Suc.prems(2) g a Some P by auto
    qed
  qed
qed simp

lemma readsourcefile_keeps:
  "P (sc_tab (cp_scan cp)) \<Longrightarrow> readsourcefile cp = Inr cp' \<Longrightarrow> P (sc_tab (cp_scan cp'))"
  unfolding readsourcefile_def by (rule read_loop_keeps)

end

text \<open>The invariant of the tables, and that names keep their nodes, functors their values.\<close>

interpretation growth: table_invariant "\<lambda>tab. tables_ok tab \<and> grows tab0 tab" for tab0
proof
  fix tab s i tab'
  assume "tables_ok tab \<and> grows tab0 tab" "insert_name s (stringsum s) tab = Inr (i, tab')"
  thus "tables_ok tab' \<and> grows tab0 tab'" using insert_name_tables(1,2) grows_trans by blast
next
  fix tab s v tab'
  assume "tables_ok tab \<and> grows tab0 tab" "lookuimago_var s (stringsum s) tab = Inr (v, tab')"
  thus "tables_ok tab' \<and> grows tab0 tab'" using lookup_var_tables(1,2) grows_trans by blast
next
  fix tab i t n t' tab'
  assume "tables_ok tab \<and> grows tab0 tab" "argunum_imagoterm i t n tab = Inr (t', tab')"
  thus "tables_ok tab' \<and> grows tab0 tab'" using argunum_tables(1,2) grows_trans by blast
next
  fix tab
  assume "tables_ok tab \<and> grows tab0 tab"
  thus "tables_ok (zero_vars tab) \<and> grows tab0 (zero_vars tab)" using zero_vars_tables(1,2) grows_trans by blast
qed

text \<open>
  Claim C20.  Reading a source file ends: whatever the text is, readsourcefile stores
  clauses and returns, or the compiler stops in fatalerror or goes wrong; it does not loop.
\<close>

theorem readsourcefile_ends:
  "(\<exists>cp'. readsourcefile cp = Inr cp') \<or> (\<exists>e. readsourcefile cp = Inl (H_Exit e))"
proof (cases "readsourcefile cp")
  case (Inl h)
  thus ?thesis using read_loop_ends [of cp "state_left (cp_scan cp) + 2"]
    by (cases h) (auto simp: readsourcefile_def)
qed blast


text \<open>
  Claim C19.  Reading a source file keeps the symbol table: its invariant holds
  afterwards, every functor keeps the value it had and every name its operators; and two
  functors outside the reserved range that have the same value are the same functor.
\<close>

theorem reading_keeps_functors:
  assumes "tables_ok (sc_tab (cp_scan cp))" "readsourcefile cp = Inr cp'"
  shows "tables_ok (sc_tab (cp_scan cp')) \<and> op_of (sc_tab (cp_scan cp')) = op_of (sc_tab (cp_scan cp))
    \<and> (\<forall>s n v. fun_val (sc_tab (cp_scan cp)) s n = Some v \<longrightarrow> fun_val (sc_tab (cp_scan cp')) s n = Some v)
    \<and> (\<forall>s n s' n' v. fun_val (sc_tab (cp_scan cp')) s n = Some v \<longrightarrow> fun_val (sc_tab (cp_scan cp')) s' n' = Some v
          \<longrightarrow> UNSER_DEF_PREDICATE \<le> v \<longrightarrow> s' = s \<and> n' = n)"
proof -
  have "grows (sc_tab (cp_scan cp)) (sc_tab (cp_scan cp))"
    by (rule grows_refl [OF tables_okD(3) [OF assms(1)]])
  with growth.readsourcefile_keeps [OF conjI assms(2), OF assms(1)]
  have t: "tables_ok (sc_tab (cp_scan cp'))" "grows (sc_tab (cp_scan cp)) (sc_tab (cp_scan cp'))" by blast+
  from tables_okD(1) [OF t(1)] t show ?thesis unfolding values_ok_def grows_def by blast
qed

section \<open>A program read into empty tables\<close>

lemma empty_tables_ok: "tables_ok empty_symtab"
proof -
  have c: "chains_ok empty_symtab" by (simp add: chains_ok_def empty_symtab_def INIT_HASH_SPACE_def)
  have n: "name_node empty_symtab s = None" "var_node empty_symtab s = None" for s
    by (simp_all add: name_node_def var_node_def find_node_def empty_symtab_def)
  have "var_idx empty_symtab s = None" "fun_val empty_symtab s m = None" for s m by (simp_all add: var_idx_def fun_val_def n)
  thus ?thesis using c n
    by (simp add: tables_ok_def values_ok_def vars_ok_def) (simp add: empty_symtab_def)
qed

definition demo_source :: compiler where
  "demo_source = \<lparr>cp_scan = \<lparr>sc_ch = CHR '' '', sc_rest = ''b(X). '', tokentype = NO_TOKEN, tokenchar = EOFC,
     tokenpointer = None, tok_node = 0, hnode_emptylist = 0, comma_flg = False, bar_flg = False, sc_tab = empty_symtab\<rparr>,
     cp_ct = empty_clause_table\<rparr>"

lemma demo_source_reads: "\<exists>cp'. readsourcefile demo_source = Inr cp' \<and> map cl_t (ct_clauses (cp_ct cp'))
    = [T_FUNC ''b'' 251 1 [T_VAR ''X'' 0 FIRST_VAR]]"
proof -
  have "case readsourcefile demo_source of Inl e \<Rightarrow> False | Inr cp \<Rightarrow> map cl_t (ct_clauses (cp_ct cp))
    = [T_FUNC ''b'' 251 1 [T_VAR ''X'' 0 FIRST_VAR]]" by code_simp
  thus ?thesis by (auto split: sum.splits)
qed

theorem reading_keeps_functors_witness:
  "\<exists>cp'. readsourcefile demo_source = Inr cp' \<and> tables_ok (sc_tab (cp_scan cp'))"
proof -
  obtain cp' where "readsourcefile demo_source = Inr cp'" using demo_source_reads by blast
  with reading_keeps_functors [of demo_source cp'] empty_tables_ok show ?thesis
    by (auto simp: demo_source_def)
qed

end
