(* ===== verification/MLVM_Clauses_Correct.thy ===== *)
theory MLVM_Clauses_Correct
  imports MLVM_Reader_Correct
begin

text \<open>
  The clause table of the compiler as a map of procedures: what a query and an
  assignment do to it, whatever the chains and the remembered node are; and the order
  in which readsourcefile leaves the clauses of each procedure.
\<close>

section \<open>The interface of the table\<close>

text \<open>A query reads the procedure of a name, an assignment changes it, or makes it first.\<close>

locale procedures =
  fixes inv :: "'s \<Rightarrow> bool" and view :: "'s \<Rightarrow> int \<Rightarrow> clause_node option" and text_of :: "'s \<Rightarrow> 'c"
    and query :: "int \<Rightarrow> 's \<Rightarrow> 'e + clause_node option \<times> 's"
    and assign :: "(clause_node \<Rightarrow> clause_node) \<Rightarrow> int \<Rightarrow> 's \<Rightarrow> 'e + 's"
    and blank :: "int \<Rightarrow> clause_node"
  assumes query_law: "\<And>s v x s'. inv s \<Longrightarrow> query v s = Inr (x, s') \<Longrightarrow>
      inv s' \<and> view s' = view s \<and> text_of s' = text_of s \<and> x = view s v"
    and assign_law: "\<And>s f v s'. inv s \<Longrightarrow> assign f v s = Inr s' \<Longrightarrow> (\<And>n. hc_name (f n) = hc_name n) \<Longrightarrow>
      inv s' \<and> text_of s' = text_of s \<and> view s' = (view s)(v \<mapsto> f (case view s v of None \<Rightarrow> blank v | Some n \<Rightarrow> n))"
begin

lemma query_after_assign:
  assumes "inv s" "sbind (assign f v s) (query w) = Inr (x, s')" "\<And>n. hc_name (f n) = hc_name n"
  shows "x = (if w = v then Some (f (case view s v of None \<Rightarrow> blank v | Some n \<Rightarrow> n)) else view s w)"
proof -
  obtain s1 where s1: "assign f v s = Inr s1" "query w s1 = Inr (x, s')" using assms(2) by auto
  from query_law [OF _ s1(2)] assign_law [OF assms(1) s1(1) assms(3)] show ?thesis by auto
qed

lemma assign_twice:
  assumes "inv s" "sbind (assign f v s) (assign g v) = Inr s'" "\<And>n. hc_name (f n) = hc_name n" "\<And>n. hc_name (g n) = hc_name n"
  shows "inv s' \<and> text_of s' = text_of s \<and> view s' = (view s)(v \<mapsto> g (f (case view s v of None \<Rightarrow> blank v | Some n \<Rightarrow> n)))"
proof -
  obtain s1 where s1: "assign f v s = Inr s1" "assign g v s1 = Inr s'" using assms(2) by auto
  from assign_law [OF assms(1) s1(1) assms(3)] have 1: "inv s1" "text_of s1 = text_of s"
    "view s1 = (view s)(v \<mapsto> f (case view s v of None \<Rightarrow> blank v | Some n \<Rightarrow> n))" by blast+
  from assign_law [OF 1(1) s1(2) assms(4)] 1 show ?thesis by simp
qed

lemma assign_thrice:
  assumes "inv s" "sbind (assign f v s) (\<lambda>s. sbind (assign g v s) (assign h v)) = Inr s'"
    "\<And>n. hc_name (f n) = hc_name n" "\<And>n. hc_name (g n) = hc_name n" "\<And>n. hc_name (h n) = hc_name n"
  shows "inv s' \<and> text_of s' = text_of s \<and> view s' = (view s)(v \<mapsto> h (g (f (case view s v of None \<Rightarrow> blank v | Some n \<Rightarrow> n))))"
proof -
  obtain s1 where s1: "assign f v s = Inr s1" "sbind (assign g v s1) (assign h v) = Inr s'" using assms(2) by auto
  from assign_law [OF assms(1) s1(1) assms(3)] have 1: "inv s1" "text_of s1 = text_of s"
    "view s1 = (view s)(v \<mapsto> f (case view s v of None \<Rightarrow> blank v | Some n \<Rightarrow> n))" by blast+
  from assign_twice [OF 1(1) s1(2) assms(4,5)] 1 show ?thesis by simp
qed

end

section \<open>The table\<close>

definition chained :: "clause_table \<Rightarrow> bool" where
  "chained ct = (\<forall>h. \<forall>i \<in> set (hash_imago_table ct h).
     i < length (ct_nodes ct) \<and> nat (hash_p (hc_name (proc_of ct i))) = h)"

text \<open>What is remembered is what the search would find.\<close>

definition procs_ok :: "clause_table \<Rightarrow> bool" where
  "procs_ok ct = (chained ct \<and> find_proc ct (last_name ct) = last_imago_node ct)"

definition proc_view :: "clause_table \<Rightarrow> int \<Rightarrow> clause_node option" where
  "proc_view ct v = map_option (proc_of ct) (find_proc ct v)"

lemma find_proc_cache [simp]: "find_proc (ct\<lparr>last_name := a, last_imago_node := b\<rparr>) v = find_proc ct v"
  by (simp add: find_proc_def)

lemma find_proc_SomeD:
  assumes "find_proc ct v = Some i"
  shows "i \<in> set (hash_imago_table ct (nat (hash_p v)))" "hc_name (proc_of ct i) = v"
  using assms by (auto simp: find_proc_def find_Some_iff)

lemma find_proc_bound: "procs_ok ct \<Longrightarrow> find_proc ct v = Some i \<Longrightarrow> i < length (ct_nodes ct)"
  using find_proc_SomeD(1) [of ct v i] by (auto simp: procs_ok_def chained_def)

lemma find_hash_clause_node_eq:
  assumes "procs_ok ct" "find_hash_clause_node v ct = Inr (p, ct')"
  shows "procs_ok ct' \<and> p = find_proc ct v \<and> find_proc ct' = find_proc ct \<and> ct_nodes ct' = ct_nodes ct \<and> ct_clauses ct' = ct_clauses ct"
  using assms by (auto simp: find_hash_clause_node_def procs_ok_def chained_def fun_eq_iff split: if_splits option.splits)

lemma query_view:
  assumes "procs_ok ct" "query_proc f d v ct = Inr (x, ct')"
  shows "procs_ok ct' \<and> proc_view ct' = proc_view ct \<and> ct_clauses ct' = ct_clauses ct
    \<and> x = (case proc_view ct v of None \<Rightarrow> d | Some n \<Rightarrow> f n)"
proof -
  obtain p ct1 where p: "find_hash_clause_node v ct = Inr (p, ct1)"
    and x: "x = (case p of None \<Rightarrow> d | Some i \<Rightarrow> f (proc_of ct1 i))" "ct' = ct1"
    using assms(2) by (auto simp: query_proc_def split: prod.splits)
  from find_hash_clause_node_eq [OF assms(1) p] x show ?thesis
    by (auto simp: proc_view_def fun_eq_iff split: option.splits)
qed

text \<open>A new procedure is the first of its chain, and the search for another name passes it.\<close>

lemma new_proc:
  assumes "procs_ok ct" "find_proc ct v = None" "v \<noteq> last_name ct"
  defines "ct' \<equiv> ct\<lparr>ct_nodes := ct_nodes ct @ [malloc_null_HASH_CLAUSE_NODE\<lparr>hc_name := v\<rparr>],
    hash_imago_table := (hash_imago_table ct)(nat (hash_p v) := length (ct_nodes ct) # hash_imago_table ct (nat (hash_p v)))\<rparr>"
  shows "procs_ok ct' \<and> find_proc ct' = (find_proc ct)(v \<mapsto> length (ct_nodes ct))"
proof -
  have b: "i < length (ct_nodes ct)" if "i \<in> set (hash_imago_table ct h)" for i h
    using that assms(1) by (auto simp: procs_ok_def chained_def)
  have n: "proc_of ct' i = proc_of ct i" if "i < length (ct_nodes ct)" for i
    using that by (simp add: ct'_def nth_append)
  have l: "proc_of ct' (length (ct_nodes ct)) = malloc_null_HASH_CLAUSE_NODE\<lparr>hc_name := v\<rparr>"
    by (simp add: ct'_def)
  have c: "find (\<lambda>i. hc_name (proc_of ct' i) = w) (hash_imago_table ct h)
    = find (\<lambda>i. hc_name (proc_of ct i) = w) (hash_imago_table ct h)" for w h
    by (rule find_cong) (use b n in auto)
  have f: "find_proc ct' w = (if w = v then Some (length (ct_nodes ct)) else find_proc ct w)" for w
    using l c [of w] by (auto simp: find_proc_def ct'_def)
  have "chained ct'"
    using assms(1) n l b unfolding procs_ok_def chained_def by (auto simp: ct'_def nth_append dest: b)
  moreover have "find_proc ct' (last_name ct') = last_imago_node ct'"
    using assms(1,3) f by (simp add: procs_ok_def ct'_def)
  ultimately show ?thesis using f by (auto simp: procs_ok_def)
qed

lemma create_view:
  assumes "procs_ok ct" "create_hash_clause_node v ct = Inr (Some i, ct')"
  shows "procs_ok ct' \<and> ct_clauses ct' = ct_clauses ct \<and> find_proc ct' v = Some i
    \<and> proc_view ct' = (proc_view ct)(v \<mapsto> (case proc_view ct v of None \<Rightarrow> malloc_null_HASH_CLAUSE_NODE\<lparr>hc_name := v\<rparr> | Some n \<Rightarrow> n))"
proof (cases "v = last_name ct \<or> find_proc ct v \<noteq> None")
  case True
  hence "procs_ok ct' \<and> ct_clauses ct' = ct_clauses ct \<and> find_proc ct v = Some i \<and> find_proc ct' = find_proc ct \<and> ct_nodes ct' = ct_nodes ct"
    using assms by (auto simp: create_hash_clause_node_def procs_ok_def chained_def fun_eq_iff split: if_splits option.splits)
  thus ?thesis by (auto simp: proc_view_def fun_eq_iff)
next
  case False
  hence f: "find_proc ct v = None" "v \<noteq> last_name ct" by auto
  note p = new_proc [OF assms(1) f]
  have e: "i = length (ct_nodes ct)" "ct' = ct\<lparr>ct_nodes := ct_nodes ct @ [malloc_null_HASH_CLAUSE_NODE\<lparr>hc_name := v\<rparr>],
    hash_imago_table := (hash_imago_table ct)(nat (hash_p v) := length (ct_nodes ct) # hash_imago_table ct (nat (hash_p v)))\<rparr>"
    using assms(2) f by (auto simp: create_hash_clause_node_def Let_def split: if_splits)
  have b: "find_proc ct w = Some j \<Longrightarrow> j < length (ct_nodes ct)" for w j
    using find_proc_bound [OF assms(1)] .
  have "proc_view ct' w = (if w = v then Some (malloc_null_HASH_CLAUSE_NODE\<lparr>hc_name := v\<rparr>) else proc_view ct w)" for w
    using p b unfolding e by (cases "find_proc ct w") (auto simp: proc_view_def nth_append)
  thus ?thesis using p f unfolding e by (auto simp: proc_view_def fun_eq_iff)
qed

lemma upd_proc_view:
  assumes "procs_ok ct" "find_proc ct v = Some i" "hc_name (f (proc_of ct i)) = hc_name (proc_of ct i)"
  shows "procs_ok (upd_proc i f ct) \<and> proc_view (upd_proc i f ct) = (proc_view ct)(v \<mapsto> f (proc_of ct i))"
proof -
  have i: "i < length (ct_nodes ct)" "hc_name (proc_of ct i) = v"
    using find_proc_SomeD [OF assms(2)] assms(1) by (auto simp: procs_ok_def chained_def)
  have n: "proc_of (upd_proc i f ct) j = (if j = i then f (proc_of ct i) else proc_of ct j)" for j
    using i by (simp add: upd_proc_def nth_list_update)
  have h: "hc_name (proc_of (upd_proc i f ct) j) = hc_name (proc_of ct j)" for j
    using n assms(3) by simp
  have t: "hash_imago_table (upd_proc i f ct) = hash_imago_table ct" "length (ct_nodes (upd_proc i f ct)) = length (ct_nodes ct)"
    "last_name (upd_proc i f ct) = last_name ct" "last_imago_node (upd_proc i f ct) = last_imago_node ct"
    by (simp_all add: upd_proc_def)
  have f: "find_proc (upd_proc i f ct) = find_proc ct" by (simp add: fun_eq_iff find_proc_def h t)
  have "procs_ok (upd_proc i f ct)" using assms(1) by (simp add: procs_ok_def chained_def f h t)
  moreover have "proc_view (upd_proc i f ct) w = ((proc_view ct)(v \<mapsto> f (proc_of ct i))) w" for w
    using assms(2) i find_proc_SomeD(2) [of ct w] by (cases "find_proc ct w") (auto simp: proc_view_def f n)
  ultimately show ?thesis by blast
qed

lemma assign_view:
  assumes "procs_ok ct" "assign_proc f v ct = Inr ct'" "\<And>n. hc_name (f n) = hc_name n"
  shows "procs_ok ct' \<and> ct_clauses ct' = ct_clauses ct
    \<and> proc_view ct' = (proc_view ct)(v \<mapsto> f (case proc_view ct v of None \<Rightarrow> malloc_null_HASH_CLAUSE_NODE\<lparr>hc_name := v\<rparr> | Some n \<Rightarrow> n))"
proof -
  obtain i ct1 where c: "create_hash_clause_node v ct = Inr (Some i, ct1)" "ct' = upd_proc i f ct1"
    using assms(2) by (auto simp: assign_proc_def split: prod.splits option.splits)
  from create_view [OF assms(1) c(1)] have 1: "procs_ok ct1" "ct_clauses ct1 = ct_clauses ct" "find_proc ct1 v = Some i"
    "proc_view ct1 = (proc_view ct)(v \<mapsto> (case proc_view ct v of None \<Rightarrow> malloc_null_HASH_CLAUSE_NODE\<lparr>hc_name := v\<rparr> | Some n \<Rightarrow> n))"
    by blast+
  have "proc_view ct1 v = Some (proc_of ct1 i)" using 1(3) by (simp add: proc_view_def)
  hence "proc_of ct1 i = (case proc_view ct v of None \<Rightarrow> malloc_null_HASH_CLAUSE_NODE\<lparr>hc_name := v\<rparr> | Some n \<Rightarrow> n)"
    by (simp add: 1(4))
  with upd_proc_view [of ct1 v i f, OF 1(1,3) assms(3)] 1 c(2) show ?thesis by (simp add: upd_proc_def)
qed

interpretation procs: procedures procs_ok proc_view ct_clauses "query_proc Some None" assign_proc
    "\<lambda>v. malloc_null_HASH_CLAUSE_NODE\<lparr>hc_name := v\<rparr>"
proof unfold_locales
  fix ct v x ct'
  assume "procs_ok ct" "query_proc Some None v ct = Inr (x, ct')"
  from query_view [OF this] show "procs_ok ct' \<and> proc_view ct' = proc_view ct \<and> ct_clauses ct' = ct_clauses ct \<and> x = proc_view ct v"
    by (auto split: option.splits)
qed (rule assign_view)

section \<open>The clauses of a procedure\<close>

text \<open>The clauses reached from a link, one after the other.\<close>

fun linked :: "clause list \<Rightarrow> nat option \<Rightarrow> nat list \<Rightarrow> bool" where
  "linked cs p [] = (p = None)"
| "linked cs p (r # rs) = (p = Some r \<and> r < length cs \<and> linked cs (cl_next (cs ! r)) rs)"

text \<open>The stored clauses of a name, in the order in which they were stored.\<close>

definition clauses_for :: "clause list \<Rightarrow> int \<Rightarrow> nat list" where
  "clauses_for cs v = filter (\<lambda>r. head_val (cl_wt (cs ! r)) = Inr v) [0..<length cs]"

text \<open>The list of a procedure, its last clause, their number and their ids.\<close>

definition lists :: "clause_node \<Rightarrow> clause list \<Rightarrow> nat list \<Rightarrow> bool" where
  "lists n cs rs =
     (linked cs (hc_first n) rs \<and> (rs \<noteq> [] \<longrightarrow> hc_last n = Some (last rs) \<and> hc_n_clauses n = int (length rs))
      \<and> (\<forall>k < length rs. cl_id (cs ! (rs ! k)) = int k + 1))"

definition null_proc :: "clause_node option \<Rightarrow> clause_node" where
  "null_proc p = (case p of None \<Rightarrow> malloc_null_HASH_CLAUSE_NODE | Some n \<Rightarrow> n)"

definition table_ok :: "clause_table \<Rightarrow> bool" where
  "table_ok ct = (procs_ok ct \<and> (\<forall>v. lists (null_proc (proc_view ct v)) (ct_clauses ct) (clauses_for (ct_clauses ct) v)))"

lemma linked_frame:
  "linked cs p rs \<Longrightarrow> length cs \<le> length cs' \<Longrightarrow> (\<And>r. r \<in> set rs \<Longrightarrow> cl_next (cs' ! r) = cl_next (cs ! r)) \<Longrightarrow> linked cs' p rs"
  by (induction cs p rs rule: linked.induct) auto

lemma linked_snoc:
  "linked cs p rs \<Longrightarrow> rs \<noteq> [] \<Longrightarrow> distinct rs \<Longrightarrow> length cs < length cs' \<Longrightarrow> cl_next (cs' ! last rs) = Some (length cs)
   \<Longrightarrow> cl_next (cs' ! length cs) = None \<Longrightarrow> (\<And>r. r \<in> set (butlast rs) \<Longrightarrow> cl_next (cs' ! r) = cl_next (cs ! r))
   \<Longrightarrow> linked cs' p (rs @ [length cs])"
  by (induction cs p rs rule: linked.induct) (auto split: if_splits)

lemma clauses_for_bound: "r \<in> set (clauses_for cs v) \<Longrightarrow> r < length cs \<and> head_val (cl_wt (cs ! r)) = Inr v"
  by (simp add: clauses_for_def)

lemma clauses_for_distinct [simp]: "distinct (clauses_for cs v)" by (simp add: clauses_for_def)

lemma clauses_for_snoc:
  assumes "length cs' = length cs" "\<And>r. r < length cs \<Longrightarrow> cl_wt (cs' ! r) = cl_wt (cs ! r)"
  shows "clauses_for (cs' @ [c]) v = clauses_for cs v @ (if head_val (cl_wt c) = Inr v then [length cs] else [])"
proof -
  have "filter (\<lambda>r. head_val (cl_wt ((cs' @ [c]) ! r)) = Inr v) [0..<length cs] = clauses_for cs v"
    unfolding clauses_for_def by (rule filter_cong) (simp_all add: nth_append assms)
  moreover have "(cs' @ [c]) ! length cs = c" using assms(1) nth_append_length [of cs' c "[]"] by simp
  ultimately show ?thesis by (simp add: clauses_for_def assms(1))
qed

lemma lists_other:
  assumes "lists n cs (clauses_for cs v)" "length cs \<le> length cs'"
    "\<And>r. r \<in> set (clauses_for cs v) \<Longrightarrow> cl_next (cs' ! r) = cl_next (cs ! r) \<and> cl_id (cs' ! r) = cl_id (cs ! r)"
  shows "lists n cs' (clauses_for cs v)"
  using assms linked_frame [of cs _ "clauses_for cs v" cs'] by (simp add: lists_def)

text \<open>A clause is put behind the last one of its procedure.\<close>

definition behind :: "clause list \<Rightarrow> nat option \<Rightarrow> clause \<Rightarrow> clause list" where
  "behind cs tr c = (case tr of
     None \<Rightarrow> cs @ [c\<lparr>cl_id := 1\<rparr>]
   | Some l \<Rightarrow> cs[l := (cs ! l)\<lparr>cl_next := Some (length cs)\<rparr>] @ [c\<lparr>cl_id := (if cl_id (cs ! l) = -1 then 1 else cl_id (cs ! l) + 1)\<rparr>])"

definition last_of :: "nat list \<Rightarrow> nat option" where
  "last_of rs = (if rs = [] then None else Some (last rs))"

lemma behind_old:
  assumes "r < length cs"
  shows "behind cs tr c ! r = (if tr = Some r then (cs ! r)\<lparr>cl_next := Some (length cs)\<rparr> else cs ! r)"
proof (cases tr)
  case (Some l)
  thus ?thesis using assms by (cases "l = r") (simp_all add: behind_def nth_append)
qed (use assms in \<open>simp add: behind_def nth_append\<close>)

lemma behind_new:
  "behind cs tr c ! length cs = c\<lparr>cl_id := (case tr of None \<Rightarrow> 1 | Some l \<Rightarrow> if cl_id (cs ! l) = -1 then 1 else cl_id (cs ! l) + 1)\<rparr>"
  by (cases tr) (simp_all add: behind_def nth_append)

lemma behind_keeps:
  "length (behind cs tr c) = Suc (length cs)"
  "r < length cs \<Longrightarrow> cl_id (behind cs tr c ! r) = cl_id (cs ! r) \<and> cl_wt (behind cs tr c ! r) = cl_wt (cs ! r)
     \<and> cl_t (behind cs tr c ! r) = cl_t (cs ! r)"
  "r < length cs \<Longrightarrow> tr \<noteq> Some r \<Longrightarrow> cl_next (behind cs tr c ! r) = cl_next (cs ! r)"
  "cl_t (behind cs tr c ! length cs) = cl_t c" "cl_wt (behind cs tr c ! length cs) = cl_wt c"
  by (simp_all add: behind_old behind_new) (simp add: behind_def split: option.split)

lemma clauses_for_behind:
  "clauses_for (behind cs tr c) v = clauses_for cs v @ (if head_val (cl_wt c) = Inr v then [length cs] else [])"
proof (cases tr)
  case (Some l)
  let ?d = "c\<lparr>cl_id := (if cl_id (cs ! l) = -1 then 1 else cl_id (cs ! l) + 1)\<rparr>"
  have "clauses_for (cs[l := (cs ! l)\<lparr>cl_next := Some (length cs)\<rparr>] @ [?d]) v
    = clauses_for cs v @ (if head_val (cl_wt ?d) = Inr v then [length cs] else [])"
  proof (rule clauses_for_snoc)
    show "cl_wt (cs[l := (cs ! l)\<lparr>cl_next := Some (length cs)\<rparr>] ! r) = cl_wt (cs ! r)" if "r < length cs" for r
      using that by (cases "l = r") auto
  qed simp
  thus ?thesis by (simp add: behind_def Some)
qed (use clauses_for_snoc [of cs cs "c\<lparr>cl_id := 1\<rparr>" v] in \<open>simp add: behind_def\<close>)

lemma lists_behind:
  assumes "lists n cs (clauses_for cs v)" "head_val (cl_wt c) = Inr v" "cl_next c = None"
    "tr = last_of (clauses_for cs v)"
    "hc_first n' = (if tr = None then Some (length cs) else hc_first n)" "hc_last n' = Some (length cs)"
    "hc_n_clauses n' = (if tr = None then 1 else hc_n_clauses n + 1)"
  shows "lists n' (behind cs tr c) (clauses_for (behind cs tr c) v)"
proof (cases "clauses_for cs v = []")
  case True
  hence tr: "tr = None" using assms(4) by (simp add: last_of_def)
  have "clauses_for (behind cs tr c) v = [length cs]" using assms(2) True by (simp add: clauses_for_behind)
  thus ?thesis using assms(3,5-7) tr by (simp add: lists_def behind_def nth_append)
next
  case False
  let ?rs = "clauses_for cs v" and ?cs = "behind cs tr c"
  have tr: "tr = Some (last ?rs)" using False assms(4) by (simp add: last_of_def)
  have l: "last ?rs < length cs" using clauses_for_bound [of "last ?rs" cs v] False by simp
  have id: "cl_id (cs ! last ?rs) = int (length ?rs)"
  proof -
    have "cl_id (cs ! (?rs ! (length ?rs - 1))) = int (length ?rs - 1) + 1" using assms(1) False by (simp add: lists_def)
    thus ?thesis using False by (cases "length ?rs") (simp_all add: last_conv_nth)
  qed
  have nx: "cl_next (?cs ! last ?rs) = Some (length cs)" "cl_next (?cs ! length cs) = None"
    "cl_id (?cs ! length cs) = int (length ?rs) + 1"
    using l assms(3) id by (simp_all add: behind_old behind_new tr)
  have "linked ?cs (hc_first n) (?rs @ [length cs])"
  proof (rule linked_snoc)
    show "linked cs (hc_first n) ?rs" using assms(1) by (simp add: lists_def)
    fix r
    assume r: "r \<in> set (butlast ?rs)"
    hence "r \<noteq> last ?rs" using clauses_for_distinct [of cs v] False
      by (metis append_butlast_last_id distinct_butlast not_distinct_conv_prefix)
    moreover have "r < length cs" using in_set_butlastD [OF r] clauses_for_bound by blast
    ultimately show "cl_next (?cs ! r) = cl_next (cs ! r)" using behind_keeps(3) tr by simp
  qed (use False nx behind_keeps(1) in simp_all)
  moreover have "cl_id (?cs ! ((?rs @ [length cs]) ! k)) = int k + 1" if "k < Suc (length ?rs)" for k
  proof (cases "k < length ?rs")
    case True
    hence "?rs ! k < length cs" using clauses_for_bound nth_mem by blast
    thus ?thesis using True assms(1) behind_keeps(2) by (simp add: lists_def nth_append)
  next
    case False
    hence "k = length ?rs" using that by simp
    thus ?thesis using nx(3) by simp
  qed
  ultimately show ?thesis using assms(1,2,5-7) False tr unfolding lists_def clauses_for_behind by simp
qed

lemma table_ok_behind:
  assumes "table_ok ct" "head_val (cl_wt c) = Inr v" "cl_next c = None" "procs_ok ct'"
    "tr = last_of (clauses_for (ct_clauses ct) v)" "ct_clauses ct' = behind (ct_clauses ct) tr c"
    "proc_view ct' = (proc_view ct)(v \<mapsto> n')"
    "hc_first n' = (if tr = None then Some (length (ct_clauses ct)) else hc_first (null_proc (proc_view ct v)))"
    "hc_last n' = Some (length (ct_clauses ct))"
    "hc_n_clauses n' = (if tr = None then 1 else hc_n_clauses (null_proc (proc_view ct v)) + 1)"
  shows "table_ok ct'"
proof -
  have l: "lists (null_proc (proc_view ct w)) (ct_clauses ct) (clauses_for (ct_clauses ct) w)" for w
    using assms(1) by (simp add: table_ok_def)
  have "lists (null_proc (proc_view ct' w)) (ct_clauses ct') (clauses_for (ct_clauses ct') w)" for w
  proof (cases "w = v")
    case True
    thus ?thesis using lists_behind [OF l assms(2,3,5,8-10)] by (simp add: assms(6,7) null_proc_def)
  next
    case False
    have e: "clauses_for (ct_clauses ct') w = clauses_for (ct_clauses ct) w"
      using assms(2) False by (simp add: assms(6) clauses_for_behind)
    have "tr \<noteq> Some r \<and> r < length (ct_clauses ct)" if "r \<in> set (clauses_for (ct_clauses ct) w)" for r
      using clauses_for_bound [OF that] clauses_for_bound [of r "ct_clauses ct" v] False
      by (auto simp: assms(5) last_of_def split: if_splits)
    hence "lists (null_proc (proc_view ct w)) (ct_clauses ct') (clauses_for (ct_clauses ct) w)"
      by (intro lists_other [OF l]) (simp_all add: assms(6) behind_keeps)
    thus ?thesis using False by (simp add: e assms(7))
  qed
  thus ?thesis using assms(4) by (simp add: table_ok_def)
qed

lemma query_null:
  assumes "procs_ok ct" "query_proc f (f malloc_null_HASH_CLAUSE_NODE) v ct = Inr (x, ct')"
  shows "procs_ok ct' \<and> proc_view ct' = proc_view ct \<and> ct_clauses ct' = ct_clauses ct \<and> x = f (null_proc (proc_view ct v))"
  using query_view [OF assms] by (auto simp: null_proc_def split: option.splits)

lemma null_node_simps [simp]:
  "hc_first malloc_null_HASH_CLAUSE_NODE = None" "hc_last malloc_null_HASH_CLAUSE_NODE = None"
  "hc_n_clauses malloc_null_HASH_CLAUSE_NODE = 0"
  by (simp_all add: malloc_null_HASH_CLAUSE_NODE_def)

lemmas clause_queries = query_null [where f = hc_first, simplified, folded imago_first_clause_def]
  query_null [where f = hc_last, simplified, folded imago_last_clause_def]
  query_null [where f = hc_n_clauses, simplified, folded imago_n_clauses_def]

lemma store_clause_ok:
  assumes "table_ok ct" "store_clause to t ct = Inr ct'"
  shows "table_ok ct' \<and> (\<exists>tr. ct_clauses ct' = behind (ct_clauses ct) tr (create_clause to t))"
proof -
  obtain v where v: "head_val t = Inr v" using assms(2) by (auto simp: store_clause_def)
  let ?cs = "ct_clauses ct" and ?c = "create_clause to t" and ?n = "null_proc (proc_view ct v)"
  have ok: "procs_ok ct" and l: "lists ?n ?cs (clauses_for ?cs v)" using assms(1) by (simp_all add: table_ok_def)
  obtain p ct1 where q: "imago_first_clause v ct = Inr (p, ct1)" using assms(2) v by (auto simp: store_clause_def Let_def)
  note q1 = clause_queries(1) [OF ok q]
  have c: "head_val (cl_wt ?c) = Inr v" "cl_next ?c = None" using v by (simp_all add: create_clause_def)
  show ?thesis
  proof (cases p)
    case None
    hence e: "clauses_for ?cs v = []" using l q1 by (cases "clauses_for ?cs v") (auto simp: lists_def)
    obtain ct2 where ct2: "sbind (assign_proc (hc_first_update (\<lambda>_. Some (length ?cs))) v ct1) (\<lambda>ct.
        sbind (assign_proc (hc_last_update (\<lambda>_. Some (length ?cs))) v ct) (assign_proc (hc_n_clauses_update (\<lambda>_. 1)) v)) = Inr ct2"
      "ct' = ct2\<lparr>ct_clauses := ct_clauses ct2 @ [?c\<lparr>cl_id := 1\<rparr>]\<rparr>"
      using assms(2) v q None
      by (auto simp: store_clause_def Let_def assign_imago_first_clause_def assign_imago_last_clause_def assign_imago_n_clauses_def)
    have q: "procs_ok ct1" using q1 by blast
    from procs.assign_thrice [OF q ct2(1)] q1 ct2(2) have 2: "procs_ok ct2" "ct_clauses ct2 = ?cs"
      "\<exists>n'. proc_view ct2 = (proc_view ct)(v \<mapsto> n') \<and> hc_first n' = Some (length ?cs) \<and> hc_last n' = Some (length ?cs) \<and> hc_n_clauses n' = 1"
      by auto
    have "procs_ok ct'" "proc_view ct' = proc_view ct2" using 2(1) unfolding ct2(2)
      by (simp_all add: procs_ok_def chained_def find_proc_def proc_view_def fun_eq_iff)
    moreover have "ct_clauses ct' = behind ?cs None ?c" using 2(2) ct2(2) by (simp add: behind_def)
    ultimately show ?thesis using 2(3) table_ok_behind [OF assms(1) c, of ct' None] e by (auto simp: last_of_def)
  next
    case (Some a)
    hence e: "clauses_for ?cs v \<noteq> []" using l q1 by (cases "clauses_for ?cs v") (auto simp: lists_def)
    obtain lst ct2 where q2: "imago_last_clause v ct1 = Inr (lst, ct2)"
      using assms(2) v q Some by (auto simp: store_clause_def Let_def)
    note q3 = clause_queries(2) [OF conjunct1 [OF q1] q2]
    have lst: "lst = Some (last (clauses_for ?cs v))" using l e q1 q3 by (auto simp: lists_def)
    obtain n ct3 where q4: "imago_n_clauses v ct2 = Inr (n, ct3)"
      using assms(2) v q Some q2 lst by (auto simp: store_clause_def Let_def)
    note q5 = clause_queries(3) [OF conjunct1 [OF q3] q4]
    have cs: "ct_clauses ct2 = ?cs" using q1 q3 by simp
    obtain ct4 where ct4: "sbind (assign_proc (hc_n_clauses_update (\<lambda>_. n + 1)) v ct3) (assign_proc (hc_last_update (\<lambda>_. Some (length ?cs))) v) = Inr ct4"
      "ct' = ct4\<lparr>ct_clauses := behind ?cs lst ?c\<rparr>"
      using assms(2) v q Some q2 q4 lst cs
      by (auto simp: store_clause_def Let_def behind_def assign_imago_last_clause_def assign_imago_n_clauses_def)
    have q: "procs_ok ct3" using q5 by blast
    have nn: "hc_n_clauses n' = hc_n_clauses ?n + 1" if "n' = hc_last_update f (hc_n_clauses_update (\<lambda>_. n + 1) m)" for n' f m
      using that q1 q3 q5 by simp
    have fs: "(case proc_view ct v of None \<Rightarrow> hc_first (malloc_null_HASH_CLAUSE_NODE\<lparr>hc_name := v\<rparr>) | Some n \<Rightarrow> hc_first n) = hc_first ?n"
      by (auto simp: null_proc_def split: option.split)
    from procs.assign_twice [OF q ct4(1)] q1 q3 q5 fs have 2: "procs_ok ct4"
      "\<exists>n'. proc_view ct4 = (proc_view ct)(v \<mapsto> n') \<and> hc_first n' = hc_first ?n \<and> hc_last n' = Some (length ?cs) \<and> hc_n_clauses n' = hc_n_clauses ?n + 1"
      by (auto split: option.splits)
    have "procs_ok ct'" "proc_view ct' = proc_view ct4" using 2(1) unfolding ct4(2)
      by (simp_all add: procs_ok_def chained_def find_proc_def proc_view_def fun_eq_iff)
    moreover have "ct_clauses ct' = behind ?cs lst ?c" using ct4(2) by simp
    ultimately show ?thesis using 2(2) table_ok_behind [OF assms(1) c, of ct' lst] e lst by (auto simp: last_of_def)
  qed
qed

section \<open>Reading clauses\<close>

lemma assign_flag_table:
  assumes "table_ok ct" "assign_flag b v x ct = Inr ct'"
  shows "table_ok ct' \<and> ct_clauses ct' = ct_clauses ct"
proof -
  have ok: "procs_ok ct" using assms(1) by (simp add: table_ok_def)
  let ?f = "hc_flags_update (\<lambda>y. if x then y OR b else y AND NOT b)"
  have e: "assign_proc ?f v ct = Inr ct'" using assms(2) by (simp add: assign_flag_def)
  from assign_view [OF ok e] have a: "procs_ok ct'" "ct_clauses ct' = ct_clauses ct"
    "proc_view ct' = (proc_view ct)(v \<mapsto> ?f (case proc_view ct v of None \<Rightarrow> malloc_null_HASH_CLAUSE_NODE\<lparr>hc_name := v\<rparr> | Some n \<Rightarrow> n))"
    by simp_all
  have "lists (null_proc (proc_view ct' w)) cs rs = lists (null_proc (proc_view ct w)) cs rs" for w cs rs
    by (cases "proc_view ct v") (auto simp: a(3) null_proc_def lists_def)
  thus ?thesis using assms(1) a(1,2) by (simp add: table_ok_def)
qed

text \<open>The clauses as they were read and as they are to be compiled.\<close>

definition stored_clauses :: "clause_table \<Rightarrow> (iterm \<times> iterm) list" where
  "stored_clauses ct = map (\<lambda>c. (cl_t c, cl_wt c)) (ct_clauses ct)"

text \<open>The terms that successive calls of getimagoterm return, and the scanner they leave.\<close>

inductive terms_read :: "scanner \<Rightarrow> iterm list \<Rightarrow> scanner \<Rightarrow> bool" where
  none: "terms_read st [] st"
| more: "getimagoterm st = Inr (Some t, st1) \<Longrightarrow> terms_read st1 ts st2 \<Longrightarrow> terms_read st (t # ts) st2"

text \<open>A term that can stand as a clause, and what is compiled for it.\<close>

definition compiled_as :: "iterm \<Rightarrow> iterm \<Rightarrow> bool" where
  "compiled_as t wt = (\<exists>fcut fquote. check_clause t = Inr (True, fcut, fquote)
     \<and> (if fquote then quote_expand False t = Inr wt else wt = t))"

lemma map_behind:
  "map (\<lambda>c. (cl_t c, cl_wt c)) (behind cs tr c) = map (\<lambda>c. (cl_t c, cl_wt c)) cs @ [(cl_t c, cl_wt c)]"
proof (rule nth_equalityI)
  fix i
  assume "i < length (map (\<lambda>c. (cl_t c, cl_wt c)) (behind cs tr c))"
  hence "i < length cs \<or> i = length cs" by (auto simp: behind_keeps)
  thus "map (\<lambda>c. (cl_t c, cl_wt c)) (behind cs tr c) ! i = (map (\<lambda>c. (cl_t c, cl_wt c)) cs @ [(cl_t c, cl_wt c)]) ! i"
    by (auto simp: behind_keeps nth_append)
qed (simp add: behind_keeps)

lemma add_clause_table:
  assumes "table_ok ct" "add_clause tt ct = Inr (ok, ct')"
  shows "table_ok ct' \<and> (if ok then \<exists>wt. compiled_as tt wt \<and> stored_clauses ct' = stored_clauses ct @ [(tt, wt)]
      else ct' = ct \<and> (\<exists>fcut fquote. check_clause tt = Inr (False, fcut, fquote)))"
proof -
  obtain b fcut fquote where ch: "check_clause tt = Inr (b, fcut, fquote)"
    using assms(2) by (auto simp: add_clause_def)
  show ?thesis
  proof (cases b)
    case False
    thus ?thesis using assms ch by (auto simp: add_clause_def)
  next
    case True
    then obtain wt v ct1 ct2 where s: "(if fquote then quote_expand False tt else Inr tt) = Inr wt"
      "(if fcut then assign_imago_cut v True ct else Inr ct) = Inr ct1" "store_clause tt wt ct1 = Inr ct2"
      "assign_imago_added (term_val tt) True ct2 = Inr ct'" "ok"
      using assms(2) ch by (auto simp: add_clause_def)
    have 1: "table_ok ct1 \<and> ct_clauses ct1 = ct_clauses ct"
      using s(2) assms(1) assign_flag_table [OF assms(1)] by (auto simp: assign_imago_cut_def split: if_splits)
    from store_clause_ok [OF conjunct1 [OF 1] s(3)] obtain tr where 2: "table_ok ct2"
      "ct_clauses ct2 = behind (ct_clauses ct1) tr (create_clause tt wt)" by blast
    have 3: "table_ok ct' \<and> ct_clauses ct' = ct_clauses ct2"
      using assign_flag_table [OF 2(1)] s(4) by (simp add: assign_imago_added_def)
    have "stored_clauses ct' = stored_clauses ct @ [(tt, wt)]" using 1 2(2) 3 by (simp add: stored_clauses_def map_behind create_clause_def)
    moreover have "compiled_as tt wt" using ch True s(1) by (auto simp: compiled_as_def split: if_splits)
    ultimately show ?thesis using 3 s(5) by auto
  qed
qed

text \<open>Why the loop ended in state cp: no term was read, or one that is not a clause.\<close>

definition reading_ends :: "scanner \<Rightarrow> scanner \<Rightarrow> bool" where
  "reading_ends st st' = (getimagoterm st = Inr (None, st')
     \<or> (\<exists>t fcut fquote. getimagoterm st = Inr (Some t, st') \<and> check_clause t = Inr (False, fcut, fquote)))"

lemma read_loop_table:
  "table_ok (cp_ct cp) \<Longrightarrow> read_clauses f cp = Inr cp'
   \<Longrightarrow> table_ok (cp_ct cp') \<and> (\<exists>new st. terms_read (cp_scan cp) (map fst new) st \<and> reading_ends st (cp_scan cp')
        \<and> stored_clauses (cp_ct cp') = stored_clauses (cp_ct cp) @ new \<and> (\<forall>(t, wt)\<in>set new. compiled_as t wt))"
proof (induction f arbitrary: cp)
  case (Suc f)
  then obtain tt st where g: "getimagoterm (cp_scan cp) = Inr (tt, st)"
    by (cases "getimagoterm (cp_scan cp)") auto
  have fin: ?case if "table_ok (cp_ct cp')" "cp_ct cp' = cp_ct cp" "reading_ends (cp_scan cp) (cp_scan cp')"
    using that terms_read.none by (intro conjI exI [of _ "[]"]) auto
  show ?case
  proof (cases tt)
    case None
    thus ?thesis using Suc.prems g by (intro fin) (auto simp: reading_ends_def)
  next
    case (Some t)
    then obtain ok ct where a: "add_clause t (cp_ct cp) = Inr (ok, ct)"
      using Suc.prems(2) g by (cases "add_clause t (cp_ct cp)") auto
    note n = add_clause_table [OF Suc.prems(1) a]
    show ?thesis
    proof (cases ok)
      case True
      then obtain wt where wt: "compiled_as t wt" "stored_clauses ct = stored_clauses (cp_ct cp) @ [(t, wt)]" using n by auto
      have "read_clauses f \<lparr>cp_scan = st, cp_ct = ct\<rparr> = Inr cp'" using Suc.prems(2) g a Some True by simp
      from Suc.IH [OF _ this] n obtain new st2 where IH: "table_ok (cp_ct cp')" "terms_read st (map fst new) st2"
        "reading_ends st2 (cp_scan cp')" "stored_clauses (cp_ct cp') = stored_clauses ct @ new" "\<forall>(t, wt)\<in>set new. compiled_as t wt"
        by auto
      have "terms_read (cp_scan cp) (map fst ((t, wt) # new)) st2" using terms_read.more IH(2) g Some by simp
      thus ?thesis using IH wt by (intro conjI exI [of _ "(t, wt) # new"] exI [of _ st2]) auto
    next
      case False
      thus ?thesis using Suc.prems(2) g a Some n by (intro fin) (auto simp: reading_ends_def)
    qed
  qed
qed simp

text \<open>
  Claim C18.  readsourcefile keeps the clauses in the order of the text.  The terms it
  appends to the clauses there were are exactly the terms that successive calls of
  getimagoterm return from the scanner it was given, none left out and none moved; every
  one passes check_clause and is stored with what is compiled for it, the term itself or
  the term with its quotes expanded.  It stops where getimagoterm returns no term, or at
  the first term check_clause rejects, which is not stored.  For every procedure the
  links lead through exactly the stored clauses with its head, in this order, numbered
  from 1, with their number and the last of them in the node of the procedure.
\<close>

theorem clauses_in_text_order:
  assumes "table_ok (cp_ct cp)" "readsourcefile cp = Inr cp'"
  shows "\<exists>new st. terms_read (cp_scan cp) (map fst new) st
    \<and> stored_clauses (cp_ct cp') = stored_clauses (cp_ct cp) @ new
    \<and> (\<forall>(t, wt)\<in>set new. \<exists>fcut fquote. check_clause t = Inr (True, fcut, fquote)
          \<and> (if fquote then quote_expand False t = Inr wt else wt = t))
    \<and> (getimagoterm st = Inr (None, cp_scan cp')
        \<or> (\<exists>t fcut fquote. getimagoterm st = Inr (Some t, cp_scan cp') \<and> check_clause t = Inr (False, fcut, fquote)))
    \<and> table_ok (cp_ct cp')
    \<and> (\<forall>v. lists (null_proc (proc_view (cp_ct cp') v)) (ct_clauses (cp_ct cp')) (clauses_for (ct_clauses (cp_ct cp')) v))"
proof -
  obtain new st where "table_ok (cp_ct cp')" "terms_read (cp_scan cp) (map fst new) st" "reading_ends st (cp_scan cp')"
    "stored_clauses (cp_ct cp') = stored_clauses (cp_ct cp) @ new" "\<forall>(t, wt)\<in>set new. compiled_as t wt"
    using read_loop_table [OF assms(1) assms(2) [unfolded readsourcefile_def]] by blast
  thus ?thesis unfolding reading_ends_def compiled_as_def table_ok_def by blast
qed

text \<open>Two clauses.\<close>

definition two_clauses :: compiler where
  "two_clauses = demo_source\<lparr>cp_scan := (cp_scan demo_source)\<lparr>sc_rest := ''b. c. ''\<rparr>\<rparr>"

lemma two_clauses_read:
  "\<exists>cp'. readsourcefile two_clauses = Inr cp' \<and> map cl_t (ct_clauses (cp_ct cp'))
    = [T_FUNC ''b'' 251 0 [], T_FUNC ''c'' 253 0 []]"
proof -
  have "case readsourcefile two_clauses of Inl e \<Rightarrow> False | Inr cp \<Rightarrow> map cl_t (ct_clauses (cp_ct cp))
    = [T_FUNC ''b'' 251 0 [], T_FUNC ''c'' 253 0 []]" by code_simp
  thus ?thesis by (auto split: sum.splits)
qed

theorem clauses_in_text_order_witness:
  "\<exists>cp' st. readsourcefile two_clauses = Inr cp'
     \<and> terms_read (cp_scan two_clauses) [T_FUNC ''b'' 251 0 [], T_FUNC ''c'' 253 0 []] st \<and> table_ok (cp_ct cp')"
proof -
  let ?ts = "[T_FUNC ''b'' 251 0 [], T_FUNC ''c'' 253 0 []]"
  have "linked [] None []" by simp
  hence t: "table_ok (cp_ct two_clauses)" "stored_clauses (cp_ct two_clauses) = []"
    by (simp_all add: two_clauses_def demo_source_def table_ok_def procs_ok_def chained_def empty_clause_table_def lists_def
        clauses_for_def null_proc_def proc_view_def find_proc_def stored_clauses_def)
  from two_clauses_read obtain cp' where cp': "readsourcefile two_clauses = Inr cp'" "map cl_t (ct_clauses (cp_ct cp')) = ?ts"
    by (elim exE conjE)
  from clauses_in_text_order [OF t(1) cp'(1)] obtain new st where
    n: "terms_read (cp_scan two_clauses) (map fst new) st" "stored_clauses (cp_ct cp') = new" "table_ok (cp_ct cp')"
    unfolding t(2) by auto
  have "map fst new = ?ts" using n(2) cp'(2) by (auto simp: stored_clauses_def o_def)
  thus ?thesis using n(1,3) cp'(1) by metis
qed

end
