(* ===== verification/MLVM_Tokens_Correct.thy ===== *)
theory MLVM_Tokens_Correct
  imports MLVM_Reader_Correct
begin

text \<open>
  The scanner inverts the printing of tokens: a token that is printed and followed by a
  blank is scanned as that token, whatever text comes behind it.  Names are printed bare
  when they are identifiers, symbols or solo characters, and quoted otherwise.
\<close>

section \<open>Printing a token\<close>

datatype ptok =
    K_Name string | K_Var string | K_Num real_const
  | K_Open | K_Close | K_Comma | K_CommaOp | K_Stop

definition has_class :: "cclass \<Rightarrow> char \<Rightarrow> bool" where "has_class k c = (chtype c = Some k)"

definition name_char :: "char \<Rightarrow> bool" where
  "name_char c = (case chtype c of None \<Rightarrow> False | Some k \<Rightarrow> name_class k)"

fun no_comment :: "string \<Rightarrow> bool" where
  "no_comment (c # d # s) = (\<not> (c = CHR ''/'' \<and> d = CHR ''*'') \<and> no_comment (d # s))"
| "no_comment s = True"

fun ident :: "string \<Rightarrow> bool" where
  "ident [] = False"
| "ident (c # s) = (has_class A_LC c \<and> list_all name_char s)"

definition symbolic :: "string \<Rightarrow> bool" where
  "symbolic s = (s \<noteq> [] \<and> s \<noteq> ''.'' \<and> list_all (has_class A_SY) s \<and> no_comment s)"

definition bare :: "string \<Rightarrow> bool" where
  "bare s = (ident s \<or> symbolic s \<or> s = ''!'' \<or> s = '';'' \<or> s = ''#'')"

definition quotable :: "char \<Rightarrow> bool" where
  "quotable c = (c \<noteq> CHR 0x27 \<and> chtype c \<noteq> None \<and> chtype c \<noteq> Some A_ENDF)"

definition name_ok :: "string \<Rightarrow> bool" where
  "name_ok s = (list_all quotable s \<and> length s < LINE_BUF \<and> hash_ok s)"

fun var_ok :: "string \<Rightarrow> bool" where
  "var_ok [] = False"
| "var_ok (c # s) = ((has_class A_UC c \<or> has_class A_UL c) \<and> list_all name_char s
     \<and> length (c # s) < LINE_BUF \<and> hash_ok (c # s))"

definition name_text :: "string \<Rightarrow> string" where
  "name_text s = (if bare s then s else [CHR 0x27] @ s @ [CHR 0x27])"

fun lit_ok :: "real_const \<Rightarrow> bool" where
  "lit_ok (R_LIT ds fs neg es) =
     (ds \<noteq> [] \<and> list_all (has_class A_N) (ds @ fs @ es) \<and> (neg \<longrightarrow> es \<noteq> []))"
| "lit_ok (R_NEG r) = False"

fun lit_text :: "real_const \<Rightarrow> string" where
  "lit_text (R_LIT ds fs neg es) =
     ds @ (if fs = [] then [] else CHR ''.'' # fs)
        @ (if es = [] then [] else CHR ''e'' # (if neg then [CHR ''-''] else []) @ es)"
| "lit_text (R_NEG r) = []"

fun tok_text :: "ptok \<Rightarrow> string" where
  "tok_text (K_Name s) = name_text s"
| "tok_text (K_Var s) = s"
| "tok_text (K_Num r) = lit_text r"
| "tok_text K_Open = ''(''"
| "tok_text K_Close = '')''"
| "tok_text K_Comma = '',''"
| "tok_text K_CommaOp = '',''"
| "tok_text K_Stop = ''.''"

text \<open>A comma is a separator only where the parser asks for it.\<close>

fun tok_ok :: "bool \<Rightarrow> ptok \<Rightarrow> bool" where
  "tok_ok cf (K_Name s) = name_ok s"
| "tok_ok cf (K_Var s) = var_ok s"
| "tok_ok cf (K_Num r) = lit_ok r"
| "tok_ok cf K_Comma = cf"
| "tok_ok cf K_CommaOp = (\<not> cf)"
| "tok_ok cf k = True"

section \<open>Characters\<close>

lemma blank_class: "chtype (CHR '' '') = Some A_BS" by code_simp

lemma char_classes:
  "chtype (CHR ''('') = Some A_BK" "chtype (CHR '')'') = Some A_BK" "chtype (CHR ''['') = Some A_BK"
  "chtype (CHR '']'') = Some A_BK" "chtype (CHR '','') = Some A_SL" "chtype (CHR ''|'') = Some A_SL"
  "chtype (CHR ''!'') = Some A_SL" "chtype (CHR '';'') = Some A_SL" "chtype (CHR ''#'') = Some A_SL"
  "chtype (CHR ''.'') = Some A_SY" "chtype (CHR ''/'') = Some A_SY" "chtype (CHR ''%'') = Some A_SL"
  "chtype (CHR 0x27) = Some A_QT" "chtype (CHR ''e'') = Some A_LC" "chtype (CHR ''-'') = Some A_SY"
  "chtype (CHR ''+'') = Some A_SY" "chtype (CHR ''*'') = Some A_SY" "chtype (CHR 0x22) = Some A_DC"
  by code_simp+

lemma peekchar_Cons [simp]: "c \<noteq> EOFC \<Longrightarrow> peekchar (c # r) = (c, c # r)" by simp

lemma span_class_stop:
  assumes "list_all (\<lambda>c. \<exists>k. chtype c = Some k \<and> A k) s" "\<not> A A_BS"
  shows "span_class A (s @ CHR '' '' # r) = Some (s, CHR '' '', r)"
  using assms(1) by (induction s) (auto simp: blank_class assms(2))

lemma span_class_at:
  assumes "list_all (\<lambda>c. \<exists>k. chtype c = Some k \<and> A k) s" "chtype d = Some k" "\<not> A k"
  shows "span_class A (s @ d # r) = Some (s, d, r)"
  using assms(1) by (induction s) (auto simp: assms(2,3))

lemma get_name_stop:
  assumes "list_all name_char s"
  shows "get_name c (s @ CHR '' '' # r) = Some (c # s, CHR '' '', r)"
proof -
  have "list_all (\<lambda>c. \<exists>k. chtype c = Some k \<and> name_class k) s"
    using assms by (auto simp: list_all_iff name_char_def split: option.splits)
  moreover have "\<not> name_class A_BS" by (simp add: name_class_def)
  ultimately show ?thesis using span_class_stop [of name_class s r] by (simp add: get_name_def)
qed

lemma symbol_stop:
  assumes "list_all (has_class A_SY) (c # s)" "no_comment (c # s)"
  shows "symbol_chars c (s @ CHR '' '' # r) = Some (c # s, CHR '' '', r)"
  using assms
proof (induction s arbitrary: c)
  case Nil
  thus ?case by (subst symbol_chars.simps) (simp add: blank_class)
next
  case (Cons d s)
  have n: "d \<noteq> EOFC" using Cons.prems(1) chtype_EOFC by (auto simp: has_class_def)
  from Cons.IH [of d] Cons.prems n show ?case
    by (subst symbol_chars.simps) (auto simp: has_class_def)
qed

lemma quoted_stop:
  assumes "list_all quotable s"
  shows "quoted (CHR 0x27) (s @ CHR 0x27 # r) = Some (s, CHR 0x27, r)"
  using assms by (induction s) (auto simp: quotable_def split: option.splits)

text \<open>Blanks are skipped up to the first character of a token.\<close>

lemma skip_layout_blank:
  assumes "c \<noteq> CHR ''%''" "chtype c = Some k" "k \<noteq> A_BS" "c = CHR ''/'' \<Longrightarrow> r \<noteq> [] \<and> hd r \<noteq> CHR ''*'' \<and> hd r \<noteq> EOFC"
  shows "skip_layout (CHR '' '') (c # r) = Inr (False, c, r)"
proof -
  have "skip_layout c r = Inr (False, c, r)"
    using assms by (subst skip_layout.simps) (cases r, auto)
  thus ?thesis by (subst skip_layout.simps) (simp add: blank_class)
qed


section \<open>Scanning a printed token\<close>

text \<open>What scanning keeps within a clause: the tables grow, the numbers of variables stay.\<close>

definition stays :: "scanner \<Rightarrow> scanner \<Rightarrow> bool" where
  "stays st st' \<longleftrightarrow> tables_ok (sc_tab st') \<and> grows (sc_tab st) (sc_tab st')
     \<and> (\<forall>s k. var_idx (sc_tab st) s = Some k \<longrightarrow> var_idx (sc_tab st') s = Some k)
     \<and> comma_flg st' = comma_flg st"

lemma stays_trans: "stays st st1 \<Longrightarrow> stays st1 st2 \<Longrightarrow> stays st st2"
  unfolding stays_def using grows_trans by auto

lemma stays_refl: "tables_ok (sc_tab st) \<Longrightarrow> stays st st"
  by (simp add: stays_def grows_refl tables_okD(3))

text \<open>Room for names and values, and for variables.\<close>

definition fits :: "nat \<Rightarrow> nat \<Rightarrow> scanner \<Rightarrow> bool" where
  "fits n v st \<longleftrightarrow> room n (sc_tab st) \<and> length (used_vars (sc_tab st)) + v \<le> MAXVAR"

fun is_var_tok :: "ptok \<Rightarrow> nat" where
  "is_var_tok (K_Var s) = 1"
| "is_var_tok k = 0"

text \<open>The state that has scanned a token with the text r behind the blank.\<close>

definition named :: "string \<Rightarrow> scanner \<Rightarrow> bool" where
  "named s st \<longleftrightarrow> tokentype st = NAME \<and> name_node (sc_tab st) s = Some (tok_node st)
     \<and> tokenpointer st = Some (T_FUNC s (hn_val (node_of (sc_tab st) (tok_node st))) (-1) [])"

definition scanned_char :: "token \<Rightarrow> char \<Rightarrow> scanner \<Rightarrow> bool" where
  "scanned_char t c st \<longleftrightarrow> tokentype st = t \<and> tokenchar st = c"

fun is_tok :: "ptok \<Rightarrow> scanner \<Rightarrow> bool" where
  "is_tok (K_Name s) st = named s st"
| "is_tok K_CommaOp st = named '','' st"
| "is_tok (K_Var s) st = (tokentype st = VAR \<and> (\<exists>k m. tokenpointer st = Some (T_VAR s k m)
     \<and> (s \<noteq> ''_'' \<longrightarrow> var_idx (sc_tab st) s = Some k)))"
| "is_tok (K_Num x) st = (tokentype st = REAL \<and> tokenpointer st = Some (T_REAL x))"
| "is_tok K_Open st = scanned_char PAREN (CHR ''('') st"
| "is_tok K_Close st = scanned_char PAREN (CHR '')'') st"
| "is_tok K_Comma st = scanned_char PUNC (CHR '','') st"
| "is_tok K_Stop st = scanned_char PUNC (CHR ''.'') st"

definition scanned :: "ptok \<Rightarrow> string \<Rightarrow> scanner \<Rightarrow> bool" where
  "scanned k r st \<longleftrightarrow> is_tok k st \<and> sc_ch st = CHR '' '' \<and> sc_rest st = r"

lemma imagoscan_eq: "scan_token st = Inr st' \<Longrightarrow> imagoscan st = Inr st'"
  by (simp add: imagoscan_def)

lemma name_token_ok:
  assumes "length s < LINE_BUF" "hash_ok s" "tables_ok (sc_tab st)" "fits (Suc n) v st"
  shows "\<exists>st'. name_token s (at_text c r st) = Inr st' \<and> named s st' \<and> sc_ch st' = c \<and> sc_rest st' = r
    \<and> stays st st' \<and> fits n v st'"
proof -
  note ok = tables_okD [OF assms(3)]
  have "room (Suc n) (sc_tab st)" using assms(4) by (simp add: fits_def)
  then obtain i tab where i: "insert_name s (stringsum s) (sc_tab st) = Inr (i, tab)"
    using insert_name_room [OF ok(3) assms(2)] by blast
  note t = insert_name_tables [OF assms(3) i]
  have "hn_s (node_of tab i) = s" using name_node_bound [OF tables_okD(3) [OF t(1)] t(5)] by simp
  thus ?thesis using assms(1,4) t i
    by (auto simp: name_token_def lookuphashtab_def named_def stays_def fits_def at_text_def)
qed

lemma var_token_ok:
  assumes "length s < LINE_BUF" "hash_ok s" "tables_ok (sc_tab st)" "fits (Suc n) (Suc v) st"
  shows "\<exists>st'. var_token s (at_text c r st) = Inr st' \<and> is_tok (K_Var s) st' \<and> sc_ch st' = c \<and> sc_rest st' = r
    \<and> stays st st' \<and> fits n v st'"
proof -
  note ok = tables_okD [OF assms(3)]
  have r: "room (Suc n) (sc_tab st)" "length (used_vars (sc_tab st)) < MAXVAR" using assms(4) by (auto simp: fits_def)
  then obtain t tab where i: "lookuimago_var s (stringsum s) (sc_tab st) = Inr (t, tab)"
    using lookup_var_room [OF ok(3) assms(2)] by blast
  note l = lookup_var_tables [OF assms(3) i]
  have "\<exists>k m. t = T_VAR s k m \<and> (s \<noteq> ''_'' \<longrightarrow> var_idx tab s = Some k)"
    "\<forall>x k. var_idx (sc_tab st) x = Some k \<longrightarrow> var_idx tab x = Some k"
    using l(4) by (auto simp: numbers_def split: if_splits option.splits)
  thus ?thesis using assms(1,4) l i
    by (auto simp: var_token_def stays_def fits_def at_text_def)
qed

text \<open>The scanner behind a blank, at the first character of a token.\<close>

lemma scan_token_at:
  assumes "sc_ch st = CHR '' ''" "sc_rest st = c # r" "chtype c = Some k" "k \<noteq> A_BS" "k \<noteq> A_ENDF" "c \<noteq> CHR ''%''"
    "c = CHR ''/'' \<Longrightarrow> r \<noteq> [] \<and> hd r \<noteq> CHR ''*'' \<and> hd r \<noteq> EOFC"
  shows "scan_token st =
    (case k of
       A_LC \<Rightarrow> sbind (of_bounds (get_name c r)) (\<lambda>(s, d, r). name_token s (at_text d r st))
     | A_UC \<Rightarrow> sbind (of_bounds (get_name c r)) (\<lambda>(s, d, r). var_token s (at_text d r st))
     | A_UL \<Rightarrow> sbind (of_bounds (get_name c r)) (\<lambda>(s, d, r). var_token s (at_text d r st))
     | A_SY \<Rightarrow> symbol_token c r st
     | A_N \<Rightarrow> sbind (of_bounds (scan_number c r)) (\<lambda>(x, d, r).
                Inr ((at_text d r st)\<lparr>tokenpointer := Some (create_real x), tokentype := REAL\<rparr>))
     | A_SL \<Rightarrow> solo_token c r st
     | A_BK \<Rightarrow> bracket_token c r st
     | _ \<Rightarrow> quoted_token c r st)"
  using skip_layout_blank [OF assms(6,3,4,7)] assms(1-5)
  by (cases k) (simp_all add: scan_token_def)

lemma class_facts:
  "chtype c = Some k \<Longrightarrow> k \<noteq> A_SY \<Longrightarrow> c \<noteq> CHR ''/''" "chtype c = Some k \<Longrightarrow> k \<noteq> A_SL \<Longrightarrow> c \<noteq> CHR ''%''"
  using char_classes(11,12) by auto

definition step_ok :: "ptok \<Rightarrow> string \<Rightarrow> scanner \<Rightarrow> nat \<Rightarrow> nat \<Rightarrow> scanner scan \<Rightarrow> bool" where
  "step_ok k r st n v x \<longleftrightarrow> (\<exists>st'. x = Inr st' \<and> scanned k r st' \<and> stays st st' \<and> fits n v st')"

lemma name_step:
  assumes "length s < LINE_BUF" "hash_ok s" "tables_ok (sc_tab st)" "fits (Suc n) v st"
  shows "step_ok (K_Name s) r st n v (name_token s (at_text (CHR '' '') r st))"
  using name_token_ok [OF assms] by (auto simp: step_ok_def scanned_def)

lemma var_step:
  assumes "length s < LINE_BUF" "hash_ok s" "tables_ok (sc_tab st)" "fits (Suc n) (Suc v) st"
  shows "step_ok (K_Var s) r st n v (var_token s (at_text (CHR '' '') r st))"
  using var_token_ok [OF assms] by (auto simp: step_ok_def scanned_def)

text \<open>A change of the token alone.\<close>

lemma stays_token:
  assumes "tables_ok (sc_tab st)" "sc_tab st' = sc_tab st" "comma_flg st' = comma_flg st"
  shows "stays st st'"
  using stays_refl [OF assms(1)] assms(2,3) by (simp add: stays_def)

lemma fits_token: "sc_tab st' = sc_tab st \<Longrightarrow> fits n v st' = fits n v st"
  by (simp add: fits_def)

lemma fits_less: "fits n v st \<Longrightarrow> n' \<le> n \<Longrightarrow> v' \<le> v \<Longrightarrow> fits n' v' st"
  by (auto simp: fits_def room_def)

lemma token_step:
  assumes "tables_ok (sc_tab st)" "fits n v st" "sc_tab st' = sc_tab st" "comma_flg st' = comma_flg st"
    "is_tok k st'" "sc_ch st' = CHR '' ''" "sc_rest st' = r"
  shows "step_ok k r st n v (Inr st')"
  using stays_token [OF assms(1,3,4)] assms(2,5-7) fits_token [OF assms(3), of n v]
  by (simp add: step_ok_def scanned_def)

lemma at_text_tokenchar: "(at_text d r st)\<lparr>tokenchar := c\<rparr> = at_text d r (st\<lparr>tokenchar := c\<rparr>)"
  by (simp add: at_text_def)

lemma at_text_simps [simp]:
  "comma_flg (at_text d r st) = comma_flg st" "bar_flg (at_text d r st) = bar_flg st" "sc_tab (at_text d r st) = sc_tab st"
  "sc_ch (at_text d r st) = d" "sc_rest (at_text d r st) = r"
  by (simp_all add: at_text_def)

lemma solo_step:
  assumes "chtype c = Some A_SL" "c \<noteq> CHR '','' \<or> \<not> comma_flg st" "c \<noteq> CHR ''|''" "hash_ok [c]"
    "tables_ok (sc_tab st)" "fits (Suc n) v st"
  shows "step_ok (K_Name [c]) r st n v (solo_token c (CHR '' '' # r) st)"
proof -
  let ?st = "st\<lparr>tokenchar := c\<rparr>"
  have l: "length [c] < LINE_BUF" by (simp add: LINE_BUF_def)
  have f: "fits (Suc n) v ?st" "tables_ok (sc_tab ?st)" using assms(5,6) by (simp_all add: fits_def)
  have e: "solo_token c (CHR '' '' # r) st = name_token [c] (at_text (CHR '' '') r ?st)"
    using assms(2,3) at_text_tokenchar [of c "CHR '' ''" r st] by (auto simp: solo_token_def)
  from name_step [OF l assms(4) f(2,1), of r] show ?thesis
    unfolding e by (simp add: step_ok_def stays_def)
qed

lemma ident_step:
  assumes "ident s" "length s < LINE_BUF" "hash_ok s" "tables_ok (sc_tab st)" "fits (Suc n) v st"
    "sc_ch st = CHR '' ''" "sc_rest st = s @ CHR '' '' # r"
  shows "step_ok (K_Name s) r st n v (scan_token st)"
proof -
  obtain c u where s: "s = c # u" "chtype c = Some A_LC" "list_all name_char u"
    using assms(1) by (cases s) (auto simp: has_class_def)
  have "scan_token st = sbind (of_bounds (get_name c (u @ CHR '' '' # r))) (\<lambda>(s, d, r). name_token s (at_text d r st))"
    using scan_token_at [OF assms(6) _ s(2)] class_facts [OF s(2)] assms(7) s(1) by simp
  thus ?thesis using name_step [OF assms(2-5), of r] s(1) by (simp add: get_name_stop [OF s(3)])
qed

lemma variable_step:
  assumes "var_ok s" "tables_ok (sc_tab st)" "fits (Suc n) (Suc v) st"
    "sc_ch st = CHR '' ''" "sc_rest st = s @ CHR '' '' # r"
  shows "step_ok (K_Var s) r st n v (scan_token st)"
proof -
  obtain c u where s: "s = c # u" "chtype c = Some A_UC \<or> chtype c = Some A_UL" "list_all name_char u"
    "length s < LINE_BUF" "hash_ok s"
    using assms(1) by (cases s) (auto simp: has_class_def)
  have "scan_token st = sbind (of_bounds (get_name c (u @ CHR '' '' # r))) (\<lambda>(s, d, r). var_token s (at_text d r st))"
    using s(2) scan_token_at [OF assms(4), of c "u @ CHR '' '' # r"] class_facts [of c] assms(5) s(1) by auto
  thus ?thesis using var_step [OF s(4,5) assms(2,3), of r] s(1) by (simp add: get_name_stop [OF s(3)])
qed

lemma symbolic_step:
  assumes "symbolic s" "length s < LINE_BUF" "hash_ok s" "tables_ok (sc_tab st)" "fits (Suc n) v st"
    "sc_ch st = CHR '' ''" "sc_rest st = s @ CHR '' '' # r"
  shows "step_ok (K_Name s) r st n v (scan_token st)"
proof -
  obtain c u where s: "s = c # u" "list_all (has_class A_SY) (c # u)" "no_comment (c # u)" "s \<noteq> ''.''"
    using assms(1) by (cases s) (auto simp: symbolic_def)
  hence c: "chtype c = Some A_SY" by (simp add: has_class_def)
  have h: "u @ CHR '' '' # r \<noteq> [] \<and> hd (u @ CHR '' '' # r) \<noteq> CHR ''*'' \<and> hd (u @ CHR '' '' # r) \<noteq> EOFC" if "c = CHR ''/''"
    using s(2,3) that chtype_EOFC by (cases u) (auto simp: has_class_def)
  have "scan_token st = symbol_token c (u @ CHR '' '' # r) st"
    using scan_token_at [OF assms(6) _ c _ _ _ h] class_facts(2) [OF c] assms(7) s(1) by simp
  also have "\<dots> = name_token s (at_text (CHR '' '') r st)"
  proof (cases "c = CHR ''.''")
    case True
    then obtain d u' where u: "u = d # u'" "chtype d = Some A_SY" using s by (cases u) (auto simp: has_class_def)
    have "d \<noteq> EOFC" using u(2) chtype_EOFC by auto
    hence "peekchar (u @ CHR '' '' # r) = (d, u @ CHR '' '' # r)" using u(1) by simp
    thus ?thesis using True u(2) symbol_stop [OF s(2,3)] s(1) by (simp add: symbol_token_def)
  next
    case False
    thus ?thesis using symbol_stop [OF s(2,3)] s(1) by (simp add: symbol_token_def)
  qed
  finally show ?thesis using name_step [OF assms(2-5), of r] by simp
qed

lemma quote_step:
  assumes "list_all quotable s" "length s < LINE_BUF" "hash_ok s" "tables_ok (sc_tab st)" "fits (Suc n) v st"
    "sc_ch st = CHR '' ''" "sc_rest st = CHR 0x27 # s @ CHR 0x27 # CHR '' '' # r"
  shows "step_ok (K_Name s) r st n v (scan_token st)"
proof -
  have "scan_token st = quoted_token (CHR 0x27) (s @ CHR 0x27 # CHR '' '' # r) st"
    using scan_token_at [OF assms(6,7) char_classes(13)] by simp
  also have "\<dots> = name_token s (at_text (CHR '' '') r st)"
    using quoted_stop [OF assms(1), of "CHR '' '' # r"] assms(2) by (simp add: quoted_token_def Let_def)
  finally show ?thesis using name_step [OF assms(2-5), of r] by simp
qed

section \<open>Numbers\<close>

definition fraction_text :: "string \<Rightarrow> string" where
  "fraction_text fs = (if fs = [] then [] else CHR ''.'' # fs)"

definition exponent_text :: "bool \<Rightarrow> string \<Rightarrow> string" where
  "exponent_text neg es = (if es = [] then [] else CHR ''e'' # (if neg then [CHR ''-''] else []) @ es)"

lemma digits_span:
  assumes "list_all (has_class A_N) s" "chtype d = Some k" "k \<noteq> A_N"
  shows "span_class ((=) A_N) (s @ d # r) = Some (s, d, r)"
  using span_class_at [of "(=) A_N" s d k r] assms by (auto simp: list_all_iff has_class_def)

lemma digit_plain: "has_class A_N c \<Longrightarrow> c \<noteq> CHR ''-'' \<and> c \<noteq> CHR ''+'' \<and> c \<noteq> EOFC"
  using char_classes(15,16) chtype_EOFC by (auto simp: has_class_def)

lemma exponent_stop:
  assumes "list_all (has_class A_N) es" "neg \<longrightarrow> es \<noteq> []" "exponent_text neg es @ CHR '' '' # r = c # r'"
  shows "exponent c r' = Some (neg, es, CHR '' '', r) \<and> c \<noteq> CHR ''.'' \<and> (\<exists>k. chtype c = Some k \<and> k \<noteq> A_N)"
proof (cases es)
  case Nil
  thus ?thesis using assms by (auto simp: exponent_text_def exponent_def blank_class)
next
  case (Cons d ds)
  have d: "chtype d = Some A_N" "d \<noteq> CHR ''-'' \<and> d \<noteq> CHR ''+''" using assms(1) digit_plain [of d] by (auto simp: Cons has_class_def)
  have sp: "span_class ((=) A_N) (ds @ CHR '' '' # r) = Some (ds, CHR '' '', r)"
    by (rule digits_span [OF _ blank_class]) (use assms(1) in \<open>simp_all add: Cons\<close>)
  have "c = CHR ''e''" "r' = (if neg then [CHR ''-''] else []) @ d # ds @ CHR '' '' # r"
    using assms(3) by (auto simp: exponent_text_def Cons)
  thus ?thesis using d sp char_classes(14) by (auto simp: exponent_def Cons)
qed

lemma fraction_stop:
  assumes "list_all (has_class A_N) fs" "fraction_text fs @ d # r = c # r'" "d \<noteq> CHR ''.''" "chtype d = Some k" "k \<noteq> A_N"
  shows "fraction c r' = Some (fs, d, r) \<and> (\<exists>k. chtype c = Some k \<and> k \<noteq> A_N)"
proof (cases fs)
  case Nil
  thus ?thesis using assms by (auto simp: fraction_text_def fraction_def)
next
  case (Cons e es)
  have e: "chtype e = Some A_N" "e \<noteq> EOFC" using assms(1) digit_plain [of e] by (auto simp: Cons has_class_def)
  have "c = CHR ''.''" "r' = e # es @ d # r" using assms(2) by (auto simp: fraction_text_def Cons)
  thus ?thesis using e digits_span [OF assms(1,4,5), of r] char_classes(10) by (simp add: fraction_def Cons)
qed

lemma number_stop:
  assumes "lit_ok (R_LIT (c # ds) fs neg es)"
  shows "scan_number c (ds @ fraction_text fs @ exponent_text neg es @ CHR '' '' # r) = Some (R_LIT (c # ds) fs neg es, CHR '' '', r)"
proof -
  have l: "list_all (has_class A_N) ds" "list_all (has_class A_N) fs" "list_all (has_class A_N) es" "neg \<longrightarrow> es \<noteq> []"
    using assms by simp_all
  obtain d1 r1 where 1: "exponent_text neg es @ CHR '' '' # r = d1 # r1"
    by (cases "exponent_text neg es @ CHR '' '' # r") auto
  note e = exponent_stop [OF l(3,4) 1]
  obtain k1 where k1: "chtype d1 = Some k1" "k1 \<noteq> A_N" using e by blast
  obtain d2 r2 where 2: "fraction_text fs @ d1 # r1 = d2 # r2" by (cases "fraction_text fs @ d1 # r1") auto
  note f = fraction_stop [OF l(2) 2 _ k1]
  obtain k2 where k2: "chtype d2 = Some k2" "k2 \<noteq> A_N" using e f by blast
  have "span_class ((=) A_N) (ds @ d2 # r2) = Some (ds, d2, r2)" by (rule digits_span [OF l(1) k2])
  thus ?thesis using e f by (simp add: scan_number_def 1 2)
qed

lemma number_step:
  assumes "lit_ok x" "tables_ok (sc_tab st)" "fits n v st" "sc_ch st = CHR '' ''" "sc_rest st = lit_text x @ CHR '' '' # r"
  shows "step_ok (K_Num x) r st n v (scan_token st)"
proof -
  obtain ds fs neg es where "x = R_LIT ds fs neg es" using assms(1) by (cases x) auto
  then obtain c ds where x: "x = R_LIT (c # ds) fs neg es" using assms(1) by (cases ds) auto
  hence c: "chtype c = Some A_N" using assms(1) by (simp add: has_class_def)
  let ?r = "ds @ fraction_text fs @ exponent_text neg es @ CHR '' '' # r"
  have e: "sc_rest st = c # ?r" using assms(5) by (simp add: x fraction_text_def exponent_text_def)
  have "scan_token st = Inr ((at_text (CHR '' '') r st)\<lparr>tokenpointer := Some (create_real x), tokentype := REAL\<rparr>)"
    using scan_token_at [OF assms(4) e c] class_facts [OF c] number_stop [OF assms(1) [unfolded x], of r] by (simp add: x)
  thus ?thesis using token_step [OF assms(2,3)] by (simp add: create_real_def)
qed

section \<open>Every token\<close>

lemma bracket_step:
  assumes "c = CHR ''('' \<or> c = CHR '')''" "tables_ok (sc_tab st)" "fits n v st" "sc_ch st = CHR '' ''"
    "sc_rest st = c # CHR '' '' # r"
  shows "step_ok (if c = CHR ''('' then K_Open else K_Close) r st n v (scan_token st)"
proof -
  have "scan_token st = bracket_token c (CHR '' '' # r) st"
    using assms(1) scan_token_at [OF assms(4,5)] char_classes(1,2) by auto
  also have "\<dots> = Inr ((at_text (CHR '' '') r (st\<lparr>tokenchar := c\<rparr>))\<lparr>tokentype := PAREN\<rparr>)"
    using assms(1) by (auto simp: bracket_token_def Let_def)
  finally show ?thesis using assms(1) token_step [OF assms(2,3)] by (auto simp: scanned_char_def at_text_def)
qed

lemma hash_ok_comma: "hash_ok '',''" by code_simp

lemma comma_step:
  assumes "tables_ok (sc_tab st)" "fits (Suc n) v st" "sc_ch st = CHR '' ''" "sc_rest st = CHR '','' # CHR '' '' # r"
  shows "step_ok (if comma_flg st then K_Comma else K_CommaOp) r st n v (scan_token st)"
proof -
  have e: "scan_token st = solo_token (CHR '','') (CHR '' '' # r) st"
    using scan_token_at [OF assms(3,4) char_classes(5)] by simp
  show ?thesis
  proof (cases "comma_flg st")
    case True
    hence "solo_token (CHR '','') (CHR '' '' # r) st = Inr ((at_text (CHR '' '') r (st\<lparr>tokenchar := CHR '',''\<rparr>))\<lparr>tokentype := PUNC\<rparr>)"
      by (simp add: solo_token_def at_text_def)
    thus ?thesis using True token_step [OF assms(1) fits_less [OF assms(2)], of n v] by (simp add: e scanned_char_def at_text_def)
  next
    case False
    thus ?thesis using solo_step [OF char_classes(5) _ _ hash_ok_comma assms(1,2)] by (simp add: e step_ok_def scanned_def)
  qed
qed

lemma stop_step:
  assumes "tables_ok (sc_tab st)" "fits n v st" "sc_ch st = CHR '' ''" "sc_rest st = CHR ''.'' # CHR '' '' # r"
  shows "step_ok K_Stop r st n v (scan_token st)"
proof -
  have "scan_token st = symbol_token (CHR ''.'') (CHR '' '' # r) st"
    using scan_token_at [OF assms(3,4) char_classes(10)] by simp
  also have "\<dots> = Inr ((at_text (CHR '' '') r st)\<lparr>tokenchar := CHR ''.'', tokentype := PUNC\<rparr>)"
    by (simp add: symbol_token_def blank_class)
  finally show ?thesis using token_step [OF assms(1,2)] by (simp add: scanned_char_def)
qed

text \<open>The scanner reads a printed token, and takes no more room than the token needs.\<close>

lemma scan_tok_step:
  assumes "tok_ok (comma_flg st) k" "tables_ok (sc_tab st)" "fits (Suc n) (is_var_tok k + v) st" "sc_ch st = CHR '' ''"
    "sc_rest st = tok_text k @ CHR '' '' # r"
  shows "step_ok k r st n v (scan_token st)"
proof -
  have f: "fits (Suc n) v st" "fits n v st" by (rule fits_less [OF assms(3)]; simp)+
  show ?thesis
  proof (cases k)
    case (K_Name s)
    hence ok: "list_all quotable s" "length s < LINE_BUF" "hash_ok s" using assms(1) by (simp_all add: name_ok_def)
    have t: "sc_rest st = name_text s @ CHR '' '' # r" using assms(5) K_Name by simp
    have solo: "step_ok (K_Name [c]) r st n v (scan_token st)"
      if "s = [c]" "c = CHR ''!'' \<or> c = CHR '';'' \<or> c = CHR ''#''" for c
    proof -
      have e: "sc_rest st = c # CHR '' '' # r" using t that by (auto simp: name_text_def bare_def)
      have c: "chtype c = Some A_SL" "c \<noteq> CHR ''%''" "c \<noteq> CHR ''|''" "c \<noteq> CHR '',''" using that(2) char_classes(7-9) by auto
      have "scan_token st = solo_token c (CHR '' '' # r) st"
        using scan_token_at [OF assms(4) e c(1)] class_facts(1) [OF c(1)] c(2) by simp
      thus ?thesis using solo_step [OF c(1) _ c(3) _ assms(2) f(1)] c(4) ok(3) that(1) by simp
    qed
    consider "ident s" | "symbolic s" | "s = ''!'' \<or> s = '';'' \<or> s = ''#''" | "\<not> bare s" by (auto simp: bare_def)
    thus ?thesis
    proof cases
      case 1
      thus ?thesis using ident_step [OF 1 ok(2,3) assms(2) f(1) assms(4), of r] t K_Name by (simp add: name_text_def bare_def)
    next
      case 2
      thus ?thesis using symbolic_step [OF 2 ok(2,3) assms(2) f(1) assms(4), of r] t K_Name by (simp add: name_text_def bare_def)
    next
      case 3
      thus ?thesis using solo K_Name by blast
    next
      case 4
      thus ?thesis using quote_step [OF ok assms(2) f(1) assms(4), of r] t K_Name by (simp add: name_text_def)
    qed
  next
    case (K_Var s)
    thus ?thesis using variable_step [of s st n v r] assms by simp
  next
    case (K_Num x)
    thus ?thesis using number_step [OF _ assms(2) f(2) assms(4), of x r] assms by simp
  next
    case K_Open
    thus ?thesis using bracket_step [OF _ assms(2) f(2) assms(4), of "CHR ''(''" r] assms(5) by simp
  next
    case K_Close
    thus ?thesis using bracket_step [OF _ assms(2) f(2) assms(4), of "CHR '')''" r] assms(5) by simp
  next
    case K_Comma
    thus ?thesis using comma_step [OF assms(2) f(1) assms(4), of r] assms(1,5) by simp
  next
    case K_CommaOp
    thus ?thesis using comma_step [OF assms(2) f(1) assms(4), of r] assms(1,5) by simp
  next
    case K_Stop
    thus ?thesis using stop_step [OF assms(2) f(2) assms(4), of r] assms(5) by simp
  qed
qed

lemma scan_tok:
  assumes "tok_ok (comma_flg st) k" "tables_ok (sc_tab st)" "fits (Suc n) (is_var_tok k + v) st" "sc_ch st = CHR '' ''"
    "sc_rest st = tok_text k @ CHR '' '' # r"
  shows "\<exists>st'. imagoscan st = Inr st' \<and> scanned k r st' \<and> stays st st' \<and> fits n v st'"
  using scan_tok_step [OF assms] imagoscan_eq by (auto simp: step_ok_def)

end
