(* ===== verification/MLVM_Parser_Correct.thy ===== *)
theory MLVM_Parser_Correct
  imports MLVM_Tokens_Correct
begin

text \<open>
  The reader inverts printing: a term printed with infix operators, and with parentheses
  only where their priorities ask for them, is read back as that term.
\<close>

section \<open>Printing a term\<close>

datatype stree = S_Var string | S_Num real_const | S_Fun string "stree list"

type_synonym ops = "string \<Rightarrow> opkind \<Rightarrow> op_row option"

text \<open>The operator a term is printed with.\<close>

fun op_row_of :: "ops \<Rightarrow> stree \<Rightarrow> op_row option" where
  "op_row_of os (S_Fun s [l, r]) = os s BINARY"
| "op_row_of os t = None"

definition op_tok :: "bool \<Rightarrow> string \<Rightarrow> ptok" where
  "op_tok cf s = (if s = '','' \<and> \<not> cf then K_CommaOp else K_Name s)"

text \<open>The tokens of a term at a priority; cf says whether a comma separates arguments there.\<close>

fun toks :: "ops \<Rightarrow> bool \<Rightarrow> int \<Rightarrow> stree \<Rightarrow> ptok list"
  and args_toks :: "ops \<Rightarrow> stree list \<Rightarrow> ptok list" where
  "toks os cf m (S_Var s) = [K_Var s]"
| "toks os cf m (S_Num x) = [K_Num x]"
| "toks os cf m (S_Fun s ts) =
     (case op_row_of os (S_Fun s ts) of
        Some row \<Rightarrow>
          (case ts of [l, r] \<Rightarrow>
             if o_pri row \<le> m then toks os cf (o_left row) l @ op_tok cf s # toks os cf (o_right row) r
             else K_Open # toks os False (o_left row) l @ op_tok False s # toks os False (o_right row) r @ [K_Close]
           | _ \<Rightarrow> [])
      | None \<Rightarrow> if ts = [] then [K_Name s] else K_Name s # K_Open # args_toks os ts @ [K_Close])"
| "args_toks os [] = []"
| "args_toks os (t # ts) = toks os True MAXPRI t @ (if ts = [] then [] else K_Comma # args_toks os ts)"

definition text_of :: "ptok list \<Rightarrow> string" where
  "text_of ks = concat (map (\<lambda>k. tok_text k @ '' '') ks)"

definition print_term :: "ops \<Rightarrow> stree \<Rightarrow> string" where
  "print_term os t = text_of (toks os False MAXPRI t @ [K_Stop])"

text \<open>A name that is a prefix operator cannot stand alone or in front of arguments.\<close>

fun printable :: "ops \<Rightarrow> stree \<Rightarrow> bool" where
  "printable os (S_Var s) = var_ok s"
| "printable os (S_Num x) = lit_ok x"
| "printable os (S_Fun s ts) =
     (name_ok s \<and> (op_row_of os (S_Fun s ts) = None \<longrightarrow> os s PREFIX = None) \<and> list_all (printable os) ts)"

text \<open>What operator_add gives an infix operator; no priority is both left- and right-associative.\<close>

definition ops_ok :: "ops \<Rightarrow> bool" where
  "ops_ok os = (\<forall>s row. os s BINARY = Some row \<longrightarrow>
     0 \<le> o_left row \<and> 0 \<le> o_right row \<and> o_left row \<le> o_pri row \<and> o_right row \<le> o_pri row \<and> o_pri row \<le> MAXPRI
     \<and> (\<forall>s' row'. os s' BINARY = Some row' \<longrightarrow> o_right row = o_pri row \<longrightarrow> o_left row' = o_pri row' \<longrightarrow> o_pri row \<noteq> o_pri row'))"

text \<open>The parse term of a tree: values from the tables, variables by their numbers.\<close>

fun means :: "symtab \<Rightarrow> stree \<Rightarrow> iterm \<Rightarrow> bool" where
  "means tab (S_Var s) t = (\<exists>k m. t = T_VAR s k m \<and> (s \<noteq> ''_'' \<longrightarrow> var_idx tab s = Some k))"
| "means tab (S_Num x) t = (t = T_REAL x)"
| "means tab (S_Fun s ts) t = (\<exists>v us. t = T_FUNC s v (int (length ts)) us \<and> fun_val tab s (int (length ts)) = Some v
     \<and> list_all2 (means tab) ts us)"

section \<open>What may follow a term\<close>

definition opri :: "ops \<Rightarrow> int \<Rightarrow> stree \<Rightarrow> int" where
  "opri os m t = (case op_row_of os t of Some row \<Rightarrow> if o_pri row \<le> m then o_pri row else 0 | None \<Rightarrow> 0)"

definition separator :: "ptok \<Rightarrow> bool" where
  "separator k = (k = K_Close \<or> k = K_Comma \<or> k = K_Stop)"

definition follower :: "ops \<Rightarrow> ptok \<Rightarrow> bool" where
  "follower os k = (separator k \<or> (\<exists>cf s row. k = op_tok cf s \<and> os s BINARY = Some row))"

text \<open>The loop of get_imagoterm at level n, behind a term of priority p, stops at the token.\<close>

definition stops :: "ops \<Rightarrow> int \<Rightarrow> int \<Rightarrow> ptok \<Rightarrow> bool" where
  "stops os n p k = (separator k \<or> (\<exists>cf s row. k = op_tok cf s \<and> os s BINARY = Some row \<and> (n < o_pri row \<or> o_left row < p)))"

fun follow :: "ops \<Rightarrow> int \<Rightarrow> stree \<Rightarrow> ptok \<Rightarrow> bool" where
  "follow os m (S_Fun s [l, r]) k =
     (case os s BINARY of
        Some row \<Rightarrow> o_pri row \<le> m \<longrightarrow> stops os (o_right row) (opri os (o_right row) r) k \<and> follow os (o_right row) r k
      | None \<Rightarrow> True)"
| "follow os m t k = True"

lemma follow_separator: "separator k \<Longrightarrow> follow os m t k"
  by (induction os m t k rule: follow.induct) (auto simp: stops_def split: option.splits)

lemma opri_le: "0 \<le> m \<Longrightarrow> opri os m t \<le> m"
  by (auto simp: opri_def split: option.splits)

text \<open>An operator stops the loops inside its left operand.\<close>

lemma ops_okD:
  assumes "ops_ok os" "os s BINARY = Some row"
  shows "0 \<le> o_left row" "o_left row \<le> o_pri row" "o_right row \<le> o_pri row" "o_pri row \<le> MAXPRI" "0 \<le> o_right row"
    "os s' BINARY = Some row' \<Longrightarrow> o_right row = o_pri row \<Longrightarrow> o_left row' = o_pri row' \<Longrightarrow> o_pri row \<noteq> o_pri row'"
  using assms unfolding ops_ok_def by blast+

lemma follow_op:
  assumes "ops_ok os" "os s BINARY = Some row" "m \<le> o_left row"
  shows "follow os m t (op_tok cf s)"
proof -
  have "k = op_tok cf s \<Longrightarrow> follow os m t k" if "ops_ok os" "os s BINARY = Some row" "m \<le> o_left row" for k
    using that
  proof (induction os m t k rule: follow.induct)
    case (1 os m f l r k)
    show ?case
    proof (cases "os f BINARY")
      case (Some row')
      note d = ops_okD [OF 1(3,4)] and d' = ops_okD [OF 1(3) Some]
      have "stops os (o_right row') (opri os (o_right row') r) k \<and> follow os (o_right row') r k" if p: "o_pri row' \<le> m"
      proof
        have "o_right row' \<le> o_left row" using p d'(3) 1(5) by simp
        thus "follow os (o_right row') r k" using 1(1) [OF Some p 1(2-4)] by blast
        have "o_right row' < o_pri row"
          using d'(3) d'(6) [OF 1(4)] d(2) 1(5) p by fastforce
        thus "stops os (o_right row') (opri os (o_right row') r) k" using 1(2,4) by (auto simp: stops_def)
      qed
      thus ?thesis using Some by simp
    qed simp
  qed simp_all
  thus ?thesis using assms by blast
qed

section \<open>Reading tokens\<close>

lemma text_of_Cons: "text_of (k # ks) = tok_text k @ CHR '' '' # text_of ks" by (simp add: text_of_def)

lemma text_of_append [simp]: "text_of (ks @ ks') = text_of ks @ text_of ks'" by (simp add: text_of_def)

lemma text_of_Nil [simp]: "text_of [] = []" by (simp add: text_of_def)

text \<open>The first token is the current one, the others lie ahead, with the text r behind them.\<close>

definition reading :: "ptok list \<Rightarrow> string \<Rightarrow> scanner \<Rightarrow> bool" where
  "reading ks r st = (ks \<noteq> [] \<and> scanned (hd ks) (text_of (tl ks) @ r) st)"

lemma reading_Cons [simp]: "reading (k # ks) r st = scanned k (text_of ks @ r) st" by (simp add: reading_def)

lemma reading_tok: "reading (k # ks) r st \<Longrightarrow> is_tok k st" by (simp add: scanned_def)

lemma is_tok_flag [simp]: "is_tok k (st\<lparr>comma_flg := b\<rparr>) = is_tok k st"
  by (cases k) (simp_all add: named_def scanned_char_def)

lemma reading_flag [simp]: "reading ks r (st\<lparr>comma_flg := b\<rparr>) = reading ks r st"
  by (simp add: reading_def scanned_def)

definition vcount :: "ptok list \<Rightarrow> nat" where "vcount ks = sum_list (map is_var_tok ks)"

lemma vcount_simps [simp]:
  "vcount [] = 0" "vcount (k # ks) = is_var_tok k + vcount ks" "vcount (ks @ ks') = vcount ks + vcount ks'"
  by (simp_all add: vcount_def)

lemma next_tok:
  assumes "reading (k # k' # ks) r st" "tok_ok (comma_flg st) k'" "tables_ok (sc_tab st)" "fits (Suc n) (is_var_tok k' + v) st"
  obtains st' where "imagoscan st = Inr st'" "reading (k' # ks) r st'" "stays st st'" "fits n v st'"
  using scan_tok [OF assms(2,3,4), of "text_of ks @ r"] assms(1)
  by (auto simp: scanned_def text_of_Cons)

text \<open>A tree keeps its meaning while the tables grow.\<close>

lemma means_stays: "means (sc_tab st) t u \<Longrightarrow> stays st st' \<Longrightarrow> means (sc_tab st') t u"
proof (induction t arbitrary: u)
  case (S_Fun s ts)
  have "list_all2 (means (sc_tab st)) ts us \<Longrightarrow> list_all2 (means (sc_tab st')) ts us" for us
    using S_Fun.IH S_Fun.prems(2) by (auto simp: list_all2_conv_all_nth)
  thus ?case using S_Fun.prems by (auto simp: stays_def grows_def)
qed (auto simp: stays_def)

lemma means_list_stays: "list_all2 (means (sc_tab st)) ts us \<Longrightarrow> stays st st' \<Longrightarrow> list_all2 (means (sc_tab st')) ts us"
  using means_stays by (auto simp: list_all2_conv_all_nth)

lemma stays_flag: "stays (st\<lparr>comma_flg := b\<rparr>) st' \<Longrightarrow> stays st (st'\<lparr>comma_flg := comma_flg st\<rparr>)"
  by (simp add: stays_def)

lemma fits_flag [simp]: "fits n v (st\<lparr>comma_flg := b\<rparr>) = fits n v st"
  by (simp add: fits_def)

lemma staysD: "stays st st' \<Longrightarrow> tables_ok (sc_tab st')" "stays st st' \<Longrightarrow> op_of (sc_tab st') = op_of (sc_tab st)"
  "stays st st' \<Longrightarrow> comma_flg st' = comma_flg st"
  by (simp_all add: stays_def grows_def)

text \<open>A token that has been scanned survives the growth of the tables.\<close>

lemma is_tok_stays:
  assumes "is_tok k st" "tables_ok (sc_tab st)" "stays st (st\<lparr>sc_tab := tab\<rparr>)"
  shows "is_tok k (st\<lparr>sc_tab := tab\<rparr>)"
proof -
  have "named s (st\<lparr>sc_tab := tab\<rparr>)" if "named s st" for s
    using that assms(3) name_node_bound [OF tables_okD(3) [OF assms(2)], of s "tok_node st"]
    by (auto simp: named_def stays_def grows_def)
  thus ?thesis using assms(1,3) by (cases k) (auto simp: stays_def scanned_char_def)
qed

lemma argunum_reads:
  assumes "name_node (sc_tab st) s = Some i" "tables_ok (sc_tab st)" "fits (Suc b) v st" "reading ks r st"
  obtains w st' where "argunum_term i (T_FUNC s x m us) n st = Inr (T_FUNC s w n us, st')"
    "fun_val (sc_tab st') s n = Some w" "stays st st'" "fits b v st'" "reading ks r st'"
proof -
  have rm: "room (Suc b) (sc_tab st)" using assms(3) by (simp add: fits_def)
  obtain w tab where a: "argunum_imagoterm i (T_FUNC s x m us) n (sc_tab st) = Inr (T_FUNC s w n us, tab)"
    "fun_val tab s n = Some w" "room b tab"
    by (rule argunum_ok [OF tables_okD(1) [OF assms(2)] rm assms(1)])
  note t = argunum_tables [OF assms(2) a(1)]
  have s: "stays st (st\<lparr>sc_tab := tab\<rparr>)" using t by (simp add: stays_def)
  have "reading ks r (st\<lparr>sc_tab := tab\<rparr>)"
    using is_tok_stays [OF _ assms(2) s] assms(4) by (simp add: reading_def scanned_def)
  thus thesis using that [of w "st\<lparr>sc_tab := tab\<rparr>"] a s t(4) assms(3) by (simp add: argunum_term_def fits_def)
qed

text \<open>What the parser asks of the current token.\<close>

lemma op_tok_named: "is_tok (op_tok cf s) st \<longleftrightarrow> named s st" by (simp add: op_tok_def)

lemma named_operator: "named s st \<Longrightarrow> is_operator_node (sc_tab st) (tok_node st) k = op_of (sc_tab st) s k"
  by (simp add: named_def op_of_def)

lemma separator_token:
  "separator k \<Longrightarrow> is_tok k st \<Longrightarrow> tokentype st \<noteq> NAME \<and> \<not> is_paren (CHR ''('') st
    \<and> (is_paren (CHR '')'') st = (k = K_Close)) \<and> (is_punc (CHR '','') st = (k = K_Comma)) \<and> (is_punc (CHR ''.'') st = (k = K_Stop))"
  by (auto simp: separator_def scanned_char_def is_paren_def is_punc_def)

lemma follower_token: "follower os k \<Longrightarrow> is_tok k st \<Longrightarrow> \<not> is_paren (CHR ''('') st \<and> is_var_tok k = 0"
  using separator_token [of k st]
  by (auto simp: follower_def op_tok_named named_def is_paren_def separator_def) (auto simp: op_tok_def)

text \<open>The loop stops.\<close>

lemma op_loop_stops:
  assumes "stops (op_of (sc_tab st)) n p k" "is_tok k st" "0 < f"
  shows "op_loop f n p e st = Inr (e, st)"
proof -
  obtain g where f: "f = Suc g" using assms(3) by (cases f) auto
  show ?thesis
  proof (cases "separator k")
    case True
    thus ?thesis using separator_token [OF True assms(2)] by (simp add: f loop_operator_def)
  next
    case False
    then obtain cf s row where k: "k = op_tok cf s" "op_of (sc_tab st) s BINARY = Some row" "n < o_pri row \<or> o_left row < p"
      using assms(1) by (auto simp: stops_def)
    have "named s st" using assms(2) k(1) by (simp add: op_tok_named)
    hence "loop_operator st = Some (True, row)" using named_operator [of s st BINARY] k(2) by (simp add: loop_operator_def named_def)
    thus ?thesis using k(3) by (simp add: f)
  qed
qed

section \<open>Reading a term\<close>

text \<open>
  get_imagoterm at level n reads the tokens of a tree and goes on with the loop behind
  it; the fuel it takes is bounded by the number of tokens.
\<close>

definition reads_as :: "stree \<Rightarrow> ptok list \<Rightarrow> int \<Rightarrow> int \<Rightarrow> ptok list \<Rightarrow> string \<Rightarrow> nat \<Rightarrow> nat \<Rightarrow> nat \<Rightarrow> scanner \<Rightarrow> bool" where
  "reads_as t K p n ks r f b v st = (\<exists>t' st' f'. get_imagoterm f n st = op_loop f' n p (Some t') st'
     \<and> means (sc_tab st') t t' \<and> stays st st' \<and> reading ks r st' \<and> fits b v st' \<and> f \<le> f' + 4 * length K)"

text \<open>The current token is the first of K, and the token behind K can follow it.\<close>

definition ready :: "ptok list \<Rightarrow> ptok \<Rightarrow> ptok list \<Rightarrow> string \<Rightarrow> nat \<Rightarrow> nat \<Rightarrow> nat \<Rightarrow> scanner \<Rightarrow> bool" where
  "ready K k ks r f b v st = (reading (K @ k # ks) r st \<and> tables_ok (sc_tab st) \<and> ops_ok (op_of (sc_tab st))
     \<and> tok_ok (comma_flg st) k \<and> follower (op_of (sc_tab st)) k
     \<and> fits (2 * length K + b) (vcount (tl K) + v) st \<and> 4 * length K + 4 \<le> f)"

definition readable :: "stree \<Rightarrow> bool" where
  "readable t = (\<forall>m n k ks r f b v st. ready (toks (op_of (sc_tab st)) (comma_flg st) m t) k ks r f b v st
     \<longrightarrow> printable (op_of (sc_tab st)) t \<longrightarrow> 0 \<le> m \<longrightarrow> m \<le> n \<longrightarrow> follow (op_of (sc_tab st)) m t k
     \<longrightarrow> reads_as t (toks (op_of (sc_tab st)) (comma_flg st) m t) (opri (op_of (sc_tab st)) m t) n (k # ks) r f b v st)"

lemma readableD:
  assumes "readable t" "op_of (sc_tab st) = os" "comma_flg st = cf" "ready (toks os cf m t) k ks r f b v st"
    "printable os t" "0 \<le> m" "m \<le> n" "follow os m t k"
  shows "reads_as t (toks os cf m t) (opri os m t) n (k # ks) r f b v st"
  using assms unfolding readable_def by blast

lemma readyD:
  assumes "ready K k ks r f b v st"
  shows "reading (K @ k # ks) r st" "tables_ok (sc_tab st)" "ops_ok (op_of (sc_tab st))" "tok_ok (comma_flg st) k"
    "follower (op_of (sc_tab st)) k" "fits (2 * length K + b) (vcount (tl K) + v) st" "4 * length K + 4 \<le> f"
  using assms by (simp_all add: ready_def)

lemma follower_var: "follower os k \<Longrightarrow> is_var_tok k = 0"
  by (auto simp: follower_def separator_def op_tok_def)

lemma named_later:
  assumes "named s st" "stays st st1"
  shows "name_node (sc_tab st1) s = Some (tok_node st)"
    "is_operator_node (sc_tab st1) (tok_node st) k = op_of (sc_tab st) s k"
proof -
  show n: "name_node (sc_tab st1) s = Some (tok_node st)" using assms by (auto simp: named_def stays_def grows_def)
  have "op_of (sc_tab st) s k = op_of (sc_tab st1) s k" using staysD(2) [OF assms(2)] by simp
  also have "\<dots> = is_operator_node (sc_tab st1) (tok_node st) k" by (simp add: op_of_def n)
  finally show "is_operator_node (sc_tab st1) (tok_node st) k = op_of (sc_tab st) s k" by simp
qed

lemma readable_Var: "readable (S_Var s)"
  unfolding readable_def
proof (intro allI impI)
  fix m n k ks r f b v and st :: scanner
  let ?os = "op_of (sc_tab st)"
  assume "ready (toks ?os (comma_flg st) m (S_Var s)) k ks r f b v st"
  hence "ready [K_Var s] k ks r f b v st" by simp
  note d = readyD [OF this]
  obtain g where f: "f = Suc g" using d(7) by (cases f) auto
  obtain i mk where t: "tokentype st = VAR" "tokenpointer st = Some (T_VAR s i mk)" "s \<noteq> ''_'' \<longrightarrow> var_idx (sc_tab st) s = Some i"
    using d(1) by (auto simp: scanned_def)
  obtain st' where s: "imagoscan st = Inr st'" "reading (k # ks) r st'" "stays st st'" "fits (Suc b) v st'"
    by (rule next_tok [of "K_Var s" k ks r st "Suc b" v]) (use d follower_var [OF d(5)] in auto)
  have "means (sc_tab st') (S_Var s) (T_VAR s i mk)" using means_stays [OF _ s(3), of "S_Var s" "T_VAR s i mk"] t(3) by simp
  thus "reads_as (S_Var s) (toks ?os (comma_flg st) m (S_Var s)) (opri ?os m (S_Var s)) n (k # ks) r f b v st"
    using s t fits_less [OF s(4)] f by (auto simp: reads_as_def opri_def cur_token_def intro!: exI [of _ "T_VAR s i mk"] exI [of _ st'] exI [of _ g])
qed

lemma readable_Num: "readable (S_Num x)"
  unfolding readable_def
proof (intro allI impI)
  fix m n k ks r f b v and st :: scanner
  let ?os = "op_of (sc_tab st)"
  assume "ready (toks ?os (comma_flg st) m (S_Num x)) k ks r f b v st"
  hence "ready [K_Num x] k ks r f b v st" by simp
  note d = readyD [OF this]
  obtain g where f: "f = Suc g" using d(7) by (cases f) auto
  have t: "tokentype st = REAL" "tokenpointer st = Some (T_REAL x)" using d(1) by (auto simp: scanned_def)
  obtain st' where s: "imagoscan st = Inr st'" "reading (k # ks) r st'" "stays st st'" "fits (Suc b) v st'"
    by (rule next_tok [of "K_Num x" k ks r st "Suc b" v]) (use d follower_var [OF d(5)] in auto)
  show "reads_as (S_Num x) (toks ?os (comma_flg st) m (S_Num x)) (opri ?os m (S_Num x)) n (k # ks) r f b v st"
    using s t fits_less [OF s(4)] f by (auto simp: reads_as_def opri_def cur_token_def intro!: exI [of _ st'] exI [of _ g])
qed

text \<open>An atom: a name in front of no parenthesis.\<close>

lemma atom_reads:
  assumes "ready [K_Name s] k ks r f b v st" "op_of (sc_tab st) s PREFIX = None"
  shows "reads_as (S_Fun s []) [K_Name s] 0 n (k # ks) r f b v st"
proof -
  note d = readyD [OF assms(1)]
  obtain g where f: "f = Suc g" using d(7) by (cases f) auto
  have nm: "named s st" using d(1) by (simp add: scanned_def)
  obtain st1 where s: "imagoscan st = Inr st1" "reading (k # ks) r st1" "stays st st1" "fits (Suc b) v st1"
    by (rule next_tok [of "K_Name s" k ks r st "Suc b" v]) (use d follower_var [OF d(5)] in auto)
  note sd = staysD [OF s(3)]
  note i = named_later(1) [OF nm s(3)] named_later(2) [OF nm s(3), of PREFIX, unfolded assms(2)]
  obtain w st2 where a: "argunum_term (tok_node st) (T_FUNC s (hn_val (node_of (sc_tab st) (tok_node st))) (-1) []) 0 st1 = Inr (T_FUNC s w 0 [], st2)"
    "fun_val (sc_tab st2) s 0 = Some w" "stays st1 st2" "fits b v st2" "reading (k # ks) r st2"
    by (rule argunum_reads [OF i(1) sd(1) s(4,2)])
  have p: "\<not> is_paren (CHR ''('') st1" using follower_token [OF d(5), of st1] s(2) by (simp add: scanned_def)
  have "get_imagoterm f n st = op_loop g n 0 (Some (T_FUNC s w 0 [])) st2"
    using nm s(1) i(2) a(1) p by (simp add: f named_def cur_token_def is_nfix_node_def)
  thus ?thesis using a stays_trans [OF s(3) a(3)] f by (auto simp: reads_as_def intro!: exI [of _ st2] exI [of _ g])
qed

section \<open>Arguments\<close>

lemma op_row_of_Some:
  assumes "op_row_of os (S_Fun s ts) = Some row"
  obtains l r where "ts = [l, r]" "os s BINARY = Some row"
  using assms by (cases "(os, S_Fun s ts)" rule: op_row_of.cases) auto

lemma toks_ne: "toks os cf m t \<noteq> []"
proof (cases t)
  case (S_Fun s ts)
  show ?thesis
  proof (cases "op_row_of os (S_Fun s ts)")
    case (Some row)
    then obtain l r where "ts = [l, r]" by (rule op_row_of_Some)
    thus ?thesis using S_Fun Some by simp
  qed (simp add: S_Fun)
qed simp_all

lemma toks_head: "printable os t \<Longrightarrow> tok_ok cf (hd (toks os cf m t))"
proof (induction t arbitrary: m)
  case (S_Fun s ts)
  show ?case
  proof (cases "op_row_of os (S_Fun s ts)")
    case None
    thus ?thesis using S_Fun.prems by simp
  next
    case (Some row)
    then obtain l r where "ts = [l, r]" by (rule op_row_of_Some)
    thus ?thesis using S_Fun.IH [of l] S_Fun.prems Some by (auto simp: toks_ne hd_append)
  qed
qed simp_all

lemma args_read:
  assumes "\<And>u. u \<in> set (t # ts) \<Longrightarrow> readable u" "list_all (printable os) (t # ts)" "ops_ok os"
    "reading (args_toks os (t # ts) @ K_Close # ks) r st" "tables_ok (sc_tab st)" "op_of (sc_tab st) = os" "comma_flg st"
    "fits (2 * length (args_toks os (t # ts)) + b) (vcount (tl (args_toks os (t # ts))) + v) st"
    "4 * length (args_toks os (t # ts)) + 5 \<le> f"
  shows "\<exists>x sta us st'. get_imagoterm f MAXPRI st = Inr (Some x, sta) \<and> arg_loop f (acc @ [x]) sta = Inr (acc @ x # us, st')
    \<and> list_all2 (means (sc_tab st')) (t # ts) (x # us) \<and> stays st st' \<and> reading (K_Close # ks) r st' \<and> fits b v st'"
  using assms
proof (induction ts arbitrary: t st f acc)
  case Nil
  let ?K = "toks os True MAXPRI t"
  have "ready ?K K_Close ks r f b v st"
    using Nil.prems by (simp add: ready_def follower_def separator_def)
  hence "reads_as t ?K (opri os MAXPRI t) MAXPRI (K_Close # ks) r f b v st"
    using Nil.prems follow_separator by (intro readableD) (simp_all add: MAXPRI_def separator_def)
  then obtain t' st1 f1 where 1: "get_imagoterm f MAXPRI st = op_loop f1 MAXPRI (opri os MAXPRI t) (Some t') st1"
    "means (sc_tab st1) t t'" "stays st st1" "reading (K_Close # ks) r st1" "fits b v st1" "f \<le> f1 + 4 * length ?K"
    unfolding reads_as_def by blast
  have k: "is_tok K_Close st1" "separator K_Close" using 1(4) by (simp_all add: scanned_def separator_def)
  have g: "get_imagoterm f MAXPRI st = Inr (Some t', st1)"
    unfolding 1(1) by (rule op_loop_stops [OF _ k(1)]) (use k(2) 1(6) Nil.prems(9) in \<open>simp_all add: stops_def\<close>)
  obtain h where "f = Suc h" using Nil.prems(9) by (cases f) auto
  hence "arg_loop f (acc @ [t']) st1 = Inr (acc @ [t'], st1)" using separator_token [OF k(2,1)] by simp
  thus ?case using g 1 by (intro exI [of _ t'] exI [of _ st1] exI [of _ "[]"]) auto
next
  case (Cons u ts)
  let ?K = "toks os True MAXPRI t"
  define A where "A = args_toks os (u # ts)"
  have A: "A \<noteq> []" "hd A = hd (toks os True MAXPRI u)" using toks_ne [of os True MAXPRI u] by (simp_all add: A_def)
  have e: "args_toks os (t # u # ts) = ?K @ K_Comma # A" by (simp add: A_def)
  have vc: "vcount (tl (?K @ K_Comma # A)) = vcount (tl ?K) + vcount A" using toks_ne by simp
  have "ready ?K K_Comma (A @ K_Close # ks) r f (2 + 2 * length A + b) (vcount A + v) st"
    using Cons.prems unfolding e vc by (simp add: ready_def follower_def separator_def ac_simps)
  hence "reads_as t ?K (opri os MAXPRI t) MAXPRI (K_Comma # A @ K_Close # ks) r f (2 + 2 * length A + b) (vcount A + v) st"
    using Cons.prems follow_separator by (intro readableD) (simp_all add: MAXPRI_def separator_def)
  then obtain t' st1 f1 where 1: "get_imagoterm f MAXPRI st = op_loop f1 MAXPRI (opri os MAXPRI t) (Some t') st1"
    "means (sc_tab st1) t t'" "stays st st1" "reading (K_Comma # A @ K_Close # ks) r st1"
    "fits (2 + 2 * length A + b) (vcount A + v) st1" "f \<le> f1 + 4 * length ?K"
    unfolding reads_as_def by blast
  have k: "is_tok K_Comma st1" "separator K_Comma" using 1(4) by (simp_all add: scanned_def separator_def)
  have g: "get_imagoterm f MAXPRI st = Inr (Some t', st1)"
    unfolding 1(1) by (rule op_loop_stops [OF _ k(1)]) (use k(2) 1(6) Cons.prems(9) in \<open>simp_all add: stops_def\<close>)
  obtain h where h: "f = Suc h" using Cons.prems(9) by (cases f) auto
  obtain k' K' where A': "A = k' # K'" using A by (cases A) auto
  have "k' = hd (toks os True MAXPRI u)" using A' A(2) by simp
  hence tk: "tok_ok (comma_flg st1) k'"
    using toks_head [of os u True MAXPRI] Cons.prems(2,7) staysD(3) [OF 1(3)] by simp
  obtain st2 where 2: "imagoscan st1 = Inr st2" "reading (k' # K' @ K_Close # ks) r st2" "stays st1 st2"
    "fits (2 * length A + b) (vcount K' + v) st2"
    by (rule next_tok [of K_Comma k' "K' @ K_Close # ks" r st1 "2 * length A + b" "vcount K' + v"])
      (use 1(4) tk staysD(1) [OF 1(3)] fits_less [OF 1(5)] in \<open>simp_all add: A'\<close>)
  have s: "stays st st2" by (rule stays_trans [OF 1(3) 2(3)])
  obtain x sta us st' where 3: "get_imagoterm h MAXPRI st2 = Inr (Some x, sta)"
    "arg_loop h ((acc @ [t']) @ [x]) sta = Inr ((acc @ [t']) @ x # us, st')"
    "list_all2 (means (sc_tab st')) (u # ts) (x # us)" "stays st2 st'" "reading (K_Close # ks) r st'" "fits b v st'"
    using Cons.IH [of u st2 h "acc @ [t']", folded A_def] Cons.prems [unfolded e] 2 staysD [OF s] h by (auto simp: A')
  have "arg_loop f (acc @ [t']) st1 = Inr (acc @ t' # x # us, st')"
    using separator_token [OF k(2,1)] 2(1) 3(1,2) by (simp add: h)
  moreover have "means (sc_tab st') t t'" by (rule means_stays [OF 1(2) stays_trans [OF 2(3) 3(4)]])
  ultimately show ?case using g 3(3,5,6) stays_trans [OF s 3(4)]
    by (intro exI [of _ t'] exI [of _ st1] exI [of _ "x # us"] exI [of _ st']) auto
qed

text \<open>A functor with its arguments in parentheses.\<close>

lemma functor_reads:
  assumes "\<And>u. u \<in> set (t # ts) \<Longrightarrow> readable u" "list_all (printable os) (t # ts)" "op_of (sc_tab st) = os" "os s PREFIX = None"
    and K: "K = K_Name s # K_Open # args_toks os (t # ts) @ [K_Close]" and rd: "ready K k ks r f b v st"
  shows "reads_as (S_Fun s (t # ts)) K 0 n (k # ks) r f b v st"
proof -
  define A where "A = args_toks os (t # ts)"
  have A: "A \<noteq> []" "hd A = hd (toks os True MAXPRI t)" using toks_ne [of os True MAXPRI t] by (simp_all add: A_def)
  then obtain k' K' where A': "A = k' # K'" by (cases A) auto
  note d = readyD [OF rd, unfolded K, folded A_def]
  have l: "4 * length A + 16 \<le> f" using d(7) by simp
  obtain h where f: "f = Suc (Suc h)" using l by (cases f; cases "f - 1") auto
  have fh: "4 * length A + 14 \<le> h" using l f by simp
  have nm: "named s st" using d(1) by (simp add: scanned_def)
  let ?t = "T_FUNC s (hn_val (node_of (sc_tab st) (tok_node st))) (-1) []"
  have tp: "tokentype st = NAME" "tokenpointer st = Some ?t" using nm by (simp_all add: named_def)
  have ft: "fits (2 * length A + 4 + b) (vcount A + v) st" using fits_less [OF d(6)] by simp
  obtain st1 where 1: "imagoscan st = Inr st1" "reading (K_Open # A @ K_Close # k # ks) r st1" "stays st st1"
    "fits (2 * length A + 3 + b) (vcount A + v) st1"
    by (rule next_tok [of "K_Name s" K_Open "A @ K_Close # k # ks" r st "2 * length A + 3 + b" "vcount A + v"])
      (use d(1,2) ft in \<open>simp_all add: eval_nat_numeral\<close>)
  note s1 = staysD [OF 1(3)]
  have op: "is_paren (CHR ''('') st1" using 1(2) by (simp add: scanned_def scanned_char_def is_paren_def)
  have tk: "tok_ok True k'" using toks_head [of os t True MAXPRI] assms(2) A A' by simp
  let ?s1 = "st1\<lparr>comma_flg := True\<rparr>"
  obtain st2 where 2: "imagoscan ?s1 = Inr st2" "reading (A @ K_Close # k # ks) r st2" "stays ?s1 st2"
    "fits (2 * length A + 2 + b) (vcount K' + v) st2"
    by (rule next_tok [of K_Open k' "K' @ K_Close # k # ks" r ?s1 "2 * length A + 2 + b" "vcount K' + v"])
      (use 1(2,4) s1 tk in \<open>simp_all add: A' eval_nat_numeral add.assoc\<close>)
  note s2 = staysD [OF 2(3)]
  obtain x sta us st3 where 3: "get_imagoterm h MAXPRI st2 = Inr (Some x, sta)" "arg_loop h [x] sta = Inr (x # us, st3)"
    "list_all2 (means (sc_tab st3)) (t # ts) (x # us)" "stays st2 st3" "reading (K_Close # k # ks) r st3" "fits (2 + b) v st3"
    using args_read [OF assms(1,2), of "k # ks" r st2 "2 + b" v h "[]", folded A_def] d(3) 2(2,4) s1 s2 fh assms(3)
    by (auto simp: A' add.assoc)
  let ?s3 = "st3\<lparr>comma_flg := comma_flg st1\<rparr>"
  have s3: "stays st ?s3" using stays_trans [OF 1(3) stays_flag [OF stays_trans [OF 2(3) 3(4)]]] .
  note s3d = staysD [OF s3]
  have cp: "is_paren (CHR '')'') st3" using 3(5) by (simp add: scanned_def scanned_char_def is_paren_def)
  obtain st4 where 4: "imagoscan ?s3 = Inr st4" "reading (k # ks) r st4" "stays ?s3 st4" "fits (Suc b) v st4"
    by (rule next_tok [of K_Close k ks r ?s3 "Suc b" v])
      (use 3(5,6) d(4) s3d s1 follower_var [OF d(5)] in \<open>simp_all add: eval_nat_numeral\<close>)
  have s4: "stays st st4" by (rule stays_trans [OF s3 4(3)])
  have n1: "is_operator_node (sc_tab st1) (tok_node st) PREFIX = None"
    using named_later(2) [OF nm 1(3), of PREFIX] assms(3,4) by simp
  obtain w st5 where 5: "argunum_term (tok_node st) (T_FUNC s (hn_val (node_of (sc_tab st) (tok_node st))) (-1) (x # us)) (int (length (x # us))) st4
      = Inr (T_FUNC s w (int (length (x # us))) (x # us), st5)"
    "fun_val (sc_tab st5) s (int (length (x # us))) = Some w" "stays st4 st5" "fits b v st5" "reading (k # ks) r st5"
    by (rule argunum_reads [OF named_later(1) [OF nm s4] staysD(1) [OF s4] 4(4,2)])
  have ga: "get_args (Suc h) (tok_node st) ?t st1 = Inr (T_FUNC s w (int (length (x # us))) (x # us), st5)"
    using 2(1) 3(1,2) cp 4(1) 5(1) by simp
  hence g: "get_imagoterm f n st = op_loop (Suc h) n 0 (Some (T_FUNC s w (int (length (x # us))) (x # us))) st5"
    using tp 1(1) n1 op ga by (simp add: f cur_token_def Let_def del: get_args.simps op_loop.simps)
  have s5: "stays st st5" by (rule stays_trans [OF s4 5(3)])
  have "stays st3 (st5\<lparr>comma_flg := comma_flg st3\<rparr>)"
    using stays_flag [of "comma_flg st1" st3 st5] stays_trans [OF 4(3) 5(3)] by simp
  hence m: "list_all2 (means (sc_tab st5)) (t # ts) (x # us)" using means_list_stays [OF 3(3), of "st5\<lparr>comma_flg := comma_flg st3\<rparr>"] by simp
  have "length (x # us) = length (t # ts)" using m list_all2_lengthD by fastforce
  hence "means (sc_tab st5) (S_Fun s (t # ts)) (T_FUNC s w (int (length (x # us))) (x # us))" using m 5(2) by simp
  moreover have "f \<le> Suc h + 4 * length K" using f K by simp
  ultimately show ?thesis using g s5 5(4,5) unfolding reads_as_def by blast
qed

section \<open>Operators\<close>

lemma infix_reads:
  assumes l: "readable l" "printable os l" and q: "readable q" "printable os q" and s: "name_ok s" "os s BINARY = Some row"
    and os: "op_of (sc_tab st) = os" and cf: "comma_flg st = cf" and p: "o_pri row \<le> n"
    and k: "stops os (o_right row) (opri os (o_right row) q) k" "follow os (o_right row) q k"
    and K: "K = toks os cf (o_left row) l @ op_tok cf s # toks os cf (o_right row) q"
    and rd: "ready K k ks r f b v st"
  shows "reads_as (S_Fun s [l, q]) K (o_pri row) n (k # ks) r f b v st"
proof -
  define L where "L = toks os cf (o_left row) l"
  define R where "R = toks os cf (o_right row) q"
  note K = K [folded L_def R_def]
  have ne: "L \<noteq> []" "R \<noteq> []" using toks_ne by (simp_all add: L_def R_def)
  obtain k' R' where R': "R = k' # R'" using ne(2) by (cases R) auto
  have tk: "tok_ok cf k'" using toks_head [OF q(2), of cf "o_right row"] R' by (simp add: R_def [symmetric])
  note d = readyD [OF rd]
  have ok: "ops_ok os" using d(3) os by simp
  note row = ops_okD [OF ok s(2)]
  have vk: "is_var_tok (op_tok cf s) = 0" "tok_ok cf (op_tok cf s)" "follower os (op_tok cf s)"
    using s by (auto simp: op_tok_def follower_def)
  have vc: "vcount (tl K) = vcount (tl L) + vcount R" using ne(1) vk(1) by (simp add: K)
  have "ready L (op_tok cf s) (R @ k # ks) r f (2 + 2 * length R + b) (vcount R + v) st"
    using d vk os cf unfolding vc by (simp add: ready_def K ac_simps)
  hence "reads_as l L (opri os (o_left row) l) n (op_tok cf s # R @ k # ks) r f (2 + 2 * length R + b) (vcount R + v) st"
    unfolding L_def using l os cf row p follow_op [OF ok s(2), of "o_left row"] by (intro readableD) simp_all
  then obtain l' st1 f1 where 1: "get_imagoterm f n st = op_loop f1 n (opri os (o_left row) l) (Some l') st1"
    "means (sc_tab st1) l l'" "stays st st1" "reading (op_tok cf s # R @ k # ks) r st1"
    "fits (2 + 2 * length R + b) (vcount R + v) st1" "f \<le> f1 + 4 * length L"
    unfolding reads_as_def by blast
  note s1 = staysD [OF 1(3), unfolded os cf]
  have lf: "4 * length R + 8 \<le> f1" using 1(6) d(7) by (simp add: K)
  obtain h where h: "f1 = Suc h" using lf by (cases f1) auto
  have nm: "named s st1" using 1(4) by (simp add: scanned_def op_tok_named)
  hence lo: "loop_operator st1 = Some (True, row)" using named_operator [of s st1 BINARY] s(2) s1(2) by (simp add: loop_operator_def named_def)
  let ?t = "T_FUNC s (hn_val (node_of (sc_tab st1) (tok_node st1))) (-1) []"
  have tp: "cur_token st1 = Inr ?t" using nm by (simp add: named_def cur_token_def)
  obtain st2 where 2: "imagoscan st1 = Inr st2" "reading (R @ k # ks) r st2" "stays st1 st2"
    "fits (2 * length R + Suc b) (vcount (tl R) + v) st2"
    by (rule next_tok [of "op_tok cf s" k' "R' @ k # ks" r st1 "2 * length R + Suc b" "vcount (tl R) + v"])
      (use 1(4,5) s1 tk in \<open>simp_all add: R' add.assoc\<close>)
  note s2 = staysD [OF 2(3), unfolded s1(2,3)]
  have "ready R k ks r h (Suc b) v st2"
    using d(4,5) s2 2(2,4) lf h os cf ok by (simp add: ready_def)
  hence "reads_as q R (opri os (o_right row) q) (o_right row) (k # ks) r h (Suc b) v st2"
    unfolding R_def using q s2 row k(2) by (intro readableD) simp_all
  then obtain q' st3 f3 where 3: "get_imagoterm h (o_right row) st2 = op_loop f3 (o_right row) (opri os (o_right row) q) (Some q') st3"
    "means (sc_tab st3) q q'" "stays st2 st3" "reading (k # ks) r st3" "fits (Suc b) v st3" "h \<le> f3 + 4 * length R"
    unfolding reads_as_def by blast
  have s13: "stays st1 st3" by (rule stays_trans [OF 2(3) 3(3)])
  have s03: "stays st st3" by (rule stays_trans [OF 1(3) s13])
  have g: "get_imagoterm h (o_right row) st2 = Inr (Some q', st3)"
    unfolding 3(1) by (rule op_loop_stops [OF _ reading_tok [OF 3(4)]]) (use k(1) staysD(2) [OF s03] os 3(6) lf h in simp_all)
  obtain w st4 where 4: "argunum_term (tok_node st1) (T_FUNC s (hn_val (node_of (sc_tab st1) (tok_node st1))) (-1) [l', q']) 2 st3
      = Inr (T_FUNC s w 2 [l', q'], st4)" "fun_val (sc_tab st4) s 2 = Some w" "stays st3 st4" "fits b v st4" "reading (k # ks) r st4"
    by (rule argunum_reads [OF named_later(1) [OF nm s13] staysD(1) [OF s13] 3(5,4)])
  have mk: "make_oimago_func (tok_node st1) ?t [Some l', Some q'] st3 = Inr (T_FUNC s w 2 [l', q'], st4)"
    using 4(1) by (simp add: make_oimago_func_def)
  have "\<not> (n < o_pri row \<or> o_left row < opri os (o_left row) l)" using p opri_le [OF row(1), of os l] by simp
  hence "get_imagoterm f n st = op_loop h n (o_pri row) (Some (T_FUNC s w 2 [l', q'])) st4"
    using 1(1) lo tp 2(1) g mk by (simp add: h Let_def del: get_imagoterm.simps)
  moreover have "means (sc_tab st4) (S_Fun s [l, q]) (T_FUNC s w 2 [l', q'])"
    using means_stays [OF 1(2) stays_trans [OF s13 4(3)]] means_stays [OF 3(2) 4(3)] 4(2) by simp
  moreover have "f \<le> h + 4 * length K" using 1(6) h by (simp add: K)
  ultimately show ?thesis using stays_trans [OF s03 4(3)] 4(4,5) unfolding reads_as_def by blast
qed

text \<open>A term in parentheses: inside, the comma is an operator again.\<close>

lemma paren_reads:
  assumes inner: "\<And>r f b v st. ready I K_Close (k # ks) r f b v st \<Longrightarrow> op_of (sc_tab st) = os \<Longrightarrow> comma_flg st = False \<Longrightarrow>
      reads_as t I p MAXPRI (K_Close # k # ks) r f b v st"
    and I: "I \<noteq> []" "tok_ok False (hd I)" and os: "op_of (sc_tab st) = os" and K: "K = K_Open # I @ [K_Close]" and rd: "ready K k ks r f b v st"
  shows "reads_as t K 0 n (k # ks) r f b v st"
proof -
  obtain k' I' where I': "I = k' # I'" using I(1) by (cases I) auto
  note d = readyD [OF rd, unfolded K]
  have l: "4 * length I + 11 \<le> f" using d(7) by simp
  obtain h where f: "f = Suc h" using l by (cases f) auto
  let ?s = "st\<lparr>comma_flg := False\<rparr>"
  obtain st1 where 1: "imagoscan ?s = Inr st1" "reading (I @ K_Close # k # ks) r st1" "stays ?s st1"
    "fits (2 * length I + (2 + b)) (vcount I' + v) st1"
    by (rule next_tok [of K_Open k' "I' @ K_Close # k # ks" r ?s "2 * length I + (2 + b)" "vcount I' + v"])
      (use d(1,2) I(2) fits_less [OF d(6)] in \<open>simp_all add: I'\<close>)
  note s1 = staysD [OF 1(3)]
  have "ready I K_Close (k # ks) r h (2 + b) v st1"
    using 1(2,4) s1 d(3) l f os by (simp add: ready_def I' follower_def separator_def)
  from inner [OF this] s1 os obtain t' st2 f2 where 2: "get_imagoterm h MAXPRI st1 = op_loop f2 MAXPRI p (Some t') st2"
    "means (sc_tab st2) t t'" "stays st1 st2" "reading (K_Close # k # ks) r st2" "fits (2 + b) v st2" "h \<le> f2 + 4 * length I"
    unfolding reads_as_def by auto
  have k: "is_tok K_Close st2" "separator K_Close" using 2(4) by (simp_all add: scanned_def separator_def)
  have g: "get_imagoterm h MAXPRI st1 = Inr (Some t', st2)"
    unfolding 2(1) by (rule op_loop_stops [OF _ k(1)]) (use k(2) 2(6) l f in \<open>simp_all add: stops_def\<close>)
  let ?s2 = "st2\<lparr>comma_flg := comma_flg st\<rparr>"
  have s2: "stays st ?s2" by (rule stays_flag [OF stays_trans [OF 1(3) 2(3)]])
  note s2d = staysD [OF s2]
  have cp: "is_paren (CHR '')'') ?s2" using separator_token [OF k(2,1)] by (simp add: is_paren_def)
  obtain st3 where 3: "imagoscan ?s2 = Inr st3" "reading (k # ks) r st3" "stays ?s2 st3" "fits (Suc b) v st3"
    by (rule next_tok [of K_Close k ks r ?s2 "Suc b" v])
      (use 2(4,5) d(4) s2d follower_var [OF d(5)] in \<open>simp_all add: eval_nat_numeral\<close>)
  have "tokentype st = PAREN" "tokenchar st = CHR ''(''" using d(1) by (simp_all add: scanned_def scanned_char_def)
  hence "get_imagoterm f n st = op_loop h n 0 (Some t') st3"
    using 1(1) g cp 3(1) by (simp add: f Let_def del: op_loop.simps)
  moreover have "means (sc_tab st3) t t'"
    using means_stays [OF 2(2), of ?s2] means_stays [OF _ 3(3), of t t'] 2(2) by simp
  moreover have "f \<le> h + 4 * length K" using f by (simp add: K)
  ultimately show ?thesis using stays_trans [OF s2 3(3)] fits_less [OF 3(4)] 3(2) unfolding reads_as_def by fastforce
qed

text \<open>Every printed term is read.\<close>

lemma readable_all: "readable t"
proof (induction t)
  case (S_Fun s ts)
  show ?case
    unfolding readable_def
  proof (intro allI impI)
    fix m n k ks r f b v and st :: scanner
    define os where "os = op_of (sc_tab st)"
    define cf where "cf = comma_flg st"
    define K where "K = toks os cf m (S_Fun s ts)"
    assume "ready (toks (op_of (sc_tab st)) (comma_flg st) m (S_Fun s ts)) k ks r f b v st"
      "printable (op_of (sc_tab st)) (S_Fun s ts)" "0 \<le> m" and mn: "m \<le> n" and "follow (op_of (sc_tab st)) m (S_Fun s ts) k"
    hence rd: "ready K k ks r f b v st" and pr: "printable os (S_Fun s ts)" and fo: "follow os m (S_Fun s ts) k"
      by (simp_all add: os_def cf_def K_def)
    have "reads_as (S_Fun s ts) K (opri os m (S_Fun s ts)) n (k # ks) r f b v st"
    proof (cases "op_row_of os (S_Fun s ts)")
      case None
      hence p: "os s PREFIX = None" "opri os m (S_Fun s ts) = 0" using pr by (simp_all add: opri_def)
      show ?thesis
      proof (cases ts)
        case Nil
        thus ?thesis using atom_reads [of s k ks r f b v st n] rd p os_def by (simp add: K_def None)
      next
        case (Cons t us)
        have K: "K = K_Name s # K_Open # args_toks os (t # us) @ [K_Close]" using None Cons by (simp add: K_def)
        show ?thesis
          using functor_reads [OF _ _ os_def [symmetric] p(1) K rd] S_Fun.IH pr p(2) Cons by simp
      qed
    next
      case (Some row)
      then obtain l q where ts: "ts = [l, q]" and row: "os s BINARY = Some row" by (rule op_row_of_Some)
      have IH: "readable l" "readable q" "printable os l" "printable os q" "name_ok s" using S_Fun.IH pr ts by simp_all
      show ?thesis
      proof (cases "o_pri row \<le> m")
        case True
        hence "K = toks os cf (o_left row) l @ op_tok cf s # toks os cf (o_right row) q" "opri os m (S_Fun s ts) = o_pri row"
          using row ts by (simp_all add: K_def opri_def)
        moreover have "stops os (o_right row) (opri os (o_right row) q) k" "follow os (o_right row) q k"
          using fo True row ts by simp_all
        ultimately show ?thesis
          using infix_reads [OF IH(1,3,2,4,5) row os_def [symmetric] cf_def [symmetric] _ _ _ _ rd, of n] True mn ts by simp
      next
        case False
        define I where "I = toks os False (o_left row) l @ op_tok False s # toks os False (o_right row) q"
        have K: "K = K_Open # I @ [K_Close]" "opri os m (S_Fun s ts) = 0" using False row ts by (simp_all add: K_def opri_def I_def)
        have sep: "separator K_Close" by (simp add: separator_def)
        have ok: "ops_ok os" using readyD(3) [OF rd] by (simp add: os_def)
        have hd: "I \<noteq> []" "tok_ok False (hd I)"
          using toks_ne [of os False "o_left row" l] toks_head [OF IH(3), of False "o_left row"] by (simp_all add: I_def)
        have "reads_as (S_Fun s ts) I (o_pri row) MAXPRI (K_Close # k # ks) r f' b' v' st'"
          if "ready I K_Close (k # ks) r f' b' v' st'" "op_of (sc_tab st') = os" "comma_flg st' = False" for r f' b' v' st'
          using infix_reads [OF IH(1,3,2,4,5) row that(2,3) _ _ _ I_def that(1)] ops_okD(4) [OF ok row] follow_separator [OF sep] sep ts
          by (simp add: stops_def)
        from paren_reads [OF this hd os_def [symmetric] K(1) rd] show ?thesis by (simp add: K(2))
      qed
    qed
    thus "reads_as (S_Fun s ts) (toks (op_of (sc_tab st)) (comma_flg st) m (S_Fun s ts)) (opri (op_of (sc_tab st)) m (S_Fun s ts)) n (k # ks) r f b v st"
      by (simp add: K_def os_def cf_def)
  qed
qed (simp_all add: readable_Var readable_Num)

end
