(* ===== verification/MLVM_Reading_Props.thy ===== *)
theory MLVM_Reading_Props
  imports MLVM_Parser_Correct
begin

text \<open>
  What getimagoterm and readsourcefile make of a text: a printed term is read back, an
  operator that operator_add defines is one the reader knows, and a syntax error ends the
  reading of the file.
\<close>

section \<open>Reading a clause\<close>

lemma text_of_length: "length ks \<le> length (text_of ks)"
  by (induction ks) (auto simp: text_of_Cons)

text \<open>The tree of a parse term.\<close>

fun tree_of :: "iterm \<Rightarrow> stree" where
  "tree_of (T_FUNC s v n us) = S_Fun s (map tree_of us)"
| "tree_of (T_VAR s k m) = S_Var s"
| "tree_of (T_REAL x) = S_Num x"
| "tree_of (T_STR s) = S_Fun s []"

lemma means_tree: "means tab t u \<Longrightarrow> tree_of u = t"
proof (induction t arbitrary: u)
  case (S_Fun s ts)
  then obtain v us where u: "u = T_FUNC s v (int (length ts)) us" "list_all2 (means tab) ts us" by auto
  have "tree_of (us ! i) = ts ! i" if "i < length ts" for i
    using S_Fun.IH [OF nth_mem [OF that]] u(2) that by (simp add: list_all2_conv_all_nth)
  hence "map tree_of us = ts" using list_all2_lengthD [OF u(2)] by (auto intro: nth_equalityI)
  thus ?case by (simp add: u)
qed auto

text \<open>Room for what reading the term can enter into the tables.\<close>

definition term_room :: "stree \<Rightarrow> nat \<Rightarrow> symtab \<Rightarrow> bool" where
  "term_room t b tab = (let K = toks (op_of tab) False MAXPRI t in room (2 * length K + 1 + b) tab \<and> vcount K \<le> MAXVAR)"

text \<open>
  Claim C17.  The reader inverts printing: from a text that begins with a printed term,
  getimagoterm reads that term and leaves what follows it; the functors of the parse term have
  the values of the tables, its variables the numbers, and one number is one variable.
\<close>

theorem reader_inverts_printing:
  assumes "tables_ok (sc_tab st)" "ops_ok (op_of (sc_tab st))" "printable (op_of (sc_tab st)) t" "term_room t b (sc_tab st)"
    "sc_ch st = CHR '' ''" "sc_rest st = print_term (op_of (sc_tab st)) t @ r"
  shows "\<exists>u st'. getimagoterm st = Inr (Some u, st') \<and> tree_of u = t \<and> means (sc_tab st') t u
    \<and> tables_ok (sc_tab st') \<and> grows (sc_tab st) (sc_tab st') \<and> room b (sc_tab st')
    \<and> sc_ch st' = CHR '' '' \<and> sc_rest st' = r"
proof -
  define os where "os = op_of (sc_tab st)"
  define K where "K = toks os False MAXPRI t"
  let ?s = "st\<lparr>comma_flg := False, bar_flg := False, sc_tab := zero_vars (sc_tab st)\<rparr>"
  note z = zero_vars_tables [OF assms(1)]
  have oz: "op_of (sc_tab ?s) = os" using z(2) by (simp add: grows_def os_def)
  obtain k' K' where K': "K = k' # K'" using toks_ne by (cases K) (auto simp: K_def)
  have tk: "tok_ok False k'" using toks_head [OF assms(3), of False MAXPRI] K' by (simp add: K_def os_def)
  have rm: "room (2 * length K + 1 + b) (sc_tab st)" "vcount K \<le> MAXVAR"
    using assms(4) by (simp_all add: term_room_def Let_def K_def os_def)
  have ft: "fits (Suc (2 * length K + b)) (is_var_tok k' + vcount K') ?s"
    using z(4) z(6) [OF rm(1)] rm(2) by (simp add: fits_def K')
  have "sc_rest ?s = tok_text k' @ CHR '' '' # text_of (K' @ [K_Stop]) @ r"
    using assms(6) K' by (simp add: print_term_def text_of_Cons K_def [symmetric] os_def [symmetric])
  from scan_tok [of ?s, OF _ _ ft _ this] tk z(1) assms(5) obtain st1 where 1: "imagoscan ?s = Inr st1"
    "scanned k' (text_of (K' @ [K_Stop]) @ r) st1" "stays ?s st1" "fits (2 * length K + b) (vcount K') st1" by auto
  note s1 = staysD [OF 1(3), unfolded oz]
  have rd: "reading (K @ K_Stop # []) r st1" using 1(2) by (simp add: K')
  have left: "length K \<le> state_left st1"
    using 1(2) text_of_length [of "K' @ [K_Stop]"] by (simp add: scanned_def state_left_def text_left_def K')
  have sep: "separator K_Stop" by (simp add: separator_def)
  have "ready K K_Stop [] r (fuel_for st1) b 0 st1"
    using rd s1 assms(2) 1(4) left sep by (simp add: ready_def K' follower_def fuel_for_def os_def)
  hence "reads_as t K (opri os MAXPRI t) MAXPRI [K_Stop] r (fuel_for st1) b 0 st1"
    unfolding K_def using readable_all s1 assms(3) follow_separator [OF sep]
    by (intro readableD) (simp_all add: MAXPRI_def os_def)
  then obtain u st2 f2 where 2: "get_imagoterm (fuel_for st1) MAXPRI st1 = op_loop f2 MAXPRI (opri os MAXPRI t) (Some u) st2"
    "means (sc_tab st2) t u" "stays st1 st2" "reading [K_Stop] r st2" "fits b 0 st2" "fuel_for st1 \<le> f2 + 4 * length K"
    unfolding reads_as_def by blast
  have g: "get_imagoterm (fuel_for st1) MAXPRI st1 = Inr (Some u, st2)"
    unfolding 2(1) by (rule op_loop_stops [OF _ reading_tok [OF 2(4)]]) (use sep 2(6) left in \<open>simp_all add: stops_def fuel_for_def\<close>)
  have "tokentype st1 \<noteq> ENDFILE"
    using 1(2) tk by (cases k') (auto simp: scanned_def named_def scanned_char_def)
  hence "getimagoterm st = Inr (Some u, st2)"
    using 1(1) g separator_token [OF sep reading_tok [OF 2(4)]] by (simp add: getimagoterm_def Let_def)
  moreover have "stays ?s st2" by (rule stays_trans [OF 1(3) 2(3)])
  hence "grows (sc_tab st) (sc_tab st2)" "tables_ok (sc_tab st2)" using grows_trans [OF z(2)] by (simp_all add: stays_def)
  moreover have "sc_ch st2 = CHR '' ''" "sc_rest st2 = r" using 2(4) by (simp_all add: scanned_def)
  moreover have "room b (sc_tab st2)" using 2(5) by (simp add: fits_def)
  ultimately show ?thesis using 2(2) means_tree [OF 2(2)] by blast
qed

section \<open>Operators in the tables\<close>

lemma is_operator_upd:
  assumes "i < length (hash_space st)"
  shows "is_operator_node (upd_node i (hn_op_update f) st) j k
    = (if j = i then (case f (hn_op (node_of st i)) of None \<Rightarrow> None | Some ops \<Rightarrow> if 0 \<le> o_pri (ops k) then Some (ops k) else None)
       else is_operator_node st j k)"
  using assms by (simp add: is_operator_node_def node_of_upd)

lemma op_update_tables:
  assumes "tables_ok st"
  shows "tables_ok (upd_node i (hn_op_update f) st)" "name_node (upd_node i (hn_op_update f) st) = name_node st"
proof -
  let ?s = "upd_node i (hn_op_update f) st"
  note ok = tables_okD [OF assms]
  have n: "name_node ?s = name_node st" "var_node ?s = var_node st" by (rule name_node_upd; simp)+
  have nd: "hn_terms (node_of ?s j) = hn_terms (node_of st j)" "hn_special (node_of ?s j) = hn_special (node_of st j)"
    "hn_var_index (node_of ?s j) = hn_var_index (node_of st j)" for j
    by (simp_all add: node_of_upd)
  have fv: "fun_val ?s = fun_val st" by (simp add: fun_eq_iff fun_val_def n nd split: option.split)
  have ix: "var_idx ?s = var_idx st" by (simp add: fun_eq_iff var_idx_def n nd split: option.split)
  have "values_ok ?s" by (rule values_ok_cong [OF ok(1)]) (use ok(3) fv in simp_all)
  moreover have "vars_ok ?s"
    using ok(2) ok(3) n ix nd unfolding vars_ok_def by simp
  ultimately show "tables_ok ?s" "name_node ?s = name_node st" using n by (simp_all add: tables_ok_def)
qed

lemma functors_update_tables:
  assumes "tables_ok st"
  shows "tables_ok (st\<lparr>functors := g\<rparr>)" "name_node (st\<lparr>functors := g\<rparr>) = name_node st" "op_of (st\<lparr>functors := g\<rparr>) = op_of st"
proof -
  let ?s = "st\<lparr>functors := g\<rparr>"
  note ok = tables_okD [OF assms]
  have n: "name_node ?s = name_node st" "var_node ?s = var_node st" by (rule name_node_cong; simp)+
  have fv: "fun_val ?s = fun_val st" "op_of ?s = op_of st" by (rule fun_val_cong; simp)+
  have c: "chains_ok ?s = chains_ok st" by (rule chains_ok_cong) simp_all
  have ix: "var_idx ?s = var_idx st" by (simp add: fun_eq_iff var_idx_def n split: option.split)
  have "values_ok ?s" by (rule values_ok_cong [OF ok(1)]) (use ok(3) fv c in simp_all)
  moreover have "vars_ok ?s" using ok(2) n ix c unfolding vars_ok_def by simp
  ultimately show "tables_ok ?s" "name_node ?s = name_node st" "op_of ?s = op_of st" using n fv by (simp_all add: tables_ok_def)
qed

text \<open>An update of the operators of one name.\<close>

lemma op_of_update:
  assumes "tables_ok st" "name_node st s = Some i"
  shows "op_of (upd_node i (hn_op_update f) st) = (op_of st)(s := (\<lambda>k. case f (hn_op (node_of st i)) of
    None \<Rightarrow> None | Some ops \<Rightarrow> if 0 \<le> o_pri (ops k) then Some (ops k) else None))"
proof -
  have c: "chains_ok st" by (rule tables_okD(3) [OF assms(1)])
  note i = name_node_bound [OF c assms(2)]
  have "j \<noteq> i" if "x \<noteq> s" "name_node st x = Some j" for x j
    using name_node_bound [OF c that(2)] i that(1) by auto
  thus ?thesis using assms(2) i
    by (auto simp: fun_eq_iff op_of_def op_update_tables(2) [OF assms(1)] is_operator_upd split: option.split)
qed

lemma addop_row_defines:
  assumes "tables_ok st" "name_node st s = Some i" "hn_op (node_of st i) = Some ops" "0 < pri"
    "addop_row s ty pri l r i st = Inr st'"
  shows "tables_ok st' \<and> op_of st' = (op_of st)(s := (op_of st s)(ty := Some \<lparr>o_pri = pri, o_left = l, o_right = r\<rparr>))"
proof -
  let ?row = "\<lparr>o_pri = pri, o_left = l, o_right = r\<rparr>" and ?n = "if ty = BINARY then 2 else 1 :: int"
  have ins: "insert_name s (stringsum s) st = Inr (i, st)" by (rule names.ins_old [OF tables_okD(3) [OF assms(1)] assms(2)])
  obtain t st1 st2 where 1: "argunum_imagoterm i (T_FUNC s 0 0 []) ?n st = Inr (t, st1)"
    "numfunc (term_val t) ?n s ty st1 = Inr st2" "st' = upd_node i (hn_op_update (map_option (\<lambda>ops. ops(ty := ?row)))) st2"
    using assms(4,5) ins by (auto simp: addop_row_def hashbuiltina_def Let_def split: if_splits)
  note a = argunum_tables [OF assms(1) 1(1)]
  obtain g where st2: "st2 = st1\<lparr>functors := g\<rparr>" using 1(2) by (auto simp: numfunc_def split: if_splits)
  note f = functors_update_tables [OF a(1), of g, folded st2]
  have n: "name_node st2 s = Some i" using a(2) assms(2) f(2) by (simp add: grows_def)
  have o: "hn_op (node_of st2 i) = Some ops" "op_of st2 = op_of st"
    using a(2) assms(3) name_node_bound [OF tables_okD(3) [OF assms(1)] assms(2)] f(3) by (auto simp: grows_def st2)
  have os: "op_of st s = (\<lambda>k. if 0 \<le> o_pri (ops k) then Some (ops k) else None)"
    by (simp add: fun_eq_iff op_of_def assms(2,3) is_operator_node_def)
  have "op_of st' = (op_of st)(s := (op_of st s)(ty := Some ?row))"
    unfolding 1(3) op_of_update [OF f(1) n] o os using assms(4) by (simp add: fun_eq_iff)
  thus ?thesis using op_update_tables(1) [OF f(1)] by (simp add: 1(3))
qed

lemma addop_defines:
  assumes "tables_ok st" "0 < pri" "addop s ty pri l r False st = Inr st'"
  shows "tables_ok st' \<and> op_of st' = (op_of st)(s := (op_of st s)(ty := Some \<lparr>o_pri = pri, o_left = l, o_right = r\<rparr>))"
proof -
  obtain i st1 where 1: "insert_name s (stringsum s) st = Inr (i, st1)"
    using assms(2,3) by (auto simp: addop_def split: if_splits)
  note t = insert_name_tables [OF assms(1) 1]
  have o: "op_of st1 = op_of st" using t(2) by (simp add: grows_def)
  have len: "i < length (hash_space st1)" using name_node_bound [OF tables_okD(3) [OF t(1)] t(5)] by simp
  show ?thesis
  proof (cases "hn_op (node_of st1 i)")
    case None
    let ?s = "upd_node i (hn_op_update (\<lambda>_. Some new_ops)) st1"
    have "addop_row s ty pri l r i ?s = Inr st'" using assms(2,3) 1 None by (auto simp: addop_def split: if_splits)
    moreover have "hn_op (node_of ?s i) = Some new_ops" using len by (simp add: node_of_upd)
    moreover have "op_of ?s = op_of st1"
      unfolding op_of_update [OF t(1,5)] using t(5) None by (auto simp: fun_eq_iff op_of_def is_operator_node_def new_ops_def)
    ultimately show ?thesis
      using addop_row_defines [of ?s s i new_ops pri ty l r st'] op_update_tables [OF t(1)] t(5) assms(2) o by simp
  next
    case (Some ops)
    hence "addop_row s ty pri l r i st1 = Inr st'" using assms(2,3) 1 by (auto simp: addop_def split: if_splits)
    thus ?thesis using addop_row_defines [OF t(1,5) Some assms(2)] o by simp
  qed
qed

section \<open>A table with an operator\<close>

definition minus_row :: op_row where "minus_row = \<lparr>o_pri = 31, o_left = 31, o_right = 30\<rparr>"

definition demo_term :: stree where
  "demo_term = S_Fun ''-'' [S_Fun ''-'' [S_Var ''X'', S_Num (R_LIT ''1'' [] False [])], S_Fun ''f'' [S_Var ''X'']]"

definition demo_reader :: "string \<Rightarrow> symtab \<Rightarrow> scanner" where
  "demo_reader text tab = \<lparr>sc_ch = CHR '' '', sc_rest = text, tokentype = NO_TOKEN, tokenchar = EOFC,
     tokenpointer = None, tok_node = 0, hnode_emptylist = 0, comma_flg = False, bar_flg = False, sc_tab = tab\<rparr>"

lemma op_of_empty: "op_of empty_symtab s k = None"
  by (simp add: op_of_def name_node_def find_node_def empty_symtab_def)

lemma demo_operator:
  obtains tab where "tables_ok tab" "op_of tab = (\<lambda>s k. if s = ''-'' \<and> k = BINARY then Some minus_row else None)" "room 40 tab"
proof -
  have "case operator_add ''-'' ''yfx'' 31 empty_symtab of Inl e \<Rightarrow> False
    | Inr (b, tab) \<Rightarrow> cur_func_id tab = 252 \<and> length (hash_space tab) = 1" by code_simp
  then obtain b tab where t: "operator_add ''-'' ''yfx'' 31 empty_symtab = Inr (b, tab)"
    "cur_func_id tab = 252" "length (hash_space tab) = 1" by (auto split: sum.splits)
  hence "addop ''-'' BINARY 31 31 30 False empty_symtab = Inr tab" by (auto simp: operator_add_def)
  from addop_defines [OF empty_tables_ok _ this] have "tables_ok tab"
    "op_of tab = (op_of empty_symtab)(''-'' := (op_of empty_symtab ''-'')(BINARY := Some minus_row))" by (simp_all add: minus_row_def)
  thus thesis using that [of tab] t(2,3) by (simp add: room_def fun_eq_iff op_of_empty INIT_HASH_SPACE_def MAXFUNCTORS_def)
qed

theorem reader_inverts_printing_witness:
  "\<exists>tab u st'. getimagoterm (demo_reader ''X - 1 - f ( X ) . '' tab) = Inr (Some u, st') \<and> tree_of u = demo_term"
proof -
  obtain tab where tab: "tables_ok tab" "op_of tab = (\<lambda>s k. if s = ''-'' \<and> k = BINARY then Some minus_row else None)" "room 40 tab"
    by (rule demo_operator)
  let ?st = "demo_reader ''X - 1 - f ( X ) . '' tab"
  have h: "hash_ok ''X''" "hash_ok ''f''" "hash_ok ''-''" by code_simp+
  have c: "has_class A_UC CHR ''X''" "has_class A_N CHR ''1''" "quotable CHR ''f''" "quotable CHR ''-''" "bare ''-''" "bare ''f''" by code_simp+
  have k: "toks (op_of tab) False MAXPRI demo_term = [K_Var ''X'', K_Name ''-'', K_Num (R_LIT ''1'' [] False []), K_Name ''-'',
    K_Name ''f'', K_Open, K_Var ''X'', K_Close]"
    by (simp add: demo_term_def tab(2) minus_row_def MAXPRI_def op_tok_def)
  have 1: "sc_tab ?st = tab" "sc_ch ?st = CHR '' ''" "sc_rest ?st = print_term (op_of tab) demo_term @ []"
    by (simp_all add: demo_reader_def print_term_def k text_of_def name_text_def c(5,6))
  have 2: "ops_ok (op_of tab)" by (simp add: ops_ok_def tab(2) minus_row_def MAXPRI_def)
  have 3: "printable (op_of tab) demo_term"
    by (simp add: demo_term_def tab(2) name_ok_def h c LINE_BUF_def)
  have 4: "term_room demo_term 0 tab" using tab(3) by (simp add: term_room_def k room_def MAXVAR_def)
  show ?thesis using reader_inverts_printing [of ?st demo_term 0 "[]", unfolded 1(1), OF tab(1) 2 3 4 1(2,3)] by blast
qed

section \<open>A syntax error\<close>

text \<open>The recovery skips the tokens up to the full stop.\<close>

lemma error_syntax_skips:
  assumes "reading (k # ks @ [K_Stop]) r st" "list_all (\<lambda>k. tok_ok False k \<and> k \<noteq> K_Stop) (k # ks)" "comma_flg st = False"
    "tables_ok (sc_tab st)" "fits (Suc (length ks)) (vcount ks) st"
  shows "\<exists>st'. error_syntax st = H_Syntax st' \<and> sc_ch st' = CHR '' '' \<and> sc_rest st' = r"
  using assms
proof (induction ks arbitrary: k st)
  case Nil
  have n: "\<not> (is_punc (CHR ''.'') st \<or> tokentype st = ENDFILE)"
    using Nil.prems(1,2) by (cases k) (auto simp: scanned_def named_def scanned_char_def is_punc_def)
  have "step_ok K_Stop r st 0 0 (scan_token st)"
    by (rule scan_tok_step) (use Nil.prems in \<open>simp_all add: scanned_def text_of_def\<close>)
  then obtain st' where s: "scan_token st = Inr st'" "scanned K_Stop r st'" by (auto simp: step_ok_def)
  have "is_punc (CHR ''.'') st'" using s(2) by (simp add: scanned_def scanned_char_def is_punc_def)
  hence "error_syntax st' = H_Syntax st'" by (subst error_syntax.simps) simp
  moreover have "error_syntax st = error_syntax st'" using n s(1) by (subst error_syntax.simps) simp
  ultimately show ?case using s(2) by (simp add: scanned_def)
next
  case (Cons k' ks)
  have n: "\<not> (is_punc (CHR ''.'') st \<or> tokentype st = ENDFILE)"
    using Cons.prems(1,2) by (cases k) (auto simp: scanned_def named_def scanned_char_def is_punc_def)
  have "step_ok k' (text_of (ks @ [K_Stop]) @ r) st (Suc (length ks)) (vcount ks) (scan_token st)"
    by (rule scan_tok_step) (use Cons.prems in \<open>simp_all add: scanned_def text_of_Cons\<close>)
  then obtain st' where s: "scan_token st = Inr st'" "reading (k' # ks @ [K_Stop]) r st'" "stays st st'" "fits (Suc (length ks)) (vcount ks) st'"
    by (auto simp: step_ok_def)
  have "error_syntax st = error_syntax st'" using n s(1) by (subst error_syntax.simps) simp
  thus ?case using Cons.IH [OF s(2)] Cons.prems(2,3) staysD [OF s(3)] s(4) by simp
qed

text \<open>
  Claim C23.  A syntax error ends the reading of the file: where a clause begins with a
  closing parenthesis, the tokens up to the next full stop are skipped, and readsourcefile
  returns with the clauses it had; the rest of the text, whatever it holds, is not read.
\<close>

theorem syntax_error_ends_reading:
  assumes "tables_ok (sc_tab (cp_scan cp))" "list_all (\<lambda>k. tok_ok False k \<and> k \<noteq> K_Stop) ks"
    "room (length ks + 2) (sc_tab (cp_scan cp))" "vcount ks \<le> MAXVAR"
    "sc_ch (cp_scan cp) = CHR '' ''" "sc_rest (cp_scan cp) = text_of (K_Close # ks @ [K_Stop]) @ r"
  shows "\<exists>st'. readsourcefile cp = Inr (cp\<lparr>cp_scan := st'\<rparr>) \<and> sc_ch st' = CHR '' '' \<and> sc_rest st' = r"
proof -
  let ?s = "(cp_scan cp)\<lparr>comma_flg := False, bar_flg := False, sc_tab := zero_vars (sc_tab (cp_scan cp))\<rparr>"
  note z = zero_vars_tables [OF assms(1)]
  have ft: "fits (Suc (Suc (length ks))) (is_var_tok K_Close + vcount ks) ?s"
    using z(4) z(6) [OF assms(3)] assms(4) by (simp add: fits_def)
  have "sc_rest ?s = tok_text K_Close @ CHR '' '' # text_of (ks @ [K_Stop]) @ r" using assms(6) by (simp add: text_of_Cons)
  from scan_tok [of ?s, OF _ _ ft _ this] z(1) assms(5) obtain st1 where 1: "imagoscan ?s = Inr st1"
    "reading (K_Close # ks @ [K_Stop]) r st1" "stays ?s st1" "fits (Suc (length ks)) (vcount ks) st1" by auto
  have t: "tokentype st1 = PAREN" "tokenchar st1 = CHR '')''" using 1(2) by (simp_all add: scanned_def scanned_char_def)
  obtain f where f: "fuel_for st1 = Suc f" by (simp add: fuel_for_def)
  have g: "get_imagoterm (fuel_for st1) MAXPRI st1 = Inr (None, st1)" using t by (simp add: f)
  obtain st2 where 2: "error_syntax st1 = H_Syntax st2" "sc_ch st2 = CHR '' ''" "sc_rest st2 = r"
    using error_syntax_skips [OF 1(2) _ _ _ 1(4)] assms(2) staysD [OF 1(3)] by auto
  have "getimagoterm (cp_scan cp) = Inr (None, st2)"
    using 1(1) g t 2(1) by (simp add: getimagoterm_def Let_def is_punc_def)
  hence "readsourcefile cp = Inr (cp\<lparr>cp_scan := st2\<rparr>)" by (simp add: readsourcefile_def)
  thus ?thesis using 2 by blast
qed

theorem syntax_error_ends_reading_witness:
  "\<exists>st'. readsourcefile \<lparr>cp_scan = demo_reader '') . f ( a ) . '' empty_symtab, cp_ct = empty_clause_table\<rparr>
    = Inr \<lparr>cp_scan = st', cp_ct = empty_clause_table\<rparr> \<and> sc_rest st' = ''f ( a ) . ''"
proof -
  let ?cp = "\<lparr>cp_scan = demo_reader '') . f ( a ) . '' empty_symtab, cp_ct = empty_clause_table\<rparr>"
  have "room (Suc (Suc 0)) empty_symtab" by (simp add: room_def empty_symtab_def INIT_HASH_SPACE_def MAXFUNCTORS_def UNSER_DEF_PREDICATE_def)
  hence "\<exists>st'. readsourcefile ?cp = Inr (?cp\<lparr>cp_scan := st'\<rparr>) \<and> sc_ch st' = CHR '' '' \<and> sc_rest st' = ''f ( a ) . ''"
    using syntax_error_ends_reading [of ?cp "[]" "''f ( a ) . ''"] empty_tables_ok by (simp add: demo_reader_def text_of_def)
  thus ?thesis by auto
qed

end
