(* ===== verification/Spec2Isabelle.thy ===== *)
theory Spec2Isabelle
  imports MLVM_Unify_Correct MLVM_Engine_Correct MLVM_Instr_Correct MLVM_Timeslice
    MLVM_System_Props MLVM_Frame_Correct MLVM_Memory_Correct MLVM_Collect_Props MLVM_Messages_Correct
    MLVM_Builtins_Correct MLVM_Creator_Correct MLVM_Transport MLVM_Delivery_Correct
    MLVM_Clauses_Correct MLVM_Reading_Props
begin

text \<open>
  The Imago virtual machine (mlvm): a server in C that runs mobile agents,
  "imagoes", compiled from a logic language.  An imago lives in one memory block
  (names, procedures, code, stack) described by its control block, the ICB.  ICBs
  travel through queues between system threads; the scheduler runs the abstract
  machine of engine/engine.c on the ready ones and routes each by the status the
  machine leaves.

  \<^bold>\<open>The theories and the code they model\<close>

  \<^item> MLVM_Prelude: 32-bit words, the store (a map from byte addresses to words,
    int* arithmetic in steps of 4), C loops as while_option, shared lemmas.
  \<^item> MLVM_Tags (opcode/opcode.h, opcode/opcode.c): the tag macros for references,
    lists, structures, atoms, integers and boxed doubles, with the round trips of
    the constructors and selectors.
  \<^item> MLVM_Opcodes (opcode/opcode.h, opcode/opcode.c, include/system.h): opcodes,
    instruction formats, opcode_tab and adjust_code, the code walker shared by
    loader, cloner and memory manager.
  \<^item> MLVM_Machine (include/engine.h, include/imago_icb.h): the registers of
    engine() and its frames, trail, context switch and dereferencing.
  \<^item> MLVM_Unify (engine/engine.c, UNIFY), MLVM_Control (calls, frames, choice
    points, cuts, builtin calls), MLVM_PutSetGet (argument and structure
    instructions), MLVM_Arith (arithmetic, tests, hashing), MLVM_Compare (term
    comparison) and MLVM_Engine (the dispatch loop and the entry of engine): one
    definition per instruction, named i_ and the opcode.
  \<^item> MLVM_Queue (system/queue.c, transport/queue.c): the pointer queues, with a
    locale for the interface they share, interpreted on both.
  \<^item> MLVM_System (include/system.h, system/queue.c, system/mlvm.c): the shared
    state, the queue macros, ICB and log pools, dispose_of and system_flush.
  \<^item> MLVM_Threads (system/imago_*.c): the bodies of the six system threads.
  \<^item> MLVM_Collect (memory/mmanager.c, do_collection): the garbage collector, from the
    roots on the trail to the copies moved back.
  \<^item> MLVM_Memory (memory/mmanager.c, creator/creator.c): mmanager and the expansion
    of a block, clone_block and load_system_file.
  \<^item> MLVM_Names (creator/creator.c): search_index and name_table_expansion on the name
    table of an imago, arg_size, and copy_arg, which copies a term between imagoes.
  \<^item> MLVM_Builtins (builtins/bp_impl.c, builtins/builtins.c): the builtin predicates on
    the caller's own terms, names and status, and their table; MLVM_Messages: attach,
    accept, wait_accept, syscall and workers, with the matching of messengers.
  \<^item> MLVM_Creator (creator/creator.c): the loaders of code files, the builtin messengers,
    cloning, dispatching, and the answers to attached messengers; with_creator puts
    them into the environment of the threads.
  \<^item> MLVM_Frame (transport/frame.c): byte frames, their pool and every operation on them.
  \<^item> MLVM_Timer (transport/timer.c): the table of timers behind the one alarm of the
    process.  MLVM_State_Machine (transport/state_machine.c): the table of handlers.
  \<^item> MLVM_Pdu (transport/imago_pdu.c): the table of PDUs; MLVM_Backup
    (transport/pdu_backup.c): their copies on disk.
  \<^item> The layers of the transport protocol, MLVM_Layers (what they share, start-up),
    MLVM_Marshal (an imago to bytes and back), MLVM_Rendezvous (requests, answers,
    time-outs), MLVM_Routing, MLVM_Connection (connections and datagrams) and
    MLVM_Transport (security of the default build, a turn of a transport thread).  The
    state is one record per theory, each extending the one before: timers, net, spool,
    stack, wires.
  \<^item> The front end of the compiler: MLVM_Symtab (imagoc/parser.c: names, functors,
    operators, variables), MLVM_Scan (imagoc/scan.c), MLVM_Parser (imagoc/parser.c: the
    reader of terms) and MLVM_Clauses (imagoc/parser.c: procedures and their clauses,
    readsourcefile, the initial tables).  Its state is the record compiler: the scanner
    with the symbol tables, and the clause table.

  \<^bold>\<open>What is proved\<close>

  \<^item> MLVM_Unify_Correct: terms are read through valuations of the variables of the
    store.  Unification computes exactly the common solutions, ends on ground
    terms, is undone by the trail, and can tie reference cycles.
  \<^item> MLVM_Engine_Correct: entry and context switch, calls and returns, choice
    points: try followed by retry or trust.
  \<^item> MLVM_Instr_Correct: dereferencing, instruction lengths, builtin calls, hashing.
  \<^item> MLVM_Timeslice: the backtrack allowance bounds a time slice.
  \<^item> MLVM_System_Correct: the invariant sys_rep of the queues (well-formed chains,
    disjoint, queued ICBs unlocked, jobs counts the runnable ICBs) is kept by every
    handler; MLVM_System_Props: its consequence for arbitrary runs, what each queue
    and pool operation promises, routing, the timer, and what becomes of waiting
    messengers and of ICBs waiting for memory.
  \<^item> MLVM_Collect_Scan, MLVM_Collect_Models, MLVM_Collect_Correct, MLVM_Collect_Props: the
    scan keeps an invariant that says for every word of the buffer what it stands for;
    a collection ends and preserves the solutions of the store (same valuations as
    for unification), seen from the arguments and from the cells below the
    collecting line.  Boxed doubles above the line are excluded: there the scan is wrong.
  \<^item> MLVM_Memory_Correct: the stack of a clone is the original, relocated.
    MLVM_Frame_Correct: round trips, splits and limits of frames.
  \<^item> MLVM_Names_Correct: the name table implements a list of distinct strings;
    MLVM_Copy_Correct: copy_arg delivers the term it is given, names resolved anew.
    MLVM_Messages_Correct: a matched messenger delivers its term, messages unify as the
    engine unifies, and what a failure leaves behind.  MLVM_Builtins_Correct: functor,
    arg, length and atom_concat.
  \<^item> MLVM_Code_Correct: a program is the list of its instructions; loading writes its
    words, cloning relocates them, both for every format of the table.
    MLVM_Creator_Correct: the loaders keep what is held out of the queues (kept), so that
    the server with its own engine, memory manager and creator satisfies env_ok; the
    layout of a loaded block.
  \<^item> MLVM_Pdu_Correct and MLVM_Header_Correct: frames_now says that an operation changes
    only the bytes of one PDU; the headers written by a host are read by its peer.
    MLVM_Backup_Correct: pdu_now, one record changed; saving and loading.
    MLVM_Rendezvous_Correct, MLVM_Delivery_Correct: answers and time-outs on both sides.
  \<^item> MLVM_Symtab_Correct: the two symbol tables implement maps of strings (locale symbols),
    the invariant tables_ok of names, values and variable numbers.  MLVM_Reader_Correct:
    reading ends, and keeps every invariant of the tables that their operations keep (locale
    table_invariant).  MLVM_Clauses_Correct: the procedures implement a map (locale
    procedures); their clauses are linked in the order of the text.  MLVM_Tokens_Correct
    and MLVM_Parser_Correct: tokens and terms, printed with operators and parentheses,
    are read back, the fuel bounded by the number of tokens; MLVM_Reading_Props: the same for
    getimagoterm, what operator_add defines, and what a syntax error does to the file.

  \<^bold>\<open>Modelling choices\<close>

  A C int or pointer is a 32-bit word with wrap-around.  A loop that may not end is
  while_option: None is the run that does not return, and a theorem that the code
  returns says Some.  An instruction yields an outcome: control goes on, engine
  returns to the scheduler, behaviour C leaves undefined, or no end.  A thread pass
  yields a fault (a lock that is never released, a null pointer, an uninitialised
  pointer) or the new state.  Threads are interleaved at whole passes, which each
  hold the ICB they work on.  Only the reader of the compiler
  recurs on fuel, of which readsourcefile and getimagoterm give what the text left to
  read can use up: readsourcefile_ends shows that it never runs out.  Double arithmetic, the
  clock, malloc, the network and the disk are parameters; the ones a property relies
  on have a contract (env_ok).

  \<^bold>\<open>Not modelled\<close>

  The system threads take transport_send as a parameter; the transport protocol is a
  model of its own, on top of the state of the threads.
  Its options, the set-up of sockets, the creation of threads and the build with
  encryption, which calls OpenSSL, are left out.  The engine model takes the builtins as a parameter on
  the control block and the store, so that nothing about it depends on one of them.
  The builtins nl, write and flush print, the lock of the log and those of the queues
  are not part of the state.  Of the compiler, the memory blocks behind its nodes and
  strings, line counters and messages are left out.  Its code generator, the assembler,
  configuration, clients, stubs, logging, tracing and the vendored
  memory checker are outside it: they are I/O, separate tools or third-party code.
\<close>

end
